(* ===== verification/Prelude.thy ===== *)
theory Prelude imports Main "HOL-Library.FSet" "HOL-Library.Finite_Map" "HOL-Library.Sublist" "HOL-Library.List_Lexorder" "HOL-Library.Char_ord" "HOL-Library.Code_Target_Nat" begin

text \<open>
  What every component of the development shares: the reading of Rust's strings as byte lists
  with the operations of \<open>str\<close> the broker uses, decimal and hexadecimal spelling, the saturating
  and wrapping arithmetic of \<open>i64\<close>, and a few facts on finite sets.

  A Rust \<open>String\<close> is UTF-8, and HOL's \<open>char\<close> is a byte, so a \<open>string\<close> here is the byte sequence
  of the Rust string: \<open>length\<close> is \<open>str::len\<close>, the order of \<open>List_Lexorder\<close> is \<open>Ord for str\<close>, and a
  split at an ASCII character is the split of the bytes.
\<close>

named_theorems scope_simps \<open>unfolding rules for the scope lattices\<close>
named_theorems op_defs \<open>definitions of the broker operations\<close>

type_synonym bytes = string

section \<open>Strings\<close>

text \<open>\<open>str::split(c)\<close> with a character: always at least one piece.\<close>

fun split_on :: "char \<Rightarrow> string \<Rightarrow> string list" where
  "split_on c [] = [[]]"
| "split_on c (x # xs) =
     (if x = c then [] # split_on c xs
      else (case split_on c xs of [] \<Rightarrow> [[x]] | y # ys \<Rightarrow> (x # y) # ys))"

text \<open>\<open>[..].join(sep)\<close>.\<close>

fun join_with :: "string \<Rightarrow> string list \<Rightarrow> string" where
  "join_with sep [] = []"
| "join_with sep [x] = x"
| "join_with sep (x # y # ys) = x @ sep @ join_with sep (y # ys)"

text \<open>\<open>str::split_once(c)\<close>: at the first occurrence; \<open>None\<close> when there is none.\<close>

fun split_once :: "char \<Rightarrow> string \<Rightarrow> (string \<times> string) option" where
  "split_once c [] = None"
| "split_once c (x # xs) =
     (if x = c then Some ([], xs) else map_option (\<lambda>(a, b). (x # a, b)) (split_once c xs))"

text \<open>\<open>str::rsplit_once(c)\<close>: at the last occurrence.\<close>

definition rsplit_once :: "char \<Rightarrow> string \<Rightarrow> (string \<times> string) option" where
  "rsplit_once c s = map_option (\<lambda>(a, b). (rev b, rev a)) (split_once c (rev s))"

text \<open>\<open>str::strip_prefix\<close>.\<close>

fun strip_prefix :: "string \<Rightarrow> string \<Rightarrow> string option" where
  "strip_prefix [] s = Some s"
| "strip_prefix (p # ps) [] = None"
| "strip_prefix (p # ps) (x # xs) = (if p = x then strip_prefix ps xs else None)"

text \<open>The byte index \<open>str::find(c)\<close> returns.\<close>

fun find_char :: "char \<Rightarrow> string \<Rightarrow> nat option" where
  "find_char c [] = None"
| "find_char c (x # xs) = (if x = c then Some 0 else map_option Suc (find_char c xs))"

definition starts_with :: "string \<Rightarrow> string \<Rightarrow> bool" where
  "starts_with p s \<longleftrightarrow> prefix p s"

definition ends_with :: "string \<Rightarrow> string \<Rightarrow> bool" where
  "ends_with p s \<longleftrightarrow> suffix p s"

definition replace_char :: "char \<Rightarrow> char \<Rightarrow> string \<Rightarrow> string" where
  "replace_char a b s = map (\<lambda>x. if x = a then b else x) s"

definition is_ascii_digit :: "char \<Rightarrow> bool" where
  "is_ascii_digit c \<longleftrightarrow> 48 \<le> (of_char c :: nat) \<and> (of_char c :: nat) \<le> 57"

definition is_ascii_alphabetic :: "char \<Rightarrow> bool" where
  "is_ascii_alphabetic c \<longleftrightarrow>
     (65 \<le> (of_char c :: nat) \<and> (of_char c :: nat) \<le> 90) \<or>
     (97 \<le> (of_char c :: nat) \<and> (of_char c :: nat) \<le> 122)"

definition is_ascii_alphanumeric :: "char \<Rightarrow> bool" where
  "is_ascii_alphanumeric c \<longleftrightarrow> is_ascii_alphabetic c \<or> is_ascii_digit c"

subsection \<open>Facts on strings\<close>

lemma split_on_not_Nil [simp]: "split_on c s \<noteq> []"
  by (induction s) (auto split: list.splits)

lemma split_on_no_sep: "x \<in> set (split_on c s) \<Longrightarrow> c \<notin> set x"
  by (induction s arbitrary: x) (auto split: list.splits if_splits)

lemma split_on_subset: "x \<in> set (split_on c s) \<Longrightarrow> set x \<subseteq> set s"
proof (induction s arbitrary: x)
  case (Cons a s)
  then show ?case
    by (cases "split_on c s") (fastforce split: if_splits)+
qed auto

lemma split_on_single: "c \<notin> set s \<Longrightarrow> split_on c s = [s]"
  by (induction s) auto

lemma split_on_append_sep: "c \<notin> set a \<Longrightarrow> split_on c (a @ c # b) = a # split_on c b"
  by (induction a) auto

lemma split_on_join:
  "xs \<noteq> [] \<Longrightarrow> \<forall>x\<in>set xs. c \<notin> set x \<Longrightarrow> split_on c (join_with [c] xs) = xs"
  by (induction "[c]" xs rule: join_with.induct) (auto simp: split_on_single split_on_append_sep)

lemma join_split_on: "join_with [c] (split_on c s) = s"
proof (induction s)
  case (Cons x s)
  obtain y ys where y: "split_on c s = y # ys" by (cases "split_on c s") auto
  show ?case
  proof (cases "x = c")
    case True
    then show ?thesis using Cons y by simp
  next
    case False
    then show ?thesis using Cons y by (cases ys) auto
  qed
qed simp

lemma split_once_Some_iff:
  "split_once c s = Some (a, b) \<longleftrightarrow> s = a @ c # b \<and> c \<notin> set a"
proof (induction s arbitrary: a)
  case (Cons x s)
  then show ?case by (cases a) auto
qed simp

lemma split_once_None_iff: "split_once c s = None \<longleftrightarrow> c \<notin> set s"
  by (induction s) auto

lemma split_once_append [simp]: "c \<notin> set a \<Longrightarrow> split_once c (a @ c # b) = Some (a, b)"
  by (simp add: split_once_Some_iff)

lemma strip_prefix_Some_iff: "strip_prefix p s = Some r \<longleftrightarrow> s = p @ r"
  by (induction p s rule: strip_prefix.induct) auto

lemma strip_prefix_append [simp]: "strip_prefix p (p @ r) = Some r"
  by (simp add: strip_prefix_Some_iff)

lemma find_char_None_iff: "find_char c s = None \<longleftrightarrow> c \<notin> set s"
  by (induction s) auto

lemma find_char_Some_iff:
  "find_char c s = Some i \<longleftrightarrow> i < length s \<and> s ! i = c \<and> c \<notin> set (take i s)"
proof (induction s arbitrary: i)
  case (Cons x s)
  then show ?case by (cases i) auto
qed simp

lemma find_char_append_sep [simp]: "c \<notin> set a \<Longrightarrow> find_char c (a @ c # b) = Some (length a)"
  by (induction a) auto

lemma set_replace_char: "a \<noteq> b \<Longrightarrow> a \<notin> set (replace_char a b s)"
  by (auto simp: replace_char_def)

lemma replace_char_idle: "a \<notin> set s \<Longrightarrow> replace_char a b s = s"
  unfolding replace_char_def by (induction s) auto

lemma join_with_set: "set (join_with sep xs) \<subseteq> set sep \<union> (\<Union>x\<in>set xs. set x)"
  by (induction sep xs rule: join_with.induct) auto

section \<open>Decimal and hexadecimal\<close>

definition digit_char :: "nat \<Rightarrow> char" where
  "digit_char d = (if d < 10 then char_of (48 + d) else char_of (87 + d))"

text \<open>\<open>format!("{}")\<close> of an unsigned number, least significant digit produced first.\<close>

fun show_nat_rev :: "nat \<Rightarrow> string" where
  "show_nat_rev n = (if n < 10 then [digit_char n] else digit_char (n mod 10) # show_nat_rev (n div 10))"

declare show_nat_rev.simps [simp del]

definition show_nat :: "nat \<Rightarrow> string" where
  "show_nat n = rev (show_nat_rev n)"

definition show_int :: "int \<Rightarrow> string" where
  "show_int i = (if i < 0 then CHR ''-'' # show_nat (nat (- i)) else show_nat (nat i))"

definition dec_digit :: "char \<Rightarrow> nat option" where
  "dec_digit c = (if is_ascii_digit c then Some (of_char c - 48) else None)"

fun read_digits_rev :: "string \<Rightarrow> nat option" where
  "read_digits_rev [] = Some 0"
| "read_digits_rev (c # cs) =
     (case (dec_digit c, read_digits_rev cs) of (Some d, Some n) \<Rightarrow> Some (10 * n + d) | _ \<Rightarrow> None)"

definition u64_max :: nat where "u64_max = 2 ^ 64 - 1"
definition u32_max :: nat where "u32_max = 2 ^ 32 - 1"
definition u16_max :: nat where "u16_max = 2 ^ 16 - 1"
definition i64_max :: int where "i64_max = 2 ^ 63 - 1"
definition i64_min :: int where "i64_min = - (2 ^ 63)"

text \<open>
  \<open>str::parse\<close> to an unsigned type: an optional \<open>+\<close>, at least one decimal digit, and a value that
  fits; anything else is an error.
\<close>

definition parse_unsigned :: "nat \<Rightarrow> string \<Rightarrow> nat option" where
  "parse_unsigned hi s =
     (let ds = (case s of c # cs \<Rightarrow> if c = CHR ''+'' then cs else s | [] \<Rightarrow> [])
      in if ds = [] then None
         else (case read_digits_rev (rev ds) of
                 None \<Rightarrow> None
               | Some n \<Rightarrow> if n \<le> hi then Some n else None))"

definition parse_i64 :: "string \<Rightarrow> int option" where
  "parse_i64 s =
     (case s of
        [] \<Rightarrow> None
      | c # cs \<Rightarrow>
          let neg = (c = CHR ''-'');
              ds = (if c = CHR ''-'' \<or> c = CHR ''+'' then cs else s)
          in if ds = [] then None
             else (case read_digits_rev (rev ds) of
                     None \<Rightarrow> None
                   | Some n \<Rightarrow>
                       let v = (if neg then - int n else int n)
                       in if i64_min \<le> v \<and> v \<le> i64_max then Some v else None))"

definition hex_digit :: "char \<Rightarrow> nat option" where
  "hex_digit c =
     (let n = (of_char c :: nat)
      in if 48 \<le> n \<and> n \<le> 57 then Some (n - 48)
         else if 97 \<le> n \<and> n \<le> 102 then Some (n - 87)
         else if 65 \<le> n \<and> n \<le> 70 then Some (n - 55)
         else None)"

lemma dec_digit_digit_char [simp]: "d < 10 \<Longrightarrow> dec_digit (digit_char d) = Some d"
  by (simp add: dec_digit_def digit_char_def is_ascii_digit_def)

lemma hex_digit_digit_char [simp]: "d < 16 \<Longrightarrow> hex_digit (digit_char d) = Some d"
  by (auto simp: hex_digit_def digit_char_def Let_def)

lemma digit_char_inj: "d < 16 \<Longrightarrow> e < 16 \<Longrightarrow> digit_char d = digit_char e \<Longrightarrow> d = e"
  by (metis hex_digit_digit_char option.inject)

lemma show_nat_rev_not_Nil [simp]: "show_nat_rev n \<noteq> []"
  by (subst show_nat_rev.simps) simp

lemma show_nat_not_Nil [simp]: "show_nat n \<noteq> []"
  by (simp add: show_nat_def)

lemma read_show_nat_rev [simp]: "read_digits_rev (show_nat_rev n) = Some n"
proof (induction n rule: show_nat_rev.induct)
  case (1 n)
  then show ?case by (subst show_nat_rev.simps) auto
qed

lemma set_show_nat_rev: "c \<in> set (show_nat_rev n) \<Longrightarrow> is_ascii_digit c"
proof (induction n rule: show_nat_rev.induct)
  case (1 n)
  have d: "d < 10 \<Longrightarrow> is_ascii_digit (digit_char d)" for d
    by (simp add: is_ascii_digit_def digit_char_def)
  show ?case
    using 1 d[of n] d[of "n mod 10"] by (subst (asm) show_nat_rev.simps) (auto split: if_splits)
qed

lemma set_show_nat: "c \<in> set (show_nat n) \<Longrightarrow> is_ascii_digit c"
  by (simp add: show_nat_def set_show_nat_rev)

lemma show_nat_no_char [simp]: "\<not> is_ascii_digit c \<Longrightarrow> c \<notin> set (show_nat n)"
  using set_show_nat by blast

lemma show_nat_inj [simp]: "show_nat m = show_nat n \<longleftrightarrow> m = n"
  by (metis show_nat_def rev_is_rev_conv option.inject read_show_nat_rev)

lemma parse_show_nat [simp]: "n \<le> hi \<Longrightarrow> parse_unsigned hi (show_nat n) = Some n"
proof -
  assume n: "n \<le> hi"
  obtain c cs where s: "show_nat n = c # cs" by (cases "show_nat n") auto
  then have "is_ascii_digit c" by (intro set_show_nat[of c n]) simp
  then have "c \<noteq> CHR ''+''" by (auto simp: is_ascii_digit_def)
  then have "(case show_nat n of c # cs \<Rightarrow> if c = CHR ''+'' then cs else show_nat n | [] \<Rightarrow> []) = show_nat n"
    by (simp add: s)
  then show ?thesis
    using n by (simp add: parse_unsigned_def Let_def) (simp add: show_nat_def)
qed

lemma parse_unsigned_le: "parse_unsigned hi s = Some n \<Longrightarrow> n \<le> hi"
  by (auto simp: parse_unsigned_def Let_def split: option.splits if_splits)

subsection \<open>Bytes as hexadecimal\<close>

text \<open>\<open>lease::to_hex\<close> and \<open>cert::to_hex\<close>: two lowercase digits for each byte.\<close>

definition byte_hex :: "char \<Rightarrow> string" where
  "byte_hex b = [digit_char (of_char b div 16), digit_char (of_char b mod 16)]"

definition to_hex :: "bytes \<Rightarrow> string" where
  "to_hex bs = concat (map byte_hex bs)"

text \<open>
  \<open>u8::from_str_radix(s, 16)\<close> on a two-byte slice. The standard library accepts a leading \<open>+\<close>.
\<close>

definition hex_pair :: "char \<Rightarrow> char \<Rightarrow> char option" where
  "hex_pair a b =
     (if a = CHR ''+'' then map_option char_of (hex_digit b)
      else (case (hex_digit a, hex_digit b) of
              (Some h, Some l) \<Rightarrow> Some (char_of (16 * h + l))
            | _ \<Rightarrow> None))"

text \<open>\<open>from_hex\<close>: an even number of bytes, read two at a time.\<close>

fun from_hex :: "string \<Rightarrow> bytes option" where
  "from_hex [] = Some []"
| "from_hex [a] = None"
| "from_hex (a # b # rest) =
     (case (hex_pair a b, from_hex rest) of (Some x, Some xs) \<Rightarrow> Some (x # xs) | _ \<Rightarrow> None)"

lemma hex_pair_byte_hex:
  "hex_pair (digit_char (of_char b div 16)) (digit_char (of_char b mod 16)) = Some b"
proof -
  have lt: "(of_char b :: nat) < 256" by simp
  then have d: "(of_char b :: nat) div 16 < 16" by (simp add: less_mult_imp_div_less)
  have "digit_char (of_char b div 16) \<noteq> CHR ''+''"
  proof
    assume "digit_char (of_char b div 16) = CHR ''+''"
    then have "hex_digit (digit_char (of_char b div 16)) = None" by (simp add: hex_digit_def)
    with d show False by simp
  qed
  then show ?thesis using d by (simp add: hex_pair_def)
qed

lemma from_to_hex [simp]: "from_hex (to_hex bs) = Some bs"
  by (induction bs) (auto simp: to_hex_def byte_hex_def hex_pair_byte_hex)

lemma to_hex_inj: "to_hex a = to_hex b \<Longrightarrow> a = b"
  by (metis from_to_hex option.inject)

lemma length_to_hex [simp]: "length (to_hex bs) = 2 * length bs"
  by (induction bs) (auto simp: to_hex_def byte_hex_def)

lemma set_to_hex: "c \<in> set (to_hex bs) \<Longrightarrow> hex_digit c \<noteq> None"
proof (induction bs)
  case (Cons b bs)
  have "(of_char b :: nat) div 16 < 16" using nat_of_char_less_256[of b] by (simp add: less_mult_imp_div_less)
  then have "hex_digit (digit_char (of_char b div 16)) \<noteq> None" "hex_digit (digit_char (of_char b mod 16)) \<noteq> None"
    by simp_all
  then show ?case using Cons by (auto simp: to_hex_def byte_hex_def)
qed (simp add: to_hex_def)

lemma to_hex_no_char: "hex_digit c = None \<Longrightarrow> c \<notin> set (to_hex bs)"
  using set_to_hex by blast

text \<open>\<open>format!("{:0wx}")\<close> of an unsigned number.\<close>

fun show_hex_rev :: "nat \<Rightarrow> string" where
  "show_hex_rev n = (if n < 16 then [digit_char n] else digit_char (n mod 16) # show_hex_rev (n div 16))"

declare show_hex_rev.simps [simp del]

definition pad_hex :: "nat \<Rightarrow> nat \<Rightarrow> string" where
  "pad_hex w n = (let h = rev (show_hex_rev n) in replicate (w - length h) CHR ''0'' @ h)"

fun read_hex_rev :: "string \<Rightarrow> nat" where
  "read_hex_rev [] = 0"
| "read_hex_rev (c # cs) = (case hex_digit c of Some d \<Rightarrow> d | None \<Rightarrow> 0) + 16 * read_hex_rev cs"

lemma read_show_hex_rev: "read_hex_rev (show_hex_rev n @ replicate k CHR ''0'') = n"
proof (induction n rule: show_hex_rev.induct)
  case (1 n)
  have z: "read_hex_rev (replicate k CHR ''0'') = 0" by (induction k) (auto simp: hex_digit_def)
  show ?case
    using 1 z by (subst show_hex_rev.simps) auto
qed

lemma pad_hex_inj: "pad_hex w m = pad_hex w n \<Longrightarrow> m = n"
proof -
  assume "pad_hex w m = pad_hex w n"
  then have "rev (pad_hex w m) = rev (pad_hex w n)" by simp
  then show "m = n" unfolding pad_hex_def Let_def by (metis read_show_hex_rev rev_append rev_replicate rev_rev_ident)
qed

section \<open>Integers of 64 bits\<close>

text \<open>
  Times are \<open>i64\<close> milliseconds, held as \<open>int\<close>. \<open>saturating_add\<close> clamps; a plain \<open>+\<close> of a release
  build wraps, which \<open>wrap_i64\<close> writes out; a cast \<open>u64 as i64\<close> keeps the bits.
\<close>

definition wrap_i64 :: "int \<Rightarrow> int" where
  "wrap_i64 x = (x + 2 ^ 63) mod 2 ^ 64 - 2 ^ 63"

definition sat_add_i64 :: "int \<Rightarrow> int \<Rightarrow> int" where
  "sat_add_i64 a b = max i64_min (min i64_max (a + b))"

definition u64_as_i64 :: "nat \<Rightarrow> int" where
  "u64_as_i64 n = wrap_i64 (int n)"

lemma wrap_i64_id: "i64_min \<le> x \<Longrightarrow> x \<le> i64_max \<Longrightarrow> wrap_i64 x = x"
  by (simp add: wrap_i64_def i64_min_def i64_max_def)

lemma sat_add_i64_mono: "b \<le> c \<Longrightarrow> sat_add_i64 a b \<le> sat_add_i64 a c"
  by (auto simp: sat_add_i64_def)

section \<open>Finite sets\<close>

text \<open>The elements of a \<open>BTreeSet\<close> in its iteration order.\<close>

abbreviation sorted_elems :: "'a::linorder fset \<Rightarrow> 'a list" where
  "sorted_elems \<equiv> sorted_list_of_fset"

lemma fset_cases_max:
  assumes "x |\<in>| A" and trans: "\<And>a b c. le a b \<Longrightarrow> le b c \<Longrightarrow> le a c" and refl: "\<And>a. le a a"
  shows "\<exists>y. y |\<in>| A \<and> le x y \<and> (\<forall>z. z |\<in>| A \<longrightarrow> le y z \<longrightarrow> le z y)"
  using assms(1)
proof (induction "fcard (ffilter (\<lambda>z. le x z \<and> \<not> le z x) A)" arbitrary: x rule: less_induct)
  case less
  show ?case
  proof (cases "\<exists>z. z |\<in>| A \<and> le x z \<and> \<not> le z x")
    case False
    then show ?thesis using less.prems refl by blast
  next
    case True
    then obtain z where z: "z |\<in>| A" "le x z" "\<not> le z x" by blast
    let ?up = "\<lambda>x. ffilter (\<lambda>w. le x w \<and> \<not> le w x) A"
    have "?up z |\<subseteq>| ?up x"
    proof
      fix w assume "w |\<in>| ?up z"
      then have w: "w |\<in>| A" "le z w" "\<not> le w z" by auto
      have "le x w" using z(2) w(2) by (rule trans)
      moreover have "\<not> le w x" using w(3) z(2) trans by blast
      ultimately show "w |\<in>| ?up x" using w(1) by simp
    qed
    moreover have "z |\<in>| ?up x" "z |\<notin>| ?up z" using z refl by simp_all
    ultimately have "?up z |\<subset>| ?up x" by auto
    then have "fcard (ffilter (\<lambda>w. le z w \<and> \<not> le w z) A) < fcard (ffilter (\<lambda>w. le x w \<and> \<not> le w x) A)"
      by (rule pfsubset_fcard_mono)
    from less.hyps[OF this z(1)] show ?thesis using z(2) trans by blast
  qed
qed


section \<open>Finite maps\<close>

text \<open>The entries two maps share, combined; a combination of \<open>None\<close> drops the key.\<close>

definition fmap_meet :: "('a \<Rightarrow> 'a \<Rightarrow> 'a option) \<Rightarrow> ('k, 'a) fmap \<Rightarrow> ('k, 'a) fmap \<Rightarrow> ('k, 'a) fmap" where
  "fmap_meet f a b =
     (let both = (\<lambda>k. case (fmlookup a k, fmlookup b k) of (Some x, Some y) \<Rightarrow> f x y | _ \<Rightarrow> None)
      in fmmap_keys (\<lambda>k x. the (both k)) (fmfilter (\<lambda>k. both k \<noteq> None) a))"

lemma fmlookup_fmap_meet [simp]:
  "fmlookup (fmap_meet f a b) k =
     (case (fmlookup a k, fmlookup b k) of (Some x, Some y) \<Rightarrow> f x y | _ \<Rightarrow> None)"
  by (auto simp: fmap_meet_def Let_def split: option.splits)

text \<open>Every entry of the first map has one above it in the second, under the same key.\<close>

definition fmap_within :: "('a \<Rightarrow> 'a \<Rightarrow> bool) \<Rightarrow> ('k, 'a) fmap \<Rightarrow> ('k, 'a) fmap \<Rightarrow> bool" where
  "fmap_within le a b \<longleftrightarrow>
     fBall (fmdom a) (\<lambda>k. case (fmlookup a k, fmlookup b k) of (Some x, Some y) \<Rightarrow> le x y | _ \<Rightarrow> False)"

lemma fmap_within_iff:
  "fmap_within le a b \<longleftrightarrow> (\<forall>k x. fmlookup a k = Some x \<longrightarrow> (\<exists>y. fmlookup b k = Some y \<and> le x y))"
  by (fastforce simp: fmap_within_def fmlookup_dom_iff split: option.splits)

definition fm_values :: "('k::linorder, 'a) fmap \<Rightarrow> 'a list" where
  "fm_values m = map (\<lambda>k. the (fmlookup m k)) (sorted_list_of_fset (fmdom m))"

definition fm_entries :: "('k::linorder, 'a) fmap \<Rightarrow> ('k \<times> 'a) list" where
  "fm_entries m = map (\<lambda>k. (k, the (fmlookup m k))) (sorted_list_of_fset (fmdom m))"

lemma find_SomeD: "find P xs = Some x \<Longrightarrow> x \<in> set xs \<and> P x"
  by (induction xs) (auto split: if_splits)

section \<open>White space\<close>

text \<open>\<open>str::trim\<close> on UTF-8: every white space character of Unicode, by its bytes.\<close>

definition white_space :: "string list" where
  "white_space =
     map (\<lambda>c. [c]) [CHR 0x09, CHR 0x0A, CHR 0x0B, CHR 0x0C, CHR 0x0D, CHR 0x20]
     @ [[CHR 0xC2, CHR 0x85], [CHR 0xC2, CHR 0xA0], [CHR 0xE1, CHR 0x9A, CHR 0x80]]
     @ map (\<lambda>k. [CHR 0xE2, CHR 0x80, char_of k]) [128..<139]
     @ [[CHR 0xE2, CHR 0x80, CHR 0xA8], [CHR 0xE2, CHR 0x80, CHR 0xA9], [CHR 0xE2, CHR 0x80, CHR 0xAF],
        [CHR 0xE2, CHR 0x81, CHR 0x9F], [CHR 0xE3, CHR 0x80, CHR 0x80]]"

fun strip_any :: "nat \<Rightarrow> string list \<Rightarrow> string \<Rightarrow> string" where
  "strip_any 0 ws s = s"
| "strip_any (Suc k) ws s =
     (case find (\<lambda>w. starts_with w s) ws of Some w \<Rightarrow> strip_any k ws (drop (length w) s) | None \<Rightarrow> s)"

definition trim :: "string \<Rightarrow> string" where
  "trim s =
     (let t = strip_any (length s) white_space s
      in rev (strip_any (length t) (map rev white_space) (rev t)))"

text \<open>\<open>str::split_once\<close> with a string.\<close>

fun split_once_str :: "string \<Rightarrow> string \<Rightarrow> (string \<times> string) option" where
  "split_once_str sep [] = (if sep = [] then Some ([], []) else None)"
| "split_once_str sep (x # xs) =
     (case strip_prefix sep (x # xs) of
        Some r \<Rightarrow> Some ([], r)
      | None \<Rightarrow> map_option (\<lambda>(a, b). (x # a, b)) (split_once_str sep xs))"

text \<open>\<open>str::lines\<close>: the pieces between line feeds, without a final empty one, each without a trailing \<open>\r\<close>.\<close>

definition strip_cr :: "string \<Rightarrow> string" where
  "strip_cr l = (if l \<noteq> [] \<and> last l = CHR 0x0D then butlast l else l)"

definition text_lines :: "string \<Rightarrow> string list" where
  "text_lines s =
     (let ls = split_on CHR 0x0A s
      in map strip_cr (if last ls = [] then butlast ls else ls))"

end
