(* ===== verification/Scope_Order.thy ===== *)
theory Scope_Order imports Prelude begin

text \<open>
  The interfaces every scope dimension of a grant provides: an order \<open>le\<close> (``is an attenuation
  of''), a meet, and, for a dimension that is a set of entries ordered one by one (paths, network
  entries), the lifting of the entries' order to the sets and the canonical antichain. The laws are
  stated once as locales and each dimension interprets them on its own definitions.
\<close>

section \<open>Sets of ordered entries\<close>

text \<open>Every entry of the child lies within some entry of the parent: \<open>path::all_within\<close>,
  \<open>netscope::set_within\<close>.\<close>

definition all_within_by :: "('a \<Rightarrow> 'a \<Rightarrow> bool) \<Rightarrow> 'a fset \<Rightarrow> 'a fset \<Rightarrow> bool" where
  "all_within_by le child parent \<longleftrightarrow> fBall child (\<lambda>c. fBex parent (\<lambda>p. le c p))"

text \<open>The entries that lie within no other one.\<close>

definition maximal_by :: "('a \<Rightarrow> 'a \<Rightarrow> bool) \<Rightarrow> 'a fset \<Rightarrow> 'a fset" where
  "maximal_by le S = ffilter (\<lambda>x. \<not> fBex S (\<lambda>y. y \<noteq> x \<and> le x y)) S"

text \<open>Every non-empty pairwise meet.\<close>

definition pair_meets :: "('a \<Rightarrow> 'a \<Rightarrow> 'a option) \<Rightarrow> 'a fset \<Rightarrow> 'a fset \<Rightarrow> 'a fset" where
  "pair_meets m A B =
     ffUnion ((\<lambda>x. (\<lambda>y. the (m x y)) |`| ffilter (\<lambda>y. m x y \<noteq> None) B) |`| A)"

lemma pair_meets_iff:
  "z |\<in>| pair_meets m A B \<longleftrightarrow> (\<exists>x y. x |\<in>| A \<and> y |\<in>| B \<and> m x y = Some z)"
proof -
  have U: "z |\<in>| ffUnion (f |`| A) \<longleftrightarrow> (\<exists>x. x |\<in>| A \<and> z |\<in>| f x)" for f
    by (simp add: ffUnion.rep_eq) blast
  have V: "z |\<in>| (\<lambda>y. the (m x y)) |`| ffilter (\<lambda>y. m x y \<noteq> None) B \<longleftrightarrow> (\<exists>y. y |\<in>| B \<and> m x y = Some z)" for x
    by (force simp: image_iff)
  show ?thesis unfolding pair_meets_def U V by blast
qed

lemma pair_meets_commute:
  assumes "\<And>x y. m x y = m y x"
  shows "pair_meets m A B = pair_meets m B A"
proof (rule fset_eqI)
  fix z
  have "m y x = Some z \<longleftrightarrow> m x y = Some z" for x y by (simp add: assms[of x y])
  then show "z |\<in>| pair_meets m A B \<longleftrightarrow> z |\<in>| pair_meets m B A" unfolding pair_meets_iff by blast
qed

lemma maximal_by_subset: "x |\<in>| maximal_by le S \<Longrightarrow> x |\<in>| S"
  by (simp add: maximal_by_def)

lemma all_within_by_empty [simp]: "all_within_by le {||} P"
  by (simp add: all_within_by_def)

lemma all_within_by_mono:
  "all_within_by le C P \<Longrightarrow> C' |\<subseteq>| C \<Longrightarrow> P |\<subseteq>| P' \<Longrightarrow> all_within_by le C' P'"
  unfolding all_within_by_def by blast

section \<open>The order\<close>

locale scope_order =
  fixes le :: "'a \<Rightarrow> 'a \<Rightarrow> bool"
  assumes le_refl: "le x x"
    and le_trans: "le x y \<Longrightarrow> le y z \<Longrightarrow> le x z"
begin

text \<open>A chain of delegations, newest first: the newest is within every older one.\<close>

lemma chain_within_last:
  "successively le (x # xs) \<Longrightarrow>
     y \<in> set (x # xs) \<Longrightarrow> le x y"
proof (induction xs arbitrary: x)
  case Nil
  then show ?case by (simp add: le_refl)
next
  case (Cons z zs)
  then have "le x z" "successively le (z # zs)" by simp_all
  show ?case
  proof (cases "y = x")
    case True
    then show ?thesis by (simp add: le_refl)
  next
    case False
    then have "y \<in> set (z # zs)" using Cons.prems(2) by auto
    then have "le z y" using Cons.IH \<open>successively le (z # zs)\<close> by simp
    then show ?thesis using \<open>le x z\<close> le_trans by blast
  qed
qed

lemma all_within_refl: "all_within_by le A A"
  unfolding all_within_by_def using le_refl by blast

lemma all_within_trans:
  "all_within_by le A B \<Longrightarrow> all_within_by le B C \<Longrightarrow> all_within_by le A C"
  unfolding all_within_by_def using le_trans by blast

lemma maximal_covers: "all_within_by le S (maximal_by le S)" if antisym:
  "\<And>x y. x |\<in>| S \<Longrightarrow> y |\<in>| S \<Longrightarrow> le x y \<Longrightarrow> le y x \<Longrightarrow> x = y"
  unfolding all_within_by_def
proof
  fix x assume x: "x |\<in>| S"
  obtain y where y: "y |\<in>| S" "le x y" "\<And>z. z |\<in>| S \<Longrightarrow> le y z \<Longrightarrow> le z y"
    using fset_cases_max[OF x, of le] le_trans le_refl by blast
  have "y |\<in>| maximal_by le S"
    unfolding maximal_by_def using y antisym by auto
  then show "fBex (maximal_by le S) (le x)" using y(2) by blast
qed

lemma maximal_within: "all_within_by le (maximal_by le S) S"
  unfolding all_within_by_def maximal_by_def using le_refl by auto

lemma maximal_antichain:
  "x |\<in>| maximal_by le S \<Longrightarrow> y |\<in>| maximal_by le S \<Longrightarrow> le x y \<Longrightarrow> x = y"
  unfolding maximal_by_def by auto

lemma maximal_unique:
  assumes AB: "all_within_by le A B" and BA: "all_within_by le B A"
    and antisym: "\<And>x y. x |\<in>| A |\<union>| B \<Longrightarrow> y |\<in>| A |\<union>| B \<Longrightarrow> le x y \<Longrightarrow> le y x \<Longrightarrow> x = y"
  shows "maximal_by le A = maximal_by le B"
proof -
  have half: "x |\<in>| maximal_by le T"
    if S: "all_within_by le S T" and T: "all_within_by le T S" and x: "x |\<in>| maximal_by le S"
      and anti: "\<And>x y. x |\<in>| S |\<union>| T \<Longrightarrow> y |\<in>| S |\<union>| T \<Longrightarrow> le x y \<Longrightarrow> le y x \<Longrightarrow> x = y"
    for S T x
  proof -
    have xS: "x |\<in>| S" and mx: "\<And>y. y |\<in>| S \<Longrightarrow> le x y \<Longrightarrow> y = x"
      using x unfolding maximal_by_def by auto
    obtain t where t: "t |\<in>| T" "le x t" using S xS unfolding all_within_by_def by blast
    obtain s where s: "s |\<in>| S" "le t s" using T t(1) unfolding all_within_by_def by blast
    have "s = x" using mx s(1) le_trans[OF t(2) s(2)] by blast
    then have xt: "x = t" using anti[of x t] xS t s(2) by auto
    have "y = x" if y: "y |\<in>| T" "le x y" for y
    proof -
      obtain s' where s': "s' |\<in>| S" "le y s'" using T y(1) unfolding all_within_by_def by blast
      have "s' = x" using mx s'(1) le_trans[OF y(2) s'(2)] by blast
      then show ?thesis using anti[of x y] xS y s'(2) by auto
    qed
    then show ?thesis unfolding maximal_by_def using t(1) xt by auto
  qed
  show ?thesis
  proof (rule fset_eqI)
    fix x show "x |\<in>| maximal_by le A \<longleftrightarrow> x |\<in>| maximal_by le B"
      using half[OF AB BA, of x] half[OF BA AB, of x] antisym by (auto simp: sup_commute)
  qed
qed

lemma maximal_idem: "maximal_by le (maximal_by le S) = maximal_by le S"
  unfolding maximal_by_def by (rule fset_eqI) auto

end

section \<open>The meet\<close>

text \<open>
  A partial meet of entries: \<open>None\<close> when they share nothing. \<open>fits\<close> says of two entries that their
  meet is itself an entry the parsers accept; a dimension without a size limit takes it to be true.
\<close>

locale entry_meets = scope_order +
  fixes m :: "'a \<Rightarrow> 'a \<Rightarrow> 'a option" and fits :: "'a \<Rightarrow> 'a \<Rightarrow> bool"
  assumes meet_lower: "fits x y \<Longrightarrow> m x y = Some w \<Longrightarrow> le w x \<and> le w y"
    and meet_greatest: "fits x y \<Longrightarrow> le z x \<Longrightarrow> le z y \<Longrightarrow> \<exists>w. m x y = Some w \<and> le z w"
begin

lemma pair_meets_lower:
  assumes "\<And>x y. x |\<in>| A \<Longrightarrow> y |\<in>| B \<Longrightarrow> fits x y"
  shows "all_within_by le (pair_meets m A B) A" "all_within_by le (pair_meets m A B) B"
  unfolding all_within_by_def using meet_lower assms by (auto simp: pair_meets_iff) blast+

lemma pair_meets_greatest:
  assumes "\<And>x y. x |\<in>| A \<Longrightarrow> y |\<in>| B \<Longrightarrow> fits x y"
    and "all_within_by le C A" "all_within_by le C B"
  shows "all_within_by le C (pair_meets m A B)"
  unfolding all_within_by_def
proof
  fix c assume c: "c |\<in>| C"
  obtain x y where "x |\<in>| A" "le c x" "y |\<in>| B" "le c y"
    using assms(2,3) c unfolding all_within_by_def by blast
  moreover from this obtain w where "m x y = Some w" "le c w"
    using meet_greatest assms(1) by blast
  ultimately show "fBex (pair_meets m A B) (le c)" using pair_meets_iff[of w m A B] by blast
qed

end

text \<open>A total meet, for a whole dimension.\<close>

locale scope_meet = scope_order +
  fixes meet :: "'a \<Rightarrow> 'a \<Rightarrow> 'a"
  assumes meet_le1: "le (meet x y) x"
    and meet_le2: "le (meet x y) y"
    and meet_glb: "le z x \<Longrightarrow> le z y \<Longrightarrow> le z (meet x y)"
begin

lemma meet_mono: "le x x' \<Longrightarrow> le y y' \<Longrightarrow> le (meet x y) (meet x' y')"
  by (meson le_trans meet_glb meet_le1 meet_le2)

lemma meet_commute_le: "le (meet x y) (meet y x)"
  by (meson meet_glb meet_le1 meet_le2)

lemma le_meet_iff: "le z (meet x y) \<longleftrightarrow> le z x \<and> le z y"
  by (meson le_trans meet_glb meet_le1 meet_le2)

lemma meet_absorbs: "le x y \<Longrightarrow> le x (meet x y)"
  by (simp add: le_refl meet_glb)

end

end
