(* ===== verification/Path_Scope.thy ===== *)
theory Path_Scope imports Scope_Order begin

text \<open>
  The path lattice of \<open>crates/delulu-broker/src/path.rs\<close>: purely lexical resolution of a path
  spelling to segments, the canonical spelling, descendant-or-equal, and the sets of paths a grant
  carries. The lemmas show that canonical spelling changes no resolved path, that resolution always
  ends in a normal form, and that sets of paths ordered by containment have their meets.
\<close>

section \<open>Resolution\<close>

datatype seg = Root | Drive string | Up | Name string

definition slash :: char where "slash = CHR ''/''"
definition backslash :: char where "backslash = CHR 0x5C"

text \<open>The body of the loop of \<open>resolve\<close>, for one \<open>/\<close>-separated part.\<close>

definition push_part :: "seg list \<Rightarrow> string \<Rightarrow> seg list" where
  "push_part segs part =
     (if part = [] \<or> part = ''.'' then segs
      else if part = ''..'' then
        (case segs of
           [] \<Rightarrow> [Up]
         | _ \<Rightarrow> (case last segs of
                  Name _ \<Rightarrow> butlast segs
                | Root \<Rightarrow> segs
                | Drive _ \<Rightarrow> segs
                | Up \<Rightarrow> segs @ [Up]))
      else segs @ [Name part])"

text \<open>The anchor a spelling starts with, and what is left to split.\<close>

fun resolve_anchor :: "string \<Rightarrow> seg list \<times> string" where
  "resolve_anchor (a # b # rest) =
     (if is_ascii_alphabetic a \<and> b = CHR '':'' then ([Drive [a, b]], rest)
      else if a = slash then ([Root], a # b # rest)
      else ([], a # b # rest))"
| "resolve_anchor s = (if starts_with [slash] s then ([Root], s) else ([], s))"

definition resolve :: "string \<Rightarrow> seg list" where
  "resolve path =
     (let unified = replace_char backslash slash path;
          (segs, rest) = resolve_anchor unified
      in foldl push_part segs (split_on slash rest))"

fun seg_text :: "seg \<Rightarrow> string" where
  "seg_text Up = ''..''"
| "seg_text (Name n) = n"
| "seg_text Root = [slash]"
| "seg_text (Drive d) = d"

definition join_tail :: "seg list \<Rightarrow> string" where
  "join_tail segs = join_with [slash] (map seg_text segs)"

text \<open>\<open>render\<close>: the spelling that resolves to the given segments.\<close>

definition path_render :: "seg list \<Rightarrow> string" where
  "path_render segs =
     (case segs of
        [] \<Rightarrow> ''.''
      | Root # t \<Rightarrow>
          (let rest = join_tail t in if rest = [] then [slash] else slash # rest)
      | Drive d # t \<Rightarrow>
          (let rest = join_tail t in if rest = [] then d @ [slash] else d @ slash # rest)
      | _ \<Rightarrow> ''./'' @ join_tail segs)"

definition path_canonicalize :: "string \<Rightarrow> string" where
  "path_canonicalize path = path_render (resolve path)"

section \<open>Containment\<close>

definition is_descendant_or_equal :: "string \<Rightarrow> string \<Rightarrow> bool" where
  "is_descendant_or_equal child parent =
     (let c = resolve child; p = resolve parent
      in if length c < length p then False
         else if take (length p) c \<noteq> p then False
         else \<not> list_ex (\<lambda>s. s = Up) (drop (length p) c))"

definition canonicalize_paths :: "string fset \<Rightarrow> string fset" where
  "canonicalize_paths paths =
     (let spelled = path_canonicalize |`| paths
      in ffilter (\<lambda>x. \<not> fBex spelled (\<lambda>y. y \<noteq> x \<and> is_descendant_or_equal x y)) spelled)"

text \<open>The branch of \<open>intersect_path_sets\<close> for one pair.\<close>

definition narrower_path :: "string \<Rightarrow> string \<Rightarrow> string option" where
  "narrower_path x y =
     (if is_descendant_or_equal x y then Some x
      else if is_descendant_or_equal y x then Some y
      else None)"

definition intersect_path_sets :: "string fset \<Rightarrow> string fset \<Rightarrow> string fset" where
  "intersect_path_sets a b = canonicalize_paths (pair_meets narrower_path a b)"

definition paths_within :: "string fset \<Rightarrow> string fset \<Rightarrow> bool" where
  "paths_within child parent = all_within_by is_descendant_or_equal child parent"

section \<open>The normal form of resolved segments\<close>

definition good_name :: "string \<Rightarrow> bool" where
  "good_name n \<longleftrightarrow> n \<noteq> [] \<and> n \<noteq> ''.'' \<and> n \<noteq> ''..'' \<and> slash \<notin> set n \<and> backslash \<notin> set n"

definition good_anchor :: "seg list \<Rightarrow> bool" where
  "good_anchor a \<longleftrightarrow> a = [Root] \<or> (\<exists>c. is_ascii_alphabetic c \<and> a = [Drive [c, CHR '':'']])"

definition seg_nf :: "seg list \<Rightarrow> bool" where
  "seg_nf segs \<longleftrightarrow>
     (\<exists>anchor k names. segs = anchor @ replicate k Up @ map Name names \<and>
        (anchor = [] \<or> good_anchor anchor \<and> k = 0) \<and> (\<forall>n\<in>set names. good_name n))"

lemma seg_nfI:
  "anchor = [] \<or> good_anchor anchor \<and> k = 0 \<Longrightarrow> \<forall>n\<in>set names. good_name n \<Longrightarrow>
     seg_nf (anchor @ replicate k Up @ map Name names)"
  unfolding seg_nf_def by blast

lemma slash_neq [simp]: "slash \<noteq> backslash" "backslash \<noteq> slash" "slash \<noteq> CHR ''.''" "CHR ''.'' \<noteq> slash"
  "slash \<noteq> CHR '':''" "CHR '':'' \<noteq> slash" "backslash \<noteq> CHR ''.''" "CHR ''.'' \<noteq> backslash" "CHR '':'' \<noteq> backslash" "backslash \<noteq> CHR '':''"
  "\<not> is_ascii_alphabetic slash" "\<not> is_ascii_alphabetic CHR ''.''" "\<not> is_ascii_alphabetic backslash"
  by (simp_all add: slash_def backslash_def is_ascii_alphabetic_def)

lemma push_part_up_snoc:
  "push_part (xs @ [s]) ''..'' =
     (case s of Name _ \<Rightarrow> xs | Root \<Rightarrow> xs @ [s] | Drive _ \<Rightarrow> xs @ [s] | Up \<Rightarrow> xs @ [s] @ [Up])"
  by (cases xs) (auto simp: push_part_def split: seg.splits)

lemma push_part_nf:
  assumes nf: "seg_nf segs" and part: "slash \<notin> set part" "backslash \<notin> set part"
  shows "seg_nf (push_part segs part)"
proof -
  obtain anchor k names where s: "segs = anchor @ replicate k Up @ map Name names"
    and a: "anchor = [] \<or> good_anchor anchor \<and> k = 0" and g: "\<forall>n\<in>set names. good_name n"
    using nf unfolding seg_nf_def by blast
  consider (skip) "part = [] \<or> part = ''.''" | (up) "part = ''..''" | (name) "good_name part"
    using part unfolding good_name_def by blast
  then show ?thesis
  proof cases
    case skip
    then show ?thesis using nf by (auto simp: push_part_def)
  next
    case name
    then have "push_part segs part = anchor @ replicate k Up @ map Name (names @ [part])"
      by (simp add: push_part_def good_name_def s)
    then show ?thesis using seg_nfI[OF a, of "names @ [part]"] g name by auto
  next
    case up
    show ?thesis
    proof (cases names rule: rev_cases)
      case (snoc ns n)
      then have "push_part segs part = anchor @ replicate k Up @ map Name ns"
        using push_part_up_snoc[of "anchor @ replicate k Up @ map Name ns" "Name n"] by (simp add: up s)
      then show ?thesis using seg_nfI[OF a, of ns] g snoc by auto
    next
      case Nil
      show ?thesis
      proof (cases "anchor = []")
        case True
        then have "push_part segs part = [] @ replicate (Suc k) Up @ map Name []"
          by (cases k) (auto simp: push_part_def up s Nil replicate_append_same split: list.split)
        then show ?thesis using seg_nfI[of "[]" "Suc k" "[]"] by simp
      next
        case False
        then have "push_part segs part = segs"
          using a by (auto simp: push_part_def up s Nil good_anchor_def)
        then show ?thesis using nf by simp
      qed
    qed
  qed
qed

lemma foldl_push_nf:
  "seg_nf segs \<Longrightarrow> \<forall>p\<in>set parts. slash \<notin> set p \<and> backslash \<notin> set p \<Longrightarrow> seg_nf (foldl push_part segs parts)"
  by (induction parts arbitrary: segs) (auto simp: push_part_nf)

lemma resolve_anchor_nf: "resolve_anchor s = (segs, rest) \<Longrightarrow> seg_nf segs \<and> set rest \<subseteq> set s"
proof -
  have d: "seg_nf [Drive [a, CHR '':'']]" if "is_ascii_alphabetic a" for a
    using seg_nfI[of "[Drive [a, CHR '':'']]" 0 "[]"] that by (simp add: good_anchor_def)
  have r: "seg_nf [Root]" using seg_nfI[of "[Root]" 0 "[]"] by (simp add: good_anchor_def)
  have n: "seg_nf []" using seg_nfI[of "[]" 0 "[]"] by simp
  assume "resolve_anchor s = (segs, rest)"
  then show ?thesis
    using d r n by (cases s; cases "tl s") (auto split: if_splits)
qed

lemma resolve_nf: "seg_nf (resolve p)"
proof -
  obtain segs rest where r: "resolve_anchor (replace_char backslash slash p) = (segs, rest)"
    by (cases "resolve_anchor (replace_char backslash slash p)")
  then have nf: "seg_nf segs" and sub: "set rest \<subseteq> set (replace_char backslash slash p)"
    using resolve_anchor_nf by blast+
  have "backslash \<notin> set rest" using sub set_replace_char[of backslash slash p] by auto
  then have "\<forall>q\<in>set (split_on slash rest). slash \<notin> set q \<and> backslash \<notin> set q"
    using split_on_no_sep split_on_subset by fastforce
  then show ?thesis using nf by (simp add: resolve_def r foldl_push_nf)
qed

section \<open>Canonical spelling preserves the path\<close>

lemma foldl_push_names:
  "\<forall>n\<in>set names. good_name n \<Longrightarrow> foldl push_part segs names = segs @ map Name names"
  by (induction names arbitrary: segs) (auto simp: push_part_def good_name_def)

lemma foldl_push_ups: "foldl push_part (replicate j Up) (replicate k ''..'') = replicate (j + k) Up"
proof (induction k arbitrary: j)
  case (Suc k)
  have "push_part (replicate j Up) ''..'' = replicate (Suc j) Up"
    by (cases j) (auto simp: push_part_def replicate_append_same split: list.split)
  then show ?case using Suc[of "Suc j"] by simp
qed simp

lemma resolve_anchor_dot [simp]: "resolve_anchor (CHR ''.'' # s) = ([], CHR ''.'' # s)"
  by (cases s) (simp_all add: starts_with_def)

lemma resolve_anchor_slash [simp]: "resolve_anchor (slash # s) = ([Root], slash # s)"
  by (cases s) (simp_all add: starts_with_def)

lemma good_name_texts:
  "\<forall>n\<in>set names. good_name n \<Longrightarrow>
     \<forall>x\<in>set (replicate k ''..'' @ names). slash \<notin> set x \<and> backslash \<notin> set x"
proof
  fix x assume g: "\<forall>n\<in>set names. good_name n" and "x \<in> set (replicate k ''..'' @ names)"
  then have "x = ''..'' \<or> x \<in> set names" by (auto simp: set_replicate_conv_if split: if_splits)
  then show "slash \<notin> set x \<and> backslash \<notin> set x"
  proof
    assume "x \<in> set names"
    then show ?thesis using g by (simp add: good_name_def)
  qed simp
qed

lemma split_join_tail:
  "\<forall>x\<in>set ts. slash \<notin> set x \<Longrightarrow> ts \<noteq> [] \<Longrightarrow> split_on slash (join_with [slash] ts) = ts"
  by (rule split_on_join) auto

lemma backslash_join: "\<forall>x\<in>set ts. backslash \<notin> set x \<Longrightarrow> backslash \<notin> set (join_with [slash] ts)"
  using join_with_set[of "[slash]" ts] by auto

text \<open>What \<open>join_tail\<close> splits back into, with the empty part a missing tail leaves.\<close>

lemma fold_join:
  assumes "\<forall>x\<in>set ts. slash \<notin> set x"
  shows "foldl push_part segs (split_on slash (join_with [slash] ts)) = foldl push_part segs ts"
proof (cases "ts = []")
  case True
  then show ?thesis by (simp add: push_part_def)
next
  case False
  then show ?thesis using split_join_tail[OF assms] by simp
qed

lemma join_names_Nil: "\<forall>n\<in>set ns. good_name n \<Longrightarrow> join_with [slash] ns = [] \<longleftrightarrow> ns = []"
proof (cases ns)
  case (Cons n ms)
  assume "\<forall>n\<in>set ns. good_name n"
  then have "n \<noteq> []" using Cons by (simp add: good_name_def)
  then show ?thesis using Cons by (cases ms) simp_all
qed simp

lemma map_seg_text_Name [simp]: "map (seg_text \<circ> Name) ns = ns"
  by (induction ns) auto

lemma resolve_render:
  assumes "seg_nf segs"
  shows "resolve (path_render segs) = segs"
proof -
  obtain anchor k names where s: "segs = anchor @ replicate k Up @ map Name names"
    and a: "anchor = [] \<or> good_anchor anchor \<and> k = 0" and g: "\<forall>n\<in>set names. good_name n"
    using assms unfolding seg_nf_def by blast
  let ?ts = "replicate k ''..'' @ names"
  let ?j = "join_with [slash] ?ts"
  have ts: "\<forall>x\<in>set ?ts. slash \<notin> set x" "\<forall>x\<in>set ?ts. backslash \<notin> set x"
    using good_name_texts[OF g, of k] by auto
  have bs: "backslash \<notin> set ?j" using backslash_join ts(2) by blast
  consider (rel) "anchor = []" | (root) "anchor = [Root]" "k = 0"
    | (drive) c where "is_ascii_alphabetic c" "anchor = [Drive [c, CHR '':'']]" "k = 0"
    using a unfolding good_anchor_def by blast
  then show ?thesis
  proof cases
    case rel
    have fold: "foldl push_part [] ?ts = segs"
      using foldl_push_ups[of 0 k] foldl_push_names[OF g] rel s by simp
    show ?thesis
    proof (cases "segs = []")
      case True
      then show ?thesis
        by (simp add: path_render_def resolve_def replace_char_def push_part_def starts_with_def)
    next
      case False
      have jt: "join_tail segs = ?j" using s rel by (simp add: join_tail_def map_replicate)
      have "path_render segs = ''./'' @ ?j"
        using False s rel jt by (cases k; cases names) (auto simp: path_render_def)
      moreover have "replace_char backslash slash (''./'' @ ?j) = CHR ''.'' # slash # ?j"
        using bs by (simp add: replace_char_idle slash_def backslash_def)
      ultimately show ?thesis
        using fold by (simp add: resolve_def push_part_def fold_join[OF ts(1)])
    qed
  next
    case root
    have jt: "join_tail (map Name names) = join_with [slash] names" by (simp add: join_tail_def)
    have r: "path_render segs = slash # join_with [slash] names"
      using s root jt by (simp add: path_render_def Let_def)
    have "replace_char backslash slash (slash # join_with [slash] names) = slash # join_with [slash] names"
      using bs root by (intro replace_char_idle) simp
    then show ?thesis
      using r s root fold_join[of names "[Root]"] ts(1) foldl_push_names[OF g, of "[Root]"]
      by (simp add: resolve_def push_part_def)
  next
    case drive
    have jt: "join_tail (map Name names) = join_with [slash] names" by (simp add: join_tail_def)
    have r: "path_render segs = c # CHR '':'' # slash # join_with [slash] names"
      using s drive jt by (simp add: path_render_def Let_def)
    have "replace_char backslash slash (c # CHR '':'' # slash # join_with [slash] names)
            = c # CHR '':'' # slash # join_with [slash] names"
      using bs drive by (intro replace_char_idle) auto
    then show ?thesis
      using r s drive fold_join[of names "[Drive [c, CHR '':'']]"] ts(1)
        foldl_push_names[OF g, of "[Drive [c, CHR '':'']]"]
      by (simp add: resolve_def push_part_def)
  qed
qed

lemma resolve_canonicalize [simp]: "resolve (path_canonicalize p) = resolve p"
  by (simp add: path_canonicalize_def resolve_render resolve_nf)

lemma canonicalize_idem [simp]: "path_canonicalize (path_canonicalize p) = path_canonicalize p"
  by (simp add: path_canonicalize_def resolve_render resolve_nf)

lemma canonicalize_eq_iff: "path_canonicalize p = path_canonicalize q \<longleftrightarrow> resolve p = resolve q"
  by (metis path_canonicalize_def resolve_canonicalize)

section \<open>The order on paths\<close>

lemma descendant_iff:
  "is_descendant_or_equal c p \<longleftrightarrow> (\<exists>t. resolve c = resolve p @ t \<and> Up \<notin> set t)"
proof
  assume d: "is_descendant_or_equal c p"
  then have "resolve c = resolve p @ drop (length (resolve p)) (resolve c)"
    unfolding is_descendant_or_equal_def Let_def
    by (metis append_take_drop_id)
  then show "\<exists>t. resolve c = resolve p @ t \<and> Up \<notin> set t"
    using d unfolding is_descendant_or_equal_def Let_def list_ex_iff by (metis (full_types))
next
  assume "\<exists>t. resolve c = resolve p @ t \<and> Up \<notin> set t"
  then show "is_descendant_or_equal c p"
    unfolding is_descendant_or_equal_def Let_def list_ex_iff by auto
qed

lemma descendant_canonical [simp]:
  "is_descendant_or_equal (path_canonicalize c) p = is_descendant_or_equal c p"
  "is_descendant_or_equal c (path_canonicalize p) = is_descendant_or_equal c p"
  by (simp_all add: descendant_iff)

lemma descendant_antisym: "is_descendant_or_equal a b \<Longrightarrow> is_descendant_or_equal b a \<Longrightarrow> resolve a = resolve b"
  by (auto simp: descendant_iff)

lemma descendants_comparable:
  assumes "is_descendant_or_equal z x" "is_descendant_or_equal z y"
  shows "is_descendant_or_equal x y \<or> is_descendant_or_equal y x"
proof -
  obtain s t where s: "resolve z = resolve x @ s" "Up \<notin> set s"
    and t: "resolve z = resolve y @ t" "Up \<notin> set t"
    using assms unfolding descendant_iff by blast
  then have "resolve x @ s = resolve y @ t" by simp
  then obtain us where "resolve x = resolve y @ us \<and> us @ s = t \<or> resolve x @ us = resolve y \<and> s = us @ t"
    unfolding append_eq_append_conv2 by blast
  then show ?thesis using s(2) t(2) unfolding descendant_iff by (metis UnCI set_append)
qed

interpretation path_order: scope_order is_descendant_or_equal
proof
  show "is_descendant_or_equal x x" for x by (simp add: descendant_iff)
  show "is_descendant_or_equal x z" if "is_descendant_or_equal x y" "is_descendant_or_equal y z" for x y z
    using that unfolding descendant_iff by (metis Un_iff append_assoc set_append)
qed

interpretation path_meet: entry_meets is_descendant_or_equal narrower_path "\<lambda>_ _. True"
proof
  show "is_descendant_or_equal w x \<and> is_descendant_or_equal w y" if "narrower_path x y = Some w" for x y w
    using that path_order.le_refl by (auto simp: narrower_path_def split: if_splits)
  show "\<exists>w. narrower_path x y = Some w \<and> is_descendant_or_equal z w"
    if "is_descendant_or_equal z x" "is_descendant_or_equal z y" for x y z
    using that descendants_comparable[OF that] by (auto simp: narrower_path_def)
qed

section \<open>Sets of paths\<close>

lemma canonicalize_paths_maximal:
  "canonicalize_paths S = maximal_by is_descendant_or_equal (path_canonicalize |`| S)"
  by (simp add: canonicalize_paths_def maximal_by_def Let_def)

lemma canonical_image_within:
  "paths_within (path_canonicalize |`| S) S" "paths_within S (path_canonicalize |`| S)"
  using path_order.le_refl by (auto simp: paths_within_def all_within_by_def)

lemma canonical_image_antisym:
  "x |\<in>| path_canonicalize |`| S \<Longrightarrow> y |\<in>| path_canonicalize |`| T \<Longrightarrow>
     is_descendant_or_equal x y \<Longrightarrow> is_descendant_or_equal y x \<Longrightarrow> x = y"
  using descendant_antisym[of x y] by (auto simp: canonicalize_eq_iff)

lemma canonicalize_paths_equiv:
  "paths_within (canonicalize_paths S) S" "paths_within S (canonicalize_paths S)"
proof -
  let ?C = "path_canonicalize |`| S"
  have "all_within_by is_descendant_or_equal ?C (canonicalize_paths S)"
    unfolding canonicalize_paths_maximal
    by (rule path_order.maximal_covers) (rule canonical_image_antisym)
  then show "paths_within S (canonicalize_paths S)"
    using canonical_image_within(2)[of S] path_order.all_within_trans unfolding paths_within_def by blast
  have "all_within_by is_descendant_or_equal (canonicalize_paths S) ?C"
    unfolding canonicalize_paths_maximal by (rule path_order.maximal_within)
  then show "paths_within (canonicalize_paths S) S"
    using canonical_image_within(1)[of S] path_order.all_within_trans unfolding paths_within_def by blast
qed

interpretation paths_order: scope_order paths_within
  by unfold_locales (auto simp: paths_within_def path_order.all_within_refl intro: path_order.all_within_trans)

lemma canonical_elements: "x |\<in>| canonicalize_paths S \<Longrightarrow> path_canonicalize x = x"
  unfolding canonicalize_paths_maximal by (auto dest!: maximal_by_subset)

lemma canonicalize_paths_image: "path_canonicalize |`| canonicalize_paths S = canonicalize_paths S"
proof (rule fset_eqI)
  fix x show "x |\<in>| path_canonicalize |`| canonicalize_paths S \<longleftrightarrow> x |\<in>| canonicalize_paths S"
    using canonical_elements by (metis fimage_iff)
qed

lemma canonicalize_paths_idem [simp]: "canonicalize_paths (canonicalize_paths S) = canonicalize_paths S"
proof -
  have "canonicalize_paths (canonicalize_paths S) = maximal_by is_descendant_or_equal (canonicalize_paths S)"
    by (simp add: canonicalize_paths_maximal[of "canonicalize_paths S"] canonicalize_paths_image)
  then show ?thesis unfolding canonicalize_paths_maximal by (simp add: path_order.maximal_idem)
qed

lemma canonicalize_paths_unique:
  assumes "paths_within A B" "paths_within B A"
  shows "canonicalize_paths A = canonicalize_paths B"
  unfolding canonicalize_paths_maximal
proof (rule path_order.maximal_unique)
  show "all_within_by is_descendant_or_equal (path_canonicalize |`| A) (path_canonicalize |`| B)"
    using assms(1) canonical_image_within path_order.all_within_trans unfolding paths_within_def by meson
  show "all_within_by is_descendant_or_equal (path_canonicalize |`| B) (path_canonicalize |`| A)"
    using assms(2) canonical_image_within path_order.all_within_trans unfolding paths_within_def by meson
next
  fix x y assume "x |\<in>| path_canonicalize |`| A |\<union>| path_canonicalize |`| B"
    "y |\<in>| path_canonicalize |`| A |\<union>| path_canonicalize |`| B"
    and "is_descendant_or_equal x y" "is_descendant_or_equal y x"
  then show "x = y"
    by (intro canonical_image_antisym[of x "A |\<union>| B" y "A |\<union>| B"]) (simp_all add: image_Un)
qed

lemma canonicalize_paths_eq_iff:
  "canonicalize_paths A = canonicalize_paths B \<longleftrightarrow> paths_within A B \<and> paths_within B A"
  by (metis canonicalize_paths_equiv canonicalize_paths_unique paths_order.le_trans)

interpretation paths_meet: scope_meet paths_within intersect_path_sets
proof
  fix A B C :: "string fset"
  let ?M = "pair_meets narrower_path A B"
  have "paths_within ?M A" "paths_within ?M B"
    unfolding paths_within_def by (rule path_meet.pair_meets_lower, simp)+
  then show "paths_within (intersect_path_sets A B) A" "paths_within (intersect_path_sets A B) B"
    unfolding intersect_path_sets_def by (meson canonicalize_paths_equiv paths_order.le_trans)+
  assume "paths_within C A" "paths_within C B"
  then have "paths_within C ?M"
    unfolding paths_within_def by (intro path_meet.pair_meets_greatest) auto
  then show "paths_within C (intersect_path_sets A B)"
    unfolding intersect_path_sets_def by (meson canonicalize_paths_equiv paths_order.le_trans)
qed

lemma intersect_path_sets_canonical [simp]: "canonicalize_paths (intersect_path_sets A B) = intersect_path_sets A B"
  by (simp add: intersect_path_sets_def)

lemma intersect_path_sets_commute: "intersect_path_sets A B = intersect_path_sets B A"
proof -
  have "canonicalize_paths (intersect_path_sets A B) = canonicalize_paths (intersect_path_sets B A)"
    by (intro canonicalize_paths_unique paths_meet.meet_commute_le)
  then show ?thesis by simp
qed

section \<open>Properties\<close>

text \<open>Canonical spelling never changes what a path resolves to, spelling it again changes
  nothing, and two spellings have one canonical form exactly when they resolve to one path.\<close>

theorem canonical_spelling_preserves_path:
  "resolve (path_canonicalize p) = resolve p \<and>
   path_canonicalize (path_canonicalize p) = path_canonicalize p \<and>
   (path_canonicalize p = path_canonicalize q \<longleftrightarrow> resolve p = resolve q)"
  by (simp add: canonicalize_eq_iff)

text \<open>The order of path scopes is a genuine partial order on what the broker stores: a set and its
  canonical form cover each other, two sets cover each other exactly when their canonical forms are
  one value, and in a canonical set no path lies within another.\<close>

theorem path_sets_partial_order:
  "paths_within A (canonicalize_paths A) \<and> paths_within (canonicalize_paths A) A \<and>
   (paths_within A B \<and> paths_within B A \<longleftrightarrow> canonicalize_paths A = canonicalize_paths B) \<and>
   \<not> (\<exists>x y. x |\<in>| canonicalize_paths A \<and> y |\<in>| canonicalize_paths A \<and> x \<noteq> y \<and> is_descendant_or_equal x y)"
  using canonicalize_paths_equiv canonicalize_paths_eq_iff
    path_order.maximal_antichain[of _ "path_canonicalize |`| A"]
  unfolding canonicalize_paths_maximal by blast

text \<open>The intersection of two path scopes is their greatest lower bound: whatever lies within both
  lies within it and conversely, it is the same set in either order, and it is canonical.\<close>

theorem path_intersection_is_meet:
  "(paths_within C (intersect_path_sets A B) \<longleftrightarrow> paths_within C A \<and> paths_within C B) \<and>
   intersect_path_sets A B = intersect_path_sets B A \<and>
   canonicalize_paths (intersect_path_sets A B) = intersect_path_sets A B"
  using paths_meet.le_meet_iff intersect_path_sets_commute by simp

end
