(* ===== verification/Net_Scope.thy ===== *)
theory Net_Scope imports Scope_Order "HOL-Library.Word" begin

text \<open>
  Network entries, \<open>crates/delulu-broker/src/netscope.rs\<close>: \<open>HOST[:METHODS][/PATTERN]\<close>, the one reading
  every custody shares. Here are its parser, the verdict of an entry on a request, the order and the
  meet the attenuation lattice uses, and the canonical form of a set of entries. \<open>host_matches\<close> is
  \<open>validate::host_matches\<close>, which \<open>netscope\<close> imports.

  The texts of the errors are constructors here; a method set, a \<open>u8\<close> of the source, is an \<open>8 word\<close>.
\<close>

unbundle bit_operations_syntax

type_synonym u8 = "8 word"

datatype segment = Literal string | One | Rest

datatype net_error =
    BadMethod string
  | MethodOrder
  | GetAlone
  | NoLeadingSlash
  | PatternTooLong
  | EmptyPath
  | TooManySegments
  | EmptySegment
  | RestNotLast
  | DotSegment string
  | StarInside string
  | BadChar string
  | NoHost
  | MethodsRefused net_error
  | PathRefused net_error

section \<open>Methods\<close>

definition METHODS :: "string list" where
  "METHODS = [''GET'', ''HEAD'', ''POST'', ''PUT'', ''PATCH'', ''DELETE'']"

definition GET_ONLY :: u8 where "GET_ONLY = 1"

fun find_index_of :: "'a \<Rightarrow> 'a list \<Rightarrow> nat option" where
  "find_index_of a [] = None"
| "find_index_of a (x # xs) = (if x = a then Some 0 else map_option Suc (find_index_of a xs))"

definition method_bit :: "string \<Rightarrow> u8" where
  "method_bit m = (case find_index_of m METHODS of None \<Rightarrow> 0 | Some i \<Rightarrow> push_bit i 1)"

fun parse_methods_loop :: "string list \<Rightarrow> u8 \<Rightarrow> nat option \<Rightarrow> net_error + u8" where
  "parse_methods_loop [] s last_i = Inr s"
| "parse_methods_loop (m # ms) s last_i =
     (case find_index_of m METHODS of
        None \<Rightarrow> Inl (BadMethod m)
      | Some i \<Rightarrow>
          if (case last_i of None \<Rightarrow> False | Some l \<Rightarrow> i \<le> l) then Inl MethodOrder
          else parse_methods_loop ms (s OR push_bit i 1) (Some i))"

definition parse_methods :: "string \<Rightarrow> net_error + u8" where
  "parse_methods written =
     (case parse_methods_loop (split_on CHR '','' written) 0 None of
        Inl e \<Rightarrow> Inl e
      | Inr s \<Rightarrow> if s = GET_ONLY then Inl GetAlone else Inr s)"

section \<open>Reading an entry\<close>

text \<open>The host and the methods of what stands before the path.\<close>

definition read_head :: "string \<Rightarrow> string \<times> u8" where
  "read_head head =
     (let host_end = (if starts_with ''['' head then map_option Suc (find_char CHR '']'' head)
                      else find_char CHR '':'' head)
      in case host_end of
           None \<Rightarrow> (head, GET_ONLY)
         | Some i \<Rightarrow>
             let host = take i head; rest = drop i head
             in if rest = [] then (head, GET_ONLY)
                else (case strip_prefix '':'' rest of
                        None \<Rightarrow> (head, GET_ONLY)
                      | Some ms \<Rightarrow> (case parse_methods ms of
                                     Inr methods \<Rightarrow> (host, methods)
                                   | Inl _ \<Rightarrow> (head, GET_ONLY))))"

definition split_path :: "string \<Rightarrow> string \<times> string option" where
  "split_path entry =
     (case find_char CHR ''/'' entry of
        Some i \<Rightarrow> (take i entry, Some (drop i entry))
      | None \<Rightarrow> (entry, None))"

definition read_entry :: "string \<Rightarrow> string \<times> u8 \<times> string option" where
  "read_entry entry =
     (let (head, path) = split_path entry; (host, methods) = read_head head
      in (host, methods, path))"

definition split_entry :: "string \<Rightarrow> string \<times> string option" where
  "split_entry entry = (let (host, _, path) = read_entry entry in (host, path))"

definition host_of :: "string \<Rightarrow> string" where
  "host_of entry = fst (split_entry entry)"

definition method_names :: "u8 \<Rightarrow> string list" where
  "method_names methods = map ((!) METHODS) (filter (bit methods) [0..<6])"

definition render_entry :: "string \<Rightarrow> u8 \<Rightarrow> string \<Rightarrow> string" where
  "render_entry host methods path =
     (if methods = GET_ONLY then host @ path
      else host @ '':'' @ join_with '','' (method_names methods) @ path)"

section \<open>Path patterns\<close>

definition MAX_PATTERN_BYTES :: nat where "MAX_PATTERN_BYTES = 1024"
definition MAX_SEGMENTS :: nat where "MAX_SEGMENTS = 64"

definition literal_char :: "char \<Rightarrow> bool" where
  "literal_char c \<longleftrightarrow> is_ascii_alphanumeric c \<or> c \<in> set ''-._~!$&'' \<or> c = CHR 0x27 \<or> c \<in> set ''()+,=:@''"

fun parse_segments :: "string list \<Rightarrow> net_error + segment list" where
  "parse_segments [] = Inr []"
| "parse_segments (s # rest) =
     (let seg =
        (if s = [] then Inl EmptySegment
         else if s = ''**'' then (if rest = [] then Inr Rest else Inl RestNotLast)
         else if s = ''*'' then Inr One
         else if s = ''.'' \<or> s = ''..'' then Inl (DotSegment s)
         else if CHR ''*'' \<in> set s then Inl (StarInside s)
         else if \<not> list_all literal_char s then Inl (BadChar s)
         else Inr (Literal s))
      in case seg of
           Inl e \<Rightarrow> Inl e
         | Inr sg \<Rightarrow> (case parse_segments rest of Inl e \<Rightarrow> Inl e | Inr sgs \<Rightarrow> Inr (sg # sgs)))"

definition parse_pattern :: "string \<Rightarrow> net_error + segment list" where
  "parse_pattern path =
     (case strip_prefix ''/'' path of
        None \<Rightarrow> Inl NoLeadingSlash
      | Some rest \<Rightarrow>
          if MAX_PATTERN_BYTES < length path then Inl PatternTooLong
          else if rest = [] then Inl EmptyPath
          else let parts = split_on CHR ''/'' rest
               in if MAX_SEGMENTS < length parts then Inl TooManySegments
                  else parse_segments parts)"

fun segment_text :: "segment \<Rightarrow> string" where
  "segment_text (Literal l) = l"
| "segment_text One = ''*''"
| "segment_text Rest = ''**''"

definition render_pattern :: "segment list \<Rightarrow> string" where
  "render_pattern p = concat (map (\<lambda>s. CHR ''/'' # segment_text s) p)"

section \<open>A request's path\<close>

definition request_segments :: "string \<Rightarrow> string list" where
  "request_segments path =
     (case strip_prefix ''/'' path of
        None \<Rightarrow> []
      | Some rest \<Rightarrow> if rest = [] then [] else split_on CHR ''/'' rest)"

datatype ambiguous = Semicolon | DotInPath | EmptyInPath | BadEscape | EscapedSpecial

text \<open>The texts, in whose order the source compares two such verdicts.\<close>

fun ambiguous_text :: "ambiguous \<Rightarrow> string" where
  "ambiguous_text Semicolon = ''a `;` in the path, which some servers read as the start of path parameters (`..;/`)''"
| "ambiguous_text DotInPath = ''a `.` or `..` segment in the path, which a URL parser removes''"
| "ambiguous_text EmptyInPath = ''an empty segment (`//`) in the path, which some servers merge''"
| "ambiguous_text BadEscape = ''a `%` in the path that is not a two-digit escape''"
| "ambiguous_text EscapedSpecial =
     ''an escaped `/`, `'' @ [CHR 0x5C] @ ''`, `.`, `%`, `;` or control character in the path, which a server may decode into another path''"

fun ambiguous_segments :: "string list \<Rightarrow> ambiguous option" where
  "ambiguous_segments [] = None"
| "ambiguous_segments (s # rest) =
     (if s = ''.'' \<or> s = ''..'' then Some DotInPath
      else if s = [] \<and> rest \<noteq> [] then Some EmptyInPath
      else ambiguous_segments rest)"

definition special_byte :: "nat \<Rightarrow> bool" where
  "special_byte b \<longleftrightarrow> b \<in> {0x2F, 0x5C, 0x2E, 0x25, 0x3B} \<or> b < 0x20 \<or> b = 0x7F"

fun ambiguous_escapes :: "string \<Rightarrow> ambiguous option" where
  "ambiguous_escapes [] = None"
| "ambiguous_escapes (c # cs) =
     (if c = CHR ''%'' then
        (case cs of
           h # l # rest \<Rightarrow>
             (case (hex_digit h, hex_digit l) of
                (Some hi, Some lo) \<Rightarrow>
                  if special_byte (hi * 16 + lo) then Some EscapedSpecial else ambiguous_escapes rest
              | _ \<Rightarrow> Some BadEscape)
         | _ \<Rightarrow> Some BadEscape)
      else ambiguous_escapes cs)"

definition ambiguity :: "string \<Rightarrow> ambiguous option" where
  "ambiguity path =
     (if CHR '';'' \<in> set path then Some Semicolon
      else (case ambiguous_segments (request_segments path) of
              Some a \<Rightarrow> Some a
            | None \<Rightarrow> ambiguous_escapes path))"

fun segments_match :: "segment list \<Rightarrow> string list \<Rightarrow> bool" where
  "segments_match [] ss = (ss = [])"
| "segments_match (Rest # ps) ss = True"
| "segments_match (p # ps) [] = False"
| "segments_match (One # ps) (s # ss) = (if s = [] then False else segments_match ps ss)"
| "segments_match (Literal l # ps) (s # ss) = (if s \<noteq> l then False else segments_match ps ss)"

definition path_matches :: "segment list \<Rightarrow> string \<Rightarrow> bool" where
  "path_matches pattern path = segments_match pattern (request_segments path)"

section \<open>The verdict on a request\<close>

definition host_matches :: "string \<Rightarrow> string \<Rightarrow> bool" where
  "host_matches host pat =
     (case strip_prefix ''*.'' pat of
        Some suffix_part \<Rightarrow>
          length suffix_part < length host \<and> ends_with suffix_part host \<and>
          host ! (length host - length suffix_part - 1) = CHR ''.''
      | None \<Rightarrow> host = pat)"

datatype verdict = Allow | OtherHost | OutsidePath | OtherMethod | Ambiguous ambiguous

definition judge :: "string \<Rightarrow> string \<Rightarrow> string \<Rightarrow> string \<Rightarrow> verdict" where
  "judge entry method host path =
     (let (h, methods, p) = read_entry entry
      in if h = [] \<or> \<not> host_matches host h then OtherHost
         else
           let by_method = (if methods AND method_bit method = 0 then OtherMethod else Allow)
           in (case p of
                 None \<Rightarrow> by_method
               | Some p \<Rightarrow>
                   (case parse_pattern p of
                      Inl _ \<Rightarrow> OutsidePath
                    | Inr pattern \<Rightarrow>
                        (case ambiguity path of
                           Some why \<Rightarrow> Ambiguous why
                         | None \<Rightarrow> if \<not> path_matches pattern path then OutsidePath else by_method))))"

fun verdict_rank :: "verdict \<Rightarrow> nat" where
  "verdict_rank Allow = 0"
| "verdict_rank OtherHost = 1"
| "verdict_rank OutsidePath = 2"
| "verdict_rank OtherMethod = 3"
| "verdict_rank (Ambiguous _) = 4"

text \<open>\<open>Ord::max\<close> of the derived order: the second argument when they compare equal.\<close>

definition verdict_max :: "verdict \<Rightarrow> verdict \<Rightarrow> verdict" where
  "verdict_max a b =
     (case (a, b) of
        (Ambiguous x, Ambiguous y) \<Rightarrow> if ambiguous_text x \<le> ambiguous_text y then b else a
      | _ \<Rightarrow> if verdict_rank a \<le> verdict_rank b then b else a)"

fun judge_loop :: "string list \<Rightarrow> string \<Rightarrow> string \<Rightarrow> string \<Rightarrow> verdict \<Rightarrow> verdict" where
  "judge_loop [] method host path worst = worst"
| "judge_loop (e # es) method host path worst =
     (case judge e method host path of
        Allow \<Rightarrow> Allow
      | v \<Rightarrow> judge_loop es method host path (verdict_max worst v))"

definition judge_all :: "string list \<Rightarrow> string \<Rightarrow> string \<Rightarrow> string \<Rightarrow> verdict" where
  "judge_all entries method host path = judge_loop entries method host path OtherHost"

definition check_entry :: "string \<Rightarrow> net_error + unit" where
  "check_entry entry =
     (let (host, _, path) = read_entry entry
      in if host = [] \<or> starts_with '':'' host then Inl NoHost
         else
           let after = (if starts_with ''['' host
                        then map_option (\<lambda>i. drop (Suc i) host) (find_char CHR '']'' host)
                        else map_option (\<lambda>i. drop i host) (find_char CHR '':'' host));
               by_path = (case path of
                            None \<Rightarrow> Inr ()
                          | Some p \<Rightarrow> (case parse_pattern p of
                                         Inl why \<Rightarrow> Inl (PathRefused why)
                                       | Inr _ \<Rightarrow> Inr ()))
           in (case Option.bind after (strip_prefix '':'') of
                 None \<Rightarrow> by_path
               | Some m \<Rightarrow> (case parse_methods m of
                              Inl why \<Rightarrow> Inl (MethodsRefused why)
                            | Inr _ \<Rightarrow> by_path)))"

section \<open>The order and the meet\<close>

fun segment_within :: "segment \<Rightarrow> segment \<Rightarrow> bool" where
  "segment_within (Literal a) (Literal b) = (a = b)"
| "segment_within (Literal _) One = True"
| "segment_within One One = True"
| "segment_within _ _ = False"

fun pattern_within :: "segment list \<Rightarrow> segment list \<Rightarrow> bool" where
  "pattern_within cs [] = (cs = [])"
| "pattern_within cs (Rest # ps) = True"
| "pattern_within [] (p # ps) = False"
| "pattern_within (c # cs) (p # ps) = (segment_within c p \<and> pattern_within cs ps)"

fun segment_meet :: "segment \<Rightarrow> segment \<Rightarrow> segment option" where
  "segment_meet One One = Some One"
| "segment_meet One (Literal l) = Some (Literal l)"
| "segment_meet (Literal l) One = Some (Literal l)"
| "segment_meet (Literal p) (Literal q) = (if p = q then Some (Literal p) else None)"
| "segment_meet _ _ = None"

fun pattern_meet :: "segment list \<Rightarrow> segment list \<Rightarrow> segment list option" where
  "pattern_meet (Rest # as) bs = Some bs"
| "pattern_meet as (Rest # bs) = Some as"
| "pattern_meet [] [] = Some []"
| "pattern_meet [] (b # bs) = None"
| "pattern_meet (a # as) [] = None"
| "pattern_meet (a # as) (b # bs) =
     (case segment_meet a b of
        None \<Rightarrow> None
      | Some x \<Rightarrow> map_option (\<lambda>xs. x # xs) (pattern_meet as bs))"

definition entry_within :: "string \<Rightarrow> string \<Rightarrow> bool" where
  "entry_within child parent =
     (if child = parent then True
      else
        let (ch, cm, cp) = read_entry child; (ph, pm, pp) = read_entry parent
        in if ch \<noteq> ph \<or> cm AND NOT pm \<noteq> 0 then False
           else (case (cp, pp) of
                   (_, None) \<Rightarrow> True
                 | (None, Some _) \<Rightarrow> False
                 | (Some c, Some p) \<Rightarrow>
                     (case (parse_pattern c, parse_pattern p) of
                        (Inr c, Inr p) \<Rightarrow> pattern_within c p
                      | _ \<Rightarrow> False)))"

definition entry_meet :: "string \<Rightarrow> string \<Rightarrow> string option" where
  "entry_meet a b =
     (if a = b then Some a
      else
        let (ah, am, ap) = read_entry a; (bh, bm, bp) = read_entry b
        in if ah \<noteq> bh \<or> am AND bm = 0 then None
           else (case (case (ap, bp) of
                         (None, None) \<Rightarrow> Some []
                       | (None, Some p) \<Rightarrow> Some p
                       | (Some p, None) \<Rightarrow> Some p
                       | (Some x, Some y) \<Rightarrow>
                           (case (parse_pattern x, parse_pattern y) of
                              (Inr px, Inr py) \<Rightarrow> map_option render_pattern (pattern_meet px py)
                            | _ \<Rightarrow> None)) of
                   None \<Rightarrow> None
                 | Some path \<Rightarrow> Some (render_entry ah (am AND bm) path)))"

definition net_set_within :: "string fset \<Rightarrow> string fset \<Rightarrow> bool" where
  "net_set_within child parent = all_within_by entry_within child parent"

definition canonicalize_net :: "string fset \<Rightarrow> string fset" where
  "canonicalize_net net =
     ffilter (\<lambda>x. \<not> fBex net (\<lambda>y. y \<noteq> x \<and> entry_within x y \<and> (\<not> entry_within y x \<or> y < x))) net"

definition net_set_meet :: "string fset \<Rightarrow> string fset \<Rightarrow> string fset" where
  "net_set_meet a b = pair_meets entry_meet a b"

end
