(* ===== verification/Net_Order.thy ===== *)
theory Net_Order imports Net_Scope begin

text \<open>
  What the reading of network entries guarantees (\<open>Net_Scope\<close>): the pattern parser accepts exactly
  the spellings of well-formed patterns, the syntactic order and meet of patterns are exact for the
  paths they match, an entry is determined by its three parts, and the order on entries is a partial
  order that never calls more within than the matcher allows.
\<close>

section \<open>Patterns and their spelling\<close>

definition good_literal :: "string \<Rightarrow> bool" where
  "good_literal l \<longleftrightarrow> l \<noteq> [] \<and> l \<noteq> ''.'' \<and> l \<noteq> ''..'' \<and> CHR ''*'' \<notin> set l \<and> list_all literal_char l"

fun wf_segment :: "segment \<Rightarrow> bool" where
  "wf_segment (Literal l) = good_literal l"
| "wf_segment One = True"
| "wf_segment Rest = True"

fun wf_pattern :: "segment list \<Rightarrow> bool" where
  "wf_pattern [] = True"
| "wf_pattern (Rest # ps) = (ps = [])"
| "wf_pattern (p # ps) = (wf_segment p \<and> wf_pattern ps)"

lemma star_literal: "good_literal l \<Longrightarrow> l \<noteq> ''*'' \<and> l \<noteq> ''**''"
  by (auto simp: good_literal_def)

lemma parse_segments_sound:
  "parse_segments parts = Inr segs \<Longrightarrow> wf_pattern segs \<and> map segment_text segs = parts"
proof (induction parts arbitrary: segs)
  case (Cons s rest)
  then show ?case
    by (auto simp: Let_def good_literal_def split: if_splits sum.splits)
qed simp

lemma parse_segments_complete: "wf_pattern segs \<Longrightarrow> parse_segments (map segment_text segs) = Inr segs"
proof (induction segs)
  case (Cons p ps)
  then show ?case by (cases p) (auto simp: good_literal_def)
qed simp

lemma slash_not_literal: "literal_char c \<Longrightarrow> c \<noteq> CHR ''/'' \<and> c \<noteq> CHR '';'' \<and> c \<noteq> CHR ''%''"
  by (auto simp: literal_char_def is_ascii_alphanumeric_def is_ascii_alphabetic_def is_ascii_digit_def)

lemma wf_text: "wf_segment s \<Longrightarrow> segment_text s \<noteq> [] \<and> CHR ''/'' \<notin> set (segment_text s)"
  by (cases s) (auto simp: good_literal_def list_all_iff dest: slash_not_literal)

lemma wf_pattern_all: "wf_pattern p \<Longrightarrow> s \<in> set p \<Longrightarrow> wf_segment s"
  by (induction p rule: wf_pattern.induct) auto

lemma wf_texts: "wf_pattern p \<Longrightarrow> \<forall>x\<in>set (map segment_text p). x \<noteq> [] \<and> CHR ''/'' \<notin> set x"
  using wf_pattern_all wf_text by fastforce

lemma render_pattern_Cons:
  "render_pattern (s # p) = CHR ''/'' # join_with ''/'' (map segment_text (s # p))"
  by (induction p arbitrary: s) (auto simp: render_pattern_def)

lemma parse_pattern_iff:
  "parse_pattern p = Inr segs \<longleftrightarrow>
     wf_pattern segs \<and> segs \<noteq> [] \<and> p = render_pattern segs \<and> length p \<le> MAX_PATTERN_BYTES \<and> length segs \<le> MAX_SEGMENTS"
proof
  assume a: "parse_pattern p = Inr segs"
  then obtain rest where p: "p = CHR ''/'' # rest" and len: "length p \<le> MAX_PATTERN_BYTES" and "rest \<noteq> []"
    and k: "length (split_on CHR ''/'' rest) \<le> MAX_SEGMENTS"
    and parse: "parse_segments (split_on CHR ''/'' rest) = Inr segs"
    by (auto simp: parse_pattern_def Let_def strip_prefix_Some_iff split: option.splits if_splits)
  have wf: "wf_pattern segs" and tx: "map segment_text segs = split_on CHR ''/'' rest"
    using parse_segments_sound[OF parse] by auto
  then have "segs \<noteq> []" using split_on_not_Nil[of "CHR ''/''" rest] by (cases segs) auto
  then obtain s ss where ss: "segs = s # ss" by (cases segs) auto
  have "render_pattern segs = p"
    using ss tx join_split_on[of "CHR ''/''" rest] by (simp add: render_pattern_Cons p)
  moreover have "length segs = length (split_on CHR ''/'' rest)" by (metis tx length_map)
  ultimately show "wf_pattern segs \<and> segs \<noteq> [] \<and> p = render_pattern segs \<and>
      length p \<le> MAX_PATTERN_BYTES \<and> length segs \<le> MAX_SEGMENTS"
    using wf \<open>segs \<noteq> []\<close> len k by auto
next
  assume a: "wf_pattern segs \<and> segs \<noteq> [] \<and> p = render_pattern segs \<and>
      length p \<le> MAX_PATTERN_BYTES \<and> length segs \<le> MAX_SEGMENTS"
  then obtain s ss where ss: "segs = s # ss" by (cases segs) auto
  let ?t = "map segment_text segs"
  have r: "p = CHR ''/'' # join_with ''/'' ?t" using a ss by (simp add: render_pattern_Cons)
  have t: "\<forall>x\<in>set ?t. x \<noteq> [] \<and> CHR ''/'' \<notin> set x" using a wf_texts by blast
  have sp: "split_on CHR ''/'' (join_with ''/'' ?t) = ?t"
    by (rule split_on_join) (use t ss in auto)
  have "join_with ''/'' ?t \<noteq> []" using t ss by (cases ss) auto
  moreover have "length p \<le> MAX_PATTERN_BYTES" using a by blast
  moreover have "length ?t \<le> MAX_SEGMENTS" "parse_segments ?t = Inr segs"
    using a parse_segments_complete by (simp, blast)
  ultimately show "parse_pattern p = Inr segs"
    using sp unfolding r by (simp add: parse_pattern_def)
qed

lemma parse_pattern_wf: "parse_pattern p = Inr segs \<Longrightarrow> wf_pattern segs"
  by (simp add: parse_pattern_iff)

lemma parse_pattern_inj: "parse_pattern p = Inr segs \<Longrightarrow> parse_pattern q = Inr segs \<Longrightarrow> p = q"
  by (simp add: parse_pattern_iff)

section \<open>The order on patterns\<close>

lemma pattern_within_refl [simp]: "pattern_within p p"
proof (induction p)
  case (Cons s p)
  then show ?case by (cases s) auto
qed simp

lemma segment_within_trans: "segment_within a b \<Longrightarrow> segment_within b c \<Longrightarrow> segment_within a c"
  by (induction a b rule: segment_within.induct) (cases c; auto)+

lemma pattern_within_Cons:
  "pattern_within a (y # ys) \<longleftrightarrow>
     y = Rest \<or> (\<exists>x xs. a = x # xs \<and> segment_within x y \<and> pattern_within xs ys)"
  by (cases y; cases a) auto

lemma segment_within_Rest [simp]: "\<not> segment_within Rest y" "\<not> segment_within x Rest"
  by (cases y; simp) (cases x; simp)

lemma pattern_within_trans: "pattern_within a b \<Longrightarrow> pattern_within b c \<Longrightarrow> pattern_within a c"
proof (induction c arbitrary: a b)
  case (Cons y ys)
  show ?case
  proof (cases "y = Rest")
    case False
    then obtain x xs where b: "b = x # xs" "segment_within x y" "pattern_within xs ys"
      using Cons.prems(2) by (auto simp: pattern_within_Cons)
    then have "x \<noteq> Rest" by auto
    then obtain w ws where "a = w # ws" "segment_within w x" "pattern_within ws xs"
      using Cons.prems(1) b(1) by (auto simp: pattern_within_Cons)
    then show ?thesis using b Cons.IH segment_within_trans by (fastforce simp: pattern_within_Cons)
  qed (simp add: pattern_within_Cons)
qed simp

lemma segment_within_antisym: "segment_within x y \<Longrightarrow> segment_within y x \<Longrightarrow> x = y"
  by (cases x; cases y) auto

lemma pattern_within_antisym:
  "wf_pattern a \<Longrightarrow> wf_pattern b \<Longrightarrow> pattern_within a b \<Longrightarrow> pattern_within b a \<Longrightarrow> a = b"
proof (induction b arbitrary: a)
  case (Cons y ys)
  show ?case
  proof (cases a)
    case Nil
    then show ?thesis using Cons.prems(4) by simp
  next
    case (Cons x xs)
    have "y = Rest \<longleftrightarrow> x = Rest"
      using Cons.prems(3,4) Cons by (auto simp: pattern_within_Cons)
    then show ?thesis
      using Cons.prems Cons Cons.IH[of xs]
      by (cases x; cases y) (auto simp: pattern_within_Cons)
  qed
qed simp

interpretation pattern_order: scope_order pattern_within
  by unfold_locales (auto intro: pattern_within_trans)

section \<open>The order and the meet are exact\<close>

lemma segments_match_Cons:
  "segments_match (p # ps) ss \<longleftrightarrow>
     p = Rest \<or>
     (\<exists>x xs. ss = x # xs \<and> (case p of Literal l \<Rightarrow> x = l | One \<Rightarrow> x \<noteq> [] | Rest \<Rightarrow> True) \<and> segments_match ps xs)"
  by (cases p; cases ss) auto

lemma segments_match_mono:
  "wf_pattern c \<Longrightarrow> pattern_within c p \<Longrightarrow> segments_match c ss \<Longrightarrow> segments_match p ss"
proof (induction p arbitrary: c ss)
  case (Cons y ys)
  show ?case
  proof (cases "y = Rest")
    case False
    then obtain x xs where c: "c = x # xs" "segment_within x y" "pattern_within xs ys"
      using Cons.prems(2) by (auto simp: pattern_within_Cons)
    then have "x \<noteq> Rest" by auto
    then obtain t ts where ss: "ss = t # ts" "segments_match xs ts"
      and t: "case x of Literal l \<Rightarrow> t = l | One \<Rightarrow> t \<noteq> [] | Rest \<Rightarrow> True"
      using Cons.prems(3) c(1) by (auto simp: segments_match_Cons)
    have "wf_pattern xs" "wf_segment x" using Cons.prems(1) c(1) \<open>x \<noteq> Rest\<close> by (cases x; simp)+
    then have "segments_match ys ts" using Cons.IH c(3) ss(2) by blast
    then show ?thesis
      using ss(1) t c(2) False \<open>wf_segment x\<close>
      by (cases x; cases y) (auto simp: segments_match_Cons good_literal_def)
  qed (simp add: segments_match_Cons)
qed simp

lemma pattern_meet_Rest [simp]: "pattern_meet as (Rest # bs) = Some (if as \<noteq> [] \<and> hd as = Rest then Rest # bs else as)"
  by (cases as; cases "hd as") auto

lemma pattern_meet_Cons:
  "x \<noteq> Rest \<Longrightarrow> y \<noteq> Rest \<Longrightarrow>
     pattern_meet (x # xs) (y # ys) =
     (case segment_meet x y of None \<Rightarrow> None | Some z \<Rightarrow> map_option (\<lambda>zs. z # zs) (pattern_meet xs ys))"
  "x \<noteq> Rest \<Longrightarrow> pattern_meet (x # xs) [] = None" "y \<noteq> Rest \<Longrightarrow> pattern_meet [] (y # ys) = None"
  by (cases x; cases y; simp)+


fun fits_segment :: "segment \<Rightarrow> string \<Rightarrow> bool" where
  "fits_segment (Literal l) x = (x = l)"
| "fits_segment One x = (x \<noteq> [])"
| "fits_segment Rest x = True"

lemma segments_match_step:
  "p \<noteq> Rest \<Longrightarrow> segments_match (p # ps) ss \<longleftrightarrow> (\<exists>x xs. ss = x # xs \<and> fits_segment p x \<and> segments_match ps xs)"
  by (cases p; cases ss) auto

lemma fits_segment_meet:
  "wf_segment x \<Longrightarrow> wf_segment y \<Longrightarrow> x \<noteq> Rest \<Longrightarrow> y \<noteq> Rest \<Longrightarrow>
     fits_segment x t \<and> fits_segment y t \<longleftrightarrow> (\<exists>z. segment_meet x y = Some z \<and> fits_segment z t)"
  by (cases x; cases y) (auto simp: good_literal_def)

lemma segment_meet_not_Rest: "segment_meet x y = Some z \<Longrightarrow> z \<noteq> Rest"
  by (cases x; cases y) (auto split: if_splits)

lemma segments_match_meet:
  "wf_pattern a \<Longrightarrow> wf_pattern b \<Longrightarrow>
     segments_match a ss \<and> segments_match b ss \<longleftrightarrow> (\<exists>m. pattern_meet a b = Some m \<and> segments_match m ss)"
proof (induction b arbitrary: a ss)
  case Nil
  then show ?case by (cases a; cases "hd a") (auto simp: segments_match_Cons)
next
  case (Cons y ys)
  show ?case
  proof (cases "y = Rest")
    case True
    then show ?thesis by (cases a) (auto simp: segments_match_Cons)
  next
    case y: False
    show ?thesis
    proof (cases a)
      case Nil
      then show ?thesis using y by (auto simp: segments_match_Cons pattern_meet_Cons)
    next
      case a: (Cons x xs)
      show ?thesis
      proof (cases "x = Rest")
        case True
        then show ?thesis using a by (simp add: segments_match_Cons)
      next
        case x: False
        have wf: "wf_pattern xs" "wf_pattern ys" "wf_segment x" "wf_segment y"
          using Cons.prems a x y by (cases x; cases y; simp)+
        note IH = Cons.IH[OF wf(1,2)] and M = fits_segment_meet[OF wf(3,4) x y]
        show ?thesis
        proof (cases ss)
          case Nil
          then show ?thesis
            using a x y by (auto simp: segments_match_step pattern_meet_Cons split: option.splits dest: segment_meet_not_Rest)
        next
          case (Cons t ts)
          have "segments_match a ss \<and> segments_match (y # ys) ss \<longleftrightarrow>
              (fits_segment x t \<and> fits_segment y t) \<and> (segments_match xs ts \<and> segments_match ys ts)"
            using Cons a x y by (auto simp: segments_match_step)
          also have "\<dots> \<longleftrightarrow> (\<exists>z. segment_meet x y = Some z \<and> fits_segment z t) \<and>
              (\<exists>m. pattern_meet xs ys = Some m \<and> segments_match m ts)"
            unfolding M IH ..
          also have "\<dots> \<longleftrightarrow> (\<exists>m. pattern_meet a (y # ys) = Some m \<and> segments_match m ss)"
            using Cons a x y
            by (auto simp: segments_match_step pattern_meet_Cons segment_meet_not_Rest split: option.splits)
          finally show ?thesis .
        qed
      qed
    qed
  qed
qed

lemma wf_pattern_Cons: "x \<noteq> Rest \<Longrightarrow> wf_pattern (x # xs) \<longleftrightarrow> wf_segment x \<and> wf_pattern xs"
  by (cases x) auto

lemma segment_meet_within:
  "segment_meet x y = Some z \<Longrightarrow> z \<noteq> Rest \<and> segment_within z x \<and> segment_within z y \<and> (wf_segment x \<longrightarrow> wf_segment y \<longrightarrow> wf_segment z)"
  by (cases x; cases y) (auto split: if_splits)

lemma pattern_meet_lower:
  "wf_pattern a \<Longrightarrow> wf_pattern b \<Longrightarrow> pattern_meet a b = Some m \<Longrightarrow>
     wf_pattern m \<and> pattern_within m a \<and> pattern_within m b"
proof (induction b arbitrary: a m)
  case Nil
  then show ?case by (cases a; cases "hd a") auto
next
  case (Cons y ys)
  show ?case
  proof (cases "y = Rest")
    case True
    then show ?thesis
      using Cons.prems pattern_within_refl[of a]
      by (cases "a \<noteq> [] \<and> hd a = Rest"; cases a) (auto simp del: pattern_within_refl)
  next
    case y: False
    show ?thesis
    proof (cases a)
      case a: (Cons x xs)
      show ?thesis
      proof (cases "x = Rest")
        case True
        then show ?thesis using Cons.prems a y by (auto simp: pattern_within_Cons)
      next
        case x: False
        then obtain z zs where z: "segment_meet x y = Some z" "pattern_meet xs ys = Some zs" "m = z # zs"
          using Cons.prems(3) a y by (auto simp: pattern_meet_Cons split: option.splits)
        have "wf_pattern zs \<and> pattern_within zs xs \<and> pattern_within zs ys"
          using Cons.IH[OF _ _ z(2)] Cons.prems(1,2) a x y by (simp add: wf_pattern_Cons)
        then show ?thesis
          using segment_meet_within[OF z(1)] z(3) a x y Cons.prems(1,2)
          by (auto simp: pattern_within_Cons wf_pattern_Cons)
      qed
    qed (use Cons.prems y in \<open>simp add: pattern_meet_Cons\<close>)
  qed
qed

lemma segment_meet_greatest:
  "segment_within z x \<Longrightarrow> segment_within z y \<Longrightarrow> \<exists>w. segment_meet x y = Some w \<and> segment_within z w"
  by (cases x; cases y; cases z) auto

lemma pattern_meet_greatest:
  "pattern_within c a \<Longrightarrow> pattern_within c b \<Longrightarrow> \<exists>m. pattern_meet a b = Some m \<and> pattern_within c m"
proof (induction b arbitrary: a c)
  case Nil
  then show ?case by (cases a; cases "hd a") (auto simp: pattern_within_Cons)
next
  case (Cons y ys)
  show ?case
  proof (cases "y = Rest")
    case True
    then show ?thesis using Cons.prems by simp
  next
    case y: False
    then obtain w ws where c: "c = w # ws" "segment_within w y" "pattern_within ws ys"
      using Cons.prems(2) by (auto simp: pattern_within_Cons)
    show ?thesis
    proof (cases a)
      case a: (Cons x xs)
      show ?thesis
      proof (cases "x = Rest")
        case True
        then show ?thesis using Cons.prems a y by auto
      next
        case x: False
        then have xw: "segment_within w x" "pattern_within ws xs"
          using Cons.prems(1) a c(1) by (auto simp: pattern_within_Cons)
        obtain zs where zs: "pattern_meet xs ys = Some zs" "pattern_within ws zs"
          using Cons.IH[OF xw(2) c(3)] by blast
        obtain z where z: "segment_meet x y = Some z" "segment_within w z"
          using segment_meet_greatest[OF xw(1) c(2)] by blast
        show ?thesis
          using a x y c(1) z zs by (simp add: pattern_meet_Cons pattern_within_Cons)
      qed
    qed (use Cons.prems(1) c in simp)
  qed
qed

lemma segment_meet_commute: "segment_meet x y = segment_meet y x"
  by (cases x; cases y) auto

lemma pattern_meet_commute: "wf_pattern a \<Longrightarrow> wf_pattern b \<Longrightarrow> pattern_meet a b = pattern_meet b a"
proof (induction b arbitrary: a)
  case Nil
  then show ?case by (cases a; cases "hd a") auto
next
  case (Cons y ys)
  show ?case
  proof (cases a)
    case Nil
    then show ?thesis by (cases y) auto
  next
    case a: (Cons x xs)
    show ?thesis
    proof (cases "x = Rest \<or> y = Rest")
      case True
      then show ?thesis using Cons.prems a by (cases x; cases y) auto
    next
      case False
      then have "pattern_meet xs ys = pattern_meet ys xs"
        using Cons.IH[of xs] Cons.prems a by (simp add: wf_pattern_Cons)
      then show ?thesis
        using False a by (simp add: pattern_meet_Cons segment_meet_commute[of x] split: option.split)
    qed
  qed
qed

subsection \<open>No pattern is called outside another one it cannot escape\<close>

lemma some_match:
  "wf_pattern c \<Longrightarrow> c \<noteq> [] \<Longrightarrow> \<exists>ss. ss \<noteq> [] \<and> segments_match c ss \<and> (\<forall>s\<in>set ss. good_literal s)"
proof (induction c)
  case (Cons x xs)
  have g: "good_literal ''a''" by (simp add: good_literal_def literal_char_def is_ascii_alphanumeric_def is_ascii_alphabetic_def)
  show ?case
  proof (cases x)
    case Rest
    then show ?thesis using g by (intro exI[of _ "[''a'']"]) simp
  next
    case (Literal l)
    then have "good_literal l" "wf_pattern xs" using Cons.prems by auto
    then obtain ss where "segments_match xs ss" "\<forall>s\<in>set ss. good_literal s"
      using Cons.IH by (cases "xs = []") force+
    then show ?thesis using Literal \<open>good_literal l\<close> by (intro exI[of _ "l # ss"]) simp
  next
    case One
    then have "wf_pattern xs" using Cons.prems by auto
    then obtain ss where "segments_match xs ss" "\<forall>s\<in>set ss. good_literal s"
      using Cons.IH by (cases "xs = []") force+
    then show ?thesis using One g by (intro exI[of _ "''a'' # ss"]) simp
  qed
qed simp

lemma escape_segment:
  assumes "wf_segment x" "x \<noteq> Rest" "y \<noteq> Rest"
  shows "\<exists>s. good_literal s \<and> (case x of Literal l \<Rightarrow> s = l | One \<Rightarrow> s \<noteq> [] | Rest \<Rightarrow> True) \<and>
           (segment_within x y \<or> \<not> (case y of Literal l \<Rightarrow> s = l | One \<Rightarrow> s \<noteq> [] | Rest \<Rightarrow> True))"
proof -
  have g: "good_literal ''a''" "good_literal ''b''"
    by (simp_all add: good_literal_def literal_char_def is_ascii_alphanumeric_def is_ascii_alphabetic_def)
  show ?thesis
  proof (cases x)
    case (Literal l)
    then show ?thesis using assms by (cases y) auto
  next
    case One
    then show ?thesis
      using g assms by (cases y; cases "y = Literal ''a''") auto
  qed (use assms in simp)
qed

lemma escape_pattern:
  "wf_pattern c \<Longrightarrow> wf_pattern p \<Longrightarrow> \<not> pattern_within c p \<Longrightarrow>
     \<exists>ss. segments_match c ss \<and> \<not> segments_match p ss \<and> (\<forall>s\<in>set ss. good_literal s)"
proof (induction p arbitrary: c)
  case Nil
  then show ?case using some_match[of c] by auto
next
  case (Cons y ys)
  then have y: "y \<noteq> Rest" by auto
  show ?case
  proof (cases c)
    case Nil
    then show ?thesis using y by (intro exI[of _ "[]"]) (simp add: segments_match_Cons)
  next
    case c: (Cons x xs)
    show ?thesis
    proof (cases "x = Rest")
      case True
      then show ?thesis using c y by (intro exI[of _ "[]"]) (simp add: segments_match_Cons)
    next
      case x: False
      have wf: "wf_segment x" "wf_pattern xs" "wf_pattern ys"
        using Cons.prems c x y by (auto simp: wf_pattern_Cons)
      obtain s where s: "good_literal s" "case x of Literal l \<Rightarrow> s = l | One \<Rightarrow> s \<noteq> [] | Rest \<Rightarrow> True"
        "segment_within x y \<or> \<not> (case y of Literal l \<Rightarrow> s = l | One \<Rightarrow> s \<noteq> [] | Rest \<Rightarrow> True)"
        using escape_segment[OF wf(1) x y] by blast
      show ?thesis
      proof (cases "segment_within x y")
        case True
        then obtain ss where "segments_match xs ss" "\<not> segments_match ys ss" "\<forall>s\<in>set ss. good_literal s"
          using Cons.IH[of xs] Cons.prems(3) wf c x y by (auto simp: pattern_within_Cons)
        then show ?thesis using s c x y by (intro exI[of _ "s # ss"]) (simp add: segments_match_Cons)
      next
        case False
        obtain ss where "segments_match xs ss" "\<forall>s\<in>set ss. good_literal s"
          using some_match[OF wf(2)] by (cases "xs = []") force+
        then show ?thesis using s False c x y by (intro exI[of _ "s # ss"]) (simp add: segments_match_Cons)
      qed
    qed
  qed
qed

definition path_of_segments :: "string list \<Rightarrow> string" where
  "path_of_segments ss = CHR ''/'' # join_with ''/'' ss"

lemma request_path_of_segments:
  assumes "\<forall>s\<in>set ss. good_literal s"
  shows "request_segments (path_of_segments ss) = ss"
proof (cases ss)
  case Nil
  then show ?thesis by (simp add: request_segments_def path_of_segments_def strip_prefix_Some_iff)
next
  case (Cons a as)
  have "\<forall>x\<in>set ss. CHR ''/'' \<notin> set x"
    using assms slash_not_literal by (fastforce simp: good_literal_def list_all_iff)
  then have "split_on CHR ''/'' (join_with ''/'' ss) = ss" using Cons by (intro split_on_join) auto
  moreover have "join_with ''/'' ss \<noteq> []" using Cons assms by (cases as) (auto simp: good_literal_def)
  ultimately show ?thesis by (simp add: request_segments_def path_of_segments_def)
qed

lemma no_escapes: "CHR ''%'' \<notin> set cs \<Longrightarrow> ambiguous_escapes cs = None"
  by (induction cs) auto

lemma segments_plain: "\<forall>s\<in>set ss. good_literal s \<Longrightarrow> ambiguous_segments ss = None"
  by (induction ss) (auto simp: good_literal_def)

lemma path_of_segments_plain:
  assumes "\<forall>s\<in>set ss. good_literal s"
  shows "ambiguity (path_of_segments ss) = None"
proof -
  have "CHR '';'' \<notin> set x \<and> CHR ''%'' \<notin> set x" if "x \<in> set ss" for x
    using assms that slash_not_literal by (fastforce simp: good_literal_def list_all_iff)
  then have "CHR '';'' \<notin> set (path_of_segments ss) \<and> CHR ''%'' \<notin> set (path_of_segments ss)"
    using join_with_set[of "''/''" ss] by (auto simp: path_of_segments_def)
  then show ?thesis
    using request_path_of_segments[OF assms] segments_plain[OF assms] no_escapes by (simp add: ambiguity_def)
qed

end
