(* ===== verification/Net_Entries.thy ===== *)
theory Net_Entries imports Net_Order begin

text \<open>
  Whole entries: the reading of \<open>HOST[:METHODS][/PATTERN]\<close> inverts its printing, the order on entries
  is a partial order sound for the verdicts, and the meet never lets through what one side refuses.
\<close>

section \<open>Method sets\<close>

lemma find_index_of_Some:
  "find_index_of a xs = Some i \<Longrightarrow> i < length xs \<and> xs ! i = a"
  by (induction xs arbitrary: i) (auto split: if_splits)

lemma bit_single [simp]: "bit (2 ^ i :: u8) n \<longleftrightarrow> n = i \<and> n < 8"
  by (auto simp: bit_exp_iff)

lemma parse_methods_loop_sound:
  "parse_methods_loop ms s last_i = Inr t \<Longrightarrow>
     \<exists>is. ms = map ((!) METHODS) is \<and> sorted_wrt (<) is \<and>
        (\<forall>i\<in>set is. i < 6 \<and> (\<forall>l. last_i = Some l \<longrightarrow> l < i)) \<and>
        (\<forall>n. bit t n \<longleftrightarrow> bit s n \<or> n \<in> set is)"
proof (induction ms arbitrary: s last_i)
  case Nil
  then show ?case by simp
next
  case (Cons m ms)
  obtain i where i: "find_index_of m METHODS = Some i" "\<forall>l. last_i = Some l \<longrightarrow> l < i"
    and rec: "parse_methods_loop ms (s OR push_bit i 1) (Some i) = Inr t"
    using Cons.prems by (auto split: option.splits if_splits)
  have m: "i < 6" "METHODS ! i = m" using find_index_of_Some[OF i(1)] by (simp_all add: METHODS_def)
  obtain js where js: "ms = map ((!) METHODS) js" "sorted_wrt (<) js"
      "\<forall>j\<in>set js. j < 6 \<and> i < j" "\<forall>n. bit t n \<longleftrightarrow> bit (s OR push_bit i 1) n \<or> n \<in> set js"
    using Cons.IH[OF rec] by auto
  show ?case
    using js m i(2) by (intro exI[of _ "i # js"]) (auto simp: bit_or_iff)
qed

lemma filter_upt_sorted:
  assumes "sorted_wrt (<) (is :: nat list)" "\<forall>i\<in>set is. i < k"
  shows "filter (\<lambda>n. n \<in> set is) [0..<k] = is"
proof (rule sorted_distinct_set_unique)
  show "sorted is" "distinct is" using assms(1) by (simp_all add: strict_sorted_iff)
qed (use assms in \<open>auto simp: sorted_wrt_filter\<close>)

lemma parse_methods_loop_names:
  assumes "parse_methods_loop ms 0 None = Inr t"
  shows "method_names t = ms" "\<forall>n. bit t n \<longrightarrow> n < 6"
proof -
  obtain js where js: "ms = map ((!) METHODS) js" "sorted_wrt (<) js" "\<forall>i\<in>set js. i < 6"
      "\<forall>n. bit t n \<longleftrightarrow> n \<in> set js"
    using parse_methods_loop_sound[OF assms] by auto
  have "filter (bit t) [0..<6] = js"
    using filter_upt_sorted[OF js(2,3)] js(4) by (metis (no_types, lifting) filter_cong)
  then show "method_names t = ms" "\<forall>n. bit t n \<longrightarrow> n < 6"
    using js by (auto simp: method_names_def)
qed

lemma parse_methods_names:
  "parse_methods s = Inr t \<Longrightarrow> s = join_with '','' (method_names t) \<and> t \<noteq> GET_ONLY \<and> (\<forall>n. bit t n \<longrightarrow> n < 6)"
  using parse_methods_loop_names[of "split_on CHR '','' s" t] join_split_on[of "CHR '',''" s]
  by (auto simp: parse_methods_def split: sum.splits if_splits)

lemma small_mask:
  assumes "\<forall>n. bit (t :: u8) n \<longrightarrow> n < 6"
  shows "t \<in> set (map of_nat [0..<64])"
proof -
  have "take_bit 6 t = t" using assms by (auto intro!: bit_eqI simp: bit_take_bit_iff)
  then have "take_bit 6 (unat t) = unat t" by (metis unsigned_take_bit_eq)
  then have "unat t < 2 ^ 6" by (metis take_bit_nat_less_exp)
  then have "t = of_nat (unat t) \<and> unat t \<in> {0..<64}" by simp
  then show ?thesis by (metis image_eqI list.set_map set_upt)
qed

lemma method_print_parse:
  "t \<in> set (map of_nat [0..<64]) \<Longrightarrow> t \<noteq> 0 \<Longrightarrow> t \<noteq> GET_ONLY \<Longrightarrow>
     parse_methods (join_with '','' (method_names t)) = Inr t \<and> CHR ''/'' \<notin> set (join_with '','' (method_names t))"
proof -
  have "list_all (\<lambda>t :: u8. t = 0 \<or> t = GET_ONLY \<or>
      parse_methods (join_with '','' (method_names t)) = Inr t \<and> CHR ''/'' \<notin> set (join_with '','' (method_names t)))
      (map of_nat [0..<64])"
    by code_simp
  then show "t \<in> set (map of_nat [0..<64]) \<Longrightarrow> t \<noteq> 0 \<Longrightarrow> t \<noteq> GET_ONLY \<Longrightarrow> ?thesis"
    unfolding list_all_iff by blast
qed

section \<open>Reading and printing entries\<close>

definition host_end :: "string \<Rightarrow> nat option" where
  "host_end head = (if starts_with ''['' head then map_option Suc (find_char CHR '']'' head)
                    else find_char CHR '':'' head)"

text \<open>A head that names methods, and one that names none.\<close>

definition plain_host :: "string \<Rightarrow> bool" where
  "plain_host h \<longleftrightarrow> (\<forall>rest. host_end (h @ CHR '':'' # rest) = Some (length h))"

lemma read_head_alt:
  "read_head head =
     (case host_end head of
        Some i \<Rightarrow> (case strip_prefix '':'' (drop i head) of
                     Some ms \<Rightarrow> (case parse_methods ms of Inr t \<Rightarrow> (take i head, t) | Inl _ \<Rightarrow> (head, GET_ONLY))
                   | None \<Rightarrow> (head, GET_ONLY))
      | None \<Rightarrow> (head, GET_ONLY))"
  by (auto simp: read_head_def host_end_def Let_def split: option.splits sum.splits)

lemma plain_hostI:
  assumes "host_end head = Some i" "strip_prefix '':'' (drop i head) = Some ms"
  shows "plain_host (take i head)"
proof -
  have d: "drop i head = CHR '':'' # ms" using assms(2) by (simp add: strip_prefix_Some_iff)
  then have len: "length (take i head) = i" by (metis drop_eq_Nil2 length_take list.distinct(1) min.absorb2 nle_le)
  show ?thesis
  proof (cases "starts_with ''['' head")
    case True
    then obtain j where j: "find_char CHR '']'' head = Some j" "i = Suc j"
      using assms(1) by (auto simp: host_end_def)
    then have jj: "j < length head" "head ! j = CHR '']''" "CHR '']'' \<notin> set (take j head)"
      by (simp_all add: find_char_Some_iff)
    then have t: "take i head = take j head @ [CHR '']'']" using j(2) by (simp add: take_Suc_conv_app_nth)
    have j0: "take j head \<noteq> []" using True jj by (cases head; cases j) (auto simp: starts_with_def)
    have "starts_with ''['' (take i head @ x)" for x
      using True j(2) by (cases head) (simp_all add: starts_with_def)
    moreover have "find_char CHR '']'' (take i head @ x) = Some j" for x
      unfolding t using jj by (simp add: find_char_append_sep)
    ultimately show ?thesis using j(2) len by (simp add: plain_host_def host_end_def)
  next
    case False
    then have f: "find_char CHR '':'' head = Some i" using assms(1) by (simp add: host_end_def)
    then have nc: "CHR '':'' \<notin> set (take i head)" by (simp add: find_char_Some_iff)
    have "\<not> starts_with ''['' (take i head @ CHR '':'' # x)" for x
      using False by (cases head; cases i) (auto simp: starts_with_def)
    then show ?thesis using nc len by (simp add: plain_host_def host_end_def)
  qed
qed

lemma read_head_cases:
  assumes "read_head head = (h, t)"
  obtains (none) "t = GET_ONLY" "h = head"
  | (named) "t \<noteq> GET_ONLY" "plain_host h" "head = h @ '':'' @ join_with '','' (method_names t)"
      "\<forall>n. bit t n \<longrightarrow> n < 6"
proof (cases "(t, h) = (GET_ONLY, head)")
  case True
  then have "t = GET_ONLY" "h = head" by simp_all
  then show ?thesis by (rule none)
next
  case False
  obtain i where i1: "host_end head = Some i"
    using assms False by (cases "host_end head") (simp_all add: read_head_alt)
  obtain ms where i2: "strip_prefix '':'' (drop i head) = Some ms"
    using assms False i1 by (cases "strip_prefix '':'' (drop i head)") (simp_all add: read_head_alt)
  have i3: "parse_methods ms = Inr t" "h = take i head"
    using assms False i1 i2 by (cases "parse_methods ms"; simp add: read_head_alt)+
  note i = i1 i2 i3
  have pm: "ms = join_with '','' (method_names t)" "t \<noteq> GET_ONLY" "\<forall>n. bit t n \<longrightarrow> n < 6"
    by (rule parse_methods_names[OF i(3), THEN conjunct1]
        parse_methods_names[OF i(3), THEN conjunct2, THEN conjunct1]
        parse_methods_names[OF i(3), THEN conjunct2, THEN conjunct2])+
  have e: "head = h @ '':'' @ join_with '','' (method_names t)"
    using i(2,4) unfolding pm(1)[symmetric] by (metis append_take_drop_id strip_prefix_Some_iff)
  have pl: "plain_host h" unfolding i(4) by (rule plain_hostI[OF i(1,2)])
  show ?thesis by (rule named[OF pm(2) pl e pm(3)])
qed

lemma read_head_print:
  assumes "plain_host h" "t \<noteq> 0" "t \<noteq> GET_ONLY" "\<forall>n. bit t n \<longrightarrow> n < 6"
  shows "read_head (h @ '':'' @ join_with '','' (method_names t)) = (h, t)"
  using assms method_print_parse[OF small_mask] by (simp add: read_head_alt plain_host_def)

text \<open>The hosts and methods a reading can give, and the paths.\<close>

definition head_value :: "string \<Rightarrow> u8 \<Rightarrow> bool" where
  "head_value h t \<longleftrightarrow> CHR ''/'' \<notin> set h \<and>
     (if t = GET_ONLY then read_head h = (h, GET_ONLY)
      else plain_host h \<and> (\<forall>n. bit t n \<longrightarrow> n < 6))"

definition path_value :: "string option \<Rightarrow> bool" where
  "path_value p \<longleftrightarrow> (\<forall>s. p = Some s \<longrightarrow> starts_with ''/'' s)"

definition path_text :: "string option \<Rightarrow> string" where
  "path_text p = (case p of None \<Rightarrow> [] | Some s \<Rightarrow> s)"

lemma split_path_parts:
  assumes "split_path e = (head, p)"
  shows "e = head @ path_text p" "path_value p" "CHR ''/'' \<notin> set head"
  using assms
  by (auto simp: split_path_def path_text_def path_value_def find_char_Some_iff find_char_None_iff starts_with_def
      split: option.splits) (metis Cons_nth_drop_Suc prefix_code(1) prefix_code(2) Cons_prefix_Cons)

lemma split_path_join:
  "CHR ''/'' \<notin> set head \<Longrightarrow> path_value p \<Longrightarrow> split_path (head @ path_text p) = (head, p)"
  by (cases p) (auto simp: split_path_def path_text_def path_value_def starts_with_def prefix_def
      find_char_None_iff[THEN iffD2])

lemma read_entry_value:
  assumes "read_entry e = (h, t, p)"
  shows "head_value h t" "path_value p"
proof -
  obtain head where s: "split_path e = (head, p)" and r: "read_head head = (h, t)"
    using assms by (auto simp: read_entry_def split: prod.splits)
  show "path_value p" using split_path_parts[OF s] by simp
  show "head_value h t"
    using r
  proof (cases rule: read_head_cases)
    case none
    then show ?thesis using r split_path_parts[OF s] by (simp add: head_value_def)
  next
    case named
    then show ?thesis using split_path_parts(3)[OF s] by (auto simp: head_value_def)
  qed
qed

lemma read_render_entry:
  assumes "head_value h t" "path_value p" "t \<noteq> 0"
  shows "read_entry (render_entry h t (path_text p)) = (h, t, p)"
proof (cases "t = GET_ONLY")
  case True
  then show ?thesis
    using assms by (simp add: render_entry_def read_entry_def split_path_join head_value_def)
next
  case False
  let ?n = "join_with '','' (method_names t)"
  have n: "CHR ''/'' \<notin> set ?n" "read_head (h @ '':'' @ ?n) = (h, t)"
    using assms False method_print_parse[OF small_mask, of t] read_head_print[of h t] by (auto simp: head_value_def)
  then have "split_path ((h @ '':'' @ ?n) @ path_text p) = (h @ '':'' @ ?n, p)"
    using assms by (intro split_path_join) (auto simp: head_value_def)
  then show ?thesis using n(2) False by (simp add: render_entry_def read_entry_def)
qed

lemma render_read_entry:
  assumes "read_entry e = (h, t, p)"
  shows "render_entry h t (path_text p) = e"
proof -
  obtain head where s: "split_path e = (head, p)" and r: "read_head head = (h, t)"
    using assms by (auto simp: read_entry_def split: prod.splits)
  have e: "e = head @ path_text p" using split_path_parts[OF s] by simp
  show ?thesis
    using r by (cases rule: read_head_cases) (simp_all add: e render_entry_def)
qed

lemma read_entry_inj: "read_entry a = read_entry b \<longleftrightarrow> a = b"
  by (metis prod_cases3 render_read_entry)


section \<open>The order on entries\<close>

lemma mask_within_iff: "cm AND NOT pm = (0 :: u8) \<longleftrightarrow> (\<forall>n. bit cm n \<longrightarrow> bit pm n)"
  using bit_imp_le_length[of cm] by (auto simp: bit_eq_iff bit_and_iff bit_not_iff)

lemma mask_meets_iff: "am AND bm = (0 :: u8) \<longleftrightarrow> (\<forall>n. \<not> (bit am n \<and> bit bm n))"
  using bit_imp_le_length[of am] by (auto simp: bit_eq_iff bit_and_iff)

definition path_part_within :: "string option \<Rightarrow> string option \<Rightarrow> bool" where
  "path_part_within cp pp \<longleftrightarrow>
     pp = None \<or>
     (\<exists>c p cs ps. cp = Some c \<and> pp = Some p \<and> parse_pattern c = Inr cs \<and> parse_pattern p = Inr ps \<and> pattern_within cs ps)"

lemma entry_within_iff:
  assumes "read_entry c = (ch, cm, cp)" "read_entry p = (ph, pm, pp)"
  shows "entry_within c p \<longleftrightarrow>
    c = p \<or> ch = ph \<and> (\<forall>n. bit cm n \<longrightarrow> bit pm n) \<and> path_part_within cp pp"
  using assms
  by (auto simp: entry_within_def path_part_within_def mask_within_iff split: option.splits sum.splits)

lemma path_part_within_trans: "path_part_within a b \<Longrightarrow> path_part_within b c \<Longrightarrow> path_part_within a c"
  unfolding path_part_within_def by (auto intro: pattern_within_trans)

lemma entry_within_trans: "entry_within a b \<Longrightarrow> entry_within b c \<Longrightarrow> entry_within a c"
proof -
  assume ab: "entry_within a b" and bc: "entry_within b c"
  obtain ah am ap where a: "read_entry a = (ah, am, ap)" by (metis prod_cases3)
  obtain bh bm bp where b: "read_entry b = (bh, bm, bp)" by (metis prod_cases3)
  obtain ch cm cp where c: "read_entry c = (ch, cm, cp)" by (metis prod_cases3)
  show ?thesis
  proof (cases "a = b \<or> b = c")
    case False
    then show ?thesis
      using ab bc path_part_within_trans[of ap bp cp]
      unfolding entry_within_iff[OF a b] entry_within_iff[OF b c] entry_within_iff[OF a c] by auto
  qed (use ab bc in auto)
qed

lemma path_part_within_antisym: "path_part_within a b \<Longrightarrow> path_part_within b a \<Longrightarrow> a = b"
  unfolding path_part_within_def
  using pattern_within_antisym parse_pattern_wf parse_pattern_inj by fastforce

lemma entry_within_antisym: "entry_within a b \<Longrightarrow> entry_within b a \<Longrightarrow> a = b"
proof -
  assume ab: "entry_within a b" and ba: "entry_within b a"
  obtain ah am ap where a: "read_entry a = (ah, am, ap)" by (metis prod_cases3)
  obtain bh bm bp where b: "read_entry b = (bh, bm, bp)" by (metis prod_cases3)
  have "am = bm" if "\<forall>n. bit am n \<longrightarrow> bit bm n" "\<forall>n. bit bm n \<longrightarrow> bit am n"
    using that by (auto simp: bit_eq_iff)
  then have "a = b \<or> read_entry a = read_entry b"
    using ab ba path_part_within_antisym[of ap bp] a b
    unfolding entry_within_iff[OF a b] entry_within_iff[OF b a] by auto
  then show ?thesis by (simp add: read_entry_inj)
qed

lemma entry_within_refl [simp]: "entry_within a a"
  by (simp add: entry_within_def)

interpretation net_order: scope_order entry_within
  by unfold_locales (auto intro: entry_within_trans)

section \<open>The verdict respects the order\<close>

lemma judge_Allow_iff:
  assumes "read_entry e = (h, t, p)"
  shows "judge e method host path = Allow \<longleftrightarrow>
    h \<noteq> [] \<and> host_matches host h \<and> t AND method_bit method \<noteq> 0 \<and>
    (\<forall>s. p = Some s \<longrightarrow> (\<exists>pat. parse_pattern s = Inr pat \<and> ambiguity path = None \<and> path_matches pat path))"
  using assms by (auto simp: judge_def Let_def split: option.splits sum.splits)

lemma path_part_allows:
  assumes "path_part_within cp pp"
    "\<forall>s. cp = Some s \<longrightarrow> (\<exists>pat. parse_pattern s = Inr pat \<and> ambiguity path = None \<and> path_matches pat path)"
  shows "\<forall>s. pp = Some s \<longrightarrow> (\<exists>pat. parse_pattern s = Inr pat \<and> ambiguity path = None \<and> path_matches pat path)"
  using assms segments_match_mono parse_pattern_wf unfolding path_part_within_def path_matches_def by fastforce

lemma mask_allows: "\<forall>n. bit cm n \<longrightarrow> bit pm n \<Longrightarrow> cm AND (x :: u8) \<noteq> 0 \<Longrightarrow> pm AND x \<noteq> 0"
  unfolding mask_meets_iff by auto

lemma judge_mono:
  assumes "entry_within c p" "judge c method host path = Allow"
  shows "judge p method host path = Allow"
proof -
  obtain ch cm cp where c: "read_entry c = (ch, cm, cp)" by (metis prod_cases3)
  obtain ph pm pp where p: "read_entry p = (ph, pm, pp)" by (metis prod_cases3)
  show ?thesis
  proof (cases "c = p")
    case False
    then have w: "ch = ph" "\<forall>n. bit cm n \<longrightarrow> bit pm n" "path_part_within cp pp"
      using assms(1) entry_within_iff[OF c p] by auto
    show ?thesis
      using assms(2) mask_allows[OF w(2)] path_part_allows[OF w(3)] w(1)
      unfolding judge_Allow_iff[OF c] judge_Allow_iff[OF p] by blast
  qed (use assms(2) in simp)
qed

lemma verdict_max_Allow: "verdict_max a b = Allow \<Longrightarrow> a = Allow \<and> b = Allow"
  by (cases a; cases b) (auto simp: verdict_max_def split: if_splits)

lemma judge_loop_iff:
  "w \<noteq> Allow \<Longrightarrow> judge_loop es method host path w = Allow \<longleftrightarrow> (\<exists>e\<in>set es. judge e method host path = Allow)"
proof (induction es arbitrary: w)
  case (Cons e es)
  have "verdict_max w v \<noteq> Allow" for v using Cons.prems verdict_max_Allow by blast
  then show ?case using Cons by (auto split: verdict.splits)
qed simp

lemma judge_all_iff: "judge_all es method host path = Allow \<longleftrightarrow> (\<exists>e\<in>set es. judge e method host path = Allow)"
  by (simp add: judge_all_def judge_loop_iff)

lemma judge_all_within:
  assumes "net_set_within C P" "judge_all (sorted_elems C) method host path = Allow"
  shows "judge_all (sorted_elems P) method host path = Allow"
  using assms judge_mono unfolding judge_all_iff net_set_within_def all_within_by_def by auto metis

section \<open>The meet on entries\<close>

definition path_part_meet :: "string option \<Rightarrow> string option \<Rightarrow> string option option" where
  "path_part_meet ap bp =
     (case (ap, bp) of
        (None, None) \<Rightarrow> Some None
      | (None, Some p) \<Rightarrow> Some (Some p)
      | (Some p, None) \<Rightarrow> Some (Some p)
      | (Some x, Some y) \<Rightarrow>
          (case (parse_pattern x, parse_pattern y) of
             (Inr px, Inr py) \<Rightarrow> map_option (\<lambda>m. Some (render_pattern m)) (pattern_meet px py)
           | _ \<Rightarrow> None))"

lemma entry_meet_alt:
  assumes "a \<noteq> b" "read_entry a = (ah, am, ap)" "read_entry b = (bh, bm, bp)"
  shows "entry_meet a b =
    (if ah \<noteq> bh \<or> am AND bm = 0 then None
     else map_option (\<lambda>p. render_entry ah (am AND bm) (path_text p)) (path_part_meet ap bp))"
  using assms
  by (auto simp: entry_meet_def path_part_meet_def path_text_def map_option_case split: option.splits sum.splits)

lemma pattern_meet_not_Nil: "pattern_meet a b = Some m \<Longrightarrow> a \<noteq> [] \<Longrightarrow> b \<noteq> [] \<Longrightarrow> m \<noteq> []"
  by (cases a; cases b; cases "hd a"; cases "hd b") (auto split: if_splits)

lemma path_part_meet_value:
  assumes "path_value ap" "path_value bp" "path_part_meet ap bp = Some p"
  shows "path_value p"
proof -
  have "starts_with ''/'' (render_pattern m)" if "m \<noteq> []" for m
    using that by (cases m) (auto simp: render_pattern_Cons starts_with_def)
  then show ?thesis
    using assms pattern_meet_not_Nil
    by (auto simp: path_part_meet_def path_value_def parse_pattern_iff split: option.splits sum.splits)
qed

lemma head_value_meet:
  assumes "head_value h am" "head_value h bm" "am AND bm \<noteq> 0"
  shows "head_value h (am AND bm)"
proof (cases "am = GET_ONLY \<or> bm = GET_ONLY")
  case True
  have one: "x AND GET_ONLY = GET_ONLY \<or> x AND GET_ONLY = 0" for x :: u8
    by (cases "even x") (simp_all add: GET_ONLY_def and_one_eq odd_iff_mod_2_eq_one even_iff_mod_2_eq_zero)
  show ?thesis
    using True assms one[of am] one[of bm] by (auto simp: head_value_def and.commute split: if_splits)
next
  case False
  show ?thesis
  proof (cases "am AND bm = GET_ONLY")
    case True
    have nc: "read_head h = (h, GET_ONLY)" if "plain_host h"
    proof -
      have "host_end h = None \<or> host_end h = Some (length h)"
        using that[unfolded plain_host_def, rule_format, of "[]"]
        by (cases h) (auto simp: host_end_def starts_with_def find_char_Some_iff find_char_None_iff nth_append split: if_splits)
      then show ?thesis by (auto simp: read_head_alt)
    qed
    then show ?thesis using True False assms by (simp add: head_value_def)
  next
    case F: False
    then show ?thesis using False assms by (auto simp: head_value_def bit_and_iff)
  qed
qed

lemma entry_meet_reads:
  assumes "a \<noteq> b" "read_entry a = (ah, am, ap)" "read_entry b = (bh, bm, bp)"
  shows "entry_meet a b = Some w \<longleftrightarrow>
    (\<exists>p. ah = bh \<and> am AND bm \<noteq> 0 \<and> path_part_meet ap bp = Some p \<and> read_entry w = (ah, am AND bm, p))"
proof -
  have read: "read_entry (render_entry ah (am AND bm) (path_text p)) = (ah, am AND bm, p)"
    if "ah = bh" "am AND bm \<noteq> 0" "path_part_meet ap bp = Some p" for p
  proof (rule read_render_entry)
    show "head_value ah (am AND bm)"
      using read_entry_value(1)[OF assms(2)] read_entry_value(1)[OF assms(3)] that(1,2) head_value_meet by metis
    show "path_value p"
      by (rule path_part_meet_value[OF read_entry_value(2)[OF assms(2)] read_entry_value(2)[OF assms(3)] that(3)])
  qed (rule that(2))
  show ?thesis
  proof (cases "ah = bh \<and> am AND bm \<noteq> 0 \<and> path_part_meet ap bp \<noteq> None")
    case True
    then obtain p where p: "path_part_meet ap bp = Some p" by blast
    have "entry_meet a b = Some (render_entry ah (am AND bm) (path_text p))"
      using True p by (simp add: entry_meet_alt[OF assms])
    moreover have "render_entry ah (am AND bm) (path_text p) = w \<longleftrightarrow> read_entry w = (ah, am AND bm, p)"
      using read[OF _ _ p] True read_entry_inj[of "render_entry ah (am AND bm) (path_text p)" w] by metis
    ultimately show ?thesis using True p by simp
  next
    case False
    then have "entry_meet a b = None" by (auto simp: entry_meet_alt[OF assms])
    then show ?thesis using False by auto
  qed
qed


lemma render_pattern_inj:
  assumes "wf_pattern a" "wf_pattern b" "render_pattern a = render_pattern b"
  shows "a = b"
proof (cases "a = [] \<or> b = []")
  case True
  then show ?thesis using assms(3) by (cases a; cases b) (auto simp: render_pattern_def)
next
  case False
  have r: "render_pattern p = CHR ''/'' # join_with ''/'' (map segment_text p)" if "p \<noteq> []" for p
    using that by (cases p) (simp_all add: render_pattern_Cons)
  have s: "split_on CHR ''/'' (join_with ''/'' (map segment_text p)) = map segment_text p"
    if "wf_pattern p" "p \<noteq> []" for p
    using wf_texts[OF that(1)] that(2) by (intro split_on_join) auto
  have "join_with ''/'' (map segment_text a) = join_with ''/'' (map segment_text b)"
    using assms(3) False r by simp
  then have "map segment_text a = map segment_text b"
    using s[of a] s[of b] assms(1,2) False by metis
  then show ?thesis using assms(1,2) parse_segments_complete by (metis sum.inject(2))
qed

lemma parse_render_pattern: "wf_pattern m \<Longrightarrow> parse_pattern (render_pattern m) = Inr q \<Longrightarrow> q = m"
  using render_pattern_inj by (auto simp: parse_pattern_iff)

definition path_allows :: "string option \<Rightarrow> string \<Rightarrow> bool" where
  "path_allows p path \<longleftrightarrow>
     (\<forall>s. p = Some s \<longrightarrow> (\<exists>pat. parse_pattern s = Inr pat \<and> ambiguity path = None \<and> path_matches pat path))"

lemma path_part_meet_cases:
  assumes "path_part_meet ap bp = Some p"
  obtains "ap = None" "p = bp" | "bp = None" "p = ap"
  | x y px py m where "ap = Some x" "bp = Some y" "parse_pattern x = Inr px" "parse_pattern y = Inr py"
      "pattern_meet px py = Some m" "p = Some (render_pattern m)"
proof (cases ap)
  case None
  then show ?thesis using that(1) assms by (cases bp) (simp_all add: path_part_meet_def)
next
  case x: (Some x)
  show ?thesis
  proof (cases bp)
    case None
    then show ?thesis using that(2) assms x by (simp add: path_part_meet_def)
  next
    case y: (Some y)
    then obtain px py where "parse_pattern x = Inr px" "parse_pattern y = Inr py"
      using assms x by (cases "parse_pattern x"; cases "parse_pattern y") (simp_all add: path_part_meet_def)
    moreover from this obtain m where "pattern_meet px py = Some m" "p = Some (render_pattern m)"
      using assms x y by (auto simp: path_part_meet_def)
    ultimately show ?thesis using that(3) x y by blast
  qed
qed

lemma path_part_meet_allows:
  assumes m: "path_part_meet ap bp = Some p" and al: "path_allows p path"
  shows "path_allows ap path \<and> path_allows bp path"
  using m
proof (cases rule: path_part_meet_cases)
  case (3 x y px py m)
  note wf = parse_pattern_wf[OF 3(3)] parse_pattern_wf[OF 3(4)]
  obtain q where q: "parse_pattern (render_pattern m) = Inr q" "ambiguity path = None" "path_matches q path"
    using al 3 by (auto simp: path_allows_def)
  have "q = m" using parse_render_pattern q(1) pattern_meet_lower[OF wf 3(5)] by blast
  then have "path_matches px path \<and> path_matches py path"
    using segments_match_meet[OF wf, of "request_segments path"] 3(5) q(3) by (auto simp: path_matches_def)
  then show ?thesis using 3 q(2) by (auto simp: path_allows_def)
qed (use al in \<open>auto simp: path_allows_def\<close>)

lemma meet_mask_allows: "(am AND bm) AND (x :: u8) \<noteq> 0 \<Longrightarrow> am AND x \<noteq> 0 \<and> bm AND x \<noteq> 0"
  unfolding mask_meets_iff by (auto simp: bit_and_iff)

lemma entry_meet_sound:
  assumes "entry_meet a b = Some w" "judge w method host path = Allow"
  shows "judge a method host path = Allow \<and> judge b method host path = Allow"
proof (cases "a = b")
  case False
  obtain ah am ap where a: "read_entry a = (ah, am, ap)" by (metis prod_cases3)
  obtain bh bm bp where b: "read_entry b = (bh, bm, bp)" by (metis prod_cases3)
  obtain p where p: "ah = bh" "path_part_meet ap bp = Some p" "read_entry w = (ah, am AND bm, p)"
    using assms(1) unfolding entry_meet_reads[OF False a b] by blast
  have j: "ah \<noteq> []" "host_matches host ah" "(am AND bm) AND method_bit method \<noteq> 0" "path_allows p path"
    using assms(2) unfolding judge_Allow_iff[OF p(3)] path_allows_def by auto
  then show ?thesis
    unfolding judge_Allow_iff[OF a] judge_Allow_iff[OF b] path_allows_def[symmetric]
    using path_part_meet_allows[OF p(2)] meet_mask_allows[of am bm] p(1) by auto
qed (use assms in \<open>auto simp: entry_meet_def\<close>)

lemma net_meet_sound:
  assumes "judge_all (sorted_elems (net_set_meet A B)) method host path = Allow"
  shows "judge_all (sorted_elems A) method host path = Allow \<and> judge_all (sorted_elems B) method host path = Allow"
  using assms entry_meet_sound unfolding judge_all_iff net_set_meet_def
  by (auto simp: pair_meets_iff) blast+

subsection \<open>The meet as a bound\<close>

text \<open>The meet of the two entries, when they have one, is an entry whose path parses.\<close>

definition meet_fits :: "string \<Rightarrow> string \<Rightarrow> bool" where
  "meet_fits a b \<longleftrightarrow>
     (case entry_meet a b of
        None \<Rightarrow> True
      | Some w \<Rightarrow> a = b \<or> (case read_entry w of (_, _, None) \<Rightarrow> True
                           | (_, _, Some p) \<Rightarrow> \<not> isl (parse_pattern p)))"

lemma meet_fits_alt:
  "meet_fits a b \<longleftrightarrow>
     (case entry_meet a b of
        None \<Rightarrow> True
      | Some w \<Rightarrow> a = b \<or> (case read_entry w of (_, _, None) \<Rightarrow> True
                           | (_, _, Some p) \<Rightarrow> (\<exists>q. parse_pattern p = Inr q)))"
  by (auto simp: meet_fits_def isl_def split: option.splits) (meson sum.exhaust)

lemma path_part_meet_lower:
  assumes m: "path_part_meet ap bp = Some p" and q: "\<forall>s. p = Some s \<longrightarrow> (\<exists>q. parse_pattern s = Inr q)"
  shows "path_part_within p ap \<and> path_part_within p bp"
  using m
proof (cases rule: path_part_meet_cases)
  case (3 x y px py m)
  note wf = parse_pattern_wf[OF 3(3)] parse_pattern_wf[OF 3(4)]
  have l: "wf_pattern m \<and> pattern_within m px \<and> pattern_within m py" by (rule pattern_meet_lower[OF wf 3(5)])
  then have "parse_pattern (render_pattern m) = Inr m" using q 3(6) parse_render_pattern by blast
  then show ?thesis using l 3 by (auto simp: path_part_within_def)
qed (use q in \<open>auto simp: path_part_within_def\<close>)

lemma entry_meet_lower:
  assumes "meet_fits a b" "entry_meet a b = Some w"
  shows "entry_within w a \<and> entry_within w b"
proof (cases "a = b")
  case False
  obtain ah am ap where a: "read_entry a = (ah, am, ap)" by (metis prod_cases3)
  obtain bh bm bp where b: "read_entry b = (bh, bm, bp)" by (metis prod_cases3)
  obtain p where p: "ah = bh" "path_part_meet ap bp = Some p" "read_entry w = (ah, am AND bm, p)"
    using assms(2) unfolding entry_meet_reads[OF False a b] by blast
  have "\<forall>s. p = Some s \<longrightarrow> (\<exists>q. parse_pattern s = Inr q)"
    using assms False p(3) by (auto simp: meet_fits_alt split: option.splits)
  then have "path_part_within p ap \<and> path_part_within p bp" by (rule path_part_meet_lower[OF p(2)])
  then show ?thesis
    unfolding entry_within_iff[OF p(3) a] entry_within_iff[OF p(3) b] using p(1) by (simp add: bit_and_iff)
qed (use assms in \<open>auto simp: entry_meet_def\<close>)

lemma path_part_meet_greatest:
  assumes "path_part_within z ap" "path_part_within z bp"
  shows "\<exists>p. path_part_meet ap bp = Some p \<and>
           ((\<forall>s. p = Some s \<longrightarrow> (\<exists>q. parse_pattern s = Inr q)) \<longrightarrow> path_part_within z p)"
proof (cases "ap = None \<or> bp = None")
  case True
  then show ?thesis using assms by (auto simp: path_part_meet_def split: option.splits)
next
  case False
  then obtain c x y cs px py where z: "z = Some c" "ap = Some x" "bp = Some y" "parse_pattern c = Inr cs"
    "parse_pattern x = Inr px" "parse_pattern y = Inr py" "pattern_within cs px" "pattern_within cs py"
    using assms by (auto simp: path_part_within_def)
  obtain m where m: "pattern_meet px py = Some m" "pattern_within cs m"
    using pattern_meet_greatest z(7,8) by blast
  have "wf_pattern m" using pattern_meet_lower m(1) parse_pattern_wf z(5,6) by blast
  then show ?thesis
    using z m parse_render_pattern by (fastforce simp: path_part_meet_def path_part_within_def)
qed

lemma read_methods_nonzero: "read_entry e = (h, t, p) \<Longrightarrow> t \<noteq> 0"
proof -
  assume "read_entry e = (h, t, p)"
  then obtain head where r: "read_head head = (h, t)" by (auto simp: read_entry_def split: prod.splits)
  have nz: "t \<noteq> 0" if "parse_methods ms = Inr t" for ms
  proof
    assume "t = 0"
    then have "ms = []" using parse_methods_names[OF that] by (simp add: method_names_def)
    then show False using that by (simp add: parse_methods_def METHODS_def)
  qed
  then show ?thesis
    using r by (auto simp: read_head_alt GET_ONLY_def split: option.splits sum.splits)
qed

lemma entry_meet_greatest:
  assumes fits: "meet_fits a b" and za: "entry_within z a" and zb: "entry_within z b"
  shows "\<exists>w. entry_meet a b = Some w \<and> entry_within z w"
proof (cases "a = b")
  case False
  obtain ah am ap where a: "read_entry a = (ah, am, ap)" by (metis prod_cases3)
  obtain bh bm bp where b: "read_entry b = (bh, bm, bp)" by (metis prod_cases3)
  obtain zh zm zp where z: "read_entry z = (zh, zm, zp)" by (metis prod_cases3)
  have h: "zh = ah" "zh = bh" "\<forall>n. bit zm n \<longrightarrow> bit am n \<and> bit bm n"
    using za zb a b z unfolding entry_within_iff[OF z a] entry_within_iff[OF z b] by auto
  have sub: "\<forall>n. bit zm n \<longrightarrow> bit (am AND bm) n" using h(3) by (simp add: bit_and_iff)
  have nz: "am AND bm \<noteq> 0"
    using read_methods_nonzero[OF z] sub by (auto simp: bit_eq_iff)
  have meet: "\<exists>p w. path_part_meet ap bp = Some p \<and> (z = w \<or> path_part_within zp p) \<and>
      entry_meet a b = Some w \<and> read_entry w = (ah, am AND bm, p)"
    if "path_part_meet ap bp = Some p" "read_entry z = (ah, am AND bm, p) \<or>
      ((\<forall>s. p = Some s \<longrightarrow> (\<exists>q. parse_pattern s = Inr q)) \<longrightarrow> path_part_within zp p)" for p
  proof -
    have "entry_meet a b = Some (render_entry ah (am AND bm) (path_text p))"
      using that(1) nz h(1,2) by (simp add: entry_meet_alt[OF False a b])
    then obtain w where w: "entry_meet a b = Some w" by blast
    from w obtain p' where "path_part_meet ap bp = Some p'" "read_entry w = (ah, am AND bm, p')"
      unfolding entry_meet_reads[OF False a b] by blast
    then have rw: "read_entry w = (ah, am AND bm, p)" using that(1) by simp
    then have "\<forall>s. p = Some s \<longrightarrow> (\<exists>q. parse_pattern s = Inr q)"
      using fits False w rw by (cases p) (simp_all add: meet_fits_alt)
    then have "z = w \<or> path_part_within zp p"
      using that(2) rw read_entry_inj[of z w] by auto
    then show ?thesis using that(1) w rw by blast
  qed
  have fin: ?thesis if "path_part_meet ap bp = Some p" "read_entry z = (ah, am AND bm, p) \<or>
      ((\<forall>s. p = Some s \<longrightarrow> (\<exists>q. parse_pattern s = Inr q)) \<longrightarrow> path_part_within zp p)" for p
    using meet[OF that] entry_within_iff[OF z, of _ ah "am AND bm"] h(1) sub by blast
  have mask: "am AND bm = zm" if "zm = am \<or> zm = bm"
    using that h(3) by (auto simp: bit_eq_iff bit_and_iff)
  show ?thesis
  proof (cases "path_part_within zp ap \<and> path_part_within zp bp")
    case True
    then show ?thesis using path_part_meet_greatest[of zp ap bp] fin by blast
  next
    case other: False
    have refl: "path_part_within zp zp" if "path_part_within zp q" "q \<noteq> None" for q
      using that by (auto simp: path_part_within_def)
    have za': "z = a \<or> path_part_within zp ap" and zb': "z = b \<or> path_part_within zp bp"
      using za zb unfolding entry_within_iff[OF z a] entry_within_iff[OF z b] by auto
    have "zp = ap" if "z = a" using that a z by simp
    moreover have "zp = bp" if "z = b" using that b z by simp
    ultimately consider (za) "z = a" "bp = None" | (zb) "z = b" "ap = None"
      using other za' zb' refl[of ap] refl[of bp] False by metis
    then show ?thesis
    proof cases
      case za
      then have "path_part_meet ap bp = Some ap" by (cases ap) (simp_all add: path_part_meet_def)
      then show ?thesis using fin[of ap] za(1) a z mask by simp
    next
      case zb
      then have "path_part_meet ap bp = Some bp" by (cases bp) (simp_all add: path_part_meet_def)
      then show ?thesis using fin[of bp] zb(1) b z mask h by simp
    qed
  qed
qed (use assms in \<open>auto simp: entry_meet_def\<close>)

interpretation net_meet: entry_meets entry_within entry_meet meet_fits
  by unfold_locales (auto dest: entry_meet_lower entry_meet_greatest)

section \<open>Sets of entries\<close>

lemma canonicalize_net_maximal: "canonicalize_net S = maximal_by entry_within S"
  unfolding canonicalize_net_def maximal_by_def
  by (rule fset_eqI) (auto dest: entry_within_antisym)

lemma canonicalize_net_equiv:
  "net_set_within (canonicalize_net S) S" "net_set_within S (canonicalize_net S)"
  unfolding net_set_within_def canonicalize_net_maximal
  by (rule net_order.maximal_within) (rule net_order.maximal_covers, erule entry_within_antisym)

lemma canonicalize_net_idem [simp]: "canonicalize_net (canonicalize_net S) = canonicalize_net S"
  by (simp add: canonicalize_net_maximal net_order.maximal_idem)

interpretation net_sets: scope_order net_set_within
  by unfold_locales (auto simp: net_set_within_def net_order.all_within_refl intro: net_order.all_within_trans)

lemma canonicalize_net_eq_iff:
  "canonicalize_net A = canonicalize_net B \<longleftrightarrow> net_set_within A B \<and> net_set_within B A"
proof
  assume "canonicalize_net A = canonicalize_net B"
  then show "net_set_within A B \<and> net_set_within B A"
    by (metis canonicalize_net_equiv net_sets.le_trans)
next
  assume "net_set_within A B \<and> net_set_within B A"
  then show "canonicalize_net A = canonicalize_net B"
    unfolding canonicalize_net_maximal net_set_within_def
    by (intro net_order.maximal_unique) (auto dest: entry_within_antisym)
qed

definition net_meet_fits :: "string fset \<Rightarrow> string fset \<Rightarrow> bool" where
  "net_meet_fits A B \<longleftrightarrow> fBall A (\<lambda>a. fBall B (meet_fits a))"

lemma net_set_meet_lower:
  "net_meet_fits A B \<Longrightarrow> net_set_within (net_set_meet A B) A \<and> net_set_within (net_set_meet A B) B"
  unfolding net_set_within_def net_set_meet_def net_meet_fits_def
  using net_meet.pair_meets_lower[of A B] by blast

lemma net_set_meet_greatest:
  "net_meet_fits A B \<Longrightarrow> net_set_within C A \<Longrightarrow> net_set_within C B \<Longrightarrow> net_set_within C (net_set_meet A B)"
  unfolding net_set_within_def net_set_meet_def net_meet_fits_def
  using net_meet.pair_meets_greatest[of A B C] by blast

section \<open>Properties\<close>

text \<open>The order on path patterns is exact: for two accepted patterns, the child's is within the parent's
  exactly when every request path the child's matches, of those that are not ambiguous, the parent's matches.\<close>

theorem pattern_order_exact:
  assumes "parse_pattern c = Inr cs" "parse_pattern p = Inr ps"
  shows "pattern_within cs ps \<longleftrightarrow>
    (\<forall>path. ambiguity path = None \<longrightarrow> path_matches cs path \<longrightarrow> path_matches ps path)"
proof
  note wf = parse_pattern_wf[OF assms(1)] parse_pattern_wf[OF assms(2)]
  show "pattern_within cs ps \<Longrightarrow> \<forall>path. ambiguity path = None \<longrightarrow> path_matches cs path \<longrightarrow> path_matches ps path"
    using segments_match_mono[OF wf(1)] by (auto simp: path_matches_def)
  assume all: "\<forall>path. ambiguity path = None \<longrightarrow> path_matches cs path \<longrightarrow> path_matches ps path"
  show "pattern_within cs ps"
  proof (rule ccontr)
    assume "\<not> pattern_within cs ps"
    then obtain ss where "segments_match cs ss" "\<not> segments_match ps ss" "\<forall>s\<in>set ss. good_literal s"
      using escape_pattern[OF wf] by blast
    then show False
      using all request_path_of_segments path_of_segments_plain by (metis path_matches_def)
  qed
qed

theorem pattern_order_exact_witness:
  "path_matches [Literal ''v1'', Literal ''x''] ''/v1/x'' \<and> path_matches [Literal ''v1'', One] ''/v1/x''"
proof -
  have c: "parse_pattern ''/v1/x'' = Inr [Literal ''v1'', Literal ''x'']" "parse_pattern ''/v1/*'' = Inr [Literal ''v1'', One]"
    "pattern_within [Literal ''v1'', Literal ''x''] [Literal ''v1'', One]" "ambiguity ''/v1/x'' = None"
    "path_matches [Literal ''v1'', Literal ''x''] ''/v1/x''"
    by code_simp+
  then show ?thesis using pattern_order_exact[OF c(1,2)] by blast
qed

text \<open>The meet of two accepted patterns is exact: a path is matched by the meet exactly when both match
  it, and there is no meet exactly when they have no path in common.\<close>

theorem pattern_meet_exact:
  assumes "parse_pattern a = Inr as" "parse_pattern b = Inr bs"
  shows "path_matches as path \<and> path_matches bs path \<longleftrightarrow>
    (\<exists>m. pattern_meet as bs = Some m \<and> path_matches m path)"
  unfolding path_matches_def
  by (rule segments_match_meet[OF parse_pattern_wf[OF assms(1)] parse_pattern_wf[OF assms(2)]])

theorem pattern_meet_exact_witness:
  "path_matches [Literal ''v1'', One] ''/v1/x'' \<and> path_matches [One, Literal ''x''] ''/v1/x'' \<longleftrightarrow>
    (\<exists>m. pattern_meet [Literal ''v1'', One] [One, Literal ''x''] = Some m \<and> path_matches m ''/v1/x'')"
  by (rule pattern_meet_exact[of "''/v1/*''" _ "''/*/x''"]) code_simp+

text \<open>C40: Network scopes are ordered soundly: when one set of entries is within another, every request
  the first allows, whatever its method, host and path, the second allows.\<close>

theorem net_order_sound:
  assumes "net_set_within C P" "judge_all (sorted_elems C) method host path = Allow"
  shows "judge_all (sorted_elems P) method host path = Allow"
  by (rule judge_all_within[OF assms])

theorem net_order_sound_witness:
  "judge_all (sorted_elems {|''api.x.com:GET,POST/v1/**''|}) ''POST'' ''api.x.com'' ''/v1/items'' = Allow"
  by (rule net_order_sound[of "{|''api.x.com:GET,POST/v1/items''|}"]) code_simp+

text \<open>The meet of two network scopes never lets through a request that either side refuses, even where a
  side's path does not parse or the meet's spelling is too long to parse.\<close>

theorem net_meet_never_widens:
  assumes "judge_all (sorted_elems (net_set_meet A B)) method host path = Allow"
  shows "judge_all (sorted_elems A) method host path = Allow \<and>
    judge_all (sorted_elems B) method host path = Allow"
  by (rule net_meet_sound[OF assms])

theorem net_meet_never_widens_witness:
  "judge_all (sorted_elems {|''api.x.com/v1/*''|}) ''GET'' ''api.x.com'' ''/v1/x'' = Allow \<and>
   judge_all (sorted_elems {|''api.x.com/*/x''|}) ''GET'' ''api.x.com'' ''/v1/x'' = Allow"
  by (rule net_meet_never_widens) code_simp

text \<open>The canonical form of a network scope covers and is covered by it, canonicalizing again
  changes nothing, and two scopes cover each other exactly when they have one canonical form.\<close>

theorem net_canonical_form:
  "net_set_within (canonicalize_net A) A \<and> net_set_within A (canonicalize_net A) \<and>
   canonicalize_net (canonicalize_net A) = canonicalize_net A \<and>
   (net_set_within A B \<and> net_set_within B A \<longleftrightarrow> canonicalize_net A = canonicalize_net B)"
  using canonicalize_net_equiv canonicalize_net_eq_iff by simp

text \<open>Printing the parts read from an entry gives the entry back, so an entry means nothing but its
  host, methods and path, and two entries with the same parts are the same entry.\<close>

theorem entry_reading_is_faithful:
  "(case read_entry e of (h, methods, path) \<Rightarrow>
      render_entry h methods (case path of None \<Rightarrow> [] | Some p \<Rightarrow> p) = e) \<and>
   (read_entry a = read_entry b \<longleftrightarrow> a = b)"
  using render_read_entry[of e] by (auto simp: read_entry_inj path_text_def split: prod.splits)

end
