(* ===== verification/Budget_Scope.thy ===== *)
theory Budget_Scope imports Scope_Order begin

text \<open>
  The resource budget of a grant, \<open>crates/delulu-broker/src/budget_scope.rs\<close>: a ceiling on memory and
  processor time, ordered componentwise, with the absent budget as the top.
\<close>

record budget_scope =
  memory_bytes :: nat
  cpu_seconds :: nat

definition SMALLEST :: budget_scope where
  "SMALLEST = \<lparr>memory_bytes = 1, cpu_seconds = 1\<rparr>"

datatype budget_error =
    NotKeyValue string
  | NotPositiveDecimal string
  | OutOfRange string
  | ZeroBudget
  | UnknownDimension string
  | NamedTwice string
  | BothMustBeNamed

definition budget_to_grant_string :: "budget_scope \<Rightarrow> string" where
  "budget_to_grant_string b = ''mem='' @ show_nat (memory_bytes b) @ '',cpu='' @ show_nat (cpu_seconds b)"

text \<open>One \<open>KEY=VALUE\<close> part, and the loop over the parts with the two slots.\<close>

definition budget_value :: "string \<Rightarrow> budget_error + nat" where
  "budget_value v =
     (if v = [] \<or> \<not> list_all is_ascii_digit v \<or> (1 < length v \<and> starts_with ''0'' v) then Inl (NotPositiveDecimal v)
      else (case parse_unsigned u64_max v of
              None \<Rightarrow> Inl (OutOfRange v)
            | Some n \<Rightarrow> if n = 0 then Inl ZeroBudget else Inr n))"

fun budget_parts :: "string list \<Rightarrow> nat option \<Rightarrow> nat option \<Rightarrow> budget_error + nat option \<times> nat option" where
  "budget_parts [] mem cpu = Inr (mem, cpu)"
| "budget_parts (part # parts) mem cpu =
     (case split_once CHR ''='' part of
        None \<Rightarrow> Inl (NotKeyValue part)
      | Some (k, v) \<Rightarrow>
          (case budget_value v of
             Inl e \<Rightarrow> Inl e
           | Inr n \<Rightarrow>
               if k = ''mem'' then
                 (if mem \<noteq> None then Inl (NamedTwice k) else budget_parts parts (Some n) cpu)
               else if k = ''cpu'' then
                 (if cpu \<noteq> None then Inl (NamedTwice k) else budget_parts parts mem (Some n))
               else Inl (UnknownDimension k)))"

definition budget_parse :: "string \<Rightarrow> budget_error + budget_scope" where
  "budget_parse s =
     (case budget_parts (split_on CHR '','' s) None None of
        Inl e \<Rightarrow> Inl e
      | Inr (Some m, Some c) \<Rightarrow> Inr \<lparr>memory_bytes = m, cpu_seconds = c\<rparr>
      | Inr _ \<Rightarrow> Inl BothMustBeNamed)"

fun budget_within :: "budget_scope option \<Rightarrow> budget_scope option \<Rightarrow> bool" where
  "budget_within _ None = True"
| "budget_within None (Some _) = False"
| "budget_within (Some c) (Some p) = (memory_bytes c \<le> memory_bytes p \<and> cpu_seconds c \<le> cpu_seconds p)"

fun budget_meet :: "budget_scope option \<Rightarrow> budget_scope option \<Rightarrow> budget_scope option" where
  "budget_meet None None = None"
| "budget_meet (Some x) None = Some x"
| "budget_meet None (Some x) = Some x"
| "budget_meet (Some x) (Some y) =
     Some \<lparr>memory_bytes = min (memory_bytes x) (memory_bytes y), cpu_seconds = min (cpu_seconds x) (cpu_seconds y)\<rparr>"

section \<open>The order and the meet\<close>

lemma budget_within_antisym: "budget_within a b \<Longrightarrow> budget_within b a \<Longrightarrow> a = b"
  by (cases a; cases b) auto

interpretation budget_order: scope_meet budget_within budget_meet
proof
  fix x y z :: "budget_scope option"
  show "budget_within x x" by (cases x) auto
  show "budget_within x y \<Longrightarrow> budget_within y z \<Longrightarrow> budget_within x z" by (cases x; cases y; cases z) auto
  show "budget_within (budget_meet x y) x" "budget_within (budget_meet x y) y" by (cases x; cases y; auto)+
  show "budget_within z x \<Longrightarrow> budget_within z y \<Longrightarrow> budget_within z (budget_meet x y)"
    by (cases x; cases y; cases z) auto
qed

lemma budget_meet_commute: "budget_meet a b = budget_meet b a"
  by (cases a; cases b) (auto simp: min.commute)

section \<open>The grant form\<close>

definition budget_ok :: "budget_scope \<Rightarrow> bool" where
  "budget_ok b \<longleftrightarrow> 0 < memory_bytes b \<and> memory_bytes b \<le> u64_max \<and> 0 < cpu_seconds b \<and> cpu_seconds b \<le> u64_max"

lemma show_nat_head: "0 < n \<Longrightarrow> \<not> starts_with ''0'' (show_nat n)"
proof -
  have "last (show_nat_rev n) \<noteq> CHR ''0''" if "0 < n" for n
    using that
  proof (induction n rule: show_nat_rev.induct)
    case (1 n)
    have d: "digit_char n \<noteq> CHR ''0''" if "n < 10" "0 < n"
    proof
      assume "digit_char n = CHR ''0''"
      then have "dec_digit (digit_char n) = Some 0" by (simp add: dec_digit_def is_ascii_digit_def)
      then show False using that by simp
    qed
    then show ?case using 1 by (subst show_nat_rev.simps) auto
  qed
  moreover assume "0 < n"
  ultimately have "last (show_nat_rev n) \<noteq> CHR ''0''" by blast
  then have "hd (show_nat n) \<noteq> CHR ''0''" by (simp add: show_nat_def hd_rev)
  then show ?thesis by (cases "show_nat n") (auto simp: starts_with_def)
qed

lemma budget_value_show: "0 < n \<Longrightarrow> n \<le> u64_max \<Longrightarrow> budget_value (show_nat n) = Inr n"
  using set_show_nat[of _ n] show_nat_head[of n] by (auto simp: budget_value_def list_all_iff)

definition slot_ok :: "nat option \<Rightarrow> bool" where
  "slot_ok s \<longleftrightarrow> (\<forall>k. s = Some k \<longrightarrow> 0 < k \<and> k \<le> u64_max)"

lemma budget_value_slot: "budget_value v = Inr n \<Longrightarrow> slot_ok (Some n)"
  by (auto simp: budget_value_def slot_ok_def dest: parse_unsigned_le split: option.splits if_splits)

lemma budget_parts_slots:
  "budget_parts ps m c = Inr (m', c') \<Longrightarrow> slot_ok m \<Longrightarrow> slot_ok c \<Longrightarrow> slot_ok m' \<and> slot_ok c'"
proof (induction ps arbitrary: m c)
  case (Cons p ps)
  obtain k v n where "split_once CHR ''='' p = Some (k, v)" and n: "budget_value v = Inr n"
    using Cons.prems(1) by (auto split: option.splits sum.splits)
  moreover have "slot_ok (Some n)" using n by (rule budget_value_slot)
  ultimately show ?case using Cons.prems Cons.IH by (auto split: if_splits)
qed simp

lemma budget_parse_ok: "budget_parse s = Inr b \<Longrightarrow> budget_ok b"
  using budget_parts_slots[of "split_on CHR '','' s" None None]
  unfolding budget_parse_def budget_ok_def slot_ok_def
  by (auto split: sum.splits option.splits prod.splits)

lemma budget_round_trip:
  assumes "budget_ok b"
  shows "budget_parse (budget_to_grant_string b) = Inr b"
proof -
  have nd: "CHR '','' \<notin> set (show_nat n) \<and> CHR ''='' \<notin> set (show_nat n)" for n
    by (simp add: is_ascii_digit_def)
  let ?m = "''mem='' @ show_nat (memory_bytes b)" and ?c = "''cpu='' @ show_nat (cpu_seconds b)"
  have "split_on CHR '','' (?m @ CHR '','' # ?c) = [?m, ?c]"
    using nd by (subst split_on_append_sep) (simp_all add: split_on_single)
  moreover have "budget_to_grant_string b = ?m @ CHR '','' # ?c" by (simp add: budget_to_grant_string_def)
  ultimately have s: "split_on CHR '','' (budget_to_grant_string b) = [?m, ?c]" by simp
  have kv: "split_once CHR ''='' ?m = Some (''mem'', show_nat (memory_bytes b))"
    "split_once CHR ''='' ?c = Some (''cpu'', show_nat (cpu_seconds b))"
    by (simp_all add: split_once_Some_iff)
  show ?thesis
    unfolding budget_parse_def s using kv assms by (simp add: budget_ok_def budget_value_show)
qed

section \<open>Properties\<close>

text \<open>A budget the parser accepts is positive and fits its width, its grant form parses back to it, and
  parsing accepts nothing else: every budget in range survives the round trip.\<close>

theorem budget_grant_form:
  "(budget_parse s = Inr b \<longrightarrow> budget_ok b) \<and>
   (budget_ok b \<longrightarrow> budget_parse (budget_to_grant_string b) = Inr b)"
  using budget_parse_ok budget_round_trip by blast

theorem budget_grant_form_witness:
  "budget_ok \<lparr>memory_bytes = 4096, cpu_seconds = 30\<rparr> \<and>
   budget_parse (budget_to_grant_string \<lparr>memory_bytes = 4096, cpu_seconds = 30\<rparr>) = Inr \<lparr>memory_bytes = 4096, cpu_seconds = 30\<rparr>"
  using budget_grant_form[of "''mem=4096,cpu=30''" "\<lparr>memory_bytes = 4096, cpu_seconds = 30\<rparr>"]
  by (simp add: budget_ok_def u64_max_def)

end
