(* ===== verification/Json.thy ===== *)
theory Json imports Prelude Complex_Main begin

text \<open>
  JSON values as \<open>serde_json\<close> gives them to the broker, and the canonical text
  (\<open>audit.rs\<close>, \<open>canonical_json\<close>) whose bytes the audit chain and the certificates hash. An object is an
  association list in the order of its keys, as \<open>serde_json\<close>'s map keeps it. How a single string is
  quoted and how a text is parsed are \<open>serde_json\<close>'s own: a parameter, the record \<open>libs\<close> below.
\<close>

datatype json =
    JNull
  | JBool bool
  | JInt int
  | JReal string
  | JString string
  | JArray "json list"
  | JObject "(string \<times> json) list"

text \<open>A double as the device grants read it from text.\<close>

datatype f64 = Finite rat | Infinite bool | NaN

text \<open>
  The libraries the broker calls: \<open>serde_json\<close>'s quoting of one string and its parser, the decimal text
  of a double read and written, and the BLAKE3 hash of a byte string, plain (as its hexadecimal text) and
  keyed (as its bytes); Unicode case mapping and normalization, and whether the platform compares paths
  without regard to case (\<open>cfg!(windows)\<close> or \<open>cfg!(target_os = "macos")\<close>); the last instant the
  monotonic clock can name, in nanoseconds.
\<close>

record libs =
  quote_string :: "string \<Rightarrow> string"
  parse_json :: "string \<Rightarrow> json option"
  read_f64 :: "string \<Rightarrow> f64 option"
  show_f64 :: "rat \<Rightarrow> string"
  blake3_hex :: "bytes \<Rightarrow> string"
  blake3_keyed :: "bytes \<Rightarrow> bytes \<Rightarrow> bytes"
  to_lower :: "string \<Rightarrow> string"
  to_upper :: "string \<Rightarrow> string"
  normalize_nfc :: "string \<Rightarrow> string"
  folds_case :: bool
  instant_max :: nat

text \<open>A concrete library, at which the properties that speak of a library are applied.\<close>

definition ascii_lower :: "char \<Rightarrow> char" where
  "ascii_lower c = (if 65 \<le> (of_char c :: nat) \<and> (of_char c :: nat) \<le> 90 then char_of ((of_char c :: nat) + 32) else c)"

definition ascii_upper :: "char \<Rightarrow> char" where
  "ascii_upper c = (if 97 \<le> (of_char c :: nat) \<and> (of_char c :: nat) \<le> 122 then char_of ((of_char c :: nat) - 32) else c)"

definition plain_libs :: libs where
  "plain_libs = \<lparr>quote_string = (\<lambda>s. [CHR 0x22] @ s @ [CHR 0x22]), parse_json = (\<lambda>_. None),
     read_f64 = (\<lambda>s. map_option (\<lambda>i. Finite (of_int i)) (parse_i64 s)),
     show_f64 = (\<lambda>r. show_int \<lfloor>r\<rfloor>), blake3_hex = to_hex, blake3_keyed = (\<lambda>k m. k @ m),
     to_lower = map ascii_lower, to_upper = map ascii_upper, normalize_nfc = id, folds_case = False, instant_max = 2 ^ 64 - 1\<rparr>"

fun obj_insert :: "string \<Rightarrow> json \<Rightarrow> (string \<times> json) list \<Rightarrow> (string \<times> json) list" where
  "obj_insert k v [] = [(k, v)]"
| "obj_insert k v ((k', v') # kvs) =
     (if k = k' then (k, v) # kvs
      else if k < k' then (k, v) # (k', v') # kvs
      else (k', v') # obj_insert k v kvs)"

definition obj_of :: "(string \<times> json) list \<Rightarrow> json" where
  "obj_of kvs = JObject (foldl (\<lambda>m (k, v). obj_insert k v m) [] kvs)"

definition obj_remove :: "string \<Rightarrow> (string \<times> json) list \<Rightarrow> (string \<times> json) list" where
  "obj_remove k kvs = filter (\<lambda>(k', _). k' \<noteq> k) kvs"

fun json_get :: "json \<Rightarrow> string \<Rightarrow> json option" where
  "json_get (JObject kvs) k = map_of kvs k"
| "json_get _ k = None"

fun as_str :: "json \<Rightarrow> string option" where
  "as_str (JString s) = Some s"
| "as_str _ = None"

fun as_array :: "json \<Rightarrow> json list option" where
  "as_array (JArray xs) = Some xs"
| "as_array _ = None"

fun as_object :: "json \<Rightarrow> (string \<times> json) list option" where
  "as_object (JObject kvs) = Some kvs"
| "as_object _ = None"

fun as_bool :: "json \<Rightarrow> bool option" where
  "as_bool (JBool b) = Some b"
| "as_bool _ = None"

fun as_u64 :: "json \<Rightarrow> nat option" where
  "as_u64 (JInt i) = (if 0 \<le> i \<and> i \<le> int u64_max then Some (nat i) else None)"
| "as_u64 _ = None"

fun as_i64 :: "json \<Rightarrow> int option" where
  "as_i64 (JInt i) = (if i64_min \<le> i \<and> i \<le> i64_max then Some i else None)"
| "as_i64 _ = None"

definition get_str :: "json \<Rightarrow> string \<Rightarrow> string option" where
  "get_str v k = Option.bind (json_get v k) as_str"

definition strings_json :: "string list \<Rightarrow> json" where
  "strings_json xs = JArray (map JString xs)"

fun canonical_json :: "libs \<Rightarrow> json \<Rightarrow> string" where
  "canonical_json js JNull = ''null''"
| "canonical_json js (JBool b) = (if b then ''true'' else ''false'')"
| "canonical_json js (JInt i) = show_int i"
| "canonical_json js (JReal t) = t"
| "canonical_json js (JString s) = quote_string js s"
| "canonical_json js (JArray xs) = ''['' @ join_with '','' (map (canonical_json js) xs) @ '']''"
| "canonical_json js (JObject kvs) =
     ''{'' @ join_with '',''
       (map (\<lambda>(k, t). quote_string js k @ '':'' @ t)
         (sort_key fst (map (\<lambda>(k, v). (k, canonical_json js v)) kvs))) @ ''}''"

section \<open>Objects keep their keys sorted\<close>

lemma map_of_obj_insert [simp]: "map_of (obj_insert k v kvs) k' = (if k' = k then Some v else map_of kvs k')"
  by (induction kvs) auto

lemma set_obj_insert: "fst ` set (obj_insert k v kvs) = insert k (fst ` set kvs)"
  by (induction k v kvs rule: obj_insert.induct) auto

lemma obj_insert_sorted:
  "sorted_wrt (<) (map fst kvs) \<Longrightarrow> sorted_wrt (<) (map fst (obj_insert k v kvs))"
proof (induction kvs)
  case (Cons kv kvs)
  obtain k' v' where kv: "kv = (k', v')" by (cases kv)
  have IH: "sorted_wrt (<) (map fst (obj_insert k v kvs))" using Cons by simp
  have lt: "\<forall>x\<in>fst ` set kvs. k' < x" using Cons.prems kv by auto
  have "\<forall>x\<in>fst ` set (obj_insert k v kvs). k' < x" if "k' < k"
    using lt that by (simp add: set_obj_insert)
  then show ?case using Cons.prems IH lt kv by auto
qed simp

definition obj_sorted :: "(string \<times> json) list \<Rightarrow> bool" where
  "obj_sorted kvs \<longleftrightarrow> sorted_wrt (<) (map fst kvs)"

lemma foldl_obj_insert_sorted:
  "obj_sorted m \<Longrightarrow> obj_sorted (foldl (\<lambda>m (k, v). obj_insert k v m) m kvs)"
  by (induction kvs arbitrary: m) (auto simp: obj_sorted_def obj_insert_sorted split: prod.splits)

lemma obj_of_sorted: "obj_of kvs = JObject m \<Longrightarrow> obj_sorted m"
  using foldl_obj_insert_sorted[of "[]" kvs] by (auto simp: obj_of_def obj_sorted_def)

lemma map_of_foldl_insert:
  "map_of (foldl (\<lambda>m (k, v). obj_insert k v m) m kvs) k =
     (case map_of (rev kvs) k of Some v \<Rightarrow> Some v | None \<Rightarrow> map_of m k)"
proof (induction kvs arbitrary: m)
  case (Cons kv kvs)
  then show ?case by (cases kv) (auto simp: map_add_def split: option.splits)
qed simp

lemma json_get_obj_of: "json_get (obj_of kvs) k = map_of (rev kvs) k"
  by (simp add: obj_of_def map_of_foldl_insert split: option.splits)

lemma sort_key_sorted_id: "obj_sorted kvs \<Longrightarrow> sort_key fst (map (\<lambda>(k, v). (k, f v)) kvs) = map (\<lambda>(k, v). (k, f v)) kvs"
proof -
  assume s: "obj_sorted kvs"
  have "map fst (map (\<lambda>(k, v). (k, f v)) kvs) = map fst kvs" by auto
  moreover have "sorted (map fst kvs)" using s by (simp add: obj_sorted_def strict_sorted_iff)
  ultimately show ?thesis by (metis sort_key_id_if_sorted)
qed

end
