(* ===== verification/Device_Scope.thy ===== *)
theory Device_Scope imports Scope_Order Json begin

text \<open>
  The device dimension of a grant, \<open>crates/delulu-broker/src/device_scope.rs\<close>: an envelope of named
  intervals with a rate bound, a heartbeat, a loan's end and a fail state; its grant form, its order and
  its meet. The bounds are finite doubles, rationals here; their decimal text is the library's.
\<close>

definition FAIL_STATES :: "string list" where
  "FAIL_STATES = [''hold'', ''coast'', ''safe-park'']"

record device_scope =
  device_name :: string
  dims :: "(string, rat \<times> rat) fmap"
  rate_hz :: "nat option"
  heartbeat_ms :: nat
  ttl_ms :: nat
  fail_state :: string

datatype device_error =
    MissingColon
  | EmptyDevice
  | BadPart string
  | AppearsTwice string
  | BadNumber string string
  | ZeroHeartbeat
  | UnknownFailState string
  | BadRange string string
  | BadBound string string
  | NonFiniteBound string
  | InvertedRange string
  | NoDimensions
  | NoHeartbeat
  | NoTtl
  | TtlShorterThanHeartbeat
  | NoFail

definition dim_text :: "libs \<Rightarrow> string \<times> rat \<times> rat \<Rightarrow> string" where
  "dim_text lb = (\<lambda>(d, lo, hi). d @ ''='' @ show_f64 lb lo @ ''..'' @ show_f64 lb hi)"

definition device_to_grant_string :: "libs \<Rightarrow> device_scope \<Rightarrow> string" where
  "device_to_grant_string lb s =
     (let parts = map (dim_text lb) (fm_entries (dims s))
            @ (case rate_hz s of Some hz \<Rightarrow> [''rate_hz='' @ show_nat hz] | None \<Rightarrow> [])
            @ [''heartbeat_ms='' @ show_nat (heartbeat_ms s), ''ttl_ms='' @ show_nat (ttl_ms s), ''fail='' @ fail_state s]
      in device_name s @ '':'' @ join_with '','' parts)"

section \<open>Reading the grant form\<close>

text \<open>What the loop over the terms has read so far.\<close>

record device_terms =
  t_dims :: "(string, rat \<times> rat) fmap"
  t_rate :: "nat option"
  t_heartbeat :: "nat option"
  t_ttl :: "nat option"
  t_fail :: "string option"
  t_seen :: "string fset"

definition no_terms :: device_terms where
  "no_terms = \<lparr>t_dims = fmempty, t_rate = None, t_heartbeat = None, t_ttl = None, t_fail = None, t_seen = {||}\<rparr>"

definition read_bound :: "libs \<Rightarrow> string \<Rightarrow> string \<Rightarrow> device_error + f64" where
  "read_bound lb k b = (case read_f64 lb (trim b) of None \<Rightarrow> Inl (BadBound k b) | Some x \<Rightarrow> Inr x)"

definition read_range :: "libs \<Rightarrow> string \<Rightarrow> string \<Rightarrow> device_error + rat \<times> rat" where
  "read_range lb k v =
     (case split_once_str ''..'' v of
        None \<Rightarrow> Inl (BadRange k v)
      | Some (lo, hi) \<Rightarrow>
          (case read_bound lb k lo of
             Inl e \<Rightarrow> Inl e
           | Inr l \<Rightarrow>
               (case read_bound lb k hi of
                  Inl e \<Rightarrow> Inl e
                | Inr h \<Rightarrow>
                    (case (l, h) of
                       (Finite l, Finite h) \<Rightarrow> if h < l then Inl (InvertedRange k) else Inr (l, h)
                     | _ \<Rightarrow> Inl (NonFiniteBound k)))))"

definition read_term :: "libs \<Rightarrow> string \<Rightarrow> string \<Rightarrow> device_terms \<Rightarrow> device_error + device_terms" where
  "read_term lb k v t =
     (if k = ''rate_hz'' then
        (case parse_unsigned u32_max v of None \<Rightarrow> Inl (BadNumber k v) | Some n \<Rightarrow> Inr (t\<lparr>t_rate := Some n\<rparr>))
      else if k = ''heartbeat_ms'' then
        (case parse_unsigned u64_max v of
           None \<Rightarrow> Inl (BadNumber k v)
         | Some n \<Rightarrow> if n = 0 then Inl ZeroHeartbeat else Inr (t\<lparr>t_heartbeat := Some n\<rparr>))
      else if k = ''ttl_ms'' then
        (case parse_unsigned u64_max v of None \<Rightarrow> Inl (BadNumber k v) | Some n \<Rightarrow> Inr (t\<lparr>t_ttl := Some n\<rparr>))
      else if k = ''fail'' then
        (if v \<notin> set FAIL_STATES then Inl (UnknownFailState v) else Inr (t\<lparr>t_fail := Some v\<rparr>))
      else
        (case read_range lb k v of
           Inl e \<Rightarrow> Inl e
         | Inr r \<Rightarrow> Inr (t\<lparr>t_dims := fmupd k r (t_dims t)\<rparr>)))"

fun read_terms :: "libs \<Rightarrow> string list \<Rightarrow> device_terms \<Rightarrow> device_error + device_terms" where
  "read_terms lb [] t = Inr t"
| "read_terms lb (p # ps) t =
     (let part = trim p
      in if part = [] then read_terms lb ps t
         else (case split_once CHR ''='' part of
                 None \<Rightarrow> Inl (BadPart part)
               | Some (k0, v0) \<Rightarrow>
                   let k = trim k0; v = trim v0
                   in if k |\<in>| t_seen t then Inl (AppearsTwice k)
                      else (case read_term lb k v (t\<lparr>t_seen := finsert k (t_seen t)\<rparr>) of
                              Inl e \<Rightarrow> Inl e
                            | Inr t' \<Rightarrow> read_terms lb ps t')))"

definition device_parse :: "libs \<Rightarrow> string \<Rightarrow> device_error + device_scope" where
  "device_parse lb spec =
     (case split_once CHR '':'' spec of
        None \<Rightarrow> Inl MissingColon
      | Some (d, rest) \<Rightarrow>
          let name = trim d
          in if name = [] then Inl EmptyDevice
             else (case read_terms lb (split_on CHR '','' rest) no_terms of
                     Inl e \<Rightarrow> Inl e
                   | Inr t \<Rightarrow>
                       if t_dims t = fmempty then Inl NoDimensions
                       else (case (t_heartbeat t, t_ttl t) of
                               (None, _) \<Rightarrow> Inl NoHeartbeat
                             | (_, None) \<Rightarrow> Inl NoTtl
                             | (Some hb, Some ttl) \<Rightarrow>
                                 if ttl < hb then Inl TtlShorterThanHeartbeat
                                 else (case t_fail t of
                                         None \<Rightarrow> Inl NoFail
                                       | Some f \<Rightarrow>
                                           Inr \<lparr>device_name = name, dims = t_dims t, rate_hz = t_rate t,
                                                heartbeat_ms = hb, ttl_ms = ttl, fail_state = f\<rparr>))))"

section \<open>The order and the meet\<close>

definition range_within :: "rat \<times> rat \<Rightarrow> rat \<times> rat \<Rightarrow> bool" where
  "range_within c p \<longleftrightarrow> \<not> (fst c < fst p \<or> snd p < snd c)"

definition rate_within :: "nat option \<Rightarrow> nat option \<Rightarrow> bool" where
  "rate_within c p = (case (c, p) of (_, None) \<Rightarrow> True | (None, Some _) \<Rightarrow> False | (Some c, Some p) \<Rightarrow> c \<le> p)"

definition device_within :: "device_scope \<Rightarrow> device_scope \<Rightarrow> bool" where
  "device_within c p \<longleftrightarrow>
     device_name c = device_name p \<and> fail_state c = fail_state p \<and>
     fmap_within range_within (dims c) (dims p) \<and>
     rate_within (rate_hz c) (rate_hz p) \<and>
     heartbeat_ms c \<le> heartbeat_ms p \<and> ttl_ms c \<le> ttl_ms p"

definition range_meet :: "rat \<times> rat \<Rightarrow> rat \<times> rat \<Rightarrow> (rat \<times> rat) option" where
  "range_meet a b =
     (let lo = max (fst a) (fst b); hi = min (snd a) (snd b) in if lo \<le> hi then Some (lo, hi) else None)"

definition rate_meet :: "nat option \<Rightarrow> nat option \<Rightarrow> nat option" where
  "rate_meet a b =
     (case (a, b) of
        (Some x, Some y) \<Rightarrow> Some (min x y)
      | (Some x, None) \<Rightarrow> Some x
      | (None, Some x) \<Rightarrow> Some x
      | (None, None) \<Rightarrow> None)"

definition device_meet :: "device_scope \<Rightarrow> device_scope \<Rightarrow> device_scope option" where
  "device_meet a b =
     (if device_name a \<noteq> device_name b \<or> fail_state a \<noteq> fail_state b then None
      else
        let hb = min (heartbeat_ms a) (heartbeat_ms b); ttl = min (ttl_ms a) (ttl_ms b)
        in if ttl < hb then None
           else Some \<lparr>device_name = device_name a, dims = fmap_meet range_meet (dims a) (dims b),
                      rate_hz = rate_meet (rate_hz a) (rate_hz b), heartbeat_ms = hb, ttl_ms = ttl,
                      fail_state = fail_state a\<rparr>)"

definition devices_within :: "(string, device_scope) fmap \<Rightarrow> (string, device_scope) fmap \<Rightarrow> bool" where
  "devices_within c p = fmap_within device_within c p"

definition intersect_device_sets ::
  "(string, device_scope) fmap \<Rightarrow> (string, device_scope) fmap \<Rightarrow> (string, device_scope) fmap" where
  "intersect_device_sets a b = fmap_meet device_meet a b"

definition grants_device :: "(string, device_scope) fmap \<Rightarrow> string \<Rightarrow> bool" where
  "grants_device granted arg \<longleftrightarrow> fmlookup granted arg \<noteq> None"

definition device_names :: "(string, device_scope) fmap \<Rightarrow> string fset" where
  "device_names granted = fmdom granted"

subsection \<open>Laws of the finite maps\<close>

lemma fmap_within_refl: "(\<And>x. le x x) \<Longrightarrow> fmap_within le m m"
  by (auto simp: fmap_within_iff)

lemma fmap_within_trans:
  "(\<And>x y z. le x y \<Longrightarrow> le y z \<Longrightarrow> le x z) \<Longrightarrow> fmap_within le a b \<Longrightarrow> fmap_within le b c \<Longrightarrow> fmap_within le a c"
  by (simp add: fmap_within_iff) metis

lemma fmap_within_antisym:
  assumes "\<And>x y. le x y \<Longrightarrow> le y x \<Longrightarrow> x = y" "fmap_within le a b" "fmap_within le b a"
  shows "a = b"
proof (rule fmap_ext)
  fix k show "fmlookup a k = fmlookup b k"
    using assms unfolding fmap_within_iff by (metis not_Some_eq option.inject)
qed

lemma fmap_meet_lower:
  "(\<And>x y w. f x y = Some w \<Longrightarrow> le w x \<and> le w y) \<Longrightarrow>
     fmap_within le (fmap_meet f a b) a \<and> fmap_within le (fmap_meet f a b) b"
  by (auto simp: fmap_within_iff split: option.splits)

lemma fmap_meet_greatest:
  assumes "\<And>k x y z. fmlookup c k = Some z \<Longrightarrow> fmlookup a k = Some x \<Longrightarrow> fmlookup b k = Some y \<Longrightarrow>
             le z x \<Longrightarrow> le z y \<Longrightarrow> \<exists>w. f x y = Some w \<and> le z w"
    and "fmap_within le c a" "fmap_within le c b"
  shows "fmap_within le c (fmap_meet f a b)"
  unfolding fmap_within_iff
proof (intro allI impI)
  fix k z assume z: "fmlookup c k = Some z"
  obtain x y where "fmlookup a k = Some x" "le z x" "fmlookup b k = Some y" "le z y"
    using assms(2,3) z unfolding fmap_within_iff by metis
  then show "\<exists>w. fmlookup (fmap_meet f a b) k = Some w \<and> le z w"
    using assms(1)[OF z] by auto
qed

lemma fmap_meet_commute: "(\<And>x y. f x y = f y x) \<Longrightarrow> fmap_meet f a b = fmap_meet f b a"
  by (rule fmap_ext) (auto split: option.splits)

subsection \<open>Laws of the envelopes\<close>

lemma range_within_iff: "range_within c p \<longleftrightarrow> fst p \<le> fst c \<and> snd c \<le> snd p"
  by (auto simp: range_within_def)

lemma range_meet_lower: "range_meet a b = Some w \<Longrightarrow> range_within w a \<and> range_within w b"
  by (auto simp: range_meet_def range_within_iff Let_def split: if_splits)

lemma range_meet_greatest:
  "fst z \<le> snd z \<Longrightarrow> range_within z a \<Longrightarrow> range_within z b \<Longrightarrow> \<exists>w. range_meet a b = Some w \<and> range_within z w"
  by (auto simp: range_meet_def range_within_iff Let_def max_def min_def)

lemma range_meet_commute: "range_meet a b = range_meet b a"
  by (simp add: range_meet_def max.commute min.commute)

interpretation rate_order: scope_meet rate_within rate_meet
  by unfold_locales (auto simp: rate_within_def rate_meet_def split: option.splits)

lemma rate_within_antisym: "rate_within a b \<Longrightarrow> rate_within b a \<Longrightarrow> a = b"
  by (auto simp: rate_within_def split: option.splits)

lemma rate_meet_commute: "rate_meet a b = rate_meet b a"
  by (auto simp: rate_meet_def min.commute split: option.splits)

lemma device_within_refl [simp]: "device_within d d"
  by (auto simp: device_within_def range_within_iff rate_order.le_refl intro: fmap_within_refl)

lemma device_within_trans: "device_within a b \<Longrightarrow> device_within b c \<Longrightarrow> device_within a c"
  unfolding device_within_def
  by (auto simp: range_within_iff intro: rate_order.le_trans elim!: fmap_within_trans[rotated])

lemma device_within_antisym: "device_within a b \<Longrightarrow> device_within b a \<Longrightarrow> a = b"
proof -
  assume "device_within a b" "device_within b a"
  moreover from this have "dims a = dims b"
    unfolding device_within_def
    by (intro fmap_within_antisym[of range_within]) (auto simp: range_within_iff prod_eq_iff)
  ultimately show ?thesis
    by (auto simp: device_within_def intro!: device_scope.equality rate_within_antisym)
qed

text \<open>What the parser guarantees of an envelope.\<close>

definition device_ok :: "device_scope \<Rightarrow> bool" where
  "device_ok d \<longleftrightarrow>
     heartbeat_ms d \<le> ttl_ms d \<and> 0 < heartbeat_ms d \<and> ttl_ms d \<le> u64_max \<and>
     dims d \<noteq> fmempty \<and> fmpred (\<lambda>_ r. fst r \<le> snd r) (dims d) \<and>
     fail_state d \<in> set FAIL_STATES \<and> device_name d \<noteq> [] \<and>
     (\<forall>r. rate_hz d = Some r \<longrightarrow> r \<le> u32_max)"

lemma device_meet_lower: "device_meet a b = Some w \<Longrightarrow> device_within w a \<and> device_within w b"
  using fmap_meet_lower[of range_meet range_within "dims a" "dims b"] range_meet_lower
  by (auto simp: device_meet_def device_within_def rate_order.meet_le1 rate_order.meet_le2 Let_def split: if_splits)

definition ranges_ok :: "device_scope \<Rightarrow> bool" where
  "ranges_ok d \<longleftrightarrow> heartbeat_ms d \<le> ttl_ms d \<and> (\<forall>k r. fmlookup (dims d) k = Some r \<longrightarrow> fst r \<le> snd r)"

lemma device_ok_ranges: "device_ok d \<Longrightarrow> ranges_ok d"
  by (auto simp: device_ok_def ranges_ok_def fmpred_iff)

lemma device_meet_greatest:
  assumes z: "ranges_ok z" and a: "ranges_ok a" and b: "ranges_ok b" and za: "device_within z a" and zb: "device_within z b"
  shows "\<exists>w. device_meet a b = Some w \<and> device_within z w"
proof -
  have "fmap_within range_within (dims z) (fmap_meet range_meet (dims a) (dims b))"
  proof (rule fmap_meet_greatest)
    fix k x y r assume "fmlookup (dims z) k = Some r" "range_within r x" "range_within r y"
    then show "\<exists>w. range_meet x y = Some w \<and> range_within r w"
      using z by (intro range_meet_greatest) (auto simp: ranges_ok_def)
  qed (use za zb in \<open>auto simp: device_within_def\<close>)
  moreover have "\<not> min (ttl_ms a) (ttl_ms b) < min (heartbeat_ms a) (heartbeat_ms b)"
    using a b by (auto simp: ranges_ok_def min_def)
  moreover have "rate_within (rate_hz z) (rate_meet (rate_hz a) (rate_hz b))"
    using za zb by (auto simp: device_within_def intro: rate_order.meet_glb)
  ultimately show ?thesis
    using za zb by (auto simp: device_meet_def device_within_def Let_def)
qed

lemma device_meet_commute: "device_meet a b = device_meet b a"
  using fmap_meet_commute[of range_meet "dims a" "dims b"] range_meet_commute rate_meet_commute
  by (auto simp: device_meet_def Let_def min.commute)

interpretation device_order: scope_order device_within
  by unfold_locales (auto intro: device_within_trans)

interpretation devices_order: scope_order devices_within
  by unfold_locales (auto simp: devices_within_def intro: fmap_within_refl fmap_within_trans device_within_trans)

lemma devices_within_antisym: "devices_within a b \<Longrightarrow> devices_within b a \<Longrightarrow> a = b"
  unfolding devices_within_def by (rule fmap_within_antisym) (auto intro: device_within_antisym)

lemma intersect_devices_lower:
  "devices_within (intersect_device_sets a b) a \<and> devices_within (intersect_device_sets a b) b"
  unfolding devices_within_def intersect_device_sets_def by (rule fmap_meet_lower) (rule device_meet_lower)

definition devices_ok :: "(string, device_scope) fmap \<Rightarrow> bool" where
  "devices_ok m \<longleftrightarrow> (\<forall>k d. fmlookup m k = Some d \<longrightarrow> ranges_ok d)"

lemma intersect_devices_greatest:
  "devices_ok a \<Longrightarrow> devices_ok b \<Longrightarrow> devices_ok c \<Longrightarrow> devices_within c a \<Longrightarrow> devices_within c b \<Longrightarrow>
     devices_within c (intersect_device_sets a b)"
  unfolding devices_within_def intersect_device_sets_def devices_ok_def
  by (rule fmap_meet_greatest) (auto intro: device_meet_greatest)

lemma intersect_devices_commute: "intersect_device_sets a b = intersect_device_sets b a"
  unfolding intersect_device_sets_def by (rule fmap_meet_commute) (rule device_meet_commute)

section \<open>What the parser accepts\<close>

definition terms_ok :: "device_terms \<Rightarrow> bool" where
  "terms_ok t \<longleftrightarrow>
     fmpred (\<lambda>_ r. fst r \<le> snd r) (t_dims t) \<and>
     (\<forall>n. t_rate t = Some n \<longrightarrow> n \<le> u32_max) \<and>
     (\<forall>n. t_heartbeat t = Some n \<longrightarrow> 0 < n) \<and>
     (\<forall>n. t_ttl t = Some n \<longrightarrow> n \<le> u64_max) \<and>
     (\<forall>f. t_fail t = Some f \<longrightarrow> f \<in> set FAIL_STATES)"

lemma read_range_ok: "read_range lb k v = Inr r \<Longrightarrow> fst r \<le> snd r"
  by (auto simp: read_range_def split: option.splits sum.splits f64.splits if_splits)

lemma read_term_ok: "read_term lb k v t = Inr t' \<Longrightarrow> terms_ok t \<Longrightarrow> terms_ok t'"
  by (auto simp: read_term_def terms_ok_def split: if_splits option.splits sum.splits
      dest: parse_unsigned_le read_range_ok intro!: fmpred_upd)

lemma terms_ok_seen [simp]: "terms_ok (t\<lparr>t_seen := s\<rparr>) = terms_ok t"
  by (simp add: terms_ok_def)

lemma read_terms_ok: "read_terms lb ps t = Inr t' \<Longrightarrow> terms_ok t \<Longrightarrow> terms_ok t'"
proof (induction ps arbitrary: t)
  case (Cons p ps)
  then show ?case
    by (auto simp: Let_def split: if_splits option.splits sum.splits) (use read_term_ok terms_ok_seen in blast)
qed simp

lemma device_parse_ok: "device_parse lb spec = Inr d \<Longrightarrow> device_ok d"
proof -
  assume a: "device_parse lb spec = Inr d"
  then obtain t where t: "read_terms lb (split_on CHR '','' (snd (the (split_once CHR '':'' spec)))) no_terms = Inr t"
    and d: "dims d = t_dims t" "t_dims t \<noteq> fmempty" "t_heartbeat t = Some (heartbeat_ms d)" "t_ttl t = Some (ttl_ms d)"
      "heartbeat_ms d \<le> ttl_ms d" "t_fail t = Some (fail_state d)" "rate_hz d = t_rate t" "device_name d \<noteq> []"
    by (auto simp: device_parse_def Let_def split: option.splits sum.splits if_splits)
  have "terms_ok t" by (rule read_terms_ok[OF t]) (simp add: terms_ok_def no_terms_def)
  then show ?thesis using d by (auto simp: device_ok_def terms_ok_def)
qed

section \<open>Properties\<close>

text \<open>Every device envelope the parser accepts is a usable grant: at least one interval, none inverted,
  a positive heartbeat no longer than the loan, a rate that fits its width and one of the three fail states.\<close>

theorem parsed_device_is_bounded:
  assumes "device_parse lb spec = Inr d"
  shows "device_ok d"
  using assms by (rule device_parse_ok)

theorem parsed_device_is_bounded_witness:
  "device_ok \<lparr>device_name = ''arm'', dims = fmupd ''angle'' (- 30, 95) fmempty, rate_hz = Some 50,
     heartbeat_ms = 100, ttl_ms = 5000, fail_state = ''hold''\<rparr>"
  by (rule parsed_device_is_bounded[of plain_libs "''arm: angle=-30..95,rate_hz=50,heartbeat_ms=100,ttl_ms=5000,fail=hold''"])
    code_simp

end
