(* ===== verification/Effect_Row.thy ===== *)
theory Effect_Row imports Prelude begin

text \<open>
  The effect labels of a grant: \<open>Effect\<close> of \<open>crates/delulu-check/src/ty.rs\<close> with its derived order (the
  order a set of effects is serialized in), its name and the reading of a core effect's name.
\<close>

datatype effect =
    Read | Write | Net | Clock | Rand | Declassify | Load | Async | ForeignCall | Actuate
  | User string

fun effect_name :: "effect \<Rightarrow> string" where
  "effect_name Read = ''Read''"
| "effect_name Write = ''Write''"
| "effect_name Net = ''Net''"
| "effect_name Clock = ''Clock''"
| "effect_name Rand = ''Rand''"
| "effect_name Declassify = ''Declassify''"
| "effect_name ForeignCall = ''ForeignCall''"
| "effect_name Load = ''Load''"
| "effect_name Async = ''Async''"
| "effect_name Actuate = ''Actuate''"
| "effect_name (User n) = n"

definition core_from_name :: "string \<Rightarrow> effect option" where
  "core_from_name n =
     (if n = ''Read'' then Some Read
      else if n = ''Write'' then Some Write
      else if n = ''Net'' then Some Net
      else if n = ''Clock'' then Some Clock
      else if n = ''Rand'' then Some Rand
      else if n = ''Declassify'' then Some Declassify
      else if n = ''ForeignCall'' then Some ForeignCall
      else if n = ''Load'' then Some Load
      else if n = ''Async'' then Some Async
      else if n = ''Actuate'' then Some Actuate
      else None)"

text \<open>The derived order: by variant, then by the declared name.\<close>

fun effect_key :: "effect \<Rightarrow> nat \<times> string" where
  "effect_key Read = (0, [])"
| "effect_key Write = (1, [])"
| "effect_key Net = (2, [])"
| "effect_key Clock = (3, [])"
| "effect_key Rand = (4, [])"
| "effect_key Declassify = (5, [])"
| "effect_key Load = (6, [])"
| "effect_key Async = (7, [])"
| "effect_key ForeignCall = (8, [])"
| "effect_key Actuate = (9, [])"
| "effect_key (User n) = (10, n)"

lemma effect_key_inj: "effect_key a = effect_key b \<longleftrightarrow> a = b"
  by (cases a; cases b) auto

instantiation effect :: linorder
begin

definition less_eq_effect :: "effect \<Rightarrow> effect \<Rightarrow> bool" where
  "less_eq_effect a b \<longleftrightarrow>
     fst (effect_key a) < fst (effect_key b) \<or>
     fst (effect_key a) = fst (effect_key b) \<and> snd (effect_key a) \<le> snd (effect_key b)"

definition less_effect :: "effect \<Rightarrow> effect \<Rightarrow> bool" where
  "less_effect a b \<longleftrightarrow>
     fst (effect_key a) < fst (effect_key b) \<or>
     fst (effect_key a) = fst (effect_key b) \<and> snd (effect_key a) < snd (effect_key b)"

instance
proof
  fix a b c :: effect
  show "(a < b) = (a \<le> b \<and> \<not> b \<le> a)" by (auto simp: less_eq_effect_def less_effect_def)
  show "a \<le> a" by (simp add: less_eq_effect_def)
  show "a \<le> b \<Longrightarrow> b \<le> c \<Longrightarrow> a \<le> c" by (auto simp: less_eq_effect_def)
  show "a \<le> b \<Longrightarrow> b \<le> a \<Longrightarrow> a = b"
    by (auto simp: less_eq_effect_def effect_key_inj[symmetric] prod_eq_iff)
  show "a \<le> b \<or> b \<le> a" by (auto simp: less_eq_effect_def)
qed

end

lemma core_name_round_trip: "(\<forall>n. e \<noteq> User n) \<Longrightarrow> core_from_name (effect_name e) = Some e"
  by (cases e) (auto simp: core_from_name_def)

lemma core_from_name_sound: "core_from_name n = Some e \<Longrightarrow> effect_name e = n \<and> (\<forall>m. e \<noteq> User m)"
  by (auto simp: core_from_name_def split: if_splits)

definition effect_names :: "effect fset \<Rightarrow> string list" where
  "effect_names es = map effect_name (sorted_elems es)"

end
