(* ===== verification/Authority.thy ===== *)
theory Authority imports Path_Scope Net_Entries Budget_Scope Device_Scope Effect_Row begin

text \<open>
  A grant's authority and the attenuation order, \<open>crates/delulu-broker/src/authority.rs\<close>: effects, eleven
  scope dimensions, their canonical form, the meet and \<open>attenuation_check\<close>, which answers with the meet
  when the child is not within the parent.
\<close>

record scopes =
  fs_read :: "string fset"
  fs_write :: "string fset"
  net :: "string fset"
  secrets :: "string fset"
  declassify :: "string fset"
  foreign_c :: "string fset"
  foreign_python :: "string fset"
  device :: "(string, device_scope) fmap"
  budget :: "budget_scope option"
  secret_to :: "string fset"
  net_special :: "string fset"

record authority =
  effects :: "effect fset"
  a_scopes :: scopes

definition no_scopes :: scopes where
  "no_scopes = \<lparr>fs_read = {||}, fs_write = {||}, net = {||}, secrets = {||}, declassify = {||}, foreign_c = {||},
     foreign_python = {||}, device = fmempty, budget = None, secret_to = {||}, net_special = {||}\<rparr>"

definition secret_to_name :: "string \<Rightarrow> string option" where
  "secret_to_name pair =
     (case split_once CHR ''@'' pair of
        Some (name, _) \<Rightarrow> if name = [] then None else Some name
      | None \<Rightarrow> None)"

definition well_formed_net_special :: "scopes \<Rightarrow> string fset" where
  "well_formed_net_special s =
     ffilter (\<lambda>e. fBex (canonicalize_net (net s)) (entry_within e)) (canonicalize_net (net_special s))"

definition well_formed_secret_to :: "scopes \<Rightarrow> string fset" where
  "well_formed_secret_to s =
     ffilter (\<lambda>p. case secret_to_name p of Some n \<Rightarrow> n |\<in>| secrets s | None \<Rightarrow> False) (secret_to s)"

definition scopes_canonicalized :: "scopes \<Rightarrow> scopes" where
  "scopes_canonicalized s =
     s\<lparr>fs_read := canonicalize_paths (fs_read s),
       fs_write := canonicalize_paths (fs_write s),
       net := canonicalize_net (net s),
       secret_to := well_formed_secret_to s,
       net_special := well_formed_net_special s\<rparr>"

definition authority_new :: "effect fset \<Rightarrow> scopes \<Rightarrow> authority" where
  "authority_new es s = \<lparr>effects = es, a_scopes = scopes_canonicalized s\<rparr>"

definition canonicalized :: "authority \<Rightarrow> authority" where
  "canonicalized a = a\<lparr>a_scopes := scopes_canonicalized (a_scopes a)\<rparr>"

definition is_canonical :: "authority \<Rightarrow> bool" where
  "is_canonical a \<longleftrightarrow>
     (let s = a_scopes a
      in canonicalize_paths (fs_read s) = fs_read s \<and>
         canonicalize_paths (fs_write s) = fs_write s \<and>
         canonicalize_net (net s) = net s \<and>
         well_formed_secret_to s = secret_to s \<and>
         well_formed_net_special s = net_special s)"

section \<open>Its text\<close>

definition device_strings :: "libs \<Rightarrow> scopes \<Rightarrow> string list" where
  "device_strings lb s = map (device_to_grant_string lb) (fm_values (device s))"

definition authority_to_json :: "libs \<Rightarrow> authority \<Rightarrow> json" where
  "authority_to_json lb a =
     (let s = a_scopes a;
          base = [(''declassify'', strings_json (sorted_elems (declassify s))),
                  (''fs.read'', strings_json (sorted_elems (fs_read s))),
                  (''fs.write'', strings_json (sorted_elems (fs_write s))),
                  (''foreign.c'', strings_json (sorted_elems (foreign_c s))),
                  (''foreign.python'', strings_json (sorted_elems (foreign_python s))),
                  (''net'', strings_json (sorted_elems (net s))),
                  (''secrets'', strings_json (sorted_elems (secrets s)))];
          dev = (if device s = fmempty then [] else [(''device'', strings_json (device_strings lb s))]);
          bud = (case budget s of None \<Rightarrow> [] | Some b \<Rightarrow> [(''budget'', strings_json [budget_to_grant_string b])]);
          sec = (if secret_to s = {||} then [] else [(''secret_to'', strings_json (sorted_elems (secret_to s)))]);
          spe = (if net_special s = {||} then [] else [(''net.special'', strings_json (sorted_elems (net_special s)))])
      in obj_of [(''effects'', strings_json (effect_names (effects a))),
                 (''scopes'', obj_of (base @ dev @ bud @ sec @ spe))])"

definition render_dim :: "string \<times> string fset \<Rightarrow> string list" where
  "render_dim = (\<lambda>(label, dim). if dim = {||} then [] else [label @ ''=['' @ join_with '','' (sorted_elems dim) @ '']''])"

definition render_compact :: "libs \<Rightarrow> authority \<Rightarrow> string" where
  "render_compact lb a =
     (let s = a_scopes a;
          parts = [''effects={'' @ join_with '','' (effect_names (effects a)) @ ''}'']
            @ concat (map render_dim
                [(''fs.read'', fs_read s), (''fs.write'', fs_write s), (''net'', net s), (''net.special'', net_special s),
                 (''secrets'', secrets s), (''secret_to'', secret_to s), (''declassify'', declassify s),
                 (''foreign.c'', foreign_c s), (''foreign.python'', foreign_python s)])
            @ (if device s = fmempty then [] else [''device=['' @ join_with '' '' (device_strings lb s) @ '']''])
            @ (case budget s of None \<Rightarrow> [] | Some b \<Rightarrow> [''budget=['' @ budget_to_grant_string b @ '']''])
      in join_with '' '' parts)"

section \<open>The meet and the order\<close>

definition authority_intersect :: "authority \<Rightarrow> authority \<Rightarrow> authority" where
  "authority_intersect a b =
     (let s = a_scopes a; t = a_scopes b
      in \<lparr>effects = effects a |\<inter>| effects b,
          a_scopes =
            \<lparr>fs_read = intersect_path_sets (fs_read s) (fs_read t),
             fs_write = intersect_path_sets (fs_write s) (fs_write t),
             net = net_set_meet (net s) (net t),
             secrets = secrets s |\<inter>| secrets t,
             declassify = declassify s |\<inter>| declassify t,
             foreign_c = foreign_c s |\<inter>| foreign_c t,
             foreign_python = foreign_python s |\<inter>| foreign_python t,
             device = intersect_device_sets (device s) (device t),
             budget = budget_meet (budget s) (budget t),
             secret_to = secret_to s |\<inter>| secret_to t,
             net_special = net_set_meet (net_special s) (net_special t)\<rparr>\<rparr>)"

text \<open>The conjunction \<open>attenuation_check\<close> computes, and its answer: the meet on a refusal.\<close>

definition attenuates :: "authority \<Rightarrow> authority \<Rightarrow> bool" where
  "attenuates child parent \<longleftrightarrow>
     (let c = a_scopes child; p = a_scopes parent
      in effects child |\<subseteq>| effects parent \<and>
         paths_within (fs_read c) (fs_read p) \<and>
         paths_within (fs_write c) (fs_write p) \<and>
         net_set_within (net c) (net p) \<and>
         net_set_within (net_special c) (net_special p) \<and>
         secrets c |\<subseteq>| secrets p \<and>
         secret_to c |\<subseteq>| secret_to p \<and>
         declassify c |\<subseteq>| declassify p \<and>
         foreign_c c |\<subseteq>| foreign_c p \<and>
         foreign_python c |\<subseteq>| foreign_python p \<and>
         devices_within (device c) (device p) \<and>
         budget_within (budget c) (budget p))"

definition attenuation_check :: "authority \<Rightarrow> authority \<Rightarrow> authority + unit" where
  "attenuation_check child parent =
     (if attenuates child parent then Inr () else Inl (authority_intersect child parent))"

lemma attenuation_check_ok [simp]: "attenuation_check c p = Inr u \<longleftrightarrow> attenuates c p"
  by (simp add: attenuation_check_def)

lemma attenuation_check_err: "attenuation_check c p = Inl m \<longleftrightarrow> \<not> attenuates c p \<and> m = authority_intersect c p"
  by (auto simp: attenuation_check_def)

section \<open>The order is a preorder, and a partial order on canonical authorities\<close>

interpretation authority_order: scope_order attenuates
proof
  show "attenuates x x" for x
    by (simp add: attenuates_def paths_order.le_refl net_sets.le_refl devices_order.le_refl budget_order.le_refl Let_def)
  show "attenuates x z" if "attenuates x y" "attenuates y z" for x y z
    using that unfolding attenuates_def Let_def
    by (auto intro: paths_order.le_trans net_sets.le_trans devices_order.le_trans budget_order.le_trans)
qed

lemma is_canonical_paths:
  "is_canonical a \<Longrightarrow> canonicalize_paths (fs_read (a_scopes a)) = fs_read (a_scopes a)"
  "is_canonical a \<Longrightarrow> canonicalize_paths (fs_write (a_scopes a)) = fs_write (a_scopes a)"
  "is_canonical a \<Longrightarrow> canonicalize_net (net (a_scopes a)) = net (a_scopes a)"
  by (simp_all add: is_canonical_def Let_def)

lemma maximal_by_ffilter: "maximal_by le S = S \<Longrightarrow> maximal_by le (ffilter P S) = ffilter P S"
proof (rule fset_eqI)
  fix x assume S: "maximal_by le S = S"
  have "\<not> (\<exists>y. y |\<in>| S \<and> y \<noteq> x \<and> le x y)" if "x |\<in>| S"
  proof -
    have "x |\<in>| maximal_by le S" using that S by simp
    then show ?thesis unfolding maximal_by_def by auto
  qed
  then show "x |\<in>| maximal_by le (ffilter P S) \<longleftrightarrow> x |\<in>| ffilter P S"
    by (auto simp: maximal_by_def)
qed

lemma special_canonical [simp]: "canonicalize_net (well_formed_net_special s) = well_formed_net_special s"
  unfolding well_formed_net_special_def canonicalize_net_maximal
  by (rule maximal_by_ffilter) (rule net_order.maximal_idem)

lemma is_canonical_special: "is_canonical a \<Longrightarrow> canonicalize_net (net_special (a_scopes a)) = net_special (a_scopes a)"
  by (metis is_canonical_def special_canonical)

lemma attenuates_antisym:
  assumes "is_canonical a" "is_canonical b" "attenuates a b" "attenuates b a"
  shows "a = b"
proof -
  note c = is_canonical_paths[OF assms(1)] is_canonical_paths[OF assms(2)]
    is_canonical_special[OF assms(1)] is_canonical_special[OF assms(2)]
  let ?s = "a_scopes a" and ?t = "a_scopes b"
  have ab: "paths_within (fs_read ?s) (fs_read ?t)" "paths_within (fs_read ?t) (fs_read ?s)"
    "paths_within (fs_write ?s) (fs_write ?t)" "paths_within (fs_write ?t) (fs_write ?s)"
    "net_set_within (net ?s) (net ?t)" "net_set_within (net ?t) (net ?s)"
    "net_set_within (net_special ?s) (net_special ?t)" "net_set_within (net_special ?t) (net_special ?s)"
    using assms(3,4) unfolding attenuates_def Let_def by simp_all
  have "fs_read ?s = fs_read ?t" using canonicalize_paths_eq_iff ab(1,2) c by metis
  moreover have "fs_write ?s = fs_write ?t" using canonicalize_paths_eq_iff ab(3,4) c by metis
  moreover have "net ?s = net ?t" using canonicalize_net_eq_iff ab(5,6) c by metis
  moreover have "net_special ?s = net_special ?t" using canonicalize_net_eq_iff ab(7,8) c by metis
  moreover have "devices_within (device ?s) (device ?t)" "devices_within (device ?t) (device ?s)"
      "budget_within (budget ?s) (budget ?t)" "budget_within (budget ?t) (budget ?s)"
    using assms(3,4) unfolding attenuates_def Let_def by simp_all
  then have "device ?s = device ?t" "budget ?s = budget ?t"
    by (simp_all add: devices_within_antisym budget_within_antisym)
  moreover have "effects a = effects b" "secrets ?s = secrets ?t" "secret_to ?s = secret_to ?t"
      "declassify ?s = declassify ?t" "foreign_c ?s = foreign_c ?t" "foreign_python ?s = foreign_python ?t"
    using assms(3,4) unfolding attenuates_def Let_def by (blast intro: fsubset_antisym)+
  ultimately show ?thesis by (simp add: authority.equality scopes.equality)
qed

section \<open>Canonicalization never widens\<close>

lemma well_formed_special_within: "net_set_within (well_formed_net_special s) (net_special s)"
  using canonicalize_net_equiv(1)[of "net_special s"]
  unfolding well_formed_net_special_def net_set_within_def by (rule all_within_by_mono) auto

lemma canonicalized_within: "attenuates (canonicalized a) a"
  by (auto simp: attenuates_def canonicalized_def scopes_canonicalized_def Let_def well_formed_secret_to_def
      canonicalize_paths_equiv canonicalize_net_equiv well_formed_special_within devices_order.le_refl
      budget_order.le_refl)

lemma is_canonical_canonicalized [simp]: "is_canonical (canonicalized a)"
proof -
  let ?s = "a_scopes a"
  have "well_formed_net_special (scopes_canonicalized ?s) = well_formed_net_special ?s"
  proof -
    have "ffilter P (well_formed_net_special ?s) = well_formed_net_special ?s"
      if "\<And>e. P e = fBex (canonicalize_net (net ?s)) (entry_within e)" for P
      unfolding well_formed_net_special_def using that by (intro fset_eqI) auto
    then show ?thesis
      by (subst well_formed_net_special_def) (simp add: scopes_canonicalized_def)
  qed
  moreover have "secrets (scopes_canonicalized ?s) = secrets ?s"
      "secret_to (scopes_canonicalized ?s) = well_formed_secret_to ?s"
    by (simp_all add: scopes_canonicalized_def)
  then have "well_formed_secret_to (scopes_canonicalized ?s) = well_formed_secret_to ?s"
    by (intro fset_eqI) (auto simp: well_formed_secret_to_def split: option.splits)
  ultimately show ?thesis
    by (simp add: is_canonical_def canonicalized_def Let_def) (simp add: scopes_canonicalized_def)
qed

lemma canonicalized_id: "is_canonical a \<Longrightarrow> canonicalized a = a"
  by (auto simp: is_canonical_def canonicalized_def scopes_canonicalized_def Let_def
      intro!: authority.equality scopes.equality)

lemma canonicalized_equiv:
  assumes "well_formed_secret_to (a_scopes a) = secret_to (a_scopes a)"
    "fBall (net_special (a_scopes a)) (\<lambda>e. fBex (net (a_scopes a)) (entry_within e))"
  shows "attenuates a (canonicalized a)"
proof -
  let ?s = "a_scopes a"
  have "fBex (canonicalize_net (net ?s)) (entry_within e)" if "e |\<in>| net_special ?s" for e
  proof -
    obtain g where g: "g |\<in>| net ?s" "entry_within e g" using assms(2) \<open>e |\<in>| net_special ?s\<close> by auto
    then obtain h where "h |\<in>| canonicalize_net (net ?s)" "entry_within g h"
      using canonicalize_net_equiv(2)[of "net ?s"] by (auto simp: net_set_within_def all_within_by_def)
    then show ?thesis using g(2) entry_within_trans by blast
  qed
  then have "canonicalize_net (net_special ?s) = well_formed_net_special ?s"
    unfolding well_formed_net_special_def canonicalize_net_maximal
    by (intro fset_eqI) (auto dest: maximal_by_subset)
  then have "net_set_within (net_special ?s) (well_formed_net_special ?s)"
    using canonicalize_net_equiv(2) by metis
  then show ?thesis
    using assms(1)
    by (auto simp: attenuates_def canonicalized_def scopes_canonicalized_def Let_def
        canonicalize_paths_equiv canonicalize_net_equiv devices_order.le_refl budget_order.le_refl)
qed

section \<open>The meet\<close>

definition net_fits :: "authority \<Rightarrow> authority \<Rightarrow> bool" where
  "net_fits a b \<longleftrightarrow>
     net_meet_fits (net (a_scopes a)) (net (a_scopes b)) \<and>
     net_meet_fits (net_special (a_scopes a)) (net_special (a_scopes b))"

lemma intersect_lower:
  assumes "net_fits a b"
  shows "attenuates (authority_intersect a b) a \<and> attenuates (authority_intersect a b) b"
  using assms net_set_meet_lower intersect_devices_lower
  by (auto simp: attenuates_def authority_intersect_def net_fits_def Let_def
      paths_meet.meet_le1 paths_meet.meet_le2 budget_order.meet_le1 budget_order.meet_le2)

definition devices_fit :: "authority \<Rightarrow> bool" where
  "devices_fit a \<longleftrightarrow> devices_ok (device (a_scopes a))"

lemma intersect_greatest:
  assumes "net_fits a b" "devices_fit a" "devices_fit b" "devices_fit c" "attenuates c a" "attenuates c b"
  shows "attenuates c (authority_intersect a b)"
  using assms net_set_meet_greatest intersect_devices_greatest
  by (auto simp: attenuates_def authority_intersect_def net_fits_def devices_fit_def Let_def
      paths_meet.meet_glb budget_order.meet_glb)

lemma path_part_meet_commute: "path_part_meet ap bp = path_part_meet bp ap"
proof -
  have "pattern_meet px py = pattern_meet py px" if "parse_pattern x = Inr px" "parse_pattern y = Inr py" for x y px py
    using that parse_pattern_wf pattern_meet_commute by blast
  then show ?thesis by (auto simp: path_part_meet_def split: option.splits sum.splits)
qed

lemma entry_meet_commute: "entry_meet a b = entry_meet b a"
proof (cases "a = b")
  case False
  obtain ah am ap where a: "read_entry a = (ah, am, ap)" by (metis prod_cases3)
  obtain bh bm bp where b: "read_entry b = (bh, bm, bp)" by (metis prod_cases3)
  show ?thesis
    using False entry_meet_alt[OF False a b] entry_meet_alt[OF _ b a] path_part_meet_commute[of ap bp]
    by (auto simp: and.commute)
qed simp

lemma intersect_commute: "authority_intersect a b = authority_intersect b a"
proof -
  have "net_set_meet A B = net_set_meet B A" for A B
    unfolding net_set_meet_def by (rule pair_meets_commute) (rule entry_meet_commute)
  then show ?thesis
    by (simp add: authority_intersect_def Let_def intersect_path_sets_commute[of "fs_read (a_scopes a)"]
        intersect_path_sets_commute[of "fs_write (a_scopes a)"] intersect_devices_commute[of "device (a_scopes a)"]
        budget_meet_commute[of "budget (a_scopes a)"] inf_commute)
qed


section \<open>Properties\<close>

text \<open>Attenuation is a partial order on what the broker stores: every authority is within itself, within is
  transitive along any chain of delegations, and two canonical authorities within each other are equal.\<close>

theorem attenuation_partial_order:
  assumes "attenuates a b" "attenuates b c"
  shows "attenuates a c \<and> attenuates a a \<and> (is_canonical a \<and> is_canonical b \<and> attenuates b a \<longrightarrow> a = b)"
  using assms authority_order.le_trans authority_order.le_refl attenuates_antisym by blast

definition reader_grant :: "string \<Rightarrow> authority" where
  "reader_grant dir = authority_new {|Read|} (no_scopes\<lparr>fs_read := {|dir|}\<rparr>)"

theorem attenuation_partial_order_witness:
  "attenuates (reader_grant ''./data/in/x'') (reader_grant ''data'') \<and>
   attenuates (reader_grant ''./data/in/x'') (reader_grant ''./data/in/x'')"
proof -
  have "attenuates (reader_grant ''./data/in/x'') (reader_grant ''data/in'')"
    "attenuates (reader_grant ''data/in'') (reader_grant ''data'')" by code_simp+
  from attenuation_partial_order[OF this] show ?thesis by simp
qed

text \<open>The meet of two authorities is a bound of both: when the meets of their network entries fit the
  pattern limit, the meet is within each side and whatever is within both sides is within it; the
  meet never depends on the order of its arguments.\<close>

theorem authority_meet_is_greatest_lower_bound:
  assumes "net_fits a b" "devices_fit a" "devices_fit b" "devices_fit c"
  shows "attenuates (authority_intersect a b) a \<and> attenuates (authority_intersect a b) b \<and>
    authority_intersect a b = authority_intersect b a \<and>
    (attenuates c a \<and> attenuates c b \<longrightarrow> attenuates c (authority_intersect a b))"
  using assms intersect_lower intersect_greatest intersect_commute by blast

theorem authority_meet_is_greatest_lower_bound_witness:
  "attenuates (authority_intersect (reader_grant ''a'') (reader_grant ''a/b'')) (reader_grant ''a'')"
proof -
  have "net_fits (reader_grant ''a'') (reader_grant ''a/b'')" by code_simp
  moreover have "devices_fit (reader_grant d)" for d
    by (simp add: devices_fit_def devices_ok_def reader_grant_def authority_new_def scopes_canonicalized_def no_scopes_def)
  ultimately show ?thesis using authority_meet_is_greatest_lower_bound by blast
qed

text \<open>The attenuation check answers exactly: it accepts a request precisely when the request is within the
  parent, and otherwise hands back the meet of the request and the parent, whose effects, secrets, audiences
  and devices are within both and whose network entries allow no request that either refuses.\<close>

theorem attenuation_check_answer:
  "(attenuation_check child parent = Inr () \<longleftrightarrow> attenuates child parent) \<and>
   (\<forall>repair. attenuation_check child parent = Inl repair \<longrightarrow>
      effects repair |\<subseteq>| effects child \<and> effects repair |\<subseteq>| effects parent \<and>
      paths_within (fs_write (a_scopes repair)) (fs_write (a_scopes child)) \<and>
      paths_within (fs_write (a_scopes repair)) (fs_write (a_scopes parent)) \<and>
      secrets (a_scopes repair) |\<subseteq>| secrets (a_scopes parent) \<and>
      secret_to (a_scopes repair) |\<subseteq>| secret_to (a_scopes parent) \<and>
      devices_within (device (a_scopes repair)) (device (a_scopes parent)) \<and>
      budget_within (budget (a_scopes repair)) (budget (a_scopes parent)) \<and>
      (\<forall>method host path. judge_all (sorted_elems (net (a_scopes repair))) method host path = Allow \<longrightarrow>
         judge_all (sorted_elems (net (a_scopes child))) method host path = Allow \<and>
         judge_all (sorted_elems (net (a_scopes parent))) method host path = Allow))"
  unfolding attenuation_check_err
  by (auto simp: authority_intersect_def Let_def paths_meet.meet_le1 paths_meet.meet_le2
      budget_order.meet_le2 intersect_devices_lower dest: net_meet_sound)

theorem attenuation_check_answer_witness:
  "attenuation_check (reader_grant ''a/b'') (reader_grant ''a'') = Inr () \<longleftrightarrow>
   attenuates (reader_grant ''a/b'') (reader_grant ''a'')"
  using attenuation_check_answer by blast

text \<open>Canonicalizing an authority never widens it and makes it canonical for good; a canonical authority is
  its own canonical form.\<close>

theorem canonicalization_never_widens:
  "attenuates (canonicalized a) a \<and> is_canonical (canonicalized a) \<and>
   canonicalized (canonicalized a) = canonicalized a"
  using canonicalized_within canonicalized_id by simp

end
