(* ===== verification/Denial.thy ===== *)
theory Denial imports Authority begin

text \<open>
  Why the custody refuses, \<open>crates/delulu-broker/src/diag.rs\<close>: one constructor for each variant of the
  source's \<open>Denial\<close>, with its stable code, whether only a person may resolve it, and the accessors. The
  free-text details are constructors of \<open>reason\<close>, one for each place that writes one, carrying what
  the text interpolates. A node is named by its identifier, a string.
\<close>

type_synonym grant_id = string

datatype (plugins only: code size) reason =
    MalformedEnvelope | MacFailed | UnreadablePayload | UnsupportedVersion nat | TokenUnknownNode | AlreadyRedeemed
  | EmptyChain | BadSignature nat | WrongSigner nat string string | NotAtAnchor string | UnknownIssuer string
  | NotConnected nat string string | NotTheHolder nat string string
  | AdoptionsPoisoned | AlreadyAdopted string | ChainRevoked string
  | ReceiptSignature | ReceiptSigner string string | ReceiptIssuer string | NotAdopted string
  | UnsupportedAlg nat string | ReceiptAlg string | NotUnderstood string string
  | NotCertificate string | NotReceipt string | EmptyInput | BadLine string | MissingField string | NotAnInteger string
  | AuthorityNotJson | AuthorityNotObject | NoEffectsArray | EffectNotString | NoScopesObject | ScopeNotArray string
  | EntryNotString | BadDevice string device_error | OneBudget nat | BadBudget budget_error
  | UplinkNotInteger | SigNotHex
  | BudgetAsked | AsksNothing | HoldsEnvelope string | HoldsEverything
  | NoRecords | NotChained string string | BodyMismatch | NotABundle "string option" | NotJson nat | NotARecord nat
  | MalformedLine | MissingLinkField | ChainBreak string string | RecordMismatch | AnchorDisagrees nat string nat string
  | DeadDeclassify string | DeadEffect string | DeadGlob string | DeadRelative string

datatype (plugins only: code size) denial =
    Attenuation grant_id authority authority
  | Expired grant_id int int
  | Revoked grant_id nat
  | OutOfScope grant_id string string
  | NetPath grant_id string string "ambiguous option"
  | NetMethod grant_id string string string
  | NotRevocable grant_id grant_id
  | DeadGuardPattern string reason
  | UnknownNode grant_id
  | AuditChainBroken nat reason
  | TokenInvalid reason
  | CertUntrusted reason
  | CertAttenuation nat authority authority
  | CertExpired int int int
  | CertUnsupported reason
  | CertMalformed reason
  | GuardBlocked grant_id string "string option"
  | GuardMintBlocked grant_id string
  | GuardPending grant_id string
  | GuardDenied grant_id string
  | GuardSealed grant_id string
  | GuardOwner string
  | StrictRootRequiresAnchor string
  | ProposalRefused grant_id reason

fun denial_code :: "denial \<Rightarrow> string" where
  "denial_code (Attenuation _ _ _) = ''DL0802''"
| "denial_code (Expired _ _ _) = ''DL1402''"
| "denial_code (Revoked _ _) = ''DL1403''"
| "denial_code (OutOfScope _ _ _) = ''DL0904''"
| "denial_code (NetPath _ _ _ _) = ''DL0904''"
| "denial_code (NetMethod _ _ _ _) = ''DL0904''"
| "denial_code (NotRevocable _ _) = ''DL0904''"
| "denial_code (DeadGuardPattern _ _) = ''DL0904''"
| "denial_code (ProposalRefused _ _) = ''DL0904''"
| "denial_code (UnknownNode _) = ''DL0904''"
| "denial_code (AuditChainBroken _ _) = ''DL1405''"
| "denial_code (TokenInvalid _) = ''DL1407''"
| "denial_code (CertUntrusted _) = ''DL1415''"
| "denial_code (CertAttenuation _ _ _) = ''DL1416''"
| "denial_code (CertExpired _ _ _) = ''DL1417''"
| "denial_code (CertUnsupported _) = ''DL1418''"
| "denial_code (CertMalformed _) = ''DL1418''"
| "denial_code (GuardBlocked _ _ _) = ''DL1410''"
| "denial_code (GuardMintBlocked _ _) = ''DL1410''"
| "denial_code (GuardPending _ _) = ''DL1411''"
| "denial_code (GuardDenied _ _) = ''DL1412''"
| "denial_code (GuardSealed _ _) = ''DL1413''"
| "denial_code (GuardOwner _) = ''DL1414''"
| "denial_code (StrictRootRequiresAnchor _) = ''DL1421''"

fun requires_human :: "denial \<Rightarrow> bool" where
  "requires_human (Expired _ _ _) = True"
| "requires_human (Revoked _ _) = True"
| "requires_human (AuditChainBroken _ _) = True"
| "requires_human (TokenInvalid _) = True"
| "requires_human (GuardBlocked _ _ _) = True"
| "requires_human (GuardMintBlocked _ _) = True"
| "requires_human (GuardPending _ _) = True"
| "requires_human (GuardDenied _ _) = True"
| "requires_human (GuardSealed _ _) = True"
| "requires_human (GuardOwner _) = True"
| "requires_human _ = False"

fun denial_intersection :: "denial \<Rightarrow> authority option" where
  "denial_intersection (Attenuation _ _ i) = Some i"
| "denial_intersection _ = None"

fun revoking_seq :: "denial \<Rightarrow> nat option" where
  "revoking_seq (Revoked _ by_seq) = Some by_seq"
| "revoking_seq _ = None"

fun audit_break_seq :: "denial \<Rightarrow> nat option" where
  "audit_break_seq (AuditChainBroken seq _) = Some seq"
| "audit_break_seq _ = None"

text \<open>
  \<open>crate::bounded_text\<close>: at most \<open>max\<close> bytes, cut where a character begins, with an ellipsis (three
  bytes) when anything was cut.
\<close>

definition is_char_boundary :: "string \<Rightarrow> nat \<Rightarrow> bool" where
  "is_char_boundary s i \<longleftrightarrow>
     i = 0 \<or> i = length s \<or> (i < length s \<and> \<not> (128 \<le> (of_char (s ! i) :: nat) \<and> (of_char (s ! i) :: nat) < 192))"

fun cut_back :: "string \<Rightarrow> nat \<Rightarrow> nat" where
  "cut_back s 0 = 0"
| "cut_back s (Suc i) = (if is_char_boundary s (Suc i) then Suc i else cut_back s i)"

definition ellipsis :: string where
  "ellipsis = [CHR 0xE2, CHR 0x80, CHR 0xA6]"

definition bounded_text :: "string \<Rightarrow> nat \<Rightarrow> string" where
  "bounded_text s m = (if length s \<le> m then s else take (cut_back s m) s @ ellipsis)"

lemma cut_back_le: "cut_back s m \<le> m"
  by (induction m) (auto intro: le_SucI)

lemma length_bounded_text: "length (bounded_text s m) \<le> m + 3"
  using cut_back_le[of s m] by (auto simp: bounded_text_def ellipsis_def)

end
