(* ===== verification/Audit_Log.thy ===== *)
theory Audit_Log imports Denial begin

text \<open>
  The audit chain, \<open>crates/delulu-broker/src/audit.rs\<close>: an entry and the record it becomes, the hash that
  links each record to the one before it, the in-memory sink, the bundle a third party verifies, the
  verification of the day files' text, queries, and the calendar the day names are written in. Reading
  and locking the day files is the file system's: the verification takes the texts it would read.
\<close>

record audit_entry =
  e_seq :: nat
  e_ts :: int
  e_actor_node :: "string option"
  e_action :: string
  e_target :: "string option"
  e_authority :: "json option"
  e_span :: "string option"
  e_decision :: string

record audit_record =
  r_seq :: nat
  r_ts :: int
  r_prev_hash :: string
  r_hash :: string
  r_actor_node :: "string option"
  r_action :: string
  r_target :: "string option"
  r_authority :: "json option"
  r_span :: "string option"
  r_decision :: string

datatype audit_error = AuditIo | AuditCorrupt denial

definition GENESIS_HASH :: string where
  "GENESIS_HASH = replicate 64 CHR ''0''"

definition corrupt :: "nat \<Rightarrow> reason \<Rightarrow> audit_error" where
  "corrupt seq why = AuditCorrupt (AuditChainBroken seq why)"

fun error_denial :: "audit_error \<Rightarrow> denial option" where
  "error_denial (AuditCorrupt d) = Some d"
| "error_denial AuditIo = None"

definition content_hash :: "libs \<Rightarrow> bytes \<Rightarrow> string" where
  "content_hash lb bs = ''blake3:'' @ blake3_hex lb bs"

definition chain_hash :: "libs \<Rightarrow> string \<Rightarrow> string \<Rightarrow> string" where
  "chain_hash lb prev_hash canonical_body = blake3_hex lb (prev_hash @ canonical_body)"

section \<open>Records\<close>

definition opt_field :: "string \<Rightarrow> ('a \<Rightarrow> json) \<Rightarrow> 'a option \<Rightarrow> (string \<times> json) list" where
  "opt_field k f x = (case x of None \<Rightarrow> [] | Some v \<Rightarrow> [(k, f v)])"

definition body_value :: "audit_record \<Rightarrow> json" where
  "body_value r =
     obj_of ([(''action'', JString (r_action r))]
       @ opt_field ''actor_node'' JString (r_actor_node r)
       @ opt_field ''authority'' id (r_authority r)
       @ [(''decision'', JString (r_decision r)),
          (''prev_hash'', JString (r_prev_hash r)),
          (''seq'', JInt (int (r_seq r)))]
       @ opt_field ''span'' JString (r_span r)
       @ opt_field ''target'' JString (r_target r)
       @ [(''ts'', JInt (r_ts r))])"

definition into_record :: "libs \<Rightarrow> audit_entry \<Rightarrow> string \<Rightarrow> audit_record" where
  "into_record lb e prev =
     (let r = \<lparr>r_seq = e_seq e, r_ts = e_ts e, r_prev_hash = prev, r_hash = [], r_actor_node = e_actor_node e,
               r_action = e_action e, r_target = e_target e, r_authority = e_authority e, r_span = e_span e,
               r_decision = e_decision e\<rparr>
      in r\<lparr>r_hash := chain_hash lb prev (canonical_json lb (body_value r))\<rparr>)"

definition record_value :: "audit_record \<Rightarrow> json" where
  "record_value r =
     (case body_value r of JObject kvs \<Rightarrow> JObject (obj_insert ''hash'' (JString (r_hash r)) kvs) | v \<Rightarrow> v)"

definition to_line :: "libs \<Rightarrow> audit_record \<Rightarrow> string" where
  "to_line lb r = canonical_json lb (record_value r)"

definition record_from_value :: "json \<Rightarrow> audit_record option" where
  "record_from_value v =
     (case as_object v of
        None \<Rightarrow> None
      | Some _ \<Rightarrow>
          (case (Option.bind (json_get v ''seq'') as_u64, Option.bind (json_get v ''ts'') as_i64,
                 get_str v ''prev_hash'', get_str v ''hash'', get_str v ''action'', get_str v ''decision'') of
             (Some seq, Some ts, Some prev, Some h, Some action, Some decision) \<Rightarrow>
               Some \<lparr>r_seq = seq, r_ts = ts, r_prev_hash = prev, r_hash = h, r_actor_node = get_str v ''actor_node'',
                     r_action = action, r_target = get_str v ''target'', r_authority = json_get v ''authority'',
                     r_span = get_str v ''span'', r_decision = decision\<rparr>
           | _ \<Rightarrow> None))"

section \<open>The sinks\<close>

record mem_sink =
  mem_records :: "audit_record list"
  mem_head :: string

definition mem_new :: mem_sink where
  "mem_new = \<lparr>mem_records = [], mem_head = GENESIS_HASH\<rparr>"

definition mem_len :: "mem_sink \<Rightarrow> nat" where "mem_len s = length (mem_records s)"

definition mem_is_empty :: "mem_sink \<Rightarrow> bool" where "mem_is_empty s \<longleftrightarrow> mem_records s = []"

definition mem_append :: "libs \<Rightarrow> audit_entry \<Rightarrow> mem_sink \<Rightarrow> (audit_error + audit_record) \<times> mem_sink" where
  "mem_append lb e s =
     (let r = into_record lb e (mem_head s)
      in (Inr r, s\<lparr>mem_head := r_hash r, mem_records := mem_records s @ [r]\<rparr>))"

text \<open>The trait's default: a sink with no numbering of its own.\<close>

definition mem_next_seq :: "mem_sink \<Rightarrow> nat option \<times> mem_sink" where
  "mem_next_seq s = (None, s)"

section \<open>Bundles\<close>

definition BUNDLE_MAGIC :: string where "BUNDLE_MAGIC = ''dlbundle1''"

record bundle_summary =
  bs_digest :: string
  bs_records :: nat
  bs_first_seq :: nat
  bs_last_seq :: nat
  bs_head :: string

type_synonym audit_bundle = "audit_record list"

definition bundle_text :: "libs \<Rightarrow> audit_bundle \<Rightarrow> string" where
  "bundle_text lb rs = concat (map (\<lambda>r. to_line lb r @ [CHR 0x0A]) rs)"

definition bundle_to_wire :: "libs \<Rightarrow> audit_bundle \<Rightarrow> string" where
  "bundle_to_wire lb rs = BUNDLE_MAGIC @ [CHR 0x0A] @ bundle_text lb rs"

definition bundle_digest :: "libs \<Rightarrow> audit_bundle \<Rightarrow> string" where
  "bundle_digest lb rs = blake3_hex lb (bundle_text lb rs)"

definition record_hash_ok :: "libs \<Rightarrow> audit_record \<Rightarrow> bool" where
  "record_hash_ok lb r \<longleftrightarrow> chain_hash lb (r_prev_hash r) (canonical_json lb (body_value r)) = r_hash r"

fun bundle_links :: "libs \<Rightarrow> string option \<Rightarrow> audit_record list \<Rightarrow> audit_error + unit" where
  "bundle_links lb prev [] = Inr ()"
| "bundle_links lb prev (r # rs) =
     (case (case prev of Some p \<Rightarrow> if r_prev_hash r \<noteq> p then Some (NotChained (r_prev_hash r) p) else None
                       | None \<Rightarrow> None) of
        Some why \<Rightarrow> Inl (corrupt (r_seq r) why)
      | None \<Rightarrow>
          if \<not> record_hash_ok lb r then Inl (corrupt (r_seq r) BodyMismatch)
          else bundle_links lb (Some (r_hash r)) rs)"

definition bundle_verify :: "libs \<Rightarrow> audit_bundle \<Rightarrow> string option \<Rightarrow> audit_error + bundle_summary" where
  "bundle_verify lb rs expected_start =
     (if rs = [] then Inl (corrupt 0 NoRecords)
      else (case bundle_links lb expected_start rs of
              Inl e \<Rightarrow> Inl e
            | Inr _ \<Rightarrow> Inr \<lparr>bs_digest = bundle_digest lb rs, bs_records = length rs, bs_first_seq = r_seq (hd rs),
                          bs_last_seq = r_seq (last rs), bs_head = r_hash (last rs)\<rparr>))"

fun parse_bundle_lines :: "libs \<Rightarrow> nat \<Rightarrow> string list \<Rightarrow> audit_error + audit_record list" where
  "parse_bundle_lines lb i [] = Inr []"
| "parse_bundle_lines lb i (l # ls) =
     (let line = trim l
      in if line = [] then parse_bundle_lines lb (Suc i) ls
         else (case parse_json lb line of
                 None \<Rightarrow> Inl (corrupt i (NotJson i))
               | Some v \<Rightarrow>
                   (case record_from_value v of
                      None \<Rightarrow> Inl (corrupt i (NotARecord i))
                    | Some r \<Rightarrow> (case parse_bundle_lines lb (Suc i) ls of Inl e \<Rightarrow> Inl e | Inr rs \<Rightarrow> Inr (r # rs)))))"

definition parse_bundle :: "libs \<Rightarrow> string \<Rightarrow> audit_error + audit_bundle" where
  "parse_bundle lb t =
     (case text_lines t of
        [] \<Rightarrow> Inl (corrupt 0 (NotABundle None))
      | m # ls \<Rightarrow>
          if trim m = BUNDLE_MAGIC then parse_bundle_lines lb 0 ls else Inl (corrupt 0 (NotABundle (Some (trim m)))))"

section \<open>Verifying the day files\<close>

record verified_stats =
  vs_files :: nat
  vs_records :: nat
  vs_head :: string

text \<open>One line of a day file: skipped when blank or a header, otherwise one link of the chain.\<close>

definition verify_line :: "libs \<Rightarrow> string \<Rightarrow> string \<times> nat \<Rightarrow> audit_error + string \<times> nat" where
  "verify_line lb line = (\<lambda>(expected, records).
     if trim line = [] then Inr (expected, records)
     else (case parse_json lb line of
             None \<Rightarrow> Inl (corrupt 0 MalformedLine)
           | Some v \<Rightarrow>
               (case json_get v ''seq'' of
                  None \<Rightarrow> Inr (expected, records)
                | Some s \<Rightarrow>
                    (case (as_u64 s, get_str v ''hash'', get_str v ''prev_hash'') of
                       (Some seq, Some stored, Some prev) \<Rightarrow>
                         if prev \<noteq> expected then Inl (corrupt seq (ChainBreak expected prev))
                         else (case v of
                                 JObject kvs \<Rightarrow>
                                   if chain_hash lb prev (canonical_json lb (JObject (obj_remove ''hash'' kvs))) \<noteq> stored
                                   then Inl (corrupt seq RecordMismatch)
                                   else Inr (stored, Suc records)
                               | _ \<Rightarrow> Inl (corrupt seq MissingLinkField))
                     | (seq, _, _) \<Rightarrow> Inl (corrupt (case seq of None \<Rightarrow> 0 | Some q \<Rightarrow> q) MissingLinkField)))))"

fun verify_lines :: "libs \<Rightarrow> string list \<Rightarrow> string \<times> nat \<Rightarrow> audit_error + string \<times> nat" where
  "verify_lines lb [] st = Inr st"
| "verify_lines lb (l # ls) st = (case verify_line lb l st of Inl e \<Rightarrow> Inl e | Inr st' \<Rightarrow> verify_lines lb ls st')"

fun verify_days :: "libs \<Rightarrow> string list \<Rightarrow> string \<times> nat \<Rightarrow> audit_error + string \<times> nat" where
  "verify_days lb [] st = Inr st"
| "verify_days lb (d # ds) st =
     (case verify_lines lb (text_lines d) st of Inl e \<Rightarrow> Inl e | Inr st' \<Rightarrow> verify_days lb ds st')"

definition verify_unlocked :: "libs \<Rightarrow> string list \<Rightarrow> (string \<times> nat) option \<Rightarrow> audit_error + verified_stats" where
  "verify_unlocked lb days anchor =
     (case verify_days lb days (GENESIS_HASH, 0) of
        Inl e \<Rightarrow> Inl e
      | Inr (head, records) \<Rightarrow>
          (case anchor of
             Some (a_head, a_records) \<Rightarrow>
               if a_head \<noteq> head \<or> a_records \<noteq> records
               then Inl (corrupt records (AnchorDisagrees a_records a_head records head))
               else Inr \<lparr>vs_files = length days, vs_records = records, vs_head = head\<rparr>
           | None \<Rightarrow> Inr \<lparr>vs_files = length days, vs_records = records, vs_head = head\<rparr>))"

definition verified_link :: "libs \<Rightarrow> json \<Rightarrow> string \<Rightarrow> (string \<times> nat) option" where
  "verified_link lb v head =
     (case (get_str v ''prev_hash'', get_str v ''hash'', Option.bind (json_get v ''seq'') as_u64, as_object v) of
        (Some prev, Some stored, Some seq, Some kvs) \<Rightarrow>
          if prev = head \<and> chain_hash lb prev (canonical_json lb (JObject (obj_remove ''hash'' kvs))) = stored
          then Some (stored, seq) else None
      | _ \<Rightarrow> None)"

definition read_all_records :: "libs \<Rightarrow> string list \<Rightarrow> audit_record list" where
  "read_all_records lb days =
     concat (map (\<lambda>d. List.map_filter
                        (\<lambda>l. if trim l = [] then None else Option.bind (parse_json lb l) record_from_value)
                        (text_lines d)) days)"

definition tail_records :: "libs \<Rightarrow> string list \<Rightarrow> nat \<Rightarrow> audit_record list" where
  "tail_records lb days n = (let all = read_all_records lb days in drop (length all - n) all)"

record query_filter =
  q_node :: "string option"
  q_action :: "string option"
  q_effect :: "string option"

definition query_matches :: "query_filter \<Rightarrow> audit_record \<Rightarrow> bool" where
  "query_matches f r \<longleftrightarrow>
     (case q_node f of None \<Rightarrow> True | Some n \<Rightarrow> r_actor_node r = Some n \<or> r_target r = Some n) \<and>
     (case q_action f of None \<Rightarrow> True | Some a \<Rightarrow> r_action r = a) \<and>
     (case q_effect f of
        None \<Rightarrow> True
      | Some eff \<Rightarrow>
          (case Option.bind (Option.bind (r_authority r) (\<lambda>a. json_get a ''effects'')) as_array of
             None \<Rightarrow> False
           | Some arr \<Rightarrow> list_ex (\<lambda>x. as_str x = Some eff) arr))"

definition query_records :: "libs \<Rightarrow> string list \<Rightarrow> query_filter \<Rightarrow> audit_record list" where
  "query_records lb days f = filter (query_matches f) (read_all_records lb days)"

definition OBSERVABILITY_PHRASE :: string where
  "OBSERVABILITY_PHRASE = ''observability, not enforcement''"

definition header_line :: "libs \<Rightarrow> string \<Rightarrow> string" where
  "header_line lb day =
     canonical_json lb (obj_of [(''audit'', JString ''delulu''), (''day'', JString day),
       (''note'', JString OBSERVABILITY_PHRASE), (''version'', JInt 1)])"

definition complete_lines :: "bytes \<Rightarrow> bytes" where
  "complete_lines bs = rev (dropWhile (\<lambda>b. b \<noteq> CHR 0x0A) (rev bs))"

section \<open>The calendar\<close>

text \<open>Rust's \<open>/\<close> truncates toward zero; the divisions below are of non-negative numbers but for the first.\<close>

definition civil_from_days :: "int \<Rightarrow> int \<times> int \<times> int" where
  "civil_from_days z0 =
     (let z = z0 + 719468;
          era = (if z \<ge> 0 then z div 146097 else - ((146096 - z) div 146097));
          doe = z - era * 146097;
          yoe = (doe - doe div 1460 + doe div 36524 - doe div 146096) div 365;
          y = yoe + era * 400;
          doy = doe - (365 * yoe + yoe div 4 - yoe div 100);
          mp = (5 * doy + 2) div 153;
          d = doy - (153 * mp + 2) div 5 + 1;
          m = (if mp < 10 then mp + 3 else mp - 9)
      in (if m \<le> 2 then y + 1 else y, m, d))"

definition pad :: "nat \<Rightarrow> int \<Rightarrow> string" where
  "pad w i =
     (let digits = show_nat (nat (abs i)); sign = (if i < 0 then ''-'' else [])
      in sign @ replicate (w - length digits - length sign) CHR ''0'' @ digits)"

definition MS_PER_DAY :: int where "MS_PER_DAY = 86400000"

definition day_string :: "int \<Rightarrow> string" where
  "day_string ts = (let (y, m, d) = civil_from_days (ts div MS_PER_DAY) in pad 4 y @ pad 2 m @ pad 2 d)"

definition render_ts_utc :: "int \<Rightarrow> string" where
  "render_ts_utc ts =
     (let r = ts mod MS_PER_DAY; (y, m, d) = civil_from_days (ts div MS_PER_DAY);
          h = r div 3600000; mi = r div 60000 mod 60; s = r div 1000 mod 60; ms = r mod 1000
      in pad 4 y @ ''-'' @ pad 2 m @ ''-'' @ pad 2 d @ ''T'' @ pad 2 h @ '':'' @ pad 2 mi @ '':'' @ pad 2 s @ ''.'' @ pad 3 ms @ ''Z'')"

end
