(* ===== verification/Audit_Chain.thy ===== *)
theory Audit_Chain imports Audit_Log begin

text \<open>
  What the audit chain guarantees: the in-memory sink's records always verify as a bundle from the genesis
  hash, a record's wire value reads back as the record and verifies as the next link, and two verified
  bundles with one head carry the same bodies, so no record can be altered, dropped, added or reordered
  under a kept head.
\<close>

section \<open>The body of a record\<close>

definition sorted_kvs :: "(string \<times> json) list \<Rightarrow> bool" where
  "sorted_kvs kvs \<longleftrightarrow> sorted_wrt (\<lambda>a b. fst a < fst b) kvs"

lemma obj_insert_last: "\<forall>kv\<in>set kvs. fst kv < k \<Longrightarrow> obj_insert k v kvs = kvs @ [(k, v)]"
  by (induction kvs) auto

lemma foldl_obj_insert_append:
  "sorted_kvs (m @ kvs) \<Longrightarrow> foldl (\<lambda>m (k, v). obj_insert k v m) m kvs = m @ kvs"
proof (induction kvs arbitrary: m)
  case (Cons kv kvs)
  obtain k v where kv: "kv = (k, v)" by (cases kv)
  have "\<forall>x\<in>set m. fst x < k" using Cons.prems kv by (auto simp: sorted_kvs_def sorted_wrt_append)
  then show ?case using Cons.IH[of "m @ [kv]"] Cons.prems kv by (simp add: obj_insert_last)
qed simp

lemma obj_of_sorted_kvs: "sorted_kvs kvs \<Longrightarrow> obj_of kvs = JObject kvs"
  using foldl_obj_insert_append[of "[]" kvs] by (simp add: obj_of_def)

definition body_fields :: "audit_record \<Rightarrow> (string \<times> json) list" where
  "body_fields r =
     [(''action'', JString (r_action r))]
       @ opt_field ''actor_node'' JString (r_actor_node r)
       @ opt_field ''authority'' id (r_authority r)
       @ [(''decision'', JString (r_decision r)),
          (''prev_hash'', JString (r_prev_hash r)),
          (''seq'', JInt (int (r_seq r)))]
       @ opt_field ''span'' JString (r_span r)
       @ opt_field ''target'' JString (r_target r)
       @ [(''ts'', JInt (r_ts r))]"

lemma body_fields_sorted: "sorted_kvs (body_fields r)"
  by (cases "r_actor_node r"; cases "r_authority r"; cases "r_span r"; cases "r_target r")
    (simp_all add: sorted_kvs_def body_fields_def opt_field_def)

lemma body_value_fields: "body_value r = JObject (body_fields r)"
  using obj_of_sorted_kvs[OF body_fields_sorted] by (simp add: body_value_def body_fields_def)

lemma body_value_hash [simp]: "body_value (r\<lparr>r_hash := h\<rparr>) = body_value r"
  by (simp add: body_value_def)

lemma hash_not_in_body: "(''hash'', v) \<notin> set (body_fields r)"
  by (auto simp: body_fields_def opt_field_def split: option.splits)

lemma obj_remove_insert:
  "(\<forall>v'. (k, v') \<notin> set kvs) \<Longrightarrow> obj_remove k (obj_insert k v kvs) = kvs"
proof (induction kvs)
  case (Cons kv kvs)
  have "obj_remove k kvs' = kvs'" if "\<forall>v'. (k, v') \<notin> set kvs'" for kvs'
    using that by (induction kvs') (auto simp: obj_remove_def)
  then show ?case using Cons by (cases kv) (auto simp: obj_remove_def)
qed (simp add: obj_remove_def)

lemma record_value_object:
  "record_value r = JObject (obj_insert ''hash'' (JString (r_hash r)) (body_fields r))"
  by (simp add: record_value_def body_value_fields)

lemma record_value_body: "obj_remove ''hash'' (obj_insert ''hash'' (JString (r_hash r)) (body_fields r)) = body_fields r"
  by (rule obj_remove_insert) (simp add: hash_not_in_body)

lemma record_gets:
  "json_get (record_value r) ''seq'' = Some (JInt (int (r_seq r)))"
  "json_get (record_value r) ''ts'' = Some (JInt (r_ts r))"
  "json_get (record_value r) ''prev_hash'' = Some (JString (r_prev_hash r))"
  "json_get (record_value r) ''hash'' = Some (JString (r_hash r))"
  "json_get (record_value r) ''action'' = Some (JString (r_action r))"
  "json_get (record_value r) ''decision'' = Some (JString (r_decision r))"
  "json_get (record_value r) ''actor_node'' = map_option JString (r_actor_node r)"
  "json_get (record_value r) ''target'' = map_option JString (r_target r)"
  "json_get (record_value r) ''span'' = map_option JString (r_span r)"
  "json_get (record_value r) ''authority'' = r_authority r"
  by (simp_all add: record_value_object body_fields_def opt_field_def map_add_def split: option.splits)

definition record_in_range :: "audit_record \<Rightarrow> bool" where
  "record_in_range r \<longleftrightarrow> r_seq r \<le> u64_max \<and> i64_min \<le> r_ts r \<and> r_ts r \<le> i64_max"

lemma get_str_opt: "json_get v k = map_option JString x \<Longrightarrow> get_str v k = x"
  by (cases x) (simp_all add: get_str_def)

lemma record_round_trip: "record_in_range r \<Longrightarrow> record_from_value (record_value r) = Some r"
proof -
  assume r: "record_in_range r"
  have "as_object (record_value r) \<noteq> None" by (simp add: record_value_object)
  moreover have "get_str (record_value r) ''actor_node'' = r_actor_node r" "get_str (record_value r) ''target'' = r_target r"
    "get_str (record_value r) ''span'' = r_span r"
    by (simp_all add: get_str_opt record_gets)
  ultimately show ?thesis
    using r by (auto simp: record_from_value_def record_gets get_str_def[of _ "''prev_hash''"] get_str_def[of _ "''hash''"]
        get_str_def[of _ "''action''"] get_str_def[of _ "''decision''"] record_in_range_def)
qed

section \<open>Links\<close>

lemma into_record_fields [simp]:
  "r_prev_hash (into_record lb e p) = p" "r_seq (into_record lb e p) = e_seq e" "r_ts (into_record lb e p) = e_ts e"
  by (simp_all add: into_record_def Let_def)

lemma into_record_ok: "record_hash_ok lb (into_record lb e p)"
proof -
  define r where "r = \<lparr>r_seq = e_seq e, r_ts = e_ts e, r_prev_hash = p, r_hash = [], r_actor_node = e_actor_node e,
    r_action = e_action e, r_target = e_target e, r_authority = e_authority e, r_span = e_span e,
    r_decision = e_decision e\<rparr>"
  have "into_record lb e p = r\<lparr>r_hash := chain_hash lb p (canonical_json lb (body_value r))\<rparr>"
    unfolding into_record_def Let_def r_def ..
  moreover have "r_prev_hash r = p" by (simp add: r_def)
  ultimately show ?thesis by (simp add: record_hash_ok_def)
qed

lemma verified_link_record:
  "record_hash_ok lb r \<Longrightarrow> r_seq r \<le> u64_max \<Longrightarrow> verified_link lb (record_value r) (r_prev_hash r) = Some (r_hash r, r_seq r)"
proof -
  assume ok: "record_hash_ok lb r" and seq: "r_seq r \<le> u64_max"
  have "as_object (record_value r) = Some (obj_insert ''hash'' (JString (r_hash r)) (body_fields r))"
    by (simp add: record_value_object)
  moreover have "chain_hash lb (r_prev_hash r) (canonical_json lb (JObject (body_fields r))) = r_hash r"
    using ok by (simp only: record_hash_ok_def body_value_fields)
  ultimately show ?thesis
    using seq by (simp add: verified_link_def get_str_def record_gets record_value_body del: canonical_json.simps)
qed

fun linked :: "libs \<Rightarrow> string \<Rightarrow> audit_record list \<Rightarrow> bool" where
  "linked lb p [] = True"
| "linked lb p (r # rs) = (r_prev_hash r = p \<and> record_hash_ok lb r \<and> linked lb (r_hash r) rs)"

lemma bundle_links_iff: "bundle_links lb (Some p) rs = Inr () \<longleftrightarrow> linked lb p rs"
  by (induction rs arbitrary: p) auto

lemma linked_append:
  "linked lb p (rs @ [r]) \<longleftrightarrow> linked lb p rs \<and> record_hash_ok lb r \<and> r_prev_hash r = (if rs = [] then p else r_hash (last rs))"
  by (induction rs arbitrary: p) auto

definition mem_ok :: "libs \<Rightarrow> mem_sink \<Rightarrow> bool" where
  "mem_ok lb s \<longleftrightarrow> linked lb GENESIS_HASH (mem_records s) \<and>
     mem_head s = (if mem_records s = [] then GENESIS_HASH else r_hash (last (mem_records s)))"

lemma mem_ok_new: "mem_ok lb mem_new"
  by (simp add: mem_ok_def mem_new_def)

lemma mem_ok_append: "mem_ok lb s \<Longrightarrow> mem_ok lb (snd (mem_append lb e s))"
  by (auto simp: mem_ok_def mem_append_def Let_def linked_append into_record_ok)

definition mem_run :: "libs \<Rightarrow> audit_entry list \<Rightarrow> mem_sink" where
  "mem_run lb es = foldl (\<lambda>s e. snd (mem_append lb e s)) mem_new es"

lemma mem_run_ok: "mem_ok lb (mem_run lb es)"
proof -
  have "mem_ok lb s \<Longrightarrow> mem_ok lb (foldl (\<lambda>s e. snd (mem_append lb e s)) s es)" for s
    by (induction es arbitrary: s) (simp_all add: mem_ok_append)
  then show ?thesis by (simp add: mem_run_def mem_ok_new)
qed

lemma mem_run_length: "length (mem_records (mem_run lb es)) = length es"
proof -
  have "length (mem_records (foldl (\<lambda>s e. snd (mem_append lb e s)) s es)) = length (mem_records s) + length es" for s
    by (induction es arbitrary: s) (simp_all add: mem_append_def Let_def)
  then show ?thesis by (simp add: mem_run_def mem_new_def)
qed

section \<open>Tampering\<close>

text \<open>A hash with no collisions, whose text is hexadecimal: what the chain relies on.\<close>

locale collision_free_hash =
  fixes lb :: libs
  assumes hash_inj: "blake3_hex lb x = blake3_hex lb y \<Longrightarrow> x = y"
    and hash_hex: "c \<in> set (blake3_hex lb x) \<Longrightarrow> hex_digit c \<noteq> None"
begin

lemma canonical_body_brace: "\<exists>rest. canonical_json lb (body_value r) = CHR 0x7B # rest"
  by (simp add: body_value_fields)

lemma split_at_brace:
  "p @ CHR 0x7B # x = q @ CHR 0x7B # y \<Longrightarrow> CHR 0x7B \<notin> set p \<Longrightarrow> CHR 0x7B \<notin> set q \<Longrightarrow> p = q \<and> x = y"
proof (induction p arbitrary: q)
  case Nil
  then show ?case by (cases q) auto
next
  case (Cons a p)
  then show ?case by (cases q) auto
qed

lemma same_hash_same_body:
  assumes "record_hash_ok lb r" "record_hash_ok lb s" "r_hash r = r_hash s"
    and "CHR 0x7B \<notin> set (r_prev_hash r)" "CHR 0x7B \<notin> set (r_prev_hash s)"
  shows "r_prev_hash r = r_prev_hash s \<and> canonical_json lb (body_value r) = canonical_json lb (body_value s)"
proof -
  have "r_prev_hash r @ canonical_json lb (body_value r) = r_prev_hash s @ canonical_json lb (body_value s)"
    using assms(1-3) hash_inj unfolding record_hash_ok_def chain_hash_def by metis
  then show ?thesis
    using split_at_brace assms(4,5) canonical_body_brace[of r] canonical_body_brace[of s] by metis
qed

lemma no_brace_hash: "record_hash_ok lb r \<Longrightarrow> CHR 0x7B \<notin> set (r_hash r)"
proof -
  assume "record_hash_ok lb r"
  then have "r_hash r = blake3_hex lb (r_prev_hash r @ canonical_json lb (body_value r))"
    by (simp add: record_hash_ok_def chain_hash_def)
  moreover have "hex_digit CHR 0x7B = None" by (simp add: hex_digit_def)
  ultimately show ?thesis using hash_hex by metis
qed

lemma linked_prev_no_brace:
  "linked lb p (rs @ [r]) \<Longrightarrow> CHR 0x7B \<notin> set p \<Longrightarrow> CHR 0x7B \<notin> set (r_prev_hash r)"
proof (induction rs arbitrary: p)
  case (Cons a rs)
  then show ?case using no_brace_hash by auto
qed simp

lemma same_head_same_bodies:
  "linked lb p rs \<Longrightarrow> linked lb p ss \<Longrightarrow> length rs = length ss \<Longrightarrow> CHR 0x7B \<notin> set p \<Longrightarrow>
     (rs \<noteq> [] \<Longrightarrow> r_hash (last rs) = r_hash (last ss)) \<Longrightarrow>
     map (\<lambda>r. canonical_json lb (body_value r)) rs = map (\<lambda>r. canonical_json lb (body_value r)) ss \<and> map r_hash rs = map r_hash ss"
proof (induction rs arbitrary: ss rule: rev_induct)
  case (snoc r rs)
  obtain s ss' where ss: "ss = ss' @ [s]" using snoc.prems(3) by (cases ss rule: rev_cases) auto
  have ok: "record_hash_ok lb r" "record_hash_ok lb s" "r_hash r = r_hash s" "linked lb p rs" "linked lb p ss'"
    using snoc.prems ss by (auto simp: linked_append)
  have len: "length rs = length ss'" using snoc.prems(3) ss by simp
  have nb: "CHR 0x7B \<notin> set (r_prev_hash r)" "CHR 0x7B \<notin> set (r_prev_hash s)"
    using linked_prev_no_brace snoc.prems(1,2,4) ss by blast+
  note same = same_hash_same_body[OF ok(1-3) nb]
  have "r_hash (last rs) = r_hash (last ss')" if "rs \<noteq> []"
  proof -
    have "ss' \<noteq> []" using that len by auto
    then show ?thesis using same that snoc.prems(1,2) ss by (simp add: linked_append)
  qed
  then show ?case using snoc.IH[OF ok(4,5) len snoc.prems(4)] same ok(3) ss by simp
qed simp

end

interpretation plain_hash: collision_free_hash plain_libs
  by unfold_locales (auto simp: plain_libs_def to_hex_inj dest: set_to_hex)

lemma bundle_verify_linked:
  "bundle_verify lb rs (Some p) = Inr s \<Longrightarrow> rs \<noteq> [] \<and> linked lb p rs \<and> bs_head s = r_hash (last rs) \<and> bs_records s = length rs"
  using bundle_links_iff[of lb p rs] by (auto simp: bundle_verify_def split: if_splits sum.splits)

section \<open>Properties\<close>

text \<open>Whatever entries are appended to the in-memory sink, its records verify as a bundle from the genesis
  hash, with one record for each entry and the sink's head as the bundle's.\<close>

theorem mem_sink_chain_verifies:
  assumes "es \<noteq> []"
  shows "\<exists>s. bundle_verify lb (mem_records (mem_run lb es)) (Some GENESIS_HASH) = Inr s \<and>
           bs_records s = length es \<and> bs_head s = mem_head (mem_run lb es)"
proof -
  let ?m = "mem_run lb es"
  have ok: "mem_ok lb ?m" by (rule mem_run_ok)
  have len: "length (mem_records ?m) = length es" by (rule mem_run_length)
  then have ne: "mem_records ?m \<noteq> []" using assms by auto
  have "bundle_links lb (Some GENESIS_HASH) (mem_records ?m) = Inr ()"
    using ok by (simp add: bundle_links_iff mem_ok_def)
  then show ?thesis using ok ne len by (simp add: bundle_verify_def mem_ok_def)
qed

definition sample_entry :: audit_entry where
  "sample_entry = \<lparr>e_seq = 1, e_ts = 1000, e_actor_node = Some ''g_1'', e_action = ''issue'', e_target = None,
     e_authority = None, e_span = None, e_decision = ''allow''\<rparr>"

theorem mem_sink_chain_verifies_witness:
  "\<exists>s. bundle_verify plain_libs (mem_records (mem_run plain_libs [sample_entry])) (Some GENESIS_HASH) = Inr s \<and>
     bs_records s = 1 \<and> bs_head s = mem_head (mem_run plain_libs [sample_entry])"
  using mem_sink_chain_verifies[of "[sample_entry]" plain_libs] by simp

text \<open>C38: The chain is tamper-evident: with a hash that has no collisions, two bundles of one length that both
  verify from one start and end at one head have the same record bodies in the same order.\<close>

theorem audit_chain_tamper_evident:
  assumes "collision_free_hash lb" "\<forall>c\<in>set start. hex_digit c \<noteq> None"
    and "bundle_verify lb rs (Some start) = Inr s" "bundle_verify lb rs' (Some start) = Inr s'"
    and "bs_head s = bs_head s'" "bs_records s = bs_records s'"
  shows "map (\<lambda>r. canonical_json lb (body_value r)) rs = map (\<lambda>r. canonical_json lb (body_value r)) rs'"
proof -
  have start_plain: "CHR 0x7B \<notin> set start" using assms(2) by (auto simp: hex_digit_def)
  show ?thesis
    using collision_free_hash.same_head_same_bodies[OF assms(1), of start rs rs'] bundle_verify_linked[OF assms(3)]
      bundle_verify_linked[OF assms(4)] assms(5,6) start_plain by simp
qed

theorem audit_chain_tamper_evident_witness:
  "map (\<lambda>r. canonical_json plain_libs (body_value r)) [into_record plain_libs sample_entry GENESIS_HASH] =
   map (\<lambda>r. canonical_json plain_libs (body_value r)) (mem_records (mem_run plain_libs [sample_entry]))"
proof -
  let ?rs = "[into_record plain_libs sample_entry GENESIS_HASH]"
  have m: "mem_records (mem_run plain_libs [sample_entry]) = ?rs"
    by (simp add: mem_run_def mem_append_def mem_new_def Let_def)
  have "bundle_links plain_libs (Some GENESIS_HASH) ?rs = Inr ()" by (simp add: bundle_links_iff into_record_ok)
  then obtain s where "bundle_verify plain_libs ?rs (Some GENESIS_HASH) = Inr s" by (simp add: bundle_verify_def)
  moreover have "\<forall>c\<in>set GENESIS_HASH. hex_digit c \<noteq> None" by (simp add: GENESIS_HASH_def hex_digit_def)
  ultimately show ?thesis
    unfolding m using audit_chain_tamper_evident[OF plain_hash.collision_free_hash_axioms] by blast
qed

text \<open>A record's wire value reads back as the record, and it verifies as the link after the hash it names.\<close>

theorem record_wire_round_trip:
  assumes "record_in_range (into_record lb e prev)"
  shows "record_from_value (record_value (into_record lb e prev)) = Some (into_record lb e prev) \<and>
    verified_link lb (record_value (into_record lb e prev)) prev = Some (r_hash (into_record lb e prev), e_seq e)"
  using record_round_trip[OF assms] verified_link_record[OF into_record_ok, of lb e prev] assms
  by (simp add: record_in_range_def)

theorem record_wire_round_trip_witness:
  "record_from_value (record_value (into_record plain_libs sample_entry GENESIS_HASH)) =
     Some (into_record plain_libs sample_entry GENESIS_HASH)"
  using record_wire_round_trip[of plain_libs sample_entry GENESIS_HASH]
  by (simp add: record_in_range_def sample_entry_def u64_max_def i64_min_def i64_max_def)

end
