(* ===== verification/Ops.thy ===== *)
theory Ops imports Effect_Row begin

text \<open>
  The operations a holder asks the custody about, \<open>crates/delulu-broker/src/validate.rs\<close>: their class,
  the effect each needs, their names on the wire and the scope dimension each is checked against.
\<close>

datatype op_class = Synchronous | Epoch

datatype operation =
    OpDeclassify | OpFsWrite | OpNet | OpForeignBind | OpPluginLoad | OpActuate
  | OpFsRead | OpClock | OpRand | OpConsole

fun op_class_of :: "operation \<Rightarrow> op_class" where
  "op_class_of OpDeclassify = Synchronous"
| "op_class_of OpFsWrite = Synchronous"
| "op_class_of OpNet = Synchronous"
| "op_class_of OpForeignBind = Synchronous"
| "op_class_of OpPluginLoad = Synchronous"
| "op_class_of OpActuate = Synchronous"
| "op_class_of OpFsRead = Epoch"
| "op_class_of OpClock = Epoch"
| "op_class_of OpRand = Epoch"
| "op_class_of OpConsole = Epoch"

fun required_effect :: "operation \<Rightarrow> effect option" where
  "required_effect OpDeclassify = Some Declassify"
| "required_effect OpFsWrite = Some Write"
| "required_effect OpNet = Some Net"
| "required_effect OpForeignBind = Some ForeignCall"
| "required_effect OpFsRead = Some Read"
| "required_effect OpClock = Some Clock"
| "required_effect OpRand = Some Rand"
| "required_effect OpConsole = Some Write"
| "required_effect OpActuate = Some Actuate"
| "required_effect OpPluginLoad = None"

fun op_wire_name :: "operation \<Rightarrow> string" where
  "op_wire_name OpDeclassify = ''Declassify''"
| "op_wire_name OpFsWrite = ''FsWrite''"
| "op_wire_name OpNet = ''Net''"
| "op_wire_name OpForeignBind = ''ForeignBind''"
| "op_wire_name OpPluginLoad = ''PluginLoad''"
| "op_wire_name OpActuate = ''Actuate''"
| "op_wire_name OpFsRead = ''FsRead''"
| "op_wire_name OpClock = ''Clock''"
| "op_wire_name OpRand = ''Rand''"
| "op_wire_name OpConsole = ''Console''"

definition op_from_wire_name :: "string \<Rightarrow> operation option" where
  "op_from_wire_name s =
     (if s = ''Declassify'' then Some OpDeclassify
      else if s = ''FsWrite'' then Some OpFsWrite
      else if s = ''Net'' then Some OpNet
      else if s = ''ForeignBind'' then Some OpForeignBind
      else if s = ''PluginLoad'' then Some OpPluginLoad
      else if s = ''Actuate'' then Some OpActuate
      else if s = ''FsRead'' then Some OpFsRead
      else if s = ''Clock'' then Some OpClock
      else if s = ''Rand'' then Some OpRand
      else if s = ''Console'' then Some OpConsole
      else None)"

fun scope_dimension :: "operation \<Rightarrow> string" where
  "scope_dimension OpFsRead = ''fs.read''"
| "scope_dimension OpFsWrite = ''fs.write''"
| "scope_dimension OpNet = ''net''"
| "scope_dimension OpDeclassify = ''declassify''"
| "scope_dimension OpForeignBind = ''foreign.c''"
| "scope_dimension OpActuate = ''device''"
| "scope_dimension _ = ''-''"

lemma op_wire_round_trip [simp]: "op_from_wire_name (op_wire_name p) = Some p"
  by (cases p) (simp_all add: op_from_wire_name_def)

lemma op_from_wire_sound: "op_from_wire_name s = Some p \<Longrightarrow> op_wire_name p = s"
  by (auto simp: op_from_wire_name_def split: if_splits)

end
