(* ===== verification/Guard_Policy.thy ===== *)
theory Guard_Policy imports Ops Denial "HOL-Library.Product_Lexorder" begin

text \<open>
  The guard's policy, \<open>crates/delulu-broker/src/guard.rs\<close>: tiers, classes, which pattern matches which
  token, which patterns can match nothing, the rules and the tier they give to a use, to a mint and to a
  requested sub, and the policy's JSON.
\<close>

datatype guard_tier = WarnTier | Guarded | Sealed

fun tier_rank :: "guard_tier \<Rightarrow> nat" where
  "tier_rank WarnTier = 0" | "tier_rank Guarded = 1" | "tier_rank Sealed = 2"

instantiation guard_tier :: linorder
begin

definition less_eq_guard_tier :: "guard_tier \<Rightarrow> guard_tier \<Rightarrow> bool" where
  "less_eq_guard_tier a b \<longleftrightarrow> tier_rank a \<le> tier_rank b"

definition less_guard_tier :: "guard_tier \<Rightarrow> guard_tier \<Rightarrow> bool" where
  "less_guard_tier a b \<longleftrightarrow> tier_rank a < tier_rank b"

instance
proof
  fix a b :: guard_tier
  show "a \<le> b \<Longrightarrow> b \<le> a \<Longrightarrow> a = b" by (cases a; cases b) (simp_all add: less_eq_guard_tier_def)
qed (auto simp: less_eq_guard_tier_def less_guard_tier_def)

end

fun tier_wire_name :: "guard_tier \<Rightarrow> string" where
  "tier_wire_name WarnTier = ''warn''"
| "tier_wire_name Guarded = ''guarded''"
| "tier_wire_name Sealed = ''sealed''"

definition tier_from_wire :: "string \<Rightarrow> guard_tier option" where
  "tier_from_wire s =
     (if s = ''warn'' then Some WarnTier else if s = ''guarded'' then Some Guarded
      else if s = ''sealed'' then Some Sealed else None)"

datatype guard_class =
    GEffect | GFsRead | GFsWrite | GNet | GSecret | GDeclassify | GForeignC | GForeignPython | GDevice

fun class_rank :: "guard_class \<Rightarrow> nat" where
  "class_rank GEffect = 0" | "class_rank GFsRead = 1" | "class_rank GFsWrite = 2" | "class_rank GNet = 3"
| "class_rank GSecret = 4" | "class_rank GDeclassify = 5" | "class_rank GForeignC = 6"
| "class_rank GForeignPython = 7" | "class_rank GDevice = 8"

fun class_wire_name :: "guard_class \<Rightarrow> string" where
  "class_wire_name GEffect = ''effect''"
| "class_wire_name GFsRead = ''fs_read''"
| "class_wire_name GFsWrite = ''fs_write''"
| "class_wire_name GNet = ''net''"
| "class_wire_name GSecret = ''secret''"
| "class_wire_name GDeclassify = ''declassify''"
| "class_wire_name GForeignC = ''foreign_c''"
| "class_wire_name GForeignPython = ''foreign_python''"
| "class_wire_name GDevice = ''device''"

definition class_from_wire :: "string \<Rightarrow> guard_class option" where
  "class_from_wire s =
     (if s = ''effect'' then Some GEffect
      else if s = ''fs_read'' then Some GFsRead
      else if s = ''fs_write'' then Some GFsWrite
      else if s = ''net'' then Some GNet
      else if s = ''secret'' then Some GSecret
      else if s = ''declassify'' then Some GDeclassify
      else if s = ''foreign_c'' then Some GForeignC
      else if s = ''foreign_python'' then Some GForeignPython
      else if s = ''device'' then Some GDevice
      else None)"

fun use_axis_class :: "operation \<Rightarrow> guard_class option" where
  "use_axis_class OpFsRead = Some GFsRead"
| "use_axis_class OpFsWrite = Some GFsWrite"
| "use_axis_class OpNet = Some GNet"
| "use_axis_class OpDeclassify = Some GDeclassify"
| "use_axis_class OpForeignBind = Some GForeignC"
| "use_axis_class OpActuate = Some GDevice"
| "use_axis_class OpClock = None"
| "use_axis_class OpRand = None"
| "use_axis_class OpConsole = None"
| "use_axis_class OpPluginLoad = None"

fun class_use_effect :: "guard_class \<Rightarrow> effect option" where
  "class_use_effect GFsRead = Some Read"
| "class_use_effect GFsWrite = Some Write"
| "class_use_effect GNet = Some Net"
| "class_use_effect GDeclassify = Some Declassify"
| "class_use_effect GForeignC = Some ForeignCall"
| "class_use_effect GDevice = Some Actuate"
| "class_use_effect _ = None"

definition EFFECT_BEARING_CLASSES :: "guard_class list" where
  "EFFECT_BEARING_CLASSES = [GFsRead, GFsWrite, GNet, GDeclassify, GForeignC, GDevice]"

definition effect_pattern_denotes :: "string \<Rightarrow> bool" where
  "effect_pattern_denotes p \<longleftrightarrow> p = ''*'' \<or> core_from_name p \<noteq> None"

definition class_is_path_valued :: "guard_class \<Rightarrow> bool" where
  "class_is_path_valued c \<longleftrightarrow> c = GFsRead \<or> c = GFsWrite"

section \<open>Paths in patterns\<close>

text \<open>The loop over the parts: the parts kept, and how many \<open>..\<close> climb above the start.\<close>

fun norm_parts :: "bool \<Rightarrow> string list \<Rightarrow> string list \<Rightarrow> nat \<Rightarrow> string list \<times> nat" where
  "norm_parts absolute [] out climbs = (out, climbs)"
| "norm_parts absolute (s # ss) out climbs =
     (if s = [] \<or> s = ''.'' then norm_parts absolute ss out climbs
      else if s = ''..'' then
        (if out = [] then norm_parts absolute ss [] (if absolute then climbs else Suc climbs)
         else norm_parts absolute ss (butlast out) climbs)
      else norm_parts absolute ss (out @ [s]) climbs)"

definition path_norm :: "string \<Rightarrow> string" where
  "path_norm s =
     (let unix = replace_char backslash slash s;
          absolute = starts_with [slash] unix;
          (out, climbs) = norm_parts absolute (split_on slash unix) [] 0;
          joined = join_with [slash] (replicate climbs ''..'' @ out)
      in if absolute then slash # joined else joined)"

definition is_windows_absolute :: "string \<Rightarrow> bool" where
  "is_windows_absolute s \<longleftrightarrow>
     (3 \<le> length s \<and> is_ascii_alphabetic (s ! 0) \<and> s ! 1 = CHR '':'' \<and> s ! 2 = slash) \<or>
     starts_with [slash, slash] s"

definition fold_path :: "libs \<Rightarrow> string \<Rightarrow> string" where
  "fold_path lb s = normalize_nfc lb (to_lower lb s)"

definition path_within :: "libs \<Rightarrow> string \<Rightarrow> string \<Rightarrow> bool" where
  "path_within lb token pat =
     (if folds_case lb \<or> is_windows_absolute (path_norm pat)
      then is_descendant_or_equal (fold_path lb token) (fold_path lb pat)
      else is_descendant_or_equal token pat)"

definition paths_overlap :: "libs \<Rightarrow> string \<Rightarrow> string \<Rightarrow> bool" where
  "paths_overlap lb a b \<longleftrightarrow> path_within lb a b \<or> path_within lb b a"

section \<open>Patterns\<close>

definition declassify_pair_ok :: "string \<Rightarrow> bool" where
  "declassify_pair_ok p =
     (case split_once CHR ''@'' p of
        None \<Rightarrow> False
      | Some (name, origin) \<Rightarrow>
          name \<noteq> [] \<and>
          (case rsplit_once CHR '':'' origin of
             None \<Rightarrow> False
           | Some (host, port) \<Rightarrow> host \<noteq> [] \<and> parse_unsigned u16_max port \<noteq> None))"

definition dead_pattern_reason :: "guard_class \<Rightarrow> string \<Rightarrow> reason option" where
  "dead_pattern_reason c p =
     (if p = ''*'' then None
      else if c = GDeclassify \<and> (CHR ''*'' \<in> set p \<or> (CHR ''@'' \<in> set p \<and> \<not> declassify_pair_ok p))
        then Some (DeadDeclassify p)
      else if c = GEffect \<and> \<not> effect_pattern_denotes p then Some (DeadEffect p)
      else if class_is_path_valued c then
        (if CHR ''*'' \<in> set p \<or> CHR ''?'' \<in> set p \<or> CHR ''['' \<in> set p then Some (DeadGlob p)
         else if \<not> (starts_with [slash] (path_norm p) \<or> is_windows_absolute (path_norm p)) then Some (DeadRelative p)
         else None)
      else None)"

definition pattern_matches :: "libs \<Rightarrow> guard_class \<Rightarrow> string \<Rightarrow> string option \<Rightarrow> bool" where
  "pattern_matches lb c p token =
     (if p = ''*'' then True
      else (case token of
              None \<Rightarrow> False
            | Some t \<Rightarrow>
                if class_is_path_valued c then path_within lb t p
                else if c = GDeclassify then
                  t = p \<or> (case split_once CHR ''@'' t of Some (name, _) \<Rightarrow> name = p | None \<Rightarrow> False)
                else t = p))"

definition rule_label :: "guard_class \<Rightarrow> string \<Rightarrow> string" where
  "rule_label c p = class_wire_name c @ '':'' @ p"

definition plain_shell_char :: "char \<Rightarrow> bool" where
  "plain_shell_char c \<longleftrightarrow> is_ascii_alphanumeric c \<or> c \<in> set ''_-./:@+=,~*''"

definition quotable :: "char \<Rightarrow> bool" where
  "quotable c \<longleftrightarrow> plain_shell_char c \<or> c = CHR '' '' \<or> c = CHR 0x27 \<or> c \<in> set ''()&#''"

definition hint_word :: "string \<Rightarrow> string" where
  "hint_word item = (if list_all plain_shell_char item then item else [CHR 0x22] @ item @ [CHR 0x22])"

definition narrowest_permit :: "operation \<Rightarrow> string option \<Rightarrow> string option" where
  "narrowest_permit p arg =
     (case use_axis_class p of
        None \<Rightarrow> map_option (\<lambda>e. rule_label GEffect (effect_name e)) (required_effect p)
      | Some c \<Rightarrow>
          (case arg of
             None \<Rightarrow> None
           | Some a \<Rightarrow>
               let item = (if class_is_path_valued c then replace_char backslash slash a else a)
               in if item = [] \<or> item = ''*'' \<or> \<not> list_all quotable item \<or> dead_pattern_reason c item \<noteq> None
                  then None else Some (rule_label c item)))"

section \<open>The policy\<close>

record guard_rule =
  g_class :: guard_class
  g_pattern :: string
  g_tier :: guard_tier

type_synonym guard_policy = "guard_rule list"

definition default_policy :: guard_policy where
  "default_policy =
     [\<lparr>g_class = GDeclassify, g_pattern = ''*'', g_tier = Guarded\<rparr>,
      \<lparr>g_class = GForeignC, g_pattern = ''*'', g_tier = Guarded\<rparr>,
      \<lparr>g_class = GForeignPython, g_pattern = ''*'', g_tier = Guarded\<rparr>]"

definition same_rule :: "guard_class \<Rightarrow> string \<Rightarrow> guard_rule \<Rightarrow> bool" where
  "same_rule c p r \<longleftrightarrow> g_class r = c \<and> g_pattern r = p"

fun set_tier :: "guard_class \<Rightarrow> string \<Rightarrow> guard_tier \<Rightarrow> guard_policy \<Rightarrow> guard_policy" where
  "set_tier c p t [] = []"
| "set_tier c p t (r # rs) = (if same_rule c p r then r\<lparr>g_tier := t\<rparr> # rs else r # set_tier c p t rs)"

definition policy_set :: "guard_class \<Rightarrow> string \<Rightarrow> guard_tier \<Rightarrow> guard_policy \<Rightarrow> bool \<times> guard_policy" where
  "policy_set c p t rules =
     (if list_ex (same_rule c p) rules then (True, set_tier c p t rules)
      else (False, sort_key (\<lambda>r. (class_rank (g_class r), g_pattern r))
                     (rules @ [\<lparr>g_class = c, g_pattern = p, g_tier = t\<rparr>])))"

definition loosened_by :: "guard_policy \<Rightarrow> guard_policy \<Rightarrow> bool" where
  "loosened_by before after \<longleftrightarrow>
     list_ex (\<lambda>r. case find (same_rule (g_class r) (g_pattern r)) after of
                    None \<Rightarrow> True | Some a \<Rightarrow> g_tier a < g_tier r) before"

definition policy_unset :: "guard_class \<Rightarrow> string \<Rightarrow> guard_policy \<Rightarrow> bool \<times> guard_policy" where
  "policy_unset c p rules =
     (let kept = filter (\<lambda>r. \<not> same_rule c p r) rules in (length kept \<noteq> length rules, kept))"

text \<open>The strictest of the rules that hit, the first of them when several are as strict.\<close>

definition consider_rule :: "(guard_tier \<times> string) option \<Rightarrow> guard_rule \<Rightarrow> (guard_tier \<times> string) option" where
  "consider_rule best r =
     (case best of
        None \<Rightarrow> Some (g_tier r, rule_label (g_class r) (g_pattern r))
      | Some (t, l) \<Rightarrow> if t < g_tier r then Some (g_tier r, rule_label (g_class r) (g_pattern r)) else best)"

definition strictest :: "guard_rule list \<Rightarrow> (guard_tier \<times> string) option" where
  "strictest rs = foldl consider_rule None rs"

definition rules_of :: "guard_class \<Rightarrow> guard_policy \<Rightarrow> guard_rule list" where
  "rules_of c rules = filter (\<lambda>r. g_class r = c) rules"

definition rules_for_use :: "libs \<Rightarrow> guard_policy \<Rightarrow> operation \<Rightarrow> string option \<Rightarrow> guard_rule list" where
  "rules_for_use lb rules p arg =
     (case use_axis_class p of
        None \<Rightarrow> [] | Some c \<Rightarrow> filter (\<lambda>r. pattern_matches lb c (g_pattern r) arg) (rules_of c rules))
     @ (case required_effect p of
          None \<Rightarrow> []
        | Some e \<Rightarrow> filter (\<lambda>r. pattern_matches lb GEffect (g_pattern r) (Some (effect_name e))) (rules_of GEffect rules))"

definition tier_for_use :: "libs \<Rightarrow> guard_policy \<Rightarrow> operation \<Rightarrow> string option \<Rightarrow> (guard_tier \<times> string) option" where
  "tier_for_use lb rules p arg = strictest (rules_for_use lb rules p arg)"

definition scope_classes :: "scopes \<Rightarrow> (guard_class \<times> string fset) list" where
  "scope_classes s =
     [(GFsRead, fs_read s), (GFsWrite, fs_write s), (GNet, net s), (GSecret, secrets s),
      (GDeclassify, declassify s), (GForeignC, foreign_c s), (GForeignPython, foreign_python s)]"

definition mint_hits :: "libs \<Rightarrow> guard_class \<Rightarrow> string \<Rightarrow> guard_rule \<Rightarrow> bool" where
  "mint_hits lb c item r =
     (if class_is_path_valued c \<and> g_pattern r \<noteq> ''*'' then paths_overlap lb item (g_pattern r)
      else pattern_matches lb c (g_pattern r) (Some item))"

definition rules_for_mint :: "libs \<Rightarrow> guard_policy \<Rightarrow> authority \<Rightarrow> guard_rule list" where
  "rules_for_mint lb rules a =
     concat (map (\<lambda>e. filter (\<lambda>r. pattern_matches lb GEffect (g_pattern r) (Some (effect_name e))) (rules_of GEffect rules))
               (sorted_elems (effects a)))
     @ concat (map (\<lambda>(c, items). concat (map (\<lambda>i. filter (mint_hits lb c i) (rules_of c rules)) (sorted_elems items)))
                 (scope_classes (a_scopes a)))
     @ concat (map (\<lambda>d. filter (\<lambda>r. pattern_matches lb GDevice (g_pattern r) (Some d)) (rules_of GDevice rules))
                 (sorted_elems (fmdom (device (a_scopes a)))))"

definition tier_for_mint :: "libs \<Rightarrow> guard_policy \<Rightarrow> authority \<Rightarrow> (guard_tier \<times> string) option" where
  "tier_for_mint lb rules a = strictest (rules_for_mint lb rules a)"

type_synonym guard_subset = "(guard_class \<times> string) list"

definition overlaps :: "string \<Rightarrow> string \<Rightarrow> bool" where
  "overlaps a b \<longleftrightarrow> a = ''*'' \<or> b = ''*'' \<or> a = b"

definition subset_hits :: "libs \<Rightarrow> guard_class \<Rightarrow> string \<Rightarrow> guard_rule \<Rightarrow> bool" where
  "subset_hits lb c pat r =
     (if c = GEffect then
        effect_pattern_denotes (g_pattern r) \<and> effect_pattern_denotes pat \<and> overlaps (g_pattern r) pat
      else if class_is_path_valued c then overlaps (g_pattern r) pat \<or> paths_overlap lb (g_pattern r) pat
      else overlaps (g_pattern r) pat)"

definition rules_for_item :: "libs \<Rightarrow> guard_policy \<Rightarrow> guard_class \<times> string \<Rightarrow> guard_rule list" where
  "rules_for_item lb rules = (\<lambda>(c, pat).
     filter (subset_hits lb c pat) (rules_of c rules)
     @ (case class_use_effect c of
          None \<Rightarrow> []
        | Some e \<Rightarrow> filter (\<lambda>r. overlaps (g_pattern r) (effect_name e)) (rules_of GEffect rules))
     @ (if c = GEffect then
          concat (map (\<lambda>other. case class_use_effect other of
                                  None \<Rightarrow> []
                                | Some e \<Rightarrow> if overlaps pat (effect_name e) then rules_of other rules else [])
                    EFFECT_BEARING_CLASSES)
        else []))"

definition tier_for_subset :: "libs \<Rightarrow> guard_policy \<Rightarrow> guard_subset \<Rightarrow> (guard_tier \<times> string) option" where
  "tier_for_subset lb rules sub = strictest (concat (map (rules_for_item lb rules) sub))"

definition guarded_classes :: "guard_policy \<Rightarrow> string list" where
  "guarded_classes rules = sorted_elems (fset_of_list (map (\<lambda>r. class_wire_name (g_class r)) rules))"

definition rule_json :: "guard_rule \<Rightarrow> json" where
  "rule_json r = obj_of [(''class'', JString (class_wire_name (g_class r))), (''pattern'', JString (g_pattern r)),
     (''tier'', JString (tier_wire_name (g_tier r)))]"

definition policy_to_json :: "guard_policy \<Rightarrow> json" where
  "policy_to_json rules = obj_of [(''version'', JInt 1), (''rules'', JArray (map rule_json rules))]"

definition rule_from_json :: "json \<Rightarrow> guard_rule option" where
  "rule_from_json v =
     (case (Option.bind (get_str v ''class'') class_from_wire, get_str v ''pattern'',
            Option.bind (get_str v ''tier'') tier_from_wire) of
        (Some c, Some p, Some t) \<Rightarrow> Some \<lparr>g_class = c, g_pattern = p, g_tier = t\<rparr>
      | _ \<Rightarrow> None)"

fun all_some :: "'a option list \<Rightarrow> 'a list option" where
  "all_some [] = Some []"
| "all_some (x # xs) = (case (x, all_some xs) of (Some y, Some ys) \<Rightarrow> Some (y # ys) | _ \<Rightarrow> None)"

definition policy_from_json :: "json \<Rightarrow> guard_policy option" where
  "policy_from_json v =
     (case Option.bind (json_get v ''rules'') as_array of
        None \<Rightarrow> None
      | Some arr \<Rightarrow> all_some (map rule_from_json arr))"

section \<open>Subsets\<close>

definition subset_item :: "string \<Rightarrow> (guard_class \<times> string) option" where
  "subset_item it =
     (case split_once CHR '':'' it of
        None \<Rightarrow> None
      | Some (c, p) \<Rightarrow> map_option (\<lambda>cl. (cl, p)) (class_from_wire c))"

definition subset_parse :: "string list \<Rightarrow> guard_subset option" where
  "subset_parse items = all_some (map subset_item items)"

definition subset_labels :: "guard_subset \<Rightarrow> string list" where
  "subset_labels sub = map (\<lambda>(c, p). rule_label c p) sub"

definition covers_use :: "libs \<Rightarrow> guard_subset \<Rightarrow> operation \<Rightarrow> string option \<Rightarrow> bool" where
  "covers_use lb sub p arg \<longleftrightarrow>
     (case use_axis_class p of
        None \<Rightarrow> False
      | Some cl \<Rightarrow> list_ex (\<lambda>(c, pat). c = cl \<and> pattern_matches lb cl pat arg) sub) \<or>
     (case required_effect p of
        None \<Rightarrow> False
      | Some e \<Rightarrow> list_ex (\<lambda>(c, pat). c = GEffect \<and> pattern_matches lb GEffect pat (Some (effect_name e))) sub)"

definition mint_within_subset :: "libs \<Rightarrow> guard_subset \<Rightarrow> authority \<Rightarrow> bool" where
  "mint_within_subset lb sub a \<longleftrightarrow>
     list_all (\<lambda>(cl, items). fBall items (\<lambda>i. list_ex (\<lambda>(c, p). c = cl \<and> pattern_matches lb cl p (Some i)) sub))
       (scope_classes (a_scopes a))"

section \<open>Laws\<close>

lemma tier_wire_round_trip [simp]: "tier_from_wire (tier_wire_name t) = Some t"
  by (cases t) (simp_all add: tier_from_wire_def)

lemma class_wire_round_trip [simp]: "class_from_wire (class_wire_name c) = Some c"
  by (cases c) (simp_all add: class_from_wire_def)

lemma class_wire_no_colon [simp]: "CHR '':'' \<notin> set (class_wire_name c)"
  by (cases c) simp_all

lemma rule_json_round_trip [simp]: "rule_from_json (rule_json r) = Some r"
  by (simp add: rule_from_json_def rule_json_def get_str_def json_get_obj_of)

lemma all_some_map: "(\<And>x. f (g x) = Some x) \<Longrightarrow> all_some (map (f \<circ> g) xs) = Some xs"
  by (induction xs) auto

lemma all_some_id: "all_some (map Some xs) = Some xs"
  by (induction xs) auto

lemma policy_json_round_trip: "policy_from_json (policy_to_json rules) = Some rules"
  by (simp add: policy_from_json_def policy_to_json_def json_get_obj_of comp_def all_some_id)

lemma subset_label_round_trip: "subset_parse (subset_labels sub) = Some sub"
  by (auto simp: subset_parse_def subset_labels_def rule_label_def subset_item_def comp_def all_some_id split_beta)

lemma consider_rule_spec:
  "consider_rule b r = Some (t, l) \<Longrightarrow>
     (t = g_tier r \<or> (\<exists>l'. b = Some (t, l'))) \<and> g_tier r \<le> t \<and> (\<forall>t' l'. b = Some (t', l') \<longrightarrow> t' \<le> t)"
  by (auto simp: consider_rule_def split: option.splits if_splits)

lemma foldl_consider_rule:
  "foldl consider_rule b rs = Some (t, l) \<Longrightarrow>
     (\<forall>r\<in>set rs. g_tier r \<le> t) \<and> (\<forall>t' l'. b = Some (t', l') \<longrightarrow> t' \<le> t) \<and>
     ((\<exists>r\<in>set rs. g_tier r = t \<and> rule_label (g_class r) (g_pattern r) = l) \<or> b = Some (t, l))"
proof (induction rs arbitrary: b)
  case (Cons r rs)
  have "consider_rule b r \<noteq> None" by (auto simp: consider_rule_def split: option.splits)
  then obtain t1 l1 where c: "consider_rule b r = Some (t1, l1)" by auto
  then have le: "g_tier r \<le> t1" "\<forall>t' l'. b = Some (t', l') \<longrightarrow> t' \<le> t1" using consider_rule_spec by blast+
  have src: "t1 = g_tier r \<and> l1 = rule_label (g_class r) (g_pattern r) \<or> b = Some (t1, l1)"
    using c by (auto simp: consider_rule_def split: option.splits if_splits)
  have "foldl consider_rule (consider_rule b r) rs = Some (t, l)" using Cons.prems by simp
  note IH = Cons.IH[OF this, unfolded c]
  have t1: "t1 \<le> t" using IH by blast
  have bound: "\<forall>x\<in>set (r # rs). g_tier x \<le> t" using IH le(1) t1 by (auto intro: order_trans)
  have start: "\<forall>t' l'. b = Some (t', l') \<longrightarrow> t' \<le> t" using le(2) t1 order_trans by blast
  have "(\<exists>x\<in>set rs. g_tier x = t \<and> rule_label (g_class x) (g_pattern x) = l) \<or> t1 = t \<and> l1 = l" using IH by simp
  then have "(\<exists>x\<in>set (r # rs). g_tier x = t \<and> rule_label (g_class x) (g_pattern x) = l) \<or> b = Some (t, l)"
    using src by auto
  then show ?case using bound start by blast
qed simp

lemma foldl_consider_rule_None: "foldl consider_rule b rs = None \<longleftrightarrow> b = None \<and> rs = []"
proof (induction rs arbitrary: b)
  case (Cons r rs)
  have "consider_rule b r \<noteq> None" by (auto simp: consider_rule_def split: option.splits)
  then show ?case using Cons by auto
qed simp

lemma strictest_Some:
  "strictest rs = Some (t, l) \<Longrightarrow>
     (\<forall>r\<in>set rs. g_tier r \<le> t) \<and> (\<exists>r\<in>set rs. g_tier r = t \<and> rule_label (g_class r) (g_pattern r) = l)"
  using foldl_consider_rule[of None rs t l] by (auto simp: strictest_def)

lemma strictest_None: "strictest rs = None \<longleftrightarrow> rs = []"
  by (simp add: strictest_def foldl_consider_rule_None)

lemma path_within_refl [simp]: "path_within lb p p"
  by (simp add: path_within_def path_order.le_refl)

lemma pattern_matches_self: "pattern_matches lb c p (Some p)"
  by (auto simp: pattern_matches_def)

section \<open>Properties\<close>

text \<open>A use is gated by the strictest rule that matches it: no matching rule is stricter than the tier it
  gets, the tier and the label are those of a matching rule of the policy, and a use is ungated only when
  no rule of its class and none of its effect matches.\<close>

theorem use_tier_is_strictest:
  "(\<forall>t l. tier_for_use lb rules p arg = Some (t, l) \<longrightarrow>
      (\<exists>r\<in>set rules. g_tier r = t \<and> l = rule_label (g_class r) (g_pattern r)) \<and>
      (\<forall>r\<in>set rules. (use_axis_class p = Some (g_class r) \<and> pattern_matches lb (g_class r) (g_pattern r) arg \<or>
         (\<exists>e. required_effect p = Some e \<and> g_class r = GEffect \<and>
            pattern_matches lb GEffect (g_pattern r) (Some (effect_name e)))) \<longrightarrow> g_tier r \<le> t)) \<and>
   (tier_for_use lb rules p arg = None \<longrightarrow>
      (\<forall>r\<in>set rules. use_axis_class p = Some (g_class r) \<longrightarrow> \<not> pattern_matches lb (g_class r) (g_pattern r) arg))"
  unfolding tier_for_use_def strictest_None
  by (auto dest!: strictest_Some simp: rules_for_use_def rules_of_def filter_empty_conv split: option.splits)

theorem use_tier_is_strictest_witness:
  "tier_for_use plain_libs default_policy OpDeclassify (Some ''KEY'') = Some (Guarded, ''declassify:*'') \<and>
   (\<exists>r\<in>set default_policy. g_tier r = Guarded \<and> ''declassify:*'' = rule_label (g_class r) (g_pattern r))"
proof -
  have "tier_for_use plain_libs default_policy OpDeclassify (Some ''KEY'') = Some (Guarded, ''declassify:*'')"
    by code_simp
  then show ?thesis using use_tier_is_strictest[of plain_libs default_policy OpDeclassify "Some ''KEY''"] by blast
qed

text \<open>A policy written as JSON reads back as itself, and a subset written as labels parses back as itself.\<close>

theorem policy_wire_round_trip:
  "policy_from_json (policy_to_json rules) = Some rules \<and> subset_parse (subset_labels sub) = Some sub"
  by (simp add: policy_json_round_trip subset_label_round_trip)

end
