(* ===== verification/Broker_State.thy ===== *)
theory Broker_State imports Audit_Log Guard_Policy begin

text \<open>
  The custody's state and its primitive steps, \<open>crates/delulu-broker/src/tree.rs\<close> (the record \<open>Broker\<close>, its
  clock, its audit numbering and its sink), with the state the other modules keep in it: the guard
  (\<open>guard.rs\<close>), the dead-men (\<open>deadman.rs\<close>) and the proposals (\<open>proposal.rs\<close>).

  What stands behind the trait objects \<open>IdSource\<close>, \<open>ClockSource\<close> and \<open>AuditSink\<close> and behind the operating
  system's randomness is one world of type \<open>'w\<close>, and \<open>'w env\<close> holds the operations on it. Every operation
  takes the environment and the broker and returns its result with the broker after it. Counters the
  source keeps in a \<open>u64\<close> are natural numbers, times in milliseconds integers, and the instants and
  durations of a dead-man nanoseconds.
\<close>

section \<open>Nodes\<close>

record holder =
  h_kind :: string
  h_desc :: string
  h_peer :: string

datatype node_state = Live | RevokedBy nat

datatype eff_state = EffLive | EffRevoked nat | EffExpired int int

record node =
  n_id :: grant_id
  n_parent :: "grant_id option"
  n_holder :: holder
  n_authority :: authority
  n_ttl :: "int option"
  n_state :: node_state
  n_created :: int
  n_audit_seq :: nat

definition effective_state_of :: "node \<Rightarrow> int \<Rightarrow> eff_state" where
  "effective_state_of n t =
     (case n_state n of
        RevokedBy by_seq \<Rightarrow> EffRevoked by_seq
      | Live \<Rightarrow> (case n_ttl n of Some ttl \<Rightarrow> if ttl \<le> t then EffExpired ttl t else EffLive | None \<Rightarrow> EffLive))"

section \<open>What the other modules keep\<close>

record permit =
  p_id :: string
  p_node :: grant_id
  p_subset :: guard_subset
  p_expires :: "int option"
  p_uses :: "nat option"

datatype req_status = Pending | Approved | DeniedWith string

record guard_request =
  rq_id :: string
  rq_node :: grant_id
  rq_subset :: guard_subset
  rq_why :: string
  rq_created :: int
  rq_status :: req_status

record guard_state =
  gs_policy :: guard_policy
  gs_poisoned :: bool
  gs_bypass :: bool
  gs_owner :: "string option"
  gs_permits :: "permit list"
  gs_requests :: "guard_request list"
  gs_next_permit :: nat
  gs_next_request :: nat

definition guard_state_new :: guard_state where
  "guard_state_new = \<lparr>gs_policy = default_policy, gs_poisoned = False, gs_bypass = False, gs_owner = None,
     gs_permits = [], gs_requests = [], gs_next_permit = 0, gs_next_request = 0\<rparr>"

record deadman =
  d_period :: nat
  d_deadline :: nat
  d_key_hash :: string
  d_armed_seq :: nat
  d_beats :: nat

record claim =
  c_program :: string
  c_call :: string
  c_at :: string
  c_code :: string

datatype proposal_status = PendingProposal | ApprovedAs grant_id grant_id | Rejected string

record proposal =
  pr_id :: string
  pr_node :: grant_id
  pr_asks :: authority
  pr_claim :: claim
  pr_created :: int
  pr_status :: proposal_status

record proposal_state =
  ps_items :: "proposal list"
  ps_next :: nat

section \<open>The broker\<close>

record 'w env =
  env_libs :: libs
  next_id :: "'w \<Rightarrow> grant_id \<times> 'w"
  read_clock :: "'w \<Rightarrow> int \<times> 'w"
  random_bytes :: "nat \<Rightarrow> 'w \<Rightarrow> bytes \<times> 'w"
  sink_append :: "audit_entry \<Rightarrow> 'w \<Rightarrow> (audit_error + audit_record) \<times> 'w"
  sink_next_seq :: "'w \<Rightarrow> nat option \<times> 'w"

record 'w broker =
  nodes :: "(grant_id, node) fmap"
  epoch :: nat
  audit_seq :: nat
  world :: 'w
  clock_high_water :: int
  sink_on :: bool
  broker_key :: "bytes option"
  redeemed :: "string fset"
  adopted :: "(string, grant_id \<times> int option) fmap"
  adopted_chain_fps :: "(grant_id, string list) fmap"
  revoked_adoption_fps :: "string fset"
  adoptions_poisoned :: bool
  guard :: guard_state
  strict_anchor :: "string option"
  deadmen :: "(grant_id, deadman) fmap"
  proposals :: proposal_state

definition with_sources :: "'w \<Rightarrow> 'w broker" where
  "with_sources w =
     \<lparr>nodes = fmempty, epoch = 0, audit_seq = 1, world = w, clock_high_water = i64_min, sink_on = False,
      broker_key = None, redeemed = {||}, adopted = fmempty, adopted_chain_fps = fmempty,
      revoked_adoption_fps = {||}, adoptions_poisoned = False, guard = guard_state_new, strict_anchor = None,
      deadmen = fmempty, proposals = \<lparr>ps_items = [], ps_next = 0\<rparr>\<rparr>"

text \<open>A sink installed: the world is the one that holds it.\<close>

definition set_sink :: "'w \<Rightarrow> 'w broker \<Rightarrow> 'w broker" where
  "set_sink w b = b\<lparr>sink_on := True, world := w\<rparr>"

definition set_key :: "bytes \<Rightarrow> 'w broker \<Rightarrow> 'w broker" where
  "set_key k b = b\<lparr>broker_key := Some k\<rparr>"

definition require_anchored_roots :: "string \<Rightarrow> 'w broker \<Rightarrow> 'w broker" where
  "require_anchored_roots anchor b = b\<lparr>strict_anchor := Some anchor\<rparr>"

definition bump_epoch :: "'w broker \<Rightarrow> 'w broker" where
  "bump_epoch b = b\<lparr>epoch := Suc (epoch b)\<rparr>"

section \<open>Sequence numbers, time and the record\<close>

definition take_seq :: "'w env \<Rightarrow> 'w broker \<Rightarrow> nat \<times> 'w broker" where
  "take_seq E b =
     (let b1 = (if sink_on b then
                  (case sink_next_seq E (world b) of
                     (fl, w) \<Rightarrow> b\<lparr>world := w, audit_seq := (case fl of None \<Rightarrow> audit_seq b | Some f \<Rightarrow> max (audit_seq b) f)\<rparr>)
                else b)
      in (audit_seq b1, b1\<lparr>audit_seq := Suc (audit_seq b1)\<rparr>))"

text \<open>The clock, ratcheted: time never goes backwards for the broker.\<close>

definition now :: "'w env \<Rightarrow> 'w broker \<Rightarrow> int \<times> 'w broker" where
  "now E b =
     (case read_clock E (world b) of
        (reading, w) \<Rightarrow>
          let t = max reading (clock_high_water b)
          in (t, b\<lparr>world := w, clock_high_water := t\<rparr>))"

definition record_op ::
  "'w env \<Rightarrow> nat \<Rightarrow> string \<Rightarrow> string option \<Rightarrow> string option \<Rightarrow> json option \<Rightarrow> string \<Rightarrow> string option \<Rightarrow>
     'w broker \<Rightarrow> 'w broker" where
  "record_op E seq action actor target auth decision sp b =
     (if \<not> sink_on b then b
      else (case now E b of
              (ts, b1) \<Rightarrow>
                let e = \<lparr>e_seq = seq, e_ts = ts, e_actor_node = actor, e_action = action, e_target = target,
                         e_authority = auth, e_span = sp, e_decision = decision\<rparr>
                in b1\<lparr>world := snd (sink_append E e (world b1))\<rparr>))"

definition take_id :: "'w env \<Rightarrow> 'w broker \<Rightarrow> grant_id \<times> 'w broker" where
  "take_id E b = (case next_id E (world b) of (i, w) \<Rightarrow> (i, b\<lparr>world := w\<rparr>))"

definition take_random :: "'w env \<Rightarrow> nat \<Rightarrow> 'w broker \<Rightarrow> bytes \<times> 'w broker" where
  "take_random E k b = (case random_bytes E k (world b) of (bs, w) \<Rightarrow> (bs, b\<lparr>world := w\<rparr>))"

definition ensure_key :: "'w env \<Rightarrow> 'w broker \<Rightarrow> bytes \<times> 'w broker" where
  "ensure_key E b =
     (case broker_key b of
        Some k \<Rightarrow> (k, b)
      | None \<Rightarrow> (case take_random E 32 b of (k, b1) \<Rightarrow> (k, b1\<lparr>broker_key := Some k\<rparr>)))"

text \<open>A fresh sequence number and its record: what most operations end with.\<close>

definition log_op ::
  "'w env \<Rightarrow> string \<Rightarrow> string option \<Rightarrow> string option \<Rightarrow> json option \<Rightarrow> string \<Rightarrow> string option \<Rightarrow>
     'w broker \<Rightarrow> nat \<times> 'w broker" where
  "log_op E action actor target auth decision sp b =
     (case take_seq E b of (seq, b1) \<Rightarrow> (seq, record_op E seq action actor target auth decision sp b1))"

definition record_root_policy_mode :: "'w env \<Rightarrow> string \<Rightarrow> string option \<Rightarrow> 'w broker \<Rightarrow> 'w broker" where
  "record_root_policy_mode E mode anchor b =
     (if \<not> sink_on b then b
      else snd (log_op E ''root-policy-mode'' None (Some mode)
                  (Some (obj_of [(''mode'', JString mode),
                                 (''anchor'', (case anchor of Some a \<Rightarrow> JString a | None \<Rightarrow> JNull))]))
                  ''allow'' None b))"

definition record_plugin_signature :: "'w env \<Rightarrow> grant_id \<Rightarrow> string \<Rightarrow> 'w broker \<Rightarrow> 'w broker" where
  "record_plugin_signature E i signer b =
     (if \<not> sink_on b then b
      else snd (log_op E ''plugin-signature'' (Some i) None (Some (obj_of [(''signed_by'', JString signer)])) ''allow'' None b))"

section \<open>What the primitive steps leave alone\<close>

text \<open>Everything but the world, the clock's high water and the sequence numbers.\<close>

definition same_core :: "'w broker \<Rightarrow> 'w broker \<Rightarrow> bool" where
  "same_core b c \<longleftrightarrow>
     nodes c = nodes b \<and> epoch c = epoch b \<and> sink_on c = sink_on b \<and> broker_key c = broker_key b \<and>
     redeemed c = redeemed b \<and> adopted c = adopted b \<and> adopted_chain_fps c = adopted_chain_fps b \<and>
     revoked_adoption_fps c = revoked_adoption_fps b \<and> adoptions_poisoned c = adoptions_poisoned b \<and>
     guard c = guard b \<and> strict_anchor c = strict_anchor b \<and> deadmen c = deadmen b \<and> proposals c = proposals b"

lemma now_core [simp]: "same_core b (snd (now E b))"
  by (simp add: now_def same_core_def Let_def split: prod.splits)

lemma take_seq_core [simp]: "same_core b (snd (take_seq E b))"
  by (simp add: take_seq_def same_core_def Let_def split: prod.splits)

lemma record_op_core [simp]: "same_core b (record_op E q a x y z d s b)"
  using now_core[of b E] by (simp add: record_op_def same_core_def Let_def split_beta)

lemma take_id_core [simp]: "same_core b (snd (take_id E b))"
  by (simp add: take_id_def same_core_def split: prod.splits)

lemma take_random_core [simp]: "same_core b (snd (take_random E k b))"
  by (simp add: take_random_def same_core_def split: prod.splits)

lemma same_core_trans: "same_core a b \<Longrightarrow> same_core b c \<Longrightarrow> same_core a c"
  by (simp add: same_core_def)

lemma log_op_core [simp]: "same_core b (snd (log_op E a x y z d s b))"
  using same_core_trans[OF take_seq_core record_op_core]
  by (simp add: log_op_def split_beta)

lemma core_frame:
  assumes "same_core b c"
  shows "nodes c = nodes b" "epoch c = epoch b" "sink_on c = sink_on b" "broker_key c = broker_key b"
    "redeemed c = redeemed b" "adopted c = adopted b" "adopted_chain_fps c = adopted_chain_fps b"
    "revoked_adoption_fps c = revoked_adoption_fps b" "adoptions_poisoned c = adoptions_poisoned b"
    "guard c = guard b" "strict_anchor c = strict_anchor b" "deadmen c = deadmen b" "proposals c = proposals b"
  using assms by (simp_all add: same_core_def)

lemmas step_frame [simp] =
  core_frame[OF now_core] core_frame[OF take_seq_core] core_frame[OF record_op_core]
  core_frame[OF take_id_core] core_frame[OF take_random_core] core_frame[OF log_op_core]

section \<open>The clock and the numbering only advance\<close>

definition advances :: "'w broker \<Rightarrow> 'w broker \<Rightarrow> bool" where
  "advances b c \<longleftrightarrow> clock_high_water b \<le> clock_high_water c \<and> audit_seq b \<le> audit_seq c"

lemma advances_refl [simp]: "advances b b"
  by (simp add: advances_def)

lemma advances_trans: "advances a b \<Longrightarrow> advances b c \<Longrightarrow> advances a c"
  by (auto simp: advances_def)

lemma now_advances [simp]: "advances b (snd (now E b))"
  by (simp add: advances_def now_def Let_def split: prod.splits)

lemma now_high_water [simp]: "clock_high_water (snd (now E b)) = fst (now E b)"
  by (simp add: now_def Let_def split: prod.splits)

lemma now_ge: "clock_high_water b \<le> fst (now E b)"
  by (simp add: now_def Let_def split: prod.splits)

lemma now_seq [simp]: "audit_seq (snd (now E b)) = audit_seq b"
  by (simp add: now_def Let_def split: prod.splits)

lemma take_seq_advances [simp]: "advances b (snd (take_seq E b))"
  by (auto simp: advances_def take_seq_def Let_def split: prod.splits option.splits)

lemma take_seq_fresh: "audit_seq b \<le> fst (take_seq E b)" "audit_seq (snd (take_seq E b)) = Suc (fst (take_seq E b))"
  by (auto simp: take_seq_def Let_def split: prod.splits option.splits)

lemma record_op_advances [simp]: "advances b (record_op E q a x y z d s b)"
  using now_advances[of b E] by (simp add: record_op_def advances_def Let_def split_beta)

lemma record_op_seq [simp]: "audit_seq (record_op E q a x y z d s b) = audit_seq b"
  by (simp add: record_op_def Let_def split_beta)

lemma take_id_advances [simp]: "advances b (snd (take_id E b))"
  by (simp add: advances_def take_id_def split: prod.splits)

lemma take_id_seq [simp]: "audit_seq (snd (take_id E b)) = audit_seq b"
  by (simp add: take_id_def split: prod.splits)

lemma take_random_advances [simp]: "advances b (snd (take_random E k b))"
  by (simp add: advances_def take_random_def split: prod.splits)

lemma log_op_advances [simp]: "advances b (snd (log_op E a x y z d s b))"
  using advances_trans[OF take_seq_advances record_op_advances] by (simp add: log_op_def split_beta)

end
