(* ===== verification/Tree.thy ===== *)
theory Tree imports Broker_State begin

text \<open>
  The attenuation tree, \<open>crates/delulu-broker/src/tree.rs\<close>: issuing a root, deriving a child, revoking a
  subtree, and the walks that read a node's place in it. The tree is the map \<open>nodes\<close>; a node names its
  parent. The walks up of \<open>effective_state_inherited\<close> and \<open>run_under\<close> stop after 1024 nodes, as the source
  does. The two loops without a bound, \<open>is_self_or_descendant\<close> and \<open>subtree_inclusive\<close>, carry fuel, one
  more than the number of nodes, and answer \<open>None\<close> when it runs out: \<open>Tree_Inv\<close> proves it never does.
\<close>

section \<open>Reading the tree\<close>

definition MAX_WALK :: nat where "MAX_WALK = 1024"

fun eff_walk :: "nat \<Rightarrow> (grant_id, node) fmap \<Rightarrow> grant_id option \<Rightarrow> int \<Rightarrow> eff_state option" where
  "eff_walk 0 ns cur t = Some (EffExpired 0 t)"
| "eff_walk (Suc k) ns cur t =
     (case cur of
        None \<Rightarrow> Some EffLive
      | Some i \<Rightarrow>
          (case fmlookup ns i of
             None \<Rightarrow> None
           | Some n \<Rightarrow> if effective_state_of n t = EffLive then eff_walk k ns (n_parent n) t
                       else Some (effective_state_of n t)))"

definition effective_state_inherited :: "grant_id \<Rightarrow> int \<Rightarrow> 'w broker \<Rightarrow> eff_state option" where
  "effective_state_inherited i t b = eff_walk MAX_WALK (nodes b) (Some i) t"

definition effective_state :: "'w env \<Rightarrow> grant_id \<Rightarrow> 'w broker \<Rightarrow> eff_state option \<times> 'w broker" where
  "effective_state E i b = (case now E b of (t, b1) \<Rightarrow> (effective_state_inherited i t b1, b1))"

fun run_under_walk :: "nat \<Rightarrow> (grant_id, node) fmap \<Rightarrow> grant_id \<Rightarrow> node \<Rightarrow> grant_id option \<Rightarrow> grant_id option" where
  "run_under_walk 0 ns anc cur below = None"
| "run_under_walk (Suc k) ns anc cur below =
     (if n_id cur = anc then Some (case below of Some i \<Rightarrow> i | None \<Rightarrow> n_id cur)
      else (case n_parent cur of
              None \<Rightarrow> None
            | Some p \<Rightarrow> (case fmlookup ns p of
                            None \<Rightarrow> None
                          | Some up \<Rightarrow> run_under_walk k ns anc up (Some (n_id cur)))))"

definition run_under :: "grant_id \<Rightarrow> grant_id \<Rightarrow> 'w broker \<Rightarrow> grant_id option" where
  "run_under anc i b =
     (case fmlookup (nodes b) i of None \<Rightarrow> None | Some n \<Rightarrow> run_under_walk MAX_WALK (nodes b) anc n None)"

fun climb :: "nat \<Rightarrow> (grant_id, node) fmap \<Rightarrow> grant_id option \<Rightarrow> grant_id \<Rightarrow> bool option" where
  "climb 0 ns cur a = (case cur of None \<Rightarrow> Some False | Some i \<Rightarrow> None)"
| "climb (Suc k) ns cur a =
     (case cur of
        None \<Rightarrow> Some False
      | Some i \<Rightarrow> if i = a then Some True else climb k ns (Option.bind (fmlookup ns i) n_parent) a)"

definition walk_fuel :: "(grant_id, node) fmap \<Rightarrow> nat" where
  "walk_fuel ns = Suc (fcard (fmdom ns))"

definition is_self_or_descendant :: "grant_id \<Rightarrow> grant_id \<Rightarrow> 'w broker \<Rightarrow> bool option" where
  "is_self_or_descendant i a b = climb (walk_fuel (nodes b)) (nodes b) (Some i) a"

definition children_of :: "(grant_id, node) fmap \<Rightarrow> grant_id \<Rightarrow> grant_id list" where
  "children_of ns i = sort (map n_id (filter (\<lambda>n. n_parent n = Some i) (fm_values ns)))"

fun subtree_walk :: "nat \<Rightarrow> (grant_id, node) fmap \<Rightarrow> grant_id list \<Rightarrow> grant_id list \<Rightarrow> grant_id list option" where
  "subtree_walk 0 ns out todo = (case todo of [] \<Rightarrow> Some out | i # todo' \<Rightarrow> None)"
| "subtree_walk (Suc k) ns out todo =
     (case todo of
        [] \<Rightarrow> Some out
      | i # todo' \<Rightarrow> subtree_walk k ns (out @ [i]) (todo' @ children_of ns i))"

definition subtree_inclusive :: "grant_id \<Rightarrow> 'w broker \<Rightarrow> grant_id list option" where
  "subtree_inclusive target b = subtree_walk (walk_fuel (nodes b)) (nodes b) [] [target]"

definition inspect :: "grant_id \<Rightarrow> 'w broker \<Rightarrow> node option" where
  "inspect i b = fmlookup (nodes b) i"

definition nodes_list :: "'w broker \<Rightarrow> node list" where
  "nodes_list b = sort_key n_id (fm_values (nodes b))"

definition unjustified_root_nodes :: "'w broker \<Rightarrow> grant_id fset" where
  "unjustified_root_nodes b =
     (let adopted_ids = fst |`| fmran (adopted b)
      in n_id |`| ffilter (\<lambda>n. n_parent n = None \<and> n_id n |\<notin>| adopted_ids) (fmran (nodes b)))"

definition state_json :: "node_state \<Rightarrow> json" where
  "state_json st =
     (case st of Live \<Rightarrow> JString ''live''
      | RevokedBy by_seq \<Rightarrow> obj_of [(''revoked'', obj_of [(''by_seq'', JInt (int by_seq))])])"

definition node_json :: "libs \<Rightarrow> node \<Rightarrow> json" where
  "node_json lb n =
     obj_of [(''audit_seq'', JInt (int (n_audit_seq n))), (''authority'', authority_to_json lb (n_authority n)),
             (''created'', JInt (n_created n)), (''id'', JString (n_id n)),
             (''parent'', (case n_parent n of Some p \<Rightarrow> JString p | None \<Rightarrow> JNull)),
             (''state'', state_json (n_state n)),
             (''ttl'', (case n_ttl n of Some t \<Rightarrow> JInt t | None \<Rightarrow> JNull))]"

definition outcome_json :: "libs \<Rightarrow> 'w broker \<Rightarrow> json" where
  "outcome_json lb b =
     obj_of [(''epoch'', JInt (int (epoch b))), (''nodes'', JArray (map (node_json lb) (fm_values (nodes b))))]"

section \<open>Issuing\<close>

definition put_node :: "node \<Rightarrow> 'w broker \<Rightarrow> 'w broker" where
  "put_node n b = b\<lparr>nodes := fmupd (n_id n) n (nodes b)\<rparr>"

definition issue :: "'w env \<Rightarrow> holder \<Rightarrow> authority \<Rightarrow> int option \<Rightarrow> 'w broker \<Rightarrow> grant_id \<times> 'w broker" where
  "issue E h a ttl b =
     (let a1 = canonicalized a;
          (i, b1) = take_id E b;
          (seq, b2) = take_seq E b1;
          (t, b3) = now E b2;
          n = \<lparr>n_id = i, n_parent = None, n_holder = h, n_authority = a1, n_ttl = ttl, n_state = Live,
               n_created = t, n_audit_seq = seq\<rparr>;
          b4 = put_node n b3
      in (i, record_op E seq ''issue'' (Some i) None (Some (authority_to_json (env_libs E) a1)) ''allow'' None b4))"

definition issue_root ::
  "'w env \<Rightarrow> holder \<Rightarrow> authority \<Rightarrow> int option \<Rightarrow> 'w broker \<Rightarrow> (denial + grant_id) \<times> 'w broker" where
  "issue_root E h a ttl b =
     (case strict_anchor b of
        Some anchor \<Rightarrow> (Inl (StrictRootRequiresAnchor anchor), b)
      | None \<Rightarrow> (case issue E h a ttl b of (i, b1) \<Rightarrow> (Inr i, b1)))"

section \<open>Deriving a child\<close>

definition inherit_budget :: "grant_id \<Rightarrow> authority \<Rightarrow> 'w broker \<Rightarrow> authority" where
  "inherit_budget parent a b =
     (if budget (a_scopes a) = None then
        (case fmlookup (nodes b) parent of
           Some p \<Rightarrow> a\<lparr>a_scopes := (a_scopes a)\<lparr>budget := budget (a_scopes (n_authority p))\<rparr>\<rparr>
         | None \<Rightarrow> a)
      else a)"

definition refuse :: "'w env \<Rightarrow> denial \<Rightarrow> 'w broker \<Rightarrow> (nat \<times> (denial + 'a)) \<times> 'w broker" where
  "refuse E d b = (case take_seq E b of (seq, b1) \<Rightarrow> ((seq, Inl d), b1))"

definition attenuate_core ::
  "'w env \<Rightarrow> grant_id \<Rightarrow> authority \<Rightarrow> holder \<Rightarrow> int option \<Rightarrow> 'w broker \<Rightarrow> (nat \<times> (denial + grant_id)) \<times> 'w broker" where
  "attenuate_core E parent a0 h ttl b0 =
     (let a = inherit_budget parent (canonicalized a0) b0;
          (t, b) = now E b0
      in case fmlookup (nodes b) parent of
           None \<Rightarrow> refuse E (UnknownNode parent) b
         | Some p \<Rightarrow>
             (case (case effective_state_inherited parent t b of Some st \<Rightarrow> st | None \<Rightarrow> EffExpired 0 t) of
                EffRevoked by_seq \<Rightarrow> refuse E (Revoked parent by_seq) b
              | EffExpired ttl' t' \<Rightarrow> refuse E (Expired parent ttl' t') b
              | EffLive \<Rightarrow>
                  (case attenuation_check a (n_authority p) of
                     Inl meet \<Rightarrow> refuse E (Attenuation parent a meet) b
                   | Inr _ \<Rightarrow>
                       let (i, b1) = take_id E b;
                           (seq, b2) = take_seq E b1;
                           n = \<lparr>n_id = i, n_parent = Some parent, n_holder = h, n_authority = a, n_ttl = ttl,
                                n_state = Live, n_created = t, n_audit_seq = seq\<rparr>
                       in ((seq, Inr i), put_node n b2))))"

definition attenuate ::
  "'w env \<Rightarrow> grant_id \<Rightarrow> authority \<Rightarrow> holder \<Rightarrow> int option \<Rightarrow> 'w broker \<Rightarrow> (denial + grant_id) \<times> 'w broker" where
  "attenuate E parent a0 h ttl b =
     (let a = inherit_budget parent (canonicalized a0) b;
          j = Some (authority_to_json (env_libs E) a)
      in case attenuate_core E parent a h ttl b of
           ((seq, Inr child), b1) \<Rightarrow>
             (Inr child, record_op E seq ''attenuate'' (Some parent) (Some child) j ''allow'' None b1)
         | ((seq, Inl d), b1) \<Rightarrow>
             (Inl d, record_op E seq ''attenuate'' (Some parent) None j ''deny'' None b1))"

section \<open>Revoking\<close>

record revoke_outcome =
  ro_by_seq :: nat
  ro_newly_revoked :: "grant_id list"
  ro_epoch :: nat

text \<open>\<open>delulu_diag::REVOCATION_BOUND\<close>; the dash and the sign are the bytes of their UTF-8 text.\<close>

definition REVOCATION_BOUND :: string where
  "REVOCATION_BOUND =
     ''synchronous class '' @ [CHR 0xE2, CHR 0x80, CHR 0x94] @ '' before the next use; epoch class ''
     @ [CHR 0xE2, CHR 0x80, CHR 0x94] @ '' within one epoch interval ('' @ [CHR 0xE2, CHR 0x89, CHR 0xA4]
     @ '' 50 ms default)''"

definition mark_revoked :: "nat \<Rightarrow> grant_id \<Rightarrow> (grant_id, node) fmap \<Rightarrow> (grant_id, node) fmap" where
  "mark_revoked seq i ns =
     (case fmlookup ns i of
        Some n \<Rightarrow> if n_state n = Live then fmupd i (n\<lparr>n_state := RevokedBy seq\<rparr>) ns else ns
      | None \<Rightarrow> ns)"

definition is_live_node :: "(grant_id, node) fmap \<Rightarrow> grant_id \<Rightarrow> bool" where
  "is_live_node ns i = (case fmlookup ns i of Some n \<Rightarrow> n_state n = Live | None \<Rightarrow> False)"

text \<open>The loop over the subtree: the map with every live node of it marked, and the nodes that were live.\<close>

fun mark_all :: "nat \<Rightarrow> grant_id list \<Rightarrow> (grant_id, node) fmap \<Rightarrow> grant_id list \<times> (grant_id, node) fmap" where
  "mark_all seq [] ns = ([], ns)"
| "mark_all seq (i # is) ns =
     (case mark_all seq is (mark_revoked seq i ns) of
        (newly, ns') \<Rightarrow> (if is_live_node ns i then i # newly else newly, ns'))"

definition revoke_subtree :: "nat \<Rightarrow> grant_id list \<Rightarrow> 'w broker \<Rightarrow> revoke_outcome \<times> 'w broker" where
  "revoke_subtree seq subtree b =
     (case mark_all seq subtree (nodes b) of
        (newly, ns) \<Rightarrow>
          let newly' = sort newly;
              retired = concat (map (\<lambda>i. case fmlookup (adopted_chain_fps b) i of Some fps \<Rightarrow> fps | None \<Rightarrow> []) newly')
          in (\<lparr>ro_by_seq = seq, ro_newly_revoked = newly', ro_epoch = epoch b\<rparr>,
              b\<lparr>nodes := ns, revoked_adoption_fps := revoked_adoption_fps b |\<union>| fset_of_list retired\<rparr>))"

definition revoke_core ::
  "'w env \<Rightarrow> grant_id \<Rightarrow> grant_id \<Rightarrow> 'w broker \<Rightarrow> (nat \<times> (denial + revoke_outcome)) \<times> 'w broker" where
  "revoke_core E caller target b =
     (if caller |\<notin>| fmdom (nodes b) then refuse E (UnknownNode caller) b
      else if target |\<notin>| fmdom (nodes b) then refuse E (UnknownNode target) b
      else if is_self_or_descendant target caller b \<noteq> Some True then refuse E (NotRevocable caller target) b
      else
        (case take_seq E b of
           (seq, b1) \<Rightarrow>
             let b2 = bump_epoch b1;
                 subtree = (case subtree_inclusive target b2 of Some xs \<Rightarrow> xs | None \<Rightarrow> []);
                 (out, b3) = revoke_subtree seq subtree b2
             in ((seq, Inr out), b3)))"

definition revoke_payload :: "bool \<Rightarrow> string option \<Rightarrow> json option" where
  "revoke_payload ok why =
     (let base = (if ok then [(''revocation_takes_effect'', JString REVOCATION_BOUND)] else [])
      in case why of
           None \<Rightarrow> (if ok then Some (obj_of base) else None)
         | Some w \<Rightarrow> Some (obj_of (base @ [(''why'', JString (bounded_text w 1024))])))"

definition revoke_saying ::
  "'w env \<Rightarrow> grant_id \<Rightarrow> grant_id \<Rightarrow> string option \<Rightarrow> 'w broker \<Rightarrow> (denial + revoke_outcome) \<times> 'w broker" where
  "revoke_saying E caller target why b =
     (case revoke_core E caller target b of
        ((seq, res), b1) \<Rightarrow>
          (res, record_op E seq ''revoke'' (Some caller) (Some target) (revoke_payload (\<not> isl res) why)
                  (if isl res then ''deny'' else ''allow'') None b1))"

definition revoke :: "'w env \<Rightarrow> grant_id \<Rightarrow> grant_id \<Rightarrow> 'w broker \<Rightarrow> (denial + revoke_outcome) \<times> 'w broker" where
  "revoke E caller target b = revoke_saying E caller target None b"

section \<open>Withdrawing a node, and the books of tokens and certificates\<close>

definition withdraw_unrecorded :: "grant_id \<Rightarrow> 'w broker \<Rightarrow> bool \<times> 'w broker" where
  "withdraw_unrecorded i b =
     (if fBex (fmran (nodes b)) (\<lambda>n. n_parent n = Some i) then (False, b)
      else (i |\<in>| fmdom (nodes b),
            b\<lparr>adopted := fmfilter (\<lambda>fp. case fmlookup (adopted b) fp of Some (n, _) \<Rightarrow> n \<noteq> i | None \<Rightarrow> False) (adopted b),
              adopted_chain_fps := fmdrop i (adopted_chain_fps b),
              nodes := fmdrop i (nodes b)\<rparr>))"

definition is_redeemed :: "string \<Rightarrow> 'w broker \<Rightarrow> bool" where
  "is_redeemed nonce b \<longleftrightarrow> nonce |\<in>| redeemed b"

definition mark_redeemed :: "string \<Rightarrow> 'w broker \<Rightarrow> 'w broker" where
  "mark_redeemed nonce b = b\<lparr>redeemed := finsert nonce (redeemed b)\<rparr>"

definition unmark_redeemed :: "string \<Rightarrow> 'w broker \<Rightarrow> 'w broker" where
  "unmark_redeemed nonce b = b\<lparr>redeemed := redeemed b |-| {|nonce|}\<rparr>"

definition adopted_node :: "string \<Rightarrow> 'w broker \<Rightarrow> (grant_id \<times> int option) option" where
  "adopted_node fp b = fmlookup (adopted b) fp"

definition mark_adopted :: "string \<Rightarrow> grant_id \<Rightarrow> int option \<Rightarrow> 'w broker \<Rightarrow> 'w broker" where
  "mark_adopted fp i window b = b\<lparr>adopted := fmupd fp (i, window) (adopted b)\<rparr>"

definition chain_hits_revoked_adoption :: "string list \<Rightarrow> 'w broker \<Rightarrow> bool" where
  "chain_hits_revoked_adoption fps b \<longleftrightarrow> (\<exists>fp\<in>set fps. fp |\<in>| revoked_adoption_fps b)"

definition revoked_adoption_fps_snapshot :: "'w broker \<Rightarrow> string list" where
  "revoked_adoption_fps_snapshot b = sorted_elems (revoked_adoption_fps b)"

definition restore_revoked_adoption_fps :: "string list \<Rightarrow> 'w broker \<Rightarrow> 'w broker" where
  "restore_revoked_adoption_fps fps b = b\<lparr>revoked_adoption_fps := revoked_adoption_fps b |\<union>| fset_of_list fps\<rparr>"

definition poison_adoptions :: "'w broker \<Rightarrow> 'w broker" where
  "poison_adoptions b = b\<lparr>adoptions_poisoned := True\<rparr>"

definition record_adopted_chain :: "grant_id \<Rightarrow> string list \<Rightarrow> 'w broker \<Rightarrow> 'w broker" where
  "record_adopted_chain i fps b = b\<lparr>adopted_chain_fps := fmupd i fps (adopted_chain_fps b)\<rparr>"

definition extend_ttl :: "grant_id \<Rightarrow> int \<Rightarrow> 'w broker \<Rightarrow> int option \<times> 'w broker" where
  "extend_ttl i deadline b =
     (case fmlookup (nodes b) i of
        None \<Rightarrow> (None, b)
      | Some n \<Rightarrow>
          (case n_ttl n of
             Some t \<Rightarrow> if deadline \<le> t then (Some t, b)
                       else (Some deadline, b\<lparr>nodes := fmupd i (n\<lparr>n_ttl := Some deadline\<rparr>) (nodes b)\<rparr>)
           | None \<Rightarrow> (Some deadline, b\<lparr>nodes := fmupd i (n\<lparr>n_ttl := Some deadline\<rparr>) (nodes b)\<rparr>)))"

definition restore_ttl :: "grant_id \<Rightarrow> int option \<Rightarrow> 'w broker \<Rightarrow> 'w broker" where
  "restore_ttl i ttl b =
     (case fmlookup (nodes b) i of
        Some n \<Rightarrow> b\<lparr>nodes := fmupd i (n\<lparr>n_ttl := ttl\<rparr>) (nodes b)\<rparr> | None \<Rightarrow> b)"

definition set_holder_peer :: "grant_id \<Rightarrow> string \<Rightarrow> 'w broker \<Rightarrow> 'w broker" where
  "set_holder_peer i peer b =
     (case fmlookup (nodes b) i of
        Some n \<Rightarrow> b\<lparr>nodes := fmupd i (n\<lparr>n_holder := (n_holder n)\<lparr>h_peer := peer\<rparr>\<rparr>) (nodes b)\<rparr> | None \<Rightarrow> b)"

end
