(* ===== verification/Tree_Inv.thy ===== *)
theory Tree_Inv imports Tree begin

text \<open>
  What the attenuation tree keeps. On the map of nodes: every child is within its parent and younger than
  it, and revocation is closed downwards. From that the walks of \<open>tree.rs\<close> end and mean what they say:
  \<open>climb\<close> is the ancestor relation, \<open>subtree_walk\<close> lists a subtree without repetition, \<open>eff_walk\<close> answers
  \<open>Live\<close> exactly when the whole ancestry is live. Fresh identifiers are the environment's promise: the
  locale \<open>fresh_world\<close>.
\<close>

section \<open>Well-formed trees\<close>

definition tree_ok :: "(grant_id, node) fmap \<Rightarrow> bool" where
  "tree_ok ns \<longleftrightarrow>
     (\<forall>i n. fmlookup ns i = Some n \<longrightarrow> n_id n = i \<and> is_canonical (n_authority n)) \<and>
     (\<forall>i n p. fmlookup ns i = Some n \<longrightarrow> n_parent n = Some p \<longrightarrow>
        (\<exists>m. fmlookup ns p = Some m \<and> n_audit_seq m < n_audit_seq n \<and>
             attenuates (n_authority n) (n_authority m) \<and> (n_state m \<noteq> Live \<longrightarrow> n_state n \<noteq> Live)))"

lemma tree_ok_id: "tree_ok ns \<Longrightarrow> fmlookup ns i = Some n \<Longrightarrow> n_id n = i"
  by (auto simp: tree_ok_def)

lemma tree_ok_canonical: "tree_ok ns \<Longrightarrow> fmlookup ns i = Some n \<Longrightarrow> is_canonical (n_authority n)"
  by (auto simp: tree_ok_def)

lemma tree_ok_parent:
  assumes "tree_ok ns" "fmlookup ns i = Some n" "n_parent n = Some p"
  obtains m where "fmlookup ns p = Some m" "n_audit_seq m < n_audit_seq n"
    "attenuates (n_authority n) (n_authority m)" "n_state m \<noteq> Live \<longrightarrow> n_state n \<noteq> Live"
  using assms unfolding tree_ok_def by blast

lemma tree_ok_parent_dom: "tree_ok ns \<Longrightarrow> fmlookup ns i = Some n \<Longrightarrow> n_parent n = Some p \<Longrightarrow> p |\<in>| fmdom ns"
  by (erule (2) tree_ok_parent) (rule fmdomI)

lemma tree_ok_empty [simp]: "tree_ok fmempty"
  by (simp add: tree_ok_def)

text \<open>A node's ancestors, itself included.\<close>

inductive below :: "(grant_id, node) fmap \<Rightarrow> grant_id \<Rightarrow> grant_id \<Rightarrow> bool" for ns where
  self: "fmlookup ns i = Some n \<Longrightarrow> below ns i i"
| up: "fmlookup ns i = Some n \<Longrightarrow> n_parent n = Some p \<Longrightarrow> below ns p a \<Longrightarrow> below ns i a"

inductive_simps below_unfold: "below ns i a"

lemma below_dom: "below ns i a \<Longrightarrow> i |\<in>| fmdom ns \<and> a |\<in>| fmdom ns"
  by (induction rule: below.induct) (auto simp: fmdomI)

lemma below_trans: "below ns i j \<Longrightarrow> below ns j k \<Longrightarrow> below ns i k"
  by (induction rule: below.induct) (auto intro: below.up)

lemma below_facts:
  assumes "below ns i a" "tree_ok ns"
  shows "\<exists>n m. fmlookup ns i = Some n \<and> fmlookup ns a = Some m \<and>
           attenuates (n_authority n) (n_authority m) \<and>
           n_audit_seq m \<le> n_audit_seq n \<and> (n_audit_seq m = n_audit_seq n \<longrightarrow> i = a) \<and>
           (n_state m \<noteq> Live \<longrightarrow> n_state n \<noteq> Live)"
  using assms
proof (induction rule: below.induct)
  case (self i n)
  then show ?case by (auto simp: authority_order.le_refl)
next
  case (up i n p a)
  then obtain q m where q: "fmlookup ns p = Some q" "fmlookup ns a = Some m"
      "attenuates (n_authority q) (n_authority m)" "n_audit_seq m \<le> n_audit_seq q"
      "n_state m \<noteq> Live \<longrightarrow> n_state q \<noteq> Live" by blast
  obtain q' where "fmlookup ns p = Some q'" "n_audit_seq q' < n_audit_seq n"
      "attenuates (n_authority n) (n_authority q')" "n_state q' \<noteq> Live \<longrightarrow> n_state n \<noteq> Live"
    using tree_ok_parent[OF up.prems up.hyps(1,2)] by blast
  then have q': "n_audit_seq q < n_audit_seq n" "attenuates (n_authority n) (n_authority q)"
      "n_state q \<noteq> Live \<longrightarrow> n_state n \<noteq> Live" using q(1) by simp_all
  have "attenuates (n_authority n) (n_authority m)" using authority_order.le_trans q'(2) q(3) .
  moreover have "n_audit_seq m < n_audit_seq n" using q(4) q'(1) by simp
  moreover have "n_state m \<noteq> Live \<longrightarrow> n_state n \<noteq> Live" using q(5) q'(3) by blast
  ultimately show ?case using q(2) up.hyps(1) by (intro exI[of _ n] exI[of _ m]) simp
qed

section \<open>The rank of a node bounds the walks\<close>

definition older :: "(grant_id, node) fmap \<Rightarrow> nat \<Rightarrow> grant_id fset" where
  "older ns s = ffilter (\<lambda>j. case fmlookup ns j of Some m \<Rightarrow> n_audit_seq m < s | None \<Rightarrow> False) (fmdom ns)"

definition rank :: "(grant_id, node) fmap \<Rightarrow> grant_id \<Rightarrow> nat" where
  "rank ns i = (case fmlookup ns i of Some n \<Rightarrow> fcard (older ns (n_audit_seq n)) | None \<Rightarrow> 0)"

lemma older_iff: "j |\<in>| older ns s \<longleftrightarrow> (\<exists>m. fmlookup ns j = Some m \<and> n_audit_seq m < s)"
  by (auto simp: older_def fmlookup_dom_iff split: option.splits)

lemma rank_parent:
  assumes "tree_ok ns" "fmlookup ns i = Some n" "n_parent n = Some p"
  shows "rank ns p < rank ns i"
proof -
  obtain m where m: "fmlookup ns p = Some m" "n_audit_seq m < n_audit_seq n"
    using tree_ok_parent[OF assms] by blast
  have "p |\<in>| older ns (n_audit_seq n)" "p |\<notin>| older ns (n_audit_seq m)"
    using m by (auto simp: older_iff)
  moreover have "older ns (n_audit_seq m) |\<subseteq>| older ns (n_audit_seq n)"
    using m(2) by (auto simp: older_iff)
  ultimately have "older ns (n_audit_seq m) |\<subset>| older ns (n_audit_seq n)" by auto
  then show ?thesis using m assms(2) by (simp add: rank_def pfsubset_fcard_mono)
qed

lemma rank_less: "fmlookup ns i = Some n \<Longrightarrow> rank ns i < fcard (fmdom ns)"
proof -
  assume i: "fmlookup ns i = Some n"
  have "older ns (n_audit_seq n) |\<subseteq>| fmdom ns" by (auto simp: older_def)
  moreover have "i |\<in>| fmdom ns" "i |\<notin>| older ns (n_audit_seq n)" using i by (auto simp: older_iff fmdomI)
  ultimately have "older ns (n_audit_seq n) |\<subset>| fmdom ns" by auto
  then show ?thesis using i by (simp add: rank_def pfsubset_fcard_mono)
qed

lemma climb_below:
  assumes "tree_ok ns" "fmlookup ns i = Some n" "rank ns i < k"
  shows "climb k ns (Some i) a = Some (below ns i a)"
  using assms(2,3)
proof (induction k arbitrary: i n)
  case (Suc k)
  show ?case
  proof (cases "n_parent n")
    case None
    then have "below ns i a \<longleftrightarrow> i = a" using Suc.prems(1) by (subst below_unfold) auto
    then show ?thesis using Suc.prems(1) None by (cases k) simp_all
  next
    case (Some p)
    obtain m where m: "fmlookup ns p = Some m" using tree_ok_parent[OF assms(1) Suc.prems(1) Some] by blast
    have "rank ns p < k" using rank_parent[OF assms(1) Suc.prems(1) Some] Suc.prems(2) by simp
    from Suc.IH[OF m this] have "climb k ns (Some p) a = Some (below ns p a)" .
    moreover have "below ns i a \<longleftrightarrow> i = a \<or> below ns p a"
      using Suc.prems(1) Some by (subst below_unfold) auto
    ultimately show ?thesis using Suc.prems(1) Some by simp
  qed
qed simp

lemma is_self_or_descendant_below:
  assumes "tree_ok (nodes b)" "i |\<in>| fmdom (nodes b)"
  shows "is_self_or_descendant i a b = Some (below (nodes b) i a)"
proof -
  obtain n where "fmlookup (nodes b) i = Some n" using assms(2) by (auto simp: fmlookup_dom_iff)
  then show ?thesis
    unfolding is_self_or_descendant_def walk_fuel_def
    using climb_below[OF assms(1)] rank_less by (metis less_SucI)
qed

section \<open>A subtree, listed\<close>

lemma fm_values_set: "x \<in> set (fm_values m) \<longleftrightarrow> (\<exists>k. fmlookup m k = Some x)"
proof
  assume "x \<in> set (fm_values m)"
  then show "\<exists>k. fmlookup m k = Some x" by (auto simp: fm_values_def fmlookup_dom_iff)
next
  assume "\<exists>k. fmlookup m k = Some x"
  then obtain k where "fmlookup m k = Some x" ..
  then have "k |\<in>| fmdom m" "x = the (fmlookup m k)" by (simp_all add: fmdomI)
  then show "x \<in> set (fm_values m)" unfolding fm_values_def by simp
qed

lemma children_of_iff:
  assumes "tree_ok ns"
  shows "j \<in> set (children_of ns i) \<longleftrightarrow> (\<exists>n. fmlookup ns j = Some n \<and> n_parent n = Some i)"
proof -
  have "j \<in> set (children_of ns i) \<longleftrightarrow> (\<exists>n k. fmlookup ns k = Some n \<and> n_parent n = Some i \<and> j = n_id n)"
    by (auto simp: children_of_def fm_values_set)
  also have "\<dots> \<longleftrightarrow> (\<exists>n k. fmlookup ns k = Some n \<and> n_parent n = Some i \<and> j = k)"
    using tree_ok_id[OF assms] by (intro iff_exI) auto
  finally show ?thesis by blast
qed

lemma distinct_children:
  assumes "tree_ok ns"
  shows "distinct (children_of ns i)"
proof -
  have "map n_id (fm_values ns) = sorted_list_of_fset (fmdom ns)"
    unfolding fm_values_def map_map
    by (rule map_idI) (auto simp: fmlookup_dom_iff dest: tree_ok_id[OF assms])
  then have "distinct (map n_id (fm_values ns))" by (simp add: sorted_list_of_fset.rep_eq)
  then show ?thesis unfolding children_of_def by (simp add: distinct_map_filter)
qed

text \<open>What the worklist keeps.\<close>

definition worklist :: "(grant_id, node) fmap \<Rightarrow> grant_id \<Rightarrow> grant_id list \<Rightarrow> grant_id list \<Rightarrow> bool" where
  "worklist ns target out todo \<longleftrightarrow>
     distinct (out @ todo) \<and> target \<in> set (out @ todo) \<and>
     (\<forall>i\<in>set (out @ todo). below ns i target) \<and>
     (\<forall>i\<in>set (out @ todo). i \<noteq> target \<longrightarrow> (\<exists>p\<in>set out. i \<in> set (children_of ns p))) \<and>
     (\<forall>i\<in>set out. set (children_of ns i) \<subseteq> set (out @ todo))"

lemma worklist_start: "fmlookup ns target = Some n \<Longrightarrow> worklist ns target [] [target]"
  by (auto simp: worklist_def intro: below.self)

lemma target_not_child:
  assumes ok: "tree_ok ns" and i: "below ns i target"
  shows "target \<notin> set (children_of ns i)"
proof
  assume "target \<in> set (children_of ns i)"
  then obtain n where n: "fmlookup ns target = Some n" "n_parent n = Some i"
    using children_of_iff[OF ok] by blast
  obtain m where "fmlookup ns i = Some m" "n_audit_seq m < n_audit_seq n"
    using tree_ok_parent[OF ok n] by blast
  with below_facts[OF i ok] n(1) show False by auto
qed

lemma child_unique: "tree_ok ns \<Longrightarrow> j \<in> set (children_of ns i) \<Longrightarrow> j \<in> set (children_of ns k) \<Longrightarrow> i = k"
  by (auto simp: children_of_iff)

lemma worklist_step:
  assumes ok: "tree_ok ns" and w: "worklist ns target out (i # todo)"
  shows "worklist ns target (out @ [i]) (todo @ children_of ns i)"
proof -
  let ?old = "set (out @ i # todo)" and ?kids = "set (children_of ns i)"
  have set_new: "set ((out @ [i]) @ todo @ children_of ns i) = ?old \<union> ?kids" by auto
  have bi: "below ns i target" and iout: "i \<notin> set out" and dist: "distinct (out @ i # todo)"
    and tgt: "target \<in> ?old" and old_below: "\<forall>j\<in>?old. below ns j target"
    and par: "\<forall>j\<in>?old. j \<noteq> target \<longrightarrow> (\<exists>p\<in>set out. j \<in> set (children_of ns p))"
    and clo: "\<forall>j\<in>set out. set (children_of ns j) \<subseteq> ?old"
    using w unfolding worklist_def by simp_all
  have fresh: "j \<notin> ?old" if j: "j \<in> ?kids" for j
  proof
    assume "j \<in> ?old"
    moreover have "j \<noteq> target" using target_not_child[OF ok bi] j by blast
    ultimately obtain p where "p \<in> set out" "j \<in> set (children_of ns p)" using par by blast
    then show False using child_unique[OF ok j] iout by blast
  qed
  have "below ns j target" if "j \<in> ?kids" for j
    using that bi children_of_iff[OF ok] below.up by blast
  then have 1: "\<forall>j\<in>?old \<union> ?kids. below ns j target" using old_below by blast
  have 2: "distinct ((out @ [i]) @ todo @ children_of ns i)"
    using dist distinct_children[OF ok] fresh by auto
  have 3: "\<exists>p\<in>set (out @ [i]). j \<in> set (children_of ns p)" if "j \<in> ?old \<union> ?kids" "j \<noteq> target" for j
    using that par by auto
  have 4: "set (children_of ns j) \<subseteq> ?old \<union> ?kids" if "j \<in> set (out @ [i])" for j
    using that clo by auto
  show ?thesis
    unfolding worklist_def set_new using 1 2 3 4 tgt by blast
qed

lemma worklist_size:
  assumes "worklist ns target out todo"
  shows "length out + length todo \<le> fcard (fmdom ns)"
proof -
  have "\<forall>i\<in>set (out @ todo). below ns i target" using assms unfolding worklist_def by (elim conjE)
  then have "set (out @ todo) \<subseteq> fset (fmdom ns)" using below_dom by (intro subsetI) blast
  then have "card (set (out @ todo)) \<le> card (fset (fmdom ns))" by (intro card_mono) simp_all
  moreover have "card (set (out @ todo)) = length out + length todo"
    using assms distinct_card[of "out @ todo"] unfolding worklist_def by simp
  ultimately show ?thesis by (simp add: fcard.rep_eq)
qed

lemma worklist_end:
  assumes ok: "tree_ok ns" and w: "worklist ns target out []" and b: "below ns i target"
  shows "i \<in> set out"
  using b w
proof (induction rule: below.induct)
  case (up i n p a)
  then have "p \<in> set out" by simp
  then have "set (children_of ns p) \<subseteq> set out" using up.prems by (simp add: worklist_def)
  moreover have "i \<in> set (children_of ns p)" using up.hyps children_of_iff[OF ok] by blast
  ultimately show ?case by blast
qed (simp add: worklist_def)

lemma subtree_walk_total:
  assumes "tree_ok ns" "worklist ns target out todo" "fcard (fmdom ns) \<le> k + length out"
  shows "\<exists>xs. subtree_walk k ns out todo = Some xs \<and> worklist ns target xs []"
  using assms(2,3)
proof (induction k arbitrary: out todo)
  case 0
  have "length out + length todo \<le> fcard (fmdom ns)" by (rule worklist_size[OF 0(1)])
  then have "length todo = 0" using 0(2) by linarith
  then show ?case using 0 by simp
next
  case (Suc k)
  show ?case
  proof (cases todo)
    case (Cons i rest)
    have "worklist ns target (out @ [i]) (rest @ children_of ns i)"
      using worklist_step[OF assms(1)] Suc.prems(1) Cons by simp
    from Suc.IH[OF this] Suc.prems(2) show ?thesis by (simp add: Cons)
  qed (use Suc.prems in auto)
qed

lemma subtree_inclusive_spec:
  assumes ok: "tree_ok (nodes b)" and t: "target |\<in>| fmdom (nodes b)"
  shows "\<exists>xs. subtree_inclusive target b = Some xs \<and> distinct xs \<and> set xs = {i. below (nodes b) i target}"
proof -
  obtain n where "fmlookup (nodes b) target = Some n" using t by (auto simp: fmlookup_dom_iff)
  from subtree_walk_total[OF ok worklist_start[OF this], of "walk_fuel (nodes b)"]
  obtain xs where xs: "subtree_inclusive target b = Some xs" "worklist (nodes b) target xs []"
    by (auto simp: subtree_inclusive_def walk_fuel_def)
  then have "distinct xs" "\<forall>i\<in>set xs. below (nodes b) i target" by (auto simp: worklist_def)
  with xs worklist_end[OF ok xs(2)] show ?thesis by blast
qed

section \<open>Liveness is the whole ancestry's\<close>

definition ancestry_live :: "(grant_id, node) fmap \<Rightarrow> grant_id \<Rightarrow> int \<Rightarrow> bool" where
  "ancestry_live ns i t \<longleftrightarrow>
     i |\<in>| fmdom ns \<and> (\<forall>a n. below ns i a \<longrightarrow> fmlookup ns a = Some n \<longrightarrow> effective_state_of n t = EffLive)"

lemma eff_live_state: "effective_state_of n t = EffLive \<Longrightarrow> n_state n = Live"
  by (simp add: effective_state_of_def split: node_state.splits)

lemma ancestry_live_self:
  "ancestry_live ns i t \<Longrightarrow> fmlookup ns i = Some n \<Longrightarrow> effective_state_of n t = EffLive"
  unfolding ancestry_live_def using below.self by blast

lemma ancestry_live_step:
  assumes "fmlookup ns i = Some n"
  shows "ancestry_live ns i t \<longleftrightarrow>
    effective_state_of n t = EffLive \<and> (case n_parent n of None \<Rightarrow> True | Some p \<Rightarrow> p |\<in>| fmdom ns \<longrightarrow> ancestry_live ns p t)"
proof -
  have u: "below ns i a \<longleftrightarrow> a = i \<or> (\<exists>p. n_parent n = Some p \<and> below ns p a)" for a
    using assms by (subst below_unfold) auto
  show ?thesis
    using assms by (auto simp: ancestry_live_def u fmdomI dest: below_dom split: option.splits)
qed

lemma eff_walk_live_sound:
  "eff_walk k ns (Some i) t = Some EffLive \<Longrightarrow> ancestry_live ns i t"
proof (induction k arbitrary: i)
  case (Suc k)
  then obtain n where n: "fmlookup ns i = Some n" by (cases "fmlookup ns i") auto
  then have live: "effective_state_of n t = EffLive" "eff_walk k ns (n_parent n) t = Some EffLive"
    using Suc.prems by (auto split: if_splits)
  show ?case
  proof (cases "n_parent n")
    case None
    then show ?thesis using n live by (simp add: ancestry_live_step)
  next
    case (Some p)
    then show ?thesis using n live Suc.IH[of p] by (simp add: ancestry_live_step)
  qed
qed simp

lemma eff_walk_live_complete:
  assumes ok: "tree_ok ns" and "rank ns i + 1 < k" "ancestry_live ns i t"
  shows "eff_walk k ns (Some i) t = Some EffLive"
  using assms(2,3)
proof (induction k arbitrary: i)
  case (Suc k)
  obtain n where n: "fmlookup ns i = Some n"
    using Suc.prems(2) by (auto simp: ancestry_live_def fmlookup_dom_iff)
  have live: "effective_state_of n t = EffLive" using Suc.prems(2) n by (simp add: ancestry_live_step)
  show ?case
  proof (cases "n_parent n")
    case None
    obtain k' where "k = Suc k'" using Suc.prems(1) by (cases k) auto
    then show ?thesis using n live None by simp
  next
    case (Some p)
    have "p |\<in>| fmdom ns" by (rule tree_ok_parent_dom[OF ok n Some])
    then have "ancestry_live ns p t" using Suc.prems(2) n Some by (simp add: ancestry_live_step)
    moreover have "rank ns p + 1 < k" using rank_parent[OF ok n Some] Suc.prems(1) by simp
    ultimately show ?thesis using Suc.IH n live Some by simp
  qed
qed simp

lemma eff_walk_dead:
  assumes ok: "tree_ok ns" and "fmlookup ns i = Some n" "rank ns i + 1 < k" "\<not> ancestry_live ns i t"
  shows "\<exists>a m. below ns i a \<and> fmlookup ns a = Some m \<and> effective_state_of m t \<noteq> EffLive \<and>
           eff_walk k ns (Some i) t = Some (effective_state_of m t)"
  using assms(2-)
proof (induction k arbitrary: i n)
  case (Suc k)
  show ?case
  proof (cases "effective_state_of n t = EffLive")
    case False
    then show ?thesis using Suc.prems(1) below.self by (intro exI[of _ i] exI[of _ n]) auto
  next
    case True
    then obtain p where p: "n_parent n = Some p"
      using Suc.prems(1,3) by (cases "n_parent n") (auto simp: ancestry_live_step)
    obtain m where m: "fmlookup ns p = Some m" using tree_ok_parent[OF ok Suc.prems(1) p] by blast
    have "\<not> ancestry_live ns p t" using Suc.prems(1,3) True p by (simp add: ancestry_live_step)
    moreover have "rank ns p + 1 < k" using rank_parent[OF ok Suc.prems(1) p] Suc.prems(2) by simp
    ultimately obtain a q where "below ns p a" "fmlookup ns a = Some q" "effective_state_of q t \<noteq> EffLive"
        "eff_walk k ns (Some p) t = Some (effective_state_of q t)"
      using Suc.IH[OF m] by blast
    moreover have "eff_walk (Suc k) ns (Some i) t = eff_walk k ns (Some p) t" using Suc.prems(1) True p by simp
    moreover have "below ns i a" using below.up[OF Suc.prems(1) p] calculation(1) .
    ultimately show ?thesis by metis
  qed
qed simp

lemma eff_walk_none:
  assumes ok: "tree_ok ns" and "eff_walk k ns (Some i) t = None"
  shows "i |\<notin>| fmdom ns"
  using assms(2)
proof (induction k arbitrary: i)
  case (Suc k)
  show ?case
  proof
    assume "i |\<in>| fmdom ns"
    then obtain n where n: "fmlookup ns i = Some n" by (auto simp: fmlookup_dom_iff)
    then have live: "effective_state_of n t = EffLive" "eff_walk k ns (n_parent n) t = None"
      using Suc.prems by (auto split: if_splits)
    then obtain p where p: "n_parent n = Some p" by (cases "n_parent n"; cases k) auto
    with live(2) have "p |\<notin>| fmdom ns" by (intro Suc.IH) simp
    then show False using tree_ok_parent_dom[OF ok n p] by simp
  qed
qed simp

section \<open>Marking a subtree\<close>

definition revoked_at :: "nat \<Rightarrow> node \<Rightarrow> node" where
  "revoked_at seq n = (if n_state n = Live then n\<lparr>n_state := RevokedBy seq\<rparr> else n)"

lemma revoked_at_fields [simp]:
  "n_id (revoked_at seq n) = n_id n" "n_parent (revoked_at seq n) = n_parent n"
  "n_authority (revoked_at seq n) = n_authority n" "n_audit_seq (revoked_at seq n) = n_audit_seq n"
  "n_ttl (revoked_at seq n) = n_ttl n" "n_state (revoked_at seq n) \<noteq> Live"
  "n_holder (revoked_at seq n) = n_holder n" "n_created (revoked_at seq n) = n_created n"
  by (simp_all add: revoked_at_def)

lemma revoked_at_idem [simp]: "revoked_at s (revoked_at seq n) = revoked_at seq n"
  by (simp add: revoked_at_def)

lemma mark_revoked_lookup:
  "fmlookup (mark_revoked seq i ns) j = (if j = i then map_option (revoked_at seq) (fmlookup ns j) else fmlookup ns j)"
  by (auto simp: mark_revoked_def revoked_at_def split: option.splits)

lemma mark_all_lookup:
  "fmlookup (snd (mark_all seq is ns)) j =
     (if j \<in> set is then map_option (revoked_at seq) (fmlookup ns j) else fmlookup ns j)"
proof (induction "is" arbitrary: ns)
  case (Cons i "is")
  then show ?case
    by (simp add: split_beta mark_revoked_lookup option.map_comp comp_def)
qed simp

lemma mark_all_newly:
  "distinct is \<Longrightarrow> fst (mark_all seq is ns) = filter (is_live_node ns) is"
proof (induction "is" arbitrary: ns)
  case (Cons i "is")
  have "filter (is_live_node (mark_revoked seq i ns)) is = filter (is_live_node ns) is"
    using Cons.prems by (intro filter_cong) (auto simp: is_live_node_def mark_revoked_lookup)
  then show ?case using Cons by (simp add: split_beta)
qed simp

lemma tree_ok_mark:
  assumes ok: "tree_ok ns" and S: "set is = {i. below ns i target}"
  shows "tree_ok (snd (mark_all seq is ns))"
proof -
  let ?ns = "snd (mark_all seq is ns)"
  have lk: "\<exists>n0. fmlookup ns i = Some n0 \<and> n = (if i \<in> set is then revoked_at seq n0 else n0)"
    if "fmlookup ?ns i = Some n" for i n
    using that by (auto simp: mark_all_lookup split: if_splits)
  show ?thesis
    unfolding tree_ok_def
  proof (intro conjI allI impI)
    fix i n assume n: "fmlookup ?ns i = Some n"
    obtain n0 where n0: "fmlookup ns i = Some n0" "n = (if i \<in> set is then revoked_at seq n0 else n0)"
      using lk[OF n] by blast
    show "n_id n = i" using n0 tree_ok_id[OF ok n0(1)] by (cases "i \<in> set is") simp_all
    show "is_canonical (n_authority n)" using n0 tree_ok_canonical[OF ok n0(1)] by (cases "i \<in> set is") simp_all
    fix p assume "n_parent n = Some p"
    then have p: "n_parent n0 = Some p" using n0(2) by (cases "i \<in> set is") simp_all
    obtain m where m: "fmlookup ns p = Some m" "n_audit_seq m < n_audit_seq n0"
        "attenuates (n_authority n0) (n_authority m)" "n_state m \<noteq> Live \<longrightarrow> n_state n0 \<noteq> Live"
      using tree_ok_parent[OF ok n0(1) p] by blast
    have "p \<in> set is \<Longrightarrow> i \<in> set is" using S n0(1) p by (auto intro: below.up)
    then show "\<exists>m. fmlookup ?ns p = Some m \<and> n_audit_seq m < n_audit_seq n \<and>
             attenuates (n_authority n) (n_authority m) \<and> (n_state m \<noteq> Live \<longrightarrow> n_state n \<noteq> Live)"
      using m n0(2) by (cases "p \<in> set is"; cases "i \<in> set is") (auto simp: mark_all_lookup)
  qed
qed

end
