(* ===== verification/Tree_Ops.thy ===== *)
theory Tree_Ops imports Tree_Inv begin

text \<open>
  The relations between the states before and after an operation, and what each step of the tree keeps of them:
  \<open>tree_inv\<close> is the invariant, \<open>evolves\<close> says what no operation ever does (change a node's authority, parent or
  number, or bring a revoked node back), \<open>still\<close> that the tree was not touched, \<open>sound_step\<close> that the invariant
  is kept and the past with it.
\<close>

section \<open>The invariant, and how states follow one another\<close>

definition tree_inv :: "('w \<Rightarrow> grant_id \<Rightarrow> bool) \<Rightarrow> 'w broker \<Rightarrow> bool" where
  "tree_inv seen b \<longleftrightarrow>
     tree_ok (nodes b) \<and>
     (\<forall>i n. fmlookup (nodes b) i = Some n \<longrightarrow> n_audit_seq n < audit_seq b \<and> seen (world b) i)"

definition moves :: "('w \<Rightarrow> grant_id \<Rightarrow> bool) \<Rightarrow> 'w broker \<Rightarrow> 'w broker \<Rightarrow> bool" where
  "moves seen b c \<longleftrightarrow> advances b c \<and> (\<forall>i. seen (world b) i \<longrightarrow> seen (world c) i)"

definition same_node :: "node \<Rightarrow> node \<Rightarrow> bool" where
  "same_node n m \<longleftrightarrow>
     n_id m = n_id n \<and> n_parent m = n_parent n \<and> n_authority m = n_authority n \<and> n_created m = n_created n \<and>
     n_audit_seq m = n_audit_seq n \<and> (n_state n \<noteq> Live \<longrightarrow> n_state m = n_state n)"

definition evolves :: "('w \<Rightarrow> grant_id \<Rightarrow> bool) \<Rightarrow> 'w broker \<Rightarrow> 'w broker \<Rightarrow> bool" where
  "evolves seen b c \<longleftrightarrow>
     moves seen b c \<and>
     (\<forall>i m. fmlookup (nodes c) i = Some m \<longrightarrow>
        (case fmlookup (nodes b) i of None \<Rightarrow> \<not> seen (world b) i | Some n \<Rightarrow> same_node n m))"

text \<open>A step that leaves the tree as it is.\<close>

definition still :: "('w \<Rightarrow> grant_id \<Rightarrow> bool) \<Rightarrow> 'w broker \<Rightarrow> 'w broker \<Rightarrow> bool" where
  "still seen b c \<longleftrightarrow> nodes c = nodes b \<and> moves seen b c"

text \<open>What every operation keeps: the invariant, and the past.\<close>

definition sound_step :: "('w \<Rightarrow> grant_id \<Rightarrow> bool) \<Rightarrow> 'w broker \<Rightarrow> 'w broker \<Rightarrow> bool" where
  "sound_step seen b c \<longleftrightarrow> (tree_inv seen b \<longrightarrow> tree_inv seen c \<and> evolves seen b c)"

lemma same_node_refl [simp]: "same_node n n"
  by (simp add: same_node_def)

lemma same_node_trans: "same_node a b \<Longrightarrow> same_node b c \<Longrightarrow> same_node a c"
  by (simp add: same_node_def)

lemma moves_refl [simp]: "moves seen b b"
  by (simp add: moves_def)

lemma moves_trans: "moves seen a b \<Longrightarrow> moves seen b c \<Longrightarrow> moves seen a c"
  unfolding moves_def using advances_trans by blast

lemma still_refl [simp]: "still seen b b"
  by (simp add: still_def)

lemma still_trans: "still seen a b \<Longrightarrow> still seen b c \<Longrightarrow> still seen a c"
  unfolding still_def using moves_trans by metis

lemma tree_inv_seen: "tree_inv seen b \<Longrightarrow> fmlookup (nodes b) i = Some n \<Longrightarrow> seen (world b) i"
  by (simp add: tree_inv_def)

lemma tree_inv_ok: "tree_inv seen b \<Longrightarrow> tree_ok (nodes b)"
  by (simp add: tree_inv_def)

lemma evolvesD:
  "evolves seen b c \<Longrightarrow> fmlookup (nodes c) i = Some m \<Longrightarrow> fmlookup (nodes b) i = Some n \<Longrightarrow> same_node n m"
  by (simp add: evolves_def) (metis option.simps(5))

lemma evolves_new:
  "evolves seen b c \<Longrightarrow> fmlookup (nodes c) i = Some m \<Longrightarrow> fmlookup (nodes b) i = None \<Longrightarrow> \<not> seen (world b) i"
  by (simp add: evolves_def) (metis option.simps(4))

lemma evolves_moves: "evolves seen b c \<Longrightarrow> moves seen b c"
  by (simp add: evolves_def)

lemma evolvesI:
  assumes "moves seen b c"
    "\<And>i m n. fmlookup (nodes c) i = Some m \<Longrightarrow> fmlookup (nodes b) i = Some n \<Longrightarrow> same_node n m"
    "\<And>i m. fmlookup (nodes c) i = Some m \<Longrightarrow> fmlookup (nodes b) i = None \<Longrightarrow> \<not> seen (world b) i"
  shows "evolves seen b c"
  unfolding evolves_def using assms by (simp split: option.splits)

lemma evolves_trans:
  assumes inv: "tree_inv seen a" and ab: "evolves seen a b" and bc: "evolves seen b c"
  shows "evolves seen a c"
proof (rule evolvesI)
  show "moves seen a c" using moves_trans evolves_moves ab bc by blast
  fix i m assume m: "fmlookup (nodes c) i = Some m"
  { fix n assume n: "fmlookup (nodes a) i = Some n"
    have "seen (world b) i" using tree_inv_seen[OF inv n] evolves_moves[OF ab] by (simp add: moves_def)
    then obtain k where k: "fmlookup (nodes b) i = Some k"
      using evolves_new[OF bc m] by (cases "fmlookup (nodes b) i") auto
    show "same_node n m"
      using same_node_trans evolvesD[OF ab k n] evolvesD[OF bc m k] by blast }
  { assume n: "fmlookup (nodes a) i = None"
    show "\<not> seen (world a) i"
    proof (cases "fmlookup (nodes b) i")
      case None
      then show ?thesis using evolves_new[OF bc m] evolves_moves[OF ab] by (auto simp: moves_def)
    next
      case (Some k)
      then show ?thesis using evolves_new[OF ab Some n] by simp
    qed }
qed

lemma still_sound: "still seen b c \<Longrightarrow> sound_step seen b c"
  unfolding sound_step_def still_def
  by (auto simp: tree_inv_def moves_def advances_def intro!: evolvesI) (meson order_less_le_trans)

lemma sound_step_refl [simp]: "sound_step seen b b"
  by (rule still_sound) simp

lemma sound_step_trans: "sound_step seen a b \<Longrightarrow> sound_step seen b c \<Longrightarrow> sound_step seen a c"
  unfolding sound_step_def using evolves_trans by blast

lemma evolves_revoked:
  assumes "tree_inv seen b" "evolves seen b c" "fmlookup (nodes b) i = Some n" "n_state n \<noteq> Live"
    "fmlookup (nodes c) i = Some m"
  shows "n_state m = n_state n"
  using evolvesD[OF assms(2,5,3)] assms(4) by (simp add: same_node_def)

section \<open>The edits of the tree, one by one\<close>

lemma lookup_put_node [simp]:
  "fmlookup (nodes (put_node n b)) i = (if i = n_id n then Some n else fmlookup (nodes b) i)"
  by (simp add: put_node_def)

lemma put_node_frame [simp]:
  "world (put_node n b) = world b" "audit_seq (put_node n b) = audit_seq b"
  "clock_high_water (put_node n b) = clock_high_water b" "sink_on (put_node n b) = sink_on b"
  "adopted (put_node n b) = adopted b" "strict_anchor (put_node n b) = strict_anchor b"
  "guard (put_node n b) = guard b" "redeemed (put_node n b) = redeemed b"
  "revoked_adoption_fps (put_node n b) = revoked_adoption_fps b"
  "adopted_chain_fps (put_node n b) = adopted_chain_fps b" "deadmen (put_node n b) = deadmen b"
  "proposals (put_node n b) = proposals b" "epoch (put_node n b) = epoch b"
  by (simp_all add: put_node_def)

lemma tree_inv_put:
  assumes inv: "tree_inv seen b" and new: "fmlookup (nodes b) (n_id n) = None" "seen (world b) (n_id n)"
    "n_audit_seq n < audit_seq b" "is_canonical (n_authority n)"
    and par: "\<And>p. n_parent n = Some p \<Longrightarrow>
      \<exists>m. fmlookup (nodes b) p = Some m \<and> n_audit_seq m < n_audit_seq n \<and>
          attenuates (n_authority n) (n_authority m) \<and> (n_state m \<noteq> Live \<longrightarrow> n_state n \<noteq> Live)"
  shows "tree_inv seen (put_node n b)"
proof -
  have ok: "tree_ok (nodes b)" using inv by (rule tree_inv_ok)
  have "tree_ok (nodes (put_node n b))"
    unfolding tree_ok_def
  proof (intro conjI allI impI)
    fix i k assume k: "fmlookup (nodes (put_node n b)) i = Some k"
    show "n_id k = i" "is_canonical (n_authority k)"
      using k new(4) tree_ok_id[OF ok] tree_ok_canonical[OF ok] by (auto split: if_splits)
    fix p assume p: "n_parent k = Some p"
    have "\<exists>m. fmlookup (nodes b) p = Some m \<and> n_audit_seq m < n_audit_seq k \<and>
          attenuates (n_authority k) (n_authority m) \<and> (n_state m \<noteq> Live \<longrightarrow> n_state k \<noteq> Live)"
    proof (cases "i = n_id n")
      case True
      then show ?thesis using k p par by simp
    next
      case False
      then have "fmlookup (nodes b) i = Some k" using k by simp
      then show ?thesis using ok p unfolding tree_ok_def by blast
    qed
    then obtain m where m: "fmlookup (nodes b) p = Some m" "n_audit_seq m < n_audit_seq k"
          "attenuates (n_authority k) (n_authority m)" "n_state m \<noteq> Live \<longrightarrow> n_state k \<noteq> Live" by blast
    moreover have "p \<noteq> n_id n" using m(1) new(1) by auto
    ultimately show "\<exists>m. fmlookup (nodes (put_node n b)) p = Some m \<and> n_audit_seq m < n_audit_seq k \<and>
          attenuates (n_authority k) (n_authority m) \<and> (n_state m \<noteq> Live \<longrightarrow> n_state k \<noteq> Live)" by simp
  qed
  moreover have "\<forall>i k. fmlookup (nodes (put_node n b)) i = Some k \<longrightarrow> n_audit_seq k < audit_seq b \<and> seen (world b) i"
    using inv new by (auto simp: tree_inv_def)
  ultimately show ?thesis by (simp add: tree_inv_def)
qed

lemma evolves_put:
  assumes "evolves seen a b" "fmlookup (nodes a) (n_id n) = None" "\<not> seen (world a) (n_id n)"
  shows "evolves seen a (put_node n b)"
proof (rule evolvesI)
  show "moves seen a (put_node n b)" using evolves_moves[OF assms(1)] by (simp add: moves_def advances_def)
next
  fix i m k assume "fmlookup (nodes (put_node n b)) i = Some m" "fmlookup (nodes a) i = Some k"
  then show "same_node k m" using assms(2) evolvesD[OF assms(1)] by (auto split: if_splits)
next
  fix i m assume "fmlookup (nodes (put_node n b)) i = Some m" "fmlookup (nodes a) i = None"
  then show "\<not> seen (world a) i" using assms(3) evolves_new[OF assms(1)] by (auto split: if_splits)
qed

text \<open>An edit of one node that keeps everything but its deadline and its holder.\<close>

lemma edit_sound:
  assumes n: "fmlookup (nodes b) i = Some n"
    and fields: "n_id m = n_id n" "n_parent m = n_parent n" "n_authority m = n_authority n" "n_state m = n_state n"
      "n_created m = n_created n" "n_audit_seq m = n_audit_seq n"
  shows "sound_step seen b (b\<lparr>nodes := fmupd i m (nodes b)\<rparr>)"
  unfolding sound_step_def
proof
  let ?c = "b\<lparr>nodes := fmupd i m (nodes b)\<rparr>"
  assume inv: "tree_inv seen b"
  have ok: "tree_ok (nodes b)" using inv by (rule tree_inv_ok)
  have bwd: "\<exists>k0. fmlookup (nodes b) j = Some k0 \<and> n_id k = n_id k0 \<and> n_parent k = n_parent k0 \<and>
      n_authority k = n_authority k0 \<and> n_state k = n_state k0 \<and> n_created k = n_created k0 \<and>
      n_audit_seq k = n_audit_seq k0" if "fmlookup (nodes ?c) j = Some k" for j k
    using that assms by (auto split: if_splits)
  have fwd: "\<exists>k. fmlookup (nodes ?c) j = Some k \<and> n_authority k = n_authority k0 \<and> n_state k = n_state k0 \<and>
      n_audit_seq k = n_audit_seq k0" if "fmlookup (nodes b) j = Some k0" for j k0
    using that assms by auto
  have "tree_ok (nodes ?c)"
    unfolding tree_ok_def
  proof (intro conjI allI impI)
    fix j k assume "fmlookup (nodes ?c) j = Some k"
    then obtain k0 where k0: "fmlookup (nodes b) j = Some k0" "n_id k = n_id k0" "n_parent k = n_parent k0"
      "n_authority k = n_authority k0" "n_state k = n_state k0" "n_audit_seq k = n_audit_seq k0" using bwd by blast
    show "n_id k = j" "is_canonical (n_authority k)"
      using k0 tree_ok_id[OF ok k0(1)] tree_ok_canonical[OF ok k0(1)] by simp_all
    fix p assume "n_parent k = Some p"
    then have "n_parent k0 = Some p" using k0 by simp
    then obtain q where "fmlookup (nodes b) p = Some q" "n_audit_seq q < n_audit_seq k0"
        "attenuates (n_authority k0) (n_authority q)" "n_state q \<noteq> Live \<longrightarrow> n_state k0 \<noteq> Live"
      using tree_ok_parent[OF ok k0(1)] by blast
    with fwd[of p q] k0 show "\<exists>q. fmlookup (nodes ?c) p = Some q \<and> n_audit_seq q < n_audit_seq k \<and>
        attenuates (n_authority k) (n_authority q) \<and> (n_state q \<noteq> Live \<longrightarrow> n_state k \<noteq> Live)" by auto
  qed
  moreover have "evolves seen b ?c"
  proof (rule evolvesI)
    show "moves seen b ?c" by (simp add: moves_def advances_def)
    show "same_node k0 k" if "fmlookup (nodes ?c) j = Some k" "fmlookup (nodes b) j = Some k0" for j k k0
      using bwd[OF that(1)] that(2) by (auto simp: same_node_def)
    show "\<not> seen (world b) j" if "fmlookup (nodes ?c) j = Some k" "fmlookup (nodes b) j = None" for j k
      using bwd[OF that(1)] that(2) by simp
  qed
  moreover have "\<forall>j k. fmlookup (nodes ?c) j = Some k \<longrightarrow> n_audit_seq k < audit_seq ?c \<and> seen (world ?c) j"
    using inv bwd by (fastforce simp: tree_inv_def)
  ultimately show "tree_inv seen ?c \<and> evolves seen b ?c" by (simp add: tree_inv_def)
qed

lemma extend_ttl_sound: "sound_step seen b (snd (extend_ttl i d b))"
  by (auto simp: extend_ttl_def intro!: edit_sound split: option.splits)

lemma restore_ttl_sound: "sound_step seen b (restore_ttl i ttl b)"
  by (auto simp: restore_ttl_def intro!: edit_sound split: option.splits)

lemma set_holder_peer_sound: "sound_step seen b (set_holder_peer i peer b)"
  by (auto simp: set_holder_peer_def intro!: edit_sound split: option.splits)

lemma withdraw_sound: "sound_step seen b (snd (withdraw_unrecorded i b))"
proof (cases "fBex (fmran (nodes b)) (\<lambda>n. n_parent n = Some i)")
  case False
  let ?c = "snd (withdraw_unrecorded i b)"
  have c: "nodes ?c = fmdrop i (nodes b)" "world ?c = world b" "audit_seq ?c = audit_seq b"
      "clock_high_water ?c = clock_high_water b"
    using False by (simp_all add: withdraw_unrecorded_def)
  have leaf: "n_parent n \<noteq> Some i" if "fmlookup (nodes b) j = Some n" for j n
    using False that by (auto intro: fmranI)
  have mv: "moves seen b ?c" using c by (simp add: moves_def advances_def)
  show ?thesis
    unfolding sound_step_def
  proof
    assume inv: "tree_inv seen b"
    have "tree_ok (nodes ?c)"
      using tree_inv_ok[OF inv] leaf unfolding tree_ok_def c by (simp split: if_splits)
    moreover have "evolves seen b ?c"
      by (rule evolvesI) (use mv c in \<open>auto split: if_splits\<close>)
    ultimately show "tree_inv seen ?c \<and> evolves seen b ?c"
      using inv by (simp add: tree_inv_def c)
  qed
qed (simp add: withdraw_unrecorded_def)

end
