(* ===== verification/Tree_World.thy ===== *)
theory Tree_World imports Tree_Ops begin

text \<open>
  The interface the tree relies on, an identifier source that never repeats itself, as the locale
  \<open>fresh_world\<close>: every operation of \<open>tree.rs\<close> is a sound step of it. It is interpreted on the sources
  the broker ships for reproducible runs in \<open>Sim_World\<close>. Then the interface the other modules rely on: the
  locales \<open>frame_contract\<close> and \<open>custody_contract\<close> of a relation between states that every primitive step of the
  broker respects. A component proves once, inside them, that each of its operations respects any such
  relation; the sublocales give \<open>still\<close> and \<open>sound_step\<close>.
\<close>

section \<open>The interface\<close>

text \<open>The rules that carry a relation between states one operation further, collected as the operations are modelled.\<close>

named_theorems contract_steps "R a b ==> R a (op b)"

locale fresh_world =
  fixes E :: "'w env" and seen :: "'w \<Rightarrow> grant_id \<Rightarrow> bool"
  assumes fresh_id: "\<not> seen w (fst (next_id E w))"
    and id_seen: "seen (snd (next_id E w)) (fst (next_id E w))"
    and id_keeps: "seen w i \<Longrightarrow> seen (snd (next_id E w)) i"
    and clock_keeps: "seen w i \<Longrightarrow> seen (snd (read_clock E w)) i"
    and random_keeps: "seen w i \<Longrightarrow> seen (snd (random_bytes E k w)) i"
    and append_keeps: "seen w i \<Longrightarrow> seen (snd (sink_append E e w)) i"
    and floor_keeps: "seen w i \<Longrightarrow> seen (snd (sink_next_seq E w)) i"
begin

lemma now_still [simp]: "still seen b (snd (now E b))"
  using clock_keeps by (auto simp: still_def moves_def) (simp add: now_def split_beta Let_def)

lemma take_seq_still [simp]: "still seen b (snd (take_seq E b))"
  using floor_keeps by (auto simp: still_def moves_def) (simp add: take_seq_def split_beta Let_def)

lemma record_op_still [simp]: "still seen b (record_op E q a x y z d s b)"
proof -
  have "seen (world (record_op E q a x y z d s b)) i" if "seen (world b) i" for i
    using that now_still[of b] append_keeps by (simp add: record_op_def split_beta Let_def still_def moves_def)
  then show ?thesis by (simp add: still_def moves_def)
qed

lemma take_random_still [simp]: "still seen b (snd (take_random E k b))"
  using random_keeps by (auto simp: still_def moves_def) (simp add: take_random_def split_beta)

lemma take_id_still [simp]: "still seen b (snd (take_id E b))"
  using id_keeps by (auto simp: still_def moves_def) (simp add: take_id_def split_beta)

lemma take_id_fresh: "\<not> seen (world b) (fst (take_id E b))" "seen (world (snd (take_id E b))) (fst (take_id E b))"
  using fresh_id id_seen by (simp_all add: take_id_def split_beta)

lemma log_op_still [simp]: "still seen b (snd (log_op E a x y z d s b))"
  using still_trans[OF take_seq_still record_op_still] by (simp add: log_op_def split_beta)

lemma refuse_still [simp]: "still seen b (snd (refuse E d b))"
  using take_seq_still[of b] by (simp add: refuse_def split_beta)

lemma ensure_key_still [simp]: "still seen b (snd (ensure_key E b))"
  using take_random_still[of b 32] by (auto simp: ensure_key_def split_beta still_def moves_def advances_def split: option.splits)

lemma effective_state_still [simp]: "still seen b (snd (effective_state E i b))"
  by (simp add: effective_state_def split_beta)

lemma put_sound:
  assumes inv: "tree_inv seen a" and st: "still seen a b"
    and new: "\<not> seen (world a) (n_id n)" "seen (world b) (n_id n)" "n_audit_seq n < audit_seq b" "is_canonical (n_authority n)"
    and par: "\<And>p. n_parent n = Some p \<Longrightarrow>
      \<exists>m. fmlookup (nodes a) p = Some m \<and> n_audit_seq m < n_audit_seq n \<and>
          attenuates (n_authority n) (n_authority m) \<and> (n_state m \<noteq> Live \<longrightarrow> n_state n \<noteq> Live)"
  shows "tree_inv seen (put_node n b) \<and> evolves seen a (put_node n b)"
proof
  have none: "fmlookup (nodes a) (n_id n) = None"
    using tree_inv_seen[OF inv] new(1) by (cases "fmlookup (nodes a) (n_id n)") auto
  have ns: "nodes b = nodes a" using st by (simp add: still_def)
  have inv_b: "tree_inv seen b" and ev: "evolves seen a b"
    using still_sound[OF st] inv by (simp_all add: sound_step_def)
  show "tree_inv seen (put_node n b)" using inv_b none new par ns by (intro tree_inv_put) simp_all
  show "evolves seen a (put_node n b)" using ev none new(1) by (rule evolves_put)
qed

lemma issue_sound: "sound_step seen b (snd (issue E h a ttl b))"
proof -
  define b1 where "b1 = snd (take_id E b)"
  define b2 where "b2 = snd (take_seq E b1)"
  define b3 where "b3 = snd (now E b2)"
  let ?n = "\<lparr>n_id = fst (take_id E b), n_parent = None, n_holder = h, n_authority = canonicalized a, n_ttl = ttl,
      n_state = Live, n_created = fst (now E b2), n_audit_seq = fst (take_seq E b1)\<rparr>"
  have res: "\<exists>q x z d. snd (issue E h a ttl b) = record_op E q ''issue'' x None z d None (put_node ?n b3)"
    unfolding issue_def by (auto simp: split_beta Let_def b1_def b2_def b3_def)
  have st: "still seen b b3"
    unfolding b3_def b2_def b1_def using still_trans take_id_still take_seq_still now_still by blast
  have "still seen b1 b3" unfolding b3_def b2_def using still_trans take_seq_still now_still by blast
  then have "seen (world b3) (n_id ?n)"
    using take_id_fresh(2)[of b] by (simp add: still_def moves_def b1_def)
  moreover have "fst (take_seq E b1) < audit_seq b3"
    by (simp add: b3_def b2_def take_seq_fresh)
  ultimately have "sound_step seen b (put_node ?n b3)"
    unfolding sound_step_def using put_sound[OF _ st, of ?n] take_id_fresh(1)[of b] by simp
  then show ?thesis using res sound_step_trans still_sound record_op_still by metis
qed

lemma issue_root_sound: "sound_step seen b (snd (issue_root E h a ttl b))"
  using issue_sound[of b h a ttl] by (simp add: issue_root_def split_beta split: option.splits)

end

section \<open>Deriving a child\<close>

lemma is_canonical_budget [simp]: "is_canonical (a\<lparr>a_scopes := (a_scopes a)\<lparr>budget := x\<rparr>\<rparr>) \<longleftrightarrow> is_canonical a"
  by (simp add: is_canonical_def Let_def well_formed_secret_to_def well_formed_net_special_def cong: option.case_cong)

lemma is_canonical_inherit [simp]: "is_canonical (inherit_budget p a b) \<longleftrightarrow> is_canonical a"
  by (simp add: inherit_budget_def split: option.splits)

lemma inherit_budget_idem [simp]: "inherit_budget p (inherit_budget p a b) b = inherit_budget p a b"
  by (auto simp: inherit_budget_def split: option.splits)

lemma inherit_budget_frame: "nodes c = nodes b \<Longrightarrow> inherit_budget p a c = inherit_budget p a b"
  by (simp add: inherit_budget_def)

text \<open>What a child of a node would hold: the request, canonical, with the parent's budget where it names none.\<close>

definition requested_authority :: "grant_id \<Rightarrow> authority \<Rightarrow> 'w broker \<Rightarrow> authority" where
  "requested_authority parent a b = inherit_budget parent (canonicalized a) b"

lemma requested_canonical [simp]: "is_canonical (requested_authority parent a b)"
  by (simp add: requested_authority_def)

lemma requested_idem [simp]: "inherit_budget parent (canonicalized (requested_authority parent a b)) b = requested_authority parent a b"
  by (simp add: canonicalized_id) (simp add: requested_authority_def)

text \<open>The three refusals of \<open>attenuate_core\<close>, or none.\<close>

definition attenuation_refusal :: "grant_id \<Rightarrow> authority \<Rightarrow> int \<Rightarrow> 'w broker \<Rightarrow> denial option" where
  "attenuation_refusal parent a t b =
     (case fmlookup (nodes b) parent of
        None \<Rightarrow> Some (UnknownNode parent)
      | Some p \<Rightarrow>
          (case eff_walk MAX_WALK (nodes b) (Some parent) t of
             Some (EffRevoked q) \<Rightarrow> Some (Revoked parent q)
           | Some (EffExpired x y) \<Rightarrow> Some (Expired parent x y)
           | None \<Rightarrow> Some (Expired parent 0 t)
           | Some EffLive \<Rightarrow>
               if attenuates a (n_authority p) then None
               else Some (Attenuation parent a (authority_intersect a (n_authority p)))))"

definition derived_node :: "'w env \<Rightarrow> grant_id \<Rightarrow> authority \<Rightarrow> holder \<Rightarrow> int option \<Rightarrow> 'w broker \<Rightarrow> node" where
  "derived_node E parent a h ttl b =
     (let b1 = snd (now E b)
      in \<lparr>n_id = fst (take_id E b1), n_parent = Some parent, n_holder = h, n_authority = a, n_ttl = ttl, n_state = Live,
          n_created = fst (now E b), n_audit_seq = fst (take_seq E (snd (take_id E b1)))\<rparr>)"

lemma attenuate_core_result:
  "attenuate_core E parent a0 h ttl b =
     (let a = requested_authority parent a0 b; b1 = snd (now E b)
      in case attenuation_refusal parent a (fst (now E b)) b of
           Some d \<Rightarrow> refuse E d b1
         | None \<Rightarrow> let n = derived_node E parent a h ttl b
                   in ((n_audit_seq n, Inr (n_id n)), put_node n (snd (take_seq E (snd (take_id E b1))))))"
proof -
  obtain t b1 where t: "now E b = (t, b1)" by (cases "now E b")
  have ns: "nodes b1 = nodes b" using step_frame(1)[of E b] t by simp
  show ?thesis
  proof (cases "fmlookup (nodes b) parent")
    case None
    then show ?thesis
      by (simp add: attenuate_core_def attenuation_refusal_def t ns)
  next
    case (Some p)
    obtain st where st: "(case eff_walk MAX_WALK (nodes b) (Some parent) t of Some st \<Rightarrow> st | None \<Rightarrow> EffExpired 0 t) = st"
      by blast
    have ref: "attenuation_refusal parent a t b =
        (case st of EffRevoked q \<Rightarrow> Some (Revoked parent q) | EffExpired x y \<Rightarrow> Some (Expired parent x y)
         | EffLive \<Rightarrow> if attenuates a (n_authority p) then None
                     else Some (Attenuation parent a (authority_intersect a (n_authority p))))" for a
      using Some st by (auto simp: attenuation_refusal_def split: option.splits eff_state.splits)
    show ?thesis
      unfolding attenuate_core_def effective_state_inherited_def Let_def t prod.case ns Some option.case st fst_conv snd_conv ref
      by (cases st) (simp_all add: t requested_authority_def attenuation_check_def derived_node_def split_beta)
  qed
qed

context fresh_world
begin

lemma attenuate_core_sound: "sound_step seen b (snd (attenuate_core E parent a0 h ttl b))"
proof -
  define a where "a = requested_authority parent a0 b"
  define n where "n = derived_node E parent a h ttl b"
  define b1 where "b1 = snd (now E b)"
  define b2 where "b2 = snd (take_id E b1)"
  define b3 where "b3 = snd (take_seq E b2)"
  have res: "snd (attenuate_core E parent a0 h ttl b) =
      (case attenuation_refusal parent a (fst (now E b)) b of Some d \<Rightarrow> snd (refuse E d b1 :: (nat \<times> (denial + grant_id)) \<times> 'w broker)
       | None \<Rightarrow> put_node n b3)"
    by (simp add: attenuate_core_result Let_def a_def n_def b1_def b2_def b3_def split: option.splits)
  show ?thesis
  proof (cases "attenuation_refusal parent a (fst (now E b)) b")
    case (Some d)
    have "still seen b (snd (refuse E d b1 :: (nat \<times> (denial + grant_id)) \<times> 'w broker))" unfolding b1_def by (rule still_trans[OF now_still refuse_still])
    then show ?thesis using res Some still_sound by simp
  next
    case None
    obtain p where p: "fmlookup (nodes b) parent = Some p"
      using None by (cases "fmlookup (nodes b) parent") (auto simp: attenuation_refusal_def)
    have live: "eff_walk MAX_WALK (nodes b) (Some parent) (fst (now E b)) = Some EffLive"
      and att: "attenuates a (n_authority p)"
      using None p by (auto simp: attenuation_refusal_def split: option.splits eff_state.splits if_splits)
    have st: "still seen b b3"
      unfolding b3_def b2_def b1_def using still_trans now_still take_id_still take_seq_still by blast
    have ids: "n_id n = fst (take_id E b1)" "n_parent n = Some parent" "n_authority n = a" "n_state n = Live"
      "n_audit_seq n = fst (take_seq E b2)"
      by (simp_all add: n_def derived_node_def Let_def b1_def b2_def)
    have s1: "still seen b b1" "still seen b2 b3" unfolding b1_def b3_def by simp_all
    have sound: "tree_inv seen (put_node n b3) \<and> evolves seen b (put_node n b3)" if inv: "tree_inv seen b"
    proof (rule put_sound[OF inv st])
      show "\<not> seen (world b) (n_id n)"
        using take_id_fresh(1)[of b1] s1(1) ids(1) by (auto simp: still_def moves_def)
      show "seen (world b3) (n_id n)"
        using take_id_fresh(2)[of b1] s1(2) ids(1) by (auto simp: still_def moves_def b2_def)
      show "n_audit_seq n < audit_seq b3" by (simp add: ids b3_def take_seq_fresh)
      show "is_canonical (n_authority n)" by (simp add: ids a_def)
      fix q assume "n_parent n = Some q"
      then have q: "q = parent" by (simp add: ids)
      have "still seen b b2" unfolding b2_def b1_def using still_trans now_still take_id_still by blast
      then have "audit_seq b \<le> audit_seq b2" by (simp add: still_def moves_def advances_def)
      then have "n_audit_seq p < n_audit_seq n"
        using inv p take_seq_fresh(1)[of b2 E] by (auto simp: tree_inv_def ids) (meson order_less_le_trans)
      moreover have "n_state p = Live"
      proof -
        have "ancestry_live (nodes b) parent (fst (now E b))" using live by (rule eff_walk_live_sound)
        then show ?thesis using p eff_live_state ancestry_live_self by blast
      qed
      ultimately show "\<exists>m. fmlookup (nodes b) q = Some m \<and> n_audit_seq m < n_audit_seq n \<and>
          attenuates (n_authority n) (n_authority m) \<and> (n_state m \<noteq> Live \<longrightarrow> n_state n \<noteq> Live)"
        using p att q by (simp add: ids)
    qed
    then show ?thesis using res None by (simp add: sound_step_def)
  qed
qed

lemma attenuate_sound: "sound_step seen b (snd (attenuate E parent a0 h ttl b))"
proof -
  let ?c = "attenuate_core E parent (inherit_budget parent (canonicalized a0) b) h ttl b"
  have "\<exists>q t d j. snd (attenuate E parent a0 h ttl b) = record_op E q ''attenuate'' (Some parent) t j d None (snd ?c)"
    unfolding attenuate_def Let_def by (cases ?c) (auto split: sum.splits prod.splits)
  then show ?thesis using sound_step_trans[OF attenuate_core_sound still_sound[OF record_op_still]] by metis
qed

end

section \<open>Revoking a subtree\<close>

text \<open>The nodes of a subtree marked, the rest as they were.\<close>

definition revoked_below :: "nat \<Rightarrow> grant_id \<Rightarrow> (grant_id, node) fmap \<Rightarrow> (grant_id, node) fmap \<Rightarrow> bool" where
  "revoked_below seq target ns ns' \<longleftrightarrow>
     (\<forall>i. fmlookup ns' i =
        (if below ns i target then map_option (revoked_at seq) (fmlookup ns i) else fmlookup ns i))"

lemma revoke_core_result:
  assumes ok: "tree_ok (nodes b)" and dom: "caller |\<in>| fmdom (nodes b)" "target |\<in>| fmdom (nodes b)"
    and auth: "below (nodes b) target caller"
  shows "\<exists>xs seq b2. distinct xs \<and> set xs = {i. below (nodes b) i target} \<and> seq = fst (take_seq E b) \<and>
     b2 = bump_epoch (snd (take_seq E b)) \<and>
     revoke_core E caller target b =
       ((seq, Inr (fst (revoke_subtree seq xs b2))), snd (revoke_subtree seq xs b2))"
proof -
  let ?b2 = "bump_epoch (snd (take_seq E b))"
  have ns: "nodes ?b2 = nodes b" by (simp add: bump_epoch_def)
  obtain xs where xs: "subtree_inclusive target ?b2 = Some xs" "distinct xs" "set xs = {i. below (nodes b) i target}"
    using subtree_inclusive_spec[of ?b2 target] ok dom(2) ns by auto
  have "is_self_or_descendant target caller b = Some True"
    using is_self_or_descendant_below[OF ok dom(2)] auth by simp
  then have "revoke_core E caller target b =
       ((fst (take_seq E b), Inr (fst (revoke_subtree (fst (take_seq E b)) xs ?b2))),
        snd (revoke_subtree (fst (take_seq E b)) xs ?b2))"
    using dom xs(1) by (simp add: revoke_core_def split_beta Let_def)
  then show ?thesis using xs(2,3) by blast
qed

lemma revoke_subtree_frame [simp]:
  "world (snd (revoke_subtree seq xs b)) = world b" "audit_seq (snd (revoke_subtree seq xs b)) = audit_seq b"
  "clock_high_water (snd (revoke_subtree seq xs b)) = clock_high_water b"
  "epoch (snd (revoke_subtree seq xs b)) = epoch b"
  "nodes (snd (revoke_subtree seq xs b)) = snd (mark_all seq xs (nodes b))"
  "adopted (snd (revoke_subtree seq xs b)) = adopted b" "strict_anchor (snd (revoke_subtree seq xs b)) = strict_anchor b"
  "adopted_chain_fps (snd (revoke_subtree seq xs b)) = adopted_chain_fps b"
  by (simp_all add: revoke_subtree_def split_beta Let_def)

lemma bump_epoch_frame [simp]:
  "world (bump_epoch b) = world b" "audit_seq (bump_epoch b) = audit_seq b" "nodes (bump_epoch b) = nodes b"
  "clock_high_water (bump_epoch b) = clock_high_water b" "epoch (bump_epoch b) = Suc (epoch b)"
  "adopted (bump_epoch b) = adopted b" "strict_anchor (bump_epoch b) = strict_anchor b"
  "adopted_chain_fps (bump_epoch b) = adopted_chain_fps b" "revoked_adoption_fps (bump_epoch b) = revoked_adoption_fps b"
  by (simp_all add: bump_epoch_def)

lemma revoke_subtree_sound:
  assumes S: "set xs = {i. below (nodes b) i target}"
  shows "sound_step seen b (snd (revoke_subtree seq xs b))"
  unfolding sound_step_def
proof
  let ?c = "snd (revoke_subtree seq xs b)"
  assume inv: "tree_inv seen b"
  have ok: "tree_ok (nodes b)" using inv by (rule tree_inv_ok)
  have lk: "\<exists>n. fmlookup (nodes b) i = Some n \<and> (m = n \<or> m = revoked_at seq n)" if "fmlookup (nodes ?c) i = Some m" for i m
    using that by (auto simp: mark_all_lookup split: if_splits)
  have "tree_ok (nodes ?c)" using tree_ok_mark[OF ok S] by simp
  moreover have "\<forall>i m. fmlookup (nodes ?c) i = Some m \<longrightarrow> n_audit_seq m < audit_seq ?c \<and> seen (world ?c) i"
  proof (intro allI impI)
    fix i m assume "fmlookup (nodes ?c) i = Some m"
    then obtain n where n: "fmlookup (nodes b) i = Some n" "m = n \<or> m = revoked_at seq n" using lk by blast
    then have "n_audit_seq m = n_audit_seq n" by auto
    then show "n_audit_seq m < audit_seq ?c \<and> seen (world ?c) i" using inv n(1) by (simp add: tree_inv_def)
  qed
  moreover have "evolves seen b ?c"
  proof (rule evolvesI)
    show "moves seen b ?c" by (simp add: moves_def advances_def)
    show "same_node n m" if "fmlookup (nodes ?c) i = Some m" "fmlookup (nodes b) i = Some n" for i m n
    proof -
      have "m = n \<or> m = revoked_at seq n" using lk[OF that(1)] that(2) by auto
      then show ?thesis by (auto simp: same_node_def revoked_at_def)
    qed
    show "\<not> seen (world b) i" if "fmlookup (nodes ?c) i = Some m" "fmlookup (nodes b) i = None" for i m
      using lk[OF that(1)] that(2) by auto
  qed
  ultimately show "tree_inv seen ?c \<and> evolves seen b ?c" by (simp add: tree_inv_def)
qed

lemma bump_epoch_still: "still seen b (bump_epoch b)"
  by (simp add: still_def moves_def advances_def)

context fresh_world
begin

lemma revoke_core_sound: "sound_step seen b (snd (revoke_core E caller target b))"
proof (cases "tree_inv seen b")
  case True
  have ok: "tree_ok (nodes b)" using True by (rule tree_inv_ok)
  show ?thesis
  proof (cases "caller |\<in>| fmdom (nodes b) \<and> target |\<in>| fmdom (nodes b) \<and> below (nodes b) target caller")
    case True
    then obtain xs seq b2 where r: "set xs = {i. below (nodes b) i target}" "b2 = bump_epoch (snd (take_seq E b))"
        "snd (revoke_core E caller target b) = snd (revoke_subtree seq xs b2)"
      using revoke_core_result[OF ok] by (metis snd_conv)
    have "sound_step seen b b2" unfolding r(2) using still_sound still_trans take_seq_still bump_epoch_still by blast
    moreover have "sound_step seen b2 (snd (revoke_subtree seq xs b2))"
      using r(1,2) by (intro revoke_subtree_sound[of _ _ target]) simp
    ultimately show ?thesis using r(3) sound_step_trans by simp
  next
    case False
    have "is_self_or_descendant target caller b \<noteq> Some True" if "target |\<in>| fmdom (nodes b)" "caller |\<in>| fmdom (nodes b)"
      using is_self_or_descendant_below[OF ok that(1)] False that by simp
    then have "\<exists>d. revoke_core E caller target b = refuse E d b"
      using False unfolding revoke_core_def by auto
    then show ?thesis using refuse_still still_sound by metis
  qed
qed (simp add: sound_step_def)

lemma revoke_saying_sound: "sound_step seen b (snd (revoke_saying E caller target why b))"
proof -
  have "\<exists>q t p d. snd (revoke_saying E caller target why b) =
      record_op E q ''revoke'' t (Some target) p d None (snd (revoke_core E caller target b))"
    unfolding revoke_saying_def by (auto simp: split_beta)
  then show ?thesis using sound_step_trans[OF revoke_core_sound still_sound[OF record_op_still]] by metis
qed

end

section \<open>What the operations keep\<close>

text \<open>A relation between states that is kept by every primitive step and by every change of the books that are not
  the tree and not the guard's settings. What an operation does to it is proved once, here, for every such relation.\<close>

locale frame_contract =
  fixes E :: "'w env" and R :: "'w broker \<Rightarrow> 'w broker \<Rightarrow> bool"
  assumes R_refl: "R b b" and R_trans: "R a b \<Longrightarrow> R b c \<Longrightarrow> R a c"
    and R_now: "R b (snd (now E b))" and R_take_seq: "R b (snd (take_seq E b))"
    and R_record: "R b (record_op E q act x y z d s b)" and R_random: "R b (snd (take_random E k b))"
    and R_key: "R b (b\<lparr>broker_key := key\<rparr>)" and R_epoch: "R b (b\<lparr>epoch := Suc (epoch b)\<rparr>)"
    and R_redeemed: "R b (b\<lparr>redeemed := ns\<rparr>)" and R_deadmen: "R b (b\<lparr>deadmen := dm\<rparr>)"
    and R_proposals: "R b (b\<lparr>proposals := ps\<rparr>)"
    and R_guard: "gs_policy g = gs_policy (guard b) \<Longrightarrow> gs_bypass g = gs_bypass (guard b) \<Longrightarrow>
      gs_owner g = gs_owner (guard b) \<Longrightarrow> R b (b\<lparr>guard := g\<rparr>)"
begin

lemma refl_step [contract_steps]: "R b b"
  by (rule R_refl)

lemmas primitive_steps [contract_steps] =
  R_trans[OF _ R_now] R_trans[OF _ R_take_seq] R_trans[OF _ R_record] R_trans[OF _ R_random]
  R_trans[OF _ R_redeemed] R_trans[OF _ R_deadmen] R_trans[OF _ R_proposals]

lemma log_op_step [contract_steps]: "R a b \<Longrightarrow> R a (snd (log_op E x y z u v w b))"
  by (simp add: log_op_def split_beta contract_steps)

lemma refuse_step [contract_steps]: "R a b \<Longrightarrow> R a (snd (refuse E d b))"
  by (simp add: refuse_def split_beta contract_steps)

lemma effective_state_step [contract_steps]: "R a b \<Longrightarrow> R a (snd (effective_state E i b))"
  by (simp add: effective_state_def split_beta contract_steps)

lemma ensure_key_step [contract_steps]: "R a b \<Longrightarrow> R a (snd (ensure_key E b))"
  unfolding ensure_key_def split_beta by (auto intro: contract_steps R_trans[OF _ R_key] split: option.split)

lemma set_key_step [contract_steps]: "R a b \<Longrightarrow> R a (set_key k b)"
  unfolding set_key_def by (rule R_trans[OF _ R_key])

lemma bump_epoch_step [contract_steps]: "R a b \<Longrightarrow> R a (bump_epoch b)"
  unfolding bump_epoch_def by (rule R_trans[OF _ R_epoch])

end

text \<open>One that is kept by delegating, by revoking and by naming a holder too.\<close>

locale custody_contract = frame_contract +
  assumes R_attenuate_core: "R b (snd (attenuate_core E parent auth h ttl b))"
    and R_revoke: "R b (snd (revoke_saying E caller target why b))"
    and R_holder: "R b (set_holder_peer i peer b)"
begin

lemmas tree_steps [contract_steps] =
  R_trans[OF _ R_attenuate_core] R_trans[OF _ R_revoke] R_trans[OF _ R_holder]

lemma attenuate_step [contract_steps]: "R a b \<Longrightarrow> R a (snd (attenuate E parent auth h ttl b))"
proof -
  assume ab: "R a b"
  let ?c = "attenuate_core E parent (inherit_budget parent (canonicalized auth) b) h ttl b"
  have "\<exists>q t d j. snd (attenuate E parent auth h ttl b) = record_op E q ''attenuate'' (Some parent) t j d None (snd ?c)"
    unfolding attenuate_def Let_def by (cases ?c) (auto split: sum.splits prod.splits)
  then show ?thesis using R_trans[OF ab] R_trans[OF R_attenuate_core R_record] by metis
qed

lemma revoke_step [contract_steps]: "R a b \<Longrightarrow> R a (snd (revoke E caller target b))"
  unfolding revoke_def by (rule contract_steps)

end

lemma same_tree_still:
  "nodes c = nodes b \<Longrightarrow> world c = world b \<Longrightarrow> audit_seq c = audit_seq b \<Longrightarrow> clock_high_water c = clock_high_water b \<Longrightarrow>
   still seen b c"
  by (simp add: still_def moves_def advances_def)

sublocale fresh_world \<subseteq> calm: frame_contract E "still seen"
proof unfold_locales
  show "still seen b b" for b by simp
  show "still seen a c" if "still seen a b" "still seen b c" for a b c using that by (rule still_trans)
qed (simp_all add: same_tree_still)

sublocale fresh_world \<subseteq> sound: custody_contract E "sound_step seen"
proof unfold_locales
  show "sound_step seen a c" if "sound_step seen a b" "sound_step seen b c" for a b c
    using that by (rule sound_step_trans)
  show "sound_step seen b (snd (attenuate_core E parent auth h ttl b))" for b parent auth h ttl
    by (rule attenuate_core_sound)
  show "sound_step seen b (snd (revoke_saying E caller target why b))" for b caller target why
    by (rule revoke_saying_sound)
  show "sound_step seen b (set_holder_peer i peer b)" for b i peer by (rule set_holder_peer_sound)
qed (simp_all add: still_sound same_tree_still)

context fresh_world
begin

lemma sound_contract: "custody_contract E (sound_step seen)"
  by unfold_locales

end

end
