(* ===== verification/Guard.thy ===== *)
theory Guard imports Tree_World begin

text \<open>
  The guard's operations on the broker, \<open>crates/delulu-broker/src/guard.rs\<close>: the verdict on a use, the check
  at a mint, the owner's edits, and the queue of requests and permits. Only delegated nodes are gated. The
  deadline \<open>now + ttl\<close> of a permit and the age of a request are plain additions of \<open>i64\<close>, which wrap.
\<close>

section \<open>Constants and small helpers\<close>

definition REQUEST_TTL_MILLIS :: int where "REQUEST_TTL_MILLIS = 1800000"

definition DEFAULT_PERMIT_TTL_MILLIS :: int where "DEFAULT_PERMIT_TTL_MILLIS = 900000"

definition generate_owner_code :: "'w env \<Rightarrow> 'w broker \<Rightarrow> string \<times> 'w broker" where
  "generate_owner_code E b = (case take_random E 12 b of (bs, b1) \<Rightarrow> (''gow1_'' @ to_hex bs, b1))"

definition owner_ok :: "guard_state \<Rightarrow> string option \<Rightarrow> bool" where
  "owner_ok g provided = (case (gs_owner g, provided) of (Some c, Some p) \<Rightarrow> c = p | _ \<Rightarrow> False)"

datatype guard_verdict = Ungated | PermitUse | BypassedUse string | WarnUse string | Block denial

definition upd_guard :: "(guard_state \<Rightarrow> guard_state) \<Rightarrow> 'w broker \<Rightarrow> 'w broker" where
  "upd_guard f b = b\<lparr>guard := f (guard b)\<rparr>"

definition with_guard_policy :: "guard_policy \<Rightarrow> bool \<Rightarrow> 'w broker \<Rightarrow> 'w broker" where
  "with_guard_policy p poisoned = upd_guard (\<lambda>g. g\<lparr>gs_policy := p, gs_poisoned := poisoned\<rparr>)"

definition with_owner_code :: "string \<Rightarrow> 'w broker \<Rightarrow> 'w broker" where
  "with_owner_code code = upd_guard (\<lambda>g. g\<lparr>gs_owner := Some code\<rparr>)"

definition with_bypass :: "bool \<Rightarrow> 'w broker \<Rightarrow> 'w broker" where
  "with_bypass on = upd_guard (\<lambda>g. g\<lparr>gs_bypass := on\<rparr>)"

definition guard_pending_count :: "'w broker \<Rightarrow> nat" where
  "guard_pending_count b = length (filter (\<lambda>r. rq_status r = Pending) (gs_requests (guard b)))"

definition guard_node_is_gated :: "grant_id \<Rightarrow> 'w broker \<Rightarrow> bool" where
  "guard_node_is_gated i b = (case inspect i b of Some n \<Rightarrow> n_parent n \<noteq> None | None \<Rightarrow> True)"

definition permit_unexpired :: "int \<Rightarrow> permit \<Rightarrow> bool" where
  "permit_unexpired t p = (case p_expires p of Some e \<Rightarrow> t < e | None \<Rightarrow> True)"

definition request_kept :: "int \<Rightarrow> guard_request \<Rightarrow> bool" where
  "request_kept t r = (rq_status r = Pending \<longrightarrow> t < wrap_i64 (rq_created r + REQUEST_TTL_MILLIS))"

definition guard_gc :: "'w env \<Rightarrow> 'w broker \<Rightarrow> 'w broker" where
  "guard_gc E b =
     (case now E b of
        (t, b1) \<Rightarrow> upd_guard (\<lambda>g. g\<lparr>gs_permits := filter (permit_unexpired t) (gs_permits g),
                                   gs_requests := filter (request_kept t) (gs_requests g)\<rparr>) b1)"

section \<open>The verdict on a use\<close>

text \<open>The first permit that fits, with one use taken off, dropped when none is left.\<close>

fun spend_permit :: "(permit \<Rightarrow> bool) \<Rightarrow> permit list \<Rightarrow> permit list option" where
  "spend_permit P [] = None"
| "spend_permit P (p # ps) =
     (if P p then
        (let p' = p\<lparr>p_uses := map_option (\<lambda>k. k - 1) (p_uses p)\<rparr>
         in Some (if p_uses p' = Some 0 then ps else p' # ps))
      else map_option ((#) p) (spend_permit P ps))"

definition warn_note :: "string \<Rightarrow> grant_id \<Rightarrow> string" where
  "warn_note rule i = ''guard warn: `'' @ rule @ ''` used by delegated node `'' @ i @ ''` (audited)''"

definition bypass_note :: "string \<Rightarrow> grant_id \<Rightarrow> string" where
  "bypass_note rule i =
     ''guard BYPASSED: `'' @ rule @ ''` proceeding for delegated node `'' @ i @ ''` ''
     @ [CHR 0xE2, CHR 0x80, CHR 0x94] @ '' audited (guard_bypassed_use)''"

definition guard_verdict_use ::
  "'w env \<Rightarrow> grant_id \<Rightarrow> operation \<Rightarrow> string option \<Rightarrow> 'w broker \<Rightarrow> guard_verdict \<times> 'w broker" where
  "guard_verdict_use E i p arg b =
     (if \<not> guard_node_is_gated i b then (Ungated, b)
      else
        (case tier_for_use (env_libs E) (gs_policy (guard b)) p arg of
           None \<Rightarrow> (Ungated, b)
         | Some (WarnTier, rule) \<Rightarrow> (WarnUse (warn_note rule i), b)
         | Some (Sealed, rule) \<Rightarrow> (Block (GuardSealed i rule), b)
         | Some (Guarded, rule) \<Rightarrow>
             (if gs_bypass (guard b) then (BypassedUse (bypass_note rule i), b)
              else
                let wants = narrowest_permit p arg;
                    blocked = GuardBlocked i rule wants
                in if gs_poisoned (guard b) then (Block blocked, b)
                   else
                     let b1 = guard_gc E b
                     in case spend_permit (\<lambda>q. p_node q = i \<and> covers_use (env_libs E) (p_subset q) p arg) (gs_permits (guard b1)) of
                          Some ps \<Rightarrow> (PermitUse, upd_guard (\<lambda>g. g\<lparr>gs_permits := ps\<rparr>) b1)
                        | None \<Rightarrow>
                            (case find (\<lambda>r. rq_node r = i \<and> covers_use (env_libs E) (rq_subset r) p arg)
                                    (rev (gs_requests (guard b1))) of
                               Some r \<Rightarrow>
                                 (Block (case rq_status r of
                                           Pending \<Rightarrow> GuardPending i (rq_id r)
                                         | DeniedWith comment \<Rightarrow> GuardDenied i comment
                                         | Approved \<Rightarrow> blocked), b1)
                             | None \<Rightarrow> (Block blocked, b1)))))"

section \<open>The check at a mint\<close>

definition block_mint :: "'w env \<Rightarrow> grant_id \<Rightarrow> denial \<Rightarrow> 'w broker \<Rightarrow> (denial + unit) \<times> 'w broker" where
  "block_mint E parent d b = (Inl d, snd (log_op E ''guard_block'' (Some parent) None None ''deny'' None b))"

definition guard_check_mint ::
  "'w env \<Rightarrow> authority \<Rightarrow> grant_id \<Rightarrow> string option \<Rightarrow> 'w broker \<Rightarrow> (denial + unit) \<times> 'w broker" where
  "guard_check_mint E child parent owner b =
     (case tier_for_mint (env_libs E) (gs_policy (guard b)) child of
        None \<Rightarrow> (Inr (), b)
      | Some (tier, rule) \<Rightarrow>
          if owner_ok (guard b) owner then (Inr (), b)
          else if tier = Sealed then block_mint E parent (GuardSealed parent rule) b
          else if gs_poisoned (guard b) then block_mint E parent (GuardMintBlocked parent rule) b
          else
            let b1 = guard_gc E b
            in if list_ex (\<lambda>q. p_node q = parent \<and> mint_within_subset (env_libs E) (p_subset q) child) (gs_permits (guard b1))
               then (Inr (), b1)
               else block_mint E parent (GuardMintBlocked parent rule) b1)"

section \<open>The owner's edits\<close>

definition guard_policy_set ::
  "'w env \<Rightarrow> string option \<Rightarrow> guard_class \<Rightarrow> string \<Rightarrow> guard_tier \<Rightarrow> 'w broker \<Rightarrow> (denial + unit) \<times> 'w broker" where
  "guard_policy_set E owner cl pat tier b =
     (if \<not> owner_ok (guard b) owner then (Inl (GuardOwner ''policy set''), b)
      else (case dead_pattern_reason cl pat of
              Some why \<Rightarrow> (Inl (DeadGuardPattern (rule_label cl pat) why), b)
            | None \<Rightarrow>
                let b1 = bump_epoch (upd_guard (\<lambda>g. g\<lparr>gs_policy := snd (policy_set cl pat tier (gs_policy g))\<rparr>) b)
                in (Inr (), snd (log_op E ''guard_policy_edit'' None
                       (Some (''set '' @ rule_label cl pat @ '' '' @ tier_wire_name tier)) None ''allow'' None b1))))"

definition guard_policy_unset ::
  "'w env \<Rightarrow> string option \<Rightarrow> guard_class \<Rightarrow> string \<Rightarrow> 'w broker \<Rightarrow> (denial + bool) \<times> 'w broker" where
  "guard_policy_unset E owner cl pat b =
     (if \<not> owner_ok (guard b) owner then (Inl (GuardOwner ''policy unset''), b)
      else
        (case policy_unset cl pat (gs_policy (guard b)) of
           (removed, rules) \<Rightarrow>
             let b1 = bump_epoch (upd_guard (\<lambda>g. g\<lparr>gs_policy := rules\<rparr>) b)
             in (Inr removed, snd (log_op E ''guard_policy_edit'' None (Some (''unset '' @ rule_label cl pat)) None
                    (if removed then ''allow'' else ''deny'') None b1))))"

definition guard_set_bypass :: "'w env \<Rightarrow> string option \<Rightarrow> bool \<Rightarrow> 'w broker \<Rightarrow> (denial + unit) \<times> 'w broker" where
  "guard_set_bypass E owner on b =
     (if \<not> owner_ok (guard b) owner then (Inl (GuardOwner ''bypass toggle''), b)
      else
        let b1 = bump_epoch (upd_guard (\<lambda>g. g\<lparr>gs_bypass := on\<rparr>) b)
        in (Inr (), snd (log_op E (if on then ''guard_bypass_on'' else ''guard_bypass_off'') None None None ''allow'' None b1)))"

definition withdraw_unrecorded_bypass :: "'w broker \<Rightarrow> 'w broker" where
  "withdraw_unrecorded_bypass b = bump_epoch (upd_guard (\<lambda>g. g\<lparr>gs_bypass := False\<rparr>) b)"

definition withdraw_unrecorded_policy_edit :: "guard_policy \<Rightarrow> 'w broker \<Rightarrow> 'w broker" where
  "withdraw_unrecorded_policy_edit before b = bump_epoch (upd_guard (\<lambda>g. g\<lparr>gs_policy := before\<rparr>) b)"

text \<open>The first request that fits, changed.\<close>

fun change_first :: "(guard_request \<Rightarrow> bool) \<Rightarrow> req_status \<Rightarrow> guard_request list \<Rightarrow> guard_request list" where
  "change_first P st [] = []"
| "change_first P st (r # rs) = (if P r then r\<lparr>rq_status := st\<rparr> # rs else r # change_first P st rs)"

definition withdraw_unrecorded_approval :: "string \<Rightarrow> string \<Rightarrow> 'w broker \<Rightarrow> 'w broker" where
  "withdraw_unrecorded_approval request permit =
     upd_guard (\<lambda>g. g\<lparr>gs_permits := filter (\<lambda>p. p_id p \<noteq> permit) (gs_permits g),
                      gs_requests := change_first (\<lambda>r. rq_id r = request) Pending (gs_requests g)\<rparr>)"

definition withdraw_unrecorded_request :: "string \<Rightarrow> 'w broker \<Rightarrow> 'w broker" where
  "withdraw_unrecorded_request rid =
     upd_guard (\<lambda>g. g\<lparr>gs_requests := filter (\<lambda>r. rq_id r \<noteq> rid) (gs_requests g)\<rparr>)"

section \<open>Requests and permits\<close>

definition sealed_rule :: "libs \<Rightarrow> guard_policy \<Rightarrow> guard_subset \<Rightarrow> string option" where
  "sealed_rule lb rules sub =
     (case tier_for_subset lb rules sub of Some (Sealed, rule) \<Rightarrow> Some rule | _ \<Rightarrow> None)"

definition request_id :: "nat \<Rightarrow> string" where "request_id k = ''gr_'' @ pad 4 (int k)"

definition permit_id :: "nat \<Rightarrow> string" where "permit_id k = ''gp_'' @ pad 4 (int k)"

definition guard_request_op ::
  "'w env \<Rightarrow> grant_id \<Rightarrow> guard_subset \<Rightarrow> string \<Rightarrow> 'w broker \<Rightarrow> (denial + string \<times> bool) \<times> 'w broker" where
  "guard_request_op E i sub why b =
     (case sealed_rule (env_libs E) (gs_policy (guard b)) sub of
        Some rule \<Rightarrow> (Inl (GuardSealed i rule), b)
      | None \<Rightarrow>
          let b1 = guard_gc E b
          in case find (\<lambda>r. rq_node r = i \<and> rq_subset r = sub \<and> rq_status r = Pending) (gs_requests (guard b1)) of
               Some r \<Rightarrow> (Inr (rq_id r, True), b1)
             | None \<Rightarrow>
                 let k = gs_next_request (guard b1);
                     rid = request_id k;
                     (t, b2) = now E b1;
                     r = \<lparr>rq_id = rid, rq_node = i, rq_subset = sub, rq_why = why, rq_created = t, rq_status = Pending\<rparr>;
                     b3 = upd_guard (\<lambda>g. g\<lparr>gs_requests := gs_requests g @ [r], gs_next_request := Suc k\<rparr>) b2
                 in (Inr (rid, False),
                     snd (log_op E ''guard_request'' (Some i) (Some (join_with '','' (subset_labels sub)))
                        (Some (obj_of [(''why'', JString why), (''request'', JString rid)])) ''allow'' None b3)))"

definition guard_pending :: "'w env \<Rightarrow> 'w broker \<Rightarrow> guard_request list \<times> 'w broker" where
  "guard_pending E b = (let b1 = guard_gc E b in (gs_requests (guard b1), b1))"

definition guard_permits :: "'w env \<Rightarrow> 'w broker \<Rightarrow> permit list \<times> 'w broker" where
  "guard_permits E b = (let b1 = guard_gc E b in (gs_permits (guard b1), b1))"

definition opt_json :: "('a \<Rightarrow> json) \<Rightarrow> 'a option \<Rightarrow> json" where
  "opt_json f x = (case x of Some v \<Rightarrow> f v | None \<Rightarrow> JNull)"

definition pending_request :: "string \<Rightarrow> guard_request \<Rightarrow> bool" where
  "pending_request rid r \<longleftrightarrow> rq_id r = rid \<and> rq_status r = Pending"

definition guard_approve ::
  "'w env \<Rightarrow> string option \<Rightarrow> string \<Rightarrow> int option \<Rightarrow> nat option \<Rightarrow> string option \<Rightarrow> 'w broker \<Rightarrow>
     (denial + string option) \<times> 'w broker" where
  "guard_approve E owner rid ttl uses comment b =
     (if \<not> owner_ok (guard b) owner then (Inl (GuardOwner ''approve''), b)
      else
        let b1 = guard_gc E b
        in case find (pending_request rid) (gs_requests (guard b1)) of
             None \<Rightarrow> (Inr None, b1)
           | Some r \<Rightarrow>
               (case sealed_rule (env_libs E) (gs_policy (guard b1)) (rq_subset r) of
                  Some rule \<Rightarrow> (Inl (GuardSealed (rq_node r) rule), b1)
                | None \<Rightarrow>
                    let k = gs_next_permit (guard b1);
                        pid = permit_id k;
                        b2 = upd_guard (\<lambda>g. g\<lparr>gs_requests := change_first (pending_request rid) Approved (gs_requests g),
                                              gs_next_permit := Suc k\<rparr>) b1;
                        (t, b3) = now E b2;
                        p = \<lparr>p_id = pid, p_node = rq_node r, p_subset = rq_subset r,
                             p_expires = Some (wrap_i64 (t + (case ttl of Some x \<Rightarrow> x | None \<Rightarrow> DEFAULT_PERMIT_TTL_MILLIS))),
                             p_uses = uses\<rparr>;
                        b4 = upd_guard (\<lambda>g. g\<lparr>gs_permits := gs_permits g @ [p]\<rparr>) b3
                    in (Inr (Some pid),
                        snd (log_op E ''guard_approve'' (Some (rq_node r)) (Some pid)
                           (Some (obj_of [(''comment'', opt_json JString comment), (''ttl_millis'', opt_json JInt ttl),
                                          (''uses'', opt_json (JInt \<circ> int) uses)])) ''allow'' None b4))))"

definition guard_deny :: "'w env \<Rightarrow> string option \<Rightarrow> string \<Rightarrow> string \<Rightarrow> 'w broker \<Rightarrow> (denial + bool) \<times> 'w broker" where
  "guard_deny E owner rid comment b =
     (if \<not> owner_ok (guard b) owner then (Inl (GuardOwner ''deny''), b)
      else
        let b1 = guard_gc E b
        in case find (pending_request rid) (gs_requests (guard b1)) of
             None \<Rightarrow> (Inr False, b1)
           | Some r \<Rightarrow>
               let b2 = upd_guard (\<lambda>g. g\<lparr>gs_requests := change_first (pending_request rid) (DeniedWith comment) (gs_requests g)\<rparr>) b1
               in (Inr True, snd (log_op E ''guard_deny'' (Some (rq_node r)) (Some comment) None ''deny'' None b2)))"

definition guard_permit_revoke :: "'w env \<Rightarrow> string option \<Rightarrow> string \<Rightarrow> 'w broker \<Rightarrow> (denial + bool) \<times> 'w broker" where
  "guard_permit_revoke E owner pid b =
     (if \<not> owner_ok (guard b) owner then (Inl (GuardOwner ''permits revoke''), b)
      else
        let ps = gs_permits (guard b);
            i = map_option p_node (find (\<lambda>p. p_id p = pid) ps);
            kept = filter (\<lambda>p. p_id p \<noteq> pid) ps;
            removed = (length kept \<noteq> length ps);
            b1 = upd_guard (\<lambda>g. g\<lparr>gs_permits := kept\<rparr>) b
        in (Inr removed,
            if removed then snd (log_op E ''guard_permit_revoke'' i (Some pid) None ''allow'' None b1) else b1))"

section \<open>The guard leaves the tree alone\<close>

lemma upd_guard_frame [simp]:
  "nodes (upd_guard f b) = nodes b" "world (upd_guard f b) = world b" "audit_seq (upd_guard f b) = audit_seq b"
  "clock_high_water (upd_guard f b) = clock_high_water b" "guard (upd_guard f b) = f (guard b)"
  "sink_on (upd_guard f b) = sink_on b" "epoch (upd_guard f b) = epoch b" "adopted (upd_guard f b) = adopted b"
  "strict_anchor (upd_guard f b) = strict_anchor b" "redeemed (upd_guard f b) = redeemed b"
  "adopted_chain_fps (upd_guard f b) = adopted_chain_fps b"
  "revoked_adoption_fps (upd_guard f b) = revoked_adoption_fps b" "deadmen (upd_guard f b) = deadmen b"
  "proposals (upd_guard f b) = proposals b"
  by (simp_all add: upd_guard_def)

text \<open>A change of the guard that is not to its policy, its bypass or its owner's code.\<close>

definition settings :: "guard_state \<Rightarrow> guard_policy \<times> bool \<times> string option" where
  "settings g = (gs_policy g, gs_bypass g, gs_owner g)"

context frame_contract
begin

lemma upd_guard_step: "R a b \<Longrightarrow> settings (f (guard b)) = settings (guard b) \<Longrightarrow> R a (upd_guard f b)"
  unfolding upd_guard_def settings_def by (rule R_trans[OF _ R_guard]) auto

lemma guard_gc_step [contract_steps]: "R a b \<Longrightarrow> R a (guard_gc E b)"
  unfolding guard_gc_def split_beta by (intro upd_guard_step contract_steps) (auto simp: settings_def)

lemma generate_owner_code_step [contract_steps]: "R a b \<Longrightarrow> R a (snd (generate_owner_code E b))"
  by (simp add: generate_owner_code_def split_beta contract_steps)

lemma guard_verdict_step [contract_steps]: "R a b \<Longrightarrow> R a (snd (guard_verdict_use E i p arg b))"
  unfolding guard_verdict_use_def Let_def
  by (auto intro!: upd_guard_step contract_steps simp: settings_def split: option.split guard_tier.split prod.split)

lemma guard_check_mint_step [contract_steps]: "R a b \<Longrightarrow> R a (snd (guard_check_mint E auth p ow b))"
  unfolding guard_check_mint_def Let_def block_mint_def
  by (auto intro!: contract_steps split: option.split prod.split)

lemma guard_request_step [contract_steps]: "R a b \<Longrightarrow> R a (snd (guard_request_op E i sub why b))"
  unfolding guard_request_op_def Let_def split_beta
  by (auto intro!: upd_guard_step contract_steps simp: settings_def split: option.split)

lemma guard_queue_step [contract_steps]:
  "R a b \<Longrightarrow> R a (snd (guard_pending E b))" "R a b \<Longrightarrow> R a (snd (guard_permits E b))"
  by (simp_all add: guard_pending_def guard_permits_def Let_def contract_steps)

lemma guard_approve_step [contract_steps]: "R a b \<Longrightarrow> R a (snd (guard_approve E owner rid ttl uses c b))"
  unfolding guard_approve_def Let_def split_beta
  by (auto intro!: upd_guard_step contract_steps simp: settings_def split: option.split)

lemma guard_deny_step [contract_steps]: "R a b \<Longrightarrow> R a (snd (guard_deny E owner rid c b))"
  unfolding guard_deny_def Let_def split_beta
  by (auto intro!: upd_guard_step contract_steps simp: settings_def split: option.split)

lemma guard_permit_revoke_step [contract_steps]: "R a b \<Longrightarrow> R a (snd (guard_permit_revoke E owner pid b))"
  unfolding guard_permit_revoke_def Let_def split_beta
  by (auto intro!: upd_guard_step contract_steps simp: settings_def)

lemma guard_withdraw_step [contract_steps]:
  "R a b \<Longrightarrow> R a (withdraw_unrecorded_approval rid pid b)" "R a b \<Longrightarrow> R a (withdraw_unrecorded_request rid b)"
  unfolding withdraw_unrecorded_approval_def withdraw_unrecorded_request_def
  by (auto intro!: upd_guard_step simp: settings_def)

end

section \<open>The owner's edits leave the tree alone\<close>

lemma upd_guard_still [simp]: "still seen b (upd_guard f b)"
  by (simp add: still_def moves_def advances_def)

lemma bump_upd_still [simp]: "still seen b (bump_epoch (upd_guard f b))"
  by (rule still_trans[OF upd_guard_still bump_epoch_still])

context fresh_world
begin

lemma still_log: "still seen a b \<Longrightarrow> still seen a (snd (log_op E x y z u v w b))"
  using still_trans log_op_still by blast

lemma guard_edits_still:
  "still seen b (snd (guard_policy_set E owner cl pat tier b))"
  "still seen b (snd (guard_policy_unset E owner cl pat b))"
  "still seen b (snd (guard_set_bypass E owner on b))"
  "still seen b (withdraw_unrecorded_bypass b)"
  "still seen b (withdraw_unrecorded_policy_edit before b)"
  unfolding guard_policy_set_def guard_policy_unset_def guard_set_bypass_def withdraw_unrecorded_bypass_def
    withdraw_unrecorded_policy_edit_def Let_def split_beta
  by (auto intro: still_log split: option.split)

end

end
