(* ===== verification/Validate.thy ===== *)
theory Validate imports Guard begin

text \<open>
  Whether a node may do an operation, \<open>crates/delulu-broker/src/validate.rs\<close>: the one check shared by the
  synchronous path and the snapshots, the checks of the broker with their records, and the records of
  refusals decided elsewhere.
\<close>

datatype decision = AllowOp "nat option" | DenyOp denial

definition is_allow :: "decision \<Rightarrow> bool" where
  "is_allow d = (case d of AllowOp _ \<Rightarrow> True | DenyOp _ \<Rightarrow> False)"

definition decision_denial :: "decision \<Rightarrow> denial option" where
  "decision_denial d = (case d of DenyOp x \<Rightarrow> Some x | AllowOp _ \<Rightarrow> None)"

record guarded_decision =
  gd_decision :: decision
  gd_warn :: "string option"

definition gd_allow :: "nat option \<Rightarrow> guarded_decision" where
  "gd_allow seq = \<lparr>gd_decision = AllowOp seq, gd_warn = None\<rparr>"

definition gd_deny :: "denial \<Rightarrow> guarded_decision" where
  "gd_deny d = \<lparr>gd_decision = DenyOp d, gd_warn = None\<rparr>"

section \<open>The check itself\<close>

definition arg_in_scope :: "scopes \<Rightarrow> operation \<Rightarrow> string \<Rightarrow> bool" where
  "arg_in_scope s p arg =
     (case p of
        OpFsRead \<Rightarrow> fBex (fs_read s) (is_descendant_or_equal arg)
      | OpFsWrite \<Rightarrow> fBex (fs_write s) (is_descendant_or_equal arg)
      | OpNet \<Rightarrow> fBex (net s) (\<lambda>pat. host_matches arg (host_of pat))
      | OpDeclassify \<Rightarrow> arg |\<in>| declassify s
      | OpForeignBind \<Rightarrow> arg |\<in>| foreign_c s
      | OpActuate \<Rightarrow> grants_device (device s) arg
      | OpClock \<Rightarrow> True | OpRand \<Rightarrow> True | OpConsole \<Rightarrow> True | OpPluginLoad \<Rightarrow> True)"

definition path_judged :: "grant_id \<Rightarrow> scopes \<Rightarrow> string \<Rightarrow> string \<Rightarrow> string option \<Rightarrow> denial + unit" where
  "path_judged i s arg path meth =
     (let m = (case meth of Some m \<Rightarrow> m | None \<Rightarrow> ''GET'')
      in case judge_all (sorted_elems (net s)) m arg path of
           Allow \<Rightarrow> Inr ()
         | Ambiguous why \<Rightarrow> Inl (NetPath i arg path (Some why))
         | OtherMethod \<Rightarrow> Inl (NetMethod i arg path (if m \<in> set METHODS then m else ''an unnamed method''))
         | OutsidePath \<Rightarrow> Inl (NetPath i arg path None)
         | OtherHost \<Rightarrow> Inl (NetPath i arg path None))"

definition effect_refusal :: "grant_id \<Rightarrow> authority \<Rightarrow> operation \<Rightarrow> denial option" where
  "effect_refusal i a p =
     (case required_effect p of
        None \<Rightarrow> None
      | Some e \<Rightarrow> if e |\<in>| effects a then None else Some (OutOfScope i ''effects'' (effect_name e)))"

definition validate ::
  "grant_id \<Rightarrow> eff_state \<Rightarrow> authority \<Rightarrow> operation \<Rightarrow> string option \<Rightarrow> string option \<Rightarrow> string option \<Rightarrow> denial + unit" where
  "validate i st a p arg url meth =
     (case st of
        EffRevoked q \<Rightarrow> Inl (Revoked i q)
      | EffExpired x y \<Rightarrow> Inl (Expired i x y)
      | EffLive \<Rightarrow>
          (case effect_refusal i a p of
             Some d \<Rightarrow> Inl d
           | None \<Rightarrow>
               (case arg of
                  None \<Rightarrow> Inr ()
                | Some x \<Rightarrow>
                    if \<not> arg_in_scope (a_scopes a) p x then Inl (OutOfScope i (scope_dimension p) x)
                    else (case url of
                            Some path \<Rightarrow> if p = OpNet then path_judged i (a_scopes a) x path meth else Inr ()
                          | None \<Rightarrow> Inr ()))))"

section \<open>The broker's checks\<close>

definition node_view :: "grant_id \<Rightarrow> int \<Rightarrow> 'w broker \<Rightarrow> (eff_state \<times> authority) option" where
  "node_view i t b =
     (case effective_state_inherited i t b of
        None \<Rightarrow> None
      | Some st \<Rightarrow> map_option (\<lambda>n. (st, n_authority n)) (inspect i b))"

definition url_of_use :: "operation \<Rightarrow> string option \<Rightarrow> string option" where
  "url_of_use p url = (if p = OpNet then url else None)"

definition method_of_use :: "operation \<Rightarrow> string option \<Rightarrow> string option" where
  "method_of_use p meth = (if p = OpNet \<and> meth \<noteq> Some ''GET'' then meth else None)"

definition use_fields :: "string option \<Rightarrow> string option \<Rightarrow> (string \<times> json) list" where
  "use_fields url meth = opt_field ''url_path'' JString url @ opt_field ''method'' JString meth"

definition use_payload :: "operation \<Rightarrow> string option \<Rightarrow> string option \<Rightarrow> json" where
  "use_payload p url meth = obj_of ((''op'', JString (op_wire_name p)) # use_fields url meth)"

definition check_use_by ::
  "'w env \<Rightarrow> grant_id \<Rightarrow> operation \<Rightarrow> string option \<Rightarrow> string option \<Rightarrow> string option \<Rightarrow> 'w broker \<Rightarrow>
     guarded_decision \<times> 'w broker" where
  "check_use_by E i p arg url0 meth0 b0 =
     (let url = url_of_use p url0;
          meth = method_of_use p meth0;
          (t, b) = now E b0;
          log = (\<lambda>action decision c. log_op E action (Some i) arg (Some (use_payload p url meth)) decision None c)
      in case (case node_view i t b of
                 None \<Rightarrow> Inl (UnknownNode i)
               | Some (st, a) \<Rightarrow> validate i st a p arg url meth) of
           Inl d \<Rightarrow> (gd_deny d, if op_class_of p = Synchronous then snd (log ''use'' ''deny'' b) else b)
         | Inr _ \<Rightarrow>
             (case guard_verdict_use E i p arg b of
                (Ungated, b1) \<Rightarrow>
                  (case op_class_of p of
                     Synchronous \<Rightarrow> (case log ''use'' ''allow'' b1 of (seq, b2) \<Rightarrow> (gd_allow (Some seq), b2))
                   | Epoch \<Rightarrow> (gd_allow None, b1))
              | (PermitUse, b1) \<Rightarrow> (case log ''guard_permit_use'' ''allow'' b1 of (seq, b2) \<Rightarrow> (gd_allow (Some seq), b2))
              | (BypassedUse note, b1) \<Rightarrow>
                  (case log ''guard_bypassed_use'' ''allow'' b1 of
                     (seq, b2) \<Rightarrow> ((gd_allow (Some seq))\<lparr>gd_warn := Some note\<rparr>, b2))
              | (WarnUse note, b1) \<Rightarrow>
                  (case log ''guard_warn'' ''allow'' b1 of
                     (seq, b2) \<Rightarrow> ((gd_allow (Some seq))\<lparr>gd_warn := Some note\<rparr>, b2))
              | (Block d, b1) \<Rightarrow> (gd_deny d, snd (log ''guard_block'' ''deny'' b1))))"

definition check_use_at ::
  "'w env \<Rightarrow> grant_id \<Rightarrow> operation \<Rightarrow> string option \<Rightarrow> string option \<Rightarrow> 'w broker \<Rightarrow> guarded_decision \<times> 'w broker" where
  "check_use_at E i p arg url b = check_use_by E i p arg url None b"

definition check_use ::
  "'w env \<Rightarrow> grant_id \<Rightarrow> operation \<Rightarrow> string option \<Rightarrow> 'w broker \<Rightarrow> guarded_decision \<times> 'w broker" where
  "check_use E i p arg b = check_use_at E i p arg None b"

definition check_op :: "'w env \<Rightarrow> grant_id \<Rightarrow> operation \<Rightarrow> string option \<Rightarrow> 'w broker \<Rightarrow> decision \<times> 'w broker" where
  "check_op E i p arg b = (case check_use E i p arg b of (g, b1) \<Rightarrow> (gd_decision g, b1))"

section \<open>Refusals decided elsewhere, recorded here\<close>

definition record_use_refusal ::
  "'w env \<Rightarrow> grant_id \<Rightarrow> string option \<Rightarrow> (string \<times> json) list \<Rightarrow> 'w broker \<Rightarrow> (denial + nat) \<times> 'w broker" where
  "record_use_refusal E i target kvs b =
     (if inspect i b = None then (Inl (UnknownNode i), b)
      else (case log_op E ''use'' (Some i) target (Some (obj_of kvs)) ''deny'' None b of (seq, b1) \<Rightarrow> (Inr seq, b1)))"

definition overrides_field :: "nat option \<Rightarrow> (string \<times> json) list" where
  "overrides_field s = opt_field ''overrides_seq'' (\<lambda>k. JInt (int k)) s"

definition record_egress_refusal ::
  "'w env \<Rightarrow> grant_id \<Rightarrow> string \<Rightarrow> string \<Rightarrow> nat option \<Rightarrow> 'w broker \<Rightarrow> (denial + nat) \<times> 'w broker" where
  "record_egress_refusal E i host why ov b =
     record_use_refusal E i (Some (bounded_text host 512))
       ([(''op'', JString (op_wire_name OpNet)), (''refused_by'', JString ''egress''),
         (''reason'', JString (bounded_text why 128))] @ overrides_field ov) b"

definition record_capability_refusal ::
  "'w env \<Rightarrow> grant_id \<Rightarrow> operation \<Rightarrow> string option \<Rightarrow> string option \<Rightarrow> string option \<Rightarrow> string \<Rightarrow> 'w broker \<Rightarrow>
     (denial + nat) \<times> 'w broker" where
  "record_capability_refusal E i p target url meth why b =
     record_use_refusal E i target
       ([(''op'', JString (op_wire_name p)), (''refused_by'', JString ''capability''), (''code'', JString ''DL0904''),
         (''reason'', JString (bounded_text why 64))] @ use_fields (url_of_use p url) (method_of_use p meth)) b"

definition record_device_refusal ::
  "'w env \<Rightarrow> grant_id \<Rightarrow> string \<Rightarrow> string \<Rightarrow> nat option \<Rightarrow> 'w broker \<Rightarrow> (denial + nat) \<times> 'w broker" where
  "record_device_refusal E i dev why ov b =
     record_use_refusal E i (Some dev)
       ([(''op'', JString (op_wire_name OpActuate)), (''refused_by'', JString ''envelope''), (''code'', JString ''DL1904''),
         (''reason'', JString (bounded_text why 512))] @ overrides_field ov) b"

definition record_break_glass_run ::
  "'w env \<Rightarrow> grant_id \<Rightarrow> string \<Rightarrow> string \<Rightarrow> 'w broker \<Rightarrow> (denial + nat) \<times> 'w broker" where
  "record_break_glass_run E i ticket relax b =
     (if inspect i b = None then (Inl (UnknownNode i), b)
      else
        (case log_op E ''break-glass-run'' (Some i) (Some (bounded_text ticket 128))
                (Some (obj_of [(''relax'', JString (bounded_text relax 64))])) ''allow'' None b of
           (seq, b1) \<Rightarrow> (Inr seq, b1)))"

section \<open>Snapshots\<close>

record snapshot =
  sn_epoch :: nat
  sn_nodes :: "(grant_id, eff_state \<times> authority) fmap"

definition take_snapshot :: "'w env \<Rightarrow> 'w broker \<Rightarrow> snapshot \<times> 'w broker" where
  "take_snapshot E b =
     (case now E b of
        (t, b1) \<Rightarrow>
          (\<lparr>sn_epoch = epoch b1,
            sn_nodes = fmmap_keys (\<lambda>i n. (case effective_state_inherited i t b1 of Some st \<Rightarrow> st | None \<Rightarrow> EffExpired 0 t,
                                          n_authority n)) (nodes b1)\<rparr>, b1))"

definition snapshot_from_entries :: "nat \<Rightarrow> (grant_id \<times> eff_state \<times> authority) list \<Rightarrow> snapshot" where
  "snapshot_from_entries ep entries = \<lparr>sn_epoch = ep, sn_nodes = fmap_of_list (rev entries)\<rparr>"

definition snapshot_check :: "snapshot \<Rightarrow> grant_id \<Rightarrow> operation \<Rightarrow> string option \<Rightarrow> decision" where
  "snapshot_check s i p arg =
     (case fmlookup (sn_nodes s) i of
        None \<Rightarrow> DenyOp (UnknownNode i)
      | Some (st, a) \<Rightarrow>
          (case validate i st a p arg None None of Inr _ \<Rightarrow> AllowOp None | Inl d \<Rightarrow> DenyOp d))"

section \<open>What the operations keep\<close>

context frame_contract
begin

lemma check_use_by_step [contract_steps]: "R a b \<Longrightarrow> R a (snd (check_use_by E i p arg url meth b))"
proof -
  assume ab: "R a b"
  obtain t b1 where t: "now E b = (t, b1)" by (cases "now E b")
  obtain v b2 where v: "guard_verdict_use E i p arg b1 = (v, b2)" by (cases "guard_verdict_use E i p arg b1")
  have s1: "R a b1" using primitive_steps(1)[OF ab] t by simp
  have s2: "R a b2" using guard_verdict_step[OF s1, of i p arg] v by simp
  show ?thesis
    unfolding check_use_by_def Let_def t prod.case
    by (auto simp: v split_beta s1 s2 split: sum.split guard_verdict.split op_class.split intro: log_op_step)
qed

lemma check_use_step [contract_steps]:
  "R a b \<Longrightarrow> R a (snd (check_use_at E i p arg url b))" "R a b \<Longrightarrow> R a (snd (check_use E i p arg b))"
  "R a b \<Longrightarrow> R a (snd (check_op E i p arg b))"
  by (simp_all add: check_use_at_def check_use_def check_op_def split_beta contract_steps)

lemma record_refusal_step [contract_steps]:
  "R a b \<Longrightarrow> R a (snd (record_use_refusal E i target kvs b))"
  "R a b \<Longrightarrow> R a (snd (record_egress_refusal E i host why ov b))"
  "R a b \<Longrightarrow> R a (snd (record_capability_refusal E i p target url meth why b))"
  "R a b \<Longrightarrow> R a (snd (record_device_refusal E i dev why ov b))"
  "R a b \<Longrightarrow> R a (snd (record_break_glass_run E i ticket relax b))"
  by (simp_all add: record_use_refusal_def record_egress_refusal_def record_capability_refusal_def
      record_device_refusal_def record_break_glass_run_def split_beta contract_steps)

lemma take_snapshot_step [contract_steps]: "R a b \<Longrightarrow> R a (snd (take_snapshot E b))"
  by (simp add: take_snapshot_def split_beta contract_steps)

end

end
