(* ===== verification/Sim_World.thy ===== *)
theory Sim_World imports Tree_World Audit_Chain begin

text \<open>
  The sources the broker ships for reproducible runs, as one world: the counting identifiers of \<open>ids.rs\<close>
  (\<open>SeqIdSource\<close>), the hand-driven clock of \<open>time.rs\<close> (\<open>ManualClock\<close>) and the in-memory sink of \<open>audit.rs\<close>.
  The operating system's randomness is a counter. It provides the interface \<open>fresh_world\<close>, and the brokers
  built in it are where the properties are applied.
\<close>

section \<open>Identifiers\<close>

definition seq_id :: "nat \<Rightarrow> grant_id" where
  "seq_id n = ''g_'' @ pad_hex 32 n"

text \<open>\<open>OsIdSource\<close>: the same shape from sixteen random bytes.\<close>

definition os_id :: "bytes \<Rightarrow> grant_id" where
  "os_id buf = ''g_'' @ to_hex buf"

lemma seq_id_inj [simp]: "seq_id m = seq_id n \<longleftrightarrow> m = n"
  using pad_hex_inj by (auto simp: seq_id_def)

section \<open>The world\<close>

record sim_world =
  sim_next :: nat
  sim_clock :: int
  sim_entropy :: nat
  sim_sink :: mem_sink

definition seq_next_id :: "sim_world \<Rightarrow> grant_id \<times> sim_world" where
  "seq_next_id w = (seq_id (sim_next w), w\<lparr>sim_next := Suc (sim_next w)\<rparr>)"

definition manual_now :: "sim_world \<Rightarrow> int \<times> sim_world" where
  "manual_now w = (sim_clock w, w)"

definition manual_set :: "int \<Rightarrow> sim_world \<Rightarrow> sim_world" where
  "manual_set t w = w\<lparr>sim_clock := t\<rparr>"

definition manual_advance :: "int \<Rightarrow> sim_world \<Rightarrow> sim_world" where
  "manual_advance dt w = w\<lparr>sim_clock := sim_clock w + dt\<rparr>"

definition sim_env :: "libs \<Rightarrow> sim_world env" where
  "sim_env lb =
     \<lparr>env_libs = lb, next_id = seq_next_id, read_clock = manual_now,
      random_bytes = (\<lambda>k w. (replicate k (char_of (sim_entropy w)), w\<lparr>sim_entropy := Suc (sim_entropy w)\<rparr>)),
      sink_append = (\<lambda>e w. case mem_append lb e (sim_sink w) of (r, s) \<Rightarrow> (r, w\<lparr>sim_sink := s\<rparr>)),
      sink_next_seq = (\<lambda>w. case mem_next_seq (sim_sink w) of (f, s) \<Rightarrow> (f, w\<lparr>sim_sink := s\<rparr>))\<rparr>"

definition sim_seen :: "sim_world \<Rightarrow> grant_id \<Rightarrow> bool" where
  "sim_seen w i \<longleftrightarrow> (\<exists>n < sim_next w. i = seq_id n)"

interpretation sim: fresh_world "sim_env lb" sim_seen
  by unfold_locales
    (auto simp: sim_env_def sim_seen_def seq_next_id_def manual_now_def mem_append_def mem_next_seq_def split_beta
      Let_def less_Suc_eq)

definition sim_start :: "int \<Rightarrow> sim_world" where
  "sim_start t = \<lparr>sim_next = 0, sim_clock = t, sim_entropy = 1, sim_sink = mem_new\<rparr>"

lemma tree_inv_new: "tree_inv seen (with_sources w)"
  by (simp add: tree_inv_def with_sources_def)

lemma sound_inv: "sound_step seen b c \<Longrightarrow> tree_inv seen b \<Longrightarrow> tree_inv seen c"
  by (simp add: sound_step_def)

section \<open>A small tree\<close>

definition some_holder :: holder where
  "some_holder = \<lparr>h_kind = ''run'', h_desc = ''main'', h_peer = ''''\<rparr>"

text \<open>A broker, a root that may read \<open>data\<close>, and a child that may read \<open>data/in\<close>.\<close>

definition empty_sample :: "sim_world broker" where
  "empty_sample = with_sources (sim_start 1000)"

definition root_sample :: "sim_world broker" where
  "root_sample = snd (issue (sim_env plain_libs) some_holder (reader_grant ''data'') None empty_sample)"

definition tree_sample :: "sim_world broker" where
  "tree_sample = snd (attenuate (sim_env plain_libs) (seq_id 0) (reader_grant ''data/in'') some_holder (Some 5000) root_sample)"

lemma empty_sample_inv: "tree_inv sim_seen empty_sample"
  by (simp add: tree_inv_def empty_sample_def with_sources_def set_sink_def)

lemma root_sample_inv: "tree_inv sim_seen root_sample"
  unfolding root_sample_def using sim.issue_sound empty_sample_inv by (rule sound_inv)

lemma tree_sample_inv: "tree_inv sim_seen tree_sample"
  unfolding tree_sample_def using sim.attenuate_sound root_sample_inv by (rule sound_inv)

lemmas sample_ok = tree_inv_ok[OF root_sample_inv] tree_inv_ok[OF tree_sample_inv]

end
