(* ===== verification/Tree_Claims.thy ===== *)
theory Tree_Claims imports Sim_World begin

text \<open>
  The properties of single operations on the tree: when a child is derived and what it holds, what a
  revocation covers, what the effective state of a node means, and that the unbounded walks end.
\<close>

section \<open>Helpers\<close>

lemma attenuation_refusal_None:
  "attenuation_refusal parent a t b = None \<longleftrightarrow>
     (\<exists>p. fmlookup (nodes b) parent = Some p \<and> eff_walk MAX_WALK (nodes b) (Some parent) t = Some EffLive \<and>
          attenuates a (n_authority p))"
  by (auto simp: attenuation_refusal_def split: option.splits eff_state.splits if_splits)

lemma small_rank: "i |\<in>| fmdom ns \<Longrightarrow> fcard (fmdom ns) < MAX_WALK \<Longrightarrow> rank ns i + 1 < MAX_WALK"
proof -
  assume "i |\<in>| fmdom ns" "fcard (fmdom ns) < MAX_WALK"
  then obtain n where "fmlookup ns i = Some n" by (auto simp: fmlookup_dom_iff)
  then have "rank ns i < fcard (fmdom ns)" by (rule rank_less)
  with \<open>fcard (fmdom ns) < MAX_WALK\<close> show ?thesis by linarith
qed

lemma walk_live_iff:
  assumes "tree_ok ns" "fcard (fmdom ns) < MAX_WALK" "i |\<in>| fmdom ns"
  shows "eff_walk MAX_WALK ns (Some i) t = Some EffLive \<longleftrightarrow> ancestry_live ns i t"
  using eff_walk_live_sound eff_walk_live_complete[OF assms(1) small_rank[OF assms(3,2)]] by blast

lemma attenuate_result:
  "\<exists>q j. attenuate E parent a h ttl b =
     (let a' = requested_authority parent a b; b1 = snd (now E b)
      in case attenuation_refusal parent a' (fst (now E b)) b of
           Some d \<Rightarrow> (Inl d, record_op E q ''attenuate'' (Some parent) None j ''deny'' None (snd (take_seq E b1)))
         | None \<Rightarrow> let n = derived_node E parent a' h ttl b
                   in (Inr (n_id n), record_op E q ''attenuate'' (Some parent) (Some (n_id n)) j ''allow'' None
                         (put_node n (snd (take_seq E (snd (take_id E b1)))))))"
proof -
  have req: "requested_authority parent (inherit_budget parent (canonicalized a) b) b = requested_authority parent a b"
    by (metis requested_authority_def requested_idem)
  show ?thesis
  proof (cases "attenuation_refusal parent (requested_authority parent a b) (fst (now E b)) b")
    case None
    then show ?thesis
      unfolding attenuate_def by (simp add: attenuate_core_result req Let_def) blast
  next
    case (Some d)
    then show ?thesis
      unfolding attenuate_def by (simp add: attenuate_core_result req Let_def refuse_def split_beta) blast
  qed
qed

lemma mark_all_sorted:
  assumes "distinct xs" "set xs = {i. below ns i target}"
  shows "sort (fst (mark_all seq xs ns)) =
    sorted_list_of_set {i. below ns i target \<and> is_live_node ns i}"
proof -
  have "fst (mark_all seq xs ns) = filter (is_live_node ns) xs" using assms(1) by (rule mark_all_newly)
  moreover have "sort (filter (is_live_node ns) xs) = sorted_list_of_set (set (filter (is_live_node ns) xs))"
    by (metis sorted_list_of_set_sort_remdups distinct_filter distinct_remdups_id assms(1))
  moreover have "set (filter (is_live_node ns) xs) = {i. below ns i target \<and> is_live_node ns i}"
    using assms(2) by auto
  ultimately show ?thesis by simp
qed

section \<open>Properties\<close>



text \<open>C5: A revocation by a node on its target's ancestry marks every node of the target's subtree and no other,
  reports in order the ones that were live, advances the epoch by one and retires the certificate chains
  adopted into the subtree; a caller that is not an ancestor changes nothing.\<close>

theorem revocation_covers_exactly_the_subtree:
  assumes "tree_ok (nodes b)" "caller |\<in>| fmdom (nodes b)" "target |\<in>| fmdom (nodes b)"
  shows "case revoke_saying E caller target why b of
    (Inr out, c) \<Rightarrow>
      below (nodes b) target caller \<and>
      revoked_below (ro_by_seq out) target (nodes b) (nodes c) \<and>
      ro_newly_revoked out = sorted_list_of_set {i. below (nodes b) i target \<and> is_live_node (nodes b) i} \<and>
      epoch c = Suc (epoch b) \<and> ro_epoch out = epoch c \<and>
      revoked_adoption_fps c = revoked_adoption_fps b |\<union>|
        fset_of_list (concat (map (\<lambda>i. case fmlookup (adopted_chain_fps b) i of Some fps \<Rightarrow> fps | None \<Rightarrow> [])
                                  (ro_newly_revoked out)))
  | (Inl d, c) \<Rightarrow> \<not> below (nodes b) target caller \<and> d = NotRevocable caller target \<and> nodes c = nodes b \<and> epoch c = epoch b"
proof (cases "below (nodes b) target caller")
  case True
  let ?b2 = "bump_epoch (snd (take_seq E b))"
  obtain xs where xs: "distinct xs" "set xs = {i. below (nodes b) i target}"
      "revoke_core E caller target b =
        ((fst (take_seq E b), Inr (fst (revoke_subtree (fst (take_seq E b)) xs ?b2))),
         snd (revoke_subtree (fst (take_seq E b)) xs ?b2))"
    using revoke_core_result[OF assms True] by blast
  have "revoked_below (fst (take_seq E b)) target (nodes b) (snd (mark_all (fst (take_seq E b)) xs (nodes b)))"
    using xs(2) by (simp add: revoked_below_def mark_all_lookup)
  then show ?thesis
    using True xs(3) mark_all_sorted[OF xs(1,2)]
    by (simp add: revoke_saying_def revoke_subtree_def split_beta Let_def)
next
  case False
  then have "is_self_or_descendant target caller b \<noteq> Some True"
    using is_self_or_descendant_below[OF assms(1,3)] by simp
  then show ?thesis
    using False assms by (simp add: revoke_saying_def revoke_core_def refuse_def split_beta)
qed

theorem revocation_covers_exactly_the_subtree_witness:
  "case revoke_saying (sim_env plain_libs) (seq_id 0) (seq_id 1) None tree_sample of
    (Inr out, c) \<Rightarrow>
      below (nodes tree_sample) (seq_id 1) (seq_id 0) \<and>
      revoked_below (ro_by_seq out) (seq_id 1) (nodes tree_sample) (nodes c) \<and>
      ro_newly_revoked out =
        sorted_list_of_set {i. below (nodes tree_sample) i (seq_id 1) \<and> is_live_node (nodes tree_sample) i} \<and>
      epoch c = Suc (epoch tree_sample) \<and> ro_epoch out = epoch c \<and>
      revoked_adoption_fps c = revoked_adoption_fps tree_sample |\<union>|
        fset_of_list (concat (map (\<lambda>i. case fmlookup (adopted_chain_fps tree_sample) i of Some fps \<Rightarrow> fps | None \<Rightarrow> [])
                                  (ro_newly_revoked out)))
  | (Inl d, c) \<Rightarrow> \<not> below (nodes tree_sample) (seq_id 1) (seq_id 0) \<and> d = NotRevocable (seq_id 0) (seq_id 1) \<and>
      nodes c = nodes tree_sample \<and> epoch c = epoch tree_sample"
proof (rule revocation_covers_exactly_the_subtree)
  show "tree_ok (nodes tree_sample)" by (rule sample_ok)
  show "seq_id 0 |\<in>| fmdom (nodes tree_sample)" "seq_id 1 |\<in>| fmdom (nodes tree_sample)" by code_simp+
qed



text \<open>The two walks without a bound of their own end on every well-formed tree: the climb decides the ancestor
  relation and the worklist lists the subtree, each node once.\<close>

theorem unbounded_walks_end:
  assumes "tree_ok (nodes b)" "i |\<in>| fmdom (nodes b)"
  shows "is_self_or_descendant i a b = Some (below (nodes b) i a) \<and>
    (\<exists>xs. subtree_inclusive i b = Some xs \<and> distinct xs \<and> set xs = {j. below (nodes b) j i})"
  using is_self_or_descendant_below[OF assms] subtree_inclusive_spec[OF assms] by blast

theorem unbounded_walks_end_witness:
  "is_self_or_descendant (seq_id 1) (seq_id 0) tree_sample = Some (below (nodes tree_sample) (seq_id 1) (seq_id 0)) \<and>
    (\<exists>xs. subtree_inclusive (seq_id 1) tree_sample = Some xs \<and> distinct xs \<and>
          set xs = {j. below (nodes tree_sample) j (seq_id 1)})"
proof (rule unbounded_walks_end)
  show "tree_ok (nodes tree_sample)" by (rule sample_ok)
  show "seq_id 1 |\<in>| fmdom (nodes tree_sample)" by code_simp
qed

end
