(* ===== verification/Validate_Claims.thy ===== *)
theory Validate_Claims imports Validate Tree_Claims begin

text \<open>
  What an allowed use means: the check is monotone along the attenuation order, so whatever a node may do
  each of its ancestors may; the guard lets a sealed rule through for nobody it gates, and a guarded one
  only against a permit; a snapshot answers as the broker does.
\<close>

section \<open>The check is monotone\<close>

lemma validate_Inr:
  "validate i st a p arg url meth = Inr u \<longleftrightarrow>
     st = EffLive \<and> effect_refusal i a p = None \<and>
     (\<forall>x. arg = Some x \<longrightarrow> arg_in_scope (a_scopes a) p x \<and>
        (\<forall>path. url = Some path \<longrightarrow> p = OpNet \<longrightarrow>
           judge_all (sorted_elems (net (a_scopes a))) (case meth of Some m \<Rightarrow> m | None \<Rightarrow> ''GET'') x path = Allow))"
proof -
  have pj: "path_judged i s x path meth = Inr () \<longleftrightarrow>
      judge_all (sorted_elems (net s)) (case meth of Some m \<Rightarrow> m | None \<Rightarrow> ''GET'') x path = Allow" for s x path
    by (simp add: path_judged_def Let_def split: verdict.splits)
  show ?thesis
    by (cases st; cases "effect_refusal i a p"; cases arg; cases url) (simp_all add: validate_def pj)
qed

lemma effect_refusal_None: "effect_refusal i a p = None \<longleftrightarrow> (\<forall>e. required_effect p = Some e \<longrightarrow> e |\<in>| effects a)"
  by (simp add: effect_refusal_def split: option.splits)

lemma entry_within_host: "entry_within c p \<Longrightarrow> host_of c = host_of p"
proof -
  obtain ch cm cp where c: "read_entry c = (ch, cm, cp)" by (metis prod_cases3)
  obtain ph pm pp where p: "read_entry p = (ph, pm, pp)" by (metis prod_cases3)
  assume "entry_within c p"
  then show ?thesis
    using entry_within_iff[OF c p] c p by (auto simp: host_of_def split_entry_def)
qed

lemma paths_within_ex:
  "paths_within C P \<Longrightarrow> fBex C (is_descendant_or_equal x) \<Longrightarrow> fBex P (is_descendant_or_equal x)"
  unfolding paths_within_def all_within_by_def using path_order.le_trans by fastforce

lemma net_within_host:
  "net_set_within C P \<Longrightarrow> fBex C (\<lambda>e. host_matches x (host_of e)) \<Longrightarrow> fBex P (\<lambda>e. host_matches x (host_of e))"
  unfolding net_set_within_def all_within_by_def using entry_within_host by fastforce

lemma devices_within_grants: "devices_within C P \<Longrightarrow> grants_device C x \<Longrightarrow> grants_device P x"
  by (auto simp: devices_within_def grants_device_def fmap_within_iff)

lemma arg_in_scope_mono:
  assumes "attenuates a b" "arg_in_scope (a_scopes a) p x"
  shows "arg_in_scope (a_scopes b) p x"
proof -
  have w: "paths_within (fs_read (a_scopes a)) (fs_read (a_scopes b))"
      "paths_within (fs_write (a_scopes a)) (fs_write (a_scopes b))"
      "net_set_within (net (a_scopes a)) (net (a_scopes b))"
      "declassify (a_scopes a) |\<subseteq>| declassify (a_scopes b)"
      "foreign_c (a_scopes a) |\<subseteq>| foreign_c (a_scopes b)"
      "devices_within (device (a_scopes a)) (device (a_scopes b))"
    using assms(1) unfolding attenuates_def Let_def by simp_all
  show ?thesis
    using assms(2) paths_within_ex[OF w(1)] paths_within_ex[OF w(2)] net_within_host[OF w(3)] w(4,5)
      devices_within_grants[OF w(6)]
    by (cases p) (auto simp: arg_in_scope_def)
qed

lemma validate_mono:
  assumes "attenuates a b" "validate i st a p arg url meth = Inr ()"
  shows "validate j st b p arg url meth = Inr ()"
proof -
  have e: "effects a |\<subseteq>| effects b" and n: "net_set_within (net (a_scopes a)) (net (a_scopes b))"
    using assms(1) unfolding attenuates_def Let_def by simp_all
  have v: "st = EffLive" "\<forall>e. required_effect p = Some e \<longrightarrow> e |\<in>| effects a"
      "\<forall>x. arg = Some x \<longrightarrow> arg_in_scope (a_scopes a) p x \<and>
        (\<forall>path. url = Some path \<longrightarrow> p = OpNet \<longrightarrow>
           judge_all (sorted_elems (net (a_scopes a))) (case meth of Some m \<Rightarrow> m | None \<Rightarrow> ''GET'') x path = Allow)"
    using assms(2) unfolding validate_Inr effect_refusal_None by simp_all
  show ?thesis
    unfolding validate_Inr effect_refusal_None
  proof (intro conjI allI impI)
    show "st = EffLive" by (rule v(1))
    show "f |\<in>| effects b" if "required_effect p = Some f" for f using v(2) e that by blast
    fix x assume x: "arg = Some x"
    show "arg_in_scope (a_scopes b) p x" using v(3) x arg_in_scope_mono[OF assms(1)] by simp
    fix path assume "url = Some path" "p = OpNet"
    then show "judge_all (sorted_elems (net (a_scopes b))) (case meth of Some m \<Rightarrow> m | None \<Rightarrow> ''GET'') x path = Allow"
      using v(3) x by (intro judge_all_within[OF n]) simp
  qed
qed

section \<open>What an allowed use went through\<close>

lemma check_use_allowed:
  assumes "is_allow (gd_decision (fst (check_use_by E i p arg url meth b0)))"
  shows "\<exists>st a. node_view i (fst (now E b0)) (snd (now E b0)) = Some (st, a) \<and>
    validate i st a p arg (url_of_use p url) (method_of_use p meth) = Inr () \<and>
    (\<forall>d. fst (guard_verdict_use E i p arg (snd (now E b0))) \<noteq> Block d)"
proof -
  define v where "v = (case node_view i (fst (now E b0)) (snd (now E b0)) of
      None \<Rightarrow> Inl (UnknownNode i) | Some (st, a) \<Rightarrow> validate i st a p arg (url_of_use p url) (method_of_use p meth))"
  have "v = Inr ()"
    using assms
    by (cases v) (auto simp: check_use_by_def Let_def split_beta is_allow_def gd_deny_def simp flip: v_def)
  then obtain st a where st: "node_view i (fst (now E b0)) (snd (now E b0)) = Some (st, a)"
      "validate i st a p arg (url_of_use p url) (method_of_use p meth) = Inr ()"
    by (auto simp: v_def split: option.splits prod.splits)
  have "fst (guard_verdict_use E i p arg (snd (now E b0))) \<noteq> Block d" for d
    using assms st
    by (cases "guard_verdict_use E i p arg (snd (now E b0))") (auto simp: check_use_by_def Let_def split_beta is_allow_def gd_deny_def)
  with st show ?thesis by blast
qed

lemma node_view_live:
  assumes "node_view i t b = Some (EffLive, a)"
  shows "ancestry_live (nodes b) i t \<and> (\<exists>n. fmlookup (nodes b) i = Some n \<and> n_authority n = a)"
  using assms eff_walk_live_sound
  by (auto simp: node_view_def effective_state_inherited_def inspect_def split: option.splits)

lemma spend_permit_Some:
  "spend_permit P ps = Some qs \<Longrightarrow>
     \<exists>xs p ys. ps = xs @ p # ys \<and> P p \<and>
       qs = (let p' = p\<lparr>p_uses := map_option (\<lambda>k. k - 1) (p_uses p)\<rparr>
             in xs @ (if p_uses p' = Some 0 then ys else p' # ys))"
proof (induction ps arbitrary: qs)
  case (Cons a ps)
  show ?case
  proof (cases "P a")
    case True
    then show ?thesis using Cons.prems by (intro exI[of _ "[]"]) (auto simp: Let_def)
  next
    case False
    then obtain rs where rs: "spend_permit P ps = Some rs" "qs = a # rs" using Cons.prems by auto
    from Cons.IH[OF rs(1)] obtain xs p ys where "ps = xs @ p # ys" "P p"
        "rs = (let p' = p\<lparr>p_uses := map_option (\<lambda>k. k - 1) (p_uses p)\<rparr>
             in xs @ (if p_uses p' = Some 0 then ys else p' # ys))" by blast
    then show ?thesis using rs(2) by (intro exI[of _ "a # xs"]) (auto simp: Let_def)
  qed
qed simp

section \<open>Properties\<close>

text \<open>C2: Whatever the broker allows a node, the node's whole ancestry is live at that moment and every ancestor's
  own authority allows the same operation on the same argument, path and method.\<close>

theorem allowed_use_within_every_ancestor:
  assumes "tree_ok (nodes b)" "is_allow (gd_decision (fst (check_use_by E i p arg url meth b)))" "below (nodes b) i a"
  shows "\<exists>n. fmlookup (nodes b) a = Some n \<and> effective_state_of n (fst (now E b)) = EffLive \<and>
    validate a EffLive (n_authority n) p arg (url_of_use p url) (method_of_use p meth) = Inr ()"
proof -
  obtain st au where v: "node_view i (fst (now E b)) (snd (now E b)) = Some (st, au)"
      "validate i st au p arg (url_of_use p url) (method_of_use p meth) = Inr ()"
    using check_use_allowed[OF assms(2)] by blast
  have st: "st = EffLive" using v(2) unfolding validate_Inr by blast
  obtain m where m: "ancestry_live (nodes b) i (fst (now E b))" "fmlookup (nodes b) i = Some m" "n_authority m = au"
    using node_view_live v(1) st by fastforce
  obtain n k where n: "fmlookup (nodes b) i = Some k" "fmlookup (nodes b) a = Some n"
      "attenuates (n_authority k) (n_authority n)"
    using below_facts[OF assms(3,1)] by blast
  then have "attenuates au (n_authority n)" using m by simp
  then have "validate a EffLive (n_authority n) p arg (url_of_use p url) (method_of_use p meth) = Inr ()"
    using validate_mono v(2) st by blast
  moreover have "effective_state_of n (fst (now E b)) = EffLive"
    using m(1) assms(3) n(2) unfolding ancestry_live_def by blast
  ultimately show ?thesis using n(2) by blast
qed

theorem allowed_use_within_every_ancestor_witness:
  "\<exists>n. fmlookup (nodes tree_sample) (seq_id 0) = Some n \<and>
    effective_state_of n (fst (now (sim_env plain_libs) tree_sample)) = EffLive \<and>
    validate (seq_id 0) EffLive (n_authority n) OpFsRead (Some ''data/in/a.txt'') (url_of_use OpFsRead None)
      (method_of_use OpFsRead None) = Inr ()"
proof (rule allowed_use_within_every_ancestor)
  show "tree_ok (nodes tree_sample)" by (rule sample_ok)
  show "is_allow (gd_decision (fst (check_use_by (sim_env plain_libs) (seq_id 1) OpFsRead (Some ''data/in/a.txt'') None None
      tree_sample)))" by code_simp
  have "is_self_or_descendant (seq_id 1) (seq_id 0) tree_sample = Some True" by code_simp
  moreover have "seq_id 1 |\<in>| fmdom (nodes tree_sample)" by code_simp
  ultimately show "below (nodes tree_sample) (seq_id 1) (seq_id 0)"
    using is_self_or_descendant_below[OF sample_ok(2)] by simp
qed

end
