(* ===== verification/Guard_Claims.thy ===== *)
theory Guard_Claims imports Validate_Claims begin

text \<open>
  What the guard promises: a sealed rule lets nothing through, a guarded one lets a use through only under the
  bypass or against a permit; a permit comes only from the owner's approval of a pending request; and a
  snapshot answers as the broker's own check does, the guard apart.
\<close>

section \<open>The verdict\<close>

definition spent :: "permit \<Rightarrow> permit" where
  "spent q = q\<lparr>p_uses := map_option (\<lambda>k. k - 1) (p_uses q)\<rparr>"

lemma now_commutes_guard [simp]: "guard (snd (now E b)) = guard b"
  by simp

lemma gated_frame [simp]: "guard_node_is_gated i (snd (now E b)) = guard_node_is_gated i b"
  by (simp add: guard_node_is_gated_def inspect_def)

lemma verdict_guarded:
  assumes g: "guard_node_is_gated i b" "tier_for_use (env_libs E) (gs_policy (guard b)) p arg = Some (Guarded, rule)"
    and nb: "\<not> gs_bypass (guard b)" and v: "guard_verdict_use E i p arg b = (v, c)" "\<forall>d. v \<noteq> Block d"
  shows "v = PermitUse \<and> \<not> gs_poisoned (guard b) \<and>
    (\<exists>xs q ys. filter (permit_unexpired (fst (now E b))) (gs_permits (guard b)) = xs @ q # ys \<and> p_node q = i \<and>
       covers_use (env_libs E) (p_subset q) p arg \<and>
       gs_permits (guard c) = xs @ (if p_uses (spent q) = Some 0 then [] else [spent q]) @ ys)"
proof -
  let ?P = "\<lambda>q. p_node q = i \<and> covers_use (env_libs E) (p_subset q) p arg"
  have gc: "gs_permits (guard (guard_gc E b)) = filter (permit_unexpired (fst (now E b))) (gs_permits (guard b))"
    by (simp add: guard_gc_def split_beta)
  have np: "\<not> gs_poisoned (guard b)" using g nb v by (auto simp: guard_verdict_use_def Let_def)
  show ?thesis
  proof (cases "spend_permit ?P (gs_permits (guard (guard_gc E b)))")
    case None
    then show ?thesis
      using g nb np v by (auto simp: guard_verdict_use_def Let_def split: option.splits)
  next
    case (Some ps)
    obtain xs q ys where q: "gs_permits (guard (guard_gc E b)) = xs @ q # ys" "?P q"
        "ps = xs @ (if p_uses (spent q) = Some 0 then ys else spent q # ys)"
      using spend_permit_Some[OF Some] by (auto simp: Let_def spent_def)
    have "v = PermitUse" "gs_permits (guard c) = ps"
      using g nb np v(1) Some by (auto simp: guard_verdict_use_def Let_def)
    then show ?thesis using q np gc by auto
  qed
qed

lemma verdict_sealed:
  assumes "guard_node_is_gated i b" "tier_for_use (env_libs E) (gs_policy (guard b)) p arg = Some (Sealed, rule)"
  shows "guard_verdict_use E i p arg b = (Block (GuardSealed i rule), b)"
  using assms by (simp add: guard_verdict_use_def)

lemma check_use_guard:
  assumes "is_allow (gd_decision (fst (check_use_by E i p arg url meth b)))"
  shows "guard (snd (check_use_by E i p arg url meth b)) =
    guard (snd (guard_verdict_use E i p arg (snd (now E b))))"
proof -
  obtain st a where st: "node_view i (fst (now E b)) (snd (now E b)) = Some (st, a)"
      "validate i st a p arg (url_of_use p url) (method_of_use p meth) = Inr ()"
    using check_use_allowed[OF assms] by blast
  obtain v c where v: "guard_verdict_use E i p arg (snd (now E b)) = (v, c)"
    by (cases "guard_verdict_use E i p arg (snd (now E b))")
  show ?thesis
    by (cases v; cases "op_class_of p") (simp_all add: check_use_by_def Let_def split_beta st v)
qed

section \<open>Properties\<close>

text \<open>C6: A use the strictest rule on which is sealed is allowed to no delegated node, whatever permits, owner code
  or bypass there are; and one whose strictest rule is guarded is allowed only under the bypass or, where the
  policy file is not poisoned, against a permit of that very node that covers the use and had not expired at the
  time of the check: the permit then has one use less, and is gone when that was its last.\<close>

theorem guarded_use_needs_a_permit:
  assumes "is_allow (gd_decision (fst (check_use_by E i p arg url meth b)))"
    and "guard_node_is_gated i b" "tier_for_use (env_libs E) (gs_policy (guard b)) p arg = Some (tier, rule)"
  shows "tier \<noteq> Sealed \<and>
    (tier = Guarded \<longrightarrow> gs_bypass (guard b) \<or>
      \<not> gs_poisoned (guard b) \<and>
      (\<exists>t xs q ys. fst (now E b) \<le> t \<and> filter (permit_unexpired t) (gs_permits (guard b)) = xs @ q # ys \<and>
         p_node q = i \<and> covers_use (env_libs E) (p_subset q) p arg \<and>
         gs_permits (guard (snd (check_use_by E i p arg url meth b))) =
           xs @ (if p_uses (spent q) = Some 0 then [] else [spent q]) @ ys))"
proof -
  let ?b1 = "snd (now E b)"
  obtain v c where v: "guard_verdict_use E i p arg ?b1 = (v, c)" by (cases "guard_verdict_use E i p arg ?b1")
  have nb: "\<forall>d. v \<noteq> Block d" using check_use_allowed[OF assms(1)] v by auto
  have c: "guard (snd (check_use_by E i p arg url meth b)) = guard c" using check_use_guard[OF assms(1)] v by simp
  have gated: "guard_node_is_gated i ?b1" "tier_for_use (env_libs E) (gs_policy (guard ?b1)) p arg = Some (tier, rule)"
    using assms(2,3) by simp_all
  have s: "tier \<noteq> Sealed"
  proof
    assume "tier = Sealed"
    then have "v = Block (GuardSealed i rule)" using verdict_sealed[OF gated(1)] gated(2) v by simp
    then show False using nb by blast
  qed
  have le: "fst (now E b) \<le> fst (now E ?b1)" using now_ge[of ?b1 E] by simp
  show ?thesis
  proof (intro conjI impI s)
    assume "tier = Guarded"
    then have g: "tier_for_use (env_libs E) (gs_policy (guard ?b1)) p arg = Some (Guarded, rule)" using gated by simp
    show "gs_bypass (guard b) \<or> \<not> gs_poisoned (guard b) \<and>
      (\<exists>t xs q ys. fst (now E b) \<le> t \<and> filter (permit_unexpired t) (gs_permits (guard b)) = xs @ q # ys \<and>
         p_node q = i \<and> covers_use (env_libs E) (p_subset q) p arg \<and>
         gs_permits (guard (snd (check_use_by E i p arg url meth b))) =
           xs @ (if p_uses (spent q) = Some 0 then [] else [spent q]) @ ys)"
    proof (cases "gs_bypass (guard b)")
      case False
      then have nbp: "\<not> gs_bypass (guard ?b1)" by simp
      obtain xs q ys where q: "\<not> gs_poisoned (guard b)"
          "filter (permit_unexpired (fst (now E ?b1))) (gs_permits (guard b)) = xs @ q # ys" "p_node q = i"
          "covers_use (env_libs E) (p_subset q) p arg"
          "gs_permits (guard c) = xs @ (if p_uses (spent q) = Some 0 then [] else [spent q]) @ ys"
        using verdict_guarded[OF gated(1) g nbp v nb] unfolding now_commutes_guard by blast
      show ?thesis
        by (rule disjI2, rule conjI, rule q(1), rule exI[of _ "fst (now E ?b1)"], rule exI[of _ xs], rule exI[of _ q],
            rule exI[of _ ys]) (use q le c in simp)
    qed simp
  qed
qed


text \<open>A delegated node that may declassify \<open>KEY\<close>, and an approved permit of one use for it.\<close>

definition keeper_grant :: authority where
  "keeper_grant = authority_new {|Declassify|} (no_scopes\<lparr>declassify := {|''KEY''|}, secrets := {|''KEY''|}\<rparr>)"

definition keeper_sample :: "sim_world broker" where
  "keeper_sample =
     with_owner_code ''code''
       (snd (attenuate (sim_env plain_libs) (seq_id 0) keeper_grant some_holder None
          (snd (issue (sim_env plain_libs) some_holder keeper_grant None empty_sample))))"

definition requested_sample :: "sim_world broker" where
  "requested_sample =
     snd (guard_request_op (sim_env plain_libs) (seq_id 1) [(GDeclassify, ''KEY'')] ''work'' keeper_sample)"

definition permit_sample :: "sim_world broker" where
  "permit_sample =
     snd (guard_approve (sim_env plain_libs) (Some ''code'') (request_id 0) None (Some 1) None requested_sample)"

theorem guarded_use_needs_a_permit_witness:
  "guard_node_is_gated (seq_id 1) permit_sample \<and>
   (\<exists>t xs q ys. fst (now (sim_env plain_libs) permit_sample) \<le> t \<and>
      filter (permit_unexpired t) (gs_permits (guard permit_sample)) = xs @ q # ys \<and> p_node q = seq_id 1 \<and>
      covers_use plain_libs (p_subset q) OpDeclassify (Some ''KEY'') \<and>
      gs_permits (guard (snd (check_use_by (sim_env plain_libs) (seq_id 1) OpDeclassify (Some ''KEY'') None None permit_sample))) =
        xs @ (if p_uses (spent q) = Some 0 then [] else [spent q]) @ ys)"
proof -
  have a: "is_allow (gd_decision (fst (check_use_by (sim_env plain_libs) (seq_id 1) OpDeclassify (Some ''KEY'') None None
      permit_sample)))" by code_simp
  have g: "guard_node_is_gated (seq_id 1) permit_sample" by code_simp
  have t: "tier_for_use (env_libs (sim_env plain_libs)) (gs_policy (guard permit_sample)) OpDeclassify (Some ''KEY'') =
      Some (Guarded, ''declassify:*'')" by code_simp
  have n: "\<not> gs_bypass (guard permit_sample)" by code_simp
  have l: "env_libs (sim_env plain_libs) = plain_libs" by (simp add: sim_env_def)
  show ?thesis using guarded_use_needs_a_permit[OF a g t] g n unfolding l by blast
qed

text \<open>C9: An approval answers with a permit only to the owner's code, only for a request that is pending and whose
  subset no sealed rule meets; it then adds exactly one permit, for the requesting node and the requested subset,
  that expires the given time (fifteen minutes where none is given) after the approval, and only expired permits
  are dropped.\<close>

theorem approval_mints_one_permit:
  assumes "guard_approve E owner rid ttl uses comment b = (Inr (Some pid), c)"
  shows "owner_ok (guard b) owner \<and>
    (\<exists>r t. r \<in> set (gs_requests (guard b)) \<and> pending_request rid r \<and>
       sealed_rule (env_libs E) (gs_policy (guard b)) (rq_subset r) = None \<and> fst (now E b) \<le> t \<and>
       gs_permits (guard c) = filter (permit_unexpired (fst (now E b))) (gs_permits (guard b)) @
         [\<lparr>p_id = pid, p_node = rq_node r, p_subset = rq_subset r,
           p_expires = Some (wrap_i64 (t + (case ttl of Some x \<Rightarrow> x | None \<Rightarrow> DEFAULT_PERMIT_TTL_MILLIS))), p_uses = uses\<rparr>])"
proof -
  have own: "owner_ok (guard b) owner" using assms by (auto simp: guard_approve_def split: if_splits)
  let ?g = "guard_gc E b"
  have gc: "gs_permits (guard ?g) = filter (permit_unexpired (fst (now E b))) (gs_permits (guard b))"
      "gs_requests (guard ?g) = filter (request_kept (fst (now E b))) (gs_requests (guard b))"
      "gs_policy (guard ?g) = gs_policy (guard b)" "clock_high_water ?g = fst (now E b)"
    by (simp_all add: guard_gc_def split_beta)
  obtain r where r: "find (pending_request rid) (gs_requests (guard ?g)) = Some r"
    using assms own by (cases "find (pending_request rid) (gs_requests (guard ?g))") (auto simp: guard_approve_def Let_def)
  have mem: "r \<in> set (gs_requests (guard b))" "pending_request rid r"
    using find_SomeD[OF r] gc(2) by auto
  have seal: "sealed_rule (env_libs E) (gs_policy (guard b)) (rq_subset r) = None"
    using assms own r gc(3) by (auto simp: guard_approve_def Let_def split: option.splits)
  let ?b2 = "upd_guard (\<lambda>g. g\<lparr>gs_requests := change_first (pending_request rid) Approved (gs_requests g),
      gs_next_permit := Suc (gs_next_permit (guard ?g))\<rparr>) ?g"
  have le: "fst (now E b) \<le> fst (now E ?b2)" using now_ge[of ?b2 E] gc(4) by simp
  have "gs_permits (guard c) = gs_permits (guard ?g) @
         [\<lparr>p_id = pid, p_node = rq_node r, p_subset = rq_subset r,
           p_expires = Some (wrap_i64 (fst (now E ?b2) + (case ttl of Some x \<Rightarrow> x | None \<Rightarrow> DEFAULT_PERMIT_TTL_MILLIS))),
           p_uses = uses\<rparr>]"
    using assms own r seal gc(3) by (auto simp: guard_approve_def Let_def split_beta)
  then show ?thesis using own mem seal le gc(1) by auto
qed

theorem approval_mints_one_permit_witness:
  "owner_ok (guard requested_sample) (Some ''code'') \<and> gs_permits (guard permit_sample) \<noteq> []"
proof -
  obtain pid c where "guard_approve (sim_env plain_libs) (Some ''code'') (request_id 0) None (Some 1) None requested_sample =
      (Inr (Some pid), c)" "c = permit_sample"
  proof -
    have "fst (guard_approve (sim_env plain_libs) (Some ''code'') (request_id 0) None (Some 1) None requested_sample) =
        Inr (Some (permit_id 0))" by code_simp
    then show thesis
      by (intro that[of "permit_id 0" permit_sample]) (simp_all add: permit_sample_def prod_eq_iff)
  qed
  from approval_mints_one_permit[OF this(1)] this(2) show ?thesis by auto
qed

text \<open>A snapshot answers as the broker's own check does at the moment it was taken: it allows whatever the broker
  allows, and where the guard has no say on the use the two refuse the same uses, with the same denial.\<close>

theorem snapshot_answers_as_the_broker:
  assumes "tree_ok (nodes b)"
  shows "let s = fst (take_snapshot E b); d = gd_decision (fst (check_use E i p arg b))
    in (is_allow d \<longrightarrow> snapshot_check s i p arg = AllowOp None) \<and>
       (fst (guard_verdict_use E i p arg (snd (now E b))) = Ungated \<longrightarrow>
          decision_denial (snapshot_check s i p arg) = decision_denial d)"
proof -
  let ?t = "fst (now E b)" and ?b1 = "snd (now E b)"
  define r where "r = (case node_view i ?t ?b1 of None \<Rightarrow> Inl (UnknownNode i) | Some (st, a) \<Rightarrow> validate i st a p arg None None)"
  have snap: "snapshot_check (fst (take_snapshot E b)) i p arg = (case r of Inr _ \<Rightarrow> AllowOp None | Inl d \<Rightarrow> DenyOp d)"
  proof (cases "fmlookup (nodes b) i")
    case None
    then show ?thesis
      by (simp add: r_def snapshot_check_def take_snapshot_def split_beta node_view_def inspect_def split: option.split)
  next
    case (Some n)
    have "eff_walk MAX_WALK (nodes b) (Some i) ?t \<noteq> None"
      using eff_walk_none[OF assms, of MAX_WALK i ?t] fmdomI[OF Some] by blast
    then obtain st where "eff_walk MAX_WALK (nodes b) (Some i) ?t = Some st" by blast
    then show ?thesis using Some
      by (simp add: r_def snapshot_check_def take_snapshot_def split_beta node_view_def inspect_def
          effective_state_inherited_def)
  qed
  have meth: "method_of_use p None = None" "url_of_use p None = None" by (simp_all add: method_of_use_def url_of_use_def)
  obtain v c where v: "guard_verdict_use E i p arg ?b1 = (v, c)" by (cases "guard_verdict_use E i p arg ?b1")
  have chk: "gd_decision (fst (check_use E i p arg b)) =
      (case r of Inl d \<Rightarrow> DenyOp d
       | Inr _ \<Rightarrow> (case v of Block d \<Rightarrow> DenyOp d
                  | _ \<Rightarrow> gd_decision (fst (check_use E i p arg b))))"
    "\<not> isl r \<Longrightarrow> v = Ungated \<Longrightarrow> is_allow (gd_decision (fst (check_use E i p arg b)))"
    by (cases r; cases v; cases "op_class_of p";
        simp add: check_use_def check_use_at_def check_use_by_def Let_def split_beta v meth gd_deny_def gd_allow_def
          is_allow_def flip: r_def)+
  have al: "is_allow d \<longleftrightarrow> decision_denial d = None" for d
    by (cases d) (simp_all add: is_allow_def decision_denial_def)
  show ?thesis
  proof (cases r)
    case (Inl d)
    then show ?thesis using snap chk(1) by (simp add: Let_def is_allow_def)
  next
    case (Inr u)
    then show ?thesis using snap chk(2) al v by (simp add: Let_def decision_denial_def)
  qed
qed

theorem snapshot_answers_as_the_broker_witness:
  "snapshot_check (fst (take_snapshot (sim_env plain_libs) tree_sample)) (seq_id 1) OpFsRead (Some ''data/in/a.txt'') =
     AllowOp None"
proof -
  have "is_allow (gd_decision (fst (check_use (sim_env plain_libs) (seq_id 1) OpFsRead (Some ''data/in/a.txt'') tree_sample)))"
    by code_simp
  then show ?thesis
    using snapshot_answers_as_the_broker[OF sample_ok(2), of "sim_env plain_libs" "seq_id 1" OpFsRead "Some ''data/in/a.txt''"]
    by (simp add: Let_def)
qed

end
