(* ===== verification/Deadman.thy ===== *)
theory Deadman imports Tree_World begin

text \<open>
  Dead-men, \<open>crates/delulu-broker/src/deadman.rs\<close>: a holder arms one on its node with a period and a key,
  and when no beat arrives in time the node's subtree is revoked. Instants and durations are nanoseconds
  since the clock's origin; \<open>checked_add\<close> fails past the last instant, the library's \<open>instant_max\<close>. The hash map
  of the source is walked in the order of its keys, where the source has none.
\<close>

definition MIN_PERIOD :: nat where "MIN_PERIOD = 100000000"

definition MAX_PERIOD :: nat where "MAX_PERIOD = 3600000000000"

record fired =
  f_node :: grant_id
  f_period :: nat
  f_armed_seq :: nat
  f_beats :: nat
  f_by_seq :: nat
  f_newly_revoked :: "grant_id list"

datatype deadman_refusal =
    TreeRefusal denial | NotArmed | AlreadyArmed | WrongKey | BadPeriod | HasFired fired

definition as_millis :: "nat \<Rightarrow> nat" where "as_millis d = d div 1000000"

definition checked_add :: "libs \<Rightarrow> nat \<Rightarrow> nat \<Rightarrow> nat option" where
  "checked_add lb t d = (if t + d \<le> instant_max lb then Some (t + d) else None)"

definition put_deadman :: "grant_id \<Rightarrow> deadman \<Rightarrow> 'w broker \<Rightarrow> 'w broker" where
  "put_deadman i d b = b\<lparr>deadmen := fmupd i d (deadmen b)\<rparr>"

definition drop_deadman :: "grant_id \<Rightarrow> 'w broker \<Rightarrow> 'w broker" where
  "drop_deadman i b = b\<lparr>deadmen := fmdrop i (deadmen b)\<rparr>"

definition deadman_node_live :: "'w env \<Rightarrow> grant_id \<Rightarrow> 'w broker \<Rightarrow> (deadman_refusal + unit) \<times> 'w broker" where
  "deadman_node_live E i b =
     (case effective_state E i b of
        (st, b1) \<Rightarrow>
          (case st of
             None \<Rightarrow> Inl (TreeRefusal (UnknownNode i))
           | Some EffLive \<Rightarrow> Inr ()
           | Some (EffRevoked q) \<Rightarrow> Inl (TreeRefusal (Revoked i q))
           | Some (EffExpired x y) \<Rightarrow> Inl (TreeRefusal (Expired i x y)), b1))"

definition arm_deadman ::
  "'w env \<Rightarrow> grant_id \<Rightarrow> nat \<Rightarrow> nat \<Rightarrow> 'w broker \<Rightarrow> (deadman_refusal + nat \<times> string) \<times> 'w broker" where
  "arm_deadman E i period t b =
     (case deadman_node_live E i b of
        (Inl r, b1) \<Rightarrow> (Inl r, b1)
      | (Inr _, b1) \<Rightarrow>
          if \<not> (MIN_PERIOD \<le> period \<and> period \<le> MAX_PERIOD) then (Inl BadPeriod, b1)
          else if i |\<in>| fmdom (deadmen b1) then (Inl AlreadyArmed, b1)
          else
            (case checked_add (env_libs E) t period of
               None \<Rightarrow> (Inl BadPeriod, b1)
             | Some deadline \<Rightarrow>
                 let (bs, b2) = take_random E 16 b1;
                     key = to_hex bs;
                     (seq, b3) = log_op E ''deadman-arm'' (Some i) (Some i)
                       (Some (obj_of [(''period_ms'', JInt (int (as_millis period))), (''on_death'', JString ''revoke-subtree'')]))
                       ''allow'' None b2
                 in (Inr (seq, key),
                     put_deadman i \<lparr>d_period = period, d_deadline = deadline, d_key_hash = blake3_hex (env_libs E) key,
                                    d_armed_seq = seq, d_beats = 0\<rparr> b3)))"

definition start_deadman_period :: "'w env \<Rightarrow> grant_id \<Rightarrow> nat \<Rightarrow> 'w broker \<Rightarrow> 'w broker" where
  "start_deadman_period E i t b =
     (case fmlookup (deadmen b) i of
        None \<Rightarrow> b
      | Some d \<Rightarrow> (case checked_add (env_libs E) t (d_period d) of
                     None \<Rightarrow> b
                   | Some due \<Rightarrow> put_deadman i (d\<lparr>d_deadline := max (d_deadline d) due\<rparr>) b))"

definition withdraw_unrecorded_arming :: "grant_id \<Rightarrow> 'w broker \<Rightarrow> 'w broker" where
  "withdraw_unrecorded_arming i b = drop_deadman i b"

definition fire_reason :: "grant_id \<Rightarrow> deadman \<Rightarrow> string" where
  "fire_reason i d =
     ''dead-man: the holder of `'' @ i @ ''` sent no beat within '' @ show_nat (as_millis (d_period d))
     @ '' ms (armed at seq '' @ show_nat (d_armed_seq d) @ '', '' @ show_nat (d_beats d)
     @ '' beat(s) before it stopped) '' @ [CHR 0xE2, CHR 0x80, CHR 0x94]
     @ '' its subtree is revoked: a watchdog gone quiet is treated as one that fired (P8-04, D-V2-106)''"

definition fire_deadman :: "'w env \<Rightarrow> grant_id \<Rightarrow> 'w broker \<Rightarrow> fired option \<times> 'w broker" where
  "fire_deadman E i b =
     (case fmlookup (deadmen b) i of
        None \<Rightarrow> (None, b)
      | Some d \<Rightarrow>
          (case deadman_node_live E i (drop_deadman i b) of
             (Inl _, b1) \<Rightarrow> (None, b1)
           | (Inr _, b1) \<Rightarrow>
               (case revoke_saying E i i (Some (fire_reason i d)) b1 of
                  (Inl _, b2) \<Rightarrow> (None, b2)
                | (Inr out, b2) \<Rightarrow>
                    (Some \<lparr>f_node = i, f_period = d_period d, f_armed_seq = d_armed_seq d, f_beats = d_beats d,
                           f_by_seq = ro_by_seq out, f_newly_revoked = ro_newly_revoked out\<rparr>, b2))))"

text \<open>A beat or a disarming that comes too late: the dead-man fires, or its node was dead already.\<close>

definition fire_late :: "'w env \<Rightarrow> grant_id \<Rightarrow> 'w broker \<Rightarrow> deadman_refusal \<times> 'w broker" where
  "fire_late E i b =
     (case fire_deadman E i b of
        (Some f, b1) \<Rightarrow> (HasFired f, b1)
      | (None, b1) \<Rightarrow> (case deadman_node_live E i b1 of (Inl r, b2) \<Rightarrow> (r, b2) | (Inr _, b2) \<Rightarrow> (NotArmed, b2)))"

definition not_armed :: "'w env \<Rightarrow> grant_id \<Rightarrow> 'w broker \<Rightarrow> deadman_refusal \<times> 'w broker" where
  "not_armed E i b = (case deadman_node_live E i b of (Inl r, b1) \<Rightarrow> (r, b1) | (Inr _, b1) \<Rightarrow> (NotArmed, b1))"

definition beat_deadman_arrived ::
  "'w env \<Rightarrow> grant_id \<Rightarrow> string \<Rightarrow> nat \<Rightarrow> nat \<Rightarrow> 'w broker \<Rightarrow> (deadman_refusal + nat) \<times> 'w broker" where
  "beat_deadman_arrived E i key arrived t b =
     (case fmlookup (deadmen b) i of
        None \<Rightarrow> (case not_armed E i b of (r, b1) \<Rightarrow> (Inl r, b1))
      | Some d \<Rightarrow>
          if blake3_hex (env_libs E) key \<noteq> d_key_hash d then (Inl WrongKey, b)
          else if d_deadline d \<le> arrived then (case fire_late E i b of (r, b1) \<Rightarrow> (Inl r, b1))
          else
            (case deadman_node_live E i b of
               (Inl r, b1) \<Rightarrow> (Inl r, b1)
             | (Inr _, b1) \<Rightarrow>
                 (Inr (d_period d),
                  put_deadman i (d\<lparr>d_deadline := (case checked_add (env_libs E) t (d_period d) of Some due \<Rightarrow> due | None \<Rightarrow> d_deadline d),
                                   d_beats := Suc (d_beats d)\<rparr>) b1)))"

definition beat_deadman :: "'w env \<Rightarrow> grant_id \<Rightarrow> string \<Rightarrow> nat \<Rightarrow> 'w broker \<Rightarrow> (deadman_refusal + nat) \<times> 'w broker" where
  "beat_deadman E i key t b = beat_deadman_arrived E i key t t b"

definition deadman_heard :: "'w env \<Rightarrow> grant_id \<Rightarrow> string \<Rightarrow> nat \<Rightarrow> 'w broker \<Rightarrow> bool \<times> 'w broker" where
  "deadman_heard E i key heard b =
     (case fmlookup (deadmen b) i of
        None \<Rightarrow> (False, b)
      | Some d \<Rightarrow>
          if blake3_hex (env_libs E) key \<noteq> d_key_hash d \<or> d_deadline d \<le> heard then (False, b)
          else (case checked_add (env_libs E) heard (d_period d) of
                  Some due \<Rightarrow> if d_deadline d < due then (True, put_deadman i (d\<lparr>d_deadline := due\<rparr>) b) else (False, b)
                | None \<Rightarrow> (False, b)))"

definition disarm_deadman_undoable ::
  "'w env \<Rightarrow> grant_id \<Rightarrow> string \<Rightarrow> nat \<Rightarrow> 'w broker \<Rightarrow> (deadman_refusal + nat \<times> grant_id \<times> deadman) \<times> 'w broker" where
  "disarm_deadman_undoable E i key t b =
     (case fmlookup (deadmen b) i of
        None \<Rightarrow> (case not_armed E i b of (r, b1) \<Rightarrow> (Inl r, b1))
      | Some d \<Rightarrow>
          if blake3_hex (env_libs E) key \<noteq> d_key_hash d then (Inl WrongKey, b)
          else if d_deadline d \<le> t then (case fire_late E i b of (r, b1) \<Rightarrow> (Inl r, b1))
          else
            (case deadman_node_live E i (drop_deadman i b) of
               (Inl r, b1) \<Rightarrow> (Inl r, b1)
             | (Inr _, b1) \<Rightarrow>
                 (case log_op E ''deadman-disarm'' (Some i) (Some i)
                         (Some (obj_of [(''armed_seq'', JInt (int (d_armed_seq d))), (''beats'', JInt (int (d_beats d)))]))
                         ''allow'' None b1 of
                    (seq, b2) \<Rightarrow> (Inr (seq, i, d), b2))))"

definition disarm_deadman :: "'w env \<Rightarrow> grant_id \<Rightarrow> string \<Rightarrow> nat \<Rightarrow> 'w broker \<Rightarrow> (deadman_refusal + nat) \<times> 'w broker" where
  "disarm_deadman E i key t b =
     (case disarm_deadman_undoable E i key t b of
        (Inl r, b1) \<Rightarrow> (Inl r, b1) | (Inr (seq, _), b1) \<Rightarrow> (Inr seq, b1))"

definition rearm_unrecorded_disarm :: "grant_id \<times> deadman \<Rightarrow> 'w broker \<Rightarrow> 'w broker" where
  "rearm_unrecorded_disarm x b = put_deadman (fst x) (snd x) b"

definition next_deadman_deadline :: "'w broker \<Rightarrow> nat option" where
  "next_deadman_deadline b =
     (let ts = map d_deadline (fm_values (deadmen b)) in if ts = [] then None else Some (fold min (tl ts) (hd ts)))"

definition deadman_armed :: "grant_id \<Rightarrow> 'w broker \<Rightarrow> bool" where
  "deadman_armed i b \<longleftrightarrow> i |\<in>| fmdom (deadmen b)"

text \<open>The dead-men whose node is no longer live are dropped, then the ones due are fired, in the order of their nodes.\<close>

fun drop_dead_nodes :: "'w env \<Rightarrow> grant_id list \<Rightarrow> 'w broker \<Rightarrow> grant_id list \<times> 'w broker" where
  "drop_dead_nodes E [] b = ([], b)"
| "drop_dead_nodes E (i # is) b =
     (case effective_state E i b of
        (st, b1) \<Rightarrow>
          (case drop_dead_nodes E is b1 of (gone, b2) \<Rightarrow> (if st = Some EffLive then gone else i # gone, b2)))"

fun fire_all :: "'w env \<Rightarrow> grant_id list \<Rightarrow> 'w broker \<Rightarrow> fired list \<times> 'w broker" where
  "fire_all E [] b = ([], b)"
| "fire_all E (i # is) b =
     (case fire_deadman E i b of
        (f, b1) \<Rightarrow>
          (case fire_all E is b1 of (fs, b2) \<Rightarrow> (case f of Some x \<Rightarrow> x # fs | None \<Rightarrow> fs, b2)))"

definition due_deadmen :: "nat \<Rightarrow> 'w broker \<Rightarrow> grant_id list" where
  "due_deadmen t b = map fst (filter (\<lambda>(_, d). d_deadline d \<le> t) (fm_entries (deadmen b)))"

definition fire_expired_deadmen :: "'w env \<Rightarrow> nat \<Rightarrow> 'w broker \<Rightarrow> fired list \<times> 'w broker" where
  "fire_expired_deadmen E t b =
     (case drop_dead_nodes E (sorted_elems (fmdom (deadmen b))) b of
        (gone, b1) \<Rightarrow>
          let b2 = b1\<lparr>deadmen := fmfilter (\<lambda>i. i \<notin> set gone) (deadmen b1)\<rparr>
          in fire_all E (due_deadmen t b2) b2)"

section \<open>What the operations keep\<close>

lemma put_deadman_frame [simp]:
  "nodes (put_deadman i d b) = nodes b" "world (put_deadman i d b) = world b"
  "audit_seq (put_deadman i d b) = audit_seq b" "clock_high_water (put_deadman i d b) = clock_high_water b"
  "deadmen (put_deadman i d b) = fmupd i d (deadmen b)" "guard (put_deadman i d b) = guard b"
  "adopted (put_deadman i d b) = adopted b" "strict_anchor (put_deadman i d b) = strict_anchor b"
  "redeemed (put_deadman i d b) = redeemed b" "adopted_chain_fps (put_deadman i d b) = adopted_chain_fps b"
  "revoked_adoption_fps (put_deadman i d b) = revoked_adoption_fps b" "proposals (put_deadman i d b) = proposals b"
  by (simp_all add: put_deadman_def)

lemma drop_deadman_frame [simp]:
  "nodes (drop_deadman i b) = nodes b" "world (drop_deadman i b) = world b"
  "audit_seq (drop_deadman i b) = audit_seq b" "clock_high_water (drop_deadman i b) = clock_high_water b"
  "deadmen (drop_deadman i b) = fmdrop i (deadmen b)" "guard (drop_deadman i b) = guard b"
  "adopted (drop_deadman i b) = adopted b" "strict_anchor (drop_deadman i b) = strict_anchor b"
  "redeemed (drop_deadman i b) = redeemed b" "adopted_chain_fps (drop_deadman i b) = adopted_chain_fps b"
  "revoked_adoption_fps (drop_deadman i b) = revoked_adoption_fps b" "proposals (drop_deadman i b) = proposals b"
  by (simp_all add: drop_deadman_def)

lemma deadman_node_live_frame [simp]:
  "nodes (snd (deadman_node_live E i b)) = nodes b" "deadmen (snd (deadman_node_live E i b)) = deadmen b"
  "guard (snd (deadman_node_live E i b)) = guard b" "adopted (snd (deadman_node_live E i b)) = adopted b"
  "strict_anchor (snd (deadman_node_live E i b)) = strict_anchor b"
  "proposals (snd (deadman_node_live E i b)) = proposals b"
  by (simp_all add: deadman_node_live_def effective_state_def split_beta)

context custody_contract
begin

lemma deadmen_step [contract_steps]:
  "R a b \<Longrightarrow> R a (put_deadman i d b)" "R a b \<Longrightarrow> R a (drop_deadman i b)"
  unfolding put_deadman_def drop_deadman_def by (rule contract_steps, assumption)+

lemma deadman_node_live_step [contract_steps]:
  "R a b \<Longrightarrow> R a (snd (deadman_node_live E i b))"
  by (simp add: deadman_node_live_def split_beta contract_steps)

lemma arm_deadman_step [contract_steps]:
  "R a b \<Longrightarrow> R a (snd (arm_deadman E i period t b))"
  unfolding arm_deadman_def Let_def split_beta
  by (auto intro: contract_steps split: sum.split option.split)

lemma start_deadman_period_step [contract_steps]:
  "R a b \<Longrightarrow> R a (start_deadman_period E i t b)"
  unfolding start_deadman_period_def by (auto intro: contract_steps split: option.split)

lemma fire_deadman_step [contract_steps]:
  "R a b \<Longrightarrow> R a (snd (fire_deadman E i b))"
  unfolding fire_deadman_def split_beta by (auto intro: contract_steps split: sum.split option.split)

lemma fire_late_step [contract_steps]: "R a b \<Longrightarrow> R a (snd (fire_late E i b))"
  unfolding fire_late_def split_beta by (auto intro: contract_steps split: sum.split option.split)

lemma not_armed_step [contract_steps]: "R a b \<Longrightarrow> R a (snd (not_armed E i b))"
  unfolding not_armed_def split_beta by (auto intro: contract_steps split: sum.split)

lemma beat_deadman_arrived_step [contract_steps]:
  "R a b \<Longrightarrow> R a (snd (beat_deadman_arrived E i key arrived t b))"
  unfolding beat_deadman_arrived_def split_beta by (auto intro: contract_steps split: sum.split option.split)

lemma deadman_heard_step [contract_steps]:
  "R a b \<Longrightarrow> R a (snd (deadman_heard E i key heard b))"
  unfolding deadman_heard_def by (auto intro: contract_steps split: option.split)

lemma disarm_deadman_undoable_step [contract_steps]:
  "R a b \<Longrightarrow> R a (snd (disarm_deadman_undoable E i key t b))"
  unfolding disarm_deadman_undoable_def split_beta by (auto intro: contract_steps split: sum.split option.split)

lemma disarm_deadman_step [contract_steps]:
  "R a b \<Longrightarrow> R a (snd (disarm_deadman E i key t b))"
  unfolding disarm_deadman_def split_beta by (auto intro: contract_steps split: sum.split)

lemma rearm_step [contract_steps]: "R a b \<Longrightarrow> R a (rearm_unrecorded_disarm x b)"
  by (simp add: rearm_unrecorded_disarm_def contract_steps)

lemma drop_dead_nodes_step [contract_steps]:
  "R a b \<Longrightarrow> R a (snd (drop_dead_nodes E is b))"
  by (induction "is" arbitrary: b) (simp_all add: split_beta contract_steps)

lemma fire_all_step [contract_steps]: "R a b \<Longrightarrow> R a (snd (fire_all E is b))"
  by (induction "is" arbitrary: b) (simp_all add: split_beta contract_steps)

lemma fire_expired_deadmen_step [contract_steps]:
  "R a b \<Longrightarrow> R a (snd (fire_expired_deadmen E t b))"
  unfolding fire_expired_deadmen_def split_beta Let_def by (auto intro!: contract_steps)

end

end
