(* ===== verification/Deadman_Claims.thy ===== *)
theory Deadman_Claims imports Deadman Tree_Claims begin

text \<open>
  What a dead-man promises: a beat in time postpones it, a beat too late and the sweep of the expired ones revoke
  the node's whole subtree, and nothing that is due survives the sweep.
\<close>

section \<open>States in which nodes are only ever revoked\<close>

definition only_revokes :: "'w broker \<Rightarrow> 'w broker \<Rightarrow> bool" where
  "only_revokes b c \<longleftrightarrow> clock_high_water b \<le> clock_high_water c \<and>
     (\<forall>i. fmlookup (nodes c) i = fmlookup (nodes b) i \<or>
          (\<exists>q. fmlookup (nodes c) i = map_option (revoked_at q) (fmlookup (nodes b) i)))"

text \<open>A node that is not live by the clock as the broker last read it.\<close>

definition dead_now :: "'w broker \<Rightarrow> grant_id \<Rightarrow> bool" where
  "dead_now b i \<longleftrightarrow> \<not> ancestry_live (nodes b) i (clock_high_water b)"

lemma only_revokes_refl [simp]: "only_revokes b b"
  by (simp add: only_revokes_def)

lemma revoked_at_twice: "map_option (revoked_at q) (map_option (revoked_at p) x) = map_option (revoked_at p) x"
  by (cases x) simp_all

lemma only_revokes_trans:
  assumes "only_revokes a b" "only_revokes b c"
  shows "only_revokes a c"
proof -
  have "fmlookup (nodes c) i = fmlookup (nodes a) i \<or> (\<exists>q. fmlookup (nodes c) i = map_option (revoked_at q) (fmlookup (nodes a) i))" for i
  proof -
    have b: "fmlookup (nodes b) i = fmlookup (nodes a) i \<or> (\<exists>q. fmlookup (nodes b) i = map_option (revoked_at q) (fmlookup (nodes a) i))"
      using assms(1) by (simp add: only_revokes_def)
    have "fmlookup (nodes c) i = fmlookup (nodes b) i \<or> (\<exists>q. fmlookup (nodes c) i = map_option (revoked_at q) (fmlookup (nodes b) i))"
      using assms(2) by (simp add: only_revokes_def)
    then show ?thesis using b by (elim disjE exE) (auto simp: revoked_at_twice)
  qed
  then show ?thesis using assms by (simp add: only_revokes_def)
qed

lemma only_revokes_dom: "only_revokes b c \<Longrightarrow> fmdom (nodes c) = fmdom (nodes b)"
  unfolding only_revokes_def fset_eq_iff fmlookup_dom_iff by (metis map_option_is_None not_Some_eq)

lemma only_revokes_lookup:
  assumes "only_revokes b c" "fmlookup (nodes b) i = Some n"
  shows "\<exists>m. fmlookup (nodes c) i = Some m \<and> (m = n \<or> (\<exists>q. m = revoked_at q n))"
  using assms unfolding only_revokes_def by (metis option.simps(9))

lemma only_revokes_below:
  assumes or: "only_revokes b c" and b: "below (nodes b) i a"
  shows "below (nodes c) i a"
  using b
proof (induction rule: below.induct)
  case (self i n)
  then show ?case using only_revokes_lookup[OF or] below.self by blast
next
  case (up i n p a)
  obtain m where "fmlookup (nodes c) i = Some m" "n_parent m = n_parent n"
    using only_revokes_lookup[OF or up.hyps(1)] by auto
  then show ?case using up below.up by metis
qed

lemma effective_state_of_later:
  "t \<le> t' \<Longrightarrow> effective_state_of n t \<noteq> EffLive \<Longrightarrow> effective_state_of n t' \<noteq> EffLive"
  by (auto simp: effective_state_of_def split: node_state.splits option.splits if_splits)

lemma dead_stays_dead:
  assumes or: "only_revokes b c" and "dead_now b i"
  shows "dead_now c i"
proof (cases "i |\<in>| fmdom (nodes b)")
  case True
  obtain a n where a: "below (nodes b) i a" "fmlookup (nodes b) a = Some n"
      "effective_state_of n (clock_high_water b) \<noteq> EffLive"
    using assms(2) True unfolding dead_now_def ancestry_live_def by blast
  have le: "clock_high_water b \<le> clock_high_water c" using or by (simp add: only_revokes_def)
  obtain m where m: "fmlookup (nodes c) a = Some m" "m = n \<or> (\<exists>q. m = revoked_at q n)"
    using only_revokes_lookup[OF or a(2)] by blast
  have "effective_state_of m (clock_high_water c) \<noteq> EffLive"
    using m(2) effective_state_of_later[OF le a(3)] eff_live_state revoked_at_fields(6) by metis
  then show ?thesis
    using only_revokes_below[OF or a(1)] m(1) unfolding dead_now_def ancestry_live_def by blast
next
  case False
  then show ?thesis using only_revokes_dom[OF or] by (simp add: dead_now_def ancestry_live_def)
qed

lemma dead_later: "dead_now b i \<Longrightarrow> \<not> ancestry_live (nodes b) i (fst (now E b))"
  using dead_stays_dead[of b "snd (now E b)" i] by (simp add: only_revokes_def dead_now_def now_ge)

section \<open>A node's revocation of itself\<close>

lemma revoke_self:
  assumes ok: "tree_ok (nodes b)" and i: "i |\<in>| fmdom (nodes b)"
  shows "\<exists>out c. revoke_saying E i i why b = (Inr out, c) \<and> tree_ok (nodes c) \<and> only_revokes b c \<and>
    revoked_below (ro_by_seq out) i (nodes b) (nodes c) \<and>
    ro_newly_revoked out = sorted_list_of_set {j. below (nodes b) j i \<and> is_live_node (nodes b) j} \<and>
    deadmen c = deadmen b"
proof -
  let ?q = "fst (take_seq E b)" and ?b2 = "bump_epoch (snd (take_seq E b))"
  obtain n where n: "fmlookup (nodes b) i = Some n" using i by (auto simp: fmlookup_dom_iff)
  obtain xs where xs: "distinct xs" "set xs = {j. below (nodes b) j i}"
      "revoke_core E i i b = ((?q, Inr (fst (revoke_subtree ?q xs ?b2))), snd (revoke_subtree ?q xs ?b2))"
    using revoke_core_result[OF ok i i below.self[OF n]] by blast
  define out where "out = fst (revoke_subtree ?q xs ?b2)"
  define c where "c = snd (revoke_saying E i i why b)"
  have res: "revoke_saying E i i why b = (Inr out, c)"
    by (simp add: c_def revoke_saying_def xs(3) out_def)
  obtain r1 r2 r3 r4 r5 where cr: "c = record_op E ?q r1 r2 r3 r4 r5 None (snd (revoke_subtree ?q xs ?b2))"
    by (simp add: c_def revoke_saying_def xs(3))
  have ns: "nodes c = snd (mark_all ?q xs (nodes b))" by (simp add: cr)
  have dm: "deadmen c = deadmen b"
    by (simp add: cr revoke_subtree_def split_beta Let_def bump_epoch_def)
  have "advances b (snd (revoke_subtree ?q xs ?b2))"
    using take_seq_advances[of b E] by (simp add: advances_def)
  then have "advances b c" unfolding cr by (rule advances_trans) (rule record_op_advances)
  then have "only_revokes b c"
    unfolding only_revokes_def advances_def ns mark_all_lookup by (metis (full_types))
  moreover have "tree_ok (nodes c)" using tree_ok_mark[OF ok xs(2)] ns by simp
  moreover have "revoked_below (ro_by_seq out) i (nodes b) (nodes c)"
    using xs(2) by (simp add: revoked_below_def ns mark_all_lookup out_def revoke_subtree_def split_beta Let_def)
  moreover have "ro_newly_revoked out = sorted_list_of_set {j. below (nodes b) j i \<and> is_live_node (nodes b) j}"
    using mark_all_sorted[OF xs(1,2), of ?q] by (simp add: out_def revoke_subtree_def split_beta Let_def)
  ultimately show ?thesis using res dm by blast
qed


section \<open>Firing\<close>

lemma node_live_result:
  assumes "tree_ok (nodes b)" "fcard (fmdom (nodes b)) < MAX_WALK"
  shows "\<exists>r. deadman_node_live E i b = (r, snd (now E b)) \<and> (isl r \<longleftrightarrow> \<not> ancestry_live (nodes b) i (fst (now E b)))"
proof -
  have "eff_walk MAX_WALK (nodes b) (Some i) t = Some EffLive \<longleftrightarrow> ancestry_live (nodes b) i t" for t
  proof (cases "i |\<in>| fmdom (nodes b)")
    case True
    then show ?thesis using walk_live_iff[OF assms] by blast
  next
    case False
    then have "fmlookup (nodes b) i = None" by (simp add: fmdom_notD)
    then show ?thesis using False by (simp add: MAX_WALK_def ancestry_live_def eval_nat_numeral)
  qed
  from this[of "fst (now E b)"] show ?thesis
    unfolding deadman_node_live_def effective_state_def split_beta effective_state_inherited_def fst_conv snd_conv
    by (auto split: option.splits eff_state.splits)
qed

lemma now_drop_deadman [simp]: "fst (now E (drop_deadman i b)) = fst (now E b)"
  by (simp add: now_def split_beta Let_def)

lemma fire_deadman_result:
  assumes ok: "tree_ok (nodes b)" and sz: "fcard (fmdom (nodes b)) < MAX_WALK" and d: "fmlookup (deadmen b) i = Some d"
  shows "\<exists>r c. fire_deadman E i b = (r, c) \<and> tree_ok (nodes c) \<and> only_revokes b c \<and> dead_now c i \<and>
    deadmen c = fmdrop i (deadmen b) \<and>
    (if ancestry_live (nodes b) i (fst (now E b))
     then \<exists>f. r = Some f \<and> f_node f = i \<and> revoked_below (f_by_seq f) i (nodes b) (nodes c) \<and>
            f_newly_revoked f = sorted_list_of_set {j. below (nodes b) j i \<and> is_live_node (nodes b) j}
     else r = None \<and> nodes c = nodes b)"
proof -
  let ?b0 = "drop_deadman i b"
  let ?b1 = "snd (now E ?b0)"
  have ok0: "tree_ok (nodes ?b0)" "fcard (fmdom (nodes ?b0)) < MAX_WALK" using ok sz by simp_all
  obtain r0 where r0: "deadman_node_live E i ?b0 = (r0, ?b1)"
      "isl r0 \<longleftrightarrow> \<not> ancestry_live (nodes b) i (fst (now E b))"
    using node_live_result[OF ok0, of E i] by auto
  have hw: "clock_high_water ?b1 = fst (now E b)" by simp
  have or1: "only_revokes b ?b1" using now_ge[of b E] by (simp add: only_revokes_def)
  show ?thesis
  proof (cases "ancestry_live (nodes b) i (fst (now E b))")
    case False
    then have "isl r0" using r0(2) by simp
    then have "fire_deadman E i b = (None, ?b1)"
      by (cases r0) (simp_all add: fire_deadman_def d r0(1))
    then show ?thesis using False or1 ok by (simp add: dead_now_def hw)
  next
    case True
    then obtain u where u: "r0 = Inr u" using r0(2) by (cases r0) auto
    have i: "i |\<in>| fmdom (nodes ?b1)" using True by (simp add: ancestry_live_def)
    have ok1: "tree_ok (nodes ?b1)" using ok by simp
    obtain out c where out: "revoke_saying E i i (Some (fire_reason i d)) ?b1 = (Inr out, c)" "tree_ok (nodes c)"
        "only_revokes ?b1 c" "revoked_below (ro_by_seq out) i (nodes ?b1) (nodes c)"
        "ro_newly_revoked out = sorted_list_of_set {j. below (nodes ?b1) j i \<and> is_live_node (nodes ?b1) j}"
        "deadmen c = deadmen ?b1"
      using revoke_self[OF ok1 i] by blast
    obtain n where n: "fmlookup (nodes b) i = Some n" using i by (auto simp: fmlookup_dom_iff)
    have b: "below (nodes b) i i" using n by (rule below.self)
    have cn: "fmlookup (nodes c) i = Some (revoked_at (ro_by_seq out) n)"
      using out(4) n b by (simp add: revoked_below_def)
    have "dead_now c i"
      unfolding dead_now_def using ancestry_live_self[OF _ cn] eff_live_state revoked_at_fields(6) by blast
    moreover have "fire_deadman E i b = (Some \<lparr>f_node = i, f_period = d_period d, f_armed_seq = d_armed_seq d,
        f_beats = d_beats d, f_by_seq = ro_by_seq out, f_newly_revoked = ro_newly_revoked out\<rparr>, c)"
      by (simp add: fire_deadman_def d r0(1) u out(1))
    ultimately show ?thesis
      using True out(2-6) only_revokes_trans[OF or1 out(3)] by simp
  qed
qed


section \<open>The sweep\<close>

lemma due_deadmen_iff:
  "i \<in> set (due_deadmen t b) \<longleftrightarrow> (\<exists>d. fmlookup (deadmen b) i = Some d \<and> d_deadline d \<le> t)"
  by (auto simp: due_deadmen_def fm_entries_def fmlookup_dom_iff image_iff)

lemma effective_state_result:
  assumes "tree_ok (nodes b)" "fcard (fmdom (nodes b)) < MAX_WALK"
  shows "\<exists>st. effective_state E i b = (st, snd (now E b)) \<and> (st = Some EffLive \<longleftrightarrow> ancestry_live (nodes b) i (fst (now E b)))"
  using node_live_result[OF assms, of E i]
  by (auto simp: deadman_node_live_def split_beta effective_state_def split: option.splits eff_state.splits)

lemma drop_dead_nodes_result:
  assumes "tree_ok (nodes b)" "fcard (fmdom (nodes b)) < MAX_WALK"
  shows "nodes (snd (drop_dead_nodes E is b)) = nodes b \<and> deadmen (snd (drop_dead_nodes E is b)) = deadmen b \<and>
    only_revokes b (snd (drop_dead_nodes E is b)) \<and>
    (\<forall>i\<in>set (fst (drop_dead_nodes E is b)). dead_now (snd (drop_dead_nodes E is b)) i)"
  using assms
proof (induction "is" arbitrary: b)
  case (Cons i "is")
  let ?b1 = "snd (now E b)" and ?c = "snd (drop_dead_nodes E is (snd (now E b)))"
  obtain st where st: "effective_state E i b = (st, ?b1)" "st = Some EffLive \<longleftrightarrow> ancestry_live (nodes b) i (fst (now E b))"
    using effective_state_result[OF Cons.prems] by blast
  have IH: "nodes ?c = nodes b" "deadmen ?c = deadmen b" "only_revokes ?b1 ?c"
      "\<forall>i\<in>set (fst (drop_dead_nodes E is ?b1)). dead_now ?c i"
    using Cons.IH[of ?b1] Cons.prems by simp_all
  have "only_revokes b ?b1" by (simp add: only_revokes_def now_ge)
  then have or: "only_revokes b ?c" using IH(3) only_revokes_trans by blast
  have dead: "st \<noteq> Some EffLive \<Longrightarrow> dead_now ?c i"
    using st(2) dead_stays_dead[OF IH(3), of i] by (simp add: dead_now_def)
  have res: "drop_dead_nodes E (i # is) b =
      ((if st = Some EffLive then fst (drop_dead_nodes E is ?b1) else i # fst (drop_dead_nodes E is ?b1)), ?c)"
    by (simp add: st(1) split_beta)
  show ?case unfolding res using IH or dead by simp
qed simp

lemma fire_all_result:
  assumes "tree_ok (nodes b)" "fcard (fmdom (nodes b)) < MAX_WALK"
  shows "tree_ok (nodes (snd (fire_all E is b))) \<and> only_revokes b (snd (fire_all E is b)) \<and>
    deadmen (snd (fire_all E is b)) = fmfilter (\<lambda>i. i \<notin> set is) (deadmen b) \<and>
    (\<forall>i\<in>set is. i |\<in>| fmdom (deadmen b) \<longrightarrow> dead_now (snd (fire_all E is b)) i)"
  using assms
proof (induction "is" arbitrary: b)
  case (Cons i "is")
  define b1 where "b1 = snd (fire_deadman E i b)"
  let ?c = "snd (fire_all E is b1)"
  have c: "snd (fire_all E (i # is) b) = ?c" by (simp add: split_beta b1_def)
  have step: "tree_ok (nodes b1) \<and> only_revokes b b1 \<and> deadmen b1 = fmdrop i (deadmen b) \<and>
      (i |\<in>| fmdom (deadmen b) \<longrightarrow> dead_now b1 i)"
  proof (cases "fmlookup (deadmen b) i")
    case None
    then have "fire_deadman E i b = (None, b)" "fmdrop i (deadmen b) = deadmen b"
      by (auto simp: fire_deadman_def fmdom_notI intro: fmap_ext)
    then show ?thesis using None Cons.prems by (simp add: b1_def fmlookup_dom_iff)
  next
    case (Some d)
    then show ?thesis using fire_deadman_result[OF Cons.prems Some, of E] unfolding b1_def by auto
  qed
  then have sz: "fcard (fmdom (nodes b1)) < MAX_WALK" using Cons.prems(2) only_revokes_dom by metis
  have IH: "tree_ok (nodes ?c)" "only_revokes b1 ?c" "deadmen ?c = fmfilter (\<lambda>i. i \<notin> set is) (deadmen b1)"
      "\<forall>i\<in>set is. i |\<in>| fmdom (deadmen b1) \<longrightarrow> dead_now ?c i"
    using Cons.IH[OF _ sz] step by blast+
  have "deadmen ?c = fmfilter (\<lambda>j. j \<notin> set (i # is)) (deadmen b)"
    using IH(3) step by (auto intro!: fmap_ext)
  moreover have "dead_now ?c j" if "j \<in> set (i # is)" "j |\<in>| fmdom (deadmen b)" for j
  proof (cases "j = i")
    case True
    then show ?thesis using step that dead_stays_dead[OF IH(2)] by blast
  next
    case False
    then show ?thesis using that IH(4) step by simp
  qed
  ultimately show ?case unfolding c using IH(1) only_revokes_trans[of b b1 ?c] IH(2) step by blast
qed (auto intro!: fmap_ext)

section \<open>Properties\<close>

text \<open>A beat with the wrong key changes nothing. With the right key, when the node's ancestry is live, a beat that
  arrived before the deadline is counted and moves the deadline a period on from the broker's time, and one that
  arrived at or after it fires the dead-man: the node's whole subtree is revoked, the nodes that were live are
  reported in order and the dead-man is gone. A dead node's beat is refused and revokes nothing.\<close>

theorem beat_postpones_or_fires:
  assumes "tree_ok (nodes b)" "fcard (fmdom (nodes b)) < MAX_WALK" "fmlookup (deadmen b) i = Some d"
  shows "let (r, c) = beat_deadman_arrived E i key arrived t b
    in if blake3_hex (env_libs E) key \<noteq> d_key_hash d then r = Inl WrongKey \<and> c = b
       else if \<not> ancestry_live (nodes b) i (fst (now E b)) then isl r \<and> nodes c = nodes b
       else if d_deadline d \<le> arrived then
         \<exists>f. r = Inl (HasFired f) \<and> f_node f = i \<and> revoked_below (f_by_seq f) i (nodes b) (nodes c) \<and>
             f_newly_revoked f = sorted_list_of_set {j. below (nodes b) j i \<and> is_live_node (nodes b) j} \<and>
             fmlookup (deadmen c) i = None
       else r = Inr (d_period d) \<and> nodes c = nodes b \<and>
         fmlookup (deadmen c) i = Some (d\<lparr>d_beats := Suc (d_beats d),
           d_deadline := (if t + d_period d \<le> instant_max (env_libs E) then t + d_period d else d_deadline d)\<rparr>)"
proof -
  let ?E = "env_libs E"
  consider (key) "blake3_hex ?E key \<noteq> d_key_hash d"
    | (late) "blake3_hex ?E key = d_key_hash d" "d_deadline d \<le> arrived"
    | (early) "blake3_hex ?E key = d_key_hash d" "\<not> d_deadline d \<le> arrived" by blast
  then show ?thesis
  proof cases
    case key
    then show ?thesis by (simp add: beat_deadman_arrived_def assms(3))
  next
    case late
    obtain r c where rc: "fire_deadman E i b = (r, c)" "deadmen c = fmdrop i (deadmen b)"
        "if ancestry_live (nodes b) i (fst (now E b))
         then \<exists>f. r = Some f \<and> f_node f = i \<and> revoked_below (f_by_seq f) i (nodes b) (nodes c) \<and>
            f_newly_revoked f = sorted_list_of_set {j. below (nodes b) j i \<and> is_live_node (nodes b) j}
         else r = None \<and> nodes c = nodes b"
      using fire_deadman_result[OF assms, of E] by blast
    show ?thesis
    proof (cases "ancestry_live (nodes b) i (fst (now E b))")
      case True
      then show ?thesis using rc late by (auto simp: beat_deadman_arrived_def assms(3) fire_late_def)
    next
      case False
      obtain r' c' where l: "deadman_node_live E i c = (r', c')" by (cases "deadman_node_live E i c")
      then have "nodes c' = nodes c" using deadman_node_live_frame(1)[of E i c] by simp
      moreover have "beat_deadman_arrived E i key arrived t b = (Inl (case r' of Inl x \<Rightarrow> x | Inr _ \<Rightarrow> NotArmed), c')"
        using rc(1,3) False late l by (cases r') (simp_all add: beat_deadman_arrived_def assms(3) fire_late_def)
      ultimately show ?thesis using rc(3) False late by simp
    qed
  next
    case early
    obtain r where r: "deadman_node_live E i b = (r, snd (now E b))"
        "isl r \<longleftrightarrow> \<not> ancestry_live (nodes b) i (fst (now E b))"
      using node_live_result[OF assms(1,2)] by blast
    show ?thesis
      using r early by (cases r) (simp_all add: beat_deadman_arrived_def assms(3) checked_add_def)
  qed
qed

text \<open>After the sweep at an instant nothing that was due is left armed, every dead-man still armed is one that was
  and is not yet due, and every node whose dead-man was due is dead: revoked by it, or dead already.\<close>

theorem sweep_fires_every_due_deadman:
  assumes "tree_ok (nodes b)" "fcard (fmdom (nodes b)) < MAX_WALK"
  shows "let c = snd (fire_expired_deadmen E t b)
    in (\<forall>i d. fmlookup (deadmen c) i = Some d \<longrightarrow> fmlookup (deadmen b) i = Some d \<and> t < d_deadline d) \<and>
       (\<forall>i d. fmlookup (deadmen b) i = Some d \<longrightarrow> d_deadline d \<le> t \<longrightarrow> \<not> ancestry_live (nodes c) i (fst (now E c)))"
proof -
  obtain gone b1 where g: "drop_dead_nodes E (sorted_elems (fmdom (deadmen b))) b = (gone, b1)"
    by (cases "drop_dead_nodes E (sorted_elems (fmdom (deadmen b))) b")
  have b1: "nodes b1 = nodes b" "deadmen b1 = deadmen b" "only_revokes b b1" "\<forall>i\<in>set gone. dead_now b1 i"
    using drop_dead_nodes_result[OF assms, of E "sorted_elems (fmdom (deadmen b))"] g by simp_all
  define b2 where "b2 = b1\<lparr>deadmen := fmfilter (\<lambda>i. i \<notin> set gone) (deadmen b1)\<rparr>"
  define c where "c = snd (fire_all E (due_deadmen t b2) b2)"
  have c: "snd (fire_expired_deadmen E t b) = c"
    by (simp add: fire_expired_deadmen_def g b2_def c_def Let_def)
  have b2: "nodes b2 = nodes b" "deadmen b2 = fmfilter (\<lambda>i. i \<notin> set gone) (deadmen b)"
      "\<And>i. dead_now b1 i \<Longrightarrow> dead_now b2 i"
    unfolding b2_def b1(2) dead_now_def by (simp_all add: b1(1))
  have fa: "only_revokes b2 c" "deadmen c = fmfilter (\<lambda>i. i \<notin> set (due_deadmen t b2)) (deadmen b2)"
      "\<forall>i\<in>set (due_deadmen t b2). i |\<in>| fmdom (deadmen b2) \<longrightarrow> dead_now c i"
    using fire_all_result[of b2 E "due_deadmen t b2"] assms b2(1) unfolding c_def by auto
  have left: "fmlookup (deadmen b) i = Some d \<and> t < d_deadline d" if "fmlookup (deadmen c) i = Some d" for i d
  proof -
    have l2: "fmlookup (deadmen b2) i = Some d" "i \<notin> set (due_deadmen t b2)"
      using that fa(2) by (auto split: if_splits)
    then show ?thesis using b2(2) due_deadmen_iff[of i t b2] by (auto split: if_splits)
  qed
  have dead: "dead_now c i" if i: "fmlookup (deadmen b) i = Some d" "d_deadline d \<le> t" for i d
  proof (cases "i \<in> set gone")
    case True
    then have "dead_now b2 i" using b1(4) b2(3) by blast
    then show ?thesis by (rule dead_stays_dead[OF fa(1)])
  next
    case False
    then have l2: "fmlookup (deadmen b2) i = Some d" using i(1) b2(2) by simp
    then have "i \<in> set (due_deadmen t b2)" using i(2) due_deadmen_iff by blast
    then show ?thesis using fa(3) fmdomI[OF l2] by blast
  qed
  show ?thesis unfolding c Let_def using left dead dead_later by blast
qed

text \<open>A child whose dead-man is armed for two hundred milliseconds at the origin of the clock.\<close>

definition armed_sample :: "sim_world broker" where
  "armed_sample = snd (arm_deadman (sim_env plain_libs) (seq_id 1) 200000000 0 tree_sample)"

definition armed_deadman :: deadman where
  "armed_deadman = \<lparr>d_period = 200000000, d_deadline = 200000000, d_key_hash = to_hex (to_hex (replicate 16 (CHR 0x01))),
     d_armed_seq = 3, d_beats = 0\<rparr>"

lemma armed_sample_facts:
  "tree_ok (nodes armed_sample)" "fcard (fmdom (nodes armed_sample)) < MAX_WALK"
  "fmlookup (deadmen armed_sample) (seq_id 1) = Some armed_deadman"
  "ancestry_live (nodes armed_sample) (seq_id 1) (fst (now (sim_env plain_libs) armed_sample))"
proof -
  have "tree_inv sim_seen armed_sample"
    unfolding armed_sample_def
    using custody_contract.arm_deadman_step[OF sim.sound_contract sound_step_refl] tree_sample_inv by (rule sound_inv)
  then show "tree_ok (nodes armed_sample)" by (rule tree_inv_ok)
  show "fcard (fmdom (nodes armed_sample)) < MAX_WALK" "fmlookup (deadmen armed_sample) (seq_id 1) = Some armed_deadman"
    by code_simp+
  have "eff_walk MAX_WALK (nodes armed_sample) (Some (seq_id 1)) (fst (now (sim_env plain_libs) armed_sample)) = Some EffLive"
    by code_simp
  then show "ancestry_live (nodes armed_sample) (seq_id 1) (fst (now (sim_env plain_libs) armed_sample))"
    by (rule eff_walk_live_sound)
qed

theorem beat_postpones_or_fires_witness:
  "\<exists>f c. beat_deadman_arrived (sim_env plain_libs) (seq_id 1) (to_hex (replicate 16 (CHR 0x01))) 300000000 300000000 armed_sample =
     (Inl (HasFired f), c) \<and> f_node f = seq_id 1 \<and> revoked_below (f_by_seq f) (seq_id 1) (nodes armed_sample) (nodes c)"
proof -
  have k: "blake3_hex (env_libs (sim_env plain_libs)) (to_hex (replicate 16 (CHR 0x01))) = d_key_hash armed_deadman"
    "d_deadline armed_deadman \<le> 300000000"
    by (simp_all add: sim_env_def plain_libs_def armed_deadman_def)
  show ?thesis
    using beat_postpones_or_fires[OF armed_sample_facts(1-3), of "sim_env plain_libs" "to_hex (replicate 16 (CHR 0x01))"
        300000000 300000000] armed_sample_facts(4) k
    by (auto simp: Let_def split_beta prod_eq_iff)
qed

theorem sweep_fires_every_due_deadman_witness:
  "\<not> ancestry_live (nodes (snd (fire_expired_deadmen (sim_env plain_libs) 300000000 armed_sample))) (seq_id 1)
     (fst (now (sim_env plain_libs) (snd (fire_expired_deadmen (sim_env plain_libs) 300000000 armed_sample))))"
proof -
  have "d_deadline armed_deadman \<le> 300000000" by (simp add: armed_deadman_def)
  then show ?thesis
    using sweep_fires_every_due_deadman[OF armed_sample_facts(1,2), of "sim_env plain_libs" 300000000] armed_sample_facts(3)
    by (simp add: Let_def)
qed

end
