(* ===== verification/Secrets.thy ===== *)
theory Secrets imports Guard begin

text \<open>
  Secrets and their uses, \<open>crates/delulu-broker/src/secrets.rs\<close>: the store of named values and of the values
  derived from them, and the broker's operations on it, each behind the node's authority and the guard. The
  file behind the store is outside the model: what was read is an argument of \<open>store_load\<close> and
  \<open>store_refresh\<close>.
\<close>

section \<open>The store\<close>

record derived_secret =
  ds_value :: string
  ds_source :: string

record secret_store =
  st_entries :: "(string, string) fmap"
  st_derived :: "(string, derived_secret) fmap"
  st_next :: nat

definition string_members :: "(string \<times> json) list \<Rightarrow> (string, string) fmap" where
  "string_members kvs = foldl (\<lambda>m (k, v). case as_str v of Some s \<Rightarrow> fmupd k s m | None \<Rightarrow> m) fmempty kvs"

definition parse_entries :: "libs \<Rightarrow> string \<Rightarrow> (string, string) fmap" where
  "parse_entries lb text =
     (case Option.bind (parse_json lb text) as_object of Some kvs \<Rightarrow> string_members kvs | None \<Rightarrow> fmempty)"

definition store_load :: "libs \<Rightarrow> string option \<Rightarrow> secret_store" where
  "store_load lb text =
     \<lparr>st_entries = (case text of Some s \<Rightarrow> parse_entries lb s | None \<Rightarrow> fmempty), st_derived = fmempty, st_next = 0\<rparr>"

definition store_in_memory :: secret_store where
  "store_in_memory = \<lparr>st_entries = fmempty, st_derived = fmempty, st_next = 0\<rparr>"

text \<open>What reading the file gave: its text, or an error with whether the file is there.\<close>

datatype file_read = ReadText string | Unreadable bool

definition store_refresh :: "libs \<Rightarrow> file_read \<Rightarrow> secret_store \<Rightarrow> secret_store" where
  "store_refresh lb r st =
     (case r of
        ReadText s \<Rightarrow> st\<lparr>st_entries := parse_entries lb s\<rparr>
      | Unreadable there \<Rightarrow> if there then st else st\<lparr>st_entries := fmempty\<rparr>)"

definition store_set :: "string \<Rightarrow> string \<Rightarrow> secret_store \<Rightarrow> secret_store" where
  "store_set name v st = st\<lparr>st_entries := fmupd name v (st_entries st)\<rparr>"

definition store_get :: "secret_store \<Rightarrow> string \<Rightarrow> string option" where
  "store_get st name =
     (case fmlookup (st_entries st) name of
        Some v \<Rightarrow> Some v | None \<Rightarrow> map_option ds_value (fmlookup (st_derived st) name))"

definition store_names :: "secret_store \<Rightarrow> string list" where
  "store_names st = sorted_elems (fmdom (st_entries st))"

definition source_of :: "secret_store \<Rightarrow> string \<Rightarrow> string option" where
  "source_of st name =
     (if name |\<in>| fmdom (st_entries st) then Some name else map_option ds_source (fmlookup (st_derived st) name))"

definition derived_name :: "nat \<Rightarrow> string" where
  "derived_name k = ''s_derived_'' @ pad_hex 8 k"

definition insert_derived :: "string \<Rightarrow> string \<Rightarrow> secret_store \<Rightarrow> string \<times> secret_store" where
  "insert_derived v src st =
     (let name = derived_name (st_next st)
      in (name, st\<lparr>st_next := Suc (st_next st),
                   st_derived := fmupd name \<lparr>ds_value = v, ds_source = src\<rparr> (st_derived st)\<rparr>))"

definition remove_derived :: "string \<Rightarrow> secret_store \<Rightarrow> bool \<times> secret_store" where
  "remove_derived name st = (name |\<in>| fmdom (st_derived st), st\<lparr>st_derived := fmdrop name (st_derived st)\<rparr>)"

section \<open>Authority over a secret\<close>

definition live_authority :: "'w env \<Rightarrow> grant_id \<Rightarrow> 'w broker \<Rightarrow> (denial + authority) \<times> 'w broker" where
  "live_authority E i b =
     (case effective_state E i b of
        (st, b1) \<Rightarrow>
          (case st of
             None \<Rightarrow> Inl (UnknownNode i)
           | Some (EffRevoked q) \<Rightarrow> Inl (Revoked i q)
           | Some (EffExpired x y) \<Rightarrow> Inl (Expired i x y)
           | Some EffLive \<Rightarrow> (case inspect i b1 of Some n \<Rightarrow> Inr (n_authority n) | None \<Rightarrow> Inl (UnknownNode i)), b1))"

definition secret_value :: "grant_id \<Rightarrow> authority \<Rightarrow> string \<Rightarrow> secret_store \<Rightarrow> denial + string \<times> string" where
  "secret_value i a name st =
     (case source_of st name of
        None \<Rightarrow> Inl (OutOfScope i ''secrets.store'' name)
      | Some src \<Rightarrow>
          if src |\<notin>| secrets (a_scopes a) then Inl (OutOfScope i ''secrets'' name)
          else (case store_get st name of
                  None \<Rightarrow> Inl (OutOfScope i ''secrets.store'' name)
                | Some v \<Rightarrow> Inr (src, v)))"

definition expose_check :: "grant_id \<Rightarrow> authority \<Rightarrow> string \<Rightarrow> secret_store \<Rightarrow> denial + string" where
  "expose_check i a name st =
     (if Declassify |\<notin>| effects a then Inl (OutOfScope i ''effects'' ''Declassify'')
      else (case secret_value i a name st of Inl d \<Rightarrow> Inl d | Inr (_, v) \<Rightarrow> Inr v))"

definition expose_inner ::
  "'w env \<Rightarrow> grant_id \<Rightarrow> string \<Rightarrow> secret_store \<Rightarrow> 'w broker \<Rightarrow> (denial + string) \<times> 'w broker" where
  "expose_inner E i name st b =
     (case live_authority E i b of
        (Inl d, b1) \<Rightarrow> (Inl d, b1)
      | (Inr a, b1) \<Rightarrow> (expose_check i a name st, b1))"

definition expose ::
  "'w env \<Rightarrow> grant_id \<Rightarrow> string \<Rightarrow> secret_store \<Rightarrow> string option \<Rightarrow> 'w broker \<Rightarrow> (denial + string) \<times> 'w broker" where
  "expose E i name st sp b =
     (case take_seq E b of
        (seq, b1) \<Rightarrow>
          (case expose_inner E i name st b1 of
             (r, b2) \<Rightarrow>
               (r, record_op E seq ''expose'' (Some i) (Some name) None (if isl r then ''deny'' else ''allow'') sp b2)))"

section \<open>Under the guard\<close>

text \<open>The record a verdict that lets a use through leaves, and the note it carries.\<close>

definition verdict_event :: "guard_verdict \<Rightarrow> string option" where
  "verdict_event v =
     (case v of PermitUse \<Rightarrow> Some ''guard_permit_use'' | BypassedUse _ \<Rightarrow> Some ''guard_bypassed_use''
      | WarnUse _ \<Rightarrow> Some ''guard_warn'' | _ \<Rightarrow> None)"

definition verdict_note :: "guard_verdict \<Rightarrow> string option" where
  "verdict_note v = (case v of BypassedUse n \<Rightarrow> Some n | WarnUse n \<Rightarrow> Some n | _ \<Rightarrow> None)"

definition expose_guarded ::
  "'w env \<Rightarrow> grant_id \<Rightarrow> string \<Rightarrow> secret_store \<Rightarrow> string option \<Rightarrow> 'w broker \<Rightarrow>
     ((denial + string) \<times> string option) \<times> 'w broker" where
  "expose_guarded E i name st sp b =
     (let log = (\<lambda>action decision c. snd (log_op E action (Some i) (Some name) None decision sp c))
      in case expose_inner E i name st b of
           (Inl d, b1) \<Rightarrow> ((Inl d, None), log ''expose'' ''deny'' b1)
         | (Inr v, b1) \<Rightarrow>
             (case guard_verdict_use E i OpDeclassify (Some name) b1 of
                (Block d, b2) \<Rightarrow> ((Inl d, None), log ''guard_block'' ''deny'' b2)
              | (g, b2) \<Rightarrow>
                  ((Inr v, verdict_note g),
                   log (case verdict_event g of Some e \<Rightarrow> e | None \<Rightarrow> ''expose'') ''allow'' b2)))"

definition send_check :: "grant_id \<Rightarrow> authority \<Rightarrow> string \<Rightarrow> string \<Rightarrow> secret_store \<Rightarrow> denial + string" where
  "send_check i a name pair st =
     (case source_of st name of
        None \<Rightarrow> Inl (OutOfScope i ''secrets.store'' name)
      | Some src \<Rightarrow>
          if src |\<notin>| secrets (a_scopes a) then Inl (OutOfScope i ''secrets'' name)
          else if pair |\<notin>| secret_to (a_scopes a) then Inl (OutOfScope i ''secret_to'' pair)
          else (case store_get st name of Some v \<Rightarrow> Inr v | None \<Rightarrow> Inl (OutOfScope i ''secrets.store'' name)))"

definition send_pair :: "secret_store \<Rightarrow> string \<Rightarrow> string \<Rightarrow> string" where
  "send_pair st name origin = (case source_of st name of Some s \<Rightarrow> s | None \<Rightarrow> name) @ ''@'' @ origin"

definition send_secret_guarded ::
  "'w env \<Rightarrow> grant_id \<Rightarrow> string \<Rightarrow> string \<Rightarrow> secret_store \<Rightarrow> string option \<Rightarrow> 'w broker \<Rightarrow>
     ((denial + string) \<times> string option) \<times> 'w broker" where
  "send_secret_guarded E i name origin st sp b =
     (let pair = send_pair st name origin;
          log = (\<lambda>action decision c. snd (log_op E action (Some i) (Some pair) None decision sp c));
          (checked, b1) = (case live_authority E i b of
                             (Inl d, b1) \<Rightarrow> (Inl d, b1)
                           | (Inr a, b1) \<Rightarrow> (send_check i a name pair st, b1))
      in case checked of
           Inl d \<Rightarrow> ((Inl d, None), log ''send'' ''deny'' b1)
         | Inr v \<Rightarrow>
             (case guard_verdict_use E i OpDeclassify (Some pair) b1 of
                (Block d, b2) \<Rightarrow> ((Inl d, None), log ''guard_block'' ''deny'' b2)
              | (g, b2) \<Rightarrow>
                  ((Inr v, verdict_note g),
                   log ''send'' ''allow'' (case verdict_event g of Some e \<Rightarrow> log e ''allow'' b2 | None \<Rightarrow> b2))))"

section \<open>Comparing two secrets\<close>

text \<open>The comparison whose time does not depend on where the values differ.\<close>

definition char_u8 :: "char \<Rightarrow> u8" where "char_u8 c = of_nat (of_char c)"

definition constant_time_eq :: "string \<Rightarrow> string \<Rightarrow> bool" where
  "constant_time_eq a b \<longleftrightarrow>
     length a = length b \<and> foldl (\<lambda>acc (x, y). acc OR (char_u8 x XOR char_u8 y)) (0 :: u8) (zip a b) = 0"

text \<open>The guard asked about each name in turn; the last note wins.\<close>

fun guard_names ::
  "'w env \<Rightarrow> grant_id \<Rightarrow> string list \<Rightarrow> string option \<Rightarrow> string option \<Rightarrow> 'w broker \<Rightarrow> (denial + string option) \<times> 'w broker" where
  "guard_names E i [] sp note b = (Inr note, b)"
| "guard_names E i (name # names) sp note b =
     (case guard_verdict_use E i OpDeclassify (Some name) b of
        (Block d, b1) \<Rightarrow> (Inl d, snd (log_op E ''guard_block'' (Some i) (Some name) None ''deny'' sp b1))
      | (g, b1) \<Rightarrow>
          guard_names E i names sp (case verdict_note g of Some n \<Rightarrow> Some n | None \<Rightarrow> note)
            (case verdict_event g of
               Some e \<Rightarrow> snd (log_op E e (Some i) (Some name) None ''allow'' sp b1) | None \<Rightarrow> b1))"

definition verify_guarded ::
  "'w env \<Rightarrow> grant_id \<Rightarrow> string \<Rightarrow> string \<Rightarrow> secret_store \<Rightarrow> string option \<Rightarrow> 'w broker \<Rightarrow>
     ((denial + bool) \<times> string option) \<times> 'w broker" where
  "verify_guarded E i x y st sp b =
     (let pair = x @ '' ~ '' @ y;
          log = (\<lambda>decision c. snd (log_op E ''verify'' (Some i) (Some pair) None decision sp c))
      in case expose_inner E i x st b of
           (Inl d, b1) \<Rightarrow> ((Inl d, None), log ''deny'' b1)
         | (Inr _, b1) \<Rightarrow>
             (case expose_inner E i y st b1 of
                (Inl d, b2) \<Rightarrow> ((Inl d, None), log ''deny'' b2)
              | (Inr _, b2) \<Rightarrow>
                  (case guard_names E i (if x = y then [x] else [x, y]) sp None b2 of
                     (Inl d, b3) \<Rightarrow> ((Inl d, None), b3)
                   | (Inr note, b3) \<Rightarrow>
                       (case (store_get st x, store_get st y) of
                          (Some vx, Some vy) \<Rightarrow> ((Inr (constant_time_eq vx vy), note), log ''allow'' b3)
                        | _ \<Rightarrow> ((Inl (OutOfScope i ''secrets.store'' (x @ '', '' @ y)), None), log ''deny'' b3)))))"

section \<open>Deriving a secret\<close>

definition map_value :: "libs \<Rightarrow> string \<Rightarrow> string \<Rightarrow> string option" where
  "map_value lb how v =
     (if how = ''trim'' then Some (trim v)
      else if how = ''upper'' then Some (to_upper lb v)
      else if how = ''lower'' then Some (to_lower lb v)
      else None)"

definition secret_map_inner ::
  "'w env \<Rightarrow> grant_id \<Rightarrow> string \<Rightarrow> string \<Rightarrow> secret_store \<Rightarrow> 'w broker \<Rightarrow> (denial + string) \<times> secret_store \<times> 'w broker" where
  "secret_map_inner E i name how st b =
     (case live_authority E i b of
        (Inl d, b1) \<Rightarrow> (Inl d, st, b1)
      | (Inr a, b1) \<Rightarrow>
          (case secret_value i a name st of
             Inl d \<Rightarrow> (Inl d, st, b1)
           | Inr (src, v) \<Rightarrow>
               (case map_value (env_libs E) how v of
                  None \<Rightarrow> (Inl (OutOfScope i ''secret.map'' how), st, b1)
                | Some w \<Rightarrow> (case insert_derived w src st of (n, st1) \<Rightarrow> (Inr n, st1, b1)))))"

definition secret_map ::
  "'w env \<Rightarrow> grant_id \<Rightarrow> string \<Rightarrow> string \<Rightarrow> secret_store \<Rightarrow> 'w broker \<Rightarrow> (denial + string) \<times> secret_store \<times> 'w broker" where
  "secret_map E i name how st b =
     (case take_seq E b of
        (seq, b1) \<Rightarrow>
          (case secret_map_inner E i name how st b1 of
             (r, st1, b2) \<Rightarrow>
               (r, st1, record_op E seq ''secret_map'' (Some i) (Some (name @ '':'' @ how)) None
                          (if isl r then ''deny'' else ''allow'') None b2)))"

section \<open>What the operations keep\<close>

context frame_contract
begin

lemma live_authority_step [contract_steps]:
  "R a b \<Longrightarrow> R a (snd (live_authority E i b))"
  by (simp add: live_authority_def split_beta contract_steps)

lemma expose_inner_step [contract_steps]:
  "R a b \<Longrightarrow> R a (snd (expose_inner E i name st b))"
  unfolding expose_inner_def split_beta by (auto intro: contract_steps split: sum.split)

lemma expose_step [contract_steps]:
  "R a b \<Longrightarrow> R a (snd (expose E i name st sp b))"
  unfolding expose_def split_beta by (auto intro: contract_steps)

lemma expose_guarded_step [contract_steps]:
  "R a b \<Longrightarrow> R a (snd (expose_guarded E i name st sp b))"
  unfolding expose_guarded_def split_beta Let_def
  by (auto intro: contract_steps split: sum.split guard_verdict.split)

lemma send_secret_guarded_step [contract_steps]:
  "R a b \<Longrightarrow> R a (snd (send_secret_guarded E i name origin st sp b))"
  unfolding send_secret_guarded_def split_beta Let_def
  by (auto intro: contract_steps split: sum.split guard_verdict.split option.split)

lemma guard_names_step [contract_steps]:
  "R a b \<Longrightarrow> R a (snd (guard_names E i names sp note b))"
proof (induction names arbitrary: "note" b)
  case (Cons name names)
  obtain v b1 where v: "guard_verdict_use E i OpDeclassify (Some name) b = (v, b1)"
    by (cases "guard_verdict_use E i OpDeclassify (Some name) b")
  have "R a b1" using guard_verdict_step[OF Cons.prems, of i OpDeclassify "Some name"] v by simp
  then show ?case by (cases v) (simp_all add: v Cons.IH verdict_event_def contract_steps)
qed simp

lemma verify_guarded_step [contract_steps]:
  assumes "R a b"
  shows "R a (snd (verify_guarded E i x y st sp b))"
proof -
  define names where "names = (if x = y then [x] else [x, y])"
  obtain r1 b1 where e1: "expose_inner E i x st b = (r1, b1)" by (cases "expose_inner E i x st b")
  obtain r2 b2 where e2: "expose_inner E i y st b1 = (r2, b2)" by (cases "expose_inner E i y st b1")
  obtain r3 b3 where e3: "guard_names E i names sp None b2 = (r3, b3)" by (cases "guard_names E i names sp None b2")
  have s1: "R a b1" using expose_inner_step[OF assms] e1 by (metis snd_conv)
  have s2: "R a b2" using expose_inner_step[OF s1] e2 by (metis snd_conv)
  have s3: "R a b3" using guard_names_step[OF s2] e3 by (metis snd_conv)
  show ?thesis
    unfolding verify_guarded_def Let_def names_def[symmetric]
    by (cases r1; cases r2; cases r3; cases "store_get st x"; cases "store_get st y")
      (simp_all add: e1 e2 e3 s1 s2 s3 contract_steps)
qed

lemma secret_map_inner_step [contract_steps]:
  "R a b \<Longrightarrow> R a (snd (snd (secret_map_inner E i name how st b)))"
  unfolding secret_map_inner_def split_beta by (auto intro: contract_steps split: sum.split option.split)

lemma secret_map_step [contract_steps]:
  "R a b \<Longrightarrow> R a (snd (snd (secret_map E i name how st b)))"
  unfolding secret_map_def split_beta by (auto intro: contract_steps)

end

end
