(* ===== verification/Secrets_Claims.thy ===== *)
theory Secrets_Claims imports Secrets Guard_Claims begin

text \<open>
  What the secret operations promise: a value leaves only to a live node that holds the secret it comes from,
  with the right to declassify it or to send it to that very origin, and past the guard; deriving never
  widens; and the comparison in constant time is equality.
\<close>

section \<open>The comparison\<close>

lemma char_u8_inj [simp]: "char_u8 a = char_u8 b \<longleftrightarrow> a = b"
proof
  assume "char_u8 a = char_u8 b"
  then have "take_bit 8 (of_char a :: nat) = take_bit 8 (of_char b)"
    by (simp add: char_u8_def word_of_nat_eq_iff)
  then have "(of_char a :: nat) mod 256 = of_char b mod 256" by (simp add: take_bit_eq_mod)
  then show "a = b" using char_of_eq_iff by (metis char_of_char char_of_mod_256)
qed simp

lemma or_zero: "x OR y = 0 \<longleftrightarrow> x = 0 \<and> (y :: 'a::len word) = 0"
  by (auto simp: bit_eq_iff bit_simps)

lemma xor_zero: "x XOR y = 0 \<longleftrightarrow> x = (y :: 'a::len word)"
  by (auto simp: bit_eq_iff bit_simps)

lemma fold_or_zero:
  "foldl (\<lambda>acc (x, y). acc OR (char_u8 x XOR char_u8 y)) a xs = (0 :: u8) \<longleftrightarrow> a = 0 \<and> (\<forall>(x, y)\<in>set xs. x = y)"
  by (induction xs arbitrary: a) (auto simp: or_zero xor_zero)

text \<open>The comparison of two secrets, whose loop looks at every byte whatever it finds, answers yes exactly when
  they are the same.\<close>

theorem constant_time_eq_is_equality: "constant_time_eq a b \<longleftrightarrow> a = b"
proof -
  have "length a = length b \<Longrightarrow> (\<forall>(x, y)\<in>set (zip a b). x = y) \<longleftrightarrow> a = b"
    by (induction a b rule: list_induct2) auto
  then show ?thesis unfolding constant_time_eq_def fold_or_zero by auto
qed

section \<open>What a value's release went through\<close>

lemma live_authority_Inr:
  assumes "live_authority E i b = (Inr a, c)"
  shows "ancestry_live (nodes b) i (fst (now E b)) \<and> (\<exists>n. fmlookup (nodes b) i = Some n \<and> n_authority n = a) \<and>
    c = snd (now E b)"
  using assms eff_walk_live_sound
  by (auto simp: live_authority_def effective_state_def split_beta effective_state_inherited_def inspect_def
      split: option.splits eff_state.splits)

lemma secret_value_Inr:
  "secret_value i a name st = Inr (src, v) \<longleftrightarrow>
     source_of st name = Some src \<and> src |\<in>| secrets (a_scopes a) \<and> store_get st name = Some v"
  by (auto simp: secret_value_def split: option.splits if_splits)

lemma expose_check_Inr:
  "expose_check i a name st = Inr v \<longleftrightarrow>
     Declassify |\<in>| effects a \<and>
     (\<exists>src. source_of st name = Some src \<and> src |\<in>| secrets (a_scopes a) \<and> store_get st name = Some v)"
proof -
  have "(case secret_value i a name st of Inl d \<Rightarrow> Inl d | Inr (x, w) \<Rightarrow> Inr w) = Inr v \<longleftrightarrow>
      (\<exists>src. secret_value i a name st = Inr (src, v))"
    by (auto split: sum.splits)
  then show ?thesis by (simp add: expose_check_def secret_value_Inr)
qed

lemma send_check_Inr:
  "send_check i a name pair st = Inr v \<longleftrightarrow>
     pair |\<in>| secret_to (a_scopes a) \<and>
     (\<exists>src. source_of st name = Some src \<and> src |\<in>| secrets (a_scopes a) \<and> store_get st name = Some v)"
  by (auto simp: send_check_def split: option.splits if_splits)

lemma expose_inner_Inr:
  assumes "expose_inner E i name st b = (Inr v, c)"
  shows "\<exists>n. fmlookup (nodes b) i = Some n \<and> ancestry_live (nodes b) i (fst (now E b)) \<and>
    expose_check i (n_authority n) name st = Inr v \<and> c = snd (now E b)"
proof -
  obtain a b1 where "live_authority E i b = (Inr a, b1)" "expose_check i a name st = Inr v" "c = b1"
    using assms by (auto simp: expose_inner_def split_beta split: sum.splits) (metis prod.collapse)
  then show ?thesis using live_authority_Inr by blast
qed

text \<open>C37: The value of a secret is exposed only to a node whose whole ancestry is live, which may declassify, and
  which holds the stored secret the value is or derives from; the value is the store's, and the guard had not
  blocked the use.\<close>

theorem exposed_secret_was_held:
  assumes "fst (expose_guarded E i name st sp b) = (Inr v, note)"
  shows "\<exists>n src. fmlookup (nodes b) i = Some n \<and> ancestry_live (nodes b) i (fst (now E b)) \<and>
    Declassify |\<in>| effects (n_authority n) \<and> source_of st name = Some src \<and>
    src |\<in>| secrets (a_scopes (n_authority n)) \<and> store_get st name = Some v \<and>
    (\<forall>d. fst (guard_verdict_use E i OpDeclassify (Some name) (snd (now E b))) \<noteq> Block d)"
proof -
  obtain r b1 where r: "expose_inner E i name st b = (r, b1)" by (cases "expose_inner E i name st b")
  obtain g b2 where g: "guard_verdict_use E i OpDeclassify (Some name) b1 = (g, b2)"
    by (cases "guard_verdict_use E i OpDeclassify (Some name) b1")
  have r': "r = Inr v" using assms r g by (cases r; cases g) (auto simp: expose_guarded_def Let_def)
  have nb: "\<forall>d. g \<noteq> Block d" using assms r r' g by (auto simp: expose_guarded_def Let_def)
  obtain n where n: "fmlookup (nodes b) i = Some n" "ancestry_live (nodes b) i (fst (now E b))"
      "expose_check i (n_authority n) name st = Inr v" "b1 = snd (now E b)"
    using expose_inner_Inr r r' by blast
  then show ?thesis using expose_check_Inr[of i "n_authority n" name st v] g nb by auto
qed

text \<open>The value of a secret is sent to an origin only for a node whose whole ancestry is live, which holds the
  stored secret the value is or derives from and holds the audience of exactly that secret and origin, and where
  the guard had not blocked the declassification to that pair.\<close>

theorem sent_secret_had_its_audience:
  assumes "fst (send_secret_guarded E i name origin st sp b) = (Inr v, note)"
  shows "\<exists>n src. fmlookup (nodes b) i = Some n \<and> ancestry_live (nodes b) i (fst (now E b)) \<and>
    source_of st name = Some src \<and> src |\<in>| secrets (a_scopes (n_authority n)) \<and>
    src @ ''@'' @ origin |\<in>| secret_to (a_scopes (n_authority n)) \<and> store_get st name = Some v \<and>
    (\<forall>d. fst (guard_verdict_use E i OpDeclassify (Some (src @ ''@'' @ origin)) (snd (now E b))) \<noteq> Block d)"
proof -
  let ?pair = "send_pair st name origin"
  obtain r b1 where r: "live_authority E i b = (r, b1)" by (cases "live_authority E i b")
  obtain g b2 where g: "guard_verdict_use E i OpDeclassify (Some ?pair) b1 = (g, b2)"
    by (cases "guard_verdict_use E i OpDeclassify (Some ?pair) b1")
  obtain a where a: "r = Inr a" using assms r by (cases r) (auto simp: send_secret_guarded_def Let_def)
  have v: "send_check i a name ?pair st = Inr v"
    using assms r a g
    by (cases "send_check i a name ?pair st"; cases g) (auto simp: send_secret_guarded_def Let_def)
  have nb: "\<forall>d. g \<noteq> Block d" using assms r a v g by (auto simp: send_secret_guarded_def Let_def)
  obtain n where n: "fmlookup (nodes b) i = Some n" "n_authority n = a" "ancestry_live (nodes b) i (fst (now E b))"
      "b1 = snd (now E b)"
    using live_authority_Inr r a by blast
  obtain src where src: "source_of st name = Some src" "src |\<in>| secrets (a_scopes a)" "?pair |\<in>| secret_to (a_scopes a)"
      "store_get st name = Some v"
    using v send_check_Inr by blast
  then have "?pair = src @ ''@'' @ origin" by (simp add: send_pair_def)
  then show ?thesis using n src g nb by auto
qed

text \<open>Deriving a secret needs a live node that holds the secret it comes from; the new name stands for the changed
  value and traces back to the same stored secret, so it can be used by exactly those who could use the original,
  and neither the stored secrets nor, unless the name was already derived, any other derived one changes.\<close>

theorem derived_secret_keeps_its_source:
  assumes "secret_map E i name how st b = (Inr d, st', c)" "d |\<notin>| fmdom (st_entries st)"
  shows "\<exists>n src v w. fmlookup (nodes b) i = Some n \<and> source_of st name = Some src \<and>
    src |\<in>| secrets (a_scopes (n_authority n)) \<and> store_get st name = Some v \<and>
    map_value (env_libs E) how v = Some w \<and>
    source_of st' d = Some src \<and> store_get st' d = Some w \<and> d = derived_name (st_next st) \<and>
    st_entries st' = st_entries st \<and> st_derived st' = fmupd d \<lparr>ds_value = w, ds_source = src\<rparr> (st_derived st)"
proof -
  let ?b1 = "snd (take_seq E b)"
  obtain r b2 where r: "live_authority E i ?b1 = (r, b2)" by (cases "live_authority E i ?b1")
  obtain a where a: "r = Inr a"
    using assms(1) r by (cases r) (auto simp: secret_map_def secret_map_inner_def split_beta)
  obtain src v where v: "secret_value i a name st = Inr (src, v)"
    using assms(1) r a by (cases "secret_value i a name st") (auto simp: secret_map_def secret_map_inner_def split_beta)
  obtain w where w: "map_value (env_libs E) how v = Some w"
    using assms(1) r a v by (cases "map_value (env_libs E) how v") (auto simp: secret_map_def secret_map_inner_def split_beta)
  have res: "d = derived_name (st_next st)"
      "st' = st\<lparr>st_next := Suc (st_next st), st_derived := fmupd d \<lparr>ds_value = w, ds_source = src\<rparr> (st_derived st)\<rparr>"
    using assms(1) r a v w by (auto simp: secret_map_def secret_map_inner_def split_beta insert_derived_def Let_def)
  obtain n where n: "fmlookup (nodes b) i = Some n" "n_authority n = a"
    using live_authority_Inr[OF r[unfolded a]] by auto
  have "fmlookup (st_entries st) d = None" using assms(2) by (simp add: fmdom_notD)
  then show ?thesis
    using n v[unfolded secret_value_Inr] w res assms(2) by (auto simp: source_of_def store_get_def)
qed

text \<open>A store of one secret, and a root that may declassify it and send it to one origin.\<close>

definition store_sample :: secret_store where
  "store_sample = store_set ''KEY'' ''hush'' store_in_memory"

definition sender_sample :: "sim_world broker" where
  "sender_sample =
     snd (issue (sim_env plain_libs) some_holder
       (keeper_grant\<lparr>a_scopes := (a_scopes keeper_grant)\<lparr>secret_to := {|''KEY@https://h.com''|}\<rparr>\<rparr>) None empty_sample)"

theorem exposed_secret_was_held_witness:
  "\<exists>n. fmlookup (nodes keeper_sample) (seq_id 0) = Some n \<and> Declassify |\<in>| effects (n_authority n) \<and>
     ''KEY'' |\<in>| secrets (a_scopes (n_authority n))"
proof -
  have "fst (expose_guarded (sim_env plain_libs) (seq_id 0) ''KEY'' store_sample None keeper_sample) = (Inr ''hush'', None)"
    by code_simp
  moreover have "source_of store_sample ''KEY'' = Some ''KEY''" by code_simp
  ultimately show ?thesis using exposed_secret_was_held by fastforce
qed

theorem sent_secret_had_its_audience_witness:
  "\<exists>n. fmlookup (nodes sender_sample) (seq_id 0) = Some n \<and>
     ''KEY@https://h.com'' |\<in>| secret_to (a_scopes (n_authority n))"
proof -
  have "fst (send_secret_guarded (sim_env plain_libs) (seq_id 0) ''KEY'' ''https://h.com'' store_sample None sender_sample) =
      (Inr ''hush'', None)" by code_simp
  moreover have "source_of store_sample ''KEY'' = Some ''KEY''" by code_simp
  ultimately show ?thesis using sent_secret_had_its_audience by fastforce
qed

theorem derived_secret_keeps_its_source_witness:
  "source_of (fst (snd (secret_map (sim_env plain_libs) (seq_id 0) ''KEY'' ''upper'' store_sample keeper_sample)))
     (derived_name 0) = Some ''KEY''"
proof -
  let ?r = "secret_map (sim_env plain_libs) (seq_id 0) ''KEY'' ''upper'' store_sample keeper_sample"
  have "fst ?r = Inr (derived_name 0)" by code_simp
  then have e: "?r = (Inr (derived_name 0), fst (snd ?r), snd (snd ?r))" by (simp add: prod_eq_iff)
  have f: "derived_name 0 |\<notin>| fmdom (st_entries store_sample)" by code_simp
  have "source_of store_sample ''KEY'' = Some ''KEY''" by code_simp
  then show ?thesis using derived_secret_keeps_its_source[OF e f] by auto
qed

end
