(* ===== verification/Lease.thy ===== *)
theory Lease imports Tree_World begin

text \<open>
  Delegation and its tokens, \<open>crates/delulu-broker/src/lease.rs\<close>: a token names a node, carries a message
  authentication code under the broker's key and redeems to that node's handle, once unless it is marked
  \<open>multi\<close>. The keyed hash and JSON parsing are library parameters; the key file is outside the model.
\<close>

definition TOKEN_V :: nat where "TOKEN_V = 1"

definition TOKEN_PREFIX :: string where "TOKEN_PREFIX = ''dlt1_''"

type_synonym token = string

record token_claims =
  tc_v :: nat
  tc_node :: grant_id
  tc_exp :: int
  tc_multi :: bool
  tc_nonce :: string

definition claims_parse :: "libs \<Rightarrow> bytes \<Rightarrow> token_claims option" where
  "claims_parse lb bs =
     (case parse_json lb bs of
        Some (JObject kvs) \<Rightarrow>
          (case (Option.bind (map_of kvs ''v'') as_u64, Option.bind (map_of kvs ''node'') as_str,
                 Option.bind (map_of kvs ''exp_millis'') as_i64, Option.bind (map_of kvs ''multi'') as_bool,
                 Option.bind (map_of kvs ''nonce'') as_str) of
             (Some v, Some n, Some e, Some m, Some k) \<Rightarrow>
               Some \<lparr>tc_v = v, tc_node = n, tc_exp = e, tc_multi = m, tc_nonce = k\<rparr>
           | _ \<Rightarrow> None)
      | _ \<Rightarrow> None)"

definition token_payload :: "grant_id \<Rightarrow> int option \<Rightarrow> bool \<Rightarrow> string \<Rightarrow> json" where
  "token_payload i ttl multi nonce =
     obj_of [(''v'', JInt (int TOKEN_V)), (''node'', JString i),
             (''exp_millis'', JInt (case ttl of Some t \<Rightarrow> t | None \<Rightarrow> i64_max)),
             (''multi'', JBool multi), (''nonce'', JString nonce)]"

definition seal_token :: "libs \<Rightarrow> bytes \<Rightarrow> bytes \<Rightarrow> token" where
  "seal_token lb key payload = TOKEN_PREFIX @ to_hex payload @ ''.'' @ to_hex (blake3_keyed lb key payload)"

definition mint_token :: "'w env \<Rightarrow> grant_id \<Rightarrow> int option \<Rightarrow> bool \<Rightarrow> 'w broker \<Rightarrow> token \<times> 'w broker" where
  "mint_token E i ttl multi b =
     (let (key, b1) = ensure_key E b;
          (bs, b2) = take_random E 16 b1
      in (seal_token (env_libs E) key (canonical_json (env_libs E) (token_payload i ttl multi (to_hex bs))), b2))"

definition parse_token :: "token \<Rightarrow> (bytes \<times> bytes) option" where
  "parse_token tok =
     (case strip_prefix TOKEN_PREFIX tok of
        None \<Rightarrow> None
      | Some rest \<Rightarrow>
          (case split_once CHR ''.'' rest of
             None \<Rightarrow> None
           | Some (phex, mhex) \<Rightarrow>
               (case (from_hex phex, from_hex mhex) of
                  (Some payload, Some mac) \<Rightarrow> if length mac = 32 then Some (payload, mac) else None
                | _ \<Rightarrow> None)))"

section \<open>Delegating\<close>

definition delegate ::
  "'w env \<Rightarrow> grant_id \<Rightarrow> authority \<Rightarrow> holder \<Rightarrow> int option \<Rightarrow> bool \<Rightarrow> 'w broker \<Rightarrow>
     (denial + grant_id \<times> token) \<times> 'w broker" where
  "delegate E parent a0 h ttl multi b =
     (let a = inherit_budget parent a0 b;
          j = Some (authority_to_json (env_libs E) a)
      in case attenuate_core E parent a h ttl b of
           ((seq, Inr child), b1) \<Rightarrow>
             (case mint_token E child ttl multi b1 of
                (tok, b2) \<Rightarrow>
                  (Inr (child, tok), record_op E seq ''delegate'' (Some parent) (Some child) j ''allow'' None b2))
         | ((seq, Inl d), b1) \<Rightarrow>
             (Inl d, record_op E seq ''delegate'' (Some parent) None j ''deny'' None b1))"

section \<open>Redeeming\<close>

record redemption =
  rd_node :: grant_id
  rd_nonce :: "string option"
  rd_peer :: string

definition redeem_inner ::
  "'w env \<Rightarrow> token \<Rightarrow> string \<Rightarrow> 'w broker \<Rightarrow> (denial + grant_id \<times> redemption) \<times> 'w broker" where
  "redeem_inner E tok peer b0 =
     (case ensure_key E b0 of
        (key, b) \<Rightarrow>
          (case parse_token tok of
             None \<Rightarrow> (Inl (TokenInvalid MalformedEnvelope), b)
           | Some (payload, mac) \<Rightarrow>
               if blake3_keyed (env_libs E) key payload \<noteq> mac then (Inl (TokenInvalid MacFailed), b)
               else
                 (case claims_parse (env_libs E) payload of
                    None \<Rightarrow> (Inl (TokenInvalid UnreadablePayload), b)
                  | Some cl \<Rightarrow>
                      if tc_v cl \<noteq> TOKEN_V then (Inl (TokenInvalid (UnsupportedVersion (tc_v cl))), b)
                      else
                        (case inspect (tc_node cl) b of
                           None \<Rightarrow> (Inl (TokenInvalid TokenUnknownNode), b)
                         | Some n \<Rightarrow>
                             (case now E b of
                                (t, b1) \<Rightarrow>
                                  (case (case effective_state_inherited (tc_node cl) t b1 of
                                           Some st \<Rightarrow> st | None \<Rightarrow> EffExpired 0 t) of
                                     EffRevoked q \<Rightarrow> (Inl (Revoked (tc_node cl) q), b1)
                                   | EffExpired x y \<Rightarrow> (Inl (Expired (tc_node cl) x y), b1)
                                   | EffLive \<Rightarrow>
                                       if tc_exp cl \<le> t then (Inl (Expired (tc_node cl) (tc_exp cl) t), b1)
                                       else if \<not> tc_multi cl \<and> is_redeemed (tc_nonce cl) b1
                                       then (Inl (TokenInvalid AlreadyRedeemed), b1)
                                       else
                                         let b2 = (if tc_multi cl then b1 else mark_redeemed (tc_nonce cl) b1)
                                         in (Inr (tc_node cl,
                                                  \<lparr>rd_node = tc_node cl,
                                                   rd_nonce = (if tc_multi cl then None else Some (tc_nonce cl)),
                                                   rd_peer = h_peer (n_holder n)\<rparr>),
                                             set_holder_peer (tc_node cl) peer b2)))))))"

definition redeem_undoable ::
  "'w env \<Rightarrow> token \<Rightarrow> string \<Rightarrow> 'w broker \<Rightarrow> (denial + grant_id \<times> redemption) \<times> 'w broker" where
  "redeem_undoable E tok peer b =
     (case take_seq E b of
        (seq, b1) \<Rightarrow>
          (case redeem_inner E tok peer b1 of
             (r, b2) \<Rightarrow>
               (r, record_op E seq ''redeem'' (case r of Inr (i, _) \<Rightarrow> Some i | Inl _ \<Rightarrow> None) (Some peer) None
                     (if isl r then ''deny'' else ''allow'') None b2)))"

definition redeem :: "'w env \<Rightarrow> token \<Rightarrow> string \<Rightarrow> 'w broker \<Rightarrow> (denial + grant_id) \<times> 'w broker" where
  "redeem E tok peer b =
     (case redeem_undoable E tok peer b of (Inl d, b1) \<Rightarrow> (Inl d, b1) | (Inr (i, _), b1) \<Rightarrow> (Inr i, b1))"

definition withdraw_unrecorded_redemption :: "redemption \<Rightarrow> 'w broker \<Rightarrow> 'w broker" where
  "withdraw_unrecorded_redemption r b =
     set_holder_peer (rd_node r) (rd_peer r) (case rd_nonce r of Some k \<Rightarrow> unmark_redeemed k b | None \<Rightarrow> b)"

section \<open>The key\<close>

definition rotate_key_to :: "'w env \<Rightarrow> bytes \<Rightarrow> 'w broker \<Rightarrow> 'w broker" where
  "rotate_key_to E key b = snd (log_op E ''rotate_key'' None None None ''allow'' None (set_key key b))"

definition rotate_key :: "'w env \<Rightarrow> 'w broker \<Rightarrow> bytes \<times> 'w broker" where
  "rotate_key E b = (case take_random E 32 b of (k, b1) \<Rightarrow> (k, rotate_key_to E k b1))"

section \<open>What the operations keep\<close>

context custody_contract
begin

lemma redeemed_step [contract_steps]:
  "R a b \<Longrightarrow> R a (mark_redeemed k b)" "R a b \<Longrightarrow> R a (unmark_redeemed k b)"
  unfolding mark_redeemed_def unmark_redeemed_def by (rule contract_steps, assumption)+

lemma mint_token_step [contract_steps]:
  "R a b \<Longrightarrow> R a (snd (mint_token E i ttl multi b))"
  by (simp add: mint_token_def split_beta Let_def contract_steps)

lemma delegate_step [contract_steps]:
  "R a b \<Longrightarrow> R a (snd (delegate E parent a0 h ttl multi b))"
  unfolding delegate_def split_beta Let_def by (auto intro: contract_steps split: sum.split)

lemma redeem_inner_step [contract_steps]:
  "R a b \<Longrightarrow> R a (snd (redeem_inner E tok peer b))"
  unfolding redeem_inner_def split_beta Let_def
  by (auto intro: contract_steps split: option.split eff_state.split)

lemma redeem_undoable_step [contract_steps]:
  "R a b \<Longrightarrow> R a (snd (redeem_undoable E tok peer b))"
  unfolding redeem_undoable_def split_beta by (auto intro: contract_steps)

lemma redeem_step [contract_steps]: "R a b \<Longrightarrow> R a (snd (redeem E tok peer b))"
  unfolding redeem_def split_beta by (auto intro: contract_steps split: sum.split)

lemma withdraw_redemption_step [contract_steps]:
  "R a b \<Longrightarrow> R a (withdraw_unrecorded_redemption r b)"
  unfolding withdraw_unrecorded_redemption_def by (auto intro: contract_steps split: option.split)

lemma rotate_key_step [contract_steps]:
  "R a b \<Longrightarrow> R a (rotate_key_to E k b)"
  "R a b \<Longrightarrow> R a (snd (rotate_key E b))"
  by (simp_all add: rotate_key_def rotate_key_to_def split_beta contract_steps)

end

end
