(* ===== verification/Lease_Claims.thy ===== *)
theory Lease_Claims imports Lease Tree_Claims begin

text \<open>
  What a delegation token promises: it redeems only under the broker's key, to the live node it names, before
  its deadline, and once; and a token the broker minted does redeem.
\<close>

section \<open>A redemption\<close>

lemma ensure_key_frame [simp]:
  "nodes (snd (ensure_key E b)) = nodes b" "redeemed (snd (ensure_key E b)) = redeemed b"
  "clock_high_water (snd (ensure_key E b)) = clock_high_water b"
  by (simp_all add: ensure_key_def take_random_def split_beta split: option.splits)

lemma mark_redeemed_frame [simp]:
  "nodes (mark_redeemed k b) = nodes b" "redeemed (mark_redeemed k b) = finsert k (redeemed b)"
  by (simp_all add: mark_redeemed_def)

lemma set_holder_peer_frame [simp]: "redeemed (set_holder_peer i p b) = redeemed b"
  by (simp add: set_holder_peer_def split: option.splits)

lemma set_holder_peer_nodes:
  "nodes (set_holder_peer i p b) =
     (case fmlookup (nodes b) i of
        Some n \<Rightarrow> fmupd i (n\<lparr>n_holder := (n_holder n)\<lparr>h_peer := p\<rparr>\<rparr>) (nodes b) | None \<Rightarrow> nodes b)"
  by (simp add: set_holder_peer_def split: option.splits)

text \<open>What a token must be to redeem at a broker whose key is the given one.\<close>

definition token_good :: "libs \<Rightarrow> bytes \<Rightarrow> token \<Rightarrow> token_claims \<Rightarrow> bool" where
  "token_good lb key tok cl \<longleftrightarrow>
     (\<exists>payload. parse_token tok = Some (payload, blake3_keyed lb key payload) \<and> claims_parse lb payload = Some cl \<and>
        tc_v cl = TOKEN_V)"

definition claims_fit :: "token_claims \<Rightarrow> int \<Rightarrow> 'w broker \<Rightarrow> bool" where
  "claims_fit cl t b \<longleftrightarrow>
     (\<exists>n. fmlookup (nodes b) (tc_node cl) = Some n) \<and> eff_walk MAX_WALK (nodes b) (Some (tc_node cl)) t = Some EffLive \<and>
     t < tc_exp cl \<and> (tc_multi cl \<or> tc_nonce cl |\<notin>| redeemed b)"

definition redemption_of :: "token_claims \<Rightarrow> 'w broker \<Rightarrow> redemption" where
  "redemption_of cl b =
     \<lparr>rd_node = tc_node cl, rd_nonce = (if tc_multi cl then None else Some (tc_nonce cl)),
      rd_peer = (case fmlookup (nodes b) (tc_node cl) of Some n \<Rightarrow> h_peer (n_holder n) | None \<Rightarrow> [])\<rparr>"

lemma redeem_inner_good:
  assumes "token_good (env_libs E) (fst (ensure_key E b)) tok cl"
  shows "let b1 = snd (ensure_key E b); t = fst (now E b1); b2 = snd (now E b1)
    in if claims_fit cl t b
       then redeem_inner E tok peer b =
         (Inr (tc_node cl, redemption_of cl b),
          set_holder_peer (tc_node cl) peer (if tc_multi cl then b2 else mark_redeemed (tc_nonce cl) b2))
       else isl (fst (redeem_inner E tok peer b)) \<and> redeemed (snd (redeem_inner E tok peer b)) = redeemed b"
proof -
  let ?b1 = "snd (ensure_key E b)"
  obtain payload where p: "parse_token tok = Some (payload, blake3_keyed (env_libs E) (fst (ensure_key E b)) payload)"
      "claims_parse (env_libs E) payload = Some cl" "tc_v cl = TOKEN_V"
    using assms by (auto simp: token_good_def)
  show ?thesis
  proof (cases "fmlookup (nodes b) (tc_node cl)")
    case None
    then show ?thesis using p by (simp add: redeem_inner_def split_beta inspect_def claims_fit_def)
  next
    case (Some n)
    show ?thesis
      using p Some
      by (auto simp: redeem_inner_def split_beta inspect_def claims_fit_def effective_state_inherited_def Let_def
          is_redeemed_def redemption_of_def split: option.splits eff_state.splits)
  qed
qed

lemma redeem_inner_Inr:
  assumes "redeem_inner E tok peer b = (Inr (i, rd), c)"
  shows "\<exists>cl. token_good (env_libs E) (fst (ensure_key E b)) tok cl"
proof -
  let ?key = "fst (ensure_key E b)"
  obtain payload mac where p: "parse_token tok = Some (payload, mac)"
    using assms by (cases "parse_token tok") (auto simp: redeem_inner_def split_beta)
  have m: "blake3_keyed (env_libs E) ?key payload = mac"
    using assms p by (cases "blake3_keyed (env_libs E) ?key payload = mac") (auto simp: redeem_inner_def split_beta)
  obtain cl where cl: "claims_parse (env_libs E) payload = Some cl"
    using assms p m by (cases "claims_parse (env_libs E) payload") (auto simp: redeem_inner_def split_beta)
  have "tc_v cl = TOKEN_V"
    using assms p m cl by (cases "tc_v cl = TOKEN_V") (auto simp: redeem_inner_def split_beta)
  then show ?thesis using p m cl by (auto simp: token_good_def)
qed

lemma redeem_Inr:
  assumes "redeem_undoable E tok peer b = (Inr (i, rd), c)"
  shows "\<exists>cl t. token_good (env_libs E) (fst (ensure_key E (snd (take_seq E b)))) tok cl \<and> claims_fit cl t b \<and>
    clock_high_water b \<le> t \<and> i = tc_node cl \<and> rd = redemption_of cl b \<and>
    nodes c = nodes (set_holder_peer i peer b) \<and>
    redeemed c = (if tc_multi cl then redeemed b else finsert (tc_nonce cl) (redeemed b))"
proof -
  let ?b0 = "snd (take_seq E b)"
  obtain r b2 where r: "redeem_inner E tok peer ?b0 = (r, b2)" by (cases "redeem_inner E tok peer ?b0")
  have ri: "r = Inr (i, rd)" and c: "nodes c = nodes b2" "redeemed c = redeemed b2"
    using assms r by (auto simp: redeem_undoable_def split_beta)
  obtain cl where cl: "token_good (env_libs E) (fst (ensure_key E ?b0)) tok cl" using redeem_inner_Inr r ri by blast
  let ?t = "fst (now E (snd (ensure_key E ?b0)))" and ?d = "snd (now E (snd (ensure_key E ?b0)))"
  have f: "claims_fit cl ?t ?b0"
    using redeem_inner_good[OF cl, of peer] r ri by (auto simp: Let_def split: if_splits)
  then have e: "redeem_inner E tok peer ?b0 = (Inr (tc_node cl, redemption_of cl ?b0),
      set_holder_peer (tc_node cl) peer (if tc_multi cl then ?d else mark_redeemed (tc_nonce cl) ?d))"
    using redeem_inner_good[OF cl, of peer] by (simp add: Let_def)
  have le: "clock_high_water b \<le> ?t"
    using take_seq_advances[of b E] now_ge[of "snd (ensure_key E ?b0)" E] by (simp add: advances_def)
  have fb: "claims_fit cl ?t b" "redemption_of cl ?b0 = redemption_of cl b"
    using f by (simp_all add: claims_fit_def redemption_of_def)
  have "nodes c = nodes (set_holder_peer i peer b)" "i = tc_node cl" "rd = redemption_of cl b"
      "redeemed c = (if tc_multi cl then redeemed b else finsert (tc_nonce cl) (redeemed b))"
    using e r ri c fb(2) by (auto simp: set_holder_peer_nodes split: option.split)
  then show ?thesis using cl fb le by blast
qed

section \<open>Properties\<close>

text \<open>C8: A token redeems only when its code is the keyed hash of its payload under the broker's key, its claims name a
  node of the tree whose whole ancestry is live, their deadline has not come and their nonce has not been spent.
  The redemption spends the nonce of a token that is not for many uses and names the peer as the node's holder,
  and nothing else; withdrawn, it leaves the tree and the spent nonces as they were.\<close>

theorem redemption_is_authentic:
  assumes "redeem_undoable E tok peer b = (Inr (i, rd), c)"
  shows "\<exists>cl t n. token_good (env_libs E) (fst (ensure_key E (snd (take_seq E b)))) tok cl \<and> i = tc_node cl \<and>
    fmlookup (nodes b) i = Some n \<and> clock_high_water b \<le> t \<and> ancestry_live (nodes b) i t \<and> t < tc_exp cl \<and>
    (tc_multi cl \<or> tc_nonce cl |\<notin>| redeemed b) \<and>
    redeemed c = (if tc_multi cl then redeemed b else finsert (tc_nonce cl) (redeemed b)) \<and>
    nodes c = fmupd i (n\<lparr>n_holder := (n_holder n)\<lparr>h_peer := peer\<rparr>\<rparr>) (nodes b) \<and>
    nodes (withdraw_unrecorded_redemption rd c) = nodes b \<and> redeemed (withdraw_unrecorded_redemption rd c) = redeemed b"
proof -
  obtain cl t where r: "token_good (env_libs E) (fst (ensure_key E (snd (take_seq E b)))) tok cl" "claims_fit cl t b"
      "clock_high_water b \<le> t" "i = tc_node cl" "rd = redemption_of cl b" "nodes c = nodes (set_holder_peer i peer b)"
      "redeemed c = (if tc_multi cl then redeemed b else finsert (tc_nonce cl) (redeemed b))"
    using redeem_Inr[OF assms] by blast
  obtain n where n: "fmlookup (nodes b) i = Some n" using r(2,4) by (auto simp: claims_fit_def)
  have live: "ancestry_live (nodes b) i t"
    by (rule eff_walk_live_sound[of MAX_WALK]) (use r(2,4) in \<open>simp add: claims_fit_def\<close>)
  have nc: "nodes c = fmupd i (n\<lparr>n_holder := (n_holder n)\<lparr>h_peer := peer\<rparr>\<rparr>) (nodes b)"
    using n r(6) by (simp add: set_holder_peer_nodes)
  let ?u = "case rd_nonce rd of Some k \<Rightarrow> unmark_redeemed k c | None \<Rightarrow> c"
  have u: "nodes ?u = nodes c" "redeemed ?u = redeemed b"
    using r(2,5,7) by (auto simp: unmark_redeemed_def redemption_of_def claims_fit_def)
  have rdp: "rd_node rd = i" "rd_peer rd = h_peer (n_holder n)" using r(4,5) n by (simp_all add: redemption_of_def)
  have "nodes (withdraw_unrecorded_redemption rd c) = fmupd i n (nodes b)"
    unfolding withdraw_unrecorded_redemption_def rdp set_holder_peer_def u(1) nc
    by (simp add: u(1) nc fmap_ext)
  also have "\<dots> = nodes b" by (rule fmap_ext) (use n in auto)
  finally have wn: "nodes (withdraw_unrecorded_redemption rd c) = nodes b" .
  have wr: "redeemed (withdraw_unrecorded_redemption rd c) = redeemed b"
    unfolding withdraw_unrecorded_redemption_def using u(2) by simp
  show ?thesis using r n live nc wn wr by (auto simp: claims_fit_def)
qed

text \<open>A token that is not for many uses redeems once: after it has, no broker that still remembers the spent nonces
  redeems it again, whatever its key, its tree and its clock.\<close>

theorem token_redeems_once:
  assumes "redeem_undoable E tok peer b = (Inr (i, rd), c)" "rd_nonce rd \<noteq> None"
    and "redeemed c |\<subseteq>| redeemed d" "env_libs E' = env_libs E"
  shows "isl (fst (redeem_undoable E' tok peer' d))"
proof (rule ccontr)
  assume "\<not> isl (fst (redeem_undoable E' tok peer' d))"
  then obtain j rd' c' where second: "redeem_undoable E' tok peer' d = (Inr (j, rd'), c')"
    by (cases "redeem_undoable E' tok peer' d"; cases "fst (redeem_undoable E' tok peer' d)") auto
  obtain cl t where r: "token_good (env_libs E) (fst (ensure_key E (snd (take_seq E b)))) tok cl" "rd = redemption_of cl b"
      "redeemed c = (if tc_multi cl then redeemed b else finsert (tc_nonce cl) (redeemed b))"
    using redeem_Inr[OF assms(1)] by blast
  obtain cl' t' where r': "token_good (env_libs E') (fst (ensure_key E' (snd (take_seq E' d)))) tok cl'" "claims_fit cl' t' d"
    using redeem_Inr[OF second] by blast
  have "cl' = cl" using r(1) r'(1) assms(4) by (auto simp: token_good_def)
  moreover have "\<not> tc_multi cl" using assms(2) r(2) by (auto simp: redemption_of_def split: if_splits)
  ultimately have "tc_nonce cl |\<notin>| redeemed d" using r'(2) by (simp add: claims_fit_def)
  then show False using r(3) assms(3) \<open>\<not> tc_multi cl\<close> by auto
qed

lemma seal_token_parses:
  assumes "length (blake3_keyed lb key payload) = 32"
  shows "parse_token (seal_token lb key payload) = Some (payload, blake3_keyed lb key payload)"
proof -
  have "CHR ''.'' \<notin> set (to_hex payload)" by (rule to_hex_no_char) (simp add: hex_digit_def)
  then have "split_once CHR ''.'' (to_hex payload @ ''.'' @ to_hex (blake3_keyed lb key payload)) =
      Some (to_hex payload, to_hex (blake3_keyed lb key payload))"
    by (simp add: split_once_Some_iff)
  moreover have "strip_prefix TOKEN_PREFIX (TOKEN_PREFIX @ x) = Some x" for x by (simp add: strip_prefix_Some_iff)
  ultimately show ?thesis using assms by (simp add: parse_token_def seal_token_def)
qed

lemma payload_claims:
  assumes "parse_json lb text = Some (token_payload i ttl multi nonce)"
    "\<forall>t. ttl = Some t \<longrightarrow> i64_min \<le> t \<and> t \<le> i64_max"
  shows "claims_parse lb text = Some \<lparr>tc_v = TOKEN_V, tc_node = i,
    tc_exp = (case ttl of Some t \<Rightarrow> t | None \<Rightarrow> i64_max), tc_multi = multi, tc_nonce = nonce\<rparr>"
  using assms
  by (auto simp: claims_parse_def token_payload_def obj_of_def TOKEN_V_def u64_max_def i64_min_def i64_max_def split: option.splits)

lemma mint_redeems:
  assumes mint: "mint_token E i ttl multi b = (tok, c)"
    and nonce: "nonce = to_hex (fst (take_random E 16 (snd (ensure_key E b))))"
    and json: "parse_json (env_libs E) (canonical_json (env_libs E) (token_payload i ttl multi nonce)) =
      Some (token_payload i ttl multi nonce)"
    and hash: "\<And>m. length (blake3_keyed (env_libs E) (fst (ensure_key E b)) m) = 32"
    and range: "case ttl of Some e \<Rightarrow> i64_min \<le> e \<and> e \<le> i64_max | None \<Rightarrow> True"
    and t: "t = fst (now E (snd (take_seq E c)))" "t < (case ttl of Some e \<Rightarrow> e | None \<Rightarrow> i64_max)"
    and tree: "tree_ok (nodes c)" "fcard (fmdom (nodes c)) < MAX_WALK" "ancestry_live (nodes c) i t"
    and fresh: "multi \<or> nonce |\<notin>| redeemed c"
  shows "\<exists>rd d. redeem_undoable E tok peer c = (Inr (i, rd), d) \<and> rd_nonce rd = (if multi then None else Some nonce) \<and>
    redeemed d = (if multi then redeemed c else finsert nonce (redeemed c))"
proof -
  let ?lb = "env_libs E" and ?key = "fst (ensure_key E b)"
  let ?p = "canonical_json ?lb (token_payload i ttl multi nonce)"
  let ?cl = "\<lparr>tc_v = TOKEN_V, tc_node = i, tc_exp = (case ttl of Some t \<Rightarrow> t | None \<Rightarrow> i64_max), tc_multi = multi, tc_nonce = nonce\<rparr>"
  have tok: "tok = seal_token ?lb ?key ?p" and c: "c = snd (take_random E 16 (snd (ensure_key E b)))"
    using mint nonce by (auto simp: mint_token_def split_beta Let_def)
  have "broker_key (snd (ensure_key E b)) = Some ?key"
    by (simp add: ensure_key_def split_beta split: option.splits)
  then have "broker_key c = Some ?key" unfolding c by simp
  then have "broker_key (snd (take_seq E c)) = Some ?key" by simp
  then have k: "ensure_key E (snd (take_seq E c)) = (?key, snd (take_seq E c))" by (simp add: ensure_key_def)
  have cl: "claims_parse ?lb ?p = Some ?cl"
    using payload_claims[OF json] range by (simp split: option.splits)
  have good: "token_good ?lb (fst (ensure_key E (snd (take_seq E c)))) tok ?cl"
    unfolding token_good_def tok k fst_conv using seal_token_parses[OF hash] cl by auto
  have i: "i |\<in>| fmdom (nodes c)" using tree(3) by (simp add: ancestry_live_def)
  have "claims_fit ?cl t (snd (take_seq E c))"
    using walk_live_iff[OF tree(1,2) i] tree(3) t(2) fresh i by (auto simp: claims_fit_def fmlookup_dom_iff)
  then have "redeem_inner E tok peer (snd (take_seq E c)) = (Inr (i, redemption_of ?cl (snd (take_seq E c))),
      set_holder_peer i peer (if multi then snd (now E (snd (take_seq E c)))
                              else mark_redeemed nonce (snd (now E (snd (take_seq E c))))))"
    using redeem_inner_good[OF good, of peer] t(1) by (simp add: k Let_def)
  then show ?thesis by (simp add: redeem_undoable_def split_beta redemption_of_def)
qed


text \<open>A library whose parser knows the one payload of the example, and a token minted under it for the child.\<close>

definition sample_nonce :: string where "sample_nonce = to_hex (replicate 16 (CHR 0x02))"

definition token_libs :: libs where
  "token_libs = plain_libs\<lparr>parse_json := (\<lambda>s. Some (token_payload (seq_id 1) (Some 5000) False sample_nonce)),
     blake3_keyed := (\<lambda>k m. k)\<rparr>"

definition minted_token :: token where
  "minted_token = fst (mint_token (sim_env token_libs) (seq_id 1) (Some 5000) False tree_sample)"

definition minted_state :: "sim_world broker" where
  "minted_state = snd (take_random (sim_env token_libs) 16 (snd (ensure_key (sim_env token_libs) tree_sample)))"

lemma minted_facts:
  shows "mint_token (sim_env token_libs) (seq_id 1) (Some 5000) False tree_sample = (minted_token, minted_state)"
    and "sample_nonce = to_hex (fst (take_random (sim_env token_libs) 16 (snd (ensure_key (sim_env token_libs) tree_sample))))"
    and "parse_json (env_libs (sim_env token_libs))
        (canonical_json (env_libs (sim_env token_libs)) (token_payload (seq_id 1) (Some 5000) False sample_nonce)) =
      Some (token_payload (seq_id 1) (Some 5000) False sample_nonce)"
    and "length (blake3_keyed (env_libs (sim_env token_libs)) (fst (ensure_key (sim_env token_libs) tree_sample)) m) = 32"
    and "case Some (5000 :: int) of Some e \<Rightarrow> i64_min \<le> e \<and> e \<le> i64_max | None \<Rightarrow> True"
    and "(1000 :: int) = fst (now (sim_env token_libs) (snd (take_seq (sim_env token_libs) minted_state)))"
    and "(1000 :: int) < (case Some 5000 of Some e \<Rightarrow> e | None \<Rightarrow> i64_max)"
    and "tree_ok (nodes minted_state)" "fcard (fmdom (nodes minted_state)) < MAX_WALK"
    and "ancestry_live (nodes minted_state) (seq_id 1) 1000"
    and "False \<or> sample_nonce |\<notin>| redeemed minted_state"
proof -
  let ?E = "sim_env token_libs"
  show "mint_token ?E (seq_id 1) (Some 5000) False tree_sample = (minted_token, minted_state)"
    by (simp add: minted_token_def minted_state_def mint_token_def split_beta Let_def)
  show "sample_nonce = to_hex (fst (take_random ?E 16 (snd (ensure_key ?E tree_sample))))" by code_simp
  show "parse_json (env_libs ?E) (canonical_json (env_libs ?E) (token_payload (seq_id 1) (Some 5000) False sample_nonce)) =
      Some (token_payload (seq_id 1) (Some 5000) False sample_nonce)" by (simp add: sim_env_def token_libs_def)
  have "length (fst (ensure_key ?E tree_sample)) = 32" by code_simp
  then show "length (blake3_keyed (env_libs ?E) (fst (ensure_key ?E tree_sample)) m) = 32"
    by (simp add: sim_env_def token_libs_def)
  show "case Some (5000 :: int) of Some e \<Rightarrow> i64_min \<le> e \<and> e \<le> i64_max | None \<Rightarrow> True"
    by (simp add: i64_min_def i64_max_def)
  show "(1000 :: int) = fst (now ?E (snd (take_seq ?E minted_state)))" by code_simp
  show "(1000 :: int) < (case Some 5000 of Some e \<Rightarrow> e | None \<Rightarrow> i64_max)" by simp
  have n: "nodes minted_state = nodes tree_sample" by (simp add: minted_state_def)
  show "tree_ok (nodes minted_state)" unfolding n by (rule sample_ok)
  show "fcard (fmdom (nodes minted_state)) < MAX_WALK" by code_simp
  have "eff_walk MAX_WALK (nodes minted_state) (Some (seq_id 1)) 1000 = Some EffLive" by code_simp
  then show "ancestry_live (nodes minted_state) (seq_id 1) 1000" by (rule eff_walk_live_sound)
  show "False \<or> sample_nonce |\<notin>| redeemed minted_state" by code_simp
qed

lemma minted_sample_redeems:
  "\<exists>rd d. redeem_undoable (sim_env token_libs) minted_token ''peer'' minted_state = (Inr (seq_id 1, rd), d) \<and>
     rd_nonce rd \<noteq> None"
  using mint_redeems[OF minted_facts, of "''peer''"] by auto

theorem redemption_is_authentic_witness:
  "\<exists>rd c. redeem_undoable (sim_env token_libs) minted_token ''peer'' minted_state = (Inr (seq_id 1, rd), c) \<and>
     nodes (withdraw_unrecorded_redemption rd c) = nodes minted_state"
proof -
  obtain rd c where r: "redeem_undoable (sim_env token_libs) minted_token ''peer'' minted_state = (Inr (seq_id 1, rd), c)"
    using minted_sample_redeems by blast
  then show ?thesis using redemption_is_authentic[OF r] by auto
qed

theorem token_redeems_once_witness:
  "\<exists>rd c. redeem_undoable (sim_env token_libs) minted_token ''peer'' minted_state = (Inr (seq_id 1, rd), c) \<and>
     isl (fst (redeem_undoable (sim_env token_libs) minted_token ''other'' c))"
proof -
  obtain rd c where r: "redeem_undoable (sim_env token_libs) minted_token ''peer'' minted_state = (Inr (seq_id 1, rd), c)"
      "rd_nonce rd \<noteq> None" using minted_sample_redeems by blast
  from token_redeems_once[OF r order_refl refl] r(1) show ?thesis by blast
qed


end
