(* ===== verification/Cert.thy ===== *)
theory Cert imports Tree_World begin

text \<open>
  Signed grant certificates and contact receipts, \<open>crates/delulu-broker/src/cert.rs\<close>: their signed bytes and
  wire form, the authority read from one, the verification of a chain up to a trust anchor, the adoption of a
  verified chain as a root and its renewal. The signature scheme is the trait \<open>SignatureVerifier\<close>, a
  parameter: which algorithms it supports, and the key a signature verifies under.
\<close>

record verifier =
  vf_supports :: "string \<Rightarrow> bool"
  vf_verify :: "string \<Rightarrow> bytes \<Rightarrow> bytes \<Rightarrow> string option"

section \<open>Certificates\<close>

definition MAGIC :: string where "MAGIC = ''dlcert1''"

definition GRANT_CTX :: bytes where "GRANT_CTX = ''delulu-grant-v1''"

definition ANCHOR :: string where "ANCHOR = ''anchor''"

record certificate =
  ct_alg :: string
  ct_issuer :: string
  ct_subject :: string
  ct_parent :: string
  ct_not_before :: int
  ct_not_after :: int
  ct_nonce :: string
  ct_uplink :: "nat option"
  ct_authority :: authority
  ct_sig :: bytes

definition cert_body :: "libs \<Rightarrow> certificate \<Rightarrow> json" where
  "cert_body lb c =
     obj_of ([(''alg'', JString (ct_alg c)), (''authority'', authority_to_json lb (ct_authority c)),
              (''issuer'', JString (ct_issuer c)), (''not_after'', JInt (ct_not_after c)),
              (''not_before'', JInt (ct_not_before c)), (''nonce'', JString (ct_nonce c)),
              (''parent'', JString (ct_parent c)), (''subject'', JString (ct_subject c))]
             @ opt_field ''uplink_ttl_ms'' (\<lambda>u. JInt (int u)) (ct_uplink c))"

definition signing_bytes :: "libs \<Rightarrow> certificate \<Rightarrow> bytes" where
  "signing_bytes lb c = GRANT_CTX @ [CHR 0x0A] @ canonical_json lb (cert_body lb c)"

definition fingerprint :: "libs \<Rightarrow> certificate \<Rightarrow> string" where
  "fingerprint lb c = blake3_hex lb (signing_bytes lb c @ ct_sig c)"

definition wire_line :: "string \<Rightarrow> string \<Rightarrow> string" where
  "wire_line k v = k @ '': '' @ v @ [CHR 0x0A]"

definition cert_to_wire :: "libs \<Rightarrow> certificate \<Rightarrow> string" where
  "cert_to_wire lb c =
     MAGIC @ [CHR 0x0A] @ wire_line ''alg'' (ct_alg c) @ wire_line ''issuer'' (ct_issuer c)
     @ wire_line ''subject'' (ct_subject c) @ wire_line ''parent'' (ct_parent c)
     @ wire_line ''not_before'' (show_int (ct_not_before c)) @ wire_line ''not_after'' (show_int (ct_not_after c))
     @ wire_line ''nonce'' (ct_nonce c)
     @ (case ct_uplink c of Some u \<Rightarrow> wire_line ''uplink_ttl_ms'' (show_nat u) | None \<Rightarrow> [])
     @ wire_line ''authority'' (canonical_json lb (authority_to_json lb (ct_authority c)))
     @ wire_line ''sig'' (to_hex (ct_sig c))"

section \<open>Reading\<close>

definition bad :: "reason \<Rightarrow> denial + 'a" where "bad why = Inl (CertMalformed why)"

definition not_understood :: "string \<Rightarrow> string \<Rightarrow> denial + 'a" where
  "not_understood what name = Inl (CertUnsupported (NotUnderstood what name))"

definition and_then :: "denial + 'a \<Rightarrow> ('a \<Rightarrow> denial + 'b) \<Rightarrow> denial + 'b" where
  "and_then x f = (case x of Inl d \<Rightarrow> Inl d | Inr a \<Rightarrow> f a)"

text \<open>The lines after the magic, as fields; a later line of a name replaces an earlier one.\<close>

fun read_fields :: "string list \<Rightarrow> (string \<times> string) list \<Rightarrow> denial + (string \<times> string) list" where
  "read_fields [] fs = Inr fs"
| "read_fields (l0 # ls) fs =
     (let l = trim l0
      in if l = [] then read_fields ls fs
         else (case split_once CHR '':'' l of
                 None \<Rightarrow> bad (BadLine l)
               | Some (k, v) \<Rightarrow> read_fields ls ((trim k, trim v) # fs)))"

definition get_field :: "(string \<times> string) list \<Rightarrow> string \<Rightarrow> denial + string" where
  "get_field fs k = (case map_of fs k of Some v \<Rightarrow> Inr v | None \<Rightarrow> bad (MissingField k))"

definition get_number :: "(string \<times> string) list \<Rightarrow> string \<Rightarrow> denial + int" where
  "get_number fs k =
     and_then (get_field fs k) (\<lambda>v. case parse_i64 v of Some n \<Rightarrow> Inr n | None \<Rightarrow> bad (NotAnInteger k))"

definition get_sig :: "(string \<times> string) list \<Rightarrow> denial + bytes" where
  "get_sig fs = and_then (get_field fs ''sig'') (\<lambda>v. case from_hex v of Some bs \<Rightarrow> Inr bs | None \<Rightarrow> bad SigNotHex)"

text \<open>The document's first line, which must be the magic.\<close>

definition read_document :: "string \<Rightarrow> (string \<Rightarrow> reason) \<Rightarrow> string \<Rightarrow> denial + (string \<times> string) list" where
  "read_document magic wrong text =
     (case text_lines text of
        [] \<Rightarrow> bad EmptyInput
      | m # ls \<Rightarrow> if trim m = magic then read_fields ls [] else bad (wrong (trim m)))"

section \<open>The authority in a certificate\<close>

fun read_effects :: "json list \<Rightarrow> effect fset \<Rightarrow> denial + effect fset" where
  "read_effects [] es = Inr es"
| "read_effects (v # vs) es =
     (case as_str v of
        None \<Rightarrow> bad EffectNotString
      | Some name \<Rightarrow>
          (case core_from_name name of
             None \<Rightarrow> not_understood ''the effect'' name
           | Some e \<Rightarrow> read_effects vs (finsert e es)))"

fun read_strings :: "json list \<Rightarrow> denial + string fset" where
  "read_strings [] = Inr {||}"
| "read_strings (v # vs) =
     (case as_str v of
        None \<Rightarrow> bad EntryNotString
      | Some s \<Rightarrow> and_then (read_strings vs) (\<lambda>ss. Inr (finsert s ss)))"

definition read_list :: "string \<Rightarrow> json \<Rightarrow> denial + string fset" where
  "read_list k v = (case as_array v of None \<Rightarrow> bad (ScopeNotArray k) | Some xs \<Rightarrow> read_strings xs)"

fun read_devices :: "libs \<Rightarrow> string list \<Rightarrow> (string, device_scope) fmap \<Rightarrow> denial + (string, device_scope) fmap" where
  "read_devices lb [] m = Inr m"
| "read_devices lb (spec # specs) m =
     (case device_parse lb spec of
        Inl e \<Rightarrow> bad (BadDevice spec e)
      | Inr d \<Rightarrow> read_devices lb specs (fmupd (device_name d) d m))"

text \<open>The dimensions that are plain lists of strings.\<close>

definition set_dimension :: "string \<Rightarrow> string fset \<Rightarrow> scopes \<Rightarrow> scopes option" where
  "set_dimension k ss s =
     (if k = ''declassify'' then Some (s\<lparr>declassify := ss\<rparr>)
      else if k = ''fs.read'' then Some (s\<lparr>fs_read := ss\<rparr>)
      else if k = ''fs.write'' then Some (s\<lparr>fs_write := ss\<rparr>)
      else if k = ''foreign.c'' then Some (s\<lparr>foreign_c := ss\<rparr>)
      else if k = ''foreign.python'' then Some (s\<lparr>foreign_python := ss\<rparr>)
      else if k = ''net'' then Some (s\<lparr>net := ss\<rparr>)
      else if k = ''secrets'' then Some (s\<lparr>secrets := ss\<rparr>)
      else if k = ''secret_to'' then Some (s\<lparr>secret_to := ss\<rparr>)
      else if k = ''net.special'' then Some (s\<lparr>net_special := ss\<rparr>)
      else None)"

definition read_scope :: "libs \<Rightarrow> string \<Rightarrow> json \<Rightarrow> scopes \<Rightarrow> denial + scopes" where
  "read_scope lb k v s =
     (if set_dimension k {||} s \<noteq> None then
        and_then (read_list k v) (\<lambda>ss. case set_dimension k ss s of Some s' \<Rightarrow> Inr s' | None \<Rightarrow> Inr s)
      else if k = ''device'' then
        and_then (read_list k v) (\<lambda>ss. and_then (read_devices lb (sorted_elems ss) (device s)) (\<lambda>m. Inr (s\<lparr>device := m\<rparr>)))
      else if k = ''budget'' then
        and_then (read_list k v)
          (\<lambda>ss. if fcard ss \<noteq> 1 then bad (OneBudget (fcard ss))
                else (case budget_parse (hd (sorted_elems ss)) of
                        Inl e \<Rightarrow> bad (BadBudget e) | Inr bud \<Rightarrow> Inr (s\<lparr>budget := Some bud\<rparr>)))
      else not_understood ''the scope dimension'' k)"

fun read_scopes :: "libs \<Rightarrow> (string \<times> json) list \<Rightarrow> scopes \<Rightarrow> denial + scopes" where
  "read_scopes lb [] s = Inr s"
| "read_scopes lb ((k, v) # kvs) s = and_then (read_scope lb k v s) (read_scopes lb kvs)"

definition authority_from_json :: "libs \<Rightarrow> json \<Rightarrow> denial + authority" where
  "authority_from_json lb v =
     (case as_object v of
        None \<Rightarrow> bad AuthorityNotObject
      | Some kvs \<Rightarrow>
          (case find (\<lambda>k. k \<noteq> ''effects'' \<and> k \<noteq> ''scopes'') (map fst kvs) of
             Some k \<Rightarrow> not_understood ''the authority key'' k
           | None \<Rightarrow>
               (case Option.bind (map_of kvs ''effects'') as_array of
                  None \<Rightarrow> bad NoEffectsArray
                | Some es \<Rightarrow>
                    and_then (read_effects es {||}) (\<lambda>effs.
                      case Option.bind (map_of kvs ''scopes'') as_object of
                        None \<Rightarrow> bad NoScopesObject
                      | Some sc \<Rightarrow>
                          and_then (read_scopes lb sc no_scopes) (\<lambda>s. Inr \<lparr>effects = effs, a_scopes = s\<rparr>)))))"

definition get_uplink :: "(string \<times> string) list \<Rightarrow> denial + nat option" where
  "get_uplink fs =
     (case map_of fs ''uplink_ttl_ms'' of
        None \<Rightarrow> Inr None
      | Some v \<Rightarrow> (case parse_unsigned u64_max v of Some u \<Rightarrow> Inr (Some u) | None \<Rightarrow> bad UplinkNotInteger))"

definition cert_parse :: "libs \<Rightarrow> string \<Rightarrow> denial + certificate" where
  "cert_parse lb text =
     and_then (read_document MAGIC NotCertificate text) (\<lambda>fs.
     and_then (get_field fs ''authority'') (\<lambda>auth_text.
     case parse_json lb auth_text of
       None \<Rightarrow> bad AuthorityNotJson
     | Some v \<Rightarrow>
         and_then (authority_from_json lb v) (\<lambda>a.
         and_then (get_field fs ''alg'') (\<lambda>alg.
         and_then (get_field fs ''issuer'') (\<lambda>issuer.
         and_then (get_field fs ''subject'') (\<lambda>subject.
         and_then (get_field fs ''parent'') (\<lambda>parent.
         and_then (get_number fs ''not_before'') (\<lambda>nb.
         and_then (get_number fs ''not_after'') (\<lambda>na.
         and_then (get_field fs ''nonce'') (\<lambda>nonce.
         and_then (get_uplink fs) (\<lambda>uplink.
         and_then (get_sig fs) (\<lambda>sg.
           Inr \<lparr>ct_alg = alg, ct_issuer = issuer, ct_subject = subject, ct_parent = parent, ct_not_before = nb,
                ct_not_after = na, ct_nonce = nonce, ct_uplink = uplink, ct_authority = a, ct_sig = sg\<rparr>))))))))))))"

section \<open>Verifying a chain\<close>

definition signature_error :: "libs \<Rightarrow> verifier \<Rightarrow> nat \<Rightarrow> certificate \<Rightarrow> denial option" where
  "signature_error lb vf k c =
     (if \<not> vf_supports vf (ct_alg c) then Some (CertUnsupported (UnsupportedAlg k (ct_alg c)))
      else (case vf_verify vf (ct_alg c) (signing_bytes lb c) (ct_sig c) of
              None \<Rightarrow> Some (CertUntrusted (BadSignature k))
            | Some signer \<Rightarrow>
                if signer \<noteq> ct_issuer c then Some (CertUntrusted (WrongSigner k (ct_issuer c) signer)) else None))"

definition in_window :: "int \<Rightarrow> certificate \<Rightarrow> bool" where
  "in_window t c \<longleftrightarrow> ct_not_before c \<le> t \<and> t < ct_not_after c"

definition link_error :: "libs \<Rightarrow> string fset \<Rightarrow> nat \<Rightarrow> certificate option \<Rightarrow> certificate \<Rightarrow> denial option" where
  "link_error lb anchors k prev c =
     (case prev of
        None \<Rightarrow>
          if ct_parent c \<noteq> ANCHOR then Some (CertUntrusted (NotAtAnchor (ct_parent c)))
          else if ct_issuer c |\<notin>| anchors then Some (CertUntrusted (UnknownIssuer (ct_issuer c)))
          else None
      | Some p \<Rightarrow>
          if ct_parent c \<noteq> fingerprint lb p then Some (CertUntrusted (NotConnected k (ct_parent c) (fingerprint lb p)))
          else if ct_issuer c \<noteq> ct_subject p then Some (CertUntrusted (NotTheHolder k (ct_issuer c) (ct_subject p)))
          else (case attenuation_check (ct_authority c) (ct_authority p) of
                  Inl meet \<Rightarrow> Some (CertAttenuation k (ct_authority c) meet) | Inr _ \<Rightarrow> None))"

fun verify_from ::
  "libs \<Rightarrow> string fset \<Rightarrow> verifier \<Rightarrow> int \<Rightarrow> nat \<Rightarrow> certificate option \<Rightarrow> certificate list \<Rightarrow> denial option" where
  "verify_from lb anchors vf t k prev [] = None"
| "verify_from lb anchors vf t k prev (c # cs) =
     (case signature_error lb vf k c of
        Some d \<Rightarrow> Some d
      | None \<Rightarrow>
          if \<not> in_window t c then Some (CertExpired (ct_not_before c) (ct_not_after c) t)
          else (case link_error lb anchors k prev c of
                  Some d \<Rightarrow> Some d
                | None \<Rightarrow> verify_from lb anchors vf t (Suc k) (Some c) cs))"

definition verify_chain :: "libs \<Rightarrow> certificate list \<Rightarrow> string fset \<Rightarrow> verifier \<Rightarrow> int \<Rightarrow> denial + authority" where
  "verify_chain lb chain anchors vf t =
     (if chain = [] then Inl (CertUntrusted EmptyChain)
      else (case verify_from lb anchors vf t 0 None chain of
              Some d \<Rightarrow> Inl d | None \<Rightarrow> Inr (ct_authority (last chain))))"

section \<open>Receipts\<close>

definition RECEIPT_MAGIC :: string where "RECEIPT_MAGIC = ''dlrcpt1''"

definition RECEIPT_CTX :: bytes where "RECEIPT_CTX = ''delulu-receipt-v1''"

record receipt =
  rc_alg :: string
  rc_issuer :: string
  rc_certificate :: string
  rc_not_after :: int
  rc_nonce :: string
  rc_sig :: bytes

definition receipt_signing_bytes :: "libs \<Rightarrow> receipt \<Rightarrow> bytes" where
  "receipt_signing_bytes lb r =
     RECEIPT_CTX @ [CHR 0x0A] @ canonical_json lb
       (obj_of [(''alg'', JString (rc_alg r)), (''certificate'', JString (rc_certificate r)),
                (''issuer'', JString (rc_issuer r)), (''nonce'', JString (rc_nonce r)),
                (''not_after'', JInt (rc_not_after r))])"

definition receipt_to_wire :: "receipt \<Rightarrow> string" where
  "receipt_to_wire r =
     RECEIPT_MAGIC @ [CHR 0x0A] @ wire_line ''alg'' (rc_alg r) @ wire_line ''issuer'' (rc_issuer r)
     @ wire_line ''certificate'' (rc_certificate r) @ wire_line ''not_after'' (show_int (rc_not_after r))
     @ wire_line ''nonce'' (rc_nonce r) @ wire_line ''sig'' (to_hex (rc_sig r))"

definition parse_receipt :: "string \<Rightarrow> denial + receipt" where
  "parse_receipt text =
     and_then (read_document RECEIPT_MAGIC NotReceipt text) (\<lambda>fs.
     and_then (get_field fs ''alg'') (\<lambda>alg.
     and_then (get_field fs ''issuer'') (\<lambda>issuer.
     and_then (get_field fs ''certificate'') (\<lambda>cert.
     and_then (get_number fs ''not_after'') (\<lambda>na.
     and_then (get_field fs ''nonce'') (\<lambda>nonce.
     and_then (get_sig fs) (\<lambda>sg.
       Inr \<lparr>rc_alg = alg, rc_issuer = issuer, rc_certificate = cert, rc_not_after = na, rc_nonce = nonce, rc_sig = sg\<rparr>)))))))"

section \<open>Adopting and renewing\<close>

definition effective_anchors :: "string fset \<Rightarrow> 'w broker \<Rightarrow> string fset" where
  "effective_anchors anchors b = (case strict_anchor b of Some pinned \<Rightarrow> {|pinned|} | None \<Rightarrow> anchors)"

definition min_list :: "'a::linorder list \<Rightarrow> 'a option" where
  "min_list xs = (case xs of [] \<Rightarrow> None | x # xs' \<Rightarrow> Some (fold min xs' x))"

definition chain_window :: "certificate list \<Rightarrow> int option" where
  "chain_window chain = min_list (map ct_not_after chain)"

definition chain_uplink :: "certificate list \<Rightarrow> nat option" where
  "chain_uplink chain = min_list (List.map_filter ct_uplink chain)"

definition adoption_ttl :: "int option \<Rightarrow> nat option \<Rightarrow> int \<Rightarrow> int option" where
  "adoption_ttl window uplink t =
     (case (window, uplink) of
        (w, None) \<Rightarrow> w
      | (None, Some u) \<Rightarrow> Some (sat_add_i64 t (u64_as_i64 u))
      | (Some w, Some u) \<Rightarrow> Some (min w (sat_add_i64 t (u64_as_i64 u))))"

definition refuse_adoption :: "'w env \<Rightarrow> string option \<Rightarrow> reason \<Rightarrow> 'w broker \<Rightarrow> (denial + grant_id) \<times> 'w broker" where
  "refuse_adoption E fp why b = (Inl (CertUntrusted why), snd (log_op E ''adopt'' None fp None ''deny'' None b))"

definition adopt ::
  "'w env \<Rightarrow> certificate list \<Rightarrow> string fset \<Rightarrow> verifier \<Rightarrow> holder \<Rightarrow> 'w broker \<Rightarrow> (denial + grant_id) \<times> 'w broker" where
  "adopt E chain anchors vf h b0 =
     (if adoptions_poisoned b0 then refuse_adoption E None AdoptionsPoisoned b0
      else
        (case now E b0 of
           (t, b) \<Rightarrow>
             (case verify_chain (env_libs E) chain (effective_anchors anchors b) vf t of
                Inl d \<Rightarrow> (Inl d, b)
              | Inr a \<Rightarrow>
                  let fp = fingerprint (env_libs E) (last chain);
                      fps = map (fingerprint (env_libs E)) chain
                  in if adopted_node fp b \<noteq> None then refuse_adoption E (Some fp) (AlreadyAdopted fp) b
                     else if chain_hits_revoked_adoption fps b then refuse_adoption E (Some fp) (ChainRevoked fp) b
                     else
                       let window = chain_window chain;
                           (i, b1) = issue E h a (adoption_ttl window (chain_uplink chain) t) b;
                           b2 = record_adopted_chain i fps (mark_adopted fp i window b1)
                       in (Inr i, snd (log_op E ''adopt'' (Some i) (Some fp) None ''allow'' None b2)))))"

record renewal =
  rn_node :: grant_id
  rn_ttl :: "int option"

definition receipt_error :: "libs \<Rightarrow> string fset \<Rightarrow> verifier \<Rightarrow> receipt \<Rightarrow> denial option" where
  "receipt_error lb anchors vf r =
     (if \<not> vf_supports vf (rc_alg r) then Some (CertUnsupported (ReceiptAlg (rc_alg r)))
      else (case vf_verify vf (rc_alg r) (receipt_signing_bytes lb r) (rc_sig r) of
              None \<Rightarrow> Some (CertUntrusted ReceiptSignature)
            | Some signer \<Rightarrow>
                if signer \<noteq> rc_issuer r then Some (CertUntrusted (ReceiptSigner (rc_issuer r) signer))
                else if rc_issuer r |\<notin>| anchors then Some (CertUntrusted (ReceiptIssuer (rc_issuer r)))
                else None))"

definition renew_undoable ::
  "'w env \<Rightarrow> receipt \<Rightarrow> string fset \<Rightarrow> verifier \<Rightarrow> 'w broker \<Rightarrow> (denial + int \<times> renewal) \<times> 'w broker" where
  "renew_undoable E r anchors vf b =
     (case receipt_error (env_libs E) (effective_anchors anchors b) vf r of
        Some d \<Rightarrow> (Inl d, b)
      | None \<Rightarrow>
          (case adopted_node (rc_certificate r) b of
             None \<Rightarrow> (Inl (CertUntrusted (NotAdopted (rc_certificate r))), b)
           | Some (i, window) \<Rightarrow>
               let deadline = (case window of Some w \<Rightarrow> min (rc_not_after r) w | None \<Rightarrow> rc_not_after r);
                   before = Option.bind (inspect i b) n_ttl
               in (case extend_ttl i deadline b of
                     (None, b1) \<Rightarrow> (Inl (UnknownNode i), b1)
                   | (Some in_force, b1) \<Rightarrow>
                       (Inr (in_force, \<lparr>rn_node = i, rn_ttl = before\<rparr>),
                        snd (log_op E ''renew'' (Some i) (Some (rc_certificate r)) None ''allow'' None b1)))))"

definition renew ::
  "'w env \<Rightarrow> receipt \<Rightarrow> string fset \<Rightarrow> verifier \<Rightarrow> 'w broker \<Rightarrow> (denial + int) \<times> 'w broker" where
  "renew E r anchors vf b =
     (case renew_undoable E r anchors vf b of (Inl d, b1) \<Rightarrow> (Inl d, b1) | (Inr (t, _), b1) \<Rightarrow> (Inr t, b1))"

definition withdraw_unrecorded_renewal :: "renewal \<Rightarrow> 'w broker \<Rightarrow> 'w broker" where
  "withdraw_unrecorded_renewal r b = restore_ttl (rn_node r) (rn_ttl r) b"

section \<open>The tree stays sound\<close>

lemma mark_adopted_frame [simp]:
  "nodes (mark_adopted fp i w b) = nodes b" "adopted (mark_adopted fp i w b) = fmupd fp (i, w) (adopted b)"
  "strict_anchor (mark_adopted fp i w b) = strict_anchor b" "guard (mark_adopted fp i w b) = guard b"
  "revoked_adoption_fps (mark_adopted fp i w b) = revoked_adoption_fps b"
  "adopted_chain_fps (mark_adopted fp i w b) = adopted_chain_fps b"
  "world (mark_adopted fp i w b) = world b" "audit_seq (mark_adopted fp i w b) = audit_seq b"
  by (simp_all add: mark_adopted_def)

lemma record_adopted_chain_frame [simp]:
  "nodes (record_adopted_chain i fps b) = nodes b" "adopted (record_adopted_chain i fps b) = adopted b"
  "strict_anchor (record_adopted_chain i fps b) = strict_anchor b" "guard (record_adopted_chain i fps b) = guard b"
  "revoked_adoption_fps (record_adopted_chain i fps b) = revoked_adoption_fps b"
  "adopted_chain_fps (record_adopted_chain i fps b) = fmupd i fps (adopted_chain_fps b)"
  "world (record_adopted_chain i fps b) = world b" "audit_seq (record_adopted_chain i fps b) = audit_seq b"
  by (simp_all add: record_adopted_chain_def)

lemma adoption_books_still:
  "still seen b (mark_adopted fp i w b)" "still seen b (record_adopted_chain i fps b)"
  by (simp_all add: same_tree_still mark_adopted_def record_adopted_chain_def)

context frame_contract
begin

lemma refuse_adoption_step [contract_steps]: "R a b \<Longrightarrow> R a (snd (refuse_adoption E fp why b))"
  by (simp add: refuse_adoption_def contract_steps)

end

context fresh_world
begin

lemmas tree_edit_sound =
  sound_step_trans[OF _ issue_sound] sound_step_trans[OF _ extend_ttl_sound] sound_step_trans[OF _ restore_ttl_sound]
  sound_step_trans[OF _ still_sound[OF adoption_books_still(1)]] sound_step_trans[OF _ still_sound[OF adoption_books_still(2)]]

lemma adopt_sound: "sound_step seen b (snd (adopt E chain anchors vf h b))"
  unfolding adopt_def split_beta Let_def by (auto intro!: contract_steps tree_edit_sound split: sum.split)

lemma renew_undoable_sound: "sound_step seen b (snd (renew_undoable E r anchors vf b))"
  unfolding renew_undoable_def split_beta Let_def by (auto intro!: contract_steps tree_edit_sound split: option.split)

lemma renew_sound: "sound_step seen b (snd (renew E r anchors vf b))"
  using renew_undoable_sound[of b r anchors vf] by (simp add: renew_def split_beta split: sum.split)

lemma withdraw_renewal_sound: "sound_step seen b (withdraw_unrecorded_renewal r b)"
  unfolding withdraw_unrecorded_renewal_def by (rule restore_ttl_sound)

end

end
