(* ===== verification/Cert_Claims.thy ===== *)
theory Cert_Claims imports Cert Sim_World begin

text \<open>
  What a verified chain of certificates means, and what adopting and renewing one may do: the check of the
  source is exactly the specification of a chain anchored, signed, linked and within its windows, each
  certificate within the one before it; an adoption lives no longer than the shortest window; a renewal
  never outlasts it.
\<close>

section \<open>The specification of a chain\<close>

text \<open>Signed with a supported algorithm by the very key the certificate names, and within its window.\<close>

definition genuine :: "libs \<Rightarrow> verifier \<Rightarrow> int \<Rightarrow> certificate \<Rightarrow> bool" where
  "genuine lb vf t c \<longleftrightarrow>
     vf_supports vf (ct_alg c) \<and> vf_verify vf (ct_alg c) (signing_bytes lb c) (ct_sig c) = Some (ct_issuer c) \<and>
     ct_not_before c \<le> t \<and> t < ct_not_after c"

text \<open>Each certificate names the one before it by its fingerprint, is issued by its subject and holds no more.\<close>

fun chained :: "libs \<Rightarrow> certificate list \<Rightarrow> bool" where
  "chained lb (p # c # cs) \<longleftrightarrow>
     ct_parent c = fingerprint lb p \<and> ct_issuer c = ct_subject p \<and> attenuates (ct_authority c) (ct_authority p) \<and>
     chained lb (c # cs)"
| "chained lb [c] \<longleftrightarrow> True"
| "chained lb [] \<longleftrightarrow> True"

definition chain_valid :: "libs \<Rightarrow> string fset \<Rightarrow> verifier \<Rightarrow> int \<Rightarrow> certificate list \<Rightarrow> bool" where
  "chain_valid lb anchors vf t chain \<longleftrightarrow>
     chain \<noteq> [] \<and> ct_parent (hd chain) = ANCHOR \<and> ct_issuer (hd chain) |\<in>| anchors \<and>
     list_all (genuine lb vf t) chain \<and> chained lb chain"

lemma signature_error_None:
  "signature_error lb vf k c = None \<longleftrightarrow>
     vf_supports vf (ct_alg c) \<and> vf_verify vf (ct_alg c) (signing_bytes lb c) (ct_sig c) = Some (ct_issuer c)"
  by (auto simp: signature_error_def split: option.splits)

lemma genuine_iff: "genuine lb vf t c \<longleftrightarrow> signature_error lb vf k c = None \<and> in_window t c"
  by (auto simp: genuine_def signature_error_None in_window_def)

lemma attenuation_isl: "isl (attenuation_check a b) \<longleftrightarrow> \<not> attenuates a b"
  by (auto simp: attenuation_check_def)

lemma link_error_Some:
  "link_error lb anchors k (Some p) c = None \<longleftrightarrow>
     ct_parent c = fingerprint lb p \<and> ct_issuer c = ct_subject p \<and> attenuates (ct_authority c) (ct_authority p)"
  using attenuation_isl[of "ct_authority c" "ct_authority p"] by (auto simp: link_error_def split: sum.split)

lemma link_error_None:
  "link_error lb anchors k None c = None \<longleftrightarrow> ct_parent c = ANCHOR \<and> ct_issuer c |\<in>| anchors"
  by (auto simp: link_error_def)

lemma verify_from_Some:
  "verify_from lb anchors vf t k (Some p) cs = None \<longleftrightarrow> list_all (genuine lb vf t) cs \<and> chained lb (p # cs)"
proof (induction cs arbitrary: k p)
  case (Cons c cs)
  show ?case
    using Cons.IH[of "Suc k" c] genuine_iff[of lb vf t c k] link_error_Some[of lb anchors k p c]
    by (auto split: option.split)
qed simp

lemma verify_chain_valid:
  "verify_chain lb chain anchors vf t = Inr a \<longleftrightarrow> chain_valid lb anchors vf t chain \<and> a = ct_authority (last chain)"
proof (cases chain)
  case (Cons c cs)
  have "verify_from lb anchors vf t 0 None (c # cs) = None \<longleftrightarrow>
      genuine lb vf t c \<and> ct_parent c = ANCHOR \<and> ct_issuer c |\<in>| anchors \<and> verify_from lb anchors vf t 1 (Some c) cs = None"
    using genuine_iff[of lb vf t c 0] link_error_None[of lb anchors 0 c] by (auto split: option.split)
  then show ?thesis
    using verify_from_Some[of lb anchors vf t 1 c cs] unfolding Cons verify_chain_def chain_valid_def
    by (auto split: option.split)
qed (simp add: verify_chain_def chain_valid_def)

lemma chained_leaf_within:
  "chained lb chain \<Longrightarrow> \<forall>c\<in>set chain. attenuates (ct_authority (last chain)) (ct_authority c)"
proof (induction lb chain rule: chained.induct)
  case (1 lb p d cs)
  then have d: "\<forall>c\<in>set (d # cs). attenuates (ct_authority (last (d # cs))) (ct_authority c)"
      "attenuates (ct_authority d) (ct_authority p)" by simp_all
  then have "attenuates (ct_authority (last (d # cs))) (ct_authority d)" by (metis list.set_intros(1))
  then have "attenuates (ct_authority (last (d # cs))) (ct_authority p)"
    using d(2) by (rule authority_order.le_trans)
  then show ?case using d(1) by (metis last_ConsR list.distinct(1) set_ConsD)
qed (auto intro: authority_order.le_refl)

section \<open>The shortest window\<close>

lemma fold_min: "fold min xs (m :: 'a::linorder) \<le> m \<and> (\<forall>x\<in>set xs. fold min xs m \<le> x)"
proof (induction xs arbitrary: m)
  case (Cons x xs)
  have "fold min xs (min x m) \<le> min x m" "\<forall>y\<in>set xs. fold min xs (min x m) \<le> y" using Cons by blast+
  then show ?case by auto
qed simp

lemma min_list_le: "min_list xs = Some m \<Longrightarrow> x \<in> set xs \<Longrightarrow> m \<le> x"
  using fold_min by (cases xs) (auto simp: min_list_def)

lemma min_list_None: "min_list xs = None \<longleftrightarrow> xs = []"
  by (cases xs) (simp_all add: min_list_def)

lemma adoption_ttl_window:
  "adoption_ttl (Some w) u t = Some ttl \<Longrightarrow> ttl \<le> w"
  by (auto simp: adoption_ttl_def split: option.splits)

lemma adoption_ttl_Some: "\<exists>ttl. adoption_ttl (Some w) u t = Some ttl"
  by (auto simp: adoption_ttl_def split: option.splits)


section \<open>An adoption\<close>

lemma issue_result:
  "\<exists>i q t c. issue E h a ttl b = (i, c) \<and>
     nodes c = fmupd i \<lparr>n_id = i, n_parent = None, n_holder = h, n_authority = canonicalized a, n_ttl = ttl,
                       n_state = Live, n_created = t, n_audit_seq = q\<rparr> (nodes b) \<and>
     adopted c = adopted b \<and> adopted_chain_fps c = adopted_chain_fps b \<and> revoked_adoption_fps c = revoked_adoption_fps b \<and>
     strict_anchor c = strict_anchor b"
  unfolding issue_def by (simp add: split_beta Let_def put_node_def) blast

lemma issue_id: "fst (issue E h a ttl b) = fst (take_id E b)"
  unfolding issue_def by (simp add: split_beta Let_def)

lemma adopt_result:
  assumes "adopt E chain anchors vf h b = (Inr i, c)"
  shows "\<exists>a w ttl q t.
    \<not> adoptions_poisoned b \<and>
    verify_chain (env_libs E) chain (effective_anchors anchors b) vf (fst (now E b)) = Inr a \<and>
    fmlookup (adopted b) (fingerprint (env_libs E) (last chain)) = None \<and>
    (\<forall>x\<in>set chain. fingerprint (env_libs E) x |\<notin>| revoked_adoption_fps b) \<and>
    chain_window chain = Some w \<and>
    adoption_ttl (Some w) (chain_uplink chain) (fst (now E b)) = Some ttl \<and>
    nodes c = fmupd i \<lparr>n_id = i, n_parent = None, n_holder = h, n_authority = canonicalized a, n_ttl = Some ttl,
                       n_state = Live, n_created = t, n_audit_seq = q\<rparr> (nodes b) \<and>
    adopted c = fmupd (fingerprint (env_libs E) (last chain)) (i, Some w) (adopted b) \<and>
    adopted_chain_fps c = fmupd i (map (fingerprint (env_libs E)) chain) (adopted_chain_fps b) \<and>
    revoked_adoption_fps c = revoked_adoption_fps b \<and> strict_anchor c = strict_anchor b \<and>
    i = fst (take_id E (snd (now E b)))"
proof -
  let ?t = "fst (now E b)" and ?b1 = "snd (now E b)" and ?fp = "fingerprint (env_libs E) (last chain)"
  let ?fps = "map (fingerprint (env_libs E)) chain"
  have np: "\<not> adoptions_poisoned b" using assms by (auto simp: adopt_def refuse_adoption_def)
  have ea: "effective_anchors anchors ?b1 = effective_anchors anchors b" by (simp add: effective_anchors_def)
  obtain a where v: "verify_chain (env_libs E) chain (effective_anchors anchors b) vf ?t = Inr a"
    using assms np ea by (cases "verify_chain (env_libs E) chain (effective_anchors anchors b) vf ?t")
      (auto simp: adopt_def split_beta)
  have fresh: "adopted_node ?fp ?b1 = None"
    using assms np v ea by (cases "adopted_node ?fp ?b1") (auto simp: adopt_def split_beta refuse_adoption_def Let_def)
  have clean: "\<not> chain_hits_revoked_adoption ?fps ?b1"
    using assms np v ea fresh by (auto simp: adopt_def split_beta refuse_adoption_def Let_def)
  have "chain \<noteq> []" using v by (auto simp: verify_chain_def)
  then obtain w where w: "chain_window chain = Some w"
    using min_list_None[of "map ct_not_after chain"] by (auto simp: chain_window_def)
  obtain ttl where ttl: "adoption_ttl (Some w) (chain_uplink chain) ?t = Some ttl" using adoption_ttl_Some by blast
  obtain j q t d where iss: "issue E h a (Some ttl) ?b1 = (j, d)"
     "nodes d = fmupd j \<lparr>n_id = j, n_parent = None, n_holder = h, n_authority = canonicalized a, n_ttl = Some ttl,
                       n_state = Live, n_created = t, n_audit_seq = q\<rparr> (nodes ?b1)"
     "adopted d = adopted ?b1" "adopted_chain_fps d = adopted_chain_fps ?b1"
     "revoked_adoption_fps d = revoked_adoption_fps ?b1" "strict_anchor d = strict_anchor ?b1"
    using issue_result[of E h a "Some ttl" ?b1] by blast
  have "adopt E chain anchors vf h b =
      (Inr j, snd (log_op E ''adopt'' (Some j) (Some ?fp) None ''allow'' None
        (record_adopted_chain j ?fps (mark_adopted ?fp j (Some w) d))))"
    using np v ea fresh clean w ttl iss(1) by (simp add: adopt_def split_beta Let_def)
  then have ij: "i = j" and c: "c = snd (log_op E ''adopt'' (Some j) (Some ?fp) None ''allow'' None
        (record_adopted_chain j ?fps (mark_adopted ?fp j (Some w) d)))"
    using assms by simp_all
  have src: "i = fst (take_id E (snd (now E b)))" using iss(1) ij issue_id[of E h a "Some ttl" ?b1] by simp
  show ?thesis
    using np v fresh clean w ttl iss(2-) src
    by (auto simp: c ij adopted_node_def chain_hits_revoked_adoption_def)
qed

section \<open>Properties\<close>

text \<open>C7: The verification accepts a chain exactly when it is not empty, starts at the anchor under a trusted key, every
  certificate of it is signed by the key it names with a supported algorithm and is within its window, and each
  names, is issued by and holds no more than the one before it; its answer is then the last one's authority, which
  is within the authority of every certificate of the chain.\<close>

theorem chain_verification_exact:
  "verify_chain lb chain anchors vf t = Inr a \<longleftrightarrow>
     chain_valid lb anchors vf t chain \<and> a = ct_authority (last chain) \<and>
     list_all (\<lambda>c. attenuates a (ct_authority c)) chain"
  using verify_chain_valid[of lb chain anchors vf t a] chained_leaf_within[of lb chain]
  by (auto simp: chain_valid_def list_all_iff)

text \<open>An adoption needs a chain the verification accepts under the broker's pinned anchor (or, where none is
  pinned, the caller's anchors), a leaf not adopted before and no certificate of the chain retired by a revocation,
  and a memory of revocations that could be read. The one node it adds is a root with the leaf's authority, made
  canonical and within the authority of every certificate of the chain, and its deadline is no later than the
  window of any certificate nor than the uplink term.\<close>

theorem adoption_is_bounded:
  assumes "adopt E chain anchors vf h b = (Inr i, c)"
  shows "\<exists>n ttl. fmlookup (nodes c) i = Some n \<and> nodes c = fmupd i n (nodes b) \<and> n_parent n = None \<and>
    n_authority n = canonicalized (ct_authority (last chain)) \<and> n_ttl n = Some ttl \<and>
    chain_valid (env_libs E) (effective_anchors anchors b) vf (fst (now E b)) chain \<and>
    \<not> adoptions_poisoned b \<and> fingerprint (env_libs E) (last chain) |\<notin>| fmdom (adopted b) \<and>
    (\<forall>x\<in>set chain. attenuates (n_authority n) (ct_authority x) \<and> ttl \<le> ct_not_after x \<and>
        fingerprint (env_libs E) x |\<notin>| revoked_adoption_fps b) \<and>
    (\<forall>u. chain_uplink chain = Some u \<longrightarrow> ttl \<le> sat_add_i64 (fst (now E b)) (u64_as_i64 u))"
proof -
  obtain a w ttl q t where r: "\<not> adoptions_poisoned b"
      "verify_chain (env_libs E) chain (effective_anchors anchors b) vf (fst (now E b)) = Inr a"
      "fmlookup (adopted b) (fingerprint (env_libs E) (last chain)) = None"
      "\<forall>x\<in>set chain. fingerprint (env_libs E) x |\<notin>| revoked_adoption_fps b"
      "chain_window chain = Some w" "adoption_ttl (Some w) (chain_uplink chain) (fst (now E b)) = Some ttl"
      "nodes c = fmupd i \<lparr>n_id = i, n_parent = None, n_holder = h, n_authority = canonicalized a, n_ttl = Some ttl,
                       n_state = Live, n_created = t, n_audit_seq = q\<rparr> (nodes b)"
    using adopt_result[OF assms] by blast
  have v: "chain_valid (env_libs E) (effective_anchors anchors b) vf (fst (now E b)) chain" "a = ct_authority (last chain)"
    using r(2) verify_chain_valid by blast+
  have att: "\<forall>x\<in>set chain. attenuates (canonicalized a) (ct_authority x)"
    using v chained_leaf_within authority_order.le_trans[OF canonicalized_within] unfolding chain_valid_def by blast
  have "\<forall>x\<in>set chain. ttl \<le> ct_not_after x"
    using min_list_le[OF r(5)[unfolded chain_window_def]] adoption_ttl_window[OF r(6)] order_trans by fastforce
  moreover have "ttl \<le> sat_add_i64 (fst (now E b)) (u64_as_i64 u)" if "chain_uplink chain = Some u" for u
    using r(6) that by (auto simp: adoption_ttl_def)
  ultimately show ?thesis using r v att by (simp add: fmdom_notI)
qed

text \<open>A chain of one certificate, under a scheme in which the signature is the signer's name.\<close>

definition naming_verifier :: verifier where
  "naming_verifier = \<lparr>vf_supports = (\<lambda>alg. alg = ''test''), vf_verify = (\<lambda>alg m s. Some s)\<rparr>"

definition leaf_sample :: certificate where
  "leaf_sample = \<lparr>ct_alg = ''test'', ct_issuer = ''k0'', ct_subject = ''k1'', ct_parent = ANCHOR, ct_not_before = 0,
     ct_not_after = 9000, ct_nonce = ''n'', ct_uplink = Some 500, ct_authority = reader_grant ''data'', ct_sig = ''k0''\<rparr>"

theorem adoption_is_bounded_witness:
  "\<exists>n ttl. fmlookup (nodes (snd (adopt (sim_env plain_libs) [leaf_sample] {|''k0''|} naming_verifier some_holder empty_sample)))
       (seq_id 0) = Some n \<and> n_ttl n = Some ttl \<and> ttl \<le> 9000"
proof -
  have "fst (adopt (sim_env plain_libs) [leaf_sample] {|''k0''|} naming_verifier some_holder empty_sample) = Inr (seq_id 0)"
    by code_simp
  then have "adopt (sim_env plain_libs) [leaf_sample] {|''k0''|} naming_verifier some_holder empty_sample =
      (Inr (seq_id 0), snd (adopt (sim_env plain_libs) [leaf_sample] {|''k0''|} naming_verifier some_holder empty_sample))"
    by (simp add: prod_eq_iff)
  from adoption_is_bounded[OF this] show ?thesis by (auto simp: leaf_sample_def)
qed

lemma fmupd_same: "fmlookup m i = Some n \<Longrightarrow> fmupd i n m = m"
  by (rule fmap_ext) auto

lemma receipt_error_None:
  "receipt_error lb anchors vf r = None \<longleftrightarrow>
     vf_supports vf (rc_alg r) \<and>
     vf_verify vf (rc_alg r) (receipt_signing_bytes lb r) (rc_sig r) = Some (rc_issuer r) \<and> rc_issuer r |\<in>| anchors"
  by (auto simp: receipt_error_def split: option.splits)

lemma extend_ttl_result:
  assumes "fmlookup (nodes b) i = Some n"
  shows "\<exists>t c. extend_ttl i d b = (Some t, c) \<and> nodes c = fmupd i (n\<lparr>n_ttl := Some t\<rparr>) (nodes b) \<and>
    (\<forall>old. n_ttl n = Some old \<longrightarrow> old \<le> t) \<and> (t = d \<or> n_ttl n = Some t)"
proof (cases "\<exists>old. n_ttl n = Some old \<and> d \<le> old")
  case True
  then obtain old where old: "n_ttl n = Some old" "d \<le> old" by blast
  then have "n\<lparr>n_ttl := Some old\<rparr> = n" by simp
  then have "nodes b = fmupd i (n\<lparr>n_ttl := Some old\<rparr>) (nodes b)" using fmupd_same[OF assms] by metis
  then show ?thesis using old assms by (simp add: extend_ttl_def)
next
  case False
  then show ?thesis using assms by (auto simp: extend_ttl_def split: option.splits)
qed

text \<open>A renewal needs a receipt signed under a trusted anchor for a certificate this broker adopted. It moves the
  deadline of that one node and nothing else, never backwards, and never past the receipt's own deadline or the
  window fixed when the chain was adopted; withdrawn, it leaves the tree as it was.\<close>

lemma renew_result:
  assumes "renew_undoable E r anchors vf b = (Inr (t, rn), c)"
  shows "\<exists>i w n. vf_supports vf (rc_alg r) \<and>
    vf_verify vf (rc_alg r) (receipt_signing_bytes (env_libs E) r) (rc_sig r) = Some (rc_issuer r) \<and>
    rc_issuer r |\<in>| effective_anchors anchors b \<and>
    fmlookup (adopted b) (rc_certificate r) = Some (i, w) \<and> fmlookup (nodes b) i = Some n \<and>
    nodes c = fmupd i (n\<lparr>n_ttl := Some t\<rparr>) (nodes b) \<and> (\<forall>old. n_ttl n = Some old \<longrightarrow> old \<le> t) \<and>
    (n_ttl n = Some t \<or> t \<le> rc_not_after r \<and> (\<forall>x. w = Some x \<longrightarrow> t \<le> x)) \<and>
    nodes (withdraw_unrecorded_renewal rn c) = nodes b"
proof -
  have ok: "receipt_error (env_libs E) (effective_anchors anchors b) vf r = None"
    using assms by (auto simp: renew_undoable_def split: option.splits)
  obtain i w where a: "fmlookup (adopted b) (rc_certificate r) = Some (i, w)"
    using assms ok by (auto simp: renew_undoable_def adopted_node_def split: option.splits)
  define d where "d = (case w of Some x \<Rightarrow> min (rc_not_after r) x | None \<Rightarrow> rc_not_after r)"
  obtain n where n: "fmlookup (nodes b) i = Some n"
    using assms ok a by (cases "fmlookup (nodes b) i") (auto simp: renew_undoable_def adopted_node_def Let_def extend_ttl_def)
  obtain s e where e: "extend_ttl i d b = (Some s, e)" "nodes e = fmupd i (n\<lparr>n_ttl := Some s\<rparr>) (nodes b)"
      "\<forall>old. n_ttl n = Some old \<longrightarrow> old \<le> s" "s = d \<or> n_ttl n = Some s"
    using extend_ttl_result[OF n] by blast
  have res: "t = s" "rn = \<lparr>rn_node = i, rn_ttl = n_ttl n\<rparr>" "nodes c = nodes e"
    using assms ok a e(1) n
    by (auto simp: renew_undoable_def adopted_node_def Let_def d_def[symmetric] inspect_def)
  have lim: "d \<le> rc_not_after r \<and> (\<forall>x. w = Some x \<longrightarrow> d \<le> x)" by (auto simp: d_def split: option.splits)
  have "nodes (withdraw_unrecorded_renewal rn c) = fmupd i (n\<lparr>n_ttl := n_ttl n\<rparr>) (nodes b)"
    using e(2) res by (simp add: withdraw_unrecorded_renewal_def restore_ttl_def fmap_ext)
  then have "nodes (withdraw_unrecorded_renewal rn c) = nodes b" using fmupd_same[OF n] by simp
  then show ?thesis using ok[unfolded receipt_error_None] a n e(2-4) res lim by auto
qed

end
