(* ===== verification/Proposal.thy ===== *)
theory Proposal imports Secrets Lease begin

text \<open>
  Proposals, \<open>crates/delulu-broker/src/proposal.rs\<close>: a node asks for more than it holds, and a person approves
  the join of what it holds and what it asks as a new delegation under another node, or rejects it.
\<close>

definition CLAIM_MAX :: nat where "CLAIM_MAX = 512"

definition REASON_MAX :: nat where "REASON_MAX = 2048"

definition claim_bounded :: "claim \<Rightarrow> claim" where
  "claim_bounded c =
     \<lparr>c_program = bounded_text (c_program c) CLAIM_MAX, c_call = bounded_text (c_call c) CLAIM_MAX,
      c_at = bounded_text (c_at c) CLAIM_MAX, c_code = bounded_text (c_code c) CLAIM_MAX\<rparr>"

definition claim_to_json :: "claim \<Rightarrow> json" where
  "claim_to_json c =
     obj_of [(''at'', JString (c_at c)), (''call'', JString (c_call c)), (''code'', JString (c_code c)),
             (''program'', JString (c_program c))]"

definition no_authority :: authority where
  "no_authority = \<lparr>effects = {||}, a_scopes = no_scopes\<rparr>"

definition unproposable :: "authority \<Rightarrow> authority \<Rightarrow> reason option" where
  "unproposable held asks =
     (if budget (a_scopes asks) \<noteq> None then Some BudgetAsked
      else if asks = no_authority then Some AsksNothing
      else
        (case find (\<lambda>d. d |\<in>| fmdom (device (a_scopes held))) (sorted_elems (fmdom (device (a_scopes asks)))) of
           Some d \<Rightarrow> Some (HoldsEnvelope d)
         | None \<Rightarrow> if isl (attenuation_check asks held) then None else Some HoldsEverything))"

definition authority_join :: "authority \<Rightarrow> authority \<Rightarrow> authority" where
  "authority_join held asks =
     (let h = a_scopes held; a = a_scopes asks
      in canonicalized
           \<lparr>effects = effects held |\<union>| effects asks,
            a_scopes =
              \<lparr>fs_read = fs_read h |\<union>| fs_read a, fs_write = fs_write h |\<union>| fs_write a, net = net h |\<union>| net a,
               secrets = secrets h |\<union>| secrets a, declassify = declassify h |\<union>| declassify a,
               foreign_c = foreign_c h |\<union>| foreign_c a, foreign_python = foreign_python h |\<union>| foreign_python a,
               device = device a ++\<^sub>f device h, budget = budget h, secret_to = secret_to h |\<union>| secret_to a,
               net_special = net_special h |\<union>| net_special a\<rparr>\<rparr>)"

definition upd_proposals :: "(proposal list \<Rightarrow> proposal list) \<Rightarrow> 'w broker \<Rightarrow> 'w broker" where
  "upd_proposals f b = b\<lparr>proposals := (proposals b)\<lparr>ps_items := f (ps_items (proposals b))\<rparr>\<rparr>"

definition proposal_id :: "nat \<Rightarrow> string" where "proposal_id k = ''pp_'' @ pad 4 (int k)"

definition propose ::
  "'w env \<Rightarrow> grant_id \<Rightarrow> authority \<Rightarrow> claim \<Rightarrow> 'w broker \<Rightarrow> (denial + string \<times> bool) \<times> 'w broker" where
  "propose E i asks0 cl b =
     (let asks = canonicalized asks0
      in case live_authority E i b of
           (Inl d, b1) \<Rightarrow> (Inl d, b1)
         | (Inr held, b1) \<Rightarrow>
             (case unproposable held asks of
                Some why \<Rightarrow> (Inl (ProposalRefused i why), b1)
              | None \<Rightarrow>
                  (case find (\<lambda>p. pr_node p = i \<and> pr_asks p = asks \<and> pr_status p = PendingProposal) (ps_items (proposals b1)) of
                     Some p \<Rightarrow> (Inr (pr_id p, True), b1)
                   | None \<Rightarrow>
                       let k = ps_next (proposals b1);
                           pid = proposal_id k;
                           cl' = claim_bounded cl;
                           rec = obj_of [(''asks'', authority_to_json (env_libs E) asks), (''claim'', claim_to_json cl')];
                           b2 = b1\<lparr>proposals := (proposals b1)\<lparr>ps_next := Suc k\<rparr>\<rparr>;
                           (t, b3) = now E b2;
                           p = \<lparr>pr_id = pid, pr_node = i, pr_asks = asks, pr_claim = cl', pr_created = t,
                                pr_status = PendingProposal\<rparr>;
                           b4 = upd_proposals (\<lambda>ps. ps @ [p]) b3
                       in (Inr (pid, False), snd (log_op E ''proposal'' (Some i) (Some pid) (Some rec) ''allow'' None b4)))))"

definition proposal_mints :: "'w env \<Rightarrow> proposal \<Rightarrow> 'w broker \<Rightarrow> authority option \<times> 'w broker" where
  "proposal_mints E p b =
     (if pr_status p \<noteq> PendingProposal then (None, b)
      else (case live_authority E (pr_node p) b of
              (Inl _, b1) \<Rightarrow> (None, b1)
            | (Inr held, b1) \<Rightarrow> (Some (authority_join held (pr_asks p)), b1)))"

definition pending_proposal :: "string \<Rightarrow> proposal \<Rightarrow> bool" where
  "pending_proposal pid p \<longleftrightarrow> pr_id p = pid \<and> pr_status p = PendingProposal"

fun set_first_status :: "(proposal \<Rightarrow> bool) \<Rightarrow> proposal_status \<Rightarrow> proposal list \<Rightarrow> proposal list" where
  "set_first_status P st [] = []"
| "set_first_status P st (p # ps) = (if P p then p\<lparr>pr_status := st\<rparr> # ps else p # set_first_status P st ps)"

definition approval_holder :: "string \<Rightarrow> grant_id \<Rightarrow> holder" where
  "approval_holder pid proposer =
     \<lparr>h_kind = ''proposal'', h_desc = ''approved proposal '' @ pid @ '' of '' @ proposer, h_peer = ''pending''\<rparr>"

definition approve_proposal ::
  "'w env \<Rightarrow> string \<Rightarrow> grant_id \<Rightarrow> string option \<Rightarrow> int option \<Rightarrow> 'w broker \<Rightarrow>
     (denial + (grant_id \<times> token) option) \<times> 'w broker" where
  "approve_proposal E pid parent owner ttl b =
     (case find (pending_proposal pid) (ps_items (proposals b)) of
        None \<Rightarrow> (Inr None, b)
      | Some p \<Rightarrow>
          (case live_authority E (pr_node p) b of
             (Inl d, b1) \<Rightarrow> (Inl d, b1)
           | (Inr held, b1) \<Rightarrow>
               let child = authority_join held (pr_asks p)
               in (case guard_check_mint E child parent owner b1 of
                    (Inl d, b2) \<Rightarrow> (Inl d, b2)
                  | (Inr _, b2) \<Rightarrow>
                      (case delegate E parent child (approval_holder pid (pr_node p)) ttl False b2 of
                         (Inl d, b3) \<Rightarrow> (Inl d, b3)
                       | (Inr (i, tok), b3) \<Rightarrow>
                           let b4 = upd_proposals (set_first_status (pending_proposal pid) (ApprovedAs i parent)) b3
                           in (Inr (Some (i, tok)),
                               snd (log_op E ''proposal_approve'' (Some parent) (Some pid)
                                  (Some (obj_of [(''node'', JString i), (''proposer'', JString (pr_node p))]))
                                  ''allow'' None b4))))))"

definition reject_proposal :: "'w env \<Rightarrow> string \<Rightarrow> string \<Rightarrow> 'w broker \<Rightarrow> bool \<times> 'w broker" where
  "reject_proposal E pid why0 b =
     (case find (pending_proposal pid) (ps_items (proposals b)) of
        None \<Rightarrow> (False, b)
      | Some p \<Rightarrow>
          let why = bounded_text why0 REASON_MAX;
              b1 = upd_proposals (set_first_status (pending_proposal pid) (Rejected why)) b
          in (True, snd (log_op E ''proposal_reject'' (Some (pr_node p)) (Some pid)
                (Some (obj_of [(''reason'', JString why)])) ''deny'' None b1)))"

definition withdraw_unrecorded_proposal :: "string \<Rightarrow> 'w broker \<Rightarrow> 'w broker" where
  "withdraw_unrecorded_proposal pid = upd_proposals (filter (\<lambda>p. pr_id p \<noteq> pid))"

definition withdraw_unrecorded_proposal_approval :: "string \<Rightarrow> grant_id \<Rightarrow> 'w broker \<Rightarrow> 'w broker" where
  "withdraw_unrecorded_proposal_approval pid i b =
     upd_proposals (set_first_status (\<lambda>p. pr_id p = pid) PendingProposal) (snd (withdraw_unrecorded i b))"

section \<open>What the operations keep\<close>

lemma upd_proposals_frame [simp]:
  "nodes (upd_proposals f b) = nodes b" "guard (upd_proposals f b) = guard b"
  "adopted (upd_proposals f b) = adopted b" "strict_anchor (upd_proposals f b) = strict_anchor b"
  "proposals (upd_proposals f b) = (proposals b)\<lparr>ps_items := f (ps_items (proposals b))\<rparr>"
  by (simp_all add: upd_proposals_def)

context custody_contract
begin

lemma upd_proposals_step [contract_steps]: "R a b \<Longrightarrow> R a (upd_proposals f b)"
  unfolding upd_proposals_def by (rule contract_steps)

lemma propose_step [contract_steps]:
  "R a b \<Longrightarrow> R a (snd (propose E i asks cl b))"
  unfolding propose_def split_beta Let_def by (auto intro!: contract_steps split: sum.split option.split)

lemma proposal_mints_step [contract_steps]:
  "R a b \<Longrightarrow> R a (snd (proposal_mints E p b))"
  unfolding proposal_mints_def split_beta by (auto intro!: contract_steps split: sum.split)

lemma approve_proposal_step [contract_steps]:
  "R a b \<Longrightarrow> R a (snd (approve_proposal E pid parent owner ttl b))"
  unfolding approve_proposal_def split_beta Let_def by (auto intro!: contract_steps split: sum.split option.split)

lemma reject_proposal_step [contract_steps]:
  "R a b \<Longrightarrow> R a (snd (reject_proposal E pid why b))"
  unfolding reject_proposal_def Let_def by (auto intro!: contract_steps split: option.split)

lemma withdraw_proposal_step [contract_steps]: "R a b \<Longrightarrow> R a (withdraw_unrecorded_proposal pid b)"
  unfolding withdraw_unrecorded_proposal_def by (rule contract_steps)

end

end
