(* ===== verification/Proposal_Claims.thy ===== *)
theory Proposal_Claims imports Proposal Tree_Claims begin

text \<open>
  What a proposal promises: what an approval mints is the least authority above what the node holds and what it
  asks, it is delegated only within the approver's node, and the proposal is settled by it.
\<close>

section \<open>The join\<close>

text \<open>An authority with the budget of another; a proposal never asks for one.\<close>

definition with_budget_of :: "authority \<Rightarrow> authority \<Rightarrow> authority" where
  "with_budget_of h a = a\<lparr>a_scopes := (a_scopes a)\<lparr>budget := budget (a_scopes h)\<rparr>\<rparr>"

definition raw_join :: "authority \<Rightarrow> authority \<Rightarrow> authority" where
  "raw_join held asks =
     (let h = a_scopes held; a = a_scopes asks
      in \<lparr>effects = effects held |\<union>| effects asks,
            a_scopes =
              \<lparr>fs_read = fs_read h |\<union>| fs_read a, fs_write = fs_write h |\<union>| fs_write a, net = net h |\<union>| net a,
               secrets = secrets h |\<union>| secrets a, declassify = declassify h |\<union>| declassify a,
               foreign_c = foreign_c h |\<union>| foreign_c a, foreign_python = foreign_python h |\<union>| foreign_python a,
               device = device a ++\<^sub>f device h, budget = budget h, secret_to = secret_to h |\<union>| secret_to a,
               net_special = net_special h |\<union>| net_special a\<rparr>\<rparr>)"

lemma authority_join_raw: "authority_join held asks = canonicalized (raw_join held asks)"
  by (simp add: authority_join_def raw_join_def Let_def)

lemma paths_within_union: "paths_within (A |\<union>| B) C \<longleftrightarrow> paths_within A C \<and> paths_within B C"
  by (auto simp: paths_within_def all_within_by_def)

lemma net_within_union: "net_set_within (A |\<union>| B) C \<longleftrightarrow> net_set_within A C \<and> net_set_within B C"
  by (auto simp: net_set_within_def all_within_by_def)

lemma subset_within: "A |\<subseteq>| B \<Longrightarrow> paths_within A B" "A |\<subseteq>| B \<Longrightarrow> net_set_within A B"
  unfolding paths_within_def net_set_within_def
  using all_within_by_mono[OF path_order.all_within_refl] all_within_by_mono[OF net_order.all_within_refl] by blast+

lemma union_within:
  "paths_within A (A |\<union>| B)" "paths_within B (A |\<union>| B)" "net_set_within C (C |\<union>| D)" "net_set_within D (C |\<union>| D)"
  by (simp_all add: subset_within)

lemma ffilter_all: "(\<And>x. x |\<in>| S \<Longrightarrow> P x) \<Longrightarrow> ffilter P S = S"
  by auto

lemma is_canonical_parts:
  assumes "is_canonical a"
  shows "\<And>p. p |\<in>| secret_to (a_scopes a) \<Longrightarrow> \<exists>n. secret_to_name p = Some n \<and> n |\<in>| secrets (a_scopes a)"
    and "\<And>e. e |\<in>| net_special (a_scopes a) \<Longrightarrow> \<exists>g. g |\<in>| net (a_scopes a) \<and> entry_within e g"
proof -
  have w: "well_formed_secret_to (a_scopes a) = secret_to (a_scopes a)"
    "well_formed_net_special (a_scopes a) = net_special (a_scopes a)" "canonicalize_net (net (a_scopes a)) = net (a_scopes a)"
    using assms by (simp_all add: is_canonical_def Let_def)
  show "\<exists>n. secret_to_name p = Some n \<and> n |\<in>| secrets (a_scopes a)" if "p |\<in>| secret_to (a_scopes a)" for p
  proof -
    have "p |\<in>| well_formed_secret_to (a_scopes a)" using that w(1) by simp
    then show ?thesis unfolding well_formed_secret_to_def by (simp split: option.splits)
  qed
  show "\<exists>g. g |\<in>| net (a_scopes a) \<and> entry_within e g" if "e |\<in>| net_special (a_scopes a)" for e
  proof -
    have "e |\<in>| well_formed_net_special (a_scopes a)" using that w(2) by simp
    then show ?thesis unfolding well_formed_net_special_def w(3) by auto
  qed
qed

lemma raw_join_equiv:
  assumes "is_canonical held" "is_canonical asks"
  shows "attenuates (raw_join held asks) (authority_join held asks)"
  unfolding authority_join_raw
proof (rule canonicalized_equiv)
  let ?j = "raw_join held asks"
  have "\<exists>n. secret_to_name p = Some n \<and> n |\<in>| secrets (a_scopes ?j)" if "p |\<in>| secret_to (a_scopes ?j)" for p
    using that is_canonical_parts(1)[OF assms(1)] is_canonical_parts(1)[OF assms(2)] by (force simp: raw_join_def Let_def)
  then have "(case secret_to_name p of Some n \<Rightarrow> n |\<in>| secrets (a_scopes ?j) | None \<Rightarrow> False)"
    if "p |\<in>| secret_to (a_scopes ?j)" for p using that by fastforce
  then show "well_formed_secret_to (a_scopes ?j) = secret_to (a_scopes ?j)"
    unfolding well_formed_secret_to_def by (rule ffilter_all)
  show "fBall (net_special (a_scopes ?j)) (\<lambda>e. fBex (net (a_scopes ?j)) (entry_within e))"
    using is_canonical_parts(2)[OF assms(1)] is_canonical_parts(2)[OF assms(2)] by (force simp: raw_join_def Let_def)
qed

lemma raw_join_upper:
  assumes "fmdom (device (a_scopes held)) |\<inter>| fmdom (device (a_scopes asks)) = {||}"
  shows "attenuates held (raw_join held asks)" "attenuates (with_budget_of held asks) (raw_join held asks)"
proof -
  let ?h = "device (a_scopes held)" and ?a = "device (a_scopes asks)"
  have "fmlookup (?a ++\<^sub>f ?h) k = Some d" if "fmlookup ?a k = Some d" for k d
    using that assms by (auto simp: fmdom_notD dest: fmdomI)
  then have d: "devices_within ?a (?a ++\<^sub>f ?h)"
    unfolding devices_within_def fmap_within_iff using devices_order.le_refl[of ?a]
    by (metis devices_within_def fmap_within_iff option.inject)
  have "fmlookup (?a ++\<^sub>f ?h) k = Some d" if "fmlookup ?h k = Some d" for k d
    using that by (simp add: fmdomI)
  then have e: "devices_within ?h (?a ++\<^sub>f ?h)"
    unfolding devices_within_def fmap_within_iff using devices_order.le_refl[of ?h]
    by (metis devices_within_def fmap_within_iff option.inject)
  show "attenuates held (raw_join held asks)"
    using e by (simp add: attenuates_def raw_join_def Let_def union_within budget_order.le_refl)
  show "attenuates (with_budget_of held asks) (raw_join held asks)"
    using d by (simp add: attenuates_def raw_join_def with_budget_of_def Let_def union_within budget_order.le_refl)
qed

lemma raw_join_least:
  assumes "attenuates held x" "attenuates (with_budget_of held asks) x"
  shows "attenuates (raw_join held asks) x"
proof -
  have "devices_within (device (a_scopes held)) (device (a_scopes x))" "devices_within (device (a_scopes asks)) (device (a_scopes x))"
    using assms by (auto simp: attenuates_def with_budget_of_def Let_def)
  then have "devices_within (device (a_scopes asks) ++\<^sub>f device (a_scopes held)) (device (a_scopes x))"
    by (auto simp: devices_within_def fmap_within_iff split: if_splits)
  then show ?thesis
    using assms by (auto simp: attenuates_def raw_join_def with_budget_of_def Let_def paths_within_union net_within_union)
qed

lemma unproposable_None:
  assumes "unproposable held asks = None"
  shows "budget (a_scopes asks) = None" "fmdom (device (a_scopes held)) |\<inter>| fmdom (device (a_scopes asks)) = {||}"
    "\<not> attenuates asks held"
proof -
  have f: "find (\<lambda>d. d |\<in>| fmdom (device (a_scopes held))) (sorted_elems (fmdom (device (a_scopes asks)))) = None"
    using assms by (auto simp: unproposable_def split: if_splits option.splits)
  then show "fmdom (device (a_scopes held)) |\<inter>| fmdom (device (a_scopes asks)) = {||}"
    by (auto simp: find_None_iff)
  show "budget (a_scopes asks) = None" "\<not> attenuates asks held"
    using assms f by (auto simp: unproposable_def attenuation_check_def split: if_splits)
qed

section \<open>A delegation\<close>

lemma mint_token_frame [simp]:
  "nodes (snd (mint_token E i ttl multi b)) = nodes b" "proposals (snd (mint_token E i ttl multi b)) = proposals b"
  by (simp_all add: mint_token_def split_beta Let_def ensure_key_def split: option.split)

lemma delegate_result:
  assumes "delegate E parent a h ttl multi b = (Inr (i, tok), c)"
  shows "\<exists>n m. fmlookup (nodes b) parent = Some m \<and> ancestry_live (nodes b) parent (fst (now E b)) \<and>
    attenuates (n_authority n) (n_authority m) \<and> nodes c = fmupd i n (nodes b) \<and> n_id n = i \<and> n_parent n = Some parent \<and>
    n_authority n = requested_authority parent (inherit_budget parent a b) b \<and> n_ttl n = ttl \<and> n_holder n = h \<and>
    n_state n = Live \<and> proposals c = proposals b"
proof -
  let ?a = "inherit_budget parent a b" and ?t = "fst (now E b)"
  let ?r = "requested_authority parent ?a b"
  let ?n = "derived_node E parent ?r h ttl b"
  have none: "attenuation_refusal parent ?r ?t b = None"
  proof (rule ccontr)
    assume "attenuation_refusal parent ?r ?t b \<noteq> None"
    then obtain d where "attenuation_refusal parent ?r ?t b = Some d" by blast
    then have "attenuate_core E parent ?a h ttl b = refuse E d (snd (now E b))"
      by (simp add: attenuate_core_result Let_def)
    then show False using assms by (simp add: delegate_def Let_def refuse_def split_beta)
  qed
  let ?c = "put_node ?n (snd (take_seq E (snd (take_id E (snd (now E b))))))"
  have core: "attenuate_core E parent ?a h ttl b = ((n_audit_seq ?n, Inr (n_id ?n)), ?c)"
    using none by (simp add: attenuate_core_result Let_def)
  have res: "i = n_id ?n" "nodes c = nodes ?c" "proposals c = proposals ?c"
    using assms core by (auto simp: delegate_def Let_def split_beta)
  obtain m where m: "fmlookup (nodes b) parent = Some m" "eff_walk MAX_WALK (nodes b) (Some parent) ?t = Some EffLive"
      "attenuates ?r (n_authority m)"
    using none attenuation_refusal_None by blast
  have "ancestry_live (nodes b) parent ?t" using m(2) by (rule eff_walk_live_sound)
  then show ?thesis
    using m(1,3) res by (intro exI[of _ ?n] exI[of _ m]) (simp add: derived_node_def Let_def put_node_def)
qed

lemma guard_check_mint_frame [simp]:
  "nodes (snd (guard_check_mint E a p ow b)) = nodes b" "proposals (snd (guard_check_mint E a p ow b)) = proposals b"
  by (simp_all add: guard_check_mint_def Let_def block_mint_def guard_gc_def split_beta split: option.split prod.split)

lemma live_authority_result:
  assumes "live_authority E i b = (Inr a, c)"
  shows "ancestry_live (nodes b) i (fst (now E b)) \<and> (\<exists>n. fmlookup (nodes b) i = Some n \<and> n_authority n = a) \<and>
    c = snd (now E b)"
  using assms eff_walk_live_sound
  by (auto simp: live_authority_def effective_state_def split_beta effective_state_inherited_def inspect_def
      split: option.splits eff_state.splits)

lemma guard_check_mint_clock: "clock_high_water b \<le> clock_high_water (snd (guard_check_mint E a p ow b))"
proof -
  have gc: "advances b (guard_gc E b)"
    using now_advances[of b E] by (simp add: guard_gc_def split_beta advances_def)
  then have "advances b (snd (log_op E x y z u v w (guard_gc E b)))" for x y z u v w
    by (rule advances_trans) (rule log_op_advances)
  then show ?thesis
    using gc log_op_advances[of b E]
    by (auto simp: guard_check_mint_def Let_def block_mint_def advances_def split: option.split prod.split)
qed

section \<open>Properties\<close>

text \<open>Where a proposal may be filed, what approving it mints is the least authority above what the node holds and
  what it asks (the node's budget kept): it is above both, it is canonical, and it is within whatever is above both.\<close>

theorem proposal_join_is_least:
  assumes "is_canonical held" "is_canonical asks" "unproposable held asks = None"
  shows "attenuates held (authority_join held asks) \<and> attenuates (with_budget_of held asks) (authority_join held asks) \<and>
    is_canonical (authority_join held asks) \<and>
    (\<forall>x. attenuates held x \<and> attenuates (with_budget_of held asks) x \<longrightarrow> attenuates (authority_join held asks) x)"
proof -
  note up = raw_join_upper[OF unproposable_None(2)[OF assms(3)]]
  note eq = raw_join_equiv[OF assms(1,2)]
  have "attenuates (authority_join held asks) (raw_join held asks)"
    unfolding authority_join_raw by (rule canonicalized_within)
  then show ?thesis
    using authority_order.le_trans[OF up(1) eq] authority_order.le_trans[OF up(2) eq] raw_join_least
      authority_order.le_trans authority_join_raw by (metis is_canonical_canonicalized)
qed

theorem proposal_join_is_least_witness:
  "attenuates (reader_grant ''data'') (authority_join (reader_grant ''data'') (reader_grant ''logs''))"
proof -
  have "is_canonical (reader_grant ''data'')" "is_canonical (reader_grant ''logs'')"
    "unproposable (reader_grant ''data'') (reader_grant ''logs'') = None" by code_simp+
  from proposal_join_is_least[OF this] show ?thesis by blast
qed

text \<open>C36: An approval that answers with a node needs a pending proposal of that name, its node's and the approver's whole
  ancestries live, and the join within the approver's own authority. It adds exactly that node, under the approver,
  holding the join (with the approver's budget where the proposer has none), and settles that proposal alone.\<close>

theorem approved_proposal_is_delegated:
  assumes "approve_proposal E pid parent owner ttl b = (Inr (Some (i, tok)), c)"
  shows "\<exists>p q m n. p \<in> set (ps_items (proposals b)) \<and> pending_proposal pid p \<and>
    fmlookup (nodes b) (pr_node p) = Some q \<and> ancestry_live (nodes b) (pr_node p) (fst (now E b)) \<and>
    fmlookup (nodes b) parent = Some m \<and> (\<exists>t. clock_high_water b \<le> t \<and> ancestry_live (nodes b) parent t) \<and>
    n_authority n = inherit_budget parent (authority_join (n_authority q) (pr_asks p)) b \<and>
    attenuates (n_authority n) (n_authority m) \<and> n_parent n = Some parent \<and> nodes c = fmupd i n (nodes b) \<and>
    ps_items (proposals c) = set_first_status (pending_proposal pid) (ApprovedAs i parent) (ps_items (proposals b))"
proof -
  obtain p where p: "find (pending_proposal pid) (ps_items (proposals b)) = Some p"
    using assms by (cases "find (pending_proposal pid) (ps_items (proposals b))") (auto simp: approve_proposal_def)
  obtain r b1 where r: "live_authority E (pr_node p) b = (r, b1)" by (cases "live_authority E (pr_node p) b")
  obtain held where held: "r = Inr held" using assms p r by (cases r) (auto simp: approve_proposal_def)
  let ?j = "authority_join held (pr_asks p)"
  obtain g b2 where g: "guard_check_mint E ?j parent owner b1 = (g, b2)" by (cases "guard_check_mint E ?j parent owner b1")
  have gi: "g = Inr ()" using assms p r held g by (cases g) (auto simp: approve_proposal_def Let_def)
  let ?h = "approval_holder pid (pr_node p)"
  obtain d b3 where d: "delegate E parent ?j ?h ttl False b2 = (d, b3)" by (cases "delegate E parent ?j ?h ttl False b2")
  have di: "d = Inr (i, tok)" using assms p r held g gi d by (cases d) (auto simp: approve_proposal_def Let_def)
  have c: "nodes c = nodes b3"
      "ps_items (proposals c) = set_first_status (pending_proposal pid) (ApprovedAs i parent) (ps_items (proposals b3))"
    using assms p r held g gi d di by (auto simp: approve_proposal_def Let_def)
  obtain q where q: "fmlookup (nodes b) (pr_node p) = Some q" "n_authority q = held"
      "ancestry_live (nodes b) (pr_node p) (fst (now E b))" "b1 = snd (now E b)"
    using live_authority_result r held by blast
  have b2: "nodes b2 = nodes b" "proposals b2 = proposals b"
    using guard_check_mint_frame[of E ?j parent owner b1] g q(4) by (metis snd_conv step_frame(1) step_frame(13))+
  obtain n m where n: "fmlookup (nodes b2) parent = Some m" "ancestry_live (nodes b2) parent (fst (now E b2))"
      "attenuates (n_authority n) (n_authority m)" "nodes b3 = fmupd i n (nodes b2)" "n_parent n = Some parent"
      "n_authority n = requested_authority parent (inherit_budget parent ?j b2) b2" "proposals b3 = proposals b2"
    using delegate_result d di by blast
  have "n_authority n = inherit_budget parent ?j b"
    using n(6) inherit_budget_frame[OF b2(1)]
    by (simp add: requested_authority_def canonicalized_id authority_join_raw)
  moreover have "clock_high_water b \<le> fst (now E b2)"
  proof -
    have "clock_high_water b1 \<le> clock_high_water b2"
      using guard_check_mint_clock[of b1 E ?j parent owner] g by simp
    then show ?thesis using now_ge[of b E] now_ge[of b2 E] q(4) by simp
  qed
  ultimately show ?thesis
    using find_SomeD[OF p] q n c b2
    by (intro exI[of _ p] exI[of _ q] exI[of _ m] exI[of _ n]) (auto intro: exI[of _ "fst (now E b2)"])
qed

text \<open>The child of the sample tree asks to read \<open>data/out\<close> beside \<open>data/in\<close>.\<close>

definition proposed_sample :: "sim_world broker" where
  "proposed_sample = snd (propose (sim_env plain_libs) (seq_id 1) (reader_grant ''data/out'')
     \<lparr>c_program = ''p'', c_call = ''fs.read'', c_at = ''1:1'', c_code = ''DL0904''\<rparr> tree_sample)"

text \<open>What an approval checks, without the minting of the token, so that it evaluates.\<close>

definition approval_ready :: "'w env \<Rightarrow> string \<Rightarrow> grant_id \<Rightarrow> string option \<Rightarrow> 'w broker \<Rightarrow> bool" where
  "approval_ready E pid parent owner b =
     (case find (pending_proposal pid) (ps_items (proposals b)) of
        None \<Rightarrow> False
      | Some p \<Rightarrow>
          (case live_authority E (pr_node p) b of
             (Inl _, b1) \<Rightarrow> False
           | (Inr held, b1) \<Rightarrow>
               (case guard_check_mint E (authority_join held (pr_asks p)) parent owner b1 of
                  (Inl _, b2) \<Rightarrow> False
                | (Inr _, b2) \<Rightarrow>
                    attenuation_refusal parent
                      (requested_authority parent (inherit_budget parent (authority_join held (pr_asks p)) b2) b2)
                      (fst (now E b2)) b2 = None)))"

lemma delegate_ready:
  assumes "attenuation_refusal parent (requested_authority parent (inherit_budget parent a b) b) (fst (now E b)) b = None"
  shows "\<exists>i tok c. delegate E parent a h ttl multi b = (Inr (i, tok), c)"
  using assms by (simp add: delegate_def attenuate_core_result Let_def split_beta)

lemma approval_ready_approves:
  assumes "approval_ready E pid parent owner b"
  shows "\<exists>i tok c. approve_proposal E pid parent owner ttl b = (Inr (Some (i, tok)), c)"
proof -
  obtain p where p: "find (pending_proposal pid) (ps_items (proposals b)) = Some p"
    using assms by (auto simp: approval_ready_def split: option.splits)
  obtain r b1 where r: "live_authority E (pr_node p) b = (r, b1)" by (cases "live_authority E (pr_node p) b")
  obtain held where held: "r = Inr held" using assms p r by (cases r) (auto simp: approval_ready_def)
  let ?j = "authority_join held (pr_asks p)"
  obtain g b2 where g: "guard_check_mint E ?j parent owner b1 = (g, b2)" by (cases "guard_check_mint E ?j parent owner b1")
  have gi: "g = Inr ()" using assms p r held g by (cases g) (auto simp: approval_ready_def)
  have "attenuation_refusal parent (requested_authority parent (inherit_budget parent ?j b2) b2) (fst (now E b2)) b2 = None"
    using assms p r held g gi by (simp add: approval_ready_def)
  then obtain i tok c where "delegate E parent ?j (approval_holder pid (pr_node p)) ttl False b2 = (Inr (i, tok), c)"
    using delegate_ready by blast
  then show ?thesis using p r held g gi by (simp add: approve_proposal_def Let_def)
qed

theorem approved_proposal_is_delegated_witness:
  "\<exists>i tok c m n. approve_proposal (sim_env plain_libs) (proposal_id 0) (seq_id 0) None None proposed_sample =
      (Inr (Some (i, tok)), c) \<and> fmlookup (nodes proposed_sample) (seq_id 0) = Some m \<and>
     attenuates (n_authority n) (n_authority m) \<and> nodes c = fmupd i n (nodes proposed_sample)"
proof -
  have "approval_ready (sim_env plain_libs) (proposal_id 0) (seq_id 0) None proposed_sample" by code_simp
  then obtain i tok c where r: "approve_proposal (sim_env plain_libs) (proposal_id 0) (seq_id 0) None None proposed_sample =
      (Inr (Some (i, tok)), c)" using approval_ready_approves by blast
  from approved_proposal_is_delegated[OF r] r show ?thesis by metis
qed

text \<open>A node with a budget may ask for what it already holds: a request never names a budget, so it is never within
  the node's own authority, and what approving it mints is what the node holds.\<close>

definition budgeted_reader :: authority where
  "budgeted_reader = (reader_grant ''data'')\<lparr>a_scopes := (a_scopes (reader_grant ''data''))\<lparr>budget :=
     Some \<lparr>memory_bytes = 4096, cpu_seconds = 1\<rparr>\<rparr>\<rparr>"

lemma budgeted_node_may_ask_for_what_it_holds:
  "unproposable budgeted_reader (reader_grant ''data'') = None"
  "authority_join budgeted_reader (reader_grant ''data'') = budgeted_reader"
  by code_simp+

end
