(* ===== verification/System.thy ===== *)
theory System imports Validate Deadman Secrets Cert_Claims Proposal begin

text \<open>
  The custody as a whole: a broker is set up, then its operations follow one another in any order. The step
  relation has a rule for every operation that changes the broker; it is labelled with the owner's code
  presented with the operation, where there is one. An operation whose record could not be written is undone
  by the daemon in the same request: those are steps too, the operation and its withdrawal as one.
\<close>

section \<open>Setting up\<close>

inductive started :: "'w broker \<Rightarrow> bool" where
  new: "started (with_sources w)"
| sink: "started b \<Longrightarrow> started (set_sink w b)"
| key: "started b \<Longrightarrow> started (set_key k b)"
| anchored: "started b \<Longrightarrow> started (require_anchored_roots anchor b)"
| policy: "started b \<Longrightarrow> started (with_guard_policy p poisoned b)"
| owner: "started b \<Longrightarrow> started (with_owner_code code b)"
| bypass: "started b \<Longrightarrow> started (with_bypass on b)"
| retired: "started b \<Longrightarrow> started (restore_revoked_adoption_fps fps b)"
| poisoned: "started b \<Longrightarrow> started (poison_adoptions b)"

lemma started_empty: "started b \<Longrightarrow> nodes b = fmempty \<and> adopted b = fmempty \<and> adopted_chain_fps b = fmempty"
  by (induction rule: started.induct)
    (simp_all add: with_sources_def set_sink_def set_key_def require_anchored_roots_def with_guard_policy_def
      with_owner_code_def with_bypass_def restore_revoked_adoption_fps_def poison_adoptions_def upd_guard_def)

section \<open>Steps\<close>

inductive step :: "'w env \<Rightarrow> string option \<Rightarrow> 'w broker \<Rightarrow> 'w broker \<Rightarrow> bool" for E where
  issue_root: "step E None b (snd (issue_root E h a ttl b))"
| attenuate: "step E None b (snd (attenuate E parent a h ttl b))"
| revoke: "step E None b (snd (revoke_saying E caller target why b))"
| withdraw: "step E None b (snd (withdraw_unrecorded i b))"
| delegate: "step E None b (snd (delegate E parent a h ttl multi b))"
| redeem: "step E None b (snd (redeem_undoable E tok peer b))"
| redeem_withdrawn: "redeem_undoable E tok peer b = (Inr (i, rd), c) \<Longrightarrow> step E None b (withdraw_unrecorded_redemption rd c)"
| rotate_key: "step E None b (snd (rotate_key E b))"
| rotate_key_to: "step E None b (rotate_key_to E k b)"
| adopt: "step E None b (snd (adopt E chain anchors vf h b))"
| renew: "step E None b (snd (renew_undoable E r anchors vf b))"
| renew_withdrawn: "renew_undoable E r anchors vf b = (Inr (t, rn), c) \<Longrightarrow> step E None b (withdraw_unrecorded_renewal rn c)"
| check_use: "step E None b (snd (check_use_by E i p arg url meth b))"
| refused_use: "step E None b (snd (record_use_refusal E i target kvs b))"
| break_glass: "step E None b (snd (record_break_glass_run E i ticket relax b))"
| snapshot: "step E None b (snd (take_snapshot E b))"
| look: "step E None b (snd (effective_state E i b))"
| policy_set: "step E ow b (snd (guard_policy_set E ow cl pat tier b))"
| policy_set_withdrawn: "guard_policy_set E ow cl pat tier b = (Inr u, c) \<Longrightarrow>
    step E ow b (withdraw_unrecorded_policy_edit (gs_policy (guard b)) c)"
| policy_unset: "step E ow b (snd (guard_policy_unset E ow cl pat b))"
| policy_unset_withdrawn: "guard_policy_unset E ow cl pat b = (Inr gone, c) \<Longrightarrow>
    step E ow b (withdraw_unrecorded_policy_edit (gs_policy (guard b)) c)"
| set_bypass: "step E ow b (snd (guard_set_bypass E ow on b))"
| set_bypass_withdrawn: "guard_set_bypass E ow on b = (Inr u, c) \<Longrightarrow> step E ow b (withdraw_unrecorded_bypass c)"
| guard_request: "step E None b (snd (guard_request_op E i sub why b))"
| guard_request_withdrawn: "step E None b (withdraw_unrecorded_request rid (snd (guard_request_op E i sub why b)))"
| guard_pending: "step E None b (snd (guard_pending E b))"
| guard_permits: "step E None b (snd (guard_permits E b))"
| guard_approve: "step E ow b (snd (guard_approve E ow rid life uses comment b))"
| guard_approve_withdrawn: "step E ow b (withdraw_unrecorded_approval rid pid (snd (guard_approve E ow rid life uses comment b)))"
| guard_deny: "step E ow b (snd (guard_deny E ow rid reply b))"
| permit_revoke: "step E ow b (snd (guard_permit_revoke E ow pid b))"
| check_mint: "step E ow b (snd (guard_check_mint E a parent ow b))"
| arm: "step E None b (snd (arm_deadman E i period at_ns b))"
| arm_withdrawn: "step E None b (withdraw_unrecorded_arming i (snd (arm_deadman E i period at_ns b)))"
| start_period: "step E None b (start_deadman_period E i at_ns b)"
| beat: "step E None b (snd (beat_deadman_arrived E i code arrived at_ns b))"
| heard: "step E None b (snd (deadman_heard E i code at_ns b))"
| disarm: "step E None b (snd (disarm_deadman_undoable E i code at_ns b))"
| disarm_withdrawn: "disarm_deadman_undoable E i code at_ns b = (Inr (seq, x), c) \<Longrightarrow> step E None b (rearm_unrecorded_disarm x c)"
| sweep: "step E None b (snd (fire_expired_deadmen E at_ns b))"
| expose: "step E None b (snd (expose E i name st sp b))"
| expose_guarded: "step E None b (snd (expose_guarded E i name st sp b))"
| send_secret: "step E None b (snd (send_secret_guarded E i name origin st sp b))"
| verify: "step E None b (snd (verify_guarded E i name other st sp b))"
| secret_map: "step E None b (snd (snd (secret_map E i name how st b)))"
| propose: "step E None b (snd (propose E i asks cl b))"
| propose_withdrawn: "step E None b (withdraw_unrecorded_proposal pid (snd (propose E i asks cl b)))"
| proposal_mints: "step E None b (snd (proposal_mints E pp b))"
| approve_proposal: "step E ow b (snd (approve_proposal E pid parent ow ttl b))"
| approval_withdrawn: "approve_proposal E pid parent ow ttl b = (Inr (Some (i, tok)), c) \<Longrightarrow>
    step E ow b (withdraw_unrecorded_proposal_approval pid i c)"
| reject_proposal: "step E None b (snd (reject_proposal E pid why b))"

inductive reachable :: "'w env \<Rightarrow> 'w broker \<Rightarrow> bool" for E where
  start: "started b \<Longrightarrow> reachable E b"
| next_step: "reachable E b \<Longrightarrow> step E ow b c \<Longrightarrow> reachable E c"

text \<open>A run from one state to another.\<close>

inductive runs :: "'w env \<Rightarrow> 'w broker \<Rightarrow> 'w broker \<Rightarrow> bool" for E where
  here: "runs E b b"
| onward: "runs E b c \<Longrightarrow> step E ow c d \<Longrightarrow> runs E b d"

lemma reachable_runs: "runs E b c \<Longrightarrow> reachable E b \<Longrightarrow> reachable E c"
  by (induction rule: runs.induct) (auto intro: next_step)

section \<open>Every step is sound\<close>

context fresh_world
begin

lemma withdraw_approval_sound: "sound_step seen b (withdraw_unrecorded_proposal_approval pid i b)"
  unfolding withdraw_unrecorded_proposal_approval_def by (auto intro!: contract_steps withdraw_sound)

lemma guard_edits_sound:
  "sound_step seen b (snd (guard_policy_set E ow cl pat tier b))"
  "sound_step seen b (snd (guard_policy_unset E ow cl pat b))"
  "sound_step seen b (snd (guard_set_bypass E ow on b))"
  "sound_step seen b (withdraw_unrecorded_bypass b)"
  "sound_step seen b (withdraw_unrecorded_policy_edit before b)"
  by (rule still_sound, rule guard_edits_still)+

lemma step_sound: "step E ow b c \<Longrightarrow> sound_step seen b c"
proof (induction rule: step.induct)
  case (redeem_withdrawn tok peer b i rd c)
  have "sound_step seen b c" using sound.redeem_undoable_step[OF sound_step_refl, of b tok peer] redeem_withdrawn by simp
  then show ?case by (rule sound.withdraw_redemption_step)
next
  case (renew_withdrawn r anchors vf b t rn c)
  have "sound_step seen b c" using renew_undoable_sound[of b r anchors vf] renew_withdrawn by simp
  then show ?case by (rule sound_step_trans) (rule withdraw_renewal_sound)
next
  case (disarm_withdrawn i code at_ns b seq x c)
  have "sound_step seen b c"
    using sound.disarm_deadman_undoable_step[OF sound_step_refl, of b i code at_ns] disarm_withdrawn by simp
  then show ?case by (rule sound.rearm_step)
next
  case (approval_withdrawn pid parent ow ttl b i tok c)
  have "sound_step seen b c"
    using sound.approve_proposal_step[OF sound_step_refl, of b pid parent ow ttl] approval_withdrawn by simp
  then show ?case by (rule sound_step_trans) (rule withdraw_approval_sound)
next
  case (policy_set_withdrawn ow cl pat tier b u c)
  have "sound_step seen b c" using guard_edits_sound(1)[of b ow cl pat tier] policy_set_withdrawn by simp
  then show ?case by (rule sound_step_trans) (rule guard_edits_sound)
next
  case (policy_unset_withdrawn ow cl pat b gone c)
  have "sound_step seen b c" using guard_edits_sound(2)[of b ow cl pat] policy_unset_withdrawn by simp
  then show ?case by (rule sound_step_trans) (rule guard_edits_sound)
next
  case (set_bypass_withdrawn ow on b u c)
  have "sound_step seen b c" using guard_edits_sound(3)[of b ow on] set_bypass_withdrawn by simp
  then show ?case by (rule sound_step_trans) (rule guard_edits_sound)
qed (auto simp: withdraw_unrecorded_arming_def intro!: issue_root_sound withdraw_sound adopt_sound renew_undoable_sound
      guard_edits_sound contract_steps)

lemma reachable_tree_inv: "reachable E b \<Longrightarrow> tree_inv seen b"
proof (induction rule: reachable.induct)
  case (start b)
  then show ?case using started_empty[OF start] by (simp add: tree_inv_def)
next
  case (next_step b ow c)
  then show ?case using step_sound by (simp add: sound_step_def)
qed

lemma runs_evolve: "runs E b c \<Longrightarrow> tree_inv seen b \<Longrightarrow> tree_inv seen c \<and> evolves seen b c"
proof (induction rule: runs.induct)
  case (onward b c ow d)
  have "sound_step seen c d" using onward.hyps(2) by (rule step_sound)
  then show ?case using onward evolves_trans unfolding sound_step_def by blast
qed (auto intro: evolvesI)

end


section \<open>The books of adopted chains\<close>

text \<open>What every operation but the edits of the adoption books keeps of them and of the tree's roots.\<close>

definition roots_kept :: "'w broker \<Rightarrow> 'w broker \<Rightarrow> bool" where
  "roots_kept b c \<longleftrightarrow>
     (\<forall>i m. fmlookup (nodes c) i = Some m \<longrightarrow>
        (case fmlookup (nodes b) i of
           None \<Rightarrow> n_parent m \<noteq> None
         | Some n \<Rightarrow> n_parent m = n_parent n \<and> n_ttl m = n_ttl n))"

definition dead_retired :: "'w broker \<Rightarrow> 'w broker \<Rightarrow> bool" where
  "dead_retired b c \<longleftrightarrow>
     (\<forall>i m fps. fmlookup (nodes c) i = Some m \<longrightarrow> n_state m \<noteq> Live \<longrightarrow>
        fmlookup (adopted_chain_fps b) i = Some fps \<longrightarrow>
        set fps \<subseteq> fset (revoked_adoption_fps c) \<or> (\<exists>n. fmlookup (nodes b) i = Some n \<and> n_state n \<noteq> Live))"

definition quiet :: "'w broker \<Rightarrow> 'w broker \<Rightarrow> bool" where
  "quiet b c \<longleftrightarrow>
     strict_anchor c = strict_anchor b \<and> adopted c = adopted b \<and> adopted_chain_fps c = adopted_chain_fps b \<and>
     revoked_adoption_fps b |\<subseteq>| revoked_adoption_fps c \<and> fmdom (nodes b) |\<subseteq>| fmdom (nodes c) \<and>
     roots_kept b c \<and> dead_retired b c"

lemma roots_kept_trans:
  assumes "roots_kept a b" "roots_kept b c" "fmdom (nodes a) |\<subseteq>| fmdom (nodes b)"
  shows "roots_kept a c"
  unfolding roots_kept_def
proof (intro allI impI)
  fix i m assume m: "fmlookup (nodes c) i = Some m"
  show "case fmlookup (nodes a) i of None \<Rightarrow> n_parent m \<noteq> None | Some n \<Rightarrow> n_parent m = n_parent n \<and> n_ttl m = n_ttl n"
  proof (cases "fmlookup (nodes b) i")
    case None
    then have "fmlookup (nodes a) i = None" using assms(3) by (metis fmdomI fmdom_notD fmdom_notI fsubsetD)
    then show ?thesis using None assms(2) m unfolding roots_kept_def by force
  next
    case (Some k)
    then have k: "n_parent m = n_parent k" "n_ttl m = n_ttl k" using assms(2) m unfolding roots_kept_def by force+
    have "case fmlookup (nodes a) i of None \<Rightarrow> n_parent k \<noteq> None | Some n \<Rightarrow> n_parent k = n_parent n \<and> n_ttl k = n_ttl n"
      using assms(1) Some unfolding roots_kept_def by blast
    then show ?thesis unfolding k .
  qed
qed

lemma dead_retired_trans:
  assumes "dead_retired a b" "dead_retired b c" "adopted_chain_fps b = adopted_chain_fps a"
    "revoked_adoption_fps b |\<subseteq>| revoked_adoption_fps c"
  shows "dead_retired a c"
  unfolding dead_retired_def
proof (intro allI impI)
  fix i m fps
  assume m: "fmlookup (nodes c) i = Some m" "n_state m \<noteq> Live" "fmlookup (adopted_chain_fps a) i = Some fps"
  then have f: "fmlookup (adopted_chain_fps b) i = Some fps" using assms(3) by simp
  consider "set fps \<subseteq> fset (revoked_adoption_fps c)" | k where "fmlookup (nodes b) i = Some k" "n_state k \<noteq> Live"
    using assms(2) m(1,2) f unfolding dead_retired_def by blast
  then show "set fps \<subseteq> fset (revoked_adoption_fps c) \<or> (\<exists>n. fmlookup (nodes a) i = Some n \<and> n_state n \<noteq> Live)"
  proof cases
    case 2
    then show ?thesis using assms(1,4) m(3) unfolding dead_retired_def by (meson less_eq_fset.rep_eq order_trans)
  qed simp
qed

lemma quiet_trans: "quiet a b \<Longrightarrow> quiet b c \<Longrightarrow> quiet a c"
  unfolding quiet_def using roots_kept_trans dead_retired_trans by (metis order_trans)

lemma quiet_same:
  assumes "nodes c = nodes b" "strict_anchor c = strict_anchor b" "adopted c = adopted b"
    "adopted_chain_fps c = adopted_chain_fps b" "revoked_adoption_fps c = revoked_adoption_fps b"
  shows "quiet b c"
  using assms by (auto simp: quiet_def roots_kept_def dead_retired_def split: option.split)

lemma mark_all_live: "i \<in> set is \<Longrightarrow> is_live_node ns i \<Longrightarrow> i \<in> set (fst (mark_all q is ns))"
proof (induction "is" arbitrary: ns)
  case (Cons j "is")
  show ?case
  proof (cases "i = j")
    case False
    then have "is_live_node (mark_revoked q j ns) i" using Cons.prems(2)
      by (simp add: is_live_node_def mark_revoked_lookup)
    then show ?thesis using Cons False by (simp add: split_beta)
  qed (use Cons in \<open>simp add: split_beta\<close>)
qed simp

lemma revoke_subtree_quiet: "quiet b (snd (revoke_subtree q xs b))"
proof -
  let ?c = "snd (revoke_subtree q xs b)"
  have lk: "fmlookup (nodes ?c) i = (if i \<in> set xs then map_option (revoked_at q) (fmlookup (nodes b) i) else fmlookup (nodes b) i)"
    for i by (simp add: mark_all_lookup)
  have dom: "fmdom (nodes b) |\<subseteq>| fmdom (nodes ?c)" using lk by (auto simp: fmlookup_dom_iff)
  have fps: "revoked_adoption_fps ?c = revoked_adoption_fps b |\<union>|
      fset_of_list (concat (map (\<lambda>i. case fmlookup (adopted_chain_fps b) i of Some fps \<Rightarrow> fps | None \<Rightarrow> [])
        (sort (fst (mark_all q xs (nodes b))))))"
    by (simp add: revoke_subtree_def split_beta Let_def)
  have "roots_kept b ?c" unfolding roots_kept_def lk by (auto split: option.split)
  moreover have "dead_retired b ?c"
    unfolding dead_retired_def
  proof (intro allI impI)
    fix i m fs assume m: "fmlookup (nodes ?c) i = Some m" "n_state m \<noteq> Live" "fmlookup (adopted_chain_fps b) i = Some fs"
    then obtain n where n: "fmlookup (nodes b) i = Some n" "m = n \<or> i \<in> set xs"
      unfolding lk by (cases "fmlookup (nodes b) i"; cases "i \<in> set xs"; auto)
    show "set fs \<subseteq> fset (revoked_adoption_fps ?c) \<or> (\<exists>n. fmlookup (nodes b) i = Some n \<and> n_state n \<noteq> Live)"
    proof (cases "n_state n = Live")
      case True
      then have "i \<in> set xs" "is_live_node (nodes b) i" using n m(2) by (auto simp: is_live_node_def)
      then have "i \<in> set (fst (mark_all q xs (nodes b)))" by (rule mark_all_live)
      then have "set fs \<subseteq> fset (revoked_adoption_fps ?c)"
        unfolding fps using m(3) by (auto simp: fset_of_list.rep_eq intro!: bexI[of _ i])
      then show ?thesis by blast
    qed (use n in blast)
  qed
  ultimately show ?thesis using dom by (simp add: quiet_def fps)
qed

lemma revoke_core_quiet: "quiet b (snd (revoke_core E caller target b))"
proof -
  have r: "quiet b (snd (refuse E d b))" for d :: denial
    by (rule quiet_same) (simp_all add: refuse_def split_beta)
  have "quiet b (bump_epoch (snd (take_seq E b)))" by (rule quiet_same) simp_all
  then have "quiet b (snd (revoke_subtree q xs (bump_epoch (snd (take_seq E b)))))" for q xs
    using quiet_trans revoke_subtree_quiet by blast
  then show ?thesis unfolding revoke_core_def Let_def split_beta using r by (auto split: option.split)
qed

lemma revoke_saying_quiet: "quiet b (snd (revoke_saying E caller target why b))"
proof -
  have "\<exists>q t p d. snd (revoke_saying E caller target why b) =
      record_op E q ''revoke'' t (Some target) p d None (snd (revoke_core E caller target b))"
    unfolding revoke_saying_def by (auto simp: split_beta)
  moreover have "quiet c (record_op E q w x y z d e c)" for c q w x y z d e by (rule quiet_same) simp_all
  ultimately show ?thesis using quiet_trans[OF revoke_core_quiet] by metis
qed

lemma holder_quiet: "quiet b (set_holder_peer i peer b)"
proof (cases "fmlookup (nodes b) i")
  case (Some n)
  then show ?thesis by (auto simp: set_holder_peer_def quiet_def roots_kept_def dead_retired_def split: option.split)
qed (simp add: set_holder_peer_def quiet_same)


text \<open>A step in a world of fresh identifiers, from a well-formed tree, keeps the books too.\<close>

definition lawful :: "('w \<Rightarrow> grant_id \<Rightarrow> bool) \<Rightarrow> 'w broker \<Rightarrow> 'w broker \<Rightarrow> bool" where
  "lawful seen b c \<longleftrightarrow> sound_step seen b c \<and> (tree_inv seen b \<longrightarrow> quiet b c)"

lemma lawful_trans: "lawful seen a b \<Longrightarrow> lawful seen b c \<Longrightarrow> lawful seen a c"
  unfolding lawful_def using sound_step_trans quiet_trans by (metis sound_step_def)

lemma still_lawful:
  "still seen b c \<Longrightarrow> strict_anchor c = strict_anchor b \<Longrightarrow> adopted c = adopted b \<Longrightarrow>
   adopted_chain_fps c = adopted_chain_fps b \<Longrightarrow> revoked_adoption_fps c = revoked_adoption_fps b \<Longrightarrow> lawful seen b c"
  unfolding lawful_def by (simp add: still_sound quiet_same still_def)

lemma put_node_dom: "fmdom (nodes (put_node n b)) = finsert (n_id n) (fmdom (nodes b))"
  by (simp add: put_node_def)

context fresh_world
begin

lemma attenuate_core_quiet:
  assumes inv: "tree_inv seen b"
  shows "quiet b (snd (attenuate_core E parent a0 h ttl b))"
proof (cases "attenuation_refusal parent (requested_authority parent a0 b) (fst (now E b)) b")
  case (Some d)
  then show ?thesis
    by (intro quiet_same) (simp_all add: attenuate_core_result Let_def refuse_def split_beta)
next
  case None
  let ?b1 = "snd (now E b)"
  let ?n = "derived_node E parent (requested_authority parent a0 b) h ttl b"
  let ?b3 = "snd (take_seq E (snd (take_id E ?b1)))"
  have c: "snd (attenuate_core E parent a0 h ttl b) = put_node ?n ?b3"
    using None by (simp add: attenuate_core_result Let_def)
  have id: "n_id ?n = fst (take_id E ?b1)" "n_parent ?n = Some parent" "n_state ?n = Live"
    by (simp_all add: derived_node_def Let_def)
  have "\<not> seen (world b) (n_id ?n)"
    using take_id_fresh(1)[of ?b1] now_still[of b] id(1) by (auto simp: still_def moves_def)
  then have "fmlookup (nodes b) (n_id ?n) = None"
    using tree_inv_seen[OF inv] by (cases "fmlookup (nodes b) (n_id ?n)") auto
  then show ?thesis
    unfolding c using id(2,3) by (auto simp: quiet_def roots_kept_def dead_retired_def put_node_dom split: option.split)
qed

end

sublocale fresh_world \<subseteq> books: custody_contract E "lawful seen"
proof unfold_locales
  show "lawful seen a c" if "lawful seen a b" "lawful seen b c" for a b c using that by (rule lawful_trans)
  show "lawful seen b (snd (attenuate_core E parent auth h ttl b))" for b parent auth h ttl
    by (simp add: lawful_def attenuate_core_sound attenuate_core_quiet)
  show "lawful seen b (snd (revoke_saying E caller target why b))" for b caller target why
    by (simp add: lawful_def revoke_saying_sound revoke_saying_quiet)
  show "lawful seen b (set_holder_peer i peer b)" for b i peer
    by (simp add: lawful_def set_holder_peer_sound holder_quiet)
qed (simp_all add: still_lawful same_tree_still)

section \<open>The invariant of the adoption books\<close>

definition roots_adopted :: "'w broker \<Rightarrow> bool" where
  "roots_adopted b \<longleftrightarrow> (\<forall>i n. fmlookup (nodes b) i = Some n \<longrightarrow> n_parent n = None \<longrightarrow>
     (\<exists>fp w. fmlookup (adopted b) fp = Some (i, w)))"

text \<open>Adopted nodes are in the tree, each under one certificate and within that certificate's window; the chains
  kept are those of nodes in the tree, and those of the dead ones are retired; under a pinned anchor every root
  is adopted.\<close>

definition books_ok :: "'w broker \<Rightarrow> bool" where
  "books_ok b \<longleftrightarrow>
     (\<forall>fp i w. fmlookup (adopted b) fp = Some (i, w) \<longrightarrow> i |\<in>| fmdom (nodes b)) \<and>
     (\<forall>fp fp' i w w'. fmlookup (adopted b) fp = Some (i, w) \<longrightarrow> fmlookup (adopted b) fp' = Some (i, w') \<longrightarrow> fp = fp') \<and>
     (\<forall>fp i w n. fmlookup (adopted b) fp = Some (i, w) \<longrightarrow> fmlookup (nodes b) i = Some n \<longrightarrow>
        n_parent n = None \<and> (\<exists>x t. w = Some x \<and> n_ttl n = Some t \<and> t \<le> x)) \<and>
     fmdom (adopted_chain_fps b) |\<subseteq>| fmdom (nodes b) \<and>
     (\<forall>i fps n. fmlookup (adopted_chain_fps b) i = Some fps \<longrightarrow> fmlookup (nodes b) i = Some n \<longrightarrow> n_state n \<noteq> Live \<longrightarrow>
        set fps \<subseteq> fset (revoked_adoption_fps b)) \<and>
     (strict_anchor b \<noteq> None \<longrightarrow> roots_adopted b)"

lemma books_quiet:
  assumes ok: "books_ok b" and q: "quiet b c"
  shows "books_ok c"
proof -
  have e: "strict_anchor c = strict_anchor b" "adopted c = adopted b" "adopted_chain_fps c = adopted_chain_fps b"
    "revoked_adoption_fps b |\<subseteq>| revoked_adoption_fps c" "fmdom (nodes b) |\<subseteq>| fmdom (nodes c)"
    "roots_kept b c" "dead_retired b c"
    using q unfolding quiet_def by blast+
  have old: "\<exists>n. fmlookup (nodes b) i = Some n \<and> n_parent m = n_parent n \<and> n_ttl m = n_ttl n"
    if d: "i |\<in>| fmdom (nodes b)" "fmlookup (nodes c) i = Some m" for i m
  proof -
    obtain n where "fmlookup (nodes b) i = Some n" using d(1) by (auto simp: fmlookup_dom_iff)
    then show ?thesis using e(6) d(2) unfolding roots_kept_def by force
  qed
  have "roots_adopted b \<Longrightarrow> roots_adopted c"
    unfolding roots_adopted_def e(2)
  proof (intro allI impI)
    fix i m
    assume r: "\<forall>i n. fmlookup (nodes b) i = Some n \<longrightarrow> n_parent n = None \<longrightarrow> (\<exists>fp w. fmlookup (adopted b) fp = Some (i, w))"
      and m: "fmlookup (nodes c) i = Some m" "n_parent m = None"
    then show "\<exists>fp w. fmlookup (adopted b) fp = Some (i, w)"
      using e(6) unfolding roots_kept_def by (cases "fmlookup (nodes b) i") force+
  qed
  moreover have "n_parent m = None \<and> (\<exists>x t. w = Some x \<and> n_ttl m = Some t \<and> t \<le> x)"
    if a: "fmlookup (adopted c) fp = Some (i, w)" "fmlookup (nodes c) i = Some m" for fp i w m
  proof -
    have "i |\<in>| fmdom (nodes b)" using ok a(1) unfolding e(2) books_ok_def by blast
    then obtain n where n: "fmlookup (nodes b) i = Some n" "n_parent m = n_parent n" "n_ttl m = n_ttl n"
      using old a(2) by blast
    then show ?thesis using ok a(1) unfolding e(2) books_ok_def by metis
  qed
  moreover have "set fps \<subseteq> fset (revoked_adoption_fps c)"
    if a: "fmlookup (adopted_chain_fps c) i = Some fps" "fmlookup (nodes c) i = Some m" "n_state m \<noteq> Live" for i fps m
  proof -
    have f: "fmlookup (adopted_chain_fps b) i = Some fps" using a(1) e(3) by simp
    consider "set fps \<subseteq> fset (revoked_adoption_fps c)" | n where "fmlookup (nodes b) i = Some n" "n_state n \<noteq> Live"
      using e(7) a(2,3) f unfolding dead_retired_def by blast
    then show ?thesis
    proof cases
      case 2
      then have "set fps \<subseteq> fset (revoked_adoption_fps b)" using ok f unfolding books_ok_def by blast
      then show ?thesis using e(4) by (simp add: less_eq_fset.rep_eq)
    qed
  qed
  moreover have "fmdom (adopted_chain_fps c) |\<subseteq>| fmdom (nodes c)" using ok e(3,5) unfolding books_ok_def by (metis order_trans)
  moreover have "\<forall>fp i w. fmlookup (adopted c) fp = Some (i, w) \<longrightarrow> i |\<in>| fmdom (nodes c)"
    using ok e(5) unfolding books_ok_def e(2) by (metis fsubsetD)
  moreover have "\<forall>fp fp' i w w'. fmlookup (adopted c) fp = Some (i, w) \<longrightarrow> fmlookup (adopted c) fp' = Some (i, w') \<longrightarrow> fp = fp'"
    using ok unfolding books_ok_def e(2) by blast
  moreover have "strict_anchor c \<noteq> None \<Longrightarrow> roots_adopted b" using ok e(1) unfolding books_ok_def by metis
  ultimately show ?thesis unfolding books_ok_def by blast
qed

lemma books_new_root:
  assumes ok: "books_ok b" and i: "fmlookup (nodes b) i = None" and n: "n_parent n = None" "n_state n = Live"
    and c: "nodes c = fmupd i n (nodes b)" "adopted c = adopted b" "adopted_chain_fps c = adopted_chain_fps b"
      "revoked_adoption_fps c = revoked_adoption_fps b" "strict_anchor c = None"
  shows "books_ok c"
proof -
  have nd: "i |\<notin>| fmdom (nodes b)" using i by (simp add: fmdom_notI)
  have a: "fmlookup (adopted b) fp = Some (j, w) \<Longrightarrow> j \<noteq> i" "fmlookup (adopted_chain_fps b) j = Some fps \<Longrightarrow> j \<noteq> i"
    for fp j w fps using ok nd unfolding books_ok_def by (metis, metis fmdomI fsubsetD)
  have dom: "fmdom (nodes b) |\<subseteq>| fmdom (nodes c)" by (auto simp: c(1))
  have lk: "fmlookup (nodes c) j = Some m \<Longrightarrow> j \<noteq> i \<Longrightarrow> fmlookup (nodes b) j = Some m" for j m by (simp add: c(1))
  show ?thesis
    unfolding books_ok_def c(2-5)
    using ok a lk dom unfolding books_ok_def by (intro conjI allI impI) (blast | meson fsubsetD order_trans)+
qed

lemma books_adopted_root:
  assumes ok: "books_ok b" and i: "fmlookup (nodes b) i = None" and f: "fmlookup (adopted b) fp = None"
    and n: "n_parent n = None" "n_state n = Live" "n_ttl n = Some t" "t \<le> w"
    and c: "nodes c = fmupd i n (nodes b)" "adopted c = fmupd fp (i, Some w) (adopted b)"
      "adopted_chain_fps c = fmupd i fps (adopted_chain_fps b)" "revoked_adoption_fps c = revoked_adoption_fps b"
      "strict_anchor c = strict_anchor b"
  shows "books_ok c"
proof -
  have nd: "i |\<notin>| fmdom (nodes b)" using i by (simp add: fmdom_notI)
  have a: "fmlookup (adopted b) g = Some (j, x) \<Longrightarrow> j \<noteq> i" "fmlookup (adopted_chain_fps b) j = Some fs \<Longrightarrow> j \<noteq> i"
    for g j x fs using ok nd unfolding books_ok_def by (metis, metis fmdomI fsubsetD)
  have lk: "fmlookup (nodes c) j = (if j = i then Some n else fmlookup (nodes b) j)" for j by (simp add: c(1))
  have al: "fmlookup (adopted c) g = Some (j, x) \<longleftrightarrow> g = fp \<and> j = i \<and> x = Some w \<or> g \<noteq> fp \<and> fmlookup (adopted b) g = Some (j, x)"
    for g j x by (auto simp: c(2))
  have dom: "fmdom (nodes c) = finsert i (fmdom (nodes b))" by (simp add: c(1))
  have roots: "roots_adopted c" if r: "roots_adopted b"
    unfolding roots_adopted_def
  proof (intro allI impI)
    fix j m assume m: "fmlookup (nodes c) j = Some m" "n_parent m = None"
    show "\<exists>g x. fmlookup (adopted c) g = Some (j, x)"
    proof (cases "j = i")
      case False
      then have "fmlookup (nodes b) j = Some m" using m(1) lk[of j] by simp
      then obtain g x where g: "fmlookup (adopted b) g = Some (j, x)"
        using r m(2) unfolding roots_adopted_def by blast
      then have "g \<noteq> fp" using f by auto
      then show ?thesis using g al by blast
    qed (use al in blast)
  qed
  show ?thesis
    unfolding books_ok_def
  proof (intro conjI allI impI)
    fix g j x assume "fmlookup (adopted c) g = Some (j, x)"
    then show "j |\<in>| fmdom (nodes c)" using al ok unfolding dom books_ok_def by blast
  next
    fix g g' j x x' assume "fmlookup (adopted c) g = Some (j, x)" "fmlookup (adopted c) g' = Some (j, x')"
    then show "g = g'" using al a(1) ok unfolding books_ok_def by metis
  next
    fix g j x m assume m: "fmlookup (adopted c) g = Some (j, x)" "fmlookup (nodes c) j = Some m"
    then show "n_parent m = None" using al lk n a(1) ok unfolding books_ok_def by (metis option.inject)
    show "\<exists>y s. x = Some y \<and> n_ttl m = Some s \<and> s \<le> y"
      using m al lk n a(1) ok unfolding books_ok_def by (metis option.inject)
  next
    show "fmdom (adopted_chain_fps c) |\<subseteq>| fmdom (nodes c)" using ok unfolding dom c(3) books_ok_def by auto
  next
    fix j fs m assume m: "fmlookup (adopted_chain_fps c) j = Some fs" "fmlookup (nodes c) j = Some m" "n_state m \<noteq> Live"
    then have "j \<noteq> i" using lk n(2) by auto
    then show "set fs \<subseteq> fset (revoked_adoption_fps c)" using m lk c(3,4) ok unfolding books_ok_def by auto
  next
    assume "strict_anchor c \<noteq> None"
    then show "roots_adopted c" using roots ok c(5) unfolding books_ok_def by simp
  qed
qed

lemma books_withdraw:
  assumes ok: "books_ok b"
  shows "books_ok (snd (withdraw_unrecorded i b))"
proof (cases "fBex (fmran (nodes b)) (\<lambda>n. n_parent n = Some i)")
  case False
  define c where "c = snd (withdraw_unrecorded i b)"
  have lk: "fmlookup (nodes c) j = (if j = i then None else fmlookup (nodes b) j)" for j
    using False by (simp add: c_def withdraw_unrecorded_def)
  have al: "fmlookup (adopted c) g = Some (j, x) \<longleftrightarrow> fmlookup (adopted b) g = Some (j, x) \<and> j \<noteq> i" for g j x
    using False by (auto simp: c_def withdraw_unrecorded_def)
  have cl: "fmlookup (adopted_chain_fps c) j = (if j = i then None else fmlookup (adopted_chain_fps b) j)" for j
    using False by (simp add: c_def withdraw_unrecorded_def)
  have rest: "revoked_adoption_fps c = revoked_adoption_fps b" "strict_anchor c = strict_anchor b"
    using False by (simp_all add: c_def withdraw_unrecorded_def)
  have dom: "j |\<in>| fmdom (nodes c) \<longleftrightarrow> j |\<in>| fmdom (nodes b) \<and> j \<noteq> i" for j by (auto simp: fmlookup_dom_iff lk)
  have cd: "j |\<in>| fmdom (adopted_chain_fps c) \<longleftrightarrow> j |\<in>| fmdom (adopted_chain_fps b) \<and> j \<noteq> i" for j
    by (auto simp: fmlookup_dom_iff cl)
  have "roots_adopted b \<Longrightarrow> roots_adopted c" unfolding roots_adopted_def al lk by auto
  moreover have "fmdom (adopted_chain_fps c) |\<subseteq>| fmdom (nodes c)"
    using ok dom cd unfolding books_ok_def by blast
  ultimately have "books_ok c"
    using ok unfolding books_ok_def al dom rest by (auto simp: lk cl split: if_splits)
  then show ?thesis by (simp add: c_def)
qed (simp add: withdraw_unrecorded_def ok)

lemma books_renew:
  assumes ok: "books_ok b" and r: "renew_undoable E r anchors vf b = (Inr (t, rn), c)"
  shows "books_ok c"
proof -
  obtain i w n where i: "fmlookup (adopted b) (rc_certificate r) = Some (i, w)" "fmlookup (nodes b) i = Some n"
      "nodes c = fmupd i (n\<lparr>n_ttl := Some t\<rparr>) (nodes b)"
      "n_ttl n = Some t \<or> t \<le> rc_not_after r \<and> (\<forall>x. w = Some x \<longrightarrow> t \<le> x)"
    using renew_result[OF r] by blast
  have e: "adopted c = adopted b" "adopted_chain_fps c = adopted_chain_fps b" "revoked_adoption_fps c = revoked_adoption_fps b"
    "strict_anchor c = strict_anchor b"
    using r by (auto simp: renew_undoable_def extend_ttl_def Let_def split_beta split: option.splits if_splits)
  obtain x s where w: "w = Some x" "n_ttl n = Some s" "s \<le> x" "n_parent n = None"
    using ok i(1,2) unfolding books_ok_def by metis
  have t: "t \<le> x" using i(4) w by auto
  have lk: "fmlookup (nodes c) j = (if j = i then Some (n\<lparr>n_ttl := Some t\<rparr>) else fmlookup (nodes b) j)" for j
    by (simp add: i(3))
  have dom: "fmdom (nodes c) = fmdom (nodes b)" using i(2) by (auto simp: i(3) fmdomI)
  have one: "fmlookup (adopted b) fp = Some (i, y) \<Longrightarrow> y = Some x" for fp y
    using ok i(1) w(1) unfolding books_ok_def by (metis option.inject prod.inject)
  have "roots_adopted b \<Longrightarrow> roots_adopted c" unfolding roots_adopted_def e(1) lk using i(1) by auto
  then show ?thesis
    using ok unfolding books_ok_def e dom using t w one i(2) by (auto simp: lk)
qed

lemma guard_edits_quiet:
  "quiet b (snd (guard_policy_set E ow cl pat tier b))"
  "quiet b (snd (guard_policy_unset E ow cl pat b))"
  "quiet b (snd (guard_set_bypass E ow on b))"
  "quiet b (withdraw_unrecorded_bypass b)"
  "quiet b (withdraw_unrecorded_policy_edit before b)"
  unfolding guard_policy_set_def guard_policy_unset_def guard_set_bypass_def withdraw_unrecorded_bypass_def
    withdraw_unrecorded_policy_edit_def Let_def split_beta
  by (rule quiet_same; simp split: option.split)+

lemma lawful_books: "lawful seen b c \<Longrightarrow> tree_inv seen b \<Longrightarrow> books_ok b \<Longrightarrow> books_ok c"
  unfolding lawful_def using books_quiet by blast

context fresh_world
begin

lemma fresh_root: "tree_inv seen b \<Longrightarrow> still seen b d \<Longrightarrow> fmlookup (nodes b) (fst (take_id E d)) = None"
  using take_id_fresh(1)[of d] tree_inv_seen[of seen b]
  by (cases "fmlookup (nodes b) (fst (take_id E d))") (auto simp: still_def moves_def)

lemma issue_root_books:
  assumes inv: "tree_inv seen b" and ok: "books_ok b"
  shows "books_ok (snd (issue_root E h a ttl b))"
proof (cases "strict_anchor b")
  case None
  obtain i q t c where c: "issue E h a ttl b = (i, c)"
     "nodes c = fmupd i \<lparr>n_id = i, n_parent = None, n_holder = h, n_authority = canonicalized a, n_ttl = ttl,
                       n_state = Live, n_created = t, n_audit_seq = q\<rparr> (nodes b)"
     "adopted c = adopted b" "adopted_chain_fps c = adopted_chain_fps b" "revoked_adoption_fps c = revoked_adoption_fps b"
     "strict_anchor c = strict_anchor b"
    using issue_result[of E h a ttl b] by blast
  have "i = fst (take_id E b)" using c(1) issue_id[of E h a ttl b] by simp
  then have i: "fmlookup (nodes b) i = None" using fresh_root[OF inv still_refl] by simp
  have "books_ok c" by (rule books_new_root[OF ok i]) (use c None in simp_all)
  then show ?thesis using None c(1) by (simp add: issue_root_def)
qed (simp add: issue_root_def ok)

lemma adopt_books:
  assumes inv: "tree_inv seen b" and ok: "books_ok b"
  shows "books_ok (snd (adopt E chain anchors vf h b))"
proof (cases "adopt E chain anchors vf h b")
  case (Pair r c)
  show ?thesis
  proof (cases r)
    case (Inl d)
    have "strict_anchor c = strict_anchor b \<and> adopted c = adopted b \<and> adopted_chain_fps c = adopted_chain_fps b \<and>
        revoked_adoption_fps c = revoked_adoption_fps b \<and> nodes c = nodes b"
      using Pair Inl
      by (auto simp: adopt_def split_beta Let_def refuse_adoption_def split: if_splits sum.splits)
    then have "quiet b c" by (intro quiet_same) simp_all
    then show ?thesis using books_quiet[OF ok] Pair by simp
  next
    case (Inr i)
    obtain a w ttl q t where r: "fmlookup (adopted b) (fingerprint (env_libs E) (last chain)) = None"
        "adoption_ttl (Some w) (chain_uplink chain) (fst (now E b)) = Some ttl"
        "nodes c = fmupd i \<lparr>n_id = i, n_parent = None, n_holder = h, n_authority = canonicalized a, n_ttl = Some ttl,
                       n_state = Live, n_created = t, n_audit_seq = q\<rparr> (nodes b)"
        "adopted c = fmupd (fingerprint (env_libs E) (last chain)) (i, Some w) (adopted b)"
        "adopted_chain_fps c = fmupd i (map (fingerprint (env_libs E)) chain) (adopted_chain_fps b)"
        "revoked_adoption_fps c = revoked_adoption_fps b" "strict_anchor c = strict_anchor b"
        "i = fst (take_id E (snd (now E b)))"
      using adopt_result[OF Pair[unfolded Inr]] by blast
    have i: "fmlookup (nodes b) i = None" using fresh_root[OF inv now_still] r(8) by simp
    have "books_ok c"
      by (rule books_adopted_root[OF ok i r(1) _ _ _ adoption_ttl_window[OF r(2)] r(3-7)]) simp_all
    then show ?thesis using Pair by simp
  qed
qed

lemma renew_books: "books_ok b \<Longrightarrow> books_ok (snd (renew_undoable E r anchors vf b))"
proof (cases "renew_undoable E r anchors vf b")
  case (Pair x c)
  assume ok: "books_ok b"
  show ?thesis
  proof (cases x)
    case (Inl d)
    then have "c = b" using Pair
      by (auto simp: renew_undoable_def extend_ttl_def Let_def split_beta split: option.splits if_splits)
    then show ?thesis using Pair ok by simp
  next
    case (Inr y)
    then show ?thesis using books_renew[OF ok, of E r anchors vf "fst y" "snd y" c] Pair by simp
  qed
qed

lemma step_books:
  assumes "step E ow b c" "tree_inv seen b" "books_ok b"
  shows "books_ok c"
  using assms
proof (cases rule: step.cases)
  case (redeem_withdrawn tok peer i rd d)
  have "lawful seen b d" using books.redeem_undoable_step[OF books.R_refl, of b tok peer] redeem_withdrawn by simp
  then have "lawful seen b c" using redeem_withdrawn(2) books.withdraw_redemption_step by simp
  then show ?thesis using assms(2,3) lawful_books by blast
next
  case (renew_withdrawn r anchors vf t rn d)
  have n: "nodes c = nodes b" using renew_result[OF renew_withdrawn(3)] renew_withdrawn(2) by blast
  have "strict_anchor c = strict_anchor b \<and> adopted c = adopted b \<and> adopted_chain_fps c = adopted_chain_fps b \<and>
      revoked_adoption_fps c = revoked_adoption_fps b"
    using renew_withdrawn(2,3)
    by (auto simp: renew_undoable_def extend_ttl_def Let_def split_beta withdraw_unrecorded_renewal_def restore_ttl_def
        split: option.splits if_splits)
  then have "quiet b c" using n by (intro quiet_same) simp_all
  then show ?thesis using books_quiet assms(3) by blast
next
  case (disarm_withdrawn i code at_ns seq x d)
  have "lawful seen b d"
    using books.disarm_deadman_undoable_step[OF books.R_refl, of b i code at_ns] disarm_withdrawn by simp
  then have "lawful seen b c" using disarm_withdrawn(2) books.rearm_step by simp
  then show ?thesis using assms(2,3) lawful_books by blast
next
  case (approval_withdrawn pid parent ttl i tok d)
  have "lawful seen b d"
    using books.approve_proposal_step[OF books.R_refl, of b pid parent ow ttl] approval_withdrawn by simp
  then have "books_ok d" using assms(2,3) lawful_books by blast
  then have "books_ok (snd (withdraw_unrecorded i d))" by (rule books_withdraw)
  moreover have "quiet x (upd_proposals f x)" for f x by (rule quiet_same) (simp_all add: upd_proposals_def)
  ultimately show ?thesis
    using approval_withdrawn(1) unfolding withdraw_unrecorded_proposal_approval_def by (metis books_quiet approval_withdrawn(2) withdraw_unrecorded_proposal_approval_def)
next
  case (policy_set_withdrawn cl pat tier u d)
  have "quiet b c"
    using quiet_trans[OF guard_edits_quiet(1)[of b E ow cl pat tier] guard_edits_quiet(5)] policy_set_withdrawn by simp
  then show ?thesis using books_quiet assms(3) by blast
next
  case (policy_unset_withdrawn cl pat gone d)
  have "quiet b c"
    using quiet_trans[OF guard_edits_quiet(2)[of b E ow cl pat] guard_edits_quiet(5)] policy_unset_withdrawn by simp
  then show ?thesis using books_quiet assms(3) by blast
next
  case (set_bypass_withdrawn on u d)
  have "quiet b c"
    using quiet_trans[OF guard_edits_quiet(3)[of b E ow on] guard_edits_quiet(4)] set_bypass_withdrawn by simp
  then show ?thesis using books_quiet assms(3) by blast
qed (use assms(2,3) in \<open>auto simp: withdraw_unrecorded_arming_def intro!: issue_root_books adopt_books renew_books books_withdraw
      books_quiet[OF _ guard_edits_quiet(1)] books_quiet[OF _ guard_edits_quiet(2)] books_quiet[OF _ guard_edits_quiet(3)]
      lawful_books[of seen b] contract_steps\<close>)

lemma reachable_books: "reachable E b \<Longrightarrow> books_ok b"
proof (induction rule: reachable.induct)
  case (start b)
  then show ?case using started_empty[OF start] by (simp add: books_ok_def roots_adopted_def)
next
  case (next_step b ow c)
  then show ?case using step_books reachable_tree_inv by blast
qed

end

section \<open>The guard's settings and the memory of revocations\<close>

definition keeps :: "'w broker \<Rightarrow> 'w broker \<Rightarrow> bool" where
  "keeps b c \<longleftrightarrow> settings (guard c) = settings (guard b) \<and> revoked_adoption_fps b |\<subseteq>| revoked_adoption_fps c"

lemma revoke_core_keeps: "keeps b (snd (revoke_core E caller target b))"
proof -
  have r: "keeps b (snd (refuse E d b))" for d :: denial by (simp add: keeps_def refuse_def split_beta)
  have "keeps b (snd (revoke_subtree q xs (bump_epoch (snd (take_seq E b)))))" for q xs
    by (auto simp: keeps_def revoke_subtree_def split_beta Let_def bump_epoch_def)
  then show ?thesis unfolding revoke_core_def Let_def split_beta using r by (auto split: option.split)
qed

interpretation keeps: custody_contract E keeps
proof unfold_locales
  show "keeps b (snd (attenuate_core E parent auth h ttl b))" for b parent auth h ttl
    by (simp add: attenuate_core_result Let_def refuse_def split_beta keeps_def split: option.split)
  show "keeps b (snd (revoke_saying E caller target why b))" for b caller target why
  proof -
    have "\<exists>q t p d. snd (revoke_saying E caller target why b) =
        record_op E q ''revoke'' t (Some target) p d None (snd (revoke_core E caller target b))"
      unfolding revoke_saying_def by (auto simp: split_beta)
    then show ?thesis using revoke_core_keeps[of b E caller target] by (auto simp: keeps_def)
  qed
  show "keeps b (set_holder_peer i peer b)" for b i peer
    by (simp add: keeps_def set_holder_peer_def split: option.split)
qed (auto simp: keeps_def settings_def)

lemma tree_edit_keeps:
  "keeps b (snd (issue_root E h a ttl b))" "keeps b (snd (adopt E chain anchors vf h b))"
  "keeps b (snd (withdraw_unrecorded i b))" "keeps b (snd (renew_undoable E r anchors vf b))"
  "keeps b (withdraw_unrecorded_renewal rn b)"
proof -
  have i: "keeps b (snd (issue E h a ttl b))" for a ttl b
    by (simp add: issue_def split_beta Let_def keeps_def)
  show "keeps b (snd (issue_root E h a ttl b))" using i[of b a ttl] by (simp add: issue_root_def split_beta keeps_def split: option.split)
  show "keeps b (snd (adopt E chain anchors vf h b))"
    using i[of "snd (now E b)"]
    by (auto simp: adopt_def split_beta Let_def refuse_adoption_def keeps_def split: sum.split)
  show "keeps b (snd (withdraw_unrecorded i b))" by (simp add: withdraw_unrecorded_def keeps_def)
  show "keeps b (snd (renew_undoable E r anchors vf b))"
    by (auto simp: renew_undoable_def extend_ttl_def split_beta Let_def keeps_def split: option.split)
  show "keeps b (withdraw_unrecorded_renewal rn b)"
    by (simp add: withdraw_unrecorded_renewal_def restore_ttl_def keeps_def split: option.split)
qed

lemma guard_edit_revoked:
  "revoked_adoption_fps (snd (guard_policy_set E ow cl pat tier b)) = revoked_adoption_fps b"
  "revoked_adoption_fps (snd (guard_policy_unset E ow cl pat b)) = revoked_adoption_fps b"
  "revoked_adoption_fps (snd (guard_set_bypass E ow on b)) = revoked_adoption_fps b"
  "revoked_adoption_fps (withdraw_unrecorded_bypass b) = revoked_adoption_fps b"
  "revoked_adoption_fps (withdraw_unrecorded_policy_edit before b) = revoked_adoption_fps b"
  unfolding guard_policy_set_def guard_policy_unset_def guard_set_bypass_def withdraw_unrecorded_bypass_def
    withdraw_unrecorded_policy_edit_def Let_def split_beta
  by (simp_all split: option.split)

text \<open>The steps that may change the settings, and what they leave of them without the owner's code.\<close>

lemma guard_edit_settings:
  "owner_ok (guard b) ow \<or> settings (guard (snd (guard_policy_set E ow cl pat tier b))) = settings (guard b)"
  "owner_ok (guard b) ow \<or> settings (guard (snd (guard_policy_unset E ow cl pat b))) = settings (guard b)"
  "owner_ok (guard b) ow \<or> settings (guard (snd (guard_set_bypass E ow on b))) = settings (guard b)"
  by (simp_all add: guard_policy_set_def guard_policy_unset_def guard_set_bypass_def)

lemma guard_edit_owner:
  "gs_owner (guard (snd (guard_policy_set E ow cl pat tier b))) = gs_owner (guard b)"
  "gs_owner (guard (snd (guard_policy_unset E ow cl pat b))) = gs_owner (guard b)"
  "gs_owner (guard (snd (guard_set_bypass E ow on b))) = gs_owner (guard b)"
  "gs_owner (guard (withdraw_unrecorded_bypass b)) = gs_owner (guard b)"
  "gs_owner (guard (withdraw_unrecorded_policy_edit before b)) = gs_owner (guard b)"
  unfolding guard_policy_set_def guard_policy_unset_def guard_set_bypass_def withdraw_unrecorded_bypass_def
    withdraw_unrecorded_policy_edit_def Let_def split_beta
  by (simp_all add: bump_epoch_def split: option.split)

text \<open>What a step may do to the guard's settings and the retired fingerprints.\<close>

definition step_respects :: "string option \<Rightarrow> 'w broker \<Rightarrow> 'w broker \<Rightarrow> bool" where
  "step_respects ow b c \<longleftrightarrow>
     revoked_adoption_fps b |\<subseteq>| revoked_adoption_fps c \<and> gs_owner (guard c) = gs_owner (guard b) \<and>
     (owner_ok (guard b) ow \<or> settings (guard c) = settings (guard b))"

lemma keeps_respects: "keeps b c \<Longrightarrow> step_respects ow b c"
  by (simp add: keeps_def step_respects_def settings_def)

lemma step_respects: "step E ow b c \<Longrightarrow> step_respects ow b c"
proof (induction rule: step.induct)
  case (redeem_withdrawn tok peer b i rd c)
  have "keeps b c" using keeps.redeem_undoable_step[OF keeps.R_refl, of b E tok peer] redeem_withdrawn by simp
  then show ?case by (intro keeps_respects keeps.withdraw_redemption_step)
next
  case (renew_withdrawn r anchors vf b t rn c)
  have "keeps b c" using tree_edit_keeps(4)[of b E r anchors vf] renew_withdrawn by simp
  then show ?case using keeps_respects keeps.R_trans tree_edit_keeps(5) by blast
next
  case (disarm_withdrawn i code at_ns b seq x c)
  have "keeps b c" using keeps.disarm_deadman_undoable_step[OF keeps.R_refl, of b E i code at_ns] disarm_withdrawn by simp
  then show ?case by (intro keeps_respects keeps.rearm_step)
next
  case (approval_withdrawn pid parent ow ttl b i tok c)
  have "keeps b c" using keeps.approve_proposal_step[OF keeps.R_refl, of b E pid parent ow ttl] approval_withdrawn by simp
  then have "keeps b (snd (withdraw_unrecorded i c))" using keeps.R_trans tree_edit_keeps(3) by blast
  then show ?case unfolding withdraw_unrecorded_proposal_approval_def by (intro keeps_respects keeps.upd_proposals_step)
next
  case (policy_set_withdrawn ow cl pat tier b u c)
  then have c: "c = snd (guard_policy_set E ow cl pat tier b)" "owner_ok (guard b) ow"
    by (auto simp: guard_policy_set_def split: if_splits)
  then show ?case by (simp add: step_respects_def guard_edit_revoked guard_edit_owner)
next
  case (policy_unset_withdrawn ow cl pat b gone c)
  then have c: "c = snd (guard_policy_unset E ow cl pat b)" "owner_ok (guard b) ow"
    by (auto simp: guard_policy_unset_def split: if_splits)
  then show ?case by (simp add: step_respects_def guard_edit_revoked guard_edit_owner)
next
  case (set_bypass_withdrawn ow on b u c)
  then have c: "c = snd (guard_set_bypass E ow on b)" "owner_ok (guard b) ow"
    by (auto simp: guard_set_bypass_def split: if_splits)
  then show ?case by (simp add: step_respects_def guard_edit_revoked guard_edit_owner)
next
  case (policy_set ow b cl pat tier)
  show ?case by (simp add: step_respects_def guard_edit_revoked guard_edit_owner guard_edit_settings)
next
  case (policy_unset ow b cl pat)
  show ?case by (simp add: step_respects_def guard_edit_revoked guard_edit_owner guard_edit_settings)
next
  case (set_bypass ow b on)
  show ?case by (simp add: step_respects_def guard_edit_revoked guard_edit_owner guard_edit_settings)
qed (auto simp: withdraw_unrecorded_arming_def intro!: keeps_respects tree_edit_keeps contract_steps)

lemma runs_revoked: "runs E b c \<Longrightarrow> revoked_adoption_fps b |\<subseteq>| revoked_adoption_fps c"
  by (induction rule: runs.induct) (use step_respects in \<open>force simp: step_respects_def\<close>)+

end
