(* ===== verification/System_Claims.thy ===== *)
theory System_Claims imports System begin

text \<open>
  What holds of the custody in every state its operations can reach, and between any two states of one run.
\<close>

text \<open>C4: In every reachable state each node is filed under its own identifier, holds a canonical authority and has a
  number the log has passed; and each node has every one of its ancestors in the tree, holds no more than any of
  them, is younger than each, and is revoked if any of them is.\<close>

theorem reachable_states_well_formed:
  assumes "fresh_world E seen" "reachable E b"
  shows "(\<forall>i n. fmlookup (nodes b) i = Some n \<longrightarrow>
      n_id n = i \<and> is_canonical (n_authority n) \<and> n_audit_seq n < audit_seq b \<and>
      (\<forall>p. n_parent n = Some p \<longrightarrow> p |\<in>| fmdom (nodes b))) \<and>
    (\<forall>i a. below (nodes b) i a \<longrightarrow>
      (\<exists>n m. fmlookup (nodes b) i = Some n \<and> fmlookup (nodes b) a = Some m \<and>
         attenuates (n_authority n) (n_authority m) \<and> n_audit_seq m \<le> n_audit_seq n \<and>
         (n_state m \<noteq> Live \<longrightarrow> n_state n \<noteq> Live)))"
proof -
  have inv: "tree_inv seen b" using fresh_world.reachable_tree_inv[OF assms] .
  then have ok: "tree_ok (nodes b)" by (rule tree_inv_ok)
  have "n_id n = i \<and> is_canonical (n_authority n) \<and> n_audit_seq n < audit_seq b \<and>
      (\<forall>p. n_parent n = Some p \<longrightarrow> p |\<in>| fmdom (nodes b))" if "fmlookup (nodes b) i = Some n" for i n
    using that inv tree_ok_id[OF ok] tree_ok_canonical[OF ok] tree_ok_parent_dom[OF ok] by (simp add: tree_inv_def)
  moreover have "\<exists>n m. fmlookup (nodes b) i = Some n \<and> fmlookup (nodes b) a = Some m \<and>
         attenuates (n_authority n) (n_authority m) \<and> n_audit_seq m \<le> n_audit_seq n \<and>
         (n_state m \<noteq> Live \<longrightarrow> n_state n \<noteq> Live)" if "below (nodes b) i a" for i a
    using below_facts[OF that ok] by blast
  ultimately show ?thesis by blast
qed

text \<open>C3: Along any run of the custody no node ever changes its parent or its authority, a revoked node is never live
  again, and an identifier the world has handed out is never given to a new node.\<close>

theorem nothing_widens_or_revives:
  assumes "fresh_world E seen" "reachable E b" "runs E b c" "fmlookup (nodes c) i = Some m"
  shows "case fmlookup (nodes b) i of
      Some n \<Rightarrow> n_parent m = n_parent n \<and> n_authority m = n_authority n \<and> n_audit_seq m = n_audit_seq n \<and>
        (\<forall>q. n_state n = RevokedBy q \<longrightarrow> n_state m = RevokedBy q)
    | None \<Rightarrow> \<not> seen (world b) i"
proof -
  have "evolves seen b c"
    using fresh_world.runs_evolve[OF assms(1,3)] fresh_world.reachable_tree_inv[OF assms(1,2)] by blast
  then show ?thesis
    using assms(4) evolvesD[of seen b c i m] evolves_new[of seen b c i m]
    by (auto simp: same_node_def split: option.split)
qed

text \<open>While a trust anchor is pinned, every root of the tree is one that was adopted under a certificate chain: no
  root is unjustified.\<close>

theorem pinned_anchor_justifies_every_root:
  assumes "fresh_world E seen" "reachable E b" "strict_anchor b \<noteq> None"
  shows "unjustified_root_nodes b = {||}"
proof -
  have "books_ok b" "tree_ok (nodes b)"
    using fresh_world.reachable_books[OF assms(1,2)] fresh_world.reachable_tree_inv[OF assms(1,2)] by (auto dest: tree_inv_ok)
  then have r: "roots_adopted b" "\<And>i n. fmlookup (nodes b) i = Some n \<Longrightarrow> n_id n = i"
    using assms(3) tree_ok_id unfolding books_ok_def by blast+
  have "n_id n |\<in>| fst |`| fmran (adopted b)" if n: "n |\<in>| fmran (nodes b)" "n_parent n = None" for n
  proof -
    obtain i where i: "fmlookup (nodes b) i = Some n" using n(1) by (rule fmranE)
    then obtain fp w where "fmlookup (adopted b) fp = Some (i, w)" using r(1) n(2) unfolding roots_adopted_def by blast
    then have "(i, w) |\<in>| fmran (adopted b)" by (rule fmranI)
    then show ?thesis using r(2)[OF i] by force
  qed
  then show ?thesis by (auto simp: unjustified_root_nodes_def Let_def)
qed

text \<open>In every reachable state each adopted node is a root in the tree whose deadline is no later than the window
  fixed when its chain was adopted, whatever renewals there were, and no two certificates stand for one node.\<close>

theorem adopted_nodes_stay_in_their_window:
  assumes "fresh_world E seen" "reachable E b" "fmlookup (adopted b) fp = Some (i, w)"
  shows "\<exists>n x t. fmlookup (nodes b) i = Some n \<and> n_parent n = None \<and> w = Some x \<and> n_ttl n = Some t \<and> t \<le> x \<and>
    (\<forall>fp' w'. fmlookup (adopted b) fp' = Some (i, w') \<longrightarrow> fp' = fp)"
proof -
  have ok: "books_ok b" using fresh_world.reachable_books[OF assms(1,2)] .
  have "i |\<in>| fmdom (nodes b)" using ok assms(3) unfolding books_ok_def by blast
  then obtain n where n: "fmlookup (nodes b) i = Some n" by (auto simp: fmlookup_dom_iff)
  then have "n_parent n = None \<and> (\<exists>x t. w = Some x \<and> n_ttl n = Some t \<and> t \<le> x)"
    using ok assms(3) unfolding books_ok_def by blast
  moreover have "\<forall>fp' w'. fmlookup (adopted b) fp' = Some (i, w') \<longrightarrow> fp' = fp"
    using ok assms(3) unfolding books_ok_def by blast
  ultimately show ?thesis using n by blast
qed

text \<open>C33: Once a node adopted under a chain of certificates has been revoked, no chain that contains any certificate of
  that one is ever adopted again, however the run goes on.\<close>

theorem revoked_credentials_never_return:
  assumes "fresh_world E seen" "reachable E b" "runs E b c"
    and "fmlookup (adopted_chain_fps b) i = Some fps" "fmlookup (nodes b) i = Some n" "n_state n \<noteq> Live"
    and "x \<in> set chain" "fingerprint (env_libs E) x \<in> set fps"
  shows "isl (fst (adopt E chain anchors vf h c))"
proof (rule ccontr)
  assume "\<not> isl (fst (adopt E chain anchors vf h c))"
  then obtain j d where "adopt E chain anchors vf h c = (Inr j, d)"
    by (cases "adopt E chain anchors vf h c"; cases "fst (adopt E chain anchors vf h c)") auto
  then have "fingerprint (env_libs E) x |\<notin>| revoked_adoption_fps c"
    using adopt_result assms(7) by blast
  moreover have "set fps \<subseteq> fset (revoked_adoption_fps b)"
    using fresh_world.reachable_books[OF assms(1,2)] assms(4-6) unfolding books_ok_def by blast
  ultimately show False using assms(8) runs_revoked[OF assms(3)] by (auto simp: less_eq_fset.rep_eq)
qed

text \<open>No step changes the owner's code of the guard, and none changes the guard's policy or its bypass unless the
  owner's code was presented with it.\<close>

theorem guard_settings_need_the_owner:
  assumes "step E ow b c"
  shows "gs_owner (guard c) = gs_owner (guard b) \<and>
    (owner_ok (guard b) ow \<or> gs_policy (guard c) = gs_policy (guard b) \<and> gs_bypass (guard c) = gs_bypass (guard b))"
  using step_respects[OF assms] by (auto simp: step_respects_def settings_def)

section \<open>Examples\<close>

lemma tree_sample_reachable: "reachable (sim_env plain_libs) tree_sample"
proof -
  have "reachable (sim_env plain_libs) empty_sample" unfolding empty_sample_def by (intro reachable.start started.new)
  moreover have "root_sample = snd (issue_root (sim_env plain_libs) some_holder (reader_grant ''data'') None empty_sample)"
    by (simp add: root_sample_def issue_root_def empty_sample_def with_sources_def split_beta)
  ultimately have "reachable (sim_env plain_libs) root_sample"
    using reachable.next_step step.issue_root by metis
  then show ?thesis unfolding tree_sample_def using reachable.next_step step.attenuate by blast
qed

text \<open>A broker with a pinned anchor that adopted a chain, and the same after the adopted node was revoked.\<close>

definition pinned_sample :: "sim_world broker" where
  "pinned_sample = snd (adopt (sim_env plain_libs) [leaf_sample] {||} naming_verifier some_holder
     (require_anchored_roots ''k0'' empty_sample))"

definition retired_sample :: "sim_world broker" where
  "retired_sample = snd (revoke_saying (sim_env plain_libs) (seq_id 0) (seq_id 0) None pinned_sample)"

lemma pinned_sample_reachable: "reachable (sim_env plain_libs) pinned_sample"
proof -
  have "started (require_anchored_roots ''k0'' empty_sample)"
    unfolding empty_sample_def by (intro started.anchored started.new)
  then show ?thesis unfolding pinned_sample_def using reachable.start reachable.next_step step.adopt by blast
qed

lemma retired_sample_reachable: "reachable (sim_env plain_libs) retired_sample"
  unfolding retired_sample_def using pinned_sample_reachable reachable.next_step step.revoke by blast

theorem reachable_states_well_formed_witness:
  "fmlookup (nodes tree_sample) (seq_id 1) \<noteq> None \<and> n_id (the (fmlookup (nodes tree_sample) (seq_id 1))) = seq_id 1"
proof -
  have "fmlookup (nodes tree_sample) (seq_id 1) \<noteq> None" by code_simp
  then show ?thesis
    using reachable_states_well_formed[OF sim.fresh_world_axioms tree_sample_reachable] by auto
qed

text \<open>What the samples hold, each evaluated once.\<close>

definition adopted_as_sampled where
  "adopted_as_sampled b \<longleftrightarrow>
     fmlookup (nodes b) (seq_id 0) \<noteq> None \<and> strict_anchor b \<noteq> None \<and>
     fmlookup (adopted b) (fingerprint plain_libs leaf_sample) = Some (seq_id 0, Some 9000)"

definition retired_as_sampled where
  "retired_as_sampled b \<longleftrightarrow>
     (case fmlookup (nodes b) (seq_id 0) of None \<Rightarrow> False | Some n \<Rightarrow> n_state n = RevokedBy 3) \<and>
     fmlookup (adopted_chain_fps b) (seq_id 0) = Some [fingerprint plain_libs leaf_sample]"

lemma pinned_sample_holds: "adopted_as_sampled pinned_sample" by code_simp

lemma retired_sample_holds: "retired_as_sampled retired_sample" by code_simp

lemma pinned_sample_facts:
  "fmlookup (nodes pinned_sample) (seq_id 0) \<noteq> None" "strict_anchor pinned_sample \<noteq> None"
  "fmlookup (adopted pinned_sample) (fingerprint plain_libs leaf_sample) = Some (seq_id 0, Some 9000)"
  using pinned_sample_holds unfolding adopted_as_sampled_def by blast+

lemma retired_sample_facts:
  "fmlookup (nodes retired_sample) (seq_id 0) = Some (the (fmlookup (nodes retired_sample) (seq_id 0)))"
  "n_state (the (fmlookup (nodes retired_sample) (seq_id 0))) = RevokedBy 3"
  "fmlookup (adopted_chain_fps retired_sample) (seq_id 0) = Some [fingerprint plain_libs leaf_sample]"
  using retired_sample_holds unfolding retired_as_sampled_def by (auto split: option.splits)

theorem nothing_widens_or_revives_witness:
  "n_state (the (fmlookup (nodes retired_sample) (seq_id 0))) = RevokedBy 3 \<and>
   n_authority (the (fmlookup (nodes retired_sample) (seq_id 0))) = n_authority (the (fmlookup (nodes pinned_sample) (seq_id 0)))"
proof -
  have "runs (sim_env plain_libs) pinned_sample retired_sample"
    unfolding retired_sample_def using runs.here runs.onward step.revoke by blast
  note w = nothing_widens_or_revives[OF sim.fresh_world_axioms pinned_sample_reachable this]
  obtain n m where n: "fmlookup (nodes pinned_sample) (seq_id 0) = Some n"
    and m: "fmlookup (nodes retired_sample) (seq_id 0) = Some m" using pinned_sample_facts(1) retired_sample_facts(1) by blast
  have "n_authority m = n_authority n" using w[OF m] n by auto
  then show ?thesis using retired_sample_facts(2) n m by simp
qed

theorem pinned_anchor_justifies_every_root_witness:
  "fmlookup (nodes pinned_sample) (seq_id 0) \<noteq> None \<and> unjustified_root_nodes pinned_sample = {||}"
proof -
  show ?thesis using pinned_sample_facts pinned_anchor_justifies_every_root[OF sim.fresh_world_axioms pinned_sample_reachable] by blast
qed

theorem adopted_nodes_stay_in_their_window_witness:
  "\<exists>n t. fmlookup (nodes pinned_sample) (seq_id 0) = Some n \<and> n_ttl n = Some t \<and> t \<le> 9000"
proof -
  from adopted_nodes_stay_in_their_window[OF sim.fresh_world_axioms pinned_sample_reachable pinned_sample_facts(3)] show ?thesis by auto
qed

theorem revoked_credentials_never_return_witness:
  "isl (fst (adopt (sim_env plain_libs) [leaf_sample] {||} naming_verifier some_holder retired_sample))"
proof (rule revoked_credentials_never_return[OF sim.fresh_world_axioms retired_sample_reachable runs.here])
  have "env_libs (sim_env plain_libs) = plain_libs" by (simp add: sim_env_def)
  then show "fmlookup (adopted_chain_fps retired_sample) (seq_id 0) = Some [fingerprint (env_libs (sim_env plain_libs)) leaf_sample]"
    by (simp only: retired_sample_facts(3))
  show "fmlookup (nodes retired_sample) (seq_id 0) = Some (the (fmlookup (nodes retired_sample) (seq_id 0)))" by (rule retired_sample_facts(1))
  show "n_state (the (fmlookup (nodes retired_sample) (seq_id 0))) \<noteq> Live" by (simp add: retired_sample_facts(2))
qed simp_all

theorem guard_settings_need_the_owner_witness:
  "gs_owner (guard root_sample) = gs_owner (guard empty_sample)"
proof -
  have "root_sample = snd (issue_root (sim_env plain_libs) some_holder (reader_grant ''data'') None empty_sample)"
    by (simp add: root_sample_def issue_root_def empty_sample_def with_sources_def split_beta)
  then have "step (sim_env plain_libs) None empty_sample root_sample" using step.issue_root by metis
  from guard_settings_need_the_owner[OF this] show ?thesis by blast
qed

end

