(* ===== verification/Divergences.thy ===== *)
theory Divergences imports Guard Net_Entries begin

text \<open>
  Places where the code and its documentation differ, each on one concrete input: they are what the general
  properties have to allow for.
\<close>

text \<open>An entry whose pattern does not parse lies within its bare host (\<open>netscope.rs\<close>, \<open>entry_within\<close>), though its
  documentation says it lies within an identical entry only.\<close>

lemma unreadable_entry_within_its_host:
  "entry_within ''h.com/v1*'' ''h.com'' \<and> isl (parse_pattern ''/v1*'')"
  by code_simp

text \<open>A budget is read in either order of its two terms (\<open>budget_scope.rs\<close>, \<open>parse\<close>).\<close>

lemma budget_terms_in_either_order:
  "budget_parse ''cpu=2,mem=1'' = Inr \<lparr>memory_bytes = 1, cpu_seconds = 2\<rparr>"
  "budget_parse ''mem=1,cpu=2'' = Inr \<lparr>memory_bytes = 1, cpu_seconds = 2\<rparr>"
  by code_simp+

text \<open>A sign is read as a hexadecimal digit (\<open>lease.rs\<close> and \<open>cert.rs\<close>, \<open>from_hex\<close>).\<close>

lemma hex_reads_a_sign: "from_hex ''+f'' = from_hex ''0f''" "from_hex ''+f'' \<noteq> None"
  by code_simp+

text \<open>A permit's subset is compared with the seven named scopes only (\<open>guard.rs\<close>, \<open>mint_within_subset\<close>): an authority
  of effects alone is covered by every subset.\<close>

lemma subset_ignores_effects:
  "mint_within_subset lb sub \<lparr>effects = {|Net, Actuate|}, a_scopes = no_scopes\<rparr>"
  by (simp add: mint_within_subset_def scope_classes_def no_scopes_def)

end
