(* ===== verification/Ty.thy ===== *)
theory Ty imports Effect_Row begin

text \<open>
  The types of the language, \<open>crates/delulu-check/src/ty.rs\<close>: effect rows, the kinds of resource a capability
  designates, the trust class of a plugin, the types themselves and how they are shown to a person. The indices
  of variables and declarations, \<open>u32\<close> in the source, are naturals.
\<close>

section \<open>Rows\<close>

record row =
  r_effects :: "effect fset"
  r_tail :: "nat option"

definition pure_row :: row where
  "pure_row = \<lparr>r_effects = {||}, r_tail = None\<rparr>"

definition single_row :: "effect \<Rightarrow> row" where
  "single_row e = \<lparr>r_effects = {|e|}, r_tail = None\<rparr>"

definition closed_row :: "effect fset \<Rightarrow> row" where
  "closed_row es = \<lparr>r_effects = es, r_tail = None\<rparr>"

definition is_pure :: "row \<Rightarrow> bool" where
  "is_pure r \<longleftrightarrow> r_effects r = {||} \<and> r_tail r = None"

definition row_union :: "row \<Rightarrow> row \<Rightarrow> row" where
  "row_union a b =
     \<lparr>r_effects = r_effects a |\<union>| r_effects b, r_tail = (case r_tail a of Some v \<Rightarrow> Some v | None \<Rightarrow> r_tail b)\<rparr>"

definition row_add :: "effect \<Rightarrow> row \<Rightarrow> row" where
  "row_add e r = r\<lparr>r_effects := finsert e (r_effects r)\<rparr>"

definition row_text :: "row \<Rightarrow> string" where
  "row_text r =
     ''!{'' @ join_with '', '' (effect_names (r_effects r))
     @ (case r_tail r of
          None \<Rightarrow> []
        | Some v \<Rightarrow> (if r_effects r = {||} then [] else '' | '') @ [CHR 0x27] @ ''r'' @ show_nat v)
     @ ''}''"

section \<open>Resources and plugin classes\<close>

datatype (plugins only: code size) resource_kind =
    KFsRead | KFsWrite | KConsole | KHttp | KClock | KRand | KDeclassify | KPluginHost | KPython | KForeignLoad
  | KActuator | KSensor | KCompute

fun resource_name :: "resource_kind \<Rightarrow> string" where
  "resource_name KFsRead = ''FsRead''"
| "resource_name KFsWrite = ''FsWrite''"
| "resource_name KConsole = ''Console''"
| "resource_name KHttp = ''Http''"
| "resource_name KClock = ''Clock''"
| "resource_name KRand = ''Rand''"
| "resource_name KDeclassify = ''Declassify''"
| "resource_name KPluginHost = ''PluginHost''"
| "resource_name KPython = ''Python''"
| "resource_name KForeignLoad = ''ForeignLoad''"
| "resource_name KActuator = ''Actuator''"
| "resource_name KSensor = ''Sensor''"
| "resource_name KCompute = ''Compute''"

definition resource_from_name :: "string \<Rightarrow> resource_kind option" where
  "resource_from_name n =
     (if n = ''FsRead'' then Some KFsRead
      else if n = ''FsWrite'' then Some KFsWrite
      else if n = ''Console'' then Some KConsole
      else if n = ''Http'' then Some KHttp
      else if n = ''Clock'' then Some KClock
      else if n = ''Rand'' then Some KRand
      else if n = ''Declassify'' then Some KDeclassify
      else if n = ''PluginHost'' then Some KPluginHost
      else if n = ''Python'' then Some KPython
      else if n = ''ForeignLoad'' then Some KForeignLoad
      else if n = ''Actuator'' then Some KActuator
      else if n = ''Sensor'' then Some KSensor
      else if n = ''Compute'' then Some KCompute
      else None)"

datatype (plugins only: code size) plugin_class = ClassVerified | ClassContained

fun plugin_class_str :: "plugin_class \<Rightarrow> string" where
  "plugin_class_str ClassVerified = ''verified''"
| "plugin_class_str ClassContained = ''contained''"

definition plugin_class_from_name :: "string \<Rightarrow> plugin_class option" where
  "plugin_class_from_name s =
     (if s = ''verified'' then Some ClassVerified else if s = ''contained'' then Some ClassContained else None)"

fun plugin_class_type_name :: "plugin_class \<Rightarrow> string" where
  "plugin_class_type_name ClassVerified = ''Verified''"
| "plugin_class_type_name ClassContained = ''Contained''"

definition plugin_class_from_type_name :: "string \<Rightarrow> plugin_class option" where
  "plugin_class_from_type_name s =
     (if s = ''Verified'' then Some ClassVerified else if s = ''Contained'' then Some ClassContained else None)"

section \<open>Types\<close>

datatype (plugins only: code size) ty =
    TInt | TFloat | TBool | TStr | TUnit
  | TList ty
  | TMap ty ty
  | TOption ty
  | TResult ty ty
  | TRecord nat "ty list"
  | TSum nat "ty list"
  | TFn "ty list" ty row
  | TCap resource_kind
  | TSecret ty
  | TRoot
  | TForeignPtr
  | TPyObj
  | TForeign string
  | TPlugin ty
  | TVerified
  | TContained
  | TActor string "ty list"
  | TVar nat

definition is_numeric :: "ty \<Rightarrow> bool" where
  "is_numeric t \<longleftrightarrow> t = TInt \<or> t = TFloat"

section \<open>A type's head and its parts\<close>

text \<open>The operations of the checker that treat every type alike take it apart as its constructor with what
  names it (\<open>ty_head\<close>), the types it is made of in the order they are written (\<open>ty_args\<close>) and its row.\<close>

datatype (plugins only: code size) head =
    HInt | HFloat | HBool | HStr | HUnit | HList | HMap | HOption | HResult | HRecord nat | HSum nat | HFn
  | HCap resource_kind | HSecret | HRoot | HForeignPtr | HPyObj | HForeign string | HPlugin | HVerified | HContained
  | HActor string | HVar nat

fun ty_head :: "ty \<Rightarrow> head" where
  "ty_head TInt = HInt" | "ty_head TFloat = HFloat" | "ty_head TBool = HBool" | "ty_head TStr = HStr"
| "ty_head TUnit = HUnit" | "ty_head (TList _) = HList" | "ty_head (TMap _ _) = HMap" | "ty_head (TOption _) = HOption"
| "ty_head (TResult _ _) = HResult" | "ty_head (TRecord i _) = HRecord i" | "ty_head (TSum i _) = HSum i"
| "ty_head (TFn _ _ _) = HFn" | "ty_head (TCap k) = HCap k" | "ty_head (TSecret _) = HSecret" | "ty_head TRoot = HRoot"
| "ty_head TForeignPtr = HForeignPtr" | "ty_head TPyObj = HPyObj" | "ty_head (TForeign n) = HForeign n"
| "ty_head (TPlugin _) = HPlugin" | "ty_head TVerified = HVerified" | "ty_head TContained = HContained"
| "ty_head (TActor n _) = HActor n" | "ty_head (TVar v) = HVar v"

fun ty_args :: "ty \<Rightarrow> ty list" where
  "ty_args (TList t) = [t]"
| "ty_args (TMap k v) = [k, v]"
| "ty_args (TOption t) = [t]"
| "ty_args (TResult t e) = [t, e]"
| "ty_args (TRecord _ ts) = ts"
| "ty_args (TSum _ ts) = ts"
| "ty_args (TFn ps r _) = ps @ [r]"
| "ty_args (TSecret t) = [t]"
| "ty_args (TPlugin t) = [t]"
| "ty_args (TActor _ ts) = ts"
| "ty_args _ = []"

fun ty_row :: "ty \<Rightarrow> row option" where
  "ty_row (TFn _ _ r) = Some r"
| "ty_row _ = None"

text \<open>The same type with other parts and its row changed.\<close>

fun ty_with :: "ty \<Rightarrow> ty list \<Rightarrow> (row \<Rightarrow> row) \<Rightarrow> ty" where
  "ty_with (TList _) us f = TList (us ! 0)"
| "ty_with (TMap _ _) us f = TMap (us ! 0) (us ! 1)"
| "ty_with (TOption _) us f = TOption (us ! 0)"
| "ty_with (TResult _ _) us f = TResult (us ! 0) (us ! 1)"
| "ty_with (TRecord i _) us f = TRecord i us"
| "ty_with (TSum i _) us f = TSum i us"
| "ty_with (TFn _ _ r) us f = TFn (butlast us) (last us) (f r)"
| "ty_with (TSecret _) us f = TSecret (us ! 0)"
| "ty_with (TPlugin _) us f = TPlugin (us ! 0)"
| "ty_with (TActor n _) us f = TActor n us"
| "ty_with t us f = t"

text \<open>The variable a type is, where it is one.\<close>

definition var_of :: "ty \<Rightarrow> nat option" where
  "var_of t = (case t of TVar v \<Rightarrow> Some v | _ \<Rightarrow> None)"

lemma var_of_simps [simp]: "var_of (TVar v) = Some v" "var_of t = Some w \<longleftrightarrow> t = TVar w"
  by (auto simp: var_of_def split: ty.splits)

lemma var_of_None: "var_of t = None \<longleftrightarrow> (\<forall>v. t \<noteq> TVar v)"
  by (auto simp: var_of_def split: ty.splits)

lemma ty_args_size [termination_simp]: "t \<in> set (ty_args a) \<Longrightarrow> size t < size a"
  by (induction a rule: ty_args.induct) (auto simp: less_Suc_eq_le intro: le_trans[OF size_list_estimation'[OF _ order.refl]])

lemma ty_eqI:
  assumes "ty_head a = ty_head b" "ty_args a = ty_args b" "ty_row a = ty_row b"
  shows "a = b"
  using assms by (cases a) (cases b; auto)+

lemma ty_head_var [simp]: "ty_head a = HVar v \<longleftrightarrow> a = TVar v"
  by (cases a) auto

lemma ty_row_head: "ty_head a = ty_head b \<Longrightarrow> ty_row a = None \<longleftrightarrow> ty_row b = None"
  by (cases a) (cases b; auto)+

text \<open>The number of parts a type has, itself included.\<close>

primrec ty_parts :: "ty \<Rightarrow> nat" where
  "ty_parts TInt = 1" | "ty_parts TFloat = 1" | "ty_parts TBool = 1" | "ty_parts TStr = 1" | "ty_parts TUnit = 1"
| "ty_parts (TList t) = Suc (ty_parts t)"
| "ty_parts (TMap k v) = Suc (ty_parts k + ty_parts v)"
| "ty_parts (TOption t) = Suc (ty_parts t)"
| "ty_parts (TResult t e) = Suc (ty_parts t + ty_parts e)"
| "ty_parts (TRecord i ts) = Suc (sum_list (map ty_parts ts))"
| "ty_parts (TSum i ts) = Suc (sum_list (map ty_parts ts))"
| "ty_parts (TFn ps r w) = Suc (sum_list (map ty_parts ps) + ty_parts r)"
| "ty_parts (TCap k) = 1"
| "ty_parts (TSecret t) = Suc (ty_parts t)"
| "ty_parts TRoot = 1" | "ty_parts TForeignPtr = 1" | "ty_parts TPyObj = 1" | "ty_parts (TForeign n) = 1"
| "ty_parts (TPlugin t) = Suc (ty_parts t)"
| "ty_parts TVerified = 1" | "ty_parts TContained = 1"
| "ty_parts (TActor n ts) = Suc (sum_list (map ty_parts ts))"
| "ty_parts (TVar v) = 1"

lemma ty_parts_args: "ty_parts t = Suc (sum_list (map ty_parts (ty_args t)))"
  by (cases t) auto

text \<open>Induction over the parts of a type.\<close>

lemma ty_args_induct [case_names parts]:
  assumes "\<And>t. (\<And>u. u \<in> set (ty_args t) \<Longrightarrow> P u) \<Longrightarrow> P t"
  shows "P t"
  by (induction t rule: measure_induct_rule[of size]) (use assms ty_args_size in blast)

section \<open>Showing a type\<close>

text \<open>The names a printer is given: of declared types, and of the variables an author named.\<close>

record type_names =
  tn_type :: "nat \<Rightarrow> string option"
  tn_type_var :: "nat \<Rightarrow> string option"
  tn_row_var :: "nat \<Rightarrow> string option"

definition no_type_names :: type_names where
  "no_type_names = \<lparr>tn_type = (\<lambda>_. None), tn_type_var = (\<lambda>_. None), tn_row_var = (\<lambda>_. None)\<rparr>"

definition type_name_list :: "string list \<Rightarrow> type_names" where
  "type_name_list ns =
     no_type_names\<lparr>tn_type := (\<lambda>i. if i < length ns then Some (ns ! i) else None)\<rparr>"

definition args_text :: "string list \<Rightarrow> string" where
  "args_text ts = (if ts = [] then [] else ''['' @ join_with '', '' ts @ '']'')"

definition declared_text :: "type_names \<Rightarrow> nat \<Rightarrow> string" where
  "declared_text ns i = (case tn_type ns i of Some n \<Rightarrow> n | None \<Rightarrow> ''<type #'' @ show_nat i @ ''>'')"

definition fn_row_text :: "type_names \<Rightarrow> row \<Rightarrow> string" where
  "fn_row_text ns r =
     (if is_pure r then []
      else (case Option.bind (r_tail r) (tn_row_var ns) of
              Some name \<Rightarrow>
                '' !{'' @ join_with '', '' (effect_names (r_effects r))
                @ (if r_effects r = {||} then [] else '' | '') @ name @ ''}''
            | None \<Rightarrow> '' '' @ row_text r))"

primrec ty_text :: "type_names \<Rightarrow> ty \<Rightarrow> string" where
  "ty_text ns TInt = ''Int''"
| "ty_text ns TFloat = ''Float''"
| "ty_text ns TBool = ''Bool''"
| "ty_text ns TStr = ''Str''"
| "ty_text ns TUnit = ''Unit''"
| "ty_text ns (TList t) = ''List['' @ ty_text ns t @ '']''"
| "ty_text ns (TMap k v) = ''Map['' @ ty_text ns k @ '', '' @ ty_text ns v @ '']''"
| "ty_text ns (TOption t) = ''Option['' @ ty_text ns t @ '']''"
| "ty_text ns (TResult t e) = ''Result['' @ ty_text ns t @ '', '' @ ty_text ns e @ '']''"
| "ty_text ns (TRecord i ts) = declared_text ns i @ args_text (map (ty_text ns) ts)"
| "ty_text ns (TSum i ts) = declared_text ns i @ args_text (map (ty_text ns) ts)"
| "ty_text ns (TFn ps r w) =
     ''fn('' @ join_with '', '' (map (ty_text ns) ps) @ '') -> '' @ ty_text ns r @ fn_row_text ns w"
| "ty_text ns (TCap k) = ''Cap['' @ resource_name k @ '']''"
| "ty_text ns (TSecret t) = ''Secret['' @ ty_text ns t @ '']''"
| "ty_text ns TRoot = ''Root''"
| "ty_text ns TForeignPtr = ''ForeignPtr''"
| "ty_text ns TPyObj = ''PyObj''"
| "ty_text ns (TForeign n) = n"
| "ty_text ns (TPlugin t) = ''Plugin['' @ ty_text ns t @ '']''"
| "ty_text ns TVerified = ''Verified''"
| "ty_text ns TContained = ''Contained''"
| "ty_text ns (TActor n ts) = n @ args_text (map (ty_text ns) ts)"
| "ty_text ns (TVar v) = (case tn_type_var ns v of Some n \<Rightarrow> n | None \<Rightarrow> [CHR 0x27] @ ''t'' @ show_nat v)"

section \<open>Names read back\<close>

lemma resource_name_round_trip: "resource_from_name (resource_name k) = Some k"
  by (cases k) (simp_all add: resource_from_name_def)

lemma resource_from_name_sound: "resource_from_name n = Some k \<Longrightarrow> resource_name k = n"
  by (auto simp: resource_from_name_def split: if_splits)

lemma plugin_class_round_trip:
  "plugin_class_from_name (plugin_class_str c) = Some c"
  "plugin_class_from_type_name (plugin_class_type_name c) = Some c"
  by (cases c; simp add: plugin_class_from_name_def plugin_class_from_type_name_def)+

end
