(* ===== verification/Unify.thy ===== *)
theory Unify imports Ty "HOL-Library.While_Combinator" begin

text \<open>
  The inference context and unification, \<open>crates/delulu-check/src/unify.rs\<close>. A context is two vectors of bindings,
  for type variables and for row variables, with the variables that are rigid. A loop that follows bindings is
  \<open>while_option\<close>: \<open>None\<close> would be a loop that does not end, which \<open>Unify_Inv\<close> rules out for every context the
  operations build. Unification calls itself on the parts of types through the bindings and carries fuel for it;
  \<open>None\<close> is fuel that ran out, and \<open>Unify_Claims\<close> shows that enough fuel always gives an answer.
\<close>

section \<open>The context\<close>

datatype (plugins only: code size) unify_error = TypeMismatch | RowMismatch | RowConflict | OccursCheck

record ctx =
  type_bindings :: "ty option list"
  row_bindings :: "row option list"
  type_rigid :: "bool list"
  row_rigid :: "bool list"
  written :: nat
  too_large :: bool

definition TYPE_PARTS_LIMIT :: nat where "TYPE_PARTS_LIMIT = 100000"

definition TYPE_PARTS_FREE :: nat where "TYPE_PARTS_FREE = 1000"

definition TYPE_PARTS_TOTAL :: nat where "TYPE_PARTS_TOTAL = 2000000"

definition new_ctx :: ctx where
  "new_ctx = \<lparr>type_bindings = [], row_bindings = [], type_rigid = [], row_rigid = [], written = 0, too_large = False\<rparr>"

definition fresh_type :: "ctx \<Rightarrow> ty \<times> ctx" where
  "fresh_type s =
     (TVar (length (type_bindings s)),
      s\<lparr>type_bindings := type_bindings s @ [None], type_rigid := type_rigid s @ [False]\<rparr>)"

definition fresh_row_var :: "ctx \<Rightarrow> nat \<times> ctx" where
  "fresh_row_var s =
     (length (row_bindings s),
      s\<lparr>row_bindings := row_bindings s @ [None], row_rigid := row_rigid s @ [False]\<rparr>)"

definition fresh_rigid_type :: "ctx \<Rightarrow> ty \<times> ctx" where
  "fresh_rigid_type s =
     (let (t, s1) = fresh_type s
      in case t of TVar v \<Rightarrow> (t, s1\<lparr>type_rigid := (type_rigid s1)[v := True]\<rparr>) | _ \<Rightarrow> (t, s1))"

definition fresh_rigid_row_var :: "ctx \<Rightarrow> nat \<times> ctx" where
  "fresh_rigid_row_var s = (let (v, s1) = fresh_row_var s in (v, s1\<lparr>row_rigid := (row_rigid s1)[v := True]\<rparr>))"

definition fresh_row :: "ctx \<Rightarrow> row \<times> ctx" where
  "fresh_row s = (let (v, s1) = fresh_row_var s in (\<lparr>r_effects = {||}, r_tail = Some v\<rparr>, s1))"

text \<open>The binding of a variable, none where the vector is shorter (the source's index would panic there).\<close>

definition nth_binding :: "'a option list \<Rightarrow> nat \<Rightarrow> 'a option" where
  "nth_binding xs v = (if v < length xs then xs ! v else None)"

abbreviation type_binding :: "ctx \<Rightarrow> nat \<Rightarrow> ty option" where
  "type_binding s v \<equiv> nth_binding (type_bindings s) v"

abbreviation row_binding :: "ctx \<Rightarrow> nat \<Rightarrow> row option" where
  "row_binding s v \<equiv> nth_binding (row_bindings s) v"

definition rigid_type :: "ctx \<Rightarrow> nat \<Rightarrow> bool" where
  "rigid_type s v \<longleftrightarrow> v < length (type_rigid s) \<and> type_rigid s ! v"

definition rigid_row :: "ctx \<Rightarrow> nat \<Rightarrow> bool" where
  "rigid_row s v \<longleftrightarrow> v < length (row_rigid s) \<and> row_rigid s ! v"

section \<open>Resolution\<close>

definition is_bound :: "ctx \<Rightarrow> ty \<Rightarrow> bool" where
  "is_bound s t = (case var_of t of Some v \<Rightarrow> type_binding s v \<noteq> None | None \<Rightarrow> False)"

definition bound_to :: "ctx \<Rightarrow> ty \<Rightarrow> ty" where
  "bound_to s t = (case Option.bind (var_of t) (type_binding s) of Some b \<Rightarrow> b | None \<Rightarrow> t)"

definition resolve_type_shallow :: "ctx \<Rightarrow> ty \<Rightarrow> ty option" where
  "resolve_type_shallow s t = while_option (is_bound s) (bound_to s) t"

text \<open>One step of expanding a row's bound tail; the second component says that one was expanded.\<close>

definition tail_bound :: "ctx \<Rightarrow> row \<times> bool \<Rightarrow> bool" where
  "tail_bound s rx \<longleftrightarrow> (case r_tail (fst rx) of Some v \<Rightarrow> row_binding s v \<noteq> None | None \<Rightarrow> False)"

definition expand_tail :: "ctx \<Rightarrow> row \<times> bool \<Rightarrow> row \<times> bool" where
  "expand_tail s rx =
     (case r_tail (fst rx) of
        None \<Rightarrow> rx
      | Some v \<Rightarrow>
          (case row_binding s v of
             None \<Rightarrow> rx
           | Some b \<Rightarrow> (\<lparr>r_effects = r_effects (fst rx) |\<union>| r_effects b, r_tail = r_tail b\<rparr>, True)))"

definition resolve_row_tracked :: "ctx \<Rightarrow> row \<Rightarrow> (row \<times> bool) option" where
  "resolve_row_tracked s r = while_option (tail_bound s) (expand_tail s) (r, False)"

definition apply_row :: "ctx \<Rightarrow> row \<Rightarrow> row" where
  "apply_row s r = (case resolve_row_tracked s r of Some (q, _) \<Rightarrow> q | None \<Rightarrow> r)"

section \<open>Writing a type out\<close>

text \<open>A type written out in at most so many parts, and how many are left; every constructor's parts are written out
  in their order, each from what the ones before it left.\<close>

function apply_within :: "ctx \<Rightarrow> ty \<Rightarrow> nat \<Rightarrow> (ty \<times> nat) option"
  and apply_all :: "ctx \<Rightarrow> ty list \<Rightarrow> nat \<Rightarrow> (ty list \<times> nat) option" where
  "apply_within s t 0 = None"
| "apply_within s t (Suc left) =
     (case resolve_type_shallow s t of
        None \<Rightarrow> None
      | Some u \<Rightarrow>
          (case apply_all s (ty_args u) left of
             None \<Rightarrow> None
           | Some (us, left') \<Rightarrow> Some (ty_with u us (apply_row s), left')))"
| "apply_all s [] left = Some ([], left)"
| "apply_all s (t # ts) left =
     (case apply_within s t left of
        None \<Rightarrow> None
      | Some (u, left') \<Rightarrow>
          (case apply_all s ts left' of None \<Rightarrow> None | Some (us, left'') \<Rightarrow> Some (u # us, left'')))"
  by pat_completeness auto

text \<open>Writing a part out leaves less than there was.\<close>

lemma apply_within_left:
  "apply_within_apply_all_dom (Inl (s, t, left)) \<Longrightarrow> apply_within s t left = Some (u, l) \<Longrightarrow> l < left"
  "apply_within_apply_all_dom (Inr (s, ts, left)) \<Longrightarrow> apply_all s ts left = Some (us, l) \<Longrightarrow> l \<le> left"
proof (induction s t left and s ts left arbitrary: u l and us l rule: apply_within_apply_all.pinduct)
  case (2 s t left)
  then show ?case
    by (auto simp: apply_within.psimps split: option.splits) (meson less_Suc_eq_le)
next
  case (4 s t ts left)
  then show ?case by (fastforce simp: apply_all.psimps split: option.splits)
qed (auto simp: apply_within.psimps apply_all.psimps)

termination apply_within
  by (relation "measure (\<lambda>x. case x of Inl (s, t, left) \<Rightarrow> 2 * left | Inr (s, ts, left) \<Rightarrow> Suc (2 * left))")
    (auto dest: apply_within_left)

text \<open>The parts a type needs written out, counted and not written.\<close>

function count_within :: "ctx \<Rightarrow> ty \<Rightarrow> nat \<Rightarrow> nat option"
  and count_all :: "ctx \<Rightarrow> ty list \<Rightarrow> nat \<Rightarrow> nat option" where
  "count_within s t 0 = None"
| "count_within s t (Suc left) =
     (case resolve_type_shallow s t of None \<Rightarrow> None | Some u \<Rightarrow> count_all s (ty_args u) left)"
| "count_all s [] left = Some left"
| "count_all s (t # ts) left =
     (case count_within s t left of None \<Rightarrow> None | Some left' \<Rightarrow> count_all s ts left')"
  by pat_completeness auto

lemma count_within_left:
  "count_within_count_all_dom (Inl (s, t, left)) \<Longrightarrow> count_within s t left = Some l \<Longrightarrow> l < left"
  "count_within_count_all_dom (Inr (s, ts, left)) \<Longrightarrow> count_all s ts left = Some l \<Longrightarrow> l \<le> left"
proof (induction s t left and s ts left arbitrary: l and l rule: count_within_count_all.pinduct)
  case (4 s t ts left)
  then show ?case by (fastforce simp: count_all.psimps split: option.splits)
qed (auto simp: count_within.psimps count_all.psimps less_Suc_eq_le split: option.splits)

termination count_within
  by (relation "measure (\<lambda>x. case x of Inl (s, t, left) \<Rightarrow> 2 * left | Inr (s, ts, left) \<Rightarrow> Suc (2 * left))")
    (auto dest: count_within_left)

definition parts_within :: "ctx \<Rightarrow> ty \<Rightarrow> nat \<Rightarrow> nat option" where
  "parts_within s t limit = map_option (\<lambda>left. limit - left) (count_within s t limit)"

definition parts_budget :: "ctx \<Rightarrow> nat" where
  "parts_budget s =
     (if too_large s then TYPE_PARTS_FREE
      else max (min TYPE_PARTS_LIMIT (TYPE_PARTS_TOTAL - written s)) TYPE_PARTS_FREE)"

definition apply_type :: "ctx \<Rightarrow> ty \<Rightarrow> ty \<times> ctx" where
  "apply_type s t =
     (case apply_within s t (parts_budget s) of
        Some (full, left) \<Rightarrow>
          let parts = parts_budget s - left
          in (full, if TYPE_PARTS_FREE < parts then s\<lparr>written := min u64_max (written s + parts)\<rparr> else s)
      | None \<Rightarrow> (case resolve_type_shallow s t of Some u \<Rightarrow> u | None \<Rightarrow> t, s\<lparr>too_large := True\<rparr>))"

section \<open>The occurs check\<close>

text \<open>Each bound variable is followed once: \<open>explored\<close> holds those whose binding was searched.\<close>

function occurs_in :: "ctx \<Rightarrow> nat \<Rightarrow> ty \<Rightarrow> nat fset \<Rightarrow> bool \<times> nat fset"
  and occurs_any :: "ctx \<Rightarrow> nat \<Rightarrow> ty list \<Rightarrow> nat fset \<Rightarrow> bool \<times> nat fset" where
  "occurs_in s v t ex =
     (case var_of t of
        Some w \<Rightarrow>
          if w = v then (True, ex)
          else (case type_binding s w of
                  Some b \<Rightarrow> if w |\<notin>| ex then occurs_in s v b (finsert w ex) else (False, ex)
                | None \<Rightarrow> (False, ex))
      | None \<Rightarrow> occurs_any s v (ty_args t) ex)"
| "occurs_any s v [] ex = (False, ex)"
| "occurs_any s v (t # ts) ex =
     (case occurs_in s v t ex of (True, ex') \<Rightarrow> (True, ex') | (False, ex') \<Rightarrow> occurs_any s v ts ex')"
  by pat_completeness auto

lemma occurs_explored:
  "occurs_in_occurs_any_dom (Inl (s, v, t, ex)) \<Longrightarrow> ex |\<subseteq>| snd (occurs_in s v t ex)"
  "occurs_in_occurs_any_dom (Inr (s, v, ts, ex)) \<Longrightarrow> ex |\<subseteq>| snd (occurs_any s v ts ex)"
proof (induction s v t ex and s v ts ex rule: occurs_in_occurs_any.pinduct)
  case (1 s v t ex)
  then show ?case
  proof (cases "var_of t")
    case None
    with 1 show ?thesis by (simp add: occurs_in.psimps)
  next
    case (Some w)
    with 1 show ?thesis by (cases "type_binding s w"; cases "w |\<in>| ex") (auto simp: occurs_in.psimps)
  qed
next
  case (3 s v t ts ex)
  obtain r ex' where r: "occurs_in s v t ex = (r, ex')" by (cases "occurs_in s v t ex")
  with 3 show ?case by (cases r) (auto simp: occurs_any.psimps)
qed (simp add: occurs_any.psimps)

definition unexplored :: "ctx \<Rightarrow> nat fset \<Rightarrow> nat" where
  "unexplored s ex = card ({..<length (type_bindings s)} - fset ex)"

lemma unexplored_mono: "ex |\<subseteq>| ex' \<Longrightarrow> unexplored s ex' \<le> unexplored s ex"
  unfolding unexplored_def by (intro card_mono) (auto simp: less_eq_fset.rep_eq)

lemma unexplored_insert: "type_binding s w = Some b \<Longrightarrow> w |\<notin>| ex \<Longrightarrow> unexplored s (finsert w ex) < unexplored s ex"
  unfolding unexplored_def nth_binding_def
  by (intro psubset_card_mono) (auto split: if_splits)

lemma occurs_explored_le:
  "(r, ex') = occurs_in s v t ex \<Longrightarrow> occurs_in_occurs_any_dom (Inl (s, v, t, ex)) \<Longrightarrow> unexplored s ex' \<le> unexplored s ex"
  using occurs_explored(1)[of s v t ex] unexplored_mono[of ex ex' s] by (metis snd_conv)

termination occurs_in
  apply (relation "measures [\<lambda>x. case x of Inl (s, v, t, ex) \<Rightarrow> unexplored s ex | Inr (s, v, ts, ex) \<Rightarrow> unexplored s ex,
      \<lambda>x. case x of Inl (s, v, t, ex) \<Rightarrow> 2 * ty_parts t | Inr (s, v, ts, ex) \<Rightarrow> Suc (2 * sum_list (map ty_parts ts))]")
  subgoal by (rule wf_measures)
  subgoal for s v t ex using ty_parts_args[of t] by simp
  subgoal by (simp add: unexplored_insert)
  subgoal by simp
  subgoal for s v t ts ex x y
    using occurs_explored_le[of False y s v t ex] ty_parts_args[of t] by auto
  done

declare occurs_in.simps [simp del]

lemma occurs_in_var:
  "occurs_in s v (TVar w) ex =
     (if w = v then (True, ex)
      else (case type_binding s w of
              Some b \<Rightarrow> if w |\<notin>| ex then occurs_in s v b (finsert w ex) else (False, ex)
            | None \<Rightarrow> (False, ex)))"
  by (subst occurs_in.simps) simp

lemma occurs_in_parts: "var_of t = None \<Longrightarrow> occurs_in s v t ex = occurs_any s v (ty_args t) ex"
  by (subst occurs_in.simps) simp

definition occurs_type :: "ctx \<Rightarrow> nat \<Rightarrow> ty \<Rightarrow> bool" where
  "occurs_type s v t = fst (occurs_in s v t {||})"

section \<open>Unifying rows\<close>

definition bind_row :: "nat \<Rightarrow> row \<Rightarrow> ctx \<Rightarrow> (unify_error + unit) \<times> ctx" where
  "bind_row v r s =
     (if r_tail (apply_row s r) = Some v then (Inl OccursCheck, s)
      else (Inr (), s\<lparr>row_bindings := (row_bindings s)[v := Some r]\<rparr>))"

definition row_error :: "bool \<Rightarrow> unify_error" where
  "row_error expanded = (if expanded then RowConflict else RowMismatch)"

text \<open>An open row against a closed one: the tail is bound to what is missing.\<close>

definition close_row :: "bool \<Rightarrow> effect fset \<Rightarrow> nat \<Rightarrow> effect fset \<Rightarrow> ctx \<Rightarrow> (unify_error + unit) \<times> ctx" where
  "close_row expanded open_effects v closed_effects s =
     (if \<not> open_effects |\<subseteq>| closed_effects \<or> rigid_row s v then (Inl (row_error expanded), s)
      else bind_row v (closed_row (closed_effects |-| open_effects)) s)"

definition unify_row :: "row \<Rightarrow> row \<Rightarrow> ctx \<Rightarrow> ((unify_error + unit) \<times> ctx) option" where
  "unify_row a b s =
     (case (resolve_row_tracked s a, resolve_row_tracked s b) of
        (Some (ra, exp_a), Some (rb, exp_b)) \<Rightarrow>
          let expanded = exp_a \<or> exp_b
          in Some (case (r_tail ra, r_tail rb) of
               (None, None) \<Rightarrow>
                 if r_effects ra = r_effects rb then (Inr (), s) else (Inl (row_error expanded), s)
             | (Some rv, None) \<Rightarrow> close_row expanded (r_effects ra) rv (r_effects rb) s
             | (None, Some rv) \<Rightarrow> close_row expanded (r_effects rb) rv (r_effects ra) s
             | (Some rv, Some sv) \<Rightarrow>
                 if rv = sv then
                   if r_effects ra = r_effects rb then (Inr (), s) else (Inl RowConflict, s)
                 else if rigid_row s rv \<or> rigid_row s sv then
                   let (fixed, flex, fixed_effects, flex_effects) =
                         (if rigid_row s rv then (rv, sv, r_effects ra, r_effects rb)
                          else (sv, rv, r_effects rb, r_effects ra))
                   in if rigid_row s flex \<or> \<not> flex_effects |\<subseteq>| fixed_effects then (Inl (row_error expanded), s)
                      else bind_row flex \<lparr>r_effects = fixed_effects |-| flex_effects, r_tail = Some fixed\<rparr> s
                 else
                   let (fresh, s1) = fresh_row_var s
                   in case bind_row rv \<lparr>r_effects = r_effects rb |-| r_effects ra, r_tail = Some fresh\<rparr> s1 of
                        (Inl e, s2) \<Rightarrow> (Inl e, s2)
                      | (Inr _, s2) \<Rightarrow> bind_row sv \<lparr>r_effects = r_effects ra |-| r_effects rb, r_tail = Some fresh\<rparr> s2)
      | _ \<Rightarrow> None)"

section \<open>Unifying types\<close>

text \<open>Each pair of bound variables is unified once: \<open>None\<close> when there is nothing to do for a pair, otherwise the
  pairs met with it.\<close>

definition meet_pair :: "ctx \<Rightarrow> ty \<Rightarrow> ty \<Rightarrow> (nat \<times> nat) fset \<Rightarrow> (nat \<times> nat) fset option" where
  "meet_pair s a b met =
     (case (var_of a, var_of b) of
        (Some x, Some y) \<Rightarrow>
          if x = y then None
          else if type_binding s x \<noteq> None \<and> type_binding s y \<noteq> None then
            if (x, y) |\<in>| met then None else Some (finsert (x, y) met)
          else Some met
      | _ \<Rightarrow> Some met)"

definition flexible_var :: "ctx \<Rightarrow> ty \<Rightarrow> nat option" where
  "flexible_var s t = (case var_of t of Some v \<Rightarrow> if rigid_type s v then None else Some v | None \<Rightarrow> None)"

definition bind_type :: "nat \<Rightarrow> ty \<Rightarrow> ctx \<Rightarrow> (unify_error + unit) \<times> ctx" where
  "bind_type v t s =
     (if occurs_type s v t then (Inl OccursCheck, s)
      else (Inr (), s\<lparr>type_bindings := (type_bindings s)[v := Some t]\<rparr>))"

definition unify_rows_of :: "ty \<Rightarrow> ty \<Rightarrow> ctx \<Rightarrow> ((unify_error + unit) \<times> ctx) option" where
  "unify_rows_of a b s =
     (case (ty_row a, ty_row b) of (Some ra, Some rb) \<Rightarrow> unify_row ra rb s | _ \<Rightarrow> Some (Inr (), s))"

text \<open>The arms of the source's match: a variable with itself, a flexible variable on either side, the same
  constructor with the same name and as many parts, whose parts are unified in order and then its rows.\<close>

fun unify_in ::
    "nat \<Rightarrow> ty \<Rightarrow> ty \<Rightarrow> (nat \<times> nat) fset \<Rightarrow> ctx \<Rightarrow> ((unify_error + unit) \<times> (nat \<times> nat) fset \<times> ctx) option"
  and unify_all ::
    "nat \<Rightarrow> (ty \<times> ty) list \<Rightarrow> (nat \<times> nat) fset \<Rightarrow> ctx \<Rightarrow> ((unify_error + unit) \<times> (nat \<times> nat) fset \<times> ctx) option" where
  "unify_in 0 a b met s = None"
| "unify_in (Suc k) a b met s =
     (case meet_pair s a b met of
        None \<Rightarrow> Some (Inr (), met, s)
      | Some met1 \<Rightarrow>
          (case (resolve_type_shallow s a, resolve_type_shallow s b) of
             (Some t, Some u) \<Rightarrow>
               if var_of t \<noteq> None \<and> t = u then Some (Inr (), met1, s)
               else (case (flexible_var s t, flexible_var s u) of
                       (Some v, _) \<Rightarrow> (case bind_type v u s of (r, s1) \<Rightarrow> Some (r, met1, s1))
                     | (None, Some v) \<Rightarrow> (case bind_type v t s of (r, s1) \<Rightarrow> Some (r, met1, s1))
                     | (None, None) \<Rightarrow>
                         if ty_head t = ty_head u \<and> length (ty_args t) = length (ty_args u) then
                           (case unify_all k (zip (ty_args t) (ty_args u)) met1 s of
                              None \<Rightarrow> None
                            | Some (Inl e, met2, s1) \<Rightarrow> Some (Inl e, met2, s1)
                            | Some (Inr _, met2, s1) \<Rightarrow>
                                (case unify_rows_of t u s1 of None \<Rightarrow> None | Some (r, s2) \<Rightarrow> Some (r, met2, s2)))
                         else Some (Inl TypeMismatch, met1, s))
           | _ \<Rightarrow> None))"
| "unify_all k [] met s = Some (Inr (), met, s)"
| "unify_all k (p # ps) met s =
     (case unify_in k (fst p) (snd p) met s of
        None \<Rightarrow> None
      | Some (Inl e, met1, s1) \<Rightarrow> Some (Inl e, met1, s1)
      | Some (Inr _, met1, s1) \<Rightarrow> unify_all k ps met1 s1)"

definition unify_type :: "nat \<Rightarrow> ty \<Rightarrow> ty \<Rightarrow> ctx \<Rightarrow> ((unify_error + unit) \<times> ctx) option" where
  "unify_type k a b s = map_option (\<lambda>(r, met, s1). (r, s1)) (unify_in k a b {||} s)"

end
