(* ===== verification/Unify_Inv.thy ===== *)
theory Unify_Inv imports Unify begin

text \<open>
  What a context means and what keeps it well formed. An assignment of types and rows solves a context when every
  bound variable is assigned what its binding is assigned; a context is well formed when its bindings stay within
  it, no variable lies inside its own binding, and no rigid variable is bound. Every loop over the bindings of such
  a context ends, such a context has a solution for any choice of its unbound variables, and the occurs check
  decides whether a variable lies inside a type through the bindings.
\<close>

section \<open>Taking types apart and putting them together\<close>

lemma ty_with_parts:
  assumes "length us = length (ty_args t)"
  shows "ty_args (ty_with t us f) = us" "ty_head (ty_with t us f) = ty_head t" "ty_row (ty_with t us f) = map_option f (ty_row t)"
    "var_of (ty_with t us f) = var_of t"
proof -
  have "us \<noteq> [] \<and> length (butlast us) = length ps" if "t = TFn ps r w" for ps r w
    using that assms by (auto simp: length_butlast)
  then show "ty_args (ty_with t us f) = us" "ty_head (ty_with t us f) = ty_head t"
    "ty_row (ty_with t us f) = map_option f (ty_row t)" "var_of (ty_with t us f) = var_of t"
    using assms by (cases t; force simp: length_Suc_conv var_of_def)+
qed

lemma var_of_via_head: "var_of t = (case ty_head t of HVar v \<Rightarrow> Some v | _ \<Rightarrow> None)"
  by (cases t) (auto simp: var_of_def)

lemma var_of_head: "ty_head a = ty_head b \<Longrightarrow> var_of a = var_of b"
  by (simp add: var_of_via_head)

lemma ty_args_var [simp]: "var_of t = Some v \<Longrightarrow> ty_args t = []"
  by simp

section \<open>Assignments\<close>

text \<open>A type under an assignment of its variables, with every row changed by \<open>f\<close>.\<close>

function inst :: "(nat \<Rightarrow> ty) \<Rightarrow> (row \<Rightarrow> row) \<Rightarrow> ty \<Rightarrow> ty" where
  "inst \<theta> f t = (case var_of t of Some v \<Rightarrow> \<theta> v | None \<Rightarrow> ty_with t (map (inst \<theta> f) (ty_args t)) f)"
  by auto
termination by (relation "measure (\<lambda>(\<theta>, f, t). size t)") (auto simp: ty_args_size)

declare inst.simps [simp del]

lemma inst_var [simp]: "inst \<theta> f (TVar v) = \<theta> v"
  by (simp add: inst.simps)

lemma inst_parts:
  assumes "var_of t = None"
  shows "ty_args (inst \<theta> f t) = map (inst \<theta> f) (ty_args t)" "ty_head (inst \<theta> f t) = ty_head t"
    "ty_row (inst \<theta> f t) = map_option f (ty_row t)" "var_of (inst \<theta> f t) = None"
  using ty_with_parts[of "map (inst \<theta> f) (ty_args t)" t f] assms by (simp_all add: inst.simps[of \<theta> f t])

lemma inst_eq_iff:
  assumes "var_of a = None" "var_of b = None"
  shows "inst \<theta> f a = inst \<theta> f b \<longleftrightarrow>
    ty_head a = ty_head b \<and> map (inst \<theta> f) (ty_args a) = map (inst \<theta> f) (ty_args b) \<and>
    map_option f (ty_row a) = map_option f (ty_row b)"
  using inst_parts[OF assms(1)] inst_parts[OF assms(2)] ty_eqI by metis

text \<open>The variables of a type, and of its rows.\<close>

function tvars :: "ty \<Rightarrow> nat set" where
  "tvars t = (case var_of t of Some v \<Rightarrow> {v} | None \<Rightarrow> \<Union> (tvars ` set (ty_args t)))"
  by auto
termination by (relation "measure size") (auto simp: ty_args_size)

function rvars :: "ty \<Rightarrow> nat set" where
  "rvars t = (case ty_row t of Some r \<Rightarrow> set_option (r_tail r) | None \<Rightarrow> {}) \<union> \<Union> (rvars ` set (ty_args t))"
  by auto
termination by (relation "measure size") (auto simp: ty_args_size)

declare tvars.simps [simp del] rvars.simps [simp del]

lemma tvars_var [simp]: "tvars (TVar v) = {v}" "rvars (TVar v) = {}"
  by (simp_all add: tvars.simps[of "TVar v"] rvars.simps[of "TVar v"])

lemma tvars_parts: "var_of t = None \<Longrightarrow> tvars t = \<Union> (tvars ` set (ty_args t))"
  by (simp add: tvars.simps[of t])

lemma tvars_arg: "u \<in> set (ty_args t) \<Longrightarrow> tvars u \<subseteq> tvars t"
  by (cases "var_of t") (auto simp: tvars_parts)

lemma rvars_arg: "u \<in> set (ty_args t) \<Longrightarrow> rvars u \<subseteq> rvars t"
  by (auto simp: rvars.simps[of t])

lemma rvars_row: "ty_row t = Some r \<Longrightarrow> r_tail r = Some v \<Longrightarrow> v \<in> rvars t"
  by (auto simp: rvars.simps[of t])

lemma inst_cong:
  "(\<And>v. v \<in> tvars t \<Longrightarrow> \<theta> v = \<eta> v) \<Longrightarrow> inst \<theta> f t = inst \<eta> f t"
proof (induction t rule: ty_args_induct)
  case (parts t)
  show ?case
  proof (cases "var_of t")
    case None
    then have "map (inst \<theta> f) (ty_args t) = map (inst \<eta> f) (ty_args t)"
      using parts tvars_arg by (intro map_cong) blast+
    with None show ?thesis by (simp add: inst.simps[of \<theta> f t] inst.simps[of \<eta> f t] del: map_eq_conv)
  qed (use parts.prems in auto)
qed

lemma finite_tvars [simp]: "finite (tvars t)"
proof (induction t rule: ty_args_induct)
  case (parts t)
  then show ?case by (cases "var_of t") (auto simp: tvars.simps[of t])
qed

lemma ty_parts_pos [simp]: "0 < ty_parts t"
  using ty_parts_args[of t] by simp

text \<open>A variable's type is no larger than the type it lies in, and smaller when it lies inside.\<close>

lemma inst_size:
  "v \<in> tvars t \<Longrightarrow> ty_parts (\<theta> v) \<le> ty_parts (inst \<theta> f t) \<and> (t \<noteq> TVar v \<longrightarrow> ty_parts (\<theta> v) < ty_parts (inst \<theta> f t))"
proof (induction t rule: ty_args_induct)
  case (parts t)
  show ?case
  proof (cases "var_of t")
    case None
    then obtain u where u: "u \<in> set (ty_args t)" "v \<in> tvars u" using parts.prems by (auto simp: tvars_parts)
    then have "ty_parts (inst \<theta> f u) \<le> sum_list (map ty_parts (map (inst \<theta> f) (ty_args t)))"
      by (intro member_le_sum_list) auto
    then show ?thesis
      using parts.IH[OF u] inst_parts(1)[OF None] ty_parts_args[of "inst \<theta> f t"] by simp
  qed (use parts.prems in auto)
qed

section \<open>Well-formed contexts\<close>

definition inside :: "ctx \<Rightarrow> (nat \<times> nat) set" where
  "inside s = {(w, v). \<exists>b. type_binding s v = Some b \<and> w \<in> tvars b}"

definition row_inside :: "ctx \<Rightarrow> (nat \<times> nat) set" where
  "row_inside s = {(w, v). \<exists>r. row_binding s v = Some r \<and> r_tail r = Some w}"

definition row_in_range :: "ctx \<Rightarrow> row \<Rightarrow> bool" where
  "row_in_range s r \<longleftrightarrow> (\<forall>v. r_tail r = Some v \<longrightarrow> v < length (row_bindings s))"

definition in_range :: "ctx \<Rightarrow> ty \<Rightarrow> bool" where
  "in_range s t \<longleftrightarrow> tvars t \<subseteq> {..<length (type_bindings s)} \<and> rvars t \<subseteq> {..<length (row_bindings s)}"

definition ctx_ok :: "ctx \<Rightarrow> bool" where
  "ctx_ok s \<longleftrightarrow>
     length (type_rigid s) = length (type_bindings s) \<and> length (row_rigid s) = length (row_bindings s) \<and>
     (\<forall>v b. type_binding s v = Some b \<longrightarrow> in_range s b \<and> \<not> rigid_type s v) \<and>
     (\<forall>v r. row_binding s v = Some r \<longrightarrow> row_in_range s r \<and> \<not> rigid_row s v) \<and>
     acyclic (inside s) \<and> acyclic (row_inside s)"

lemma nth_binding_Some: "nth_binding xs v = Some b \<longleftrightarrow> v < length xs \<and> xs ! v = Some b"
  by (auto simp: nth_binding_def)

lemma in_range_arg: "in_range s t \<Longrightarrow> u \<in> set (ty_args t) \<Longrightarrow> in_range s u"
  using tvars_arg rvars_arg unfolding in_range_def by blast

lemma in_range_row: "in_range s t \<Longrightarrow> ty_row t = Some r \<Longrightarrow> row_in_range s r"
  using rvars_row unfolding in_range_def row_in_range_def by blast

lemma in_range_var [simp]: "in_range s (TVar v) \<longleftrightarrow> v < length (type_bindings s)"
  by (simp add: in_range_def)

lemma wf_inside: "ctx_ok s \<Longrightarrow> wf (inside s)"
proof -
  assume ok: "ctx_ok s"
  then have "inside s \<subseteq> {..<length (type_bindings s)} \<times> {..<length (type_bindings s)}"
    by (auto simp: inside_def ctx_ok_def in_range_def nth_binding_Some)
  then have "finite (inside s)" by (rule finite_subset) simp
  then show ?thesis using ok finite_acyclic_wf unfolding ctx_ok_def by blast
qed

lemma wf_row_inside: "ctx_ok s \<Longrightarrow> wf (row_inside s)"
proof -
  assume ok: "ctx_ok s"
  then have "row_inside s \<subseteq> {..<length (row_bindings s)} \<times> {..<length (row_bindings s)}"
    by (auto simp: row_inside_def ctx_ok_def row_in_range_def nth_binding_Some)
  then have "finite (row_inside s)" by (rule finite_subset) simp
  then show ?thesis using ok finite_acyclic_wf unfolding ctx_ok_def by blast
qed

text \<open>The fresh variables keep a context well formed.\<close>

lemma nth_binding_snoc [simp]: "nth_binding (xs @ [None]) v = nth_binding xs v"
  by (auto simp: nth_binding_def nth_append)

lemma new_ctx_ok: "ctx_ok new_ctx"
  by (simp add: ctx_ok_def new_ctx_def nth_binding_def inside_def row_inside_def acyclic_def)

lemma in_range_mono:
  "in_range s t \<Longrightarrow> length (type_bindings s) \<le> length (type_bindings c) \<Longrightarrow>
   length (row_bindings s) \<le> length (row_bindings c) \<Longrightarrow> in_range c t"
  unfolding in_range_def by fastforce

lemma row_in_range_mono:
  "row_in_range s r \<Longrightarrow> length (row_bindings s) \<le> length (row_bindings c) \<Longrightarrow> row_in_range c r"
  unfolding row_in_range_def by fastforce

lemma fresh_type_ok:
  assumes "ctx_ok s" shows "ctx_ok (snd (fresh_type s))" "in_range (snd (fresh_type s)) (fst (fresh_type s))"
proof -
  let ?c = "snd (fresh_type s)"
  have len: "length (type_bindings s) \<le> length (type_bindings ?c)" "length (row_bindings s) \<le> length (row_bindings ?c)"
    by (simp_all add: fresh_type_def)
  have b: "type_binding ?c v = type_binding s v" "row_binding ?c v = row_binding s v" for v by (simp_all add: fresh_type_def)
  then have "inside ?c = inside s" "row_inside ?c = row_inside s" by (simp_all add: inside_def row_inside_def)
  moreover have "rigid_type ?c v = rigid_type s v" "rigid_row ?c v = rigid_row s v" for v
    using assms by (auto simp: fresh_type_def rigid_type_def rigid_row_def ctx_ok_def nth_append)
  moreover have "length (type_rigid ?c) = length (type_bindings ?c) \<and> length (row_rigid ?c) = length (row_bindings ?c)"
    using assms by (simp add: fresh_type_def ctx_ok_def)
  ultimately show "ctx_ok ?c"
    using assms b in_range_mono[OF _ len] row_in_range_mono[OF _ len(2)] unfolding ctx_ok_def by auto
  show "in_range ?c (fst (fresh_type s))" by (simp add: fresh_type_def)
qed

lemma fresh_row_var_ok:
  assumes "ctx_ok s" shows "ctx_ok (snd (fresh_row_var s))"
proof -
  let ?c = "snd (fresh_row_var s)"
  have len: "length (type_bindings s) \<le> length (type_bindings ?c)" "length (row_bindings s) \<le> length (row_bindings ?c)"
    by (simp_all add: fresh_row_var_def)
  have b: "type_binding ?c v = type_binding s v" "row_binding ?c v = row_binding s v" for v by (simp_all add: fresh_row_var_def)
  then have "inside ?c = inside s" "row_inside ?c = row_inside s" by (simp_all add: inside_def row_inside_def)
  moreover have "rigid_type ?c v = rigid_type s v" "rigid_row ?c v = rigid_row s v" for v
    using assms by (auto simp: fresh_row_var_def rigid_type_def rigid_row_def ctx_ok_def nth_append)
  moreover have "length (type_rigid ?c) = length (type_bindings ?c) \<and> length (row_rigid ?c) = length (row_bindings ?c)"
    using assms by (simp add: fresh_row_var_def ctx_ok_def)
  ultimately show ?thesis
    using assms b in_range_mono[OF _ len] row_in_range_mono[OF _ len(2)] unfolding ctx_ok_def by auto
qed

text \<open>A variable that nothing is bound to yet may be declared rigid.\<close>

lemma rigid_update:
  "rigid_type (s\<lparr>type_rigid := (type_rigid s)[v := True]\<rparr>) w \<longleftrightarrow> rigid_type s w \<or> w = v \<and> v < length (type_rigid s)"
  "rigid_row (s\<lparr>row_rigid := (row_rigid s)[v := True]\<rparr>) w \<longleftrightarrow> rigid_row s w \<or> w = v \<and> v < length (row_rigid s)"
  by (cases "v = w"; auto simp: rigid_type_def rigid_row_def)+

lemma rigid_ok:
  assumes "ctx_ok s" "type_binding s v = None"
  shows "ctx_ok (s\<lparr>type_rigid := (type_rigid s)[v := True]\<rparr>)"
  using assms
  by (auto simp: rigid_update ctx_ok_def rigid_row_def inside_def row_inside_def in_range_def row_in_range_def)

lemma rigid_row_ok:
  assumes "ctx_ok s" "row_binding s v = None"
  shows "ctx_ok (s\<lparr>row_rigid := (row_rigid s)[v := True]\<rparr>)"
  using assms
  by (auto simp: rigid_update ctx_ok_def rigid_type_def inside_def row_inside_def in_range_def row_in_range_def)

lemma fresh_rigid_ok:
  assumes "ctx_ok s"
  shows "ctx_ok (snd (fresh_rigid_type s))" "ctx_ok (snd (fresh_rigid_row_var s))"
proof -
  have "type_binding (snd (fresh_type s)) (length (type_bindings s)) = None"
    "row_binding (snd (fresh_row_var s)) (length (row_bindings s)) = None"
    by (simp_all add: fresh_type_def fresh_row_var_def nth_binding_def)
  then show "ctx_ok (snd (fresh_rigid_type s))" "ctx_ok (snd (fresh_rigid_row_var s))"
    using rigid_ok[OF fresh_type_ok(1)[OF assms]] rigid_row_ok[OF fresh_row_var_ok[OF assms]]
    by (simp_all add: fresh_rigid_type_def fresh_rigid_row_var_def fresh_type_def fresh_row_var_def)
qed

section \<open>Solutions\<close>

definition solves_types :: "ctx \<Rightarrow> (row \<Rightarrow> row) \<Rightarrow> (nat \<Rightarrow> ty) \<Rightarrow> bool" where
  "solves_types s f \<theta> \<longleftrightarrow> (\<forall>v b. type_binding s v = Some b \<longrightarrow> \<theta> v = inst \<theta> f b)"

definition row_inst :: "(nat \<Rightarrow> row) \<Rightarrow> row \<Rightarrow> row" where
  "row_inst \<rho> r =
     (case r_tail r of
        None \<Rightarrow> r
      | Some v \<Rightarrow> \<lparr>r_effects = r_effects r |\<union>| r_effects (\<rho> v), r_tail = r_tail (\<rho> v)\<rparr>)"

definition solves_rows :: "ctx \<Rightarrow> (nat \<Rightarrow> row) \<Rightarrow> bool" where
  "solves_rows s \<rho> \<longleftrightarrow> (\<forall>v r. row_binding s v = Some r \<longrightarrow> \<rho> v = row_inst \<rho> r)"

definition solves :: "ctx \<Rightarrow> (nat \<Rightarrow> ty) \<Rightarrow> (nat \<Rightarrow> row) \<Rightarrow> bool" where
  "solves s \<theta> \<rho> \<longleftrightarrow> solves_rows s \<rho> \<and> solves_types s (row_inst \<rho>) \<theta>"

text \<open>Any choice for the unbound variables extends to a solution.\<close>

lemma types_solvable:
  assumes "ctx_ok s"
  obtains \<theta> where "solves_types s f \<theta>" "\<And>v. type_binding s v = None \<Longrightarrow> \<theta> v = g v"
proof
  let ?F = "\<lambda>k v. case type_binding s v of Some b \<Rightarrow> inst k f b | None \<Rightarrow> g v"
  let ?\<theta> = "wfrec (inside s) ?F"
  have step: "?\<theta> v = ?F (cut ?\<theta> (inside s) v) v" for v by (rule wfrec[OF wf_inside[OF assms]])
  have "?\<theta> v = inst ?\<theta> f b" if b: "type_binding s v = Some b" for v b
  proof -
    have "(w, v) \<in> inside s" if "w \<in> tvars b" for w using that b by (auto simp: inside_def)
    then have "inst (cut ?\<theta> (inside s) v) f b = inst ?\<theta> f b" by (intro inst_cong) (simp add: cut_apply)
    then show ?thesis using step[of v] b by simp
  qed
  then show "solves_types s f ?\<theta>" by (simp add: solves_types_def)
  show "?\<theta> v = g v" if "type_binding s v = None" for v using step[of v] that by simp
qed

lemma rows_solvable:
  assumes "ctx_ok s"
  obtains \<rho> where "solves_rows s \<rho>" "\<And>v. row_binding s v = None \<Longrightarrow> \<rho> v = h v"
proof
  let ?F = "\<lambda>k v. case row_binding s v of Some b \<Rightarrow> row_inst k b | None \<Rightarrow> h v"
  let ?\<rho> = "wfrec (row_inside s) ?F"
  have step: "?\<rho> v = ?F (cut ?\<rho> (row_inside s) v) v" for v by (rule wfrec[OF wf_row_inside[OF assms]])
  have "?\<rho> v = row_inst ?\<rho> b" if b: "row_binding s v = Some b" for v b
  proof -
    have "(w, v) \<in> row_inside s" if "r_tail b = Some w" for w using that b by (auto simp: row_inside_def)
    then have "row_inst (cut ?\<rho> (row_inside s) v) b = row_inst ?\<rho> b"
      by (simp add: row_inst_def cut_apply split: option.split)
    then show ?thesis using step[of v] b by simp
  qed
  then show "solves_rows s ?\<rho>" by (simp add: solves_rows_def)
  show "?\<rho> v = h v" if "row_binding s v = None" for v using step[of v] that by simp
qed

section \<open>The loops end\<close>

lemma resolve_step:
  "resolve_type_shallow s t =
     (if is_bound s t then resolve_type_shallow s (bound_to s t) else Some t)"
  unfolding resolve_type_shallow_def by (rule while_option_unfold)

lemma is_bound_var: "is_bound s t \<longleftrightarrow> (\<exists>v b. t = TVar v \<and> type_binding s v = Some b)"
  by (auto simp: is_bound_def split: option.splits)

lemma resolve_unbound [simp]: "\<not> is_bound s t \<Longrightarrow> resolve_type_shallow s t = Some t"
  by (simp add: resolve_step[of s t])

lemma resolve_bound: "type_binding s v = Some b \<Longrightarrow> resolve_type_shallow s (TVar v) = resolve_type_shallow s b"
  by (simp add: resolve_step[of s "TVar v"] is_bound_def bound_to_def)

lemma resolve_var:
  assumes "ctx_ok s" "type_binding s v = Some b"
  shows "\<exists>u. resolve_type_shallow s (TVar v) = Some u \<and> \<not> is_bound s u \<and> in_range s u \<and> tvars u \<subseteq> {w. (w, v) \<in> (inside s)\<^sup>+} \<and>
    (\<forall>f \<theta>. solves_types s f \<theta> \<longrightarrow> inst \<theta> f u = \<theta> v)"
  using assms(2)
proof (induction v arbitrary: b rule: wf_induct_rule[OF wf_inside[OF assms(1)]])
  case (1 v)
  have sub: "w \<in> tvars b \<Longrightarrow> (w, v) \<in> inside s" for w using 1(2) by (auto simp: inside_def)
  have val: "solves_types s f \<theta> \<Longrightarrow> \<theta> v = inst \<theta> f b" for f \<theta> using 1(2) by (auto simp: solves_types_def)
  show ?case
  proof (cases "is_bound s b")
    case False
    moreover have "in_range s b" using assms(1) 1(2) unfolding ctx_ok_def by blast
    ultimately show ?thesis using sub val by (auto simp: resolve_bound[OF 1(2)])
  next
    case True
    then obtain w c where w: "b = TVar w" "type_binding s w = Some c" by (auto simp: is_bound_var)
    then have "(w, v) \<in> inside s" using sub by simp
    moreover obtain u where u: "resolve_type_shallow s (TVar w) = Some u" "\<not> is_bound s u" "in_range s u"
      "tvars u \<subseteq> {x. (x, w) \<in> (inside s)\<^sup>+}" "\<forall>f \<theta>. solves_types s f \<theta> \<longrightarrow> inst \<theta> f u = \<theta> w"
      using 1(1)[OF calculation w(2)] by blast
    ultimately have "tvars u \<subseteq> {x. (x, v) \<in> (inside s)\<^sup>+}" by (auto intro: trancl_into_trancl)
    moreover have "solves_types s f \<theta> \<Longrightarrow> inst \<theta> f u = \<theta> v" for f \<theta> using val[of f \<theta>] u(5) w(1) by simp
    ultimately show ?thesis using u by (auto simp: resolve_bound[OF 1(2)] w(1))
  qed
qed

text \<open>What a type resolves to: nothing bound, within the context, the same type under every solution; and its
  variables lie inside the variable it was reached from.\<close>

lemma resolve_ok:
  assumes "ctx_ok s" "in_range s t"
  obtains u where "resolve_type_shallow s t = Some u" "\<not> is_bound s u" "in_range s u"
    "\<And>f \<theta>. solves_types s f \<theta> \<Longrightarrow> inst \<theta> f u = inst \<theta> f t"
    "\<And>w. w \<in> tvars u \<Longrightarrow> u = t \<or> (\<exists>v. t = TVar v \<and> (w, v) \<in> (inside s)\<^sup>+)"
proof (cases "is_bound s t")
  case True
  then obtain v b where v: "t = TVar v" "type_binding s v = Some b" by (auto simp: is_bound_var)
  from resolve_var[OF assms(1) v(2)] that show thesis unfolding v(1) inst_var by blast
qed (use that assms in auto)

lemma resolve_Some: "ctx_ok s \<Longrightarrow> in_range s t \<Longrightarrow> \<exists>u. resolve_type_shallow s t = Some u"
  by (erule resolve_ok) auto

lemma resolvedD:
  assumes "ctx_ok s" "in_range s t" "resolve_type_shallow s t = Some u"
  shows "\<not> is_bound s u" "in_range s u" "solves_types s f \<theta> \<Longrightarrow> inst \<theta> f u = inst \<theta> f t"
    "w \<in> tvars u \<Longrightarrow> u = t \<or> (\<exists>v. t = TVar v \<and> (w, v) \<in> (inside s)\<^sup>+)"
  by (rule resolve_ok[OF assms(1,2)]; use assms(3) in simp)+

lemma tail_step:
  "while_option (tail_bound s) (expand_tail s) rx =
     (if tail_bound s rx then while_option (tail_bound s) (expand_tail s) (expand_tail s rx) else Some rx)"
  by (rule while_option_unfold)

lemma row_walk:
  assumes "ctx_ok s"
  shows "\<exists>q y. while_option (tail_bound s) (expand_tail s) (r, x) = Some (q, y) \<and>
    (\<forall>v. r_tail q = Some v \<longrightarrow> row_binding s v = None) \<and> (row_in_range s r \<longrightarrow> row_in_range s q) \<and>
    (\<forall>\<rho>. solves_rows s \<rho> \<longrightarrow> row_inst \<rho> q = row_inst \<rho> r)"
proof (cases "r_tail r")
  case None
  then show ?thesis by (subst tail_step) (auto simp: tail_bound_def)
next
  case (Some v)
  then show ?thesis
  proof (induction v arbitrary: r x rule: wf_induct_rule[OF wf_row_inside[OF assms]])
    case (1 v)
    show ?case
    proof (cases "row_binding s v")
      case None
      then show ?thesis using 1(2) by (subst tail_step) (auto simp: tail_bound_def)
    next
      case (Some b)
      let ?e = "\<lparr>r_effects = r_effects r |\<union>| r_effects b, r_tail = r_tail b\<rparr>"
      have st: "while_option (tail_bound s) (expand_tail s) (r, x) = while_option (tail_bound s) (expand_tail s) (?e, True)"
        using Some 1(2) by (subst tail_step) (simp add: tail_bound_def expand_tail_def)
      have val: "row_inst \<rho> ?e = row_inst \<rho> r" if "solves_rows s \<rho>" for \<rho>
      proof -
        have "\<rho> v = row_inst \<rho> b" using that Some by (auto simp: solves_rows_def)
        then show ?thesis using 1(2) by (auto simp: row_inst_def split: option.split)
      qed
      have rg: "row_in_range s ?e" using assms Some unfolding ctx_ok_def row_in_range_def by auto
      show ?thesis
      proof (cases "r_tail b")
        case None
        then show ?thesis unfolding st using val rg by (subst tail_step) (auto simp: tail_bound_def)
      next
        case (Some w)
        then have in1: "(w, v) \<in> row_inside s" using \<open>row_binding s v = Some b\<close> by (auto simp: row_inside_def)
        from 1(1)[OF in1, of ?e True] Some show ?thesis
          unfolding st using val rg 1(2) in1 by (auto intro: rtrancl_into_rtrancl)
      qed
    qed
  qed
qed

lemma resolve_row_ok:
  assumes "ctx_ok s"
  obtains q y where "resolve_row_tracked s r = Some (q, y)" "apply_row s r = q"
    "\<And>v. r_tail q = Some v \<Longrightarrow> row_binding s v = None" "row_in_range s r \<Longrightarrow> row_in_range s q"
    "\<And>\<rho>. solves_rows s \<rho> \<Longrightarrow> row_inst \<rho> q = row_inst \<rho> r"
proof -
  from row_walk[OF assms, of r False] obtain q y where
    "while_option (tail_bound s) (expand_tail s) (r, False) = Some (q, y)"
    "\<forall>v. r_tail q = Some v \<longrightarrow> row_binding s v = None" "row_in_range s r \<longrightarrow> row_in_range s q"
    "\<forall>\<rho>. solves_rows s \<rho> \<longrightarrow> row_inst \<rho> q = row_inst \<rho> r" by blast
  then show thesis using that[of q y] by (simp add: resolve_row_tracked_def apply_row_def)
qed

section \<open>The occurs check\<close>

text \<open>What a search that found nothing has seen: no variable of the type is \<open>v\<close>, and each bound one was explored; and the
  same holds of the binding of each variable explored on the way.\<close>

definition clear_of :: "ctx \<Rightarrow> nat \<Rightarrow> nat fset \<Rightarrow> nat set \<Rightarrow> bool" where
  "clear_of s v ex ws \<longleftrightarrow> (\<forall>w\<in>ws. w \<noteq> v \<and> (type_binding s w \<noteq> None \<longrightarrow> w |\<in>| ex))"

definition explored_clear :: "ctx \<Rightarrow> nat \<Rightarrow> nat fset \<Rightarrow> nat fset \<Rightarrow> bool" where
  "explored_clear s v ex ex' \<longleftrightarrow>
     ex |\<subseteq>| ex' \<and> (\<forall>w b. w |\<in>| ex' \<longrightarrow> w |\<notin>| ex \<longrightarrow> type_binding s w = Some b \<longrightarrow> clear_of s v ex' (tvars b))"

lemma clear_of_mono: "clear_of s v ex ws \<Longrightarrow> ex |\<subseteq>| ex' \<Longrightarrow> clear_of s v ex' ws"
  by (auto simp: clear_of_def less_eq_fset.rep_eq)

lemma explored_clear_trans:
  "explored_clear s v ex ex1 \<Longrightarrow> explored_clear s v ex1 ex2 \<Longrightarrow> explored_clear s v ex ex2"
  unfolding explored_clear_def using clear_of_mono by (meson order_trans)

lemma occurs_false:
  "occurs_in s v t ex = (False, ex') \<Longrightarrow> explored_clear s v ex ex' \<and> clear_of s v ex' (tvars t)"
  "occurs_any s v ts ex = (False, ex') \<Longrightarrow> explored_clear s v ex ex' \<and> (\<forall>t\<in>set ts. clear_of s v ex' (tvars t))"
proof (induction s v t ex and s v ts ex arbitrary: ex' and ex' rule: occurs_in_occurs_any.induct)
  case (1 s v t ex)
  show ?case
  proof (cases "var_of t")
    case None
    then have "occurs_any s v (ty_args t) ex = (False, ex')" using 1(3) by (simp add: occurs_in_parts)
    with 1(1)[OF None] None show ?thesis by (auto simp: tvars_parts clear_of_def)
  next
    case (Some w)
    then have wv: "w \<noteq> v" and t: "t = TVar w" using 1(3) by (auto simp: occurs_in_var split: if_splits)
    show ?thesis
    proof (cases "\<exists>b. type_binding s w = Some b \<and> w |\<notin>| ex")
      case True
      then obtain b where b: "type_binding s w = Some b" "w |\<notin>| ex" by blast
      then have "occurs_in s v b (finsert w ex) = (False, ex')" using 1(3) t wv by (simp add: occurs_in_var)
      from 1(2)[OF Some wv b this]
      have ih: "finsert w ex |\<subseteq>| ex'" "clear_of s v ex' (tvars b)"
        "\<And>x c. x |\<in>| ex' \<Longrightarrow> x |\<notin>| finsert w ex \<Longrightarrow> type_binding s x = Some c \<Longrightarrow> clear_of s v ex' (tvars c)"
        by (simp_all add: explored_clear_def)
      have "clear_of s v ex' (tvars c)" if "x |\<in>| ex'" "x |\<notin>| ex" "type_binding s x = Some c" for x c
        using that ih(2) ih(3)[OF that(1)] b(1) by (cases "x = w") auto
      then show ?thesis using ih(1) wv unfolding t by (simp add: explored_clear_def clear_of_def)
    next
      case False
      then have "ex' = ex" using 1(3) t wv by (auto simp: occurs_in_var split: option.splits if_splits)
      with False wv show ?thesis unfolding t by (auto simp: explored_clear_def clear_of_def)
    qed
  qed
next
  case (2 s v ex)
  then show ?case by (simp add: explored_clear_def)
next
  case (3 s v t ts ex)
  then obtain ex1 where o: "occurs_in s v t ex = (False, ex1)" "occurs_any s v ts ex1 = (False, ex')"
    by (auto split: prod.splits bool.splits)
  have c1: "explored_clear s v ex ex1" "clear_of s v ex1 (tvars t)" using 3(1)[OF o(1)] by auto
  have c2: "explored_clear s v ex1 ex'" "\<forall>t\<in>set ts. clear_of s v ex' (tvars t)"
    using 3(2)[OF o(1)[symmetric] _ o(2)] by auto
  have "clear_of s v ex' (tvars t)" using clear_of_mono[OF c1(2)] c2(1) by (simp add: explored_clear_def)
  then show ?case using explored_clear_trans[OF c1(1) c2(1)] c2(2) by simp
qed

lemma occurs_true:
  "fst (occurs_in s v t ex) \<Longrightarrow> \<exists>w\<in>tvars t. (v, w) \<in> (inside s)\<^sup>*"
  "fst (occurs_any s v ts ex) \<Longrightarrow> \<exists>t\<in>set ts. \<exists>w\<in>tvars t. (v, w) \<in> (inside s)\<^sup>*"
proof (induction s v t ex and s v ts ex rule: occurs_in_occurs_any.induct)
  case (1 s v t ex)
  show ?case
  proof (cases "var_of t")
    case None
    then have "fst (occurs_any s v (ty_args t) ex)" using 1(3) by (simp add: occurs_in_parts)
    with 1(1)[OF None] None show ?thesis by (auto simp: tvars_parts)
  next
    case (Some w)
    then have t: "t = TVar w" by simp
    show ?thesis
    proof (cases "w = v")
      case False
      then obtain b where b: "type_binding s w = Some b" "w |\<notin>| ex" "fst (occurs_in s v b (finsert w ex))"
        using 1(3) t by (auto simp: occurs_in_var split: option.splits if_splits)
      then obtain x where "x \<in> tvars b" "(v, x) \<in> (inside s)\<^sup>*" using 1(2)[OF Some False b(1,2)] b(3) by blast
      then show ?thesis using b(1) unfolding t by (auto simp: inside_def intro: rtrancl_into_rtrancl)
    qed (simp add: t)
  qed
next
  case (3 s v t ts ex)
  obtain r ex1 where o: "occurs_in s v t ex = (r, ex1)" by (cases "occurs_in s v t ex")
  show ?case
  proof (cases r)
    case True
    with 3(1) o show ?thesis by simp
  next
    case False
    then have o': "(False, ex1) = occurs_in s v t ex" using o by simp
    have "fst (occurs_any s v ts ex1)" using 3(3) o False by simp
    then show ?thesis using 3(2)[OF o'] by auto
  qed
qed simp

text \<open>The check is exact: it says yes when the variable is one of the type's or lies inside one of them.\<close>

lemma occurs_type_iff: "occurs_type s v t \<longleftrightarrow> (\<exists>w\<in>tvars t. (v, w) \<in> (inside s)\<^sup>*)"
proof
  assume "\<exists>w\<in>tvars t. (v, w) \<in> (inside s)\<^sup>*"
  then obtain w where w: "w \<in> tvars t" "(v, w) \<in> (inside s)\<^sup>*" by blast
  show "occurs_type s v t"
  proof (rule ccontr)
    assume "\<not> occurs_type s v t"
    then obtain ex' where "occurs_in s v t {||} = (False, ex')"
      unfolding occurs_type_def by (cases "occurs_in s v t {||}") auto
    from occurs_false(1)[OF this] have c: "explored_clear s v {||} ex'" "clear_of s v ex' (tvars t)" by auto
    from w(2) w(1) c(2) show False
    proof (induction w arbitrary: t rule: rtrancl_induct)
      case base
      then show ?case by (auto simp: clear_of_def)
    next
      case (step y z)
      then obtain u where u: "type_binding s z = Some u" "y \<in> tvars u" by (auto simp: inside_def)
      then have "z |\<in>| ex'" using step(4,5) by (simp add: clear_of_def)
      then have "clear_of s v ex' (tvars u)" using c(1) u(1) by (simp add: explored_clear_def)
      then show ?case using step(3) u(2) by blast
    qed
  qed
next
  assume "occurs_type s v t"
  then show "\<exists>w\<in>tvars t. (v, w) \<in> (inside s)\<^sup>*" using occurs_true(1) unfolding occurs_type_def by blast
qed

end
