(* ===== verification/Unify_Steps.thy ===== *)
theory Unify_Steps imports Unify_Inv begin

text \<open>
  What each step of unification does to a context: a binding added keeps it well formed and adds exactly the
  equation it stands for; unifying two rows makes them equal under every solution and always answers; and writing
  a type out gives the one type without bound variables that every solution makes equal to it.
\<close>

section \<open>A context that knows more\<close>

definition extends :: "ctx \<Rightarrow> ctx \<Rightarrow> bool" where
  "extends s c \<longleftrightarrow>
     length (type_bindings c) = length (type_bindings s) \<and> type_rigid c = type_rigid s \<and>
     (\<forall>v b. type_binding s v = Some b \<longrightarrow> type_binding c v = Some b) \<and>
     length (row_bindings s) \<le> length (row_bindings c) \<and>
     (\<forall>v r. row_binding s v = Some r \<longrightarrow> row_binding c v = Some r)"

lemma extends_refl [simp]: "extends s s"
  by (simp add: extends_def)

lemma extends_trans: "extends s c \<Longrightarrow> extends c d \<Longrightarrow> extends s d"
  by (auto simp: extends_def)

lemma extends_solves:
  assumes "extends s c"
  shows "solves_types c f \<theta> \<Longrightarrow> solves_types s f \<theta>" "solves_rows c \<rho> \<Longrightarrow> solves_rows s \<rho>"
    "solves c \<theta> \<rho> \<Longrightarrow> solves s \<theta> \<rho>"
  using assms by (auto simp: extends_def solves_types_def solves_rows_def solves_def)

lemma extends_in_range: "extends s c \<Longrightarrow> in_range s t \<Longrightarrow> in_range c t"
  by (rule in_range_mono) (auto simp: extends_def)

lemma extends_row_in_range: "extends s c \<Longrightarrow> row_in_range s r \<Longrightarrow> row_in_range c r"
  by (rule row_in_range_mono) (auto simp: extends_def)

lemma extends_inside: "extends s c \<Longrightarrow> inside s \<subseteq> inside c"
  by (auto simp: extends_def inside_def)

lemma extends_rigid: "extends s c \<Longrightarrow> rigid_type c v \<longleftrightarrow> rigid_type s v"
  by (simp add: extends_def rigid_type_def)

section \<open>Binding a variable\<close>

lemma acyclic_into:
  assumes "acyclic R" "\<And>w. w \<in> T \<Longrightarrow> (v, w) \<notin> R\<^sup>*"
  shows "acyclic (R \<union> {(w, x). w \<in> T \<and> x = v})"
proof -
  let ?R = "R \<union> {(w, x). w \<in> T \<and> x = v}"
  have from_v: "(v, x) \<in> R\<^sup>*" if "(v, x) \<in> ?R\<^sup>*" for x
    using that by (induction rule: rtrancl_induct) (auto intro: rtrancl_into_rtrancl)
  have no_loop: "(v, v) \<notin> ?R\<^sup>+"
  proof
    assume "(v, v) \<in> ?R\<^sup>+"
    then obtain y where y: "(v, y) \<in> ?R\<^sup>*" "(y, v) \<in> ?R" by (blast dest: tranclD2)
    from from_v[OF y(1)] y(2) assms show False unfolding acyclic_def by (auto intro: rtrancl_into_trancl1)
  qed
  have path: "(x, y) \<in> R\<^sup>+ \<or> (v, y) \<in> R\<^sup>* \<and> (x, v) \<in> ?R\<^sup>+" if "(x, y) \<in> ?R\<^sup>+" for x y
    using that
  proof (induction rule: trancl_induct)
    case (step y z)
    then show ?case by (auto intro: trancl_into_trancl rtrancl_into_rtrancl)
  qed auto
  show ?thesis
  proof (rule acyclicI, intro allI notI)
    fix x assume "(x, x) \<in> ?R\<^sup>+"
    with path[of x x] assms(1) have "(v, x) \<in> R\<^sup>*" "(x, v) \<in> ?R\<^sup>+" by (auto simp: acyclic_def)
    then have "(v, v) \<in> ?R\<^sup>+" using rtrancl_mono[of R ?R] by (meson Un_upper1 rtrancl_trancl_trancl subsetD)
    with no_loop show False ..
  qed
qed

lemma nth_binding_update:
  "v < length xs \<Longrightarrow> nth_binding (xs[v := Some t]) w = (if w = v then Some t else nth_binding xs w)"
  by (auto simp: nth_binding_def nth_list_update)

lemma bind_type_ok:
  assumes ok: "ctx_ok s" "in_range s t" and v: "v < length (type_bindings s)" "type_binding s v = None" "\<not> rigid_type s v"
    and occ: "\<not> occurs_type s v t"
  defines "c \<equiv> s\<lparr>type_bindings := (type_bindings s)[v := Some t]\<rparr>"
  shows "ctx_ok c" "extends s c" "solves_types c f \<theta> \<longleftrightarrow> solves_types s f \<theta> \<and> \<theta> v = inst \<theta> f t"
    "solves_rows c \<rho> = solves_rows s \<rho>"
proof -
  have b: "type_binding c w = (if w = v then Some t else type_binding s w)" for w
    using nth_binding_update[OF v(1)] by (simp add: c_def)
  have "inside c = inside s \<union> {(w, x). w \<in> tvars t \<and> x = v}"
    using v(2) by (auto simp: inside_def b split: if_splits)
  moreover have "acyclic (inside s \<union> {(w, x). w \<in> tvars t \<and> x = v})"
    using ok(1) occ unfolding occurs_type_iff by (intro acyclic_into) (auto simp: ctx_ok_def)
  moreover have "row_inside c = row_inside s" "row_in_range c = row_in_range s" "in_range c = in_range s"
    "rigid_type c = rigid_type s" "rigid_row c = rigid_row s"
    by (auto simp: c_def row_inside_def row_in_range_def in_range_def rigid_type_def rigid_row_def fun_eq_iff)
  ultimately show "ctx_ok c"
    using ok v(3) unfolding ctx_ok_def by (simp add: b) (simp add: c_def)
  show "extends s c" using v(2) by (auto simp: extends_def b) (auto simp: c_def)
  show "solves_types c f \<theta> \<longleftrightarrow> solves_types s f \<theta> \<and> \<theta> v = inst \<theta> f t"
    using v(2) by (auto simp: solves_types_def b)
  show "solves_rows c \<rho> = solves_rows s \<rho>" by (simp add: solves_rows_def c_def)
qed

text \<open>The rows unification binds a variable to end in nothing or in another unbound variable.\<close>

lemma apply_row_same: "(\<And>w. r_tail r = Some w \<Longrightarrow> row_binding s w = None) \<Longrightarrow> apply_row s r = r"
  unfolding apply_row_def resolve_row_tracked_def
  by (subst tail_step) (auto simp: tail_bound_def split: option.split)

lemma bind_row_ok:
  assumes ok: "ctx_ok s" "row_in_range s r" and v: "v < length (row_bindings s)" "row_binding s v = None" "\<not> rigid_row s v"
    and tail: "\<And>w. r_tail r = Some w \<Longrightarrow> row_binding s w = None \<and> w \<noteq> v"
  shows "\<exists>c. bind_row v r s = (Inr (), c) \<and> ctx_ok c \<and> extends s c \<and> type_bindings c = type_bindings s \<and>
    (\<forall>w. row_binding c w = (if w = v then Some r else row_binding s w)) \<and>
    length (row_bindings c) = length (row_bindings s) \<and> row_rigid c = row_rigid s \<and>
    (\<forall>\<rho>. solves_rows c \<rho> \<longleftrightarrow> solves_rows s \<rho> \<and> \<rho> v = row_inst \<rho> r)"
proof -
  define c where "c = s\<lparr>row_bindings := (row_bindings s)[v := Some r]\<rparr>"
  have b: "row_binding c w = (if w = v then Some r else row_binding s w)" for w
    using nth_binding_update[OF v(1)] by (simp add: c_def)
  have bind: "bind_row v r s = (Inr (), c)"
    using apply_row_same[of r s] tail by (auto simp: bind_row_def c_def)
  have unb: "(v, w) \<notin> (row_inside s)\<^sup>*" if "r_tail r = Some w" for w
  proof
    assume "(v, w) \<in> (row_inside s)\<^sup>*"
    then show False using tail[OF that] by (cases rule: rtranclE) (auto simp: row_inside_def)
  qed
  have "row_inside c = row_inside s \<union> {(w, x). w \<in> set_option (r_tail r) \<and> x = v}"
    using v(2) by (auto simp: row_inside_def b split: if_splits)
  moreover have "acyclic (row_inside s \<union> {(w, x). w \<in> set_option (r_tail r) \<and> x = v})"
    using ok(1) unb by (intro acyclic_into) (auto simp: ctx_ok_def)
  moreover have "inside c = inside s" "row_in_range c = row_in_range s" "in_range c = in_range s"
    "rigid_type c = rigid_type s" "rigid_row c = rigid_row s"
    by (auto simp: c_def inside_def row_in_range_def in_range_def rigid_type_def rigid_row_def fun_eq_iff)
  ultimately have "ctx_ok c"
    using ok v(3) unfolding ctx_ok_def by (simp add: b) (simp add: c_def)
  moreover have "extends s c" using v(2) by (auto simp: extends_def b) (auto simp: c_def)
  moreover have "solves_rows c \<rho> \<longleftrightarrow> solves_rows s \<rho> \<and> \<rho> v = row_inst \<rho> r" for \<rho>
    using v(2) by (auto simp: solves_rows_def b)
  ultimately show ?thesis using bind b by (auto simp: c_def)
qed

section \<open>Unifying rows\<close>

text \<open>What unifying two rows leaves: types are not touched; a refusal is one of the two of rows; and two rows unified
  are one row under every solution.\<close>

definition row_result :: "ctx \<Rightarrow> row \<Rightarrow> row \<Rightarrow> (unify_error + unit) \<times> ctx \<Rightarrow> bool" where
  "row_result s a b rc \<longleftrightarrow>
     ctx_ok (snd rc) \<and> extends s (snd rc) \<and> type_bindings (snd rc) = type_bindings s \<and>
     (case fst rc of
        Inl e \<Rightarrow> e = RowMismatch \<or> e = RowConflict
      | Inr _ \<Rightarrow> \<forall>\<rho>. solves_rows (snd rc) \<rho> \<longrightarrow> row_inst \<rho> a = row_inst \<rho> b)"

lemma row_result_error [simp]: "row_result s a b (Inl (row_error x), s) \<longleftrightarrow> ctx_ok s"
  "row_result s a b (Inl RowConflict, s) \<longleftrightarrow> ctx_ok s"
  by (auto simp: row_result_def row_error_def)

lemma row_result_sym: "row_result s a b rc \<Longrightarrow> row_result s b a rc"
  by (auto simp: row_result_def split: sum.splits)

lemma row_inst_closed: "r_tail r = None \<Longrightarrow> row_inst \<rho> r = r"
  by (simp add: row_inst_def)

lemma row_inst_open:
  "r_tail r = Some v \<Longrightarrow> row_inst \<rho> r = \<lparr>r_effects = r_effects r |\<union>| r_effects (\<rho> v), r_tail = r_tail (\<rho> v)\<rparr>"
  by (simp add: row_inst_def)

lemma close_row_ok:
  assumes "ctx_ok s" "v < length (row_bindings s)" "row_binding s v = None" "r_tail ra = Some v" "r_tail rb = None"
  shows "row_result s ra rb (close_row x (r_effects ra) v (r_effects rb) s)"
proof (cases "\<not> r_effects ra |\<subseteq>| r_effects rb \<or> rigid_row s v")
  case False
  then have sub: "r_effects ra |\<union>| (r_effects rb |-| r_effects ra) = r_effects rb" by auto
  obtain c where c: "bind_row v (closed_row (r_effects rb |-| r_effects ra)) s = (Inr (), c)" "ctx_ok c" "extends s c"
    "type_bindings c = type_bindings s"
    "\<And>\<rho>. solves_rows c \<rho> \<longleftrightarrow> solves_rows s \<rho> \<and> \<rho> v = row_inst \<rho> (closed_row (r_effects rb |-| r_effects ra))"
    using bind_row_ok[of s "closed_row (r_effects rb |-| r_effects ra)" v] assms False
    by (auto simp: closed_row_def row_in_range_def)
  have "row_inst \<rho> ra = row_inst \<rho> rb" if "solves_rows c \<rho>" for \<rho>
    using that sub assms(4,5) unfolding c(5)
    by (cases rb) (simp add: row_inst_open row_inst_closed closed_row_def)
  then show ?thesis using c False by (auto simp: close_row_def row_result_def)
qed (use assms in \<open>auto simp: close_row_def\<close>)

text \<open>Two open rows with different tails: a rigid tail stays.\<close>

lemma flex_row_ok:
  assumes "ctx_ok s" "r_tail rx = Some fixed" "r_tail rf = Some flex" "fixed \<noteq> flex"
    "fixed < length (row_bindings s)" "flex < length (row_bindings s)" "row_binding s fixed = None" "row_binding s flex = None"
    "\<not> rigid_row s flex" "r_effects rf |\<subseteq>| r_effects rx"
  shows "row_result s rx rf (bind_row flex \<lparr>r_effects = r_effects rx |-| r_effects rf, r_tail = Some fixed\<rparr> s)"
proof -
  let ?r = "\<lparr>r_effects = r_effects rx |-| r_effects rf, r_tail = Some fixed\<rparr>"
  obtain c where c: "bind_row flex ?r s = (Inr (), c)" "ctx_ok c" "extends s c" "type_bindings c = type_bindings s"
    "\<And>\<rho>. solves_rows c \<rho> \<longleftrightarrow> solves_rows s \<rho> \<and> \<rho> flex = row_inst \<rho> ?r"
    using bind_row_ok[of s ?r flex] assms by (auto simp: row_in_range_def)
  have "r_effects rf |\<union>| (r_effects rx |-| r_effects rf) = r_effects rx" using assms(10) by auto
  then have "row_inst \<rho> rx = row_inst \<rho> rf" if "solves_rows c \<rho>" for \<rho>
    using that assms(2,3) unfolding c(5) by (simp add: row_inst_open sup_assoc[symmetric])
  then show ?thesis using c by (simp add: row_result_def)
qed

lemma share_tail_ok:
  assumes "ctx_ok s" "r_tail ra = Some rv" "r_tail rb = Some sv" "rv \<noteq> sv"
    "rv < length (row_bindings s)" "sv < length (row_bindings s)" "row_binding s rv = None" "row_binding s sv = None"
    "\<not> rigid_row s rv" "\<not> rigid_row s sv"
  shows "row_result s ra rb
    (case fresh_row_var s of (fresh, s1) \<Rightarrow>
       (case bind_row rv \<lparr>r_effects = r_effects rb |-| r_effects ra, r_tail = Some fresh\<rparr> s1 of
          (Inl e, s2) \<Rightarrow> (Inl e, s2)
        | (Inr _, s2) \<Rightarrow> bind_row sv \<lparr>r_effects = r_effects ra |-| r_effects rb, r_tail = Some fresh\<rparr> s2))"
proof -
  let ?f = "length (row_bindings s)"
  define s1 where "s1 = snd (fresh_row_var s)"
  have f: "fresh_row_var s = (?f, s1)" by (simp add: s1_def fresh_row_var_def)
  have ok1: "ctx_ok s1" unfolding s1_def using assms(1) by (rule fresh_row_var_ok)
  have b1: "row_binding s1 w = row_binding s w" "type_bindings s1 = type_bindings s" "length (row_bindings s1) = Suc ?f"
    "row_binding s ?f = None" for w
    by (simp_all add: s1_def fresh_row_var_def nth_binding_def[of "row_bindings s" ?f])
  have rg: "rigid_row s1 w = rigid_row s w" for w
    using assms(1) by (auto simp: s1_def fresh_row_var_def rigid_row_def ctx_ok_def nth_append)
  have e1: "extends s s1" by (auto simp: extends_def s1_def fresh_row_var_def)
  let ?x = "\<lparr>r_effects = r_effects rb |-| r_effects ra, r_tail = Some ?f\<rparr>"
  let ?y = "\<lparr>r_effects = r_effects ra |-| r_effects rb, r_tail = Some ?f\<rparr>"
  obtain s2 where s2: "bind_row rv ?x s1 = (Inr (), s2)" "ctx_ok s2" "extends s1 s2" "type_bindings s2 = type_bindings s1"
    "\<And>w. row_binding s2 w = (if w = rv then Some ?x else row_binding s1 w)"
    "length (row_bindings s2) = length (row_bindings s1)" "row_rigid s2 = row_rigid s1"
    "\<And>\<rho>. solves_rows s2 \<rho> \<longleftrightarrow> solves_rows s1 \<rho> \<and> \<rho> rv = row_inst \<rho> ?x"
    using bind_row_ok[of s1 ?x rv] ok1 b1 rg assms by (auto simp: row_in_range_def)
  have rg2: "rigid_row s2 w = rigid_row s w" for w using s2(7) rg by (simp add: rigid_row_def)
  obtain s3 where s3: "bind_row sv ?y s2 = (Inr (), s3)" "ctx_ok s3" "extends s2 s3" "type_bindings s3 = type_bindings s2"
    "\<And>\<rho>. solves_rows s3 \<rho> \<longleftrightarrow> solves_rows s2 \<rho> \<and> \<rho> sv = row_inst \<rho> ?y"
    using bind_row_ok[of s2 ?y sv] s2 b1 rg2 assms by (auto simp: row_in_range_def)
  have "r_effects ra |\<union>| (r_effects rb |-| r_effects ra) = r_effects rb |\<union>| (r_effects ra |-| r_effects rb)" by auto
  then have "row_inst \<rho> ra = row_inst \<rho> rb" if "solves_rows s3 \<rho>" for \<rho>
    using that assms(2,3) unfolding s3(5) s2(8) by (simp add: row_inst_open sup_assoc[symmetric])
  moreover have "extends s s3" using extends_trans[OF extends_trans[OF e1 s2(3)] s3(3)] .
  ultimately show ?thesis using f s2 s3 b1 by (simp add: row_result_def)
qed

lemma unify_row_ok:
  assumes ok: "ctx_ok s" "row_in_range s a" "row_in_range s b"
  obtains rc where "unify_row a b s = Some rc" "row_result s a b rc"
proof -
  obtain ra xa where a: "resolve_row_tracked s a = Some (ra, xa)" "\<And>v. r_tail ra = Some v \<Longrightarrow> row_binding s v = None"
    "row_in_range s ra" "\<And>\<rho>. solves_rows s \<rho> \<Longrightarrow> row_inst \<rho> ra = row_inst \<rho> a"
    using resolve_row_ok[OF ok(1), of a] ok(2) by metis
  obtain rb xb where b: "resolve_row_tracked s b = Some (rb, xb)" "\<And>v. r_tail rb = Some v \<Longrightarrow> row_binding s v = None"
    "row_in_range s rb" "\<And>\<rho>. solves_rows s \<rho> \<Longrightarrow> row_inst \<rho> rb = row_inst \<rho> b"
    using resolve_row_ok[OF ok(1), of b] ok(3) by metis
  have whole: "row_result s a b rc" if "row_result s ra rb rc" for rc
    using that a(4) b(4) extends_solves(2) unfolding row_result_def by (fastforce split: sum.splits)
  have same_rows: "row_result s ra rb (Inr (), s)" if "r_effects ra = r_effects rb" "r_tail ra = r_tail rb"
  proof -
    have "ra = rb" using that by (intro row.equality) auto
    then show ?thesis using ok(1) by (simp add: row_result_def)
  qed
  have "\<exists>rc. unify_row a b s = Some rc \<and> row_result s ra rb rc"
  proof (cases "r_tail ra"; cases "r_tail rb")
    assume "r_tail ra = None" "r_tail rb = None"
    then show ?thesis using a(1) b(1) same_rows ok(1) by (auto simp: unify_row_def Let_def)
  next
    fix sv assume t: "r_tail ra = None" "r_tail rb = Some sv"
    then have "row_result s ra rb (close_row (xa \<or> xb) (r_effects rb) sv (r_effects ra) s)"
      using close_row_ok[of s sv rb ra] ok(1) b(2,3) row_result_sym by (auto simp: row_in_range_def)
    then show ?thesis using a(1) b(1) t by (auto simp: unify_row_def Let_def)
  next
    fix rv assume t: "r_tail ra = Some rv" "r_tail rb = None"
    then have "row_result s ra rb (close_row (xa \<or> xb) (r_effects ra) rv (r_effects rb) s)"
      using close_row_ok[of s rv ra rb] ok(1) a(2,3) by (auto simp: row_in_range_def)
    then show ?thesis using a(1) b(1) t by (auto simp: unify_row_def Let_def)
  next
    fix rv sv assume t: "r_tail ra = Some rv" "r_tail rb = Some sv"
    have un: "row_binding s rv = None" "row_binding s sv = None" "rv < length (row_bindings s)" "sv < length (row_bindings s)"
      using t a(2,3) b(2,3) by (auto simp: row_in_range_def)
    consider (same) "rv = sv" | (rigid_a) "rv \<noteq> sv" "rigid_row s rv" | (rigid_b) "rv \<noteq> sv" "\<not> rigid_row s rv" "rigid_row s sv"
      | (share) "rv \<noteq> sv" "\<not> rigid_row s rv" "\<not> rigid_row s sv" by blast
    then show ?thesis
    proof cases
      case same
      then show ?thesis using a(1) b(1) t \<open>rv = sv\<close> same_rows ok(1)
        by (auto simp: unify_row_def Let_def)
    next
      case rigid_a
      then show ?thesis using a(1) b(1) t un ok(1) flex_row_ok[of s ra rv rb sv]
        by (auto simp: unify_row_def Let_def)
    next
      case rigid_b
      then show ?thesis using a(1) b(1) t un ok(1) row_result_sym[OF flex_row_ok[of s rb sv ra rv]]
        by (auto simp: unify_row_def Let_def)
    next
      case share
      then show ?thesis using a(1) b(1) t share_tail_ok[OF ok(1) t share(1) un(3,4,1,2) share(2,3)]
        by (auto simp: unify_row_def Let_def)
    qed
  qed
  then show thesis using that whole by blast
qed

section \<open>Writing a type out\<close>

text \<open>The solution that leaves every unbound variable as it is.\<close>

definition canonical :: "ctx \<Rightarrow> (nat \<Rightarrow> ty) \<Rightarrow> (nat \<Rightarrow> row) \<Rightarrow> bool" where
  "canonical s \<theta> \<rho> \<longleftrightarrow>
     solves s \<theta> \<rho> \<and> (\<forall>v. type_binding s v = None \<longrightarrow> \<theta> v = TVar v) \<and>
     (\<forall>v. row_binding s v = None \<longrightarrow> \<rho> v = \<lparr>r_effects = {||}, r_tail = Some v\<rparr>)"

lemma canonical_ex:
  assumes "ctx_ok s" obtains \<theta> \<rho> where "canonical s \<theta> \<rho>"
proof -
  obtain \<rho> where r: "solves_rows s \<rho>" "\<And>v. row_binding s v = None \<Longrightarrow> \<rho> v = \<lparr>r_effects = {||}, r_tail = Some v\<rparr>"
    using rows_solvable[OF assms, where h = "\<lambda>v. \<lparr>r_effects = {||}, r_tail = Some v\<rparr>"] by blast
  obtain \<theta> where "solves_types s (row_inst \<rho>) \<theta>" "\<And>v. type_binding s v = None \<Longrightarrow> \<theta> v = TVar v"
    using types_solvable[OF assms, where g = TVar] by blast
  with r show thesis using that by (auto simp: canonical_def solves_def)
qed

lemma canonical_row:
  assumes "ctx_ok s" "canonical s \<theta> \<rho>" shows "apply_row s r = row_inst \<rho> r"
proof -
  obtain q y where q: "apply_row s r = q" "\<And>v. r_tail q = Some v \<Longrightarrow> row_binding s v = None"
    "row_inst \<rho> q = row_inst \<rho> r"
    using resolve_row_ok[OF assms(1), of r] assms(2) unfolding canonical_def solves_def by metis
  have "row_inst \<rho> q = q"
  proof (cases "r_tail q")
    case (Some v)
    then have "row_inst \<rho> q = \<lparr>r_effects = r_effects q, r_tail = r_tail q\<rparr>"
      using q(2) assms(2) by (simp add: row_inst_def canonical_def)
    then show ?thesis by simp
  qed (simp add: row_inst_closed)
  with q show ?thesis by simp
qed

text \<open>Writing out gives the type under that solution, exactly when it has few enough parts.\<close>

lemma apply_within_exact:
  assumes "ctx_ok s" "canonical s \<theta> \<rho>"
  shows "in_range s t \<Longrightarrow> apply_within s t left =
      (let u = inst \<theta> (row_inst \<rho>) t in if ty_parts u \<le> left then Some (u, left - ty_parts u) else None)"
    and "list_all (in_range s) ts \<Longrightarrow> apply_all s ts left =
      (let us = map (inst \<theta> (row_inst \<rho>)) ts; n = sum_list (map ty_parts us)
       in if n \<le> left then Some (us, left - n) else None)"
  using assms
proof (induction s t left and s ts left rule: apply_within_apply_all.induct)
  case (1 s t)
  then show ?case by (simp add: Let_def)
next
  case (2 s t left)
  let ?I = "inst \<theta> (row_inst \<rho>)"
  obtain u where u: "resolve_type_shallow s t = Some u" "\<not> is_bound s u" "in_range s u" "?I u = ?I t"
    using resolve_ok[OF 2(3) 2(2)] 2(4) unfolding canonical_def solves_def by metis
  have ih: "apply_all s (ty_args u) left =
      (let us = map ?I (ty_args u); n = sum_list (map ty_parts us) in if n \<le> left then Some (us, left - n) else None)"
    using 2(1)[OF u(1) _ 2(3,4)] in_range_arg[OF u(3)] by (simp add: list_all_iff)
  show ?case
  proof (cases "var_of u")
    case (Some v)
    then have "?I u = u" using u(2) 2(4) by (auto simp: is_bound_var canonical_def)
    then show ?thesis using ih Some u(1,4) by (simp add: Let_def)
  next
    case None
    have "apply_row s = row_inst \<rho>" using canonical_row[OF 2(3,4)] by blast
    then have "?I u = ty_with u (map ?I (ty_args u)) (apply_row s)" using None by (simp add: inst.simps[of _ _ u])
    moreover have "ty_parts (?I u) = Suc (sum_list (map ty_parts (map ?I (ty_args u))))"
      using ty_parts_args[of "?I u"] inst_parts(1)[OF None] by simp
    ultimately show ?thesis using ih u(1,4) by (simp add: Let_def)
  qed
next
  case (3 s left)
  then show ?case by simp
next
  case (4 s t ts left)
  then show ?case by (auto simp: Let_def split: option.splits if_splits)
qed

end
