(* ===== verification/Unify_Sound.thy ===== *)
theory Unify_Sound imports Unify_Steps begin

text \<open>
  Unification as a whole: it keeps a context well formed, what it answers yes to is equal under every solution of
  the context it leaves, a refusal for the types themselves means that nothing could have made them equal, and it
  ends on every well-formed context.
\<close>

section \<open>The cases of one call\<close>

text \<open>What is bound and to what, in the two arms that bind a variable.\<close>

definition binds :: "ctx \<Rightarrow> ty \<Rightarrow> ty \<Rightarrow> nat \<Rightarrow> ty \<Rightarrow> bool" where
  "binds s t u v x \<longleftrightarrow> t \<noteq> u \<and> \<not> rigid_type s v \<and> (t = TVar v \<and> x = u \<or> u = TVar v \<and> x = t)"

lemma flexible_var_iff: "flexible_var s t = Some v \<longleftrightarrow> t = TVar v \<and> \<not> rigid_type s v"
  "flexible_var s t = None \<longleftrightarrow> (\<forall>v. t = TVar v \<longrightarrow> rigid_type s v)"
  by (auto simp: flexible_var_def split: option.splits)

lemma unify_cases [consumes 3, case_names skip same bind parts parts_fail mismatch]:
  assumes "unify_in (Suc k) a b met s = Some (r, met', c)" "ctx_ok s" "in_range s a \<and> in_range s b"
  obtains
    "meet_pair s a b met = None" "r = Inr ()" "met' = met" "c = s"
  | t where "meet_pair s a b met = Some met'" "resolve_type_shallow s a = Some t" "resolve_type_shallow s b = Some t"
      "r = Inr ()" "c = s"
  | t u v x where "meet_pair s a b met = Some met'" "resolve_type_shallow s a = Some t" "resolve_type_shallow s b = Some u"
      "binds s t u v x" "bind_type v x s = (r, c)"
  | t u met1 s1 where "meet_pair s a b met = Some met1" "resolve_type_shallow s a = Some t" "resolve_type_shallow s b = Some u"
      "var_of t = None" "var_of u = None" "ty_head t = ty_head u" "length (ty_args t) = length (ty_args u)"
      "unify_all k (zip (ty_args t) (ty_args u)) met1 s = Some (Inr (), met', s1)" "unify_rows_of t u s1 = Some (r, c)"
  | t u met1 e where "meet_pair s a b met = Some met1" "resolve_type_shallow s a = Some t" "resolve_type_shallow s b = Some u"
      "var_of t = None" "var_of u = None" "ty_head t = ty_head u" "length (ty_args t) = length (ty_args u)"
      "unify_all k (zip (ty_args t) (ty_args u)) met1 s = Some (Inl e, met', c)" "r = Inl e"
  | t u where "meet_pair s a b met = Some met'" "resolve_type_shallow s a = Some t" "resolve_type_shallow s b = Some u"
      "flexible_var s t = None" "flexible_var s u = None"
      "ty_head t \<noteq> ty_head u \<or> length (ty_args t) \<noteq> length (ty_args u)" "r = Inl TypeMismatch" "c = s"
proof (cases "meet_pair s a b met")
  case None
  with assms(1) have "r = Inr ()" "met' = met" "c = s" by auto
  with None show thesis by (rule that(1))
next
  case (Some met1)
  obtain t u where t: "resolve_type_shallow s a = Some t" and u: "resolve_type_shallow s b = Some u"
    using resolve_Some assms(2,3) by blast
  show thesis
  proof (cases "var_of t \<noteq> None \<and> t = u")
    case True
    with assms(1) Some t u have e: "met1 = met'" "r = Inr ()" "c = s" "u = t" by auto
    show thesis by (rule that(2)[of t]) (use Some t u e in simp_all)
  next
    case neq: False
    show thesis
    proof (cases "flexible_var s t")
      case flex: (Some v)
      then have bd: "binds s t u v u" using neq by (auto simp: binds_def flexible_var_iff)
      obtain r' c' where bt: "bind_type v u s = (r', c')" by (cases "bind_type v u s")
      from bt assms(1) Some t u neq flex have "met1 = met'" "r' = r" "c' = c" by auto
      then show thesis using bd bt that(3)[of t u v u] Some t u by blast
    next
      case left: None
      show thesis
      proof (cases "flexible_var s u")
        case flex: (Some v)
        then have bd: "binds s t u v t" using neq left by (auto simp: binds_def flexible_var_iff)
        obtain r' c' where bt: "bind_type v t s = (r', c')" by (cases "bind_type v t s")
        from bt assms(1) Some t u neq flex left have "met1 = met'" "r' = r" "c' = c" by auto
        then show thesis using bd bt that(3)[of t u v t] Some t u by blast
      next
        case right: None
        show thesis
        proof (cases "ty_head t = ty_head u \<and> length (ty_args t) = length (ty_args u)")
          case True
          then have same: "var_of t = var_of u" using var_of_head by blast
          have nv: "var_of t = None" "var_of u = None"
          proof -
            show "var_of t = None"
            proof (rule ccontr)
              assume "var_of t \<noteq> None"
              then obtain v where "t = TVar v" "u = TVar v" using same by auto
              with neq show False by simp
            qed
            with same show "var_of u = None" by simp
          qed
          then have nt: "t \<noteq> TVar v" for v by auto
          have "unify_all k (zip (ty_args t) (ty_args u)) met1 s \<noteq> None"
            using assms(1) Some t u left right True nt by (intro notI) simp
          then obtain r1 met2 s1 where all: "unify_all k (zip (ty_args t) (ty_args u)) met1 s = Some (r1, met2, s1)"
            by (cases "unify_all k (zip (ty_args t) (ty_args u)) met1 s") auto
          show thesis
          proof (cases r1)
            case (Inl e)
            with assms(1) Some t u nt left right True all have "met2 = met'" "s1 = c" "r = Inl e" by auto
            then show thesis using that(5)[of met1 t u e] Some t u True nv all Inl by blast
          next
            case (Inr x)
            with assms(1) Some t u nt left right True all have "met2 = met'" "unify_rows_of t u s1 = Some (r, c)"
              by (auto split: option.splits)
            then show thesis using that(4)[of met1 t u s1] Some t u True nv all Inr by simp
          qed
        next
          case False
          with assms(1) Some t u neq left right have "met1 = met'" "r = Inl TypeMismatch" "c = s" by auto
          then show thesis using that(6)[of t u] Some t u left right False by blast
        qed
      qed
    qed
  qed
qed

lemma unify_all_Cons:
  assumes "unify_all k (p # ps) met s = Some (r, met', c)"
  obtains e where "unify_in k (fst p) (snd p) met s = Some (Inl e, met', c)" "r = Inl e"
  | met1 s1 where "unify_in k (fst p) (snd p) met s = Some (Inr (), met1, s1)" "unify_all k ps met1 s1 = Some (r, met', c)"
  using assms by (auto split: option.splits sum.splits)

section \<open>The context\<close>

definition unbound :: "ctx \<Rightarrow> nat" where
  "unbound s = card {v. v < length (type_bindings s) \<and> type_binding s v = None}"

text \<open>A step leaves the bindings of types as they are or binds a variable more.\<close>

definition progress :: "ctx \<Rightarrow> ctx \<Rightarrow> bool" where
  "progress s c \<longleftrightarrow> ctx_ok c \<and> extends s c \<and> (type_bindings c = type_bindings s \<or> unbound c < unbound s)"

lemma progress_refl [simp]: "progress s s \<longleftrightarrow> ctx_ok s"
  by (simp add: progress_def)

lemma unbound_cong: "type_bindings c = type_bindings s \<Longrightarrow> unbound c = unbound s"
  by (simp add: unbound_def)

lemma progress_trans: "progress s c \<Longrightarrow> progress c d \<Longrightarrow> progress s d"
  using extends_trans[of s c d] unbound_cong[of c s] unbound_cong[of d c] by (auto simp: progress_def)

lemma rows_of_ok:
  assumes "ctx_ok s" "in_range s t" "in_range s u"
  obtains rc where "unify_rows_of t u s = Some rc" "progress s (snd rc)" "type_bindings (snd rc) = type_bindings s"
    "\<And>e. fst rc = Inl e \<Longrightarrow> e = RowMismatch \<or> e = RowConflict"
    "\<And>\<rho>. fst rc = Inr () \<Longrightarrow> ty_head t = ty_head u \<Longrightarrow> solves_rows (snd rc) \<rho> \<Longrightarrow>
       map_option (row_inst \<rho>) (ty_row t) = map_option (row_inst \<rho>) (ty_row u)"
proof (cases "ty_row t"; cases "ty_row u")
  fix ra rb assume r: "ty_row t = Some ra" "ty_row u = Some rb"
  obtain rc where "unify_row ra rb s = Some rc" "row_result s ra rb rc"
    using unify_row_ok[OF assms(1)] in_range_row assms r by metis
  then show thesis using that[of rc] r by (cases "fst rc") (auto simp: unify_rows_of_def row_result_def progress_def)
qed (use that[of "(Inr (), s)"] assms ty_row_head[of t u] in \<open>auto simp: unify_rows_of_def\<close>)

lemma binds_ok:
  assumes "ctx_ok s" "resolve_type_shallow s a = Some t" "resolve_type_shallow s b = Some u" "in_range s a" "in_range s b"
    "binds s t u v x"
  shows "in_range s x" "v < length (type_bindings s)" "type_binding s v = None" "x \<noteq> TVar v" "\<not> is_bound s x" "\<not> rigid_type s v"
    "\<And>f \<theta>. solves_types s f \<theta> \<Longrightarrow> (\<theta> v = inst \<theta> f x) = (inst \<theta> f a = inst \<theta> f b)"
proof -
  note t = resolvedD(1-3)[OF assms(1,4,2)] and u = resolvedD(1-3)[OF assms(1,5,3)]
  show "in_range s x" "v < length (type_bindings s)" "type_binding s v = None" "x \<noteq> TVar v" "\<not> is_bound s x" "\<not> rigid_type s v"
    using assms(6) t(1,2) u(1,2) by (auto simp: binds_def is_bound_var)
  show "(\<theta> v = inst \<theta> f x) = (inst \<theta> f a = inst \<theta> f b)" if "solves_types s f \<theta>" for f \<theta>
    using assms(6) t(3)[OF that] u(3)[OF that] by (auto simp: binds_def)
qed

lemma bind_type_progress:
  assumes "ctx_ok s" "in_range s x" "v < length (type_bindings s)" "type_binding s v = None" "\<not> rigid_type s v"
    "bind_type v x s = (r, c)"
  shows "progress s c"
proof (cases "occurs_type s v x")
  case False
  then have c: "c = s\<lparr>type_bindings := (type_bindings s)[v := Some x]\<rparr>" using assms(6) by (simp add: bind_type_def)
  have b: "type_binding c w = (if w = v then Some x else type_binding s w)" for w
    using nth_binding_update[OF assms(3)] by (simp add: c)
  have "{w. w < length (type_bindings c) \<and> type_binding c w = None} = {w. w < length (type_bindings s) \<and> type_binding s w = None} - {v}"
    unfolding b by (auto simp: c)
  then have "unbound c < unbound s" unfolding unbound_def using assms(3,4)
    by (simp only:) (rule psubset_card_mono; auto)
  then show ?thesis using bind_type_ok(1,2)[OF assms(1,2,3,4,5) False] c by (simp add: progress_def)
qed (use assms in \<open>auto simp: bind_type_def\<close>)

lemma resolved_in_range:
  "ctx_ok s \<Longrightarrow> in_range s a \<Longrightarrow> resolve_type_shallow s a = Some t \<Longrightarrow> in_range s t"
  by (rule resolvedD(2))

definition pairs_in_range :: "ctx \<Rightarrow> (ty \<times> ty) list \<Rightarrow> bool" where
  "pairs_in_range s ps \<longleftrightarrow> (\<forall>p\<in>set ps. in_range s (fst p) \<and> in_range s (snd p))"

lemma pairs_in_range_args: "in_range s t \<Longrightarrow> in_range s u \<Longrightarrow> pairs_in_range s (zip (ty_args t) (ty_args u))"
  using in_range_arg by (auto simp: pairs_in_range_def dest: set_zip_leftD set_zip_rightD)

lemma pairs_in_range_progress: "pairs_in_range s ps \<Longrightarrow> progress s c \<Longrightarrow> pairs_in_range c ps"
  using extends_in_range by (auto simp: pairs_in_range_def progress_def)

lemma unify_progress:
  "ctx_ok s \<Longrightarrow> in_range s a \<Longrightarrow> in_range s b \<Longrightarrow> unify_in k a b met s = Some (r, met', c) \<Longrightarrow> progress s c"
  "ctx_ok s \<Longrightarrow> pairs_in_range s ps \<Longrightarrow> unify_all k ps met s = Some (r, met', c) \<Longrightarrow> progress s c"
proof (induction k a b met s and k ps met s arbitrary: r met' c and r met' c rule: unify_in_unify_all.induct)
  case (2 k a b met s)
  have ih: "progress s d" if "meet_pair s a b met = Some met1" "resolve_type_shallow s a = Some t"
      "resolve_type_shallow s b = Some u" "unify_all k (zip (ty_args t) (ty_args u)) met1 s = Some (r', met2, d)"
      "flexible_var s t = None" "flexible_var s u = None" "\<not> (var_of t \<noteq> None \<and> t = u)"
      "ty_head t = ty_head u \<and> length (ty_args t) = length (ty_args u)" for met1 t u r' met2 d
    using 2(1)[OF that(1) refl that(2,3) that(7) refl that(5,6,8) 2(2) _ that(4)] pairs_in_range_args
      resolved_in_range 2(2-4) that(2,3) by blast
  from 2(5,2) conjI[OF 2(3,4)] show ?case
  proof (cases rule: unify_cases)
    case (bind t u v x)
    then show ?thesis using bind_type_progress binds_ok(1,2,3,6)[OF 2(2) bind(2,3) 2(3,4) bind(4)] 2(2) by blast
  next
    case (parts t u met1 s1)
    have "progress s s1" using ih[OF parts(1,2,3,8)] parts by (auto simp: flexible_var_iff var_of_None)
    moreover have "progress s1 c"
    proof -
      have "ctx_ok s1" "in_range s1 t" "in_range s1 u"
        using \<open>progress s s1\<close> resolved_in_range[OF 2(2)] 2(3,4) parts(2,3) extends_in_range by (auto simp: progress_def)
      from rows_of_ok[OF this] show ?thesis using parts(9) by (metis option.inject snd_conv)
    qed
    ultimately show ?thesis by (rule progress_trans)
  next
    case (parts_fail t u met1 e)
    then show ?thesis using ih[OF parts_fail(1,2,3,8)] by (auto simp: flexible_var_iff var_of_None)
  qed (use 2(2) in auto)
next
  case (4 k p ps met s)
  from 4(5) show ?case
  proof (cases rule: unify_all_Cons)
    case (1 e)
    then show ?thesis using 4(1) 4(3,4) by (auto simp: pairs_in_range_def)
  next
    case (2 met1 s1)
    then have "progress s s1" using 4(1) 4(3,4) by (auto simp: pairs_in_range_def)
    moreover have "progress s1 c"
    proof (rule 4(2)[OF 2(1) refl refl refl _ _ 2(2)])
      show "ctx_ok s1" using calculation by (simp add: progress_def)
      show "pairs_in_range s1 ps" using pairs_in_range_progress[OF _ calculation, of ps] 4(4) by (simp add: pairs_in_range_def)
    qed
    ultimately show ?thesis by (rule progress_trans)
  qed
qed auto

section \<open>Unified types are equal\<close>

definition equal_under :: "ctx \<Rightarrow> ty \<Rightarrow> ty \<Rightarrow> bool" where
  "equal_under s a b \<longleftrightarrow> (\<forall>\<theta> \<rho>. solves s \<theta> \<rho> \<longrightarrow> inst \<theta> (row_inst \<rho>) a = inst \<theta> (row_inst \<rho>) b)"

lemma equal_under_extends: "equal_under s a b \<Longrightarrow> extends s c \<Longrightarrow> equal_under c a b"
  using extends_solves(3) by (auto simp: equal_under_def)

text \<open>The pairs met are equal already, or are those being unified: then the type at hand lies inside their left side.\<close>

definition known :: "ctx \<Rightarrow> (nat \<times> nat) set \<Rightarrow> (nat \<times> nat) fset \<Rightarrow> bool" where
  "known s P met \<longleftrightarrow> (\<forall>x y. (x, y) |\<in>| met \<longrightarrow> (x, y) \<in> P \<or> equal_under s (TVar x) (TVar y))"

definition within_pairs :: "ctx \<Rightarrow> (nat \<times> nat) set \<Rightarrow> ty \<Rightarrow> bool" where
  "within_pairs s P a \<longleftrightarrow> (\<forall>x y w. (x, y) \<in> P \<longrightarrow> w \<in> tvars a \<longrightarrow> (w, x) \<in> (inside s)\<^sup>+)"

lemma known_extends: "known s P met \<Longrightarrow> extends s c \<Longrightarrow> known c P met"
  unfolding known_def using equal_under_extends by blast

lemma within_pairs_extends:
  assumes "within_pairs s P a" "extends s c" shows "within_pairs c P a"
  using assms(1) trancl_mono[OF _ extends_inside[OF assms(2)]] unfolding within_pairs_def by blast

lemma meet_pair_cases:
  assumes "meet_pair s a b met = Some met1"
  obtains "met1 = met" | x y where "a = TVar x" "b = TVar y" "is_bound s a" "met1 = finsert (x, y) met"
  using assms by (auto simp: meet_pair_def is_bound_var split: option.splits if_splits)

lemma meet_pair_skip:
  assumes "meet_pair s a b met = None"
  obtains "a = b" | x y where "a = TVar x" "b = TVar y" "(x, y) |\<in>| met"
  using assms by (auto simp: meet_pair_def split: option.splits if_splits)

lemma known_met:
  assumes "known s P met" "meet_pair s a b met = Some met1" "extends s c" "equal_under c a b"
  shows "known c P met1"
  using assms(2)
proof (cases rule: meet_pair_cases)
  case 1
  then show ?thesis using known_extends[OF assms(1,3)] by simp
next
  case (2 x y)
  then show ?thesis using known_extends[OF assms(1,3)] assms(4) by (auto simp: known_def)
qed

text \<open>The pair that was just met joins those being unified, and the parts of what it stands for lie inside it.\<close>

lemma met_pairs:
  assumes "ctx_ok s" "in_range s a" "known s P met" "within_pairs s P a" "meet_pair s a b met = Some met1"
    "resolve_type_shallow s a = Some t"
  obtains P' where "known s P' met1" "\<And>u. u \<in> set (ty_args t) \<Longrightarrow> within_pairs s P' u"
    "\<And>x y. (x, y) \<in> P' \<Longrightarrow> (x, y) \<in> P \<or> a = TVar x \<and> b = TVar y"
proof -
  note t = resolvedD[OF assms(1,2,6)]
  have up: "within_pairs s P t"
    unfolding within_pairs_def
  proof (intro allI impI)
    fix x y w assume x: "(x, y) \<in> P" and w: "w \<in> tvars t"
    from t(4)[OF w] show "(w, x) \<in> (inside s)\<^sup>+"
    proof
      assume "t = a"
      then show ?thesis using assms(4) x w by (auto simp: within_pairs_def)
    next
      assume "\<exists>v. a = TVar v \<and> (w, v) \<in> (inside s)\<^sup>+"
      then obtain v where "a = TVar v" "(w, v) \<in> (inside s)\<^sup>+" by blast
      moreover have "(v, x) \<in> (inside s)\<^sup>+" using calculation(1) assms(4) x by (auto simp: within_pairs_def)
      ultimately show ?thesis by (rule_tac trancl_trans)
    qed
  qed
  have down: "within_pairs s Q u" if "within_pairs s Q t" "u \<in> set (ty_args t)" for Q u
    using that(1) tvars_arg[OF that(2)] by (auto simp: within_pairs_def)
  from assms(5) show thesis
  proof (cases rule: meet_pair_cases)
    case 1
    then show thesis using that[of P] assms(3) down[OF up] by auto
  next
    case (2 x y)
    have "t \<noteq> a" using t(1) 2(3) by blast
    then have "within_pairs s {(x, y)} t" using t(4) 2(1) by (auto simp: within_pairs_def)
    with up have "within_pairs s (insert (x, y) P) t" by (auto simp: within_pairs_def)
    moreover have "known s (insert (x, y) P) met1" using 2(4) assms(3) by (auto simp: known_def)
    ultimately show thesis using that[of "insert (x, y) P"] down 2(1,2) by auto
  qed
qed

lemma equal_resolved:
  assumes "ctx_ok s" "in_range s a" "in_range s b" "resolve_type_shallow s a = Some t" "resolve_type_shallow s b = Some u"
    "extends s c" "equal_under c t u"
  shows "equal_under c a b"
  using resolvedD(3)[OF assms(1,2,4)] resolvedD(3)[OF assms(1,3,5)] extends_solves(3)[OF assms(6)] assms(7)
  by (auto simp: equal_under_def solves_def)

lemma unify_equal:
  "ctx_ok s \<Longrightarrow> in_range s a \<Longrightarrow> in_range s b \<Longrightarrow> known s P met \<Longrightarrow> within_pairs s P a \<Longrightarrow>
     unify_in k a b met s = Some (Inr (), met', c) \<Longrightarrow> equal_under c a b \<and> known c P met'"
  "ctx_ok s \<Longrightarrow> pairs_in_range s ps \<Longrightarrow> known s P met \<Longrightarrow> (\<And>p. p \<in> set ps \<Longrightarrow> within_pairs s P (fst p)) \<Longrightarrow>
     unify_all k ps met s = Some (Inr (), met', c) \<Longrightarrow>
     (\<forall>p\<in>set ps. equal_under c (fst p) (snd p)) \<and> known c P met'"
proof (induction k a b met s and k ps met s arbitrary: P met' c and P met' c rule: unify_in_unify_all.induct)
  case (2 k a b met s)
  note ok = 2(2) and ra = 2(3) and rb = 2(4)
  from 2(7,2) conjI[OF ra rb] show ?case
  proof (cases rule: unify_cases)
    case skip
    from skip(1) have "equal_under c a b"
    proof (cases rule: meet_pair_skip)
      case 1
      then show ?thesis by (simp add: equal_under_def)
    next
      case (2 x y)
      have "(x, y) \<notin> P"
      proof
        assume "(x, y) \<in> P"
        then have "(x, x) \<in> (inside s)\<^sup>+" using \<open>within_pairs s P a\<close> 2(1) by (auto simp: within_pairs_def)
        then show False using ok by (auto simp: ctx_ok_def acyclic_def)
      qed
      then show ?thesis using \<open>known s P met\<close> 2 skip(4) by (auto simp: known_def)
    qed
    then show ?thesis using skip \<open>known s P met\<close> by simp
  next
    case (same t)
    then have "equal_under c a b" using equal_resolved[OF ok ra rb same(2,3), of s] same(5) by (simp add: equal_under_def)
    then show ?thesis using known_met[OF \<open>known s P met\<close> same(1)] same(5) by simp
  next
    case (bind t u v x)
    note b = binds_ok[OF ok bind(2,3) ra rb bind(4)]
    have occ: "\<not> occurs_type s v x" "c = s\<lparr>type_bindings := (type_bindings s)[v := Some x]\<rparr>"
      using bind(5) by (auto simp: bind_type_def split: if_splits)
    note c = bind_type_ok[OF ok b(1,2,3,6) occ(1), folded occ(2)]
    have "equal_under c a b" using b(7) c(3) by (auto simp: equal_under_def solves_def)
    then show ?thesis using known_met[OF \<open>known s P met\<close> bind(1) c(2)] by simp
  next
    case (parts t u met1 s1)
    obtain P' where P': "known s P' met1" "\<And>u. u \<in> set (ty_args t) \<Longrightarrow> within_pairs s P' u"
      "\<And>x y. (x, y) \<in> P' \<Longrightarrow> (x, y) \<in> P \<or> a = TVar x \<and> b = TVar y"
      using met_pairs[OF ok ra \<open>known s P met\<close> \<open>within_pairs s P a\<close> parts(1,2)] by blast
    have tu: "in_range s t" "in_range s u" using resolvedD(2)[OF ok] ra rb parts(2,3) by blast+
    have pr: "pairs_in_range s (zip (ty_args t) (ty_args u))" using pairs_in_range_args[OF tu] .
    have "\<not> (var_of t \<noteq> None \<and> t = u)" "flexible_var s t = None" "flexible_var s u = None"
      using parts(4,5) by (auto simp: flexible_var_iff)
    note ih = 2(1)[OF parts(1) refl parts(2,3) this(1) refl this(2,3) conjI[OF parts(6,7)] ok pr P'(1) _ parts(8)]
    have "within_pairs s P' (fst p)" if "p \<in> set (zip (ty_args t) (ty_args u))" for p
      using P'(2)[of "fst p"] set_zip_leftD[of "fst p" "snd p"] that by simp
    from ih[OF this]
    have all: "\<forall>p\<in>set (zip (ty_args t) (ty_args u)). equal_under s1 (fst p) (snd p)" "known s1 P' met'"
      by blast+
    have pg: "progress s s1" using unify_progress(2)[OF ok pr parts(8)] .
    then have s1: "ctx_ok s1" "extends s s1" "in_range s1 t" "in_range s1 u"
      using tu extends_in_range by (auto simp: progress_def)
    obtain rc where rc: "unify_rows_of t u s1 = Some rc" "progress s1 (snd rc)"
      "\<And>\<rho>. fst rc = Inr () \<Longrightarrow> ty_head t = ty_head u \<Longrightarrow> solves_rows (snd rc) \<rho> \<Longrightarrow>
         map_option (row_inst \<rho>) (ty_row t) = map_option (row_inst \<rho>) (ty_row u)"
      by (rule rows_of_ok[OF s1(1,3,4)]) (rule that; blast)
    then have ext: "extends s1 c" and rows: "\<And>\<rho>. solves_rows c \<rho> \<Longrightarrow>
         map_option (row_inst \<rho>) (ty_row t) = map_option (row_inst \<rho>) (ty_row u)"
      using parts(6,9) by (auto simp: progress_def)
    have "equal_under c t u"
      unfolding equal_under_def
    proof (intro allI impI)
      fix \<theta> \<rho> assume sol: "solves c \<theta> \<rho>"
      have "map (inst \<theta> (row_inst \<rho>)) (ty_args t) = map (inst \<theta> (row_inst \<rho>)) (ty_args u)"
        using all(1) sol extends_solves(3)[OF ext sol] parts(7)
        by (intro nth_equalityI) (auto simp: equal_under_def set_zip)
      then show "inst \<theta> (row_inst \<rho>) t = inst \<theta> (row_inst \<rho>) u"
        using inst_eq_iff[OF parts(4,5)] parts(6) rows sol by (auto simp: solves_def)
    qed
    then have eq: "equal_under c a b"
      using equal_resolved[OF ok ra rb parts(2,3) extends_trans[OF s1(2) ext]] by blast
    then show ?thesis using known_extends[OF all(2) ext] P'(3) by (auto simp: known_def)
  qed auto
next
  case (4 k p ps met s)
  from 4(7) show ?case
  proof (cases rule: unify_all_Cons)
    case (2 met1 s1)
    have pin: "in_range s (fst p)" "in_range s (snd p)" using 4(4) by (auto simp: pairs_in_range_def)
    have h: "equal_under s1 (fst p) (snd p)" "known s1 P met1"
      using 4(1)[OF 4(3) pin 4(5) _ 2(1)] 4(6) by auto
    have pg: "progress s s1" using unify_progress(1)[OF 4(3) pin 2(1)] .
    have tl: "pairs_in_range s1 ps" using pairs_in_range_progress[OF _ pg, of ps] 4(4) by (simp add: pairs_in_range_def)
    have "(\<forall>p\<in>set ps. equal_under c (fst p) (snd p)) \<and> known c P met'"
    proof (rule 4(2)[OF 2(1) refl refl refl _ tl h(2) _ 2(2)])
      show "ctx_ok s1" using pg by (simp add: progress_def)
      show "within_pairs s1 P (fst q)" if "q \<in> set ps" for q
        using within_pairs_extends 4(6)[of q] that pg by (auto simp: progress_def)
    qed
    moreover have "extends s1 c" using unify_progress(2)[OF _ tl 2(2)] pg by (auto simp: progress_def)
    ultimately show ?thesis using equal_under_extends[OF h(1)] by simp
  qed simp
qed auto

section \<open>A refusal is right\<close>

text \<open>An assignment that leaves the rigid variables alone, rows apart.\<close>

definition respects_rigid :: "ctx \<Rightarrow> (nat \<Rightarrow> ty) \<Rightarrow> bool" where
  "respects_rigid s \<theta> \<longleftrightarrow> (\<forall>v. rigid_type s v \<longrightarrow> \<theta> v = TVar v)"

abbreviation no_rows :: "row \<Rightarrow> row" where "no_rows \<equiv> \<lambda>_. pure_row"

lemma inside_size:
  assumes "solves_types s f \<theta>" "(v, w) \<in> (inside s)\<^sup>*"
  shows "ty_parts (\<theta> v) \<le> ty_parts (\<theta> w)"
  using assms(2)
proof (induction rule: rtrancl_induct)
  case (step y z)
  then obtain b where "type_binding s z = Some b" "y \<in> tvars b" by (auto simp: inside_def)
  then have "ty_parts (\<theta> y) \<le> ty_parts (\<theta> z)" using assms(1) inst_size[of y b \<theta> f] by (auto simp: solves_types_def)
  with step show ?case by simp
qed simp

lemma occurs_unsolvable:
  assumes "solves_types s f \<theta>" "\<theta> v = inst \<theta> f x" "x \<noteq> TVar v" "\<not> is_bound s x"
  shows "\<not> occurs_type s v x"
proof
  assume "occurs_type s v x"
  then obtain w where w: "w \<in> tvars x" "(v, w) \<in> (inside s)\<^sup>*" by (auto simp: occurs_type_iff)
  have "x \<noteq> TVar w"
  proof
    assume x: "x = TVar w"
    from w(2) show False
      using assms(3,4) by (cases rule: rtranclE) (auto simp: x inside_def is_bound_var)
  qed
  then have "ty_parts (\<theta> w) < ty_parts (\<theta> v)" using inst_size[OF w(1), of \<theta> f] assms(2) by simp
  then show False using inside_size[OF assms(1) w(2)] by simp
qed

lemma inst_head: "respects_rigid s \<theta> \<Longrightarrow> flexible_var s t = None \<Longrightarrow>
  ty_head (inst \<theta> f t) = ty_head t \<and> length (ty_args (inst \<theta> f t)) = length (ty_args t)"
  by (cases "var_of t") (auto simp: respects_rigid_def flexible_var_iff inst_parts)

text \<open>What a call answers is compatible with an assignment: a yes keeps it a solution, and a refusal is not one of types.\<close>

definition compatible :: "(nat \<Rightarrow> ty) \<Rightarrow> unify_error + unit \<Rightarrow> ctx \<Rightarrow> bool" where
  "compatible \<theta> r c \<longleftrightarrow> (case r of Inr _ \<Rightarrow> solves_types c no_rows \<theta> | Inl e \<Rightarrow> e = RowMismatch \<or> e = RowConflict)"

lemma unify_exact:
  "ctx_ok s \<Longrightarrow> in_range s a \<Longrightarrow> in_range s b \<Longrightarrow> unify_in k a b met s = Some (r, met', c) \<Longrightarrow>
     solves_types s no_rows \<theta> \<Longrightarrow> respects_rigid s \<theta> \<Longrightarrow> inst \<theta> no_rows a = inst \<theta> no_rows b \<Longrightarrow> compatible \<theta> r c"
  "ctx_ok s \<Longrightarrow> pairs_in_range s ps \<Longrightarrow> unify_all k ps met s = Some (r, met', c) \<Longrightarrow>
     solves_types s no_rows \<theta> \<Longrightarrow> respects_rigid s \<theta> \<Longrightarrow>
     (\<And>p. p \<in> set ps \<Longrightarrow> inst \<theta> no_rows (fst p) = inst \<theta> no_rows (snd p)) \<Longrightarrow> compatible \<theta> r c"
proof (induction k a b met s and k ps met s arbitrary: r met' c and r met' c rule: unify_in_unify_all.induct)
  case (2 k a b met s)
  note ok = 2(2) and ra = 2(3) and rb = 2(4) and sol = 2(6) and rig = 2(7) and eq = 2(8)
  have res: "inst \<theta> no_rows t = inst \<theta> no_rows a" "inst \<theta> no_rows u = inst \<theta> no_rows b"
    if "resolve_type_shallow s a = Some t" "resolve_type_shallow s b = Some u" for t u
    using resolvedD(3)[OF ok ra that(1) sol] resolvedD(3)[OF ok rb that(2) sol] by auto
  have args: "compatible \<theta> r' d" if m: "meet_pair s a b met = Some met1" "resolve_type_shallow s a = Some t"
      "resolve_type_shallow s b = Some u" "var_of t = None" "var_of u = None" "ty_head t = ty_head u"
      "length (ty_args t) = length (ty_args u)"
      "unify_all k (zip (ty_args t) (ty_args u)) met1 s = Some (r', met2, d)" for met1 t u r' met2 d
  proof -
    have tu: "in_range s t" "in_range s u" using resolvedD(2)[OF ok] ra rb m(2,3) by blast+
    have nf: "\<not> (var_of t \<noteq> None \<and> t = u)" "flexible_var s t = None" "flexible_var s u = None"
      using m(4,5) by (auto simp: flexible_var_iff)
    have "map (inst \<theta> no_rows) (ty_args t) = map (inst \<theta> no_rows) (ty_args u)"
      using inst_eq_iff[OF m(4,5), of \<theta> no_rows] res[OF m(2,3)] eq by simp
    then have "inst \<theta> no_rows (fst p) = inst \<theta> no_rows (snd p)" if "p \<in> set (zip (ty_args t) (ty_args u))" for p
      using that by (auto simp: set_zip list_eq_iff_nth_eq)
    with 2(1)[OF m(1) refl m(2,3) nf(1) refl nf(2,3) conjI[OF m(6,7)] ok pairs_in_range_args[OF tu] m(8) sol rig]
    show ?thesis by blast
  qed
  from 2(5) ok conjI[OF ra rb] show ?case
  proof (cases rule: unify_cases)
    case (bind t u v x)
    note b = binds_ok[OF ok bind(2,3) ra rb bind(4)]
    have eqv: "\<theta> v = inst \<theta> no_rows x" using b(7)[OF sol] eq by simp
    have occ: "\<not> occurs_type s v x" using occurs_unsolvable[OF sol eqv b(4,5)] .
    then show ?thesis using bind(5) bind_type_ok(3)[OF ok b(1,2,3,6) occ] sol eqv
      by (auto simp: bind_type_def compatible_def)
  next
    case (parts t u met1 s1)
    have sol1: "solves_types s1 no_rows \<theta>" using args[OF parts(1-8)] by (simp add: compatible_def)
    have "progress s s1"
      using unify_progress(2)[OF ok pairs_in_range_args parts(8)] resolvedD(2)[OF ok] ra rb parts(2,3) by blast
    then have s1: "ctx_ok s1" "in_range s1 t" "in_range s1 u"
      using resolvedD(2)[OF ok] ra rb parts(2,3) extends_in_range by (auto simp: progress_def)
    obtain rc where "unify_rows_of t u s1 = Some rc" "type_bindings (snd rc) = type_bindings s1"
      "\<And>e. fst rc = Inl e \<Longrightarrow> e = RowMismatch \<or> e = RowConflict"
      by (rule rows_of_ok[OF s1]) (rule that; blast)
    with sol1 show ?thesis using parts(9) by (cases r) (auto simp: compatible_def solves_types_def)
  next
    case (parts_fail t u met1 e)
    then show ?thesis using args[OF parts_fail(1-8)] by simp
  next
    case (mismatch t u)
    then show ?thesis using inst_head[OF rig] res[OF mismatch(2,3)] eq by metis
  qed (use sol in \<open>auto simp: compatible_def\<close>)
next
  case (4 k p ps met s)
  have pin: "in_range s (fst p)" "in_range s (snd p)" using 4(4) by (auto simp: pairs_in_range_def)
  from 4(5) show ?case
  proof (cases rule: unify_all_Cons)
    case (1 e)
    then show ?thesis using 4(1)[OF 4(3) pin 1(1) 4(6,7)] 4(8)[of p] by simp
  next
    case (2 met1 s1)
    have pg: "progress s s1" using unify_progress(1)[OF 4(3) pin 2(1)] .
    have sol: "solves_types s1 no_rows \<theta>" using 4(1)[OF 4(3) pin 2(1) 4(6,7)] 4(8)[of p] by (simp add: compatible_def)
    show ?thesis
    proof (rule 4(2)[OF 2(1) refl refl refl _ _ 2(2) sol])
      show "ctx_ok s1" using pg by (simp add: progress_def)
      show "pairs_in_range s1 ps" using pairs_in_range_progress[OF _ pg, of ps] 4(4) by (simp add: pairs_in_range_def)
      show "respects_rigid s1 \<theta>" using 4(7) pg extends_rigid by (auto simp: progress_def respects_rigid_def)
    qed (use 4(8) in simp)
  qed
qed (auto simp: compatible_def)

end
