(* ===== verification/Unify_Claims.thy ===== *)
theory Unify_Claims imports Unify_Sound begin

text \<open>
  Unification ends. More fuel does not change an answer, and on a well-formed context some fuel is enough: a call on
  the parts of two types has either bound a variable more or stands on strictly smaller types written out.
\<close>

lemma unify_fuel:
  "unify_in k a b met s \<noteq> None \<Longrightarrow> unify_in (k + d) a b met s = unify_in k a b met s"
  "unify_all k ps met s \<noteq> None \<Longrightarrow> unify_all (k + d) ps met s = unify_all k ps met s"
proof (induction k a b met s and k ps met s rule: unify_in_unify_all.induct)
  case (2 k a b met s)
  have "unify_all (k + d) (zip (ty_args t) (ty_args u)) met1 s = unify_all k (zip (ty_args t) (ty_args u)) met1 s"
    if "meet_pair s a b met = Some met1" "resolve_type_shallow s a = Some t" "resolve_type_shallow s b = Some u"
      "\<not> (var_of t \<noteq> None \<and> t = u)" "flexible_var s t = None" "flexible_var s u = None"
      "ty_head t = ty_head u \<and> length (ty_args t) = length (ty_args u)" for met1 t u
  proof (rule 2(1)[OF that(1) refl that(2-4) refl that(5-7)])
    show "unify_all k (zip (ty_args t) (ty_args u)) met1 s \<noteq> None"
      using 2(2) that by (intro notI) auto
  qed
  then show ?case
    unfolding unify_in.simps add_Suc by (auto split: option.split)
next
  case (4 k p ps met s)
  obtain r met1 s1 where h: "unify_in k (fst p) (snd p) met s = Some (r, met1, s1)"
    using 4(3) by (cases "unify_in k (fst p) (snd p) met s") auto
  then have h': "unify_in (k + d) (fst p) (snd p) met s = Some (r, met1, s1)" using 4(1) by simp
  show ?case
  proof (cases r)
    case (Inr x)
    then have "unify_all k ps met1 s1 \<noteq> None" using 4(3) h by simp
    then show ?thesis using 4(2)[OF h refl Inr refl] h h' Inr by simp
  qed (use h h' in simp)
qed simp_all

lemma unify_in_fuel: "unify_in k a b met s \<noteq> None \<Longrightarrow> k \<le> k' \<Longrightarrow> unify_in k' a b met s = unify_in k a b met s"
  using unify_fuel(1)[of k a b met s "k' - k"] by simp

lemma unify_all_fuel: "unify_all k ps met s \<noteq> None \<Longrightarrow> k \<le> k' \<Longrightarrow> unify_all k' ps met s = unify_all k ps met s"
  using unify_fuel(2)[of k ps met s "k' - k"] by simp

lemma unify_all_ends:
  assumes "\<And>c p met. p \<in> set ps \<Longrightarrow> progress s c \<Longrightarrow> in_range c (fst p) \<Longrightarrow> in_range c (snd p) \<Longrightarrow>
      \<exists>k. unify_in k (fst p) (snd p) met c \<noteq> None"
    "progress s c" "pairs_in_range c ps"
  shows "\<exists>k. unify_all k ps met c \<noteq> None"
  using assms
proof (induction ps arbitrary: met c)
  case (Cons p ps)
  have pin: "in_range c (fst p)" "in_range c (snd p)" "pairs_in_range c ps" and ok: "ctx_ok c"
    using Cons(3,4) by (auto simp: pairs_in_range_def progress_def)
  obtain k r met1 c1 where h: "unify_in k (fst p) (snd p) met c = Some (r, met1, c1)"
    using Cons(2)[of p c met] Cons(3) pin(1,2) by auto
  have pg: "progress c c1" using unify_progress(1)[OF ok pin(1,2) h] .
  obtain j where j: "unify_all j ps met1 c1 \<noteq> None"
    using Cons(1)[OF Cons(2) progress_trans[OF Cons(3) pg] pairs_in_range_progress[OF pin(3) pg], of met1] by auto
  have "unify_in (max j k) (fst p) (snd p) met c = Some (r, met1, c1)" using unify_in_fuel[of k _ _ _ _ "max j k"] h by simp
  moreover have "unify_all (max j k) ps met1 c1 \<noteq> None" using unify_all_fuel[OF j, of "max j k"] j by simp
  ultimately have "unify_all (max j k) (p # ps) met c \<noteq> None" by (cases r) auto
  then show ?case by blast
qed simp

lemma inst_arg_smaller:
  assumes "var_of t = None" "u \<in> set (ty_args t)"
  shows "ty_parts (inst \<theta> f u) < ty_parts (inst \<theta> f t)"
proof -
  have "inst \<theta> f u \<in> set (ty_args (inst \<theta> f t))" using assms by (auto simp: inst_parts)
  then show ?thesis using ty_parts_args[of "inst \<theta> f t"] member_le_sum_list[of "ty_parts (inst \<theta> f u)" "map ty_parts (ty_args (inst \<theta> f t))"]
    by simp
qed

lemma unify_ends:
  "ctx_ok s \<Longrightarrow> in_range s a \<Longrightarrow> in_range s b \<Longrightarrow> solves_types s no_rows \<theta> \<Longrightarrow> \<exists>k. unify_in k a b met s \<noteq> None"
proof (induction "(s, \<theta>, a)" arbitrary: s \<theta> a b met
    rule: wf_induct_rule[OF wf_measures[of "[\<lambda>(s, \<theta>, a). unbound s, \<lambda>(s, \<theta>, a). ty_parts (inst \<theta> no_rows a)]"]])
  case less: (1 s \<theta> a b met)
  note ok = less(2) and ra = less(3) and rb = less(4) and sol = less(5)
  obtain t u where t: "resolve_type_shallow s a = Some t" and u: "resolve_type_shallow s b = Some u"
    using resolve_Some[OF ok] ra rb by blast
  note rt = resolvedD[OF ok ra t] and ru = resolvedD[OF ok rb u]
  have "\<exists>k. unify_all k (zip (ty_args t) (ty_args u)) met1 s \<noteq> None" if "var_of t = None" for met1
  proof (rule unify_all_ends)
    show "\<exists>k. unify_in k (fst p) (snd p) met c \<noteq> None"
      if p: "p \<in> set (zip (ty_args t) (ty_args u))" and pg: "progress s c" "in_range c (fst p)" "in_range c (snd p)" for c p met
    proof (cases "unbound c < unbound s")
      case True
      have okc: "ctx_ok c" using pg(1) by (simp add: progress_def)
      obtain \<theta>' where s': "solves_types c no_rows \<theta>'" using types_solvable[OF okc] by blast
      show ?thesis by (rule less(1)[OF _ okc pg(2,3) s']) (use True in simp)
    next
      case False
      then have same: "type_bindings c = type_bindings s" and okc: "ctx_ok c" using pg(1) by (auto simp: progress_def)
      have "solves_types c no_rows \<theta>" using sol same by (simp add: solves_types_def)
      moreover have "ty_parts (inst \<theta> no_rows (fst p)) < ty_parts (inst \<theta> no_rows t)"
        using inst_arg_smaller[OF \<open>var_of t = None\<close>] set_zip_leftD[of "fst p" "snd p"] p by simp
      ultimately show ?thesis using less(1)[OF _ okc pg(2,3)] unbound_cong[OF same] rt(3)[OF sol] by simp
    qed
    show "progress s s" using ok by simp
    show "pairs_in_range s (zip (ty_args t) (ty_args u))" using pairs_in_range_args[OF rt(2) ru(2)] .
  qed
  then obtain k where k: "var_of t = None \<Longrightarrow> meet_pair s a b met = Some met1 \<Longrightarrow>
      unify_all k (zip (ty_args t) (ty_args u)) met1 s \<noteq> None" for met1
    by (cases "meet_pair s a b met") fastforce+
  have rows: "unify_rows_of t u s1 \<noteq> None" if "unify_all k (zip (ty_args t) (ty_args u)) met1 s = Some (r, met2, s1)" for met1 r met2 s1
  proof -
    have "progress s s1" using unify_progress(2)[OF ok pairs_in_range_args[OF rt(2) ru(2)] that] .
    then have "ctx_ok s1" "in_range s1 t" "in_range s1 u" using extends_in_range rt(2) ru(2) by (auto simp: progress_def)
    then show ?thesis by (rule rows_of_ok) simp
  qed
  have "unify_in (Suc k) a b met s \<noteq> None"
  proof (cases "meet_pair s a b met")
    case (Some met1)
    show ?thesis
    proof (cases "var_of t = None")
      case True
      then obtain r met2 s1 where "unify_all k (zip (ty_args t) (ty_args u)) met1 s = Some (r, met2, s1)" using k[OF True Some] by auto
      with rows[OF this] True Some t u show ?thesis by (auto split: option.split sum.split prod.split)
    next
      case False
      then have "ty_args t = []" by auto
      with Some t u show ?thesis using ok rt(2) ru(2) rows
        by (auto split: option.split sum.split prod.split)
    qed
  qed simp
  then show ?case by blast
qed

text \<open>
  The properties of the inference context: the contexts the operations build, from the empty one by fresh variables,
  unification of types and of rows and writing types out, are well formed, and on them unification decides what it
  is said to decide and ends.
\<close>

inductive built :: "ctx \<Rightarrow> bool" where
  new: "built new_ctx"
| type_var: "built s \<Longrightarrow> built (snd (fresh_type s))"
| row_var: "built s \<Longrightarrow> built (snd (fresh_row_var s))"
| rigid_type_var: "built s \<Longrightarrow> built (snd (fresh_rigid_type s))"
| rigid_row_var: "built s \<Longrightarrow> built (snd (fresh_rigid_row_var s))"
| types: "built s \<Longrightarrow> in_range s a \<Longrightarrow> in_range s b \<Longrightarrow> unify_type k a b s = Some (r, c) \<Longrightarrow> built c"
| rows: "built s \<Longrightarrow> row_in_range s p \<Longrightarrow> row_in_range s q \<Longrightarrow> unify_row p q s = Some (r, c) \<Longrightarrow> built c"
| written_out: "built s \<Longrightarrow> built (snd (apply_type s t))"

lemma unify_type_in: "unify_type k a b s = Some (r, c) \<Longrightarrow> \<exists>met. unify_in k a b {||} s = Some (r, met, c)"
  by (auto simp: unify_type_def)

lemma ctx_ok_bindings:
  "ctx_ok s \<Longrightarrow> type_bindings c = type_bindings s \<Longrightarrow> row_bindings c = row_bindings s \<Longrightarrow> type_rigid c = type_rigid s \<Longrightarrow>
   row_rigid c = row_rigid s \<Longrightarrow> ctx_ok c"
  by (simp add: ctx_ok_def inside_def row_inside_def in_range_def row_in_range_def rigid_type_def rigid_row_def)

lemma apply_type_ctx:
  "type_bindings (snd (apply_type s t)) = type_bindings s" "row_bindings (snd (apply_type s t)) = row_bindings s"
  "type_rigid (snd (apply_type s t)) = type_rigid s" "row_rigid (snd (apply_type s t)) = row_rigid s"
  by (auto simp: apply_type_def Let_def split: option.splits)

lemma built_ok: "built s \<Longrightarrow> ctx_ok s"
proof (induction rule: built.induct)
  case (types s a b k r c)
  then show ?case using unify_type_in unify_progress(1) by (fastforce simp: progress_def)
next
  case (rows s p q r c)
  then show ?case using unify_row_ok[of s p q] by (auto simp: row_result_def)
next
  case (written_out s t)
  then show ?case using ctx_ok_bindings apply_type_ctx by metis
qed (auto intro: new_ctx_ok fresh_type_ok(1) fresh_row_var_ok fresh_rigid_ok)

text \<open>A generic function with its parameter \<open>TVar 0\<close> and one more variable, and the same for rows.\<close>

definition generic_ctx :: ctx where "generic_ctx = snd (fresh_type (snd (fresh_rigid_type new_ctx)))"

definition generic_rows :: ctx where "generic_rows = snd (fresh_row_var (snd (fresh_rigid_row_var new_ctx)))"

lemma generic_built: "built generic_ctx" "built generic_rows"
  unfolding generic_ctx_def generic_rows_def by (intro built.intros)+

lemma generic_rigid: "rigid_type generic_ctx v \<longleftrightarrow> v = 0"
  by (auto simp: generic_ctx_def fresh_type_def fresh_rigid_type_def new_ctx_def rigid_type_def nth_Cons' less_Suc_eq)

lemma generic_types: "length (type_bindings generic_ctx) = 2"
  by code_simp

lemma known_none: "known s {} {||}" and within_none: "within_pairs s {} a"
  by (simp_all add: known_def within_pairs_def)

text \<open>C17: Two types that unify are one type: every assignment of the variables that solves the context left behind
  solves the one before and makes the two types the same, and both are written out as the same type, in as many parts.
  The context stays one the operations build, and no rigid variable, a generic's own parameter, was bound.\<close>

theorem unified_types_are_equal:
  assumes "built s" "in_range s a" "in_range s b" "unify_type k a b s = Some (Inr (), c)"
  shows "built c \<and>
    (\<forall>\<theta> \<rho>. solves c \<theta> \<rho> \<longrightarrow> solves s \<theta> \<rho> \<and> inst \<theta> (row_inst \<rho>) a = inst \<theta> (row_inst \<rho>) b) \<and>
    (\<forall>n. apply_within c a n = apply_within c b n) \<and> (\<forall>v. rigid_type s v \<longrightarrow> type_binding c v = None)"
proof (intro conjI)
  obtain met where u: "unify_in k a b {||} s = Some (Inr (), met, c)" using unify_type_in[OF assms(4)] by blast
  have ok: "ctx_ok s" using built_ok[OF assms(1)] .
  have "progress s c" using unify_progress(1)[OF ok assms(2,3) u] .
  then have c: "ctx_ok c" "extends s c" by (simp_all add: progress_def)
  have eq: "equal_under c a b" using unify_equal(1)[OF ok assms(2,3) known_none within_none u] by blast
  show "built c" using built.types[OF assms] .
  show "\<forall>\<theta> \<rho>. solves c \<theta> \<rho> \<longrightarrow> solves s \<theta> \<rho> \<and> inst \<theta> (row_inst \<rho>) a = inst \<theta> (row_inst \<rho>) b"
    using eq extends_solves(3)[OF c(2)] by (simp add: equal_under_def)
  obtain \<theta> \<rho> where k: "canonical c \<theta> \<rho>" using canonical_ex[OF c(1)] .
  have "inst \<theta> (row_inst \<rho>) a = inst \<theta> (row_inst \<rho>) b" using eq k by (simp add: equal_under_def canonical_def)
  then show "\<forall>n. apply_within c a n = apply_within c b n"
    using apply_within_exact(1)[OF c(1) k] extends_in_range[OF c(2)] assms(2,3) by simp
  show "\<forall>v. rigid_type s v \<longrightarrow> type_binding c v = None"
    using c extends_rigid[OF c(2)] unfolding ctx_ok_def by (metis option.exhaust)
qed

lemma unified_types_are_equal_witness:
  "apply_within (generic_ctx\<lparr>type_bindings := [None, Some (TVar 0)]\<rparr>) (TMap (TVar 1) (TVar 1)) 9 =
     apply_within (generic_ctx\<lparr>type_bindings := [None, Some (TVar 0)]\<rparr>) (TMap (TVar 0) (TVar 1)) 9 \<and>
   apply_within (generic_ctx\<lparr>type_bindings := [None, Some (TVar 0)]\<rparr>) (TMap (TVar 1) (TVar 1)) 9 =
     Some (TMap (TVar 0) (TVar 0), 6)"
proof -
  have r: "in_range generic_ctx (TMap (TVar 1) (TVar 1))" "in_range generic_ctx (TMap (TVar 0) (TVar 1))"
    by (auto simp: in_range_def generic_types tvars.simps[of "TMap a b" for a b] rvars.simps[of "TMap a b" for a b] var_of_def)
  have u: "unify_type 4 (TMap (TVar 1) (TVar 1)) (TMap (TVar 0) (TVar 1)) generic_ctx =
    Some (Inr (), generic_ctx\<lparr>type_bindings := [None, Some (TVar 0)]\<rparr>)" by code_simp
  have "apply_within (generic_ctx\<lparr>type_bindings := [None, Some (TVar 0)]\<rparr>) (TMap (TVar 1) (TVar 1)) 9 =
     Some (TMap (TVar 0) (TVar 0), 6)" by code_simp
  with unified_types_are_equal[OF generic_built(1) r u] show ?thesis by simp
qed

text \<open>C18: A refusal for the types is right, and a yes loses nothing. Whatever solves the context, leaves the rigid
  variables alone and makes two types the same, their rows apart, is still a solution of the context after they were
  unified; and when they were refused all the same it was for their rows and not for a mismatch or an infinite type.\<close>

theorem unification_keeps_every_unifier:
  assumes "built s" "in_range s a" "in_range s b" "unify_type k a b s = Some (r, c)"
    "solves_types s no_rows \<theta>" "respects_rigid s \<theta>" "inst \<theta> no_rows a = inst \<theta> no_rows b"
  shows "r = Inr () \<and> solves_types c no_rows \<theta> \<or> r = Inl RowMismatch \<or> r = Inl RowConflict"
proof -
  obtain met where u: "unify_in k a b {||} s = Some (r, met, c)" using unify_type_in[OF assms(4)] by blast
  show ?thesis using unify_exact(1)[OF built_ok[OF assms(1)] assms(2,3) u assms(5-7)]
    by (cases r) (auto simp: compatible_def)
qed

lemma unification_keeps_every_unifier_witness:
  "solves_types (generic_ctx\<lparr>type_bindings := [None, Some (TVar 0)]\<rparr>) no_rows (\<lambda>_. TVar 0) \<and>
   unify_type 4 (TVar 0) TInt generic_ctx = Some (Inl TypeMismatch, generic_ctx)"
proof -
  have r: "in_range generic_ctx (TVar 1)" "in_range generic_ctx (TVar 0)" by (simp_all add: generic_types)
  have u: "unify_type 4 (TVar 1) (TVar 0) generic_ctx =
    Some (Inr (), generic_ctx\<lparr>type_bindings := [None, Some (TVar 0)]\<rparr>)" by code_simp
  have sol: "solves_types generic_ctx no_rows (\<lambda>_. TVar 0)"
    by (auto simp: solves_types_def generic_ctx_def fresh_type_def fresh_rigid_type_def new_ctx_def nth_binding_def nth_Cons')
  have rig: "respects_rigid generic_ctx (\<lambda>_. TVar 0)" by (simp add: respects_rigid_def generic_rigid)
  have "unify_type 4 (TVar 0) TInt generic_ctx = Some (Inl TypeMismatch, generic_ctx)" by code_simp
  with unification_keeps_every_unifier[OF generic_built(1) r u sol rig] show ?thesis by simp
qed

text \<open>C19: Unification ends on every context the operations build: for any two types over its variables there is fuel from
  which on it always answers, and the answer does not depend on the fuel.\<close>

theorem unification_ends:
  assumes "built s" "in_range s a" "in_range s b"
  shows "\<exists>k r c. \<forall>j. k \<le> j \<longrightarrow> unify_type j a b s = Some (r, c)"
proof -
  have ok: "ctx_ok s" using built_ok[OF assms(1)] .
  obtain \<theta> where "solves_types s no_rows \<theta>" using types_solvable[OF ok] by blast
  from unify_ends[OF ok assms(2,3) this, of "{||}"]
  obtain k r met c where "unify_in k a b {||} s = Some (r, met, c)" by auto
  then have "unify_type j a b s = Some (r, c)" if "k \<le> j" for j
    using unify_in_fuel[of k a b "{||}" s j] that by (simp add: unify_type_def)
  then show ?thesis by blast
qed

lemma unification_ends_witness:
  "\<exists>k r c. \<forall>j. k \<le> j \<longrightarrow> unify_type j (TVar 0) (TVar 1) generic_ctx = Some (r, c)"
  using unification_ends[OF generic_built(1)] by (simp add: generic_types)

text \<open>Counting the parts is writing them out without the type.\<close>

lemma count_apply:
  "count_within s t left = map_option snd (apply_within s t left)"
  "count_all s ts left = map_option snd (apply_all s ts left)"
  by (induction s t left and s ts left rule: apply_within_apply_all.induct) (auto split: option.splits)

text \<open>The bound on written-out types. Each type over the variables of a context stands for one type without bound
  variables; it is written out exactly when that has at most as many parts as the context allows, the parts are
  counted by the same measure without writing, and a type past the bound marks the context and touches nothing else.\<close>

theorem types_written_out_within_budget:
  assumes "built s" "in_range s t"
  shows "\<exists>u. (\<forall>n. apply_within s t n = (if ty_parts u \<le> n then Some (u, n - ty_parts u) else None)) \<and>
    (\<forall>n. parts_within s t n = (if ty_parts u \<le> n then Some (ty_parts u) else None)) \<and>
    (if ty_parts u \<le> parts_budget s then fst (apply_type s t) = u \<and> too_large (snd (apply_type s t)) = too_large s
     else snd (apply_type s t) = s\<lparr>too_large := True\<rparr>) \<and> TYPE_PARTS_FREE \<le> parts_budget s \<and> parts_budget s \<le> TYPE_PARTS_LIMIT"
proof -
  have ok: "ctx_ok s" using built_ok[OF assms(1)] .
  obtain \<theta> \<rho> where k: "canonical s \<theta> \<rho>" using canonical_ex[OF ok] .
  define u where "u = inst \<theta> (row_inst \<rho>) t"
  have w: "apply_within s t n = (if ty_parts u \<le> n then Some (u, n - ty_parts u) else None)" for n
    using apply_within_exact(1)[OF ok k assms(2)] by (simp add: u_def Let_def)
  have "parts_within s t n = (if ty_parts u \<le> n then Some (ty_parts u) else None)" for n
    using count_apply(1)[of s t n] w[of n] by (simp add: parts_within_def)
  moreover have "TYPE_PARTS_FREE \<le> parts_budget s" "parts_budget s \<le> TYPE_PARTS_LIMIT"
    by (simp_all add: parts_budget_def TYPE_PARTS_FREE_def TYPE_PARTS_LIMIT_def)
  ultimately show ?thesis using w by (intro exI[of _ u]) (simp add: apply_type_def Let_def)
qed

lemma types_written_out_within_budget_witness:
  "fst (apply_type generic_ctx (TVar 1)) = TVar 1 \<and> TYPE_PARTS_FREE \<le> parts_budget generic_ctx"
proof -
  have r: "in_range generic_ctx (TVar 1)" by (simp add: generic_types)
  obtain u where u: "\<forall>n. apply_within generic_ctx (TVar 1) n = (if ty_parts u \<le> n then Some (u, n - ty_parts u) else None)"
    "if ty_parts u \<le> parts_budget generic_ctx then fst (apply_type generic_ctx (TVar 1)) = u \<and>
       too_large (snd (apply_type generic_ctx (TVar 1))) = too_large generic_ctx
     else snd (apply_type generic_ctx (TVar 1)) = generic_ctx\<lparr>too_large := True\<rparr>"
    "TYPE_PARTS_FREE \<le> parts_budget generic_ctx"
    using types_written_out_within_budget[OF generic_built(1) r] by blast
  have "apply_within generic_ctx (TVar 1) 1 = Some (TVar 1, 0)" by code_simp
  moreover have "apply_within generic_ctx (TVar 1) 1 = (if ty_parts u \<le> 1 then Some (u, 1 - ty_parts u) else None)"
    using u(1) by blast
  ultimately have e: "Some (TVar 1, 0) = (if ty_parts u \<le> 1 then Some (u, 1 - ty_parts u) else None)"
    by (rule box_equals[rotated]) (rule refl)
  have p: "u = TVar 1" "ty_parts u \<le> 1" by (cases "ty_parts u \<le> 1"; insert e; simp)+
  then have "ty_parts u \<le> parts_budget generic_ctx" using u(3) by (simp add: TYPE_PARTS_FREE_def)
  with u(2,3) p(1) show ?thesis by presburger
qed

text \<open>Row variables stay rigid.\<close>

lemma unify_row_rigid: "unify_row a b s = Some (r, c) \<Longrightarrow> rigid_row s v \<Longrightarrow> rigid_row c v"
  by (auto simp: unify_row_def close_row_def bind_row_def fresh_row_var_def rigid_row_def nth_append Let_def
      split: option.splits if_splits prod.splits sum.splits)

text \<open>Rows unify by equality and are never merged. Unifying two rows always answers; a row variable that is bound stays
  bound to what it was; rows that unified are written out as one row; two closed rows unify exactly when their effects
  are the same; and a rigid tail is neither bound nor closed.\<close>

theorem rows_unify_by_equality:
  assumes "built s" "row_in_range s a" "row_in_range s b"
  shows "\<exists>r c. unify_row a b s = Some (r, c) \<and> built c \<and> type_bindings c = type_bindings s \<and>
    (\<forall>v q. row_binding s v = Some q \<longrightarrow> row_binding c v = Some q) \<and>
    (case r of Inr _ \<Rightarrow> apply_row c a = apply_row c b | Inl e \<Rightarrow> e = RowMismatch \<or> e = RowConflict) \<and>
    (r_tail (apply_row s a) = None \<and> r_tail (apply_row s b) = None \<longrightarrow>
       (r = Inr ()) = (r_effects (apply_row s a) = r_effects (apply_row s b))) \<and>
    (\<forall>v. rigid_row s v \<longrightarrow> row_binding c v = None \<and>
       (r_tail (apply_row s a) = Some v \<and> r_tail (apply_row s b) = None \<longrightarrow> r \<noteq> Inr ()))"
proof -
  have ok: "ctx_ok s" using built_ok[OF assms(1)] .
  obtain r c where u: "unify_row a b s = Some (r, c)" and res: "row_result s a b (r, c)"
    using unify_row_ok[OF ok assms(2,3)] by (metis surj_pair)
  have c: "ctx_ok c" "extends s c" "type_bindings c = type_bindings s" using res by (auto simp: row_result_def)
  obtain \<theta> \<rho> where k: "canonical c \<theta> \<rho>" using canonical_ex[OF c(1)] .
  have same: "apply_row c a = apply_row c b" if "r = Inr ()"
    using res that k canonical_row[OF c(1) k] by (simp add: row_result_def canonical_def solves_def)
  have closed: "(r = Inr ()) = (r_effects (apply_row s a) = r_effects (apply_row s b))"
    if "r_tail (apply_row s a) = None" "r_tail (apply_row s b) = None"
    using u that by (auto simp: unify_row_def apply_row_def row_error_def split: option.splits if_splits)
  have rigid: "r \<noteq> Inr ()" if "r_tail (apply_row s a) = Some v" "r_tail (apply_row s b) = None" "rigid_row s v" for v
    using u that by (auto simp: unify_row_def apply_row_def close_row_def split: option.splits if_splits)
  have "row_binding c v = None" if "rigid_row s v" for v
    using c(1) unify_row_rigid[OF u that] unfolding ctx_ok_def by (metis option.exhaust)
  moreover have "built c" using built.rows[OF assms u] .
  moreover have "case r of Inr _ \<Rightarrow> apply_row c a = apply_row c b | Inl e \<Rightarrow> e = RowMismatch \<or> e = RowConflict"
    using res same by (cases r) (auto simp: row_result_def)
  ultimately show ?thesis using u c(2,3) closed rigid by (auto simp: extends_def)
qed

lemma rows_unify_by_equality_witness:
  "fst (the (unify_row \<lparr>r_effects = {||}, r_tail = Some 0\<rparr> pure_row generic_rows)) = Inl RowMismatch"
proof -
  have r: "row_in_range generic_rows \<lparr>r_effects = {||}, r_tail = Some 0\<rparr>" "row_in_range generic_rows pure_row"
    by (simp_all add: row_in_range_def generic_rows_def fresh_row_var_def fresh_rigid_row_var_def new_ctx_def
        pure_row_def)
  have "rigid_row generic_rows 0" "r_tail (apply_row generic_rows \<lparr>r_effects = {||}, r_tail = Some 0\<rparr>) = Some 0"
    "r_tail (apply_row generic_rows pure_row) = None" by code_simp+
  moreover have "unify_row \<lparr>r_effects = {||}, r_tail = Some 0\<rparr> pure_row generic_rows = Some (Inl RowMismatch, generic_rows)"
    by code_simp
  ultimately show ?thesis using rows_unify_by_equality[OF generic_built(2) r] by auto
qed

end
