(* ===== verification/Rcaps.thy ===== *)
theory Rcaps imports Ty begin

text \<open>
  Reference capabilities, \<open>crates/delulu-check/src/rcaps.rs\<close>: what each of the six denies to other aliases in its own
  actor and in others, the tables of aliasing, sending, viewpoint adaptation and subtyping, and the default of a type
  that writes none. \<open>components_of\<close> of the source, the component types of a declared type, is the finite map \<open>comps\<close>:
  a program declares finitely many types.
\<close>

datatype (plugins only: code size) rcap = Iso | Trn | Ref | Val | Box | Tag

fun rcap_name :: "rcap \<Rightarrow> string" where
  "rcap_name Iso = ''iso''"
| "rcap_name Trn = ''trn''"
| "rcap_name Ref = ''ref''"
| "rcap_name Val = ''val''"
| "rcap_name Box = ''box''"
| "rcap_name Tag = ''tag''"

definition rcap_from_name :: "string \<Rightarrow> rcap option" where
  "rcap_from_name s =
     (if s = ''iso'' then Some Iso
      else if s = ''trn'' then Some Trn
      else if s = ''ref'' then Some Ref
      else if s = ''val'' then Some Val
      else if s = ''box'' then Some Box
      else if s = ''tag'' then Some Tag
      else None)"

section \<open>The definitions: what a capability denies\<close>

record deny =
  deny_read :: bool
  deny_write :: bool

definition DENY_NONE :: deny where "DENY_NONE = \<lparr>deny_read = False, deny_write = False\<rparr>"

definition DENY_WRITE :: deny where "DENY_WRITE = \<lparr>deny_read = False, deny_write = True\<rparr>"

definition DENY_READ_WRITE :: deny where "DENY_READ_WRITE = \<lparr>deny_read = True, deny_write = True\<rparr>"

fun denies_local :: "rcap \<Rightarrow> deny" where
  "denies_local Iso = DENY_READ_WRITE"
| "denies_local Trn = DENY_WRITE"
| "denies_local Ref = DENY_NONE"
| "denies_local Val = DENY_WRITE"
| "denies_local Box = DENY_NONE"
| "denies_local Tag = DENY_NONE"

fun denies_global :: "rcap \<Rightarrow> deny" where
  "denies_global Iso = DENY_READ_WRITE"
| "denies_global Trn = DENY_READ_WRITE"
| "denies_global Ref = DENY_READ_WRITE"
| "denies_global Val = DENY_WRITE"
| "denies_global Box = DENY_WRITE"
| "denies_global Tag = DENY_NONE"

definition can_read :: "rcap \<Rightarrow> bool" where
  "can_read k \<longleftrightarrow> k \<noteq> Tag"

definition can_write :: "rcap \<Rightarrow> bool" where
  "can_write k \<longleftrightarrow> k = Iso \<or> k = Trn \<or> k = Ref"

section \<open>The tables\<close>

fun alias_of :: "rcap \<Rightarrow> rcap" where
  "alias_of Iso = Tag"
| "alias_of Trn = Box"
| "alias_of Ref = Ref"
| "alias_of Val = Val"
| "alias_of Box = Box"
| "alias_of Tag = Tag"

definition sendable :: "rcap \<Rightarrow> bool" where
  "sendable k \<longleftrightarrow> k = Iso \<or> k = Val \<or> k = Tag"

fun viewpoint :: "rcap \<Rightarrow> rcap \<Rightarrow> rcap option" where
  "viewpoint Tag _ = None"
| "viewpoint Iso Iso = Some Iso"
| "viewpoint Iso Val = Some Val"
| "viewpoint Iso _ = Some Tag"
| "viewpoint Trn Iso = Some Iso"
| "viewpoint Trn Trn = Some Trn"
| "viewpoint Trn Ref = Some Box"
| "viewpoint Trn Val = Some Val"
| "viewpoint Trn Box = Some Box"
| "viewpoint Trn Tag = Some Tag"
| "viewpoint Ref x = Some x"
| "viewpoint Val Tag = Some Tag"
| "viewpoint Val _ = Some Val"
| "viewpoint Box Iso = Some Tag"
| "viewpoint Box Val = Some Val"
| "viewpoint Box Tag = Some Tag"
| "viewpoint Box _ = Some Box"

definition deny_superset :: "deny \<Rightarrow> deny \<Rightarrow> bool" where
  "deny_superset x y \<longleftrightarrow> (deny_read x \<or> \<not> deny_read y) \<and> (deny_write x \<or> \<not> deny_write y)"

definition subcap :: "rcap \<Rightarrow> rcap \<Rightarrow> bool" where
  "subcap a b \<longleftrightarrow>
     (can_read a \<or> \<not> can_read b) \<and> (can_write a \<or> \<not> can_write b) \<and>
     deny_superset (denies_local a) (denies_local b) \<and> deny_superset (denies_global a) (denies_global b)"

section \<open>The default of a type\<close>

text \<open>The declared types being looked at are \<open>visiting\<close>, the one met last first. The components of a declared type
  are all looked at: whether each is \<open>val\<close>, and whether one is undetermined.\<close>

function default_rcap_inner :: "ty \<Rightarrow> (nat, ty list) fmap \<Rightarrow> nat list \<Rightarrow> rcap option"
  and default_of_declared :: "nat \<Rightarrow> (nat, ty list) fmap \<Rightarrow> nat list \<Rightarrow> rcap option"
  and component_defaults :: "ty list \<Rightarrow> (nat, ty list) fmap \<Rightarrow> nat list \<Rightarrow> bool \<times> bool" where
  "default_rcap_inner TInt comps visiting = Some Val"
| "default_rcap_inner TFloat comps visiting = Some Val"
| "default_rcap_inner TBool comps visiting = Some Val"
| "default_rcap_inner TStr comps visiting = Some Val"
| "default_rcap_inner TUnit comps visiting = Some Val"
| "default_rcap_inner (TCap r) comps visiting = Some Val"
| "default_rcap_inner (TSecret t) comps visiting = Some Val"
| "default_rcap_inner (TPlugin t) comps visiting = Some Val"
| "default_rcap_inner TRoot comps visiting = Some Val"
| "default_rcap_inner (TForeign n) comps visiting = Some Val"
| "default_rcap_inner TVerified comps visiting = Some Val"
| "default_rcap_inner TContained comps visiting = Some Val"
| "default_rcap_inner TPyObj comps visiting = Some Ref"
| "default_rcap_inner TForeignPtr comps visiting = Some Ref"
| "default_rcap_inner (TActor n ts) comps visiting = Some Tag"
| "default_rcap_inner (TList e) comps visiting =
     (case default_rcap_inner e comps visiting of None \<Rightarrow> None | Some k \<Rightarrow> Some (if k = Val then Val else Ref))"
| "default_rcap_inner (TOption e) comps visiting =
     (case default_rcap_inner e comps visiting of None \<Rightarrow> None | Some k \<Rightarrow> Some (if k = Val then Val else Ref))"
| "default_rcap_inner (TResult x y) comps visiting =
     (case (default_rcap_inner x comps visiting, default_rcap_inner y comps visiting) of
        (Some a, Some b) \<Rightarrow> Some (if a = Val \<and> b = Val then Val else Ref)
      | _ \<Rightarrow> None)"
| "default_rcap_inner (TMap x y) comps visiting =
     (case (default_rcap_inner x comps visiting, default_rcap_inner y comps visiting) of
        (Some a, Some b) \<Rightarrow> Some (if a = Val \<and> b = Val then Val else Ref)
      | _ \<Rightarrow> None)"
| "default_rcap_inner (TRecord i ts) comps visiting = default_of_declared i comps visiting"
| "default_rcap_inner (TSum i ts) comps visiting = default_of_declared i comps visiting"
| "default_rcap_inner (TFn ps r w) comps visiting = Some Box"
| "default_rcap_inner (TVar v) comps visiting = None"
| "default_of_declared i comps visiting =
     (if i \<in> set visiting then Some Val
      else (case fmlookup comps i of
              None \<Rightarrow> None
            | Some cs \<Rightarrow>
                (case component_defaults cs comps (i # visiting) of
                   (all_val, undetermined) \<Rightarrow>
                     if undetermined then None else if all_val then Some Val else Some Ref)))"
| "component_defaults [] comps visiting = (True, False)"
| "component_defaults (c # cs) comps visiting =
     (case component_defaults cs comps visiting of
        (all_val, undetermined) \<Rightarrow>
          (case default_rcap_inner c comps visiting of
             Some k \<Rightarrow> (all_val \<and> k = Val, undetermined)
           | None \<Rightarrow> (all_val, True)))"
  by pat_completeness auto

text \<open>Every declared type is looked at once on the way to where it is met again.\<close>

definition unvisited :: "(nat, ty list) fmap \<Rightarrow> nat list \<Rightarrow> nat" where
  "unvisited comps visiting = card (fset (fmdom comps) - set visiting)"

lemma unvisited_less: "i \<notin> set visiting \<Longrightarrow> fmlookup comps i = Some cs \<Longrightarrow> unvisited comps (i # visiting) < unvisited comps visiting"
  unfolding unvisited_def by (rule psubset_card_mono) (auto intro: fmdomI)

termination default_rcap_inner
  by (relation "measures
     [\<lambda>x. case x of Inl (t, comps, v) \<Rightarrow> unvisited comps v | Inr (Inl (i, comps, v)) \<Rightarrow> unvisited comps v
                  | Inr (Inr (ts, comps, v)) \<Rightarrow> unvisited comps v,
      \<lambda>x. case x of Inl (t, comps, v) \<Rightarrow> Suc (size t) | Inr (Inl (i, comps, v)) \<Rightarrow> 0
                  | Inr (Inr (ts, comps, v)) \<Rightarrow> Suc (size_list size ts)]")
    (auto simp: unvisited_less)

declare default_of_declared.simps [simp del]

definition default_rcap :: "ty \<Rightarrow> (nat, ty list) fmap \<Rightarrow> rcap option" where
  "default_rcap t comps = default_rcap_inner t comps []"

section \<open>Facts on the tables\<close>

lemma rcap_cases_all: "(\<forall>k. P k) \<longleftrightarrow> P Iso \<and> P Trn \<and> P Ref \<and> P Val \<and> P Box \<and> P Tag"
  by (metis rcap.exhaust)

lemmas rcap_tables = can_read_def can_write_def sendable_def subcap_def deny_superset_def DENY_NONE_def DENY_WRITE_def
  DENY_READ_WRITE_def

lemma rcap_name_round_trip: "rcap_from_name (rcap_name k) = Some k"
  by (cases k) (simp_all add: rcap_from_name_def)

end
