(* ===== verification/Rcap_Claims.thy ===== *)
theory Rcap_Claims imports Rcaps "HOL-Library.Multiset" begin

text \<open>
  The properties of reference capabilities: the tables are what the definitions of denial say; the default of a type is
  \<open>val\<close> exactly for deeply immutable types; and no sequence of aliasing, sending and field reads over any number of
  objects and actors reaches two aliases of one object that contradict each other. For the last the model is the one
  the repository's ship gate states in the tests of \<open>rcaps.rs\<close> (criterion 8) and samples with generated sequences.
\<close>

section \<open>The tables\<close>

text \<open>When one capability may be an alias of another that was not consumed.\<close>

definition legal_alias :: "rcap \<Rightarrow> rcap \<Rightarrow> bool" where
  "legal_alias k a \<longleftrightarrow>
     (\<not> can_read a \<or> \<not> deny_read (denies_local k)) \<and> (\<not> can_write a \<or> \<not> deny_write (denies_local k)) \<and>
     (\<not> can_read k \<or> \<not> deny_read (denies_local a)) \<and> (\<not> can_write k \<or> \<not> deny_write (denies_local a)) \<and>
     deny_superset (denies_local k) (denies_local a) \<and> deny_superset (denies_global k) (denies_global a)"

definition permits_more :: "rcap \<Rightarrow> rcap \<Rightarrow> bool" where
  "permits_more a b \<longleftrightarrow> (can_read a \<or> \<not> can_read b) \<and> (can_write a \<or> \<not> can_write b)"

text \<open>The tables of reference capabilities are the consequences of what each denies: a capability is sendable exactly
  when it guarantees the same in its own actor and in the others; the alias of each is legal and permits everything
  that any legal alias of it permits; a value may stand in for another along a partial order; and a field read never gives reading or writing that the receiver or the field
  lacks, immutability passing on to everything readable through it.\<close>

theorem tables_follow_what_is_denied:
  "(sendable k \<longleftrightarrow> denies_local k = denies_global k) \<and>
   legal_alias k (alias_of k) \<and> (legal_alias k a \<longrightarrow> permits_more (alias_of k) a) \<and>
   subcap k k \<and> (subcap k a \<and> subcap a k \<longrightarrow> k = a) \<and> (subcap k a \<and> subcap a f \<longrightarrow> subcap k f) \<and>
   (viewpoint k f = Some v \<longrightarrow>
      (can_read v \<longrightarrow> can_read k \<and> can_read f) \<and> (can_write v \<longrightarrow> can_write k \<and> can_write f) \<and>
      (k = Val \<and> can_read v \<longrightarrow> v = Val))"
proof (intro conjI impI)
  show "sendable k \<longleftrightarrow> denies_local k = denies_global k" by (cases k) (simp_all add: rcap_tables)
  show "legal_alias k (alias_of k)" by (cases k) (simp_all add: rcap_tables legal_alias_def)
  show "permits_more (alias_of k) a" if "legal_alias k a"
    using that by (cases k; cases a) (simp_all add: rcap_tables legal_alias_def permits_more_def)
  show "subcap k k" by (cases k) (simp_all add: rcap_tables)
  show "k = a" if "subcap k a \<and> subcap a k" using that by (cases k; cases a) (simp_all add: rcap_tables)
  show "subcap k f" if "subcap k a \<and> subcap a f"
    using that by (cases k; cases a; cases f) (simp_all add: rcap_tables)
next
  assume v: "viewpoint k f = Some v"
  show "can_read k" if "can_read v" using that v by (cases k) (auto simp: rcap_tables)
  show "can_read f" if "can_read v" using that v by (cases k; cases f) (auto simp: rcap_tables)
  show "can_write k" if "can_write v" using that v by (cases k; cases f) (auto simp: rcap_tables)
  show "can_write f" if "can_write v" using that v by (cases k; cases f) (auto simp: rcap_tables)
  show "v = Val" if "k = Val \<and> can_read v" using that v by (cases f) (auto simp: rcap_tables)
qed

lemma tables_follow_what_is_denied_witness:
  "permits_more (alias_of Trn) Tag \<and> subcap Iso Box \<and> can_read Trn \<and> viewpoint Trn Ref = Some Box"
  using tables_follow_what_is_denied[of Trn Tag Ref Box] tables_follow_what_is_denied[of Iso Val Box Tag]
  by (simp add: rcap_tables legal_alias_def)

section \<open>Objects, aliases and actors\<close>

record sim_alias =
  sim_actor :: nat
  sim_rcap :: rcap

record sim_object =
  obj_aliases :: "sim_alias list"
  obj_fields :: "(rcap \<times> nat) list"

definition compatible_aliases :: "sim_alias \<Rightarrow> sim_alias \<Rightarrow> bool" where
  "compatible_aliases a b \<longleftrightarrow>
     (let (da, db) = (if sim_actor a = sim_actor b then (denies_local (sim_rcap a), denies_local (sim_rcap b))
                      else (denies_global (sim_rcap a), denies_global (sim_rcap b)))
      in (\<not> can_read (sim_rcap b) \<or> \<not> deny_read da) \<and> (\<not> can_write (sim_rcap b) \<or> \<not> deny_write da) \<and>
         (\<not> can_read (sim_rcap a) \<or> \<not> deny_read db) \<and> (\<not> can_write (sim_rcap a) \<or> \<not> deny_write db))"

definition actors_race :: "sim_alias \<Rightarrow> sim_alias \<Rightarrow> bool" where
  "actors_race a b \<longleftrightarrow> sim_actor a \<noteq> sim_actor b \<and>
     (can_write (sim_rcap a) \<and> (can_read (sim_rcap b) \<or> can_write (sim_rcap b)) \<or>
      can_write (sim_rcap b) \<and> can_read (sim_rcap a))"

fun race_free :: "sim_alias list \<Rightarrow> bool" where
  "race_free [] = True"
| "race_free (a # as) = (list_all (\<lambda>b. \<not> actors_race a b \<and> compatible_aliases a b) as \<and> race_free as)"

text \<open>\<open>Vec::swap_remove\<close>: the last element takes the place of the one removed.\<close>

definition swap_remove :: "'a list \<Rightarrow> nat \<Rightarrow> 'a list" where
  "swap_remove xs i = butlast (xs[i := last xs])"

datatype (plugins only: code size) sim_step =
    SAlias nat nat
  | SSend nat nat nat bool
  | SField nat rcap
  | SView nat nat nat

definition live_alias :: "sim_object list \<Rightarrow> nat \<Rightarrow> nat \<Rightarrow> bool" where
  "live_alias w i j \<longleftrightarrow> i < length w \<and> j < length (obj_aliases (w ! i))"

definition add_alias :: "sim_object list \<Rightarrow> nat \<Rightarrow> sim_alias \<Rightarrow> sim_object list" where
  "add_alias w i a = w[i := (w ! i)\<lparr>obj_aliases := obj_aliases (w ! i) @ [a]\<rparr>]"

text \<open>An alias of the same object in the same actor; an alias sent to another actor, consumed or not; a field of a
  declared capability with an object of its own; and the object of a field read through an alias and kept.\<close>

fun sim_do :: "sim_step \<Rightarrow> sim_object list \<Rightarrow> sim_object list" where
  "sim_do (SAlias i j) w =
     (if live_alias w i j then
        (let src = obj_aliases (w ! i) ! j in add_alias w i (src\<lparr>sim_rcap := alias_of (sim_rcap src)\<rparr>))
      else w)"
| "sim_do (SSend i j actor consumed) w =
     (if live_alias w i j then
        (let src = obj_aliases (w ! i) ! j;
             arriving = (if consumed then sim_rcap src else alias_of (sim_rcap src));
             left = (if consumed then w[i := (w ! i)\<lparr>obj_aliases := swap_remove (obj_aliases (w ! i)) j\<rparr>] else w)
         in if sendable arriving then add_alias left i \<lparr>sim_actor = actor, sim_rcap = arriving\<rparr> else w)
      else w)"
| "sim_do (SField i k) w =
     (if i < length w then
        w[i := (w ! i)\<lparr>obj_fields := obj_fields (w ! i) @ [(k, length w)]\<rparr>] @ [\<lparr>obj_aliases = [], obj_fields = []\<rparr>]
      else w)"
| "sim_do (SView i j slot) w =
     (if live_alias w i j \<and> slot < length (obj_fields (w ! i)) then
        (let src = obj_aliases (w ! i) ! j; (k, target) = obj_fields (w ! i) ! slot
         in case viewpoint (sim_rcap src) k of
              Some v \<Rightarrow> add_alias w target \<lparr>sim_actor = sim_actor src, sim_rcap = alias_of v\<rparr>
            | None \<Rightarrow> w)
      else w)"

definition sim_start :: "sim_alias list \<Rightarrow> sim_object list" where
  "sim_start roots = map (\<lambda>a. \<lparr>obj_aliases = [a], obj_fields = []\<rparr>) roots"

section \<open>What an object's aliases can be\<close>

text \<open>An object is held uniquely, written by one actor through a \<open>trn\<close> or freely, or shared and written by nobody; the
  way it is held follows from how its parent is held and from its field's capability.\<close>

datatype (plugins only: code size) held = Uniquely | Transitionally nat | Locally nat | Shared

fun held_from :: "sim_alias \<Rightarrow> held" where
  "held_from a =
     (case sim_rcap a of Iso \<Rightarrow> Uniquely | Trn \<Rightarrow> Transitionally (sim_actor a) | Ref \<Rightarrow> Locally (sim_actor a) | _ \<Rightarrow> Shared)"

definition field_held :: "held \<Rightarrow> rcap \<Rightarrow> held" where
  "field_held h k =
     (if k = Ref \<or> k = Trn then (case h of Transitionally x \<Rightarrow> Locally x | Locally x \<Rightarrow> Locally x | _ \<Rightarrow> Shared) else Shared)"

fun permits :: "held \<Rightarrow> sim_alias \<Rightarrow> bool" where
  "permits Uniquely a = (sim_rcap a = Iso \<or> sim_rcap a = Tag)"
| "permits (Transitionally x) a = (sim_rcap a = Tag \<or> sim_actor a = x \<and> (sim_rcap a = Trn \<or> sim_rcap a = Box))"
| "permits (Locally x) a = (sim_rcap a = Tag \<or> sim_actor a = x \<and> (sim_rcap a = Ref \<or> sim_rcap a = Box))"
| "permits Shared a = (sim_rcap a = Val \<or> sim_rcap a = Box \<or> sim_rcap a = Tag)"

definition sole :: "sim_alias \<Rightarrow> bool" where
  "sole a \<longleftrightarrow> sim_rcap a = Iso \<or> sim_rcap a = Trn"

definition aliases_held :: "held \<Rightarrow> sim_alias list \<Rightarrow> bool" where
  "aliases_held h as \<longleftrightarrow> list_all (permits h) as \<and> length (filter sole as) \<le> 1"

definition world_held :: "sim_object list \<Rightarrow> held list \<Rightarrow> bool" where
  "world_held w hs \<longleftrightarrow> length hs = length w \<and>
     (\<forall>i<length w. aliases_held (hs ! i) (obj_aliases (w ! i)) \<and>
        (\<forall>(k, t)\<in>set (obj_fields (w ! i)). t < length w \<and> hs ! t = field_held (hs ! i) k))"

lemma held_race_free: "aliases_held h as \<Longrightarrow> race_free as"
proof (induction as)
  case (Cons a as)
  have tl: "aliases_held h as" using Cons(2) by (auto simp: aliases_held_def split: if_splits)
  have "\<not> actors_race a b \<and> compatible_aliases a b" if "b \<in> set as" for b
  proof -
    have p: "permits h a" "permits h b" "\<not> (sole a \<and> sole b)"
      using Cons(2) that by (auto simp: aliases_held_def list_all_iff filter_empty_conv)
    then show ?thesis
      by (cases h; cases "sim_rcap a"; cases "sim_rcap b")
        (auto simp: actors_race_def compatible_aliases_def rcap_tables sole_def)
  qed
  with Cons(1)[OF tl] show ?case by (simp add: list_all_iff)
qed simp

lemma held_start: "world_held (sim_start roots) (map held_from roots)"
  by (auto simp: world_held_def sim_start_def aliases_held_def split: rcap.split)

lemma held_add:
  assumes "aliases_held h as" "permits h a" "sole a \<Longrightarrow> filter sole as = []"
  shows "aliases_held h (as @ [a])"
  using assms by (cases "sole a") (auto simp: aliases_held_def)

lemma mset_swap_remove:
  assumes "j < length xs" shows "mset (swap_remove xs j) = mset xs - {#xs ! j#}"
proof -
  let ?ys = "xs[j := last xs]"
  have ne: "?ys \<noteq> []" "xs \<noteq> []" using assms by auto
  have l: "last ?ys = last xs" using assms ne by (simp add: last_conv_nth nth_list_update)
  have "mset ?ys = add_mset (last xs) (mset (butlast ?ys))"
    using append_butlast_last_id[OF ne(1)] l by (metis add_mset_add_single mset.simps mset_append mset_single_iff union_commute)
  then show ?thesis using mset_update[OF assms, of "last xs"] by (simp add: swap_remove_def)
qed

lemma held_swap_remove:
  assumes "aliases_held h as" "j < length as"
  shows "aliases_held h (swap_remove as j)" "sole (as ! j) \<Longrightarrow> filter sole (swap_remove as j) = []"
proof -
  have m: "mset (swap_remove as j) = mset as - {#as ! j#}" using mset_swap_remove[OF assms(2)] .
  then have "set (swap_remove as j) \<subseteq> set as" by (metis diff_subset_eq_self set_mset_mono set_mset_mset)
  moreover have f: "mset (filter sole (swap_remove as j)) = mset (filter sole as) - filter_mset sole {#as ! j#}"
    by (simp add: m)
  then have "length (filter sole (swap_remove as j)) \<le> length (filter sole as)"
    by (metis size_mset size_mset_mono diff_subset_eq_self)
  ultimately show "aliases_held h (swap_remove as j)" using assms(1) by (auto simp: aliases_held_def list_all_iff)
  assume s: "sole (as ! j)"
  have "as ! j \<in># mset (filter sole as)" using s assms(2) by simp
  then have "size (mset (filter sole as) - {#as ! j#}) = size (mset (filter sole as)) - 1" by (rule size_Diff_singleton)
  moreover have "mset (filter sole (swap_remove as j)) = mset (filter sole as) - {#as ! j#}" using f s by simp
  ultimately have "length (filter sole (swap_remove as j)) = length (filter sole as) - 1" by (metis size_mset)
  then show "filter sole (swap_remove as j) = []" using assms(1) by (simp add: aliases_held_def)
qed

lemma world_held_aliases:
  assumes "world_held w hs" "i < length w" "aliases_held (hs ! i) as"
  shows "world_held (w[i := (w ! i)\<lparr>obj_aliases := as\<rparr>]) hs"
  using assms by (auto simp: world_held_def nth_list_update)

lemma world_held_add:
  assumes "world_held w hs" "i < length w" "permits (hs ! i) a" "sole a \<Longrightarrow> filter sole (obj_aliases (w ! i)) = []"
  shows "world_held (add_alias w i a) hs"
  unfolding add_alias_def using assms by (intro world_held_aliases held_add) (auto simp: world_held_def)

lemma alias_permitted: "permits h a \<Longrightarrow> permits h (a\<lparr>sim_rcap := alias_of (sim_rcap a)\<rparr>)"
  by (cases h; cases "sim_rcap a") auto

lemma alias_not_sole: "\<not> sole (a\<lparr>sim_rcap := alias_of k\<rparr>)" "\<not> sole \<lparr>sim_actor = x, sim_rcap = alias_of k\<rparr>"
  by (cases k; simp add: sole_def)+

lemma sent_permitted:
  "permits h a \<Longrightarrow> k = sim_rcap a \<or> k = alias_of (sim_rcap a) \<Longrightarrow> sendable k \<Longrightarrow> permits h \<lparr>sim_actor = x, sim_rcap = k\<rparr>"
  by (cases h; cases "sim_rcap a") (auto simp: sendable_def)

lemma view_permitted:
  "permits h a \<Longrightarrow> viewpoint (sim_rcap a) k = Some v \<Longrightarrow>
   permits (field_held h k) \<lparr>sim_actor = sim_actor a, sim_rcap = alias_of v\<rparr>"
  by (cases h; cases "sim_rcap a"; cases k) (auto simp: field_held_def)

lemma live_permitted:
  "world_held w hs \<Longrightarrow> live_alias w i j \<Longrightarrow> i < length w \<and> permits (hs ! i) (obj_aliases (w ! i) ! j)"
  by (auto simp: world_held_def live_alias_def aliases_held_def list_all_length)

lemma sim_do_held:
  assumes "world_held w hs" shows "\<exists>hs'. world_held (sim_do st w) hs'"
proof (cases st)
  case (SAlias i j)
  show ?thesis
  proof (cases "live_alias w i j")
    case True
    note p = live_permitted[OF assms True]
    have "world_held (sim_do st w) hs"
      using world_held_add[OF assms _ alias_permitted] p alias_not_sole(1) True by (simp add: SAlias Let_def)
    then show ?thesis by blast
  qed (use assms SAlias in auto)
next
  case (SSend i j x consumed)
  show ?thesis
  proof (cases "live_alias w i j \<and> sendable (if consumed then sim_rcap (obj_aliases (w ! i) ! j) else alias_of (sim_rcap (obj_aliases (w ! i) ! j)))")
    case True
    let ?src = "obj_aliases (w ! i) ! j"
    note p = live_permitted[OF assms, of i j]
    have held: "aliases_held (hs ! i) (obj_aliases (w ! i))" and j: "j < length (obj_aliases (w ! i))" "i < length w"
      using assms True by (auto simp: world_held_def live_alias_def)
    have "world_held (sim_do st w) hs"
    proof (cases consumed)
      case False
      then have q: "permits (hs ! i) \<lparr>sim_actor = x, sim_rcap = alias_of (sim_rcap ?src)\<rparr>"
        using sent_permitted[of "hs ! i" ?src] p True by simp
      have "world_held (add_alias w i \<lparr>sim_actor = x, sim_rcap = alias_of (sim_rcap ?src)\<rparr>) hs"
        by (rule world_held_add[OF assms j(2) q]) (simp add: alias_not_sole)
      then show ?thesis using True False by (simp add: SSend Let_def)
    next
      case c: True
      let ?w = "w[i := (w ! i)\<lparr>obj_aliases := swap_remove (obj_aliases (w ! i)) j\<rparr>]"
      have "world_held ?w hs" using world_held_aliases[OF assms j(2) held_swap_remove(1)[OF held j(1)]] .
      moreover have "permits (hs ! i) \<lparr>sim_actor = x, sim_rcap = sim_rcap ?src\<rparr>"
        using sent_permitted[of "hs ! i" ?src] p True c by simp
      moreover have "sole \<lparr>sim_actor = x, sim_rcap = sim_rcap ?src\<rparr> \<Longrightarrow> filter sole (obj_aliases (?w ! i)) = []"
        using held_swap_remove(2)[OF held j(1)] j(2) by (simp add: sole_def)
      ultimately show ?thesis using world_held_add[of ?w hs i] True c j(2) by (simp add: SSend Let_def)
    qed
    then show ?thesis by blast
  qed (use assms SSend in \<open>auto simp: Let_def\<close>)
next
  case (SField i k)
  show ?thesis
  proof (cases "i < length w")
    case True
    have "world_held (sim_do st w) (hs @ [field_held (hs ! i) k])"
      using assms True by (auto simp: SField world_held_def nth_append nth_list_update less_Suc_eq aliases_held_def)
    then show ?thesis by blast
  qed (use assms SField in auto)
next
  case (SView i j slot)
  show ?thesis
  proof (cases "live_alias w i j \<and> slot < length (obj_fields (w ! i))")
    case True
    obtain k t where f: "obj_fields (w ! i) ! slot = (k, t)" by (cases "obj_fields (w ! i) ! slot")
    have p: "i < length w" "permits (hs ! i) (obj_aliases (w ! i) ! j)" using live_permitted[OF assms] True by auto
    have "(k, t) \<in> set (obj_fields (w ! i))" using f True by (metis nth_mem)
    then have t: "t < length w" "hs ! t = field_held (hs ! i) k" using assms p(1) by (auto simp: world_held_def)
    show ?thesis
    proof (cases "viewpoint (sim_rcap (obj_aliases (w ! i) ! j)) k")
      case (Some v)
      have "world_held (add_alias w t \<lparr>sim_actor = sim_actor (obj_aliases (w ! i) ! j), sim_rcap = alias_of v\<rparr>) hs"
        by (rule world_held_add[OF assms t(1)]) (simp_all add: view_permitted[OF p(2) Some] t(2) alias_not_sole)
      then have "world_held (sim_do st w) hs" using True f Some by (simp add: SView Let_def)
      then show ?thesis by blast
    qed (use assms SView f True in \<open>auto simp: Let_def\<close>)
  qed (use assms SView in auto)
qed

lemma run_held: "world_held w hs \<Longrightarrow> \<exists>hs'. world_held (fold sim_do sts w) hs'"
proof (induction sts arbitrary: w hs)
  case (Cons st sts)
  then show ?case using sim_do_held[OF Cons(2), of st] by auto
qed auto

text \<open>C23: No run of a program over reference capabilities expresses a data race. From any objects, each first held by one
  alias of any capability in any actor, after any sequence of aliasing, sending to any actor, consumed or not, adding
  fields and keeping what a field read gives, no two aliases of one object contradict what either denies, and none in
  one actor can write what another actor can read or write.\<close>

theorem no_sequence_reaches_a_race:
  "list_all (\<lambda>ob. race_free (obj_aliases ob)) (fold sim_do steps (sim_start roots))"
proof -
  obtain hs where "world_held (fold sim_do steps (sim_start roots)) hs" using run_held[OF held_start] by blast
  then show ?thesis using held_race_free by (auto simp: world_held_def list_all_length)
qed

section \<open>The default capability\<close>

text \<open>Deep immutability, stated without an order of visiting: through lists, options, results, maps and declared types
  there are only plain data and handles, however the declared types refer to one another.\<close>

definition immutable_leaf :: "ty \<Rightarrow> bool" where
  "immutable_leaf t \<longleftrightarrow>
     t \<in> {TInt, TFloat, TBool, TStr, TUnit, TRoot, TVerified, TContained} \<or>
     (\<exists>r. t = TCap r) \<or> (\<exists>u. t = TSecret u) \<or> (\<exists>u. t = TPlugin u) \<or> (\<exists>n. t = TForeign n)"

coinductive deeply_immutable :: "(nat, ty list) fmap \<Rightarrow> ty \<Rightarrow> bool" for comps where
  leaf: "immutable_leaf t \<Longrightarrow> deeply_immutable comps t"
| in_list: "deeply_immutable comps t \<Longrightarrow> deeply_immutable comps (TList t)"
| in_option: "deeply_immutable comps t \<Longrightarrow> deeply_immutable comps (TOption t)"
| in_result: "deeply_immutable comps t \<Longrightarrow> deeply_immutable comps u \<Longrightarrow> deeply_immutable comps (TResult t u)"
| in_map: "deeply_immutable comps t \<Longrightarrow> deeply_immutable comps u \<Longrightarrow> deeply_immutable comps (TMap t u)"
| in_record: "fmlookup comps i = Some cs \<Longrightarrow> \<forall>c\<in>set cs. deeply_immutable comps c \<Longrightarrow> deeply_immutable comps (TRecord i ts)"
| in_sum: "fmlookup comps i = Some cs \<Longrightarrow> \<forall>c\<in>set cs. deeply_immutable comps c \<Longrightarrow> deeply_immutable comps (TSum i ts)"

inductive_cases deeply_immutableE: "deeply_immutable comps t"

lemma component_defaults_val:
  "component_defaults cs comps v = (True, False) \<longleftrightarrow> (\<forall>c\<in>set cs. default_rcap_inner c comps v = Some Val)"
  by (induction cs) (auto split: prod.splits option.splits)

lemma declared_val:
  "default_of_declared i comps v = Some Val \<longleftrightarrow>
     i \<in> set v \<or> (\<exists>cs. fmlookup comps i = Some cs \<and> (\<forall>c\<in>set cs. default_rcap_inner c comps (i # v) = Some Val))"
  by (auto simp: default_of_declared.simps component_defaults_val[symmetric] split: option.split prod.splits)

text \<open>The types being visited, each of whose components came out \<open>val\<close>.\<close>

fun visited_val :: "(nat, ty list) fmap \<Rightarrow> nat list \<Rightarrow> bool" where
  "visited_val comps [] = True"
| "visited_val comps (i # v) =
     ((\<exists>cs. fmlookup comps i = Some cs \<and> (\<forall>c\<in>set cs. default_rcap_inner c comps (i # v) = Some Val)) \<and> visited_val comps v)"

lemma visited_val_nth:
  "visited_val comps v \<Longrightarrow> i \<in> set v \<Longrightarrow>
     \<exists>u cs. visited_val comps u \<and> fmlookup comps i = Some cs \<and> (\<forall>c\<in>set cs. default_rcap_inner c comps u = Some Val)"
  by (induction v) (auto, metis visited_val.simps(2))

definition comes_out_val :: "(nat, ty list) fmap \<Rightarrow> ty \<Rightarrow> bool" where
  "comes_out_val comps t \<longleftrightarrow> (\<exists>v. visited_val comps v \<and> default_rcap_inner t comps v = Some Val)"

lemma declared_comes_out:
  assumes "visited_val comps v" "default_of_declared i comps v = Some Val"
  shows "\<exists>cs. fmlookup comps i = Some cs \<and> (\<forall>c\<in>set cs. comes_out_val comps c)"
proof (cases "i \<in> set v")
  case True
  then show ?thesis using visited_val_nth[OF assms(1)] unfolding comes_out_val_def by blast
next
  case False
  then obtain cs where "fmlookup comps i = Some cs" "\<forall>c\<in>set cs. default_rcap_inner c comps (i # v) = Some Val"
    using assms(2) declared_val by blast
  then show ?thesis using assms(1) unfolding comes_out_val_def by (intro exI[of _ cs]) (metis visited_val.simps(2))
qed

lemma comes_out_immutable: "comes_out_val comps t \<Longrightarrow> deeply_immutable comps t"
proof (coinduction arbitrary: t rule: deeply_immutable.coinduct)
  case (deeply_immutable t)
  then obtain v where v: "visited_val comps v" "default_rcap_inner t comps v = Some Val" by (auto simp: comes_out_val_def)
  show ?case
  proof (cases t)
    case (TRecord i ts)
    with v declared_comes_out[of comps v i] show ?thesis by auto
  next
    case (TSum i ts)
    with v declared_comes_out[of comps v i] show ?thesis by auto
  qed (use v in \<open>auto simp: immutable_leaf_def comes_out_val_def split: option.splits if_splits\<close>)
qed

lemma immutable_comes_out:
  "deeply_immutable comps t \<Longrightarrow> default_rcap_inner t comps v = Some Val"
  "(\<exists>cs. fmlookup comps i = Some cs \<and> (\<forall>c\<in>set cs. deeply_immutable comps c)) \<Longrightarrow> default_of_declared i comps v = Some Val"
  "\<forall>c\<in>set cs. deeply_immutable comps c \<Longrightarrow> component_defaults cs comps v = (True, False)"
proof (induction t comps v and i comps v and cs comps v rule: default_rcap_inner_default_of_declared_component_defaults.induct)
  case (24 i comps v)
  then show ?case by (auto simp: default_of_declared.simps)
next
  case (26 c cs comps v)
  then have "component_defaults cs comps v = (True, False)" by simp
  moreover have "default_rcap_inner c comps v = Some Val" using 26(2)[OF calculation[symmetric]] 26(3) by simp
  ultimately show ?case by simp
qed (auto elim: deeply_immutableE simp: immutable_leaf_def)

text \<open>C24: The default reference capability of a type is val exactly when the type is deeply immutable, for declared types
  that refer to one another in any way, themselves included: looking at each once on the way loses nothing.\<close>

theorem default_val_is_deep_immutability:
  "default_rcap t comps = Some Val \<longleftrightarrow> deeply_immutable comps t"
proof
  assume "default_rcap t comps = Some Val"
  then have "comes_out_val comps t" unfolding default_rcap_def comes_out_val_def by (intro exI[of _ "[]"]) simp
  then show "deeply_immutable comps t" by (rule comes_out_immutable)
qed (simp add: default_rcap_def immutable_comes_out(1))

end
