(* ===== verification/Ast.thy ===== *)
theory Ast imports Rcaps "HOL-Library.Word" begin

text \<open>
  The syntax tree of the language, \<open>crates/delulu-syntax/src/ast.rs\<close> with the spans of \<open>crates/delulu-diag/src/span.rs\<close>,
  and the table of declarations the checks are given, of \<open>crates/delulu-check/src/resolve.rs\<close>. A hash map is a partial
  function. The bits of a double are a word.
\<close>

section \<open>Spans, names and types as written\<close>

record span =
  sp_file :: nat
  sp_start :: nat
  sp_end :: nat

definition span_to :: "span \<Rightarrow> span \<Rightarrow> span" where
  "span_to a b = \<lparr>sp_file = sp_file a, sp_start = min (sp_start a) (sp_start b), sp_end = max (sp_end a) (sp_end b)\<rparr>"

record ident =
  id_name :: string
  id_span :: span

type_synonym path = "ident list"

record row_expr =
  re_effects :: "path list"
  re_tail :: "ident option"
  re_span :: span

datatype (plugins only: code size) type_expr =
    TENamed path "type_expr list" span
  | TEFn "type_expr list" "type_expr option" "row_expr option" span
  | TERcap rcap type_expr span

fun type_expr_span :: "type_expr \<Rightarrow> span" where
  "type_expr_span (TENamed _ _ sp) = sp"
| "type_expr_span (TEFn _ _ _ sp) = sp"
| "type_expr_span (TERcap _ _ sp) = sp"

fun written_rcap :: "type_expr \<Rightarrow> rcap option" where
  "written_rcap (TERcap k _ _) = Some k"
| "written_rcap _ = None"

record param =
  p_name :: ident
  p_ty :: type_expr

section \<open>Expressions and statements\<close>

datatype (plugins only: code size) lit_kind = LitInt int | LitFloat "64 word" | LitStr string | LitBool bool

datatype (plugins only: code size) un_op = OpNeg | OpNot

datatype (plugins only: code size) bin_op =
  OpAdd | OpSub | OpMul | OpDiv | OpRem | OpEq | OpNe | OpLt | OpLe | OpGt | OpGe | OpAnd | OpOr

datatype (plugins only: code size) pattern =
    PWildcard span
  | PLit lit_kind span
  | PBind ident
  | PVariant path "pattern list" span

text \<open>The node's identifier and its span come last in every expression, as in the source.\<close>

datatype (plugins only: code size) expr =
    ELit lit_kind nat span
  | EVar path nat span
  | EList "expr list" nat span
  | ERecord path "(ident \<times> expr) list" nat span
  | ECall expr "expr list" nat span
  | EMethod expr ident "expr list" nat span
  | EField expr ident nat span
  | EIndex expr expr nat span
  | EUnary un_op expr nat span
  | EBinary bin_op expr expr nat span
  | EIf expr block "expr option" nat span
  | EMatch expr "arm list" nat span
  | ELambda "param list" "type_expr option" "row_expr option" block nat span
  | ETry expr nat span
  | EBlock block
  | ESpawn path "expr list" nat span
  | EConsume ident nat span
  | ERecover "rcap option" block nat span
and block = Block "stmt list" nat span
and stmt =
    SLet ident "type_expr option" expr bool span
  | SAssign lvalue expr span
  | SWhile expr block span
  | SFor ident expr block span
  | SBreak span
  | SContinue span
  | SReturn "expr option" span
  | SExpr expr
and lvalue = LVar ident | LField lvalue ident | LIndex lvalue expr
and arm = Arm pattern expr span

fun block_id :: "block \<Rightarrow> nat" where "block_id (Block _ i _) = i"

fun block_span :: "block \<Rightarrow> span" where "block_span (Block _ _ sp) = sp"

fun expr_span :: "expr \<Rightarrow> span" where
  "expr_span (ELit _ _ sp) = sp" | "expr_span (EVar _ _ sp) = sp" | "expr_span (EList _ _ sp) = sp"
| "expr_span (ERecord _ _ _ sp) = sp" | "expr_span (ECall _ _ _ sp) = sp" | "expr_span (EMethod _ _ _ _ sp) = sp"
| "expr_span (EField _ _ _ sp) = sp" | "expr_span (EIndex _ _ _ sp) = sp" | "expr_span (EUnary _ _ _ sp) = sp"
| "expr_span (EBinary _ _ _ _ sp) = sp" | "expr_span (EIf _ _ _ _ sp) = sp" | "expr_span (EMatch _ _ _ sp) = sp"
| "expr_span (ELambda _ _ _ _ _ sp) = sp" | "expr_span (ETry _ _ sp) = sp" | "expr_span (EBlock b) = block_span b"
| "expr_span (ESpawn _ _ _ sp) = sp" | "expr_span (EConsume _ _ sp) = sp" | "expr_span (ERecover _ _ _ sp) = sp"

fun expr_id :: "expr \<Rightarrow> nat" where
  "expr_id (ELit _ i _) = i" | "expr_id (EVar _ i _) = i" | "expr_id (EList _ i _) = i"
| "expr_id (ERecord _ _ i _) = i" | "expr_id (ECall _ _ i _) = i" | "expr_id (EMethod _ _ _ i _) = i"
| "expr_id (EField _ _ i _) = i" | "expr_id (EIndex _ _ i _) = i" | "expr_id (EUnary _ _ i _) = i"
| "expr_id (EBinary _ _ _ i _) = i" | "expr_id (EIf _ _ _ i _) = i" | "expr_id (EMatch _ _ i _) = i"
| "expr_id (ELambda _ _ _ _ i _) = i" | "expr_id (ETry _ i _) = i" | "expr_id (EBlock b) = block_id b"
| "expr_id (ESpawn _ _ i _) = i" | "expr_id (EConsume _ i _) = i" | "expr_id (ERecover _ _ i _) = i"

fun lvalue_span :: "lvalue \<Rightarrow> span" where
  "lvalue_span (LVar x) = id_span x"
| "lvalue_span (LField b x) = span_to (lvalue_span b) (id_span x)"
| "lvalue_span (LIndex b _) = lvalue_span b"

text \<open>The index expressions of a target, the innermost first.\<close>

fun index_exprs :: "lvalue \<Rightarrow> expr list" where
  "index_exprs (LVar _) = []"
| "index_exprs (LField b _) = index_exprs b"
| "index_exprs (LIndex b e) = index_exprs b @ [e]"

text \<open>The name of an expression that is a variable of one segment.\<close>

definition single_name :: "expr \<Rightarrow> string option" where
  "single_name e = (case e of EVar [x] _ _ \<Rightarrow> Some (id_name x) | _ \<Rightarrow> None)"

section \<open>Declarations\<close>

record fn_decl =
  fd_public :: bool
  fd_name :: ident
  fd_generics :: "ident list"
  fd_params :: "param list"
  fd_ret :: "type_expr option"
  fd_row :: "row_expr option"
  fd_body :: block

record ctor_decl =
  cd_params :: "param list"
  cd_row :: "row_expr option"
  cd_body :: block

record behavior_decl =
  bd_name :: ident
  bd_params :: "param list"
  bd_row :: "row_expr option"
  bd_body :: block

record actor_field =
  af_mutable :: bool
  af_name :: ident
  af_ty :: type_expr

record actor_decl =
  acd_name :: ident
  acd_generics :: "ident list"
  acd_fields :: "actor_field list"
  acd_ctor :: ctor_decl
  acd_behaviors :: "behavior_decl list"
  acd_fns :: "fn_decl list"

record test_decl =
  ted_name :: string
  ted_row :: "row_expr option"
  ted_body :: block

text \<open>The items of a module; those without a body are one constructor.\<close>

datatype (plugins only: code size) item = IFn fn_decl | IActor actor_decl | ITest test_decl | IOther

section \<open>The table of declarations\<close>

datatype (plugins only: code size) type_def_kind =
    DRecord "(string \<times> type_expr) list"
  | DSum "(string \<times> type_expr list) list"
  | DAlias type_expr

record type_def =
  td_name :: string
  td_generics :: "string list"
  td_kind :: type_def_kind

record fn_sig =
  sig_name :: string
  sig_public :: bool
  sig_generics :: "string list"
  sig_params :: "param list"
  sig_ret :: "type_expr option"
  sig_row :: "row_expr option"

record actor_behavior =
  ab_name :: string
  ab_params :: "param list"
  ab_row :: "row_expr option"

record actor_def =
  ad_name :: string
  ad_generics :: "string list"
  ad_fields :: "(string \<times> type_expr \<times> bool) list"
  ad_ctor_params :: "param list"
  ad_ctor_row :: "row_expr option"
  ad_behaviors :: "actor_behavior list"
  ad_fns :: "fn_sig list"

text \<open>Of the constants and the foreign blocks the table is only asked whether there is one of a name.\<close>

record decl_table =
  dt_types :: "type_def list"
  dt_type_ix :: "string \<rightharpoonup> nat"
  dt_fns :: "string \<rightharpoonup> fn_sig"
  dt_consts :: "string \<Rightarrow> bool"
  dt_foreigns :: "string \<Rightarrow> bool"
  dt_actors :: "string \<rightharpoonup> actor_def"

definition actor_behavior_of :: "actor_def \<Rightarrow> string \<Rightarrow> actor_behavior option" where
  "actor_behavior_of a n = find (\<lambda>b. ab_name b = n) (ad_behaviors a)"

definition actor_sync_fn :: "actor_def \<Rightarrow> string \<Rightarrow> fn_sig option" where
  "actor_sync_fn a n = find (\<lambda>f. sig_name f = n) (ad_fns a)"

text \<open>The one sum that declares a constructor: none when no sum does or more than one.\<close>

fun find_ctor :: "string \<Rightarrow> type_def list \<Rightarrow> nat \<Rightarrow> (nat \<times> type_expr list) option \<Rightarrow> (nat \<times> type_expr list) option" where
  "find_ctor c [] i found = found"
| "find_ctor c (d # ds) i found =
     (case td_kind d of
        DSum vs \<Rightarrow>
          (case find (\<lambda>v. fst v = c) vs of
             Some v \<Rightarrow> if found \<noteq> None then None else find_ctor c ds (Suc i) (Some (i, snd v))
           | None \<Rightarrow> find_ctor c ds (Suc i) found)
      | _ \<Rightarrow> find_ctor c ds (Suc i) found)"

definition variant_ctor :: "decl_table \<Rightarrow> string \<Rightarrow> (nat \<times> type_expr list) option" where
  "variant_ctor d c = find_ctor c (dt_types d) 0 None"

end
