(* ===== verification/Rcap_Check.thy ===== *)
theory Rcap_Check imports Ast begin

text \<open>
  The pass that checks reference capabilities, \<open>crates/delulu-check/src/rcap_check.rs\<close>: it walks every body after type
  inference, with the settled types of nodes and functions, and reports. The state is the source's \<open>Pass\<close>; its scopes
  are a list with the innermost first, so a scope's depth is the number of those after it. A report is a constructor
  that carries what its text interpolates.
\<close>

section \<open>What the pass knows\<close>

datatype (plugins only: code size) kn =
    KKnown rcap
  | KUnaliased rcap
  | KFresh rcap bool bool "span option"
  | KUnknown

datatype (plugins only: code size) why_val = WLift span string string | WWritten span

record binding =
  b_rcap :: "rcap option"
  b_ty :: "ty option"
  b_fresh_lift :: "(bool \<times> bool) option"
  b_consumed :: "(span \<times> bool) option"
  b_rcap_written :: bool
  b_why_val :: "why_val option"

definition plain_binding :: "rcap option \<Rightarrow> ty option \<Rightarrow> binding" where
  "plain_binding k t =
     \<lparr>b_rcap = k, b_ty = t, b_fresh_lift = None, b_consumed = None, b_rcap_written = False, b_why_val = None\<rparr>"

text \<open>Where a value is stored, and what a write is to.\<close>

datatype (plugins only: code size) stored_at = AtBinding | AtReturn | AtAssignment | AtField string | AtElement | AtArgument string

datatype (plugins only: code size) written_to = ToField | ToElement | ToPush | ToListMethod string | ToMapMethod string

datatype (plugins only: code size) rcap_diag =
    UseAfterConsume string span span bool
  | CrossesRecover string "rcap option" span
  | ConsumesCapture string span
  | ParamPinned string string span
  | ParamNotSendable string string rcap span
  | ParamUndecidable string string span
  | CannotLiftReturn rcap span
  | CannotStore kn rcap stored_at bool span
  | CannotStoreVal kn span "span option" "(span \<times> nat \<times> nat) option"
  | WriteRefused kn written_to span "(string \<times> why_val) option"
  | NoFieldThroughTag span
  | PyObjPinned span
  | IsoNotConsumed span "span option"
  | SendUndecidable span
  | CannotSend kn rcap span
  | NotSynchronous string string span

fun rcap_code :: "rcap_diag \<Rightarrow> string" where
  "rcap_code (UseAfterConsume _ _ _ _) = ''DL1602''"
| "rcap_code (CrossesRecover _ _ _) = ''DL1605''"
| "rcap_code (ConsumesCapture _ _) = ''DL1602''"
| "rcap_code (ParamPinned _ _ _) = ''DL1601''"
| "rcap_code (ParamNotSendable _ _ _ _) = ''DL1601''"
| "rcap_code (ParamUndecidable _ _ _) = ''DL1601''"
| "rcap_code (CannotLiftReturn _ _) = ''DL1603''"
| "rcap_code (CannotStore _ _ _ _ _) = ''DL1603''"
| "rcap_code (CannotStoreVal _ _ _ _) = ''DL1603''"
| "rcap_code (WriteRefused _ _ _ _) = ''DL1604''"
| "rcap_code (NoFieldThroughTag _) = ''DL1604''"
| "rcap_code (PyObjPinned _) = ''DL1601''"
| "rcap_code (IsoNotConsumed _ _) = ''DL1601''"
| "rcap_code (SendUndecidable _) = ''DL1601''"
| "rcap_code (CannotSend _ _ _) = ''DL1601''"
| "rcap_code (NotSynchronous _ _ _) = ''DL1604''"

record pass =
  ps_diags :: "rcap_diag list"
  ps_scopes :: "(string \<rightharpoonup> binding) list"
  ps_recover :: "nat option"
  ps_capture :: "nat option"
  ps_moves :: "nat fset"

text \<open>What the pass is given and only reads.\<close>

record rc_env =
  rc_table :: decl_table
  rc_node_types :: "nat \<rightharpoonup> ty"
  rc_fn_types :: "string \<rightharpoonup> ty"

definition report :: "rcap_diag \<Rightarrow> pass \<Rightarrow> pass" where
  "report d s = s\<lparr>ps_diags := ps_diags s @ [d]\<rparr>"

section \<open>Scopes\<close>

definition push_scope :: "pass \<Rightarrow> pass" where
  "push_scope s = s\<lparr>ps_scopes := Map.empty # ps_scopes s\<rparr>"

definition pop_scope :: "pass \<Rightarrow> pass" where
  "pop_scope s = s\<lparr>ps_scopes := tl (ps_scopes s)\<rparr>"

definition bind_name :: "string \<Rightarrow> binding \<Rightarrow> pass \<Rightarrow> pass" where
  "bind_name n b s =
     (case ps_scopes s of [] \<Rightarrow> s | sc # scs \<Rightarrow> s\<lparr>ps_scopes := sc(n \<mapsto> b) # scs\<rparr>)"

fun find_binding :: "string \<Rightarrow> (string \<rightharpoonup> binding) list \<Rightarrow> (nat \<times> binding) option" where
  "find_binding n [] = None"
| "find_binding n (sc # scs) = (case sc n of Some b \<Rightarrow> Some (length scs, b) | None \<Rightarrow> find_binding n scs)"

definition lookup_name :: "string \<Rightarrow> pass \<Rightarrow> binding option" where
  "lookup_name n s = map_option snd (find_binding n (ps_scopes s))"

fun change_binding :: "string \<Rightarrow> (binding \<Rightarrow> binding) \<Rightarrow> (string \<rightharpoonup> binding) list \<Rightarrow> (string \<rightharpoonup> binding) list" where
  "change_binding n f [] = []"
| "change_binding n f (sc # scs) =
     (case sc n of Some b \<Rightarrow> sc(n \<mapsto> f b) # scs | None \<Rightarrow> sc # change_binding n f scs)"

definition change_name :: "string \<Rightarrow> (binding \<Rightarrow> binding) \<Rightarrow> pass \<Rightarrow> pass" where
  "change_name n f s = s\<lparr>ps_scopes := change_binding n f (ps_scopes s)\<rparr>"

definition mark_escaped :: "string \<Rightarrow> pass \<Rightarrow> pass" where
  "mark_escaped n s = change_name n (\<lambda>b. b\<lparr>b_fresh_lift := None\<rparr>) s"

definition escape_arg :: "expr \<Rightarrow> pass \<Rightarrow> pass" where
  "escape_arg e s = (case single_name e of Some n \<Rightarrow> mark_escaped n s | None \<Rightarrow> s)"

datatype (plugins only: code size) use_kind = UseRead | UseConsume

text \<open>Every reference to a binding: not after it was consumed, not across the edge of a \<open>recover\<close> unless it may cross, and
  no consuming of what a closure captured.\<close>

definition may_cross :: "use_kind \<Rightarrow> rcap option \<Rightarrow> bool" where
  "may_cross u k \<longleftrightarrow> k = Some Val \<or> k = Some Tag \<or> u = UseConsume \<and> k = Some Iso"

definition below :: "nat \<Rightarrow> nat option \<Rightarrow> bool" where
  "below depth bd = (case bd of Some n \<Rightarrow> depth < n | None \<Rightarrow> False)"

definition use_binding :: "string \<Rightarrow> span \<Rightarrow> use_kind \<Rightarrow> pass \<Rightarrow> rcap option \<times> pass" where
  "use_binding n sp u s =
     (case find_binding n (ps_scopes s) of
        None \<Rightarrow> (None, s)
      | Some (depth, b) \<Rightarrow>
          (case b_consumed b of
             Some (site, carried) \<Rightarrow> (b_rcap b, report (UseAfterConsume n sp site carried) s)
           | None \<Rightarrow>
               if below depth (ps_recover s) \<and> \<not> may_cross u (b_rcap b) then
                 (b_rcap b, report (CrossesRecover n (b_rcap b) sp) s)
               else if u = UseRead then (b_rcap b, s)
               else if below depth (ps_capture s) then (b_rcap b, report (ConsumesCapture n sp) s)
               else (b_rcap b, change_name n (\<lambda>b. b\<lparr>b_consumed := Some (sp, False), b_fresh_lift := None\<rparr>) s)))"

definition known_or_not :: "rcap option \<Rightarrow> kn" where
  "known_or_not k = (case k of Some x \<Rightarrow> KKnown x | None \<Rightarrow> KUnknown)"

section \<open>What was consumed, at the joins of branches\<close>

type_synonym consumed_states = "(string \<rightharpoonup> (span \<times> bool) option) list"

definition consumed_snapshot :: "pass \<Rightarrow> consumed_states" where
  "consumed_snapshot s = map (\<lambda>sc n. map_option b_consumed (sc n)) (ps_scopes s)"

text \<open>Scopes beside a snapshot taken at the same depth; where one is longer its rest is left as it is.\<close>

fun zip_scopes ::
    "(binding \<Rightarrow> (span \<times> bool) option \<Rightarrow> binding) \<Rightarrow> (string \<rightharpoonup> binding) list \<Rightarrow> consumed_states \<Rightarrow> (string \<rightharpoonup> binding) list" where
  "zip_scopes f (sc # scs) (st # sts) =
     (\<lambda>n. case (sc n, st n) of (Some b, Some c) \<Rightarrow> Some (f b c) | (x, _) \<Rightarrow> x) # zip_scopes f scs sts"
| "zip_scopes f scs sts = scs"

definition consumed_restore :: "consumed_states \<Rightarrow> pass \<Rightarrow> pass" where
  "consumed_restore snap s = s\<lparr>ps_scopes := zip_scopes (\<lambda>b c. b\<lparr>b_consumed := c\<rparr>) (ps_scopes s) snap\<rparr>"

definition consumed_join :: "consumed_states \<Rightarrow> pass \<Rightarrow> pass" where
  "consumed_join other s =
     s\<lparr>ps_scopes := zip_scopes (\<lambda>b c. if b_consumed b = None then b\<lparr>b_consumed := c\<rparr> else b) (ps_scopes s) other\<rparr>"

text \<open>The names a loop's body consumes are dead for every later iteration.\<close>

definition carry_consumed :: "(string \<times> span) list \<Rightarrow> pass \<Rightarrow> pass" where
  "carry_consumed ns s =
     fold (\<lambda>(n, site). change_name n (\<lambda>b. if b_consumed b = None then b\<lparr>b_consumed := Some (site, True)\<rparr> else b)) ns s"

section \<open>Types, shallowly\<close>

text \<open>A type as written, lowered far enough for defaults and fields: what is generic or ambiguous has no answer. An alias
  is followed to its target; the fuel counts aliases followed, and as many as there are declared types are enough where
  no alias leads back to itself, which the type checker refuses before.\<close>

fun lower_shallow :: "nat \<Rightarrow> decl_table \<Rightarrow> type_expr \<Rightarrow> ty option" where
  "lower_shallow k d (TERcap _ t _) = lower_shallow k d t"
| "lower_shallow k d (TEFn _ _ _ _) = Some (TFn [] TUnit pure_row)"
| "lower_shallow k d (TENamed p args sp) =
     (if length p \<noteq> 1 then None
      else let n = id_name (hd p) in
        if n = ''Int'' then Some TInt
        else if n = ''Float'' then Some TFloat
        else if n = ''Bool'' then Some TBool
        else if n = ''Str'' then Some TStr
        else if n = ''Unit'' then Some TUnit
        else if n = ''Root'' then Some TRoot
        else if n = ''ForeignPtr'' then Some TForeignPtr
        else if n = ''PyObj'' then Some TPyObj
        else if n = ''List'' then (case args of [] \<Rightarrow> None | a # _ \<Rightarrow> map_option TList (lower_shallow k d a))
        else if n = ''Option'' then (case args of [] \<Rightarrow> None | a # _ \<Rightarrow> map_option TOption (lower_shallow k d a))
        else if n = ''Result'' then
          (case args of
             a # b # _ \<Rightarrow>
               (case (lower_shallow k d a, lower_shallow k d b) of
                  (Some x, Some y) \<Rightarrow> Some (TResult x y) | _ \<Rightarrow> None)
           | _ \<Rightarrow> None)
        else if n = ''Secret'' then (case args of [] \<Rightarrow> None | a # _ \<Rightarrow> map_option TSecret (lower_shallow k d a))
        else if n = ''Cap'' then
          (case args of
             TENamed q _ _ # _ \<Rightarrow> (if q = [] then None else map_option TCap (resource_from_name (id_name (last q))))
           | _ \<Rightarrow> None)
        else if dt_foreigns d n then Some (TForeign n)
        else (case dt_actors d n of
                Some a \<Rightarrow> if ad_generics a \<noteq> [] then None else Some (TActor n [])
              | None \<Rightarrow>
                  (case dt_type_ix d n of
                     None \<Rightarrow> None
                   | Some i \<Rightarrow>
                       if i < length (dt_types d) \<and> td_generics (dt_types d ! i) = [] then
                         (case td_kind (dt_types d ! i) of
                            DRecord _ \<Rightarrow> Some (TRecord i [])
                          | DSum _ \<Rightarrow> Some (TSum i [])
                          | DAlias t \<Rightarrow> (case k of 0 \<Rightarrow> None | Suc k' \<Rightarrow> lower_shallow k' d t))
                       else None)))"

definition lower_type :: "decl_table \<Rightarrow> type_expr \<Rightarrow> ty option" where
  "lower_type d t = lower_shallow (length (dt_types d)) d t"

fun all_some :: "'a option list \<Rightarrow> 'a list option" where
  "all_some [] = Some []"
| "all_some (x # xs) = (case (x, all_some xs) of (Some y, Some ys) \<Rightarrow> Some (y # ys) | _ \<Rightarrow> None)"

definition components_of :: "decl_table \<Rightarrow> nat \<Rightarrow> ty list option" where
  "components_of d i =
     (let ts = (case td_kind (dt_types d ! i) of
                  DRecord fs \<Rightarrow> map snd fs
                | DSum vs \<Rightarrow> concat (map snd vs)
                | DAlias t \<Rightarrow> [t])
      in all_some (map (lower_type d) ts))"

definition all_components :: "decl_table \<Rightarrow> (nat, ty list) fmap" where
  "all_components d =
     fmap_of_list (concat (map (\<lambda>i. case components_of d i of Some cs \<Rightarrow> [(i, cs)] | None \<Rightarrow> []) [0..<length (dt_types d)]))"

definition default_of :: "rc_env \<Rightarrow> ty \<Rightarrow> rcap option" where
  "default_of E t = default_rcap t (all_components (rc_table E))"

definition type_of_node :: "rc_env \<Rightarrow> expr \<Rightarrow> ty option" where
  "type_of_node E e = rc_node_types E (expr_id e)"

definition default_k :: "rc_env \<Rightarrow> expr \<Rightarrow> kn" where
  "default_k E e = known_or_not (Option.bind (type_of_node E e) (default_of E))"

text \<open>A field of a record or an actor: its written or default capability and its type where it can be told.\<close>

definition field_type_expr :: "decl_table \<Rightarrow> ty \<Rightarrow> string \<Rightarrow> type_expr option" where
  "field_type_expr d recv n =
     (case recv of
        TRecord i _ \<Rightarrow>
          (case td_kind (dt_types d ! i) of DRecord fs \<Rightarrow> map_of fs n | _ \<Rightarrow> None)
      | TActor a _ \<Rightarrow>
          (case dt_actors d a of
             Some ad \<Rightarrow> map_option (\<lambda>(_, t, _). t) (find (\<lambda>(m, _, _). m = n) (ad_fields ad))
           | None \<Rightarrow> None)
      | _ \<Rightarrow> None)"

definition written_or_default :: "rc_env \<Rightarrow> type_expr \<Rightarrow> ty option \<Rightarrow> rcap option" where
  "written_or_default E te t = (case written_rcap te of Some k \<Rightarrow> Some k | None \<Rightarrow> Option.bind t (default_of E))"

definition field_info :: "rc_env \<Rightarrow> ty \<Rightarrow> string \<Rightarrow> (rcap \<times> ty option) option" where
  "field_info E recv n =
     (case field_type_expr (rc_table E) recv n of
        None \<Rightarrow> None
      | Some te \<Rightarrow>
          (let t = lower_type (rc_table E) te
           in map_option (\<lambda>k. (k, t)) (written_or_default E te t)))"

definition written_field_rcap :: "rc_env \<Rightarrow> ty \<Rightarrow> string \<Rightarrow> rcap option" where
  "written_field_rcap E recv n =
     (case recv of
        TRecord i _ \<Rightarrow>
          (case td_kind (dt_types (rc_table E) ! i) of
             DRecord fs \<Rightarrow> Option.bind (map_of fs n) written_rcap | _ \<Rightarrow> None)
      | _ \<Rightarrow> None)"

section \<open>The rules\<close>

definition storable :: "kn \<Rightarrow> rcap \<Rightarrow> bool \<Rightarrow> bool" where
  "storable k dest dest_written =
     (case k of
        KKnown x \<Rightarrow> subcap (alias_of x) dest
      | KUnaliased x \<Rightarrow> subcap x dest
      | KFresh natural lift_val lift_iso _ \<Rightarrow>
          (if dest = Val then lift_val else if dest = Iso \<or> dest = Trn then lift_iso else subcap natural dest)
      | KUnknown \<Rightarrow> \<not> dest_written)"

definition check_storable :: "kn \<Rightarrow> rcap \<Rightarrow> span \<Rightarrow> stored_at \<Rightarrow> bool \<Rightarrow> pass \<Rightarrow> pass" where
  "check_storable k dest sp at_what dest_written s =
     (if storable k dest dest_written then s else report (CannotStore k dest at_what dest_written sp) s)"

text \<open>The report of a \<open>val\<close> binding whose literal cannot be lifted names the element that forbids it and offers to drop the
  annotation; it replaces the one just made.\<close>

definition explain_val_binding :: "nat \<Rightarrow> kn \<Rightarrow> rcap \<Rightarrow> type_expr option \<Rightarrow> span \<Rightarrow> pass \<Rightarrow> pass" where
  "explain_val_binding before vk dest t name_sp s =
     (if length (ps_diags s) \<noteq> before + 1 \<or> dest \<noteq> Val then s
      else (case (vk, t) of
              (KFresh _ False _ blame, Some (TERcap Val _ rsp)) \<Rightarrow>
                if rcap_code (ps_diags s ! before) \<noteq> ''DL1603'' then s
                else (let cut = (if sp_end name_sp < sp_end rsp then Some (rsp, sp_end name_sp, sp_end rsp) else None);
                          sp = (case ps_diags s ! before of CannotStore _ _ _ _ sp \<Rightarrow> sp | _ \<Rightarrow> name_sp)
                      in s\<lparr>ps_diags := (ps_diags s)[before := CannotStoreVal vk sp blame cut]\<rparr>)
            | _ \<Rightarrow> s))"

definition writable :: "kn \<Rightarrow> bool" where
  "writable k =
     (case k of
        KKnown x \<Rightarrow> can_write x
      | KUnaliased x \<Rightarrow> can_write x
      | KFresh natural _ _ _ \<Rightarrow> can_write natural
      | KUnknown \<Rightarrow> False)"

definition require_writable :: "kn \<Rightarrow> span \<Rightarrow> written_to \<Rightarrow> (string \<times> why_val) option \<Rightarrow> pass \<Rightarrow> pass" where
  "require_writable k sp what lift s = (if writable k then s else report (WriteRefused k what sp lift) s)"

definition why_val_of :: "string \<Rightarrow> pass \<Rightarrow> (string \<times> why_val) option" where
  "why_val_of n s = map_option (\<lambda>w. (n, w)) (Option.bind (lookup_name n s) b_why_val)"

fun lift_of_expr :: "expr \<Rightarrow> pass \<Rightarrow> (string \<times> why_val) option" where
  "lift_of_expr (EField r _ _ _) s = lift_of_expr r s"
| "lift_of_expr (EIndex r _ _ _) s = lift_of_expr r s"
| "lift_of_expr e s = Option.bind (single_name e) (\<lambda>n. why_val_of n s)"

fun lift_of_lvalue :: "lvalue \<Rightarrow> pass \<Rightarrow> (string \<times> why_val) option" where
  "lift_of_lvalue (LVar x) s = why_val_of (id_name x) s"
| "lift_of_lvalue (LField b _) s = lift_of_lvalue b s"
| "lift_of_lvalue (LIndex b _) s = lift_of_lvalue b s"

text \<open>What a bare variable still holds of a fresh literal, read before the argument escapes.\<close>

definition fresh_lift_of :: "expr \<Rightarrow> pass \<Rightarrow> (bool \<times> bool) option" where
  "fresh_lift_of e s =
     (case Option.bind (single_name e) (\<lambda>n. lookup_name n s) of
        Some b \<Rightarrow> if b_rcap_written b then None else b_fresh_lift b
      | None \<Rightarrow> None)"

definition lift_fresh_arg ::
    "expr \<Rightarrow> rcap \<Rightarrow> kn \<Rightarrow> (bool \<times> bool) option \<Rightarrow> string \<Rightarrow> string \<Rightarrow> pass \<Rightarrow> kn \<times> pass" where
  "lift_fresh_arg arg dest k captured callee pn s =
     (case (captured, single_name arg) of
        (Some (lift_val, lift_iso), Some n) \<Rightarrow>
          if dest \<noteq> Val \<or> \<not> lift_val then (k, s)
          else (let natural = (case Option.bind (lookup_name n s) b_rcap of Some x \<Rightarrow> x | None \<Rightarrow> Ref)
                in (KFresh natural lift_val lift_iso None,
                    change_name n (\<lambda>b. b\<lparr>b_why_val := (if b_rcap b \<noteq> Some Val then Some (WLift (expr_span arg) callee pn)
                                                       else b_why_val b),
                                         b_rcap := Some Val, b_fresh_lift := None\<rparr>) s))
      | _ \<Rightarrow> (k, s))"

text \<open>A field read, and what an element of a list is.\<close>

definition read_field :: "kn \<Rightarrow> rcap option \<Rightarrow> span \<Rightarrow> pass \<Rightarrow> kn \<times> pass" where
  "read_field recv f sp s =
     (case (recv, f) of
        (KKnown x, Some y) \<Rightarrow>
          (case viewpoint x y of Some v \<Rightarrow> (KKnown v, s) | None \<Rightarrow> (KUnknown, report (NoFieldThroughTag sp) s))
      | (KUnaliased x, Some y) \<Rightarrow>
          (case viewpoint x y of Some v \<Rightarrow> (KKnown v, s) | None \<Rightarrow> (KUnknown, report (NoFieldThroughTag sp) s))
      | (KFresh natural _ _ _, Some y) \<Rightarrow> (known_or_not (viewpoint natural y), s)
      | _ \<Rightarrow> (KUnknown, s))"

definition read_element :: "rc_env \<Rightarrow> kn \<Rightarrow> ty option \<Rightarrow> kn" where
  "read_element E recv elem =
     (case (recv, elem) of
        (KKnown x, Some t) \<Rightarrow> known_or_not (Option.bind (default_of E t) (viewpoint x))
      | (KUnaliased x, Some t) \<Rightarrow> known_or_not (Option.bind (default_of E t) (viewpoint x))
      | _ \<Rightarrow> KUnknown)"

definition list_element :: "ty option \<Rightarrow> ty option" where
  "list_element t = (case t of Some (TList u) \<Rightarrow> Some u | _ \<Rightarrow> None)"

fun resolve_lvalue :: "rc_env \<Rightarrow> lvalue \<Rightarrow> pass \<Rightarrow> kn \<times> ty option \<times> pass" where
  "resolve_lvalue E (LVar x) s =
     (case use_binding (id_name x) (id_span x) UseRead s of
        (k, s1) \<Rightarrow> (known_or_not k, Option.bind (lookup_name (id_name x) s1) b_ty, s1))"
| "resolve_lvalue E (LField b x) s =
     (case resolve_lvalue E b s of
        (bk, bt, s1) \<Rightarrow>
          (let info = Option.bind bt (\<lambda>t. field_info E t (id_name x))
           in case read_field bk (map_option fst info) (lvalue_span (LField b x)) s1 of
                (k, s2) \<Rightarrow> (k, Option.bind info snd, s2)))"
| "resolve_lvalue E (LIndex b i) s =
     (case resolve_lvalue E b s of
        (bk, bt, s1) \<Rightarrow> (read_element E bk (list_element bt), list_element bt, s1))"

fun check_write :: "rc_env \<Rightarrow> lvalue \<Rightarrow> kn \<Rightarrow> span \<Rightarrow> pass \<Rightarrow> pass" where
  "check_write E (LVar x) vk sp s =
     (let s1 = (case Option.bind (lookup_name (id_name x) s) b_rcap of
                  Some d \<Rightarrow> check_storable vk d sp AtAssignment False s | None \<Rightarrow> s)
      in change_name (id_name x) (\<lambda>b. b\<lparr>b_fresh_lift := None, b_consumed := None\<rparr>) s1)"
| "check_write E (LField b x) vk sp s =
     (case resolve_lvalue E b s of
        (rk, rt, s1) \<Rightarrow>
          (let s2 = require_writable rk (lvalue_span (LField b x)) ToField (lift_of_lvalue b s1) s1
           in case Option.bind rt (\<lambda>t. field_info E t (id_name x)) of
                Some (f, _) \<Rightarrow> check_storable vk f sp (AtField (id_name x)) True s2
              | None \<Rightarrow> s2))"
| "check_write E (LIndex b i) vk sp s =
     (case resolve_lvalue E b s of
        (rk, rt, s1) \<Rightarrow>
          (let s2 = require_writable rk (lvalue_span (LIndex b i)) ToElement (lift_of_lvalue b s1) s1
           in case Option.bind (list_element rt) (default_of E) of
                Some d \<Rightarrow> check_storable vk d sp AtElement False s2
              | None \<Rightarrow> s2))"

definition check_return_position :: "expr \<Rightarrow> kn \<Rightarrow> rcap option \<Rightarrow> pass \<Rightarrow> pass" where
  "check_return_position e k ret_dest s =
     (case ret_dest of
        None \<Rightarrow> s
      | Some dest \<Rightarrow>
          (case Option.bind (Option.bind (single_name e) (\<lambda>n. lookup_name n s)) b_fresh_lift of
             Some (lift_val, lift_iso) \<Rightarrow>
               if (if dest = Val then lift_val else if dest = Iso \<or> dest = Trn then lift_iso else True) then s
               else report (CannotLiftReturn dest (expr_span e)) s
           | None \<Rightarrow> check_storable k dest (expr_span e) AtReturn False s))"

text \<open>What crosses to another actor, as an argument of a behavior or of a constructor.\<close>

definition arrives :: "kn \<Rightarrow> rcap \<Rightarrow> bool" where
  "arrives k dest = storable k dest True"

definition check_send_arg :: "rc_env \<Rightarrow> kn \<Rightarrow> rcap option \<Rightarrow> expr \<Rightarrow> pass \<Rightarrow> pass" where
  "check_send_arg E k dest arg s =
     (case dest of
        None \<Rightarrow> s
      | Some d \<Rightarrow>
          (let s1 = (if k = KUnaliased Iso then s\<lparr>ps_moves := finsert (expr_id arg) (ps_moves s)\<rparr> else s);
               sp = expr_span arg
           in if type_of_node E arg = Some TPyObj then report (PyObjPinned sp) s1
              else if arrives k d then s1
              else (case k of
                      KKnown Iso \<Rightarrow> report (IsoNotConsumed sp (if single_name arg \<noteq> None then Some sp else None)) s1
                    | KUnknown \<Rightarrow> report (SendUndecidable sp) s1
                    | _ \<Rightarrow> report (CannotSend k d sp) s1)))"

definition param_dests :: "rc_env \<Rightarrow> param list \<Rightarrow> ty list \<Rightarrow> rcap option list" where
  "param_dests E ps sig_tys =
     map (\<lambda>(i, p). written_or_default E (p_ty p) (if i < length sig_tys then Some (sig_tys ! i) else None)) (enumerate 0 ps)"

definition fn_param_types :: "rc_env \<Rightarrow> string \<Rightarrow> ty list" where
  "fn_param_types E f = (case rc_fn_types E f of Some (TFn ps _ _) \<Rightarrow> ps | _ \<Rightarrow> [])"

definition fn_ret_type :: "rc_env \<Rightarrow> string \<Rightarrow> ty option" where
  "fn_ret_type E f = (case rc_fn_types E f of Some (TFn _ r _) \<Rightarrow> Some r | _ \<Rightarrow> None)"

definition member_key :: "string \<Rightarrow> string \<Rightarrow> string" where
  "member_key a m = a @ ''.'' @ m"

definition boundary_dests :: "rc_env \<Rightarrow> string \<Rightarrow> string \<Rightarrow> param list \<Rightarrow> rcap option list" where
  "boundary_dests E a m ps = param_dests E ps (fn_param_types E (member_key a m))"

fun check_send_args :: "rc_env \<Rightarrow> expr list \<Rightarrow> kn list \<Rightarrow> rcap option list \<Rightarrow> pass \<Rightarrow> pass" where
  "check_send_args E (a # as) (k # ks) (d # ds) s = check_send_args E as ks ds (check_send_arg E k d a s)"
| "check_send_args E _ _ _ s = s"

text \<open>What a composite just built is: whether its contents let it become deeply immutable, and unique; the first element
  that forbids the former is to blame.\<close>

definition elem_lifts :: "kn \<Rightarrow> bool \<times> bool" where
  "elem_lifts k =
     (case k of
        KKnown x \<Rightarrow> (subcap (alias_of x) Val, sendable (alias_of x))
      | KUnaliased x \<Rightarrow> (subcap x Val, sendable x)
      | KFresh _ lv li _ \<Rightarrow> (lv, li)
      | KUnknown \<Rightarrow> (False, False))"

fun fresh_loop :: "kn list \<Rightarrow> span list \<Rightarrow> bool \<Rightarrow> bool \<Rightarrow> span option \<Rightarrow> kn" where
  "fresh_loop [] sps lift_val lift_iso blame = KFresh Ref lift_val lift_iso blame"
| "fresh_loop (k # ks) sps lift_val lift_iso blame =
     (let (lv, li) = elem_lifts k;
          blame' = (if lift_val \<and> \<not> lv \<and> blame = None then (case sps of [] \<Rightarrow> None | sp # _ \<Rightarrow> Some sp) else blame)
      in fresh_loop ks (tl sps) (lift_val \<and> lv) (lift_iso \<and> li) blame')"

definition fresh_composite :: "kn list \<Rightarrow> span list \<Rightarrow> kn" where
  "fresh_composite ks sps = fresh_loop ks sps True True None"

end
