(* ===== verification/Free_Names.thy ===== *)
theory Free_Names imports Ast begin

text \<open>
  The names a body reads from where it was made and the names it consumes there, of
  \<open>crates/delulu-check/src/rcap_check.rs\<close>: what a closure captures, and what a loop's body leaves dead for its next
  iteration. The source keeps one set of bound names, into which a binder inserts what is new to it and which it leaves
  as it found it; \<open>bound\<close> is that set and \<open>out\<close> the names found so far.
\<close>

text \<open>\<open>HashSet::insert\<close> for each name of a list, with those that were new in their order.\<close>

fun insert_new :: "string list \<Rightarrow> string fset \<Rightarrow> string fset \<times> string list" where
  "insert_new [] bound = (bound, [])"
| "insert_new (n # ns) bound =
     (if n |\<in>| bound then insert_new ns bound
      else (case insert_new ns (finsert n bound) of (b, new) \<Rightarrow> (b, n # new)))"

definition remove_names :: "string list \<Rightarrow> string fset \<Rightarrow> string fset" where
  "remove_names ns bound = fold (\<lambda>n b. b |-| {|n|}) ns bound"

fun pattern_names :: "pattern \<Rightarrow> string list" where
  "pattern_names (PBind x) = [id_name x]"
| "pattern_names (PVariant _ ps _) = concat (map pattern_names ps)"
| "pattern_names (PWildcard _) = []"
| "pattern_names (PLit _ _) = []"

definition param_names :: "param list \<Rightarrow> string list" where
  "param_names ps = map (\<lambda>p. id_name (p_name p)) ps"

section \<open>Free variables\<close>

function free_vars_expr :: "expr \<Rightarrow> string fset \<Rightarrow> string list \<Rightarrow> string fset \<times> string list"
  and free_vars_exprs :: "expr list \<Rightarrow> string fset \<Rightarrow> string list \<Rightarrow> string fset \<times> string list"
  and free_vars_fields :: "(ident \<times> expr) list \<Rightarrow> string fset \<Rightarrow> string list \<Rightarrow> string fset \<times> string list"
  and free_vars_arms :: "arm list \<Rightarrow> string fset \<Rightarrow> string list \<Rightarrow> string fset \<times> string list"
  and free_vars_block :: "block \<Rightarrow> string fset \<Rightarrow> string list \<Rightarrow> string fset \<times> string list"
  and free_vars_stmts :: "stmt list \<Rightarrow> string fset \<Rightarrow> string list \<Rightarrow> string list \<Rightarrow> string fset \<times> string list"
  and free_vars_lvalue :: "lvalue \<Rightarrow> string fset \<Rightarrow> string list \<Rightarrow> string fset \<times> string list" where
  "free_vars_expr (EVar p _ _) bound out =
     (case p of [x] \<Rightarrow> (bound, if id_name x |\<in>| bound then out else out @ [id_name x]) | _ \<Rightarrow> (bound, out))"
| "free_vars_expr (EConsume x _ _) bound out = (bound, if id_name x |\<in>| bound then out else out @ [id_name x])"
| "free_vars_expr (ELit _ _ _) bound out = (bound, out)"
| "free_vars_expr (EList es _ _) bound out = free_vars_exprs es bound out"
| "free_vars_expr (ERecord _ fs _ _) bound out = free_vars_fields fs bound out"
| "free_vars_expr (ECall f es _ _) bound out = (case free_vars_expr f bound out of (b, o1) \<Rightarrow> free_vars_exprs es b o1)"
| "free_vars_expr (EMethod r _ es _ _) bound out = (case free_vars_expr r bound out of (b, o1) \<Rightarrow> free_vars_exprs es b o1)"
| "free_vars_expr (EField r _ _ _) bound out = free_vars_expr r bound out"
| "free_vars_expr (EIndex r i _ _) bound out = (case free_vars_expr r bound out of (b, o1) \<Rightarrow> free_vars_expr i b o1)"
| "free_vars_expr (EUnary _ e _ _) bound out = free_vars_expr e bound out"
| "free_vars_expr (EBinary _ l r _ _) bound out = (case free_vars_expr l bound out of (b, o1) \<Rightarrow> free_vars_expr r b o1)"
| "free_vars_expr (EIf c t e _ _) bound out =
     (case free_vars_expr c bound out of (b, o1) \<Rightarrow>
        (case free_vars_block t b o1 of (b2, o2) \<Rightarrow>
           (case e of Some e' \<Rightarrow> free_vars_expr e' b2 o2 | None \<Rightarrow> (b2, o2))))"
| "free_vars_expr (EMatch e arms _ _) bound out = (case free_vars_expr e bound out of (b, o1) \<Rightarrow> free_vars_arms arms b o1)"
| "free_vars_expr (ELambda ps _ _ body _ _) bound out =
     (case insert_new (param_names ps) bound of (b, new) \<Rightarrow>
        (case free_vars_block body b out of (b2, o1) \<Rightarrow> (remove_names new b2, o1)))"
| "free_vars_expr (ETry e _ _) bound out = free_vars_expr e bound out"
| "free_vars_expr (EBlock b) bound out = free_vars_block b bound out"
| "free_vars_expr (ESpawn _ es _ _) bound out = free_vars_exprs es bound out"
| "free_vars_expr (ERecover _ body _ _) bound out = free_vars_block body bound out"
| "free_vars_exprs [] bound out = (bound, out)"
| "free_vars_exprs (e # es) bound out = (case free_vars_expr e bound out of (b, o1) \<Rightarrow> free_vars_exprs es b o1)"
| "free_vars_fields [] bound out = (bound, out)"
| "free_vars_fields (f # fs) bound out = (case free_vars_expr (snd f) bound out of (b, o1) \<Rightarrow> free_vars_fields fs b o1)"
| "free_vars_arms [] bound out = (bound, out)"
| "free_vars_arms (Arm p e _ # arms) bound out =
     (case insert_new (pattern_names p) bound of (b, new) \<Rightarrow>
        (case free_vars_expr e b out of (b2, o1) \<Rightarrow> free_vars_arms arms (remove_names new b2) o1))"
| "free_vars_block (Block ss _ _) bound out = free_vars_stmts ss bound out []"
| "free_vars_stmts [] bound out added = (remove_names added bound, out)"
| "free_vars_stmts (s # ss) bound out added =
     (case s of
        SLet x _ e _ _ \<Rightarrow>
          (case free_vars_expr e bound out of (b, o1) \<Rightarrow>
             (case insert_new [id_name x] b of (b2, new) \<Rightarrow> free_vars_stmts ss b2 o1 (added @ new)))
      | SAssign t e _ \<Rightarrow>
          (case free_vars_lvalue t bound out of (b, o1) \<Rightarrow>
             (case free_vars_expr e b o1 of (b2, o2) \<Rightarrow> free_vars_stmts ss b2 o2 added))
      | SWhile c body _ \<Rightarrow>
          (case free_vars_expr c bound out of (b, o1) \<Rightarrow>
             (case free_vars_block body b o1 of (b2, o2) \<Rightarrow> free_vars_stmts ss b2 o2 added))
      | SFor x e body _ \<Rightarrow>
          (case free_vars_expr e bound out of (b, o1) \<Rightarrow>
             (case insert_new [id_name x] b of (b2, new) \<Rightarrow>
                (case free_vars_block body b2 o1 of (b3, o2) \<Rightarrow> free_vars_stmts ss (remove_names new b3) o2 added)))
      | SBreak _ \<Rightarrow> free_vars_stmts ss bound out added
      | SContinue _ \<Rightarrow> free_vars_stmts ss bound out added
      | SReturn v _ \<Rightarrow>
          (case v of
             Some e \<Rightarrow> (case free_vars_expr e bound out of (b, o1) \<Rightarrow> free_vars_stmts ss b o1 added)
           | None \<Rightarrow> free_vars_stmts ss bound out added)
      | SExpr e \<Rightarrow> (case free_vars_expr e bound out of (b, o1) \<Rightarrow> free_vars_stmts ss b o1 added))"
| "free_vars_lvalue (LVar x) bound out = (bound, if id_name x |\<in>| bound then out else out @ [id_name x])"
| "free_vars_lvalue (LField b _) bound out = free_vars_lvalue b bound out"
| "free_vars_lvalue (LIndex l i) bound out = (case free_vars_lvalue l bound out of (b, o1) \<Rightarrow> free_vars_expr i b o1)"

  by pat_completeness auto

termination free_vars_expr
  by (relation "measure (\<lambda>x. case x of
       Inl (Inl (e, _)) \<Rightarrow> size e
     | Inl (Inr (Inl (es, _))) \<Rightarrow> size_list size es
     | Inl (Inr (Inr (fs, _))) \<Rightarrow> size_list (size_prod (\<lambda>_. 0) size) fs
     | Inr (Inl (Inl (arms, _))) \<Rightarrow> size_list size arms
     | Inr (Inl (Inr (b, _))) \<Rightarrow> size b
     | Inr (Inr (Inl (ss, _))) \<Rightarrow> size_list size ss
     | Inr (Inr (Inr (l, _))) \<Rightarrow> size l)") (auto simp: prod.size_gen)

definition closure_captures :: "param list \<Rightarrow> block \<Rightarrow> string list" where
  "closure_captures ps body = rev (remdups (rev (snd (free_vars_block body (fset_of_list (param_names ps)) []))))"

section \<open>Names consumed\<close>

function consumed_expr :: "expr \<Rightarrow> string fset \<Rightarrow> (string \<times> span) list \<Rightarrow> string fset \<times> (string \<times> span) list"
  and consumed_exprs :: "expr list \<Rightarrow> string fset \<Rightarrow> (string \<times> span) list \<Rightarrow> string fset \<times> (string \<times> span) list"
  and consumed_fields :: "(ident \<times> expr) list \<Rightarrow> string fset \<Rightarrow> (string \<times> span) list \<Rightarrow> string fset \<times> (string \<times> span) list"
  and consumed_arms :: "arm list \<Rightarrow> string fset \<Rightarrow> (string \<times> span) list \<Rightarrow> string fset \<times> (string \<times> span) list"
  and consumed_block :: "block \<Rightarrow> string fset \<Rightarrow> (string \<times> span) list \<Rightarrow> string fset \<times> (string \<times> span) list"
  and consumed_stmts ::
    "stmt list \<Rightarrow> string fset \<Rightarrow> (string \<times> span) list \<Rightarrow> string list \<Rightarrow> string fset \<times> (string \<times> span) list"
  and consumed_indices :: "lvalue \<Rightarrow> string fset \<Rightarrow> (string \<times> span) list \<Rightarrow> string fset \<times> (string \<times> span) list" where
  "consumed_expr (EConsume x _ sp) bound out = (bound, if id_name x |\<in>| bound then out else out @ [(id_name x, sp)])"
| "consumed_expr (ELit _ _ _) bound out = (bound, out)"
| "consumed_expr (EVar _ _ _) bound out = (bound, out)"
| "consumed_expr (EList es _ _) bound out = consumed_exprs es bound out"
| "consumed_expr (ERecord _ fs _ _) bound out = consumed_fields fs bound out"
| "consumed_expr (ECall f es _ _) bound out = (case consumed_expr f bound out of (b, o1) \<Rightarrow> consumed_exprs es b o1)"
| "consumed_expr (EMethod r _ es _ _) bound out = (case consumed_expr r bound out of (b, o1) \<Rightarrow> consumed_exprs es b o1)"
| "consumed_expr (EField r _ _ _) bound out = consumed_expr r bound out"
| "consumed_expr (EIndex r i _ _) bound out = (case consumed_expr r bound out of (b, o1) \<Rightarrow> consumed_expr i b o1)"
| "consumed_expr (EUnary _ e _ _) bound out = consumed_expr e bound out"
| "consumed_expr (EBinary _ l r _ _) bound out = (case consumed_expr l bound out of (b, o1) \<Rightarrow> consumed_expr r b o1)"
| "consumed_expr (EIf c t e _ _) bound out =
     (case consumed_expr c bound out of (b, o1) \<Rightarrow>
        (case consumed_block t b o1 of (b2, o2) \<Rightarrow>
           (case e of Some e' \<Rightarrow> consumed_expr e' b2 o2 | None \<Rightarrow> (b2, o2))))"
| "consumed_expr (EMatch e arms _ _) bound out = (case consumed_expr e bound out of (b, o1) \<Rightarrow> consumed_arms arms b o1)"
| "consumed_expr (ELambda ps _ _ body _ _) bound out = (bound, out)"
| "consumed_expr (ETry e _ _) bound out = consumed_expr e bound out"
| "consumed_expr (EBlock b) bound out = consumed_block b bound out"
| "consumed_expr (ESpawn _ es _ _) bound out = consumed_exprs es bound out"
| "consumed_expr (ERecover _ body _ _) bound out = consumed_block body bound out"
| "consumed_exprs [] bound out = (bound, out)"
| "consumed_exprs (e # es) bound out = (case consumed_expr e bound out of (b, o1) \<Rightarrow> consumed_exprs es b o1)"
| "consumed_fields [] bound out = (bound, out)"
| "consumed_fields (f # fs) bound out = (case consumed_expr (snd f) bound out of (b, o1) \<Rightarrow> consumed_fields fs b o1)"
| "consumed_arms [] bound out = (bound, out)"
| "consumed_arms (Arm p e _ # arms) bound out =
     (case insert_new (pattern_names p) bound of (b, new) \<Rightarrow>
        (case consumed_expr e b out of (b2, o1) \<Rightarrow> consumed_arms arms (remove_names new b2) o1))"
| "consumed_block (Block ss _ _) bound out = consumed_stmts ss bound out []"
| "consumed_stmts [] bound out added = (remove_names added bound, out)"
| "consumed_stmts (s # ss) bound out added =
     (case s of
        SLet x _ e _ _ \<Rightarrow>
          (case consumed_expr e bound out of (b, o1) \<Rightarrow>
             (case insert_new [id_name x] b of (b2, new) \<Rightarrow> consumed_stmts ss b2 o1 (added @ new)))
      | SAssign t e _ \<Rightarrow>
          (case consumed_expr e bound out of (b, o1) \<Rightarrow>
             (case consumed_indices t b o1 of (b2, o2) \<Rightarrow> consumed_stmts ss b2 o2 added))
      | SWhile c body _ \<Rightarrow>
          (case consumed_expr c bound out of (b, o1) \<Rightarrow>
             (case consumed_block body b o1 of (b2, o2) \<Rightarrow> consumed_stmts ss b2 o2 added))
      | SFor x e body _ \<Rightarrow>
          (case consumed_expr e bound out of (b, o1) \<Rightarrow>
             (case insert_new [id_name x] b of (b2, new) \<Rightarrow>
                (case consumed_block body b2 o1 of (b3, o2) \<Rightarrow> consumed_stmts ss (remove_names new b3) o2 added)))
      | SBreak _ \<Rightarrow> consumed_stmts ss bound out added
      | SContinue _ \<Rightarrow> consumed_stmts ss bound out added
      | SReturn v _ \<Rightarrow>
          (case v of
             Some e \<Rightarrow> (case consumed_expr e bound out of (b, o1) \<Rightarrow> consumed_stmts ss b o1 added)
           | None \<Rightarrow> consumed_stmts ss bound out added)
      | SExpr e \<Rightarrow> (case consumed_expr e bound out of (b, o1) \<Rightarrow> consumed_stmts ss b o1 added))"
| "consumed_indices (LVar x) bound out = (bound, out)"
| "consumed_indices (LField b _) bound out = consumed_indices b bound out"
| "consumed_indices (LIndex l i) bound out = (case consumed_indices l bound out of (b, o1) \<Rightarrow> consumed_expr i b o1)"
  by pat_completeness auto

termination consumed_expr
  by (relation "measure (\<lambda>x. case x of
       Inl (Inl (e, _)) \<Rightarrow> size e
     | Inl (Inr (Inl (es, _))) \<Rightarrow> size_list size es
     | Inl (Inr (Inr (fs, _))) \<Rightarrow> size_list (size_prod (\<lambda>_. 0) size) fs
     | Inr (Inl (Inl (arms, _))) \<Rightarrow> size_list size arms
     | Inr (Inl (Inr (b, _))) \<Rightarrow> size b
     | Inr (Inr (Inl (ss, _))) \<Rightarrow> size_list size ss
     | Inr (Inr (Inr (l, _))) \<Rightarrow> size l)") (auto simp: prod.size_gen)

definition consumed_free_names :: "block \<Rightarrow> (string \<times> span) list" where
  "consumed_free_names b = snd (consumed_block b {||} [])"

end
