(* ===== verification/Rcap_Walk.thy ===== *)
theory Rcap_Walk imports Rcap_Check Free_Names begin

text \<open>
  The walk of the pass over expressions, statements and the bodies of a module, of
  \<open>crates/delulu-check/src/rcap_check.rs\<close>.
\<close>

datatype (plugins only: code size) builtin = BuiltinPush | BuiltinMap | BuiltinPure

text \<open>A call of a free built-in: a name of one segment that no function of the module has.\<close>

definition builtin_of :: "rc_env \<Rightarrow> expr \<Rightarrow> builtin option" where
  "builtin_of E callee =
     (case single_name callee of
        Some n \<Rightarrow>
          if dt_fns (rc_table E) n \<noteq> None then None
          else if n = ''push'' then Some BuiltinPush
          else if n = ''Map'' then Some BuiltinMap
          else if n \<in> set [''str'', ''len'', ''int'', ''float'', ''parse_int'', ''parse_float'', ''range''] then Some BuiltinPure
          else None
      | None \<Rightarrow> None)"

definition is_list :: "rc_env \<Rightarrow> expr \<Rightarrow> bool" where
  "is_list E e = (case type_of_node E e of Some (TList _) \<Rightarrow> True | _ \<Rightarrow> False)"

definition is_map :: "rc_env \<Rightarrow> expr \<Rightarrow> bool" where
  "is_map E e = (case type_of_node E e of Some (TMap _ _) \<Rightarrow> True | _ \<Rightarrow> False)"

text \<open>A name read as an expression: a binding, else a nullary constructor, a function or a constant.\<close>

definition walk_var :: "rc_env \<Rightarrow> expr \<Rightarrow> string \<Rightarrow> span \<Rightarrow> pass \<Rightarrow> kn \<times> pass" where
  "walk_var E e n sp s =
     (if lookup_name n s \<noteq> None then (case use_binding n sp UseRead s of (k, s1) \<Rightarrow> (known_or_not k, s1))
      else if n = ''None'' \<or> (case variant_ctor (rc_table E) n of Some (_, fts) \<Rightarrow> fts = [] | None \<Rightarrow> False)
        then (default_k E e, s)
      else if dt_fns (rc_table E) n \<noteq> None then (KKnown Val, s)
      else if dt_consts (rc_table E) n then (KKnown Val, s)
      else (KUnknown, s))"

text \<open>The arguments of a call of a function of the module against its parameters, and what the call is worth.\<close>

fun check_call_args ::
    "string \<Rightarrow> param list \<Rightarrow> rcap option list \<Rightarrow> expr list \<Rightarrow> (kn \<times> (bool \<times> bool) option) list \<Rightarrow> pass \<Rightarrow> pass" where
  "check_call_args f (p # ps) (d # ds) (a # as) ((k, lift) # ks) s =
     (case d of
        None \<Rightarrow> check_call_args f ps ds as ks s
      | Some dest \<Rightarrow>
          (case lift_fresh_arg a dest k lift f (id_name (p_name p)) s of
             (k1, s1) \<Rightarrow>
               check_call_args f ps ds as ks
                 (check_storable k1 dest (expr_span a) (AtArgument (id_name (p_name p))) (written_rcap (p_ty p) \<noteq> None) s1)))"
| "check_call_args f _ _ _ _ s = s"

definition call_result ::
    "rc_env \<Rightarrow> expr \<Rightarrow> expr \<Rightarrow> expr list \<Rightarrow> (kn \<times> (bool \<times> bool) option) list \<Rightarrow> pass \<Rightarrow> kn \<times> pass" where
  "call_result E e callee args ks s =
     (case Option.bind (single_name callee) (dt_fns (rc_table E)) of
        Some sig \<Rightarrow>
          (let f = the (single_name callee);
               s1 = check_call_args f (sig_params sig) (param_dests E (sig_params sig) (fn_param_types E f)) args ks s
           in case Option.bind (sig_ret sig) written_rcap of
                Some w \<Rightarrow> (if w = Iso \<or> w = Trn then KUnaliased w else KKnown w, s1)
              | None \<Rightarrow> (default_k E e, s1))
      | None \<Rightarrow> (default_k E e, s))"

text \<open>What a method call asks of its receiver and its arguments: a mutating method of a list or a map a writable receiver,
  a message arguments that may cross, a synchronous method of an actor the actor itself.\<close>

definition check_method :: "rc_env \<Rightarrow> expr \<Rightarrow> ident \<Rightarrow> expr list \<Rightarrow> span \<Rightarrow> kn \<Rightarrow> kn list \<Rightarrow> pass \<Rightarrow> pass" where
  "check_method E recv m args sp rk ks s =
     (let n = id_name m;
          s1 = (if n \<in> set [''push'', ''pop''] \<and> is_list E recv
                then require_writable rk sp (ToListMethod n) (lift_of_expr recv s) s else s);
          s2 = (if n \<in> set [''insert'', ''remove''] \<and> is_map E recv
                then require_writable rk sp (ToMapMethod n) (lift_of_expr recv s1) s1 else s1)
      in case type_of_node E recv of
           Some (TActor a _) \<Rightarrow>
             (case dt_actors (rc_table E) a of
                None \<Rightarrow> s2
              | Some ad \<Rightarrow>
                  (let s3 = (case actor_behavior_of ad n of
                               Some b \<Rightarrow> check_send_args E args ks (boundary_dests E a n (ab_params b)) s2
                             | None \<Rightarrow> s2)
                   in if actor_sync_fn ad n \<noteq> None \<and> rk \<noteq> KKnown Ref \<and> rk \<noteq> KUnaliased Ref
                      then report (NotSynchronous a n sp) s3 else s3))
         | _ \<Rightarrow> s2)"

text \<open>The names a closure captures, each of which escapes, and whether all of them are immutable.\<close>

fun capture_names :: "rc_env \<Rightarrow> string list \<Rightarrow> bool \<Rightarrow> pass \<Rightarrow> bool \<times> pass" where
  "capture_names E [] ok s = (ok, s)"
| "capture_names E (c # cs) ok s =
     (let fine = (case Option.bind (lookup_name c s) b_rcap of
                    Some k \<Rightarrow> k = Val \<or> k = Tag
                  | None \<Rightarrow> dt_fns (rc_table E) c \<noteq> None \<or> dt_consts (rc_table E) c)
      in capture_names E cs (ok \<and> fine) (mark_escaped c s))"

definition bind_params :: "param list \<Rightarrow> pass \<Rightarrow> pass" where
  "bind_params ps s = fold (\<lambda>p. bind_name (id_name (p_name p)) (plain_binding (written_rcap (p_ty p)) None)) ps s"

definition bind_pattern :: "pattern \<Rightarrow> pass \<Rightarrow> pass" where
  "bind_pattern p s = fold (\<lambda>n. bind_name n (plain_binding None None)) (pattern_names p) s"

text \<open>The binding a \<open>let\<close> makes.\<close>

definition let_binding :: "rc_env \<Rightarrow> type_expr option \<Rightarrow> expr \<Rightarrow> kn \<Rightarrow> rcap option \<Rightarrow> binding" where
  "let_binding E t e vk dest =
     \<lparr>b_rcap = (case dest of
        Some d \<Rightarrow> Some d
      | None \<Rightarrow> (case vk of KKnown k \<Rightarrow> Some (alias_of k) | KUnaliased k \<Rightarrow> Some k | KFresh n _ _ _ \<Rightarrow> Some n | KUnknown \<Rightarrow> None)),
      b_ty = type_of_node E e,
      b_fresh_lift = (case vk of KFresh _ lv li _ \<Rightarrow> Some (lv, li) | _ \<Rightarrow> None),
      b_consumed = None,
      b_rcap_written = (Option.bind t written_rcap \<noteq> None),
      b_why_val = (case t of
        Some te \<Rightarrow> if written_rcap te = None \<and> Option.bind (type_of_node E e) (default_of E) = Some Val
                   then Some (WWritten (type_expr_span te)) else None
      | None \<Rightarrow> None)\<rparr>"

definition let_dest :: "rc_env \<Rightarrow> type_expr option \<Rightarrow> expr \<Rightarrow> rcap option" where
  "let_dest E t e = (case t of None \<Rightarrow> None | Some te \<Rightarrow> written_or_default E te (type_of_node E e))"

definition finish_let :: "rc_env \<Rightarrow> ident \<Rightarrow> type_expr option \<Rightarrow> expr \<Rightarrow> span \<Rightarrow> kn \<Rightarrow> pass \<Rightarrow> pass" where
  "finish_let E x t e sp vk s =
     (let dest = let_dest E t e;
          s1 = (case dest of
                  Some d \<Rightarrow>
                    explain_val_binding (length (ps_diags s)) vk d t (id_span x)
                      (check_storable vk d sp AtBinding (Option.bind t written_rcap \<noteq> None) s)
                | None \<Rightarrow> s)
      in bind_name (id_name x) (let_binding E t e vk dest) (escape_arg e s1))"

text \<open>The value of a match: that of its arms where they agree.\<close>

definition join_arm :: "kn option \<Rightarrow> kn \<Rightarrow> kn option" where
  "join_arm out k = (case out of None \<Rightarrow> Some k | Some p \<Rightarrow> Some (if p = k then k else KUnknown))"

definition match_result :: "rc_env \<Rightarrow> expr \<Rightarrow> kn option \<Rightarrow> kn" where
  "match_result E e out = (case out of Some k \<Rightarrow> (if k = KUnknown then default_k E e else k) | None \<Rightarrow> default_k E e)"

text \<open>A field of a record literal, against what its declaration demands in writing.\<close>

definition check_record_field :: "rc_env \<Rightarrow> expr \<Rightarrow> ident \<Rightarrow> kn \<Rightarrow> span \<Rightarrow> pass \<Rightarrow> pass" where
  "check_record_field E e x k sp s =
     (case type_of_node E e of
        None \<Rightarrow> s
      | Some t \<Rightarrow>
          (case field_info E t (id_name x) of
             None \<Rightarrow> s
           | Some (f, _) \<Rightarrow>
               if written_field_rcap E t (id_name x) \<noteq> None then check_storable k f sp (AtField (id_name x)) True s else s))"

definition spawn_args :: "rc_env \<Rightarrow> path \<Rightarrow> expr list \<Rightarrow> kn list \<Rightarrow> pass \<Rightarrow> pass" where
  "spawn_args E p args ks s =
     (let a = (if p = [] then '''' else id_name (last p))
      in case dt_actors (rc_table E) a of
           Some ad \<Rightarrow> check_send_args E args ks (boundary_dests E a ''new'' (ad_ctor_params ad)) s
         | None \<Rightarrow> s)"

definition for_binding :: "rc_env \<Rightarrow> expr \<Rightarrow> binding" where
  "for_binding E it =
     (let elem = list_element (type_of_node E it) in plain_binding (Option.bind elem (default_of E)) elem)"

section \<open>The walk\<close>

text \<open>\<open>walk_all\<close> walks expressions in turn; \<open>walk_args\<close> lets each escape as it goes, and reads before that what it still
  holds of a fresh literal.\<close>

function walk_expr :: "rc_env \<Rightarrow> expr \<Rightarrow> pass \<Rightarrow> kn \<times> pass"
  and walk_all :: "rc_env \<Rightarrow> expr list \<Rightarrow> pass \<Rightarrow> kn list \<times> pass"
  and walk_args :: "rc_env \<Rightarrow> expr list \<Rightarrow> pass \<Rightarrow> (kn \<times> (bool \<times> bool) option) list \<times> pass"
  and walk_fields :: "rc_env \<Rightarrow> expr \<Rightarrow> span \<Rightarrow> (ident \<times> expr) list \<Rightarrow> pass \<Rightarrow> kn list \<times> pass"
  and walk_arms :: "rc_env \<Rightarrow> consumed_states \<Rightarrow> arm list \<Rightarrow> kn option \<Rightarrow> consumed_states list \<Rightarrow> pass \<Rightarrow>
    kn option \<times> consumed_states list \<times> pass"
  and walk_block_value :: "rc_env \<Rightarrow> block \<Rightarrow> pass \<Rightarrow> kn \<times> pass"
  and walk_stmts_value :: "rc_env \<Rightarrow> stmt list \<Rightarrow> pass \<Rightarrow> kn \<times> pass"
  and walk_block_with_tail :: "rc_env \<Rightarrow> block \<Rightarrow> rcap option \<Rightarrow> bool \<Rightarrow> pass \<Rightarrow> pass"
  and walk_stmts_tail :: "rc_env \<Rightarrow> stmt list \<Rightarrow> rcap option \<Rightarrow> bool \<Rightarrow> pass \<Rightarrow> pass"
  and walk_stmt :: "rc_env \<Rightarrow> stmt \<Rightarrow> rcap option \<Rightarrow> pass \<Rightarrow> pass" where
  "walk_expr E (ELit l i sp) s = (KKnown Val, s)"
| "walk_expr E (EVar p i sp) s = (case p of [x] \<Rightarrow> walk_var E (EVar p i sp) (id_name x) sp s | _ \<Rightarrow> (KUnknown, s))"
| "walk_expr E (EList es i sp) s =
     (case walk_all E es s of (ks, s1) \<Rightarrow> (fresh_composite ks (map expr_span es), fold escape_arg es s1))"
| "walk_expr E (ERecord p fs i sp) s =
     (case walk_fields E (ERecord p fs i sp) sp fs s of (ks, s1) \<Rightarrow> (fresh_composite ks (map (\<lambda>f. expr_span (snd f)) fs), s1))"
| "walk_expr E (ECall c args i sp) s =
     (case walk_expr E c s of (_, s1) \<Rightarrow>
        (case builtin_of E c of
           Some BuiltinPush \<Rightarrow>
             (case args of
                [] \<Rightarrow> (KKnown Val, s1)
              | a # as \<Rightarrow>
                  (case walk_expr E a s1 of (rk, s2) \<Rightarrow>
                     (let s3 = (if is_list E a then require_writable rk (expr_span a) ToPush (lift_of_expr a s2) s2 else s2)
                      in case walk_args E as s3 of (_, s4) \<Rightarrow> (KKnown Val, s4))))
         | Some BuiltinMap \<Rightarrow> (case walk_all E args s1 of (_, s2) \<Rightarrow> (fresh_composite [] [], s2))
         | Some BuiltinPure \<Rightarrow> (case walk_all E args s1 of (_, s2) \<Rightarrow> (default_k E (ECall c args i sp), s2))
         | None \<Rightarrow> (case walk_args E args s1 of (ks, s2) \<Rightarrow> call_result E (ECall c args i sp) c args ks s2)))"
| "walk_expr E (EMethod r m args i sp) s =
     (case walk_expr E r s of (rk, s1) \<Rightarrow>
        (case walk_args E args s1 of (ks, s2) \<Rightarrow>
           (default_k E (EMethod r m args i sp), check_method E r m args sp rk (map fst ks) s2)))"
| "walk_expr E (EField r x i sp) s =
     (case walk_expr E r s of (rk, s1) \<Rightarrow>
        read_field rk (map_option fst (Option.bind (type_of_node E r) (\<lambda>t. field_info E t (id_name x)))) sp s1)"
| "walk_expr E (EIndex r j i sp) s =
     (case walk_expr E r s of (rk, s1) \<Rightarrow>
        (case walk_expr E j s1 of (_, s2) \<Rightarrow> (read_element E rk (list_element (type_of_node E r)), s2)))"
| "walk_expr E (EUnary op e i sp) s = (case walk_expr E e s of (_, s1) \<Rightarrow> (KKnown Val, s1))"
| "walk_expr E (EBinary op l r i sp) s =
     (case walk_expr E l s of (_, s1) \<Rightarrow> (case walk_expr E r s1 of (_, s2) \<Rightarrow> (KKnown Val, s2)))"
| "walk_expr E (EIf c t e i sp) s =
     (case walk_expr E c s of (_, s1) \<Rightarrow>
        (case walk_block_value E t s1 of (a, s2) \<Rightarrow>
           (case (case e of
                    Some e' \<Rightarrow> walk_expr E e' (consumed_restore (consumed_snapshot s1) s2)
                  | None \<Rightarrow> (KKnown Val, consumed_restore (consumed_snapshot s1) s2)) of
              (b, s3) \<Rightarrow>
                (if a = b then a else default_k E (EIf c t e i sp), consumed_join (consumed_snapshot s2) s3))))"
| "walk_expr E (EMatch e arms i sp) s =
     (case walk_expr E e s of (_, s1) \<Rightarrow>
        (case walk_arms E (consumed_snapshot s1) arms None [] s1 of (out, states, s2) \<Rightarrow>
           (match_result E (EMatch e arms i sp) out, fold consumed_join states (consumed_restore (consumed_snapshot s1) s2))))"
| "walk_expr E (ELambda ps rt row body i sp) s =
     (case capture_names E (snd (free_vars_block body (fset_of_list (param_names ps)) [])) True s of (immutable, s1) \<Rightarrow>
        (let s2 = bind_params ps (push_scope (s1\<lparr>ps_capture := Some (length (ps_scopes s1))\<rparr>));
             s3 = pop_scope (walk_block_with_tail E body None False s2)
         in (KKnown (if immutable then Val else Ref), s3\<lparr>ps_capture := ps_capture s\<rparr>)))"
| "walk_expr E (ETry e i sp) s = (case walk_expr E e s of (_, s1) \<Rightarrow> (default_k E (ETry e i sp), s1))"
| "walk_expr E (EBlock b) s = walk_block_value E b s"
| "walk_expr E (ESpawn p args i sp) s =
     (case walk_args E args s of (ks, s1) \<Rightarrow> (KKnown Tag, spawn_args E p args (map fst ks) s1))"
| "walk_expr E (EConsume x i sp) s =
     (case use_binding (id_name x) sp UseConsume s of
        (k, s1) \<Rightarrow> (case k of Some x \<Rightarrow> KUnaliased x | None \<Rightarrow> KUnknown, s1))"
| "walk_expr E (ERecover target body i sp) s =
     (case walk_block_value E body (s\<lparr>ps_recover := Some (length (ps_scopes s))\<rparr>) of
        (_, s1) \<Rightarrow> (KUnaliased (case target of Some k \<Rightarrow> k | None \<Rightarrow> Iso), s1\<lparr>ps_recover := ps_recover s\<rparr>))"
| "walk_all E [] s = ([], s)"
| "walk_all E (e # es) s = (case walk_expr E e s of (k, s1) \<Rightarrow> (case walk_all E es s1 of (ks, s2) \<Rightarrow> (k # ks, s2)))"
| "walk_args E [] s = ([], s)"
| "walk_args E (e # es) s =
     (case walk_expr E e s of (k, s1) \<Rightarrow>
        (case walk_args E es (escape_arg e s1) of (ks, s2) \<Rightarrow> ((k, fresh_lift_of e s1) # ks, s2)))"
| "walk_fields E e sp [] s = ([], s)"
| "walk_fields E e sp (f # fs) s =
     (case walk_expr E (snd f) s of (k, s1) \<Rightarrow>
        (case walk_fields E e sp fs (check_record_field E e (fst f) k sp (escape_arg (snd f) s1)) of (ks, s2) \<Rightarrow> (k # ks, s2)))"
| "walk_arms E pre [] out states s = (out, states, s)"
| "walk_arms E pre (Arm p e sp # arms) out states s =
     (case walk_expr E e (bind_pattern p (push_scope (consumed_restore pre s))) of (k, s1) \<Rightarrow>
        walk_arms E pre arms (join_arm out k) (states @ [consumed_snapshot (pop_scope s1)]) (pop_scope s1))"
| "walk_block_value E (Block ss i sp) s =
     (case walk_stmts_value E ss (push_scope s) of (k, s1) \<Rightarrow> (k, pop_scope s1))"
| "walk_stmts_value E [] s = (KKnown Val, s)"
| "walk_stmts_value E (st # ss) s =
     (if ss = [] then (case st of SExpr e \<Rightarrow> walk_expr E e s | _ \<Rightarrow> (KKnown Val, walk_stmt E st None s))
      else walk_stmts_value E ss (walk_stmt E st None s))"
| "walk_block_with_tail E (Block ss i sp) ret has_ret s = pop_scope (walk_stmts_tail E ss ret has_ret (push_scope s))"
| "walk_stmts_tail E [] ret has_ret s = s"
| "walk_stmts_tail E (st # ss) ret has_ret s =
     (case st of
        SExpr e \<Rightarrow>
          (case walk_expr E e s of (k, s1) \<Rightarrow>
             walk_stmts_tail E ss ret has_ret (if has_ret \<and> ss = [] then check_return_position e k ret s1 else s1))
      | SReturn (Some v) _ \<Rightarrow>
          (case walk_expr E v s of (k, s1) \<Rightarrow> walk_stmts_tail E ss ret has_ret (check_return_position v k ret s1))
      | _ \<Rightarrow> walk_stmts_tail E ss ret has_ret (walk_stmt E st ret s))"
| "walk_stmt E (SLet x t e m sp) ret s = (case walk_expr E e s of (vk, s1) \<Rightarrow> finish_let E x t e sp vk s1)"
| "walk_stmt E (SAssign t e sp) ret s =
     (case walk_expr E e s of (vk, s1) \<Rightarrow>
        (case walk_all E (index_exprs t) (escape_arg e s1) of (_, s2) \<Rightarrow> check_write E t vk sp s2))"
| "walk_stmt E (SWhile c body sp) ret s =
     (case walk_expr E c s of (_, s1) \<Rightarrow>
        walk_block_with_tail E body None False (carry_consumed (consumed_free_names body) s1))"
| "walk_stmt E (SFor x it body sp) ret s =
     (case walk_expr E it s of (_, s1) \<Rightarrow>
        pop_scope (walk_block_with_tail E body None False
          (bind_name (id_name x) (for_binding E it) (push_scope (carry_consumed (consumed_free_names body) s1)))))"
| "walk_stmt E (SBreak sp) ret s = s"
| "walk_stmt E (SContinue sp) ret s = s"
| "walk_stmt E (SReturn v sp) ret s =
     (case v of
        Some e \<Rightarrow> (case walk_expr E e s of (k, s1) \<Rightarrow> check_return_position e k ret s1)
      | None \<Rightarrow> s)"
| "walk_stmt E (SExpr e) ret s = (case walk_expr E e s of (_, s1) \<Rightarrow> s1)"
  by pat_completeness auto

lemma size_index_exprs: "size_list size (index_exprs t) \<le> size t"
  by (induction t) (auto simp: size_list_append)

termination walk_expr
  by (relation "measure (\<lambda>x. case x of
       Inl (Inl (Inl (E, e, s))) \<Rightarrow> size e
     | Inl (Inl (Inr (E, es, s))) \<Rightarrow> size_list size es
     | Inl (Inr (Inl (E, es, s))) \<Rightarrow> size_list size es
     | Inl (Inr (Inr (Inl (E, e, sp, fs, s)))) \<Rightarrow> size_list (size_prod (\<lambda>_. 0) size) fs
     | Inl (Inr (Inr (Inr (E, pre, arms, out, st, s)))) \<Rightarrow> size_list size arms
     | Inr (Inl (Inl (E, b, s))) \<Rightarrow> size b
     | Inr (Inl (Inr (E, ss, s))) \<Rightarrow> size_list size ss
     | Inr (Inr (Inl (E, b, r, h, s))) \<Rightarrow> size b
     | Inr (Inr (Inr (Inl (E, ss, r, h, s)))) \<Rightarrow> size_list size ss
     | Inr (Inr (Inr (Inr (E, st, r, s)))) \<Rightarrow> size st)") (auto simp: prod.size_gen less_Suc_eq_le intro: le_trans[OF size_index_exprs])

section \<open>The bodies of a module\<close>

definition param_binding :: "rc_env \<Rightarrow> ty list \<Rightarrow> nat \<times> param \<Rightarrow> string \<times> binding" where
  "param_binding E tys ip =
     (let t = (if fst ip < length tys then Some (tys ! fst ip) else None)
      in (id_name (p_name (snd ip)), plain_binding (written_or_default E (p_ty (snd ip)) t) t))"

definition bind_sig_params :: "rc_env \<Rightarrow> ty list \<Rightarrow> param list \<Rightarrow> pass \<Rightarrow> pass" where
  "bind_sig_params E tys ps s = fold (\<lambda>(n, b). bind_name n b) (map (param_binding E tys) (enumerate 0 ps)) s"

definition enter_body :: "pass \<Rightarrow> pass" where
  "enter_body s = push_scope (s\<lparr>ps_scopes := []\<rparr>)"

definition check_fn :: "rc_env \<Rightarrow> fn_decl \<Rightarrow> pass \<Rightarrow> pass" where
  "check_fn E f s =
     (let n = id_name (fd_name f);
          s1 = bind_sig_params E (fn_param_types E n) (fd_params f) (enter_body s);
          ret = (case Option.bind (fd_ret f) written_rcap of
                   Some k \<Rightarrow> Some k | None \<Rightarrow> Option.bind (fn_ret_type E n) (default_of E))
      in pop_scope (walk_block_with_tail E (fd_body f) ret (fd_ret f \<noteq> None) s1))"

definition check_test :: "rc_env \<Rightarrow> test_decl \<Rightarrow> pass \<Rightarrow> pass" where
  "check_test E t s =
     pop_scope (walk_block_with_tail E (ted_body t) (default_of E TUnit) False
       (bind_name ''test_root'' (plain_binding (default_of E TRoot) (Some TRoot)) (enter_body s)))"

definition check_boundary_param :: "rc_env \<Rightarrow> string \<Rightarrow> ty list \<Rightarrow> nat \<times> param \<Rightarrow> pass \<Rightarrow> pass" where
  "check_boundary_param E key tys ip s =
     (let p = snd ip;
          n = id_name (p_name p);
          sp = type_expr_span (p_ty p);
          t = (if fst ip < length tys then Some (tys ! fst ip) else None)
      in case written_or_default E (p_ty p) t of
           Some k \<Rightarrow>
             if sendable k then s
             else if t = Some TPyObj then report (ParamPinned key n sp) s
             else report (ParamNotSendable key n k sp) s
         | None \<Rightarrow> report (ParamUndecidable key n sp) s)"

definition check_boundary_params :: "rc_env \<Rightarrow> string \<Rightarrow> string \<Rightarrow> param list \<Rightarrow> pass \<Rightarrow> pass" where
  "check_boundary_params E a m ps s =
     fold (check_boundary_param E (member_key a m) (fn_param_types E (member_key a m))) (enumerate 0 ps) s"

definition check_actor_member ::
    "rc_env \<Rightarrow> string \<Rightarrow> string \<Rightarrow> param list \<Rightarrow> block \<Rightarrow> bool \<Rightarrow> pass \<Rightarrow> pass" where
  "check_actor_member E a m ps body has_ret s =
     (let key = member_key a m;
          s1 = bind_sig_params E (fn_param_types E key) ps
                 (bind_name ''self'' (plain_binding (Some Ref) (Some (TActor a []))) (enter_body s));
          ret = (if has_ret then Option.bind (fn_ret_type E key) (default_of E) else None)
      in pop_scope (walk_block_with_tail E body ret has_ret s1))"

definition check_actor :: "rc_env \<Rightarrow> actor_decl \<Rightarrow> pass \<Rightarrow> pass" where
  "check_actor E a s =
     (let n = id_name (acd_name a);
          s1 = check_boundary_params E n ''new'' (cd_params (acd_ctor a)) s;
          s2 = fold (\<lambda>b. check_boundary_params E n (id_name (bd_name b)) (bd_params b)) (acd_behaviors a) s1;
          s3 = check_actor_member E n ''new'' (cd_params (acd_ctor a)) (cd_body (acd_ctor a)) False s2;
          s4 = fold (\<lambda>b. check_actor_member E n (id_name (bd_name b)) (bd_params b) (bd_body b) False) (acd_behaviors a) s3
      in fold (\<lambda>f. check_actor_member E n (id_name (fd_name f)) (fd_params f) (fd_body f) (fd_ret f \<noteq> None)) (acd_fns a) s4)"

fun check_item :: "rc_env \<Rightarrow> item \<Rightarrow> pass \<Rightarrow> pass" where
  "check_item E (IFn f) s = check_fn E f s"
| "check_item E (IActor a) s = check_actor E a s"
| "check_item E (ITest t) s = check_test E t s"
| "check_item E IOther s = s"

definition new_pass :: pass where
  "new_pass = \<lparr>ps_diags = [], ps_scopes = [], ps_recover = None, ps_capture = None, ps_moves = {||}\<rparr>"

definition check_rcaps :: "rc_env \<Rightarrow> item list \<Rightarrow> rcap_diag list \<times> nat fset" where
  "check_rcaps E items = (let s = fold (check_item E) items new_pass in (ps_diags s, ps_moves s))"

end
