(* ===== verification/Rcap_Flow.thy ===== *)
theory Rcap_Flow imports Rcap_Walk begin

text \<open>
  What consuming a binding means when a body runs, and the part of the pass that watches it. A run of a body is a
  sequence of events on bindings; it goes wrong when it uses or consumes one that was consumed before and not assigned
  since. The analysis keeps, for every scope, which bindings may be dead, and stops where the pass would report.
\<close>

section \<open>Bindings, alive or dead\<close>

type_synonym marks = "(string \<rightharpoonup> bool) list"

fun find_mark :: "string \<Rightarrow> marks \<Rightarrow> (nat \<times> bool) option" where
  "find_mark x [] = None"
| "find_mark x (m # ms) = (case m x of Some d \<Rightarrow> Some (length ms, d) | None \<Rightarrow> find_mark x ms)"

definition mark_of :: "string \<Rightarrow> marks \<Rightarrow> bool option" where
  "mark_of x ms = map_option snd (find_mark x ms)"

fun set_mark :: "string \<Rightarrow> bool \<Rightarrow> marks \<Rightarrow> marks" where
  "set_mark x d [] = []"
| "set_mark x d (m # ms) = (if m x = None then m # set_mark x d ms else m(x \<mapsto> d) # ms)"

definition bind_mark :: "string \<Rightarrow> marks \<Rightarrow> marks" where
  "bind_mark x ms = (case ms of [] \<Rightarrow> [] | m # ms' \<Rightarrow> m(x \<mapsto> False) # ms')"

fun join_marks :: "marks \<Rightarrow> marks \<Rightarrow> marks" where
  "join_marks (a # as) (b # bs) =
     (\<lambda>x. case (a x, b x) of (Some d, Some d') \<Rightarrow> Some (d \<or> d') | (r, _) \<Rightarrow> r) # join_marks as bs"
| "join_marks as bs = as"

section \<open>Events and runs\<close>

datatype (plugins only: code size) event =
  EvUse string | EvConsume string | EvAssign string | EvEnter | EvLeave | EvBind string

datatype (plugins only: code size) outcome = Done | Broke | Continued | Left

fun event_step :: "event \<Rightarrow> marks \<Rightarrow> marks option" where
  "event_step (EvUse x) ms = (if mark_of x ms = Some True then None else Some ms)"
| "event_step (EvConsume x) ms = (if mark_of x ms = Some True then None else Some (set_mark x True ms))"
| "event_step (EvAssign x) ms = Some (set_mark x False ms)"
| "event_step EvEnter ms = Some (Map.empty # ms)"
| "event_step EvLeave ms = Some (tl ms)"
| "event_step (EvBind x) ms = Some (bind_mark x ms)"

fun run_events :: "event list \<Rightarrow> marks \<Rightarrow> marks option" where
  "run_events [] ms = Some ms"
| "run_events (e # es) ms = Option.bind (event_step e ms) (run_events es)"

lemma run_events_append: "run_events (es @ fs) ms = Option.bind (run_events es ms) (run_events fs)"
  by (induction es arbitrary: ms) (auto split: Option.bind_split)

section \<open>The runs of a body\<close>

type_synonym runs = "(event list \<times> outcome) set"

definition nothing :: runs where "nothing = {([], Done)}"

definition one :: "event \<Rightarrow> runs" where "one e = {([e], Done)}"

definition leaving :: "outcome \<Rightarrow> runs" where "leaving r = {([], r)}"

definition followed_by :: "runs \<Rightarrow> runs \<Rightarrow> runs" where
  "followed_by A B = {(t @ u, r) |t u r. (t, Done) \<in> A \<and> (u, r) \<in> B} \<union> {(t, r) \<in> A. r \<noteq> Done}"

definition in_turn :: "runs list \<Rightarrow> runs" where "in_turn As = foldr followed_by As nothing"

definition in_scope :: "runs \<Rightarrow> runs" where
  "in_scope A = {(EvEnter # t @ [EvLeave], r) |t r. (t, r) \<in> A}"

inductive_set looping :: "runs \<Rightarrow> runs \<Rightarrow> runs" for A B where
  ends: "(t, r) \<in> A \<Longrightarrow> (t, r) \<in> looping A B"
| again: "(t, Done) \<in> A \<Longrightarrow> (u, r) \<in> B \<Longrightarrow> r = Done \<or> r = Continued \<Longrightarrow> (v, q) \<in> looping A B \<Longrightarrow> (t @ u @ v, q) \<in> looping A B"
| breaks: "(t, Done) \<in> A \<Longrightarrow> (u, Broke) \<in> B \<Longrightarrow> (t @ u, Done) \<in> looping A B"
| leaves: "(t, Done) \<in> A \<Longrightarrow> (u, Left) \<in> B \<Longrightarrow> (t @ u, Left) \<in> looping A B"

fun target_root :: "lvalue \<Rightarrow> string" where
  "target_root (LVar x) = id_name x"
| "target_root (LField b _) = target_root b"
| "target_root (LIndex b _) = target_root b"

definition target_event :: "lvalue \<Rightarrow> event" where
  "target_event t = (case t of LVar x \<Rightarrow> EvAssign (id_name x) | _ \<Rightarrow> EvUse (target_root t))"

text \<open>In the order of the interpreter. Only one branch of a condition and one arm of a match run, the right side of a
  conjunction or disjunction may not, \<open>?\<close> may leave the function, and making a closure runs nothing of it.\<close>

primrec runs_expr :: "expr \<Rightarrow> runs"
  and runs_block :: "block \<Rightarrow> runs"
  and runs_stmt :: "stmt \<Rightarrow> runs"
  and runs_indices :: "lvalue \<Rightarrow> runs"
  and runs_arm :: "arm \<Rightarrow> runs" where
  "runs_expr (ELit l i sp) = nothing"
| "runs_expr (EVar p i sp) = (case p of [x] \<Rightarrow> one (EvUse (id_name x)) | _ \<Rightarrow> nothing)"
| "runs_expr (EList es i sp) = in_turn (map runs_expr es)"
| "runs_expr (ERecord p fs i sp) = in_turn (map snd (map (map_prod id runs_expr) fs))"
| "runs_expr (ECall c es i sp) = followed_by (runs_expr c) (in_turn (map runs_expr es))"
| "runs_expr (EMethod r m es i sp) = followed_by (runs_expr r) (in_turn (map runs_expr es))"
| "runs_expr (EField r x i sp) = runs_expr r"
| "runs_expr (EIndex r j i sp) = followed_by (runs_expr r) (runs_expr j)"
| "runs_expr (EUnary op e i sp) = runs_expr e"
| "runs_expr (EBinary op l r i sp) =
     followed_by (runs_expr l) (if op = OpAnd \<or> op = OpOr then runs_expr r \<union> nothing else runs_expr r)"
| "runs_expr (EIf c t e i sp) =
     followed_by (runs_expr c) (runs_block t \<union> (case map_option runs_expr e of Some A \<Rightarrow> A | None \<Rightarrow> nothing))"
| "runs_expr (EMatch e arms i sp) = followed_by (runs_expr e) (\<Union> (set (map runs_arm arms)))"
| "runs_expr (ELambda ps rt row b i sp) = nothing"
| "runs_expr (ETry e i sp) = followed_by (runs_expr e) (nothing \<union> leaving Left)"
| "runs_expr (EBlock b) = runs_block b"
| "runs_expr (ESpawn p es i sp) = in_turn (map runs_expr es)"
| "runs_expr (EConsume x i sp) = one (EvConsume (id_name x))"
| "runs_expr (ERecover k b i sp) = runs_block b"
| "runs_block (Block ss i sp) = in_scope (in_turn (map runs_stmt ss))"
| "runs_stmt (SLet x t e m sp) = followed_by (runs_expr e) (one (EvBind (id_name x)))"
| "runs_stmt (SAssign t e sp) = followed_by (runs_expr e) (followed_by (runs_indices t) (one (target_event t)))"
| "runs_stmt (SWhile c b sp) = looping (runs_expr c) (runs_block b)"
| "runs_stmt (SFor x e b sp) =
     followed_by (runs_expr e) (looping nothing (in_scope (followed_by (one (EvBind (id_name x))) (runs_block b))))"
| "runs_stmt (SBreak sp) = leaving Broke"
| "runs_stmt (SContinue sp) = leaving Continued"
| "runs_stmt (SReturn v sp) = followed_by (case map_option runs_expr v of Some A \<Rightarrow> A | None \<Rightarrow> nothing) (leaving Left)"
| "runs_stmt (SExpr e) = runs_expr e"
| "runs_indices (LVar x) = nothing"
| "runs_indices (LField b x) = runs_indices b"
| "runs_indices (LIndex b e) = followed_by (runs_indices b) (runs_expr e)"
| "runs_arm (Arm p e sp) = in_scope (followed_by (in_turn (map (\<lambda>x. one (EvBind x)) (pattern_names p))) (runs_expr e))"

section \<open>The analysis\<close>

type_synonym flow = "nat option \<Rightarrow> marks \<Rightarrow> marks option"

definition keep :: flow where "keep cb ms = Some ms"

definition then_flow :: "flow \<Rightarrow> flow \<Rightarrow> flow" where
  "then_flow f g cb ms = Option.bind (f cb ms) (g cb)"

definition flows :: "flow list \<Rightarrow> flow" where "flows fs = foldr then_flow fs keep"

definition use_flow :: "string \<Rightarrow> flow" where
  "use_flow x cb ms = (if mark_of x ms = Some True then None else Some ms)"

definition consume_flow :: "string \<Rightarrow> flow" where
  "consume_flow x cb ms =
     (case find_mark x ms of
        None \<Rightarrow> Some ms
      | Some (depth, dead) \<Rightarrow> if dead \<or> below depth cb then None else Some (set_mark x True ms))"

definition bind_flow :: "string \<Rightarrow> flow" where "bind_flow x cb ms = Some (bind_mark x ms)"

definition target_flow :: "lvalue \<Rightarrow> flow" where
  "target_flow t = (case t of LVar x \<Rightarrow> (\<lambda>cb ms. Some (set_mark (id_name x) False ms)) | _ \<Rightarrow> use_flow (target_root t))"

definition scope_flow :: "flow \<Rightarrow> flow" where
  "scope_flow f cb ms = map_option tl (f cb (Map.empty # ms))"

definition branch_flow :: "flow \<Rightarrow> flow \<Rightarrow> flow" where
  "branch_flow f g cb ms =
     (case (f cb ms, g cb ms) of (Some a, Some b) \<Rightarrow> Some (join_marks b a) | _ \<Rightarrow> None)"

definition arms_flow :: "flow list \<Rightarrow> flow" where
  "arms_flow fs cb ms = map_option (\<lambda>as. fold (\<lambda>a r. join_marks r a) as ms) (those (map (\<lambda>f. f cb ms) fs))"

definition carry_marks :: "string list \<Rightarrow> marks \<Rightarrow> marks" where
  "carry_marks xs ms = fold (\<lambda>x. set_mark x True) xs ms"

definition carried :: "block \<Rightarrow> flow" where
  "carried b cb ms = Some (carry_marks (map fst (consumed_free_names b)) ms)"

definition capture_flow :: "flow \<Rightarrow> flow" where "capture_flow f cb ms = f (Some (length ms)) ms"

primrec flow_expr :: "expr \<Rightarrow> flow"
  and flow_block :: "block \<Rightarrow> flow"
  and flow_stmt :: "stmt \<Rightarrow> flow"
  and flow_indices :: "lvalue \<Rightarrow> flow"
  and flow_arm :: "arm \<Rightarrow> flow" where
  "flow_expr (ELit l i sp) = keep"
| "flow_expr (EVar p i sp) = (case p of [x] \<Rightarrow> use_flow (id_name x) | _ \<Rightarrow> keep)"
| "flow_expr (EList es i sp) = flows (map flow_expr es)"
| "flow_expr (ERecord p fs i sp) = flows (map snd (map (map_prod id flow_expr) fs))"
| "flow_expr (ECall c es i sp) = then_flow (flow_expr c) (flows (map flow_expr es))"
| "flow_expr (EMethod r m es i sp) = then_flow (flow_expr r) (flows (map flow_expr es))"
| "flow_expr (EField r x i sp) = flow_expr r"
| "flow_expr (EIndex r j i sp) = then_flow (flow_expr r) (flow_expr j)"
| "flow_expr (EUnary op e i sp) = flow_expr e"
| "flow_expr (EBinary op l r i sp) = then_flow (flow_expr l) (flow_expr r)"
| "flow_expr (EIf c t e i sp) =
     then_flow (flow_expr c) (branch_flow (flow_block t) (case map_option flow_expr e of Some f \<Rightarrow> f | None \<Rightarrow> keep))"
| "flow_expr (EMatch e arms i sp) = then_flow (flow_expr e) (arms_flow (map flow_arm arms))"
| "flow_expr (ELambda ps rt row b i sp) =
     capture_flow (scope_flow (then_flow (flows (map bind_flow (param_names ps))) (flow_block b)))"
| "flow_expr (ETry e i sp) = flow_expr e"
| "flow_expr (EBlock b) = flow_block b"
| "flow_expr (ESpawn p es i sp) = flows (map flow_expr es)"
| "flow_expr (EConsume x i sp) = consume_flow (id_name x)"
| "flow_expr (ERecover k b i sp) = flow_block b"
| "flow_block (Block ss i sp) = scope_flow (flows (map flow_stmt ss))"
| "flow_stmt (SLet x t e m sp) = then_flow (flow_expr e) (bind_flow (id_name x))"
| "flow_stmt (SAssign t e sp) = then_flow (flow_expr e) (then_flow (flow_indices t) (target_flow t))"
| "flow_stmt (SWhile c b sp) = then_flow (flow_expr c) (then_flow (carried b) (flow_block b))"
| "flow_stmt (SFor x e b sp) =
     then_flow (flow_expr e) (then_flow (carried b) (scope_flow (then_flow (bind_flow (id_name x)) (flow_block b))))"
| "flow_stmt (SBreak sp) = keep"
| "flow_stmt (SContinue sp) = keep"
| "flow_stmt (SReturn v sp) = (case map_option flow_expr v of Some f \<Rightarrow> f | None \<Rightarrow> keep)"
| "flow_stmt (SExpr e) = flow_expr e"
| "flow_indices (LVar x) = keep"
| "flow_indices (LField b x) = flow_indices b"
| "flow_indices (LIndex b e) = then_flow (flow_indices b) (flow_expr e)"
| "flow_arm (Arm p e sp) = scope_flow (then_flow (flows (map bind_flow (pattern_names p))) (flow_expr e))"

end
