(* ===== verification/Rcap_Refine.thy ===== *)
theory Rcap_Refine imports Rcap_Flow begin

text \<open>
  Where the pass reports nothing it runs the consume analysis: what it knows of capabilities and types plays no part in
  which bindings it takes for dead. \<open>marks_of\<close> forgets the rest of a state.
\<close>

definition is_dead :: "binding \<Rightarrow> bool" where "is_dead b \<longleftrightarrow> b_consumed b \<noteq> None"

definition scope_marks :: "(string \<rightharpoonup> binding) list \<Rightarrow> marks" where
  "scope_marks scs = map (\<lambda>sc x. map_option is_dead (sc x)) scs"

definition marks_of :: "pass \<Rightarrow> marks" where "marks_of s = scope_marks (ps_scopes s)"

definition snap_marks :: "consumed_states \<Rightarrow> marks" where
  "snap_marks st = map (\<lambda>m x. map_option (\<lambda>c. c \<noteq> None) (m x)) st"

definition shape :: "pass \<Rightarrow> string set list" where "shape s = map dom (ps_scopes s)"

text \<open>From \<open>s\<close> to \<open>s'\<close> the pass did what \<open>f\<close> does; statements may bind in the innermost scope.\<close>

definition follows :: "flow \<Rightarrow> pass \<Rightarrow> pass \<Rightarrow> bool" where
  "follows f s s' \<longleftrightarrow>
     length (ps_diags s) \<le> length (ps_diags s') \<and> ps_capture s' = ps_capture s
     \<and> length (shape s') = length (shape s) \<and> tl (shape s') = tl (shape s)
     \<and> (length (ps_diags s') = length (ps_diags s) \<longrightarrow> f (ps_capture s) (marks_of s) = Some (marks_of s'))"

definition tracks :: "flow \<Rightarrow> pass \<Rightarrow> pass \<Rightarrow> bool" where
  "tracks f s s' \<longleftrightarrow> follows f s s' \<and> shape s' = shape s"

lemma follows_then: "follows f s s1 \<Longrightarrow> follows g s1 s2 \<Longrightarrow> follows (then_flow f g) s s2"
  by (auto simp: follows_def then_flow_def)

lemma tracks_then: "tracks f s s1 \<Longrightarrow> tracks g s1 s2 \<Longrightarrow> tracks (then_flow f g) s s2"
  by (auto simp: tracks_def intro: follows_then)

lemma keep_left: "then_flow keep f = f" by (rule ext)+ (simp add: then_flow_def keep_def)

lemma keep_right: "then_flow f keep = f"
  by (rule ext)+ (simp add: then_flow_def keep_def Option.bind_eq_Some_conv split: Option.bind_split)

lemma follows_keep: "follows f s s1 \<Longrightarrow> tracks keep s1 s2 \<Longrightarrow> follows f s s2"
  using follows_then [of f s s1 keep s2] by (simp add: tracks_def keep_right)

lemma tracks_keep: "tracks f s s1 \<Longrightarrow> tracks keep s1 s2 \<Longrightarrow> tracks f s s2"
  using tracks_then [of f s s1 keep s2] by (simp add: keep_right)

lemma keep_tracks: "tracks keep s s1 \<Longrightarrow> tracks f s1 s2 \<Longrightarrow> tracks f s s2"
  using tracks_then [of keep s s1 f s2] by (simp add: keep_left)

lemma tracks_follows: "tracks f s s' \<Longrightarrow> follows f s s'" by (simp add: tracks_def)

lemma tracks_refl [simp]: "tracks keep s s" by (simp add: tracks_def follows_def keep_def)

section \<open>Scopes and marks\<close>

lemma marks_simps [simp]:
  "marks_of (report d s) = marks_of s" "shape (report d s) = shape s"
  "ps_capture (report d s) = ps_capture s" "ps_diags (report d s) = ps_diags s @ [d]"
  by (simp_all add: marks_of_def shape_def report_def)

lemma length_marks [simp]: "length (marks_of s) = length (ps_scopes s)" by (simp add: marks_of_def scope_marks_def)

lemma length_shape: "length (shape s) = length (ps_scopes s)" by (simp add: shape_def)

lemma tracks_report [simp]: "tracks f s (report d s)" by (simp add: tracks_def follows_def)

lemma find_mark_of:
  "find_mark x (scope_marks scs) = map_option (map_prod id is_dead) (find_binding x scs)"
  by (induction scs) (auto simp: scope_marks_def split: option.splits)

lemma find_mark_marks_of:
  "find_mark x (marks_of s) = map_option (map_prod id is_dead) (find_binding x (ps_scopes s))"
  by (simp add: marks_of_def find_mark_of)

lemma change_binding_same:
  assumes "\<And>b. is_dead (f b) = is_dead b"
  shows "scope_marks (change_binding x f scs)
         = scope_marks scs"
  using assms by (induction scs) (auto simp: scope_marks_def fun_eq_iff split: option.splits)

lemma change_binding_mark:
  assumes "\<And>b. is_dead (f b) = d"
  shows "scope_marks (change_binding x f scs)
         = set_mark x d (scope_marks scs)"
  using assms by (induction scs) (auto simp: scope_marks_def fun_eq_iff split: option.splits)

lemma change_binding_dom [simp]: "map dom (change_binding x f scs) = map dom scs"
  by (induction scs) (auto simp: insert_absorb split: option.splits)

lemma shape_change [simp]: "shape (change_name x f s) = shape s"
  by (simp add: shape_def change_name_def)

lemma change_simps [simp]: "ps_capture (change_name x f s) = ps_capture s" "ps_diags (change_name x f s) = ps_diags s"
  by (simp_all add: change_name_def)

lemma marks_of_change_same:
  "(\<And>b. is_dead (f b) = is_dead b) \<Longrightarrow> marks_of (change_name x f s) = marks_of s"
  by (simp add: marks_of_def change_name_def change_binding_same)

lemma marks_of_change:
  "(\<And>b. is_dead (f b) = d) \<Longrightarrow> marks_of (change_name x f s) = set_mark x d (marks_of s)"
  by (simp add: marks_of_def change_name_def change_binding_mark)

lemma tracks_change_same:
  "(\<And>b. is_dead (f b) = is_dead b) \<Longrightarrow> tracks keep s (change_name x f s)"
  by (simp add: tracks_def follows_def keep_def marks_of_change_same)

lemma marks_of_push [simp]: "marks_of (push_scope s) = Map.empty # marks_of s"
  by (simp add: marks_of_def scope_marks_def push_scope_def)

lemma marks_of_pop [simp]: "marks_of (pop_scope s) = tl (marks_of s)"
  by (simp add: marks_of_def scope_marks_def pop_scope_def map_tl)

lemma shape_push [simp]: "shape (push_scope s) = {} # shape s" by (simp add: shape_def push_scope_def)

lemma shape_pop [simp]: "shape (pop_scope s) = tl (shape s)" by (simp add: shape_def pop_scope_def map_tl)

lemma push_pop_simps [simp]:
  "ps_capture (push_scope s) = ps_capture s" "ps_diags (push_scope s) = ps_diags s"
  "ps_capture (pop_scope s) = ps_capture s" "ps_diags (pop_scope s) = ps_diags s"
  by (simp_all add: push_scope_def pop_scope_def)

lemma follows_bind: "b_consumed b = None \<Longrightarrow> follows (bind_flow x) s (bind_name x b s)"
  by (cases "ps_scopes s") (auto simp: follows_def bind_flow_def bind_name_def bind_mark_def marks_of_def scope_marks_def is_dead_def shape_def fun_eq_iff)

lemma follows_binds:
  "(\<And>y. y \<in> set ys \<Longrightarrow> b_consumed (g y) = None) \<Longrightarrow>
   follows (flows (map (\<lambda>y. bind_flow (h y)) ys)) s (fold (\<lambda>y. bind_name (h y) (g y)) ys s)"
proof (induction ys arbitrary: s)
  case Nil then show ?case by (simp add: flows_def tracks_follows)
next
  case (Cons y ys)
  then show ?case by (auto simp: flows_def intro: follows_then follows_bind)
qed

lemma tracks_scope: "follows f (push_scope s) s' \<Longrightarrow> tracks (scope_flow f) s (pop_scope s')"
  by (auto simp: tracks_def follows_def scope_flow_def)

lemma snapshot_marks [simp]: "snap_marks (consumed_snapshot s) = marks_of s"
  by (simp add: snap_marks_def consumed_snapshot_def marks_of_def scope_marks_def option.map_comp comp_def is_dead_def [abs_def])

lemma restore_marks:
  assumes "shape s' = shape s"
  shows "marks_of (consumed_restore (consumed_snapshot s) s') = marks_of s"
proof -
  have "map dom scs = map dom scs' \<Longrightarrow>
      scope_marks (zip_scopes (\<lambda>b c. b\<lparr>b_consumed := c\<rparr>) scs (map (\<lambda>sc n. map_option b_consumed (sc n)) scs'))
      = scope_marks scs'" for scs scs'
  proof (induction scs arbitrary: scs')
    case (Cons sc scs)
    then obtain sc' rest where s': "scs' = sc' # rest" "dom sc = dom sc'" "map dom scs = map dom rest" by (cases scs') auto
    have "map_option is_dead
            (case (sc x, map_option b_consumed (sc' x)) of (Some b, Some c) \<Rightarrow> Some (b\<lparr>b_consumed := c\<rparr>) | (r, _) \<Rightarrow> r)
          = map_option is_dead (sc' x)" for x
      using s'(2) domIff [of x sc] domIff [of x sc'] by (cases "sc x"; cases "sc' x") (auto simp: is_dead_def)
    then show ?case using Cons.IH [OF s'(3)] s'(1) by (simp add: scope_marks_def)
  qed (simp add: scope_marks_def)
  then show ?thesis using assms by (simp add: marks_of_def consumed_restore_def consumed_snapshot_def shape_def)
qed

lemma zip_scopes_dom [simp]: "map dom (zip_scopes f scs st) = map dom scs"
  by (induction f scs st rule: zip_scopes.induct) (auto simp: dom_def split: option.splits)

lemma restore_simps [simp]:
  "shape (consumed_restore st s) = shape s" "ps_capture (consumed_restore st s) = ps_capture s"
  "ps_diags (consumed_restore st s) = ps_diags s"
  "shape (consumed_join st s) = shape s" "ps_capture (consumed_join st s) = ps_capture s"
  "ps_diags (consumed_join st s) = ps_diags s"
  by (simp_all add: consumed_restore_def consumed_join_def shape_def)

lemma join_marks_of [simp]: "marks_of (consumed_join st s) = join_marks (marks_of s) (snap_marks st)"
proof -
  have "scope_marks (zip_scopes (\<lambda>b c. if b_consumed b = None then b\<lparr>b_consumed := c\<rparr> else b) scs st)
        = join_marks (scope_marks scs) (snap_marks st)" for scs
  proof (induction scs arbitrary: st)
    case (Cons sc scs)
    show ?case using Cons.IH by (cases st) (auto simp: snap_marks_def scope_marks_def is_dead_def fun_eq_iff split: option.splits)
  qed (simp add: snap_marks_def scope_marks_def)
  then show ?thesis by (simp add: marks_of_def consumed_join_def)
qed

lemma joins_marks_of:
  "marks_of (fold consumed_join sts s) = fold (\<lambda>a r. join_marks r a) (map snap_marks sts) (marks_of s)"
  by (induction sts arbitrary: s) simp_all

lemma joins_simps [simp]:
  "shape (fold consumed_join sts s) = shape s" "ps_capture (fold consumed_join sts s) = ps_capture s"
  "ps_diags (fold consumed_join sts s) = ps_diags s"
  by (induction sts arbitrary: s) simp_all

lemma tracks_carried: "tracks (carried b) s (carry_consumed (consumed_free_names b) s)"
proof -
  have step: "tracks (\<lambda>cb ms. Some (set_mark x True ms)) s
      (change_name x (\<lambda>b. if b_consumed b = None then b\<lparr>b_consumed := Some (site, True)\<rparr> else b) s)" for x site s
    by (auto simp: tracks_def follows_def is_dead_def intro!: marks_of_change [symmetric])
  have "tracks (\<lambda>cb ms. Some (carry_marks (map fst ns) ms)) s (carry_consumed ns s)" for ns
  proof (induction ns arbitrary: s)
    case Nil
    then show ?case using tracks_refl [of s] by (simp add: carry_marks_def carry_consumed_def keep_def [abs_def])
  next
    case (Cons n ns)
    obtain x site where n: "n = (x, site)" by (cases n)
    show ?case using tracks_then [OF step [where x=x and site=site and s=s] Cons.IH]
      by (simp add: n carry_marks_def carry_consumed_def then_flow_def [abs_def])
  qed
  then show ?thesis by (simp add: carried_def [abs_def])
qed

section \<open>The steps between\<close>

named_theorems quiet \<open>steps that leave alone what is dead\<close>

lemma tracks_keep_trans: "tracks keep s s1 \<Longrightarrow> tracks keep s1 s2 \<Longrightarrow> tracks keep s s2" by (rule tracks_keep)

lemma quiet_fold: "(\<And>y s. tracks keep s (g y s)) \<Longrightarrow> tracks keep s (fold g ys s)"
  by (induction ys arbitrary: s) (auto intro: tracks_keep_trans)

lemma quiet_escaped [quiet]: "tracks keep s (mark_escaped n s)"
  unfolding mark_escaped_def by (rule tracks_change_same) (simp add: is_dead_def)

lemma quiet_escape [quiet]: "tracks keep s (escape_arg e s)"
  by (auto simp: escape_arg_def quiet split: option.split)

lemma quiet_storable [quiet]: "tracks keep s (check_storable k d sp a w s)"
  by (simp add: check_storable_def)

lemma quiet_writable [quiet]: "tracks keep s (require_writable k sp w l s)"
  by (simp add: require_writable_def)

lemmas then_storable = tracks_keep [OF _ quiet_storable]
lemmas then_writable = tracks_keep [OF _ quiet_writable]

lemma quiet_diags: "length ds = length (ps_diags s) \<Longrightarrow> tracks keep s (s\<lparr>ps_diags := ds\<rparr>)"
  by (simp add: tracks_def follows_def keep_def marks_of_def shape_def)

lemma quiet_explain [quiet]: "tracks keep s (explain_val_binding n k d t sp s)"
  by (auto simp: explain_val_binding_def Let_def quiet_diags split: kn.split option.split type_expr.split rcap.split bool.split)

lemma quiet_field [quiet]: "tracks keep s (snd (read_field k f sp s))"
  by (auto simp: read_field_def split: kn.split option.split)

lemma quiet_lift [quiet]: "tracks keep s (snd (lift_fresh_arg e d k c f n s))"
  by (auto simp: lift_fresh_arg_def Let_def is_dead_def split: option.split intro!: tracks_change_same)

lemma quiet_call_args [quiet]: "tracks keep s (check_call_args f ps ds as ks s)"
proof (induction f ps ds as ks s rule: check_call_args.induct)
  case (1 f p ps d ds a as k lift ks s)
  show ?case
  proof (cases d)
    case None
    then show ?thesis using 1(1) by simp
  next
    case (Some dest)
    obtain k1 s1 where l: "lift_fresh_arg a dest k lift f (id_name (p_name p)) s = (k1, s1)" by (rule prod.exhaust)
    have q: "tracks keep s s1" using quiet_lift [of s a dest k lift f "id_name (p_name p)"] l by simp
    show ?thesis using tracks_keep_trans [OF then_storable [OF q] 1(2) [OF Some l [symmetric]]] Some l by simp
  qed
qed simp_all

lemma quiet_call [quiet]: "tracks keep s (snd (call_result E e c as ks s))"
  by (auto simp: call_result_def Let_def quiet split: option.split)

lemma quiet_send [quiet]: "tracks keep s (check_send_arg E k d a s)"
proof -
  have m: "tracks keep s (s\<lparr>ps_moves := x\<rparr>)" for x
    by (simp add: tracks_def follows_def keep_def marks_of_def shape_def)
  have r: "tracks keep s s1 \<Longrightarrow> tracks keep s (report x s1)" for s1 x
    by (rule tracks_keep_trans [of _ s1]) simp_all
  have "tracks keep s (if k = KUnaliased Iso then s\<lparr>ps_moves := finsert (expr_id a) (ps_moves s)\<rparr> else s)"
    using m by simp
  then show ?thesis by (auto simp: check_send_arg_def Let_def intro!: r split: option.split kn.split rcap.split)
qed

lemma quiet_sends [quiet]: "tracks keep s (check_send_args E as ks ds s)"
  by (induction E as ks ds s rule: check_send_args.induct) (auto intro: tracks_keep_trans quiet_send)

lemma quiet_captures [quiet]: "tracks keep s (snd (capture_names E cs ok s))"
  by (induction E cs ok s rule: capture_names.induct) (auto simp: Let_def intro: tracks_keep_trans quiet_escaped)

lemma quiet_record_field [quiet]: "tracks keep s (check_record_field E e x k sp s)"
  by (auto simp: check_record_field_def quiet split: option.split)

lemma quiet_spawn [quiet]: "tracks keep s (spawn_args E p as ks s)"
  by (auto simp: spawn_args_def Let_def quiet split: option.split)

lemma quiet_return [quiet]: "tracks keep s (check_return_position e k d s)"
  by (auto simp: check_return_position_def quiet split: option.split)

lemma quiet_if: "tracks keep s s1 \<Longrightarrow> tracks keep s1 s2 \<Longrightarrow> tracks keep s (if b then s2 else s1)"
  by (auto intro: tracks_keep_trans)

lemma quiet_method [quiet]: "tracks keep s (check_method E r m as sp k ks s)"
proof -
  have w: "tracks keep s s1 \<Longrightarrow> tracks keep s (require_writable k sp w l s1)" for s1 w l
    by (rule tracks_keep_trans [OF _ quiet_writable])
  have d: "tracks keep s s1 \<Longrightarrow> tracks keep s (check_send_args E as ks ds s1)" for s1 ds
    by (rule tracks_keep_trans [OF _ quiet_sends])
  have r: "tracks keep s s1 \<Longrightarrow> tracks keep s (report x s1)" for s1 x
    by (erule tracks_keep_trans) simp
  define s1 where "s1 = (if id_name m \<in> set [''push'', ''pop''] \<and> is_list E r
    then require_writable k sp (ToListMethod (id_name m)) (lift_of_expr r s) s else s)"
  define s2 where "s2 = (if id_name m \<in> set [''insert'', ''remove''] \<and> is_map E r
    then require_writable k sp (ToMapMethod (id_name m)) (lift_of_expr r s1) s1 else s1)"
  have s2: "tracks keep s s2" unfolding s2_def s1_def by (auto intro: w)
  show ?thesis unfolding check_method_def Let_def s1_def [symmetric] s2_def [symmetric]
    by (auto intro!: r d s2 split: option.split ty.split)
qed

lemma use_flow_simps: "use_flow x cb ms = (case find_mark x ms of Some (_, True) \<Rightarrow> None | _ \<Rightarrow> Some ms)"
  by (auto simp: use_flow_def mark_of_def split: option.split bool.split)

lemma tracks_read: "tracks (use_flow x) s (snd (use_binding x sp UseRead s))"
  by (auto simp: use_binding_def tracks_def follows_def use_flow_simps find_mark_marks_of is_dead_def
        split: option.split bool.split)

lemma tracks_consume: "tracks (consume_flow x) s (snd (use_binding x sp UseConsume s))"
proof -
  have c: "tracks (consume_flow x) s (change_name x (\<lambda>b. b\<lparr>b_consumed := Some (sp, False), b_fresh_lift := None\<rparr>) s)"
    if "find_binding x (ps_scopes s) = Some (d, b)" "b_consumed b = None" "\<not> below d (ps_capture s)" for d b
    using that by (auto simp: tracks_def follows_def consume_flow_def find_mark_marks_of is_dead_def
        intro!: marks_of_change [symmetric])
  show ?thesis
  proof (cases "find_binding x (ps_scopes s)")
    case None
    then show ?thesis
      by (simp add: use_binding_def tracks_def follows_def consume_flow_def find_mark_marks_of)
  next
    case (Some db)
    obtain d b where "db = (d, b)" by (cases db)
    then show ?thesis using Some c [of d b] by (auto simp: use_binding_def split: option.split)
  qed
qed

lemma tracks_walk_var: "tracks (use_flow x) s (snd (walk_var E e x sp s))"
proof (cases "lookup_name x s")
  case None
  then have "use_flow x cb (marks_of s) = Some (marks_of s)" for cb
    by (auto simp: use_flow_simps find_mark_marks_of lookup_name_def)
  then show ?thesis using None by (auto simp: walk_var_def tracks_def follows_def)
next
  case (Some b)
  then show ?thesis using tracks_read [of x s sp] by (auto simp: walk_var_def split: prod.split)
qed

lemma tracks_resolve: "tracks (use_flow (target_root t)) s (snd (snd (resolve_lvalue E t s)))"
proof (induction E t s rule: resolve_lvalue.induct)
  case (1 E x s)
  then show ?case using tracks_read [of "id_name x" s "id_span x"] by (auto split: prod.split)
next
  case (2 E b x s)
  obtain bk bt s1 where b: "resolve_lvalue E b s = (bk, bt, s1)" by (rule prod_cases3)
  define f where "f = map_option fst (Option.bind bt (\<lambda>t. field_info E t (id_name x)))"
  obtain k s2 where f: "read_field bk f (lvalue_span (LField b x)) s1 = (k, s2)" by (rule prod.exhaust)
  have "tracks (use_flow (target_root b)) s s1" using 2 b by simp
  moreover have "tracks keep s1 s2" using quiet_field [of s1 bk f "lvalue_span (LField b x)"] f by simp
  ultimately show ?case using b f by (auto simp: f_def Let_def intro: tracks_keep)
next
  case (3 E b i s)
  then show ?case by (auto split: prod.split)
qed

lemma tracks_write: "tracks (target_flow t) s (check_write E t k sp s)"
proof (cases t)
  case (LVar x)
  have q: "tracks keep s (case Option.bind (lookup_name (id_name x) s) b_rcap of
      Some d \<Rightarrow> check_storable k d sp AtAssignment False s | None \<Rightarrow> s)"
    by (auto simp: quiet split: option.split)
  have w: "tracks (target_flow t) s1 (change_name (id_name x) (\<lambda>b. b\<lparr>b_fresh_lift := None, b_consumed := None\<rparr>) s1)" for s1
    by (auto simp: LVar tracks_def follows_def target_flow_def is_dead_def intro!: marks_of_change [symmetric])
  show ?thesis using keep_tracks [OF q w] by (simp add: LVar Let_def)
next
  case (LField b x)
  obtain bk bt s1 where b: "resolve_lvalue E b s = (bk, bt, s1)" by (rule prod_cases3)
  have "tracks (target_flow t) s s1" using tracks_resolve [of b s E] b by (simp add: LField target_flow_def)
  then show ?thesis using b
    by (auto simp: LField Let_def split: option.split intro!: then_storable then_writable)
next
  case (LIndex b e)
  obtain bk bt s1 where b: "resolve_lvalue E b s = (bk, bt, s1)" by (rule prod_cases3)
  have "tracks (target_flow t) s s1" using tracks_resolve [of b s E] b by (simp add: LIndex target_flow_def)
  then show ?thesis using b
    by (auto simp: LIndex Let_def split: option.split intro!: then_storable then_writable)
qed

lemma follows_let: "follows (bind_flow (id_name x)) s (finish_let E x t e sp k s)"
proof -
  have d: "b_consumed (let_binding E t e k d) = None" for d by (simp add: let_binding_def)
  have q: "tracks keep s (case let_dest E t e of
      Some d \<Rightarrow> explain_val_binding (length (ps_diags s)) k d t (id_span x)
        (check_storable k d sp AtBinding (Option.bind t written_rcap \<noteq> None) s)
    | None \<Rightarrow> s)"
    by (auto intro: tracks_keep_trans quiet split: option.split)
  show ?thesis
    using follows_then [OF tracks_follows [OF tracks_keep_trans [OF q quiet_escape]] follows_bind [OF d]]
    by (simp add: finish_let_def Let_def keep_left)
qed

section \<open>The walk\<close>

definition refines_expr :: "rc_env \<Rightarrow> expr \<Rightarrow> bool" where
  "refines_expr E e \<longleftrightarrow> (\<forall>s. tracks (flow_expr e) s (snd (walk_expr E e s)))"

definition refines_block :: "rc_env \<Rightarrow> block \<Rightarrow> bool" where
  "refines_block E b \<longleftrightarrow>
     (\<forall>s. tracks (flow_block b) s (snd (walk_block_value E b s)))
     \<and> (\<forall>r h s. tracks (flow_block b) s (walk_block_with_tail E b r h s))"

definition refines_stmt :: "rc_env \<Rightarrow> stmt \<Rightarrow> bool" where
  "refines_stmt E st \<longleftrightarrow>
     (\<forall>r s. follows (flow_stmt st) s (walk_stmt E st r s))
     \<and> (case st of SExpr e \<Rightarrow> refines_expr E e | SReturn (Some v) _ \<Rightarrow> refines_expr E v | _ \<Rightarrow> True)"

definition refines_indices :: "rc_env \<Rightarrow> lvalue \<Rightarrow> bool" where
  "refines_indices E t \<longleftrightarrow> (\<forall>s. tracks (flow_indices t) s (snd (walk_all E (index_exprs t) s)))"

definition refines_arm :: "rc_env \<Rightarrow> arm \<Rightarrow> bool" where
  "refines_arm E a \<longleftrightarrow>
     (case a of Arm p e sp \<Rightarrow>
        \<forall>s. tracks (flow_arm a) s (pop_scope (snd (walk_expr E e (bind_pattern p (push_scope s))))))"

lemma refines_exprD: "refines_expr E e \<Longrightarrow> walk_expr E e s = (k, s') \<Longrightarrow> tracks (flow_expr e) s s'"
  by (metis refines_expr_def snd_conv)

lemma flows_simps [simp]: "flows [] = keep" "flows (f # fs) = then_flow f (flows fs)"
  by (simp_all add: flows_def)

lemma flows_append: "flows (fs @ gs) = then_flow (flows fs) (flows gs)"
proof (induction fs)
  case Nil then show ?case by (simp add: keep_left)
next
  case (Cons f fs)
  have "then_flow f (then_flow g h) = then_flow (then_flow f g) h" for g h
    by (rule ext)+ (simp add: then_flow_def [abs_def])
  then show ?case using Cons by simp
qed

lemma walk_all_tracks:
  "(\<And>e. e \<in> set es \<Longrightarrow> refines_expr E e) \<Longrightarrow> walk_all E es s = (ks, s') \<Longrightarrow> tracks (flows (map flow_expr es)) s s'"
proof (induction es arbitrary: s ks s')
  case (Cons e es)
  obtain k s1 where e: "walk_expr E e s = (k, s1)" by (rule prod.exhaust)
  obtain ks1 s2 where es: "walk_all E es s1 = (ks1, s2)" by (rule prod.exhaust)
  have "tracks (flow_expr e) s s1" by (rule refines_exprD [OF _ e]) (simp add: Cons.prems)
  then show ?case using tracks_then Cons.IH [OF _ es] Cons.prems e es by auto
qed simp

lemma walk_args_tracks:
  "(\<And>e. e \<in> set es \<Longrightarrow> refines_expr E e) \<Longrightarrow> walk_args E es s = (ks, s') \<Longrightarrow> tracks (flows (map flow_expr es)) s s'"
proof (induction es arbitrary: s ks s')
  case (Cons e es)
  obtain k s1 where e: "walk_expr E e s = (k, s1)" by (rule prod.exhaust)
  obtain ks1 s2 where es: "walk_args E es (escape_arg e s1) = (ks1, s2)" by (rule prod.exhaust)
  have "tracks (flow_expr e) s s1" by (rule refines_exprD [OF _ e]) (simp add: Cons.prems)
  then have "tracks (flow_expr e) s (escape_arg e s1)" by (rule tracks_keep [OF _ quiet_escape])
  then show ?case using tracks_then Cons.IH [OF _ es] Cons.prems e es by auto
qed simp

lemma walk_fields_tracks:
  "(\<And>f. f \<in> set fs \<Longrightarrow> refines_expr E (snd f)) \<Longrightarrow> walk_fields E e sp fs s = (ks, s') \<Longrightarrow>
   tracks (flows (map snd (map (map_prod id flow_expr) fs))) s s'"
proof (induction fs arbitrary: s ks s')
  case (Cons f fs)
  obtain k s1 where e: "walk_expr E (snd f) s = (k, s1)" by (rule prod.exhaust)
  obtain ks1 s2 where es: "walk_fields E e sp fs (check_record_field E e (fst f) k sp (escape_arg (snd f) s1)) = (ks1, s2)"
    by (rule prod.exhaust)
  have "tracks (flow_expr (snd f)) s s1" by (rule refines_exprD [OF _ e]) (simp add: Cons.prems)
  then have "tracks (flow_expr (snd f)) s (check_record_field E e (fst f) k sp (escape_arg (snd f) s1))"
    by (rule tracks_keep [OF tracks_keep [OF _ quiet_escape] quiet_record_field])
  then show ?case using tracks_then Cons.IH [OF _ es] Cons.prems e es by auto
qed simp

lemma follows_stmts_value:
  "(\<And>st. st \<in> set ss \<Longrightarrow> refines_stmt E st) \<Longrightarrow> follows (flows (map flow_stmt ss)) s (snd (walk_stmts_value E ss s))"
proof (induction ss arbitrary: s)
  case Nil then show ?case by (simp add: tracks_follows)
next
  case (Cons st ss)
  have st: "follows (flow_stmt st) s (walk_stmt E st None s)" using Cons.prems by (simp add: refines_stmt_def)
  show ?case
  proof (cases "ss = []")
    case True
    have "follows (flow_stmt st) s (snd (walk_stmts_value E [st] s))"
      using st Cons.prems [of st]
      by (cases st) (auto simp: refines_stmt_def refines_expr_def tracks_def)
    then show ?thesis using True by (simp add: keep_right)
  next
    case False
    then show ?thesis using follows_then [OF st Cons.IH] Cons.prems by simp
  qed
qed

lemma follows_stmts_tail:
  "(\<And>st. st \<in> set ss \<Longrightarrow> refines_stmt E st) \<Longrightarrow> follows (flows (map flow_stmt ss)) s (walk_stmts_tail E ss r h s)"
proof (induction ss arbitrary: s)
  case Nil then show ?case by (simp add: tracks_follows)
next
  case (Cons st ss)
  have rest: "follows (flows (map flow_stmt ss)) s' (walk_stmts_tail E ss r h s')" for s'
    using Cons.IH Cons.prems by simp
  have st: "follows (flow_stmt st) s (walk_stmt E st r s)" using Cons.prems by (simp add: refines_stmt_def)
  have one: "follows (flow_expr e) s (check_return_position e k r s1)" "follows (flow_expr e) s s1"
    if "refines_expr E e" "walk_expr E e s = (k, s1)" for e k s1
    using tracks_keep [OF refines_exprD [OF that] quiet_return] refines_exprD [OF that] by (auto intro: tracks_follows)
  show ?case
  proof (cases "(\<exists>e. st = SExpr e) \<or> (\<exists>v sp. st = SReturn (Some v) sp)")
    case True
    then obtain e where e: "refines_expr E e" "flow_stmt st = flow_expr e" "(\<exists>sp. st = SReturn (Some e) sp) \<or> st = SExpr e"
      using Cons.prems [of st] by (auto simp: refines_stmt_def)
    obtain k s1 where w: "walk_expr E e s = (k, s1)" by (rule prod.exhaust)
    show ?thesis using e(2,3) w follows_then [OF one(1) [OF e(1) w] rest] follows_then [OF one(2) [OF e(1) w] rest] by auto
  next
    case False
    then show ?thesis using follows_then [OF st rest] by (auto split: stmt.split option.split)
  qed
qed

lemma refines_blockI:
  assumes "\<And>st. st \<in> set ss \<Longrightarrow> refines_stmt E st"
  shows "refines_block E (Block ss i sp)"
  using tracks_scope [OF follows_stmts_value [OF assms]] tracks_scope [OF follows_stmts_tail [OF assms]]
  by (auto simp: refines_block_def split: prod.split) (metis snd_conv)

lemma walk_arms_tracks:
  assumes "\<And>a. a \<in> set arms \<Longrightarrow> refines_arm E a" "shape s = shape s0" "ps_capture s = ps_capture s0"
    "walk_arms E (consumed_snapshot s0) arms out st s = (out', st', s')"
  shows "shape s' = shape s0 \<and> ps_capture s' = ps_capture s0 \<and> length (ps_diags s) \<le> length (ps_diags s')
    \<and> (\<exists>new. st' = st @ new \<and> (length (ps_diags s') = length (ps_diags s) \<longrightarrow>
         those (map (\<lambda>f. f (ps_capture s0) (marks_of s0)) (map flow_arm arms)) = Some (map snap_marks new)))"
  using assms
proof (induction arms arbitrary: out st s)
  case (Cons a arms)
  obtain p e sp where a: "a = Arm p e sp" by (cases a)
  define s1 where "s1 = consumed_restore (consumed_snapshot s0) s"
  obtain k s2 where w: "walk_expr E e (bind_pattern p (push_scope s1)) = (k, s2)" by (rule prod.exhaust)
  have t: "tracks (flow_arm a) s1 (pop_scope s2)" using Cons.prems(1) [of a] w by (auto simp: a refines_arm_def dest: spec [of _ s1])
  have s1: "shape s1 = shape s0" "ps_capture s1 = ps_capture s0" "ps_diags s1 = ps_diags s" "marks_of s1 = marks_of s0"
    using Cons.prems(2,3) by (simp_all add: s1_def restore_marks)
  have rest: "walk_arms E (consumed_snapshot s0) arms (join_arm out k) (st @ [consumed_snapshot (pop_scope s2)]) (pop_scope s2) = (out', st', s')"
    using Cons.prems(4) w by (simp add: a s1_def)
  have p: "shape (pop_scope s2) = shape s0" "ps_capture (pop_scope s2) = ps_capture s0"
    using t s1 by (simp_all add: tracks_def follows_def)
  have IH: "shape s' = shape s0 \<and> ps_capture s' = ps_capture s0 \<and> length (ps_diags (pop_scope s2)) \<le> length (ps_diags s')
    \<and> (\<exists>new. st' = (st @ [consumed_snapshot (pop_scope s2)]) @ new \<and> (length (ps_diags s') = length (ps_diags (pop_scope s2)) \<longrightarrow>
         those (map (\<lambda>f. f (ps_capture s0) (marks_of s0)) (map flow_arm arms)) = Some (map snap_marks new)))"
    by (rule Cons.IH [OF _ p rest]) (simp add: Cons.prems(1))
  then obtain new where new: "st' = st @ [consumed_snapshot (pop_scope s2)] @ new"
    "length (ps_diags s') = length (ps_diags (pop_scope s2)) \<longrightarrow>
         those (map (\<lambda>f. f (ps_capture s0) (marks_of s0)) (map flow_arm arms)) = Some (map snap_marks new)" by auto
  have le: "length (ps_diags s) \<le> length (ps_diags (pop_scope s2))" using t s1 by (simp add: tracks_def follows_def)
  have "those (map (\<lambda>f. f (ps_capture s0) (marks_of s0)) (map flow_arm (a # arms)))
      = Some (map snap_marks (consumed_snapshot (pop_scope s2) # new))" if q: "length (ps_diags s') = length (ps_diags s)"
  proof -
    have "length (ps_diags (pop_scope s2)) = length (ps_diags s)" "length (ps_diags s') = length (ps_diags (pop_scope s2))"
      using q le IH by auto
    then have "flow_arm a (ps_capture s0) (marks_of s0) = Some (marks_of (pop_scope s2))"
      "those (map (\<lambda>f. f (ps_capture s0) (marks_of s0)) (map flow_arm arms)) = Some (map snap_marks new)"
      using t s1 new(2) by (auto simp: tracks_def follows_def)
    then show ?thesis by (simp add: del: marks_of_pop)
  qed
  then show ?case using IH le new(1) by (intro conjI exI [of _ "consumed_snapshot (pop_scope s2) # new"]) auto
qed auto

lemma arms_joined:
  assumes "\<And>a. a \<in> set arms \<Longrightarrow> refines_arm E a" "walk_arms E (consumed_snapshot s) arms None [] s = (out, st, s')"
  shows "tracks (arms_flow (map flow_arm arms)) s (fold consumed_join st (consumed_restore (consumed_snapshot s) s'))"
  using walk_arms_tracks [OF assms(1) refl refl assms(2)]
  by (auto simp: tracks_def follows_def arms_flow_def joins_marks_of restore_marks)

lemma branches_joined:
  assumes "tracks f s s1" "tracks g (consumed_restore (consumed_snapshot s) s1) s2"
  shows "tracks (branch_flow f g) s (consumed_join (consumed_snapshot s1) s2)"
  using assms by (auto simp: tracks_def follows_def branch_flow_def restore_marks)

lemma pattern_follows: "follows (flows (map bind_flow (pattern_names p))) s (bind_pattern p s)"
  unfolding bind_pattern_def
  using follows_binds [of "pattern_names p" "\<lambda>_. plain_binding None None" "\<lambda>n. n"] by (simp add: plain_binding_def)

lemma params_follow: "follows (flows (map bind_flow (param_names ps))) s (bind_params ps s)"
  unfolding bind_params_def param_names_def
  using follows_binds [of ps "\<lambda>p. plain_binding (written_rcap (p_ty p)) None" "\<lambda>p. id_name (p_name p)"]
  by (simp add: plain_binding_def comp_def)

lemma tracks_capture:
  assumes "tracks f (s\<lparr>ps_capture := Some (length (ps_scopes s))\<rparr>) s'"
  shows "tracks (capture_flow f) s (s'\<lparr>ps_capture := ps_capture s\<rparr>)"
  using assms by (auto simp: tracks_def follows_def capture_flow_def marks_of_def scope_marks_def shape_def)

lemma tracks_recover:
  "tracks f (s\<lparr>ps_recover := r\<rparr>) s' \<Longrightarrow> tracks f s (s'\<lparr>ps_recover := q\<rparr>)"
  by (auto simp: tracks_def follows_def marks_of_def shape_def)

lemma walk_var_refines: "refines_expr E (EVar p i sp)"
  using tracks_walk_var by (auto simp: refines_expr_def split: list.split)

lemma composite_refines:
  assumes "\<And>e. e \<in> set es \<Longrightarrow> refines_expr E e"
  shows "refines_expr E (EList es i sp)"
proof -
  have "tracks (flows (map flow_expr es)) s (fold escape_arg es s1)" if "walk_all E es s = (ks, s1)" for s ks s1
    by (rule tracks_keep [OF walk_all_tracks [OF assms that]]) (auto intro: quiet_fold quiet_escape)
  then show ?thesis by (auto simp: refines_expr_def split: prod.split)
qed

lemma call_refines:
  assumes c: "refines_expr E c" and es: "\<And>e. e \<in> set es \<Longrightarrow> refines_expr E e"
  shows "refines_expr E (ECall c es i sp)"
  unfolding refines_expr_def
proof
  fix s
  obtain k s1 where w: "walk_expr E c s = (k, s1)" by (rule prod.exhaust)
  have t: "tracks (flow_expr c) s s1" by (rule refines_exprD [OF c w])
  obtain ks s2 where args: "walk_args E es s1 = (ks, s2)" by (rule prod.exhaust)
  obtain ks' s3 where all: "walk_all E es s1 = (ks', s3)" by (rule prod.exhaust)
  have plain: "tracks (flow_expr (ECall c es i sp)) s (snd (call_result E e c es ks s2))" for e
    using tracks_then [OF t tracks_keep [OF walk_args_tracks [OF es args] quiet_call]] by simp
  have pure: "tracks (flow_expr (ECall c es i sp)) s s3"
    using tracks_then [OF t walk_all_tracks [OF es all]] by simp
  have push: "tracks (flow_expr (ECall c es i sp)) s (snd (walk_expr E (ECall c es i sp) s))"
    if b: "builtin_of E c = Some BuiltinPush"
  proof (cases es)
    case Nil
    then show ?thesis using b w t by (simp add: keep_right)
  next
    case (Cons a as)
    obtain rk s4 where a: "walk_expr E a s1 = (rk, s4)" by (rule prod.exhaust)
    define s5 where "s5 = (if is_list E a then require_writable rk (expr_span a) ToPush (lift_of_expr a s4) s4 else s4)"
    obtain ks s6 where as: "walk_args E as s5 = (ks, s6)" by (rule prod.exhaust)
    have "tracks (flow_expr a) s1 s4" by (rule refines_exprD [OF _ a]) (simp add: es Cons)
    then have "tracks (flow_expr a) s1 s5" by (auto simp: s5_def intro: then_writable)
    moreover have "tracks (flows (map flow_expr as)) s5 s6" by (rule walk_args_tracks [OF _ as]) (simp add: es Cons)
    ultimately have "tracks (then_flow (flow_expr c) (then_flow (flow_expr a) (flows (map flow_expr as)))) s s6"
      using t by (blast intro: tracks_then)
    then show ?thesis using b w a as by (simp add: Cons s5_def [symmetric] Let_def)
  qed
  show "tracks (flow_expr (ECall c es i sp)) s (snd (walk_expr E (ECall c es i sp) s))"
  proof (cases "builtin_of E c")
    case None
    then show ?thesis using plain w args by simp
  next
    case (Some b)
    then show ?thesis using push pure w all by (cases b) simp_all
  qed
qed

lemma method_refines:
  assumes r: "refines_expr E r" and es: "\<And>e. e \<in> set es \<Longrightarrow> refines_expr E e"
  shows "refines_expr E (EMethod r m es i sp)"
  unfolding refines_expr_def
proof
  fix s
  obtain k s1 where w: "walk_expr E r s = (k, s1)" by (rule prod.exhaust)
  obtain ks s2 where args: "walk_args E es s1 = (ks, s2)" by (rule prod.exhaust)
  show "tracks (flow_expr (EMethod r m es i sp)) s (snd (walk_expr E (EMethod r m es i sp) s))"
    using tracks_then [OF refines_exprD [OF r w] tracks_keep [OF walk_args_tracks [OF es args] quiet_method]] w args by simp
qed

lemma if_refines:
  assumes c: "refines_expr E c" and t: "refines_block E t" and e: "\<And>e'. e = Some e' \<Longrightarrow> refines_expr E e'"
  shows "refines_expr E (EIf c t e i sp)"
  unfolding refines_expr_def
proof
  fix s
  obtain k s1 where w: "walk_expr E c s = (k, s1)" by (rule prod.exhaust)
  obtain a s2 where wt: "walk_block_value E t s1 = (a, s2)" by (rule prod.exhaust)
  obtain b s3 where we: "(case e of Some e' \<Rightarrow> walk_expr E e' (consumed_restore (consumed_snapshot s1) s2)
                                  | None \<Rightarrow> (KKnown Val, consumed_restore (consumed_snapshot s1) s2)) = (b, s3)"
    by (rule prod.exhaust)
  have "tracks (flow_block t) s1 s2" using t wt by (metis refines_block_def snd_conv)
  moreover have "tracks (case map_option flow_expr e of Some f \<Rightarrow> f | None \<Rightarrow> keep) (consumed_restore (consumed_snapshot s1) s2) s3"
    using we e by (cases e) (auto intro: refines_exprD)
  ultimately show "tracks (flow_expr (EIf c t e i sp)) s (snd (walk_expr E (EIf c t e i sp) s))"
    using tracks_then [OF refines_exprD [OF c w] branches_joined] w wt we by simp
qed

lemma match_refines:
  assumes e: "refines_expr E e" and arms: "\<And>a. a \<in> set arms \<Longrightarrow> refines_arm E a"
  shows "refines_expr E (EMatch e arms i sp)"
  unfolding refines_expr_def
proof
  fix s
  obtain k s1 where w: "walk_expr E e s = (k, s1)" by (rule prod.exhaust)
  obtain out st s2 where wa: "walk_arms E (consumed_snapshot s1) arms None [] s1 = (out, st, s2)" by (rule prod_cases3)
  show "tracks (flow_expr (EMatch e arms i sp)) s (snd (walk_expr E (EMatch e arms i sp) s))"
    using tracks_then [OF refines_exprD [OF e w] arms_joined [OF arms wa]] w wa by simp
qed

lemma lambda_refines:
  assumes b: "refines_block E b"
  shows "refines_expr E (ELambda ps rt row b i sp)"
  unfolding refines_expr_def
proof
  fix s
  obtain im s1 where c: "capture_names E (snd (free_vars_block b (fset_of_list (param_names ps)) [])) True s = (im, s1)"
    by (rule prod.exhaust)
  have q: "tracks keep s s1" using quiet_captures by (metis c snd_conv)
  then have cap: "ps_capture s1 = ps_capture s" by (simp add: tracks_def follows_def)
  define s2 where "s2 = bind_params ps (push_scope (s1\<lparr>ps_capture := Some (length (ps_scopes s1))\<rparr>))"
  have "follows (then_flow (flows (map bind_flow (param_names ps))) (flow_block b))
      (push_scope (s1\<lparr>ps_capture := Some (length (ps_scopes s1))\<rparr>)) (walk_block_with_tail E b None False s2)"
    using b unfolding s2_def refines_block_def by (intro follows_then [OF params_follow] tracks_follows) blast
  from tracks_capture [OF tracks_scope [OF this]]
  show "tracks (flow_expr (ELambda ps rt row b i sp)) s (snd (walk_expr E (ELambda ps rt row b i sp) s))"
    using keep_tracks [OF q] c cap by (simp add: s2_def Let_def)
qed

lemma stmt_refines_simps:
  "refines_expr E e \<Longrightarrow> refines_stmt E (SLet x te e m sp)"
  "refines_expr E e \<Longrightarrow> refines_indices E t \<Longrightarrow> refines_stmt E (SAssign t e sp)"
  "refines_expr E e \<Longrightarrow> refines_block E b \<Longrightarrow> refines_stmt E (SWhile e b sp)"
  "refines_expr E e \<Longrightarrow> refines_block E b \<Longrightarrow> refines_stmt E (SFor x e b sp)"
  "refines_expr E e \<Longrightarrow> refines_stmt E (SExpr e)"
  "(\<And>e. v = Some e \<Longrightarrow> refines_expr E e) \<Longrightarrow> refines_stmt E (SReturn v sp)"
  "refines_stmt E (SBreak sp)" "refines_stmt E (SContinue sp)"
proof -
  have step: "follows (then_flow (flow_expr e) g) s s2"
    if e: "refines_expr E e" "walk_expr E e s = (k, s1)" and g: "follows g s1 s2" for g s s1 s2 k e
    by (rule follows_then [OF tracks_follows [OF refines_exprD [OF e]] g])
  show "refines_expr E e \<Longrightarrow> refines_stmt E (SLet x te e m sp)"
    by (auto simp: refines_stmt_def split: prod.split intro: step follows_let)
  show "refines_stmt E (SAssign t e sp)" if e: "refines_expr E e" and t: "refines_indices E t"
  proof -
    have "follows (flow_stmt (SAssign t e sp)) s (check_write E t k sp s2)"
      if "walk_expr E e s = (k, s1)" "walk_all E (index_exprs t) (escape_arg e s1) = (ks, s2)" for s s1 s2 k ks
    proof -
      have i: "tracks (flow_indices t) (escape_arg e s1) s2" using t that(2) by (metis refines_indices_def snd_conv)
      show ?thesis
        using tracks_then [OF tracks_keep [OF refines_exprD [OF e that(1)] quiet_escape] tracks_then [OF i tracks_write]]
        by (simp add: tracks_def)
    qed
    then show ?thesis by (auto simp: refines_stmt_def split: prod.split)
  qed
  show "refines_stmt E (SWhile e b sp)" if e: "refines_expr E e" and b: "refines_block E b"
  proof -
    have "follows (then_flow (carried b) (flow_block b)) s (walk_block_with_tail E b None False (carry_consumed (consumed_free_names b) s))" for s
      by (rule tracks_follows [OF tracks_then [OF tracks_carried]]) (use b in \<open>simp add: refines_block_def\<close>)
    then show ?thesis using e by (auto simp: refines_stmt_def split: prod.split intro: step)
  qed
  show "refines_stmt E (SFor x e b sp)" if e: "refines_expr E e" and b: "refines_block E b"
  proof -
    have "follows (then_flow (bind_flow (id_name x)) (flow_block b)) s
        (walk_block_with_tail E b None False (bind_name (id_name x) (for_binding E e) s))" for s
      using b by (intro follows_then [OF follows_bind [of "for_binding E e"]] tracks_follows)
        (simp_all add: for_binding_def plain_binding_def refines_block_def Let_def)
    then have "follows (then_flow (carried b) (scope_flow (then_flow (bind_flow (id_name x)) (flow_block b)))) s
        (pop_scope (walk_block_with_tail E b None False (bind_name (id_name x) (for_binding E e)
          (push_scope (carry_consumed (consumed_free_names b) s)))))" for s
      by (rule tracks_follows [OF tracks_then [OF tracks_carried tracks_scope]])
    then show ?thesis using e by (auto simp: refines_stmt_def split: prod.split intro: step)
  qed
  show "refines_expr E e \<Longrightarrow> refines_stmt E (SExpr e)"
    by (auto simp: refines_stmt_def split: prod.split intro: refines_exprD tracks_follows)
  show "refines_stmt E (SReturn v sp)" if v: "\<And>e. v = Some e \<Longrightarrow> refines_expr E e"
  proof (cases v)
    case None
    then show ?thesis by (simp add: refines_stmt_def tracks_follows)
  next
    case (Some e)
    have "follows (flow_expr e) s (check_return_position e k r s1)" if "walk_expr E e s = (k, s1)" for s s1 k r
      using tracks_keep [OF refines_exprD [OF v [OF Some] that] quiet_return] by (rule tracks_follows)
    then show ?thesis using v Some by (auto simp: refines_stmt_def split: prod.split)
  qed
  show "refines_stmt E (SBreak sp)" "refines_stmt E (SContinue sp)" by (simp_all add: refines_stmt_def tracks_follows)
qed

lemma walk_all_append:
  "walk_all E (es @ fs) s = (case walk_all E es s of (ks, s1) \<Rightarrow> (case walk_all E fs s1 of (ks', s2) \<Rightarrow> (ks @ ks', s2)))"
  by (induction es arbitrary: s) (simp_all split: prod.split)

lemma indices_refines:
  "refines_indices E (LVar x)"
  "refines_indices E b \<Longrightarrow> refines_indices E (LField b x)"
  "refines_indices E b \<Longrightarrow> refines_expr E e \<Longrightarrow> refines_indices E (LIndex b e)"
proof -
  show "refines_indices E (LIndex b e)" if b: "refines_indices E b" and e: "refines_expr E e"
    unfolding refines_indices_def
  proof
    fix s
    obtain ks s1 where w: "walk_all E (index_exprs b) s = (ks, s1)" by (rule prod.exhaust)
    obtain k s2 where we: "walk_expr E e s1 = (k, s2)" by (rule prod.exhaust)
    have "tracks (flow_indices b) s s1" using b w by (metis refines_indices_def snd_conv)
    from tracks_then [OF this refines_exprD [OF e we]]
    show "tracks (flow_indices (LIndex b e)) s (snd (walk_all E (index_exprs (LIndex b e)) s))"
      using w we by (simp add: walk_all_append)
  qed
qed (simp_all add: refines_indices_def)

lemma spawn_refines:
  "(\<And>e. e \<in> set es \<Longrightarrow> refines_expr E e) \<Longrightarrow> refines_expr E (ESpawn p es i sp)"
  by (auto simp: refines_expr_def [of E "ESpawn p es i sp"] split: prod.split
      intro: tracks_keep [OF walk_args_tracks quiet_spawn])

lemma record_refines:
  "(\<And>f. f \<in> set fs \<Longrightarrow> refines_expr E (snd f)) \<Longrightarrow> refines_expr E (ERecord p fs i sp)"
  by (auto simp: refines_expr_def [of E "ERecord p fs i sp"] simp del: map_map split: prod.split intro!: walk_fields_tracks)

lemma simple_refines:
  "refines_expr E (ELit l i sp)"
  "refines_expr E e \<Longrightarrow> refines_expr E (EField e x i sp)"
  "refines_expr E e \<Longrightarrow> refines_expr E j \<Longrightarrow> refines_expr E (EIndex e j i sp)"
  "refines_expr E e \<Longrightarrow> refines_expr E (EUnary u e i sp)"
  "refines_expr E e \<Longrightarrow> refines_expr E j \<Longrightarrow> refines_expr E (EBinary o2 e j i sp)"
  "refines_expr E e \<Longrightarrow> refines_expr E (ETry e i sp)"
  "refines_block E b \<Longrightarrow> refines_expr E (EBlock b)"
  "refines_expr E (EConsume x i sp)"
  "refines_block E b \<Longrightarrow> refines_expr E (ERecover k b i sp)"
proof -
  show "refines_expr E (EConsume x i sp)"
    using tracks_consume [of "id_name x"] by (auto simp: refines_expr_def split: prod.split) (metis snd_conv)
  show "refines_block E b \<Longrightarrow> refines_expr E (ERecover k b i sp)"
    by (auto simp: refines_expr_def refines_block_def split: prod.split) (metis snd_conv tracks_recover)
  show "refines_expr E e \<Longrightarrow> refines_expr E (EField e x i sp)"
    by (auto simp: refines_expr_def [of E "EField e x i sp"] split: prod.split
        intro: tracks_keep [OF refines_exprD quiet_field])
  show "refines_expr E e \<Longrightarrow> refines_expr E j \<Longrightarrow> refines_expr E (EIndex e j i sp)"
    by (auto simp: refines_expr_def [of E "EIndex e j i sp"] split: prod.split intro: tracks_then refines_exprD)
  show "refines_expr E e \<Longrightarrow> refines_expr E j \<Longrightarrow> refines_expr E (EBinary o2 e j i sp)"
    by (auto simp: refines_expr_def [of E "EBinary o2 e j i sp"] split: prod.split intro: tracks_then refines_exprD)
  show "refines_expr E e \<Longrightarrow> refines_expr E (EUnary u e i sp)"
    by (auto simp: refines_expr_def [of E "EUnary u e i sp"] split: prod.split intro: refines_exprD)
  show "refines_expr E e \<Longrightarrow> refines_expr E (ETry e i sp)"
    by (auto simp: refines_expr_def [of E "ETry e i sp"] split: prod.split intro: refines_exprD)
qed (simp_all add: refines_expr_def refines_block_def)

lemma arm_refines: "refines_expr E e \<Longrightarrow> refines_arm E (Arm p e sp)"
  by (simp add: refines_arm_def refines_expr_def tracks_scope follows_then [OF pattern_follows] tracks_follows)

lemma walk_refines_flow:
  "refines_expr E e" "refines_block E b" "refines_stmt E st" "refines_indices E t" "refines_arm E a"
proof (induction e and b and st and t and a rule: expr.induct block.induct stmt.induct lvalue.induct arm.induct)
  case (ERecord p fs i sp)
  then show ?case by (intro record_refines) (metis snds.intros)
qed (auto intro!: simple_refines walk_var_refines composite_refines call_refines method_refines if_refines match_refines
     lambda_refines spawn_refines refines_blockI stmt_refines_simps indices_refines arm_refines)

end
