(* ===== verification/Name_Sets.thy ===== *)
theory Name_Sets imports Free_Names begin

text \<open>
  What the two walks of \<open>Free_Names\<close> compute, said without their set of bound names: the names that occur free, and those
  that are consumed free.
\<close>

text \<open>A statement is a function from the names of what follows it in its block to the names of both.\<close>

primrec fv_expr :: "expr \<Rightarrow> string set"
  and fv_block :: "block \<Rightarrow> string set"
  and fv_stmt :: "stmt \<Rightarrow> string set \<Rightarrow> string set"
  and fv_lvalue :: "lvalue \<Rightarrow> string set"
  and fv_arm :: "arm \<Rightarrow> string set" where
  "fv_expr (ELit l i sp) = {}"
| "fv_expr (EVar p i sp) = (case p of [x] \<Rightarrow> {id_name x} | _ \<Rightarrow> {})"
| "fv_expr (EList es i sp) = \<Union> (set (map fv_expr es))"
| "fv_expr (ERecord p fs i sp) = \<Union> (set (map snd (map (map_prod id fv_expr) fs)))"
| "fv_expr (ECall c es i sp) = fv_expr c \<union> \<Union> (set (map fv_expr es))"
| "fv_expr (EMethod r m es i sp) = fv_expr r \<union> \<Union> (set (map fv_expr es))"
| "fv_expr (EField r x i sp) = fv_expr r"
| "fv_expr (EIndex r j i sp) = fv_expr r \<union> fv_expr j"
| "fv_expr (EUnary op e i sp) = fv_expr e"
| "fv_expr (EBinary op l r i sp) = fv_expr l \<union> fv_expr r"
| "fv_expr (EIf c t e i sp) = fv_expr c \<union> fv_block t \<union> (case map_option fv_expr e of Some X \<Rightarrow> X | None \<Rightarrow> {})"
| "fv_expr (EMatch e arms i sp) = fv_expr e \<union> \<Union> (set (map fv_arm arms))"
| "fv_expr (ELambda ps rt row b i sp) = fv_block b - set (param_names ps)"
| "fv_expr (ETry e i sp) = fv_expr e"
| "fv_expr (EBlock b) = fv_block b"
| "fv_expr (ESpawn p es i sp) = \<Union> (set (map fv_expr es))"
| "fv_expr (EConsume x i sp) = {id_name x}"
| "fv_expr (ERecover k b i sp) = fv_block b"
| "fv_block (Block ss i sp) = foldr (\<lambda>f R. f R) (map fv_stmt ss) {}"
| "fv_stmt (SLet x t e m sp) = (\<lambda>R. fv_expr e \<union> (R - {id_name x}))"
| "fv_stmt (SAssign t e sp) = (\<lambda>R. fv_lvalue t \<union> fv_expr e \<union> R)"
| "fv_stmt (SWhile c b sp) = (\<lambda>R. fv_expr c \<union> fv_block b \<union> R)"
| "fv_stmt (SFor x e b sp) = (\<lambda>R. fv_expr e \<union> (fv_block b - {id_name x}) \<union> R)"
| "fv_stmt (SBreak sp) = (\<lambda>R. R)"
| "fv_stmt (SContinue sp) = (\<lambda>R. R)"
| "fv_stmt (SReturn v sp) = (\<lambda>R. (case map_option fv_expr v of Some X \<Rightarrow> X | None \<Rightarrow> {}) \<union> R)"
| "fv_stmt (SExpr e) = (\<lambda>R. fv_expr e \<union> R)"
| "fv_lvalue (LVar x) = {id_name x}"
| "fv_lvalue (LField b x) = fv_lvalue b"
| "fv_lvalue (LIndex b e) = fv_lvalue b \<union> fv_expr e"
| "fv_arm (Arm p e sp) = fv_expr e - set (pattern_names p)"

primrec eaten_expr :: "expr \<Rightarrow> string set"
  and eaten_block :: "block \<Rightarrow> string set"
  and eaten_stmt :: "stmt \<Rightarrow> string set \<Rightarrow> string set"
  and eaten_lvalue :: "lvalue \<Rightarrow> string set"
  and eaten_arm :: "arm \<Rightarrow> string set" where
  "eaten_expr (ELit l i sp) = {}"
| "eaten_expr (EVar p i sp) = {}"
| "eaten_expr (EList es i sp) = \<Union> (set (map eaten_expr es))"
| "eaten_expr (ERecord p fs i sp) = \<Union> (set (map snd (map (map_prod id eaten_expr) fs)))"
| "eaten_expr (ECall c es i sp) = eaten_expr c \<union> \<Union> (set (map eaten_expr es))"
| "eaten_expr (EMethod r m es i sp) = eaten_expr r \<union> \<Union> (set (map eaten_expr es))"
| "eaten_expr (EField r x i sp) = eaten_expr r"
| "eaten_expr (EIndex r j i sp) = eaten_expr r \<union> eaten_expr j"
| "eaten_expr (EUnary op e i sp) = eaten_expr e"
| "eaten_expr (EBinary op l r i sp) = eaten_expr l \<union> eaten_expr r"
| "eaten_expr (EIf c t e i sp) =
     eaten_expr c \<union> eaten_block t \<union> (case map_option eaten_expr e of Some X \<Rightarrow> X | None \<Rightarrow> {})"
| "eaten_expr (EMatch e arms i sp) = eaten_expr e \<union> \<Union> (set (map eaten_arm arms))"
| "eaten_expr (ELambda ps rt row b i sp) = {}"
| "eaten_expr (ETry e i sp) = eaten_expr e"
| "eaten_expr (EBlock b) = eaten_block b"
| "eaten_expr (ESpawn p es i sp) = \<Union> (set (map eaten_expr es))"
| "eaten_expr (EConsume x i sp) = {id_name x}"
| "eaten_expr (ERecover k b i sp) = eaten_block b"
| "eaten_block (Block ss i sp) = foldr (\<lambda>f R. f R) (map eaten_stmt ss) {}"
| "eaten_stmt (SLet x t e m sp) = (\<lambda>R. eaten_expr e \<union> (R - {id_name x}))"
| "eaten_stmt (SAssign t e sp) = (\<lambda>R. eaten_expr e \<union> eaten_lvalue t \<union> R)"
| "eaten_stmt (SWhile c b sp) = (\<lambda>R. eaten_expr c \<union> eaten_block b \<union> R)"
| "eaten_stmt (SFor x e b sp) = (\<lambda>R. eaten_expr e \<union> (eaten_block b - {id_name x}) \<union> R)"
| "eaten_stmt (SBreak sp) = (\<lambda>R. R)"
| "eaten_stmt (SContinue sp) = (\<lambda>R. R)"
| "eaten_stmt (SReturn v sp) = (\<lambda>R. (case map_option eaten_expr v of Some X \<Rightarrow> X | None \<Rightarrow> {}) \<union> R)"
| "eaten_stmt (SExpr e) = (\<lambda>R. eaten_expr e \<union> R)"
| "eaten_lvalue (LVar x) = {}"
| "eaten_lvalue (LField b x) = eaten_lvalue b"
| "eaten_lvalue (LIndex b e) = eaten_lvalue b \<union> eaten_expr e"
| "eaten_arm (Arm p e sp) = eaten_expr e - set (pattern_names p)"

abbreviation names_of :: "(string set \<Rightarrow> string set) list \<Rightarrow> string set" where
  "names_of fs \<equiv> foldr (\<lambda>f R. f R) fs {}"

section \<open>The set of bound names\<close>

lemma insert_new_spec:
  "insert_new ns bound = (b, new) \<Longrightarrow> fset b = fset bound \<union> set ns \<and> set new = set ns - fset bound"
proof (induction ns arbitrary: bound b new)
  case (Cons n ns)
  show ?case
  proof (cases "n |\<in>| bound")
    case True
    then show ?thesis using Cons.IH [of bound b new] Cons.prems by auto
  next
    case False
    obtain b1 new1 where i: "insert_new ns (finsert n bound) = (b1, new1)" by (rule prod.exhaust)
    show ?thesis using Cons.IH [OF i] Cons.prems False i by auto
  qed
qed simp

lemma fset_remove_names: "fset (remove_names ns bound) = fset bound - set ns"
  by (induction ns arbitrary: bound) (auto simp: remove_names_def)

lemma removed_back:
  assumes "insert_new ns bound = (b, new)"
  shows "remove_names new b = bound"
  using insert_new_spec [OF assms] by (auto simp: fset_remove_names simp flip: fset_inject)

text \<open>A walk finds the names \<open>X\<close>, in which those that are bound do not count, and leaves what is bound as it was.\<close>

definition finds :: "('n \<Rightarrow> string) \<Rightarrow> (string fset \<Rightarrow> 'n list \<Rightarrow> string fset \<times> 'n list) \<Rightarrow> string set \<Rightarrow> bool" where
  "finds key w X \<longleftrightarrow> (\<forall>bound out. \<exists>l. w bound out = (bound, out @ l) \<and> key ` set l = X - fset bound)"

lemma findsD: "finds key w X \<Longrightarrow> w bound out = (b, o1) \<Longrightarrow> \<exists>l. b = bound \<and> o1 = out @ l \<and> key ` set l = X - fset bound"
  by (metis finds_def prod.inject)

lemma finds_none: "finds key (\<lambda>bound out. (bound, out)) {}" by (simp add: finds_def)

lemma finds_name: "finds key (\<lambda>bound out. (bound, if key x |\<in>| bound then out else out @ [x])) {key x}"
  by (auto simp: finds_def)

lemma finds_then:
  assumes "finds key w X" "finds key v Y"
  shows "finds key (\<lambda>bound out. case w bound out of (b, o1) \<Rightarrow> v b o1) (X \<union> Y)"
  unfolding finds_def
proof (intro allI)
  fix bound out
  obtain l where l: "w bound out = (bound, out @ l)" "key ` set l = X - fset bound" using assms(1) by (metis finds_def)
  obtain k where "v bound (out @ l) = (bound, (out @ l) @ k)" "key ` set k = Y - fset bound" using assms(2) by (metis finds_def)
  then show "\<exists>l. (case w bound out of (b, o1) \<Rightarrow> v b o1) = (bound, out @ l) \<and> key ` set l = X \<union> Y - fset bound"
    using l by (intro exI [of _ "l @ k"]) auto
qed

lemma finds_under:
  assumes "finds key w X"
  shows "finds key (\<lambda>bound out. case insert_new ns bound of (b, new) \<Rightarrow>
    (case w b out of (b2, o1) \<Rightarrow> (remove_names new b2, o1))) (X - set ns)"
  unfolding finds_def
proof (intro allI)
  fix bound out
  obtain b new where i: "insert_new ns bound = (b, new)" by (rule prod.exhaust)
  obtain l where "w b out = (b, out @ l)" "key ` set l = X - fset b" using assms by (metis finds_def)
  then show "\<exists>l. (case insert_new ns bound of (b, new) \<Rightarrow> (case w b out of (b2, o1) \<Rightarrow> (remove_names new b2, o1)))
      = (bound, out @ l) \<and> key ` set l = X - set ns - fset bound"
    using i removed_back [OF i] insert_new_spec [OF i] by auto
qed

text \<open>A block's statements: at its end the names that it added to the set are taken out.\<close>

definition finds_seq ::
    "('n \<Rightarrow> string) \<Rightarrow> (string fset \<Rightarrow> 'n list \<Rightarrow> string list \<Rightarrow> string fset \<times> 'n list) \<Rightarrow> string set \<Rightarrow> bool" where
  "finds_seq key w X \<longleftrightarrow>
     (\<forall>bound out added. \<exists>l. w bound out added = (remove_names added bound, out @ l) \<and> key ` set l = X - fset bound)"

lemma finds_seq_nil: "finds_seq key (\<lambda>bound out added. (remove_names added bound, out)) {}" by (simp add: finds_seq_def)

lemma finds_seq_block: "finds_seq key w X \<Longrightarrow> finds key (\<lambda>bound out. w bound out []) X"
  unfolding finds_seq_def finds_def by (metis fold_simps(1) remove_names_def)

lemma finds_seq_then:
  assumes "finds key w X" "finds_seq key v Y"
  shows "finds_seq key (\<lambda>bound out added. case w bound out of (b, o1) \<Rightarrow> v b o1 added) (X \<union> Y)"
  unfolding finds_seq_def
proof (intro allI)
  fix bound out added
  obtain l where l: "w bound out = (bound, out @ l)" "key ` set l = X - fset bound" using assms(1) by (metis finds_def)
  obtain k where "v bound (out @ l) added = (remove_names added bound, (out @ l) @ k)" "key ` set k = Y - fset bound"
    using assms(2) by (metis finds_seq_def)
  then show "\<exists>l. (case w bound out of (b, o1) \<Rightarrow> v b o1 added) = (remove_names added bound, out @ l) \<and>
      key ` set l = X \<union> Y - fset bound"
    using l by (intro exI [of _ "l @ k"]) auto
qed

lemma finds_seq_let:
  assumes "finds_seq key v Y"
  shows "finds_seq key (\<lambda>bound out added. case insert_new ns bound of (b, new) \<Rightarrow> v b out (added @ new)) (Y - set ns)"
  unfolding finds_seq_def
proof (intro allI)
  fix bound out added
  obtain b new where i: "insert_new ns bound = (b, new)" by (rule prod.exhaust)
  obtain k where k: "v b out (added @ new) = (remove_names (added @ new) b, out @ k)" "key ` set k = Y - fset b"
    using assms by (metis finds_seq_def)
  have "remove_names (added @ new) b = remove_names added bound"
    using insert_new_spec [OF i] by (auto simp: fset_remove_names simp flip: fset_inject)
  then show "\<exists>l. (case insert_new ns bound of (b, new) \<Rightarrow> v b out (added @ new)) = (remove_names added bound, out @ l) \<and>
      key ` set l = Y - set ns - fset bound"
    using i k insert_new_spec [OF i] by auto
qed

lemma finds_by: "finds key w X \<Longrightarrow> (\<And>b o1. w' b o1 = w b o1) \<Longrightarrow> X' = X \<Longrightarrow> finds key w' X'"
  by (simp add: finds_def)

lemma finds_seq_by: "finds_seq key w X \<Longrightarrow> (\<And>b o1 a. w' b o1 a = w b o1 a) \<Longrightarrow> X' = X \<Longrightarrow> finds_seq key w' X'"
  by (simp add: finds_seq_def)

section \<open>Names consumed free\<close>

abbreviation eats :: "(string fset \<Rightarrow> (string \<times> span) list \<Rightarrow> string fset \<times> (string \<times> span) list) \<Rightarrow> string set \<Rightarrow> bool" where
  "eats \<equiv> finds fst"

definition eats_stmt :: "stmt \<Rightarrow> bool" where
  "eats_stmt st \<longleftrightarrow>
     (\<forall>ss. finds_seq fst (consumed_stmts ss) (names_of (map eaten_stmt ss)) \<longrightarrow>
           finds_seq fst (consumed_stmts (st # ss)) (names_of (map eaten_stmt (st # ss))))"

lemma eats_exprs:
  "(\<And>e. e \<in> set es \<Longrightarrow> eats (consumed_expr e) (eaten_expr e)) \<Longrightarrow> eats (consumed_exprs es) (\<Union> (set (map eaten_expr es)))"
proof (induction es)
  case Nil show ?case by (rule finds_by [OF finds_none]) simp_all
next
  case (Cons e es)
  show ?case by (rule finds_by [OF finds_then [OF Cons.prems [of e] Cons.IH]]) (simp_all add: Cons.prems)
qed

lemma eats_fields:
  "(\<And>f. f \<in> set fs \<Longrightarrow> eats (consumed_expr (snd f)) (eaten_expr (snd f))) \<Longrightarrow>
   eats (consumed_fields fs) (\<Union> (set (map snd (map (map_prod id eaten_expr) fs))))"
proof (induction fs)
  case Nil show ?case by (rule finds_by [OF finds_none]) simp_all
next
  case (Cons f fs)
  show ?case by (rule finds_by [OF finds_then [OF Cons.prems [of f] Cons.IH]]) (simp_all add: Cons.prems)
qed

definition eats_arm :: "arm \<Rightarrow> bool" where
  "eats_arm a \<longleftrightarrow> (case a of Arm p e sp \<Rightarrow> eats (consumed_expr e) (eaten_expr e))"

lemma eats_arms:
  "(\<And>a. a \<in> set arms \<Longrightarrow> eats_arm a) \<Longrightarrow> eats (consumed_arms arms) (\<Union> (set (map eaten_arm arms)))"
proof (induction arms)
  case Nil show ?case by (rule finds_by [OF finds_none]) simp_all
next
  case (Cons a arms)
  obtain p e sp where a: "a = Arm p e sp" by (cases a)
  have e: "eats (consumed_expr e) (eaten_expr e)" using Cons.prems [of a] by (simp add: a eats_arm_def)
  show ?case
    by (rule finds_by [OF finds_then [OF finds_under [OF e, of "pattern_names p"] Cons.IH]])
       (simp_all add: Cons.prems a split: prod.split)
qed

lemma eats_stmts:
  "(\<And>st. st \<in> set ss \<Longrightarrow> eats_stmt st) \<Longrightarrow> finds_seq fst (consumed_stmts ss) (names_of (map eaten_stmt ss))"
proof (induction ss)
  case Nil show ?case by (rule finds_seq_by [OF finds_seq_nil]) simp_all
next
  case (Cons st ss)
  have "eats_stmt st" "finds_seq fst (consumed_stmts ss) (names_of (map eaten_stmt ss))"
    using Cons.prems by (auto intro: Cons.IH)
  then show ?case unfolding eats_stmt_def by blast
qed

lemma eats_block:
  assumes "\<And>st. st \<in> set ss \<Longrightarrow> eats_stmt st"
  shows "eats (consumed_block (Block ss i sp)) (eaten_block (Block ss i sp))"
  by (rule finds_by [OF finds_seq_block [OF eats_stmts [OF assms]]]) simp_all

lemma eats_stmt_simps:
  "eats (consumed_expr e) (eaten_expr e) \<Longrightarrow> eats_stmt (SLet x te e m sp)"
  "eats (consumed_indices t) (eaten_lvalue t) \<Longrightarrow> eats (consumed_expr e) (eaten_expr e) \<Longrightarrow> eats_stmt (SAssign t e sp)"
  "eats (consumed_expr e) (eaten_expr e) \<Longrightarrow> eats (consumed_block b) (eaten_block b) \<Longrightarrow> eats_stmt (SWhile e b sp)"
  "eats (consumed_expr e) (eaten_expr e) \<Longrightarrow> eats (consumed_block b) (eaten_block b) \<Longrightarrow> eats_stmt (SFor x e b sp)"
  "eats_stmt (SBreak sp)" "eats_stmt (SContinue sp)"
  "(\<And>e. e \<in> set_option v \<Longrightarrow> eats (consumed_expr e) (eaten_expr e)) \<Longrightarrow> eats_stmt (SReturn v sp)"
  "eats (consumed_expr e) (eaten_expr e) \<Longrightarrow> eats_stmt (SExpr e)"
proof -
  assume e: "eats (consumed_expr e) (eaten_expr e)"
  show "eats_stmt (SExpr e)" unfolding eats_stmt_def
    by (intro allI impI, rule finds_seq_by [OF finds_seq_then [OF e]]) (assumption, simp_all)
  show "eats_stmt (SLet x te e m sp)" unfolding eats_stmt_def
  proof (intro allI impI)
    fix ss assume ss: "finds_seq fst (consumed_stmts ss) (names_of (map eaten_stmt ss))"
    show "finds_seq fst (consumed_stmts (SLet x te e m sp # ss)) (names_of (map eaten_stmt (SLet x te e m sp # ss)))"
      by (rule finds_seq_by [OF finds_seq_then [OF e finds_seq_let [OF ss, of "[id_name x]"]]])
         (simp_all del: insert_new.simps)
  qed
next
  assume b: "eats (consumed_block b) (eaten_block b)" and e: "eats (consumed_expr e) (eaten_expr e)"
  show "eats_stmt (SWhile e b sp)" unfolding eats_stmt_def
  proof (intro allI impI)
    fix ss assume ss: "finds_seq fst (consumed_stmts ss) (names_of (map eaten_stmt ss))"
    show "finds_seq fst (consumed_stmts (SWhile e b sp # ss)) (names_of (map eaten_stmt (SWhile e b sp # ss)))"
      by (rule finds_seq_by [OF finds_seq_then [OF e finds_seq_then [OF b ss]]]) auto
  qed
  show "eats_stmt (SFor x e b sp)" unfolding eats_stmt_def
  proof (intro allI impI)
    fix ss assume ss: "finds_seq fst (consumed_stmts ss) (names_of (map eaten_stmt ss))"
    show "finds_seq fst (consumed_stmts (SFor x e b sp # ss)) (names_of (map eaten_stmt (SFor x e b sp # ss)))"
      by (rule finds_seq_by [OF finds_seq_then [OF e finds_seq_then [OF finds_under [OF b, of "[id_name x]"] ss]]])
         (auto simp del: insert_new.simps split: prod.split)
  qed
next
  assume t: "eats (consumed_indices t) (eaten_lvalue t)" and e: "eats (consumed_expr e) (eaten_expr e)"
  show "eats_stmt (SAssign t e sp)" unfolding eats_stmt_def
  proof (intro allI impI)
    fix ss assume ss: "finds_seq fst (consumed_stmts ss) (names_of (map eaten_stmt ss))"
    show "finds_seq fst (consumed_stmts (SAssign t e sp # ss)) (names_of (map eaten_stmt (SAssign t e sp # ss)))"
      by (rule finds_seq_by [OF finds_seq_then [OF e finds_seq_then [OF t ss]]]) auto
  qed
next
  show "eats_stmt (SBreak sp)" "eats_stmt (SContinue sp)"
    by (simp_all add: eats_stmt_def finds_seq_def)
next
  assume v: "\<And>e. e \<in> set_option v \<Longrightarrow> eats (consumed_expr e) (eaten_expr e)"
  show "eats_stmt (SReturn v sp)"
  proof (cases v)
    case None
    then show ?thesis by (simp add: eats_stmt_def finds_seq_def)
  next
    case (Some e)
    then have e: "eats (consumed_expr e) (eaten_expr e)" using v by simp
    show ?thesis unfolding eats_stmt_def
      by (intro allI impI, rule finds_seq_by [OF finds_seq_then [OF e]]) (assumption, simp_all add: Some)
  qed
qed

lemma eats_all:
  "eats (consumed_expr e) (eaten_expr e)" "eats (consumed_block b) (eaten_block b)" "eats_stmt st"
  "eats (consumed_indices t) (eaten_lvalue t)" "eats_arm a"
proof (induction e and b and st and t and a rule: expr.induct block.induct stmt.induct lvalue.induct arm.induct)
  case (EList es i sp) show ?case by (rule finds_by [OF eats_exprs [OF EList]]) simp_all
next
  case (ERecord p fs i sp)
  have "eats (consumed_expr (snd f)) (eaten_expr (snd f))" if "f \<in> set fs" for f
    using ERecord [OF that] by (metis snds.intros)
  from finds_by [OF eats_fields [OF this]] show ?case by (simp del: map_map)
next
  case (ECall c es i sp) show ?case by (rule finds_by [OF finds_then [OF ECall(1) eats_exprs [OF ECall(2)]]]) simp_all
next
  case (EMethod r m es i sp) show ?case by (rule finds_by [OF finds_then [OF EMethod(1) eats_exprs [OF EMethod(2)]]]) simp_all
next
  case (EIndex r j i sp) show ?case by (rule finds_by [OF finds_then [OF EIndex]]) simp_all
next
  case (EBinary op l r i sp) show ?case by (rule finds_by [OF finds_then [OF EBinary]]) simp_all
next
  case (EIf c t e i sp)
  show ?case
  proof (cases e)
    case None
    show ?thesis by (rule finds_by [OF finds_then [OF EIf(1,2)]]) (simp_all add: None)
  next
    case (Some e')
    then have "eats (consumed_expr e') (eaten_expr e')" using EIf(3) by simp
    then show ?thesis by (rule finds_by [OF finds_then [OF EIf(1) finds_then [OF EIf(2)]]]) (auto simp: Some)
  qed
next
  case (EMatch e arms i sp) show ?case by (rule finds_by [OF finds_then [OF EMatch(1) eats_arms [OF EMatch(2)]]]) simp_all
next
  case (ELambda ps rt row b i sp) show ?case by (rule finds_by [OF finds_none]) simp_all
next
  case (ESpawn p es i sp) show ?case by (rule finds_by [OF eats_exprs [OF ESpawn]]) simp_all
next
  case (EConsume x i sp)
  show ?case by (rule finds_by [OF finds_name [of fst "(id_name x, sp)"]]) simp_all
next
  case (Block ss i sp) then show ?case by (intro eats_block)
next
  case (LIndex b e) show ?case by (rule finds_by [OF finds_then [OF LIndex]]) simp_all
qed (auto intro: finds_by [OF finds_none] eats_stmt_simps simp: eats_arm_def finds_def)

lemma consumed_free_names_spec: "set (map fst (consumed_free_names b)) = eaten_block b"
proof -
  obtain l where "consumed_block b {||} [] = ({||}, [] @ l)" "fst ` set l = eaten_block b - fset {||}"
    using eats_all(2) [of b] by (metis finds_def)
  then show ?thesis by (simp add: consumed_free_names_def)
qed

section \<open>Free variables\<close>

abbreviation frees :: "(string fset \<Rightarrow> string list \<Rightarrow> string fset \<times> string list) \<Rightarrow> string set \<Rightarrow> bool" where
  "frees \<equiv> finds (\<lambda>n. n)"

definition frees_stmt :: "stmt \<Rightarrow> bool" where
  "frees_stmt st \<longleftrightarrow>
     (\<forall>ss. finds_seq (\<lambda>n. n) (free_vars_stmts ss) (names_of (map fv_stmt ss)) \<longrightarrow>
           finds_seq (\<lambda>n. n) (free_vars_stmts (st # ss)) (names_of (map fv_stmt (st # ss))))"

lemma frees_exprs:
  "(\<And>e. e \<in> set es \<Longrightarrow> frees (free_vars_expr e) (fv_expr e)) \<Longrightarrow> frees (free_vars_exprs es) (\<Union> (set (map fv_expr es)))"
proof (induction es)
  case Nil show ?case by (rule finds_by [OF finds_none]) simp_all
next
  case (Cons e es)
  show ?case by (rule finds_by [OF finds_then [OF Cons.prems [of e] Cons.IH]]) (simp_all add: Cons.prems)
qed

lemma frees_fields:
  "(\<And>f. f \<in> set fs \<Longrightarrow> frees (free_vars_expr (snd f)) (fv_expr (snd f))) \<Longrightarrow>
   frees (free_vars_fields fs) (\<Union> (set (map snd (map (map_prod id fv_expr) fs))))"
proof (induction fs)
  case Nil show ?case by (rule finds_by [OF finds_none]) simp_all
next
  case (Cons f fs)
  show ?case by (rule finds_by [OF finds_then [OF Cons.prems [of f] Cons.IH]]) (simp_all add: Cons.prems)
qed

definition frees_arm :: "arm \<Rightarrow> bool" where
  "frees_arm a \<longleftrightarrow> (case a of Arm p e sp \<Rightarrow> frees (free_vars_expr e) (fv_expr e))"

lemma frees_arms:
  "(\<And>a. a \<in> set arms \<Longrightarrow> frees_arm a) \<Longrightarrow> frees (free_vars_arms arms) (\<Union> (set (map fv_arm arms)))"
proof (induction arms)
  case Nil show ?case by (rule finds_by [OF finds_none]) simp_all
next
  case (Cons a arms)
  obtain p e sp where a: "a = Arm p e sp" by (cases a)
  have e: "frees (free_vars_expr e) (fv_expr e)" using Cons.prems [of a] by (simp add: a frees_arm_def)
  show ?case
    by (rule finds_by [OF finds_then [OF finds_under [OF e, of "pattern_names p"] Cons.IH]])
       (simp_all add: Cons.prems a split: prod.split)
qed

lemma frees_stmts:
  "(\<And>st. st \<in> set ss \<Longrightarrow> frees_stmt st) \<Longrightarrow> finds_seq (\<lambda>n. n) (free_vars_stmts ss) (names_of (map fv_stmt ss))"
proof (induction ss)
  case Nil show ?case by (rule finds_seq_by [OF finds_seq_nil]) simp_all
next
  case (Cons st ss)
  have "frees_stmt st" "finds_seq (\<lambda>n. n) (free_vars_stmts ss) (names_of (map fv_stmt ss))"
    using Cons.prems by (auto intro: Cons.IH)
  then show ?case unfolding frees_stmt_def by blast
qed

lemma frees_block:
  assumes "\<And>st. st \<in> set ss \<Longrightarrow> frees_stmt st"
  shows "frees (free_vars_block (Block ss i sp)) (fv_block (Block ss i sp))"
  by (rule finds_by [OF finds_seq_block [OF frees_stmts [OF assms]]]) simp_all

lemma frees_stmt_simps:
  "frees (free_vars_expr e) (fv_expr e) \<Longrightarrow> frees_stmt (SLet x te e m sp)"
  "frees (free_vars_lvalue t) (fv_lvalue t) \<Longrightarrow> frees (free_vars_expr e) (fv_expr e) \<Longrightarrow> frees_stmt (SAssign t e sp)"
  "frees (free_vars_expr e) (fv_expr e) \<Longrightarrow> frees (free_vars_block b) (fv_block b) \<Longrightarrow> frees_stmt (SWhile e b sp)"
  "frees (free_vars_expr e) (fv_expr e) \<Longrightarrow> frees (free_vars_block b) (fv_block b) \<Longrightarrow> frees_stmt (SFor x e b sp)"
  "frees_stmt (SBreak sp)" "frees_stmt (SContinue sp)"
  "(\<And>e. e \<in> set_option v \<Longrightarrow> frees (free_vars_expr e) (fv_expr e)) \<Longrightarrow> frees_stmt (SReturn v sp)"
  "frees (free_vars_expr e) (fv_expr e) \<Longrightarrow> frees_stmt (SExpr e)"
proof -
  assume e: "frees (free_vars_expr e) (fv_expr e)"
  show "frees_stmt (SExpr e)" unfolding frees_stmt_def
    by (intro allI impI, rule finds_seq_by [OF finds_seq_then [OF e]]) (assumption, simp_all)
  show "frees_stmt (SLet x te e m sp)" unfolding frees_stmt_def
  proof (intro allI impI)
    fix ss assume ss: "finds_seq (\<lambda>n. n) (free_vars_stmts ss) (names_of (map fv_stmt ss))"
    show "finds_seq (\<lambda>n. n) (free_vars_stmts (SLet x te e m sp # ss)) (names_of (map fv_stmt (SLet x te e m sp # ss)))"
      by (rule finds_seq_by [OF finds_seq_then [OF e finds_seq_let [OF ss, of "[id_name x]"]]])
         (simp_all del: insert_new.simps)
  qed
next
  assume b: "frees (free_vars_block b) (fv_block b)" and e: "frees (free_vars_expr e) (fv_expr e)"
  show "frees_stmt (SWhile e b sp)" unfolding frees_stmt_def
  proof (intro allI impI)
    fix ss assume ss: "finds_seq (\<lambda>n. n) (free_vars_stmts ss) (names_of (map fv_stmt ss))"
    show "finds_seq (\<lambda>n. n) (free_vars_stmts (SWhile e b sp # ss)) (names_of (map fv_stmt (SWhile e b sp # ss)))"
      by (rule finds_seq_by [OF finds_seq_then [OF e finds_seq_then [OF b ss]]]) auto
  qed
  show "frees_stmt (SFor x e b sp)" unfolding frees_stmt_def
  proof (intro allI impI)
    fix ss assume ss: "finds_seq (\<lambda>n. n) (free_vars_stmts ss) (names_of (map fv_stmt ss))"
    show "finds_seq (\<lambda>n. n) (free_vars_stmts (SFor x e b sp # ss)) (names_of (map fv_stmt (SFor x e b sp # ss)))"
      by (rule finds_seq_by [OF finds_seq_then [OF e finds_seq_then [OF finds_under [OF b, of "[id_name x]"] ss]]])
         (auto simp del: insert_new.simps split: prod.split)
  qed
next
  assume t: "frees (free_vars_lvalue t) (fv_lvalue t)" and e: "frees (free_vars_expr e) (fv_expr e)"
  show "frees_stmt (SAssign t e sp)" unfolding frees_stmt_def
  proof (intro allI impI)
    fix ss assume ss: "finds_seq (\<lambda>n. n) (free_vars_stmts ss) (names_of (map fv_stmt ss))"
    show "finds_seq (\<lambda>n. n) (free_vars_stmts (SAssign t e sp # ss)) (names_of (map fv_stmt (SAssign t e sp # ss)))"
      by (rule finds_seq_by [OF finds_seq_then [OF t finds_seq_then [OF e ss]]]) auto
  qed
next
  show "frees_stmt (SBreak sp)" "frees_stmt (SContinue sp)"
    by (simp_all add: frees_stmt_def finds_seq_def)
next
  assume v: "\<And>e. e \<in> set_option v \<Longrightarrow> frees (free_vars_expr e) (fv_expr e)"
  show "frees_stmt (SReturn v sp)"
  proof (cases v)
    case None
    then show ?thesis by (simp add: frees_stmt_def finds_seq_def)
  next
    case (Some e)
    then have e: "frees (free_vars_expr e) (fv_expr e)" using v by simp
    show ?thesis unfolding frees_stmt_def
      by (intro allI impI, rule finds_seq_by [OF finds_seq_then [OF e]]) (assumption, simp_all add: Some)
  qed
qed

lemma frees_all:
  "frees (free_vars_expr e) (fv_expr e)" "frees (free_vars_block b) (fv_block b)" "frees_stmt st"
  "frees (free_vars_lvalue t) (fv_lvalue t)" "frees_arm a"
proof (induction e and b and st and t and a rule: expr.induct block.induct stmt.induct lvalue.induct arm.induct)
  case (EList es i sp) show ?case by (rule finds_by [OF frees_exprs [OF EList]]) simp_all
next
  case (ERecord p fs i sp)
  have "frees (free_vars_expr (snd f)) (fv_expr (snd f))" if "f \<in> set fs" for f
    using ERecord [OF that] by (metis snds.intros)
  from finds_by [OF frees_fields [OF this]] show ?case by (simp del: map_map)
next
  case (ECall c es i sp) show ?case by (rule finds_by [OF finds_then [OF ECall(1) frees_exprs [OF ECall(2)]]]) simp_all
next
  case (EMethod r m es i sp) show ?case by (rule finds_by [OF finds_then [OF EMethod(1) frees_exprs [OF EMethod(2)]]]) simp_all
next
  case (EIndex r j i sp) show ?case by (rule finds_by [OF finds_then [OF EIndex]]) simp_all
next
  case (EBinary op l r i sp) show ?case by (rule finds_by [OF finds_then [OF EBinary]]) simp_all
next
  case (EIf c t e i sp)
  show ?case
  proof (cases e)
    case None
    show ?thesis by (rule finds_by [OF finds_then [OF EIf(1,2)]]) (simp_all add: None)
  next
    case (Some e')
    then have "frees (free_vars_expr e') (fv_expr e')" using EIf(3) by simp
    then show ?thesis by (rule finds_by [OF finds_then [OF EIf(1) finds_then [OF EIf(2)]]]) (auto simp: Some)
  qed
next
  case (EMatch e arms i sp) show ?case by (rule finds_by [OF finds_then [OF EMatch(1) frees_arms [OF EMatch(2)]]]) simp_all
next
  case (ELambda ps rt row b i sp) show ?case by (rule finds_by [OF finds_under [OF ELambda]]) simp_all
next
  case (ESpawn p es i sp) show ?case by (rule finds_by [OF frees_exprs [OF ESpawn]]) simp_all
next
  case (EConsume x i sp)
  show ?case by (rule finds_by [OF finds_name [of "\<lambda>n. n" "id_name x"]]) simp_all
next
  case (Block ss i sp) then show ?case by (intro frees_block)
next
  case (LIndex b e) show ?case by (rule finds_by [OF finds_then [OF LIndex]]) simp_all
next
  case (EVar p i sp)
  show ?case
  proof (cases "\<exists>x. p = [x]")
    case True
    then obtain x where "p = [x]" by blast
    then show ?thesis by (intro finds_by [OF finds_name [of "\<lambda>n. n" "id_name x"]]) simp_all
  next
    case False
    then show ?thesis by (intro finds_by [OF finds_none]) (auto split: list.split)
  qed
next
  case (LVar x)
  show ?case by (rule finds_by [OF finds_name [of "\<lambda>n. n" "id_name x"]]) simp_all
qed (auto intro: finds_by [OF finds_none] frees_stmt_simps simp: frees_arm_def finds_def)

lemma captures_spec:
  "set (closure_captures ps body) = fv_block body - set (param_names ps)" "distinct (closure_captures ps body)"
proof -
  obtain l where "free_vars_block body (fset_of_list (param_names ps)) [] = (fset_of_list (param_names ps), [] @ l)"
    "(\<lambda>n. n) ` set l = fv_block body - fset (fset_of_list (param_names ps))"
    using frees_all(2) [of body] by (metis finds_def)
  then show "set (closure_captures ps body) = fv_block body - set (param_names ps)"
    by (simp add: closure_captures_def fset_of_list.rep_eq)
qed (simp add: closure_captures_def)

end
