(* ===== verification/Rcap_Runs.thy ===== *)
theory Rcap_Runs imports Rcap_Flow Name_Sets begin

text \<open>
  How runs change what is dead, and how the analysis does: a run kills only names that its code consumes free; code that
  assigns no name of \<open>C\<close> never lets the analysis take a name of \<open>C\<close> back.
\<close>

section \<open>What a run kills\<close>

text \<open>Nothing but names of \<open>X\<close> dies, and each only in the innermost scope that binds it.\<close>

fun kills :: "string set \<Rightarrow> marks \<Rightarrow> marks \<Rightarrow> bool" where
  "kills X [] [] \<longleftrightarrow> True"
| "kills X (m # ms) (m' # ms') \<longleftrightarrow>
     dom m' = dom m \<and> (\<forall>x. m' x = Some True \<longrightarrow> m x = Some True \<or> x \<in> X) \<and> kills (X - dom m) ms ms'"
| "kills X _ _ \<longleftrightarrow> False"

text \<open>The same for statements, which may bind in the innermost scope.\<close>

fun kills_under :: "string set \<Rightarrow> marks \<Rightarrow> marks \<Rightarrow> bool" where
  "kills_under X [] [] \<longleftrightarrow> True"
| "kills_under X (m # ms) (m' # ms') \<longleftrightarrow> dom m \<subseteq> dom m' \<and> kills (X - dom m) ms ms'"
| "kills_under X _ _ \<longleftrightarrow> False"

lemma kills_mono: "kills X a b \<Longrightarrow> X \<subseteq> Y \<Longrightarrow> kills Y a b"
proof (induction X a b arbitrary: Y rule: kills.induct)
  case (2 X m ms m' ms')
  have "X - dom m \<subseteq> Y - dom m" using 2(3) by blast
  then show ?case using 2 by auto
qed auto

lemma kills_refl [simp]: "kills X a a" by (induction a arbitrary: X) auto

lemma kills_trans: "kills X a b \<Longrightarrow> kills Y b c \<Longrightarrow> kills (X \<union> Y) a c"
proof (induction X a b arbitrary: Y c rule: kills.induct)
  case (2 X m ms m' ms')
  obtain m2 ms2 where c: "c = m2 # ms2" using 2(3) by (cases c) auto
  have "kills ((X - dom m) \<union> (Y - dom m')) ms ms2" using 2 c by simp
  then have "kills ((X \<union> Y) - dom m) ms ms2" by (rule kills_mono) (use 2(2) in auto)
  then show ?case using 2(2,3) c by auto
qed (auto elim: kills.elims)

lemma kills_nil_iff [simp]: "kills X [] b \<longleftrightarrow> b = []" "kills X a [] \<longleftrightarrow> a = []"
  by (cases b; simp) (cases a; simp)

lemma kills_under_nil_iff [simp]: "kills_under X [] b \<longleftrightarrow> b = []" by (cases b) simp_all

lemma kills_kills_under: "kills X a b \<Longrightarrow> kills_under X a b"
  by (cases a; cases b) auto

lemma kills_under_mono: "kills_under X a b \<Longrightarrow> X \<subseteq> Y \<Longrightarrow> kills_under Y a b"
  by (cases a; cases b) (auto elim: kills_mono)

lemma kills_under_trans:
  assumes "kills X a b" "kills_under Y b c"
  shows "kills_under (X \<union> Y) a c"
proof (cases a; cases b; cases c)
  fix m ms m1 ms1 m2 ms2
  assume [simp]: "a = m # ms" "b = m1 # ms1" "c = m2 # ms2"
  have "kills ((X - dom m) \<union> (Y - dom m1)) ms ms2" using assms by (auto intro: kills_trans)
  then have "kills ((X \<union> Y) - dom m) ms ms2" by (rule kills_mono) (use assms in auto)
  then show ?thesis using assms by auto
qed (use assms in auto)

lemma kills_set_true: "kills {x} ms (set_mark x True ms)"
proof (induction ms)
  case (Cons m ms)
  have "{x} - dom m = (if m x = None then {x} else {})" by auto
  then show ?case using Cons by (auto simp: insert_absorb domIff)
qed simp

lemma kills_set_false: "kills X ms (set_mark x False ms)"
  by (induction ms arbitrary: X) (auto simp: insert_absorb domIff)

text \<open>Runs, and the runs of statements before what follows them in their block.\<close>

definition killing :: "string set \<Rightarrow> runs \<Rightarrow> bool" where
  "killing X A \<longleftrightarrow> (\<forall>t r a b. (t, r) \<in> A \<longrightarrow> run_events t a = Some b \<longrightarrow> kills X a b)"

definition killing_under :: "string set \<Rightarrow> runs \<Rightarrow> bool" where
  "killing_under X A \<longleftrightarrow> (\<forall>t r a b. (t, r) \<in> A \<longrightarrow> run_events t a = Some b \<longrightarrow> kills_under X a b)"

definition killing_before :: "(string set \<Rightarrow> string set) \<Rightarrow> runs \<Rightarrow> bool" where
  "killing_before F A \<longleftrightarrow> (\<forall>R B. killing_under R B \<longrightarrow> killing_under (F R) (followed_by A B))"

lemma killingD: "killing X A \<Longrightarrow> (t, r) \<in> A \<Longrightarrow> run_events t a = Some b \<Longrightarrow> kills X a b"
  by (simp add: killing_def) blast

lemma killing_underD: "killing_under X A \<Longrightarrow> (t, r) \<in> A \<Longrightarrow> run_events t a = Some b \<Longrightarrow> kills_under X a b"
  by (simp add: killing_under_def) blast

lemma followed_byE:
  assumes "(t, r) \<in> followed_by A B" "run_events t a = Some b"
  obtains (first) "(t, r) \<in> A" "r \<noteq> Done"
        | (both) u v c where "t = u @ v" "(u, Done) \<in> A" "run_events u a = Some c" "(v, r) \<in> B" "run_events v c = Some b"
  using assms by (auto simp: followed_by_def run_events_append bind_eq_Some_conv)

lemma killing_nothing: "killing {} nothing" by (simp add: killing_def nothing_def)

lemma killing_leaving: "killing {} (leaving r)" by (simp add: killing_def leaving_def)

lemma killing_use: "killing {} (one (EvUse x))" by (simp add: killing_def one_def)

lemma killing_consume: "killing {x} (one (EvConsume x))" by (auto simp: killing_def one_def kills_set_true)

lemma killing_target: "killing {} (one (target_event t))"
  by (cases t) (auto simp: killing_def one_def target_event_def kills_set_false split: if_splits)

lemma killing_mono: "killing X A \<Longrightarrow> X \<subseteq> Y \<Longrightarrow> killing Y A" by (auto simp: killing_def intro: kills_mono)

lemma killing_then:
  assumes "killing X A" "killing Y B"
  shows "killing (X \<union> Y) (followed_by A B)"
  unfolding killing_def
proof (intro allI impI)
  fix t r a b
  assume t: "(t, r) \<in> followed_by A B" "run_events t a = Some b"
  from t show "kills (X \<union> Y) a b"
  proof (cases rule: followed_byE)
    case first
    then show ?thesis using kills_mono [OF killingD [OF assms(1) first(1) t(2)]] by blast
  next
    case (both u v c)
    then show ?thesis using kills_trans killingD assms by blast
  qed
qed

lemma killing_union: "killing X A \<Longrightarrow> killing Y B \<Longrightarrow> killing (X \<union> Y) (A \<union> B)"
  by (auto simp: killing_def) (metis Un_upper1 kills_mono, metis Un_upper2 kills_mono)

lemma killing_Union: "(\<And>x. x \<in> S \<Longrightarrow> killing (g x) (f x)) \<Longrightarrow> killing (\<Union> (g ` S)) (\<Union> (f ` S))"
  by (auto simp: killing_def) (metis UN_upper kills_mono)

lemma killing_in_turn: "(\<And>x. x \<in> set xs \<Longrightarrow> killing (g x) (f x)) \<Longrightarrow> killing (\<Union> (g ` set xs)) (in_turn (map f xs))"
proof (induction xs)
  case Nil then show ?case by (simp add: in_turn_def killing_nothing)
next
  case (Cons x xs)
  then show ?case using killing_then [of "g x" "f x"] by (auto simp: in_turn_def)
qed

lemma killing_scope: "killing_under X A \<Longrightarrow> killing X (in_scope A)"
proof -
  assume A: "killing_under X A"
  have "kills X a (tl b)" if "(t, r) \<in> A" "run_events t (Map.empty # a) = Some b" for t r a b
    using A that by (cases b) (auto simp: killing_under_def dest!: spec)
  then show ?thesis by (auto simp: killing_def in_scope_def run_events_append bind_eq_Some_conv)
qed

lemma killing_looping:
  assumes "killing X A" "killing Y B"
  shows "killing (X \<union> Y) (looping A B)"
proof -
  have "run_events t a = Some b \<Longrightarrow> kills (X \<union> Y) a b" if "(t, r) \<in> looping A B" for t r a b
    using that
  proof (induction arbitrary: a b rule: looping.induct)
    case (ends t r)
    then show ?case using kills_mono [OF killingD [OF assms(1) ends]] by blast
  next
    case (again t u r v q)
    obtain c d where r: "run_events t a = Some c" "run_events u c = Some d" "run_events v d = Some b"
      using again.prems by (auto simp: run_events_append bind_eq_Some_conv)
    have "kills X a c" "kills Y c d" "kills (X \<union> Y) d b"
      using killingD [OF assms(1) again(1) r(1)] killingD [OF assms(2) again(2) r(2)] again.IH [OF r(3)] by auto
    then have "kills ((X \<union> Y) \<union> (X \<union> Y)) a b" by (blast intro: kills_trans)
    then show ?case by simp
  next
    case (breaks t u)
    obtain c where r: "run_events t a = Some c" "run_events u c = Some b"
      using breaks.prems by (auto simp: run_events_append bind_eq_Some_conv)
    show ?case using kills_trans [OF killingD [OF assms(1) breaks(1) r(1)] killingD [OF assms(2) breaks(2) r(2)]] .
  next
    case (leaves t u)
    obtain c where r: "run_events t a = Some c" "run_events u c = Some b"
      using leaves.prems by (auto simp: run_events_append bind_eq_Some_conv)
    show ?case using kills_trans [OF killingD [OF assms(1) leaves(1) r(1)] killingD [OF assms(2) leaves(2) r(2)]] .
  qed
  then show ?thesis by (auto simp: killing_def)
qed

lemma killing_beforeI:
  assumes "killing X A"
  shows "killing_before (\<lambda>R. X \<union> R) A"
  unfolding killing_before_def
proof (intro allI impI)
  fix R B assume B: "killing_under R B"
  show "killing_under (X \<union> R) (followed_by A B)"
    unfolding killing_under_def
  proof (intro allI impI)
    fix t r a b
    assume t: "(t, r) \<in> followed_by A B" "run_events t a = Some b"
    from t show "kills_under (X \<union> R) a b"
    proof (cases rule: followed_byE)
      case first
      then show ?thesis using kills_under_mono [OF kills_kills_under [OF killingD [OF assms first(1) t(2)]]] by blast
    next
      case (both u v c)
      then show ?thesis using kills_under_trans killingD [OF assms] killing_underD [OF B] by blast
    qed
  qed
qed

lemma killing_bind: "killing_under R B \<Longrightarrow> killing_under (R - {x}) (followed_by (one (EvBind x)) B)"
  unfolding killing_under_def [of "R - {x}"]
proof (intro allI impI)
  fix t r a b
  assume B: "killing_under R B" and t: "(t, r) \<in> followed_by (one (EvBind x)) B" and run: "run_events t a = Some b"
  obtain v where v: "t = EvBind x # v" "(v, r) \<in> B" using t by (auto simp: followed_by_def one_def)
  then have "kills_under R (bind_mark x a) b" using killing_underD [OF B] run by auto
  then show "kills_under (R - {x}) a b"
  proof (cases a)
    case (Cons m ms)
    then obtain m' ms' where b: "b = m' # ms'" using \<open>kills_under R (bind_mark x a) b\<close> by (cases b) (auto simp: bind_mark_def)
    have "kills (R - insert x (dom m)) ms ms'" "insert x (dom m) \<subseteq> dom m'"
      using \<open>kills_under R (bind_mark x a) b\<close> by (auto simp: bind_mark_def Cons b)
    then show ?thesis by (auto simp: Cons b Diff_insert2 [symmetric] elim: back_subst [of "\<lambda>X. kills X ms ms'"])
  qed (auto simp: bind_mark_def)
qed

lemma followed_by_assoc: "followed_by (followed_by A B) C = followed_by A (followed_by B C)"
proof -
  have "p \<in> followed_by (followed_by A B) C \<longleftrightarrow> p \<in> followed_by A (followed_by B C)" for p
  proof (cases p)
    case (Pair t r)
    show ?thesis unfolding Pair followed_by_def
      by (auto, (metis append.assoc)+)
  qed
  then show ?thesis by blast
qed

lemma killing_let:
  assumes "killing X A"
  shows "killing_before (\<lambda>R. X \<union> (R - {x})) (followed_by A (one (EvBind x)))"
  using killing_beforeI [OF assms] killing_bind
  unfolding killing_before_def followed_by_assoc by blast

lemma killing_stmts:
  "(\<And>st. st \<in> set ss \<Longrightarrow> killing_before (F st) (g st)) \<Longrightarrow> killing_under (names_of (map F ss)) (in_turn (map g ss))"
proof (induction ss)
  case Nil then show ?case by (auto simp: in_turn_def killing_under_def nothing_def intro: kills_kills_under)
next
  case (Cons st ss)
  then show ?case by (auto simp: in_turn_def killing_before_def)
qed

lemma binds_in_turn: "killing_under R B \<Longrightarrow> killing_under (R - set ns) (followed_by (in_turn (map (\<lambda>x. one (EvBind x)) ns)) B)"
proof (induction ns)
  case Nil
  have "followed_by nothing B = B" by (auto simp: followed_by_def nothing_def)
  then show ?case using Nil by (simp add: in_turn_def)
next
  case (Cons n ns)
  have "killing_under (R - set ns - {n}) (followed_by (one (EvBind n)) (followed_by (in_turn (map (\<lambda>x. one (EvBind x)) ns)) B))"
    by (rule killing_bind [OF Cons.IH [OF Cons.prems]])
  moreover have "R - set ns - {n} = R - set (n # ns)" by auto
  ultimately show ?case by (simp add: in_turn_def followed_by_assoc)
qed

definition killing_arm :: "arm \<Rightarrow> bool" where
  "killing_arm a \<longleftrightarrow> killing (eaten_arm a) (runs_arm a)"

definition killing_stmt :: "stmt \<Rightarrow> bool" where
  "killing_stmt st \<longleftrightarrow> killing_before (eaten_stmt st) (runs_stmt st)"

lemma killing_bound:
  assumes "killing X A"
  shows "killing (X - set ns) (in_scope (followed_by (in_turn (map (\<lambda>x. one (EvBind x)) ns)) A))"
proof (rule killing_scope, rule binds_in_turn)
  show "killing_under X A" using killingD [OF assms] by (auto simp: killing_under_def intro: kills_kills_under)
qed

lemma killing_branch: "killing X A \<Longrightarrow> killing Y B \<Longrightarrow> killing Z D \<Longrightarrow> killing (X \<union> Y \<union> Z) (followed_by A (B \<union> D))"
  using killing_then [OF _ killing_union] by (simp add: Un_assoc)

lemma killing_all:
  "killing (eaten_expr e) (runs_expr e)" "killing (eaten_block b) (runs_block b)" "killing_stmt st"
  "killing (eaten_lvalue t) (runs_indices t)" "killing_arm a"
proof (induction e and b and st and t and a rule: expr.induct block.induct stmt.induct lvalue.induct arm.induct)
  case (EVar p i sp)
  show ?case by (auto simp: killing_nothing killing_use split: list.split)
next
  case (EList es i sp)
  then show ?case using killing_in_turn [of es eaten_expr runs_expr] by simp
next
  case (ERecord p fs i sp)
  have "killing (eaten_expr (snd f)) (runs_expr (snd f))" if "f \<in> set fs" for f
    using ERecord [OF that] by (metis snds.intros)
  then show ?case using killing_in_turn [of fs "\<lambda>f. eaten_expr (snd f)" "\<lambda>f. runs_expr (snd f)"] by (simp add: comp_def image_image)
next
  case (ECall c es i sp)
  then show ?case using killing_then killing_in_turn [of es eaten_expr runs_expr] by simp
next
  case (EMethod r m es i sp)
  then show ?case using killing_then killing_in_turn [of es eaten_expr runs_expr] by simp
next
  case (EBinary op l r i sp)
  then show ?case using killing_branch [OF _ _ killing_nothing] killing_then by auto
next
  case (EIf c t e i sp)
  have "killing (case map_option eaten_expr e of Some X \<Rightarrow> X | None \<Rightarrow> {})
      (case map_option runs_expr e of Some A \<Rightarrow> A | None \<Rightarrow> nothing)"
    using EIf(3) killing_nothing by (cases e) auto
  from killing_branch [OF EIf(1,2) this] show ?case by simp
next
  case (EMatch e arms i sp)
  then show ?case using killing_then [OF EMatch(1) killing_Union [of "set arms" eaten_arm runs_arm]] by (simp add: killing_arm_def)
next
  case (ETry e i sp)
  then show ?case using killing_branch [OF _ killing_nothing killing_leaving] by simp
next
  case (ESpawn p es i sp)
  then show ?case using killing_in_turn [of es eaten_expr runs_expr] by simp
next
  case (Block ss i sp)
  then show ?case using killing_scope [OF killing_stmts [of ss eaten_stmt runs_stmt]] by (simp add: killing_stmt_def)
next
  case (SLet x te e m sp)
  then show ?case using killing_let by (simp add: killing_stmt_def)
next
  case (SAssign t e sp)
  then show ?case using killing_beforeI [OF killing_then [OF SAssign(2) killing_then [OF SAssign(1) killing_target]]]
    by (simp add: killing_stmt_def Un_assoc)
next
  case (SWhile c b sp)
  then show ?case using killing_beforeI [OF killing_looping] by (simp add: killing_stmt_def Un_assoc)
next
  case (SFor x e b sp)
  have "killing (eaten_block b - {id_name x}) (in_scope (followed_by (one (EvBind (id_name x))) (runs_block b)))"
  proof (rule killing_scope, rule killing_bind)
    show "killing_under (eaten_block b) (runs_block b)"
      using killingD [OF SFor(2)] by (auto simp: killing_under_def intro: kills_kills_under)
  qed
  from killing_beforeI [OF killing_then [OF SFor(1) killing_looping [OF killing_nothing this]]]
  show ?case by (simp add: killing_stmt_def Un_assoc)
next
  case (SReturn v sp)
  have "killing (case map_option eaten_expr v of Some X \<Rightarrow> X | None \<Rightarrow> {})
      (case map_option runs_expr v of Some A \<Rightarrow> A | None \<Rightarrow> nothing)"
    using SReturn killing_nothing by (cases v) auto
  from killing_beforeI [OF killing_then [OF this killing_leaving]] show ?case by (simp add: killing_stmt_def)
next
  case (SBreak sp) show ?case using killing_beforeI [OF killing_leaving] by (simp add: killing_stmt_def)
next
  case (SContinue sp) show ?case using killing_beforeI [OF killing_leaving] by (simp add: killing_stmt_def)
next
  case (SExpr e) then show ?case using killing_beforeI by (simp add: killing_stmt_def)
next
  case (Arm p e sp) then show ?case using killing_bound by (simp add: killing_arm_def)
qed (auto simp: killing_nothing killing_consume intro: killing_then)

end
