(* ===== verification/Rcap_Tame.thy ===== *)
theory Rcap_Tame imports Rcap_Runs begin

text \<open>
  Where the analysis accepts a body, no run of it uses or consumes what is dead, provided the body is \<open>tame\<close> for a list
  \<open>C\<close> of names: everything consumed is of \<open>C\<close>; loop bodies, closures and right sides of a conjunction or disjunction
  assign no name of \<open>C\<close>; the condition of a loop consumes nothing.
\<close>

section \<open>Tame bodies\<close>

primrec assigned_expr :: "expr \<Rightarrow> string list"
  and assigned_block :: "block \<Rightarrow> string list"
  and assigned_stmt :: "stmt \<Rightarrow> string list"
  and assigned_lvalue :: "lvalue \<Rightarrow> string list"
  and assigned_arm :: "arm \<Rightarrow> string list" where
  "assigned_expr (ELit l i sp) = []"
| "assigned_expr (EVar p i sp) = []"
| "assigned_expr (EList es i sp) = concat (map assigned_expr es)"
| "assigned_expr (ERecord p fs i sp) = concat (map snd (map (map_prod id assigned_expr) fs))"
| "assigned_expr (ECall c es i sp) = assigned_expr c @ concat (map assigned_expr es)"
| "assigned_expr (EMethod r m es i sp) = assigned_expr r @ concat (map assigned_expr es)"
| "assigned_expr (EField r x i sp) = assigned_expr r"
| "assigned_expr (EIndex r j i sp) = assigned_expr r @ assigned_expr j"
| "assigned_expr (EUnary op e i sp) = assigned_expr e"
| "assigned_expr (EBinary op l r i sp) = assigned_expr l @ assigned_expr r"
| "assigned_expr (EIf c t e i sp) =
     assigned_expr c @ assigned_block t @ (case map_option assigned_expr e of Some xs \<Rightarrow> xs | None \<Rightarrow> [])"
| "assigned_expr (EMatch e arms i sp) = assigned_expr e @ concat (map assigned_arm arms)"
| "assigned_expr (ELambda ps rt row b i sp) = assigned_block b"
| "assigned_expr (ETry e i sp) = assigned_expr e"
| "assigned_expr (EBlock b) = assigned_block b"
| "assigned_expr (ESpawn p es i sp) = concat (map assigned_expr es)"
| "assigned_expr (EConsume x i sp) = []"
| "assigned_expr (ERecover k b i sp) = assigned_block b"
| "assigned_block (Block ss i sp) = concat (map assigned_stmt ss)"
| "assigned_stmt (SLet x t e m sp) = assigned_expr e"
| "assigned_stmt (SAssign t e sp) = (case t of LVar x \<Rightarrow> [id_name x] | _ \<Rightarrow> []) @ assigned_lvalue t @ assigned_expr e"
| "assigned_stmt (SWhile c b sp) = assigned_expr c @ assigned_block b"
| "assigned_stmt (SFor x e b sp) = assigned_expr e @ assigned_block b"
| "assigned_stmt (SBreak sp) = []"
| "assigned_stmt (SContinue sp) = []"
| "assigned_stmt (SReturn v sp) = (case map_option assigned_expr v of Some xs \<Rightarrow> xs | None \<Rightarrow> [])"
| "assigned_stmt (SExpr e) = assigned_expr e"
| "assigned_lvalue (LVar x) = []"
| "assigned_lvalue (LField b x) = assigned_lvalue b"
| "assigned_lvalue (LIndex b e) = assigned_lvalue b @ assigned_expr e"
| "assigned_arm (Arm p e sp) = assigned_expr e"

definition apart :: "string list \<Rightarrow> string list \<Rightarrow> bool" where "apart C xs \<longleftrightarrow> list_all (\<lambda>x. x \<notin> set C) xs"

primrec tame_expr :: "string list \<Rightarrow> expr \<Rightarrow> bool"
  and tame_block :: "string list \<Rightarrow> block \<Rightarrow> bool"
  and tame_stmt :: "string list \<Rightarrow> stmt \<Rightarrow> bool"
  and tame_lvalue :: "string list \<Rightarrow> lvalue \<Rightarrow> bool"
  and tame_arm :: "string list \<Rightarrow> arm \<Rightarrow> bool" where
  "tame_expr C (ELit l i sp) = True"
| "tame_expr C (EVar p i sp) = True"
| "tame_expr C (EList es i sp) = list_all (\<lambda>p. p) (map (tame_expr C) es)"
| "tame_expr C (ERecord p fs i sp) = list_all snd (map (map_prod id (tame_expr C)) fs)"
| "tame_expr C (ECall c es i sp) = (tame_expr C c \<and> list_all (\<lambda>p. p) (map (tame_expr C) es))"
| "tame_expr C (EMethod r m es i sp) = (tame_expr C r \<and> list_all (\<lambda>p. p) (map (tame_expr C) es))"
| "tame_expr C (EField r x i sp) = tame_expr C r"
| "tame_expr C (EIndex r j i sp) = (tame_expr C r \<and> tame_expr C j)"
| "tame_expr C (EUnary op e i sp) = tame_expr C e"
| "tame_expr C (EBinary op l r i sp) =
     (tame_expr C l \<and> tame_expr C r \<and> (op = OpAnd \<or> op = OpOr \<longrightarrow> apart C (assigned_expr r)))"
| "tame_expr C (EIf c t e i sp) =
     (tame_expr C c \<and> tame_block C t \<and> (case map_option (tame_expr C) e of Some p \<Rightarrow> p | None \<Rightarrow> True))"
| "tame_expr C (EMatch e arms i sp) = (tame_expr C e \<and> list_all (\<lambda>p. p) (map (tame_arm C) arms))"
| "tame_expr C (ELambda ps rt row b i sp) = apart C (assigned_block b)"
| "tame_expr C (ETry e i sp) = tame_expr C e"
| "tame_expr C (EBlock b) = tame_block C b"
| "tame_expr C (ESpawn p es i sp) = list_all (\<lambda>p. p) (map (tame_expr C) es)"
| "tame_expr C (EConsume x i sp) = (id_name x \<in> set C)"
| "tame_expr C (ERecover k b i sp) = tame_block C b"
| "tame_block C (Block ss i sp) = list_all (\<lambda>p. p) (map (tame_stmt C) ss)"
| "tame_stmt C (SLet x t e m sp) = tame_expr C e"
| "tame_stmt C (SAssign t e sp) = (tame_lvalue C t \<and> tame_expr C e)"
| "tame_stmt C (SWhile c b sp) =
     (tame_expr C c \<and> tame_block C b \<and> snd (consumed_expr c {||} []) = [] \<and> apart C (assigned_block b))"
| "tame_stmt C (SFor x e b sp) = (tame_expr C e \<and> tame_block C b \<and> apart C (assigned_block b))"
| "tame_stmt C (SBreak sp) = True"
| "tame_stmt C (SContinue sp) = True"
| "tame_stmt C (SReturn v sp) = (case map_option (tame_expr C) v of Some p \<Rightarrow> p | None \<Rightarrow> True)"
| "tame_stmt C (SExpr e) = tame_expr C e"
| "tame_lvalue C (LVar x) = True"
| "tame_lvalue C (LField b x) = tame_lvalue C b"
| "tame_lvalue C (LIndex b e) = (tame_lvalue C b \<and> tame_expr C e)"
| "tame_arm C (Arm p e sp) = tame_expr C e"

lemma apart_simps [simp]:
  "apart C []" "apart C (x # xs) \<longleftrightarrow> x \<notin> set C \<and> apart C xs" "apart C (xs @ ys) \<longleftrightarrow> apart C xs \<and> apart C ys"
  "apart C (concat xss) \<longleftrightarrow> (\<forall>xs \<in> set xss. apart C xs)"
  by (auto simp: apart_def list_all_iff)

section \<open>The analysis over tame code\<close>

text \<open>Marks that are never taken back, and marks that cover what is dead in a run.\<close>

definition rises1 :: "string list \<Rightarrow> (string \<rightharpoonup> bool) \<Rightarrow> (string \<rightharpoonup> bool) \<Rightarrow> bool" where
  "rises1 C m n \<longleftrightarrow> dom m = dom n \<and> (\<forall>x\<in>set C. m x = Some True \<longrightarrow> n x = Some True)"

definition rises :: "string list \<Rightarrow> marks \<Rightarrow> marks \<Rightarrow> bool" where "rises C = list_all2 (rises1 C)"

definition covered1 :: "string list \<Rightarrow> (string \<rightharpoonup> bool) \<Rightarrow> (string \<rightharpoonup> bool) \<Rightarrow> bool" where
  "covered1 C m n \<longleftrightarrow> dom m = dom n \<and> (\<forall>x. m x = Some True \<longrightarrow> x \<in> set C \<and> n x = Some True)"

definition covered :: "string list \<Rightarrow> marks \<Rightarrow> marks \<Rightarrow> bool" where "covered C = list_all2 (covered1 C)"

text \<open>What is newly dead was not marked.\<close>

fun spares :: "marks \<Rightarrow> marks \<Rightarrow> marks \<Rightarrow> bool" where
  "spares (m # ms) (a # as) (b # bs) \<longleftrightarrow>
     (\<forall>x. b x = Some True \<longrightarrow> a x = Some True \<or> m x \<noteq> Some True) \<and> spares ms as bs"
| "spares _ _ _ \<longleftrightarrow> True"

lemma rises_refl [simp]: "rises C a a" by (auto simp: rises_def rises1_def intro: list_all2_refl)

lemma rises_trans: "rises C a b \<Longrightarrow> rises C b c \<Longrightarrow> rises C a c"
  unfolding rises_def by (rule list_all2_trans [of "rises1 C"]) (auto simp: rises1_def)

lemma covered_rises: "covered C a b \<Longrightarrow> rises C b c \<Longrightarrow> covered C a c"
  unfolding rises_def covered_def by (rule list_all2_trans [of "covered1 C"]) (auto simp: rises1_def covered1_def)

lemma covered_dom: "covered C a b \<Longrightarrow> map dom a = map dom b"
  unfolding covered_def by (induction rule: list_all2_induct) (auto simp: covered1_def)

lemma rises_Cons [simp]: "rises C (m # ms) (n # ns) \<longleftrightarrow> rises1 C m n \<and> rises C ms ns" "rises C [] ns \<longleftrightarrow> ns = []"
  "rises C ms [] \<longleftrightarrow> ms = []"
  by (simp_all add: rises_def)

lemma covered_Cons [simp]: "covered C (m # ms) (n # ns) \<longleftrightarrow> covered1 C m n \<and> covered C ms ns" "covered C [] ns \<longleftrightarrow> ns = []"
  "covered C ms [] \<longleftrightarrow> ms = []"
  by (simp_all add: covered_def)

lemma rises_length: "rises C a b \<Longrightarrow> length a = length b" by (simp add: rises_def list_all2_lengthD)

lemma spares_trans: "rises C ms ms1 \<Longrightarrow> covered C c n \<Longrightarrow> length a = length ms \<Longrightarrow> length b = length ms \<Longrightarrow>
  spares ms a b \<Longrightarrow> spares ms1 b c \<Longrightarrow> spares ms a c"
proof (induction ms a b arbitrary: ms1 c n rule: spares.induct)
  case (1 m ms a as b bs)
  obtain m1 ms1' where m1: "ms1 = m1 # ms1'" using 1(2) by (cases ms1) auto
  show ?case
  proof (cases c)
    case (Cons c0 cs)
    obtain n0 ns where n: "n = n0 # ns" using 1(3) Cons by (cases n) auto
    have "spares ms as cs" using 1 m1 Cons n by (auto intro: 1(1) [of ms1' cs ns])
    moreover have "c0 x = Some True \<Longrightarrow> a x = Some True \<or> m x \<noteq> Some True" for x
      using 1(2,3,6,7) m1 Cons n by (auto simp: rises1_def covered1_def)
    ultimately show ?thesis using Cons by simp
  qed simp
qed auto

lemma spares_refl [simp]: "spares ms a a"
proof (induction a arbitrary: ms)
  case (Cons x xs) then show ?case by (cases ms) auto
qed simp

section \<open>Rising\<close>

definition rising :: "string list \<Rightarrow> flow \<Rightarrow> bool" where
  "rising C f \<longleftrightarrow> (\<forall>cb ms ms'. f cb ms = Some ms' \<longrightarrow> rises C ms ms')"

definition rises_under :: "string list \<Rightarrow> marks \<Rightarrow> marks \<Rightarrow> bool" where
  "rises_under C a b \<longleftrightarrow> length a = length b \<and> rises C (tl a) (tl b)"

definition rising_under :: "string list \<Rightarrow> flow \<Rightarrow> bool" where
  "rising_under C f \<longleftrightarrow> (\<forall>cb ms ms'. f cb ms = Some ms' \<longrightarrow> rises_under C ms ms')"

lemma rises_rises_under: "rises C a b \<Longrightarrow> rises_under C a b"
  by (cases a; cases b) (auto simp: rises_under_def dest: rises_length)

lemma rising_rising_under: "rising C f \<Longrightarrow> rising_under C f"
  by (auto simp: rising_def rising_under_def intro: rises_rises_under)

lemma rising_keep: "rising C keep" by (simp add: rising_def keep_def)

lemma rising_then: "rising C f \<Longrightarrow> rising C g \<Longrightarrow> rising C (then_flow f g)"
  by (auto simp: rising_def then_flow_def bind_eq_Some_conv) (meson rises_trans)

lemma rising_under_then: "rising_under C f \<Longrightarrow> rising_under C g \<Longrightarrow> rising_under C (then_flow f g)"
  by (auto simp: rising_under_def rises_under_def then_flow_def bind_eq_Some_conv) (metis rises_trans)

lemma rising_flows: "(\<And>f. f \<in> set fs \<Longrightarrow> rising C f) \<Longrightarrow> rising C (flows fs)"
  by (induction fs) (auto simp: flows_def intro: rising_keep rising_then)

lemma rising_under_flows: "(\<And>f. f \<in> set fs \<Longrightarrow> rising_under C f) \<Longrightarrow> rising_under C (flows fs)"
  by (induction fs) (auto simp: flows_def intro: rising_keep rising_rising_under rising_under_then)

lemma rising_use: "rising C (use_flow x)" by (auto simp: rising_def use_flow_def split: if_splits)

lemma rises_set_true: "rises C ms (set_mark x True ms)"
  by (induction ms) (auto simp: rises1_def insert_absorb domIff)

lemma rises_set_false: "x \<notin> set C \<Longrightarrow> rises C ms (set_mark x False ms)"
  by (induction ms) (auto simp: rises1_def insert_absorb domIff)

lemma rising_consume: "rising C (consume_flow x)"
  by (auto simp: rising_def consume_flow_def rises_set_true split: option.splits if_splits)

lemma rising_bind: "rising_under C (bind_flow x)"
  by (auto simp: rising_under_def bind_flow_def bind_mark_def rises_under_def split: list.split)

lemma rising_target: "(case t of LVar x \<Rightarrow> id_name x \<notin> set C | _ \<Rightarrow> True) \<Longrightarrow> rising C (target_flow t)"
  using rising_use by (cases t) (auto simp: target_flow_def rising_def rises_set_false)

lemma rising_scope: "rising_under C f \<Longrightarrow> rising C (scope_flow f)"
  by (fastforce simp: rising_def rising_under_def rises_under_def scope_flow_def)

lemma rises_carry: "rises C ms (carry_marks xs ms)"
  by (induction xs arbitrary: ms) (auto simp: carry_marks_def intro: rises_trans rises_set_true)

lemma rising_carried: "rising C (carried b)" by (auto simp: rising_def carried_def rises_carry)

lemma rises_join: "rises C ms a \<Longrightarrow> rises C ms b \<Longrightarrow> rises C a (join_marks a b) \<and> rises C b (join_marks a b)"
proof (induction ms arbitrary: a b)
  case (Cons m ms)
  obtain a0 as b0 bs where [simp]: "a = a0 # as" "b = b0 # bs" using Cons.prems by (cases a; cases b) auto
  have "dom a0 = dom b0" using Cons.prems by (auto simp: rises1_def)
  then have "(a0 x = None) = (b0 x = None)" for x by (metis domIff)
  then have "rises1 C a0 (\<lambda>x. case (a0 x, b0 x) of (Some d, Some d') \<Rightarrow> Some (d \<or> d') | (r, _) \<Rightarrow> r)"
    "rises1 C b0 (\<lambda>x. case (a0 x, b0 x) of (Some d, Some d') \<Rightarrow> Some (d \<or> d') | (r, _) \<Rightarrow> r)"
    by (auto simp: rises1_def dom_def split: option.splits)
  then show ?case using Cons by auto
qed simp

lemma rising_branch: "rising C f \<Longrightarrow> rising C g \<Longrightarrow> rising C (branch_flow f g)"
  unfolding rising_def branch_flow_def
  by (auto split: option.splits) (meson rises_join rises_trans)

text \<open>The join of the arms starts from the marks before them, so every arm's marks and those are below it.\<close>

lemma rises_joins:
  "(\<And>a. a \<in> set as \<Longrightarrow> rises C ms a) \<Longrightarrow> rises C ms r \<Longrightarrow>
   rises C r (fold (\<lambda>a r. join_marks r a) as r) \<and> (\<forall>a \<in> set as. rises C a (fold (\<lambda>a r. join_marks r a) as r))"
proof (induction as arbitrary: r)
  case (Cons a as)
  have j: "rises C r (join_marks r a)" "rises C a (join_marks r a)"
    using rises_join [of C ms r a] Cons.prems by auto
  then have "rises C ms (join_marks r a)" using Cons.prems(2) by (blast intro: rises_trans)
  then have "rises C (join_marks r a) (fold (\<lambda>a r. join_marks r a) as (join_marks r a))
      \<and> (\<forall>b \<in> set as. rises C b (fold (\<lambda>a r. join_marks r a) as (join_marks r a)))"
    using Cons by simp
  then show ?case using j by (auto intro: rises_trans)
qed simp

lemma those_set: "those xs = Some ys \<Longrightarrow> set xs = Some ` set ys"
  by (induction xs arbitrary: ys) (auto split: option.splits)

lemma rising_arms:
  assumes "\<And>f. f \<in> set fs \<Longrightarrow> rising C f"
  shows "rising C (arms_flow fs)"
proof -
  have "rises C ms (fold (\<lambda>a r. join_marks r a) as ms)" if "those (map (\<lambda>f. f cb ms) fs) = Some as" for cb ms as
  proof -
    have "rises C ms a" if "a \<in> set as" for a
    proof -
      have "Some a \<in> set (map (\<lambda>f. f cb ms) fs)" using that those_set [OF \<open>those _ = _\<close>] by auto
      then show ?thesis using assms by (auto simp: rising_def)
    qed
    then show ?thesis using rises_joins [of as C ms ms] by auto
  qed
  then show ?thesis by (auto simp: rising_def arms_flow_def)
qed

lemma rising_capture: "rising C f \<Longrightarrow> rising C (capture_flow f)"
  by (auto simp: rising_def capture_flow_def)

lemma rising_option: "(\<And>e. e \<in> set_option v \<Longrightarrow> rising C (f e)) \<Longrightarrow> rising C (case map_option f v of Some g \<Rightarrow> g | None \<Rightarrow> keep)"
  by (cases v) (auto simp: rising_keep)

lemma apart_rising:
  "apart C (assigned_expr e) \<Longrightarrow> rising C (flow_expr e)"
  "apart C (assigned_block b) \<Longrightarrow> rising C (flow_block b)"
  "apart C (assigned_stmt st) \<Longrightarrow> rising_under C (flow_stmt st)"
  "apart C (assigned_lvalue t) \<Longrightarrow> rising C (flow_indices t)"
  "apart C (assigned_arm a) \<Longrightarrow> rising C (flow_arm a)"
proof (induction e and b and st and t and a rule: expr.induct block.induct stmt.induct lvalue.induct arm.induct)
  case (EVar p i sp) show ?case by (auto simp: rising_use rising_keep split: list.split)
next
  case (ERecord p fs i sp)
  have "rising C (flow_expr (snd f))" if "f \<in> set fs" for f
    using ERecord.IH [OF that, of "snd f"] ERecord.prems that by (auto intro: snds.intros)
  then show ?case by (auto intro!: rising_flows)
next
  case (EIf c t e i sp)
  have "rising C (case map_option flow_expr e of Some g \<Rightarrow> g | None \<Rightarrow> keep)"
    using EIf(3) EIf.prems by (intro rising_option) auto
  then show ?case using EIf by (auto intro!: rising_then rising_branch)
next
  case (EMatch e arms i sp) then show ?case by (auto intro!: rising_then rising_arms)
next
  case (ELambda ps rt row b i sp)
  then show ?case
    by (auto intro!: rising_capture rising_scope rising_under_then rising_under_flows rising_bind intro: rising_rising_under)
next
  case (SLet x te e m sp) then show ?case by (auto intro!: rising_under_then rising_bind intro: rising_rising_under)
next
  case (SAssign t e sp)
  then show ?case by (auto intro!: rising_rising_under rising_then rising_target split: lvalue.splits)
next
  case (SWhile c b sp) then show ?case by (auto intro!: rising_rising_under rising_then rising_carried)
next
  case (SFor x e b sp)
  then have "rising C (scope_flow (then_flow (bind_flow (id_name x)) (flow_block b)))"
    by (intro rising_scope rising_under_then [OF rising_bind] rising_rising_under) simp
  then show ?case using SFor by (auto intro!: rising_rising_under rising_then rising_carried)
next
  case (SReturn v sp)
  have "rising C (case map_option flow_expr v of Some g \<Rightarrow> g | None \<Rightarrow> keep)"
    using SReturn by (intro rising_option) auto
  then show ?case by (simp add: rising_rising_under)
next
  case (Arm p e sp)
  then show ?case
    by (auto intro!: rising_scope rising_under_then rising_under_flows rising_bind intro: rising_rising_under)
qed (auto intro!: rising_keep rising_then rising_flows rising_consume rising_scope rising_under_flows
    intro: rising_rising_under rising_keep)

end
