(* ===== verification/Rcap_Sound.thy ===== *)
theory Rcap_Sound imports Rcap_Tame begin

text \<open>
  Accepted tame code never goes wrong when it runs. A run that leaves code early, by \<open>break\<close>, \<open>continue\<close>, \<open>return\<close> or \<open>?\<close>,
  skips what would have taken marks back, so what is then dead is known only of code that assigns nothing of \<open>C\<close>; that is
  enough, since it is where loops are.
\<close>

definition sound :: "string list \<Rightarrow> bool \<Rightarrow> flow \<Rightarrow> runs \<Rightarrow> bool" where
  "sound C S f A \<longleftrightarrow> (\<forall>cb ms ms' a t r. f cb ms = Some ms' \<longrightarrow> covered C a ms \<longrightarrow> (t, r) \<in> A \<longrightarrow>
     (\<exists>b. run_events t a = Some b \<and> map dom b = map dom a \<and> (r = Done \<or> S \<longrightarrow> covered C b ms') \<and> (S \<longrightarrow> spares ms a b)))"

definition sound_under :: "string list \<Rightarrow> bool \<Rightarrow> flow \<Rightarrow> runs \<Rightarrow> bool" where
  "sound_under C S f A \<longleftrightarrow> (\<forall>cb ms ms' a t r. f cb ms = Some ms' \<longrightarrow> covered C a ms \<longrightarrow> (t, r) \<in> A \<longrightarrow>
     (\<exists>b. run_events t a = Some b \<and> length b = length a \<and> map dom (tl b) = map dom (tl a) \<and> (r = Done \<longrightarrow> covered C b ms')
        \<and> (S \<longrightarrow> covered C (tl b) (tl ms') \<and> spares (tl ms) (tl a) (tl b))))"

lemma soundE:
  assumes "sound C S f A" "f cb ms = Some ms'" "covered C a ms" "(t, r) \<in> A"
  obtains b where "run_events t a = Some b" "map dom b = map dom a" "r = Done \<or> S \<longrightarrow> covered C b ms'" "S \<longrightarrow> spares ms a b"
  using assms unfolding sound_def by blast

lemma sound_underE:
  assumes "sound_under C S f A" "f cb ms = Some ms'" "covered C a ms" "(t, r) \<in> A"
  obtains b where "run_events t a = Some b" "length b = length a" "map dom (tl b) = map dom (tl a)"
    "r = Done \<longrightarrow> covered C b ms'" "S \<longrightarrow> covered C (tl b) (tl ms')" "S \<longrightarrow> spares (tl ms) (tl a) (tl b)"
  using assms unfolding sound_under_def by blast

lemma covered_tl: "covered C a b \<Longrightarrow> covered C (tl a) (tl b)" by (cases a; cases b) auto

lemma covered_length: "covered C a b \<Longrightarrow> length a = length b" by (simp add: covered_def list_all2_lengthD)

lemma spares_tl: "spares ms a b \<Longrightarrow> spares (tl ms) (tl a) (tl b)" by (cases ms; cases a; cases b) auto

lemma dom_length: "map dom a = map dom b \<Longrightarrow> length a = length b" using map_eq_imp_length_eq by blast

lemma sound_sound_under: "sound C S f A \<Longrightarrow> sound_under C S f A"
  unfolding sound_under_def
proof (intro allI impI)
  fix cb ms ms' a t r
  assume "sound C S f A" "f cb ms = Some ms'" "covered C a ms" "(t, r) \<in> A"
  then obtain b where "run_events t a = Some b" "map dom b = map dom a" "r = Done \<or> S \<longrightarrow> covered C b ms'" "S \<longrightarrow> spares ms a b"
    by (rule soundE)
  then show "\<exists>b. run_events t a = Some b \<and> length b = length a \<and> map dom (tl b) = map dom (tl a) \<and> (r = Done \<longrightarrow> covered C b ms')
        \<and> (S \<longrightarrow> covered C (tl b) (tl ms') \<and> spares (tl ms) (tl a) (tl b))"
    by (auto intro: covered_tl spares_tl dest: dom_length simp: map_tl)
qed

lemma sound_nothing: "(S \<Longrightarrow> rising C f) \<Longrightarrow> rising C f \<Longrightarrow> sound C S f nothing"
  by (auto simp: sound_def nothing_def rising_def intro: covered_rises)

lemma sound_keep: "sound C S keep nothing" by (rule sound_nothing) (auto intro: rising_keep)

lemma sound_leaving: "rising C f \<Longrightarrow> sound C S f (leaving r)"
  by (auto simp: sound_def leaving_def rising_def intro: covered_rises)

lemma sound_then:
  assumes f: "sound C S f A" "S \<Longrightarrow> rising C f" and g: "sound C S g B" "S \<Longrightarrow> rising C g"
  shows "sound C S (then_flow f g) (followed_by A B)"
  unfolding sound_def
proof (intro allI impI)
  fix cb ms ms' a t r
  assume fg: "then_flow f g cb ms = Some ms'" and a: "covered C a ms" and t: "(t, r) \<in> followed_by A B"
  obtain ms1 where ms1: "f cb ms = Some ms1" "g cb ms1 = Some ms'" using fg by (auto simp: then_flow_def bind_eq_Some_conv)
  have rs: "S \<Longrightarrow> rises C ms ms1" "S \<Longrightarrow> rises C ms1 ms'" using f(2) g(2) ms1 by (auto simp: rising_def)
  consider "(t, r) \<in> A" "r \<noteq> Done" | u v where "t = u @ v" "(u, Done) \<in> A" "(v, r) \<in> B"
    using t by (auto simp: followed_by_def)
  then show "\<exists>b. run_events t a = Some b \<and> map dom b = map dom a \<and> (r = Done \<or> S \<longrightarrow> covered C b ms') \<and> (S \<longrightarrow> spares ms a b)"
  proof cases
    case 1
    from soundE [OF f(1) ms1(1) a 1(1)] obtain b where
      "run_events t a = Some b" "map dom b = map dom a" "r = Done \<or> S \<longrightarrow> covered C b ms1" "S \<longrightarrow> spares ms a b" .
    then show ?thesis using 1(2) covered_rises rs(2) by blast
  next
    case 2
    from soundE [OF f(1) ms1(1) a 2(2)] obtain b where
      b: "run_events u a = Some b" "map dom b = map dom a" "covered C b ms1" "S \<longrightarrow> spares ms a b" by auto
    from soundE [OF g(1) ms1(2) b(3) 2(3)] obtain c where
      c: "run_events v b = Some c" "map dom c = map dom b" "r = Done \<or> S \<longrightarrow> covered C c ms'" "S \<longrightarrow> spares ms1 b c" .
    have "spares ms a c" if S: S
    proof -
      have "covered C c ms'" "spares ms a b" "spares ms1 b c" using S b c by auto
      then show ?thesis using spares_trans [OF rs(1) [OF S]] covered_length [OF a] dom_length [OF b(2)] by metis
    qed
    then show ?thesis using 2(1) b c by (auto simp: run_events_append)
  qed
qed

lemma sound_under_then:
  assumes f: "sound_under C S f A" "S \<Longrightarrow> rising_under C f" and g: "sound_under C S g B" "S \<Longrightarrow> rising_under C g"
  shows "sound_under C S (then_flow f g) (followed_by A B)"
  unfolding sound_under_def
proof (intro allI impI)
  fix cb ms ms' a t r
  assume fg: "then_flow f g cb ms = Some ms'" and a: "covered C a ms" and t: "(t, r) \<in> followed_by A B"
  obtain ms1 where ms1: "f cb ms = Some ms1" "g cb ms1 = Some ms'" using fg by (auto simp: then_flow_def bind_eq_Some_conv)
  have rs: "S \<Longrightarrow> rises C (tl ms) (tl ms1)" "S \<Longrightarrow> rises C (tl ms1) (tl ms')"
    using f(2) g(2) ms1 by (auto simp: rising_under_def rises_under_def)
  consider "(t, r) \<in> A" "r \<noteq> Done" | u v where "t = u @ v" "(u, Done) \<in> A" "(v, r) \<in> B"
    using t by (auto simp: followed_by_def)
  then show "\<exists>b. run_events t a = Some b \<and> length b = length a \<and> map dom (tl b) = map dom (tl a) \<and> (r = Done \<longrightarrow> covered C b ms')
        \<and> (S \<longrightarrow> covered C (tl b) (tl ms') \<and> spares (tl ms) (tl a) (tl b))"
  proof cases
    case 1
    from sound_underE [OF f(1) ms1(1) a 1(1)] obtain b where
      "run_events t a = Some b" "length b = length a" "map dom (tl b) = map dom (tl a)"
      "S \<longrightarrow> covered C (tl b) (tl ms1)" "S \<longrightarrow> spares (tl ms) (tl a) (tl b)" by blast
    then show ?thesis using 1(2) covered_rises rs(2) by blast
  next
    case 2
    from sound_underE [OF f(1) ms1(1) a 2(2)] obtain b where
      b: "run_events u a = Some b" "length b = length a" "map dom (tl b) = map dom (tl a)" "covered C b ms1"
         "S \<longrightarrow> spares (tl ms) (tl a) (tl b)" by auto
    from sound_underE [OF g(1) ms1(2) b(4) 2(3)] obtain c where
      c: "run_events v b = Some c" "length c = length b" "map dom (tl c) = map dom (tl b)" "r = Done \<longrightarrow> covered C c ms'"
         "S \<longrightarrow> covered C (tl c) (tl ms')" "S \<longrightarrow> spares (tl ms1) (tl b) (tl c)" .
    have "spares (tl ms) (tl a) (tl c)" if S: S
    proof -
      have "covered C (tl c) (tl ms')" "spares (tl ms) (tl a) (tl b)" "spares (tl ms1) (tl b) (tl c)" using S b c by auto
      then show ?thesis using spares_trans [OF rs(1) [OF S]] covered_length [OF a] b(2) by (metis length_tl)
    qed
    then show ?thesis using 2(1) b c by (auto simp: run_events_append)
  qed
qed

lemma sound_scope:
  assumes "sound_under C S f A"
  shows "sound C S (scope_flow f) (in_scope A)"
  unfolding sound_def
proof (intro allI impI)
  fix cb ms ms' a t r
  assume f: "scope_flow f cb ms = Some ms'" and a: "covered C a ms" and t: "(t, r) \<in> in_scope A"
  obtain ms1 where ms1: "f cb (Map.empty # ms) = Some ms1" "ms' = tl ms1" using f by (auto simp: scope_flow_def)
  obtain u where u: "t = EvEnter # u @ [EvLeave]" "(u, r) \<in> A" using t by (auto simp: in_scope_def)
  have "covered C (Map.empty # a) (Map.empty # ms)" using a by (simp add: covered1_def)
  from sound_underE [OF assms ms1(1) this u(2)] obtain b where
    b: "run_events u (Map.empty # a) = Some b" "length b = length (Map.empty # a)" "map dom (tl b) = map dom a"
       "r = Done \<longrightarrow> covered C b ms1" "S \<longrightarrow> covered C (tl b) (tl ms1)" "S \<longrightarrow> spares ms a (tl b)" by auto
  then show "\<exists>b. run_events t a = Some b \<and> map dom b = map dom a \<and> (r = Done \<or> S \<longrightarrow> covered C b ms') \<and> (S \<longrightarrow> spares ms a b)"
    using u(1) ms1(2) by (auto simp: run_events_append intro: covered_tl)
qed

lemma sound_flows:
  assumes "\<And>x. x \<in> set xs \<Longrightarrow> sound C S (f x) (g x)" "\<And>x. x \<in> set xs \<Longrightarrow> S \<Longrightarrow> rising C (f x)"
  shows "sound C S (flows (map f xs)) (in_turn (map g xs))"
  using assms
proof (induction xs)
  case Nil then show ?case by (simp add: flows_def in_turn_def sound_keep)
next
  case (Cons x xs)
  have r: "S \<Longrightarrow> rising C (flows (map f xs))" using Cons.prems by (intro rising_flows) auto
  have "sound C S (flows (map f xs)) (in_turn (map g xs))" using Cons by simp
  then have "sound C S (then_flow (f x) (flows (map f xs))) (followed_by (g x) (in_turn (map g xs)))"
    using sound_then r Cons.prems by auto
  then show ?case by (simp add: flows_def in_turn_def)
qed

lemma sound_under_flows:
  assumes "\<And>x. x \<in> set xs \<Longrightarrow> sound_under C S (f x) (g x)" "\<And>x. x \<in> set xs \<Longrightarrow> S \<Longrightarrow> rising_under C (f x)"
  shows "sound_under C S (flows (map f xs)) (in_turn (map g xs))"
  using assms
proof (induction xs)
  case Nil then show ?case by (simp add: flows_def in_turn_def sound_keep sound_sound_under)
next
  case (Cons x xs)
  have r: "S \<Longrightarrow> rising_under C (flows (map f xs))" using Cons.prems by (intro rising_under_flows) auto
  have "sound_under C S (flows (map f xs)) (in_turn (map g xs))" using Cons by simp
  then have "sound_under C S (then_flow (f x) (flows (map f xs))) (followed_by (g x) (in_turn (map g xs)))"
    using sound_under_then r Cons.prems by auto
  then show ?case by (simp add: flows_def in_turn_def)
qed

section \<open>Single events\<close>

lemma covered_find: "covered C a ms \<Longrightarrow> find_mark x a = Some (d, True) \<Longrightarrow> x \<in> set C \<and> find_mark x ms = Some (d, True)"
proof (induction a arbitrary: ms)
  case (Cons m a)
  obtain n ns where ms: "ms = n # ns" using Cons.prems(1) by (cases ms) auto
  have d: "dom m = dom n" "length a = length ns" using Cons.prems(1) ms by (auto simp: covered1_def dest: covered_length)
  show ?case
  proof (cases "m x")
    case None
    then have "n x = None" using d by (metis domIff)
    then show ?thesis using Cons.IH [of ns] Cons.prems None ms d by (auto split: option.splits)
  next
    case (Some v)
    then show ?thesis using Cons.prems ms d by (auto simp: covered1_def)
  qed
qed simp

lemma sound_use: "sound C S (use_flow x) (one (EvUse x))"
  using covered_find by (auto simp: sound_def one_def use_flow_def mark_of_def split: if_splits)

lemma covered_set_false: "covered C a ms \<Longrightarrow> covered C (set_mark x False a) (set_mark x False ms)"
proof (induction a arbitrary: ms)
  case (Cons m a)
  obtain n ns where ms: "ms = n # ns" using Cons.prems(1) by (cases ms) auto
  have "(m x = None) = (n x = None)" using Cons.prems ms by (auto simp: covered1_def)
  then show ?case using Cons ms by (auto simp: covered1_def)
qed simp

lemma covered_set_true: "covered C a ms \<Longrightarrow> x \<in> set C \<Longrightarrow> covered C (set_mark x True a) (set_mark x True ms)"
proof (induction a arbitrary: ms)
  case (Cons m a)
  obtain n ns where ms: "ms = n # ns" using Cons.prems(1) by (cases ms) auto
  have "(m x = None) = (n x = None)" using Cons.prems ms by (auto simp: covered1_def)
  then show ?case using Cons ms by (auto simp: covered1_def)
qed simp

lemma set_mark_dom [simp]: "map dom (set_mark x d a) = map dom a"
  by (induction a) (auto simp: insert_absorb domIff)

lemma spares_set_false: "spares ms a (set_mark x False a)"
proof (induction a arbitrary: ms)
  case (Cons m a) then show ?case by (cases ms) auto
qed simp

lemma spares_set_true:
  "covered C a ms \<Longrightarrow> mark_of x ms \<noteq> Some True \<Longrightarrow> spares ms a (set_mark x True a)"
proof (induction a arbitrary: ms)
  case (Cons m a)
  obtain n ns where ms: "ms = n # ns" using Cons.prems(1) by (cases ms) auto
  have "(m x = None) = (n x = None)" using Cons.prems ms by (auto simp: covered1_def)
  then show ?case using Cons ms by (auto simp: mark_of_def split: option.splits)
qed simp

lemma find_mark_unbound: "covered C a ms \<Longrightarrow> find_mark x ms = None \<Longrightarrow> set_mark x d a = a"
proof (induction a arbitrary: ms)
  case (Cons m a)
  obtain n ns where ms: "ms = n # ns" using Cons.prems(1) by (cases ms) auto
  have "(m x = None) = (n x = None)" using Cons.prems ms by (auto simp: covered1_def)
  then show ?case using Cons ms by (auto split: option.splits)
qed simp

lemma sound_consume:
  assumes "x \<in> set C"
  shows "sound C S (consume_flow x) (one (EvConsume x))"
proof -
  have "\<exists>b. event_step (EvConsume x) a = Some b \<and> map dom b = map dom a \<and> covered C b ms' \<and> spares ms a b"
    if f: "consume_flow x cb ms = Some ms'" and a: "covered C a ms" for cb ms ms' a
  proof -
    have n: "mark_of x ms \<noteq> Some True" using f by (auto simp: consume_flow_def mark_of_def split: option.splits if_splits)
    then have "mark_of x a \<noteq> Some True" using covered_find [OF a] by (auto simp: mark_of_def)
    moreover have "covered C (set_mark x True a) ms'"
      using f covered_set_true [OF a assms] find_mark_unbound [OF a, of x] a
      by (auto simp: consume_flow_def split: option.splits if_splits)
    ultimately show ?thesis using spares_set_true [OF a n] by simp
  qed
  then show ?thesis by (fastforce simp: sound_def one_def)
qed

lemma sound_bind: "sound_under C S (bind_flow x) (one (EvBind x))"
proof -
  have "covered C (bind_mark x a) (bind_mark x ms) \<and> covered C (tl a) (tl ms)" if "covered C a ms" for a ms
    using that by (cases a; cases ms) (auto simp: bind_mark_def covered1_def)
  moreover have "length (bind_mark x a) = length a" "tl (bind_mark x a) = tl a" for a
    by (cases a; simp add: bind_mark_def)+
  ultimately show ?thesis by (auto simp: sound_under_def one_def bind_flow_def)
qed

lemma sound_target: "sound C S (target_flow t) (one (target_event t))"
proof (cases t)
  case (LVar x)
  then show ?thesis using covered_set_false spares_set_false by (auto simp: sound_def one_def target_flow_def target_event_def)
qed (use sound_use in \<open>auto simp: target_flow_def target_event_def\<close>)

section \<open>Branches\<close>

text \<open>Without names to keep, rising only says that the scopes bind the same.\<close>

definition bottom :: "marks \<Rightarrow> marks" where "bottom ms = map (\<lambda>m x. map_option (\<lambda>_. False) (m x)) ms"

lemma bottom_rises: "rises [] ms a \<Longrightarrow> rises C (bottom ms) a"
proof (induction ms arbitrary: a)
  case (Cons m ms) then show ?case by (cases a) (auto simp: bottom_def rises1_def dom_def)
qed (simp add: bottom_def)

lemma sound_union: "sound C S f A \<Longrightarrow> sound C S f B \<Longrightarrow> sound C S f (A \<union> B)"
  unfolding sound_def by blast

lemma sound_join:
  assumes f: "sound C S f A" "rising [] f" and h: "\<And>cb ms ms'. h cb ms = Some ms' \<Longrightarrow>
    \<exists>ms1. f cb ms = Some ms1 \<and> rises C ms1 ms'"
  shows "sound C S h A"
  unfolding sound_def
proof (intro allI impI)
  fix cb ms ms' a t r
  assume "h cb ms = Some ms'" and a: "covered C a ms" and t: "(t, r) \<in> A"
  then obtain ms1 where ms1: "f cb ms = Some ms1" "rises C ms1 ms'" using h by blast
  from soundE [OF f(1) ms1(1) a t] obtain b where
    "run_events t a = Some b" "map dom b = map dom a" "r = Done \<or> S \<longrightarrow> covered C b ms1" "S \<longrightarrow> spares ms a b" .
  then show "\<exists>b. run_events t a = Some b \<and> map dom b = map dom a \<and> (r = Done \<or> S \<longrightarrow> covered C b ms') \<and> (S \<longrightarrow> spares ms a b)"
    using covered_rises [OF _ ms1(2)] by blast
qed

lemma branch_rises:
  assumes "branch_flow f g cb ms = Some ms'" "rising [] f" "rising [] g"
  obtains a b where "f cb ms = Some a" "g cb ms = Some b" "rises C a ms'" "rises C b ms'"
proof -
  obtain a b where ab: "f cb ms = Some a" "g cb ms = Some b" "ms' = join_marks b a"
    using assms(1) by (auto simp: branch_flow_def split: option.splits)
  then have "rises C (bottom ms) a" "rises C (bottom ms) b" using assms(2,3) by (auto simp: rising_def intro: bottom_rises)
  from rises_join [OF this(2,1)] show thesis using ab that by blast
qed

lemma sound_branch:
  assumes "sound C S f A" "sound C S g B" "rising [] f" "rising [] g"
  shows "sound C S (branch_flow f g) (A \<union> B)"
proof (rule sound_union)
  show "sound C S (branch_flow f g) A"
    by (rule sound_join [OF assms(1,3)]) (metis branch_rises assms(3,4))
  show "sound C S (branch_flow f g) B"
    by (rule sound_join [OF assms(2,4)]) (metis branch_rises assms(3,4))
qed

lemma sound_arms:
  assumes "\<And>x. x \<in> set xs \<Longrightarrow> sound C S (f x) (g x)" "\<And>x. x \<in> set xs \<Longrightarrow> rising [] (f x)"
  shows "sound C S (arms_flow (map f xs)) (\<Union> (g ` set xs))"
proof -
  have "sound C S (arms_flow (map f xs)) (g x)" if x: "x \<in> set xs" for x
  proof (rule sound_join [OF assms [OF x]])
    fix cb ms ms' assume "arms_flow (map f xs) cb ms = Some ms'"
    then obtain as where as: "those (map (\<lambda>h. h cb ms) (map f xs)) = Some as" "ms' = fold (\<lambda>a r. join_marks r a) as ms"
      by (auto simp: arms_flow_def)
    have set: "(\<lambda>y. f y cb ms) ` set xs = Some ` set as" using those_set [OF as(1)] by (simp add: image_image)
    have "rises C (bottom ms) a" if "a \<in> set as" for a
    proof -
      have "Some a \<in> (\<lambda>y. f y cb ms) ` set xs" using that set by simp
      then obtain y where "y \<in> set xs" "f y cb ms = Some a" by auto
      then show ?thesis using assms(2) by (auto simp: rising_def intro: bottom_rises)
    qed
    then have "\<forall>a \<in> set as. rises C a ms'" using rises_joins [of as C "bottom ms" ms] as(2) bottom_rises [OF rises_refl [of "[]" ms]] by auto
    moreover have "f x cb ms \<in> Some ` set as" using x set by blast
    ultimately show "\<exists>ms1. f x cb ms = Some ms1 \<and> rises C ms1 ms'" by blast
  qed
  then show ?thesis unfolding sound_def by blast
qed

section \<open>Loops\<close>

lemma carry_simps: "carry_marks xs (m # ms) =
    (\<lambda>x. if x \<in> set xs \<and> m x \<noteq> None then Some True else m x) # carry_marks (filter (\<lambda>x. m x = None) xs) ms"
proof (induction xs arbitrary: m ms)
  case Nil then show ?case by (simp add: carry_marks_def)
next
  case (Cons x xs)
  show ?case
  proof (cases "m x = None")
    case True
    have "carry_marks (x # xs) (m # ms) = carry_marks xs (m # set_mark x True ms)" using True by (simp add: carry_marks_def)
    then show ?thesis using Cons.IH [of m "set_mark x True ms"] True by (auto simp: carry_marks_def fun_eq_iff)
  next
    case False
    have "carry_marks (x # xs) (m # ms) = carry_marks xs (set_mark x True (m # ms))" by (simp add: carry_marks_def)
    then have "carry_marks (x # xs) (m # ms) = carry_marks xs (m(x \<mapsto> True) # ms)" using False by simp
    moreover have "filter (\<lambda>y. (m(x \<mapsto> True)) y = None) xs = filter (\<lambda>y. m y = None) xs"
      using False by (intro filter_cong) auto
    ultimately show ?thesis using Cons.IH [of "m(x \<mapsto> True)" ms] False by (auto simp: fun_eq_iff)
  qed
qed

lemma dom_eq_None: "dom m = dom n \<Longrightarrow> m x = None \<longleftrightarrow> n x = None" by (metis domIff)

lemma nothing_dies:
  "kills (set xs) a b \<Longrightarrow> spares (carry_marks xs ms) a b \<Longrightarrow> map dom a = map dom ms \<Longrightarrow> kills {} a b"
proof (induction a arbitrary: b ms xs)
  case (Cons m a)
  obtain n b' where b: "b = n # b'" using Cons.prems(1) by (cases b) auto
  obtain l ms' where ms: "ms = l # ms'" using Cons.prems(3) by (cases ms) auto
  have d: "dom m = dom l" using Cons.prems(3) ms by simp
  have hd: "n x = Some True \<Longrightarrow> m x = Some True" for x
  proof -
    assume n: "n x = Some True"
    then have "m x = Some True \<or> x \<in> set xs" using Cons.prems(1) b by auto
    moreover have "l x \<noteq> None" using n Cons.prems(1) b d by (auto simp: dom_def)
    moreover have "m x = Some True \<or> \<not> (x \<in> set xs \<and> l x \<noteq> None)" using n Cons.prems(2) b ms by (auto simp: carry_simps)
    ultimately show ?thesis by blast
  qed
  have "set xs - dom m = set (filter (\<lambda>x. l x = None) xs)" unfolding d by auto
  then have "kills (set (filter (\<lambda>x. l x = None) xs)) a b'" using Cons.prems(1) b by simp
  then have "kills {} a b'" by (rule Cons.IH) (use Cons.prems(2,3) b ms in \<open>auto simp: carry_simps\<close>)
  then show ?case using Cons.prems(1) b by (simp add: hd)
qed simp

lemma kills_covered: "kills {} a b \<Longrightarrow> covered C a ms \<Longrightarrow> covered C b ms"
proof (induction a arbitrary: b ms)
  case (Cons m a)
  obtain n b' where b: "b = n # b'" using Cons.prems(1) by (cases b) auto
  obtain l ms' where ms: "ms = l # ms'" using Cons.prems(2) by (cases ms) auto
  have "covered C b' ms'" using Cons.IH [of b' ms'] Cons.prems b ms by simp
  then show ?case using Cons.prems b ms by (auto simp: covered1_def)
qed simp

lemma kills_spares: "kills {} a b \<Longrightarrow> spares ms a b"
proof (induction a arbitrary: b ms)
  case (Cons m a)
  obtain n b' where b: "b = n # b'" using Cons.prems(1) by (cases b) auto
  show ?case
  proof (cases ms)
    case (Cons l ms')
    then show ?thesis using Cons.IH [of b' ms'] Cons.prems b by simp
  qed simp
qed simp

lemma kills_dom: "kills X a b \<Longrightarrow> map dom b = map dom a"
  by (induction X a b rule: kills.induct) auto

text \<open>One round of a loop: the condition, then the body from the marks that the body's own names were added to.\<close>

lemma one_round:
  assumes f: "sound C S f A" "f cb ms = Some ms1" "killing {} A"
    and g: "sound C True g B" "g cb (carry_marks xs ms1) = Some ms'" "killing (set xs) B"
    and a: "covered C a ms" "(t, Done) \<in> A" "(u, r) \<in> B"
  shows "\<exists>b. run_events (t @ u) a = Some b \<and> kills {} a b \<and> covered C b ms'"
proof -
  from soundE [OF f(1,2) a(1,2)] obtain c where c: "run_events t a = Some c" "map dom c = map dom a" "covered C c ms1" by blast
  from soundE [OF g(1,2) covered_rises [OF c(3) rises_carry] a(3)] obtain b where
    b: "run_events u c = Some b" "covered C b ms'" "spares (carry_marks xs ms1) c b" by blast
  have "kills {} c b" by (rule nothing_dies [OF killingD [OF g(3) a(3) b(1)] b(3) covered_dom [OF c(3)]])
  then have "kills ({} \<union> {}) a b" by (rule kills_trans [OF killingD [OF f(3) a(2) c(1)]])
  then show ?thesis using b c(1) by (auto simp: run_events_append)
qed

lemma looping_runs:
  assumes f: "sound C S f A" "f cb ms = Some ms1" "killing {} A"
    and g: "sound C True g B" "g cb (carry_marks xs ms1) = Some ms'" "killing (set xs) B" "rising C g"
    and run: "(t, r) \<in> looping A B"
  shows "covered C a ms \<Longrightarrow> \<exists>b. run_events t a = Some b \<and> kills {} a b \<and> (r = Done \<or> S \<longrightarrow> covered C b ms')"
  using run
proof (induction arbitrary: a rule: looping.induct)
  case (ends t r)
  from soundE [OF f(1,2) ends.prems ends(1)] obtain b where b: "run_events t a = Some b" "r = Done \<or> S \<longrightarrow> covered C b ms1" by blast
  have "rises C (carry_marks xs ms1) ms'" using g(2,4) by (auto simp: rising_def)
  then have "rises C ms1 ms'" by (rule rises_trans [OF rises_carry])
  then show ?case using b killingD [OF f(3) ends(1) b(1)] covered_rises by blast
next
  case (again t u r v q)
  obtain b where b: "run_events (t @ u) a = Some b" "kills {} a b"
    using one_round [OF f g(1-3) again.prems again(1,2)] by blast
  obtain c where c: "run_events v b = Some c" "kills {} b c" "q = Done \<or> S \<longrightarrow> covered C c ms'"
    using again.IH [OF kills_covered [OF b(2) again.prems]] by blast
  have "kills ({} \<union> {}) a c" by (rule kills_trans [OF b(2) c(2)])
  moreover have "run_events ((t @ u) @ v) a = Some c" using b c by (subst run_events_append) simp
  ultimately show ?case using c(3) by auto
next
  case (breaks t u)
  then show ?case using one_round [OF f g(1-3) breaks.prems breaks(1,2)] by blast
next
  case (leaves t u)
  then show ?case using one_round [OF f g(1-3) leaves.prems leaves(1,2)] by blast
qed

lemma sound_looping:
  assumes f: "sound C S f A" "killing {} A"
    and g: "sound C True g B" "killing (eaten_block body) B" "rising C g"
  shows "sound C S (then_flow f (then_flow (carried body) g)) (looping A B)"
  unfolding sound_def
proof (intro allI impI)
  fix cb ms ms' a t r
  assume h: "then_flow f (then_flow (carried body) g) cb ms = Some ms'" and a: "covered C a ms" and t: "(t, r) \<in> looping A B"
  define xs where "xs = map fst (consumed_free_names body)"
  obtain ms1 where ms1: "f cb ms = Some ms1" "g cb (carry_marks xs ms1) = Some ms'"
    using h by (auto simp: then_flow_def carried_def xs_def bind_eq_Some_conv)
  have "killing (set xs) B" using g(2) by (simp only: xs_def consumed_free_names_spec)
  from looping_runs [OF f(1) ms1(1) f(2) g(1) ms1(2) this g(3) t a] obtain b where
    "run_events t a = Some b" "kills {} a b" "r = Done \<or> S \<longrightarrow> covered C b ms'" by blast
  then show "\<exists>b. run_events t a = Some b \<and> map dom b = map dom a \<and> (r = Done \<or> S \<longrightarrow> covered C b ms') \<and> (S \<longrightarrow> spares ms a b)"
    using kills_dom kills_spares by blast
qed

section \<open>All code\<close>

text \<open>\<open>steady\<close> code may be left early with what is dead known, and code that is not with nothing known of it.\<close>

definition sound_expr :: "string list \<Rightarrow> expr \<Rightarrow> bool" where
  "sound_expr C e \<longleftrightarrow> (\<forall>S. (S \<longrightarrow> apart C (assigned_expr e)) \<longrightarrow> sound C S (flow_expr e) (runs_expr e))"

definition sound_block :: "string list \<Rightarrow> block \<Rightarrow> bool" where
  "sound_block C b \<longleftrightarrow> (\<forall>S. (S \<longrightarrow> apart C (assigned_block b)) \<longrightarrow> sound C S (flow_block b) (runs_block b))"

definition sound_stmt :: "string list \<Rightarrow> stmt \<Rightarrow> bool" where
  "sound_stmt C st \<longleftrightarrow> (\<forall>S. (S \<longrightarrow> apart C (assigned_stmt st)) \<longrightarrow> sound_under C S (flow_stmt st) (runs_stmt st))"

definition sound_lvalue :: "string list \<Rightarrow> lvalue \<Rightarrow> bool" where
  "sound_lvalue C t \<longleftrightarrow> (\<forall>S. (S \<longrightarrow> apart C (assigned_lvalue t)) \<longrightarrow> sound C S (flow_indices t) (runs_indices t))"

definition sound_arm :: "string list \<Rightarrow> arm \<Rightarrow> bool" where
  "sound_arm C a \<longleftrightarrow> (\<forall>S. (S \<longrightarrow> apart C (assigned_arm a)) \<longrightarrow> sound C S (flow_arm a) (runs_arm a))"

lemmas sound_defs = sound_expr_def sound_block_def sound_stmt_def sound_lvalue_def sound_arm_def

lemma no_names: "apart [] xs" by (simp add: apart_def list_all_iff)

lemma same_scopes: "rising [] (flow_expr e)" "rising [] (flow_block b)" "rising [] (flow_arm a)"
  by (simp_all add: apart_rising no_names)

lemma sound_binds:
  "sound_under C S f A \<Longrightarrow> (S \<Longrightarrow> rising_under C f) \<Longrightarrow>
   sound C S (scope_flow (then_flow (flows (map bind_flow ns)) f))
     (in_scope (followed_by (in_turn (map (\<lambda>x. one (EvBind x)) ns)) A))"
  by (rule sound_scope, rule sound_under_then [OF sound_under_flows])
    (auto intro: sound_bind rising_bind intro!: rising_under_flows)

lemma sound_if:
  assumes "sound_expr C c" "sound_block C t" "\<And>e'. e' \<in> set_option e \<Longrightarrow> sound_expr C e'"
  shows "sound_expr C (EIf c t e i sp)"
  unfolding sound_expr_def
proof (intro allI impI)
  fix S assume S: "S \<longrightarrow> apart C (assigned_expr (EIf c t e i sp))"
  define f where "f = (case map_option flow_expr e of Some g \<Rightarrow> g | None \<Rightarrow> keep)"
  define A where "A = (case map_option runs_expr e of Some B \<Rightarrow> B | None \<Rightarrow> nothing)"
  have f: "sound C S f A" "rising [] f" "S \<Longrightarrow> rising C f"
    using assms(3) S same_scopes apart_rising by (cases e; auto simp: f_def A_def sound_keep rising_keep sound_expr_def)+
  have "sound C S (branch_flow (flow_block t) f) (runs_block t \<union> A)"
    using assms(2) S same_scopes f by (intro sound_branch) (auto simp: sound_block_def)
  then have "sound C S (then_flow (flow_expr c) (branch_flow (flow_block t) f)) (followed_by (runs_expr c) (runs_block t \<union> A))"
    using assms(1) S f(3) apart_rising by (intro sound_then) (auto simp: sound_expr_def intro: rising_branch)
  then show "sound C S (flow_expr (EIf c t e i sp)) (runs_expr (EIf c t e i sp))" by (simp add: f_def A_def)
qed

lemma sound_exprD: "sound_expr C e \<Longrightarrow> (S \<Longrightarrow> apart C (assigned_expr e)) \<Longrightarrow> sound C S (flow_expr e) (runs_expr e)"
  by (simp add: sound_expr_def)

lemma sound_blockD: "sound_block C b \<Longrightarrow> (S \<Longrightarrow> apart C (assigned_block b)) \<Longrightarrow> sound C S (flow_block b) (runs_block b)"
  by (simp add: sound_block_def)

lemma sound_lvalueD: "sound_lvalue C t \<Longrightarrow> (S \<Longrightarrow> apart C (assigned_lvalue t)) \<Longrightarrow> sound C S (flow_indices t) (runs_indices t)"
  by (simp add: sound_lvalue_def)

lemma sound_two:
  assumes "sound_expr C e" "sound_expr C j" "S \<Longrightarrow> apart C (assigned_expr e @ assigned_expr j)"
  shows "sound C S (then_flow (flow_expr e) (flow_expr j)) (followed_by (runs_expr e) (runs_expr j))"
  using assms by (intro sound_then sound_exprD apart_rising) auto

lemma sound_exprs:
  assumes "\<And>e. e \<in> set es \<Longrightarrow> sound_expr C e" "S \<Longrightarrow> apart C (concat (map assigned_expr es))"
  shows "sound C S (flows (map flow_expr es)) (in_turn (map runs_expr es))"
  using assms by (intro sound_flows sound_exprD apart_rising) auto

lemma rising_exprs: "apart C (concat (map assigned_expr es)) \<Longrightarrow> rising C (flows (map flow_expr es))"
  by (rule rising_flows) (auto intro: apart_rising)

lemma sound_fields:
  assumes "\<And>f. f \<in> set fs \<Longrightarrow> sound_expr C (snd f)"
  shows "sound_expr C (ERecord p fs i sp)"
  unfolding sound_expr_def
proof (intro allI impI)
  fix S assume S: "S \<longrightarrow> apart C (assigned_expr (ERecord p fs i sp))"
  have "sound C S (flows (map (\<lambda>f. flow_expr (snd f)) fs)) (in_turn (map (\<lambda>f. runs_expr (snd f)) fs))"
    using S assms by (intro sound_flows sound_exprD apart_rising) auto
  then show "sound C S (flow_expr (ERecord p fs i sp)) (runs_expr (ERecord p fs i sp))" by (simp add: comp_def)
qed

lemma sound_call:
  assumes c: "sound_expr C c" and es: "\<And>e. e \<in> set es \<Longrightarrow> sound_expr C e" and S: "S \<Longrightarrow> apart C (assigned_expr c @ concat (map assigned_expr es))"
  shows "sound C S (then_flow (flow_expr c) (flows (map flow_expr es))) (followed_by (runs_expr c) (in_turn (map runs_expr es)))"
  by (intro sound_then sound_exprD [OF c] sound_exprs [OF es] rising_exprs apart_rising) (use S in auto)

lemma sound_binary:
  assumes l: "sound_expr C l" and r: "sound_expr C r" and t: "op = OpAnd \<or> op = OpOr \<longrightarrow> apart C (assigned_expr r)"
  shows "sound_expr C (EBinary op l r i sp)"
  unfolding sound_expr_def
proof (intro allI impI)
  fix S assume S: "S \<longrightarrow> apart C (assigned_expr (EBinary op l r i sp))"
  have "sound C S (flow_expr r) (if op = OpAnd \<or> op = OpOr then runs_expr r \<union> nothing else runs_expr r)"
    using t S by (auto intro!: sound_union sound_exprD [OF r] sound_nothing apart_rising)
  then have "sound C S (then_flow (flow_expr l) (flow_expr r))
      (followed_by (runs_expr l) (if op = OpAnd \<or> op = OpOr then runs_expr r \<union> nothing else runs_expr r))"
    using S by (intro sound_then sound_exprD [OF l] apart_rising) auto
  then show "sound C S (flow_expr (EBinary op l r i sp)) (runs_expr (EBinary op l r i sp))" by simp
qed

lemma sound_match:
  assumes e: "sound_expr C e" and arms: "\<And>a. a \<in> set arms \<Longrightarrow> sound_arm C a"
  shows "sound_expr C (EMatch e arms i sp)"
  unfolding sound_expr_def
proof (intro allI impI)
  fix S assume S: "S \<longrightarrow> apart C (assigned_expr (EMatch e arms i sp))"
  have "sound C S (arms_flow (map flow_arm arms)) (\<Union> (runs_arm ` set arms))"
    using S arms by (intro sound_arms) (auto simp: sound_arm_def same_scopes)
  then have "sound C S (then_flow (flow_expr e) (arms_flow (map flow_arm arms))) (followed_by (runs_expr e) (\<Union> (runs_arm ` set arms)))"
    using S by (intro sound_then sound_exprD [OF e] apart_rising rising_arms) (auto intro: apart_rising)
  then show "sound C S (flow_expr (EMatch e arms i sp)) (runs_expr (EMatch e arms i sp))" by simp
qed

lemma then_keep: "then_flow f keep = f"
  by (rule ext)+ (simp add: then_flow_def keep_def split: Option.bind_split)

lemma sound_try: "sound_expr C e \<Longrightarrow> sound_expr C (ETry e i sp)"
  unfolding sound_expr_def [of C "ETry e i sp"]
proof (intro allI impI)
  fix S assume e: "sound_expr C e" and S: "S \<longrightarrow> apart C (assigned_expr (ETry e i sp))"
  have "sound C S (then_flow (flow_expr e) keep) (followed_by (runs_expr e) (nothing \<union> leaving Left))"
    using S by (intro sound_then sound_exprD [OF e] sound_union sound_keep sound_leaving rising_keep apart_rising) auto
  then show "sound C S (flow_expr (ETry e i sp)) (runs_expr (ETry e i sp))" by (simp add: then_keep)
qed

lemma sound_seq:
  assumes "\<And>st. st \<in> set ss \<Longrightarrow> sound_stmt C st"
  shows "sound_block C (Block ss i sp)"
  unfolding sound_block_def
proof (intro allI impI)
  fix S assume S: "S \<longrightarrow> apart C (assigned_block (Block ss i sp))"
  have "sound_under C S (flows (map flow_stmt ss)) (in_turn (map runs_stmt ss))"
    using S assms by (intro sound_under_flows) (auto simp: sound_stmt_def intro: apart_rising)
  then show "sound C S (flow_block (Block ss i sp)) (runs_block (Block ss i sp))" using sound_scope by simp
qed

lemma sound_let:
  assumes "sound_expr C e"
  shows "sound_stmt C (SLet x te e m sp)"
  unfolding sound_stmt_def
proof (intro allI impI)
  fix S assume S: "S \<longrightarrow> apart C (assigned_stmt (SLet x te e m sp))"
  show "sound_under C S (flow_stmt (SLet x te e m sp)) (runs_stmt (SLet x te e m sp))" unfolding flow_stmt.simps runs_stmt.simps
    by (rule sound_under_then [OF sound_sound_under [OF sound_exprD [OF assms]] rising_rising_under sound_bind rising_bind])
       (use S in \<open>auto intro: apart_rising\<close>)
qed

lemma sound_assign:
  assumes t: "sound_lvalue C t" and e: "sound_expr C e"
  shows "sound_stmt C (SAssign t e sp)"
  unfolding sound_stmt_def
proof (intro allI impI)
  fix S assume S: "S \<longrightarrow> apart C (assigned_stmt (SAssign t e sp))"
  have "S \<Longrightarrow> rising C (target_flow t)" using S by (intro rising_target) (auto split: lvalue.splits)
  then show "sound_under C S (flow_stmt (SAssign t e sp)) (runs_stmt (SAssign t e sp))" unfolding flow_stmt.simps runs_stmt.simps using S
    by (intro sound_sound_under sound_then sound_exprD [OF e] sound_lvalueD [OF t] sound_target apart_rising rising_then) auto
qed

lemma killing_condition: "snd (consumed_expr c {||} []) = [] \<Longrightarrow> killing {} (runs_expr c)"
proof -
  assume c: "snd (consumed_expr c {||} []) = []"
  obtain l where "consumed_expr c {||} [] = ({||}, [] @ l)" "fst ` set l = eaten_expr c - fset {||}"
    using eats_all(1) [of c] by (metis finds_def)
  then have "eaten_expr c = {}" using c by simp
  then show ?thesis using killing_all(1) [of c] by simp
qed

lemma sound_while:
  assumes c: "sound_expr C c" and b: "sound_block C b" and t: "snd (consumed_expr c {||} []) = []" "apart C (assigned_block b)"
  shows "sound_stmt C (SWhile c b sp)"
  unfolding sound_stmt_def
proof (intro allI impI)
  fix S assume S: "S \<longrightarrow> apart C (assigned_stmt (SWhile c b sp))"
  show "sound_under C S (flow_stmt (SWhile c b sp)) (runs_stmt (SWhile c b sp))" unfolding flow_stmt.simps runs_stmt.simps
    using S t by (intro sound_sound_under sound_looping sound_exprD [OF c] killing_condition sound_blockD [OF b]
      killing_all apart_rising) auto
qed

lemma keep_then: "then_flow keep f = f" by (rule ext)+ (simp add: then_flow_def keep_def)

lemma sound_for:
  assumes e: "sound_expr C e" and b: "sound_block C b" and t: "apart C (assigned_block b)"
  shows "sound_stmt C (SFor x e b sp)"
  unfolding sound_stmt_def
proof (intro allI impI)
  fix S assume S: "S \<longrightarrow> apart C (assigned_stmt (SFor x e b sp))"
  define f where "f = scope_flow (then_flow (bind_flow (id_name x)) (flow_block b))"
  define B where "B = in_scope (followed_by (one (EvBind (id_name x))) (runs_block b))"
  have "sound C True f B" unfolding f_def B_def
    using t by (intro sound_scope sound_under_then sound_bind rising_bind sound_sound_under rising_rising_under
      sound_blockD [OF b] apart_rising) auto
  moreover have "killing (eaten_block b) B" unfolding B_def
  proof (rule killing_mono [OF killing_scope [OF killing_bind]])
    show "killing_under (eaten_block b) (runs_block b)"
      using killingD [OF killing_all(2)] by (auto simp: killing_under_def intro: kills_kills_under)
  qed blast
  moreover have r: "rising C f" unfolding f_def
    using t by (intro rising_scope rising_under_then rising_bind rising_rising_under apart_rising)
  ultimately have "sound C S (then_flow keep (then_flow (carried b) f)) (looping nothing B)"
    by (intro sound_looping sound_keep killing_nothing)
  then have "sound C S (then_flow (flow_expr e) (then_flow (carried b) f)) (followed_by (runs_expr e) (looping nothing B))"
    unfolding keep_then using S by (intro sound_then sound_exprD [OF e] apart_rising rising_then rising_carried r) auto
  then show "sound_under C S (flow_stmt (SFor x e b sp)) (runs_stmt (SFor x e b sp))"
    unfolding f_def B_def flow_stmt.simps runs_stmt.simps by (rule sound_sound_under)
qed

lemma sound_return:
  assumes "\<And>e. e \<in> set_option v \<Longrightarrow> sound_expr C e"
  shows "sound_stmt C (SReturn v sp)"
  unfolding sound_stmt_def
proof (intro allI impI)
  fix S assume S: "S \<longrightarrow> apart C (assigned_stmt (SReturn v sp))"
  define f where "f = (case map_option flow_expr v of Some g \<Rightarrow> g | None \<Rightarrow> keep)"
  define A where "A = (case map_option runs_expr v of Some B \<Rightarrow> B | None \<Rightarrow> nothing)"
  have "sound C S f A" "S \<Longrightarrow> rising C f"
    using assms S apart_rising by (cases v; auto simp: f_def A_def sound_keep rising_keep sound_expr_def)+
  then have "sound C S (then_flow f keep) (followed_by A (leaving Left))"
    by (intro sound_then sound_leaving rising_keep)
  then show "sound_under C S (flow_stmt (SReturn v sp)) (runs_stmt (SReturn v sp))"
    by (simp add: then_keep f_def A_def sound_sound_under)
qed

lemma sound_arm_bound:
  assumes "sound_expr C e"
  shows "sound_arm C (Arm p e sp)"
  unfolding sound_arm_def
proof (intro allI impI)
  fix S assume S: "S \<longrightarrow> apart C (assigned_arm (Arm p e sp))"
  show "sound C S (flow_arm (Arm p e sp)) (runs_arm (Arm p e sp))" unfolding flow_arm.simps runs_arm.simps
    using S by (intro sound_binds sound_sound_under sound_exprD [OF assms] rising_rising_under apart_rising) auto
qed

lemma tame_sound:
  "tame_expr C e \<Longrightarrow> sound_expr C e" "tame_block C b \<Longrightarrow> sound_block C b" "tame_stmt C st \<Longrightarrow> sound_stmt C st"
  "tame_lvalue C t \<Longrightarrow> sound_lvalue C t" "tame_arm C a \<Longrightarrow> sound_arm C a"
proof (induction e and b and st and t and a rule: expr.induct block.induct stmt.induct lvalue.induct arm.induct)
  case (EVar p i sp) show ?case by (auto simp: sound_expr_def sound_use sound_keep split: list.split)
next
  case (EList es i sp) then show ?case by (auto simp: sound_expr_def [of C "EList es i sp"] list_all_iff intro: sound_exprs)
next
  case (ERecord p fs i sp)
  have "sound_expr C (snd f)" if "f \<in> set fs" for f
    using ERecord.IH [OF that, of "snd f"] ERecord.prems that by (auto simp: list_all_iff intro: snds.intros)
  then show ?case by (rule sound_fields)
next
  case (ECall c es i sp)
  then show ?case by (auto simp: sound_expr_def [of C "ECall c es i sp"] list_all_iff intro!: sound_call)
next
  case (EMethod r m es i sp)
  then show ?case by (auto simp: sound_expr_def [of C "EMethod r m es i sp"] list_all_iff intro!: sound_call)
next
  case (EField e x i sp) then show ?case by (simp add: sound_expr_def)
next
  case (EIndex r j i sp) then show ?case by (auto simp: sound_expr_def [of C "EIndex r j i sp"] intro!: sound_two)
next
  case (EBinary op l r i sp) then show ?case by (auto intro!: sound_binary)
next
  case (EIf c t e i sp)
  have "sound_expr C e'" if "e' \<in> set_option e" for e' using EIf(3) [OF that] EIf.prems that by (cases e) auto
  then show ?case using EIf by (auto intro!: sound_if)
next
  case (EMatch e arms i sp) then show ?case by (auto simp: list_all_iff intro!: sound_match)
next
  case (ELambda ps rt row b i sp)
  have "rising C (flow_expr (ELambda ps rt row b i sp))" using ELambda by (intro apart_rising) simp
  then show ?case by (simp add: sound_expr_def sound_nothing)
next
  case (ETry e i sp) then show ?case by (auto intro: sound_try)
next
  case (ESpawn p es i sp) then show ?case by (auto simp: sound_expr_def [of C "ESpawn p es i sp"] list_all_iff intro: sound_exprs)
next
  case (Block ss i sp) then show ?case by (auto simp: list_all_iff intro: sound_seq)
next
  case (SLet x te e m sp) then show ?case by (auto intro: sound_let)
next
  case (SAssign t e sp) then show ?case by (auto intro: sound_assign)
next
  case (SWhile c b sp) then show ?case by (auto intro: sound_while)
next
  case (SFor x e b sp) then show ?case by (auto intro: sound_for)
next
  case (SReturn v sp)
  have "sound_expr C e'" if "e' \<in> set_option v" for e' using SReturn.IH [OF that] SReturn.prems that by (cases v) auto
  then show ?case by (rule sound_return)
next
  case (SExpr e) then show ?case by (simp add: sound_stmt_def sound_expr_def sound_sound_under)
next
  case (LIndex b e)
  then show ?case
    by (auto simp: sound_lvalue_def [of C "LIndex b e"] intro!: sound_then sound_exprD sound_lvalueD intro: apart_rising)
next
  case (Arm p e sp) then show ?case by (auto intro: sound_arm_bound)
qed (auto simp: sound_defs sound_keep sound_consume sound_sound_under sound_leaving rising_keep)

end
