(* ===== verification/Rcap_Bodies.thy ===== *)
theory Rcap_Bodies imports Rcap_Refine Rcap_Sound begin

text \<open>
  The bodies of a module and what is bound where each starts, with what the pass over the module says of them.
\<close>

definition start_marks :: "string list \<Rightarrow> marks" where "start_marks ns = fold bind_mark ns [Map.empty]"

fun bodies :: "item \<Rightarrow> (string list \<times> block) list" where
  "bodies (IFn f) = [(param_names (fd_params f), fd_body f)]"
| "bodies (IActor a) =
     (''self'' # param_names (cd_params (acd_ctor a)), cd_body (acd_ctor a))
     # map (\<lambda>b. (''self'' # param_names (bd_params b), bd_body b)) (acd_behaviors a)
     @ map (\<lambda>f. (''self'' # param_names (fd_params f), fd_body f)) (acd_fns a)"
| "bodies (ITest t) = [([''test_root''], ted_body t)]"
| "bodies IOther = []"

definition ctor_and_behaviors :: "actor_decl \<Rightarrow> (string \<times> param list) list" where
  "ctor_and_behaviors a = (''new'', cd_params (acd_ctor a)) # map (\<lambda>b. (id_name (bd_name b), bd_params b)) (acd_behaviors a)"

section \<open>What the pass promises of bodies\<close>

text \<open>From \<open>s\<close> to \<open>s'\<close> bodies were checked: where nothing was reported, the analysis accepts each.\<close>

definition checks :: "(string list \<times> block) list \<Rightarrow> pass \<Rightarrow> pass \<Rightarrow> bool" where
  "checks bs s s' \<longleftrightarrow>
     length (ps_diags s) \<le> length (ps_diags s') \<and> ps_capture s' = ps_capture s
     \<and> (length (ps_diags s') = length (ps_diags s) \<longrightarrow>
          (\<forall>(ns, b) \<in> set bs. flow_block b (ps_capture s) (start_marks ns) \<noteq> None))"

lemma checks_append: "checks bs s s1 \<Longrightarrow> checks cs s1 s2 \<Longrightarrow> checks (bs @ cs) s s2"
  by (auto simp: checks_def)

lemma checks_fold: "(\<And>x s. x \<in> set xs \<Longrightarrow> checks (h x) s (f x s)) \<Longrightarrow> checks (concat (map h xs)) s (fold f xs s)"
proof (induction xs arbitrary: s)
  case Nil then show ?case by (simp add: checks_def)
next
  case (Cons x xs)
  then show ?case by (auto intro!: checks_append)
qed

lemma checks_body:
  assumes "ps_diags s1 = ps_diags s" "ps_capture s1 = ps_capture s" "marks_of s1 = start_marks ns"
  shows "checks [(ns, b)] s (pop_scope (walk_block_with_tail E b r h s1))"
proof -
  have "tracks (flow_block b) s1 (walk_block_with_tail E b r h s1)"
    using walk_refines_flow(2) by (simp add: refines_block_def)
  then show ?thesis using assms by (auto simp: checks_def tracks_def follows_def)
qed

lemma bind_name_simps [simp]: "ps_diags (bind_name x b s) = ps_diags s" "ps_capture (bind_name x b s) = ps_capture s"
  by (simp_all add: bind_name_def split: list.split)

lemma bind_name_marks: "b_consumed b = None \<Longrightarrow> marks_of (bind_name x b s) = bind_mark x (marks_of s)"
  by (cases "ps_scopes s") (auto simp: bind_name_def bind_mark_def marks_of_def scope_marks_def is_dead_def fun_eq_iff)

lemma enter_simps [simp]:
  "ps_diags (enter_body s) = ps_diags s" "ps_capture (enter_body s) = ps_capture s" "marks_of (enter_body s) = start_marks []"
  by (simp_all add: enter_body_def start_marks_def marks_of_def scope_marks_def push_scope_def)

lemma sig_params_simps:
  "ps_diags (bind_sig_params E tys ps s) = ps_diags s \<and> ps_capture (bind_sig_params E tys ps s) = ps_capture s
   \<and> marks_of (bind_sig_params E tys ps s) = fold bind_mark (param_names ps) (marks_of s)"
proof -
  have "ps_diags (fold (\<lambda>(n, b). bind_name n b) (map (param_binding E tys) (enumerate k ps)) s) = ps_diags s
    \<and> ps_capture (fold (\<lambda>(n, b). bind_name n b) (map (param_binding E tys) (enumerate k ps)) s) = ps_capture s
    \<and> marks_of (fold (\<lambda>(n, b). bind_name n b) (map (param_binding E tys) (enumerate k ps)) s)
      = fold bind_mark (param_names ps) (marks_of s)" for k
  proof (induction ps arbitrary: s k)
    case Nil then show ?case by (simp add: param_names_def)
  next
    case (Cons p ps)
    then show ?case by (simp add: param_names_def param_binding_def Let_def bind_name_marks plain_binding_def)
  qed
  then show ?thesis by (simp add: bind_sig_params_def)
qed

lemma checks_fn: "checks (bodies (IFn f)) s (check_fn E f s)"
  unfolding check_fn_def Let_def bodies.simps by (rule checks_body) (simp_all add: sig_params_simps start_marks_def)

lemma checks_test: "checks (bodies (ITest t)) s (check_test E t s)"
  unfolding check_test_def bodies.simps
  by (rule checks_body) (simp_all add: start_marks_def bind_name_marks plain_binding_def)

lemma checks_member: "checks [(''self'' # param_names ps, b)] s (check_actor_member E a m ps b h s)"
  unfolding check_actor_member_def Let_def
  by (rule checks_body) (simp_all add: sig_params_simps start_marks_def bind_name_marks plain_binding_def)

lemma checks_report: "checks [] s (report d s)" by (simp add: checks_def)

lemma checks_boundary: "checks [] s (check_boundary_params E a m ps s)"
proof -
  have "checks [] s (check_boundary_param E k tys ip s)" for k tys ip s
    by (auto simp: check_boundary_param_def Let_def checks_report split: option.split) (simp_all add: checks_def)
  then have "checks (concat (map (\<lambda>_. []) (enumerate 0 ps))) s (check_boundary_params E a m ps s)"
    unfolding check_boundary_params_def by (intro checks_fold)
  then show ?thesis by (simp add: checks_def)
qed

lemma concat_single: "concat (map (\<lambda>x. [h x]) xs) = map h xs" by (induction xs) simp_all

text \<open>The members of an actor are checked after the parameters of its boundary.\<close>

definition check_members :: "rc_env \<Rightarrow> actor_decl \<Rightarrow> pass \<Rightarrow> pass" where
  "check_members E a s =
     fold (\<lambda>f. check_actor_member E (id_name (acd_name a)) (id_name (fd_name f)) (fd_params f) (fd_body f) (fd_ret f \<noteq> None)) (acd_fns a)
       (fold (\<lambda>b. check_actor_member E (id_name (acd_name a)) (id_name (bd_name b)) (bd_params b) (bd_body b) False) (acd_behaviors a)
         (check_actor_member E (id_name (acd_name a)) ''new'' (cd_params (acd_ctor a)) (cd_body (acd_ctor a)) False s))"

lemma check_actor_split:
  "check_actor E a s = check_members E a
     (fold (\<lambda>b. check_boundary_params E (id_name (acd_name a)) (id_name (bd_name b)) (bd_params b)) (acd_behaviors a)
       (check_boundary_params E (id_name (acd_name a)) ''new'' (cd_params (acd_ctor a)) s))"
  by (simp add: check_actor_def check_members_def Let_def)

lemma checks_members: "checks (bodies (IActor a)) s (check_members E a s)"
proof -
  define n where "n = id_name (acd_name a)"
  define s1 where "s1 = check_actor_member E n ''new'' (cd_params (acd_ctor a)) (cd_body (acd_ctor a)) False s"
  define s2 where "s2 = fold (\<lambda>b. check_actor_member E n (id_name (bd_name b)) (bd_params b) (bd_body b) False) (acd_behaviors a) s1"
  have c: "checks [(''self'' # param_names (cd_params (acd_ctor a)), cd_body (acd_ctor a))] s s1"
    unfolding s1_def by (rule checks_member)
  have d: "checks (concat (map (\<lambda>b. [(''self'' # param_names (bd_params b), bd_body b)]) (acd_behaviors a))) s1 s2"
    unfolding s2_def by (rule checks_fold) (rule checks_member)
  have e: "checks (concat (map (\<lambda>f. [(''self'' # param_names (fd_params f), fd_body f)]) (acd_fns a))) s2 (check_members E a s)"
    unfolding check_members_def n_def [symmetric] s1_def [symmetric] s2_def [symmetric] by (rule checks_fold) (rule checks_member)
  show ?thesis using checks_append [OF c checks_append [OF d e]] by (simp add: concat_single)
qed

lemma members_report: "length (ps_diags
    (fold (\<lambda>b. check_boundary_params E (id_name (acd_name a)) (id_name (bd_name b)) (bd_params b)) (acd_behaviors a)
       (check_boundary_params E (id_name (acd_name a)) ''new'' (cd_params (acd_ctor a)) s)))
  \<le> length (ps_diags (check_item E (IActor a) s))"
  using checks_members by (auto simp: check_actor_split checks_def simp del: bodies.simps)

lemma checks_actor: "checks (bodies (IActor a)) s (check_actor E a s)"
proof -
  define s1 where "s1 = check_boundary_params E (id_name (acd_name a)) ''new'' (cd_params (acd_ctor a)) s"
  define s2 where "s2 = fold (\<lambda>b. check_boundary_params E (id_name (acd_name a)) (id_name (bd_name b)) (bd_params b)) (acd_behaviors a) s1"
  have n0: "concat (map (\<lambda>_. []) bs) = []" for bs :: "behavior_decl list" by (induction bs) simp_all
  have p: "checks [] s s1" unfolding s1_def by (rule checks_boundary)
  have q: "checks (concat (map (\<lambda>_. []) (acd_behaviors a))) s1 s2" unfolding s2_def by (rule checks_fold) (rule checks_boundary)
  have b: "checks [] s s2" using checks_append [OF p q] by (simp only: n0 append_Nil)
  show ?thesis using checks_append [OF b checks_members] by (simp add: check_actor_split s2_def s1_def)
qed

lemma checks_item: "checks (bodies it) s (check_item E it s)"
proof (cases it)
  case (IFn f) then show ?thesis using checks_fn by (simp del: bodies.simps)
next
  case (IActor a) then show ?thesis using checks_actor by (simp del: bodies.simps)
next
  case (ITest t) then show ?thesis using checks_test by (simp del: bodies.simps)
next
  case IOther then show ?thesis by (simp add: checks_def)
qed

lemma accepted_flow:
  assumes "fst (check_rcaps E items) = []" "(ns, b) \<in> set (concat (map bodies items))"
  shows "flow_block b None (start_marks ns) \<noteq> None"
proof -
  have "checks (concat (map bodies items)) new_pass (fold (check_item E) items new_pass)"
    by (rule checks_fold) (rule checks_item)
  then show ?thesis using assms by (auto simp: checks_def check_rcaps_def Let_def new_pass_def)
qed

section \<open>Reports are never taken back\<close>

lemma more_reports: "length (ps_diags s) \<le> length (ps_diags (check_item E it s))"
  using checks_item [of it s E] by (simp add: checks_def)

lemma more_reports_fold: "length (ps_diags s) \<le> length (ps_diags (fold (check_item E) items s))"
  by (induction items arbitrary: s) (auto intro: order_trans [OF more_reports])

lemma accepted_item:
  assumes "fst (check_rcaps E items) = []" "it \<in> set items"
  obtains s where "ps_diags s = []" "ps_diags (check_item E it s) = []"
proof -
  obtain as bs where i: "items = as @ it # bs" using assms(2) by (meson split_list)
  define s where "s = fold (check_item E) as new_pass"
  have "length (ps_diags (fold (check_item E) bs (check_item E it s))) = 0"
    using assms(1) by (simp add: i check_rcaps_def Let_def s_def)
  then have z: "length (ps_diags (check_item E it s)) = 0" using more_reports_fold [of "check_item E it s" E bs] by simp
  then have "length (ps_diags s) = 0" using more_reports [of s E it] by simp
  then show thesis using that z by simp
qed

end
