(* ===== verification/Rcap_Flow_Claims.thy ===== *)
theory Rcap_Flow_Claims imports Rcap_Bodies begin

text \<open>
  Programs the reference-capability pass accepts although they break its rules, each evaluated: first those in which a
  binding that was consumed is used when they run, then those in which a capability is wrong.
\<close>

definition at0 :: span where "at0 = \<lparr>sp_file = 0, sp_start = 0, sp_end = 0\<rparr>"

definition nm :: "string \<Rightarrow> ident" where "nm x = \<lparr>id_name = x, id_span = at0\<rparr>"

definition var :: "string \<Rightarrow> expr" where "var x = EVar [nm x] 0 at0"

definition blk :: "stmt list \<Rightarrow> block" where "blk ss = Block ss 0 at0"

text \<open>\<open>List[Int]\<close> as it is written, and with a capability.\<close>

definition list_int :: type_expr where "list_int = TENamed [nm ''List''] [TENamed [nm ''Int''] [] at0] at0"

definition capped :: "rcap \<Rightarrow> type_expr" where "capped k = TERcap k list_int at0"

definition let_var :: "string \<Rightarrow> type_expr option \<Rightarrow> expr \<Rightarrow> stmt" where "let_var x t e = SLet (nm x) t e True at0"

definition bool_ty :: type_expr where "bool_ty = TENamed [nm ''Bool''] [] at0"

definition takes :: "string \<Rightarrow> rcap \<Rightarrow> fn_sig" where
  "takes f k = \<lparr>sig_name = f, sig_public = False, sig_generics = [], sig_params = [\<lparr>p_name = nm ''p'', p_ty = capped k\<rparr>],
     sig_ret = Some bool_ty, sig_row = None\<rparr>"

text \<open>A module with functions \<open>keep(p: val List[Int]) -> Bool\<close> and \<open>take(p: iso List[Int]) -> Bool\<close>; node 1 is the list that
  is written to.\<close>

definition demo_table :: decl_table where
  "demo_table = \<lparr>dt_types = [], dt_type_ix = Map.empty,
     dt_fns = [''keep'' \<mapsto> takes ''keep'' Val, ''take'' \<mapsto> takes ''take'' Iso], dt_consts = (\<lambda>_. False),
     dt_foreigns = (\<lambda>_. False), dt_actors = Map.empty\<rparr>"

definition demo_env :: rc_env where
  "demo_env = \<lparr>rc_table = demo_table, rc_node_types = [1 \<mapsto> TList TInt], rc_fn_types = Map.empty\<rparr>"

definition call :: "string \<Rightarrow> expr \<Rightarrow> expr" where "call f a = ECall (var f) [a] 0 at0"

definition push_to :: "string \<Rightarrow> expr" where
  "push_to x = EMethod (EVar [nm x] 1 at0) (nm ''push'') [ELit (LitInt 2) 0 at0] 0 at0"

definition fresh_list :: expr where "fresh_list = EList [ELit (LitInt 1) 0 at0] 0 at0"

definition consume :: "string \<Rightarrow> expr" where "consume x = EConsume (nm x) 0 at0"

definition fn_with :: "type_expr option \<Rightarrow> stmt list \<Rightarrow> item" where
  "fn_with ret ss = IFn \<lparr>fd_public = False, fd_name = nm ''f'', fd_generics = [], fd_params = [\<lparr>p_name = nm ''c'', p_ty = bool_ty\<rparr>],
     fd_ret = ret, fd_row = None, fd_body = blk ss\<rparr>"

definition accepts :: "stmt list \<Rightarrow> bool" where
  "accepts ss \<longleftrightarrow> fst (check_rcaps demo_env [fn_with None ss]) = []"

abbreviation let_unique :: stmt where "let_unique \<equiv> let_var ''x'' (Some (capped Iso)) fresh_list"

abbreviation take_x :: stmt where "take_x \<equiv> SExpr (call ''take'' (consume ''x''))"

abbreviation revive_x :: stmt where "revive_x \<equiv> SAssign (LVar (nm ''x'')) fresh_list at0"

text \<open>What the pass does report: a use after the consume, and writing to a list that was lent as \<open>val\<close>.\<close>

lemma use_after_consume_reported: "\<not> accepts [let_unique, take_x, SExpr (var ''x'')]" by code_simp

lemma write_after_lend_reported: "\<not> accepts [let_var ''x'' None fresh_list, SExpr (call ''keep'' (var ''x'')), SExpr (push_to ''x'')]"
  by code_simp

section \<open>Used after consumed\<close>

text \<open>The condition of a loop consumes; a loop that may not run revives; so does a right operand that may not.\<close>

definition condition_consumes :: "stmt list" where
  "condition_consumes = [let_unique, SWhile (call ''take'' (consume ''x'')) (blk []) at0]"

definition loop_revives :: "stmt list" where
  "loop_revives = [let_unique, take_x, SWhile (var ''c'') (blk [revive_x]) at0, take_x]"

definition operand_revives :: "stmt list" where
  "operand_revives = [let_unique, take_x,
     SExpr (EBinary OpAnd (var ''c'') (EBlock (blk [revive_x, SExpr (var ''c'')])) 0 at0), take_x]"

lemma gaps_accepted: "accepts condition_consumes" "accepts loop_revives" "accepts operand_revives"
  by code_simp+

abbreviation evs_take :: "event list" where "evs_take \<equiv> [EvUse ''take'', EvConsume ''x'']"

definition condition_run :: "event list" where
  "condition_run = [EvEnter, EvBind ''x''] @ evs_take @ [EvEnter, EvLeave] @ evs_take @ [EvLeave]"

definition no_revival_run :: "event list" where
  "no_revival_run = [EvEnter, EvBind ''x''] @ evs_take @ [EvUse ''c''] @ evs_take @ [EvLeave]"

lemma gap_runs_stuck:
  "run_events condition_run (start_marks [''c'']) = None" "run_events no_revival_run (start_marks [''c'']) = None"
  by (simp_all add: condition_run_def no_revival_run_def start_marks_def bind_mark_def mark_of_def)

section \<open>Capabilities\<close>

text \<open>A name bound to a branch's value aliases what the branch names, and the literal is lifted all the same.\<close>

lemma alias_through_a_branch:
  "accepts [let_var ''x'' None fresh_list,
     let_var ''a'' None (EIf (var ''c'') (blk [SExpr (var ''x'')]) (Some (var ''x'')) 0 at0),
     SExpr (call ''keep'' (var ''x'')), SExpr (push_to ''a'')]"
  by code_simp

text \<open>What a loop's body lends as \<open>val\<close> it writes to in the next iteration.\<close>

lemma lift_in_a_loop:
  "accepts [let_var ''x'' None fresh_list,
     SWhile (var ''c'') (blk [SExpr (push_to ''x''), SExpr (call ''keep'' (var ''x''))]) at0]"
  by code_simp

text \<open>A closure captures a unique value, which is then consumed.\<close>

lemma capture_of_unique:
  "accepts [let_unique, let_var ''g'' None (ELambda [] None None (blk [SExpr (push_to ''x'')]) 0 at0),
     take_x, SExpr (ECall (var ''g'') [] 0 at0)]"
  by code_simp

text \<open>What a \<open>recover\<close> makes unique is assigned to a name outside it.\<close>

lemma recover_leaks:
  "accepts [let_var ''y'' None fresh_list,
     let_var ''z'' None (ERecover None
       (blk [let_var ''a'' None fresh_list, SAssign (LVar (nm ''y'')) (var ''a'') at0, SExpr (var ''a'')]) 0 at0),
     SExpr (call ''take'' (consume ''z'')), SExpr (push_to ''y'')]"
  by code_simp

text \<open>A \<open>return\<close> inside a branch is not checked against the capability the function returns; at the top of its body it is.\<close>

lemma return_in_a_branch:
  "fst (check_rcaps demo_env [fn_with (Some (capped Iso))
     [let_var ''x'' None fresh_list, let_var ''y'' None (var ''x''),
      SExpr (EIf (var ''c'') (blk [SReturn (Some (var ''y'')) at0]) None 0 at0), SExpr fresh_list]]) = []"
  by code_simp

lemma return_at_the_top:
  "fst (check_rcaps demo_env [fn_with (Some (capped Iso))
     [let_var ''x'' None fresh_list, let_var ''y'' None (var ''x''), SReturn (Some (var ''y'')) at0]]) \<noteq> []"
  by code_simp

text \<open>What the reference-capability pass guarantees of the bodies it accepts.\<close>

section \<open>Use after consume\<close>

lemma bind_alive: "\<forall>m \<in> set ms. \<forall>x. m x \<noteq> Some True \<Longrightarrow> \<forall>m \<in> set (bind_mark n ms). \<forall>x. m x \<noteq> Some True"
  by (auto simp: bind_mark_def split: list.splits if_splits)

lemma all_alive: "m \<in> set (start_marks ns) \<Longrightarrow> m x \<noteq> Some True"
proof -
  have "\<forall>m \<in> set (fold bind_mark ns ms). \<forall>x. m x \<noteq> Some True" if "\<forall>m \<in> set ms. \<forall>x. m x \<noteq> Some True" for ms
    using that
  proof (induction ns arbitrary: ms)
    case (Cons n ns) then show ?case using Cons.IH [OF bind_alive [OF Cons.prems]] by simp
  qed simp
  from this [of "[Map.empty]"] show "m \<in> set (start_marks ns) \<Longrightarrow> m x \<noteq> Some True" by (simp add: start_marks_def)
qed


text \<open>A loop that consumes what it makes, and a value that one branch consumes.\<close>

definition demo_body :: "stmt list" where
  "demo_body = [let_unique, SWhile (var ''c'') (blk [let_var ''y'' (Some (capped Iso)) fresh_list,
     SExpr (call ''take'' (consume ''y''))]) at0, SExpr (EIf (var ''c'') (blk [take_x]) None 0 at0)]"

definition demo_run :: "event list" where
  "demo_run = [EvEnter, EvBind ''x'', EvUse ''c'', EvUse ''c'', EvEnter, EvUse ''take'', EvConsume ''x'', EvLeave, EvLeave]"

lemma run_seq: "t @ u = v \<Longrightarrow> (t, Done) \<in> A \<Longrightarrow> (u, Done) \<in> B \<Longrightarrow> (v, Done) \<in> followed_by A B"
  by (auto simp: followed_by_def)

lemma run_fresh: "([EvBind ''x''], Done) \<in> runs_stmt let_unique"
  by (auto simp: let_var_def fresh_list_def nm_def in_turn_def followed_by_def one_def nothing_def)

lemma run_take: "(evs_take, Done) \<in> runs_stmt take_x" "(evs_take, Done) \<in> runs_expr (call ''take'' (consume ''x''))"
  by (auto simp: call_def var_def consume_def nm_def in_turn_def followed_by_def one_def nothing_def)

lemma run_block: "(t, r) \<in> in_turn (map runs_stmt ss) \<Longrightarrow> (EvEnter # t @ [EvLeave], r) \<in> runs_block (blk ss)"
  by (auto simp: blk_def in_scope_def)

lemma run_no_rounds: "([EvUse ''c''], Done) \<in> runs_stmt (SWhile (var ''c'') b at0)"
proof -
  have "([EvUse ''c''], Done) \<in> looping (one (EvUse ''c'')) B" for B by (rule looping.ends) (simp add: one_def)
  then show ?thesis by (simp add: var_def nm_def)
qed

lemma run_stmts: "(t, Done) \<in> runs_stmt st \<Longrightarrow> (u, r) \<in> in_turn (map runs_stmt ss) \<Longrightarrow> (t @ u, r) \<in> in_turn (map runs_stmt (st # ss))"
  by (auto simp: in_turn_def followed_by_def)

lemma run_end: "([], Done) \<in> in_turn (map runs_stmt [])" by (simp add: in_turn_def nothing_def)

lemma demo_runs: "(demo_run, Done) \<in> runs_block (blk demo_body)"
proof -
  have take: "([EvEnter] @ (evs_take @ []) @ [EvLeave], Done) \<in> runs_block (blk [take_x])"
    using run_block [OF run_stmts [OF run_take(1) run_end]] by simp
  have "([EvUse ''c''] @ [EvEnter] @ (evs_take @ []) @ [EvLeave], Done) \<in> runs_stmt (SExpr (EIf (var ''c'') (blk [take_x]) None 0 at0))"
    unfolding runs_stmt.simps runs_expr.simps by (rule run_seq [OF refl _ UnI1 [OF take]]) (simp add: var_def nm_def one_def)
  from run_block [OF run_stmts [OF run_fresh run_stmts [OF run_no_rounds run_stmts [OF this run_end]]]]
  show ?thesis by (simp add: demo_body_def demo_run_def)
qed


text \<open>C21: A walk that reports nothing does to what is dead what the consume analysis does, of any body from any state; what
  the pass knows of types and capabilities plays no part in it.\<close>

theorem silent_walk_is_the_consume_analysis:
  assumes "ps_diags (walk_block_with_tail E b ret has_ret s) = ps_diags s"
  shows "flow_block b (ps_capture s) (marks_of s) = Some (marks_of (walk_block_with_tail E b ret has_ret s))"
  using walk_refines_flow(2) [of E b] assms by (simp add: refines_block_def tracks_def follows_def)

theorem silent_walk_is_the_consume_analysis_witness:
  "flow_block (blk demo_body) None (start_marks [''c''])
   = Some (marks_of (walk_block_with_tail demo_env (blk demo_body) None False (bind_name ''c'' (plain_binding None None) (enter_body new_pass))))"
proof -
  define s where "s = bind_name ''c'' (plain_binding None None) (enter_body new_pass)"
  have m: "ps_capture s = None" "marks_of s = start_marks [''c'']"
    unfolding s_def by (simp_all add: bind_name_marks plain_binding_def start_marks_def) (simp_all add: new_pass_def)
  have "ps_diags (walk_block_with_tail demo_env (blk demo_body) None False s) = ps_diags s" unfolding s_def by code_simp
  from silent_walk_is_the_consume_analysis [OF this] show ?thesis unfolding m s_def [symmetric] .
qed

text \<open>What a loop's body is said to consume is all that a run of it can kill outside it: a binding dies only if its name
  is among them and no scope nearer binds it.\<close>

theorem runs_kill_only_consumed_names:
  assumes "(t, r) \<in> runs_block b" "run_events t ms = Some ms'"
  shows "kills (set (map fst (consumed_free_names b))) ms ms'"
  using killingD [OF killing_all(2) assms] by (simp only: consumed_free_names_spec)

theorem runs_kill_only_consumed_names_witness:
  "kills {''x''} [[''c'' \<mapsto> False, ''x'' \<mapsto> False]] [[''c'' \<mapsto> False, ''x'' \<mapsto> True]]"
proof -
  have r: "([EvEnter, EvUse ''take'', EvConsume ''x'', EvLeave], Done) \<in> runs_block (blk [take_x])"
    using run_block [OF run_stmts [OF run_take(1) run_end]] by simp
  have "run_events [EvEnter, EvUse ''take'', EvConsume ''x'', EvLeave] [[''c'' \<mapsto> False, ''x'' \<mapsto> False]]
      = Some [[''c'' \<mapsto> False, ''x'' \<mapsto> True]]"
    by (simp add: mark_of_def fun_upd_twist)
  from runs_kill_only_consumed_names [OF r this] show ?thesis
    by (simp add: consumed_free_names_spec blk_def call_def var_def consume_def nm_def)
qed

text \<open>C22: The captures of a closure are the names that occur free in its body and are not its parameters, each once.\<close>

theorem closure_captures_are_the_free_variables:
  "set (closure_captures ps body) = fv_block body - set (param_names ps) \<and> distinct (closure_captures ps body)"
  using captures_spec by blast

section \<open>The boundary of an actor\<close>

definition crosses :: "rc_env \<Rightarrow> ty list \<Rightarrow> nat \<times> param \<Rightarrow> bool" where
  "crosses E tys ip \<longleftrightarrow>
     (\<exists>k. written_or_default E (p_ty (snd ip)) (if fst ip < length tys then Some (tys ! fst ip) else None) = Some k \<and> sendable k)"

lemma boundary_param_reports:
  "\<exists>ds. ps_diags (check_boundary_param E key tys ip s) = ps_diags s @ ds \<and> (ds = [] \<longrightarrow> crosses E tys ip)"
  by (auto simp: check_boundary_param_def crosses_def Let_def report_def split: option.split)

lemma boundary_params_report:
  "\<exists>ds. ps_diags (fold (check_boundary_param E key tys) ips s) = ps_diags s @ ds \<and> (ds = [] \<longrightarrow> list_all (crosses E tys) ips)"
proof (induction ips arbitrary: s)
  case (Cons ip ips)
  obtain ds where ds: "ps_diags (check_boundary_param E key tys ip s) = ps_diags s @ ds" "ds = [] \<longrightarrow> crosses E tys ip"
    using boundary_param_reports by blast
  obtain es where es: "ps_diags (fold (check_boundary_param E key tys) ips (check_boundary_param E key tys ip s))
      = ps_diags (check_boundary_param E key tys ip s) @ es" "es = [] \<longrightarrow> list_all (crosses E tys) ips"
    using Cons.IH by blast
  show ?case using ds es by (intro exI [of _ "ds @ es"]) auto
qed simp

lemma boundary_params_sendable:
  assumes "ps_diags (check_boundary_params E a m ps s) = ps_diags s" "i < length ps"
  shows "\<exists>k. boundary_dests E a m ps ! i = Some k \<and> sendable k"
proof -
  define tys where "tys = fn_param_types E (member_key a m)"
  have "list_all (crosses E tys) (enumerate 0 ps)"
    using boundary_params_report [of E "member_key a m" tys "enumerate 0 ps" s] assms(1)
    by (auto simp: check_boundary_params_def tys_def)
  moreover have "(i, ps ! i) \<in> set (enumerate 0 ps)" using assms(2) by (auto simp: in_set_enumerate_eq)
  ultimately have "crosses E tys (i, ps ! i)" by (simp add: list_all_iff)
  then show ?thesis using assms(2) by (auto simp: boundary_dests_def param_dests_def crosses_def tys_def nth_enumerate_eq)
qed

text \<open>In an accepted module every parameter of an actor's constructor and of its behaviors has a capability that may be
  sent, the one its messages are checked against.\<close>

theorem accepted_actors_take_only_sendable:
  assumes "fst (check_rcaps E items) = []" "IActor a \<in> set items" "(m, ps) \<in> set (ctor_and_behaviors a)" "i < length ps"
  shows "\<exists>k. boundary_dests E (id_name (acd_name a)) m ps ! i = Some k \<and> sendable k"
proof -
  define n where "n = id_name (acd_name a)"
  define ms where "ms = ctor_and_behaviors a"
  obtain s where s: "ps_diags s = []" "ps_diags (check_item E (IActor a) s) = []" using accepted_item [OF assms(1,2)] .
  define step where "step = (\<lambda>(m, ps). check_boundary_params E n m ps)"
  have mono: "length (ps_diags s) \<le> length (ps_diags (fold step xs s))" for xs s
  proof (induction xs arbitrary: s)
    case (Cons x xs)
    have "length (ps_diags s) \<le> length (ps_diags (step x s))"
      using checks_boundary by (auto simp: step_def checks_def split: prod.split)
    then show ?case using Cons.IH [of "step x s"] by simp
  qed simp
  have all: "ps_diags (fold step ms s) = []"
  proof -
    have "fold step ms s = fold (\<lambda>b. check_boundary_params E n (id_name (bd_name b)) (bd_params b)) (acd_behaviors a)
        (check_boundary_params E n ''new'' (cd_params (acd_ctor a)) s)"
      by (simp add: ms_def ctor_and_behaviors_def step_def fold_map comp_def)
    moreover have "length (ps_diags (fold step ms s)) \<le> length (ps_diags (check_item E (IActor a) s))"
      unfolding calculation using members_report [where E=E and a=a and s=s] by (simp add: n_def)
    ultimately show ?thesis using s(2) by simp
  qed
  obtain xs ys where split: "ms = xs @ (m, ps) # ys" using assms(3) by (metis ms_def split_list)
  have "ps_diags (check_boundary_params E n m ps (fold step xs s)) = []"
    using all mono [of "check_boundary_params E n m ps (fold step xs s)" ys] by (simp add: split step_def)
  moreover have "ps_diags (fold step xs s) = []"
    using all mono [of "fold step xs s" "(m, ps) # ys"] by (simp add: split)
  ultimately show ?thesis using boundary_params_sendable [of E n m ps _ i] assms(4) by (metis n_def)
qed

definition demo_actor :: actor_decl where
  "demo_actor = \<lparr>acd_name = nm ''A'', acd_generics = [], acd_fields = [],
     acd_ctor = \<lparr>cd_params = [], cd_row = None, cd_body = blk []\<rparr>,
     acd_behaviors = [\<lparr>bd_name = nm ''put'', bd_params = [\<lparr>p_name = nm ''p'', p_ty = capped Iso\<rparr>], bd_row = None, bd_body = blk []\<rparr>],
     acd_fns = []\<rparr>"

theorem accepted_actors_take_only_sendable_witness:
  "\<exists>k. boundary_dests demo_env ''A'' ''put'' [\<lparr>p_name = nm ''p'', p_ty = capped Iso\<rparr>] ! 0 = Some k \<and> sendable k"
proof -
  have a: "fst (check_rcaps demo_env [IActor demo_actor]) = []" by code_simp
  have m: "(''put'', [\<lparr>p_name = nm ''p'', p_ty = capped Iso\<rparr>]) \<in> set (ctor_and_behaviors demo_actor)"
    by (simp add: ctor_and_behaviors_def demo_actor_def nm_def)
  from accepted_actors_take_only_sendable [OF a _ m, of 0] show ?thesis by (simp add: demo_actor_def nm_def)
qed

section \<open>Where the rule stops\<close>

text \<open>The conditions on tame bodies are needed, for the pass accepts bodies that break them and go wrong: one whose
  loop's condition consumes, and two in which a name is assigned again only in a loop that may not run and only in a right
  operand that may not.\<close>

lemma untame_bodies_go_wrong:
  "(accepts condition_consumes \<and> (condition_run, Done) \<in> runs_block (blk condition_consumes)
     \<and> run_events condition_run (start_marks [''c'']) = None)
   \<and> (accepts loop_revives \<and> (no_revival_run, Done) \<in> runs_block (blk loop_revives)
     \<and> run_events no_revival_run (start_marks [''c'']) = None)
   \<and> (accepts operand_revives \<and> (no_revival_run, Done) \<in> runs_block (blk operand_revives)
     \<and> run_events no_revival_run (start_marks [''c'']) = None)"
proof (intro conjI gaps_accepted gap_runs_stuck)
  have round: "([EvEnter, EvLeave], Done) \<in> runs_block (blk [])" using run_block [OF run_end] by simp
  have "(evs_take @ [EvEnter, EvLeave] @ evs_take, Done) \<in> runs_stmt (SWhile (call ''take'' (consume ''x'')) (blk []) at0)"
    using looping.again [OF run_take(2) round disjI1 [OF refl] looping.ends [OF run_take(2)]] by simp
  from run_block [OF run_stmts [OF run_fresh run_stmts [OF this run_end]]]
  show "(condition_run, Done) \<in> runs_block (blk condition_consumes)" by (simp add: condition_consumes_def condition_run_def)
  from run_block [OF run_stmts [OF run_fresh run_stmts [OF run_take(1) run_stmts [OF run_no_rounds run_stmts [OF run_take(1) run_end]]]]]
  show "(no_revival_run, Done) \<in> runs_block (blk loop_revives)" by (simp add: loop_revives_def no_revival_run_def)
  have "([EvUse ''c''] @ [], Done) \<in> runs_stmt (SExpr (EBinary OpAnd (var ''c'') r 0 at0))" for r
    unfolding runs_stmt.simps runs_expr.simps by (rule run_seq [OF refl]) (simp_all add: var_def nm_def one_def nothing_def)
  from run_block [OF run_stmts [OF run_fresh run_stmts [OF run_take(1) run_stmts [OF this run_stmts [OF run_take(1) run_end]]]]]
  show "(no_revival_run, Done) \<in> runs_block (blk operand_revives)" by (simp add: operand_revives_def no_revival_run_def)
qed

end
