(* ===== verification/Actuator.thy ===== *)
theory Actuator imports Device_Scope begin

text \<open>
  The envelope of an actuator as the runtime holds it, \<open>crates/delulu-runtime/src/value.rs\<close>
  (\<open>ActuatorEnvelope\<close>) and \<open>device.rs\<close> (\<open>FailState\<close>, the two checks of a command against an envelope).
  A double is a number, an infinity (\<open>Infinite True\<close> below every number) or NaN; both zeros are one
  number, as every comparison here takes them. Of the values a program may pass the constructors a
  command is read from are modelled; every other value is \<open>OtherValue\<close>.
\<close>

section \<open>Doubles\<close>

text \<open>IEEE comparison: NaN is not below anything, itself included.\<close>

fun f64_le :: "f64 \<Rightarrow> f64 \<Rightarrow> bool" where
  "f64_le NaN _ = False"
| "f64_le _ NaN = False"
| "f64_le (Infinite neg) (Infinite neg') = (neg \<or> \<not> neg')"
| "f64_le (Infinite neg) (Finite _) = neg"
| "f64_le (Finite _) (Infinite neg) = (\<not> neg)"
| "f64_le (Finite x) (Finite y) = (x \<le> y)"

fun bit_length :: "nat \<Rightarrow> nat" where
  "bit_length n = (if n = 0 then 0 else Suc (bit_length (n div 2)))"

declare bit_length.simps [simp del]

text \<open>\<open>i as f64\<close>: 53 bits of the number are kept, rounded to the nearest and to the even one on a tie.\<close>

definition round_magnitude :: "nat \<Rightarrow> nat" where
  "round_magnitude m =
     (if m \<le> 2 ^ 53 then m
      else let s = bit_length m - 53; q = m div 2 ^ s; r = m mod 2 ^ s; half = 2 ^ (s - 1)
           in (if half < r \<or> (r = half \<and> odd q) then q + 1 else q) * 2 ^ s)"

definition f64_of_i64 :: "int \<Rightarrow> f64" where
  "f64_of_i64 i = Finite (of_int (sgn i * int (round_magnitude (nat \<bar>i\<bar>))))"

section \<open>The envelope\<close>

datatype fail_mode = HoldSetpoint | CoastFree | SafePark

fun fail_parse :: "string \<Rightarrow> fail_mode option" where
  "fail_parse s =
     (if s = ''hold'' then Some HoldSetpoint
      else if s = ''coast'' then Some CoastFree
      else if s = ''safe-park'' then Some SafePark
      else None)"

declare fail_parse.simps [simp del]

fun fail_name :: "fail_mode \<Rightarrow> string" where
  "fail_name HoldSetpoint = ''hold''"
| "fail_name CoastFree = ''coast''"
| "fail_name SafePark = ''safe-park''"

type_synonym bounded_dim = "string \<times> f64 \<times> f64"
type_synonym command_fields = "(string \<times> f64) list"

record actuator_envelope =
  ae_device :: string
  ae_dims :: "bounded_dim list"
  ae_rate_hz :: "nat option"
  ae_heartbeat_ms :: nat
  ae_ttl_ms :: nat
  ae_fail_state :: fail_mode

datatype envelope_error =
    EnvNoColon
  | EnvNoDevice
  | EnvBadPart string
  | EnvTwice string
  | EnvBadNumber string string
  | EnvZero string
  | EnvUnknownFail string
  | EnvBadRange string
  | EnvBadBound string
  | EnvNonFinite string string
  | EnvInverted string rat rat
  | EnvNoDims
  | EnvNoHeartbeat
  | EnvNoTtl
  | EnvNoFail
  | EnvTtlShort nat nat

subsection \<open>Reading the grant form\<close>

record envelope_terms =
  et_dims :: "bounded_dim list"
  et_rate :: "nat option"
  et_heartbeat :: "nat option"
  et_ttl :: "nat option"
  et_fail :: "fail_mode option"
  et_seen :: "string fset"

definition no_envelope_terms :: envelope_terms where
  "no_envelope_terms =
     \<lparr>et_dims = [], et_rate = None, et_heartbeat = None, et_ttl = None, et_fail = None, et_seen = {||}\<rparr>"

definition read_dim :: "libs \<Rightarrow> string \<Rightarrow> string \<Rightarrow> envelope_error + f64 \<times> f64" where
  "read_dim lb k v =
     (case split_once_str ''..'' v of
        None \<Rightarrow> Inl (EnvBadRange v)
      | Some (lo, hi) \<Rightarrow>
          (case read_f64 lb (trim lo) of
             None \<Rightarrow> Inl (EnvBadBound lo)
           | Some l \<Rightarrow>
               (case read_f64 lb (trim hi) of
                  None \<Rightarrow> Inl (EnvBadBound hi)
                | Some h \<Rightarrow>
                    (case (l, h) of
                       (Finite x, Finite y) \<Rightarrow> if y < x then Inl (EnvInverted k x y) else Inr (l, h)
                     | _ \<Rightarrow> Inl (EnvNonFinite k v)))))"

definition read_envelope_term :: "libs \<Rightarrow> string \<Rightarrow> string \<Rightarrow> envelope_terms \<Rightarrow> envelope_error + envelope_terms" where
  "read_envelope_term lb k v t =
     (if k = ''rate_hz'' then
        (case parse_unsigned u32_max v of None \<Rightarrow> Inl (EnvBadNumber k v) | Some n \<Rightarrow> Inr (t\<lparr>et_rate := Some n\<rparr>))
      else if k = ''heartbeat_ms'' then
        (case parse_unsigned u64_max v of
           None \<Rightarrow> Inl (EnvBadNumber k v)
         | Some n \<Rightarrow> if n = 0 then Inl (EnvZero k) else Inr (t\<lparr>et_heartbeat := Some n\<rparr>))
      else if k = ''ttl_ms'' then
        (case parse_unsigned u64_max v of
           None \<Rightarrow> Inl (EnvBadNumber k v)
         | Some n \<Rightarrow> if n = 0 then Inl (EnvZero k) else Inr (t\<lparr>et_ttl := Some n\<rparr>))
      else if k = ''fail'' then
        (case fail_parse v of None \<Rightarrow> Inl (EnvUnknownFail v) | Some f \<Rightarrow> Inr (t\<lparr>et_fail := Some f\<rparr>))
      else
        (case read_dim lb k v of
           Inl e \<Rightarrow> Inl e
         | Inr (l, h) \<Rightarrow> Inr (t\<lparr>et_dims := et_dims t @ [(k, l, h)]\<rparr>)))"

fun read_envelope_terms :: "libs \<Rightarrow> string list \<Rightarrow> envelope_terms \<Rightarrow> envelope_error + envelope_terms" where
  "read_envelope_terms lb [] t = Inr t"
| "read_envelope_terms lb (p # ps) t =
     (let part = trim p
      in if part = [] then read_envelope_terms lb ps t
         else (case split_once CHR ''='' part of
                 None \<Rightarrow> Inl (EnvBadPart part)
               | Some (k0, v0) \<Rightarrow>
                   let k = trim k0; v = trim v0
                   in if k |\<in>| et_seen t then Inl (EnvTwice k)
                      else (case read_envelope_term lb k v (t\<lparr>et_seen := finsert k (et_seen t)\<rparr>) of
                              Inl e \<Rightarrow> Inl e
                            | Inr t' \<Rightarrow> read_envelope_terms lb ps t')))"

definition envelope_parse :: "libs \<Rightarrow> string \<Rightarrow> envelope_error + actuator_envelope" where
  "envelope_parse lb spec =
     (case split_once CHR '':'' spec of
        None \<Rightarrow> Inl EnvNoColon
      | Some (d, rest) \<Rightarrow>
          let name = trim d
          in if name = [] then Inl EnvNoDevice
             else (case read_envelope_terms lb (split_on CHR '','' rest) no_envelope_terms of
                     Inl e \<Rightarrow> Inl e
                   | Inr t \<Rightarrow>
                       if et_dims t = [] then Inl EnvNoDims
                       else (case et_heartbeat t of
                               None \<Rightarrow> Inl EnvNoHeartbeat
                             | Some hb \<Rightarrow>
                                 (case et_ttl t of
                                    None \<Rightarrow> Inl EnvNoTtl
                                  | Some ttl \<Rightarrow>
                                      (case et_fail t of
                                         None \<Rightarrow> Inl EnvNoFail
                                       | Some f \<Rightarrow>
                                           if ttl < hb then Inl (EnvTtlShort ttl hb)
                                           else Inr \<lparr>ae_device = name, ae_dims = et_dims t, ae_rate_hz = et_rate t,
                                                     ae_heartbeat_ms = hb, ae_ttl_ms = ttl, ae_fail_state = f\<rparr>)))))"

section \<open>A command against an envelope\<close>

datatype check_error =
    NotARecord
  | NotNumeric string
  | NotBounded string string
  | OutsideBounds string f64 f64 f64

fun check_field :: "actuator_envelope \<Rightarrow> string \<Rightarrow> f64 \<Rightarrow> check_error + unit" where
  "check_field e d x =
     (case map_of (ae_dims e) d of
        None \<Rightarrow> Inl (NotBounded d (ae_device e))
      | Some (lo, hi) \<Rightarrow> if f64_le lo x \<and> f64_le x hi then Inr () else Inl (OutsideBounds d x lo hi))"

declare check_field.simps [simp del]

fun envelope_check :: "actuator_envelope \<Rightarrow> command_fields \<Rightarrow> check_error + unit" where
  "envelope_check e [] = Inr ()"
| "envelope_check e ((d, x) # fs) = (case check_field e d x of Inl r \<Rightarrow> Inl r | Inr _ \<Rightarrow> envelope_check e fs)"

datatype cmd_value = IntValue int | FloatValue f64 | RecordValue "(string \<times> cmd_value) list" | OtherValue

fun numeric :: "cmd_value \<Rightarrow> f64 option" where
  "numeric (IntValue i) = Some (f64_of_i64 i)"
| "numeric (FloatValue x) = Some x"
| "numeric _ = None"

fun check_values :: "actuator_envelope \<Rightarrow> (string \<times> cmd_value) list \<Rightarrow> check_error + unit" where
  "check_values e [] = Inr ()"
| "check_values e ((d, v) # fs) =
     (case numeric v of
        None \<Rightarrow> Inl (NotNumeric d)
      | Some x \<Rightarrow> (case check_field e d x of Inl r \<Rightarrow> Inl r | Inr _ \<Rightarrow> check_values e fs))"

fun command_check :: "actuator_envelope \<Rightarrow> cmd_value option \<Rightarrow> check_error + unit" where
  "command_check e (Some (RecordValue fs)) = check_values e fs"
| "command_check e _ = Inl NotARecord"

fun command_fields :: "cmd_value option \<Rightarrow> command_fields" where
  "command_fields (Some (RecordValue fs)) =
     concat (map (\<lambda>(d, v). case numeric v of Some x \<Rightarrow> [(d, x)] | None \<Rightarrow> []) fs)"
| "command_fields _ = []"

end
