(* ===== verification/Device_Sim.thy ===== *)
theory Device_Sim imports Actuator "HOL-Library.Word" begin

unbundle bit_operations_syntax

text \<open>
  The reference simulator of devices, \<open>crates/delulu-runtime/src/sim.rs\<close>: a position for each bounded
  dimension, the drive, the synthetic signal of a sensor, and the requests of the device process. A
  reply that refuses is a constructor with what its text interpolates; the reading of the lines is left out.
\<close>

section \<open>The synthetic signal\<close>

definition splitmix64 :: "64 word \<Rightarrow> 64 word" where
  "splitmix64 x0 =
     (let x = x0 + 0x9E3779B97F4A7C15;
          z1 = (x XOR drop_bit 30 x) * 0xBF58476D1CE4E5B9;
          z2 = (z1 XOR drop_bit 27 z1) * 0x94D049BB133111EB
      in z2 XOR drop_bit 31 z2)"

definition fnv1a :: "bytes \<Rightarrow> 64 word" where
  "fnv1a bs = fold (\<lambda>b h. (h XOR of_nat (of_char b)) * 0x100000001b3) bs 0xcbf29ce484222325"

text \<open>The 53 bits kept are a double exactly, and so are the division by a power of two, the doubling and
  the difference: the arithmetic below is the arithmetic of the rationals.\<close>

definition synthetic_signal :: "64 word \<Rightarrow> string \<Rightarrow> 64 word \<Rightarrow> rat" where
  "synthetic_signal seed name index =
     (let v = splitmix64 (seed XOR fnv1a name XOR (index * 0x9E3779B97F4A7C15));
          u = of_nat (unat (drop_bit 11 v)) / 2 ^ 53
      in u * 2 - 1)"

section \<open>The simulator\<close>

record sim_device =
  sd_pos :: "(string, f64) fmap"
  sd_drive :: bool

record sim =
  sim_seed :: "64 word"
  sim_devices :: "(string, sim_device) fmap"
  sim_reads :: "(string, 64 word) fmap"

definition park_point :: "f64 \<Rightarrow> f64 \<Rightarrow> f64" where
  "park_point lo hi =
     (if f64_le lo (Finite 0) \<and> f64_le (Finite 0) hi then Finite 0
      else if f64_le (Finite 0) lo \<and> \<not> f64_le lo (Finite 0) then lo
      else hi)"

definition park_dims :: "bounded_dim list \<Rightarrow> (string, f64) fmap \<Rightarrow> (string, f64) fmap" where
  "park_dims ds pos = fold (\<lambda>(d, lo, hi). fmupd d (park_point lo hi)) ds pos"

definition parked_device :: "actuator_envelope \<Rightarrow> sim_device" where
  "parked_device e = \<lparr>sd_pos = park_dims (ae_dims e) fmempty, sd_drive = False\<rparr>"

definition new_sim :: "64 word \<Rightarrow> actuator_envelope list \<Rightarrow> string list \<Rightarrow> sim" where
  "new_sim seed envs sensors =
     \<lparr>sim_seed = seed,
      sim_devices = fold (\<lambda>e. fmupd (ae_device e) (parked_device e)) envs fmempty,
      sim_reads = fold (\<lambda>s. fmupd s 0) sensors fmempty\<rparr>"

definition change_sim_device :: "string \<Rightarrow> (sim_device \<Rightarrow> sim_device) \<Rightarrow> sim \<Rightarrow> sim" where
  "change_sim_device name f s =
     (case fmlookup (sim_devices s) name of
        None \<Rightarrow> s
      | Some d \<Rightarrow> s\<lparr>sim_devices := fmupd name (f d) (sim_devices s)\<rparr>)"

definition drive :: "string \<Rightarrow> command_fields \<Rightarrow> sim \<Rightarrow> sim" where
  "drive name fs =
     change_sim_device name (\<lambda>d. d\<lparr>sd_drive := True, sd_pos := fold (\<lambda>(d, x). fmupd d x) fs (sd_pos d)\<rparr>)"

definition sim_read :: "string \<Rightarrow> sim \<Rightarrow> f64 option \<times> sim" where
  "sim_read name s =
     (case split_once CHR ''#'' name of
        Some (dev, axis) \<Rightarrow>
          (case fmlookup (sim_devices s) dev of None \<Rightarrow> None | Some d \<Rightarrow> fmlookup (sd_pos d) axis, s)
      | None \<Rightarrow>
          (case fmlookup (sim_reads s) name of
             None \<Rightarrow> (None, s)
           | Some n \<Rightarrow>
               (Some (Finite (synthetic_signal (sim_seed s) name n)), s\<lparr>sim_reads := fmupd name (n + 1) (sim_reads s)\<rparr>)))"

definition engage :: "string \<Rightarrow> fail_mode \<Rightarrow> actuator_envelope \<Rightarrow> sim \<Rightarrow> sim" where
  "engage name f e =
     change_sim_device name
       (\<lambda>d. case f of
              HoldSetpoint \<Rightarrow> d\<lparr>sd_drive := True\<rparr>
            | CoastFree \<Rightarrow> d\<lparr>sd_drive := False\<rparr>
            | SafePark \<Rightarrow> d\<lparr>sd_drive := True, sd_pos := park_dims (ae_dims e) (sd_pos d)\<rparr>)"

definition drive_engaged :: "string \<Rightarrow> sim \<Rightarrow> bool option" where
  "drive_engaged name s = map_option sd_drive (fmlookup (sim_devices s) name)"

section \<open>The device process\<close>

datatype reply =
    ReplyOk
  | ReplyVal rat
  | ReplyNoDev
  | NamesNothing
  | NotDimValue string
  | NotANumber string
  | NotFiniteSetpoint string f64
  | NoSuchBench string
  | BenchRefuses check_error
  | UnknownRequest string

fun parse_setpoints :: "libs \<Rightarrow> string list \<Rightarrow> reply + command_fields" where
  "parse_setpoints lb [] = Inr []"
| "parse_setpoints lb (p # ps) =
     (case split_once CHR ''='' p of
        None \<Rightarrow> Inl (NotDimValue p)
      | Some (axis, v) \<Rightarrow>
          (case read_f64 lb (trim v) of
             None \<Rightarrow> Inl (NotANumber v)
           | Some (Finite x) \<Rightarrow>
               (case parse_setpoints lb ps of Inl r \<Rightarrow> Inl r | Inr fs \<Rightarrow> Inr ((trim axis, Finite x) # fs))
           | Some x \<Rightarrow> Inl (NotFiniteSetpoint axis x)))"

definition answer_command :: "libs \<Rightarrow> string \<Rightarrow> actuator_envelope list \<Rightarrow> sim \<Rightarrow> reply \<times> sim" where
  "answer_command lb rest bounds s =
     (case split_once CHR '' '' rest of
        None \<Rightarrow> (NamesNothing, s)
      | Some (name, listed) \<Rightarrow>
          (case parse_setpoints lb (split_on CHR '','' listed) of
             Inl r \<Rightarrow> (r, s)
           | Inr fs \<Rightarrow>
               (case List.find (\<lambda>e. ae_device e = name) bounds of
                  None \<Rightarrow> (NoSuchBench name, s)
                | Some e \<Rightarrow>
                    (case envelope_check e fs of
                       Inl why \<Rightarrow> (BenchRefuses why, s)
                     | Inr _ \<Rightarrow> (ReplyOk, drive name fs s)))))"

definition answer :: "libs \<Rightarrow> string \<Rightarrow> actuator_envelope list \<Rightarrow> sim \<Rightarrow> reply \<times> sim" where
  "answer lb request bounds s =
     (case strip_prefix ''CMD '' request of
        Some rest \<Rightarrow> answer_command lb rest bounds s
      | None \<Rightarrow>
          (case strip_prefix ''READ '' request of
             Some name \<Rightarrow>
               (case sim_read (trim name) s of
                  (Some (Finite x), s') \<Rightarrow> (ReplyVal x, s')
                | (_, s') \<Rightarrow> (ReplyNoDev, s'))
           | None \<Rightarrow> (UnknownRequest request, s)))"

end
