(* ===== verification/Device_Broker.thy ===== *)
theory Device_Broker imports Device_Sim begin

text \<open>
  The device broker, \<open>crates/delulu-runtime/src/device.rs\<close>: one dead-man lease per device, the clocks, the
  commands and what a program is told of them. What the environment decides is an argument: the readings of
  the wall clock (\<open>readings\<close>), the hardware adapter (\<open>adapter\<close>, any implementation of the trait) and the
  probe of the grant tree. The locks serialise what happens to the leases, so an operation is a function of
  the state; the threads themselves are not modelled.
\<close>

section \<open>The state\<close>

datatype clock_mode = Wall | Stepped nat
datatype device_profile = NullDevices | Simulated "64 word" | Hardware string
datatype revoke_cause = MissedHeartbeat | TtlExpired | OperatorRevoke

fun cause_name :: "revoke_cause \<Rightarrow> string" where
  "cause_name MissedHeartbeat = ''missed-heartbeat''"
| "cause_name TtlExpired = ''ttl-expired''"
| "cause_name OperatorRevoke = ''operator-revoke''"

record revocation =
  rv_cause :: revoke_cause
  rv_overdue_us :: nat
  rv_engage_us :: nat

record lease_state =
  le_env :: actuator_envelope
  le_granted_at_us :: nat
  le_last_beat_us :: nat
  le_last_command_us :: "nat option"
  le_revoked :: "revocation option"

record device_event =
  ev_op :: string
  ev_device :: string
  ev_detail :: string
  ev_at_ms :: nat

record 'a device_broker =
  db_profile :: device_profile
  db_clock :: clock_mode
  virtual_us :: nat
  leases :: "(string, lease_state) fmap"
  db_sim :: sim
  journal :: "device_event list"
  db_adapter :: "'a option"

text \<open>An adapter: a command that fails with a text or not, and a reading that fails, is absent or is there.\<close>

record 'a adapter =
  ad_command :: "string \<Rightarrow> command_fields \<Rightarrow> 'a \<Rightarrow> string option \<times> 'a"
  ad_read :: "string \<Rightarrow> 'a \<Rightarrow> f64 option option \<times> 'a"

text \<open>What the wall clock shows during an operation: when it looks, how long the fail-state of a device
  takes to engage, and when the revocation of a device is written down.\<close>

record readings =
  rd_now_us :: nat
  rd_engage_us :: "string \<Rightarrow> nat"
  rd_stamp_us :: "string \<Rightarrow> nat"

definition now_us :: "nat \<Rightarrow> 'a device_broker \<Rightarrow> nat" where
  "now_us wall b = (case db_clock b of Wall \<Rightarrow> wall | Stepped _ \<Rightarrow> virtual_us b)"

definition new_lease :: "actuator_envelope \<Rightarrow> lease_state" where
  "new_lease e = \<lparr>le_env = e, le_granted_at_us = 0, le_last_beat_us = 0, le_last_command_us = None, le_revoked = None\<rparr>"

definition lease_names :: "'a device_broker \<Rightarrow> string list" where
  "lease_names b = sorted_list_of_fset (fmdom (leases b))"

section \<open>Deadlines and revocation\<close>

definition saturating_us :: "nat \<Rightarrow> nat" where
  "saturating_us ms = min u64_max (ms * 1000)"

definition due :: "lease_state \<Rightarrow> nat \<Rightarrow> (revoke_cause \<times> nat) option" where
  "due l t =
     (let since_beat = t - le_last_beat_us l; alive = t - le_granted_at_us l;
          hb_us = saturating_us (ae_heartbeat_ms (le_env l)); ttl_us = saturating_us (ae_ttl_ms (le_env l))
      in if hb_us < since_beat then Some (MissedHeartbeat, since_beat - hb_us)
         else if ttl_us < alive then Some (TtlExpired, alive - ttl_us)
         else None)"

text \<open>The two bytes of the micro sign.\<close>

definition micro :: string where "micro = [CHR 0xC2, CHR 0xB5]"

definition revoked_detail :: "string \<Rightarrow> actuator_envelope \<Rightarrow> revoke_cause \<Rightarrow> nat \<Rightarrow> string option \<Rightarrow> string" where
  "revoked_detail name e cause overdue why =
     name @ '': lease revoked ('' @ cause_name cause @ ''), heartbeat_ms='' @ show_nat (ae_heartbeat_ms e)
       @ '', ttl_ms='' @ show_nat (ae_ttl_ms e) @ '', ''
       @ (case cause of
            MissedHeartbeat \<Rightarrow> ''beat overdue by '' @ show_nat overdue @ '' '' @ micro @ ''s''
          | TtlExpired \<Rightarrow> ''held '' @ show_nat overdue @ '' '' @ micro @ ''s past its ttl''
          | OperatorRevoke \<Rightarrow> (case why of Some w \<Rightarrow> w | None \<Rightarrow> ''authority withdrawn''))"

definition engaged_detail :: "string \<Rightarrow> fail_mode \<Rightarrow> nat \<Rightarrow> string" where
  "engaged_detail name f us = name @ '': `'' @ fail_name f @ ''` fail-state engaged '' @ show_nat us @ '' '' @ micro @ ''s after detection''"

definition revoke_lease ::
  "readings \<Rightarrow> string \<Rightarrow> lease_state \<Rightarrow> revoke_cause \<Rightarrow> nat \<Rightarrow> string option \<Rightarrow> 'a device_broker \<Rightarrow> 'a device_broker" where
  "revoke_lease rd name l cause overdue why b =
     (let e = le_env l; f = ae_fail_state e;
          s = (case db_profile b of Simulated _ \<Rightarrow> engage name f e (db_sim b) | _ \<Rightarrow> db_sim b);
          us = (case db_clock b of Wall \<Rightarrow> rd_engage_us rd name | Stepped _ \<Rightarrow> 0);
          at_ms = now_us (rd_stamp_us rd name) b div 1000
      in b\<lparr>db_sim := s,
           leases := fmupd name (l\<lparr>le_revoked := Some \<lparr>rv_cause = cause, rv_overdue_us = overdue, rv_engage_us = us\<rparr>\<rparr>) (leases b),
           journal := journal b
             @ [\<lparr>ev_op = ''lease.revoked'', ev_device = name, ev_detail = revoked_detail name e cause overdue why, ev_at_ms = at_ms\<rparr>,
                \<lparr>ev_op = ''failstate.engaged'', ev_device = name, ev_detail = engaged_detail name f us, ev_at_ms = at_ms\<rparr>]\<rparr>)"

definition sweep_one :: "readings \<Rightarrow> nat \<Rightarrow> string \<Rightarrow> 'a device_broker \<Rightarrow> 'a device_broker" where
  "sweep_one rd t name b =
     (case fmlookup (leases b) name of
        None \<Rightarrow> b
      | Some l \<Rightarrow>
          if le_revoked l \<noteq> None then b
          else (case due l t of
                  None \<Rightarrow> b
                | Some (cause, overdue) \<Rightarrow> revoke_lease rd name l cause overdue None b))"

definition sweep :: "readings \<Rightarrow> nat \<Rightarrow> 'a device_broker \<Rightarrow> 'a device_broker" where
  "sweep rd t b = fold (sweep_one rd t) (lease_names b) b"

definition step_and_sweep :: "readings \<Rightarrow> 'a device_broker \<Rightarrow> 'a device_broker" where
  "step_and_sweep rd b =
     (case db_clock b of
        Wall \<Rightarrow> b
      | Stepped step_us \<Rightarrow>
          let b1 = b\<lparr>virtual_us := (virtual_us b + step_us) mod 2 ^ 64\<rparr> in sweep rd (virtual_us b1) b1)"

section \<open>Commands\<close>

datatype refusal_reason =
    NoLease string
  | LeaseGone string revoke_cause fail_mode
  | TooSoon string nat nat nat
  | OutsideEnvelope check_error
  | NoAdapter string
  | AdapterSays string string

datatype command_refusal = RefusedEnvelope refusal_reason | RefusedRevoked refusal_reason

definition revoked_reason :: "string \<Rightarrow> revocation \<Rightarrow> lease_state \<Rightarrow> refusal_reason" where
  "revoked_reason name r l = LeaseGone name (rv_cause r) (ae_fail_state (le_env l))"

definition rate_refusal :: "string \<Rightarrow> lease_state \<Rightarrow> nat \<Rightarrow> refusal_reason option" where
  "rate_refusal name l t =
     (case (ae_rate_hz (le_env l), le_last_command_us l) of
        (Some hz, Some prev) \<Rightarrow>
          if 0 < hz \<and> t - prev < 1000000 div hz then Some (TooSoon name hz (t - prev) (1000000 div hz)) else None
      | _ \<Rightarrow> None)"

definition adapter_step ::
  "'a adapter \<Rightarrow> string \<Rightarrow> command_fields \<Rightarrow> 'a device_broker \<Rightarrow> command_refusal option \<times> 'a device_broker" where
  "adapter_step A name fs b =
     (case db_profile b of
        Hardware _ \<Rightarrow>
          (case db_adapter b of
             None \<Rightarrow> (Some (RefusedRevoked (NoAdapter name)), b)
           | Some a \<Rightarrow>
               (case ad_command A name fs a of
                  (Some err, a') \<Rightarrow> (Some (RefusedEnvelope (AdapterSays name err)), b\<lparr>db_adapter := Some a'\<rparr>)
                | (None, a') \<Rightarrow> (None, b\<lparr>db_adapter := Some a'\<rparr>)))
      | _ \<Rightarrow> (None, b))"

definition sim_step :: "string \<Rightarrow> command_fields \<Rightarrow> 'a device_broker \<Rightarrow> 'a device_broker" where
  "sim_step name fs b = (case db_profile b of Simulated _ \<Rightarrow> b\<lparr>db_sim := drive name fs (db_sim b)\<rparr> | _ \<Rightarrow> b)"

definition command ::
  "'a adapter \<Rightarrow> readings \<Rightarrow> string \<Rightarrow> command_fields \<Rightarrow> 'a device_broker \<Rightarrow> (command_refusal + unit) \<times> 'a device_broker" where
  "command A rd name fs b0 =
     (let b = step_and_sweep rd b0
      in case fmlookup (leases b) name of
           None \<Rightarrow> (Inl (RefusedRevoked (NoLease name)), b)
         | Some l \<Rightarrow>
             (case le_revoked l of
                Some r \<Rightarrow> (Inl (RefusedRevoked (revoked_reason name r l)), b)
              | None \<Rightarrow>
                  let t = now_us (rd_now_us rd) b
                  in case rate_refusal name l t of
                       Some why \<Rightarrow> (Inl (RefusedEnvelope why), b)
                     | None \<Rightarrow>
                         (case envelope_check (le_env l) fs of
                            Inl why \<Rightarrow> (Inl (RefusedEnvelope (OutsideEnvelope why)), b)
                          | Inr _ \<Rightarrow>
                              (case adapter_step A name fs b of
                                 (Some why, b1) \<Rightarrow> (Inl why, b1)
                               | (None, b1) \<Rightarrow>
                                   let b2 = sim_step name fs b1
                                   in (Inr (), b2\<lparr>leases := fmupd name (l\<lparr>le_last_command_us := Some t, le_last_beat_us := t\<rparr>) (leases b2)\<rparr>)))))"

definition note_refused_attempt :: "readings \<Rightarrow> string \<Rightarrow> 'a device_broker \<Rightarrow> refusal_reason option \<times> 'a device_broker" where
  "note_refused_attempt rd name b0 =
     (let b = step_and_sweep rd b0
      in (case fmlookup (leases b) name of
            None \<Rightarrow> None
          | Some l \<Rightarrow> map_option (\<lambda>r. revoked_reason name r l) (le_revoked l), b))"

definition read_device :: "'a adapter \<Rightarrow> readings \<Rightarrow> string \<Rightarrow> 'a device_broker \<Rightarrow> f64 option \<times> 'a device_broker" where
  "read_device A rd name b0 =
     (let b = step_and_sweep rd b0
      in case db_profile b of
           NullDevices \<Rightarrow> (None, b)
         | Hardware _ \<Rightarrow>
             (case db_adapter b of
                None \<Rightarrow> (None, b)
              | Some a \<Rightarrow>
                  let (r, a') = ad_read A name a
                  in (case r of Some x \<Rightarrow> x | None \<Rightarrow> None, b\<lparr>db_adapter := Some a'\<rparr>))
         | Simulated _ \<Rightarrow> let (x, s) = sim_read name (db_sim b) in (x, b\<lparr>db_sim := s\<rparr>))"

definition beat_all :: "readings \<Rightarrow> 'a device_broker \<Rightarrow> 'a device_broker" where
  "beat_all rd b0 =
     (let b = step_and_sweep rd b0; t = now_us (rd_now_us rd) b
      in b\<lparr>leases := fmmap (\<lambda>l. if le_revoked l = None then l\<lparr>le_last_beat_us := t\<rparr> else l) (leases b)\<rparr>)"

definition revoke_device :: "readings \<Rightarrow> string \<Rightarrow> 'a device_broker \<Rightarrow> bool \<times> 'a device_broker" where
  "revoke_device rd name b =
     (case fmlookup (leases b) name of
        None \<Rightarrow> (False, b)
      | Some l \<Rightarrow>
          if le_revoked l \<noteq> None then (False, b)
          else (True, revoke_lease rd name l OperatorRevoke 0 (Some ''revoked in-process'') b))"

definition revocation_of :: "string \<Rightarrow> 'a device_broker \<Rightarrow> revocation option" where
  "revocation_of name b = (case fmlookup (leases b) name of None \<Rightarrow> None | Some l \<Rightarrow> le_revoked l)"

section \<open>The watchdog\<close>

datatype authority_state = AuthorityLive | AuthorityDead string

text \<open>One device of a check of the grant tree: the probe was answered before the lease is looked at again.\<close>

definition estop_one :: "readings \<Rightarrow> (string \<Rightarrow> authority_state) \<Rightarrow> string \<Rightarrow> 'a device_broker \<Rightarrow> 'a device_broker" where
  "estop_one rd probe name b =
     (case probe name of
        AuthorityLive \<Rightarrow> b
      | AuthorityDead why \<Rightarrow>
          (case fmlookup (leases b) name of
             None \<Rightarrow> b
           | Some l \<Rightarrow>
               if le_revoked l \<noteq> None then b else revoke_lease rd name l OperatorRevoke 0 (Some why) b))"

definition live_names :: "'a device_broker \<Rightarrow> string list" where
  "live_names b = filter (\<lambda>n. revocation_of n b = None) (lease_names b)"

definition estop_sweep :: "readings \<Rightarrow> (string \<Rightarrow> authority_state) \<Rightarrow> 'a device_broker \<Rightarrow> 'a device_broker" where
  "estop_sweep rd probe b = fold (estop_one rd probe) (live_names b) b"

definition watchdog_tick :: "readings \<Rightarrow> (string \<Rightarrow> authority_state) option \<Rightarrow> 'a device_broker \<Rightarrow> 'a device_broker" where
  "watchdog_tick rd probe b =
     (let b1 = (case probe of Some p \<Rightarrow> estop_sweep rd p b | None \<Rightarrow> b)
      in case db_clock b1 of Wall \<Rightarrow> sweep rd (rd_now_us rd) b1 | Stepped _ \<Rightarrow> b1)"

definition tick_ms :: "actuator_envelope list \<Rightarrow> nat" where
  "tick_ms envs = (let hb = (if envs = [] then 200 else Min (set (map ae_heartbeat_ms envs))) in min 25 (max 1 (hb div 4)))"

definition with_adapter ::
  "device_profile \<Rightarrow> actuator_envelope list \<Rightarrow> string list \<Rightarrow> readings \<Rightarrow> (string \<Rightarrow> authority_state) option \<Rightarrow> clock_mode
     \<Rightarrow> 'a option \<Rightarrow> 'a device_broker" where
  "with_adapter p envs sensors rd probe clock a =
     (let seed = (case p of Simulated s \<Rightarrow> s | _ \<Rightarrow> 0);
          b = \<lparr>db_profile = p, db_clock = clock, virtual_us = 0,
               leases = fold (\<lambda>e. fmupd (ae_device e) (new_lease e)) envs fmempty,
               db_sim = new_sim seed envs sensors, journal = [], db_adapter = a\<rparr>
      in case probe of Some pr \<Rightarrow> if envs = [] then b else estop_sweep rd pr b | None \<Rightarrow> b)"

section \<open>What a program is told\<close>

datatype actuate_answer = Actuated | AnswerEnvelope "check_error + refusal_reason" | AnswerRevoked refusal_reason

datatype refused_record = CommandRefused "check_error + refusal_reason" | CommandRevoked refusal_reason

definition actuate ::
  "'a adapter \<Rightarrow> readings \<Rightarrow> actuator_envelope \<Rightarrow> cmd_value option \<Rightarrow> 'a device_broker option
     \<Rightarrow> actuate_answer \<times> refused_record list \<times> 'a device_broker option" where
  "actuate A rd e cmd ob =
     (case command_check e cmd of
        Inl why \<Rightarrow>
          (case ob of
             None \<Rightarrow> (AnswerEnvelope (Inl why), [CommandRefused (Inl why)], None)
           | Some b \<Rightarrow>
               (case note_refused_attempt rd (ae_device e) b of
                  (Some gone, b') \<Rightarrow> (AnswerRevoked gone, [CommandRevoked gone], Some b')
                | (None, b') \<Rightarrow> (AnswerEnvelope (Inl why), [CommandRefused (Inl why)], Some b')))
      | Inr _ \<Rightarrow>
          (case ob of
             None \<Rightarrow> (Actuated, [], None)
           | Some b \<Rightarrow>
               (case command A rd (ae_device e) (command_fields cmd) b of
                  (Inr _, b') \<Rightarrow> (Actuated, [], Some b')
                | (Inl (RefusedEnvelope why), b') \<Rightarrow> (AnswerEnvelope (Inr why), [CommandRefused (Inr why)], Some b')
                | (Inl (RefusedRevoked why), b') \<Rightarrow> (AnswerRevoked why, [CommandRevoked why], Some b'))))"

definition sense :: "'a adapter \<Rightarrow> readings \<Rightarrow> string \<Rightarrow> 'a device_broker option \<Rightarrow> f64 option \<times> 'a device_broker option" where
  "sense A rd name ob =
     (case ob of None \<Rightarrow> (None, None) | Some b \<Rightarrow> let (x, b') = read_device A rd name b in (x, Some b'))"

end
