(* ===== verification/Actuator_Claims.thy ===== *)
theory Actuator_Claims imports Actuator begin

text \<open>
  The runtime's reading of a device grant against the broker's, and what the order of the authority
  means for the commands a machine takes.
\<close>

section \<open>Commands that pass the check\<close>

lemma check_field_iff:
  "check_field e d x = Inr () \<longleftrightarrow> (\<exists>lo hi. map_of (ae_dims e) d = Some (lo, hi) \<and> f64_le lo x \<and> f64_le x hi)"
  by (auto simp: check_field.simps split: option.splits)

lemma envelope_check_iff: "envelope_check e fs = Inr () \<longleftrightarrow> (\<forall>(d, x) \<in> set fs. check_field e d x = Inr ())"
  by (induction fs) (auto split: sum.splits)

lemma check_values_iff:
  "check_values e fs = Inr () \<longleftrightarrow> (\<forall>(d, v) \<in> set fs. \<exists>x. numeric v = Some x \<and> check_field e d x = Inr ())"
  by (induction fs) (auto split: sum.splits option.splits)

lemma checked_fields:
  "check_values e fs = Inr () \<Longrightarrow>
     envelope_check e (command_fields (Some (RecordValue fs))) = Inr () \<and>
     map fst (command_fields (Some (RecordValue fs))) = map fst fs"
  by (induction fs) (auto split: option.splits sum.splits)

lemma checked_commands:
  assumes "command_check e cmd = Inr ()"
  shows "envelope_check e (command_fields cmd) = Inr ()"
  using assms checked_fields by (cases "(e, cmd)" rule: command_check.cases) auto

lemma f64_le_NaN [simp]: "\<not> f64_le x NaN" by (cases x) simp_all

section \<open>The two readings of a grant\<close>

definition finite_of :: "f64 \<Rightarrow> rat" where
  "finite_of x = (case x of Finite r \<Rightarrow> r | _ \<Rightarrow> 0)"

definition plain_dims :: "bounded_dim list \<Rightarrow> (string \<times> rat \<times> rat) list" where
  "plain_dims = map (\<lambda>(d, r). (d, finite_of (fst r), finite_of (snd r)))"

definition scope_of :: "actuator_envelope \<Rightarrow> device_scope" where
  "scope_of e =
     \<lparr>device_name = ae_device e, dims = fmap_of_list (plain_dims (ae_dims e)), rate_hz = ae_rate_hz e,
      heartbeat_ms = ae_heartbeat_ms e, ttl_ms = ae_ttl_ms e, fail_state = fail_name (ae_fail_state e)\<rparr>"

definition proper_dims :: "bounded_dim list \<Rightarrow> bool" where
  "proper_dims ds \<longleftrightarrow> distinct (map fst ds) \<and> (\<forall>(_, lo, hi) \<in> set ds. \<exists>x y. lo = Finite x \<and> hi = Finite y \<and> x \<le> y)"

definition agree :: "device_terms \<Rightarrow> envelope_terms \<Rightarrow> bool" where
  "agree t u \<longleftrightarrow>
     t_rate t = et_rate u \<and> t_heartbeat t = et_heartbeat u \<and> t_ttl t = et_ttl u \<and>
     t_fail t = map_option fail_name (et_fail u) \<and> t_seen t = et_seen u \<and>
     t_dims t = fmap_of_list (plain_dims (et_dims u)) \<and>
     fst ` set (et_dims u) \<subseteq> fset (et_seen u) \<and> proper_dims (et_dims u)"

lemma fail_parse_iff: "fail_parse s = Some f \<longleftrightarrow> s = fail_name f"
  by (cases f) (auto simp: fail_parse.simps)

lemma fail_parse_None: "fail_parse s = None \<longleftrightarrow> s \<notin> set FAIL_STATES"
  by (auto simp: FAIL_STATES_def fail_parse.simps)

lemma fail_name_mem [simp]: "fail_name f \<in> set FAIL_STATES" by (cases f) (auto simp: FAIL_STATES_def)

lemma read_dim_agrees:
  "case read_dim lb k v of
     Inr (l, h) \<Rightarrow> \<exists>x y. l = Finite x \<and> h = Finite y \<and> x \<le> y \<and> read_range lb k v = Inr (x, y)
   | Inl _ \<Rightarrow> \<exists>e. read_range lb k v = Inl e"
  by (auto simp: read_dim_def read_range_def read_bound_def split: option.splits sum.splits f64.splits prod.splits)

lemma plain_dims_snoc: "plain_dims (ds @ [(k, Finite x, Finite y)]) = plain_dims ds @ [(k, x, y)]"
  by (simp add: plain_dims_def finite_of_def)

lemma plain_dims_names: "fst ` set (plain_dims ds) = fst ` set ds"
  by (force simp: plain_dims_def image_image split_beta)

lemma fmap_add_single: "k |\<notin>| fmdom m \<Longrightarrow> fmupd k r fmempty ++\<^sub>f m = fmupd k r m"
  by (rule fmap_ext) (auto simp: fmlookup_dom_iff)

lemma agree_dim:
  assumes "agree t u" "k |\<notin>| et_seen u" "x \<le> y"
  shows "agree (t\<lparr>t_seen := finsert k (t_seen t), t_dims := fmupd k (x, y) (t_dims t)\<rparr>)
           (u\<lparr>et_seen := finsert k (et_seen u), et_dims := et_dims u @ [(k, Finite x, Finite y)]\<rparr>)"
proof -
  have new: "k \<notin> fst ` set (et_dims u)" using assms by (auto simp: agree_def)
  then have "k |\<notin>| fmdom (fmap_of_list (plain_dims (et_dims u)))"
    by (simp add: fset_of_list.rep_eq plain_dims_names)
  with new show ?thesis using assms
    by (auto simp: agree_def plain_dims_snoc fmap_add_single proper_dims_def)
qed

lemma agree_mono: "agree t u \<Longrightarrow> fst ` set (et_dims u) \<subseteq> insert k (fset (et_seen u))"
  by (auto simp: agree_def)

lemma read_term_agrees:
  assumes "agree t u" "k |\<notin>| et_seen u"
  shows "case read_envelope_term lb k v (u\<lparr>et_seen := finsert k (et_seen u)\<rparr>) of
           Inr u' \<Rightarrow> \<exists>t'. read_term lb k v (t\<lparr>t_seen := finsert k (t_seen t)\<rparr>) = Inr t' \<and> agree t' u'
         | Inl _ \<Rightarrow> \<forall>t'. read_term lb k v (t\<lparr>t_seen := finsert k (t_seen t)\<rparr>) = Inr t' \<longrightarrow>
                      t_ttl t' = Some 0 \<and> ''ttl_ms'' |\<in>| t_seen t'"
proof -
  consider "k = ''rate_hz''" | "k = ''heartbeat_ms''" | "k = ''ttl_ms''" | "k = ''fail''"
    | (dim) "k \<notin> {''rate_hz'', ''heartbeat_ms'', ''ttl_ms'', ''fail''}" by blast
  then show ?thesis
  proof cases
    case 1
    then show ?thesis using assms(1) agree_mono [OF assms(1)]
      by (cases "parse_unsigned u32_max v") (simp_all add: read_term_def read_envelope_term_def agree_def)
  next
    case 2
    then show ?thesis using assms(1) agree_mono [OF assms(1)]
      by (cases "parse_unsigned u64_max v") (simp_all add: read_term_def read_envelope_term_def agree_def)
  next
    case 3
    then show ?thesis using assms(1) agree_mono [OF assms(1)]
      by (cases "parse_unsigned u64_max v") (simp_all add: read_term_def read_envelope_term_def agree_def)
  next
    case 4
    show ?thesis
    proof (cases "fail_parse v")
      case None
      then show ?thesis using 4 by (simp add: read_term_def read_envelope_term_def fail_parse_None [symmetric])
    next
      case (Some a)
      then have "v = fail_name a" by (simp add: fail_parse_iff)
      then show ?thesis using Some 4 assms(1) agree_mono [OF assms(1)]
        by (simp add: read_term_def read_envelope_term_def agree_def)
    qed
  next
    case dim
    then show ?thesis using read_dim_agrees [of lb k v] agree_dim [OF assms]
      by (cases "read_dim lb k v") (auto simp: read_term_def read_envelope_term_def)
  qed
qed

lemma zero_ttl_stays:
  "read_terms lb ps t = Inr t' \<Longrightarrow> t_ttl t = Some 0 \<Longrightarrow> ''ttl_ms'' |\<in>| t_seen t \<Longrightarrow> t_ttl t' = Some 0"
proof (induction ps arbitrary: t)
  case (Cons p ps)
  have "t_ttl t'' = Some 0 \<and> ''ttl_ms'' |\<in>| t_seen t''"
    if "read_term lb k v (t\<lparr>t_seen := finsert k (t_seen t)\<rparr>) = Inr t''" "k |\<notin>| t_seen t" for k v t''
    using that Cons.prems by (auto simp: read_term_def split: if_splits option.splits sum.splits)
  with Cons show ?case by (auto simp: Let_def split: if_splits option.splits sum.splits)
qed simp

lemma read_terms_agree:
  "agree t u \<Longrightarrow>
     (case read_envelope_terms lb ps u of
        Inr u' \<Rightarrow> \<exists>t'. read_terms lb ps t = Inr t' \<and> agree t' u'
      | Inl _ \<Rightarrow> \<forall>t'. read_terms lb ps t = Inr t' \<longrightarrow> t_ttl t' = Some 0)"
proof (induction ps arbitrary: t u)
  case (Cons p ps)
  show ?case
  proof (cases "trim p = [] \<or> split_once CHR ''='' (trim p) = None")
    case True
    then show ?thesis using Cons.IH [OF Cons.prems] by (cases "read_envelope_terms lb ps u"; cases "trim p = []") (simp_all add: Let_def)
  next
    case False
    then obtain k v where kv: "trim p \<noteq> []" "split_once CHR ''='' (trim p) = Some (k, v)" by auto
    show ?thesis
    proof (cases "trim k |\<in>| et_seen u")
      case True
      then show ?thesis using kv Cons.prems by (auto simp: Let_def agree_def)
    next
      case new: False
      then have new': "trim k |\<notin>| t_seen t" using Cons.prems by (simp add: agree_def)
      show ?thesis
      proof (cases "read_envelope_term lb (trim k) (trim v) (u\<lparr>et_seen := finsert (trim k) (et_seen u)\<rparr>)")
        case (Inl e)
        then show ?thesis using read_term_agrees [OF Cons.prems new, of lb "trim v"] kv new new'
          by (auto simp: Let_def split: sum.splits dest: zero_ttl_stays)
      next
        case (Inr u')
        then obtain t' where "read_term lb (trim k) (trim v) (t\<lparr>t_seen := finsert (trim k) (t_seen t)\<rparr>) = Inr t'" "agree t' u'"
          using read_term_agrees [OF Cons.prems new, of lb "trim v"] by auto
        then show ?thesis using Cons.IH [of t' u'] kv new new' Inr
          by (cases "read_envelope_terms lb ps u'") (simp_all add: Let_def)
      qed
    qed
  qed
qed simp

lemma agree_start: "agree no_terms no_envelope_terms"
  by (simp add: agree_def no_terms_def no_envelope_terms_def plain_dims_def proper_dims_def)

lemma plain_dims_empty: "fmap_of_list (plain_dims ds) = fmempty \<longleftrightarrow> ds = []"
proof
  assume "fmap_of_list (plain_dims ds) = fmempty"
  from this [THEN arg_cong, of "\<lambda>m. fset (fmdom m)"] have "fst ` set (plain_dims ds) = {}" by (simp add: fset_of_list.rep_eq)
  then show "ds = []" by (simp add: plain_dims_names)
qed (simp add: plain_dims_def)

lemma envelope_parse_Inr:
  "envelope_parse lb spec = Inr e \<longleftrightarrow>
     (\<exists>d rest t. split_once CHR '':'' spec = Some (d, rest) \<and> trim d \<noteq> [] \<and>
        read_envelope_terms lb (split_on CHR '','' rest) no_envelope_terms = Inr t \<and> et_dims t \<noteq> [] \<and>
        et_heartbeat t = Some (ae_heartbeat_ms e) \<and> et_ttl t = Some (ae_ttl_ms e) \<and> et_fail t = Some (ae_fail_state e) \<and>
        ae_heartbeat_ms e \<le> ae_ttl_ms e \<and> ae_device e = trim d \<and> ae_dims e = et_dims t \<and> ae_rate_hz e = et_rate t)"
  by (cases e) (auto simp: envelope_parse_def Let_def not_less split: option.splits sum.splits)

lemma device_parse_Inr:
  "device_parse lb spec = Inr e \<longleftrightarrow>
     (\<exists>d rest t. split_once CHR '':'' spec = Some (d, rest) \<and> trim d \<noteq> [] \<and>
        read_terms lb (split_on CHR '','' rest) no_terms = Inr t \<and> t_dims t \<noteq> fmempty \<and>
        t_heartbeat t = Some (heartbeat_ms e) \<and> t_ttl t = Some (ttl_ms e) \<and> t_fail t = Some (fail_state e) \<and>
        heartbeat_ms e \<le> ttl_ms e \<and> device_name e = trim d \<and> dims e = t_dims t \<and> rate_hz e = t_rate t)"
  by (cases e) (auto simp: device_parse_def Let_def not_less split: option.splits sum.splits)

text \<open>C10: The two readers of a device grant agree: the broker's reader accepts a text exactly when the runtime's
  does, and then the authority it records is the envelope that is enforced, interval by interval and term by term.\<close>

theorem grant_readers_agree:
  "device_parse lb spec = Inr d \<longleftrightarrow> (\<exists>e. envelope_parse lb spec = Inr e \<and> scope_of e = d)"
proof
  assume d: "device_parse lb spec = Inr d"
  then obtain n rest t where t: "split_once CHR '':'' spec = Some (n, rest)" "trim n \<noteq> []"
      "read_terms lb (split_on CHR '','' rest) no_terms = Inr t" "t_dims t \<noteq> fmempty"
      "t_heartbeat t = Some (heartbeat_ms d)" "t_ttl t = Some (ttl_ms d)" "t_fail t = Some (fail_state d)"
      "heartbeat_ms d \<le> ttl_ms d" "device_name d = trim n" "dims d = t_dims t" "rate_hz d = t_rate t"
    unfolding device_parse_Inr by blast
  have "ttl_ms d \<noteq> 0" using device_parse_ok [OF d] by (auto simp: device_ok_def)
  then obtain u where u: "read_envelope_terms lb (split_on CHR '','' rest) no_envelope_terms = Inr u" "agree t u"
    using read_terms_agree [OF agree_start, of lb "split_on CHR '','' rest"] t by (auto split: sum.splits)
  then obtain f where f: "et_fail u = Some f" "fail_name f = fail_state d" using t(7) by (cases "et_fail u") (simp_all add: agree_def)
  let ?e = "\<lparr>ae_device = trim n, ae_dims = et_dims u, ae_rate_hz = et_rate u, ae_heartbeat_ms = heartbeat_ms d,
    ae_ttl_ms = ttl_ms d, ae_fail_state = f\<rparr>"
  have "envelope_parse lb spec = Inr ?e"
    unfolding envelope_parse_Inr using t u f by (auto simp: agree_def plain_dims_empty)
  moreover have "scope_of ?e = d" using t u f by (cases d) (simp add: scope_of_def agree_def)
  ultimately show "\<exists>e. envelope_parse lb spec = Inr e \<and> scope_of e = d" by blast
next
  assume "\<exists>e. envelope_parse lb spec = Inr e \<and> scope_of e = d"
  then obtain e where e: "envelope_parse lb spec = Inr e" "scope_of e = d" by blast
  from e(1) obtain n rest u where u: "split_once CHR '':'' spec = Some (n, rest)" "trim n \<noteq> []"
      "read_envelope_terms lb (split_on CHR '','' rest) no_envelope_terms = Inr u" "et_dims u \<noteq> []"
      "et_heartbeat u = Some (ae_heartbeat_ms e)" "et_ttl u = Some (ae_ttl_ms e)" "et_fail u = Some (ae_fail_state e)"
      "ae_heartbeat_ms e \<le> ae_ttl_ms e" "ae_device e = trim n" "ae_dims e = et_dims u" "ae_rate_hz e = et_rate u"
    unfolding envelope_parse_Inr by blast
  obtain t where "read_terms lb (split_on CHR '','' rest) no_terms = Inr t" "agree t u"
    using read_terms_agree [OF agree_start, of lb "split_on CHR '','' rest"] u by (auto split: sum.splits)
  then show "device_parse lb spec = Inr d"
    unfolding device_parse_Inr using u by (auto simp: agree_def plain_dims_empty scope_of_def e(2) [symmetric])
qed

section \<open>The order of the authority and the commands\<close>

lemma parsed_dims:
  assumes "envelope_parse lb spec = Inr e"
  shows "proper_dims (ae_dims e)"
proof -
  obtain n rest u where "read_envelope_terms lb (split_on CHR '','' rest) no_envelope_terms = Inr u" "ae_dims e = et_dims u"
    using assms unfolding envelope_parse_Inr by blast
  then show ?thesis
    using read_terms_agree [OF agree_start, of lb "split_on CHR '','' rest"] by (auto simp: agree_def split: sum.splits)
qed

lemma plain_lookup: "map_of (plain_dims ds) d = map_option (\<lambda>r. (finite_of (fst r), finite_of (snd r))) (map_of ds d)"
  by (induction ds) (auto simp: plain_dims_def)

lemma dims_lookup: "fmlookup (dims (scope_of e)) d = map_option (\<lambda>r. (finite_of (fst r), finite_of (snd r))) (map_of (ae_dims e) d)"
  by (simp add: scope_of_def fmlookup_of_list plain_lookup)

lemma proper_lookup:
  "proper_dims (ae_dims e) \<Longrightarrow>
     fmlookup (dims (scope_of e)) d = Some (x, y) \<longleftrightarrow> map_of (ae_dims e) d = Some (Finite x, Finite y)"
  by (fastforce simp: dims_lookup proper_dims_def finite_of_def dest: map_of_SomeD)

lemma check_field_scope:
  "proper_dims (ae_dims e) \<Longrightarrow>
     check_field e d v = Inr () \<longleftrightarrow> (\<exists>x y. fmlookup (dims (scope_of e)) d = Some (x, y) \<and> f64_le (Finite x) v \<and> f64_le v (Finite y))"
  by (auto simp: check_field_iff proper_lookup) (fastforce simp: proper_dims_def dest: map_of_SomeD)

lemma f64_le_trans: "f64_le x y \<Longrightarrow> f64_le y z \<Longrightarrow> f64_le x z"
  by (cases x; cases y; cases z) auto

lemma wider_takes_more:
  assumes "proper_dims (ae_dims c)" "proper_dims (ae_dims p)"
    and "fmap_within range_within (dims (scope_of c)) (dims (scope_of p))" "check_field c d v = Inr ()"
  shows "check_field p d v = Inr ()"
proof -
  obtain x y where "fmlookup (dims (scope_of c)) d = Some (x, y)" "f64_le (Finite x) v" "f64_le v (Finite y)"
    using assms(4) check_field_scope [OF assms(1)] by auto
  moreover from this obtain x' y' where "fmlookup (dims (scope_of p)) d = Some (x', y')" "x' \<le> x" "y \<le> y'"
    using assms(3) by (fastforce simp: fmap_within_iff range_within_iff)
  ultimately show ?thesis
    unfolding check_field_scope [OF assms(2)]
    using f64_le_trans [of "Finite x'" "Finite x" v] f64_le_trans [of v "Finite y" "Finite y'"] by auto
qed

lemma takes_more_is_wider:
  assumes c: "proper_dims (ae_dims c)" and p: "proper_dims (ae_dims p)"
    and all: "\<And>d v. check_field c d v = Inr () \<Longrightarrow> check_field p d v = Inr ()"
  shows "fmap_within range_within (dims (scope_of c)) (dims (scope_of p))"
  unfolding fmap_within_iff
proof (intro allI impI)
  fix d r assume r: "fmlookup (dims (scope_of c)) d = Some r"
  then obtain x y where xy: "r = (x, y)" "x \<le> y"
    using proper_lookup [OF c] c by (cases r) (fastforce simp: proper_dims_def dest: map_of_SomeD)
  then have "check_field c d (Finite x) = Inr ()" "check_field c d (Finite y) = Inr ()"
    using r by (auto simp: check_field_scope [OF c])
  from this [THEN all] show "\<exists>r'. fmlookup (dims (scope_of p)) d = Some r' \<and> range_within r r'"
    using xy by (auto simp: check_field_scope [OF p] range_within_iff)
qed

text \<open>C11: The broker's order on the dimensions of two grants is containment of commands: one envelope is within another
  exactly when every command the machine takes under the first it takes under the second. A dimension more is wider and
  an interval less is narrower, and nothing else decides.\<close>

theorem authority_order_is_containment_of_commands:
  assumes "envelope_parse lb c_text = Inr c" "envelope_parse lb p_text = Inr p"
  shows "fmap_within range_within (dims (scope_of c)) (dims (scope_of p)) \<longleftrightarrow>
           (\<forall>fs. envelope_check c fs = Inr () \<longrightarrow> envelope_check p fs = Inr ())"
proof -
  note ok = parsed_dims [OF assms(1)] parsed_dims [OF assms(2)]
  have single: "check_field e d v = Inr () \<longleftrightarrow> envelope_check e [(d, v)] = Inr ()" for e d v
    by (cases "check_field e d v") simp_all
  show ?thesis
  proof
    assume "fmap_within range_within (dims (scope_of c)) (dims (scope_of p))"
    then show "\<forall>fs. envelope_check c fs = Inr () \<longrightarrow> envelope_check p fs = Inr ()"
      using wider_takes_more [OF ok] by (auto simp: envelope_check_iff)
  next
    assume "\<forall>fs. envelope_check c fs = Inr () \<longrightarrow> envelope_check p fs = Inr ()"
    then show "fmap_within range_within (dims (scope_of c)) (dims (scope_of p))"
      by (intro takes_more_is_wider [OF ok]) (simp only: single)
  qed
qed

section \<open>Witnesses\<close>

definition arm_text :: string where
  "arm_text = ''arm: angle=-30..95,rate_hz=50,heartbeat_ms=100,ttl_ms=5000,fail=safe-park''"

definition arm_env :: actuator_envelope where
  "arm_env = \<lparr>ae_device = ''arm'', ae_dims = [(''angle'', Finite (- 30), Finite 95)], ae_rate_hz = Some 50,
     ae_heartbeat_ms = 100, ae_ttl_ms = 5000, ae_fail_state = SafePark\<rparr>"

lemma arm_parses: "envelope_parse plain_libs arm_text = Inr arm_env" by code_simp

definition slow_text :: string where
  "slow_text = ''arm:fail=safe-park, ttl_ms=4000,heartbeat_ms=50,angle=0..10,rate_hz=5''"

definition slow_env :: actuator_envelope where
  "slow_env = \<lparr>ae_device = ''arm'', ae_dims = [(''angle'', Finite 0, Finite 10)], ae_rate_hz = Some 5,
     ae_heartbeat_ms = 50, ae_ttl_ms = 4000, ae_fail_state = SafePark\<rparr>"

lemma slow_parses: "envelope_parse plain_libs slow_text = Inr slow_env" by code_simp

theorem authority_order_is_containment_of_commands_witness: "envelope_check arm_env [(''angle'', Finite 5)] = Inr ()"
proof -
  have "fmap_within range_within (dims (scope_of slow_env)) (dims (scope_of arm_env))" by code_simp
  moreover have "envelope_check slow_env [(''angle'', Finite 5)] = Inr ()" by code_simp
  ultimately show ?thesis
    using authority_order_is_containment_of_commands [OF slow_parses arm_parses] by blast
qed

end
