(* ===== verification/Device_Runs.thy ===== *)
theory Device_Runs imports Device_Broker Actuator_Claims begin

text \<open>
  What the operations of the device broker do to a lease, and what holds along every run of them: the
  commands, attempts, readings, beats, revocations and the watchdog's checks in any order, whatever the
  clock shows and the adapter answers.
\<close>

section \<open>Effects on one lease\<close>

text \<open>A lease keeps its envelope and its grant, and a dead one does not change at all.\<close>

definition lease_kept :: "lease_state \<Rightarrow> lease_state \<Rightarrow> bool" where
  "lease_kept l l' \<longleftrightarrow> le_env l' = le_env l \<and> le_granted_at_us l' = le_granted_at_us l \<and> (le_revoked l \<noteq> None \<longrightarrow> l' = l)"

definition kept :: "'a device_broker \<Rightarrow> 'a device_broker \<Rightarrow> bool" where
  "kept b b' \<longleftrightarrow>
     db_profile b' = db_profile b \<and> db_clock b' = db_clock b \<and>
     (\<forall>n. rel_option lease_kept (fmlookup (leases b) n) (fmlookup (leases b') n))"

lemma lease_kept_refl [simp]: "lease_kept l l" by (simp add: lease_kept_def)

lemma kept_refl [simp]: "kept b b"
  by (simp add: kept_def option.rel_refl)

lemma kept_trans: "kept a b \<Longrightarrow> kept b c \<Longrightarrow> kept a c"
  unfolding kept_def lease_kept_def option.rel_sel by metis

lemma kept_update:
  assumes "fmlookup (leases b) n = Some l" "lease_kept l l'" "leases b' = fmupd n l' (leases b)"
    "db_profile b' = db_profile b" "db_clock b' = db_clock b"
  shows "kept b b'"
  using assms by (auto simp: kept_def option.rel_refl)

lemma kept_same: "leases b' = leases b \<Longrightarrow> db_profile b' = db_profile b \<Longrightarrow> db_clock b' = db_clock b \<Longrightarrow> kept b b'"
  by (simp add: kept_def option.rel_refl)

lemma revoke_lease_fields [simp]:
  "db_profile (revoke_lease rd n l c o' w b) = db_profile b" "db_clock (revoke_lease rd n l c o' w b) = db_clock b"
  "virtual_us (revoke_lease rd n l c o' w b) = virtual_us b" "db_adapter (revoke_lease rd n l c o' w b) = db_adapter b"
  by (simp_all add: revoke_lease_def Let_def)

definition dead_after :: "readings \<Rightarrow> string \<Rightarrow> 'a device_broker \<Rightarrow> lease_state \<Rightarrow> revoke_cause \<Rightarrow> nat \<Rightarrow> lease_state" where
  "dead_after rd n b l c o' =
     l\<lparr>le_revoked := Some \<lparr>rv_cause = c, rv_overdue_us = o',
        rv_engage_us = (case db_clock b of Wall \<Rightarrow> rd_engage_us rd n | Stepped _ \<Rightarrow> 0)\<rparr>\<rparr>"

lemma revoke_lease_leases [simp]: "leases (revoke_lease rd n l c o' w b) = fmupd n (dead_after rd n b l c o') (leases b)"
  by (simp add: revoke_lease_def dead_after_def Let_def)

lemma dead_after_fields [simp]: "le_env (dead_after rd n b l c o') = le_env l" "le_revoked (dead_after rd n b l c o') \<noteq> None"
  "le_granted_at_us (dead_after rd n b l c o') = le_granted_at_us l"
  by (simp_all add: dead_after_def)

lemma kept_revoke: "fmlookup (leases b) n = Some l \<Longrightarrow> le_revoked l = None \<Longrightarrow> kept b (revoke_lease rd n l c o' w b)"
  by (rule kept_update [of _ n l "dead_after rd n b l c o'"]) (simp_all add: lease_kept_def)

lemma kept_sweep_one: "kept b (sweep_one rd t n b)"
  by (auto simp: sweep_one_def intro: kept_revoke split: option.splits prod.splits)

lemma kept_estop_one: "kept b (estop_one rd p n b)"
  by (auto simp: estop_one_def intro: kept_revoke split: option.splits authority_state.splits)

lemma kept_fold: "(\<And>n b. kept b (f n b)) \<Longrightarrow> kept b (fold f ns b)"
  by (induction ns arbitrary: b) (auto intro: kept_trans)

lemma kept_sweep: "kept b (sweep rd t b)"
  unfolding sweep_def by (rule kept_fold) (rule kept_sweep_one)

lemma kept_virtual: "kept (b\<lparr>virtual_us := v\<rparr>) c \<longleftrightarrow> kept b c"
  by (simp add: kept_def)

lemma kept_step_and_sweep: "kept b (step_and_sweep rd b)"
proof (cases "db_clock b")
  case (Stepped k)
  then show ?thesis using kept_sweep [of "b\<lparr>virtual_us := (virtual_us b + k) mod 2 ^ 64\<rparr>" rd "(virtual_us b + k) mod 2 ^ 64"]
    by (simp add: step_and_sweep_def Let_def kept_virtual)
qed (simp add: step_and_sweep_def)

lemma adapter_step_fields [simp]:
  "leases (snd (adapter_step A n fs b)) = leases b" "db_profile (snd (adapter_step A n fs b)) = db_profile b"
  "db_clock (snd (adapter_step A n fs b)) = db_clock b" "virtual_us (snd (adapter_step A n fs b)) = virtual_us b"
  "journal (snd (adapter_step A n fs b)) = journal b" "db_sim (snd (adapter_step A n fs b)) = db_sim b"
  by (simp_all add: adapter_step_def split: device_profile.splits option.splits prod.splits)

lemma sim_step_fields [simp]:
  "leases (sim_step n fs b) = leases b" "db_profile (sim_step n fs b) = db_profile b"
  "db_clock (sim_step n fs b) = db_clock b" "virtual_us (sim_step n fs b) = virtual_us b" "journal (sim_step n fs b) = journal b"
  by (simp_all add: sim_step_def split: device_profile.splits)

text \<open>What a command does: it is refused and leaves the leases, or it is accepted and beats its own.\<close>

lemma commandE:
  assumes "command A rd n fs b0 = (res, b')"
  defines "b \<equiv> step_and_sweep rd b0"
  obtains (refused) why where "res = Inl why" "b' = b \<or> b' = snd (adapter_step A n fs b)"
  | (accepted) l where "res = Inr ()" "fmlookup (leases b) n = Some l" "le_revoked l = None"
      "rate_refusal n l (now_us (rd_now_us rd) b) = None" "envelope_check (le_env l) fs = Inr ()"
      "fst (adapter_step A n fs b) = None"
      "b' = (sim_step n fs (snd (adapter_step A n fs b)))
              \<lparr>leases := fmupd n (l\<lparr>le_last_command_us := Some (now_us (rd_now_us rd) b), le_last_beat_us := now_us (rd_now_us rd) b\<rparr>) (leases b)\<rparr>"
proof -
  show ?thesis
  proof (cases "\<exists>why. res = Inl why")
    case True
    then show ?thesis using assms refused
      by (auto simp: command_def Let_def split: option.splits sum.splits prod.splits)
  next
    case False
    then have res: "res = Inr ()" by (cases res) auto
    let ?t = "now_us (rd_now_us rd) b"
    obtain l b1 where l: "fmlookup (leases b) n = Some l" "le_revoked l = None" "rate_refusal n l ?t = None"
        "envelope_check (le_env l) fs = Inr ()" "adapter_step A n fs b = (None, b1)"
        "b' = (sim_step n fs b1)\<lparr>leases := fmupd n (l\<lparr>le_last_command_us := Some ?t, le_last_beat_us := ?t\<rparr>) (leases (sim_step n fs b1))\<rparr>"
      using assms(1) res unfolding b_def [symmetric] command_def Let_def
      by (auto split: option.splits sum.splits prod.splits)
    moreover have "leases b1 = leases b" using adapter_step_fields(1) [of A n fs b] l by simp
    ultimately show ?thesis using accepted [of l] res by simp
  qed
qed

lemma kept_command: "kept b (snd (command A rd n fs b))"
proof -
  obtain res b' where c: "command A rd n fs b = (res, b')" by fastforce
  from c have "kept (step_and_sweep rd b) b'"
  proof (cases rule: commandE)
    case (accepted l)
    then show ?thesis by (intro kept_update [of _ n l]) (auto simp: lease_kept_def)
  qed (auto intro: kept_same)
  with c show ?thesis using kept_step_and_sweep kept_trans by (metis snd_conv)
qed

lemma kept_read: "kept b (snd (read_device A rd n b))"
  by (rule kept_trans [OF kept_step_and_sweep])
     (auto simp: read_device_def Let_def intro!: kept_same split: device_profile.splits option.splits prod.splits)

lemma kept_attempt: "kept b (snd (note_refused_attempt rd n b))"
  by (simp add: note_refused_attempt_def Let_def kept_step_and_sweep)

lemma kept_beat: "kept b (beat_all rd b)"
proof (rule kept_trans [OF kept_step_and_sweep])
  show "kept (step_and_sweep rd b) (beat_all rd b)"
    by (auto simp: beat_all_def Let_def kept_def lease_kept_def option.rel_sel option.map_sel)
qed

lemma kept_revoke_device: "kept b (snd (revoke_device rd n b))"
  by (auto simp: revoke_device_def intro: kept_revoke split: option.splits)

section \<open>Runs\<close>

datatype dev_op =
    OpCommand string command_fields
  | OpAttempt string
  | OpRead string
  | OpBeat
  | OpRevoke string
  | OpEstop string string
  | OpSweep

text \<open>The check of one device against the grant tree is an operation of its own, since the leases are free
  while the probe is out; under the stepped clock the watchdog sweeps nothing.\<close>

fun run_op :: "'a adapter \<Rightarrow> readings \<Rightarrow> dev_op \<Rightarrow> 'a device_broker \<Rightarrow> 'a device_broker" where
  "run_op A rd (OpCommand n fs) b = snd (command A rd n fs b)"
| "run_op A rd (OpAttempt n) b = snd (note_refused_attempt rd n b)"
| "run_op A rd (OpRead n) b = snd (read_device A rd n b)"
| "run_op A rd OpBeat b = beat_all rd b"
| "run_op A rd (OpRevoke n) b = snd (revoke_device rd n b)"
| "run_op A rd (OpEstop n why) b = estop_one rd (\<lambda>_. AuthorityDead why) n b"
| "run_op A rd OpSweep b = watchdog_tick rd None b"

definition run_ops :: "'a adapter \<Rightarrow> (readings \<times> dev_op) list \<Rightarrow> 'a device_broker \<Rightarrow> 'a device_broker" where
  "run_ops A ops b = fold (\<lambda>(rd, op) b. run_op A rd op b) ops b"

lemma run_ops_simps [simp]:
  "run_ops A [] b = b" "run_ops A ((rd, op) # ops) b = run_ops A ops (run_op A rd op b)"
  by (simp_all add: run_ops_def)

lemma kept_op: "kept b (run_op A rd op b)"
  by (cases op) (auto simp: kept_command kept_read kept_attempt kept_beat kept_revoke_device kept_estop_one watchdog_tick_def
      kept_sweep split: clock_mode.splits)

lemma kept_run: "kept b (run_ops A ops b)"
proof (induction ops arbitrary: b)
  case (Cons x ops)
  then show ?case by (cases x) (auto intro: kept_trans [OF kept_op])
qed simp

lemma kept_lookup:
  "kept b b' \<Longrightarrow> fmlookup (leases b) n = Some l \<Longrightarrow> \<exists>l'. fmlookup (leases b') n = Some l' \<and> lease_kept l l'"
  by (auto simp: kept_def dest!: spec [of _ n] elim: option.rel_cases)

lemma kept_dead: "kept b b' \<Longrightarrow> fmlookup (leases b) n = Some l \<Longrightarrow> le_revoked l \<noteq> None \<Longrightarrow> fmlookup (leases b') n = Some l"
  using kept_lookup [of b b' n l] by (auto simp: lease_kept_def)

lemma kept_lookup_back:
  "kept b b' \<Longrightarrow> fmlookup (leases b') n = Some l' \<Longrightarrow> \<exists>l. fmlookup (leases b) n = Some l \<and> lease_kept l l'"
  by (auto simp: kept_def dest!: spec [of _ n] elim: option.rel_cases)

section \<open>What a sweep leaves\<close>

lemma lease_names_set: "set (lease_names b) = fset (fmdom (leases b))"
  by (simp add: lease_names_def sorted_list_of_fset.rep_eq)

lemma sweep_one_other: "m \<noteq> n \<Longrightarrow> fmlookup (leases (sweep_one rd t m b)) n = fmlookup (leases b) n"
  by (auto simp: sweep_one_def split: option.splits)

lemma sweep_one_done:
  "fmlookup (leases (sweep_one rd t n b)) n = Some l \<Longrightarrow> le_revoked l = None \<Longrightarrow> due l t = None \<and> fmlookup (leases b) n = Some l"
  by (auto simp: sweep_one_def split: option.splits if_splits prod.splits)

lemma fold_sweep_live:
  "fmlookup (leases (fold (sweep_one rd t) ns b)) n = Some l \<Longrightarrow> le_revoked l = None \<Longrightarrow>
     fmlookup (leases b) n = Some l \<and> (n \<in> set ns \<longrightarrow> due l t = None)"
proof (induction ns arbitrary: b)
  case (Cons m ns)
  then have 1: "fmlookup (leases (sweep_one rd t m b)) n = Some l" "n \<in> set ns \<longrightarrow> due l t = None" by simp_all
  show ?case
  proof (cases "m = n")
    case True
    then show ?thesis using sweep_one_done [of rd t n b l] 1 Cons.prems(2) by simp
  next
    case False
    then show ?thesis using sweep_one_other [OF False, of rd t b] 1 by simp
  qed
qed simp

lemma sweep_live:
  assumes "fmlookup (leases (sweep rd t b)) n = Some l" "le_revoked l = None"
  shows "fmlookup (leases b) n = Some l" "due l t = None"
proof -
  note * = fold_sweep_live [OF assms(1) [unfolded sweep_def] assms(2)]
  then show "fmlookup (leases b) n = Some l" by simp
  then have "n \<in> set (lease_names b)" by (simp add: lease_names_set fmlookup_dom_iff)
  with * show "due l t = None" by simp
qed

lemma virtual_sweep [simp]: "virtual_us (sweep rd t b) = virtual_us b"
proof -
  have "virtual_us (fold (sweep_one rd t) ns c) = virtual_us c" for ns and c :: "'a device_broker"
    by (induction ns arbitrary: c) (auto simp: sweep_one_def split: option.splits prod.splits)
  then show ?thesis by (simp add: sweep_def)
qed

lemma step_live:
  assumes "fmlookup (leases (step_and_sweep rd b)) n = Some l" "le_revoked l = None"
  shows "fmlookup (leases b) n = Some l"
proof (cases "db_clock b")
  case (Stepped k)
  then show ?thesis using sweep_live(1) [OF _ assms(2)] assms(1) by (fastforce simp: step_and_sweep_def Let_def)
qed (use assms in \<open>simp add: step_and_sweep_def\<close>)

lemma due_None_iff:
  "due l t = None \<longleftrightarrow>
     t - le_last_beat_us l \<le> saturating_us (ae_heartbeat_ms (le_env l)) \<and> t - le_granted_at_us l \<le> saturating_us (ae_ttl_ms (le_env l))"
  by (auto simp: due_def Let_def)

end
