(* ===== verification/Device_Inv.thy ===== *)
theory Device_Inv imports Device_Runs begin

text \<open>
  The operations of the device broker cut into the single changes they make to the state, and the
  invariants that hold after each of them.
\<close>

section \<open>Single changes\<close>

inductive changed :: "'a device_broker \<Rightarrow> 'a device_broker \<Rightarrow> bool" where
  ch_revoke: "fmlookup (leases b) n = Some l \<Longrightarrow> le_revoked l = None \<Longrightarrow> changed b (revoke_lease rd n l c o' w b)"
| ch_clock: "changed b (b\<lparr>virtual_us := v\<rparr>)"
| ch_adapter: "changed b (b\<lparr>db_adapter := a\<rparr>)"
| ch_read: "changed b (b\<lparr>db_sim := snd (sim_read n (db_sim b))\<rparr>)"
| ch_beat: "changed b (b\<lparr>leases := fmmap (\<lambda>l. if le_revoked l = None then l\<lparr>le_last_beat_us := t\<rparr> else l) (leases b)\<rparr>)"
| ch_accept: "fmlookup (leases b) n = Some l \<Longrightarrow> le_revoked l = None \<Longrightarrow> envelope_check (le_env l) fs = Inr () \<Longrightarrow>
    changed b ((sim_step n fs b)\<lparr>leases := fmupd n (l\<lparr>le_last_command_us := Some t, le_last_beat_us := t\<rparr>) (leases b)\<rparr>)"

abbreviation changes :: "'a device_broker \<Rightarrow> 'a device_broker \<Rightarrow> bool" where "changes \<equiv> changed\<^sup>*\<^sup>*"

lemmas change_one = r_into_rtranclp [of changed]

lemma changes_sweep_one: "changes b (sweep_one rd t n b)"
  by (auto simp: sweep_one_def intro: change_one ch_revoke split: option.splits prod.splits)

lemma changes_estop_one: "changes b (estop_one rd p n b)"
  by (auto simp: estop_one_def intro: change_one ch_revoke split: option.splits authority_state.splits)

lemma changes_fold: "(\<And>n b. changes b (f n b)) \<Longrightarrow> changes b (fold f ns b)"
  by (induction ns arbitrary: b) (auto intro: rtranclp_trans)

lemma changes_sweep: "changes b (sweep rd t b)"
  unfolding sweep_def by (rule changes_fold) (rule changes_sweep_one)

lemma changes_estop: "changes b (estop_sweep rd p b)"
  unfolding estop_sweep_def by (rule changes_fold) (rule changes_estop_one)

lemma changes_step_and_sweep: "changes b (step_and_sweep rd b)"
proof (cases "db_clock b")
  case (Stepped k)
  then show ?thesis
    by (auto simp: step_and_sweep_def Let_def intro: rtranclp_trans [OF change_one [OF ch_clock] changes_sweep])
qed (simp add: step_and_sweep_def)

lemma changes_adapter_step: "changes b (snd (adapter_step A n fs b))"
  by (auto simp: adapter_step_def intro: change_one ch_adapter split: device_profile.splits option.splits prod.splits)

lemma changes_command: "changes b (snd (command A rd n fs b))"
proof -
  obtain res b' where c: "command A rd n fs b = (res, b')" by fastforce
  let ?b = "step_and_sweep rd b"
  from c have "changes ?b b'"
  proof (cases rule: commandE)
    case (accepted l)
    let ?a = "snd (adapter_step A n fs ?b)"
    have "changed ?a b'" unfolding accepted
      using ch_accept [of ?a n l fs "now_us (rd_now_us rd) ?b"] accepted by simp
    then show ?thesis using changes_adapter_step by (metis rtranclp.rtrancl_into_rtrancl)
  qed (auto intro: changes_adapter_step)
  with c show ?thesis using changes_step_and_sweep [of b rd] by simp
qed

lemma changes_read: "changes b (snd (read_device A rd n b))"
proof (rule rtranclp_trans [OF changes_step_and_sweep])
  show "changes (step_and_sweep rd b) (snd (read_device A rd n b))"
    using change_one [OF ch_read [of "step_and_sweep rd b" n]]
    by (auto simp: read_device_def Let_def intro: change_one ch_adapter split: device_profile.splits option.splits prod.splits)
qed

lemma changes_beat: "changes b (beat_all rd b)"
  by (rule rtranclp_trans [OF changes_step_and_sweep [of b rd] change_one]) (simp add: beat_all_def Let_def ch_beat)

lemma changes_op: "changes b (run_op A rd op b)"
proof (cases op)
  case (OpAttempt n)
  then show ?thesis by (simp add: note_refused_attempt_def Let_def changes_step_and_sweep)
next
  case (OpRevoke n)
  then show ?thesis by (auto simp: revoke_device_def intro: change_one ch_revoke split: option.splits)
next
  case OpSweep
  then show ?thesis by (auto simp: watchdog_tick_def changes_sweep split: clock_mode.splits)
qed (auto simp: changes_command changes_read changes_beat changes_estop_one)

lemma changes_run: "changes b (run_ops A ops b)"
proof (induction ops arbitrary: b)
  case (Cons x ops)
  then show ?case by (cases x) (auto intro: rtranclp_trans [OF changes_op])
qed simp

lemma changes_invariant:
  "changes b b' \<Longrightarrow> P b \<Longrightarrow> (\<And>b b'. changed b b' \<Longrightarrow> P b \<Longrightarrow> P b') \<Longrightarrow> P b'"
  by (induction rule: rtranclp_induct) auto

section \<open>The fresh broker\<close>

definition fresh_broker ::
  "device_profile \<Rightarrow> actuator_envelope list \<Rightarrow> string list \<Rightarrow> clock_mode \<Rightarrow> 'a option \<Rightarrow> 'a device_broker" where
  "fresh_broker p envs sensors clock a =
     \<lparr>db_profile = p, db_clock = clock, virtual_us = 0,
      leases = fold (\<lambda>e. fmupd (ae_device e) (new_lease e)) envs fmempty,
      db_sim = new_sim (case p of Simulated s \<Rightarrow> s | _ \<Rightarrow> 0) envs sensors, journal = [], db_adapter = a\<rparr>"

lemma with_adapter_changes: "changes (fresh_broker p envs sensors clock a) (with_adapter p envs sensors rd probe clock a)"
  by (cases probe; cases "envs = []") (simp_all add: with_adapter_def fresh_broker_def Let_def changes_estop)

lemma fold_keyed_lookup:
  assumes "rel_option (\<lambda>x y. \<exists>e \<in> S. k e = n \<and> x = f e \<and> y = g e) (fmlookup m n) (fmlookup m' n)"
  shows "rel_option (\<lambda>x y. \<exists>e \<in> S \<union> set es. k e = n \<and> x = f e \<and> y = g e)
           (fmlookup (fold (\<lambda>e. fmupd (k e) (f e)) es m) n) (fmlookup (fold (\<lambda>e. fmupd (k e) (g e)) es m') n)"
  using assms
proof (induction es arbitrary: m m' S)
  case (Cons e es)
  have "rel_option (\<lambda>x y. \<exists>e \<in> insert e S. k e = n \<and> x = f e \<and> y = g e)
          (fmlookup (fmupd (k e) (f e) m) n) (fmlookup (fmupd (k e) (g e) m') n)"
    using Cons.prems by (auto elim!: option.rel_cases)
  from Cons.IH [OF this] show ?case by simp
qed simp

lemma fresh_lookup:
  "rel_option (\<lambda>l d. \<exists>e \<in> set envs. ae_device e = n \<and> l = new_lease e \<and> d = parked_device e)
     (fmlookup (leases (fresh_broker p envs sensors clock a)) n)
     (fmlookup (sim_devices (db_sim (fresh_broker p envs sensors clock a))) n)"
  using fold_keyed_lookup [of "{}" ae_device n new_lease parked_device fmempty fmempty envs]
  by (simp add: fresh_broker_def new_sim_def)

section \<open>The journal\<close>

definition revocations :: "string \<Rightarrow> 'a device_broker \<Rightarrow> device_event list" where
  "revocations n b = filter (\<lambda>ev. ev_op ev = ''lease.revoked'' \<and> ev_device ev = n) (journal b)"

definition told :: "string \<Rightarrow> lease_state \<Rightarrow> device_event list \<Rightarrow> bool" where
  "told n l evs \<longleftrightarrow>
     (case le_revoked l of
        None \<Rightarrow> evs = []
      | Some r \<Rightarrow> \<exists>why stamp. evs = [\<lparr>ev_op = ''lease.revoked'', ev_device = n,
                     ev_detail = revoked_detail n (le_env l) (rv_cause r) (rv_overdue_us r) why, ev_at_ms = stamp\<rparr>])"

definition journal_ok :: "'a device_broker \<Rightarrow> bool" where
  "journal_ok b \<longleftrightarrow>
     (\<forall>n. case fmlookup (leases b) n of None \<Rightarrow> revocations n b = [] | Some l \<Rightarrow> told n l (revocations n b))"

lemma revocations_revoke:
  "revocations m (revoke_lease rd n l c o' w b) =
     revocations m b @ (if m = n then [\<lparr>ev_op = ''lease.revoked'', ev_device = n, ev_detail = revoked_detail n (le_env l) c o' w,
       ev_at_ms = now_us (rd_stamp_us rd n) b div 1000\<rparr>] else [])"
  by (simp add: revocations_def revoke_lease_def Let_def)

lemma told_dead: "told n (dead_after rd n b l c o') [\<lparr>ev_op = ''lease.revoked'', ev_device = n, ev_detail = revoked_detail n (le_env l) c o' w, ev_at_ms = t\<rparr>]"
  by (auto simp: told_def dead_after_def)

lemma revocations_same: "journal b' = journal b \<Longrightarrow> revocations n b' = revocations n b"
  by (simp add: revocations_def)

lemma told_same: "le_revoked l' = le_revoked l \<Longrightarrow> le_env l' = le_env l \<Longrightarrow> told n l' evs = told n l evs"
  by (cases "le_revoked l") (simp_all add: told_def)

lemma journal_ok_same:
  assumes "journal_ok b" "journal b' = journal b"
    "\<And>n. rel_option (\<lambda>l l'. le_revoked l' = le_revoked l \<and> le_env l' = le_env l) (fmlookup (leases b) n) (fmlookup (leases b') n)"
  shows "journal_ok b'"
  unfolding journal_ok_def
proof
  fix n
  have b: "case fmlookup (leases b) n of None \<Rightarrow> revocations n b = [] | Some l \<Rightarrow> told n l (revocations n b)"
    using assms(1) by (simp add: journal_ok_def)
  have r: "revocations n b' = revocations n b" by (rule revocations_same) (rule assms(2))
  from assms(3) [of n]
  consider (none) "fmlookup (leases b) n = None" "fmlookup (leases b') n = None"
    | (some) l l' where "fmlookup (leases b) n = Some l" "fmlookup (leases b') n = Some l'" "le_revoked l' = le_revoked l" "le_env l' = le_env l"
    by (cases rule: option.rel_cases) auto
  then show "case fmlookup (leases b') n of None \<Rightarrow> revocations n b' = [] | Some l \<Rightarrow> told n l (revocations n b')"
  proof cases
    case (some l l')
    then show ?thesis using b r told_same [of l' l n] by simp
  qed (use b r in simp)
qed

lemma journal_ok_step: "changed b b' \<Longrightarrow> journal_ok b \<Longrightarrow> journal_ok b'"
proof (induction rule: changed.induct)
  case (ch_revoke b n l rd c o' w)
  show ?case unfolding journal_ok_def
  proof
    fix m
    have m: "case fmlookup (leases b) m of None \<Rightarrow> revocations m b = [] | Some l \<Rightarrow> told m l (revocations m b)"
      using ch_revoke by (simp add: journal_ok_def)
    show "case fmlookup (leases (revoke_lease rd n l c o' w b)) m of None \<Rightarrow> revocations m (revoke_lease rd n l c o' w b) = []
          | Some l' \<Rightarrow> told m l' (revocations m (revoke_lease rd n l c o' w b))"
    proof (cases "m = n")
      case True
      then have "revocations m b = []" using m ch_revoke by (simp add: told_def)
      then show ?thesis using True told_dead by (simp add: revocations_revoke)
    next
      case False
      then have "revocations m (revoke_lease rd n l c o' w b) = revocations m b" by (simp add: revocations_revoke)
      then show ?thesis using m False by (cases "fmlookup (leases b) m") simp_all
    qed
  qed
next
  case (ch_beat b t)
  show ?case
  proof (rule journal_ok_same [of b])
    show "rel_option (\<lambda>l l'. le_revoked l' = le_revoked l \<and> le_env l' = le_env l) (fmlookup (leases b) n)
      (fmlookup (leases (b\<lparr>leases := fmmap (\<lambda>l. if le_revoked l = None then l\<lparr>le_last_beat_us := t\<rparr> else l) (leases b)\<rparr>)) n)" for n
      by (cases "fmlookup (leases b) n") simp_all
  qed (use ch_beat in simp_all)
next
  case (ch_accept b n l fs t)
  show ?case
  proof (rule journal_ok_same [of b])
    show "rel_option (\<lambda>l l'. le_revoked l' = le_revoked l \<and> le_env l' = le_env l) (fmlookup (leases b) m)
      (fmlookup (leases ((sim_step n fs b)\<lparr>leases := fmupd n (l\<lparr>le_last_command_us := Some t, le_last_beat_us := t\<rparr>) (leases b)\<rparr>)) m)" for m
      using ch_accept by (cases "m = n"; cases "fmlookup (leases b) m") simp_all
  qed (use ch_accept in simp_all)
qed (erule journal_ok_same; simp add: option.rel_refl)+

lemma journal_ok_fresh: "journal_ok (fresh_broker p envs sensors clock a)"
  unfolding journal_ok_def
proof
  fix n
  show "case fmlookup (leases (fresh_broker p envs sensors clock a)) n of None \<Rightarrow> revocations n (fresh_broker p envs sensors clock a) = []
        | Some l \<Rightarrow> told n l (revocations n (fresh_broker p envs sensors clock a))"
    using fresh_lookup [of envs n p sensors clock a]
    by (auto simp: revocations_def fresh_broker_def told_def new_lease_def elim!: option.rel_cases)
qed

section \<open>Positions\<close>

definition position_ok :: "actuator_envelope list \<Rightarrow> string \<Rightarrow> lease_state \<Rightarrow> sim_device \<Rightarrow> bool" where
  "position_ok envs n l d \<longleftrightarrow>
     le_env l \<in> set envs \<and> ae_device (le_env l) = n \<and>
     (\<forall>k x. fmlookup (sd_pos d) k = Some x \<longrightarrow> check_field (le_env l) k x = Inr ())"

definition positions_ok :: "actuator_envelope list \<Rightarrow> 'a device_broker \<Rightarrow> bool" where
  "positions_ok envs b \<longleftrightarrow>
     (\<forall>n. rel_option (position_ok envs n) (fmlookup (leases b) n) (fmlookup (sim_devices (db_sim b)) n))"

lemma park_dims_lookup:
  "fmlookup (park_dims ds pos) k = Some x \<Longrightarrow> (\<exists>lo hi. (k, lo, hi) \<in> set ds \<and> x = park_point lo hi) \<or> fmlookup pos k = Some x"
proof (induction ds arbitrary: pos)
  case (Cons r ds)
  obtain d lo hi where r: "r = (d, lo, hi)" by (cases r)
  show ?case using Cons.IH [of "fmupd d (park_point lo hi) pos"] Cons.prems
    by (auto simp: park_dims_def r split: if_splits)
qed (simp add: park_dims_def)

lemma park_inside:
  assumes "proper_dims (ae_dims e)" "(k, lo, hi) \<in> set (ae_dims e)"
  shows "check_field e k (park_point lo hi) = Inr ()"
proof -
  obtain x y where "lo = Finite x" "hi = Finite y" "x \<le> y" using assms by (fastforce simp: proper_dims_def)
  moreover have "map_of (ae_dims e) k = Some (lo, hi)" using assms by (simp add: proper_dims_def)
  ultimately show ?thesis by (auto simp: check_field_iff park_point_def)
qed

lemma drive_lookup: "fmlookup (fold (\<lambda>(d, x). fmupd d x) fs pos) k = Some x \<Longrightarrow> (k, x) \<in> set fs \<or> fmlookup pos k = Some x"
proof (induction fs arbitrary: pos)
  case (Cons f fs)
  obtain d y where f: "f = (d, y)" by (cases f)
  show ?case using Cons.IH [of "fmupd d y pos"] Cons.prems by (auto simp: f split: if_splits)
qed simp

lemma change_sim_lookup:
  "fmlookup (sim_devices (change_sim_device m f s)) n =
     (if n = m then map_option f (fmlookup (sim_devices s) n) else fmlookup (sim_devices s) n)"
  by (auto simp: change_sim_device_def split: option.splits)

lemma sim_read_devices [simp]: "sim_devices (snd (sim_read n s)) = sim_devices s"
  by (simp add: sim_read_def split: option.splits)

lemma revoke_sim: "db_sim (revoke_lease rd n l c o' w b) =
   (case db_profile b of Simulated _ \<Rightarrow> engage n (ae_fail_state (le_env l)) (le_env l) (db_sim b) | _ \<Rightarrow> db_sim b)"
  by (simp add: revoke_lease_def Let_def)

lemma position_engaged:
  assumes "position_ok envs n l d" "\<forall>e \<in> set envs. proper_dims (ae_dims e)"
  shows "position_ok envs n (dead_after rd n b l c o')
           (case ae_fail_state (le_env l) of
              HoldSetpoint \<Rightarrow> d\<lparr>sd_drive := True\<rparr>
            | CoastFree \<Rightarrow> d\<lparr>sd_drive := False\<rparr>
            | SafePark \<Rightarrow> d\<lparr>sd_drive := True, sd_pos := park_dims (ae_dims (le_env l)) (sd_pos d)\<rparr>)"
  using assms by (auto simp: position_ok_def split: fail_mode.splits dest!: park_dims_lookup intro: park_inside)

lemma positions_ok_step:
  assumes proper: "\<forall>e \<in> set envs. proper_dims (ae_dims e)"
  shows "changed b b' \<Longrightarrow> positions_ok envs b \<Longrightarrow> positions_ok envs b'"
proof (induction rule: changed.induct)
  case (ch_revoke b n l rd c o' w)
  show ?case unfolding positions_ok_def
  proof
    fix m
    have m: "rel_option (position_ok envs m) (fmlookup (leases b) m) (fmlookup (sim_devices (db_sim b)) m)"
      using ch_revoke by (simp add: positions_ok_def)
    have dead: "position_ok envs n (dead_after rd n b l c o') d" if "position_ok envs n l d" for d
      using that by (simp add: position_ok_def)
    show "rel_option (position_ok envs m) (fmlookup (leases (revoke_lease rd n l c o' w b)) m)
            (fmlookup (sim_devices (db_sim (revoke_lease rd n l c o' w b))) m)"
      using m ch_revoke position_engaged [OF _ proper] dead
      by (auto simp: revoke_sim engage_def change_sim_lookup split: device_profile.splits elim!: option.rel_cases)
  qed
next
  case (ch_beat b t)
  show ?case unfolding positions_ok_def
  proof
    fix n
    have "rel_option (position_ok envs n) (fmlookup (leases b) n) (fmlookup (sim_devices (db_sim b)) n)"
      using ch_beat by (simp add: positions_ok_def)
    then show "rel_option (position_ok envs n)
        (fmlookup (leases (b\<lparr>leases := fmmap (\<lambda>l. if le_revoked l = None then l\<lparr>le_last_beat_us := t\<rparr> else l) (leases b)\<rparr>)) n)
        (fmlookup (sim_devices (db_sim (b\<lparr>leases := fmmap (\<lambda>l. if le_revoked l = None then l\<lparr>le_last_beat_us := t\<rparr> else l) (leases b)\<rparr>))) n)"
      by (auto simp: position_ok_def elim!: option.rel_cases)
  qed
next
  case (ch_accept b n l fs t)
  show ?case unfolding positions_ok_def
  proof
    fix m
    have m: "rel_option (position_ok envs m) (fmlookup (leases b) m) (fmlookup (sim_devices (db_sim b)) m)"
      using ch_accept by (simp add: positions_ok_def)
    have ok: "check_field (le_env l) k x = Inr ()" if "(k, x) \<in> set fs" for k x
      using that ch_accept by (auto simp: envelope_check_iff)
    show "rel_option (position_ok envs m)
            (fmlookup (leases ((sim_step n fs b)\<lparr>leases := fmupd n (l\<lparr>le_last_command_us := Some t, le_last_beat_us := t\<rparr>) (leases b)\<rparr>)) m)
            (fmlookup (sim_devices (db_sim ((sim_step n fs b)\<lparr>leases := fmupd n (l\<lparr>le_last_command_us := Some t, le_last_beat_us := t\<rparr>) (leases b)\<rparr>))) m)"
      using m ch_accept ok
      by (auto simp: sim_step_def drive_def change_sim_lookup position_ok_def split: device_profile.splits elim!: option.rel_cases
          dest!: drive_lookup)
  qed
qed (simp_all add: positions_ok_def)

lemma positions_ok_fresh:
  assumes "\<forall>e \<in> set envs. proper_dims (ae_dims e)"
  shows "positions_ok envs (fresh_broker p envs sensors clock a)"
  unfolding positions_ok_def
proof
  fix n
  have "position_ok envs n (new_lease e) (parked_device e)" if "e \<in> set envs" "ae_device e = n" for e
    using that assms by (auto simp: position_ok_def new_lease_def parked_device_def dest!: park_dims_lookup intro: park_inside)
  then show "rel_option (position_ok envs n) (fmlookup (leases (fresh_broker p envs sensors clock a)) n)
      (fmlookup (sim_devices (db_sim (fresh_broker p envs sensors clock a))) n)"
    using fresh_lookup [of envs n p sensors clock a] by (auto elim!: option.rel_cases)
qed

end
