(* ===== verification/Device_Claims.thy ===== *)
theory Device_Claims imports Device_Inv begin

text \<open>What the device broker guarantees of every run.\<close>

section \<open>From a fresh broker\<close>

lemma reached_journal: "journal_ok (run_ops A ops (with_adapter p envs sensors rd probe clock a))"
  using rtranclp_trans [OF with_adapter_changes changes_run] journal_ok_fresh journal_ok_step
  by (rule changes_invariant) 

lemma reached_positions:
  assumes "\<forall>e \<in> set envs. proper_dims (ae_dims e)"
  shows "positions_ok envs (run_ops A ops (with_adapter p envs sensors rd probe clock a))"
  using rtranclp_trans [OF with_adapter_changes changes_run] positions_ok_fresh [OF assms] positions_ok_step [OF assms]
  by (rule changes_invariant)

definition leases_of :: "actuator_envelope list \<Rightarrow> 'a device_broker \<Rightarrow> bool" where
  "leases_of envs b \<longleftrightarrow> (\<forall>n l. fmlookup (leases b) n = Some l \<longrightarrow> le_env l \<in> set envs \<and> ae_device (le_env l) = n)"

lemma leases_of_kept: "kept b b' \<Longrightarrow> leases_of envs b \<Longrightarrow> leases_of envs b'"
  unfolding leases_of_def using kept_lookup_back [of b b'] by (fastforce simp: lease_kept_def)

lemma leases_of_fresh: "leases_of envs (fresh_broker p envs sensors clock a)"
  unfolding leases_of_def
proof (intro allI impI)
  fix n l assume "fmlookup (leases (fresh_broker p envs sensors clock a)) n = Some l"
  then show "le_env l \<in> set envs \<and> ae_device (le_env l) = n"
    using fresh_lookup [of envs n p sensors clock a] by (auto simp: new_lease_def elim: option.rel_cases)
qed

lemma kept_with_adapter: "kept (fresh_broker p envs sensors clock a) (with_adapter p envs sensors rd probe clock a)"
proof -
  have "kept b (estop_sweep rd pr b)" for pr and b :: "'a device_broker"
    unfolding estop_sweep_def by (rule kept_fold) (rule kept_estop_one)
  then show ?thesis by (cases probe; cases "envs = []") (simp_all add: with_adapter_def fresh_broker_def Let_def)
qed

lemma reached_leases: "leases_of envs (run_ops A ops (with_adapter p envs sensors rd probe clock a))"
  using kept_trans [OF kept_with_adapter kept_run] leases_of_fresh by (rule leases_of_kept)

lemma revocation_of_iff: "revocation_of n b = Some r \<longleftrightarrow> (\<exists>l. fmlookup (leases b) n = Some l \<and> le_revoked l = Some r)"
  by (auto simp: revocation_of_def split: option.splits)

section \<open>Death of a lease\<close>

text \<open>C14: A lease dies once. When a device of a run has lost its lease, no later operation, in whatever order they come,
  brings it back or changes why it was lost, and the journal tells of exactly one revocation of it, with that cause.\<close>

theorem each_lease_dies_once:
  assumes "b = run_ops A ops (with_adapter p envs sensors rd probe clock a)" "revocation_of n b = Some r"
  shows "revocation_of n (run_ops A ops' b) = Some r \<and>
    (\<exists>e \<in> set envs. \<exists>why stamp. ae_device e = n \<and> revocations n (run_ops A ops' b) =
       [\<lparr>ev_op = ''lease.revoked'', ev_device = n,
         ev_detail = revoked_detail n e (rv_cause r) (rv_overdue_us r) why, ev_at_ms = stamp\<rparr>])"
proof -
  obtain l where l: "fmlookup (leases b) n = Some l" "le_revoked l = Some r" using assms(2) by (auto simp: revocation_of_iff)
  let ?b = "run_ops A ops' b"
  have l': "fmlookup (leases ?b) n = Some l" using kept_dead [OF kept_run l(1)] l(2) by simp
  have "?b = run_ops A (ops @ ops') (with_adapter p envs sensors rd probe clock a)" by (simp add: assms(1) run_ops_def)
  then have "journal_ok ?b" "leases_of envs ?b" by (simp_all only: reached_journal reached_leases)
  then have "told n l (revocations n ?b)" "le_env l \<in> set envs" "ae_device (le_env l) = n"
    using l' by (auto simp: journal_ok_def leases_of_def dest!: spec [of _ n])
  then show ?thesis using l l' by (auto simp: told_def revocation_of_iff)
qed

section \<open>Commands\<close>

lemma now_us_same: "db_clock b' = db_clock b \<Longrightarrow> virtual_us b' = virtual_us b \<Longrightarrow> now_us w b' = now_us w b"
  by (simp add: now_us_def split: clock_mode.splits)

text \<open>C13: The machine is commanded only within its grant: a command is accepted only while the device's lease is live,
  inside the envelope that was granted for the device, and no sooner than the granted period after the last accepted one.
  It then beats the lease, and no other lease is touched but for the deadlines that came due.\<close>

theorem accepted_command_is_granted:
  assumes "b = run_ops A ops (with_adapter p envs sensors rd0 probe clock a)" "command A rd n fs b = (Inr (), b')"
  shows "\<exists>l. fmlookup (leases b) n = Some l \<and> le_revoked l = None \<and> le_env l \<in> set envs \<and> ae_device (le_env l) = n \<and>
    envelope_check (le_env l) fs = Inr () \<and>
    (\<forall>hz prev. ae_rate_hz (le_env l) = Some hz \<and> 0 < hz \<and> le_last_command_us l = Some prev \<longrightarrow>
       1000000 div hz \<le> now_us (rd_now_us rd) b' - prev) \<and>
    fmlookup (leases b') n =
      Some (l\<lparr>le_last_command_us := Some (now_us (rd_now_us rd) b'), le_last_beat_us := now_us (rd_now_us rd) b'\<rparr>)"
  using assms(2)
proof (cases rule: commandE)
  case (accepted l)
  let ?s = "step_and_sweep rd b"
  have "now_us (rd_now_us rd) b' = now_us (rd_now_us rd) ?s" 
    unfolding accepted by (rule now_us_same) simp_all
  moreover obtain l0 where "fmlookup (leases b) n = Some l0" "lease_kept l0 l"
    using kept_lookup_back [OF kept_step_and_sweep accepted(2)] by blast
  moreover have "fmlookup (leases b) n = Some l" using step_live [OF accepted(2,3)] by simp
  moreover have "leases_of envs b" unfolding assms(1) by (rule reached_leases)
  ultimately show ?thesis using accepted
    by (auto simp: leases_of_def rate_refusal_def not_less split: if_splits)
qed auto

text \<open>A program that has lost its device is told so: whatever the command is, even one outside the envelope or no
  command at all, the answer and the record name the lost lease and its cause.\<close>

theorem lost_lease_outranks_the_command:
  assumes "fmlookup (leases b) (ae_device e) = Some l" "le_revoked l = Some r"
  shows "\<exists>b'. actuate A rd e cmd (Some b) =
    (AnswerRevoked (LeaseGone (ae_device e) (rv_cause r) (ae_fail_state (le_env l))),
     [CommandRevoked (LeaseGone (ae_device e) (rv_cause r) (ae_fail_state (le_env l)))], Some b')"
proof -
  have "fmlookup (leases (step_and_sweep rd b)) (ae_device e) = Some l"
    using kept_dead [OF kept_step_and_sweep assms(1)] assms(2) by simp
  then show ?thesis using assms(2)
    by (cases "command_check e cmd") (simp_all add: actuate_def note_refused_attempt_def command_def revoked_reason_def Let_def)
qed

section \<open>Deadlines\<close>

text \<open>No overdue lease survives a tick of the watchdog: on the wall clock, every lease still live afterwards was beaten
  within its heartbeat of what the clock showed and granted within its loan of it.\<close>

theorem tick_leaves_no_overdue_lease:
  assumes "db_clock b = Wall" "fmlookup (leases (watchdog_tick rd probe b)) n = Some l" "le_revoked l = None"
  shows "rd_now_us rd \<le> le_last_beat_us l + ae_heartbeat_ms (le_env l) * 1000 \<and>
         rd_now_us rd \<le> le_granted_at_us l + ae_ttl_ms (le_env l) * 1000"
proof -
  define b1 where "b1 = (case probe of Some p \<Rightarrow> estop_sweep rd p b | None \<Rightarrow> b)"
  have "kept b b1" unfolding b1_def estop_sweep_def by (auto intro: kept_fold kept_estop_one split: option.splits)
  then have "watchdog_tick rd probe b = sweep rd (rd_now_us rd) b1"
    using assms(1) by (simp add: watchdog_tick_def b1_def [symmetric] Let_def kept_def)
  then have "due l (rd_now_us rd) = None" using sweep_live(2) assms(2,3) by metis
  then show ?thesis by (auto simp: due_None_iff saturating_us_def)
qed

section \<open>Silence under the stepped clock\<close>

definition interacts :: "dev_op \<Rightarrow> bool" where
  "interacts op = (case op of OpCommand _ _ \<Rightarrow> True | OpAttempt _ \<Rightarrow> True | OpRead _ \<Rightarrow> True | OpBeat \<Rightarrow> True | _ \<Rightarrow> False)"

text \<open>An operation beats a device when it is an accepted command to it or a beat of all.\<close>

definition beats :: "'a adapter \<Rightarrow> readings \<Rightarrow> dev_op \<Rightarrow> string \<Rightarrow> 'a device_broker \<Rightarrow> bool" where
  "beats A rd op n b =
     (case op of OpCommand m fs \<Rightarrow> m = n \<and> fst (command A rd m fs b) = Inr () | OpBeat \<Rightarrow> True | _ \<Rightarrow> False)"

fun silent :: "'a adapter \<Rightarrow> string \<Rightarrow> (readings \<times> dev_op) list \<Rightarrow> 'a device_broker \<Rightarrow> bool" where
  "silent A n [] b \<longleftrightarrow> True"
| "silent A n ((rd, op) # ops) b \<longleftrightarrow> \<not> beats A rd op n b \<and> silent A n ops (run_op A rd op b)"

definition interactions :: "(readings \<times> dev_op) list \<Rightarrow> nat" where
  "interactions ops = length (filter (interacts \<circ> snd) ops)"

lemma swept_live:
  assumes "db_clock b = Stepped k" "fmlookup (leases (step_and_sweep rd b)) n = Some l" "le_revoked l = None"
  shows "due l (virtual_us (step_and_sweep rd b)) = None"
  using assms sweep_live(2) by (fastforce simp: step_and_sweep_def Let_def)

lemma stepped_virtual: "db_clock b = Stepped k \<Longrightarrow> virtual_us (step_and_sweep rd b) = (virtual_us b + k) mod 2 ^ 64"
  by (simp add: step_and_sweep_def Let_def)

text \<open>What an operation that does not beat a device leaves of its lease, when it leaves it live.\<close>

definition unbeaten :: "nat \<Rightarrow> bool \<Rightarrow> string \<Rightarrow> lease_state \<Rightarrow> 'a device_broker \<Rightarrow> 'a device_broker \<Rightarrow> bool" where
  "unbeaten k moved n l b b' \<longleftrightarrow>
     fmlookup (leases b) n = Some l \<and> virtual_us b' = (if moved then (virtual_us b + k) mod 2 ^ 64 else virtual_us b) \<and>
     (moved \<longrightarrow> due l (virtual_us b') = None)"

lemma unbeaten_step:
  assumes "db_clock b = Stepped k" "fmlookup (leases b') n = Some l" "le_revoked l = None"
    "virtual_us b' = virtual_us (step_and_sweep rd b)" "fmlookup (leases b') n = fmlookup (leases (step_and_sweep rd b)) n"
  shows "unbeaten k True n l b b'"
  using assms step_live [of rd b n l] swept_live [of b k rd n l] stepped_virtual [of b k rd] by (simp add: unbeaten_def)

lemma unbeaten_revoke:
  assumes "fmlookup (leases (revoke_lease rd m l0 c o' w b)) n = Some l" "le_revoked l = None"
  shows "unbeaten k False n l b (revoke_lease rd m l0 c o' w b)"
  using assms by (auto simp: unbeaten_def split: if_splits)

lemma op_unbeaten:
  assumes b: "db_clock b = Stepped k" and quiet: "\<not> beats A rd op n b"
    and l: "fmlookup (leases (run_op A rd op b)) n = Some l" "le_revoked l = None"
  shows "unbeaten k (interacts op) n l b (run_op A rd op b)"
proof (cases op)
  case (OpCommand m fs)
  obtain res b' where c: "command A rd m fs b = (res, b')" by fastforce
  from c have "virtual_us b' = virtual_us (step_and_sweep rd b) \<and> fmlookup (leases b') n = fmlookup (leases (step_and_sweep rd b)) n"
    by (cases rule: commandE) (use c quiet OpCommand in \<open>auto simp: beats_def\<close>)
  then show ?thesis using unbeaten_step [OF b, of b' n l rd] l c OpCommand by (simp add: interacts_def)
next
  case (OpRead m)
  have "virtual_us (snd (read_device A rd m b)) = virtual_us (step_and_sweep rd b) \<and>
      leases (snd (read_device A rd m b)) = leases (step_and_sweep rd b)"
    by (auto simp: read_device_def Let_def split: device_profile.splits option.splits prod.splits)
  then show ?thesis using unbeaten_step [OF b] l OpRead by (simp add: interacts_def)
next
  case (OpAttempt m)
  then show ?thesis using unbeaten_step [OF b, of _ n l rd] l by (simp add: interacts_def note_refused_attempt_def Let_def)
next
  case (OpRevoke m)
  then show ?thesis using l unbeaten_revoke [of rd m _ _ _ _ b n l k]
    by (auto simp: interacts_def revoke_device_def unbeaten_def split: option.splits if_splits)
next
  case (OpEstop m why)
  then show ?thesis using l unbeaten_revoke [of rd m _ _ _ _ b n l k]
    by (auto simp: interacts_def estop_one_def unbeaten_def split: option.splits if_splits)
qed (use assms in \<open>auto simp: beats_def interacts_def watchdog_tick_def unbeaten_def\<close>)

lemma clock_op [simp]: "db_clock (run_op A rd op b) = db_clock b"
  using kept_op [of b A rd op] by (simp add: kept_def)

lemma silence_counts:
  "db_clock b = Stepped k \<Longrightarrow> silent A n ops b \<Longrightarrow> fmlookup (leases (run_ops A ops b)) n = Some l \<Longrightarrow> le_revoked l = None \<Longrightarrow>
     virtual_us b + interactions ops * k < 2 ^ 64 \<Longrightarrow>
     fmlookup (leases b) n = Some l \<and> virtual_us (run_ops A ops b) = virtual_us b + interactions ops * k \<and>
     (0 < interactions ops \<longrightarrow> due l (virtual_us (run_ops A ops b)) = None)"
proof (induction ops arbitrary: b)
  case (Cons x ops)
  obtain rd op where x: "x = (rd, op)" by (cases x)
  let ?b = "run_op A rd op b" and ?m = "if interacts op then 1 else 0 :: nat"
  have m: "interactions ((rd, op) # ops) = ?m + interactions ops" by (simp add: interactions_def)
  have room: "virtual_us b + ?m * k + interactions ops * k < 2 ^ 64" using Cons.prems(5) unfolding x m by (simp add: algebra_simps)
  obtain l1 where l1: "fmlookup (leases ?b) n = Some l1" "lease_kept l1 l"
    using kept_lookup_back [OF kept_run [of ?b A ops]] Cons.prems(3) by (auto simp: x)
  then have "le_revoked l1 = None" using Cons.prems(4) by (auto simp: lease_kept_def)
  then have u: "unbeaten k (interacts op) n l1 b ?b" using op_unbeaten [of b k A rd op n l1] Cons.prems l1 by (simp add: x)
  then have v: "virtual_us ?b = virtual_us b + ?m * k"
    using Cons.prems(5) unfolding x m by (auto simp: unbeaten_def algebra_simps)
  have "fmlookup (leases ?b) n = Some l \<and> virtual_us (run_ops A ops ?b) = virtual_us ?b + interactions ops * k \<and>
      (0 < interactions ops \<longrightarrow> due l (virtual_us (run_ops A ops ?b)) = None)"
    using Cons.prems room by (intro Cons.IH) (simp_all add: x v del: One_nat_def)
  moreover from this have "l1 = l" using l1 by simp
  ultimately show ?case using u v by (auto simp: x m unbeaten_def algebra_simps)
qed (simp add: interactions_def)

text \<open>C15: Under the stepped clock too, silence loses the machine: after so many interactions without a beat that the time
  they take is past the heartbeat, the lease is dead, also when every command of the program was refused. (The counter of
  simulated microseconds is assumed not to wrap.)\<close>

theorem silence_loses_the_device:
  assumes "db_clock b = Stepped k" "fmlookup (leases b) n = Some l" "le_last_beat_us l \<le> virtual_us b" "silent A n ops b"
    "ae_heartbeat_ms (le_env l) * 1000 < interactions ops * k" "virtual_us b + interactions ops * k < 2 ^ 64"
  shows "revocation_of n (run_ops A ops b) \<noteq> None"
proof
  assume none: "revocation_of n (run_ops A ops b) = None"
  obtain l' where l': "fmlookup (leases (run_ops A ops b)) n = Some l'" "lease_kept l l'"
    using kept_lookup [OF kept_run assms(2)] by blast
  then have "le_revoked l' = None" using none by (simp add: revocation_of_def)
  from silence_counts [OF assms(1,4) l'(1) this assms(6)] assms(2,5)
  have "due l (virtual_us b + interactions ops * k) = None" by auto
  then show False using assms(3,5) by (auto simp: due_None_iff saturating_us_def)
qed

section \<open>The simulated machine\<close>

text \<open>C16: The simulated machine never leaves its envelope: along every run from grants the runtime could read, each
  position of each device is one its grant allows, whatever was commanded and however its lease died.\<close>

theorem machine_stays_in_its_envelope:
  assumes "\<forall>e \<in> set envs. \<exists>lb text. envelope_parse lb text = Inr e"
    "b = run_ops A ops (with_adapter p envs sensors rd probe clock a)"
    "fmlookup (sim_devices (db_sim b)) n = Some d" "fmlookup (sd_pos d) k = Some x"
  shows "\<exists>e \<in> set envs. ae_device e = n \<and> check_field e k x = Inr ()"
proof -
  have "\<forall>e \<in> set envs. proper_dims (ae_dims e)" using assms(1) parsed_dims by blast
  from reached_positions [OF this] have "positions_ok envs b" unfolding assms(2) .
  then have "rel_option (position_ok envs n) (fmlookup (leases b) n) (Some d)" using assms(3) by (metis positions_ok_def)
  then obtain l where "position_ok envs n l d" by (auto elim: option.rel_cases)
  then show ?thesis using assms(4) by (auto simp: position_ok_def)
qed

text \<open>A synthetic reading is at least minus one and below one, for every seed, sensor and index.\<close>

theorem synthetic_signal_is_bounded: "- 1 \<le> synthetic_signal seed n i \<and> synthetic_signal seed n i < 1"
proof -
  define v where "v = splitmix64 (seed XOR fnv1a n XOR (i * 0x9E3779B97F4A7C15))"
  define m where "m = unat (drop_bit 11 v)"
  have "m = unat v div 2 ^ 11" unfolding m_def unat_drop_bit_eq by (rule drop_bit_eq_div)
  also have "\<dots> < 2 ^ 53" using unsigned_less [of v, where ?'a = nat] by (intro less_mult_imp_div_less) simp
  finally have "(of_nat m :: rat) < 2 ^ 53" by (metis of_nat_less_iff of_nat_numeral of_nat_power)
  moreover have "synthetic_signal seed n i = of_nat m / 2 ^ 53 * 2 - 1"
    unfolding synthetic_signal_def Let_def m_def v_def ..
  ultimately show ?thesis by simp
qed

section \<open>Witnesses\<close>

definition still :: readings where
  "still = \<lparr>rd_now_us = 0, rd_engage_us = (\<lambda>_. 0), rd_stamp_us = (\<lambda>_. 0)\<rparr>"

definition no_adapter :: "unit adapter" where
  "no_adapter = \<lparr>ad_command = (\<lambda>_ _ a. (None, a)), ad_read = (\<lambda>_ a. (Some None, a))\<rparr>"

definition arm_broker :: "clock_mode \<Rightarrow> unit device_broker" where
  "arm_broker c = with_adapter (Simulated 7) [arm_env] [] still None c None"

lemma arm_reached: "arm_broker c = run_ops no_adapter [] (with_adapter (Simulated 7) [arm_env] [] still None c None)"
  by (simp add: arm_broker_def)

definition arm_move :: "(readings \<times> dev_op)" where "arm_move = (still, OpCommand ''arm'' [(''angle'', Finite 12)])"

theorem each_lease_dies_once_witness:
  "revocation_of ''arm'' (run_ops no_adapter [arm_move] (run_ops no_adapter [(still, OpRevoke ''arm'')] (arm_broker Wall)))
     = Some \<lparr>rv_cause = OperatorRevoke, rv_overdue_us = 0, rv_engage_us = 0\<rparr>"
proof (rule each_lease_dies_once [THEN conjunct1])
  show "run_ops no_adapter [(still, OpRevoke ''arm'')] (arm_broker Wall) =
      run_ops no_adapter [(still, OpRevoke ''arm'')] (with_adapter (Simulated 7) [arm_env] [] still None Wall None)"
    unfolding arm_broker_def ..
qed code_simp

theorem accepted_command_is_granted_witness:
  "\<exists>l. fmlookup (leases (arm_broker Wall)) ''arm'' = Some l \<and> envelope_check (le_env l) [(''angle'', Finite 12)] = Inr ()"
proof -
  have "command no_adapter still ''arm'' [(''angle'', Finite 12)] (arm_broker Wall) =
      (Inr (), snd (command no_adapter still ''arm'' [(''angle'', Finite 12)] (arm_broker Wall)))"
    by (rule prod_eqI) (simp_all, code_simp)
  from accepted_command_is_granted [OF arm_reached this] show ?thesis by blast
qed

theorem lost_lease_outranks_the_command_witness:
  "fst (actuate no_adapter still arm_env None (Some (snd (revoke_device still ''arm'' (arm_broker Wall)))))
     = AnswerRevoked (LeaseGone ''arm'' OperatorRevoke SafePark)"
proof -
  let ?b = "snd (revoke_device still ''arm'' (arm_broker Wall))"
  let ?r = "\<lparr>rv_cause = OperatorRevoke, rv_overdue_us = 0, rv_engage_us = 0\<rparr>"
  have "fmlookup (leases ?b) (ae_device arm_env) = Some ((new_lease arm_env)\<lparr>le_revoked := Some ?r\<rparr>)" by code_simp
  from lost_lease_outranks_the_command [OF this, of ?r no_adapter still None] show ?thesis
    by (auto simp: arm_env_def new_lease_def)
qed

theorem tick_leaves_no_overdue_lease_witness: "rd_now_us still \<le> 100000"
proof -
  have "fmlookup (leases (watchdog_tick still None (arm_broker Wall))) ''arm'' = Some (new_lease arm_env)" by code_simp
  from tick_leaves_no_overdue_lease [OF _ this] show ?thesis
    by (simp add: arm_broker_def with_adapter_def new_lease_def arm_env_def)
qed

theorem silence_loses_the_device_witness:
  "revocation_of ''arm'' (run_ops no_adapter [(still, OpAttempt ''arm''), (still, OpRead ''x''), (still, OpAttempt ''arm'')]
     (arm_broker (Stepped 40000))) \<noteq> None"
proof (rule silence_loses_the_device)
  show "fmlookup (leases (arm_broker (Stepped 40000))) ''arm'' = Some (new_lease arm_env)" by code_simp
  let ?ops = "[(still, OpAttempt ''arm''), (still, OpRead ''x''), (still, OpAttempt ''arm'')]"
  have n: "interactions ?ops * 40000 = 120000" by (simp add: interactions_def interacts_def)
  show "ae_heartbeat_ms (le_env (new_lease arm_env)) * 1000 < interactions ?ops * 40000"
    unfolding n by (simp add: new_lease_def arm_env_def)
  show "virtual_us (arm_broker (Stepped 40000)) + interactions ?ops * 40000 < 2 ^ 64"
    unfolding n by (simp add: arm_broker_def with_adapter_def)
qed (simp_all add: arm_broker_def with_adapter_def new_lease_def beats_def)

theorem machine_stays_in_its_envelope_witness: "check_field arm_env ''angle'' (Finite 12) = Inr ()"
proof -
  have "fmlookup (sim_devices (db_sim (run_ops no_adapter [arm_move] (arm_broker Wall)))) ''arm''
      = Some \<lparr>sd_pos = fmupd ''angle'' (Finite 12) fmempty, sd_drive = True\<rparr>"
    by code_simp
  moreover have "run_ops no_adapter [arm_move] (arm_broker Wall)
      = run_ops no_adapter [arm_move] (with_adapter (Simulated 7) [arm_env] [] still None Wall None)" by (simp add: arm_broker_def)
  ultimately have "\<exists>b. b = run_ops no_adapter [arm_move] (with_adapter (Simulated 7) [arm_env] [] still None Wall None) \<and>
      fmlookup (sim_devices (db_sim b)) ''arm'' = Some \<lparr>sd_pos = fmupd ''angle'' (Finite 12) fmempty, sd_drive = True\<rparr>" by blast
  then obtain b where b: "b = run_ops no_adapter [arm_move] (with_adapter (Simulated 7) [arm_env] [] still None Wall None)"
      "fmlookup (sim_devices (db_sim b)) ''arm'' = Some \<lparr>sd_pos = fmupd ''angle'' (Finite 12) fmempty, sd_drive = True\<rparr>" by blast
  from machine_stays_in_its_envelope [OF _ b, of "''angle''" "Finite 12"]
  show ?thesis using arm_parses by auto
qed

end
