(* ===== verification/Approval.thy ===== *)
theory Approval imports Prelude begin

text \<open>
  The sign-off of an artifact that was exercised in simulation, \<open>crates/delulu-runtime/src/device.rs\<close>
  (\<open>Approval\<close>): the record as it is written, and as the gate before the hardware reads it back.
\<close>

record approval =
  ap_artifact :: string
  ap_hash :: string
  ap_profile :: string

definition dquote :: char where "dquote = CHR 0x22"
definition newline :: char where "newline = CHR 0x0A"

definition hex4 :: "nat \<Rightarrow> string" where
  "hex4 n = [digit_char (n div 4096 mod 16), digit_char (n div 256 mod 16), digit_char (n div 16 mod 16), digit_char (n mod 16)]"

fun json_char :: "char \<Rightarrow> string" where
  "json_char c =
     (if c = dquote then [CHR 0x5C, dquote]
      else if c = CHR 0x5C then [CHR 0x5C, CHR 0x5C]
      else if c = newline then [CHR 0x5C, CHR ''n'']
      else if (of_char c :: nat) < 32 then [CHR 0x5C, CHR ''u''] @ hex4 (of_char c)
      else [c])"

definition json_str :: "string \<Rightarrow> string" where
  "json_str s = [dquote] @ concat (map json_char s) @ [dquote]"

definition quoted_key :: "string \<Rightarrow> string" where "quoted_key k = [dquote] @ k @ [dquote]"

definition approval_to_json :: "approval \<Rightarrow> string" where
  "approval_to_json a =
     ''{'' @ [newline] @ ''  '' @ quoted_key ''approved_artifact'' @ '': '' @ json_str (ap_artifact a)
       @ '','' @ [newline] @ ''  '' @ quoted_key ''approved_hash'' @ '': '' @ json_str (ap_hash a)
       @ '','' @ [newline] @ ''  '' @ quoted_key ''approved_under'' @ '': '' @ json_str (ap_profile a)
       @ [newline] @ ''}'' @ [newline]"

datatype approval_error = NoField string | NoValue string | NotAString string | Unterminated string | NotAHash string

definition approval_field :: "string \<Rightarrow> string \<Rightarrow> approval_error + string" where
  "approval_field src k =
     (case split_once_str (quoted_key k) src of
        None \<Rightarrow> Inl (NoField k)
      | Some (_, rest) \<Rightarrow>
          (case split_once CHR '':'' rest of
             None \<Rightarrow> Inl (NoValue k)
           | Some (_, after) \<Rightarrow>
               (case split_once dquote after of
                  None \<Rightarrow> Inl (NotAString k)
                | Some (_, value) \<Rightarrow>
                    (case split_once dquote value of None \<Rightarrow> Inl (Unterminated k) | Some (v, _) \<Rightarrow> Inr v))))"

definition is_content_hash :: "string \<Rightarrow> bool" where
  "is_content_hash h \<longleftrightarrow> starts_with ''blake3:'' h \<and> length h = 7 + 64"

definition approval_parse :: "string \<Rightarrow> approval_error + approval" where
  "approval_parse src =
     (case approval_field src ''approved_hash'' of
        Inl e \<Rightarrow> Inl e
      | Inr h \<Rightarrow>
          if \<not> is_content_hash h then Inl (NotAHash h)
          else (case approval_field src ''approved_artifact'' of
                  Inl e \<Rightarrow> Inl e
                | Inr a \<Rightarrow>
                    (case approval_field src ''approved_under'' of
                       Inl e \<Rightarrow> Inl e
                     | Inr p \<Rightarrow> Inr \<lparr>ap_artifact = a, ap_hash = h, ap_profile = p\<rparr>)))"

section \<open>Reading back what was written\<close>

text \<open>Text that \<open>json_str\<close> writes as it is.\<close>

definition plain_text :: "string \<Rightarrow> bool" where
  "plain_text s \<longleftrightarrow> (\<forall>c \<in> set s. c \<noteq> dquote \<and> c \<noteq> CHR 0x5C \<and> 32 \<le> (of_char c :: nat))"

lemma json_char_plain: "c \<noteq> dquote \<Longrightarrow> c \<noteq> CHR 0x5C \<Longrightarrow> 32 \<le> (of_char c :: nat) \<Longrightarrow> json_char c = [c]"
  by (cases "c = newline") (simp_all add: newline_def)

declare json_char.simps [simp del]

lemma json_str_plain: "plain_text s \<Longrightarrow> json_str s = quoted_key s"
proof -
  assume "plain_text s"
  then have "concat (map json_char s) = s"
    by (induction s) (simp_all add: plain_text_def json_char_plain)
  then show ?thesis by (simp add: json_str_def quoted_key_def)
qed

text \<open>The search for a quoted key passes over text without a quote, and over a quoted text that is not the key.\<close>

definition find_key :: "string \<Rightarrow> string \<Rightarrow> string option" where
  "find_key k s = map_option snd (split_once_str (quoted_key k) s)"

lemma find_key_Cons: "strip_prefix (quoted_key k) (x # s) = None \<Longrightarrow> find_key k (x # s) = find_key k s"
  by (cases "split_once_str (quoted_key k) s") (auto simp: find_key_def)

lemma find_key_skip: "dquote \<notin> set u \<Longrightarrow> find_key k (u @ s) = find_key k s"
proof (induction u)
  case (Cons x u)
  then have "strip_prefix (quoted_key k) (x # u @ s) = None" by (simp add: quoted_key_def)
  with Cons show ?case by (simp add: find_key_Cons)
qed simp

lemma find_key_here: "find_key k (quoted_key k @ s) = Some s"
proof -
  have "strip_prefix (quoted_key k) (quoted_key k @ s) = Some s" by (rule strip_prefix_append)
  moreover obtain x t where "quoted_key k @ s = x # t" by (simp add: quoted_key_def)
  ultimately show ?thesis by (simp add: find_key_def)
qed

lemma find_key_past:
  assumes "dquote \<notin> set u" "dquote \<notin> set (c # k)" "u \<noteq> c # k" "d \<noteq> c"
  shows "find_key (c # k) (quoted_key u @ d # s) = find_key (c # k) (d # s)"
proof -
  have "strip_prefix (quoted_key (c # k)) (dquote # u @ dquote # d # s) = None"
  proof (rule ccontr)
    assume "strip_prefix (quoted_key (c # k)) (dquote # u @ dquote # d # s) \<noteq> None"
    then obtain r where "(c # k) @ dquote # r = u @ dquote # d # s"
      by (auto simp: quoted_key_def strip_prefix_Some_iff)
    then have "split_once dquote ((c # k) @ dquote # r) = split_once dquote (u @ dquote # d # s)" by (simp only:)
    then show False using assms split_once_append by (metis Pair_inject option.inject)
  qed
  then have "find_key (c # k) (quoted_key u @ d # s) = find_key (c # k) (u @ dquote # d # s)"
    by (simp add: find_key_Cons quoted_key_def)
  also have "\<dots> = find_key (c # k) (dquote # d # s)" by (rule find_key_skip [OF assms(1)])
  also have "\<dots> = find_key (c # k) (d # s)" using assms(4) by (intro find_key_Cons) (simp add: quoted_key_def)
  finally show ?thesis .
qed

lemma field_found:
  assumes "find_key k src = Some ('': '' @ quoted_key v @ s)" "dquote \<notin> set v"
  shows "approval_field src k = Inr v"
proof -
  obtain u where "split_once_str (quoted_key k) src = Some (u, '': '' @ quoted_key v @ s)"
    using assms(1) by (auto simp: find_key_def)
  then show ?thesis using assms(2) by (simp add: approval_field_def quoted_key_def dquote_def)
qed

lemma plain_no_quote: "plain_text s \<Longrightarrow> dquote \<notin> set s" by (auto simp: plain_text_def)

lemma find_key_one: "x \<noteq> dquote \<Longrightarrow> find_key k (x # s) = find_key k s"
  by (rule find_key_Cons) (simp add: quoted_key_def)

text \<open>A sign-off is read back as it was written, for every artifact and profile whose name is plain text, without quote,
  backslash or control character, and is not itself the name of a field.\<close>

theorem approval_reads_back:
  assumes "plain_text (ap_artifact a)" "plain_text (ap_hash a)" "plain_text (ap_profile a)" "is_content_hash (ap_hash a)"
    "ap_artifact a \<notin> {''approved_hash'', ''approved_under''}"
  shows "approval_parse (approval_to_json a) = Inr a"
proof -
  let ?A = "ap_artifact a" and ?H = "ap_hash a" and ?P = "ap_profile a"
  let ?close = "[newline] @ ''}'' @ [newline]"
  let ?under = "quoted_key ''approved_under'' @ '': '' @ quoted_key ?P @ ?close"
  let ?hash = "quoted_key ''approved_hash'' @ '': '' @ quoted_key ?H @ '','' @ [newline] @ ''  '' @ ?under"
  let ?artifact = "quoted_key ''approved_artifact'' @ '': '' @ quoted_key ?A @ '','' @ [newline] @ ''  '' @ ?hash"
  have src: "approval_to_json a = ''{'' @ [newline] @ ''  '' @ ?artifact"
    using assms(1-3) by (simp add: approval_to_json_def json_str_plain)
  have q: "dquote \<notin> set ?A" "dquote \<notin> set ?H" "dquote \<notin> set ?P" using assms(1-3) by (simp_all add: plain_no_quote)
  have h: "?H \<noteq> ''approved_under''" using assms(4) by (auto simp: is_content_hash_def starts_with_def)
  note one = find_key_one [of "CHR 0x7B"] find_key_one [of newline] find_key_one [of "CHR '' ''"] find_key_one [of "CHR '':''"]
    find_key_one [of "CHR '',''"]
  note one = one [unfolded newline_def dquote_def, simplified]
  have artifact: "find_key ''approved_artifact'' (approval_to_json a) = Some (drop (length (quoted_key ''approved_artifact'')) ?artifact)"
    unfolding src using find_key_here [of "''approved_artifact''"] by (simp add: one newline_def)
  have past: "find_key k (approval_to_json a) = find_key k ?hash" if "k \<in> {''approved_hash'', ''approved_under''}" for k
    using that q(1) assms(5) unfolding src
    by (auto simp: one newline_def find_key_past dquote_def)
  have "approval_field (approval_to_json a) ''approved_artifact'' = Inr ?A"
    by (rule field_found [OF _ q(1)]) (simp add: artifact)
  moreover have "approval_field (approval_to_json a) ''approved_hash'' = Inr ?H"
    by (rule field_found [OF _ q(2)]) (simp add: past find_key_here)
  moreover have "approval_field (approval_to_json a) ''approved_under'' = Inr ?P"
    by (rule field_found [OF _ q(3)]) (use q h in \<open>simp add: past find_key_past find_key_here one newline_def dquote_def\<close>)
  ultimately show ?thesis using assms(4) by (simp add: approval_parse_def)
qed

definition sample_approval :: "string \<Rightarrow> approval" where
  "sample_approval name = \<lparr>ap_artifact = name, ap_hash = ''blake3:'' @ replicate 64 (CHR ''a''), ap_profile = ''sim:7''\<rparr>"

theorem approval_reads_back_witness: "approval_parse (approval_to_json (sample_approval ''arm.dl'')) = Inr (sample_approval ''arm.dl'')"
  by (rule approval_reads_back)
     (simp_all add: sample_approval_def plain_text_def is_content_hash_def starts_with_def dquote_def numeral_nat replicate.simps)

text \<open>A path with a backslash is written with its escape and read back with it: the name has changed.\<close>

lemma backslash_not_read_back:
  "map_option ap_artifact (case approval_parse (approval_to_json (sample_approval [CHR ''a'', CHR 0x5C, CHR ''b''])) of Inr a \<Rightarrow> Some a | _ \<Rightarrow> None)
     = Some [CHR ''a'', CHR 0x5C, CHR 0x5C, CHR ''b'']"
  by code_simp

end
