(* ===== verification/Device_Delegation.thy ===== *)
theory Device_Delegation imports System_Claims Device_Claims Approval begin

text \<open>
  The grant tree and the machine: what a node's device grant lets a command do, every node above it allows.
\<close>


definition arm_grant :: "actuator_envelope \<Rightarrow> authority" where
  "arm_grant e = (reader_grant ''data'')\<lparr>a_scopes := (a_scopes (reader_grant ''data''))\<lparr>device := fmupd ''arm'' (scope_of e) fmempty\<rparr>\<rparr>"

definition arm_root :: "sim_world broker" where
  "arm_root = snd (issue_root (sim_env plain_libs) some_holder (arm_grant arm_env) None empty_sample)"

definition arm_tree :: "sim_world broker" where
  "arm_tree = snd (attenuate (sim_env plain_libs) (seq_id 0) (arm_grant slow_env) some_holder None arm_root)"

lemma arm_tree_reachable: "reachable (sim_env plain_libs) arm_tree"
proof -
  have "reachable (sim_env plain_libs) empty_sample" unfolding empty_sample_def by (intro reachable.start started.new)
  then have "reachable (sim_env plain_libs) arm_root" unfolding arm_root_def using reachable.next_step step.issue_root by blast
  then show ?thesis unfolding arm_tree_def using reachable.next_step step.attenuate by blast
qed


section \<open>A rate of zero\<close>

text \<open>A rate of zero is within every rate for the order of the authority, and is no rate at all for the machine: a child of
  the arm's grant with \<open>rate_hz=0\<close> may command twice in one instant, which the grant itself refuses.\<close>

definition free_env :: actuator_envelope where "free_env = arm_env\<lparr>ae_rate_hz := Some 0\<rparr>"

definition commanded_twice :: "actuator_envelope \<Rightarrow> command_refusal + unit" where
  "commanded_twice e = fst (command no_adapter still ''arm'' [(''angle'', Finite 12)]
     (run_ops no_adapter [arm_move] (with_adapter (Simulated 7) [e] [] still None Wall None)))"

lemma rate_of_zero_widens:
  "envelope_parse plain_libs ''arm: angle=-30..95,rate_hz=0,heartbeat_ms=100,ttl_ms=5000,fail=safe-park'' = Inr free_env"
  "device_within (scope_of free_env) (scope_of arm_env)"
  "commanded_twice free_env = Inr ()"
  "commanded_twice arm_env = Inl (RefusedEnvelope (TooSoon ''arm'' 50 0 20000))"
  by code_simp+

end
