(* ===== verification/Net_Class.thy ===== *)
theory Net_Class imports Json "HOL-Library.Word" begin

unbundle bit_operations_syntax

text \<open>
  Special-use network addresses, \<open>crates/delulu-runtime/src/netclass.rs\<close>: the class of a host as a grant writes it
  and of an address a name resolved to. An IPv4 address is its 32-bit number, an IPv6 address the list of its eight
  segments; the reading of an IPv6 address from text is the standard library's, an argument. A class is a constructor
  where the code has its English name.
\<close>

datatype ip_addr = V4 nat | V6 "16 word list"

datatype special_class =
    ThisNetwork | Loopback4 | LinkLocal4 | Private4 | CarrierNat | Broadcast4 | Multicast4 | Reserved4 | IetfAssigned
  | Documentation4 | Benchmarking4
  | Loopback6 | Unspecified6 | UniqueLocal | LinkLocal6 | Multicast6 | MappedOrCompatible | SiteLocal | DiscardOnly
  | Teredo | Documentation6 | Benchmarking6 | Srv6 | LocalNat64 | Nat64Carrying | SixToFourCarrying
  | LoopbackName | MetadataName

section \<open>The tables\<close>

definition octets :: "nat \<Rightarrow> nat \<times> nat \<times> nat \<times> nat" where
  "octets ip = (ip div 2 ^ 24, ip div 2 ^ 16 mod 256, ip div 2 ^ 8 mod 256, ip mod 256)"

definition v4_class :: "nat \<Rightarrow> special_class option" where
  "v4_class ip =
     (let (a, b, c, d) = octets ip
      in if a = 0 then Some ThisNetwork
         else if a = 127 then Some Loopback4
         else if a = 169 \<and> b = 254 then Some LinkLocal4
         else if a = 10 \<or> a = 172 \<and> 16 \<le> b \<and> b \<le> 31 \<or> a = 192 \<and> b = 168 then Some Private4
         else if a = 100 \<and> 64 \<le> b \<and> b \<le> 127 then Some CarrierNat
         else if a = 255 \<and> b = 255 \<and> c = 255 \<and> d = 255 then Some Broadcast4
         else if 224 \<le> a \<and> a \<le> 239 then Some Multicast4
         else if 240 \<le> a then Some Reserved4
         else if a = 192 \<and> b = 0 \<and> c = 0 then Some IetfAssigned
         else if a = 192 \<and> b = 0 \<and> c = 2 \<or> a = 198 \<and> b = 51 \<and> c = 100 \<or> a = 203 \<and> b = 0 \<and> c = 113 then Some Documentation4
         else if a = 198 \<and> (b = 18 \<or> b = 19) then Some Benchmarking4
         else None)"

text \<open>The IPv4 address whose four bytes are two segments.\<close>

definition carried :: "16 word \<Rightarrow> 16 word \<Rightarrow> nat" where
  "carried hi lo = unat hi * 2 ^ 16 + unat lo"

definition v6_class :: "16 word list \<Rightarrow> special_class option" where
  "v6_class s =
     (if s = [0, 0, 0, 0, 0, 0, 0, 1] then Some Loopback6
      else if s = [0, 0, 0, 0, 0, 0, 0, 0] then Some Unspecified6
      else if s ! 0 AND 0xfe00 = 0xfc00 then Some UniqueLocal
      else if s ! 0 AND 0xffc0 = 0xfe80 then Some LinkLocal6
      else if s ! 0 AND 0xff00 = 0xff00 then Some Multicast6
      else if take 5 s = [0, 0, 0, 0, 0] \<and> (s ! 5 = 0xffff \<or> s ! 5 = 0) then Some MappedOrCompatible
      else if s ! 0 AND 0xffc0 = 0xfec0 then Some SiteLocal
      else if take 4 s = [0x0100, 0, 0, 0] then Some DiscardOnly
      else if s ! 0 = 0x2001 \<and> s ! 1 = 0 then Some Teredo
      else if s ! 0 = 0x2001 \<and> s ! 1 = 0x0db8 \<or> s ! 0 = 0x3fff \<and> s ! 1 AND 0xf000 = 0 then Some Documentation6
      else if s ! 0 = 0x2001 \<and> s ! 1 = 0x0002 \<and> s ! 2 = 0 then Some Benchmarking6
      else if s ! 0 = 0x5f00 then Some Srv6
      else if take 3 s = [0x0064, 0xff9b, 0x0001] then Some LocalNat64
      else if take 6 s = [0x0064, 0xff9b, 0, 0, 0, 0] then map_option (\<lambda>_. Nat64Carrying) (v4_class (carried (s ! 6) (s ! 7)))
      else if s ! 0 = 0x2002 then map_option (\<lambda>_. SixToFourCarrying) (v4_class (carried (s ! 1) (s ! 2)))
      else None)"

text \<open>\<open>IpAddr::to_canonical\<close>: an IPv4-mapped address is the IPv4 address.\<close>

fun to_canonical :: "ip_addr \<Rightarrow> ip_addr" where
  "to_canonical (V4 ip) = V4 ip"
| "to_canonical (V6 s) = (if take 6 s = [0, 0, 0, 0, 0, 0xffff] then V4 (carried (s ! 6) (s ! 7)) else V6 s)"

definition addr_class :: "ip_addr \<Rightarrow> special_class option" where
  "addr_class ip = (case to_canonical ip of V4 v4 \<Rightarrow> v4_class v4 | V6 v6 \<Rightarrow> v6_class v6)"

definition LOOPBACK_NAMES :: "string list" where
  "LOOPBACK_NAMES = [''localhost'', ''localhost.localdomain'', ''ip6-localhost'', ''ip6-loopback'']"

definition METADATA_NAMES :: "string list" where
  "METADATA_NAMES = [''metadata.google.internal'', ''metadata.goog'', ''metadata'', ''instance-data'', ''instance-data.ec2.internal'']"

definition name_class :: "string \<Rightarrow> special_class option" where
  "name_class h =
     (if h \<in> set LOOPBACK_NAMES \<or> ends_with ''.localhost'' h then Some LoopbackName
      else if h \<in> set METADATA_NAMES then Some MetadataName
      else None)"

section \<open>The spelling of a host\<close>

definition strip_host :: "string \<Rightarrow> string" where
  "strip_host h =
     (case strip_prefix ''['' h of
        Some rest \<Rightarrow> hd (split_on CHR '']'' rest)
      | None \<Rightarrow> if length (filter (\<lambda>c. c = CHR '':'') h) = 1 then hd (split_on CHR '':'' h) else h)"

definition strip_zone :: "string \<Rightarrow> string" where
  "strip_zone h = (case find_char CHR ''%'' h of Some i \<Rightarrow> take i h | None \<Rightarrow> h)"

definition strip_dots :: "string \<Rightarrow> string" where
  "strip_dots h = rev (dropWhile (\<lambda>c. c = CHR ''.'') (rev h))"

definition normalize_host :: "string \<Rightarrow> string" where
  "normalize_host host = strip_dots (strip_zone (strip_host (map ascii_lower (trim host))))"

section \<open>The grammar of inet_aton\<close>

text \<open>\<open>u64::from_str_radix\<close>.\<close>

fun read_radix_rev :: "nat \<Rightarrow> string \<Rightarrow> nat option" where
  "read_radix_rev b [] = Some 0"
| "read_radix_rev b (c # cs) =
     (case (hex_digit c, read_radix_rev b cs) of
        (Some d, Some n) \<Rightarrow> if d < b then Some (b * n + d) else None
      | _ \<Rightarrow> None)"

definition from_str_radix :: "nat \<Rightarrow> string \<Rightarrow> nat option" where
  "from_str_radix b s =
     (let ds = (case s of c # cs \<Rightarrow> if c = CHR ''+'' then cs else s | [] \<Rightarrow> [])
      in if ds = [] then None
         else (case read_radix_rev b (rev ds) of
                 None \<Rightarrow> None
               | Some n \<Rightarrow> if n \<le> u64_max then Some n else None))"

definition aton_part :: "string \<Rightarrow> nat option" where
  "aton_part p =
     (case strip_prefix ''0x'' p of
        Some hex \<Rightarrow> if hex = [] then Some 0 else from_str_radix 16 hex
      | None \<Rightarrow>
          if 1 < length p \<and> starts_with ''0'' p then from_str_radix 8 (tl p)
          else if p = [] \<or> \<not> (\<forall>c \<in> set p. is_ascii_digit c) then None
          else parse_unsigned u64_max p)"

fun all_parts :: "string list \<Rightarrow> nat list option" where
  "all_parts [] = Some []"
| "all_parts (p # ps) =
     (case aton_part p of
        None \<Rightarrow> None
      | Some n \<Rightarrow> (case all_parts ps of None \<Rightarrow> None | Some ns \<Rightarrow> Some (n # ns)))"

text \<open>The bytes of the head, most significant first, over what the last part fills.\<close>

definition head_value :: "nat list \<Rightarrow> nat" where
  "head_value ns = fold (\<lambda>(i, n) v. v OR push_bit (24 - 8 * i) n) (enumerate 0 ns) 0"

definition parse_ipv4_aton :: "string \<Rightarrow> nat option" where
  "parse_ipv4_aton s =
     (if s = [] then None
      else let parts = split_on CHR ''.'' s
           in if 4 < length parts then None
              else (case all_parts parts of
                      None \<Rightarrow> None
                    | Some ns \<Rightarrow>
                        let heads = butlast ns; final = last ns
                        in if \<exists>n \<in> set heads. 255 < n then None
                           else if 2 ^ (8 * (4 - length heads)) \<le> final then None
                           else Some (head_value heads OR final)))"

definition special_use_class :: "(string \<Rightarrow> 16 word list option) \<Rightarrow> string \<Rightarrow> special_class option" where
  "special_use_class parse_v6 host =
     (let h = normalize_host host
      in case parse_ipv4_aton h of
           Some v4 \<Rightarrow> v4_class v4
         | None \<Rightarrow> (case parse_v6 h of Some v6 \<Rightarrow> v6_class v6 | None \<Rightarrow> name_class h))"

end
