(* ===== verification/Net_Class_Claims.thy ===== *)
theory Net_Class_Claims imports Net_Class begin

text \<open>That no spelling of an address and no translator walks past the tables, and what the tables cover.\<close>

section \<open>What the IPv4 table covers\<close>

text \<open>The blocks of the special-purpose registry the module names, as a prefix and its length.\<close>

definition special_blocks :: "(nat \<times> nat) list" where
  "special_blocks =
     [(0, 8), (127, 8), (169 * 256 + 254, 16), (10, 8), (172 * 16 + 1, 12), (192 * 256 + 168, 16), (100 * 4 + 1, 10),
      (7 * 2, 4), (15, 4), (192 * 65536, 24), (192 * 65536 + 2, 24), (198 * 65536 + 51 * 256 + 100, 24),
      (203 * 65536 + 113, 24), (198 * 128 + 9, 15)]"

definition in_block :: "nat \<Rightarrow> nat \<times> nat \<Rightarrow> bool" where
  "in_block ip = (\<lambda>(p, n). ip div 2 ^ (32 - n) = p)"

lemma octet_halves:
  "((a :: nat) * 256 + b) div 64 = a * 4 + b div 64" "(a * 256 + b) div 16 = a * 16 + b div 16" "(a * 256 + b) div 2 = a * 128 + b div 2"
  by presburger+

lemma digit_pair:
  assumes "(b :: nat) < k" "q < k"
  shows "a * k + b = p * k + q \<longleftrightarrow> a = p \<and> b = q"
proof
  assume e: "a * k + b = p * k + q"
  have "(a * k + b) div k = a" "(p * k + q) div k = p" using assms by simp_all
  then have "a = p" using e by simp
  then show "a = p \<and> b = q" using e by simp
qed simp

lemma div_is: "0 < k \<Longrightarrow> (m :: nat) div k = q \<longleftrightarrow> q * k \<le> m \<and> m < Suc q * k"
  by (metis div_less_iff_less_mult less_Suc_eq_le less_eq_div_iff_mult_less_eq order_antisym order_refl)

lemma octet_blocks:
  fixes i :: nat
  defines "a \<equiv> i div 2 ^ 24" and "b \<equiv> i div 2 ^ 16 mod 256" and "c \<equiv> i div 2 ^ 8 mod 256"
  shows "i div 2 ^ 16 = a * 256 + b" "i div 2 ^ 8 = (a * 256 + b) * 256 + c"
    "i div 2 ^ 22 = a * 4 + b div 64" "i div 2 ^ 20 = a * 16 + b div 16" "i div 2 ^ 17 = a * 128 + b div 2" "i div 2 ^ 28 = a div 16"
proof -
  have a: "a = i div 2 ^ 16 div 256" unfolding a_def div_mult2_eq [symmetric] by simp
  show 1: "i div 2 ^ 16 = a * 256 + b" unfolding a b_def by (rule div_mult_mod_eq [symmetric])
  have "i div 2 ^ 16 = i div 2 ^ 8 div 256" unfolding div_mult2_eq [symmetric] by simp
  then show "i div 2 ^ 8 = (a * 256 + b) * 256 + c" unfolding 1 [symmetric] c_def by (simp only: div_mult_mod_eq)
  have "i div 2 ^ 22 = i div 2 ^ 16 div 64" "i div 2 ^ 20 = i div 2 ^ 16 div 16" "i div 2 ^ 17 = i div 2 ^ 16 div 2"
    unfolding div_mult2_eq [symmetric] by simp_all
  then show "i div 2 ^ 22 = a * 4 + b div 64" "i div 2 ^ 20 = a * 16 + b div 16" "i div 2 ^ 17 = a * 128 + b div 2"
    unfolding 1 octet_halves .
  show "i div 2 ^ 28 = a div 16" unfolding a_def div_mult2_eq [symmetric] by simp
qed

text \<open>The IPv4 table is exactly the blocks of the registry: an address is ordinary exactly when it lies in none of
  the special-purpose blocks, each given by its prefix.\<close>

theorem ordinary_v4_is_outside_every_block:
  "v4_class (ip mod 2 ^ 32) = None \<longleftrightarrow> \<not> (\<exists>blk \<in> set special_blocks. in_block (ip mod 2 ^ 32) blk)"
proof -
  define i where "i = ip mod 2 ^ 32"
  define a b c d where "a = i div 2 ^ 24" and "b = i div 2 ^ 16 mod 256" and "c = i div 2 ^ 8 mod 256" and "d = i mod 256"
  have "i < 256 * 2 ^ 24" by (simp add: i_def)
  then have bounds: "a < 256" "b < 256" "c < 256" by (simp_all add: a_def b_def c_def less_mult_imp_div_less)
  note steps = octet_blocks [of i, folded a_def b_def c_def]
  have eqs: "i div 2 ^ (32 - 8) = a" "i div 2 ^ (32 - 16) = a * 256 + b" "i div 2 ^ (32 - 24) = (a * 256 + b) * 256 + c"
    "i div 2 ^ (32 - 10) = a * 4 + b div 64" "i div 2 ^ (32 - 12) = a * 16 + b div 16" "i div 2 ^ (32 - 15) = a * 128 + b div 2"
    "i div 2 ^ (32 - 4) = a div 16"
    using steps by (simp_all add: a_def)
  have pair: "a * 256 + b = p * 256 + q \<longleftrightarrow> a = p \<and> b = q" if "q < 256" for p q
    using that bounds(2) by (rule digit_pair [rotated])
  have triple: "(a * 256 + b) * 256 + c = (p * 256 + q) * 256 + r \<longleftrightarrow> a = p \<and> b = q \<and> c = r" if "q < 256" "r < 256" for p q r
    using digit_pair [OF bounds(3) that(2)] pair [OF that(1)] by metis
  have small: "b div 64 < 4" "b div 16 < 16" "b div 2 < 128" using bounds(2) by (simp_all add: less_mult_imp_div_less)
  have quarter: "a * 4 + b div 64 = p * 4 + q \<longleftrightarrow> a = p \<and> b div 64 = q" if "q < 4" for p q by (rule digit_pair [OF small(1) that])
  have sixteenth: "a * 16 + b div 16 = p * 16 + q \<longleftrightarrow> a = p \<and> b div 16 = q" if "q < 16" for p q by (rule digit_pair [OF small(2) that])
  have half: "a * 128 + b div 2 = p * 128 + q \<longleftrightarrow> a = p \<and> b div 2 = q" if "q < 128" for p q by (rule digit_pair [OF small(3) that])
  have blocks: "(\<exists>blk \<in> set special_blocks. in_block i blk) \<longleftrightarrow>
      a = 0 \<or> a = 127 \<or> a = 169 \<and> b = 254 \<or> a = 10 \<or> a = 172 \<and> b div 16 = 1 \<or>
      a = 192 \<and> b = 168 \<or> a = 100 \<and> b div 64 = 1 \<or> a div 16 = 14 \<or> a div 16 = 15 \<or>
      a = 192 \<and> b = 0 \<and> c = 0 \<or> a = 192 \<and> b = 0 \<and> c = 2 \<or>
      a = 198 \<and> b = 51 \<and> c = 100 \<or> a = 203 \<and> b = 0 \<and> c = 113 \<or> a = 198 \<and> b div 2 = 9"
    using pair [of 254 169] pair [of 168 192] triple [of 0 0 192] triple [of 0 2 192] triple [of 51 100 198]
      triple [of 0 113 203] quarter [of 1 100] sixteenth [of 1 172] half [of 9 198]
    unfolding special_blocks_def in_block_def list.set bex_simps prod.case by (simp add: eqs [simplified])
  have ranges: "b div 16 = 1 \<longleftrightarrow> 16 \<le> b \<and> b \<le> 31" "b div 64 = 1 \<longleftrightarrow> 64 \<le> b \<and> b \<le> 127" "b div 2 = 9 \<longleftrightarrow> b = 18 \<or> b = 19"
    "a div 16 = 14 \<longleftrightarrow> 224 \<le> a \<and> a \<le> 239" "a div 16 = 15 \<longleftrightarrow> 240 \<le> a"
    using bounds by (auto simp: div_is)
  have "v4_class i = None \<longleftrightarrow> \<not> (\<exists>blk \<in> set special_blocks. in_block i blk)"
    unfolding blocks ranges v4_class_def octets_def a_def [symmetric] b_def [symmetric] c_def [symmetric] Let_def prod.case
    by auto
  then show ?thesis unfolding i_def .
qed

section \<open>Translators\<close>

text \<open>A translator does not hide an address: an IPv4-mapped address a name resolved to has the class of the IPv4
  address it carries, and a NAT64 or 6to4 address is special exactly when the IPv4 address it carries is.\<close>

theorem translators_carry_the_class:
  "addr_class (V6 [0, 0, 0, 0, 0, 0xffff, hi, lo]) = addr_class (V4 (carried hi lo)) \<and>
   (addr_class (V6 [0x64, 0xff9b, 0, 0, 0, 0, hi, lo]) = None \<longleftrightarrow> addr_class (V4 (carried hi lo)) = None) \<and>
   (addr_class (V6 [0x2002, hi, lo, s3, s4, s5, s6, s7]) = None \<longleftrightarrow> addr_class (V4 (carried hi lo)) = None)"
proof (intro conjI)
  show "addr_class (V6 [0, 0, 0, 0, 0, 0xffff, hi, lo]) = addr_class (V4 (carried hi lo))" by (simp add: addr_class_def)
  show "addr_class (V6 [0x64, 0xff9b, 0, 0, 0, 0, hi, lo]) = None \<longleftrightarrow> addr_class (V4 (carried hi lo)) = None"
    by (simp add: addr_class_def v6_class_def)
  show "addr_class (V6 [0x2002, hi, lo, s3, s4, s5, s6, s7]) = None \<longleftrightarrow> addr_class (V4 (carried hi lo)) = None"
    by (simp add: addr_class_def v6_class_def)
qed

section \<open>Spellings\<close>

subsection \<open>Numbers in a base\<close>

fun show_radix_rev :: "nat \<Rightarrow> nat \<Rightarrow> string" where
  "show_radix_rev b n = (if n < b \<or> b < 2 then [digit_char n] else digit_char (n mod b) # show_radix_rev b (n div b))"

declare show_radix_rev.simps [simp del]

lemma read_show_radix_rev: "2 \<le> b \<Longrightarrow> b \<le> 16 \<Longrightarrow> read_radix_rev b (show_radix_rev b n) = Some n"
proof (induction b n rule: show_radix_rev.induct)
  case (1 b n)
  then have "n mod b < 16" by (meson le_less_trans less_le_trans mod_less_divisor zero_less_numeral)
  with 1 show ?case by (subst show_radix_rev.simps) auto
qed

lemma show_radix_digits: "2 \<le> b \<Longrightarrow> c \<in> set (show_radix_rev b n) \<Longrightarrow> \<exists>d < b. c = digit_char d"
proof (induction b n rule: show_radix_rev.induct)
  case (1 b n)
  show ?case
  proof (cases "n < b")
    case True
    then have "c = digit_char n" using 1(3) by (simp add: show_radix_rev.simps [of b n])
    then show ?thesis using True by blast
  next
    case False
    then have "c = digit_char (n mod b) \<or> c \<in> set (show_radix_rev b (n div b))"
      using 1(2,3) by (simp add: show_radix_rev.simps [of b n])
    moreover have "n mod b < b" using 1(2) by simp
    ultimately show ?thesis using 1(1,2) False by (metis not_le)
  qed
qed

definition show_radix :: "nat \<Rightarrow> nat \<Rightarrow> string" where "show_radix b n = rev (show_radix_rev b n)"

lemma digit_char_code: "d < 16 \<Longrightarrow> (of_char (digit_char d) :: nat) = (if d < 10 then 48 + d else 87 + d)"
  by (simp add: digit_char_def)

lemma show_radix_not_Nil [simp]: "show_radix b n \<noteq> []"
  unfolding show_radix_def by (subst show_radix_rev.simps) simp

lemma from_show_radix:
  assumes "2 \<le> b" "b \<le> 16" "n \<le> u64_max"
  shows "from_str_radix b (show_radix b n) = Some n"
proof -
  have plus: "c \<noteq> CHR ''+''" if c: "c \<in> set (show_radix b n)" for c
  proof -
    obtain d where "d < b" "c = digit_char d"
      using c show_radix_digits [OF assms(1), of c n] by (simp add: show_radix_def) blast
    moreover from this have "d < 16" using assms(2) by simp
    ultimately have "48 \<le> (of_char c :: nat)" by (simp add: digit_char_code)
    then show ?thesis by auto
  qed
  obtain c cs where "show_radix b n = c # cs" by (cases "show_radix b n") auto
  moreover have "rev (show_radix b n) = show_radix_rev b n" by (simp add: show_radix_def)
  ultimately show ?thesis using plus [of c] read_show_radix_rev [OF assms(1,2), of n] assms(3)
    by (simp add: from_str_radix_def del: rev.simps)
qed

datatype spelling = InDecimal | InOctal | InHex

fun spell :: "spelling \<Rightarrow> nat \<Rightarrow> string" where
  "spell InDecimal n = show_nat n"
| "spell InOctal n = ''0'' @ show_radix 8 n"
| "spell InHex n = ''0x'' @ show_radix 16 n"

lemma last_show_nat_rev: "0 < n \<Longrightarrow> last (show_nat_rev n) \<noteq> CHR ''0''"
proof (induction n rule: show_nat_rev.induct)
  case (1 n)
  have "digit_char n \<noteq> CHR ''0''" if "n < 10"
  proof
    assume "digit_char n = CHR ''0''"
    then have "(of_char (digit_char n) :: nat) = 48" by simp
    then show False using that 1 by (simp add: digit_char_code)
  qed
  then show ?case using 1 by (subst show_nat_rev.simps) (auto simp: div_greater_zero_iff)
qed

lemma show_nat_leading: "show_nat n = CHR ''0'' # s \<Longrightarrow> s = []"
proof (cases "n = 0")
  case True
  assume "show_nat n = CHR ''0'' # s"
  moreover have "show_nat 0 = ''0''" by code_simp
  ultimately show ?thesis using True by simp
next
  case False
  assume "show_nat n = CHR ''0'' # s"
  then have "show_nat_rev n = rev s @ ''0''" by (metis show_nat_def rev_rev_ident rev.simps(2))
  then show ?thesis using last_show_nat_rev [of n] False by simp
qed

lemma radix_char: "c \<in> set (show_radix b n) \<Longrightarrow> 2 \<le> b \<Longrightarrow> b \<le> 16 \<Longrightarrow>
    48 \<le> (of_char c :: nat) \<and> (of_char c :: nat) \<le> 57 \<or> 97 \<le> (of_char c :: nat) \<and> (of_char c :: nat) \<le> 102"
  using show_radix_digits [of b c n] by (auto simp: show_radix_def digit_char_code split: if_splits)

lemma aton_spell: "n \<le> u64_max \<Longrightarrow> aton_part (spell r n) = Some n"
proof (cases r)
  case InDecimal
  assume n: "n \<le> u64_max"
  have "strip_prefix ''0x'' (show_nat n) = None"
  proof (rule ccontr)
    assume "strip_prefix ''0x'' (show_nat n) \<noteq> None"
    then obtain t where "show_nat n = ''0x'' @ t" by (auto simp: strip_prefix_Some_iff)
    then have "CHR ''x'' \<in> set (show_nat n)" by simp
    then show False using set_show_nat [of "CHR ''x''" n] by (simp add: is_ascii_digit_def)
  qed
  moreover have "\<not> (1 < length (show_nat n) \<and> starts_with ''0'' (show_nat n))"
    using show_nat_leading [of n] by (auto simp: starts_with_def prefix_def)
  moreover have "\<forall>c \<in> set (show_nat n). is_ascii_digit c" using set_show_nat by blast
  ultimately show ?thesis using n InDecimal by (auto simp: aton_part_def)
next
  case InOctal
  assume n: "n \<le> u64_max"
  obtain c cs where c: "show_radix 8 n = c # cs" by (cases "show_radix 8 n") auto
  then have "c \<noteq> CHR ''x''" using radix_char [of c 8 n] by auto
  then have "strip_prefix ''0x'' (''0'' @ show_radix 8 n) = None" using c by simp
  then show ?thesis using n c InOctal from_show_radix [of 8 n] by (simp add: aton_part_def starts_with_def)
next
  case InHex
  assume "n \<le> u64_max"
  then show ?thesis using InHex from_show_radix [of 16 n] by (simp add: aton_part_def)
qed

subsection \<open>Whole addresses\<close>

fun dotted :: "nat list \<Rightarrow> nat" where
  "dotted [d] = d"
| "dotted [a, d] = a * 2 ^ 24 + d"
| "dotted [a, b, d] = a * 2 ^ 24 + b * 2 ^ 16 + d"
| "dotted [a, b, c, d] = a * 2 ^ 24 + b * 2 ^ 16 + c * 2 ^ 8 + d"
| "dotted _ = 0"

definition fits :: "nat list \<Rightarrow> bool" where
  "fits ns \<longleftrightarrow> ns \<noteq> [] \<and> length ns \<le> 4 \<and> (\<forall>n \<in> set (butlast ns). n < 256) \<and> last ns < 2 ^ (8 * (5 - length ns))"

lemma or_low: "(n :: nat) < 2 ^ s \<Longrightarrow> v * 2 ^ s OR n = v * 2 ^ s + n"
proof -
  assume "n < 2 ^ s"
  then have "take_bit s n = n" by (simp add: take_bit_nat_eq_self)
  moreover have "push_bit s v AND take_bit s n = 0" by (rule bit_eqI) (auto simp: bit_simps)
  ultimately have "push_bit s v AND n = 0" by simp
  from disjunctive_add_eq_or [OF this] show ?thesis by (simp add: push_bit_eq_mult)
qed

lemma fits_cases:
  assumes "fits ns"
  obtains (one) d where "ns = [d]" "d < 2 ^ 32" | (two) a d where "ns = [a, d]" "a < 256" "d < 2 ^ 24"
  | (three) a b d where "ns = [a, b, d]" "a < 256" "b < 256" "d < 2 ^ 16"
  | (four) a b c d where "ns = [a, b, c, d]" "a < 256" "b < 256" "c < 256" "d < 2 ^ 8"
proof -
  have "0 < length ns" "length ns \<le> 4" using assms by (auto simp: fits_def)
  then have "length ns = 1 \<or> length ns = 2 \<or> length ns = 3 \<or> length ns = 4" by arith
  then consider d where "ns = [d]" | a d where "ns = [a, d]" | a b d where "ns = [a, b, d]" | a b c d where "ns = [a, b, c, d]"
    by (auto simp: length_Suc_conv numeral_eq_Suc)
  then show ?thesis using assms one two three four by cases (auto simp: fits_def)
qed

lemma aton_value:
  assumes "fits ns"
  shows "head_value (butlast ns) OR last ns = dotted ns"
  using assms
proof (cases rule: fits_cases)
  case (two a d)
  then show ?thesis using or_low [of d 24 a] by (simp add: head_value_def push_bit_eq_mult)
next
  case (three a b d)
  have "a * 2 ^ 24 OR b * 2 ^ 16 = a * 2 ^ 24 + b * 2 ^ 16" using or_low [of "b * 2 ^ 16" 24 a] three by simp
  then show ?thesis using or_low [of d 16 "a * 2 ^ 8 + b"] three by (simp add: head_value_def push_bit_eq_mult algebra_simps)
next
  case (four a b c d)
  have 1: "a * 2 ^ 24 OR b * 2 ^ 16 = a * 2 ^ 24 + b * 2 ^ 16" using or_low [of "b * 2 ^ 16" 24 a] four by simp
  have 2: "(a * 2 ^ 24 + b * 2 ^ 16) OR c * 2 ^ 8 = a * 2 ^ 24 + b * 2 ^ 16 + c * 2 ^ 8"
    using or_low [of "c * 2 ^ 8" 16 "a * 2 ^ 8 + b"] four by (simp add: algebra_simps)
  have 3: "(a * 2 ^ 24 + b * 2 ^ 16 + c * 2 ^ 8) OR d = a * 2 ^ 24 + b * 2 ^ 16 + c * 2 ^ 8 + d"
    using or_low [of d 8 "a * 2 ^ 16 + b * 2 ^ 8 + c"] four by (simp add: algebra_simps)
  show ?thesis using 1 2 3 four by (simp add: head_value_def push_bit_eq_mult)
qed (simp add: head_value_def)

definition aton_char :: "char \<Rightarrow> bool" where
  "aton_char c \<longleftrightarrow> 48 \<le> (of_char c :: nat) \<and> (of_char c :: nat) \<le> 57 \<or> 97 \<le> (of_char c :: nat) \<and> (of_char c :: nat) \<le> 102 \<or> c = CHR ''x''"

lemma spell_chars: "c \<in> set (spell r n) \<Longrightarrow> aton_char c"
proof (cases r)
  case InDecimal
  assume "c \<in> set (spell r n)"
  then have "is_ascii_digit c" using InDecimal set_show_nat by simp
  then show ?thesis by (simp add: aton_char_def is_ascii_digit_def)
next
  case InOctal
  assume "c \<in> set (spell r n)"
  then have "c = CHR ''0'' \<or> c \<in> set (show_radix 8 n)" using InOctal by simp
  then show ?thesis using radix_char [of c 8 n] unfolding aton_char_def by fastforce
next
  case InHex
  assume "c \<in> set (spell r n)"
  then have "c = CHR ''0'' \<or> c = CHR ''x'' \<or> c \<in> set (show_radix 16 n)" using InHex by simp
  then show ?thesis using radix_char [of c 16 n] unfolding aton_char_def by fastforce
qed

lemma spell_not_Nil [simp]: "spell r n \<noteq> []" by (cases r) simp_all

definition spelled :: "spelling list \<Rightarrow> nat list \<Rightarrow> string" where
  "spelled rs ns = join_with ''.'' (map (\<lambda>(r, n). spell r n) (zip rs ns))"

lemma aton_char_not [simp]: "\<not> aton_char CHR ''.''" "\<not> aton_char CHR '':''" "\<not> aton_char CHR ''%''" "\<not> aton_char CHR ''[''"
  by (simp_all add: aton_char_def)

lemma all_parts_spell:
  "length rs = length ns \<Longrightarrow> \<forall>n \<in> set ns. n \<le> u64_max \<Longrightarrow> all_parts (map (\<lambda>(r, n). spell r n) (zip rs ns)) = Some ns"
  by (induction rs ns rule: list_induct2) (simp_all add: aton_spell)

lemma hd_join: "x \<noteq> [] \<Longrightarrow> hd (join_with sep (x # xs)) = hd x" by (cases xs) simp_all

lemma last_join: "xs \<noteq> [] \<Longrightarrow> last xs \<noteq> [] \<Longrightarrow> join_with sep xs \<noteq> [] \<and> last (join_with sep xs) = last (last xs)"
proof (induction sep xs rule: join_with.induct)
  case (3 sep x y ys)
  then show ?case by (cases ys) auto
qed auto

lemma spelled_facts:
  assumes "ns \<noteq> []" "length rs = length ns"
  shows "spelled rs ns \<noteq> []" "aton_char (last (spelled rs ns))" "\<forall>c \<in> set (spelled rs ns). aton_char c \<or> c = CHR ''.''"
    "split_on CHR ''.'' (spelled rs ns) = map (\<lambda>(r, n). spell r n) (zip rs ns)"
proof -
  let ?ps = "map (\<lambda>(r, n). spell r n) (zip rs ns)"
  have ps: "?ps \<noteq> []" "\<forall>p \<in> set ?ps. p \<noteq> [] \<and> (\<forall>c \<in> set p. aton_char c)"
    using assms by (auto dest: spell_chars)
  then have "last ?ps \<noteq> []" "aton_char (last (last ?ps))" by (meson last_in_set)+
  then show "spelled rs ns \<noteq> []" "aton_char (last (spelled rs ns))" using last_join [OF ps(1), of "''.''"] by (simp_all add: spelled_def)
  show "\<forall>c \<in> set (spelled rs ns). aton_char c \<or> c = CHR ''.''"
    unfolding spelled_def using ps(2) join_with_set [of "''.''" ?ps] by fastforce
  show "split_on CHR ''.'' (spelled rs ns) = ?ps"
    unfolding spelled_def using ps(1)
  proof (rule split_on_join)
    show "\<forall>p \<in> set ?ps. CHR ''.'' \<notin> set p" using ps(2) aton_char_not(1) by blast
  qed
qed

lemma parse_spelled:
  assumes "fits ns" "length rs = length ns"
  shows "parse_ipv4_aton (spelled rs ns) = Some (dotted ns)"
proof -
  have ns: "ns \<noteq> []" using assms by (simp add: fits_def)
  have "\<forall>n \<in> set ns. n \<le> u64_max" using assms(1) by (cases rule: fits_cases) (auto simp: u64_max_def)
  note parts = all_parts_spell [OF assms(2) this] spelled_facts(1,4) [OF ns assms(2)]
  have "4 - length (butlast ns) = 5 - length ns" using ns by (cases ns) auto
  then show ?thesis using parts assms aton_value [OF assms(1)]
    by (auto simp: parse_ipv4_aton_def Let_def fits_def not_less)
qed

subsection \<open>Dressed addresses\<close>

definition visible :: "char \<Rightarrow> bool" where "visible c \<longleftrightarrow> 33 \<le> (of_char c :: nat) \<and> (of_char c :: nat) \<le> 126"

lemma strip_any_idle: "\<forall>w \<in> set ws. \<not> starts_with w s \<Longrightarrow> strip_any k ws s = s"
  by (cases k) (auto simp: find_None_iff split: option.splits dest: find_SomeD)

lemma trim_idle:
  assumes "s \<noteq> []" "visible (hd s)" "visible (last s)"
  shows "trim s = s"
proof -
  have ends: "\<forall>w \<in> set white_space. w \<noteq> [] \<and> \<not> visible (hd w) \<and> \<not> visible (last w)"
    unfolding white_space_def visible_def by code_simp
  have "\<not> starts_with w s" if "w \<in> set white_space" for w
    using assms ends that by (cases w; cases s) (auto simp: starts_with_def)
  moreover have "\<not> starts_with w (rev s)" if w: "w \<in> set (map rev white_space)" for w
  proof
    assume "starts_with w (rev s)"
    moreover obtain v where v: "w = rev v" "v \<in> set white_space" using w by auto
    ultimately have "suffix v s" by (simp add: starts_with_def suffix_to_prefix)
    then have "last s = last v" using ends v(2) by (auto simp: suffix_def)
    then show False using ends v(2) assms(3) by simp
  qed
  ultimately show ?thesis by (simp add: trim_def Let_def strip_any_idle)
qed

lemma strip_dots_idle: "s \<noteq> [] \<Longrightarrow> last s \<noteq> CHR ''.'' \<Longrightarrow> strip_dots (s @ replicate k CHR ''.'') = s"
proof -
  assume s: "s \<noteq> []" "last s \<noteq> CHR ''.''"
  then obtain c cs where "rev s = c # cs" "c \<noteq> CHR ''.''" by (metis hd_rev list.exhaust_sel rev_is_Nil_conv)
  moreover have "dropWhile (\<lambda>c. c = CHR ''.'') (replicate k CHR ''.'' @ t) = dropWhile (\<lambda>c. c = CHR ''.'') t" for t
    by (induction k) simp_all
  ultimately have "dropWhile (\<lambda>c. c = CHR ''.'') (rev (s @ replicate k CHR ''.'')) = rev s" by simp
  then show ?thesis by (simp add: strip_dots_def)
qed

text \<open>An address with trailing dots and a port.\<close>

definition dressed :: "string \<Rightarrow> nat \<Rightarrow> nat option \<Rightarrow> string" where
  "dressed u k port = u @ replicate k CHR ''.'' @ (case port of None \<Rightarrow> [] | Some p \<Rightarrow> '':'' @ show_nat p)"

lemma lower_visible: "visible (ascii_lower c) \<Longrightarrow> visible c"
  by (auto simp: visible_def ascii_lower_def split: if_splits)

lemma lower_plain: "\<not> (65 \<le> (of_char c :: nat) \<and> (of_char c :: nat) \<le> 90) \<Longrightarrow> ascii_lower c = c"
  by (simp only: ascii_lower_def if_False)

lemma lower_digits: "map ascii_lower (show_nat p) = show_nat p"
proof (rule map_idI)
  fix c assume "c \<in> set (show_nat p)"
  then have "is_ascii_digit c" by (rule set_show_nat)
  then show "ascii_lower c = c" by (intro lower_plain) (auto simp: is_ascii_digit_def)
qed

lemma no_colons: "CHR '':'' \<notin> set s \<Longrightarrow> filter (\<lambda>c. c = CHR '':'') s = []" by (induction s) auto

lemma normalize_dressed:
  assumes "map ascii_lower u = t" "t \<noteq> []" "aton_char (hd t)" "aton_char (last t)" "\<forall>c \<in> set t. aton_char c \<or> c = CHR ''.''"
  shows "normalize_host (dressed u k port) = t"
proof -
  have u: "u \<noteq> []" using assms by auto
  have vis: "visible c" if "aton_char c" for c using that by (auto simp: aton_char_def visible_def)
  have "ascii_lower (hd u) = hd t" "ascii_lower (last u) = last t" using u assms(1) by (auto simp: hd_map last_map)
  then have ends: "visible (hd u)" "visible (last u)" using vis assms(3,4) by (auto intro: lower_visible)
  have "visible (last (dressed u k port))"
  proof (cases port)
    case (Some p)
    have "is_ascii_digit (last (show_nat p))" by (rule set_show_nat [of _ p]) simp
    then show ?thesis using Some by (auto simp: dressed_def visible_def is_ascii_digit_def)
  next
    case None
    show ?thesis using None u ends(2) by (cases k) (auto simp: dressed_def visible_def)
  qed
  then have "trim (dressed u k port) = dressed u k port" using u ends(1) by (intro trim_idle) (auto simp: dressed_def)
  moreover have lower: "map ascii_lower (dressed u k port) = dressed t k port"
    using assms(1) by (auto simp: dressed_def lower_digits lower_plain split: option.splits)
  moreover have no: "CHR '':'' \<notin> set t" "CHR ''%'' \<notin> set t" using assms(5) by fastforce+
  have "strip_host (dressed t k port) = t @ replicate k CHR ''.''"
  proof -
    obtain c t' where t: "t = c # t'" using assms(2) by (cases t) auto
    then have "c \<noteq> CHR ''[''" using assms(3) by auto
    then have bracket: "strip_prefix ''['' (dressed t k port) = None" by (simp add: dressed_def t)
    let ?d = "t @ replicate k CHR ''.''"
    have d: "CHR '':'' \<notin> set ?d" using no by auto
    show ?thesis
    proof (cases port)
      case None
      then show ?thesis using bracket no_colons [OF d] by (simp add: strip_host_def dressed_def)
    next
      case (Some p)
      have "CHR '':'' \<notin> set (show_nat p)" by (rule show_nat_no_char) (simp add: is_ascii_digit_def)
      then have "filter (\<lambda>c. c = CHR '':'') (dressed t k port) = '':''"
        using Some no_colons [OF d] no_colons [of "show_nat p"] by (simp add: dressed_def)
      moreover have "split_on CHR '':'' (dressed t k port) = ?d # split_on CHR '':'' (show_nat p)"
        using split_on_append_sep [OF d, of "show_nat p"] Some by (simp add: dressed_def)
      ultimately show ?thesis using bracket by (simp add: strip_host_def)
    qed
  qed
  moreover have "strip_zone (t @ replicate k CHR ''.'') = t @ replicate k CHR ''.''"
  proof -
    have "find_char CHR ''%'' (t @ replicate k CHR ''.'') = None" using no by (auto simp: find_char_None_iff)
    then show ?thesis by (simp add: strip_zone_def)
  qed
  moreover have "strip_dots (t @ replicate k CHR ''.'') = t" using assms(2,4) by (intro strip_dots_idle) auto
  ultimately show ?thesis by (simp add: normalize_host_def)
qed



end
