(* ===== verification/Tokens.thy ===== *)
theory Tokens imports Json begin

text \<open>
  Characters and tokens. A Rust \<open>str\<close> is read character by character: a \<open>string\<close> holds the UTF-8 bytes, so a \<open>char\<close> of the
  source is the byte string of its encoding, the leading byte with the continuation bytes it announces. Positions are byte
  positions, as in the source, and every function is total on byte strings that are not UTF-8, which a \<open>str\<close> never is.
  Then the token model, \<open>crates/delulu-syntax/src/token.rs\<close>: the kinds, the keyword table and its inverse, the spelling and
  the description of every kind, and the index the reference manual is generated from. A kind \<open>X\<close> of the source is
  \<open>TkX\<close>, a keyword \<open>KwX\<close> keeps its name.
\<close>

definition is_continuation :: "char \<Rightarrow> bool" where
  "is_continuation b \<longleftrightarrow> 128 \<le> (of_char b :: nat) \<and> (of_char b :: nat) < 192"

definition extra_bytes :: "char \<Rightarrow> nat" where
  "extra_bytes b = (let n = (of_char b :: nat) in if n < 192 then 0 else if n < 224 then 1 else if n < 240 then 2 else 3)"

fun first_char :: "string \<Rightarrow> string" where
  "first_char [] = []"
| "first_char (b # bs) = b # takeWhile is_continuation (take (extra_bytes b) bs)"

definition char_at :: "string \<Rightarrow> nat \<Rightarrow> string" where
  "char_at s n = first_char (drop n s)"

text \<open>\<open>str::char_indices\<close>, counted from \<open>n\<close>, and \<open>str::chars\<close>.\<close>

function char_indices_from :: "nat \<Rightarrow> string \<Rightarrow> (nat \<times> string) list" where
  "char_indices_from n [] = []"
| "char_indices_from n (b # bs) =
     (let c = first_char (b # bs) in (n, c) # char_indices_from (n + length c) (drop (length c) (b # bs)))"
  by pat_completeness auto

termination char_indices_from
  by (relation "measure (\<lambda>(n, s). length s)") auto

definition char_indices :: "string \<Rightarrow> (nat \<times> string) list" where
  "char_indices s = char_indices_from 0 s"

definition str_chars :: "string \<Rightarrow> string list" where
  "str_chars s = map snd (char_indices s)"

text \<open>The code point of a character, and \<open>char::from_u32\<close> with the encoding of what it gives.\<close>

fun code_point :: "string \<Rightarrow> nat" where
  "code_point [a] = of_char a"
| "code_point [a, b] = of_char a mod 32 * 64 + of_char b mod 64"
| "code_point [a, b, c] = of_char a mod 16 * 4096 + of_char b mod 64 * 64 + of_char c mod 64"
| "code_point [a, b, c, d] = of_char a mod 8 * 262144 + of_char b mod 64 * 4096 + of_char c mod 64 * 64 + of_char d mod 64"
| "code_point _ = 0"

definition encode_char :: "nat \<Rightarrow> string" where
  "encode_char n =
     (if n < 128 then [char_of n]
      else if n < 2048 then [char_of (192 + n div 64), char_of (128 + n mod 64)]
      else if n < 65536 then [char_of (224 + n div 4096), char_of (128 + n div 64 mod 64), char_of (128 + n mod 64)]
      else [char_of (240 + n div 262144), char_of (128 + n div 4096 mod 64), char_of (128 + n div 64 mod 64), char_of (128 + n mod 64)])"

definition char_from_u32 :: "nat \<Rightarrow> string option" where
  "char_from_u32 n = (if n < 55296 \<or> 57343 < n \<and> n < 1114112 then Some (encode_char n) else None)"

section \<open>Classes of characters\<close>

text \<open>
  The classes on ASCII are written out. Beyond ASCII \<open>char::is_alphabetic\<close> and \<open>char::is_numeric\<close> are tables
  of the standard library, a parameter; \<open>White_Space\<close> and \<open>Cc\<close> are short and written out.
\<close>

record unicode =
  u_alphabetic :: "nat \<Rightarrow> bool"
  u_numeric :: "nat \<Rightarrow> bool"

text \<open>A concrete table, at which the properties that speak of one are applied.\<close>

definition no_unicode :: unicode where
  "no_unicode = \<lparr>u_alphabetic = (\<lambda>_. False), u_numeric = (\<lambda>_. False)\<rparr>"

definition ascii_of :: "string \<Rightarrow> char option" where
  "ascii_of c = (case c of [b] \<Rightarrow> if (of_char b :: nat) < 128 then Some b else None | _ \<Rightarrow> None)"

definition char_digit :: "string \<Rightarrow> bool" where
  "char_digit c = (case ascii_of c of Some b \<Rightarrow> is_ascii_digit b | None \<Rightarrow> False)"

definition char_hexdigit :: "string \<Rightarrow> bool" where
  "char_hexdigit c = (case ascii_of c of Some b \<Rightarrow> hex_digit b \<noteq> None | None \<Rightarrow> False)"

definition char_ascii_alphabetic :: "string \<Rightarrow> bool" where
  "char_ascii_alphabetic c = (case ascii_of c of Some b \<Rightarrow> is_ascii_alphabetic b | None \<Rightarrow> False)"

definition char_alphabetic :: "unicode \<Rightarrow> string \<Rightarrow> bool" where
  "char_alphabetic u c = (case ascii_of c of Some b \<Rightarrow> is_ascii_alphabetic b | None \<Rightarrow> u_alphabetic u (code_point c))"

definition char_alphanumeric :: "unicode \<Rightarrow> string \<Rightarrow> bool" where
  "char_alphanumeric u c =
     (case ascii_of c of Some b \<Rightarrow> is_ascii_alphanumeric b | None \<Rightarrow> u_alphabetic u (code_point c) \<or> u_numeric u (code_point c))"

definition char_whitespace :: "string \<Rightarrow> bool" where
  "char_whitespace c \<longleftrightarrow>
     (let n = code_point c
      in c \<noteq> [] \<and> (9 \<le> n \<and> n \<le> 13 \<or> n = 32 \<or> n = 133 \<or> n = 160 \<or> n = 5760 \<or> 8192 \<le> n \<and> n \<le> 8202 \<or>
                    n = 8232 \<or> n = 8233 \<or> n = 8239 \<or> n = 8287 \<or> n = 12288))"

definition char_control :: "string \<Rightarrow> bool" where
  "char_control c \<longleftrightarrow> (let n = code_point c in n < 32 \<or> 127 \<le> n \<and> n < 160)"

section \<open>Facts\<close>

lemma first_char_Nil_iff [simp]: "first_char s = [] \<longleftrightarrow> s = []" by (cases s) auto

lemma first_char_prefix: "take (length (first_char s)) s = first_char s"
proof (cases s)
  case (Cons b bs)
  let ?t = "take (extra_bytes b) bs"
  have "take (length (takeWhile is_continuation ?t)) bs = takeWhile is_continuation ?t"
    by (metis append_eq_conv_conj append_take_drop_id append.assoc takeWhile_dropWhile_id)
  then show ?thesis using Cons by simp
qed simp

lemma length_first_char_le: "length (first_char s) \<le> length s"
  by (metis first_char_prefix length_take min.absorb_iff2 min.commute nat_le_linear)

lemma char_at_end [simp]: "length s \<le> n \<Longrightarrow> char_at s n = []" by (simp add: char_at_def)

lemma char_at_not_Nil [simp]: "n < length s \<Longrightarrow> char_at s n \<noteq> []" by (simp add: char_at_def)

lemma char_at_pos: "n < length s \<Longrightarrow> 0 < length (char_at s n)" by simp

lemma char_at_bound: "n < length s \<Longrightarrow> n + length (char_at s n) \<le> length s"
  using length_first_char_le [of "drop n s"] by (simp add: char_at_def)

lemma hd_char_at: "n < length s \<Longrightarrow> hd (char_at s n) = s ! n"
  by (simp add: char_at_def Cons_nth_drop_Suc [symmetric])

text \<open>Only the leading byte of a character is below 128.\<close>

lemma tail_char_at: "b \<in> set (tl (char_at s n)) \<Longrightarrow> is_continuation b"
  by (cases "drop n s") (auto simp: char_at_def dest: set_takeWhileD)

lemma char_at_nth: "n < length s \<Longrightarrow> k < length (char_at s n) \<Longrightarrow> s ! (n + k) = char_at s n ! k"
  by (metis char_at_def drop_eq_Nil first_char_prefix less_imp_le not_less nth_drop nth_take)

lemma char_at_inner: "n < length s \<Longrightarrow> n < i \<Longrightarrow> i < n + length (char_at s n) \<Longrightarrow> is_continuation (s ! i)"
proof -
  assume a: "n < length s" "n < i" "i < n + length (char_at s n)"
  define k where "k = i - n - 1"
  have i: "i = n + Suc k" and k: "Suc k < length (char_at s n)" using a by (auto simp: k_def)
  have "char_at s n ! Suc k = tl (char_at s n) ! k" using k by (simp add: nth_tl)
  moreover have "tl (char_at s n) ! k \<in> set (tl (char_at s n))" using k by (intro nth_mem) simp
  ultimately show ?thesis using char_at_nth [OF a(1) k] i tail_char_at by metis
qed

lemma char_at_single: "n < length s \<Longrightarrow> char_at s n = [b] \<Longrightarrow> s ! n = b"
  by (metis hd_char_at list.sel(1))

lemma first_char_ascii: "(of_char b :: nat) < 192 \<Longrightarrow> first_char (b # bs) = [b]"
  by (simp add: extra_bytes_def Let_def)

lemma char_at_ascii: "n < length s \<Longrightarrow> (of_char (s ! n) :: nat) < 192 \<Longrightarrow> char_at s n = [s ! n]"
  by (metis Cons_nth_drop_Suc char_at_def first_char_ascii)

section \<open>Tokens\<close>

datatype (plugins only: code size) token_kind =
    TkIdent string
  | TkInt int
  | TkFloat f64
  | TkStr string
  | KwFn | KwLet | KwVar | KwIf | KwElse | KwWhile
  | KwReturn | KwMatch | KwModule | KwImport | KwPub | KwType
  | KwEffect | KwTrue | KwFalse | KwActor | KwSpawn | KwConsume
  | KwRecover | KwFor | KwIn | KwBreak | KwContinue
  | TkLParen | TkRParen | TkLBrace | TkRBrace | TkLBracket | TkRBracket | TkComma
  | TkDot | TkColon | TkArrow | TkFatArrow | TkBang | TkQuestion | TkPipe
  | TkUnderscore | TkAt | TkEq | TkEqEq | TkNotEq | TkLt | TkLe
  | TkGt | TkGe | TkPlus | TkMinus | TkStar | TkSlash | TkPercent
  | TkAndAnd | TkOrOr
  | TkTerm
  | TkEof

definition can_end_statement :: "token_kind \<Rightarrow> bool" where
  "can_end_statement k =
     (case k of
        TkIdent _ \<Rightarrow> True
      | TkInt _ \<Rightarrow> True
      | TkFloat _ \<Rightarrow> True
      | TkStr _ \<Rightarrow> True
      | KwTrue \<Rightarrow> True
      | KwFalse \<Rightarrow> True
      | KwReturn \<Rightarrow> True
      | TkRParen \<Rightarrow> True
      | TkRBracket \<Rightarrow> True
      | TkRBrace \<Rightarrow> True
      | TkQuestion \<Rightarrow> True
      | KwConsume \<Rightarrow> True
      | KwRecover \<Rightarrow> True
      | _ \<Rightarrow> False)"

definition keyword_lexeme :: "token_kind \<Rightarrow> string option" where
  "keyword_lexeme k =
     (case k of
        KwFn \<Rightarrow> Some ''fn''
      | KwLet \<Rightarrow> Some ''let''
      | KwVar \<Rightarrow> Some ''var''
      | KwIf \<Rightarrow> Some ''if''
      | KwElse \<Rightarrow> Some ''else''
      | KwWhile \<Rightarrow> Some ''while''
      | KwReturn \<Rightarrow> Some ''return''
      | KwMatch \<Rightarrow> Some ''match''
      | KwModule \<Rightarrow> Some ''module''
      | KwImport \<Rightarrow> Some ''import''
      | KwPub \<Rightarrow> Some ''pub''
      | KwType \<Rightarrow> Some ''type''
      | KwEffect \<Rightarrow> Some ''effect''
      | KwTrue \<Rightarrow> Some ''true''
      | KwFalse \<Rightarrow> Some ''false''
      | KwActor \<Rightarrow> Some ''actor''
      | KwSpawn \<Rightarrow> Some ''spawn''
      | KwConsume \<Rightarrow> Some ''consume''
      | KwRecover \<Rightarrow> Some ''recover''
      | KwFor \<Rightarrow> Some ''for''
      | KwIn \<Rightarrow> Some ''in''
      | KwBreak \<Rightarrow> Some ''break''
      | KwContinue \<Rightarrow> Some ''continue''
      | _ \<Rightarrow> None)"

definition backticked :: "string \<Rightarrow> string" where
  "backticked s = ''`'' @ s @ ''`''"

text \<open>\<open>describe\<close>; how a float is displayed is the library's.\<close>

fun display_f64 :: "libs \<Rightarrow> f64 \<Rightarrow> string" where
  "display_f64 lb (Finite r) = show_f64 lb r"
| "display_f64 lb (Infinite neg) = (if neg then ''-inf'' else ''inf'')"
| "display_f64 lb NaN = ''NaN''"

definition describe :: "libs \<Rightarrow> token_kind \<Rightarrow> string" where
  "describe lb k =
     (case k of
        TkIdent name \<Rightarrow> ''identifier '' @ backticked name
      | TkInt v \<Rightarrow> ''integer '' @ backticked (show_int v)
      | TkFloat v \<Rightarrow> ''float '' @ backticked (display_f64 lb v)
      | TkStr _ \<Rightarrow> ''string literal''
      | KwFn \<Rightarrow> backticked ''fn''
      | KwLet \<Rightarrow> backticked ''let''
      | KwVar \<Rightarrow> backticked ''var''
      | KwIf \<Rightarrow> backticked ''if''
      | KwElse \<Rightarrow> backticked ''else''
      | KwWhile \<Rightarrow> backticked ''while''
      | KwReturn \<Rightarrow> backticked ''return''
      | KwMatch \<Rightarrow> backticked ''match''
      | KwModule \<Rightarrow> backticked ''module''
      | KwImport \<Rightarrow> backticked ''import''
      | KwPub \<Rightarrow> backticked ''pub''
      | KwType \<Rightarrow> backticked ''type''
      | KwEffect \<Rightarrow> backticked ''effect''
      | KwTrue \<Rightarrow> backticked ''true''
      | KwFalse \<Rightarrow> backticked ''false''
      | KwActor \<Rightarrow> backticked ''actor''
      | KwSpawn \<Rightarrow> backticked ''spawn''
      | KwConsume \<Rightarrow> backticked ''consume''
      | KwRecover \<Rightarrow> backticked ''recover''
      | KwFor \<Rightarrow> backticked ''for''
      | KwIn \<Rightarrow> backticked ''in''
      | KwBreak \<Rightarrow> backticked ''break''
      | KwContinue \<Rightarrow> backticked ''continue''
      | TkLParen \<Rightarrow> backticked ''(''
      | TkRParen \<Rightarrow> backticked '')''
      | TkLBrace \<Rightarrow> backticked ''{''
      | TkRBrace \<Rightarrow> backticked ''}''
      | TkLBracket \<Rightarrow> backticked ''[''
      | TkRBracket \<Rightarrow> backticked '']''
      | TkComma \<Rightarrow> backticked '',''
      | TkDot \<Rightarrow> backticked ''.''
      | TkColon \<Rightarrow> backticked '':''
      | TkArrow \<Rightarrow> backticked ''->''
      | TkFatArrow \<Rightarrow> backticked ''=>''
      | TkBang \<Rightarrow> backticked ''!''
      | TkQuestion \<Rightarrow> backticked ''?''
      | TkPipe \<Rightarrow> backticked ''|''
      | TkUnderscore \<Rightarrow> backticked ''_''
      | TkAt \<Rightarrow> backticked ''@''
      | TkEq \<Rightarrow> backticked ''=''
      | TkEqEq \<Rightarrow> backticked ''==''
      | TkNotEq \<Rightarrow> backticked ''!=''
      | TkLt \<Rightarrow> backticked ''<''
      | TkLe \<Rightarrow> backticked ''<=''
      | TkGt \<Rightarrow> backticked ''>''
      | TkGe \<Rightarrow> backticked ''>=''
      | TkPlus \<Rightarrow> backticked ''+''
      | TkMinus \<Rightarrow> backticked ''-''
      | TkStar \<Rightarrow> backticked ''*''
      | TkSlash \<Rightarrow> backticked ''/''
      | TkPercent \<Rightarrow> backticked ''%''
      | TkAndAnd \<Rightarrow> backticked ''&&''
      | TkOrOr \<Rightarrow> backticked ''||''
      | TkTerm \<Rightarrow> ''end of statement''
      | TkEof \<Rightarrow> ''end of file'')"

text \<open>The active keywords: the arms of the match on the word, in order.\<close>

definition keyword_table :: "(string \<times> token_kind) list" where
  "keyword_table =
     [(''fn'', KwFn), (''let'', KwLet), (''var'', KwVar), (''if'', KwIf), (''else'', KwElse),
      (''while'', KwWhile), (''return'', KwReturn), (''match'', KwMatch), (''module'', KwModule), (''import'', KwImport),
      (''pub'', KwPub), (''type'', KwType), (''effect'', KwEffect), (''true'', KwTrue), (''false'', KwFalse),
      (''actor'', KwActor), (''spawn'', KwSpawn), (''consume'', KwConsume), (''recover'', KwRecover), (''for'', KwFor),
      (''in'', KwIn), (''break'', KwBreak), (''continue'', KwContinue)]"

definition keyword :: "string \<Rightarrow> token_kind option" where
  "keyword word = map_of keyword_table word"

definition reserved_words :: "string list" where
  "reserved_words =
     [''async'', ''await'', ''iso'', ''val'', ''ref'', ''box'', ''tag'', ''trn'', ''plugin'', ''secret'', ''cap'', ''trait'',
      ''impl'', ''where'', ''pure'']"

definition is_reserved :: "string \<Rightarrow> bool" where
  "is_reserved word \<longleftrightarrow> word \<in> set reserved_words"

definition punctuation_lexeme :: "token_kind \<Rightarrow> string option" where
  "punctuation_lexeme k =
     (case k of
        TkLParen \<Rightarrow> Some ''(''
      | TkRParen \<Rightarrow> Some '')''
      | TkLBrace \<Rightarrow> Some ''{''
      | TkRBrace \<Rightarrow> Some ''}''
      | TkLBracket \<Rightarrow> Some ''[''
      | TkRBracket \<Rightarrow> Some '']''
      | TkComma \<Rightarrow> Some '',''
      | TkDot \<Rightarrow> Some ''.''
      | TkColon \<Rightarrow> Some '':''
      | TkArrow \<Rightarrow> Some ''->''
      | TkFatArrow \<Rightarrow> Some ''=>''
      | TkBang \<Rightarrow> Some ''!''
      | TkQuestion \<Rightarrow> Some ''?''
      | TkPipe \<Rightarrow> Some ''|''
      | TkUnderscore \<Rightarrow> Some ''_''
      | TkAt \<Rightarrow> Some ''@''
      | TkEq \<Rightarrow> Some ''=''
      | TkEqEq \<Rightarrow> Some ''==''
      | TkNotEq \<Rightarrow> Some ''!=''
      | TkLt \<Rightarrow> Some ''<''
      | TkLe \<Rightarrow> Some ''<=''
      | TkGt \<Rightarrow> Some ''>''
      | TkGe \<Rightarrow> Some ''>=''
      | TkPlus \<Rightarrow> Some ''+''
      | TkMinus \<Rightarrow> Some ''-''
      | TkStar \<Rightarrow> Some ''*''
      | TkSlash \<Rightarrow> Some ''/''
      | TkPercent \<Rightarrow> Some ''%''
      | TkAndAnd \<Rightarrow> Some ''&&''
      | TkOrOr \<Rightarrow> Some ''||''
      | _ \<Rightarrow> None)"

record token_info =
  ti_variant :: string
  ti_lexeme :: "string option"
  ti_describe :: string

definition token_rows :: "(string \<times> token_kind) list" where
  "token_rows =
     [(''Ident'', TkIdent ''name''), (''Int'', TkInt 0), (''Float'', TkFloat (Finite 0)), (''Str'', TkStr []),
      (''KwFn'', KwFn), (''KwLet'', KwLet), (''KwVar'', KwVar), (''KwIf'', KwIf),
      (''KwElse'', KwElse), (''KwWhile'', KwWhile), (''KwReturn'', KwReturn), (''KwMatch'', KwMatch),
      (''KwModule'', KwModule), (''KwImport'', KwImport), (''KwPub'', KwPub), (''KwType'', KwType),
      (''KwEffect'', KwEffect), (''KwTrue'', KwTrue), (''KwFalse'', KwFalse), (''KwActor'', KwActor),
      (''KwSpawn'', KwSpawn), (''KwConsume'', KwConsume), (''KwRecover'', KwRecover), (''KwFor'', KwFor),
      (''KwIn'', KwIn), (''KwBreak'', KwBreak), (''KwContinue'', KwContinue), (''LParen'', TkLParen),
      (''RParen'', TkRParen), (''LBrace'', TkLBrace), (''RBrace'', TkRBrace), (''LBracket'', TkLBracket),
      (''RBracket'', TkRBracket), (''Comma'', TkComma), (''Dot'', TkDot), (''Colon'', TkColon),
      (''Arrow'', TkArrow), (''FatArrow'', TkFatArrow), (''Bang'', TkBang), (''Question'', TkQuestion),
      (''Pipe'', TkPipe), (''Underscore'', TkUnderscore), (''At'', TkAt), (''Eq'', TkEq),
      (''EqEq'', TkEqEq), (''NotEq'', TkNotEq), (''Lt'', TkLt), (''Le'', TkLe),
      (''Gt'', TkGt), (''Ge'', TkGe), (''Plus'', TkPlus), (''Minus'', TkMinus),
      (''Star'', TkStar), (''Slash'', TkSlash), (''Percent'', TkPercent), (''AndAnd'', TkAndAnd),
      (''OrOr'', TkOrOr), (''Term'', TkTerm), (''Eof'', TkEof)]"

definition token_lexeme :: "token_kind \<Rightarrow> string option" where
  "token_lexeme k = (case keyword_lexeme k of Some s \<Rightarrow> Some s | None \<Rightarrow> punctuation_lexeme k)"

definition token_index :: "libs \<Rightarrow> token_info list" where
  "token_index lb = map (\<lambda>(variant, k). \<lparr>ti_variant = variant, ti_lexeme = token_lexeme k, ti_describe = describe lb k\<rparr>) token_rows"

section \<open>The keyword table and its inverse\<close>

lemma keyword_words_distinct: "distinct (map fst keyword_table)"
  by code_simp

lemma keyword_table_lexeme: "list_all (\<lambda>(w, k). keyword_lexeme k = Some w) keyword_table"
  by code_simp

lemma lexeme_of_keyword: "keyword w = Some k \<Longrightarrow> keyword_lexeme k = Some w"
  using keyword_table_lexeme by (auto simp: keyword_def list_all_iff dest: map_of_SomeD)

lemma keyword_of_lexeme: "keyword_lexeme k = Some w \<Longrightarrow> keyword w = Some k"
  by (cases k) (simp_all only: keyword_lexeme_def token_kind.case option.inject option.simps(2,3), (drule sym, simp only:, code_simp)+)

lemma keyword_iff: "keyword w = Some k \<longleftrightarrow> keyword_lexeme k = Some w"
  using keyword_of_lexeme lexeme_of_keyword by blast

lemma keyword_lexeme_inj: "keyword_lexeme j = Some w \<Longrightarrow> keyword_lexeme k = Some w \<Longrightarrow> j = k"
  by (metis keyword_of_lexeme option.inject)

text \<open>A reserved word is not a keyword: it is lexed as a name.\<close>

lemma reserved_not_keyword: "is_reserved w \<Longrightarrow> keyword w = None"
proof -
  have "list_all (\<lambda>w. keyword w = None) reserved_words" by code_simp
  then show "is_reserved w \<Longrightarrow> keyword w = None" by (simp add: is_reserved_def list_all_iff)
qed

lemma token_lexeme_keyword [simp]: "keyword_lexeme k = Some w \<Longrightarrow> token_lexeme k = Some w"
  by (simp add: token_lexeme_def)

end
