(* ===== verification/Morph_Table.thy ===== *)
theory Morph_Table imports Tokens begin

text \<open>
  A surface morph as it is built and validated, \<open>crates/delulu-syntax/src/morph.rs\<close> (\<open>Morph::new\<close>,
  \<open>alias_defect\<close>). A \<open>BTreeMap\<close> is an association list in the order of its keys. A refusal is its cause;
  \<open>morph_code\<close> is its code.
\<close>

datatype morph_kind = Human | Compact | Custom

definition morph_kind_parse :: "string \<Rightarrow> morph_kind option" where
  "morph_kind_parse s =
     (if s = ''human'' then Some Human
      else if s = ''compact'' then Some Compact
      else if s = ''custom'' then Some Custom
      else None)"

fun morph_kind_name :: "morph_kind \<Rightarrow> string" where
  "morph_kind_name Human = ''human''"
| "morph_kind_name Compact = ''compact''"
| "morph_kind_name Custom = ''custom''"

record morph =
  mo_id :: string
  mo_name :: string
  mo_version :: string
  mo_kind :: morph_kind
  mo_canon_to_alias :: "(string \<times> string) list"
  mo_alias_to_kind :: "(string \<times> token_kind) list"

definition morphable_keywords :: "string list" where
  "morphable_keywords =
     [''fn'', ''let'', ''var'', ''if'', ''else'', ''while'', ''return'', ''match'', ''module'', ''import'', ''pub'', ''type'',
      ''effect'', ''true'', ''false'', ''actor'', ''spawn'', ''consume'', ''recover'', ''for'', ''in'', ''break'', ''continue'']"

datatype morph_error =
    NotRenameable string
  | RenamedTwice string string string
  | BadAlias string string string
  | TakesKeyword string string
  | SharedAlias string string string

fun morph_code :: "morph_error \<Rightarrow> string" where
  "morph_code (NotRenameable _) = ''DL1713''"
| "morph_code (RenamedTwice _ _ _) = ''DL1710''"
| "morph_code (BadAlias _ _ _) = ''DL1712''"
| "morph_code (TakesKeyword _ _) = ''DL1711''"
| "morph_code (SharedAlias _ _ _) = ''DL1710''"

section \<open>What an alias must not be\<close>

definition is_bidi_control :: "string \<Rightarrow> bool" where
  "is_bidi_control c \<longleftrightarrow>
     (let n = code_point c in n = 8206 \<or> n = 8207 \<or> 8234 \<le> n \<and> n \<le> 8238 \<or> 8294 \<le> n \<and> n \<le> 8297)"

definition str_contains :: "string \<Rightarrow> string \<Rightarrow> bool" where
  "str_contains s p \<longleftrightarrow> sublist p s"

definition alias_defect :: "string \<Rightarrow> string option" where
  "alias_defect alias =
     (if alias = [] then Some ''it is empty''
      else if list_ex char_whitespace (str_chars alias) then Some ''it contains whitespace, so it would lex as more than one token''
      else if list_ex is_bidi_control (str_chars alias) then Some ''it contains a bidirectional control character (see DL0107)''
      else if list_ex char_control (str_chars alias) then Some ''it contains a control character''
      else if list_ex (str_contains alias) [''//'', ''/*'', ''*/''] then Some ''it contains a comment delimiter''
      else if CHR 0x22 \<in> set alias \<or> CHR 0x27 \<in> set alias then Some ''it contains a quote character''
      else if CHR '';'' \<in> set alias \<or> CHR 0x5C \<in> set alias
        then Some ''it contains a statement separator or an escape character''
      else if is_ascii_digit (hd alias) then Some ''it starts with a digit, which lexes as a number''
      else None)"

section \<open>Building a morph\<close>

fun bt_insert :: "string \<Rightarrow> string \<Rightarrow> (string \<times> string) list \<Rightarrow> (string \<times> string) list" where
  "bt_insert k v [] = [(k, v)]"
| "bt_insert k v ((k', v') # m) =
     (if k = k' then (k, v) # m
      else if k < k' then (k, v) # (k', v') # m
      else (k', v') # bt_insert k v m)"

text \<open>One entry of the table: the errors so far, the renamings and who claimed which alias.\<close>

type_synonym morph_build = "morph_error list \<times> (string \<times> string) list \<times> (string \<times> string) list"

definition add_entry :: "morph_build \<Rightarrow> string \<times> string \<Rightarrow> morph_build" where
  "add_entry b e =
     (case (b, e) of ((errors, renamed, claimed), (canon, alias)) \<Rightarrow>
        if canon \<notin> set morphable_keywords then (errors @ [NotRenameable canon], renamed, claimed)
        else (case map_of renamed canon of
            Some prev \<Rightarrow> (errors @ [RenamedTwice canon prev alias], renamed, claimed)
          | None \<Rightarrow>
        (case alias_defect alias of
            Some why \<Rightarrow> (errors @ [BadAlias canon alias why], renamed, claimed)
          | None \<Rightarrow>
        if alias \<noteq> canon \<and> alias \<in> set morphable_keywords then (errors @ [TakesKeyword canon alias], renamed, claimed)
        else (case map_of claimed alias of
            Some other \<Rightarrow> (errors @ [SharedAlias other canon alias], renamed, claimed)
          | None \<Rightarrow> (errors, bt_insert canon alias renamed, bt_insert alias canon claimed)))))"

text \<open>
  The scan order, longest alias first and equal lengths by the alias: a stable sort by the one key after
  a stable sort by the other.
\<close>

definition scan_order :: "(string \<times> token_kind) list \<Rightarrow> (string \<times> token_kind) list" where
  "scan_order xs = sort_key (\<lambda>(a, _). - int (length a)) (sort_key fst xs)"

definition morph_new ::
    "string \<Rightarrow> string \<Rightarrow> string \<Rightarrow> morph_kind \<Rightarrow> (string \<times> string) list \<Rightarrow> morph_error list + morph" where
  "morph_new ident name version kind entries =
     (let (errors, renamed, claimed) = foldl add_entry ([], [], []) entries
      in if errors \<noteq> [] then Inl errors
         else let table = filter (\<lambda>(canon, alias). canon \<noteq> alias) renamed;
                  kinds = List.map_filter (\<lambda>(canon, alias). map_option (\<lambda>k. (alias, k)) (keyword canon)) table
              in Inr \<lparr>mo_id = ident, mo_name = name, mo_version = version, mo_kind = kind,
                      mo_canon_to_alias = table, mo_alias_to_kind = scan_order kinds\<rparr>)"

definition morph_alias_of :: "morph \<Rightarrow> string \<Rightarrow> string option" where
  "morph_alias_of m canonical = map_of (mo_canon_to_alias m) canonical"

end
