(* ===== verification/Lexer.thy ===== *)
theory Lexer imports Morph_Table begin

text \<open>
  The lexer, \<open>crates/delulu-syntax/src/lexer.rs\<close>, with the reading of a float of \<open>num.rs\<close>. The state is the
  source's record: the text, the byte position, the tokens, diagnostics and comments so far and the active
  morph. An offset of a span is the byte position cut to 32 bits, as the cast of the source cuts it. A
  diagnostic is what it is about and its span; \<open>problem_code\<close> is its code, and every one is an error.
  A loop over the text is a recursion on what is left of it; the main loop is a partial function, since
  nothing in it bounds what an alias consumes.
\<close>

section \<open>State\<close>

record src_span =
  ss_file :: nat
  ss_start :: nat
  ss_end :: nat

definition u32_of :: "nat \<Rightarrow> nat" where
  "u32_of n = n mod 2 ^ 32"

definition src_span :: "nat \<Rightarrow> nat \<Rightarrow> nat \<Rightarrow> src_span" where
  "src_span file a b = \<lparr>ss_file = file, ss_start = u32_of a, ss_end = u32_of b\<rparr>"

record token =
  tk_kind :: token_kind
  tk_span :: src_span

datatype lex_problem =
    BidiInSource nat string
  | LoneCr
  | LineBreakLike nat string
  | UnterminatedComment
  | LoneAmpersand
  | UnexpectedChar string
  | NotAName string
  | HexWithoutDigit
  | IntOverflow
  | ExponentWithoutDigit
  | FloatOverflow
  | FloatUnderflow
  | FloatMalformed
  | UnterminatedString
  | BadUnicodeEscape
  | BracelessEscape
  | BadEscape string

fun problem_code :: "lex_problem \<Rightarrow> string" where
  "problem_code (BidiInSource _ _) = ''DL0107''"
| "problem_code LoneCr = ''DL0108''"
| "problem_code (LineBreakLike _ _) = ''DL0108''"
| "problem_code UnterminatedComment = ''DL0105''"
| "problem_code LoneAmpersand = ''DL0101''"
| "problem_code (UnexpectedChar _) = ''DL0101''"
| "problem_code (NotAName _) = ''DL0101''"
| "problem_code HexWithoutDigit = ''DL0104''"
| "problem_code IntOverflow = ''DL0104''"
| "problem_code ExponentWithoutDigit = ''DL0104''"
| "problem_code FloatOverflow = ''DL0104''"
| "problem_code FloatUnderflow = ''DL0104''"
| "problem_code FloatMalformed = ''DL0104''"
| "problem_code UnterminatedString = ''DL0102''"
| "problem_code BadUnicodeEscape = ''DL0103''"
| "problem_code BracelessEscape = ''DL0103''"
| "problem_code (BadEscape _) = ''DL0103''"

record lex_diag =
  ld_problem :: lex_problem
  ld_span :: src_span

record src_comment =
  sc_text :: string
  sc_start :: nat
  sc_own_line :: bool

record lexer =
  lx_file :: nat
  lx_src :: string
  lx_pos :: nat
  lx_tokens :: "token list"
  lx_diags :: "lex_diag list"
  lx_comments :: "src_comment list"
  lx_morph :: "morph option"

definition byte_order_mark :: string where
  "byte_order_mark = [CHR 0xEF, CHR 0xBB, CHR 0xBF]"

definition lexer_new :: "nat \<Rightarrow> string \<Rightarrow> lexer" where
  "lexer_new file src =
     \<lparr>lx_file = file, lx_src = src, lx_pos = (if starts_with byte_order_mark src then length byte_order_mark else 0),
      lx_tokens = [], lx_diags = [], lx_comments = [], lx_morph = None\<rparr>"

section \<open>The two scans of the raw text\<close>

definition bidi_controls :: "(nat \<times> string) list" where
  "bidi_controls =
     [(0x200E, ''LEFT-TO-RIGHT MARK''), (0x200F, ''RIGHT-TO-LEFT MARK''), (0x202A, ''LEFT-TO-RIGHT EMBEDDING''),
      (0x202B, ''RIGHT-TO-LEFT EMBEDDING''), (0x202C, ''POP DIRECTIONAL FORMATTING''), (0x202D, ''LEFT-TO-RIGHT OVERRIDE''),
      (0x202E, ''RIGHT-TO-LEFT OVERRIDE''), (0x2066, ''LEFT-TO-RIGHT ISOLATE''), (0x2067, ''RIGHT-TO-LEFT ISOLATE''),
      (0x2068, ''FIRST STRONG ISOLATE''), (0x2069, ''POP DIRECTIONAL ISOLATE'')]"

definition line_break_lookalikes :: "(nat \<times> string) list" where
  "line_break_lookalikes =
     [(0x0B, ''LINE TABULATION (vertical tab)''), (0x0C, ''FORM FEED''), (0x85, ''NEXT LINE''),
      (0x2028, ''LINE SEPARATOR''), (0x2029, ''PARAGRAPH SEPARATOR'')]"

definition check_bidi_controls :: "lexer \<Rightarrow> lexer" where
  "check_bidi_controls lx = lx\<lparr>lx_diags := lx_diags lx @
     List.map_filter (\<lambda>(off, ch). map_option (\<lambda>name.
         \<lparr>ld_problem = BidiInSource (code_point ch) name, ld_span = src_span (lx_file lx) off (off + length ch)\<rparr>)
       (map_of bidi_controls (code_point ch))) (char_indices (lx_src lx))\<rparr>"

definition line_break_problem :: "lexer \<Rightarrow> nat \<times> string \<Rightarrow> lex_diag option" where
  "line_break_problem lx p =
     (let off = fst p; ch = snd p; src = lx_src lx
      in if ch = [CHR 0x0D] \<and> \<not> (off + 1 < length src \<and> src ! (off + 1) = CHR 0x0A)
         then Some \<lparr>ld_problem = LoneCr, ld_span = src_span (lx_file lx) off (off + 1)\<rparr>
         else map_option (\<lambda>name. \<lparr>ld_problem = LineBreakLike (code_point ch) name,
                                  ld_span = src_span (lx_file lx) off (off + length ch)\<rparr>)
                (map_of line_break_lookalikes (code_point ch)))"

definition check_line_break_lookalikes :: "lexer \<Rightarrow> lexer" where
  "check_line_break_lookalikes lx =
     lx\<lparr>lx_diags := lx_diags lx @ List.map_filter (line_break_problem lx) (char_indices (lx_src lx))\<rparr>"

section \<open>The cursor\<close>

definition char_opt :: "string \<Rightarrow> nat \<Rightarrow> string option" where
  "char_opt s n = (if n < length s then Some (char_at s n) else None)"

definition char_opt2 :: "string \<Rightarrow> nat \<Rightarrow> string option" where
  "char_opt2 s n = (if n < length s then char_opt s (n + length (char_at s n)) else None)"

definition peek :: "lexer \<Rightarrow> string option" where
  "peek lx = char_opt (lx_src lx) (lx_pos lx)"

definition peek2 :: "lexer \<Rightarrow> string option" where
  "peek2 lx = char_opt2 (lx_src lx) (lx_pos lx)"

definition bump :: "lexer \<Rightarrow> lexer" where
  "bump lx = (case peek lx of None \<Rightarrow> lx | Some c \<Rightarrow> lx\<lparr>lx_pos := lx_pos lx + length c\<rparr>)"

definition text_between :: "string \<Rightarrow> nat \<Rightarrow> nat \<Rightarrow> string" where
  "text_between s a b = take (b - a) (drop a s)"

definition text_from :: "lexer \<Rightarrow> nat \<Rightarrow> string" where
  "text_from lx start = text_between (lx_src lx) start (lx_pos lx)"

definition span_from :: "lexer \<Rightarrow> nat \<Rightarrow> src_span" where
  "span_from lx start = src_span (lx_file lx) start (lx_pos lx)"

definition push_token :: "token_kind \<Rightarrow> nat \<Rightarrow> lexer \<Rightarrow> lexer" where
  "push_token kind start lx = lx\<lparr>lx_tokens := lx_tokens lx @ [\<lparr>tk_kind = kind, tk_span = span_from lx start\<rparr>]\<rparr>"

definition report :: "lex_problem \<Rightarrow> nat \<Rightarrow> lexer \<Rightarrow> lexer" where
  "report p start lx = lx\<lparr>lx_diags := lx_diags lx @ [\<lparr>ld_problem = p, ld_span = span_from lx start\<rparr>]\<rparr>"

definition last_kind :: "lexer \<Rightarrow> token_kind option" where
  "last_kind lx = (if lx_tokens lx = [] then None else Some (tk_kind (last (lx_tokens lx))))"

definition maybe_insert_term :: "nat \<Rightarrow> lexer \<Rightarrow> lexer" where
  "maybe_insert_term pos lx =
     (case last_kind lx of
        None \<Rightarrow> lx
      | Some k \<Rightarrow>
          if can_end_statement k
          then lx\<lparr>lx_tokens := lx_tokens lx @ [\<lparr>tk_kind = TkTerm, tk_span = src_span (lx_file lx) pos pos\<rparr>]\<rparr>
          else lx)"

text \<open>\<open>while let Some(c) = self.peek() { if p(c) { self.bump(); } else { break; } }\<close>\<close>

function scan_while :: "(string \<Rightarrow> bool) \<Rightarrow> string \<Rightarrow> nat \<Rightarrow> nat" where
  "scan_while p s n = (if n < length s \<and> p (char_at s n) then scan_while p s (n + length (char_at s n)) else n)"
  by pat_completeness auto

termination scan_while
  by (relation "measure (\<lambda>(p, s, n). length s - n)") (auto simp: char_at_pos diff_less_mono2)

declare scan_while.simps [simp del]

definition eat_while :: "(string \<Rightarrow> bool) \<Rightarrow> lexer \<Rightarrow> lexer" where
  "eat_while p lx = lx\<lparr>lx_pos := scan_while p (lx_src lx) (lx_pos lx)\<rparr>"

definition line_feed :: string where "line_feed = [CHR 0x0A]"

definition record_comment :: "nat \<Rightarrow> lexer \<Rightarrow> lexer" where
  "record_comment start lx =
     lx\<lparr>lx_comments := lx_comments lx @
       [\<lparr>sc_text = text_from lx start, sc_start = u32_of start,
         sc_own_line = list_all char_whitespace (takeWhile (\<lambda>c. c \<noteq> line_feed) (rev (str_chars (take start (lx_src lx)))))\<rparr>]\<rparr>"

section \<open>Trivia\<close>

definition line_comment :: "lexer \<Rightarrow> lexer" where
  "line_comment lx = record_comment (lx_pos lx) (eat_while (\<lambda>c. c \<noteq> line_feed) lx)"

text \<open>The body of a block comment from \<open>n\<close>: where it ends, whether it was closed, whether it holds a newline.\<close>

function block_loop :: "string \<Rightarrow> nat \<Rightarrow> nat \<Rightarrow> bool \<Rightarrow> nat \<times> bool \<times> bool" where
  "block_loop s n depth saw =
     (if depth = 0 then (n, True, saw)
      else if \<not> n < length s then (n, False, saw)
      else let c = char_at s n
           in if c = line_feed then block_loop s (n + length c) depth True
              else if c = ''/'' \<and> char_opt2 s n = Some ''*'' then block_loop s (n + 2) (depth + 1) saw
              else if c = ''*'' \<and> char_opt2 s n = Some ''/'' then block_loop s (n + 2) (depth - 1) saw
              else block_loop s (n + length c) depth saw)"
  by pat_completeness auto

termination block_loop
  by (relation "measure (\<lambda>(s, n, depth, saw). length s - n)") (auto simp: char_at_pos diff_less_mono2 line_feed_def)

declare block_loop.simps [simp del]

definition block_comment :: "lexer \<Rightarrow> lexer" where
  "block_comment lx =
     (let start = lx_pos lx;
          lx1 = bump (bump lx);
          (stop, closed, saw_newline) = block_loop (lx_src lx1) (lx_pos lx1) 1 False;
          lx2 = lx1\<lparr>lx_pos := stop\<rparr>
      in if \<not> closed then report UnterminatedComment start lx2
         else let lx3 = record_comment start lx2
              in if saw_newline then maybe_insert_term start lx3 else lx3)"

text \<open>
  The rest of the lexer: trivia, numbers, strings, names, the token at the cursor
  and the main loop.
\<close>

section \<open>What moves the cursor\<close>

lemma lx_src_simps [simp]:
  "lx_src (bump lx) = lx_src lx" "lx_src (push_token k a lx) = lx_src lx" "lx_src (report p a lx) = lx_src lx"
  "lx_src (maybe_insert_term a lx) = lx_src lx" "lx_src (eat_while q lx) = lx_src lx" "lx_src (record_comment a lx) = lx_src lx"
  by (auto simp: bump_def push_token_def report_def maybe_insert_term_def eat_while_def record_comment_def split: option.splits)

lemma lx_pos_simps [simp]:
  "lx_pos (push_token k a lx) = lx_pos lx" "lx_pos (report p a lx) = lx_pos lx"
  "lx_pos (maybe_insert_term a lx) = lx_pos lx" "lx_pos (record_comment a lx) = lx_pos lx"
  by (auto simp: push_token_def report_def maybe_insert_term_def record_comment_def split: option.splits)

lemma lx_pos_bump: "lx_pos (bump lx) = lx_pos lx + length (char_at (lx_src lx) (lx_pos lx))"
  by (auto simp: bump_def peek_def char_opt_def)

lemma lx_pos_bump_ge [simp]: "lx_pos lx \<le> lx_pos (bump lx)" by (simp add: lx_pos_bump)

lemma lx_pos_bump_gt: "lx_pos lx < length (lx_src lx) \<Longrightarrow> lx_pos lx < lx_pos (bump lx)" by (simp add: lx_pos_bump char_at_pos)

lemma peek_Some: "peek lx = Some c \<Longrightarrow> lx_pos lx < length (lx_src lx) \<and> char_at (lx_src lx) (lx_pos lx) = c"
  by (auto simp: peek_def char_opt_def split: if_splits)

lemma scan_while_ge: "n \<le> scan_while p s n"
  by (induction p s n rule: scan_while.induct) (subst scan_while.simps, auto)

lemma lx_pos_eat_while_ge [simp]: "lx_pos lx \<le> lx_pos (eat_while p lx)" by (simp add: eat_while_def scan_while_ge)

lemma block_loop_ge: "n \<le> fst (block_loop s n depth saw)"
proof (induction s n depth saw rule: block_loop.induct)
  case (1 s n depth saw)
  then show ?case by (subst block_loop.simps) (auto simp: Let_def dest: add_leD1)
qed

lemma lx_src_block_comment [simp]: "lx_src (block_comment lx) = lx_src lx"
  by (simp add: block_comment_def Let_def split: prod.split)

lemma lx_pos_block_comment:
  "lx_pos (block_comment lx) = fst (block_loop (lx_src lx) (lx_pos (bump (bump lx))) 1 False)"
  by (simp add: block_comment_def Let_def split: prod.split)

lemma lx_pos_block_comment_gt: "lx_pos lx < length (lx_src lx) \<Longrightarrow> lx_pos lx < lx_pos (block_comment lx)"
  unfolding lx_pos_block_comment
  by (rule less_le_trans [OF lx_pos_bump_gt], assumption, rule le_trans [OF lx_pos_bump_ge block_loop_ge])

lemma lx_src_line_comment [simp]: "lx_src (line_comment lx) = lx_src lx"
  by (simp add: line_comment_def)

lemma scan_while_step: "n < length s \<Longrightarrow> p (char_at s n) \<Longrightarrow> scan_while p s n = scan_while p s (n + length (char_at s n))"
  by (subst scan_while.simps) simp

lemma scan_while_gt: "n < length s \<Longrightarrow> p (char_at s n) \<Longrightarrow> n < scan_while p s n"
  by (subst scan_while_step) (auto intro: less_le_trans [OF _ scan_while_ge] simp: char_at_pos)

lemma lx_pos_line_comment_gt: "peek lx = Some ''/'' \<Longrightarrow> lx_pos lx < lx_pos (line_comment lx)"
  using peek_Some [of lx "''/''"] scan_while_gt [of "lx_pos lx" "lx_src lx" "\<lambda>c. c \<noteq> line_feed"]
  by (simp add: line_comment_def eat_while_def line_feed_def)

lemma left_decreases:
  "peek lx = Some c \<Longrightarrow> lx_pos lx < n \<Longrightarrow> length (lx_src lx) - n < length (lx_src lx) - lx_pos lx"
  by (auto dest!: peek_Some)

lemma peek_bump_gt: "peek lx = Some c \<Longrightarrow> lx_pos lx < lx_pos (bump lx)"
  by (auto dest!: peek_Some intro: lx_pos_bump_gt)

lemma peek_block_comment_gt: "peek lx = Some c \<Longrightarrow> lx_pos lx < lx_pos (block_comment lx)"
  by (auto dest!: peek_Some intro: lx_pos_block_comment_gt)

lemma peek_cong: "lx_src lx' = lx_src lx \<Longrightarrow> lx_pos lx' = lx_pos lx \<Longrightarrow> peek lx' = peek lx"
  by (simp add: peek_def)

lemma peek_maybe_insert_term [simp]: "peek (maybe_insert_term a lx) = peek lx" by (rule peek_cong) simp_all

section \<open>Trivia\<close>

function skip_trivia :: "lexer \<Rightarrow> lexer" where
  "skip_trivia lx =
     (case peek lx of
        None \<Rightarrow> lx
      | Some c \<Rightarrow>
          if c = line_feed then skip_trivia (bump (maybe_insert_term (lx_pos lx) lx))
          else if char_whitespace c then skip_trivia (bump lx)
          else if c = ''/'' \<and> peek2 lx = Some ''/'' then skip_trivia (line_comment lx)
          else if c = ''/'' \<and> peek2 lx = Some ''*'' then skip_trivia (block_comment lx)
          else lx)"
  by pat_completeness auto

termination skip_trivia
proof (relation "measure (\<lambda>lx. length (lx_src lx) - lx_pos lx)", goal_cases)
  case (2 lx c)
  then show ?case using left_decreases [of lx c] peek_bump_gt [of "maybe_insert_term (lx_pos lx) lx" c] by simp
next
  case (3 lx c)
  then show ?case using left_decreases [of lx c] peek_bump_gt [of lx c] by simp
next
  case (4 lx c)
  then show ?case using left_decreases [of lx c] lx_pos_line_comment_gt [of lx] by simp
next
  case (5 lx c)
  then show ?case using left_decreases [of lx c] peek_block_comment_gt [of lx c] by simp
qed simp

declare skip_trivia.simps [simp del]

section \<open>Numbers\<close>

text \<open>\<open>num.rs\<close>: what a text denotes as a float.\<close>

datatype float_text = FloatValue f64 | FloatTooLarge | FloatTooSmall | FloatNoNumber

definition has_nonzero_digit :: "string \<Rightarrow> bool" where
  "has_nonzero_digit s \<longleftrightarrow>
     list_ex (\<lambda>b. is_ascii_digit b \<and> b \<noteq> CHR ''0'') (takeWhile (\<lambda>b. b \<noteq> CHR ''e'' \<and> b \<noteq> CHR ''E'') s)"

definition float_from_text :: "libs \<Rightarrow> string \<Rightarrow> float_text" where
  "float_from_text lb s =
     (case read_f64 lb s of
        Some v \<Rightarrow>
          if (case v of Finite _ \<Rightarrow> False | _ \<Rightarrow> True)
          then (if has_nonzero_digit s then FloatTooLarge else FloatNoNumber)
          else if v = Finite 0 \<and> has_nonzero_digit s then FloatTooSmall
          else FloatValue v
      | None \<Rightarrow> FloatNoNumber)"

definition hex_value :: "string \<Rightarrow> nat" where
  "hex_value s = read_hex_rev (rev s)"

definition without_underscores :: "string \<Rightarrow> string" where
  "without_underscores s = filter (\<lambda>b. b \<noteq> CHR ''_'') s"

definition digit_or_underscore :: "string \<Rightarrow> bool" where
  "digit_or_underscore c \<longleftrightarrow> char_digit c \<or> c = ''_''"

definition hex_number :: "nat \<Rightarrow> lexer \<Rightarrow> lexer" where
  "hex_number start lx =
     (let lx1 = bump lx;
          digits_start = lx_pos lx1;
          lx2 = eat_while (\<lambda>c. char_hexdigit c \<or> c = ''_'') lx1;
          digits = without_underscores (text_from lx2 digits_start)
      in if digits = [] then push_token (TkInt 0) start (report HexWithoutDigit start lx2)
         else if int (hex_value digits) \<le> i64_max then push_token (TkInt (int (hex_value digits))) start lx2
         else push_token (TkInt 0) start (report IntOverflow start lx2))"

definition exponent :: "lexer \<Rightarrow> lexer" where
  "exponent lx =
     (let exp_mark = lx_pos lx;
          lx1 = bump lx;
          lx2 = (if peek lx1 = Some ''+'' \<or> peek lx1 = Some ''-'' then bump lx1 else lx1)
      in if \<not> (case peek lx2 of Some c \<Rightarrow> char_digit c | None \<Rightarrow> False) then report ExponentWithoutDigit exp_mark lx2
         else eat_while char_digit lx2)"

text \<open>A fraction only when a digit follows the point.\<close>

definition starts_fraction :: "lexer \<Rightarrow> bool" where
  "starts_fraction lx \<longleftrightarrow>
     peek lx = Some ''.'' \<and> (case peek2 lx of Some c \<Rightarrow> char_digit c | None \<Rightarrow> False)"

definition fraction :: "lexer \<Rightarrow> lexer" where
  "fraction lx =
     (let lx1 = eat_while digit_or_underscore (bump lx)
      in if peek lx1 = Some ''e'' \<or> peek lx1 = Some ''E'' then exponent lx1 else lx1)"

definition push_float :: "libs \<Rightarrow> string \<Rightarrow> nat \<Rightarrow> lexer \<Rightarrow> lexer" where
  "push_float lb s start lx =
     (let (v, lx1) = (case float_from_text lb s of
                        FloatValue v \<Rightarrow> (v, lx)
                      | FloatTooLarge \<Rightarrow> (Finite 0, report FloatOverflow start lx)
                      | FloatTooSmall \<Rightarrow> (Finite 0, report FloatUnderflow start lx)
                      | FloatNoNumber \<Rightarrow> (Finite 0, report FloatMalformed start lx))
      in push_token (TkFloat v) start lx1)"

definition push_int :: "string \<Rightarrow> nat \<Rightarrow> lexer \<Rightarrow> lexer" where
  "push_int s start lx =
     (case parse_i64 s of
        Some v \<Rightarrow> push_token (TkInt v) start lx
      | None \<Rightarrow> push_token (TkInt 0) start (report IntOverflow start lx))"

definition scan_number :: "libs \<Rightarrow> nat \<Rightarrow> lexer \<Rightarrow> lexer" where
  "scan_number lb start lx =
     (let rest = drop start (lx_src lx)
      in if starts_with ''0x'' rest \<or> starts_with ''0X'' rest then hex_number start lx
         else let lx1 = eat_while digit_or_underscore lx
              in if starts_fraction lx1
                 then let lx2 = fraction lx1 in push_float lb (without_underscores (text_from lx2 start)) start lx2
                 else push_int (without_underscores (text_from lx1 start)) start lx1)"

section \<open>Strings\<close>

text \<open>An escape, the backslash consumed: the value so far with what it stands for.\<close>

definition unicode_escape :: "string \<Rightarrow> nat \<Rightarrow> lexer \<Rightarrow> string \<times> lexer" where
  "unicode_escape val esc_start lx =
     (if peek lx = Some ''{'' then
        let lx1 = bump lx;
            hex_start = lx_pos lx1;
            lx2 = eat_while char_hexdigit lx1;
            hex = text_from lx2 hex_start;
            closed = (peek lx2 = Some ''}'');
            lx3 = (if closed then bump lx2 else lx2)
        in (case (if closed \<and> hex \<noteq> [] \<and> length hex \<le> 6 then char_from_u32 (hex_value hex) else None) of
              Some c \<Rightarrow> (val @ c, lx3)
            | None \<Rightarrow> (val, report BadUnicodeEscape esc_start lx3))
      else (val, report BracelessEscape esc_start lx))"

definition escape_char :: "string \<Rightarrow> nat \<Rightarrow> lexer \<Rightarrow> string \<times> lexer" where
  "escape_char val esc_start lx =
     (case peek lx of
        None \<Rightarrow> (val, report (BadEscape []) esc_start lx)
      | Some c \<Rightarrow>
          let lx1 = bump lx
          in if c = ''n'' then (val @ [CHR 0x0A], lx1)
             else if c = ''t'' then (val @ [CHR 0x09], lx1)
             else if c = ''r'' then (val @ [CHR 0x0D], lx1)
             else if c = [CHR 0x5C] then (val @ [CHR 0x5C], lx1)
             else if c = [CHR 0x22] then (val @ [CHR 0x22], lx1)
             else if c = ''0'' then (val @ [CHR 0x00], lx1)
             else if c = ''u'' then unicode_escape val esc_start lx1
             else (val, report (BadEscape c) esc_start lx1))"

lemma lx_src_escape [simp]:
  "lx_src (snd (unicode_escape v a lx)) = lx_src lx" "lx_src (snd (escape_char v a lx)) = lx_src lx"
  by (auto simp: unicode_escape_def escape_char_def Let_def split: option.splits)

lemma lx_pos_unicode_escape: "lx_pos lx \<le> lx_pos (snd (unicode_escape v a lx))"
proof -
  have a: "lx_pos lx \<le> lx_pos (eat_while char_hexdigit (bump lx))"
    by (rule le_trans [OF lx_pos_bump_ge lx_pos_eat_while_ge])
  have "lx_pos lx \<le> lx_pos (bump (eat_while char_hexdigit (bump lx)))"
    by (rule le_trans [OF a lx_pos_bump_ge])
  with a show ?thesis by (auto simp: unicode_escape_def Let_def split: option.split)
qed

lemma lx_pos_escape_char: "lx_pos lx \<le> lx_pos (snd (escape_char v a lx))"
  using le_trans [OF lx_pos_bump_ge lx_pos_unicode_escape, of lx v a]
  by (auto simp: escape_char_def Let_def split: option.split)

function string_loop :: "nat \<Rightarrow> string \<Rightarrow> lexer \<Rightarrow> lexer" where
  "string_loop start val lx =
     (case peek lx of
        None \<Rightarrow> push_token (TkStr val) start (report UnterminatedString start lx)
      | Some c \<Rightarrow>
          if c = line_feed then push_token (TkStr val) start (report UnterminatedString start lx)
          else if c = [CHR 0x22] then push_token (TkStr val) start (bump lx)
          else if c = [CHR 0x5C]
            then let p = escape_char val (lx_pos lx) (bump lx) in string_loop start (fst p) (snd p)
          else string_loop start (val @ c) (bump lx))"
  by pat_completeness auto

termination string_loop
proof (relation "measure (\<lambda>(start, val, lx). length (lx_src lx) - lx_pos lx)", goal_cases)
  case (2 start val lx c p)
  have "lx_pos lx < lx_pos (snd p)"
    using peek_bump_gt [OF 2(1)] lx_pos_escape_char [of "bump lx" val "lx_pos lx"] 2(5) by simp
  then show ?case using left_decreases [OF 2(1)] 2(5) by (simp add: case_prod_beta)
next
  case (3 start val lx c)
  then show ?case using left_decreases [of lx c] peek_bump_gt [of lx c] by simp
qed simp

declare string_loop.simps [simp del]

section \<open>Names\<close>

definition is_ascii_text :: "string \<Rightarrow> bool" where
  "is_ascii_text s \<longleftrightarrow> list_all (\<lambda>b. (of_char b :: nat) < 128) s"

definition name_char :: "unicode \<Rightarrow> string \<Rightarrow> bool" where
  "name_char u c \<longleftrightarrow> char_alphanumeric u c \<or> c = ''_''"

definition name_kind :: "string \<Rightarrow> token_kind" where
  "name_kind s =
     (if s = ''_'' then TkUnderscore
      else (case keyword s of Some kw \<Rightarrow> kw | None \<Rightarrow> TkIdent s))"

definition scan_ident :: "unicode \<Rightarrow> nat \<Rightarrow> lexer \<Rightarrow> lexer" where
  "scan_ident u start lx =
     (let lx1 = eat_while (name_char u) lx;
          s = text_from lx1 start;
          lx2 = (if \<not> is_ascii_text s then report (NotAName s) start lx1 else lx1)
      in push_token (name_kind s) start lx2)"

section \<open>The token at the cursor\<close>

definition ascii_word_char :: "char \<Rightarrow> bool" where
  "ascii_word_char b \<longleftrightarrow> is_ascii_alphanumeric b \<or> b = CHR ''_''"

text \<open>The first alias, in scan order, that the text starts with and that no word character continues.\<close>

fun first_alias :: "(string \<times> token_kind) list \<Rightarrow> string \<Rightarrow> (string \<times> token_kind) option" where
  "first_alias [] rest = None"
| "first_alias ((alias, kind) # aliases) rest =
     (case strip_prefix alias rest of
        None \<Rightarrow> first_alias aliases rest
      | Some tail \<Rightarrow>
          if alias \<noteq> [] \<and> ascii_word_char (last alias) \<and> tail \<noteq> [] \<and> ascii_word_char (hd tail)
          then first_alias aliases rest
          else Some (alias, kind))"

definition try_morph_alias :: "nat \<Rightarrow> lexer \<Rightarrow> lexer option" where
  "try_morph_alias start lx =
     (case lx_morph lx of
        None \<Rightarrow> None
      | Some m \<Rightarrow>
          map_option (\<lambda>(alias, kind). push_token kind start (lx\<lparr>lx_pos := start + length alias\<rparr>))
            (first_alias (mo_alias_to_kind m) (drop start (lx_src lx))))"

text \<open>A character that may be doubled into a longer operator, and the one that is an error alone.\<close>

definition either_token :: "nat \<Rightarrow> string \<Rightarrow> token_kind \<Rightarrow> token_kind \<Rightarrow> lexer \<Rightarrow> lexer" where
  "either_token start c2 two one lx =
     (if peek lx = Some c2 then push_token two start (bump lx) else push_token one start lx)"

definition single_tokens :: "(string \<times> token_kind) list" where
  "single_tokens =
     [(''('', TkLParen), ('')'', TkRParen), (''{'', TkLBrace), (''}'', TkRBrace), (''['', TkLBracket), ('']'', TkRBracket),
      ('','', TkComma), ('':'', TkColon), ('';'', TkTerm), (''@'', TkAt), (''?'', TkQuestion), (''.'', TkDot),
      (''+'', TkPlus), (''*'', TkStar), (''%'', TkPercent), (''/'', TkSlash)]"

definition scan_char :: "unicode \<Rightarrow> libs \<Rightarrow> nat \<Rightarrow> string \<Rightarrow> lexer \<Rightarrow> lexer" where
  "scan_char u lb start c lx =
     (case map_of single_tokens c of
        Some kind \<Rightarrow> push_token kind start lx
      | None \<Rightarrow>
          if c = ''-'' then either_token start ''>'' TkArrow TkMinus lx
          else if c = ''='' then
            (if peek lx = Some ''='' then push_token TkEqEq start (bump lx) else either_token start ''>'' TkFatArrow TkEq lx)
          else if c = ''!'' then either_token start ''='' TkNotEq TkBang lx
          else if c = ''<'' then either_token start ''='' TkLe TkLt lx
          else if c = ''>'' then either_token start ''='' TkGe TkGt lx
          else if c = ''&'' then
            (if peek lx = Some ''&'' then push_token TkAndAnd start (bump lx) else report LoneAmpersand start lx)
          else if c = ''|'' then either_token start ''|'' TkOrOr TkPipe lx
          else if c = [CHR 0x22] then string_loop start [] lx
          else if char_digit c then scan_number lb start lx
          else if char_ascii_alphabetic c \<or> c = ''_'' then scan_ident u start lx
          else if char_alphabetic u c then scan_ident u start lx
          else report (UnexpectedChar c) start lx)"

definition scan_token :: "unicode \<Rightarrow> libs \<Rightarrow> lexer \<Rightarrow> lexer" where
  "scan_token u lb lx =
     (let start = lx_pos lx
      in case try_morph_alias start lx of
           Some lx' \<Rightarrow> lx'
         | None \<Rightarrow> (case peek lx of None \<Rightarrow> lx | Some c \<Rightarrow> scan_char u lb start c (bump lx)))"

section \<open>The main loop\<close>

partial_function (option) lex_loop :: "unicode \<Rightarrow> libs \<Rightarrow> lexer \<Rightarrow> lexer option" where
  "lex_loop u lb lx =
     (if lx_pos lx < length (lx_src lx) then
        let lx1 = skip_trivia lx
        in if length (lx_src lx1) \<le> lx_pos lx1 then Some lx1 else lex_loop u lb (scan_token u lb lx1)
      else Some lx)"

declare lex_loop.simps [code]

definition lex_finish :: "lexer \<Rightarrow> token list \<times> lex_diag list \<times> src_comment list" where
  "lex_finish lx =
     (let lx1 = maybe_insert_term (length (lx_src lx)) lx;
          eof = length (lx_src lx1)
      in (lx_tokens lx1 @ [\<lparr>tk_kind = TkEof, tk_span = src_span (lx_file lx1) eof eof\<rparr>], lx_diags lx1, lx_comments lx1))"

definition lexer_run :: "unicode \<Rightarrow> libs \<Rightarrow> lexer \<Rightarrow> (token list \<times> lex_diag list \<times> src_comment list) option" where
  "lexer_run u lb lx =
     map_option lex_finish (lex_loop u lb (check_line_break_lookalikes (check_bidi_controls lx)))"

definition lex_with_comments ::
    "unicode \<Rightarrow> libs \<Rightarrow> nat \<Rightarrow> string \<Rightarrow> (token list \<times> lex_diag list \<times> src_comment list) option" where
  "lex_with_comments u lb file src = lexer_run u lb (lexer_new file src)"

definition lex :: "unicode \<Rightarrow> libs \<Rightarrow> nat \<Rightarrow> string \<Rightarrow> (token list \<times> lex_diag list) option" where
  "lex u lb file src = map_option (\<lambda>(tokens, diags, _). (tokens, diags)) (lexer_run u lb (lexer_new file src))"

definition lex_with_morph ::
    "unicode \<Rightarrow> libs \<Rightarrow> nat \<Rightarrow> string \<Rightarrow> morph option \<Rightarrow> (token list \<times> lex_diag list) option" where
  "lex_with_morph u lb file src m =
     map_option (\<lambda>(tokens, diags, _). (tokens, diags)) (lexer_run u lb ((lexer_new file src)\<lparr>lx_morph := m\<rparr>))"

end
