(* ===== verification/Lexer_Inv.thy ===== *)
theory Lexer_Inv imports Lexer begin

text \<open>
  What every step of the lexer does to its state: the cursor only moves forward and stays within the text,
  a token is pushed with the span of what it was read from, and the spans, the spellings and the inserted
  terminators keep their laws.
\<close>

section \<open>Text between two positions\<close>

lemma text_between_same [simp]: "text_between s a a = []" by (simp add: text_between_def)

lemma text_between_append: "a \<le> b \<Longrightarrow> b \<le> c \<Longrightarrow> text_between s a c = text_between s a b @ text_between s b c"
proof -
  assume a: "a \<le> b" "b \<le> c"
  have "take (c - a) (drop a s) = take ((b - a) + (c - b)) (drop a s)" using a by simp
  also have "\<dots> = take (b - a) (drop a s) @ take (c - b) (drop (b - a) (drop a s))" by (rule take_add)
  finally show ?thesis using a by (simp add: text_between_def)
qed

lemma text_between_char: "text_between s n (n + length (char_at s n)) = char_at s n"
  by (simp add: text_between_def char_at_def first_char_prefix)

lemma set_text_between: "x \<in> set (text_between s a b) \<Longrightarrow> \<exists>i. a \<le> i \<and> i < b \<and> i < length s \<and> x = s ! i"
proof -
  assume "x \<in> set (text_between s a b)"
  then obtain k where "k < length (take (b - a) (drop a s))" "x = take (b - a) (drop a s) ! k"
    by (auto simp: text_between_def in_set_conv_nth)
  then show ?thesis by (intro exI [of _ "a + k"]) auto
qed

text \<open>A character other than the newline holds no newline byte.\<close>

lemma no_newline_in_char: "char_at s n \<noteq> line_feed \<Longrightarrow> CHR 0x0A \<notin> set (char_at s n)"
proof (cases "n < length s")
  case True
  assume "char_at s n \<noteq> line_feed"
  then have "s ! n \<noteq> CHR 0x0A" using char_at_ascii [OF True] by (auto simp: line_feed_def)
  then have "hd (char_at s n) \<noteq> CHR 0x0A" using True by (simp add: hd_char_at)
  moreover have "CHR 0x0A \<notin> set (tl (char_at s n))"
    using tail_char_at [of "CHR 0x0A" s n] by (auto simp: is_continuation_def)
  ultimately show ?thesis by (cases "char_at s n") auto
qed simp

section \<open>Advancing\<close>

definition reads_on :: "lexer \<Rightarrow> lexer \<Rightarrow> bool" where
  "reads_on lx lx' \<longleftrightarrow>
     lx_src lx' = lx_src lx \<and> lx_file lx' = lx_file lx \<and> lx_morph lx' = lx_morph lx \<and> lx_tokens lx' = lx_tokens lx \<and>
     set (lx_diags lx) \<subseteq> set (lx_diags lx') \<and> lx_pos lx \<le> lx_pos lx' \<and> (lx_pos lx \<le> length (lx_src lx) \<longrightarrow> lx_pos lx' \<le> length (lx_src lx))"

lemma reads_on_refl [simp]: "reads_on lx lx" by (simp add: reads_on_def)

lemma reads_on_trans: "reads_on a b \<Longrightarrow> reads_on b c \<Longrightarrow> reads_on a c" by (auto simp: reads_on_def)

lemma reads_on_bump [simp]: "reads_on lx (bump lx)"
  using char_at_bound [of "lx_pos lx" "lx_src lx"] by (auto simp: reads_on_def bump_def peek_def char_opt_def)

lemma reads_on_report [simp]: "reads_on lx (report p a lx)" by (auto simp: reads_on_def report_def)

lemma reads_on_record_comment [simp]: "reads_on lx (record_comment a lx)" by (simp add: reads_on_def record_comment_def)

lemma scan_while_le: "n \<le> length s \<Longrightarrow> scan_while p s n \<le> length s"
proof (induction p s n rule: scan_while.induct)
  case (1 p s n)
  then show ?case using char_at_bound [of n s] by (subst scan_while.simps) auto
qed

lemma reads_on_eat_while [simp]: "reads_on lx (eat_while p lx)"
  by (simp add: reads_on_def eat_while_def scan_while_ge scan_while_le)

lemma reads_on_to: "reads_on lx lx' \<Longrightarrow> reads_on lx (bump lx')" "reads_on lx lx' \<Longrightarrow> reads_on lx (report p a lx')"
  "reads_on lx lx' \<Longrightarrow> reads_on lx (eat_while q lx')" "reads_on lx lx' \<Longrightarrow> reads_on lx (record_comment a lx')"
  by (meson reads_on_trans reads_on_bump reads_on_report reads_on_eat_while reads_on_record_comment)+

lemma char_opt2_next: "char_opt2 s n = Some c \<Longrightarrow> char_at s n = [b] \<Longrightarrow> c \<noteq> line_feed \<Longrightarrow>
     n + 1 < length s \<and> char_at s (n + 1) = c"
  by (auto simp: char_opt2_def char_opt_def split: if_splits)

lemma text_between_two:
  "char_at s n = [a] \<Longrightarrow> char_at s (n + 1) = [b] \<Longrightarrow> text_between s n (n + 2) = [a, b]"
  using text_between_char [of s n] text_between_char [of s "n + 1"] text_between_append [of n "n + 1" "n + 2" s] by simp

text \<open>One turn of the loop in a block comment.\<close>

lemma block_loop_turn:
  assumes "0 < depth" "n < length s"
  obtains m d w where "n < m" "m \<le> length s" "block_loop s n depth saw = block_loop s m d w"
    "w \<longleftrightarrow> saw \<or> CHR 0x0A \<in> set (text_between s n m)"
proof -
  let ?c = "char_at s n"
  have len: "n < n + length ?c" "n + length ?c \<le> length s" using assms(2) char_at_bound [of n s] by simp_all
  have tb: "text_between s n (n + length ?c) = ?c" by (rule text_between_char)
  have d: "depth \<noteq> 0" using assms(1) by simp
  consider (line) "?c = line_feed" | (opens) "?c = ''/''" "char_opt2 s n = Some ''*''"
    | (closes) "?c = ''*''" "char_opt2 s n = Some ''/''"
    | (plain) "?c \<noteq> line_feed" "\<not> (?c = ''/'' \<and> char_opt2 s n = Some ''*'')" "\<not> (?c = ''*'' \<and> char_opt2 s n = Some ''/'')"
    by blast
  then show ?thesis
  proof cases
    case line
    have "block_loop s n depth saw = block_loop s (n + length ?c) depth True"
      using line assms by (subst block_loop.simps) (simp add: line_feed_def)
    then show ?thesis using that [of "n + length ?c" depth True] len tb line by (simp add: line_feed_def)
  next
    case opens
    have c2: "n + 1 < length s" "char_at s (n + 1) = ''*''" using char_opt2_next [OF opens(2,1)] by (simp_all add: line_feed_def)
    have "block_loop s n depth saw = block_loop s (n + 2) (depth + 1) saw"
      using opens assms by (subst block_loop.simps) (simp add: line_feed_def)
    then show ?thesis using that [of "n + 2" "depth + 1" saw] c2(1) text_between_two [OF opens(1) c2(2)] by simp
  next
    case closes
    have c2: "n + 1 < length s" "char_at s (n + 1) = ''/''" using char_opt2_next [OF closes(2,1)] by (simp_all add: line_feed_def)
    have "block_loop s n depth saw = block_loop s (n + 2) (depth - 1) saw"
      using closes assms by (subst block_loop.simps) (simp add: line_feed_def)
    then show ?thesis using that [of "n + 2" "depth - 1" saw] c2(1) text_between_two [OF closes(1) c2(2)] by simp
  next
    case plain
    have "block_loop s n depth saw = block_loop s (n + length ?c) depth saw"
      using plain assms(2) d by (subst block_loop.simps) (simp only: Let_def if_False not_False_eq_True if_True simp_thms)
    then show ?thesis using that [of "n + length ?c" depth saw] len tb no_newline_in_char [OF plain(1)] by simp
  qed
qed

text \<open>The loop stays within the text, and knows whether it passed a newline unless it ran to the end.\<close>

lemma block_loop_result:
  "n \<le> length s \<Longrightarrow> block_loop s n depth saw = (stop, shut, w) \<Longrightarrow>
     stop \<le> length s \<and> (w \<longleftrightarrow> saw \<or> CHR 0x0A \<in> set (text_between s n stop)) \<and> (shut \<or> stop = length s)"
proof (induction "length s - n" arbitrary: n depth saw rule: less_induct)
  case less
  show ?case
  proof (cases "0 < depth \<and> n < length s")
    case True
    then obtain m d v where m: "n < m" "m \<le> length s" "block_loop s n depth saw = block_loop s m d v"
      "v \<longleftrightarrow> saw \<or> CHR 0x0A \<in> set (text_between s n m)" using block_loop_turn by blast
    have ih: "stop \<le> length s \<and> (w \<longleftrightarrow> v \<or> CHR 0x0A \<in> set (text_between s m stop)) \<and> (shut \<or> stop = length s)"
      using less.hyps [of m d v] m True less.prems(2) by auto
    have "m \<le> stop" using block_loop_ge [of m s d v] m(3) less.prems(2) by (metis fst_conv)
    then have "text_between s n stop = text_between s n m @ text_between s m stop"
      using m(1) by (intro text_between_append) simp_all
    then show ?thesis using ih m(4) by auto
  next
    case False
    then show ?thesis using less.prems by (subst (asm) block_loop.simps) (auto split: if_splits)
  qed
qed

section \<open>Pushing\<close>

text \<open>A step that reads on and then pushes one token, of a kind the text read for it allows.\<close>

definition pushes :: "(token_kind \<Rightarrow> string \<Rightarrow> bool) \<Rightarrow> nat \<Rightarrow> lexer \<Rightarrow> lexer \<Rightarrow> bool" where
  "pushes allowed start lx lx' \<longleftrightarrow>
     (\<exists>lx1 k. reads_on lx lx1 \<and> lx' = push_token k start lx1 \<and> allowed k (text_from lx1 start))"

lemma pushesI: "reads_on lx lx1 \<Longrightarrow> allowed k (text_from lx1 start) \<Longrightarrow> pushes allowed start lx (push_token k start lx1)"
  by (auto simp: pushes_def)

lemma pushes_after: "pushes allowed start lx1 lx' \<Longrightarrow> reads_on lx lx1 \<Longrightarrow> pushes allowed start lx lx'"
  unfolding pushes_def using reads_on_trans by blast

lemma pushes_mono: "pushes P start lx lx' \<Longrightarrow> (\<And>k s. P k s \<Longrightarrow> Q k s) \<Longrightarrow> pushes Q start lx lx'"
  by (auto simp: pushes_def)

definition number_kind :: "token_kind \<Rightarrow> bool" where
  "number_kind k \<longleftrightarrow> (\<exists>v. k = TkInt v) \<or> (\<exists>v. k = TkFloat v)"

lemma number_kind_simps [simp]: "number_kind (TkInt v)" "number_kind (TkFloat x)" by (auto simp: number_kind_def)

lemma pushes_hex_number: "pushes (\<lambda>k _. number_kind k) start lx (hex_number start lx)"
  by (auto simp: hex_number_def Let_def intro!: pushesI reads_on_to)

lemma pushes_push_int: "pushes (\<lambda>k _. number_kind k) start lx (push_int s start lx)"
  by (auto simp: push_int_def intro!: pushesI split: option.split)

lemma pushes_push_float: "pushes (\<lambda>k _. number_kind k) start lx (push_float lb s start lx)"
  by (auto simp: push_float_def intro!: pushesI split: float_text.split)

lemma reads_on_exponent: "reads_on lx (exponent lx)"
  by (auto simp: exponent_def Let_def intro!: reads_on_to)

lemma reads_on_fraction: "reads_on lx (fraction lx)"
  by (auto simp: fraction_def Let_def intro!: reads_on_to reads_on_trans [OF _ reads_on_exponent])

lemma pushes_scan_number: "pushes (\<lambda>k _. number_kind k) start lx (scan_number lb start lx)"
  by (auto simp: scan_number_def Let_def intro!: pushes_hex_number pushes_after [OF pushes_push_int] pushes_after [OF pushes_push_float]
      reads_on_trans [OF _ reads_on_fraction])

lemma reads_on_escape: "reads_on lx (snd (unicode_escape v a lx))" "reads_on lx (snd (escape_char v a lx))"
proof -
  show u: "reads_on lx (snd (unicode_escape v a lx))" for lx
    by (auto simp: unicode_escape_def Let_def intro!: reads_on_to split: option.split)
  show "reads_on lx (snd (escape_char v a lx))"
    by (auto simp: escape_char_def Let_def intro!: reads_on_to reads_on_trans [OF _ u] split: option.split)
qed

lemma pushes_string_loop: "pushes (\<lambda>k _. \<exists>v. k = TkStr v) start lx (string_loop start val lx)"
proof (induction start val lx rule: string_loop.induct)
  case (1 start val lx)
  show ?case
    by (subst string_loop.simps)
       (auto simp: Let_def intro!: pushesI reads_on_to pushes_after [OF 1(1)] pushes_after [OF 1(2)]
          reads_on_trans [OF reads_on_bump reads_on_escape(2)] split: option.split)
qed

lemma pushes_scan_ident: "pushes (\<lambda>k s. k = name_kind s) start lx (scan_ident u start lx)"
  by (auto simp: scan_ident_def Let_def text_from_def intro!: pushesI reads_on_to)

section \<open>The spelling of a kind\<close>

definition spelled :: "token_kind \<Rightarrow> string \<Rightarrow> bool" where
  "spelled k s =
     (case k of
        TkIdent name \<Rightarrow> s = name \<and> keyword name = None
      | TkInt _ \<Rightarrow> s \<noteq> [] \<and> is_ascii_digit (hd s)
      | TkFloat _ \<Rightarrow> s \<noteq> [] \<and> is_ascii_digit (hd s)
      | TkStr _ \<Rightarrow> s \<noteq> [] \<and> hd s = CHR 0x22
      | TkTerm \<Rightarrow> s = '';''
      | TkEof \<Rightarrow> False
      | _ \<Rightarrow> token_lexeme k = Some s)"

definition spelled_by :: "morph option \<Rightarrow> token_kind \<Rightarrow> string \<Rightarrow> bool" where
  "spelled_by m k s \<longleftrightarrow> spelled k s \<or> (case m of None \<Rightarrow> False | Some mo \<Rightarrow> (s, k) \<in> set (mo_alias_to_kind mo))"

lemma spelled_lexeme: "token_lexeme k = Some s \<Longrightarrow> spelled k s"
  by (cases k) (simp_all add: spelled_def token_lexeme_def keyword_lexeme_def punctuation_lexeme_def)

lemma spelled_name_kind: "spelled (name_kind s) s"
proof (cases "s = ''_''")
  case True
  then show ?thesis by (auto simp: name_kind_def token_lexeme_def keyword_lexeme_def punctuation_lexeme_def intro!: spelled_lexeme)
next
  case False
  then show ?thesis
    by (cases "keyword s") (auto simp: name_kind_def spelled_def [of "TkIdent s"] lexeme_of_keyword intro!: spelled_lexeme)
qed

lemma spelled_single: "map_of single_tokens c = Some k \<Longrightarrow> spelled k c"
proof -
  have "list_all (\<lambda>(c, k). spelled k c) single_tokens" by code_simp
  then show "map_of single_tokens c = Some k \<Longrightarrow> spelled k c" by (auto simp: list_all_iff dest: map_of_SomeD)
qed

lemma spelled_operators:
  "spelled TkArrow ''->''" "spelled TkMinus ''-''" "spelled TkEqEq ''==''" "spelled TkFatArrow ''=>''" "spelled TkEq ''=''"
  "spelled TkNotEq ''!=''" "spelled TkBang ''!''" "spelled TkLe ''<=''" "spelled TkLt ''<''" "spelled TkGe ''>=''" "spelled TkGt ''>''"
  "spelled TkAndAnd ''&&''" "spelled TkOrOr ''||''" "spelled TkPipe ''|''"
  by code_simp+

section \<open>The token at the cursor\<close>

lemma text_from_bump: "peek lx = Some c \<Longrightarrow> text_from (bump lx) (lx_pos lx) = c"
  using text_between_char [of "lx_src lx" "lx_pos lx"] by (auto simp: text_from_def lx_pos_bump dest: peek_Some)

lemma text_from_reads_on:
  assumes "peek lx = Some c" "reads_on (bump lx) lx1"
  shows "text_from lx1 (lx_pos lx) = c @ text_between (lx_src lx) (lx_pos (bump lx)) (lx_pos lx1)"
  using text_between_append [of "lx_pos lx" "lx_pos (bump lx)" "lx_pos lx1" "lx_src lx"] text_from_bump [OF assms(1)] assms(2)
  by (simp add: text_from_def reads_on_def)

lemma text_from_bump_bump:
  "peek lx = Some c \<Longrightarrow> peek (bump lx) = Some c2 \<Longrightarrow> text_from (bump (bump lx)) (lx_pos lx) = c @ c2"
  using text_from_reads_on [of lx c "bump (bump lx)"] text_from_bump [of "bump lx" c2] by (simp add: text_from_def)

lemma pushes_either_token:
  "peek lx = Some c \<Longrightarrow> spelled one c \<Longrightarrow> spelled two (c @ c2) \<Longrightarrow>
     pushes spelled (lx_pos lx) (bump lx) (either_token (lx_pos lx) c2 two one (bump lx))"
  by (auto simp: either_token_def text_from_bump text_from_bump_bump intro!: pushesI)

lemma pushes_text:
  assumes "pushes P (lx_pos lx) (bump lx) lx'" "peek lx = Some c" "\<And>k s. P k (c @ s) \<Longrightarrow> Q k (c @ s)"
  shows "pushes Q (lx_pos lx) (bump lx) lx'"
  using assms text_from_reads_on [OF assms(2)] unfolding pushes_def by metis

lemma ascii_of_Some: "ascii_of c = Some b \<Longrightarrow> c = [b]"
  by (auto simp: ascii_of_def split: list.splits if_splits)

lemma scan_char_outcome:
  assumes c: "peek lx = Some c"
  shows "pushes spelled (lx_pos lx) (bump lx) (scan_char u lb (lx_pos lx) c (bump lx)) \<or>
    (\<exists>p. scan_char u lb (lx_pos lx) c (bump lx) = report p (lx_pos lx) (bump lx))"
proof -
  let ?a = "lx_pos lx"
  have number: "pushes spelled ?a (bump lx) (scan_number lb ?a (bump lx))" if "char_digit c"
    using that by (intro pushes_text [OF pushes_scan_number c])
      (auto simp: number_kind_def spelled_def char_digit_def split: option.splits dest!: ascii_of_Some)
  have ident: "pushes spelled ?a (bump lx) (scan_ident u ?a (bump lx))"
    by (rule pushes_mono [OF pushes_scan_ident]) (simp add: spelled_name_kind)
  have str: "pushes spelled ?a (bump lx) (string_loop ?a [] (bump lx))" if "c = [CHR 0x22]"
    using that by (intro pushes_text [OF pushes_string_loop c]) (auto simp: spelled_def)
  have either: "pushes spelled ?a (bump lx) (either_token ?a c2 two one (bump lx))"
    if "spelled one c" "spelled two (c @ c2)" for c2 two one using that by (rule pushes_either_token [OF c])
  have two: "pushes spelled ?a (bump lx) (push_token k ?a (bump (bump lx)))" if "peek (bump lx) = Some c2" "spelled k (c @ c2)" for k c2
    using that by (intro pushesI) (simp_all add: text_from_bump_bump [OF c])
  have one: "pushes spelled ?a (bump lx) (push_token k ?a (bump lx))" if "spelled k c" for k
    using that by (intro pushesI) (simp_all add: text_from_bump [OF c])
  have error: "\<exists>p. report q ?a (bump lx) = report p ?a (bump lx)" for q by blast
  show ?thesis
  proof (cases "map_of single_tokens c")
    case None
    show ?thesis
      unfolding scan_char_def None option.case
      by (simp add: number ident str either two spelled_operators error)
  next
    case (Some k)
    then show ?thesis by (simp add: scan_char_def one spelled_single)
  qed
qed

lemma first_alias_Some:
  "first_alias as s = Some (a, k) \<Longrightarrow> (a, k) \<in> set as \<and> (\<exists>r. s = a @ r)"
  by (induction as s rule: first_alias.induct) (auto simp: strip_prefix_Some_iff split: option.splits if_splits)

lemma scan_token_outcome:
  assumes c: "peek lx = Some c"
  shows "pushes (spelled_by (lx_morph lx)) (lx_pos lx) lx (scan_token u lb lx) \<or>
    (\<exists>p. scan_token u lb lx = report p (lx_pos lx) (bump lx))"
proof (cases "try_morph_alias (lx_pos lx) lx")
  case None
  then have eq: "scan_token u lb lx = scan_char u lb (lx_pos lx) c (bump lx)" using c by (simp add: scan_token_def)
  have "pushes (spelled_by (lx_morph lx)) (lx_pos lx) lx lx'" if "pushes spelled (lx_pos lx) (bump lx) lx'" for lx'
    by (rule pushes_after [OF pushes_mono [OF that]]) (simp_all add: spelled_by_def)
  then show ?thesis using scan_char_outcome [OF c, of u lb] eq by auto
next
  case (Some lx')
  then obtain m a k where m: "lx_morph lx = Some m" "first_alias (mo_alias_to_kind m) (drop (lx_pos lx) (lx_src lx)) = Some (a, k)"
    "lx' = push_token k (lx_pos lx) (lx\<lparr>lx_pos := lx_pos lx + length a\<rparr>)"
    by (auto simp: try_morph_alias_def split: option.splits)
  obtain r where r: "drop (lx_pos lx) (lx_src lx) = a @ r" "(a, k) \<in> set (mo_alias_to_kind m)" using first_alias_Some [OF m(2)] by blast
  then have "length (lx_src lx) - lx_pos lx = length a + length r" by (metis length_append length_drop)
  then have "reads_on lx (lx\<lparr>lx_pos := lx_pos lx + length a\<rparr>)" by (auto simp: reads_on_def)
  then have "pushes (spelled_by (lx_morph lx)) (lx_pos lx) lx lx'"
    unfolding m(3) using m(1) r by (intro pushesI) (simp_all add: spelled_by_def text_from_def text_between_def)
  then show ?thesis using Some by (simp add: scan_token_def)
qed

section \<open>Invariants of the main loop\<close>

text \<open>
  The main loop changes the state in three ways: it skips text, it inserts a terminator where the text just
  skipped began, and it pushes a token. A property of the state each of the three keeps holds at the end.
\<close>

locale lexer_invariant =
  fixes inv :: "lexer \<Rightarrow> bool"
  assumes skip: "inv lx \<Longrightarrow> reads_on lx lx' \<Longrightarrow>
      CHR 0x0A \<notin> set (text_from lx' (lx_pos lx)) \<or> lx_pos lx' = length (lx_src lx') \<Longrightarrow> inv lx'"
    and line: "inv lx \<Longrightarrow> reads_on lx lx' \<Longrightarrow> CHR 0x0A \<in> set (text_from lx' (lx_pos lx)) \<Longrightarrow> inv (maybe_insert_term (lx_pos lx) lx')"
    and token: "inv lx \<Longrightarrow> lx_pos lx < length (lx_src lx) \<Longrightarrow> pushes (spelled_by (lx_morph lx)) (lx_pos lx) lx lx' \<Longrightarrow> inv lx'"
begin

lemma newline:
  assumes "inv lx" "peek lx = Some line_feed"
  shows "inv (bump (maybe_insert_term (lx_pos lx) lx))"
proof -
  have "bump (maybe_insert_term (lx_pos lx) lx) = maybe_insert_term (lx_pos lx) (bump lx)"
    by (auto simp: bump_def maybe_insert_term_def last_kind_def peek_def split: option.split)
  moreover have "inv (maybe_insert_term (lx_pos lx) (bump lx))"
    by (rule line [OF assms(1) reads_on_bump]) (simp add: text_from_bump [OF assms(2)] line_feed_def)
  ultimately show ?thesis by simp
qed

lemma bump_inv: "inv lx \<Longrightarrow> peek lx = Some c \<Longrightarrow> c \<noteq> line_feed \<Longrightarrow> inv (bump lx)"
  using no_newline_in_char [of "lx_src lx" "lx_pos lx"] by (intro skip [OF _ reads_on_bump]) (auto simp: text_from_bump dest: peek_Some)

lemma line_comment_inv: "inv lx \<Longrightarrow> inv (line_comment lx)"
proof -
  have "CHR 0x0A \<notin> set (text_between s n (scan_while (\<lambda>c. c \<noteq> line_feed) s n))" for s n
  proof (induction "\<lambda>c. c \<noteq> line_feed" s n rule: scan_while.induct)
    case (1 s n)
    show ?case
    proof (cases "n < length s \<and> char_at s n \<noteq> line_feed")
      case True
      let ?m = "n + length (char_at s n)"
      have "text_between s n (scan_while (\<lambda>c. c \<noteq> line_feed) s ?m) = char_at s n @ text_between s ?m (scan_while (\<lambda>c. c \<noteq> line_feed) s ?m)"
        using text_between_append [of n ?m] scan_while_ge [of ?m] by (simp add: text_between_char)
      then show ?thesis using 1 True no_newline_in_char by (subst scan_while.simps) simp
    next
      case False
      then show ?thesis by (subst scan_while.simps) auto
    qed
  qed
  then have "CHR 0x0A \<notin> set (text_from (line_comment lx) (lx_pos lx))"
    by (simp add: line_comment_def text_from_def eat_while_def)
  moreover have "reads_on lx (line_comment lx)" by (simp add: line_comment_def reads_on_to)
  ultimately show "inv lx \<Longrightarrow> inv (line_comment lx)" using skip by blast
qed

lemma block_comment_inv:
  assumes "inv lx" "peek lx = Some ''/''" "peek2 lx = Some ''*''"
  shows "inv (block_comment lx)"
proof -
  let ?a = "lx_pos lx" and ?s = "lx_src lx"
  obtain stop shut w where b: "block_loop ?s (?a + 2) 1 False = (stop, shut, w)" by (cases "block_loop ?s (?a + 2) 1 False") auto
  have c: "char_at ?s ?a = ''/''" using peek_Some [OF assms(2)] by simp
  have c2: "?a + 1 < length ?s" "char_at ?s (?a + 1) = ''*''"
    using char_opt2_next [of ?s ?a "''*''"] c assms(3) by (simp_all add: peek2_def line_feed_def)
  have pos: "lx_pos (bump (bump lx)) = ?a + 2" using c c2 by (simp add: lx_pos_bump)
  have r: "stop \<le> length ?s" "w \<longleftrightarrow> CHR 0x0A \<in> set (text_between ?s (?a + 2) stop)" "shut \<or> stop = length ?s"
    using block_loop_result [OF _ b] c2(1) by auto
  have ge: "?a + 2 \<le> stop" using block_loop_ge [of "?a + 2" ?s 1 False] b by simp
  have whole: "text_between ?s ?a stop = ''/*'' @ text_between ?s (?a + 2) stop"
    using text_between_append [of ?a "?a + 2" stop ?s] text_between_two [OF c c2(2)] ge by simp
  let ?lx2 = "(bump (bump lx))\<lparr>lx_pos := stop\<rparr>"
  have adv: "reads_on lx ?lx2"
    using reads_on_to(1) [OF reads_on_bump [of lx]] r(1) ge by (simp add: reads_on_def)
  have tf: "text_from lx' ?a = text_between ?s ?a stop" if "lx_pos lx' = stop" "lx_src lx' = ?s" for lx'
    using that by (simp add: text_from_def)
  have eq: "block_comment lx =
    (if \<not> shut then report UnterminatedComment ?a ?lx2
     else if w then maybe_insert_term ?a (record_comment ?a ?lx2) else record_comment ?a ?lx2)"
    unfolding block_comment_def Let_def lx_src_simps pos b by simp
  consider "\<not> shut" | "shut" "w" | "shut" "\<not> w" by blast
  then show ?thesis
  proof cases
    case 1
    then have "inv (report UnterminatedComment ?a ?lx2)"
      using r(3) by (intro skip [OF assms(1) reads_on_to(2) [OF adv]]) simp
    then show ?thesis using 1 by (simp add: eq)
  next
    case 2
    then have "inv (maybe_insert_term ?a (record_comment ?a ?lx2))"
      using r(2) whole by (intro line [OF assms(1) reads_on_to(4) [OF adv]]) (simp add: tf)
    then show ?thesis using 2 by (simp add: eq)
  next
    case 3
    then have "inv (record_comment ?a ?lx2)"
      using r(2) whole by (intro skip [OF assms(1) reads_on_to(4) [OF adv]]) (simp add: tf)
    then show ?thesis using 3 by (simp add: eq)
  qed
qed

lemma skip_trivia_inv: "inv lx \<Longrightarrow> inv (skip_trivia lx)"
proof (induction lx rule: skip_trivia.induct)
  case (1 lx)
  show ?case
    using 1 by (subst skip_trivia.simps)
      (auto simp: newline bump_inv line_comment_inv block_comment_inv split: option.split)
qed

lemma scan_token_inv:
  assumes "inv lx" "peek lx = Some c" "c \<noteq> line_feed"
  shows "inv (scan_token u lb lx)"
  using scan_token_outcome [OF assms(2), of u lb]
proof (elim disjE exE)
  assume "pushes (spelled_by (lx_morph lx)) (lx_pos lx) lx (scan_token u lb lx)"
  then show ?thesis using assms(1) token peek_Some [OF assms(2)] by blast
next
  fix p assume e: "scan_token u lb lx = report p (lx_pos lx) (bump lx)"
  have "CHR 0x0A \<notin> set (text_from (bump lx) (lx_pos lx))"
    using no_newline_in_char [of "lx_src lx" "lx_pos lx"] assms(2,3) by (auto simp: text_from_bump dest: peek_Some)
  then show ?thesis
    unfolding e by (intro skip [OF assms(1) reads_on_to(2) [OF reads_on_bump]]) (simp add: text_from_def)
qed

end

lemma skip_trivia_stops: "peek (skip_trivia lx) \<noteq> Some line_feed"
proof (induction lx rule: skip_trivia.induct)
  case (1 lx)
  then show ?case by (subst skip_trivia.simps) (auto split: option.split)
qed

context lexer_invariant begin

lemma lex_loop_inv: "lex_loop u lb lx = Some lx' \<Longrightarrow> inv lx \<Longrightarrow> inv lx'"
proof (induction rule: lex_loop.raw_induct [rotated 1, consumes 1])
  case (1 loop u lb lx lx')
  show ?case
  proof (cases "lx_pos (skip_trivia lx) < length (lx_src (skip_trivia lx))")
    case True
    then obtain c where c: "peek (skip_trivia lx) = Some c" by (simp add: peek_def char_opt_def)
    then have "c \<noteq> line_feed" using skip_trivia_stops [of lx] by auto
    then have "inv (scan_token u lb (skip_trivia lx))"
      by (rule scan_token_inv [OF skip_trivia_inv [OF 1(3)] c])
    then show ?thesis using 1 True skip_trivia_inv by (auto simp: Let_def split: if_splits)
  next
    case False
    then show ?thesis using 1 skip_trivia_inv by (auto simp: Let_def split: if_splits)
  qed
qed

end

end
