(* ===== verification/Lexer_Claims.thy ===== *)
theory Lexer_Claims imports Lexer_Inv begin

text \<open>
  What the lexer promises its callers: it returns, for every morph that passed validation; its spans read
  the text from left to right; every token is spelled by the text of its span; a terminator is inserted
  after a token that can end a statement, at a newline or the end, and nowhere else; and no text that renders
  otherwise than it reads passes.
\<close>

section \<open>The morphs that pass validation\<close>

lemma set_bt_insert: "set (bt_insert k v m) \<subseteq> insert (k, v) (set m)"
  by (induction k v m rule: bt_insert.induct) auto

lemma map_of_bt_insert: "map_of (bt_insert k v m) = (map_of m)(k \<mapsto> v)"
  by (induction k v m rule: bt_insert.induct) (auto simp: fun_eq_iff)

lemma set_scan_order [simp]: "set (scan_order xs) = set xs" by (simp add: scan_order_def)

definition entry_ok :: "string \<times> string \<Rightarrow> bool" where
  "entry_ok p \<longleftrightarrow> fst p \<in> set morphable_keywords \<and> alias_defect (snd p) = None \<and> (snd p = fst p \<or> snd p \<notin> set morphable_keywords)"

lemma add_entry_ok:
  "add_entry (errors, renamed, claimed) e = (errors', renamed', claimed') \<Longrightarrow> \<forall>p\<in>set renamed. entry_ok p \<Longrightarrow> \<forall>p\<in>set renamed'. entry_ok p"
  using set_bt_insert [of "fst e" "snd e" renamed]
  by (auto simp: add_entry_def entry_ok_def split: prod.splits if_splits option.splits)

lemma entries_ok:
  "foldl add_entry (errors, renamed, claimed) es = (errors', renamed', claimed') \<Longrightarrow> \<forall>p\<in>set renamed. entry_ok p \<Longrightarrow>
     \<forall>p\<in>set renamed'. entry_ok p"
proof (induction es arbitrary: errors renamed claimed)
  case (Cons e es)
  obtain x y z where b: "add_entry (errors, renamed, claimed) e = (x, y, z)" by (cases "add_entry (errors, renamed, claimed) e") auto
  show ?case using Cons.IH [of x y z] Cons.prems b add_entry_ok [OF b] by simp
qed simp

definition good_morph :: "morph option \<Rightarrow> bool" where
  "good_morph m \<longleftrightarrow>
     (case m of None \<Rightarrow> True
      | Some mo \<Rightarrow> list_all (\<lambda>(a, k). a \<noteq> [] \<and> keyword_lexeme k \<noteq> None) (mo_alias_to_kind mo))"

lemma map_filter_pairs: "(a, k) \<in> set (List.map_filter (\<lambda>(canon, alias). map_option (\<lambda>k. (alias, k)) (keyword canon)) xs) \<Longrightarrow>
     \<exists>canon. (canon, a) \<in> set xs \<and> keyword canon = Some k"
  by (force simp: List.map_filter_def split: option.splits)

lemma alias_not_Nil: "alias_defect a = None \<Longrightarrow> a \<noteq> []" by (auto simp: alias_defect_def)

lemma good_morph_new: "morph_new ident name version kind entries = Inr mo \<Longrightarrow> good_morph (Some mo)"
proof -
  assume n: "morph_new ident name version kind entries = Inr mo"
  obtain errors renamed claimed where f: "foldl add_entry ([], [], []) entries = (errors, renamed, claimed)"
    by (cases "foldl add_entry ([], [], []) entries") auto
  have ok: "\<forall>p\<in>set renamed. entry_ok p" using entries_ok [OF f] by simp
  have "\<forall>p\<in>set renamed. snd p \<noteq> []" using ok by (simp add: entry_ok_def alias_not_Nil)
  then show ?thesis
    using n by (fastforce simp: morph_new_def f good_morph_def list_all_iff Let_def
        dest!: map_filter_pairs lexeme_of_keyword split: if_splits)
qed

section \<open>The lexer returns\<close>

lemma pushes_gt: "pushes P start lx lx' \<Longrightarrow> lx_pos lx \<le> lx_pos lx'" by (auto simp: pushes_def reads_on_def)

lemma scan_token_src [simp]: "peek lx = Some c \<Longrightarrow> lx_src (scan_token u lb lx) = lx_src lx \<and> lx_morph (scan_token u lb lx) = lx_morph lx"
  using scan_token_outcome [of lx c u lb]
  by (auto simp: pushes_def reads_on_def push_token_def report_def bump_def split: option.splits)

lemma scan_token_gt:
  assumes c: "peek lx = Some c" and m: "good_morph (lx_morph lx)"
  shows "lx_pos lx < lx_pos (scan_token u lb lx)"
proof (cases "try_morph_alias (lx_pos lx) lx")
  case None
  then have eq: "scan_token u lb lx = scan_char u lb (lx_pos lx) c (bump lx)" using c by (simp add: scan_token_def)
  have "lx_pos (bump lx) \<le> lx_pos (scan_char u lb (lx_pos lx) c (bump lx))"
    using scan_char_outcome [OF c, of u lb] by (auto dest: pushes_gt)
  then show ?thesis using peek_bump_gt [OF c] eq by simp
next
  case (Some lx')
  then show ?thesis
    using m by (auto simp: try_morph_alias_def scan_token_def good_morph_def list_all_iff split: option.splits dest!: first_alias_Some)
qed

definition from_on :: "nat \<Rightarrow> string \<Rightarrow> morph option \<Rightarrow> nat \<Rightarrow> lexer \<Rightarrow> bool" where
  "from_on file src m n lx \<longleftrightarrow> lx_file lx = file \<and> lx_src lx = src \<and> lx_morph lx = m \<and> n \<le> lx_pos lx"

lemma lx_file_maybe_insert_term [simp]: "lx_file (maybe_insert_term a lx) = lx_file lx"
  by (simp add: maybe_insert_term_def split: option.split)

lemma lx_morph_maybe_insert_term [simp]: "lx_morph (maybe_insert_term a lx) = lx_morph lx"
  by (simp add: maybe_insert_term_def split: option.split)

interpretation keeps: lexer_invariant "from_on f src m n" for f src m n
  by unfold_locales (auto simp: from_on_def reads_on_def pushes_def push_token_def)

lemma skip_trivia_keeps: "lx_src (skip_trivia lx) = lx_src lx \<and> lx_morph (skip_trivia lx) = lx_morph lx \<and> lx_pos lx \<le> lx_pos (skip_trivia lx)"
  using keeps.skip_trivia_inv [of "lx_file lx" "lx_src lx" "lx_morph lx" "lx_pos lx" lx] by (simp add: from_on_def)

lemma lex_loop_returns: "good_morph (lx_morph lx) \<Longrightarrow> \<exists>lx'. lex_loop u lb lx = Some lx'"
proof (induction "length (lx_src lx) - lx_pos lx" arbitrary: lx rule: less_induct)
  case less
  let ?t = "skip_trivia lx"
  show ?case
  proof (cases "lx_pos lx < length (lx_src lx) \<and> lx_pos ?t < length (lx_src ?t)")
    case True
    then obtain c where c: "peek ?t = Some c" by (auto simp: peek_def char_opt_def)
    have gt: "lx_pos ?t < lx_pos (scan_token u lb ?t)" using scan_token_gt [OF c] less.prems skip_trivia_keeps by simp
    have "\<exists>lx'. lex_loop u lb (scan_token u lb ?t) = Some lx'"
      using less.hyps [of "scan_token u lb ?t"] gt scan_token_src [OF c, of u lb] skip_trivia_keeps [of lx] True less.prems by auto
    then show ?thesis using True by (subst lex_loop.simps) (simp add: Let_def)
  next
    case False
    then show ?thesis by (subst lex_loop.simps) (auto simp: Let_def)
  qed
qed

lemma lx_morph_checks: "lx_morph (check_line_break_lookalikes (check_bidi_controls lx)) = lx_morph lx"
  by (simp add: check_line_break_lookalikes_def check_bidi_controls_def)

text \<open>C28: The lexer returns on every text: without a morph, and under every morph that was accepted, whatever it renames.\<close>

theorem lexing_returns:
  assumes "m = None \<or> (\<exists>mo. m = Some mo \<and> morph_new ident name version kind entries = Inr mo)"
  shows "\<exists>tokens diags. lex_with_morph u lb file src m = Some (tokens, diags)"
proof -
  have "good_morph m" using assms good_morph_new by (auto simp: good_morph_def)
  let ?lx = "check_line_break_lookalikes (check_bidi_controls ((lexer_new file src)\<lparr>lx_morph := m\<rparr>))"
  have "good_morph (lx_morph ?lx)" using \<open>good_morph m\<close> by (simp add: lx_morph_checks)
  then obtain lx' where "lex_loop u lb ?lx = Some lx'" using lex_loop_returns by blast
  then show ?thesis by (simp add: lex_with_morph_def lexer_run_def lex_finish_def Let_def)
qed

definition short_morph :: morph where
  "short_morph = \<lparr>mo_id = ''m'', mo_name = ''m'', mo_version = ''1'', mo_kind = Compact,
     mo_canon_to_alias = [(''let'', ''l'')], mo_alias_to_kind = [(''l'', KwLet)]\<rparr>"

lemma short_morph_accepted: "morph_new ''m'' ''m'' ''1'' Compact [(''let'', ''l'')] = Inr short_morph"
  by code_simp

theorem lexing_returns_witness: "\<exists>tokens diags. lex_with_morph no_unicode plain_libs 0 ''l x = 1'' (Some short_morph) = Some (tokens, diags)"
  by (rule lexing_returns) (use short_morph_accepted in blast)

section \<open>From the loop to the result\<close>

lemma u32_of_id: "n \<le> m \<Longrightarrow> m < 2 ^ 32 \<Longrightarrow> u32_of n = n" by (simp add: u32_of_def)

definition start_lexer :: "nat \<Rightarrow> string \<Rightarrow> morph option \<Rightarrow> lexer" where
  "start_lexer file src m = check_line_break_lookalikes (check_bidi_controls ((lexer_new file src)\<lparr>lx_morph := m\<rparr>))"

lemma start_lexer_simps [simp]:
  "lx_src (start_lexer file src m) = src" "lx_morph (start_lexer file src m) = m" "lx_file (start_lexer file src m) = file"
  "lx_tokens (start_lexer file src m) = []" "lx_comments (start_lexer file src m) = []"
  "lx_pos (start_lexer file src m) \<le> length src"
  by (auto simp: start_lexer_def check_line_break_lookalikes_def check_bidi_controls_def lexer_new_def starts_with_def
      dest: prefix_length_le)

definition eof_token :: "nat \<Rightarrow> nat \<Rightarrow> token" where
  "eof_token file n = \<lparr>tk_kind = TkEof, tk_span = src_span file n n\<rparr>"

definition term_token :: "nat \<Rightarrow> nat \<Rightarrow> token" where
  "term_token file n = \<lparr>tk_kind = TkTerm, tk_span = src_span file n n\<rparr>"

lemma maybe_insert_term_eq:
  "maybe_insert_term a lx =
     (if lx_tokens lx \<noteq> [] \<and> can_end_statement (tk_kind (last (lx_tokens lx)))
      then lx\<lparr>lx_tokens := lx_tokens lx @ [term_token (lx_file lx) a]\<rparr> else lx)"
  by (simp add: maybe_insert_term_def last_kind_def term_token_def)

text \<open>Whatever a lexer returns is what an invariant of its loop says at the end, with the last two tokens added.\<close>

lemma lex_result:
  assumes "lex_with_morph u lb file src m = Some (tokens, diags)"
  obtains lx where "lex_loop u lb (start_lexer file src m) = Some lx" "lx_src lx = src" "lx_file lx = file" "lx_morph lx = m"
    "diags = lx_diags lx" "tokens = lx_tokens (maybe_insert_term (length src) lx) @ [eof_token file (length src)]"
proof -
  obtain lx where lx: "lex_loop u lb (start_lexer file src m) = Some lx" "(tokens, diags, lx_comments (maybe_insert_term (length (lx_src lx)) lx)) = lex_finish lx"
    using assms by (auto simp: lex_with_morph_def lexer_run_def start_lexer_def lex_finish_def Let_def)
  have k: "from_on file src m 0 lx" by (rule keeps.lex_loop_inv [OF lx(1)]) (simp add: from_on_def)
  have "lx_diags (maybe_insert_term a lx) = lx_diags lx" for a by (simp add: maybe_insert_term_eq)
  then show ?thesis
    using that [OF lx(1)] lx(2) k by (simp add: lex_finish_def Let_def from_on_def eof_token_def)
qed

section \<open>Spans\<close>

definition boundaries :: "token list \<Rightarrow> nat list" where
  "boundaries ts = concat (map (\<lambda>t. [ss_start (tk_span t), ss_end (tk_span t)]) ts)"

lemma boundaries_simps [simp]:
  "boundaries [] = []" "boundaries (ts @ us) = boundaries ts @ boundaries us"
  "boundaries [t] = [ss_start (tk_span t), ss_end (tk_span t)]"
  by (simp_all add: boundaries_def)

definition spans_inv :: "lexer \<Rightarrow> bool" where
  "spans_inv lx \<longleftrightarrow>
     length (lx_src lx) < 2 ^ 32 \<and> lx_pos lx \<le> length (lx_src lx) \<and> sorted (boundaries (lx_tokens lx)) \<and>
     (\<forall>x\<in>set (boundaries (lx_tokens lx)). x \<le> lx_pos lx)"

lemma span_ends [simp]:
  "ss_start (src_span file a b) = u32_of a" "ss_end (src_span file a b) = u32_of b"
  by (simp_all add: src_span_def)

interpretation spans: lexer_invariant spans_inv
proof
  fix lx lx'
  assume i: "spans_inv lx"
  show "spans_inv lx'" if "reads_on lx lx'"
    using i that by (fastforce simp: spans_inv_def reads_on_def)
  show "spans_inv (maybe_insert_term (lx_pos lx) lx')" if "reads_on lx lx'"
    using i that
    by (fastforce simp: spans_inv_def reads_on_def maybe_insert_term_eq term_token_def sorted_append u32_of_id [of _ "length (lx_src lx)"])
  show "spans_inv lx'" if "pushes (spelled_by (lx_morph lx)) (lx_pos lx) lx lx'"
    using i that
    by (fastforce simp: spans_inv_def reads_on_def pushes_def push_token_def span_from_def sorted_append u32_of_id [of _ "length (lx_src lx)"])
qed

lemma spans_sorted:
  assumes "length src < 2 ^ 32" "lex_with_morph u lb file src m = Some (tokens, diags)"
  shows "sorted (boundaries tokens) \<and> (\<forall>x\<in>set (boundaries tokens). x \<le> length src)"
proof -
  obtain lx where lx: "lex_loop u lb (start_lexer file src m) = Some lx" "lx_src lx = src" "lx_file lx = file"
    "tokens = lx_tokens (maybe_insert_term (length src) lx) @ [eof_token file (length src)]"
    using lex_result [OF assms(2)] by metis
  have "spans_inv lx" using spans.lex_loop_inv [OF lx(1)] assms(1) by (simp add: spans_inv_def)
  then have "sorted (boundaries (lx_tokens lx))" "\<forall>x\<in>set (boundaries (lx_tokens lx)). x \<le> length src"
    using lx(2) by (auto simp: spans_inv_def)
  moreover have "u32_of (length src) = length src" using assms(1) by (simp add: u32_of_def)
  ultimately show ?thesis
    by (auto simp: lx(4) maybe_insert_term_eq term_token_def eof_token_def sorted_append)
qed

text \<open>The spans of the tokens read a text of less than 4 GiB from left to right: no span ends before it starts, none
  starts before the one before it has ended, and none leaves the text. This is what a splice over the spans rests on.\<close>

theorem spans_left_to_right:
  assumes "length src < 2 ^ 32" "lex_with_morph u lb file src m = Some (tokens, diags)"
  shows "sorted (boundaries tokens) \<and> (\<forall>x\<in>set (boundaries tokens). x \<le> length src)"
  by (rule spans_sorted [OF assms])

definition sample_source :: string where "sample_source = ''l x'' @ [CHR 0x0A] @ ''7''"

definition sample_tokens :: "token list" where
  "sample_tokens = [\<lparr>tk_kind = KwLet, tk_span = src_span 0 0 1\<rparr>, \<lparr>tk_kind = TkIdent ''x'', tk_span = src_span 0 2 3\<rparr>, term_token 0 3,
     \<lparr>tk_kind = TkInt 7, tk_span = src_span 0 4 5\<rparr>, term_token 0 5, eof_token 0 5]"

lemma sample_lexed: "lex_with_morph no_unicode plain_libs 0 sample_source (Some short_morph) = Some (sample_tokens, [])"
  by code_simp

lemma sample_short: "length sample_source < 2 ^ 32" by (simp add: sample_source_def)

theorem spans_left_to_right_witness: "sorted (boundaries sample_tokens)"
  using spans_left_to_right [OF sample_short sample_lexed] by blast

section \<open>Spelling\<close>

definition token_text :: "string \<Rightarrow> token \<Rightarrow> string" where
  "token_text src t = text_between src (ss_start (tk_span t)) (ss_end (tk_span t))"

definition well_spelled :: "string \<Rightarrow> morph option \<Rightarrow> token \<Rightarrow> bool" where
  "well_spelled src m t \<longleftrightarrow>
     spelled_by m (tk_kind t) (token_text src t) \<or> tk_kind t \<in> {TkTerm, TkEof} \<and> token_text src t = []"

definition spelling_inv :: "lexer \<Rightarrow> bool" where
  "spelling_inv lx \<longleftrightarrow>
     length (lx_src lx) < 2 ^ 32 \<and> lx_pos lx \<le> length (lx_src lx) \<and>
     (\<forall>t\<in>set (lx_tokens lx). well_spelled (lx_src lx) (lx_morph lx) t)"

lemma well_spelled_term: "well_spelled src m (term_token file a)" "well_spelled src m (eof_token file a)"
  by (simp_all add: well_spelled_def term_token_def eof_token_def token_text_def)

lemma pushes_spans:
  assumes "pushes P (lx_pos lx) lx lx'" "length (lx_src lx) < 2 ^ 32" "lx_pos lx \<le> length (lx_src lx)"
  obtains k where "lx_tokens lx' = lx_tokens lx @ [\<lparr>tk_kind = k, tk_span = \<lparr>ss_file = lx_file lx, ss_start = lx_pos lx, ss_end = lx_pos lx'\<rparr>\<rparr>]"
    "P k (text_between (lx_src lx) (lx_pos lx) (lx_pos lx'))" "lx_src lx' = lx_src lx" "lx_morph lx' = lx_morph lx"
    "lx_pos lx \<le> lx_pos lx'" "lx_pos lx' \<le> length (lx_src lx)"
  using assms
  by (auto simp: pushes_def push_token_def reads_on_def span_from_def src_span_def text_from_def u32_of_id [of _ "length (lx_src lx)"])

interpretation spelling: lexer_invariant spelling_inv
proof
  fix lx lx'
  assume i: "spelling_inv lx"
  show "spelling_inv lx'" if "reads_on lx lx'"
    using i that by (simp add: spelling_inv_def reads_on_def)
  show "spelling_inv (maybe_insert_term (lx_pos lx) lx')" if "reads_on lx lx'"
    using i that by (auto simp: spelling_inv_def reads_on_def maybe_insert_term_eq well_spelled_term)
  show "spelling_inv lx'" if "pushes (spelled_by (lx_morph lx)) (lx_pos lx) lx lx'"
    using that
  proof (rule pushes_spans)
    show "length (lx_src lx) < 2 ^ 32" "lx_pos lx \<le> length (lx_src lx)" using i by (simp_all add: spelling_inv_def)
  qed (use i in \<open>auto simp: spelling_inv_def well_spelled_def token_text_def\<close>)
qed

lemma tokens_well_spelled:
  assumes "length src < 2 ^ 32" "lex_with_morph u lb file src m = Some (tokens, diags)"
  shows "\<forall>t\<in>set tokens. well_spelled src m t"
proof -
  obtain lx where lx: "lex_loop u lb (start_lexer file src m) = Some lx" "lx_src lx = src" "lx_morph lx = m"
    "tokens = lx_tokens (maybe_insert_term (length src) lx) @ [eof_token file (length src)]"
    using lex_result [OF assms(2)] by metis
  have "spelling_inv lx" using spelling.lex_loop_inv [OF lx(1)] assms(1) by (simp add: spelling_inv_def)
  then show ?thesis using lx(2-4) by (auto simp: spelling_inv_def maybe_insert_term_eq well_spelled_term)
qed

text \<open>C25: Every token is spelled by the text of its span: a keyword or an operator by its one spelling (under a morph by its
  alias), a name by itself and never by a keyword, a number by a text that starts with a digit, a string by one that starts
  with a quote. Only an inserted terminator and the end of the file stand for no text.\<close>

theorem tokens_spelled:
  assumes "length src < 2 ^ 32" "lex_with_morph u lb file src m = Some (tokens, diags)"
  shows "\<forall>t\<in>set tokens. well_spelled src m t"
  by (rule tokens_well_spelled [OF assms])

theorem tokens_spelled_witness: "well_spelled sample_source (Some short_morph) (hd sample_tokens)"
  using tokens_spelled [OF sample_short sample_lexed] by (simp add: sample_tokens_def)

text \<open>
  Where the lexer inserts a terminator, and which texts it refuses before it reads them.
\<close>

section \<open>Terminators\<close>

definition inserted_term :: "token \<Rightarrow> bool" where
  "inserted_term t \<longleftrightarrow> tk_kind t = TkTerm \<and> ss_start (tk_span t) = ss_end (tk_span t)"

definition ends_statement :: "token \<Rightarrow> bool" where
  "ends_statement t \<longleftrightarrow> can_end_statement (tk_kind t)"

text \<open>What holds of a token and the one after it.\<close>

definition term_rule :: "string \<Rightarrow> token \<Rightarrow> token \<Rightarrow> bool" where
  "term_rule src t t' \<longleftrightarrow>
     (ends_statement t \<and> CHR 0x0A \<in> set (text_between src (ss_end (tk_span t)) (ss_start (tk_span t'))) \<longrightarrow> tk_kind t' = TkTerm) \<and>
     (inserted_term t' \<longrightarrow> ends_statement t)"

definition terms_inv :: "lexer \<Rightarrow> bool" where
  "terms_inv lx \<longleftrightarrow>
     length (lx_src lx) < 2 ^ 32 \<and> lx_pos lx \<le> length (lx_src lx) \<and> good_morph (lx_morph lx) \<and>
     successively (term_rule (lx_src lx)) (lx_tokens lx) \<and>
     (lx_tokens lx \<noteq> [] \<longrightarrow>
        \<not> inserted_term (hd (lx_tokens lx)) \<and>
        ss_end (tk_span (last (lx_tokens lx))) \<le> lx_pos lx \<and>
        (ends_statement (last (lx_tokens lx)) \<and> lx_pos lx < length (lx_src lx) \<longrightarrow>
           CHR 0x0A \<notin> set (text_between (lx_src lx) (ss_end (tk_span (last (lx_tokens lx)))) (lx_pos lx))))"

lemma term_not_ends [simp]: "\<not> ends_statement (term_token f a)" "\<not> ends_statement (eof_token f a)"
  by (simp_all add: ends_statement_def term_token_def eof_token_def can_end_statement_def)

lemma text_between_split_set:
  "a \<le> b \<Longrightarrow> b \<le> c \<Longrightarrow> set (text_between s a c) = set (text_between s a b) \<union> set (text_between s b c)"
  using text_between_append [of a b c s] by simp

lemma spelled_term_text: "good_morph m \<Longrightarrow> spelled_by m TkTerm s \<Longrightarrow> s \<noteq> []"
  by (auto simp: spelled_by_def spelled_def good_morph_def list_all_iff split: option.splits)

text \<open>Inserting a terminator after a text just skipped.\<close>

lemma terms_insert:
  assumes i: "terms_inv lx" and a: "lx_src lx' = lx_src lx" "lx_morph lx' = lx_morph lx" "lx_tokens lx' = lx_tokens lx"
    "lx_pos lx \<le> lx_pos lx'" "lx_pos lx' \<le> length (lx_src lx)"
  shows "terms_inv (maybe_insert_term (lx_pos lx) lx')"
proof (cases "lx_tokens lx \<noteq> [] \<and> ends_statement (last (lx_tokens lx))")
  case True
  have u: "u32_of (lx_pos lx) = lx_pos lx" using i by (simp add: terms_inv_def u32_of_def)
  have eq: "maybe_insert_term (lx_pos lx) lx' = lx'\<lparr>lx_tokens := lx_tokens lx @ [term_token (lx_file lx') (lx_pos lx)]\<rparr>"
    using True a(3) by (simp add: maybe_insert_term_eq ends_statement_def)
  have "term_rule (lx_src lx) (last (lx_tokens lx)) (term_token (lx_file lx') (lx_pos lx))"
    using True by (simp add: term_rule_def term_token_def)
  then show ?thesis
    using i a True unfolding eq terms_inv_def
    by (simp add: successively_append_iff) (simp add: term_token_def u)
next
  case False
  then have "maybe_insert_term (lx_pos lx) lx' = lx'" using a(3) by (auto simp: maybe_insert_term_eq ends_statement_def)
  then show ?thesis using i a False by (auto simp: terms_inv_def)
qed

lemma terms_push:
  assumes i: "terms_inv lx" and lt: "lx_pos lx < length (lx_src lx)" and p: "pushes (spelled_by (lx_morph lx)) (lx_pos lx) lx lx'"
  shows "terms_inv lx'"
proof -
  have b: "length (lx_src lx) < 2 ^ 32" "lx_pos lx \<le> length (lx_src lx)" using i by (simp_all add: terms_inv_def)
  obtain k where k: "lx_tokens lx' = lx_tokens lx @ [\<lparr>tk_kind = k, tk_span = \<lparr>ss_file = lx_file lx, ss_start = lx_pos lx, ss_end = lx_pos lx'\<rparr>\<rparr>]"
    "spelled_by (lx_morph lx) k (text_between (lx_src lx) (lx_pos lx) (lx_pos lx'))" "lx_src lx' = lx_src lx" "lx_morph lx' = lx_morph lx"
    "lx_pos lx \<le> lx_pos lx'" "lx_pos lx' \<le> length (lx_src lx)" using pushes_spans [OF p b] by metis
  let ?t = "\<lparr>tk_kind = k, tk_span = \<lparr>ss_file = lx_file lx, ss_start = lx_pos lx, ss_end = lx_pos lx'\<rparr>\<rparr>"
  have ni: "\<not> inserted_term ?t"
    using k(2) spelled_term_text [of "lx_morph lx" "[]"] i by (auto simp: inserted_term_def terms_inv_def)
  have "term_rule (lx_src lx) (last (lx_tokens lx)) ?t" if "lx_tokens lx \<noteq> []"
    using that i lt ni by (auto simp: term_rule_def terms_inv_def)
  then show ?thesis using i k ni by (cases "lx_tokens lx = []") (simp_all add: terms_inv_def successively_append_iff)
qed

lemma terms_skip:
  assumes i: "terms_inv lx" and a: "reads_on lx lx'"
    and n: "CHR 0x0A \<notin> set (text_from lx' (lx_pos lx)) \<or> lx_pos lx' = length (lx_src lx')"
  shows "terms_inv lx'"
proof -
  let ?e = "ss_end (tk_span (last (lx_tokens lx)))"
  have "CHR 0x0A \<notin> set (text_between (lx_src lx) ?e (lx_pos lx'))"
    if "lx_tokens lx \<noteq> []" "ends_statement (last (lx_tokens lx))" "lx_pos lx' < length (lx_src lx)"
    using that i a n text_between_split_set [of ?e "lx_pos lx" "lx_pos lx'" "lx_src lx"]
    by (auto simp: terms_inv_def reads_on_def text_from_def)
  then show ?thesis using i a by (auto simp: terms_inv_def reads_on_def)
qed

interpretation terms: lexer_invariant terms_inv
proof
  fix lx lx'
  assume i: "terms_inv lx"
  then have b: "lx_pos lx \<le> length (lx_src lx)" by (simp add: terms_inv_def)
  show "terms_inv lx'" if "reads_on lx lx'" "CHR 0x0A \<notin> set (text_from lx' (lx_pos lx)) \<or> lx_pos lx' = length (lx_src lx')"
    using terms_skip [OF i that] .
  show "terms_inv (maybe_insert_term (lx_pos lx) lx')" if "reads_on lx lx'"
    using that b by (intro terms_insert [OF i]) (simp_all add: reads_on_def)
  show "terms_inv lx'" if "lx_pos lx < length (lx_src lx)" "pushes (spelled_by (lx_morph lx)) (lx_pos lx) lx lx'"
    using terms_push [OF i that] .
qed



section \<open>Texts that render otherwise than they read\<close>

text \<open>The characters the two scans refuse, at the position they stand at.\<close>

definition deceptive :: "string \<Rightarrow> nat \<times> string \<Rightarrow> bool" where
  "deceptive src p \<longleftrightarrow>
     is_bidi_control (snd p) \<or> code_point (snd p) \<in> {0x0B, 0x0C, 0x85, 0x2028, 0x2029} \<or>
     snd p = [CHR 0x0D] \<and> \<not> (fst p + 1 < length src \<and> src ! (fst p + 1) = CHR 0x0A)"

text \<open>The table of the lexer and the predicate of the morphs name the same bidirectional controls.\<close>

lemma bidi_controls_agree: "map_of bidi_controls (code_point c) \<noteq> None \<longleftrightarrow> is_bidi_control c"
proof -
  have "map_of bidi_controls n \<noteq> None \<longleftrightarrow> n = 8206 \<or> n = 8207 \<or> 8234 \<le> n \<and> n \<le> 8238 \<or> 8294 \<le> n \<and> n \<le> 8297" for n
    by (auto simp: bidi_controls_def)
  then show ?thesis by (simp add: is_bidi_control_def Let_def)
qed

lemma set_map_filter: "y \<in> set (List.map_filter f xs) \<longleftrightarrow> (\<exists>x\<in>set xs. f x = Some y)"
  by (force simp: List.map_filter_def)

definition about :: "nat \<Rightarrow> nat \<times> string \<Rightarrow> lex_diag \<Rightarrow> bool" where
  "about file p d \<longleftrightarrow>
     problem_code (ld_problem d) \<in> {''DL0107'', ''DL0108''} \<and> ld_span d = src_span file (fst p) (fst p + length (snd p))"

lemma bidi_reported:
  assumes "p \<in> set (char_indices (lx_src lx))" "is_bidi_control (snd p)"
  shows "\<exists>d\<in>set (lx_diags (check_bidi_controls lx)). about (lx_file lx) p d"
proof -
  obtain off ch where p: "p = (off, ch)" by (cases p)
  obtain name where name: "map_of bidi_controls (code_point ch) = Some name"
    using assms(2) bidi_controls_agree [of ch] p by auto
  let ?d = "\<lparr>ld_problem = BidiInSource (code_point ch) name, ld_span = src_span (lx_file lx) off (off + length ch)\<rparr>"
  have "?d \<in> set (lx_diags (check_bidi_controls lx))"
    using assms(1) name p by (auto simp: check_bidi_controls_def set_map_filter intro!: bexI [of _ "(off, ch)"])
  then show ?thesis by (rule bexI [rotated]) (simp add: about_def p)
qed

lemma lookalike_listed: "n \<in> {0x0B, 0x0C, 0x85, 0x2028, 0x2029} \<Longrightarrow> \<exists>name. map_of line_break_lookalikes n = Some name"
  by (auto simp: line_break_lookalikes_def)

lemma line_break_reported:
  assumes "p \<in> set (char_indices (lx_src lx))" "deceptive (lx_src lx) p" "\<not> is_bidi_control (snd p)"
  shows "\<exists>d\<in>set (lx_diags (check_line_break_lookalikes lx)). about (lx_file lx) p d"
proof -
  have "\<exists>d. line_break_problem lx p = Some d \<and> about (lx_file lx) p d"
  proof (cases "snd p = [CHR 0x0D] \<and> \<not> (fst p + 1 < length (lx_src lx) \<and> lx_src lx ! (fst p + 1) = CHR 0x0A)")
    case True
    then have "line_break_problem lx p = Some \<lparr>ld_problem = LoneCr, ld_span = src_span (lx_file lx) (fst p) (fst p + 1)\<rparr>"
      unfolding line_break_problem_def Let_def by (rule if_P)
    then show ?thesis using True by (simp add: about_def)
  next
    case False
    then obtain name where name: "map_of line_break_lookalikes (code_point (snd p)) = Some name"
      using lookalike_listed [of "code_point (snd p)"] assms(2,3) unfolding deceptive_def by blast
    have "line_break_problem lx p = map_option (\<lambda>name. \<lparr>ld_problem = LineBreakLike (code_point (snd p)) name,
        ld_span = src_span (lx_file lx) (fst p) (fst p + length (snd p))\<rparr>) (map_of line_break_lookalikes (code_point (snd p)))"
      unfolding line_break_problem_def Let_def using False by (rule if_not_P)
    then show ?thesis by (simp add: name about_def)
  qed
  then show ?thesis using assms(1) by (auto simp: check_line_break_lookalikes_def set_map_filter)
qed

definition reports_kept :: "lex_diag set \<Rightarrow> lexer \<Rightarrow> bool" where
  "reports_kept ds lx \<longleftrightarrow> ds \<subseteq> set (lx_diags lx)"

interpretation kept: lexer_invariant "reports_kept ds" for ds
  by unfold_locales (auto simp: reports_kept_def reads_on_def pushes_def push_token_def maybe_insert_term_def split: option.splits)

text \<open>C27: No text that renders otherwise than it reads is passed over: each bidirectional control, each character shown as a
  line break that ends no line here and each lone carriage return, in a comment and a string as well, has an error of its own, with
  the span of that character. A text lexed without an error holds none of them.\<close>

theorem deceptive_text_refused:
  assumes "lex_with_morph u lb file src m = Some (tokens, diags)" "p \<in> set (char_indices src)" "deceptive src p"
  shows "\<exists>d\<in>set diags. about file p d"
proof -
  obtain lx where lx: "lex_loop u lb (start_lexer file src m) = Some lx" "diags = lx_diags lx" using lex_result [OF assms(1)] by metis
  let ?l0 = "(lexer_new file src)\<lparr>lx_morph := m\<rparr>" and ?l1 = "check_bidi_controls ((lexer_new file src)\<lparr>lx_morph := m\<rparr>)"
  have s: "lx_src ?l0 = src" "lx_file ?l0 = file" "lx_src ?l1 = src" "lx_file ?l1 = file"
    by (simp_all add: lexer_new_def check_bidi_controls_def)
  have sub: "set (lx_diags ?l1) \<subseteq> set (lx_diags (start_lexer file src m))"
    by (auto simp: start_lexer_def check_line_break_lookalikes_def)
  have "\<exists>d\<in>set (lx_diags (start_lexer file src m)). about file p d"
    using bidi_reported [of p ?l0] line_break_reported [of p ?l1] assms(2,3) s sub by (fastforce simp: start_lexer_def)
  moreover have "set (lx_diags (start_lexer file src m)) \<subseteq> set (lx_diags lx)"
    using kept.lex_loop_inv [OF lx(1)] by (force simp: reports_kept_def)
  ultimately show ?thesis using lx(2) by auto
qed

definition override :: string where "override = [CHR 0xE2, CHR 0x80, CHR 0xAE]"

theorem deceptive_text_refused_witness:
  "\<exists>d\<in>set [\<lparr>ld_problem = BidiInSource 0x202E ''RIGHT-TO-LEFT OVERRIDE'', ld_span = src_span 0 2 5\<rparr>]. about 0 (2, override) d"
proof (rule deceptive_text_refused)
  show "lex_with_morph no_unicode plain_libs 0 (''//'' @ override) None =
    Some ([eof_token 0 5], [\<lparr>ld_problem = BidiInSource 0x202E ''RIGHT-TO-LEFT OVERRIDE'', ld_span = src_span 0 2 5\<rparr>])" by code_simp
  show "(2, override) \<in> set (char_indices (''//'' @ override))" by code_simp
  show "deceptive (''//'' @ override) (2, override)" by code_simp
qed

end
