(* ===== verification/Morph.thy ===== *)
theory Morph imports Lexer_Claims begin

text \<open>
  Rendering into a morph and back, \<open>crates/delulu-syntax/src/morph.rs\<close>: \<open>render\<close>, \<open>alias_collisions\<close>,
  \<open>to_canonical\<close>, \<open>splice\<close> and the pragma that names a file's morph. The outer option is the lexer's: it is
  never \<open>None\<close> for a morph that was accepted.
\<close>

section \<open>Splicing\<close>

type_synonym edit = "nat \<times> nat \<times> string"

fun splice_from :: "string \<Rightarrow> nat \<Rightarrow> edit list \<Rightarrow> string" where
  "splice_from src cursor [] = drop cursor src"
| "splice_from src cursor ((a, b, t) # edits) =
     (if a < cursor then splice_from src cursor edits
      else text_between src cursor a @ t @ splice_from src b edits)"

definition splice :: "string \<Rightarrow> edit list \<Rightarrow> string" where
  "splice src edits = splice_from src 0 edits"

section \<open>Into a morph\<close>

text \<open>The places where a text uses an alias as something else than a keyword: the text, the keyword it would become, the span.\<close>

type_synonym collision = "string \<times> string \<times> src_span"

definition renamed_keyword :: "morph \<Rightarrow> string \<Rightarrow> string" where
  "renamed_keyword m alias =
     (case find (\<lambda>(_, a). a = alias) (mo_canon_to_alias m) of Some (c, _) \<Rightarrow> c | None \<Rightarrow> ''a keyword'')"

fun collisions_from :: "morph \<Rightarrow> string \<Rightarrow> string list \<Rightarrow> token list \<Rightarrow> collision list" where
  "collisions_from m src seen [] = []"
| "collisions_from m src seen (t # ts) =
     (if keyword_lexeme (tk_kind t) \<noteq> None then collisions_from m src seen ts
      else let s = token_text src t
           in case find (\<lambda>(a, _). a = s) (mo_alias_to_kind m) of
                None \<Rightarrow> collisions_from m src seen ts
              | Some (alias, _) \<Rightarrow>
                  if s \<in> set seen then collisions_from m src seen ts
                  else (s, renamed_keyword m alias, tk_span t) # collisions_from m src (s # seen) ts)"

definition alias_collisions :: "morph \<Rightarrow> string \<Rightarrow> token list \<Rightarrow> collision list" where
  "alias_collisions m src tokens = collisions_from m src [] tokens"

datatype render_error = LexErrors "lex_diag list" | AliasAsName "collision list"

definition render_edit :: "morph \<Rightarrow> token \<Rightarrow> edit option" where
  "render_edit m t =
     (case keyword_lexeme (tk_kind t) of
        None \<Rightarrow> None
      | Some canon \<Rightarrow> map_option (\<lambda>alias. (ss_start (tk_span t), ss_end (tk_span t), alias)) (map_of (mo_canon_to_alias m) canon))"

definition render_edits :: "morph \<Rightarrow> token list \<Rightarrow> edit list" where
  "render_edits m tokens = List.map_filter (render_edit m) tokens"

definition render :: "unicode \<Rightarrow> libs \<Rightarrow> morph \<Rightarrow> nat \<Rightarrow> string \<Rightarrow> (render_error + string) option" where
  "render u lb m file src =
     map_option (\<lambda>(tokens, diags).
         if diags \<noteq> [] then Inl (LexErrors diags)
         else let collisions = alias_collisions m src tokens
              in if collisions \<noteq> [] then Inl (AliasAsName collisions)
                 else Inr (splice src (render_edits m tokens)))
       (lex u lb file src)"

section \<open>Back to canonical\<close>

definition canonical_edit :: "string \<Rightarrow> token \<Rightarrow> edit option" where
  "canonical_edit src t =
     (case keyword_lexeme (tk_kind t) of
        None \<Rightarrow> None
      | Some canon \<Rightarrow>
          if token_text src t \<noteq> canon then Some (ss_start (tk_span t), ss_end (tk_span t), canon) else None)"

definition morph_to_canonical :: "unicode \<Rightarrow> libs \<Rightarrow> morph \<Rightarrow> nat \<Rightarrow> string \<Rightarrow> (render_error + string) option" where
  "morph_to_canonical u lb m file src =
     map_option (\<lambda>(tokens, diags).
         if diags \<noteq> [] then Inl (LexErrors diags)
         else Inr (splice src (List.map_filter (canonical_edit src) tokens)))
       (lex_with_morph u lb file src (Some m))"

section \<open>The pragma\<close>

definition trim_chars :: "string \<Rightarrow> string" where
  "trim_chars s = concat (rev (dropWhile char_whitespace (rev (dropWhile char_whitespace (str_chars s)))))"

definition first_line :: "string \<Rightarrow> string option" where
  "first_line s =
     (if s = [] then None
      else let l = takeWhile (\<lambda>b. b \<noteq> CHR 0x0A) s
           in Some (if length l < length s \<and> l \<noteq> [] \<and> last l = CHR 0x0D then butlast l else l))"

definition pragma_of :: "string \<Rightarrow> string option" where
  "pragma_of src =
     (case first_line (case strip_prefix byte_order_mark src of Some s \<Rightarrow> s | None \<Rightarrow> src) of
        None \<Rightarrow> None
      | Some l \<Rightarrow>
     (case strip_prefix ''//!'' (trim_chars l) of
        None \<Rightarrow> None
      | Some r \<Rightarrow>
     (case strip_prefix ''morph:'' (trim_chars r) of
        None \<Rightarrow> None
      | Some i \<Rightarrow> if trim_chars i = [] then None else Some (trim_chars i))))"

definition pragma_span :: "nat \<Rightarrow> string \<Rightarrow> src_span" where
  "pragma_span file src = src_span file 0 (case find_char (CHR 0x0A) src of Some n \<Rightarrow> n | None \<Rightarrow> length src)"

section \<open>A morph that was accepted\<close>

lemma morphable_keyword: "c \<in> set morphable_keywords \<longleftrightarrow> keyword c \<noteq> None"
proof -
  have "set morphable_keywords = fst ` set keyword_table" by (simp add: morphable_keywords_def keyword_table_def insert_commute)
  then show ?thesis by (simp add: keyword_def map_of_eq_None_iff)
qed

lemma bt_insert_new: "k \<notin> fst ` set m \<Longrightarrow> set (bt_insert k v m) = insert (k, v) (set m) \<and> (distinct (map fst m) \<longrightarrow> distinct (map fst (bt_insert k v m)))
    \<and> (distinct (map snd m) \<and> v \<notin> snd ` set m \<longrightarrow> distinct (map snd (bt_insert k v m)))"
  by (induction k v m rule: bt_insert.induct) auto

definition build_ok :: "morph_build \<Rightarrow> bool" where
  "build_ok b \<longleftrightarrow>
     (case b of (_, renamed, claimed) \<Rightarrow>
        distinct (map fst renamed) \<and> distinct (map snd renamed) \<and> snd ` set renamed \<subseteq> fst ` set claimed \<and>
        (\<forall>p\<in>set renamed. entry_ok p))"

lemma set_bt_insert_keys: "fst ` set (bt_insert k v m) = insert k (fst ` set m)"
  by (induction k v m rule: bt_insert.induct) auto

lemma add_entry_build_ok: "build_ok b \<Longrightarrow> build_ok (add_entry b e)"
proof -
  assume b: "build_ok b"
  obtain errors renamed claimed where bb: "b = (errors, renamed, claimed)" by (cases b) auto
  obtain canon al where e: "e = (canon, al)" by (cases e)
  show ?thesis
  proof (cases "canon \<in> set morphable_keywords \<and> map_of renamed canon = None \<and> alias_defect al = None \<and>
      (al = canon \<or> al \<notin> set morphable_keywords) \<and> map_of claimed al = None")
    case True
    have "al \<notin> snd ` set renamed" "canon \<notin> fst ` set renamed"
      using True b by (auto simp: bb build_ok_def map_of_eq_None_iff)
    then show ?thesis
      using b True bt_insert_new [of canon renamed al] set_bt_insert_keys [of al canon claimed]
      by (auto simp: build_ok_def add_entry_def bb e entry_ok_def)
  next
    case False
    then show ?thesis using b by (auto simp: build_ok_def add_entry_def bb e split: option.split)
  qed
qed

lemma foldl_build_ok: "build_ok b \<Longrightarrow> build_ok (foldl add_entry b es)"
  by (induction es arbitrary: b) (auto simp: add_entry_build_ok)

lemma scan_order_sorted: "sorted_wrt (\<lambda>p q. length (fst q) \<le> length (fst p)) (scan_order xs)"
proof -
  have "sorted (map (\<lambda>(a, k). - int (length a)) (scan_order xs))" by (simp add: scan_order_def)
  then show ?thesis by (simp add: sorted_map case_prod_beta)
qed

end
