(* ===== verification/Lexer_Literals.thy ===== *)
theory Lexer_Literals imports Lexer_Claims begin

text \<open>
  Literals read back: a whole number written in decimal, and a string as the formatter writes it
  (\<open>crates/delulu-syntax/src/fmt.rs\<close>, \<open>escape_str\<close>).
\<close>

section \<open>Writing a string literal\<close>

definition show_hex :: "nat \<Rightarrow> string" where
  "show_hex n = rev (show_hex_rev n)"

definition escape_piece :: "string \<Rightarrow> string" where
  "escape_piece c =
     (if c = [CHR 0x22] then [CHR 0x5C, CHR 0x22]
      else if c = [CHR 0x5C] then [CHR 0x5C, CHR 0x5C]
      else if c = [CHR 0x0A] then [CHR 0x5C, CHR ''n'']
      else if c = [CHR 0x09] then [CHR 0x5C, CHR ''t'']
      else if c = [CHR 0x0D] then [CHR 0x5C, CHR ''r'']
      else if c = [CHR 0x00] then [CHR 0x5C, CHR ''0'']
      else if code_point c < 32 then [CHR 0x5C, CHR ''u'', CHR ''{''] @ show_hex (code_point c) @ [CHR ''}'']
      else c)"

definition escape_str :: "string \<Rightarrow> string" where
  "escape_str s = [CHR 0x22] @ concat (map escape_piece (str_chars s)) @ [CHR 0x22]"

section \<open>Texts character by character\<close>

definition proper_char :: "string \<Rightarrow> bool" where
  "proper_char c \<longleftrightarrow> c \<noteq> [] \<and> length c = Suc (extra_bytes (hd c)) \<and> list_all is_continuation (tl c)"

lemma first_char_proper: "proper_char c \<Longrightarrow> first_char (c @ r) = c"
proof (cases c)
  case (Cons b t)
  assume "proper_char c"
  then have t: "extra_bytes b = length t" "takeWhile is_continuation t = t"
    using Cons by (auto simp: proper_char_def list_all_iff takeWhile_eq_all_conv)
  then show ?thesis using Cons by simp
qed (simp add: proper_char_def)

lemma proper_ascii [simp]: "(of_char b :: nat) < 192 \<Longrightarrow> proper_char [b]"
  by (simp add: proper_char_def extra_bytes_def Let_def)

lemma char_indices_proper: "list_all proper_char cs \<Longrightarrow> map snd (char_indices_from n (concat cs)) = cs"
proof (induction cs arbitrary: n)
  case (Cons c cs)
  then have c: "first_char (c @ concat cs) = c" "c \<noteq> []" by (simp_all add: first_char_proper, simp add: proper_char_def)
  then obtain b t where bt: "c = b # t" by (cases c) auto
  have "char_indices_from n (c @ concat cs) = (n, c) # char_indices_from (n + length c) (concat cs)"
    using c unfolding bt append_Cons by (subst char_indices_from.simps) (simp only: Let_def, simp)
  then show ?case using Cons by simp
qed simp

lemma str_chars_proper: "list_all proper_char cs \<Longrightarrow> str_chars (concat cs) = cs"
  by (simp add: str_chars_def char_indices_def char_indices_proper)

lemma concat_chars_from: "concat (map snd (char_indices_from n s)) = s"
proof (induction n s rule: char_indices_from.induct)
  case (2 n b bs)
  have "first_char (b # bs) @ drop (length (first_char (b # bs))) (b # bs) = b # bs"
    by (metis append_take_drop_id first_char_prefix)
  then show ?case using 2 by (subst char_indices_from.simps) (simp add: Let_def del: first_char.simps)
qed simp

lemma concat_str_chars: "concat (str_chars s) = s"
  by (simp add: str_chars_def char_indices_def concat_chars_from)

definition clean_char :: "string \<Rightarrow> bool" where
  "clean_char c \<longleftrightarrow> \<not> is_bidi_control c \<and> code_point c \<notin> {0x0B, 0x0C, 0x85, 0x2028, 0x2029} \<and> c \<noteq> [CHR 0x0D]"

text \<open>A text of clean characters that does not start with a byte order mark starts the lexer as it is.\<close>

lemma start_lexer_clean:
  assumes "\<forall>c\<in>set (str_chars src). clean_char c" "\<not> starts_with byte_order_mark src"
  shows "start_lexer file src None = \<lparr>lx_file = file, lx_src = src, lx_pos = 0, lx_tokens = [], lx_diags = [], lx_comments = [], lx_morph = None\<rparr>"
proof -
  have p: "map_of bidi_controls (code_point (snd p)) = None" "line_break_problem lx p = None"
    if "p \<in> set (char_indices src)" for p lx
  proof -
    have c: "clean_char (snd p)" using that assms(1) by (simp add: str_chars_def)
    then show "map_of bidi_controls (code_point (snd p)) = None" using bidi_controls_agree [of "snd p"] by (simp add: clean_char_def)
    have "map_of line_break_lookalikes (code_point (snd p)) = None" using c by (simp add: clean_char_def line_break_lookalikes_def)
    then show "line_break_problem lx p = None" using c by (simp add: line_break_problem_def Let_def clean_char_def)
  qed
  have e: "List.map_filter f (char_indices src) = []" if "\<And>p. p \<in> set (char_indices src) \<Longrightarrow> f p = None" for f :: "nat \<times> string \<Rightarrow> lex_diag option"
    using that by (simp add: List.map_filter_def filter_empty_conv)
  show ?thesis
    using assms(2) p by (simp add: start_lexer_def check_line_break_lookalikes_def check_bidi_controls_def lexer_new_def e case_prod_beta)
qed

section \<open>The cursor on a known text\<close>

definition at_text :: "lexer \<Rightarrow> string \<Rightarrow> bool" where
  "at_text lx r \<longleftrightarrow> drop (lx_pos lx) (lx_src lx) = r"

lemma at_text_char:
  assumes "at_text lx (c @ r)" "proper_char c"
  shows "peek lx = Some c" "bump lx = lx\<lparr>lx_pos := lx_pos lx + length c\<rparr>" "at_text (bump lx) r"
proof -
  have ne: "c \<noteq> []" using assms(2) by (simp add: proper_char_def)
  then have "lx_pos lx < length (lx_src lx)" using assms(1) by (metis append_is_Nil_conv at_text_def drop_eq_Nil not_le)
  then show p: "peek lx = Some c"
    using assms by (simp add: peek_def char_opt_def char_at_def at_text_def first_char_proper)
  then show b: "bump lx = lx\<lparr>lx_pos := lx_pos lx + length c\<rparr>" by (simp add: bump_def)
  show "at_text (bump lx) r" unfolding b using assms(1)
    by (simp add: at_text_def) (metis add.commute append_eq_conv_conj drop_drop)
qed

lemma at_text_end: "at_text lx [] \<Longrightarrow> peek lx = None"
  by (simp add: at_text_def peek_def char_opt_def)

lemma scan_while_ascii:
  "drop n s = xs @ r \<Longrightarrow> \<forall>b\<in>set xs. (of_char b :: nat) < 192 \<and> p [b] \<Longrightarrow> r = [] \<or> \<not> p (first_char r) \<Longrightarrow>
     scan_while p s n = n + length xs"
proof (induction xs arbitrary: n)
  case Nil
  then show ?case by (subst scan_while.simps) (auto simp: char_at_def)
next
  case (Cons b xs)
  have lt: "n < length s" using Cons.prems(1) by (metis append_Cons drop_eq_Nil list.distinct(1) not_le)
  have c: "char_at s n = [b]" using Cons.prems(1,2) first_char_proper [of "[b]" "xs @ r"] by (simp add: char_at_def)
  have "drop (n + 1) s = xs @ r" using Cons.prems(1) by (metis add.commute append_Cons drop_drop drop0 drop_Suc_Cons plus_1_eq_Suc)
  then have "scan_while p s (n + 1) = n + 1 + length xs" using Cons by simp
  then show ?case using lt c Cons.prems(2) by (simp add: scan_while_step)
qed

section \<open>A whole number\<close>

lemma show_nat_digits: "list_all is_ascii_digit (show_nat n)"
  by (simp add: list_all_iff set_show_nat)

lemma parse_i64_show_nat: "parse_i64 (show_nat n) = (if int n \<le> i64_max then Some (int n) else None)"
proof -
  obtain c cs where s: "show_nat n = c # cs" by (cases "show_nat n") auto
  then have "is_ascii_digit c" using set_show_nat [of c n] by simp
  then have c: "c \<noteq> CHR ''-''" "c \<noteq> CHR ''+''" by (auto simp: is_ascii_digit_def)
  have "read_digits_rev (rev (c # cs)) = Some n" using s by (metis show_nat_def rev_rev_ident read_show_nat_rev)
  then show ?thesis using c by (simp add: s parse_i64_def Let_def i64_min_def)
qed

lemma scan_char_digit: "is_ascii_digit b \<Longrightarrow> scan_char u lb a [b] lx = scan_number lb a lx"
proof -
  assume d: "is_ascii_digit b"
  have "list_all (\<lambda>x. \<not> is_ascii_digit x) (CHR 0x22 # ''(){}[],:;@?.+*%/-=!<>&|'')" by code_simp
  then have "b \<notin> set (CHR 0x22 # ''(){}[],:;@?.+*%/-=!<>&|'')" using d by (auto simp: list_all_iff)
  moreover have "char_digit [b]" using d by (auto simp: char_digit_def ascii_of_def is_ascii_digit_def)
  ultimately show ?thesis by (simp add: scan_char_def single_tokens_def)
qed

lemma digit_facts:
  assumes "is_ascii_digit b"
  shows "(of_char b :: nat) < 192" "digit_or_underscore [b]" "\<not> char_whitespace [b]" "[b] \<noteq> line_feed" "[b] \<noteq> ''/''" "clean_char [b]" "b \<noteq> CHR ''_''" "b \<noteq> CHR ''x''" "b \<noteq> CHR ''X''"
  using assms
  by (auto simp: is_ascii_digit_def digit_or_underscore_def char_digit_def ascii_of_def char_whitespace_def line_feed_def Let_def clean_char_def is_bidi_control_def)

lemma prefix_in: "prefix (x # xs) s \<Longrightarrow> {x} \<union> set xs \<subseteq> set s"
  by (auto simp: prefix_def)

text \<open>A text that is one token: the main loop reads it, and the file ends.\<close>

definition one_token :: "nat \<Rightarrow> nat \<Rightarrow> token_kind \<Rightarrow> token list" where
  "one_token file n k = [\<lparr>tk_kind = k, tk_span = src_span file 0 n\<rparr>, term_token file n, eof_token file n]"

lemma lex_one_token:
  assumes "\<forall>c\<in>set (str_chars src). clean_char c" "\<not> starts_with byte_order_mark src"
    "peek lx = Some c" "c \<noteq> line_feed" "\<not> char_whitespace c" "c \<noteq> ''/''"
    "lx = \<lparr>lx_file = file, lx_src = src, lx_pos = 0, lx_tokens = [], lx_diags = [], lx_comments = [], lx_morph = None\<rparr>"
    "scan_char u lb 0 c (bump lx) = lx\<lparr>lx_pos := length src, lx_diags := ds, lx_tokens := [\<lparr>tk_kind = k, tk_span = src_span file 0 (length src)\<rparr>]\<rparr>"
    "can_end_statement k"
  shows "lex u lb file src = Some (one_token file (length src) k, ds)"
proof -
  have t: "skip_trivia lx = lx" using assms(3-6) by (subst skip_trivia.simps) simp
  have lt: "lx_pos lx < length (lx_src lx)" using peek_Some [OF assms(3)] by simp
  let ?e = "lx\<lparr>lx_pos := length src, lx_diags := ds, lx_tokens := [\<lparr>tk_kind = k, tk_span = src_span file 0 (length src)\<rparr>]\<rparr>"
  have "scan_token u lb lx = ?e" using assms(3,7,8) by (simp add: scan_token_def try_morph_alias_def)
  moreover have "lex_loop u lb ?e = Some ?e" using assms(7) by (subst lex_loop.simps) simp
  ultimately have l: "lex_loop u lb lx = Some ?e" using lt t by (subst lex_loop.simps) (simp add: Let_def not_le)
  have s: "check_line_break_lookalikes (check_bidi_controls (lexer_new file src)) = lx"
    using start_lexer_clean [OF assms(1,2), of "file"] assms(7) by (simp add: start_lexer_def lexer_new_def)
  show ?thesis
    using l assms(7,9)
    by (simp add: lex_def lexer_run_def s lex_finish_def Let_def maybe_insert_term_eq one_token_def term_token_def eof_token_def)
qed

text \<open>C30: A whole number written in decimal is read as its value, up to the largest i64; a larger one is refused with
  DL0104 over the whole literal, and never read as another number than zero.\<close>

theorem decimal_literal_read:
  "lex u lb file (show_nat n) =
     Some (one_token file (length (show_nat n)) (TkInt (if int n \<le> i64_max then int n else 0)),
           if int n \<le> i64_max then [] else [\<lparr>ld_problem = IntOverflow, ld_span = src_span file 0 (length (show_nat n))\<rparr>])"
proof -
  let ?s = "show_nat n"
  obtain b bs where s: "?s = b # bs" by (cases ?s) auto
  have dig: "\<forall>x\<in>set ?s. is_ascii_digit x" using show_nat_digits [of n] by (simp add: list_all_iff)
  have b: "is_ascii_digit b" using dig s by simp
  let ?lx = "\<lparr>lx_file = file, lx_src = ?s, lx_pos = 0, lx_tokens = [], lx_diags = [], lx_comments = [], lx_morph = None\<rparr>"
  have "concat (map (\<lambda>x. [x]) ?s) = ?s" by simp
  then have chars: "str_chars ?s = map (\<lambda>x. [x]) ?s"
    using str_chars_proper [of "map (\<lambda>x. [x]) ?s"] dig digit_facts(1) by (simp add: list_all_iff)
  have at0: "at_text ?lx ([b] @ bs)" by (simp add: at_text_def s)
  note c = at_text_char [OF at0 proper_ascii [OF digit_facts(1) [OF b]]]
  have sc: "scan_while digit_or_underscore ?s 1 = length ?s"
    using scan_while_ascii [of 1 ?s bs "[]" digit_or_underscore] dig digit_facts(1,2) s by simp
  have x: "\<not> starts_with ''0x'' ?s" "\<not> starts_with ''0X'' ?s" "\<not> starts_with byte_order_mark ?s"
    using dig prefix_in [of "CHR ''0''" "''x''" ?s] prefix_in [of "CHR ''0''" "''X''" ?s] prefix_in [of "CHR 0xEF" "[CHR 0xBB, CHR 0xBF]" ?s]
    by (auto simp: starts_with_def byte_order_mark_def is_ascii_digit_def)
  have u: "without_underscores ?s = ?s" using dig digit_facts(7) by (auto simp: without_underscores_def filter_id_conv)
  let ?e = "?lx\<lparr>lx_pos := length ?s\<rparr>"
  have e: "eat_while digit_or_underscore (bump ?lx) = ?e" using c(2) sc by (simp add: eat_while_def)
  have "\<not> starts_fraction ?e" by (simp add: starts_fraction_def peek_def char_opt_def)
  then have "scan_number lb 0 (bump ?lx) = push_int ?s 0 ?e"
    using x u e by (simp add: scan_number_def Let_def text_from_def text_between_def c(2))
  then have sn: "scan_char u lb 0 [b] (bump ?lx) = push_int ?s 0 ?e" by (simp add: scan_char_digit [OF b])
  have cl: "\<forall>c\<in>set (str_chars ?s). clean_char c" using dig digit_facts(6) by (auto simp: chars)
  note one = lex_one_token [OF cl x(3) c(1) digit_facts(4) [OF b] digit_facts(3) [OF b] digit_facts(5) [OF b] refl]
  show ?thesis
  proof (cases "int n \<le> i64_max")
    case True
    have "scan_char u lb 0 [b] (bump ?lx) = ?lx\<lparr>lx_pos := length ?s, lx_diags := [],
        lx_tokens := [\<lparr>tk_kind = TkInt (int n), tk_span = src_span file 0 (length ?s)\<rparr>]\<rparr>"
      unfolding sn push_int_def parse_i64_show_nat by (simp add: True push_token_def span_from_def)
    from one [OF this] True show ?thesis by (simp add: can_end_statement_def)
  next
    case False
    have "scan_char u lb 0 [b] (bump ?lx) = ?lx\<lparr>lx_pos := length ?s,
        lx_diags := [\<lparr>ld_problem = IntOverflow, ld_span = src_span file 0 (length ?s)\<rparr>],
        lx_tokens := [\<lparr>tk_kind = TkInt 0, tk_span = src_span file 0 (length ?s)\<rparr>]\<rparr>"
      unfolding sn push_int_def parse_i64_show_nat by (simp add: False push_token_def report_def span_from_def)
    from one [OF this] False show ?thesis by (simp add: can_end_statement_def)
  qed
qed

text \<open>
  A string literal as the formatter writes it (\<open>fmt.rs\<close>, \<open>escape_str\<close>) is read back as the string it was
  written for; and the strings for which the formatter writes a text the lexer refuses.
\<close>

section \<open>Characters that encode a code point\<close>

text \<open>What a Rust \<open>char\<close> is: the encoding of its own code point.\<close>

definition valid_char :: "string \<Rightarrow> bool" where
  "valid_char c \<longleftrightarrow> char_from_u32 (code_point c) = Some c"

definition valid_str :: "string \<Rightarrow> bool" where
  "valid_str s \<longleftrightarrow> list_all valid_char (str_chars s)"

lemma of_char_of_small [simp]: "n < 256 \<Longrightarrow> (of_char (char_of n :: char) :: nat) = n" by simp

lemma proper_encode_char: "n < 1114112 \<Longrightarrow> proper_char (encode_char n)"
proof -
  assume n: "n < 1114112"
  have cont: "is_continuation (char_of (128 + k mod 64))" for k :: nat
  proof -
    have "k mod 64 < 64" by simp
    then have "128 + k mod 64 < 256" by linarith
    then have "(of_char (char_of (128 + k mod 64) :: char) :: nat) = 128 + k mod 64" by (rule of_char_of_small)
    then show ?thesis using \<open>k mod 64 < 64\<close> by (simp add: is_continuation_def)
  qed
  have lead: "extra_bytes (char_of k) = (if k < 192 then 0 else if k < 224 then 1 else if k < 240 then 2 else 3)" if "k < 256" for k :: nat
    using that by (simp add: extra_bytes_def Let_def)
  consider "n < 128" | "128 \<le> n" "n < 2048" | "2048 \<le> n" "n < 65536" | "65536 \<le> n" by linarith
  then show ?thesis
  proof cases
    case 1
    then show ?thesis by (simp add: encode_char_def)
  next
    case 2
    then have "192 + n div 64 < 224" by linarith
    then show ?thesis using 2 cont [of n] lead [of "192 + n div 64"] by (simp add: encode_char_def proper_char_def)
  next
    case 3
    then have "224 + n div 4096 < 240" by linarith
    then show ?thesis using 3 cont [of n] cont [of "n div 64"] lead [of "224 + n div 4096"] by (simp add: encode_char_def proper_char_def)
  next
    case 4
    have "240 + n div 262144 < 256" using n by linarith
    then show ?thesis
      using 4 cont [of n] cont [of "n div 64"] cont [of "n div 4096"] lead [of "240 + n div 262144"] by (simp add: encode_char_def proper_char_def)
  qed
qed

lemma valid_proper: "valid_char c \<Longrightarrow> proper_char c"
  using proper_encode_char [of "code_point c"] by (auto simp: valid_char_def char_from_u32_def split: if_splits)

lemma valid_small: "valid_char c \<Longrightarrow> code_point c < 32 \<Longrightarrow> \<exists>n<(32::nat). c = [char_of n]"
  by (auto simp: valid_char_def char_from_u32_def encode_char_def)

section \<open>The pieces\<close>

definition plain_piece :: "string \<Rightarrow> bool" where
  "plain_piece c \<longleftrightarrow> c \<noteq> [CHR 0x22] \<and> c \<noteq> [CHR 0x5C] \<and> 32 \<le> code_point c"

lemma plain_escape: "plain_piece c \<Longrightarrow> escape_piece c = c"
  by (auto simp: plain_piece_def escape_piece_def)

definition hex_escape :: "nat \<Rightarrow> string" where
  "hex_escape n = [CHR 0x5C, CHR ''u'', CHR ''{''] @ show_hex n @ [CHR ''}'']"

definition short_escapes :: "(char \<times> char) list" where
  "short_escapes = [(CHR 0x22, CHR 0x22), (CHR 0x5C, CHR 0x5C), (CHR 0x0A, CHR ''n''), (CHR 0x09, CHR ''t''), (CHR 0x0D, CHR ''r''), (CHR 0x00, CHR ''0'')]"

lemma piece_cases:
  assumes "valid_char c"
  obtains (plain) "plain_piece c" "escape_piece c = c"
    | (short) b e where "(b, e) \<in> set short_escapes" "c = [b]" "escape_piece c = [CHR 0x5C, e]"
    | (hex) n where "n < 32" "c = [char_of n]" "escape_piece c = hex_escape n"
proof -
  consider "plain_piece c" | "c \<in> {[CHR 0x22], [CHR 0x5C], [CHR 0x0A], [CHR 0x09], [CHR 0x0D], [CHR 0x00]}"
    | "code_point c < 32" "c \<notin> {[CHR 0x22], [CHR 0x5C], [CHR 0x0A], [CHR 0x09], [CHR 0x0D], [CHR 0x00]}"
    by (cases "32 \<le> code_point c") (auto simp: plain_piece_def)
  then show thesis
  proof cases
    case 1
    then show thesis using plain plain_escape by blast
  next
    case 2
    then show thesis by (elim insertE emptyE; intro short) (auto simp: short_escapes_def escape_piece_def)
  next
    case 3
    obtain n :: nat where n: "n < 32" "c = [char_of n]" using valid_small [OF assms 3(1)] by blast
    then have "escape_piece c = hex_escape n" using 3 by (simp add: escape_piece_def hex_escape_def)
    then show thesis using n hex by blast
  qed
qed

lemma hex_escapes_small:
  "n < 32 \<Longrightarrow> hex_value (show_hex n) = n \<and> show_hex n \<noteq> [] \<and> length (show_hex n) \<le> 6 \<and> list_all (\<lambda>b. char_hexdigit [b] \<and> (of_char b :: nat) < 128) (show_hex n)"
proof -
  have "list_all (\<lambda>n. hex_value (show_hex n) = n \<and> show_hex n \<noteq> [] \<and> length (show_hex n) \<le> 6 \<and>
      list_all (\<lambda>b. char_hexdigit [b] \<and> (of_char b :: nat) < 128) (show_hex n)) [0..<32]" by code_simp
  then show "n < 32 \<Longrightarrow> ?thesis" unfolding list_all_iff by simp
qed

section \<open>Reading a piece\<close>

lemma plain_read:
  assumes "at_text lx (c @ r)" "proper_char c" "plain_piece c"
  shows "string_loop start val lx = string_loop start (val @ c) (bump lx)"
proof -
  have "c \<noteq> line_feed" using assms(3) by (auto simp: plain_piece_def line_feed_def)
  then show ?thesis
    using at_text_char(1) [OF assms(1,2)] assms(3) by (subst string_loop.simps) (simp add: plain_piece_def)
qed

lemma backslash_read:
  assumes "at_text lx (CHR 0x5C # r)"
  shows "string_loop start val lx =
    (let p = escape_char val (lx_pos lx) (bump lx) in string_loop start (fst p) (snd p))"
proof -
  have "peek lx = Some [CHR 0x5C]" using assms at_text_char(1) [of lx "[CHR 0x5C]" r] by simp
  then show ?thesis by (subst string_loop.simps) (simp add: line_feed_def)
qed

lemma short_read:
  assumes "(b, e) \<in> set short_escapes" "at_text lx (CHR 0x5C # e # r)"
  shows "string_loop start val lx = string_loop start (val @ [b]) (bump (bump lx))"
proof -
  have p: "(of_char e :: nat) < 192" using assms(1) by (auto simp: short_escapes_def)
  have a: "at_text (bump lx) ([e] @ r)" using at_text_char(3) [of lx "[CHR 0x5C]" "e # r"] assms(2) by simp
  have "peek (bump lx) = Some [e]" using at_text_char(1) [OF a] p by simp
  then have "escape_char val (lx_pos lx) (bump lx) = (val @ [b], bump (bump lx))"
    using assms(1) by (auto simp: short_escapes_def escape_char_def)
  then show ?thesis using backslash_read [OF assms(2)] by simp
qed

lemma at_text_eat:
  assumes "at_text lx (xs @ r)" "\<forall>b\<in>set xs. (of_char b :: nat) < 192 \<and> p [b]" "r = [] \<or> \<not> p (first_char r)"
  shows "eat_while p lx = lx\<lparr>lx_pos := lx_pos lx + length xs\<rparr>" "at_text (eat_while p lx) r"
proof -
  show e: "eat_while p lx = lx\<lparr>lx_pos := lx_pos lx + length xs\<rparr>"
    using scan_while_ascii [of "lx_pos lx" "lx_src lx" xs r p] assms by (simp add: eat_while_def at_text_def)
  show "at_text (eat_while p lx) r"
    unfolding e using assms(1) by (simp add: at_text_def) (metis add.commute append_eq_conv_conj drop_drop)
qed

lemma hex_read:
  assumes n: "n < 32" and a: "at_text lx (hex_escape n @ r)"
  shows "\<exists>lx'. string_loop start val lx = string_loop start (val @ [char_of n]) lx' \<and> lx' = lx\<lparr>lx_pos := lx_pos lx + length (hex_escape n)\<rparr>"
proof -
  let ?h = "show_hex n" and ?l1 = "bump lx" and ?l2 = "bump (bump lx)" and ?l3 = "bump (bump (bump lx))"
  have a0: "at_text lx ([CHR 0x5C] @ CHR ''u'' # CHR ''{'' # ?h @ CHR ''}'' # r)" using a by (simp add: hex_escape_def)
  have a1: "at_text ?l1 (''u'' @ CHR ''{'' # ?h @ CHR ''}'' # r)" using at_text_char(3) [OF a0] by simp
  have a2: "at_text ?l2 (''{'' @ ?h @ CHR ''}'' # r)" using at_text_char(3) [OF a1] by simp
  have a3: "at_text ?l3 (?h @ CHR ''}'' # r)" using at_text_char(3) [OF a2] by simp
  note h = hex_escapes_small [OF n]
  have dig: "\<forall>b\<in>set ?h. (of_char b :: nat) < 192 \<and> char_hexdigit [b]" using h by (auto simp: list_all_iff)
  have close: "\<not> char_hexdigit (first_char (CHR ''}'' # r))"
    using first_char_ascii [of "CHR ''}''" r] by (simp add: char_hexdigit_def ascii_of_def hex_digit_def)
  let ?l4 = "eat_while char_hexdigit ?l3"
  have e4: "?l4 = ?l3\<lparr>lx_pos := lx_pos ?l3 + length ?h\<rparr>" and a4: "at_text ?l4 (''}'' @ r)"
    using at_text_eat [OF a3 dig disjI2 [OF close]] by simp_all
  have t: "text_from ?l4 (lx_pos ?l3) = ?h" using a3 unfolding e4 by (simp add: text_from_def text_between_def at_text_def)
  have p: "peek ?l1 = Some ''u''" "peek ?l2 = Some ''{''" "peek ?l4 = Some ''}''"
    using at_text_char(1) [OF a1] at_text_char(1) [OF a2] at_text_char(1) [OF a4] by simp_all
  have u: "unicode_escape val (lx_pos lx) ?l2 = (val @ [char_of n], bump ?l4)"
    using h n by (simp add: unicode_escape_def Let_def p t char_from_u32_def encode_char_def)
  have esc: "escape_char val (lx_pos lx) ?l1 = (val @ [char_of n], bump ?l4)" by (simp add: escape_char_def p u Let_def)
  have l3: "?l3 = lx\<lparr>lx_pos := lx_pos lx + 3\<rparr>"
    using at_text_char(2) [OF a2] at_text_char(2) [OF a1] at_text_char(2) [OF a0] by simp
  have "bump ?l4 = ?l4\<lparr>lx_pos := lx_pos ?l4 + length ''}''\<rparr>" by (rule at_text_char(2) [OF a4]) simp
  also have "\<dots> = lx\<lparr>lx_pos := lx_pos lx + length (hex_escape n)\<rparr>" unfolding e4 unfolding l3 by (simp add: hex_escape_def)
  finally have "bump ?l4 = lx\<lparr>lx_pos := lx_pos lx + length (hex_escape n)\<rparr>" .
  then show ?thesis using backslash_read [of lx "CHR ''u'' # CHR ''{'' # ?h @ CHR ''}'' # r"] a0 esc by simp
qed

lemma piece_read:
  assumes "valid_char c" "at_text lx (escape_piece c @ r)"
  shows "\<exists>lx'. string_loop start val lx = string_loop start (val @ c) lx' \<and> lx' = lx\<lparr>lx_pos := lx_pos lx + length (escape_piece c)\<rparr>"
  using assms(1)
proof (cases rule: piece_cases)
  case plain
  then show ?thesis
    using assms plain_read [of lx c r] at_text_char(2) [of lx c r] valid_proper [OF assms(1)] by simp
next
  case (short b e)
  have a: "at_text lx ([CHR 0x5C] @ e # r)" using assms(2) short(3) by simp
  have a1: "at_text (bump lx) ([e] @ r)" using at_text_char(3) [OF a] by simp
  have "(of_char e :: nat) < 192" using short(1) by (auto simp: short_escapes_def)
  then have "bump (bump lx) = lx\<lparr>lx_pos := lx_pos lx + 2\<rparr>" using at_text_char(2) [OF a1] at_text_char(2) [OF a] by simp
  then show ?thesis using short_read [OF short(1), of lx r] a short(2,3) by simp
next
  case (hex n)
  then show ?thesis using hex_read [of n lx r start val] assms(2) by simp
qed

lemma pieces_read:
  "list_all valid_char cs \<Longrightarrow> at_text lx (concat (map escape_piece cs) @ r) \<Longrightarrow>
     string_loop start val lx = string_loop start (val @ concat cs) (lx\<lparr>lx_pos := lx_pos lx + length (concat (map escape_piece cs))\<rparr>)"
proof (induction cs arbitrary: val lx)
  case (Cons c cs)
  let ?lx' = "lx\<lparr>lx_pos := lx_pos lx + length (escape_piece c)\<rparr>"
  have a: "at_text lx (escape_piece c @ concat (map escape_piece cs) @ r)" using Cons.prems(2) by simp
  have "at_text ?lx' (concat (map escape_piece cs) @ r)"
    using a by (simp add: at_text_def) (metis add.commute append_eq_conv_conj drop_drop)
  then show ?case using Cons.IH [of ?lx' "val @ c"] piece_read [OF _ a, of start val] Cons.prems(1) by (auto simp: add.assoc)
qed simp

section \<open>The literal\<close>

text \<open>The characters of a written piece: the character itself, or the bytes of its escape.\<close>

definition piece_chars :: "string \<Rightarrow> string list" where
  "piece_chars c = (if plain_piece c then [c] else map (\<lambda>b. [b]) (escape_piece c))"

lemma concat_singletons [simp]: "concat (map (\<lambda>b. [b]) s) = s" by (induction s) auto

lemma concat_piece_chars: "concat (piece_chars c) = escape_piece c"
  by (simp add: piece_chars_def plain_escape)

lemma concat_concat_pieces: "concat (concat (map piece_chars cs)) = concat (map escape_piece cs)"
  by (induction cs) (simp_all add: concat_piece_chars)

text \<open>The characters a text may hold and still be written so that it can be read: all but those that deceive and have no escape.\<close>

definition shown_char :: "string \<Rightarrow> bool" where
  "shown_char c \<longleftrightarrow> \<not> is_bidi_control c \<and> code_point c \<notin> {0x85, 0x2028, 0x2029}"

lemma escape_bytes_clean:
  assumes "valid_char c" "\<not> plain_piece c" "b \<in> set (escape_piece c)"
  shows "(of_char b :: nat) < 128 \<and> clean_char [b]"
proof -
  have small: "list_all (\<lambda>n. list_all (\<lambda>b. (of_char b :: nat) < 128 \<and> clean_char [b]) (hex_escape n)) [0..<32]" by code_simp
  have short: "list_all (\<lambda>(b, e). list_all (\<lambda>b. (of_char b :: nat) < 128 \<and> clean_char [b]) [CHR 0x5C, e]) short_escapes" by code_simp
  show ?thesis
    using assms(1)
  proof (cases rule: piece_cases)
    case (short b' e)
    then show ?thesis using \<open>list_all _ short_escapes\<close> assms(3) by (auto simp: list_all_iff)
  next
    case (hex n)
    then show ?thesis using small assms(3) unfolding list_all_iff by auto
  qed (use assms(2) in simp)
qed

lemma piece_chars_ok:
  assumes "valid_char c" "shown_char c" "x \<in> set (piece_chars c)"
  shows "proper_char x \<and> clean_char x"
proof (cases "plain_piece c")
  case True
  then have "x = c" using assms(3) by (simp add: piece_chars_def)
  moreover have "c \<noteq> [CHR 0x0D]" "code_point c \<noteq> 0x0B" "code_point c \<noteq> 0x0C" using True by (auto simp: plain_piece_def)
  ultimately show ?thesis using assms(1,2) by (simp add: valid_proper clean_char_def shown_char_def)
next
  case False
  then obtain b where b: "x = [b]" "b \<in> set (escape_piece c)" using assms(3) by (auto simp: piece_chars_def)
  show ?thesis using escape_bytes_clean [OF assms(1) False b(2)] b(1) by simp
qed

lemma str_chars_escape:
  assumes "valid_str s" "list_all shown_char (str_chars s)"
  shows "\<forall>c\<in>set (str_chars (escape_str s)). clean_char c"
proof -
  let ?cs = "[[CHR 0x22]] @ concat (map piece_chars (str_chars s)) @ [[CHR 0x22]]"
  have ok: "proper_char x \<and> clean_char x" if "x \<in> set ?cs" for x
  proof -
    have "clean_char [CHR 0x22]" by code_simp
    then show ?thesis using that assms piece_chars_ok by (auto simp: valid_str_def list_all_iff)
  qed
  have "concat ?cs = escape_str s" by (simp add: escape_str_def concat_concat_pieces)
  then have "str_chars (escape_str s) = ?cs" using str_chars_proper [of ?cs] ok by (simp add: list_all_iff)
  then show ?thesis using ok by simp
qed

text \<open>C29: A string the formatter writes is read back as the same string, whatever it holds: quotes, backslashes, newlines, every
  control character and every character beyond ASCII, except the bidirectional controls and the three line break lookalikes
  the formatter writes without an escape.\<close>

theorem string_literal_read_back:
  assumes "valid_str s" "list_all shown_char (str_chars s)"
  shows "lex u lb file (escape_str s) = Some (one_token file (length (escape_str s)) (TkStr s), [])"
proof -
  let ?src = "escape_str s" and ?body = "concat (map escape_piece (str_chars s))"
  let ?lx = "\<lparr>lx_file = file, lx_src = ?src, lx_pos = 0, lx_tokens = [], lx_diags = [], lx_comments = [], lx_morph = None\<rparr>"
  have a0: "at_text ?lx ([CHR 0x22] @ ?body @ [CHR 0x22])" by (simp add: at_text_def escape_str_def)
  have a1: "at_text (bump ?lx) (?body @ [CHR 0x22])" using at_text_char(3) [OF a0] by simp
  have b: "bump ?lx = ?lx\<lparr>lx_pos := 1\<rparr>" using at_text_char(2) [OF a0] by simp
  let ?l2 = "(bump ?lx)\<lparr>lx_pos := lx_pos (bump ?lx) + length ?body\<rparr>"
  have a2: "at_text ?l2 ([CHR 0x22] @ [])" using a1 by (simp add: at_text_def) (metis append_eq_conv_conj drop_drop add.commute)
  have p2: "peek ?l2 = Some [CHR 0x22]" and b2: "bump ?l2 = ?l2\<lparr>lx_pos := lx_pos ?l2 + 1\<rparr>"
    using at_text_char(1,2) [OF a2] by simp_all
  have "string_loop 0 [] (bump ?lx) = string_loop 0 s ?l2"
    using pieces_read [OF assms(1) [unfolded valid_str_def] a1, of 0 "[]"] by (simp add: concat_str_chars)
  also have "\<dots> = push_token (TkStr s) 0 (bump ?l2)" by (subst string_loop.simps) (simp add: p2 line_feed_def)
  also have "\<dots> = ?lx\<lparr>lx_pos := length ?src, lx_diags := [], lx_tokens := [\<lparr>tk_kind = TkStr s, tk_span = src_span file 0 (length ?src)\<rparr>]\<rparr>"
    unfolding b2 unfolding b push_token_def span_from_def by (simp add: escape_str_def)
  finally have l: "string_loop 0 [] (bump ?lx) = \<dots>" .
  have q: "map_of single_tokens [CHR 0x22] = None" by code_simp
  have "scan_char u lb 0 [CHR 0x22] (bump ?lx) = string_loop 0 [] (bump ?lx)" by (simp add: scan_char_def q)
  note sc = this [unfolded l]
  have w: "[CHR 0x22] \<noteq> line_feed" "\<not> char_whitespace [CHR 0x22]" "[CHR 0x22] \<noteq> ''/''" by code_simp+
  have bom: "\<not> starts_with byte_order_mark ?src" by (simp add: escape_str_def starts_with_def byte_order_mark_def)
  have p0: "peek ?lx = Some [CHR 0x22]" using at_text_char(1) [OF a0] by simp
  show ?thesis
    by (rule lex_one_token [OF str_chars_escape [OF assms] bom p0 w refl sc]) (simp add: can_end_statement_def)
qed

theorem string_literal_read_back_witness:
  "lex no_unicode plain_libs 0 (escape_str [CHR 0x22, CHR 0x0A, CHR 0x1F, CHR 0xC3, CHR 0xA9]) =
     Some (one_token 0 14 (TkStr [CHR 0x22, CHR 0x0A, CHR 0x1F, CHR 0xC3, CHR 0xA9]), [])"
proof -
  have v: "valid_str [CHR 0x22, CHR 0x0A, CHR 0x1F, CHR 0xC3, CHR 0xA9]" by code_simp
  have c: "list_all shown_char (str_chars [CHR 0x22, CHR 0x0A, CHR 0x1F, CHR 0xC3, CHR 0xA9])" by code_simp
  have "length (escape_str [CHR 0x22, CHR 0x0A, CHR 0x1F, CHR 0xC3, CHR 0xA9]) = 14" by code_simp
  with string_literal_read_back [OF v c, of no_unicode plain_libs 0] show ?thesis by simp
qed

end
