(* ===== verification/Morph_Claims.thy ===== *)
theory Morph_Claims imports Morph Lexer_Literals begin

text \<open>
  What a morph that was accepted is, what rendering does to a text, and where rendering back fails.
\<close>

text \<open>The alias \<open>=\<close> is accepted, since no rule of \<open>alias_defect\<close> speaks of operators.\<close>

definition equals_morph :: morph where
  "equals_morph = \<lparr>mo_id = ''m'', mo_name = ''m'', mo_version = ''1'', mo_kind = Compact,
     mo_canon_to_alias = [(''let'', ''='')], mo_alias_to_kind = [(''='', KwLet)]\<rparr>"

lemma equals_morph_accepted: "morph_new ''m'' ''m'' ''1'' Compact [(''let'', ''='')] = Inr equals_morph"
  by code_simp

section \<open>Validation\<close>

lemma morph_new_Inr:
  assumes "morph_new ident name version kind entries = Inr mo"
  obtains renamed claimed where "foldl add_entry ([], [], []) entries = ([], renamed, claimed)"
    "mo_canon_to_alias mo = filter (\<lambda>(canon, alias). canon \<noteq> alias) renamed"
    "mo_alias_to_kind mo = scan_order (List.map_filter (\<lambda>(canon, alias). map_option (\<lambda>k. (alias, k)) (keyword canon)) (mo_canon_to_alias mo))"
  using assms by (cases "foldl add_entry ([], [], []) entries") (auto simp: morph_new_def Let_def split: if_splits)

lemma distinct_filter_map: "distinct (map f xs) \<Longrightarrow> distinct (map f (filter P xs))"
  by (induction xs) auto



section \<open>Undoing a splice\<close>

text \<open>The edits that undo a splice: each replacement, where it stands in the result, gives way to the text it replaced.\<close>

fun back_from :: "string \<Rightarrow> nat \<Rightarrow> nat \<Rightarrow> edit list \<Rightarrow> edit list" where
  "back_from src cursor cursor' [] = []"
| "back_from src cursor cursor' ((a, b, t) # edits) =
     (let a' = cursor' + (a - cursor)
      in (a', a' + length t, text_between src a b) # back_from src b (a' + length t) edits)"

fun edits_in_order :: "nat \<Rightarrow> string \<Rightarrow> edit list \<Rightarrow> bool" where
  "edits_in_order cursor src [] = True"
| "edits_in_order cursor src ((a, b, t) # es) =
     (cursor \<le> a \<and> a \<le> b \<and> b \<le> length src \<and> edits_in_order b src es)"

lemma boundaries_Cons [simp]: "boundaries (t # ts) = ss_start (tk_span t) # ss_end (tk_span t) # boundaries ts"
  by (simp add: boundaries_def)

lemma edits_of_tokens:
  assumes "\<And>t a b s. f t = Some (a, b, s) \<Longrightarrow> a = ss_start (tk_span t) \<and> b = ss_end (tk_span t)"
  shows "sorted (cursor # boundaries ts) \<Longrightarrow> \<forall>x\<in>set (boundaries ts). x \<le> length src \<Longrightarrow>
    edits_in_order cursor src (List.map_filter f ts)"
proof (induction ts arbitrary: cursor)
  case (Cons t ts)
  show ?case
  proof (cases "f t")
    case None
    then show ?thesis using Cons by simp
  next
    case (Some e)
    then obtain a b s where e: "e = (a, b, s)" "a = ss_start (tk_span t)" "b = ss_end (tk_span t)" using assms by (cases e) blast
    then show ?thesis using Cons Some by simp
  qed
qed simp

lemma length_text_between: "a \<le> b \<Longrightarrow> b \<le> length s \<Longrightarrow> length (text_between s a b) = b - a"
  by (simp add: text_between_def)

lemma splice_back_from:
  "edits_in_order cursor src es \<Longrightarrow> length pre = cursor' \<Longrightarrow> cursor \<le> length src \<Longrightarrow>
     splice_from (pre @ splice_from src cursor es) cursor' (back_from src cursor cursor' es) = drop cursor src"
proof (induction src cursor es arbitrary: pre cursor' rule: splice_from.induct)
  case (1 src cursor)
  then show ?case by simp
next
  case (2 src cursor a b t es)
  then have o: "cursor \<le> a" "a \<le> b" "b \<le> length src" "edits_in_order b src es" by simp_all
  let ?gap = "text_between src cursor a" and ?rest = "splice_from src b es"
  let ?a' = "cursor' + (a - cursor)"
  let ?O = "pre @ ?gap @ t @ ?rest"
  have g: "length ?gap = a - cursor" using o by (intro length_text_between) simp_all
  have t1: "text_between ?O cursor' ?a' = ?gap" using 2(4) g by (simp add: text_between_def)
  have ih: "splice_from ?O (?a' + length t) (back_from src b (?a' + length t) es) = drop b src"
    using "2.IH"(2) [of "pre @ ?gap @ t" "?a' + length t"] o 2(4) g by simp
  have "pre @ splice_from src cursor ((a, b, t) # es) = ?O" using o(1) by simp
  moreover have "back_from src cursor cursor' ((a, b, t) # es) = (?a', ?a' + length t, text_between src a b) # back_from src b (?a' + length t) es"
    by (simp only: back_from.simps Let_def)
  moreover have "\<not> ?a' < cursor'" by simp
  ultimately have "splice_from (pre @ splice_from src cursor ((a, b, t) # es)) cursor' (back_from src cursor cursor' ((a, b, t) # es))
      = text_between ?O cursor' ?a' @ text_between src a b @ splice_from ?O (?a' + length t) (back_from src b (?a' + length t) es)"
    by (simp only: splice_from.simps if_False)
  also have "\<dots> = text_between src cursor (length src)"
    unfolding t1 ih using o text_between_append [of cursor a "length src" src] text_between_append [of a b "length src" src]
    by (simp add: text_between_def)
  finally show ?case by (simp add: text_between_def)
qed

lemma lex_no_morph: "lex_with_morph u lb file src None = lex u lb file src"
proof -
  have "(lexer_new file src)\<lparr>lx_morph := None\<rparr> = lexer_new file src" by (simp add: lexer_new_def)
  then show ?thesis by (simp add: lex_with_morph_def lex_def)
qed

lemma spelled_keyword: "keyword_lexeme k = Some w \<Longrightarrow> spelled k s \<Longrightarrow> s = w"
  by (cases k) (simp_all add: spelled_def token_lexeme_def keyword_lexeme_def)

lemma back_texts: "list_all (\<lambda>(a, b, t). P (text_between src a b)) es \<Longrightarrow> list_all (\<lambda>(a, b, t). P t) (back_from src c c' es)"
  by (induction src c c' es rule: back_from.induct) (simp_all add: Let_def)

text \<open>C32: A text rendered into a morph differs from the source in the spans of the renamed keywords alone: putting the replaced
  texts back where the aliases now stand gives the source again, byte for byte, and each of these texts is a keyword.\<close>

theorem render_undone:
  assumes "length src < 2 ^ 32" "lex u lb file src = Some (tokens, diags)" "render u lb m file src = Some (Inr out)"
  shows "splice out (back_from src 0 0 (render_edits m tokens)) = src \<and>
    list_all (\<lambda>(_, _, t). keyword t \<noteq> None) (back_from src 0 0 (render_edits m tokens))"
proof
  have l: "lex_with_morph u lb file src None = Some (tokens, diags)" using assms(2) by (simp add: lex_no_morph)
  have out: "out = splice src (render_edits m tokens)" using assms(2,3) by (auto simp: render_def Let_def split: if_splits)
  have e: "a = ss_start (tk_span t) \<and> b = ss_end (tk_span t)" if "render_edit m t = Some (a, b, s)" for t a b s
    using that by (auto simp: render_edit_def split: option.splits)
  have "edits_in_order 0 src (render_edits m tokens)"
    unfolding render_edits_def using edits_of_tokens [of "render_edit m" 0 tokens src, OF e] spans_sorted [OF assms(1) l] by auto
  then show "splice out (back_from src 0 0 (render_edits m tokens)) = src"
    using splice_back_from [of 0 src "render_edits m tokens" "[]" 0] by (simp add: out splice_def)
  have "keyword (text_between src a b) \<noteq> None" if h: "(a, b, s) \<in> set (render_edits m tokens)" for a b s
  proof -
    obtain t where t: "t \<in> set tokens" "render_edit m t = Some (a, b, s)" using h by (auto simp: render_edits_def set_map_filter)
    then obtain w where w: "keyword_lexeme (tk_kind t) = Some w" by (auto simp: render_edit_def split: option.splits)
    then have "tk_kind t \<noteq> TkTerm" "tk_kind t \<noteq> TkEof" by (auto simp: keyword_lexeme_def)
    then have "spelled (tk_kind t) (token_text src t)"
      using tokens_well_spelled [OF assms(1) l] t(1) by (auto simp: well_spelled_def spelled_by_def)
    then have "token_text src t = w" by (rule spelled_keyword [OF w])
    then show ?thesis using e [OF t(2)] w by (simp add: token_text_def keyword_of_lexeme)
  qed
  then show "list_all (\<lambda>(_, _, t). keyword t \<noteq> None) (back_from src 0 0 (render_edits m tokens))"
    by (intro back_texts [where P = "\<lambda>s. keyword s \<noteq> None"]) (auto simp: list_all_iff)
qed

definition let_tokens :: "token list" where
  "let_tokens = [\<lparr>tk_kind = KwLet, tk_span = src_span 0 0 3\<rparr>, \<lparr>tk_kind = TkIdent ''x'', tk_span = src_span 0 4 5\<rparr>, term_token 0 5, eof_token 0 5]"

lemma let_lexed: "lex no_unicode plain_libs 0 ''let x'' = Some (let_tokens, [])"
  by code_simp

theorem render_undone_witness: "splice ''= x'' (back_from ''let x'' 0 0 (render_edits equals_morph let_tokens)) = ''let x''"
proof -
  have "render no_unicode plain_libs equals_morph 0 ''let x'' = Some (Inr ''= x'')" by code_simp
  from render_undone [OF _ let_lexed this] show ?thesis by simp
qed

section \<open>Where rendering back fails\<close>

text \<open>
  Rendering \<open>a == b\<close> succeeds and changes nothing: no token is \<open>=\<close>. Rendering back reads each \<open>=\<close> of the operator
  as the alias and writes \<open>let\<close> twice: canonical to morph to canonical is not the identity.
\<close>

lemma identity_law_fails:
  "render no_unicode plain_libs equals_morph 0 ''a == b'' = Some (Inr ''a == b'')"
  "morph_to_canonical no_unicode plain_libs equals_morph 0 ''a == b'' = Some (Inr ''a letlet b'')"
  by code_simp+

text \<open>
  The formatter's \<open>escape_str\<close> writes the right-to-left override as itself. A source that spells it \<open>\u{202e}\<close>, as the
  diagnostic advises, lexes without an error; formatted, it is refused.
\<close>

lemma formatted_override_refused:
  "lex no_unicode plain_libs 0 ([CHR 0x22, CHR 0x5C] @ ''u{202e}'' @ [CHR 0x22]) = Some (one_token 0 10 (TkStr override), [])"
  "map_option (map (problem_code \<circ> ld_problem) \<circ> snd) (lex no_unicode plain_libs 0 (escape_str override)) = Some [''DL0107'']"
  by code_simp+

text \<open>
  A comment on the first line of a file with a byte order mark is recorded as a trailing comment: the mark
  before it is not white space.
\<close>

lemma mark_hides_own_line:
  "map_option (\<lambda>(_, _, cs). map sc_own_line cs) (lex_with_comments no_unicode plain_libs 0 ''// a'') = Some [True]"
  "map_option (\<lambda>(_, _, cs). map sc_own_line cs) (lex_with_comments no_unicode plain_libs 0 (byte_order_mark @ ''// a'')) = Some [False]"
  by code_simp+

end
