(* ===== verification/Spec2Isabelle.thy ===== *)
theory Spec2Isabelle imports Audit_Chain Validate_Claims Guard_Claims Deadman_Claims Secrets_Claims Lease_Claims
  Cert_Claims Proposal_Claims System_Claims Divergences Unify_Claims Rcap_Claims
  Rcap_Flow_Claims Device_Delegation Net_Class_Claims Morph_Claims begin

text \<open>
  The custody core of DeluluLang, the crate \<open>crates/delulu-broker/src\<close>, and the core of its checker, in
  \<open>crates/delulu-check/src\<close>. The broker holds what each running program
  may do as a tree of grants: a root is issued or adopted from a chain of signed certificates, a child is
  derived with no more than its parent holds, and revoking a node revokes all below it. Programs ask the broker
  before each effect (\<open>validate.rs\<close>); a guard of the owner's may want a permit as well (\<open>guard.rs\<close>); every decision
  is a record of a hash chain (\<open>audit.rs\<close>).

  The parts, each theory with the source it models, in the order of their imports:

  \<^item> \<open>Prelude\<close>: strings as bytes with the operations of \<open>str\<close> that are used, decimals, hexadecimals, \<open>i64\<close> arithmetic,
    finite sets. \<open>Json\<close>: \<open>serde_json\<close>'s values and \<open>audit.rs\<close>'s \<open>canonical_json\<close>; the record \<open>libs\<close> holds the library
    functions the code calls (hashes, JSON parsing and quoting, decimal text of doubles).
  \<^item> The attenuation lattice. \<open>Scope_Order\<close> states the interfaces (\<open>scope_order\<close>, \<open>entry_meets\<close>, \<open>scope_meet\<close>) that every
    dimension of a grant provides: \<open>Path_Scope\<close> (\<open>path.rs\<close>), \<open>Net_Scope\<close>, \<open>Net_Order\<close> and \<open>Net_Entries\<close>
    (\<open>netscope.rs\<close>), \<open>Budget_Scope\<close> (\<open>budget_scope.rs\<close>), \<open>Device_Scope\<close> (\<open>device_scope.rs\<close>), \<open>Effect_Row\<close> (the effects of
    \<open>delulu-check/src/ty.rs\<close>); \<open>Authority\<close> (\<open>authority.rs\<close>) puts them together.
  \<^item> \<open>Denial\<close> (\<open>diag.rs\<close>): why the broker refuses. \<open>Audit_Log\<close> and \<open>Audit_Chain\<close> (\<open>audit.rs\<close>): records, sink, bundles, and
    what the chain proves to a third party. \<open>Ops\<close> (\<open>validate.rs\<close>): the operations a program asks for.
    \<open>Guard_Policy\<close> (\<open>guard.rs\<close>): rules, patterns and tiers.
  \<^item> The state. \<open>Broker_State\<close>: the record \<open>broker\<close>, its clock and its log. Identifier source, clock, sink and randomness
    are operations on a world of type \<open>'w\<close> in the record \<open>'w env\<close>; \<open>Sim_World\<close> (\<open>ids.rs\<close>, \<open>time.rs\<close>) is the instance the
    broker ships for reproducible runs.
  \<^item> The tree, \<open>tree.rs\<close>: \<open>Tree\<close> (operations), \<open>Tree_Inv\<close> (the invariant and what the walks mean), \<open>Tree_Ops\<close> (relations
    between states), \<open>Tree_World\<close> (the interfaces \<open>fresh_world\<close>, \<open>frame_contract\<close> and \<open>custody_contract\<close>).
  \<^item> The modules on it: \<open>Guard\<close> (\<open>guard.rs\<close>), \<open>Validate\<close> (\<open>validate.rs\<close>), \<open>Deadman\<close> (\<open>deadman.rs\<close>), \<open>Secrets\<close> (\<open>secrets.rs\<close>),
    \<open>Lease\<close> (\<open>lease.rs\<close>), \<open>Cert\<close> (\<open>cert.rs\<close>), \<open>Proposal\<close> (\<open>proposal.rs\<close>). Each proves that its operations respect every
    relation that the primitive steps respect, so the invariants of the whole come without looking at it again.
    What each promises is in the theory of its name with \<open>_Claims\<close>.
  \<^item> \<open>System\<close>: all operations as one labelled step relation, its runs and reachable states; \<open>System_Claims\<close>: what holds of
    them. \<open>Divergences\<close>: where code and documentation differ, on concrete inputs.

  \<^item> The checker. \<open>Ty\<close> (\<open>ty.rs\<close>): rows, types and their text. \<open>Unify\<close> (\<open>unify.rs\<close>): the inference context, the occurs check,
    writing types out, unification of rows and of types; \<open>Unify_Inv\<close> (well-formed contexts and their solutions),
    \<open>Unify_Steps\<close> (single bindings and rows), \<open>Unify_Sound\<close> lead to \<open>Unify_Claims\<close>. \<open>Rcaps\<close> (\<open>rcaps.rs\<close>): the
    reference capabilities; \<open>Rcap_Claims\<close>: their tables, the absence of races, the default of a type.

  \<^item> The reference-capability pass. \<open>Ast\<close> (\<open>delulu-syntax/src/ast.rs\<close>, \<open>delulu-diag/src/span.rs\<close> and the table of
    \<open>resolve.rs\<close>): the tree it walks. \<open>Rcap_Check\<close>, \<open>Free_Names\<close> and \<open>Rcap_Walk\<close> (\<open>rcap_check.rs\<close>): its state and rules, the
    names a body reads and consumes, the walk up to \<open>check_rcaps\<close>. \<open>Rcap_Flow\<close> states what consuming means: the runs of a
    body as sequences of events, in the interpreter's order, and an analysis of which bindings may be dead. \<open>Rcap_Refine\<close>:
    the pass refines that analysis. \<open>Name_Sets\<close>: names free and consumed free, as sets. \<open>Rcap_Runs\<close>, \<open>Rcap_Tame\<close> and
    \<open>Rcap_Sound\<close>: what runs kill, where the analysis takes nothing back, and that what it accepts never goes wrong.
    \<open>Rcap_Bodies\<close> carries both to the bodies of a module; \<open>Rcap_Flow_Claims\<close> holds programs the pass accepts wrongly,
    and what it guarantees.

  \<^item> The devices of a run, \<open>delulu-runtime/src\<close>. \<open>Actuator\<close> (\<open>value.rs\<close>, \<open>device.rs\<close>): the envelope a grant is read into and the
    checks of a command; \<open>Actuator_Claims\<close>: it is the broker's reading, and its order is containment of commands.
    \<open>Device_Sim\<close> (\<open>sim.rs\<close>): the reference simulator. \<open>Device_Broker\<close> (\<open>device.rs\<close>): leases, both clocks, commands, the
    watchdog. \<open>Device_Runs\<close> and \<open>Device_Inv\<close>: what an operation does to a lease, operations cut into single changes, the
    invariants of the journal and of the positions; \<open>Device_Claims\<close>: what holds along every run. \<open>Device_Delegation\<close> ties the
    machine to the grant tree. \<open>Approval\<close> (\<open>device.rs\<close>): the sign-off between simulation and hardware.
  \<^item> \<open>Net_Class\<close> (\<open>delulu-runtime/src/netclass.rs\<close>): special-use addresses, as spelled in a grant and as resolved;
    \<open>Net_Class_Claims\<close>: no spelling walks past the tables, and what they cover.

  \<^item> The surface of the language, \<open>delulu-syntax/src\<close>. \<open>Tokens\<close> (\<open>token.rs\<close>): characters of a UTF-8 text, token kinds and
    their tables. \<open>Morph_Table\<close> (\<open>morph.rs\<close>): a renaming of keywords and its validation. \<open>Lexer\<close> (\<open>lexer.rs\<close>, \<open>num.rs\<close>): the
    state, the scans of the raw text, trivia, every token, the loop. \<open>Lexer_Inv\<close>: what a step does to the state, and the
    locale \<open>lexer_invariant\<close>, which carries a property kept by skipping, by inserting a terminator and by pushing a token
    through the loop. \<open>Lexer_Claims\<close> interprets it for spans, spellings, terminators and reports. \<open>Lexer_Literals\<close> (with
    \<open>escape_str\<close> of \<open>fmt.rs\<close>): literals read back. \<open>Morph\<close> and \<open>Morph_Claims\<close> (\<open>morph.rs\<close>): rendering into a morph and back.

  Correspondence. A struct is a record with the source's fields, an enum a datatype, a \<open>BTreeMap\<close> an \<open>fmap\<close>, a \<open>BTreeSet\<close>
  an \<open>fset\<close>, a \<open>Vec\<close> a list. A method on \<open>&mut Broker\<close> is a function from the environment, its arguments and the broker to
  its answer and the broker after it; \<open>Result\<close> is a sum with the denial on the left. The texts inside errors are
  constructors that carry what they interpolate.

  Lemma groups. The lattice: partial orders, exact meets, canonical forms, round trips. The tree: well-formedness, a walk
  is the ancestor relation, revocation is closed below, no authority widens. Modules: what an allowed use, a permit, a
  token, a certificate chain, a dead-man, a proposal and a secret each guarantee. The whole: the invariants in all
  reachable states and the monotony along runs. The checker: unification is sound, keeps every unifier and ends on every
  context that its operations build; reference capabilities exclude races; accepted bodies never use what they consumed.
  The devices: a lease dies once and silence kills it, accepted commands are granted ones, the simulated machine stays in
  its envelope, a delegated machine in that of every ancestor. The surface: the lexer returns, its spans read the text in
  order, tokens say what the text says, statements end where lines do, no deceptive text passes, literals are read back,
  a rendering changes keywords alone.

  Bounds and fuel. The source's walks to the root stop after 1024 nodes (\<open>MAX_WALK\<close>); properties that need the whole
  ancestry assume a tree of fewer nodes. Its two unbounded walks carry the number of nodes plus one as fuel, which
  \<open>unbounded_walks_end\<close> shows to be enough on every well-formed tree. Sequence numbers, \<open>u64\<close> in the source, are
  naturals; times are integers, and wrap or saturate where the source does. Unification recurses through bindings and
  carries fuel, of which \<open>unification_ends\<close> shows some to be enough; its loops are \<open>while_option\<close>, total on well-formed
  contexts. The shallow lowering of a written type follows as many aliases as there are declared types.

  The lexer's offsets are cut to 32 bits as the casts of the source cut them, so what speaks of spans assumes a text of less
  than 4 GiB; the depth of nested comments, 32 bits in the source, is a natural number, which such a text cannot exhaust.
  Its main loop is a partial function, shown to return for every morph that was accepted.

  The clock of the devices counts microseconds in 64 bits and wraps in the stepped mode; the property that silence loses a
  device assumes that it does not reach the end. On the wall clock every reading is an argument of the operation that takes it.

  Assumed of the outside, as hypotheses where they are used: identifiers are not repeated (\<open>fresh_world\<close>); the hash has no
  collisions, for the tamper evidence only; parsing reads back what was written, for the token's round trip.

  Not modelled: files and locks (the file-backed log and its follower, the key file, the file of secrets), the English text
  of diagnostics and the tree's display, the rendering of records as security events (\<open>ocsf.rs\<close>); and the crates around
  the custody: the daemon and command line, the walk of the type checker over syntax trees, the parser and the
  layout of the formatter, the rest of the runtime, code generation, registry and tools, which are systems of their own. Of the devices: threads, the hardware
  adapters (any implementation is a parameter) and the lines of the simulated device's pipe.
\<close>

end
